(* ===== verification/Nostr_Prelude.thy ===== *)
theory Nostr_Prelude
  imports Main "HOL-Library.Word" "HOL-Library.List_Lexorder" "HOL-Library.Char_ord"
    "HOL-Library.Product_Lexorder" "HOL-Library.AList"
begin

text \<open>
  What the components of the model share: machine integer types, the error kinds of
  nostr/src/error.rs and results, saturating and checked arithmetic, the pieces of Rust's
  string library the code uses (\<open>split\<close>, \<open>split_once\<close>, \<open>starts_with\<close>, decimal printing and
  parsing), ordered sets (\<open>BTreeSet\<close>) as lists that are strictly sorted by a key, and the
  lemma collections of the development.

  A Rust \<open>String\<close> is a list of UTF-8 bytes and Isabelle's \<^typ>\<open>char\<close> is one byte, so a
  \<^typ>\<open>string\<close> is the byte sequence of the Rust string and \<open>length\<close> is Rust's \<open>len\<close>.
\<close>

section \<open>Machine integers, errors and results\<close>

type_synonym u8 = "8 word"
type_synonym u16 = "16 word"
type_synonym u32 = "32 word"
type_synonym u64 = "64 word"

named_theorems results
named_theorems btree

datatype error_kind = Malformed | Invalid | Missing | Unsupported | Crypto | OtherError

type_synonym 'a res = "error_kind + 'a"

text \<open>The \<open>?\<close> operator: stop at the first error.\<close>

definition rbind :: "'e + 'a \<Rightarrow> ('a \<Rightarrow> 'e + 'b) \<Rightarrow> 'e + 'b" where
  "rbind r f = (case r of Inl e \<Rightarrow> Inl e | Inr x \<Rightarrow> f x)"

text \<open>\<open>Option::ok_or\<close> and \<open>Result::ok\<close>.\<close>

definition ok_or :: "'a option \<Rightarrow> 'e \<Rightarrow> 'e + 'a" where
  "ok_or x e = (case x of None \<Rightarrow> Inl e | Some y \<Rightarrow> Inr y)"

definition ok_of :: "'e + 'a \<Rightarrow> 'a option" where
  "ok_of r = (case r of Inl e \<Rightarrow> None | Inr x \<Rightarrow> Some x)"

lemma rbind_simps [simp, results]:
  "rbind (Inl e) f = Inl e"
  "rbind (Inr x) f = f x"
  by (simp_all add: rbind_def)

lemma rbind_Inr [results]: "rbind r f = Inr y \<longleftrightarrow> (\<exists>x. r = Inr x \<and> f x = Inr y)"
  by (cases r) simp_all

lemma rbind_Inl [results]: "rbind r f = Inl e \<longleftrightarrow> r = Inl e \<or> (\<exists>x. r = Inr x \<and> f x = Inl e)"
  by (cases r) simp_all

lemma ok_or_simps [simp, results]:
  "ok_or None e = Inl e"
  "ok_or (Some x) e = Inr x"
  by (simp_all add: ok_or_def)

lemma ok_or_Inr [results]: "ok_or x e = Inr y \<longleftrightarrow> x = Some y"
  by (cases x) simp_all

lemma ok_of_simps [simp, results]:
  "ok_of (Inl e) = None"
  "ok_of (Inr x) = Some x"
  by (simp_all add: ok_of_def)

lemma ok_of_Some [results]: "ok_of r = Some x \<longleftrightarrow> r = Inr x"
  by (cases r) simp_all

section \<open>Saturating and checked arithmetic\<close>

text \<open>
  Unsigned integers whose overflow the code handles by saturation or a check are natural
  numbers, with the bound of their width written out. \<open>usize\<close> is 64 bits wide.
\<close>

definition u8_max :: nat where "u8_max = 255"
definition u16_max :: nat where "u16_max = 65535"
definition u32_max :: nat where "u32_max = 4294967295"
definition u64_max :: nat where "u64_max = 18446744073709551615"
definition usize_max :: nat where "usize_max = 18446744073709551615"

definition saturating_add :: "nat \<Rightarrow> nat \<Rightarrow> nat \<Rightarrow> nat" where
  "saturating_add m a b = min (a + b) m"

definition saturating_sub :: "nat \<Rightarrow> nat \<Rightarrow> nat" where
  "saturating_sub a b = (if b \<le> a then a - b else 0)"

definition checked_add :: "nat \<Rightarrow> nat \<Rightarrow> nat \<Rightarrow> nat option" where
  "checked_add m a b = (if a + b \<le> m then Some (a + b) else None)"

lemma saturating_sub_diff [simp]: "saturating_sub a b = a - b"
  by (simp add: saturating_sub_def)

lemma saturating_add_le [simp]: "saturating_add m a b \<le> m"
  by (simp add: saturating_add_def)

lemma saturating_add_exact: "a + b \<le> m \<Longrightarrow> saturating_add m a b = a + b"
  by (simp add: saturating_add_def)

section \<open>Strings\<close>

definition starts_with :: "string \<Rightarrow> string \<Rightarrow> bool" where
  "starts_with s p \<longleftrightarrow> take (length p) s = p"

definition ends_with :: "string \<Rightarrow> string \<Rightarrow> bool" where
  "ends_with s p \<longleftrightarrow> length p \<le> length s \<and> drop (length s - length p) s = p"

text \<open>\<open>str::split\<close> on one character: always at least one piece.\<close>

fun split_on :: "char \<Rightarrow> string \<Rightarrow> string list" where
  "split_on c [] = [[]]"
| "split_on c (x # xs) =
     (if x = c then [] # split_on c xs
      else (case split_on c xs of [] \<Rightarrow> [[x]] | y # ys \<Rightarrow> (x # y) # ys))"

text \<open>\<open>str::split_once\<close> on one character.\<close>

fun split_once :: "char \<Rightarrow> string \<Rightarrow> (string \<times> string) option" where
  "split_once c [] = None"
| "split_once c (x # xs) =
     (if x = c then Some ([], xs)
      else map_option (\<lambda>(a, b). (x # a, b)) (split_once c xs))"

lemma split_on_nonempty [simp]: "split_on c s \<noteq> []"
  by (induction s) (auto split: list.splits)

lemma split_on_no_sep: "c \<notin> set s \<Longrightarrow> split_on c s = [s]"
  by (induction s) auto

lemma split_on_append: "c \<notin> set a \<Longrightarrow> split_on c (a @ c # b) = a # split_on c b"
  by (induction a) auto

lemma split_on_pieces: "p \<in> set (split_on c s) \<Longrightarrow> c \<notin> set p"
  by (induction s arbitrary: p) (auto split: if_splits list.splits)

lemma split_once_append: "c \<notin> set a \<Longrightarrow> split_once c (a @ c # b) = Some (a, b)"
  by (induction a) auto

lemma starts_with_append [simp]: "starts_with (p @ s) p"
  by (simp add: starts_with_def)

text \<open>ASCII case folding on bytes: \<open>to_ascii_lowercase\<close>, \<open>eq_ignore_ascii_case\<close>.\<close>

definition ascii_lower :: "char \<Rightarrow> char" where
  "ascii_lower c =
     (let n = (of_char c :: nat) in if 65 \<le> n \<and> n \<le> 90 then char_of (n + 32) else c)"

definition eq_ignore_ascii_case :: "string \<Rightarrow> string \<Rightarrow> bool" where
  "eq_ignore_ascii_case a b \<longleftrightarrow> map ascii_lower a = map ascii_lower b"

text \<open>ASCII white space of \<open>u8::is_ascii_whitespace\<close>: space, tab, LF, FF, CR.\<close>

definition is_ascii_whitespace :: "char \<Rightarrow> bool" where
  "is_ascii_whitespace c \<longleftrightarrow> (of_char c :: nat) \<in> {32, 9, 10, 12, 13}"

subsection \<open>Bytes of a string\<close>

definition bytes_of :: "string \<Rightarrow> u8 list" where
  "bytes_of s = map (\<lambda>c. of_nat (of_char c)) s"

definition string_of_bytes :: "u8 list \<Rightarrow> string" where
  "string_of_bytes bs = map (\<lambda>b. char_of (unat b)) bs"

lemma string_of_bytes_of [simp]: "string_of_bytes (bytes_of s) = s"
proof -
  have "char_of (unat (of_nat (of_char c) :: u8)) = c" for c :: char
    by (simp add: unat_of_nat)
  then show ?thesis
    by (simp add: string_of_bytes_def bytes_of_def comp_def)
qed

lemma bytes_of_string_of [simp]: "bytes_of (string_of_bytes bs) = bs"
proof -
  have "(of_nat (of_char (char_of (unat b) :: char)) :: u8) = b" for b :: u8
  proof -
    have "unat b < 2 ^ LENGTH(8)" by (rule unsigned_less)
    then have "unat b < 256" by simp
    then show ?thesis by simp
  qed
  then show ?thesis
    by (simp add: string_of_bytes_def bytes_of_def comp_def)
qed

lemma length_bytes_of [simp]: "length (bytes_of s) = length s"
  by (simp add: bytes_of_def)

lemma bytes_of_append [simp]: "bytes_of (a @ b) = bytes_of a @ bytes_of b"
  by (simp add: bytes_of_def)

lemma bytes_of_inj [simp]: "bytes_of a = bytes_of b \<longleftrightarrow> a = b"
  by (metis string_of_bytes_of)

subsection \<open>Decimal numbers\<close>

definition digit_char :: "nat \<Rightarrow> char" where
  "digit_char d = char_of (48 + d)"

definition is_digit :: "char \<Rightarrow> bool" where
  "is_digit c \<longleftrightarrow> 48 \<le> (of_char c :: nat) \<and> (of_char c :: nat) \<le> 57"

definition digit_val :: "char \<Rightarrow> nat" where
  "digit_val c = of_char c - 48"

text \<open>\<open>to_string\<close> of an unsigned integer.\<close>

fun show_nat :: "nat \<Rightarrow> string" where
  "show_nat n = (if n < 10 then [digit_char n] else show_nat (n div 10) @ [digit_char (n mod 10)])"

declare show_nat.simps [simp del]

definition digits_val :: "string \<Rightarrow> nat" where
  "digits_val s = foldl (\<lambda>n c. n * 10 + digit_val c) 0 s"

text \<open>
  \<open>from_str\<close> of an unsigned integer type with largest value \<open>m\<close>: one optional plus sign,
  at least one digit, digits only, and no overflow.
\<close>

definition parse_uint :: "nat \<Rightarrow> string \<Rightarrow> nat option" where
  "parse_uint m s =
     (let ds = (case s of [] \<Rightarrow> [] | c # r \<Rightarrow> if c = CHR ''+'' then r else s)
      in if ds = [] \<or> \<not> list_all is_digit ds then None
         else if digits_val ds \<le> m then Some (digits_val ds) else None)"

lemma digit_char_props:
  assumes "d < 10"
  shows "is_digit (digit_char d)" and "digit_val (digit_char d) = d" and "digit_char d \<noteq> CHR ''+''"
    and "digit_char d \<noteq> CHR '':''"
proof -
  have v: "(of_char (digit_char d) :: nat) = 48 + d"
    using assms by (simp add: digit_char_def)
  show "is_digit (digit_char d)" "digit_val (digit_char d) = d"
    using assms v by (simp_all add: is_digit_def digit_val_def)
  show "digit_char d \<noteq> CHR ''+''" and "digit_char d \<noteq> CHR '':''"
    using assms v by auto
qed

lemma show_nat_nonempty [simp]: "show_nat n \<noteq> []"
  by (subst show_nat.simps) simp

lemma show_nat_digits: "c \<in> set (show_nat n) \<Longrightarrow> \<exists>d < 10. c = digit_char d"
proof (induction n rule: show_nat.induct)
  case (1 n)
  show ?case
  proof (cases "n < 10")
    case True
    with "1.prems" show ?thesis by (auto simp: show_nat.simps [of n])
  next
    case False
    with "1.prems" have "c \<in> set (show_nat (n div 10)) \<or> c = digit_char (n mod 10)"
      by (auto simp: show_nat.simps [of n])
    moreover have "n mod 10 < 10" by simp
    ultimately show ?thesis using "1.IH" False by blast
  qed
qed

lemma show_nat_no_colon [simp]: "CHR '':'' \<notin> set (show_nat n)"
proof
  assume "CHR '':'' \<in> set (show_nat n)"
  then obtain d where "d < 10" and "CHR '':'' = digit_char d"
    using show_nat_digits by blast
  then show False using digit_char_props(4) [of d] by simp
qed

lemma digits_val_snoc: "digits_val (s @ [c]) = digits_val s * 10 + digit_val c"
  by (simp add: digits_val_def)

lemma digits_val_show [simp]: "digits_val (show_nat n) = n"
proof (induction n rule: show_nat.induct)
  case (1 n)
  show ?case
  proof (cases "n < 10")
    case True
    then show ?thesis
      by (simp add: show_nat.simps [of n] digits_val_def digit_char_props)
  next
    case False
    then have "digits_val (show_nat (n div 10)) = n div 10" using "1.IH" by simp
    moreover have "digit_val (digit_char (n mod 10)) = n mod 10"
      by (rule digit_char_props(2)) simp
    ultimately show ?thesis
      using False by (simp add: show_nat.simps [of n] digits_val_snoc)
  qed
qed

lemma parse_uint_show: "n \<le> m \<Longrightarrow> parse_uint m (show_nat n) = Some n"
proof -
  assume n: "n \<le> m"
  obtain c r where cr: "show_nat n = c # r" by (cases "show_nat n") auto
  then obtain d where "d < 10" and "c = digit_char d"
    using show_nat_digits [of c n] by auto
  then have "c \<noteq> CHR ''+''" using digit_char_props(3) by simp
  then have strip: "(case show_nat n of [] \<Rightarrow> [] | c # r \<Rightarrow> if c = CHR ''+'' then r else show_nat n)
      = show_nat n"
    using cr by simp
  have "list_all is_digit (show_nat n)"
    using show_nat_digits digit_char_props(1) by (auto simp: list_all_iff)
  then show ?thesis
    unfolding parse_uint_def strip using n by simp
qed

lemma parse_uint_le: "parse_uint m s = Some n \<Longrightarrow> n \<le> m"
  by (auto simp: parse_uint_def Let_def split: if_splits)

section \<open>Ordered sets as strictly sorted lists\<close>

text \<open>
  \<open>BTreeSet<T>\<close>: elements in ascending order of their \<open>Ord\<close>, which is the order of a key
  here; two elements with equal keys are one element for the set. \<open>insert\<close> keeps the element
  that is already there, as Rust's does.
\<close>

fun bts_insert :: "('a \<Rightarrow> 'k::linorder) \<Rightarrow> 'a \<Rightarrow> 'a list \<Rightarrow> 'a list" where
  "bts_insert key x [] = [x]"
| "bts_insert key x (y # ys) =
     (if key x < key y then x # y # ys
      else if key x = key y then y # ys
      else y # bts_insert key x ys)"

definition bts_remove :: "('a \<Rightarrow> 'k::linorder) \<Rightarrow> 'a \<Rightarrow> 'a list \<Rightarrow> 'a list" where
  "bts_remove key x xs = filter (\<lambda>y. key y \<noteq> key x) xs"

definition bts_contains :: "('a \<Rightarrow> 'k::linorder) \<Rightarrow> 'a \<Rightarrow> 'a list \<Rightarrow> bool" where
  "bts_contains key x xs \<longleftrightarrow> (\<exists>y \<in> set xs. key y = key x)"

definition bts_extend :: "('a \<Rightarrow> 'k::linorder) \<Rightarrow> 'a list \<Rightarrow> 'a list \<Rightarrow> 'a list" where
  "bts_extend key s xs = foldl (\<lambda>t x. bts_insert key x t) s xs"

definition bts_ok :: "('a \<Rightarrow> 'k::linorder) \<Rightarrow> 'a list \<Rightarrow> bool" where
  "bts_ok key xs \<longleftrightarrow> sorted_wrt (\<lambda>a b. key a < key b) xs"

lemma bts_ok_simps [simp, btree]:
  "bts_ok key []"
  "bts_ok key (x # xs) \<longleftrightarrow> (\<forall>y \<in> set xs. key x < key y) \<and> bts_ok key xs"
  by (simp_all add: bts_ok_def)

lemma bts_insert_subset: "set (bts_insert key x xs) \<subseteq> insert x (set xs)"
  by (induction xs) auto

lemma bts_insert_superset: "set xs \<subseteq> set (bts_insert key x xs)"
  by (induction xs) auto

lemma bts_insert_set [btree]:
  "bts_ok key xs \<Longrightarrow>
   set (bts_insert key x xs) = (if bts_contains key x xs then set xs else insert x (set xs))"
  by (induction xs) (auto simp: bts_contains_def)

lemma bts_insert_ok [btree]: "bts_ok key xs \<Longrightarrow> bts_ok key (bts_insert key x xs)"
proof (induction xs)
  case Nil
  then show ?case by simp
next
  case (Cons y ys)
  show ?case
  proof (cases "key x \<le> key y")
    case True
    with Cons.prems show ?thesis by (auto dest: less_trans)
  next
    case False
    then have "key y < key x" by simp
    with Cons show ?thesis using bts_insert_subset [of key x ys] by auto
  qed
qed

lemma bts_filter_ok [btree]: "bts_ok key xs \<Longrightarrow> bts_ok key (filter P xs)"
  by (induction xs) auto

lemma bts_remove_ok [btree]: "bts_ok key xs \<Longrightarrow> bts_ok key (bts_remove key x xs)"
  by (simp add: bts_remove_def bts_filter_ok)

lemma bts_remove_set [btree]: "set (bts_remove key x xs) = {y \<in> set xs. key y \<noteq> key x}"
  by (auto simp: bts_remove_def)

lemma bts_ok_inj: "bts_ok key xs \<Longrightarrow> x \<in> set xs \<Longrightarrow> y \<in> set xs \<Longrightarrow> key x = key y \<Longrightarrow> x = y"
  by (induction xs) (simp, metis bts_ok_simps(2) less_irrefl set_ConsD)

lemma bts_extend_ok [btree]: "bts_ok key s \<Longrightarrow> bts_ok key (bts_extend key s xs)"
  unfolding bts_extend_def by (induction xs arbitrary: s) (auto simp: bts_insert_ok)

lemma bts_ok_distinct: "bts_ok key xs \<Longrightarrow> distinct xs"
  by (induction xs) auto

lemma bts_ok_eqI:
  "bts_ok key xs \<Longrightarrow> bts_ok key ys \<Longrightarrow> set xs = set ys \<Longrightarrow> xs = ys"
proof (induction xs arbitrary: ys)
  case Nil
  then show ?case by simp
next
  case (Cons x xs)
  then obtain y zs where ys: "ys = y # zs" by (cases ys) auto
  have "x = y"
  proof (rule ccontr)
    assume "x \<noteq> y"
    then have "x \<in> set zs" and "y \<in> set xs" using Cons.prems(3) ys by auto
    then have "key y < key x" and "key x < key y" using Cons.prems(1,2) ys by auto
    then show False by simp
  qed
  moreover have "x \<notin> set xs" and "y \<notin> set zs" using Cons.prems(1,2) ys by auto
  ultimately have "set xs = set zs" using Cons.prems(3) ys by auto
  then show ?case using Cons.IH [of zs] Cons.prems(1,2) ys \<open>x = y\<close> by simp
qed

lemma bts_extend_set:
  "bts_ok key s \<Longrightarrow> inj_on key (set s \<union> set xs) \<Longrightarrow> set (bts_extend key s xs) = set s \<union> set xs"
proof (induction xs arbitrary: s)
  case Nil
  then show ?case by (simp add: bts_extend_def)
next
  case (Cons x xs)
  have ok: "bts_ok key (bts_insert key x s)" using Cons.prems(1) by (rule bts_insert_ok)
  have st: "set (bts_insert key x s) = insert x (set s)"
  proof (cases "bts_contains key x s")
    case True
    then obtain y where "y \<in> set s" and "key y = key x" by (auto simp: bts_contains_def)
    then have "x \<in> set s" using Cons.prems(2) by (auto simp: inj_on_def)
    then show ?thesis using Cons.prems(1) True by (auto simp: bts_insert_set)
  next
    case False
    then show ?thesis using Cons.prems(1) by (simp add: bts_insert_set)
  qed
  have "set (bts_extend key (bts_insert key x s) xs) = set (bts_insert key x s) \<union> set xs"
  proof (rule Cons.IH [OF ok])
    have "set (bts_insert key x s) \<union> set xs = set s \<union> set (x # xs)" using st by auto
    then show "inj_on key (set (bts_insert key x s) \<union> set xs)" using Cons.prems(2) by simp
  qed
  then show ?case using st by (simp add: bts_extend_def)
qed

text \<open>Inserting the elements of a sorted list into the empty set gives the list back.\<close>

lemma bts_extend_sorted:
  assumes "bts_ok key xs" shows "bts_extend key [] xs = xs"
proof (rule bts_ok_eqI)
  show "bts_ok key (bts_extend key [] xs)" by (rule bts_extend_ok) simp
  show "bts_ok key xs" by (rule assms)
  have "inj_on key (set [] \<union> set xs)"
    using assms by (auto simp: inj_on_def intro: bts_ok_inj)
  then show "set (bts_extend key [] xs) = set xs" by (simp add: bts_extend_set)
qed

section \<open>Maps\<close>

lemma map_of_eq_distinct:
  "distinct (map fst xs) \<Longrightarrow> map_of xs k = Some v \<longleftrightarrow> (k, v) \<in> set xs"
  by (rule map_of_eq_Some_iff)

end
