(* ===== verification/Nostr_Kind.thy ===== *)
theory Nostr_Kind
  imports Nostr_Prelude
begin

text \<open>
  Event kinds (nostr/src/event/kind.rs) and timestamps (nostr/src/types/time.rs).

  The enum \<open>Kind\<close> has 123 named variants, each declared with its number by the macro
  \<open>kind_variants!\<close>, and the variant \<open>Custom(u16)\<close>. \<open>kind_table\<close> is that declaration list;
  \<open>Named v\<close> is the named variant declared with number \<open>v\<close>. The derived pattern match of Rust
  (\<open>matches!\<close>) is equality of the model's values; Rust's \<open>==\<close>, \<open>Ord\<close> and \<open>Hash\<close> compare
  \<open>as_u16\<close>, so they are \<open>kind_eq\<close> and comparisons of \<open>as_u16\<close> here.
\<close>

section \<open>Kinds\<close>

datatype kind = Named u16 | Custom u16

definition kind_table :: "(string \<times> u16) list" where
  "kind_table = [
    (''Metadata'', 0), (''TextNote'', 1), (''RecommendRelay'', 2), (''ContactList'', 3),
    (''OpenTimestamps'', 1040), (''EncryptedDirectMessage'', 4), (''EventDeletion'', 5),
    (''Repost'', 6), (''GenericRepost'', 16), (''Comment'', 1111), (''Reaction'', 7),
    (''BadgeAward'', 8), (''ChannelCreation'', 40), (''ChannelMetadata'', 41),
    (''ChannelMessage'', 42), (''ChannelHideMessage'', 43), (''ChannelMuteUser'', 44),
    (''PublicChatReserved45'', 45), (''PublicChatReserved46'', 46),
    (''PublicChatReserved47'', 47), (''PublicChatReserved48'', 48),
    (''PublicChatReserved49'', 49), (''MlsKeyPackage'', 443), (''MlsWelcome'', 444),
    (''MlsGroupMessage'', 445), (''RepoState'', 30618), (''GitPatch'', 1617),
    (''GitPullRequest'', 1618), (''GitPullRequestUpdate'', 1619), (''GitIssue'', 1621),
    (''GitReply'', 1622), (''GitStatusOpen'', 1630), (''GitStatusApplied'', 1631),
    (''GitStatusClosed'', 1632), (''GitStatusDraft'', 1633), (''WalletConnectInfo'', 13194),
    (''Reporting'', 1984), (''Label'', 1985), (''GroupPutUser'', 9000),
    (''GroupRemoveUser'', 9001), (''GroupEditMetadata'', 9002), (''GroupDeleteEvent'', 9005),
    (''GroupCreateGroup'', 9007), (''GroupDeleteGroup'', 9008), (''GroupCreateInvite'', 9009),
    (''GroupJoinRequest'', 9021), (''GroupLeaveRequest'', 9022), (''GroupMetadata'', 39000),
    (''GroupAdmins'', 39001), (''GroupMembers'', 39002), (''GroupRoles'', 39003),
    (''GroupLivekitParticipants'', 39004), (''ZapPrivateMessage'', 9733), (''ZapRequest'', 9734),
    (''ZapReceipt'', 9735), (''Highlight'', 9802), (''MuteList'', 10000), (''PinList'', 10001),
    (''RelayList'', 10002), (''Bookmarks'', 10003), (''Communities'', 10004),
    (''PublicChats'', 10005), (''BlockedRelays'', 10006), (''SearchRelays'', 10007),
    (''SimpleGroups'', 10009), (''Interests'', 10015), (''Emojis'', 10030),
    (''InboxRelays'', 10050), (''MlsKeyPackageRelays'', 10051), (''BlossomServerList'', 10063),
    (''Authentication'', 22242), (''WalletConnectRequest'', 23194),
    (''WalletConnectResponse'', 23195), (''WalletConnectNotification'', 23196),
    (''WalletConnectNotificationNip44V2'', 23197), (''NostrConnect'', 24133),
    (''LiveEvent'', 30311), (''LiveEventMessage'', 1311), (''ProfileBadges'', 10008),
    (''BadgeSet'', 30008), (''BadgeDefinition'', 30009), (''Seal'', 13), (''GiftWrap'', 1059),
    (''PrivateDirectMessage'', 14), (''SetStall'', 30017), (''SetProduct'', 30018),
    (''JobFeedback'', 7000), (''FollowSet'', 30000), (''RelaySet'', 30002),
    (''BookmarkSet'', 30003), (''ArticlesCurationSet'', 30004), (''VideosCurationSet'', 30005),
    (''InterestSet'', 30015), (''EmojiSet'', 30030), (''ReleaseArtifactSet'', 30063),
    (''LongFormTextNote'', 30023), (''GitRepoAnnouncement'', 30617), (''FileMetadata'', 1063),
    (''BlossomAuth'', 24242), (''HttpAuth'', 27235), (''ApplicationSpecificData'', 30078),
    (''Torrent'', 2003), (''TorrentComment'', 2004), (''PeerToPeerOrder'', 38383),
    (''RequestToVanish'', 62), (''UserStatus'', 30315), (''VoiceMessage'', 1222),
    (''VoiceMessageReply'', 1244), (''CashuWallet'', 17375), (''CashuWalletUnspentProof'', 7375),
    (''CashuWalletSpendingHistory'', 7376), (''CashuWalletQuote'', 7374),
    (''CashuNutZapInfo'', 10019), (''GitUserGraspList'', 10317), (''CashuNutZap'', 9321),
    (''CodeSnippet'', 1337), (''Poll'', 1068), (''PollResponse'', 1018), (''ChatMessage'', 9),
    (''Thread'', 11), (''WebBookmark'', 39701), (''RelayMonitor'', 10166),
    (''RelayDiscovery'', 30166)]"

definition from_u16 :: "u16 \<Rightarrow> kind" where
  "from_u16 n = (if n \<in> set (map snd kind_table) then Named n else Custom n)"

fun as_u16 :: "kind \<Rightarrow> u16" where
  "as_u16 (Named v) = v"
| "as_u16 (Custom u) = u"

definition kind_eq :: "kind \<Rightarrow> kind \<Rightarrow> bool" where
  "kind_eq a b \<longleftrightarrow> as_u16 a = as_u16 b"

abbreviation (input) Metadata :: kind where "Metadata \<equiv> Named 0"
abbreviation (input) TextNote :: kind where "TextNote \<equiv> Named 1"
abbreviation (input) ContactList :: kind where "ContactList \<equiv> Named 3"
abbreviation (input) EventDeletion :: kind where "EventDeletion \<equiv> Named 5"
abbreviation (input) Repost :: kind where "Repost \<equiv> Named 6"
abbreviation (input) GenericRepost :: kind where "GenericRepost \<equiv> Named 16"
abbreviation (input) ChannelMetadata :: kind where "ChannelMetadata \<equiv> Named 41"
abbreviation (input) RequestToVanish :: kind where "RequestToVanish \<equiv> Named 62"
abbreviation (input) GiftWrap :: kind where "GiftWrap \<equiv> Named 1059"
abbreviation (input) RelayList :: kind where "RelayList \<equiv> Named 10002"
abbreviation (input) InboxRelays :: kind where "InboxRelays \<equiv> Named 10050"
abbreviation (input) Authentication :: kind where "Authentication \<equiv> Named 22242"

text \<open>\<open>Range::contains\<close> of a half-open range.\<close>

definition in_range :: "u16 \<Rightarrow> u16 \<Rightarrow> u16 \<Rightarrow> bool" where
  "in_range lo hi k \<longleftrightarrow> lo \<le> k \<and> k < hi"

definition regular_range :: "u16 \<Rightarrow> bool" where "regular_range = in_range 1000 10000"
definition replaceable_range :: "u16 \<Rightarrow> bool" where "replaceable_range = in_range 10000 20000"
definition ephemeral_range :: "u16 \<Rightarrow> bool" where "ephemeral_range = in_range 20000 30000"
definition addressable_range :: "u16 \<Rightarrow> bool" where "addressable_range = in_range 30000 40000"

definition is_replaceable :: "kind \<Rightarrow> bool" where
  "is_replaceable k \<longleftrightarrow>
     k = Metadata \<or> k = ContactList \<or> k = ChannelMetadata \<or> replaceable_range (as_u16 k)"

definition is_regular :: "kind \<Rightarrow> bool" where
  "is_regular k \<longleftrightarrow>
     (if as_u16 k > 10000 then False
      else regular_range (as_u16 k) \<or> \<not> is_replaceable k)"

definition is_ephemeral :: "kind \<Rightarrow> bool" where
  "is_ephemeral k \<longleftrightarrow> ephemeral_range (as_u16 k)"

definition is_addressable :: "kind \<Rightarrow> bool" where
  "is_addressable k \<longleftrightarrow> addressable_range (as_u16 k)"

definition kind_to_string :: "kind \<Rightarrow> string" where
  "kind_to_string k = show_nat (unat (as_u16 k))"

definition kind_from_str :: "string \<Rightarrow> kind res" where
  "kind_from_str s =
     (case parse_uint u16_max s of
        None \<Rightarrow> Inl Malformed
      | Some n \<Rightarrow> Inr (from_u16 (of_nat n)))"

definition kind_add :: "kind \<Rightarrow> u16 \<Rightarrow> kind" where
  "kind_add k rhs = from_u16 (of_nat (saturating_add u16_max (unat (as_u16 k)) (unat rhs)))"

subsection \<open>Lemmas\<close>

lemma as_u16_from_u16 [simp]: "as_u16 (from_u16 n) = n"
  by (simp add: from_u16_def)

lemma from_u16_Named: "n \<in> set (map snd kind_table) \<Longrightarrow> from_u16 n = Named n"
  by (simp add: from_u16_def)

lemma from_u16_0 [simp]: "from_u16 0 = Metadata"
  and from_u16_3 [simp]: "from_u16 3 = ContactList"
  and from_u16_41 [simp]: "from_u16 41 = ChannelMetadata"
  by (simp_all add: from_u16_def kind_table_def)

lemma kind_eq_refl [simp]: "kind_eq k k"
  by (simp add: kind_eq_def)

lemma kind_eq_trans: "kind_eq a b \<Longrightarrow> kind_eq b c \<Longrightarrow> kind_eq a c"
  by (simp add: kind_eq_def)

lemma kind_eq_Named [simp]: "kind_eq (Named a) (Named b) \<longleftrightarrow> a = b"
  by (simp add: kind_eq_def)

text \<open>A kind that \<open>from_u16\<close> can return: what the parsers build.\<close>

definition canonical :: "kind \<Rightarrow> bool" where
  "canonical k \<longleftrightarrow> k = from_u16 (as_u16 k)"

lemma canonical_from_u16 [simp]: "canonical (from_u16 n)"
  by (simp add: canonical_def)

lemma canonical_eq: "canonical a \<Longrightarrow> canonical b \<Longrightarrow> kind_eq a b \<longleftrightarrow> a = b"
  by (metis canonical_def kind_eq_def)

lemma replaceable_from_u16:
  "is_replaceable (from_u16 n) \<longleftrightarrow> n = 0 \<or> n = 3 \<or> n = 41 \<or> replaceable_range n"
  by (auto simp: is_replaceable_def from_u16_def kind_table_def)

lemma canonical_replaceable:
  "canonical k \<Longrightarrow> is_replaceable k \<longleftrightarrow>
     as_u16 k = 0 \<or> as_u16 k = 3 \<or> as_u16 k = 41 \<or> replaceable_range (as_u16 k)"
  using replaceable_from_u16 [of "as_u16 k"] by (simp add: canonical_def)

lemma replaceable_not_addressable: "is_replaceable k \<Longrightarrow> \<not> is_addressable k"
  by (cases k) (auto simp: is_replaceable_def is_addressable_def addressable_range_def
      replaceable_range_def in_range_def word_less_nat_alt word_le_nat_alt)

lemma addressable_not_replaceable: "is_addressable k \<Longrightarrow> \<not> is_replaceable k"
  using replaceable_not_addressable by blast

lemma addressable_cong: "kind_eq a b \<Longrightarrow> is_addressable a = is_addressable b"
  by (simp add: kind_eq_def is_addressable_def)

lemma kind_from_str_to_string: "kind_from_str (kind_to_string k) = Inr (from_u16 (as_u16 k))"
proof -
  have "unat (as_u16 k) < 2 ^ LENGTH(16)" by (rule unsigned_less)
  then have "unat (as_u16 k) \<le> u16_max" by (simp add: u16_max_def)
  then have "parse_uint u16_max (show_nat (unat (as_u16 k))) = Some (unat (as_u16 k))"
    by (rule parse_uint_show)
  then show ?thesis by (simp add: kind_from_str_def kind_to_string_def)
qed

section \<open>Timestamps\<close>

text \<open>\<open>Timestamp(u64)\<close>: seconds since the epoch, as a number up to \<open>u64_max\<close>.\<close>

type_synonym timestamp = nat

definition ts_add :: "timestamp \<Rightarrow> nat \<Rightarrow> timestamp" where
  "ts_add t secs = saturating_add u64_max t secs"

definition ts_sub :: "timestamp \<Rightarrow> nat \<Rightarrow> timestamp" where
  "ts_sub t secs = saturating_sub t secs"

definition ts_from_i64 :: "int \<Rightarrow> timestamp option" where
  "ts_from_i64 v = (if v < 0 then None else Some (nat v))"

definition ts_from_str :: "string \<Rightarrow> timestamp option" where
  "ts_from_str s = parse_uint u64_max s"

definition ts_to_string :: "timestamp \<Rightarrow> string" where
  "ts_to_string t = show_nat t"

definition is_zero :: "timestamp \<Rightarrow> bool" where
  "is_zero t \<longleftrightarrow> t = 0"

lemma ts_from_to_string: "t \<le> u64_max \<Longrightarrow> ts_from_str (ts_to_string t) = Some t"
  by (simp add: ts_from_str_def ts_to_string_def parse_uint_show)

lemma ts_add_mono: "t \<le> u64_max \<Longrightarrow> t \<le> ts_add t s"
  by (simp add: ts_add_def saturating_add_def)

section \<open>Properties\<close>

text \<open>
  The four classes of NIP-01 are disjoint and cover every number below 40000, for the
  kinds the parsers build; a kind from 40000 on is in no class.
\<close>

lemma kind_classes_partition:
  "(n < 40000) =
     (is_regular (from_u16 n) \<or> is_replaceable (from_u16 n) \<or>
      is_ephemeral (from_u16 n) \<or> is_addressable (from_u16 n)) \<and>
   \<not> (is_regular (from_u16 n) \<and> is_replaceable (from_u16 n)) \<and>
   \<not> (is_regular (from_u16 n) \<and> (is_ephemeral (from_u16 n) \<or> is_addressable (from_u16 n))) \<and>
   \<not> (is_replaceable (from_u16 n) \<and> (is_ephemeral (from_u16 n) \<or> is_addressable (from_u16 n))) \<and>
   \<not> (is_ephemeral (from_u16 n) \<and> is_addressable (from_u16 n))"
  unfolding is_regular_def is_ephemeral_def is_addressable_def replaceable_from_u16
    as_u16_from_u16 regular_range_def replaceable_range_def ephemeral_range_def
    addressable_range_def in_range_def
  by (auto simp: word_less_nat_alt word_le_nat_alt)

text \<open>
  Two kinds that are equal for \<open>PartialEq\<close> have the same ephemeral and addressable class, but
  \<open>is_replaceable\<close> matches on the variant: it separates the equal kinds \<open>Custom(n)\<close> and the named
  variant of \<open>n\<close> exactly for the numbers 0, 3 and 41. The kinds that parsers build never differ.
\<close>

lemma kind_eq_classes:
  assumes "kind_eq a b"
  shows "is_ephemeral a = is_ephemeral b \<and> is_addressable a = is_addressable b \<and>
    (is_replaceable a \<noteq> is_replaceable b \<longleftrightarrow> a \<noteq> b \<and> as_u16 a \<in> {0, 3, 41}) \<and>
    (canonical a \<and> canonical b \<longrightarrow> is_replaceable a = is_replaceable b)"
proof -
  have "is_replaceable a \<noteq> is_replaceable b \<longleftrightarrow> a \<noteq> b \<and> as_u16 a \<in> {0, 3, 41}"
    using assms
    by (cases a; cases b)
      (auto simp: kind_eq_def is_replaceable_def replaceable_range_def in_range_def
        word_less_nat_alt word_le_nat_alt)
  moreover have "canonical a \<and> canonical b \<longrightarrow> is_replaceable a = is_replaceable b"
    using assms canonical_eq by blast
  ultimately show ?thesis
    using assms by (simp add: kind_eq_def is_ephemeral_def is_addressable_def)
qed

lemma kind_eq_classes_witness:
  "kind_eq Metadata (Custom 0) \<and> is_replaceable Metadata \<and> \<not> is_replaceable (Custom 0)"
  using kind_eq_classes [of Metadata "Custom 0"]
  by (simp add: kind_eq_def is_replaceable_def)

end
