(* ===== verification/Nostr_Keys.thy ===== *)
theory Nostr_Keys
  imports Nostr_Prelude
begin

text \<open>
  Identifiers: the single letter tag names of filters (nostr/src/filter/single_letter.rs), event
  ids and public keys as 32-byte arrays with their hexadecimal form (nostr/src/event/id.rs,
  nostr/src/util/sha256.rs, nostr/src/key/public_key.rs), and relay URLs
  (nostr/src/types/url.rs).

  The crates the code calls are the fields of the record \<open>externals\<close>: hexadecimal coding
  (\<open>faster_hex\<close>), URL parsing (\<open>url\<close>), SHA-256, Schnorr verification and JSON. A definition that
  uses one of them takes the record as an argument. \<open>hex_ok\<close> states what the code relies on of
  the hexadecimal coder.
\<close>

section \<open>Third-party functions\<close>

text \<open>What the model keeps of a parsed URL: its serialization, scheme, host and domain.\<close>

record url =
  url_serial :: string
  url_scheme :: string
  url_host_str :: "string option"
  url_domain :: "string option"

record externals =
  hex_encode :: "u8 list \<Rightarrow> string"
  hex_decode :: "nat \<Rightarrow> string \<Rightarrow> u8 list option"
  url_parse :: "string \<Rightarrow> url option"
  sha256 :: "u8 list \<Rightarrow> u8 list"
  json_event_array :: "string \<Rightarrow> nat \<Rightarrow> nat \<Rightarrow> string list list \<Rightarrow> string \<Rightarrow> u8 list"
  schnorr_verify :: "u8 list \<Rightarrow> u8 list \<Rightarrow> u8 list \<Rightarrow> bool"

text \<open>
  Decoding into a buffer of \<open>n\<close> bytes fills the buffer or fails; decoding what was encoded gives
  it back; an encoding has two characters per byte and no colon.
\<close>

definition hex_ok :: "externals \<Rightarrow> bool" where
  "hex_ok x \<longleftrightarrow>
     (\<forall>bs. hex_decode x (length bs) (hex_encode x bs) = Some bs) \<and>
     (\<forall>n s bs. hex_decode x n s = Some bs \<longrightarrow> length bs = n) \<and>
     (\<forall>bs. length (hex_encode x bs) = 2 * length bs \<and> CHR '':'' \<notin> set (hex_encode x bs))"

lemma hex_decode_encode:
  "hex_ok x \<Longrightarrow> hex_decode x (length bs) (hex_encode x bs) = Some bs"
  unfolding hex_ok_def by (elim conjE) (erule allE)

lemma hex_decode_length:
  "hex_ok x \<Longrightarrow> hex_decode x n s = Some bs \<Longrightarrow> length bs = n"
  unfolding hex_ok_def by (elim conjE) (drule spec [of _ n], drule spec [of _ s], drule spec [of _ bs], erule (1) mp)

lemma hex_encode_props:
  assumes "hex_ok x"
  shows hex_encode_length: "length (hex_encode x bs) = 2 * length bs"
    and hex_encode_no_colon: "CHR '':'' \<notin> set (hex_encode x bs)"
proof -
  have "\<forall>bs. length (hex_encode x bs) = 2 * length bs \<and> CHR '':'' \<notin> set (hex_encode x bs)"
    using assms unfolding hex_ok_def by (elim conjE)
  then have "length (hex_encode x bs) = 2 * length bs \<and> CHR '':'' \<notin> set (hex_encode x bs)"
    by (rule spec)
  then show "length (hex_encode x bs) = 2 * length bs" and "CHR '':'' \<notin> set (hex_encode x bs)"
    by blast+
qed

lemma hex_encode_inj:
  "hex_ok x \<Longrightarrow> hex_encode x a = hex_encode x b \<Longrightarrow> a = b"
proof -
  assume h: "hex_ok x" and eq: "hex_encode x a = hex_encode x b"
  have "2 * length a = length (hex_encode x b)"
    using hex_encode_length [OF h, of a] unfolding eq by (rule sym)
  also have "\<dots> = 2 * length b" by (rule hex_encode_length [OF h])
  finally have len: "length a = length b" by simp
  have "Some a = hex_decode x (length a) (hex_encode x a)" by (rule hex_decode_encode [OF h, symmetric])
  also have "\<dots> = hex_decode x (length b) (hex_encode x b)" by (simp only: len eq)
  also have "\<dots> = Some b" by (rule hex_decode_encode [OF h])
  finally show "a = b" by simp
qed

section \<open>Single letter tags\<close>

datatype single_letter_tag = SLT (slt_byte: u8)

definition is_ascii_uppercase :: "u8 \<Rightarrow> bool" where
  "is_ascii_uppercase b \<longleftrightarrow> 65 \<le> b \<and> b \<le> 90"

definition is_ascii_lowercase :: "u8 \<Rightarrow> bool" where
  "is_ascii_lowercase b \<longleftrightarrow> 97 \<le> b \<and> b \<le> 122"

definition is_ascii_alphabetic :: "u8 \<Rightarrow> bool" where
  "is_ascii_alphabetic b \<longleftrightarrow> is_ascii_uppercase b \<or> is_ascii_lowercase b"

definition to_ascii_lowercase :: "u8 \<Rightarrow> u8" where
  "to_ascii_lowercase b = (if is_ascii_uppercase b then b + 32 else b)"

definition to_ascii_uppercase :: "u8 \<Rightarrow> u8" where
  "to_ascii_uppercase b = (if is_ascii_lowercase b then b - 32 else b)"

definition slt_from_byte :: "u8 \<Rightarrow> single_letter_tag res" where
  "slt_from_byte b = (if is_ascii_alphabetic b then Inr (SLT b) else Inl Invalid)"

text \<open>\<open>character as u8\<close> keeps the low eight bits of the Unicode scalar value.\<close>

definition slt_from_char :: "nat \<Rightarrow> single_letter_tag res" where
  "slt_from_char c = slt_from_byte (of_nat c)"

definition slt_from_str :: "string \<Rightarrow> single_letter_tag res" where
  "slt_from_str s = (case bytes_of s of [b] \<Rightarrow> slt_from_byte b | _ \<Rightarrow> Inl Invalid)"

definition slt_as_str :: "single_letter_tag \<Rightarrow> string" where
  "slt_as_str t = string_of_bytes [slt_byte t]"

definition slt_is_lowercase :: "single_letter_tag \<Rightarrow> bool" where
  "slt_is_lowercase t = is_ascii_lowercase (slt_byte t)"

definition slt_is_uppercase :: "single_letter_tag \<Rightarrow> bool" where
  "slt_is_uppercase t = is_ascii_uppercase (slt_byte t)"

definition slt_to_lowercase :: "single_letter_tag \<Rightarrow> single_letter_tag" where
  "slt_to_lowercase t = SLT (to_ascii_lowercase (slt_byte t))"

definition slt_to_uppercase :: "single_letter_tag \<Rightarrow> single_letter_tag" where
  "slt_to_uppercase t = SLT (to_ascii_uppercase (slt_byte t))"

definition slt_eq_ignore_case :: "single_letter_tag \<Rightarrow> single_letter_tag \<Rightarrow> bool" where
  "slt_eq_ignore_case a b \<longleftrightarrow> to_ascii_lowercase (slt_byte a) = to_ascii_lowercase (slt_byte b)"

definition slt_ordering_key :: "single_letter_tag \<Rightarrow> u8 \<times> bool" where
  "slt_ordering_key t = (to_ascii_lowercase (slt_byte t), is_ascii_uppercase (slt_byte t))"

definition slt_a :: single_letter_tag where "slt_a = SLT 97"
definition slt_d :: single_letter_tag where "slt_d = SLT 100"
definition slt_e :: single_letter_tag where "slt_e = SLT 101"
definition slt_p :: single_letter_tag where "slt_p = SLT 112"
definition slt_r :: single_letter_tag where "slt_r = SLT 114"
definition slt_t :: single_letter_tag where "slt_t = SLT 116"

lemmas slt_consts = slt_a_def slt_d_def slt_e_def slt_p_def slt_r_def slt_t_def

definition slt_ok :: "single_letter_tag \<Rightarrow> bool" where
  "slt_ok t \<longleftrightarrow> is_ascii_alphabetic (slt_byte t)"

lemma slt_ordering_key_inj: "slt_ordering_key a = slt_ordering_key b \<Longrightarrow> a = b"
  by (cases a; cases b)
    (auto simp: slt_ordering_key_def to_ascii_lowercase_def split: if_splits)

instantiation single_letter_tag :: linorder
begin

definition less_eq_single_letter_tag :: "single_letter_tag \<Rightarrow> single_letter_tag \<Rightarrow> bool" where
  "less_eq_single_letter_tag a b \<longleftrightarrow> slt_ordering_key a \<le> slt_ordering_key b"

definition less_single_letter_tag :: "single_letter_tag \<Rightarrow> single_letter_tag \<Rightarrow> bool" where
  "less_single_letter_tag a b \<longleftrightarrow> slt_ordering_key a < slt_ordering_key b"

instance
  by standard
    (auto simp: less_eq_single_letter_tag_def less_single_letter_tag_def less_le_not_le
      intro: slt_ordering_key_inj)

end

lemma slt_from_str_as_str: "slt_ok t \<Longrightarrow> slt_from_str (slt_as_str t) = Inr t"
  by (cases t) (simp add: slt_from_str_def slt_as_str_def slt_from_byte_def slt_ok_def)

lemma slt_from_str_ok: "slt_from_str s = Inr t \<Longrightarrow> slt_ok t \<and> slt_as_str t = s"
proof -
  assume a: "slt_from_str s = Inr t"
  then obtain b where b: "bytes_of s = [b]"
    by (auto simp: slt_from_str_def split: list.splits)
  with a have t: "t = SLT b" and "is_ascii_alphabetic b"
    by (auto simp: slt_from_str_def slt_from_byte_def split: if_splits)
  moreover have "string_of_bytes [b] = s" using b by (metis string_of_bytes_of)
  ultimately show ?thesis by (simp add: slt_ok_def slt_as_str_def)
qed

section \<open>Event ids and public keys\<close>

datatype event_id = EventId (eid_bytes: "u8 list")
datatype public_key = PublicKey (pk_bytes: "u8 list")

text \<open>The arrays are 32 bytes long; \<open>Ord\<close> is the lexicographic order of the bytes.\<close>

definition wf_event_id :: "event_id \<Rightarrow> bool" where
  "wf_event_id i \<longleftrightarrow> length (eid_bytes i) = 32"

definition wf_public_key :: "public_key \<Rightarrow> bool" where
  "wf_public_key k \<longleftrightarrow> length (pk_bytes k) = 32"

instantiation event_id :: linorder
begin

definition less_eq_event_id :: "event_id \<Rightarrow> event_id \<Rightarrow> bool" where
  "less_eq_event_id a b \<longleftrightarrow> eid_bytes a \<le> eid_bytes b"

definition less_event_id :: "event_id \<Rightarrow> event_id \<Rightarrow> bool" where
  "less_event_id a b \<longleftrightarrow> eid_bytes a < eid_bytes b"

instance
  by standard (auto simp: less_eq_event_id_def less_event_id_def intro: event_id.expand)

end

instantiation public_key :: linorder
begin

definition less_eq_public_key :: "public_key \<Rightarrow> public_key \<Rightarrow> bool" where
  "less_eq_public_key a b \<longleftrightarrow> pk_bytes a \<le> pk_bytes b"

definition less_public_key :: "public_key \<Rightarrow> public_key \<Rightarrow> bool" where
  "less_public_key a b \<longleftrightarrow> pk_bytes a < pk_bytes b"

instance
  by standard (auto simp: less_eq_public_key_def less_public_key_def intro: public_key.expand)

end

text \<open>\<open>util::hex_decode\<close> and \<open>Sha256Hash::from_hex\<close>.\<close>

definition util_hex_decode :: "externals \<Rightarrow> nat \<Rightarrow> string \<Rightarrow> u8 list res" where
  "util_hex_decode x n hex = ok_or (hex_decode x n hex) Malformed"

definition sha256_from_hex :: "externals \<Rightarrow> string \<Rightarrow> u8 list res" where
  "sha256_from_hex x hex = util_hex_decode x 32 hex"

definition event_id_from_hex :: "externals \<Rightarrow> string \<Rightarrow> event_id res" where
  "event_id_from_hex x hex = rbind (sha256_from_hex x hex) (\<lambda>bs. Inr (EventId bs))"

definition event_id_from_slice :: "u8 list \<Rightarrow> event_id res" where
  "event_id_from_slice bs = (if length bs = 32 then Inr (EventId bs) else Inl Invalid)"

definition event_id_to_hex :: "externals \<Rightarrow> event_id \<Rightarrow> string" where
  "event_id_to_hex x i = hex_encode x (eid_bytes i)"

definition public_key_from_hex :: "externals \<Rightarrow> string \<Rightarrow> public_key res" where
  "public_key_from_hex x hex = rbind (util_hex_decode x 32 hex) (\<lambda>bs. Inr (PublicKey bs))"

definition public_key_from_slice :: "u8 list \<Rightarrow> public_key res" where
  "public_key_from_slice bs = (if length bs \<noteq> 32 then Inl Invalid else Inr (PublicKey bs))"

definition public_key_to_hex :: "externals \<Rightarrow> public_key \<Rightarrow> string" where
  "public_key_to_hex x k = hex_encode x (pk_bytes k)"

lemma event_id_from_to_hex:
  "hex_ok x \<Longrightarrow> wf_event_id i \<Longrightarrow> event_id_from_hex x (event_id_to_hex x i) = Inr i"
  using hex_decode_encode [of x "eid_bytes i"]
  by (cases i) (simp add: event_id_from_hex_def sha256_from_hex_def util_hex_decode_def
      event_id_to_hex_def wf_event_id_def)

lemma public_key_from_to_hex:
  "hex_ok x \<Longrightarrow> wf_public_key k \<Longrightarrow> public_key_from_hex x (public_key_to_hex x k) = Inr k"
  using hex_decode_encode [of x "pk_bytes k"]
  by (cases k) (simp add: public_key_from_hex_def util_hex_decode_def public_key_to_hex_def
      wf_public_key_def)

lemma event_id_from_hex_wf:
  "hex_ok x \<Longrightarrow> event_id_from_hex x s = Inr i \<Longrightarrow> wf_event_id i"
  by (auto simp: event_id_from_hex_def sha256_from_hex_def util_hex_decode_def wf_event_id_def
      rbind_Inr ok_or_Inr dest: hex_decode_length)

lemma public_key_from_hex_wf:
  "hex_ok x \<Longrightarrow> public_key_from_hex x s = Inr k \<Longrightarrow> wf_public_key k"
  by (auto simp: public_key_from_hex_def util_hex_decode_def wf_public_key_def
      rbind_Inr ok_or_Inr dest: hex_decode_length)

lemma public_key_to_hex_inj:
  "hex_ok x \<Longrightarrow> public_key_to_hex x a = public_key_to_hex x b \<longleftrightarrow> a = b"
  by (auto simp: public_key_to_hex_def dest: hex_encode_inj intro: public_key.expand)

lemma public_key_to_hex_props:
  "hex_ok x \<Longrightarrow> CHR '':'' \<notin> set (public_key_to_hex x k)"
  "hex_ok x \<Longrightarrow> wf_public_key k \<Longrightarrow> public_key_to_hex x k \<noteq> []"
proof -
  assume h: "hex_ok x"
  then show "CHR '':'' \<notin> set (public_key_to_hex x k)"
    by (simp add: public_key_to_hex_def hex_encode_no_colon)
  assume "wf_public_key k"
  then show "public_key_to_hex x k \<noteq> []"
    using hex_encode_length [OF h, of "pk_bytes k"]
    by (auto simp: public_key_to_hex_def wf_public_key_def)
qed

section \<open>Relay URLs\<close>

datatype ws_scheme = Ws | Wss

record relay_url =
  ru_scheme :: ws_scheme
  ru_url :: url
  ru_trailing_slash :: bool

definition max_relay_url_len :: nat where
  "max_relay_url_len = 1024"

definition ws_scheme_parse :: "string \<Rightarrow> ws_scheme res" where
  "ws_scheme_parse s =
     (if s = ''ws'' then Inr Ws else if s = ''wss'' then Inr Wss else Inl Unsupported)"

definition scheme_is_secure :: "ws_scheme \<Rightarrow> bool" where
  "scheme_is_secure s \<longleftrightarrow> s = Wss"

text \<open>The matches of the scheme separator, which cannot overlap.\<close>

fun scheme_separators :: "string \<Rightarrow> nat" where
  "scheme_separators (a # b # c # r) =
     (if [a, b, c] = ''://'' then Suc (scheme_separators r) else scheme_separators (b # c # r))"
| "scheme_separators _ = 0"

definition relay_url_parse :: "externals \<Rightarrow> string \<Rightarrow> relay_url res" where
  "relay_url_parse x s =
     (if length s > max_relay_url_len then Inl Invalid
      else if scheme_separators s \<ge> 2 then Inl Invalid
      else rbind (ok_or (url_parse x s) Malformed)
        (\<lambda>u. rbind (ws_scheme_parse (url_scheme u))
          (\<lambda>sch. Inr \<lparr>ru_scheme = sch, ru_url = u, ru_trailing_slash = ends_with s ''/''\<rparr>)))"

definition trim_end_matches :: "char \<Rightarrow> string \<Rightarrow> string" where
  "trim_end_matches c s = rev (dropWhile (\<lambda>d. d = c) (rev s))"

definition relay_url_as_str :: "relay_url \<Rightarrow> string" where
  "relay_url_as_str u =
     (if \<not> ru_trailing_slash u then trim_end_matches (CHR ''/'') (url_serial (ru_url u))
      else url_serial (ru_url u))"

definition relay_url_eq :: "relay_url \<Rightarrow> relay_url \<Rightarrow> bool" where
  "relay_url_eq a b \<longleftrightarrow> url_serial (ru_url a) = url_serial (ru_url b)"

definition is_onion :: "relay_url \<Rightarrow> bool" where
  "is_onion u = (case url_domain (ru_url u) of None \<Rightarrow> False | Some h \<Rightarrow> ends_with h ''.onion'')"

text \<open>
  A relay URL whose printed form parses back to it. It depends on the URL crate, so it is a
  condition of the round trips that print relay URLs.
\<close>

definition relay_url_stable :: "externals \<Rightarrow> relay_url \<Rightarrow> bool" where
  "relay_url_stable x u \<longleftrightarrow>
     relay_url_parse x (relay_url_as_str u) = Inr u \<and> relay_url_as_str u \<noteq> []"

lemma relay_url_parse_bounded:
  "relay_url_parse x s = Inr u \<Longrightarrow> length s \<le> 1024 \<and> scheme_separators s \<le> 1"
  by (auto simp: relay_url_parse_def max_relay_url_len_def split: if_splits)

lemma of_nat_mod_eq: "(of_nat (c mod 256) :: u8) = of_nat c"
proof -
  have "unat (of_nat (c mod 256) :: u8) = unat (of_nat c :: u8)"
    by (simp add: unat_of_nat)
  then show ?thesis by (simp only: unsigned_word_eqI)
qed

section \<open>Properties\<close>

text \<open>
  \<open>from_char\<close> takes the low byte of the character: it accepts a character exactly when that
  byte is an ASCII letter, so among the one-byte characters it accepts the ASCII letters, and
  the non-ASCII character U+0161 is accepted as the tag \<open>a\<close>.
\<close>

lemma slt_from_char_low_byte:
  "(\<forall>c. slt_from_char c = slt_from_char (c mod 256)) \<and>
   (\<forall>b. slt_from_char (unat b) = (if is_ascii_alphabetic b then Inr (SLT b) else Inl Invalid)) \<and>
   slt_from_char 353 = Inr slt_a"
proof (intro conjI allI)
  show "slt_from_char c = slt_from_char (c mod 256)" for c
  proof -
    have "(of_nat (c mod 256) :: u8) = of_nat c"
      using of_nat_mod_eq [of c] by simp
    then show ?thesis by (simp add: slt_from_char_def)
  qed
  show "slt_from_char (unat b) = (if is_ascii_alphabetic b then Inr (SLT b) else Inl Invalid)" for b
    by (simp add: slt_from_char_def slt_from_byte_def)
  show "slt_from_char 353 = Inr slt_a"
    by (simp add: slt_from_char_def slt_from_byte_def is_ascii_alphabetic_def
        is_ascii_lowercase_def slt_a_def)
qed

end
