(* ===== verification/Nostr_Reference.thy ===== *)
theory Nostr_Reference
  imports Nostr_Keys
begin

text \<open>
  One concrete instance of the third-party functions, \<open>ref_externals\<close>: hexadecimal coding in
  full, and small stand-ins for URL parsing, hashing, JSON and signatures. No definition of the
  model uses it; the witnesses of the properties that assume a law of those functions evaluate
  at it, which shows that the laws can hold together.
\<close>

definition hex_digit :: "nat \<Rightarrow> char" where
  "hex_digit d = (if d < 10 then char_of (48 + d) else char_of (87 + d))"

definition hex_val :: "char \<Rightarrow> nat option" where
  "hex_val c =
     (let n = (of_char c :: nat) in
      if 48 \<le> n \<and> n \<le> 57 then Some (n - 48)
      else if 97 \<le> n \<and> n \<le> 102 then Some (n - 87)
      else if 65 \<le> n \<and> n \<le> 70 then Some (n - 55) else None)"

definition ref_hex_encode :: "u8 list \<Rightarrow> string" where
  "ref_hex_encode bs =
     concat (map (\<lambda>b. [hex_digit (unat b div 16), hex_digit (unat b mod 16)]) bs)"

fun ref_hex_pairs :: "string \<Rightarrow> u8 list option" where
  "ref_hex_pairs [] = Some []"
| "ref_hex_pairs [c] = None"
| "ref_hex_pairs (a # b # s) =
     (case (hex_val a, hex_val b, ref_hex_pairs s) of
        (Some i, Some j, Some bs) \<Rightarrow> Some (of_nat (16 * i + j) # bs)
      | _ \<Rightarrow> None)"

definition ref_hex_decode :: "nat \<Rightarrow> string \<Rightarrow> u8 list option" where
  "ref_hex_decode n s = (if length s = 2 * n then ref_hex_pairs s else None)"

definition ref_url_parse :: "string \<Rightarrow> url option" where
  "ref_url_parse s =
     (if starts_with s ''ws://'' then
        Some \<lparr>url_serial = s, url_scheme = ''ws'', url_host_str = Some (drop 5 s),
              url_domain = Some (drop 5 s)\<rparr>
      else if starts_with s ''wss://'' then
        Some \<lparr>url_serial = s, url_scheme = ''wss'', url_host_str = Some (drop 6 s),
              url_domain = Some (drop 6 s)\<rparr>
      else None)"

definition ref_sha256 :: "u8 list \<Rightarrow> u8 list" where
  "ref_sha256 bs = take 32 (bs @ replicate 32 0)"

definition ref_json_event_array ::
  "string \<Rightarrow> nat \<Rightarrow> nat \<Rightarrow> string list list \<Rightarrow> string \<Rightarrow> u8 list" where
  "ref_json_event_array pk ts k tags content =
     [of_nat (ts mod 256), of_nat (k mod 256), of_nat (length tags)] @ bytes_of content"

definition ref_schnorr_verify :: "u8 list \<Rightarrow> u8 list \<Rightarrow> u8 list \<Rightarrow> bool" where
  "ref_schnorr_verify sig msg pk \<longleftrightarrow> sig = msg @ pk"

definition ref_externals :: externals where
  "ref_externals =
     \<lparr>hex_encode = ref_hex_encode, hex_decode = ref_hex_decode, url_parse = ref_url_parse,
      sha256 = ref_sha256, json_event_array = ref_json_event_array,
      schnorr_verify = ref_schnorr_verify\<rparr>"

definition ref_url :: relay_url where
  "ref_url =
     \<lparr>ru_scheme = Wss,
      ru_url = \<lparr>url_serial = ''wss://r.io'', url_scheme = ''wss'', url_host_str = Some ''r.io'',
        url_domain = Some ''r.io''\<rparr>,
      ru_trailing_slash = False\<rparr>"

text \<open>Keys and ids made of one repeated byte.\<close>

definition ref_pk :: "u8 \<Rightarrow> public_key" where
  "ref_pk b = PublicKey (replicate 32 b)"

definition ref_id :: "u8 \<Rightarrow> event_id" where
  "ref_id b = EventId (replicate 32 b)"

lemma ref_wf [simp]: "wf_public_key (ref_pk b)" "wf_event_id (ref_id b)"
  by (simp_all add: ref_pk_def ref_id_def wf_public_key_def wf_event_id_def)

lemma ref_id_inj [simp]: "ref_id a = ref_id b \<longleftrightarrow> a = b"
  by (simp add: ref_id_def numeral_eq_Suc)

lemma ref_pk_inj [simp]: "ref_pk a = ref_pk b \<longleftrightarrow> a = b"
  by (simp add: ref_pk_def numeral_eq_Suc)

lemma hex_val_digit: "d < 16 \<Longrightarrow> hex_val (hex_digit d) = Some d"
  by (cases "d < 10") (simp_all add: hex_val_def hex_digit_def)

lemma hex_digit_no_colon: "d < 16 \<Longrightarrow> hex_digit d \<noteq> CHR '':''"
  using hex_val_digit [of d] by (auto simp: hex_val_def)

lemma of_nat_unat_self: "(of_nat (unat b) :: u8) = b"
  by simp

lemma ref_pairs_encode: "ref_hex_pairs (ref_hex_encode bs) = Some bs"
proof (induction bs)
  case Nil
  then show ?case by (simp add: ref_hex_encode_def)
next
  case (Cons b bs)
  have "unat b < 2 ^ LENGTH(8)" by (rule unsigned_less)
  then have lt: "unat b div 16 < 16" by simp
  have enc: "ref_hex_encode (b # bs) =
      hex_digit (unat b div 16) # hex_digit (unat b mod 16) # ref_hex_encode bs"
    by (simp add: ref_hex_encode_def)
  have "16 * (unat b div 16) + unat b mod 16 = unat b" by simp
  then have "(of_nat (16 * (unat b div 16) + unat b mod 16) :: u8) = b"
    by (metis of_nat_unat_self)
  then show ?case
    using Cons lt by (simp only: enc ref_hex_pairs.simps hex_val_digit mod_less_divisor
        zero_less_numeral option.case prod.case)
qed

lemma ref_encode_length: "length (ref_hex_encode bs) = 2 * length bs"
  by (induction bs) (simp_all add: ref_hex_encode_def)

lemma ref_pairs_length: "ref_hex_pairs s = Some bs \<Longrightarrow> length s = 2 * length bs"
  by (induction s arbitrary: bs rule: ref_hex_pairs.induct) (auto split: option.splits)

lemma ref_encode_no_colon: "CHR '':'' \<notin> set (ref_hex_encode bs)"
proof (induction bs)
  case Nil
  then show ?case by (simp add: ref_hex_encode_def)
next
  case (Cons b bs)
  have "unat b < 2 ^ LENGTH(8)" by (rule unsigned_less)
  then have "unat b div 16 < 16" by simp
  then have "hex_digit (unat b div 16) \<noteq> CHR '':''" by (rule hex_digit_no_colon)
  moreover have "hex_digit (unat b mod 16) \<noteq> CHR '':''" by (rule hex_digit_no_colon) simp
  ultimately show ?case using Cons by (auto simp: ref_hex_encode_def)
qed

lemma ref_hex_ok [simp]: "hex_ok ref_externals"
  unfolding hex_ok_def
proof (intro conjI allI impI)
  fix bs :: "u8 list"
  show "hex_decode ref_externals (length bs) (hex_encode ref_externals bs) = Some bs"
    by (simp add: ref_externals_def ref_hex_decode_def ref_encode_length ref_pairs_encode)
  show "length (hex_encode ref_externals bs) = 2 * length bs"
    by (simp add: ref_externals_def ref_encode_length)
  show "CHR '':'' \<notin> set (hex_encode ref_externals bs)"
    by (simp add: ref_externals_def ref_encode_no_colon)
next
  fix n s bs
  assume "hex_decode ref_externals n s = Some bs"
  then show "length bs = n"
    by (auto simp: ref_externals_def ref_hex_decode_def dest: ref_pairs_length split: if_splits)
qed

lemma ref_url_stable [simp]: "relay_url_stable ref_externals ref_url"
  by (simp add: relay_url_stable_def relay_url_as_str_def ref_url_def relay_url_parse_def
      max_relay_url_len_def trim_end_matches_def ref_externals_def ref_url_parse_def
      starts_with_def ends_with_def ws_scheme_parse_def)

end
