(* ===== verification/Nostr_Coordinate.thy ===== *)
theory Nostr_Coordinate
  imports Nostr_Kind Nostr_Reference
begin

text \<open>
  Event coordinates of NIP-01 (nostr/src/nips/nip01/mod.rs): the record \<open>Coordinate\<close>, its textual
  form \<open>kind:pubkey:identifier\<close> and the check that kind and identifier fit together. Reading the
  textual form splits the whole string at the colons, so the round trip holds exactly for the
  identifiers without a colon.
\<close>

record coordinate =
  co_kind :: kind
  co_public_key :: public_key
  co_identifier :: string

definition coordinate_new :: "kind \<Rightarrow> public_key \<Rightarrow> coordinate" where
  "coordinate_new k pk = \<lparr>co_kind = k, co_public_key = pk, co_identifier = []\<rparr>"

definition has_identifier :: "coordinate \<Rightarrow> bool" where
  "has_identifier c \<longleftrightarrow> co_identifier c \<noteq> []"

definition coordinate_to_string :: "externals \<Rightarrow> coordinate \<Rightarrow> string" where
  "coordinate_to_string x c =
     kind_to_string (co_kind c) @ '':'' @ public_key_to_hex x (co_public_key c) @ '':''
       @ co_identifier c"

definition from_kpi_format :: "externals \<Rightarrow> string \<Rightarrow> coordinate res" where
  "from_kpi_format x s =
     (case split_on (CHR '':'') s of
        kind_str # public_key_str # identifier # _ \<Rightarrow>
          rbind (kind_from_str kind_str) (\<lambda>k.
            rbind (public_key_from_hex x public_key_str) (\<lambda>pk.
              Inr \<lparr>co_kind = k, co_public_key = pk, co_identifier = identifier\<rparr>))
      | _ \<Rightarrow> Inl Invalid)"

definition verify_coordinate :: "kind \<Rightarrow> string \<Rightarrow> unit res" where
  "verify_coordinate k identifier =
     (if \<not> is_replaceable k \<and> \<not> is_addressable k then Inl Invalid
      else if is_replaceable k \<and> identifier \<noteq> [] then Inl Invalid
      else if is_addressable k \<and> identifier = [] then Inl Invalid
      else Inr ())"

definition coordinate_verify :: "coordinate \<Rightarrow> unit res" where
  "coordinate_verify c = verify_coordinate (co_kind c) (co_identifier c)"

text \<open>
  The derived equality of \<open>Coordinate\<close> compares kinds by number, so a coordinate is looked up in
  a map by this key.
\<close>

type_synonym coordinate_key = "u16 \<times> public_key \<times> string"

definition coordinate_key :: "coordinate \<Rightarrow> coordinate_key" where
  "coordinate_key c = (as_u16 (co_kind c), co_public_key c, co_identifier c)"

definition coordinate_eq :: "coordinate \<Rightarrow> coordinate \<Rightarrow> bool" where
  "coordinate_eq a b \<longleftrightarrow>
     kind_eq (co_kind a) (co_kind b) \<and> co_public_key a = co_public_key b \<and>
     co_identifier a = co_identifier b"

text \<open>The coordinates whose textual form is one the parser can build: kind and key well formed.\<close>

definition coordinate_wf :: "coordinate \<Rightarrow> bool" where
  "coordinate_wf c \<longleftrightarrow> canonical (co_kind c) \<and> wf_public_key (co_public_key c)"

lemma coordinate_eq_key: "coordinate_eq a b \<longleftrightarrow> coordinate_key a = coordinate_key b"
  by (auto simp: coordinate_eq_def coordinate_key_def kind_eq_def)

lemma coordinate_wf_eq: "coordinate_wf a \<Longrightarrow> coordinate_wf b \<Longrightarrow> coordinate_eq a b \<longleftrightarrow> a = b"
  by (auto simp: coordinate_wf_def coordinate_eq_def canonical_eq intro: coordinate.equality)

lemma kind_to_string_no_colon [simp]: "CHR '':'' \<notin> set (kind_to_string k)"
  by (simp add: kind_to_string_def)

lemma split_on_hd: "hd (split_on c s) = takeWhile (\<lambda>d. d \<noteq> c) s"
proof (induction s)
  case (Cons a s)
  then show ?case by (cases "split_on c s") auto
qed simp

text \<open>What the parser makes of a printed coordinate: the identifier up to its first colon.\<close>

lemma from_kpi_to_string:
  assumes "hex_ok x" and "coordinate_wf c"
  shows "from_kpi_format x (coordinate_to_string x c) =
    Inr (c\<lparr>co_identifier := takeWhile (\<lambda>d. d \<noteq> CHR '':'') (co_identifier c)\<rparr>)"
proof -
  obtain i rest where i: "split_on (CHR '':'') (co_identifier c) = i # rest"
    by (cases "split_on (CHR '':'') (co_identifier c)") auto
  have hd: "i = takeWhile (\<lambda>d. d \<noteq> CHR '':'') (co_identifier c)"
    using split_on_hd [of "CHR '':''" "co_identifier c"] i by simp
  have "split_on (CHR '':'') (coordinate_to_string x c) =
      kind_to_string (co_kind c) # public_key_to_hex x (co_public_key c) # i # rest"
    using public_key_to_hex_props(1) [OF assms(1)]
    by (simp add: coordinate_to_string_def split_on_append i)
  moreover have "kind_from_str (kind_to_string (co_kind c)) = Inr (co_kind c)"
    using assms(2) by (simp add: kind_from_str_to_string coordinate_wf_def canonical_def)
  moreover have "public_key_from_hex x (public_key_to_hex x (co_public_key c)) = Inr (co_public_key c)"
    using assms by (simp add: public_key_from_to_hex coordinate_wf_def)
  ultimately show ?thesis
    by (simp add: from_kpi_format_def hd)
qed

lemma from_kpi_wf: "hex_ok x \<Longrightarrow> from_kpi_format x s = Inr c \<Longrightarrow> coordinate_wf c"
  by (auto simp: from_kpi_format_def coordinate_wf_def kind_from_str_def rbind_Inr
      dest: public_key_from_hex_wf split: list.splits option.splits)

lemma from_kpi_identifier:
  assumes "from_kpi_format x s = Inr c"
  shows "CHR '':'' \<notin> set (co_identifier c)"
proof -
  obtain a b r where "split_on (CHR '':'') s = a # b # co_identifier c # r"
    using assms by (auto simp: from_kpi_format_def rbind_Inr split: list.splits)
  then have "co_identifier c \<in> set (split_on (CHR '':'') s)" by simp
  then show ?thesis by (rule split_on_pieces)
qed

section \<open>Properties\<close>

text \<open>
  Printing a coordinate and reading it back gives the coordinate exactly when its
  identifier has no colon; every coordinate that is read has such an identifier.
\<close>

lemma coordinate_kpi_roundtrip:
  assumes "hex_ok x" and "coordinate_wf c"
  shows "from_kpi_format x (coordinate_to_string x c) = Inr c \<longleftrightarrow> CHR '':'' \<notin> set (co_identifier c)"
  unfolding from_kpi_to_string [OF assms]
  by (cases c) (auto simp: takeWhile_eq_all_conv)

definition ref_coordinate :: "string \<Rightarrow> coordinate" where
  "ref_coordinate i = \<lparr>co_kind = Named 30023, co_public_key = ref_pk 7, co_identifier = i\<rparr>"

lemma ref_coordinate_wf [simp]: "coordinate_wf (ref_coordinate i)"
  by (simp add: coordinate_wf_def ref_coordinate_def canonical_def from_u16_def kind_table_def)

lemma ref_coordinate_identifier: "co_identifier (ref_coordinate i) = i"
  by (simp add: ref_coordinate_def)

lemma coordinate_kpi_roundtrip_witness:
  "from_kpi_format ref_externals (coordinate_to_string ref_externals (ref_coordinate ''ab'')) =
     Inr (ref_coordinate ''ab'') \<and>
   from_kpi_format ref_externals (coordinate_to_string ref_externals (ref_coordinate ''a:b'')) \<noteq>
     Inr (ref_coordinate ''a:b'')"
  using coordinate_kpi_roundtrip [OF ref_hex_ok ref_coordinate_wf, of "''ab''"]
    coordinate_kpi_roundtrip [OF ref_hex_ok ref_coordinate_wf, of "''a:b''"]
  by (simp add: ref_coordinate_identifier)

text \<open>
  A coordinate passes \<open>verify\<close> exactly when its kind is replaceable and it has no
  identifier, or its kind is addressable and it has one.
\<close>

lemma coordinate_verify_iff:
  "coordinate_verify c = Inr () \<longleftrightarrow>
     is_replaceable (co_kind c) \<and> \<not> has_identifier c \<or>
     is_addressable (co_kind c) \<and> has_identifier c"
  using replaceable_not_addressable [of "co_kind c"]
  by (auto simp: coordinate_verify_def verify_coordinate_def has_identifier_def)

end
