(* ===== verification/Nostr_Tags.thy ===== *)
theory Nostr_Tags
  imports Nostr_Coordinate Nostr_Reference
begin

text \<open>
  Event tags: the type \<open>Tag\<close>, a non-empty vector of strings (nostr/src/event/tag/mod.rs), the
  parsing helpers of nostr/src/nips/util.rs, the typed tags of NIP-01, NIP-13, NIP-40, NIP-42,
  NIP-62 and NIP-70 that \<open>impl_tag_codec_conversions!\<close> (nostr/src/event/tag/codec.rs) gives a
  \<open>parse\<close> and a \<open>to_tag\<close>, and the queries of the tag list (nostr/src/event/tag/list.rs).

  The locale \<open>tag_codec\<close> is the contract of that macro; each typed tag interprets it.
\<close>

section \<open>Tags\<close>

type_synonym tag = "string list"

definition tag_ok :: "tag \<Rightarrow> bool" where
  "tag_ok t \<longleftrightarrow> t \<noteq> []"

definition tag_parse :: "string list \<Rightarrow> tag res" where
  "tag_parse t = (if t = [] then Inl Invalid else Inr t)"

text \<open>\<open>kind\<close> reads cell 0; it would panic on an empty tag, which \<open>tag_ok\<close> excludes.\<close>

definition tag_kind :: "tag \<Rightarrow> string" where
  "tag_kind t = t ! 0"

definition tag_content :: "tag \<Rightarrow> string option" where
  "tag_content t = (if 1 < length t then Some (t ! 1) else None)"

definition tag_single_letter :: "tag \<Rightarrow> single_letter_tag option" where
  "tag_single_letter t = ok_of (slt_from_str (tag_kind t))"

definition tag_push :: "tag \<Rightarrow> string \<Rightarrow> tag" where
  "tag_push t v = t @ [v]"

definition tag_pop :: "tag \<Rightarrow> string option \<times> tag" where
  "tag_pop t = (if length t \<le> 1 then (None, t) else (Some (last t), butlast t))"

definition tag_insert :: "tag \<Rightarrow> nat \<Rightarrow> string \<Rightarrow> bool \<times> tag" where
  "tag_insert t index value =
     (if index > length t then (False, t)
      else if (index = 0 \<or> index = 1) \<and> value = [] then (False, t)
      else (True, take index t @ value # drop index t))"

definition tag_extend :: "tag \<Rightarrow> string list \<Rightarrow> tag" where
  "tag_extend t vs = t @ vs"

definition tag_custom :: "string \<Rightarrow> string list \<Rightarrow> tag" where
  "tag_custom k vs = k # vs"

definition tag_is_protected :: "tag \<Rightarrow> bool" where
  "tag_is_protected t \<longleftrightarrow> t = [''-'']"

lemma tag_kind_Cons [simp]: "tag_kind (k # vs) = k"
  by (simp add: tag_kind_def)

lemma tag_content_simps [simp]:
  "tag_content [k] = None"
  "tag_content (k # v # vs) = Some v"
  by (simp_all add: tag_content_def)

section \<open>Reading the values of a tag\<close>

text \<open>
  The helpers of nips/util.rs take an iterator: they return the value they read and what is left
  of the list.
\<close>

type_synonym 'a take = "string list \<Rightarrow> ('a \<times> string list) res"

definition take_and_parse_optional :: "(string \<Rightarrow> 'a res) \<Rightarrow> 'a option take" where
  "take_and_parse_optional parse it =
     (case it of
        [] \<Rightarrow> Inr (None, [])
      | value # rest \<Rightarrow>
          if value = [] then Inr (None, rest)
          else rbind (parse value) (\<lambda>v. Inr (Some v, rest)))"

definition take_optional_string :: "string list \<Rightarrow> string option \<times> string list" where
  "take_optional_string it =
     (case it of [] \<Rightarrow> (None, []) | v # rest \<Rightarrow> (if v = [] then None else Some v, rest))"

text \<open>The first value, which must be there: \<open>iter.next().ok_or(missing_value(..))\<close>.\<close>

definition take_next :: "string take" where
  "take_next it = (case it of [] \<Rightarrow> Inl Missing | v # rest \<Rightarrow> Inr (v, rest))"

definition take_string :: "string take" where
  "take_string it = take_next it"

definition take_public_key :: "externals \<Rightarrow> public_key take" where
  "take_public_key x it =
     rbind (take_next it) (\<lambda>(v, rest). rbind (public_key_from_hex x v) (\<lambda>k. Inr (k, rest)))"

definition take_coordinate :: "externals \<Rightarrow> coordinate take" where
  "take_coordinate x it =
     rbind (take_next it) (\<lambda>(v, rest). rbind (from_kpi_format x v) (\<lambda>c. Inr (c, rest)))"

definition take_event_id :: "externals \<Rightarrow> event_id take" where
  "take_event_id x it =
     rbind (take_next it) (\<lambda>(v, rest). rbind (event_id_from_hex x v) (\<lambda>i. Inr (i, rest)))"

text \<open>Every parse error becomes \<open>Malformed\<close> here.\<close>

definition take_and_parse_from_str :: "(string \<Rightarrow> 'a option) \<Rightarrow> 'a take" where
  "take_and_parse_from_str parse it =
     rbind (take_next it) (\<lambda>(v, rest). rbind (ok_or (parse v) Malformed) (\<lambda>y. Inr (y, rest)))"

definition take_relay_url :: "externals \<Rightarrow> relay_url take" where
  "take_relay_url x = take_and_parse_from_str (\<lambda>s. ok_of (relay_url_parse x s))"

definition take_timestamp :: "timestamp take" where
  "take_timestamp = take_and_parse_from_str ts_from_str"

named_theorems takes

lemma take_next_simps [simp, takes]:
  "take_next [] = Inl Missing"
  "take_next (v # rest) = Inr (v, rest)"
  by (simp_all add: take_next_def)

lemma take_optional_simps [takes]:
  "take_and_parse_optional parse [] = Inr (None, [])"
  "take_and_parse_optional parse ([] # rest) = Inr (None, rest)"
  "v \<noteq> [] \<Longrightarrow> parse v = Inr y \<Longrightarrow> take_and_parse_optional parse (v # rest) = Inr (Some y, rest)"
  by (simp_all add: take_and_parse_optional_def)

lemma take_from_str_simp [takes]:
  "parse v = Some y \<Longrightarrow> take_and_parse_from_str parse (v # rest) = Inr (y, rest)"
  by (simp add: take_and_parse_from_str_def)

lemma take_from_str_missing [takes]: "take_and_parse_from_str parse [] = Inl Missing"
  by (simp add: take_and_parse_from_str_def)

section \<open>The contract of the typed tags\<close>

locale tag_codec =
  fixes parse :: "string list \<Rightarrow> 'a res"
    and to_tag :: "'a \<Rightarrow> tag"
    and wf :: "'a \<Rightarrow> bool"
  assumes parse_to_tag: "wf v \<Longrightarrow> parse (to_tag v) = Inr v"
    and to_tag_nonempty: "to_tag v \<noteq> []"
    and parse_empty: "parse [] = Inl Missing"
begin

lemma inj: "wf v \<Longrightarrow> wf w \<Longrightarrow> to_tag v = to_tag w \<Longrightarrow> v = w"
  by (metis Inr_inject parse_to_tag)

lemma ok: "tag_ok (to_tag v)"
  by (simp add: tag_ok_def to_tag_nonempty)

lemma parse_map: "list_all wf vs \<Longrightarrow> map parse (map to_tag vs) = map Inr vs"
  by (induction vs) (simp_all add: parse_to_tag)

lemma any_to_tag:
  "list_all wf vs \<Longrightarrow>
   list_ex (\<lambda>t. case parse t of Inl e \<Rightarrow> False | Inr w \<Rightarrow> P w) (map to_tag vs) = list_ex P vs"
  by (induction vs) (simp_all add: parse_to_tag)

lemma roundtrip_tag: "parse t = Inr v \<Longrightarrow> wf v \<Longrightarrow> parse (to_tag v) = parse t"
  by (simp add: parse_to_tag)

end

section \<open>NIP-01 tags\<close>

datatype nip01_tag =
    N01_Coordinate coordinate "relay_url option"
  | N01_Event event_id "relay_url option" "public_key option"
  | N01_Identifier string
  | N01_PublicKey public_key "relay_url option"

definition parse_a_tag :: "externals \<Rightarrow> string list \<Rightarrow> (coordinate \<times> relay_url option) res" where
  "parse_a_tag x it =
     rbind (take_coordinate x it) (\<lambda>(c, it).
       rbind (take_and_parse_optional (relay_url_parse x) it) (\<lambda>(hint, it).
         Inr (c, hint)))"

definition parse_e_tag ::
  "externals \<Rightarrow> string list \<Rightarrow> (event_id \<times> relay_url option \<times> public_key option) res" where
  "parse_e_tag x it =
     rbind (take_event_id x it) (\<lambda>(i, it).
       rbind (take_and_parse_optional (relay_url_parse x) it) (\<lambda>(hint, it).
         rbind (take_and_parse_optional (public_key_from_hex x) it) (\<lambda>(pk, it).
           Inr (i, hint, pk))))"

definition parse_p_tag :: "externals \<Rightarrow> string list \<Rightarrow> (public_key \<times> relay_url option) res" where
  "parse_p_tag x it =
     rbind (take_public_key x it) (\<lambda>(pk, it).
       rbind (take_and_parse_optional (relay_url_parse x) it) (\<lambda>(hint, it).
         Inr (pk, hint)))"

definition nip01_parse :: "externals \<Rightarrow> string list \<Rightarrow> nip01_tag res" where
  "nip01_parse x t =
     rbind (take_next t) (\<lambda>(k, it).
       if k = ''a'' then rbind (parse_a_tag x it) (\<lambda>(c, hint). Inr (N01_Coordinate c hint))
       else if k = ''e'' then
         rbind (parse_e_tag x it) (\<lambda>(i, hint, pk). Inr (N01_Event i hint pk))
       else if k = ''d'' then rbind (take_string it) (\<lambda>(i, it). Inr (N01_Identifier i))
       else if k = ''p'' then rbind (parse_p_tag x it) (\<lambda>(pk, hint). Inr (N01_PublicKey pk hint))
       else Inl Malformed)"

text \<open>The optional relay hint of a serialized tag.\<close>

definition hint_cells :: "relay_url option \<Rightarrow> string list" where
  "hint_cells hint = (case hint of None \<Rightarrow> [] | Some u \<Rightarrow> [relay_url_as_str u])"

definition serialize_a_tag :: "externals \<Rightarrow> coordinate \<Rightarrow> relay_url option \<Rightarrow> tag" where
  "serialize_a_tag x c hint = [''a'', coordinate_to_string x c] @ hint_cells hint"

definition serialize_e_tag ::
  "externals \<Rightarrow> event_id \<Rightarrow> relay_url option \<Rightarrow> public_key option \<Rightarrow> tag" where
  "serialize_e_tag x i hint pk =
     [''e'', event_id_to_hex x i] @
     (case hint of Some u \<Rightarrow> [relay_url_as_str u] | None \<Rightarrow> if pk \<noteq> None then [[]] else []) @
     (case pk of None \<Rightarrow> [] | Some k \<Rightarrow> [public_key_to_hex x k])"

definition serialize_p_tag :: "externals \<Rightarrow> public_key \<Rightarrow> relay_url option \<Rightarrow> tag" where
  "serialize_p_tag x pk hint = [''p'', public_key_to_hex x pk] @ hint_cells hint"

definition nip01_to_tag :: "externals \<Rightarrow> nip01_tag \<Rightarrow> tag" where
  "nip01_to_tag x t =
     (case t of
        N01_Coordinate c hint \<Rightarrow> serialize_a_tag x c hint
      | N01_Event i hint pk \<Rightarrow> serialize_e_tag x i hint pk
      | N01_Identifier i \<Rightarrow> [''d'', i]
      | N01_PublicKey pk hint \<Rightarrow> serialize_p_tag x pk hint)"

definition hint_ok :: "externals \<Rightarrow> relay_url option \<Rightarrow> bool" where
  "hint_ok x hint \<longleftrightarrow> (case hint of None \<Rightarrow> True | Some u \<Rightarrow> relay_url_stable x u)"

definition nip01_tag_ok :: "externals \<Rightarrow> nip01_tag \<Rightarrow> bool" where
  "nip01_tag_ok x t \<longleftrightarrow>
     (case t of
        N01_Coordinate c hint \<Rightarrow>
          coordinate_wf c \<and> CHR '':'' \<notin> set (co_identifier c) \<and> hint_ok x hint
      | N01_Event i hint pk \<Rightarrow>
          wf_event_id i \<and> hint_ok x hint \<and> (case pk of None \<Rightarrow> True | Some k \<Rightarrow> wf_public_key k)
      | N01_Identifier i \<Rightarrow> True
      | N01_PublicKey pk hint \<Rightarrow> wf_public_key pk \<and> hint_ok x hint)"

lemma take_hint [takes]:
  "hint_ok x hint \<Longrightarrow>
   take_and_parse_optional (relay_url_parse x) (hint_cells hint) = Inr (hint, [])"
  by (cases hint) (auto simp: hint_ok_def hint_cells_def relay_url_stable_def takes)

lemma take_hint_pk [takes]:
  "hint_ok x hint \<Longrightarrow>
   take_and_parse_optional (relay_url_parse x)
     ((case hint of Some u \<Rightarrow> [relay_url_as_str u] | None \<Rightarrow> if pk \<noteq> None then [[]] else []) @
      (case pk of None \<Rightarrow> [] | Some k \<Rightarrow> [public_key_to_hex x k])) =
   Inr (hint, case pk of None \<Rightarrow> [] | Some k \<Rightarrow> [public_key_to_hex x k])"
  by (cases hint; cases pk) (auto simp: hint_ok_def relay_url_stable_def takes)

lemma take_pk [takes]:
  "hex_ok x \<Longrightarrow> (case pk of None \<Rightarrow> True | Some k \<Rightarrow> wf_public_key k) \<Longrightarrow>
   take_and_parse_optional (public_key_from_hex x)
     (case pk of None \<Rightarrow> [] | Some k \<Rightarrow> [public_key_to_hex x k]) = Inr (pk, [])"
  using public_key_to_hex_props(2) [of x] public_key_from_to_hex [of x]
  by (cases pk) (auto simp: takes)

lemma nip01_parse_to_tag:
  assumes h: "hex_ok x" and ok: "nip01_tag_ok x v"
  shows "nip01_parse x (nip01_to_tag x v) = Inr v"
proof (cases v)
  case (N01_Coordinate c hint)
  then have "from_kpi_format x (coordinate_to_string x c) = Inr c"
    using from_kpi_to_string [OF h, of c] ok
    by (cases c) (auto simp: nip01_tag_ok_def takeWhile_eq_all_conv)
  then show ?thesis
    using N01_Coordinate ok
    by (simp add: nip01_parse_def nip01_to_tag_def nip01_tag_ok_def serialize_a_tag_def
        parse_a_tag_def take_coordinate_def takes)
next
  case (N01_Event i hint pk)
  then show ?thesis
    using ok h
    by (simp add: nip01_parse_def nip01_to_tag_def nip01_tag_ok_def serialize_e_tag_def
        parse_e_tag_def take_event_id_def takes event_id_from_to_hex)
next
  case (N01_Identifier i)
  then show ?thesis
    by (simp add: nip01_parse_def nip01_to_tag_def take_string_def)
next
  case (N01_PublicKey pk hint)
  then show ?thesis
    using ok h
    by (simp add: nip01_parse_def nip01_to_tag_def nip01_tag_ok_def serialize_p_tag_def
        parse_p_tag_def take_public_key_def takes public_key_from_to_hex)
qed

lemma nip01_to_tag_nonempty: "nip01_to_tag x v \<noteq> []"
  by (simp add: nip01_to_tag_def serialize_a_tag_def serialize_e_tag_def serialize_p_tag_def
      split: nip01_tag.split)

interpretation nip01: tag_codec "nip01_parse x" "nip01_to_tag x"
  "\<lambda>v. hex_ok x \<and> nip01_tag_ok x v" for x
proof unfold_locales
  show "hex_ok x \<and> nip01_tag_ok x v \<Longrightarrow> nip01_parse x (nip01_to_tag x v) = Inr v" for v
    by (simp only: nip01_parse_to_tag)
  show "nip01_to_tag x v \<noteq> []" for v by (rule nip01_to_tag_nonempty)
  show "nip01_parse x [] = Inl Missing" by (simp add: nip01_parse_def)
qed

section \<open>The tags of NIP-13, NIP-40, NIP-42, NIP-62 and NIP-70\<close>

definition u128_max :: nat where
  "u128_max = 340282366920938463463374607431768211455"

datatype nip13_tag = Nonce nat nat

definition parse_nonce_tag :: "string list \<Rightarrow> (nat \<times> nat) res" where
  "parse_nonce_tag it =
     rbind (take_and_parse_from_str (parse_uint u128_max) it) (\<lambda>(nonce, it).
       rbind (take_and_parse_from_str (parse_uint u8_max) it) (\<lambda>(difficulty, it).
         Inr (nonce, difficulty)))"

definition nip13_parse :: "string list \<Rightarrow> nip13_tag res" where
  "nip13_parse t =
     rbind (take_next t) (\<lambda>(k, it).
       if k = ''nonce'' then rbind (parse_nonce_tag it) (\<lambda>(n, d). Inr (Nonce n d))
       else Inl Malformed)"

definition nip13_to_tag :: "nip13_tag \<Rightarrow> tag" where
  "nip13_to_tag t = (case t of Nonce n d \<Rightarrow> [''nonce'', show_nat n, show_nat d])"

interpretation nip13: tag_codec nip13_parse nip13_to_tag
  "\<lambda>v. case v of Nonce n d \<Rightarrow> n \<le> u128_max \<and> d \<le> u8_max"
  by unfold_locales
    (auto simp: nip13_parse_def nip13_to_tag_def parse_nonce_tag_def takes parse_uint_show
      split: nip13_tag.splits)

datatype nip40_tag = Expiration timestamp

definition nip40_parse :: "string list \<Rightarrow> nip40_tag res" where
  "nip40_parse t =
     rbind (take_next t) (\<lambda>(k, it).
       if k = ''expiration'' then rbind (take_timestamp it) (\<lambda>(ts, it). Inr (Expiration ts))
       else Inl Malformed)"

definition nip40_to_tag :: "nip40_tag \<Rightarrow> tag" where
  "nip40_to_tag t = (case t of Expiration ts \<Rightarrow> [''expiration'', ts_to_string ts])"

interpretation nip40: tag_codec nip40_parse nip40_to_tag
  "\<lambda>v. case v of Expiration ts \<Rightarrow> ts \<le> u64_max"
  by unfold_locales
    (auto simp: nip40_parse_def nip40_to_tag_def take_timestamp_def takes ts_from_to_string
      split: nip40_tag.splits)

datatype nip42_tag = N42_Challenge string | N42_Relay relay_url

definition nip42_parse :: "externals \<Rightarrow> string list \<Rightarrow> nip42_tag res" where
  "nip42_parse x t =
     rbind (take_next t) (\<lambda>(k, it).
       if k = ''challenge'' then rbind (take_string it) (\<lambda>(c, it). Inr (N42_Challenge c))
       else if k = ''relay'' then rbind (take_relay_url x it) (\<lambda>(u, it). Inr (N42_Relay u))
       else Inl Malformed)"

definition nip42_to_tag :: "nip42_tag \<Rightarrow> tag" where
  "nip42_to_tag t =
     (case t of
        N42_Challenge c \<Rightarrow> [''challenge'', c]
      | N42_Relay u \<Rightarrow> [''relay'', relay_url_as_str u])"

definition nip42_tag_ok :: "externals \<Rightarrow> nip42_tag \<Rightarrow> bool" where
  "nip42_tag_ok x t = (case t of N42_Challenge c \<Rightarrow> True | N42_Relay u \<Rightarrow> relay_url_stable x u)"

interpretation nip42: tag_codec "nip42_parse x" nip42_to_tag "nip42_tag_ok x" for x
  by unfold_locales
    (auto simp: nip42_parse_def nip42_to_tag_def nip42_tag_ok_def take_relay_url_def
      take_string_def relay_url_stable_def takes split: nip42_tag.splits)

datatype nip62_tag = N62_AllRelays | N62_Relay relay_url

definition parse_relay_tag :: "externals \<Rightarrow> string list \<Rightarrow> nip62_tag res" where
  "parse_relay_tag x it =
     rbind (take_next it) (\<lambda>(v, rest).
       if v = ''ALL_RELAYS'' then Inr N62_AllRelays
       else rbind (relay_url_parse x v) (\<lambda>u. Inr (N62_Relay u)))"

definition nip62_parse :: "externals \<Rightarrow> string list \<Rightarrow> nip62_tag res" where
  "nip62_parse x t =
     rbind (take_next t) (\<lambda>(k, it).
       if k = ''relay'' then parse_relay_tag x it else Inl Malformed)"

definition nip62_to_tag :: "nip62_tag \<Rightarrow> tag" where
  "nip62_to_tag t =
     (case t of
        N62_AllRelays \<Rightarrow> [''relay'', ''ALL_RELAYS'']
      | N62_Relay u \<Rightarrow> [''relay'', relay_url_as_str u])"

definition nip62_tag_ok :: "externals \<Rightarrow> nip62_tag \<Rightarrow> bool" where
  "nip62_tag_ok x t =
     (case t of
        N62_AllRelays \<Rightarrow> True
      | N62_Relay u \<Rightarrow> relay_url_stable x u \<and> relay_url_as_str u \<noteq> ''ALL_RELAYS'')"

interpretation nip62: tag_codec "nip62_parse x" nip62_to_tag "nip62_tag_ok x" for x
  by unfold_locales
    (auto simp: nip62_parse_def nip62_to_tag_def nip62_tag_ok_def parse_relay_tag_def
      relay_url_stable_def split: nip62_tag.splits)

definition is_valid_vanish_request_for_relay ::
  "externals \<Rightarrow> tag list \<Rightarrow> relay_url option \<Rightarrow> bool" where
  "is_valid_vanish_request_for_relay x tags relay =
     list_ex (\<lambda>t. case nip62_parse x t of
         Inl e \<Rightarrow> False
       | Inr v \<Rightarrow> (case v of
             N62_AllRelays \<Rightarrow> True
           | N62_Relay r \<Rightarrow> (case relay of None \<Rightarrow> False | Some u \<Rightarrow> relay_url_eq r u))) tags"

datatype nip70_tag = Protected

definition nip70_parse :: "string list \<Rightarrow> nip70_tag res" where
  "nip70_parse t =
     rbind (take_next t) (\<lambda>(k, it). if k = ''-'' then Inr Protected else Inl Malformed)"

definition nip70_to_tag :: "nip70_tag \<Rightarrow> tag" where
  "nip70_to_tag t = [''-'']"

interpretation nip70: tag_codec nip70_parse nip70_to_tag "\<lambda>v. True"
  by unfold_locales (simp_all add: nip70_parse_def nip70_to_tag_def, metis (full_types) nip70_tag.exhaust)

section \<open>The tag list\<close>

definition tags_parse :: "string list list \<Rightarrow> tag list res" where
  "tags_parse ts = foldr (\<lambda>t r. rbind (tag_parse t) (\<lambda>t. rbind r (\<lambda>ts. Inr (t # ts)))) ts (Inr [])"

definition tags_identifier :: "externals \<Rightarrow> tag list \<Rightarrow> string option" where
  "tags_identifier x ts =
     (case find (\<lambda>t. tag_kind t = ''d'') ts of
        None \<Rightarrow> None
      | Some t \<Rightarrow> (case nip01_parse x t of Inr (N01_Identifier i) \<Rightarrow> Some i | _ \<Rightarrow> None))"

definition tags_expiration :: "tag list \<Rightarrow> timestamp option" where
  "tags_expiration ts =
     (case find (\<lambda>t. tag_kind t = ''expiration'') ts of
        None \<Rightarrow> None
      | Some t \<Rightarrow> (case nip40_parse t of Inr (Expiration e) \<Rightarrow> Some e | _ \<Rightarrow> None))"

definition tags_challenge :: "externals \<Rightarrow> tag list \<Rightarrow> string option" where
  "tags_challenge x ts =
     (case find (\<lambda>t. tag_kind t = ''challenge'') ts of
        None \<Rightarrow> None
      | Some t \<Rightarrow> (case nip42_parse x t of Inr (N42_Challenge c) \<Rightarrow> Some c | _ \<Rightarrow> None))"

text \<open>The \<open>filter_map\<close> of the next four: the tags of one kind, their content, parsed.\<close>

definition tags_collect :: "string \<Rightarrow> (string \<Rightarrow> 'a option) \<Rightarrow> tag list \<Rightarrow> 'a list" where
  "tags_collect k parse ts =
     List.map_filter (\<lambda>t. if tag_kind t \<noteq> k then None
        else (case tag_content t of None \<Rightarrow> None | Some c \<Rightarrow> parse c)) ts"

definition tags_public_keys :: "externals \<Rightarrow> tag list \<Rightarrow> public_key list" where
  "tags_public_keys x = tags_collect ''p'' (\<lambda>c. ok_of (public_key_from_hex x c))"

definition tags_event_ids :: "externals \<Rightarrow> tag list \<Rightarrow> event_id list" where
  "tags_event_ids x = tags_collect ''e'' (\<lambda>c. ok_of (event_id_from_hex x c))"

definition tags_coordinates :: "externals \<Rightarrow> tag list \<Rightarrow> coordinate list" where
  "tags_coordinates x = tags_collect ''a'' (\<lambda>c. ok_of (from_kpi_format x c))"

definition tags_hashtags :: "tag list \<Rightarrow> string list" where
  "tags_hashtags = tags_collect ''t'' Some"

lemma tags_collect_simps [simp]:
  "tags_collect k parse [] = []"
  "tags_collect k parse (t # ts) =
     (case if tag_kind t \<noteq> k then None
           else (case tag_content t of None \<Rightarrow> None | Some c \<Rightarrow> parse c) of
        None \<Rightarrow> tags_collect k parse ts | Some v \<Rightarrow> v # tags_collect k parse ts)"
  by (simp_all add: tags_collect_def List.map_filter_def split: option.splits)

lemma tags_collect_set:
  "v \<in> set (tags_collect k parse ts) \<longleftrightarrow>
     (\<exists>t \<in> set ts. \<exists>c. tag_kind t = k \<and> tag_content t = Some c \<and> parse c = Some v)"
  by (induction ts) (auto split: option.splits if_splits)

text \<open>The tags of a vanish request (\<open>VanishRequest::into_event_builder\<close>).\<close>

datatype vanish_target = AllRelays | Relays "relay_url list"

definition vanish_request_tags :: "vanish_target \<Rightarrow> tag list" where
  "vanish_request_tags target =
     (case target of
        AllRelays \<Rightarrow> [nip62_to_tag N62_AllRelays]
      | Relays relays \<Rightarrow> map (\<lambda>u. nip62_to_tag (N62_Relay u)) relays)"

section \<open>Properties\<close>

text \<open>
  Every operation keeps a tag non-empty, so \<open>kind\<close> never panics. \<open>insert\<close> succeeds exactly
  when the index is at most the length and the value is not an empty string for cell 0 or 1, and
  then puts the value at the index and shifts the rest; \<open>pop\<close> undoes \<open>push\<close>.
\<close>

lemma tag_operations:
  assumes "tag_ok t"
  shows "tag_ok (tag_push t v) \<and> tag_ok (snd (tag_pop t)) \<and> tag_ok (snd (tag_insert t i v)) \<and>
    tag_ok (tag_extend t vs) \<and> tag_pop (tag_push t v) = (Some v, t) \<and>
    fst (tag_insert t i v) = (i \<le> length t \<and> (2 \<le> i \<or> v \<noteq> [])) \<and>
    (if fst (tag_insert t i v)
     then snd (tag_insert t i v) ! i = v \<and> length (snd (tag_insert t i v)) = Suc (length t)
     else snd (tag_insert t i v) = t)"
proof -
  have pop: "tag_ok (snd (tag_pop t))"
    using assms by (cases t rule: rev_cases) (auto simp: tag_ok_def tag_pop_def)
  show ?thesis
    using assms pop
    by (auto simp: tag_ok_def tag_push_def tag_insert_def tag_extend_def nth_append tag_pop_def
        min_def)
qed

lemma tag_operations_witness:
  "tag_ok [''p'', ''v''] \<and> tag_insert [''p'', ''v''] 1 ''k'' = (True, [''p'', ''k'', ''v''])"
  using tag_operations [of "[''p'', ''v'']" "''k''" 1 "[]"]
  by (simp add: tag_ok_def tag_insert_def)



text \<open>
  A vanish request that is built for all relays applies to every relay, and one built for a
  list of relays applies exactly to the relays of the list; without a relay URL of its own a
  store takes only the requests to all relays.
\<close>

lemma vanish_request_applies:
  assumes "\<forall>u \<in> (case target of AllRelays \<Rightarrow> {} | Relays us \<Rightarrow> set us).
      relay_url_stable x u \<and> relay_url_as_str u \<noteq> ''ALL_RELAYS''"
  shows "is_valid_vanish_request_for_relay x (vanish_request_tags target) relay \<longleftrightarrow>
    (case target of
       AllRelays \<Rightarrow> True
     | Relays us \<Rightarrow> (case relay of None \<Rightarrow> False | Some r \<Rightarrow> \<exists>u \<in> set us. relay_url_eq u r))"
proof (cases target)
  case AllRelays
  then show ?thesis
    by (simp add: is_valid_vanish_request_for_relay_def vanish_request_tags_def nip62_tag_ok_def
        nip62.parse_to_tag)
next
  case (Relays us)
  have "list_all (nip62_tag_ok x) (map N62_Relay us)"
    using assms Relays by (auto simp: list_all_iff nip62_tag_ok_def)
  from nip62.any_to_tag [OF this]
  show ?thesis
    using Relays
    by (cases relay) (auto simp: is_valid_vanish_request_for_relay_def vanish_request_tags_def
        comp_def list_ex_iff list_all_iff)
qed

lemma vanish_request_applies_witness:
  "is_valid_vanish_request_for_relay ref_externals (vanish_request_tags (Relays [ref_url]))
     (Some ref_url)"
proof -
  have "relay_url_as_str ref_url \<noteq> ''ALL_RELAYS''"
    by (simp add: relay_url_as_str_def ref_url_def trim_end_matches_def)
  then have "\<forall>u \<in> (case Relays [ref_url] of AllRelays \<Rightarrow> {} | Relays us \<Rightarrow> set us).
      relay_url_stable ref_externals u \<and> relay_url_as_str u \<noteq> ''ALL_RELAYS''"
    by simp
  from vanish_request_applies [OF this, of "Some ref_url"] show ?thesis
    by (simp add: relay_url_eq_def)
qed

end
