(* ===== verification/Nostr_Event.thy ===== *)
theory Nostr_Event
  imports Nostr_Tags
begin

text \<open>
  Events (nostr/src/event/mod.rs): the record \<open>Event\<close>, its order, the check of id and signature,
  expiration, coordinate and protection; the authentication events of NIP-42
  (nostr/src/nips/nip42.rs).
\<close>

record event =
  ev_id :: event_id
  ev_pubkey :: public_key
  ev_created_at :: timestamp
  ev_kind :: kind
  ev_tags :: "tag list"
  ev_content :: string
  ev_sig :: "u8 list"

text \<open>
  \<open>Ord\<close>: newer events first, and the lower id first among events of the same time. The
  implementations of \<open>BTreeSet\<close> use this order and not the derived equality.
\<close>

definition event_key :: "event \<Rightarrow> int \<times> event_id" where
  "event_key e = (- int (ev_created_at e), ev_id e)"

definition event_eq :: "event \<Rightarrow> event \<Rightarrow> bool" where
  "event_eq a b \<longleftrightarrow>
     ev_id a = ev_id b \<and> ev_pubkey a = ev_pubkey b \<and> ev_created_at a = ev_created_at b \<and>
     kind_eq (ev_kind a) (ev_kind b) \<and> ev_tags a = ev_tags b \<and> ev_content a = ev_content b \<and>
     ev_sig a = ev_sig b"

text \<open>\<open>EventId::compute\<close>: the hash of the JSON array of the fields.\<close>

definition event_id_compute ::
  "externals \<Rightarrow> public_key \<Rightarrow> timestamp \<Rightarrow> kind \<Rightarrow> tag list \<Rightarrow> string \<Rightarrow> event_id" where
  "event_id_compute x pk ts k tags content =
     EventId (sha256 x
       (json_event_array x (public_key_to_hex x pk) ts (unat (as_u16 k)) tags content))"

definition verify_id :: "externals \<Rightarrow> event \<Rightarrow> bool" where
  "verify_id x e \<longleftrightarrow>
     event_id_compute x (ev_pubkey e) (ev_created_at e) (ev_kind e) (ev_tags e) (ev_content e)
       = ev_id e"

definition verify_signature :: "externals \<Rightarrow> event \<Rightarrow> bool" where
  "verify_signature x e \<longleftrightarrow>
     schnorr_verify x (ev_sig e) (eid_bytes (ev_id e)) (pk_bytes (ev_pubkey e))"

definition event_verify :: "externals \<Rightarrow> event \<Rightarrow> unit res" where
  "event_verify x e =
     (if \<not> verify_id x e then Inl Invalid
      else if \<not> verify_signature x e then Inl Invalid
      else Inr ())"

definition is_expired_at :: "event \<Rightarrow> timestamp \<Rightarrow> bool" where
  "is_expired_at e now =
     (case tags_expiration (ev_tags e) of Some t \<Rightarrow> t < now | None \<Rightarrow> False)"

definition event_coordinate :: "externals \<Rightarrow> event \<Rightarrow> coordinate option" where
  "event_coordinate x e =
     (if is_replaceable (ev_kind e) \<or> is_addressable (ev_kind e)
      then Some \<lparr>co_kind = ev_kind e, co_public_key = ev_pubkey e,
                 co_identifier = (case tags_identifier x (ev_tags e) of None \<Rightarrow> [] | Some i \<Rightarrow> i)\<rparr>
      else None)"

definition is_protected :: "event \<Rightarrow> bool" where
  "is_protected e = list_ex tag_is_protected (ev_tags e)"

text \<open>An event that a parser can build: its parts are of the types' invariants.\<close>

definition event_wf :: "event \<Rightarrow> bool" where
  "event_wf e \<longleftrightarrow>
     wf_event_id (ev_id e) \<and> wf_public_key (ev_pubkey e) \<and> canonical (ev_kind e) \<and>
     list_all tag_ok (ev_tags e) \<and> ev_created_at e \<le> u64_max"

lemma event_key_eq: "event_key a = event_key b \<longleftrightarrow> ev_created_at a = ev_created_at b \<and> ev_id a = ev_id b"
  by (auto simp: event_key_def)

lemma event_key_less:
  "event_key a < event_key b \<longleftrightarrow>
     ev_created_at b < ev_created_at a \<or> ev_created_at a = ev_created_at b \<and> ev_id a < ev_id b"
  by (auto simp: event_key_def)

lemma event_verify_ok: "event_verify x e = Inr () \<longleftrightarrow> verify_id x e \<and> verify_signature x e"
  by (simp add: event_verify_def)

section \<open>Authentication events\<close>

text \<open>\<open>ClientAuthentication::into_event_builder\<close>: the tags of the event it builds.\<close>

definition client_authentication_tags :: "string \<Rightarrow> relay_url \<Rightarrow> tag list" where
  "client_authentication_tags challenge relay =
     [nip42_to_tag (N42_Challenge challenge), nip42_to_tag (N42_Relay relay)]"

definition is_valid_auth_event :: "externals \<Rightarrow> event \<Rightarrow> relay_url \<Rightarrow> string \<Rightarrow> bool" where
  "is_valid_auth_event x e relay challenge =
     (if \<not> kind_eq (ev_kind e) Authentication then False
      else if \<not> list_ex (\<lambda>t. case nip42_parse x t of
                 Inl err \<Rightarrow> False
               | Inr v \<Rightarrow> (case v of N42_Relay u \<Rightarrow> relay_url_eq u relay | _ \<Rightarrow> False)) (ev_tags e)
        then False
      else if \<not> list_ex (\<lambda>t. case nip42_parse x t of
                 Inl err \<Rightarrow> False
               | Inr v \<Rightarrow> (case v of N42_Challenge c \<Rightarrow> c = challenge | _ \<Rightarrow> False)) (ev_tags e)
        then False
      else True)"

section \<open>Properties\<close>

text \<open>
  An event that carries the tags of \<open>ClientAuthentication\<close> is a valid authentication for its
  own challenge and relay, and for no other challenge and no other relay; and no event of another
  kind is.
\<close>

lemma client_authentication_valid:
  assumes "relay_url_stable x u" and "ev_tags e = client_authentication_tags c u"
  shows "is_valid_auth_event x e u' c' \<longleftrightarrow>
    kind_eq (ev_kind e) Authentication \<and> c' = c \<and> relay_url_eq u u'"
proof -
  have "list_all (nip42_tag_ok x) [N42_Challenge c, N42_Relay u]"
    using assms(1) by (simp add: nip42_tag_ok_def)
  note any = nip42.any_to_tag [OF this]
  have tags: "ev_tags e = map nip42_to_tag [N42_Challenge c, N42_Relay u]"
    using assms(2) by (simp add: client_authentication_tags_def)
  show ?thesis
    unfolding is_valid_auth_event_def tags any by auto
qed

definition ref_auth_event :: event where
  "ref_auth_event =
     \<lparr>ev_id = ref_id 1, ev_pubkey = ref_pk 2, ev_created_at = 5, ev_kind = Authentication,
      ev_tags = client_authentication_tags ''abc'' ref_url, ev_content = [], ev_sig = []\<rparr>"

lemma client_authentication_valid_witness:
  "is_valid_auth_event ref_externals ref_auth_event ref_url ''abc'' \<and>
   \<not> is_valid_auth_event ref_externals ref_auth_event ref_url ''abd''"
  using client_authentication_valid [of ref_externals ref_url ref_auth_event "''abc''"]
  by (simp add: ref_auth_event_def relay_url_eq_def)

end
