(* ===== verification/Nostr_Maps.thy ===== *)
theory Nostr_Maps
  imports Nostr_Prelude
begin

text \<open>
  Ordered maps: a \<open>BTreeMap<K, V>\<close> is a list of pairs in strictly ascending order of the key.
  \<open>btm_put\<close> is \<open>insert\<close> (it replaces the value of a key that is there) and also the way an entry
  is updated in place.
\<close>

fun btm_put :: "'k::linorder \<Rightarrow> 'v \<Rightarrow> ('k \<times> 'v) list \<Rightarrow> ('k \<times> 'v) list" where
  "btm_put k v [] = [(k, v)]"
| "btm_put k v ((k', v') # m) =
     (if k < k' then (k, v) # (k', v') # m
      else if k = k' then (k, v) # m
      else (k', v') # btm_put k v m)"

definition btm_get :: "'k::linorder \<Rightarrow> ('k \<times> 'v) list \<Rightarrow> 'v option" where
  "btm_get k m = map_of m k"

definition btm_remove :: "'k::linorder \<Rightarrow> ('k \<times> 'v) list \<Rightarrow> ('k \<times> 'v) list" where
  "btm_remove k m = filter (\<lambda>(k', v). k' \<noteq> k) m"

definition btm_ok :: "('k::linorder \<times> 'v) list \<Rightarrow> bool" where
  "btm_ok m \<longleftrightarrow> bts_ok fst m"

lemma btm_ok_simps [simp]:
  "btm_ok []"
  "btm_ok ((k, v) # m) \<longleftrightarrow> (\<forall>k' \<in> fst ` set m. k < k') \<and> btm_ok m"
  by (auto simp: btm_ok_def)

lemma btm_put_keys: "fst ` set (btm_put k v m) = insert k (fst ` set m)"
  by (induction k v m rule: btm_put.induct) auto

lemma btm_put_ok [btree]: "btm_ok m \<Longrightarrow> btm_ok (btm_put k v m)"
  by (induction k v m rule: btm_put.induct) (auto simp: btm_put_keys)

lemma btm_get_put [simp]:
  "btm_get j (btm_put k v m) = (if j = k then Some v else btm_get j m)"
  by (induction k v m rule: btm_put.induct) (auto simp: btm_get_def)

lemma btm_remove_ok [btree]: "btm_ok m \<Longrightarrow> btm_ok (btm_remove k m)"
  by (simp add: btm_ok_def btm_remove_def bts_filter_ok)

lemma btm_get_remove [simp]:
  "btm_get j (btm_remove k m) = (if j = k then None else btm_get j m)"
  by (induction m) (auto simp: btm_get_def btm_remove_def)

lemma btm_get_Nil [simp]: "btm_get k [] = None"
  by (simp add: btm_get_def)

lemma btm_get_Cons: "btm_get j ((k, v) # m) = (if j = k then Some v else btm_get j m)"
  by (simp add: btm_get_def)

lemma btm_get_mem: "btm_ok m \<Longrightarrow> btm_get k m = Some v \<longleftrightarrow> (k, v) \<in> set m"
proof (induction m)
  case Nil
  then show ?case by simp
next
  case (Cons p m)
  obtain k' v' where p: "p = (k', v')" by (cases p)
  show ?case using Cons by (force simp: p btm_get_Cons)
qed

lemma btm_eqI: "btm_ok a \<Longrightarrow> btm_ok b \<Longrightarrow> (\<And>k. btm_get k a = btm_get k b) \<Longrightarrow> a = b"
proof -
  assume a: "btm_ok a" and b: "btm_ok b" and eq: "\<And>k. btm_get k a = btm_get k b"
  have "(k, v) \<in> set a \<longleftrightarrow> (k, v) \<in> set b" for k v
    using btm_get_mem [OF a] btm_get_mem [OF b] eq by metis
  then have "set a = set b" by auto
  then show "a = b" using a b bts_ok_eqI [of fst a b] by (simp add: btm_ok_def)
qed

lemma btm_get_keys: "btm_get k m = None \<longleftrightarrow> k \<notin> fst ` set m"
  by (simp add: btm_get_def map_of_eq_None_iff)

end
