(* ===== verification/Nostr_Filter.thy ===== *)
theory Nostr_Filter
  imports Nostr_Event Nostr_Maps
begin

text \<open>
  Subscription filters (nostr/src/filter/mod.rs): the record \<open>Filter\<close>, the functions that add and
  remove conditions, and \<open>match_event\<close> with its options. Sets are sorted lists; the set of kinds
  is ordered and compared by number, as \<open>Ord\<close> of \<open>Kind\<close> is.
\<close>

section \<open>The record and its builders\<close>

type_synonym generic_tags = "(single_letter_tag \<times> string list) list"

record filter =
  fl_ids :: "event_id list option"
  fl_authors :: "public_key list option"
  fl_kinds :: "kind list option"
  fl_search :: "string option"
  fl_since :: "timestamp option"
  fl_until :: "timestamp option"
  fl_limit :: "nat option"
  fl_generic_tags :: generic_tags

definition filter_new :: filter where
  "filter_new =
     \<lparr>fl_ids = None, fl_authors = None, fl_kinds = None, fl_search = None, fl_since = None,
      fl_until = None, fl_limit = None, fl_generic_tags = []\<rparr>"

definition extend_or_collect ::
  "('a \<Rightarrow> 'k::linorder) \<Rightarrow> 'a list option \<Rightarrow> 'a list \<Rightarrow> 'a list option" where
  "extend_or_collect key s it =
     (case s of
        Some s \<Rightarrow> Some (bts_extend key s it)
      | None \<Rightarrow> Some (bts_extend key [] it))"

definition remove_or_none ::
  "('a \<Rightarrow> 'k::linorder) \<Rightarrow> 'a list option \<Rightarrow> 'a list \<Rightarrow> 'a list option" where
  "remove_or_none key s it =
     (case s of
        None \<Rightarrow> None
      | Some s \<Rightarrow>
          (let s' = foldl (\<lambda>t x. bts_remove key x t) s it
           in if s' = [] then None else Some s'))"

definition filter_ids :: "event_id list \<Rightarrow> filter \<Rightarrow> filter" where
  "filter_ids is f = f\<lparr>fl_ids := extend_or_collect id (fl_ids f) is\<rparr>"

definition filter_remove_ids :: "event_id list \<Rightarrow> filter \<Rightarrow> filter" where
  "filter_remove_ids is f = f\<lparr>fl_ids := remove_or_none id (fl_ids f) is\<rparr>"

definition filter_authors :: "public_key list \<Rightarrow> filter \<Rightarrow> filter" where
  "filter_authors ks f = f\<lparr>fl_authors := extend_or_collect id (fl_authors f) ks\<rparr>"

definition filter_author :: "public_key \<Rightarrow> filter \<Rightarrow> filter" where
  "filter_author k f = filter_authors [k] f"

definition filter_remove_authors :: "public_key list \<Rightarrow> filter \<Rightarrow> filter" where
  "filter_remove_authors ks f = f\<lparr>fl_authors := remove_or_none id (fl_authors f) ks\<rparr>"

definition filter_kinds :: "kind list \<Rightarrow> filter \<Rightarrow> filter" where
  "filter_kinds ks f = f\<lparr>fl_kinds := extend_or_collect as_u16 (fl_kinds f) ks\<rparr>"

definition filter_kind :: "kind \<Rightarrow> filter \<Rightarrow> filter" where
  "filter_kind k f = filter_kinds [k] f"

definition filter_remove_kinds :: "kind list \<Rightarrow> filter \<Rightarrow> filter" where
  "filter_remove_kinds ks f = f\<lparr>fl_kinds := remove_or_none as_u16 (fl_kinds f) ks\<rparr>"

definition filter_custom_tags :: "single_letter_tag \<Rightarrow> string list \<Rightarrow> filter \<Rightarrow> filter" where
  "filter_custom_tags tag values f =
     (let values = bts_extend id [] values;
          old = (case btm_get tag (fl_generic_tags f) of None \<Rightarrow> [] | Some s \<Rightarrow> s)
      in f\<lparr>fl_generic_tags := btm_put tag (bts_extend id old values) (fl_generic_tags f)\<rparr>)"

definition filter_custom_tag :: "single_letter_tag \<Rightarrow> string \<Rightarrow> filter \<Rightarrow> filter" where
  "filter_custom_tag tag value f = filter_custom_tags tag [value] f"

definition filter_remove_custom_tags ::
  "single_letter_tag \<Rightarrow> string list \<Rightarrow> filter \<Rightarrow> filter" where
  "filter_remove_custom_tags tag values f =
     (let tags = (case btm_get tag (fl_generic_tags f) of
            None \<Rightarrow> fl_generic_tags f
          | Some s \<Rightarrow> btm_put tag (foldl (\<lambda>t v. bts_remove id v t) s values) (fl_generic_tags f));
          tags' = (case btm_get tag tags of
            None \<Rightarrow> tags
          | Some s \<Rightarrow> if s = [] then btm_remove tag tags else tags)
      in f\<lparr>fl_generic_tags := tags'\<rparr>)"

definition filter_events :: "externals \<Rightarrow> event_id list \<Rightarrow> filter \<Rightarrow> filter" where
  "filter_events x is f = filter_custom_tags slt_e (map (event_id_to_hex x) is) f"

definition filter_remove_events :: "externals \<Rightarrow> event_id list \<Rightarrow> filter \<Rightarrow> filter" where
  "filter_remove_events x is f = filter_remove_custom_tags slt_e (map (event_id_to_hex x) is) f"

definition filter_pubkeys :: "externals \<Rightarrow> public_key list \<Rightarrow> filter \<Rightarrow> filter" where
  "filter_pubkeys x ks f = filter_custom_tags slt_p (map (public_key_to_hex x) ks) f"

definition filter_pubkey :: "externals \<Rightarrow> public_key \<Rightarrow> filter \<Rightarrow> filter" where
  "filter_pubkey x k f = filter_custom_tag slt_p (public_key_to_hex x k) f"

definition filter_remove_pubkeys :: "externals \<Rightarrow> public_key list \<Rightarrow> filter \<Rightarrow> filter" where
  "filter_remove_pubkeys x ks f =
     filter_remove_custom_tags slt_p (map (public_key_to_hex x) ks) f"

definition filter_hashtags :: "string list \<Rightarrow> filter \<Rightarrow> filter" where
  "filter_hashtags hs f = filter_custom_tags slt_t hs f"

definition filter_remove_hashtags :: "string list \<Rightarrow> filter \<Rightarrow> filter" where
  "filter_remove_hashtags hs f = filter_remove_custom_tags slt_t hs f"

definition filter_references :: "string list \<Rightarrow> filter \<Rightarrow> filter" where
  "filter_references rs f = filter_custom_tags slt_r rs f"

definition filter_remove_references :: "string list \<Rightarrow> filter \<Rightarrow> filter" where
  "filter_remove_references rs f = filter_remove_custom_tags slt_r rs f"

definition filter_identifiers :: "string list \<Rightarrow> filter \<Rightarrow> filter" where
  "filter_identifiers is f = filter_custom_tags slt_d is f"

definition filter_identifier :: "string \<Rightarrow> filter \<Rightarrow> filter" where
  "filter_identifier i f = filter_custom_tag slt_d i f"

definition filter_remove_identifiers :: "string list \<Rightarrow> filter \<Rightarrow> filter" where
  "filter_remove_identifiers is f = filter_remove_custom_tags slt_d is f"

definition filter_coordinates :: "externals \<Rightarrow> coordinate list \<Rightarrow> filter \<Rightarrow> filter" where
  "filter_coordinates x cs f = filter_custom_tags slt_a (map (coordinate_to_string x) cs) f"

definition filter_remove_coordinates :: "externals \<Rightarrow> coordinate list \<Rightarrow> filter \<Rightarrow> filter" where
  "filter_remove_coordinates x cs f =
     filter_remove_custom_tags slt_a (map (coordinate_to_string x) cs) f"

definition filter_search :: "string \<Rightarrow> filter \<Rightarrow> filter" where
  "filter_search q f = f\<lparr>fl_search := Some q\<rparr>"

definition filter_since :: "timestamp \<Rightarrow> filter \<Rightarrow> filter" where
  "filter_since t f = f\<lparr>fl_since := Some t\<rparr>"

definition filter_until :: "timestamp \<Rightarrow> filter \<Rightarrow> filter" where
  "filter_until t f = f\<lparr>fl_until := Some t\<rparr>"

definition filter_limit :: "nat \<Rightarrow> filter \<Rightarrow> filter" where
  "filter_limit n f = f\<lparr>fl_limit := Some n\<rparr>"

definition filter_remove_search :: "filter \<Rightarrow> filter" where
  "filter_remove_search f = f\<lparr>fl_search := None\<rparr>"

definition filter_remove_since :: "filter \<Rightarrow> filter" where
  "filter_remove_since f = f\<lparr>fl_since := None\<rparr>"

definition filter_remove_until :: "filter \<Rightarrow> filter" where
  "filter_remove_until f = f\<lparr>fl_until := None\<rparr>"

definition filter_remove_limit :: "filter \<Rightarrow> filter" where
  "filter_remove_limit f = f\<lparr>fl_limit := None\<rparr>"

definition filter_tag :: "tag \<Rightarrow> filter \<Rightarrow> filter" where
  "filter_tag t f =
     (case tag_single_letter t of
        None \<Rightarrow> f
      | Some s \<Rightarrow> (case tag_content t of Some v \<Rightarrow> filter_custom_tag s v f | None \<Rightarrow> f))"

text \<open>\<open>is_empty\<close> compares with the default filter; \<open>Some {}\<close> is not \<open>None\<close>.\<close>

definition filter_is_empty :: "filter \<Rightarrow> bool" where
  "filter_is_empty f \<longleftrightarrow> f = filter_new"

definition extract_public_keys :: "externals \<Rightarrow> filter \<Rightarrow> public_key list" where
  "extract_public_keys x f =
     (let authors = (case fl_authors f of None \<Rightarrow> [] | Some as \<Rightarrow> bts_extend id [] as)
      in case btm_get slt_p (fl_generic_tags f) of
           None \<Rightarrow> authors
         | Some ps \<Rightarrow>
             bts_extend id authors (List.map_filter (\<lambda>p. ok_of (public_key_from_hex x p)) ps))"

text \<open>\<open>From<Coordinate> for Filter\<close> (nostr/src/nips/nip01/mod.rs).\<close>

definition filter_of_coordinate :: "coordinate \<Rightarrow> filter" where
  "filter_of_coordinate c =
     (if co_identifier c = [] then filter_author (co_public_key c) (filter_kind (co_kind c) filter_new)
      else filter_identifier (co_identifier c)
             (filter_author (co_public_key c) (filter_kind (co_kind c) filter_new)))"

section \<open>Matching\<close>

record match_options =
  mo_id :: bool
  mo_author :: bool
  mo_kind :: bool
  mo_tags :: bool
  mo_since :: bool
  mo_until :: bool
  mo_nip50 :: bool

definition match_all :: match_options where
  "match_all =
     \<lparr>mo_id = True, mo_author = True, mo_kind = True, mo_tags = True, mo_since = True,
      mo_until = True, mo_nip50 = True\<rparr>"

definition match_unmatch :: match_options where
  "match_unmatch =
     \<lparr>mo_id = False, mo_author = False, mo_kind = False, mo_tags = False, mo_since = False,
      mo_until = False, mo_nip50 = False\<rparr>"

definition ids_match :: "filter \<Rightarrow> event \<Rightarrow> bool" where
  "ids_match f e =
     (case fl_ids f of None \<Rightarrow> True | Some is \<Rightarrow> is = [] \<or> bts_contains id (ev_id e) is)"

definition authors_match :: "filter \<Rightarrow> event \<Rightarrow> bool" where
  "authors_match f e =
     (case fl_authors f of None \<Rightarrow> True | Some ks \<Rightarrow> ks = [] \<or> bts_contains id (ev_pubkey e) ks)"

definition kind_match :: "filter \<Rightarrow> event \<Rightarrow> bool" where
  "kind_match f e =
     (case fl_kinds f of None \<Rightarrow> True | Some ks \<Rightarrow> ks = [] \<or> bts_contains as_u16 (ev_kind e) ks)"

text \<open>The index of the single letter tags of an event that \<open>tag_match\<close> builds.\<close>

definition tag_index :: "tag list \<Rightarrow> generic_tags" where
  "tag_index ts =
     foldl (\<lambda>m t.
         case tag_single_letter t of
           None \<Rightarrow> m
         | Some s \<Rightarrow> (case tag_content t of
               None \<Rightarrow> m
             | Some c \<Rightarrow>
                 btm_put s (bts_insert id c (case btm_get s m of None \<Rightarrow> [] | Some v \<Rightarrow> v)) m))
       [] ts"

definition tag_match :: "filter \<Rightarrow> event \<Rightarrow> bool" where
  "tag_match f e =
     (if fl_generic_tags f = [] then True
      else if ev_tags e = [] then False
      else list_all (\<lambda>(name, vs).
             case btm_get name (tag_index (ev_tags e)) of
               Some val_set \<Rightarrow> list_ex (\<lambda>v. bts_contains id v val_set) vs
             | None \<Rightarrow> False) (fl_generic_tags f))"

text \<open>The windows of length \<open>n\<close> of a slice, for \<open>n > 0\<close>.\<close>

fun windows :: "nat \<Rightarrow> 'a list \<Rightarrow> 'a list list" where
  "windows n [] = []"
| "windows n (c # cs) = (if length (c # cs) < n then [] else take n (c # cs) # windows n cs)"

definition search_match :: "filter \<Rightarrow> event \<Rightarrow> bool" where
  "search_match f e =
     (case fl_search f of
        Some query \<Rightarrow>
          if query = [] then True
          else list_ex (\<lambda>w. eq_ignore_ascii_case w query) (windows (length query) (ev_content e))
      | None \<Rightarrow> True)"

definition match_event :: "filter \<Rightarrow> event \<Rightarrow> match_options \<Rightarrow> bool" where
  "match_event f e opts \<longleftrightarrow>
     (\<not> mo_id opts \<or> ids_match f e) \<and>
     (\<not> mo_author opts \<or> authors_match f e) \<and>
     (\<not> mo_kind opts \<or> kind_match f e) \<and>
     (\<not> mo_since opts \<or> (case fl_since f of None \<Rightarrow> True | Some t \<Rightarrow> t \<le> ev_created_at e)) \<and>
     (\<not> mo_until opts \<or> (case fl_until f of None \<Rightarrow> True | Some t \<Rightarrow> ev_created_at e \<le> t)) \<and>
     (\<not> mo_tags opts \<or> tag_match f e) \<and>
     (\<not> mo_nip50 opts \<or> search_match f e)"

section \<open>Generic tags in JSON\<close>

text \<open>
  A map key is a sequence of characters (Unicode scalar values): \<open>#\<close> and one more character name a
  generic tag, any other key is ignored together with its value.
\<close>

definition tag_key :: "nat list \<Rightarrow> single_letter_tag option res" where
  "tag_key k =
     (case k of
        [h, ch] \<Rightarrow> if h = 35 then rbind (slt_from_char ch) (\<lambda>t. Inr (Some t)) else Inr None
      | _ \<Rightarrow> Inr None)"

definition serialize_generic_tags :: "generic_tags \<Rightarrow> (nat list \<times> string list) list" where
  "serialize_generic_tags m = map (\<lambda>(t, vs). ([35, unat (slt_byte t)], vs)) m"

fun deserialize_generic_tags ::
  "generic_tags \<Rightarrow> (nat list \<times> string list) list \<Rightarrow> generic_tags res" where
  "deserialize_generic_tags m [] = Inr m"
| "deserialize_generic_tags m ((k, vs) # rest) =
     rbind (tag_key k) (\<lambda>t.
       case t of
         Some t \<Rightarrow> deserialize_generic_tags (btm_put t (bts_extend id [] vs) m) rest
       | None \<Rightarrow> deserialize_generic_tags m rest)"

section \<open>Lemmas\<close>

lemma bts_insert_id_set [simp]: "set (bts_insert id x xs) = insert x (set xs)"
  by (induction xs) auto

lemma bts_extend_id_set [simp]: "set (bts_extend id s xs) = set s \<union> set xs"
  unfolding bts_extend_def by (induction xs arbitrary: s) auto

lemma bts_contains_id [simp]: "bts_contains id x xs \<longleftrightarrow> x \<in> set xs"
  by (auto simp: bts_contains_def)

lemma bts_remove_all: "foldl (\<lambda>t v. bts_remove id v t) s vs = [v \<leftarrow> s. v \<notin> set vs]"
  by (induction vs arbitrary: s) (auto simp: bts_remove_def intro: filter_cong)

text \<open>A filter that the builders make: every set and the map are sorted.\<close>

definition filter_ok :: "filter \<Rightarrow> bool" where
  "filter_ok f \<longleftrightarrow>
     (case fl_ids f of None \<Rightarrow> True | Some s \<Rightarrow> bts_ok id s) \<and>
     (case fl_authors f of None \<Rightarrow> True | Some s \<Rightarrow> bts_ok id s) \<and>
     (case fl_kinds f of None \<Rightarrow> True | Some s \<Rightarrow> bts_ok as_u16 s) \<and>
     btm_ok (fl_generic_tags f) \<and> (\<forall>s \<in> snd ` set (fl_generic_tags f). bts_ok id s)"

lemma extend_or_collect_ok:
  "(case s of None \<Rightarrow> True | Some s \<Rightarrow> bts_ok key s) \<Longrightarrow>
   (case extend_or_collect key s it of None \<Rightarrow> True | Some s \<Rightarrow> bts_ok key s)"
  by (cases s) (simp_all add: extend_or_collect_def bts_extend_ok)

lemma bts_remove_fold_ok: "bts_ok key s \<Longrightarrow> bts_ok key (foldl (\<lambda>t x. bts_remove key x t) s it)"
  by (induction it arbitrary: s) (simp_all add: bts_remove_ok)

lemma remove_or_none_ok:
  "(case s of None \<Rightarrow> True | Some s \<Rightarrow> bts_ok key s) \<Longrightarrow>
   (case remove_or_none key s it of None \<Rightarrow> True | Some s \<Rightarrow> bts_ok key s)"
  by (cases s) (simp_all add: remove_or_none_def bts_remove_fold_ok Let_def)

lemma btm_put_values: "snd ` set (btm_put k v m) \<subseteq> insert v (snd ` set m)"
  by (induction k v m rule: btm_put.induct) auto

lemma btm_remove_values: "snd ` set (btm_remove k m) \<subseteq> snd ` set m"
  by (auto simp: btm_remove_def)

lemma btm_get_values: "btm_get k m = Some v \<Longrightarrow> v \<in> snd ` set m"
  by (auto simp: btm_get_def dest: map_of_SomeD intro: rev_image_eqI)

definition generic_tags_ok :: "generic_tags \<Rightarrow> bool" where
  "generic_tags_ok m \<longleftrightarrow> btm_ok m \<and> (\<forall>s \<in> snd ` set m. bts_ok id s)"

lemma generic_tags_put_ok:
  "generic_tags_ok m \<Longrightarrow> bts_ok id v \<Longrightarrow> generic_tags_ok (btm_put k v m)"
  using btm_put_values [of k v m] unfolding generic_tags_ok_def by (blast intro: btm_put_ok)

lemma generic_tags_remove_ok: "generic_tags_ok m \<Longrightarrow> generic_tags_ok (btm_remove k m)"
  using btm_remove_values [of k m] unfolding generic_tags_ok_def by (blast intro: btm_remove_ok)

lemma generic_tags_get_ok: "generic_tags_ok m \<Longrightarrow> btm_get k m = Some v \<Longrightarrow> bts_ok id v"
  by (auto simp: generic_tags_ok_def dest: btm_get_values)

lemma filter_ok_tags: "filter_ok f \<Longrightarrow> generic_tags_ok (fl_generic_tags f)"
  by (simp add: filter_ok_def generic_tags_ok_def)

lemma filter_ok_update_tags:
  "filter_ok f \<Longrightarrow> generic_tags_ok m \<Longrightarrow> filter_ok (f\<lparr>fl_generic_tags := m\<rparr>)"
  by (simp add: filter_ok_def generic_tags_ok_def)

lemma filter_custom_tags_ok: "filter_ok f \<Longrightarrow> filter_ok (filter_custom_tags t vs f)"
  unfolding filter_custom_tags_def Let_def
  by (intro filter_ok_update_tags generic_tags_put_ok filter_ok_tags bts_extend_ok)
    (auto split: option.splits dest: filter_ok_tags generic_tags_get_ok)

lemma filter_remove_custom_tags_ok: "filter_ok f \<Longrightarrow> filter_ok (filter_remove_custom_tags t vs f)"
proof -
  assume f: "filter_ok f"
  then have m: "generic_tags_ok (fl_generic_tags f)" by (rule filter_ok_tags)
  have "generic_tags_ok (case btm_get t (fl_generic_tags f) of
            None \<Rightarrow> fl_generic_tags f
          | Some s \<Rightarrow> btm_put t (foldl (\<lambda>t v. bts_remove id v t) s vs) (fl_generic_tags f))"
    using m by (auto split: option.splits intro!: generic_tags_put_ok bts_remove_fold_ok
        dest: generic_tags_get_ok)
  then show ?thesis
    unfolding filter_remove_custom_tags_def Let_def
    by (intro filter_ok_update_tags f) (auto split: option.splits intro!: generic_tags_remove_ok)
qed

lemma filter_new_ok [simp]: "filter_ok filter_new"
  by (simp add: filter_ok_def filter_new_def)

lemma filter_remove_custom_tags_get:
  "btm_get k (fl_generic_tags (filter_remove_custom_tags t vs f)) =
     (if k \<noteq> t then btm_get k (fl_generic_tags f)
      else (case btm_get t (fl_generic_tags f) of
              None \<Rightarrow> None
            | Some s \<Rightarrow> if set s \<subseteq> set vs then None else Some [v \<leftarrow> s. v \<notin> set vs]))"
  by (auto simp: filter_remove_custom_tags_def Let_def bts_remove_all filter_empty_conv
      split: option.splits)

lemma filter_custom_tags_get:
  "btm_get k (fl_generic_tags (filter_custom_tags t vs f)) =
     (if k \<noteq> t then btm_get k (fl_generic_tags f)
      else Some (bts_extend id (case btm_get t (fl_generic_tags f) of None \<Rightarrow> [] | Some s \<Rightarrow> s)
                   (bts_extend id [] vs)))"
  by (simp add: filter_custom_tags_def Let_def)

lemma windows_iff:
  "0 < n \<Longrightarrow> w \<in> set (windows n s) \<longleftrightarrow> length w = n \<and> (\<exists>a b. s = a @ w @ b)"
proof (induction n s rule: windows.induct)
  case (1 n)
  then show ?case by auto
next
  case (2 n c cs)
  show ?case
  proof (cases "length (c # cs) < n")
    case True
    then show ?thesis by (auto dest: arg_cong [where f = length])
  next
    case False
    have set: "set (windows n (c # cs)) = insert (take n (c # cs)) (set (windows n cs))"
      using False by simp
    have "(\<exists>a b. c # cs = a @ w @ b) \<longleftrightarrow> (\<exists>b. c # cs = w @ b) \<or> (\<exists>a b. cs = a @ w @ b)"
      by (metis append_Cons append_Nil list.inject neq_Nil_conv)
    moreover have "length w = n \<and> (\<exists>b. c # cs = w @ b) \<longleftrightarrow> w = take n (c # cs)"
      using False by (metis append_eq_conv_conj append_take_drop_id length_take min_absorb2 not_le
          less_imp_le nat_le_linear)
    moreover have "w \<in> set (windows n cs) \<longleftrightarrow> length w = n \<and> (\<exists>a b. cs = a @ w @ b)"
      using 2 False by simp
    ultimately show ?thesis unfolding set by blast
  qed
qed

lemma tag_index_get:
  fixes s :: single_letter_tag
  shows "(case btm_get s (tag_index ts) of None \<Rightarrow> False | Some vs \<Rightarrow> v \<in> set vs) \<longleftrightarrow>
     (\<exists>t \<in> set ts. tag_single_letter t = Some s \<and> tag_content t = Some v)"
proof (induction ts rule: rev_induct)
  case Nil
  then show ?case by (simp add: tag_index_def)
next
  case (snoc t ts)
  then show ?case
    by (cases "tag_single_letter t"; cases "tag_content t"; cases "btm_get s (tag_index ts)")
      (auto simp: tag_index_def split: if_splits)
qed

lemma tag_match_iff:
  "tag_match f e \<longleftrightarrow>
     (\<forall>(name, vs) \<in> set (fl_generic_tags f). \<exists>t \<in> set (ev_tags e).
        \<exists>v \<in> set vs. tag_single_letter t = Some name \<and> tag_content t = Some v)"
proof -
  have "(case btm_get name (tag_index (ev_tags e)) of
           Some val_set \<Rightarrow> list_ex (\<lambda>v. bts_contains id v val_set) vs | None \<Rightarrow> False) \<longleftrightarrow>
        (\<exists>t \<in> set (ev_tags e). \<exists>v \<in> set vs. tag_single_letter t = Some name \<and> tag_content t = Some v)"
    for name :: single_letter_tag and vs
    using tag_index_get [where s = name and ts = "ev_tags e"]
    by (cases "btm_get name (tag_index (ev_tags e))") (auto simp: list_ex_iff)
  then show ?thesis
    by (cases "fl_generic_tags f") (auto simp: tag_match_def list_all_iff)
qed

lemma search_match_iff:
  "search_match f e \<longleftrightarrow>
     (case fl_search f of None \<Rightarrow> True
      | Some q \<Rightarrow> \<exists>a w b. ev_content e = a @ w @ b \<and> eq_ignore_ascii_case w q)"
proof (cases "fl_search f")
  case (Some q)
  have len: "length w = length q" if "eq_ignore_ascii_case w q" for w
    using that by (auto simp: eq_ignore_ascii_case_def dest: map_eq_imp_length_eq)
  show ?thesis
  proof (cases "q = []")
    case True
    have "\<exists>a w b. ev_content e = a @ w @ b \<and> eq_ignore_ascii_case w []"
      by (rule exI [of _ "[]"], rule exI [of _ "[]"], rule exI [of _ "ev_content e"])
        (simp add: eq_ignore_ascii_case_def)
    then show ?thesis using Some True by (simp add: search_match_def)
  next
    case False
    have "list_ex (\<lambda>w. eq_ignore_ascii_case w q) (windows (length q) (ev_content e)) \<longleftrightarrow>
        (\<exists>w. (length w = length q \<and> (\<exists>a b. ev_content e = a @ w @ b)) \<and> eq_ignore_ascii_case w q)"
      using False by (simp add: list_ex_iff windows_iff Bex_def)
    also have "\<dots> \<longleftrightarrow> (\<exists>a w b. ev_content e = a @ w @ b \<and> eq_ignore_ascii_case w q)"
      using len by blast
    finally show ?thesis using Some False by (simp add: search_match_def)
  qed
qed (simp add: search_match_def)

text \<open>The builders, as one relation: the filters that a sequence of builder calls can make.\<close>

inductive filter_built :: "filter \<Rightarrow> bool" where
  new: "filter_built filter_new"
| ids: "filter_built f \<Longrightarrow> filter_built (filter_ids is f)"
| remove_ids: "filter_built f \<Longrightarrow> filter_built (filter_remove_ids is f)"
| authors: "filter_built f \<Longrightarrow> filter_built (filter_authors ks f)"
| remove_authors: "filter_built f \<Longrightarrow> filter_built (filter_remove_authors ks f)"
| kinds: "filter_built f \<Longrightarrow> filter_built (filter_kinds ns f)"
| remove_kinds: "filter_built f \<Longrightarrow> filter_built (filter_remove_kinds ns f)"
| custom_tags: "filter_built f \<Longrightarrow> filter_built (filter_custom_tags t vs f)"
| remove_custom_tags: "filter_built f \<Longrightarrow> filter_built (filter_remove_custom_tags t vs f)"
| tag: "filter_built f \<Longrightarrow> filter_built (filter_tag tg f)"
| search: "filter_built f \<Longrightarrow> filter_built (filter_search q f)"
| since: "filter_built f \<Longrightarrow> filter_built (filter_since n f)"
| until: "filter_built f \<Longrightarrow> filter_built (filter_until n f)"
| limit: "filter_built f \<Longrightarrow> filter_built (filter_limit n f)"
| remove_search: "filter_built f \<Longrightarrow> filter_built (filter_remove_search f)"
| remove_since: "filter_built f \<Longrightarrow> filter_built (filter_remove_since f)"
| remove_until: "filter_built f \<Longrightarrow> filter_built (filter_remove_until f)"
| remove_limit: "filter_built f \<Longrightarrow> filter_built (filter_remove_limit f)"

lemma filter_tag_ok: "filter_ok f \<Longrightarrow> filter_ok (filter_tag t f)"
  by (auto simp: filter_tag_def filter_custom_tag_def filter_custom_tags_ok split: option.splits)

lemma filter_sets_ok:
  assumes "filter_ok f"
  shows "filter_ok (filter_ids is f)" "filter_ok (filter_remove_ids is f)"
    "filter_ok (filter_authors ks f)" "filter_ok (filter_remove_authors ks f)"
    "filter_ok (filter_kinds ns f)" "filter_ok (filter_remove_kinds ns f)"
  using assms extend_or_collect_ok [where s = "fl_ids f" and key = id] remove_or_none_ok [where s = "fl_ids f" and key = id]
    extend_or_collect_ok [where s = "fl_authors f" and key = id] remove_or_none_ok [where s = "fl_authors f" and key = id]
    extend_or_collect_ok [where s = "fl_kinds f" and key = as_u16] remove_or_none_ok [where s = "fl_kinds f" and key = as_u16]
  by (simp_all add: filter_ok_def filter_ids_def filter_remove_ids_def filter_authors_def
      filter_remove_authors_def filter_kinds_def filter_remove_kinds_def)

lemma filter_scalars_ok:
  assumes "filter_ok f"
  shows "filter_ok (filter_search q f)" "filter_ok (filter_since n f)"
    "filter_ok (filter_until n f)" "filter_ok (filter_limit n f)"
    "filter_ok (filter_remove_search f)" "filter_ok (filter_remove_since f)"
    "filter_ok (filter_remove_until f)" "filter_ok (filter_remove_limit f)"
  using assms
  by (simp_all add: filter_ok_def filter_search_def filter_since_def filter_until_def
      filter_limit_def filter_remove_search_def filter_remove_since_def filter_remove_until_def
      filter_remove_limit_def)

lemmas filter_builders_ok = filter_new_ok filter_sets_ok filter_scalars_ok filter_tag_ok
  filter_custom_tags_ok filter_remove_custom_tags_ok

text \<open>What matching means, condition by condition.\<close>

definition set_condition :: "'a set option \<Rightarrow> 'a \<Rightarrow> bool" where
  "set_condition s v = (case s of None \<Rightarrow> True | Some s \<Rightarrow> s = {} \<or> v \<in> s)"

definition filter_spec :: "filter \<Rightarrow> event \<Rightarrow> bool" where
  "filter_spec f e \<longleftrightarrow>
     set_condition (map_option set (fl_ids f)) (ev_id e) \<and>
     set_condition (map_option set (fl_authors f)) (ev_pubkey e) \<and>
     set_condition (map_option (\<lambda>ks. as_u16 ` set ks) (fl_kinds f)) (as_u16 (ev_kind e)) \<and>
     (case fl_since f of None \<Rightarrow> True | Some t \<Rightarrow> t \<le> ev_created_at e) \<and>
     (case fl_until f of None \<Rightarrow> True | Some t \<Rightarrow> ev_created_at e \<le> t) \<and>
     (\<forall>(name, vs) \<in> set (fl_generic_tags f). \<exists>t \<in> set (ev_tags e).
        \<exists>v \<in> set vs. tag_single_letter t = Some name \<and> tag_content t = Some v) \<and>
     (case fl_search f of None \<Rightarrow> True
      | Some q \<Rightarrow> \<exists>a w b. ev_content e = a @ w @ b \<and> eq_ignore_ascii_case w q)"

lemma match_spec: "match_event f e match_all \<longleftrightarrow> filter_spec f e"
proof -
  have "ids_match f e \<longleftrightarrow> set_condition (map_option set (fl_ids f)) (ev_id e)"
    by (simp add: ids_match_def set_condition_def split: option.split)
  moreover have "authors_match f e \<longleftrightarrow> set_condition (map_option set (fl_authors f)) (ev_pubkey e)"
    by (simp add: authors_match_def set_condition_def split: option.split)
  moreover have "kind_match f e \<longleftrightarrow>
      set_condition (map_option (\<lambda>ks. as_u16 ` set ks) (fl_kinds f)) (as_u16 (ev_kind e))"
    by (force simp: kind_match_def set_condition_def bts_contains_def image_iff
        split: option.split)
  ultimately show ?thesis
    by (simp only: match_event_def filter_spec_def match_all_def match_options.simps simp_thms
        tag_match_iff search_match_iff)
qed

lemma filter_bts_insert_out: "\<not> P x \<Longrightarrow> [v \<leftarrow> bts_insert key x xs. P v] = [v \<leftarrow> xs. P v]"
  by (induction xs) auto

lemma filter_bts_extend_out:
  "\<forall>x \<in> set it. \<not> P x \<Longrightarrow> [v \<leftarrow> bts_extend key s it. P v] = [v \<leftarrow> s. P v]"
  unfolding bts_extend_def
  by (induction it arbitrary: s) (simp_all add: filter_bts_insert_out)

lemma bts_remove_all_key:
  "foldl (\<lambda>t v. bts_remove key v t) s it = [v \<leftarrow> s. key v \<notin> key ` set it]"
  by (induction it arbitrary: s) (auto simp: bts_remove_def intro: filter_cong)

lemma remove_extend_or_collect:
  assumes "s \<noteq> Some []" and "\<forall>v \<in> set (case s of None \<Rightarrow> [] | Some s \<Rightarrow> s). key v \<notin> key ` set it"
  shows "remove_or_none key (extend_or_collect key s it) it = s"
proof (cases s)
  case None
  then show ?thesis
    by (simp add: extend_or_collect_def remove_or_none_def bts_remove_all_key
        filter_bts_extend_out)
next
  case (Some t)
  then have "[v \<leftarrow> t. key v \<notin> key ` set it] = t" using assms(2) by (simp add: filter_id_conv)
  then show ?thesis
    using Some assms(1)
    by (simp add: extend_or_collect_def remove_or_none_def bts_remove_all_key
        filter_bts_extend_out)
qed

lemma deserialize_get:
  "btm_ok m \<Longrightarrow> \<forall>(t, vs) \<in> set m. slt_ok t \<and> bts_ok id vs \<Longrightarrow> btm_ok m0 \<Longrightarrow>
   \<exists>r. deserialize_generic_tags m0 (serialize_generic_tags m) = Inr r \<and> btm_ok r \<and>
     (\<forall>k. btm_get k r = (case btm_get k m of None \<Rightarrow> btm_get k m0 | Some v \<Rightarrow> Some v))"
proof (induction m arbitrary: m0)
  case Nil
  then show ?case by (simp add: serialize_generic_tags_def)
next
  case (Cons p m)
  obtain t vs where p: "p = (t, vs)" by (cases p)
  have "case p of (t, vs) \<Rightarrow> slt_ok t \<and> bts_ok id vs"
    using Cons.prems(2) by (rule bspec) (simp only: list.set insertI1)
  then have t: "slt_ok t" and vs: "bts_ok id vs" unfolding p by blast+
  have key: "tag_key [35, unat (slt_byte t)] = Inr (Some t)"
    using t by (cases t) (simp add: tag_key_def slt_from_char_def slt_from_byte_def slt_ok_def)
  have "btm_ok (btm_put t vs m0)" using Cons.prems(3) by (rule btm_put_ok)
  moreover have "btm_ok m" using Cons.prems(1) p by simp
  moreover have "\<forall>(t, vs) \<in> set m. slt_ok t \<and> bts_ok id vs"
    using Cons.prems(2) unfolding list.set by blast
  ultimately obtain r where r: "deserialize_generic_tags (btm_put t vs m0) (serialize_generic_tags m) = Inr r"
    "btm_ok r"
    "\<forall>k. btm_get k r = (case btm_get k m of None \<Rightarrow> btm_get k (btm_put t vs m0) | Some v \<Rightarrow> Some v)"
    using Cons.IH by blast
  have "btm_get t m = None" using Cons.prems(1) p by (force simp: btm_get_keys)
  then have "\<forall>k. btm_get k r = (case btm_get k (p # m) of None \<Rightarrow> btm_get k m0 | Some v \<Rightarrow> Some v)"
    using r(3) by (simp add: p btm_get_Cons split: option.split)
  then show ?case
    using r(1,2) key vs p by (auto simp: serialize_generic_tags_def bts_extend_sorted)
qed

lemma slt_from_d: "slt_from_str ''d'' = Inr slt_d"
  by (simp add: slt_from_str_def slt_from_byte_def bytes_of_def is_ascii_alphabetic_def
      is_ascii_lowercase_def slt_d_def)

lemma single_letter_d: "tag_single_letter t = Some slt_d \<longleftrightarrow> tag_kind t = ''d''"
proof
  assume "tag_single_letter t = Some slt_d"
  then have "slt_from_str (tag_kind t) = Inr slt_d"
    by (simp add: tag_single_letter_def ok_of_Some)
  then have "slt_as_str slt_d = tag_kind t" using slt_from_str_ok by blast
  moreover have "slt_as_str slt_d = ''d''" using slt_from_str_ok [OF slt_from_d] by blast
  ultimately show "tag_kind t = ''d''" by simp
qed (simp add: tag_single_letter_def slt_from_d)

lemma filter_of_coordinate_match:
  "match_event (filter_of_coordinate c) e match_all \<longleftrightarrow>
     kind_eq (ev_kind e) (co_kind c) \<and> ev_pubkey e = co_public_key c \<and>
     (co_identifier c = [] \<or>
      (\<exists>t \<in> set (ev_tags e). tag_kind t = ''d'' \<and> tag_content t = Some (co_identifier c)))"
  by (auto simp: match_spec filter_spec_def filter_of_coordinate_def filter_author_def
      filter_authors_def filter_kind_def filter_kinds_def filter_identifier_def
      filter_custom_tag_def filter_custom_tags_def filter_new_def extend_or_collect_def
      bts_extend_def set_condition_def kind_eq_def single_letter_d)

lemma tags_identifier_d:
  assumes "tags_identifier x ts = Some i"
  shows "\<exists>t \<in> set ts. tag_kind t = ''d'' \<and> tag_content t = Some i"
proof -
  obtain t where t: "find (\<lambda>t. tag_kind t = ''d'') ts = Some t"
    and p: "nip01_parse x t = Inr (N01_Identifier i)"
    using assms
    by (auto simp: tags_identifier_def split: option.splits sum.splits nip01_tag.splits)
  have "t \<in> set ts" and k: "tag_kind t = ''d''" using t by (auto simp: find_Some_iff)
  moreover obtain a r where a: "t = a # r" using p by (cases t) (auto simp: nip01_parse_def)
  moreover have "tag_content t = Some i"
    using p k a by (cases r) (auto simp: nip01_parse_def take_string_def)
  ultimately show ?thesis by blast
qed

text \<open>The reference event of the witnesses: a text note with an \<open>e\<close> and a \<open>t\<close> tag.\<close>

definition ref_note :: event where
  "ref_note =
     \<lparr>ev_id = ref_id 1, ev_pubkey = ref_pk 2, ev_created_at = 100, ev_kind = TextNote,
      ev_tags = [[''e'', ''x''], [''t'', ''nostr'']], ev_content = ''Hello'', ev_sig = []\<rparr>"

section \<open>Properties\<close>

text \<open>
  \<open>match_event\<close> with the default options decides the conjunction of the conditions of the
  filter: an absent or an empty set is no condition, kinds are compared by number, every generic
  tag entry needs a tag of the event with that letter and one of the values, and the search text
  is a substring of the content up to ASCII case. An option that is switched off only drops its
  condition, and with all of them off (\<open>unmatch\<close>) every event matches.
\<close>

lemma match_event_meaning:
  "match_event f e match_all = filter_spec f e \<and>
   match_event f e match_unmatch \<and>
   \<not> (match_event f e match_all \<and> \<not> match_event f e opts)"
  by (simp only: match_spec [symmetric])
    (auto simp: match_event_def match_all_def match_unmatch_def)

text \<open>
  Whatever sequence of builder calls makes a filter, its sets and its tag map are in strictly
  ascending order: no id, author, kind number, tag letter or tag value occurs twice.
\<close>

lemma filter_built_ok:
  assumes "filter_built f"
  shows "filter_ok f"
  using assms by (induction rule: filter_built.induct) (simp_all add: filter_builders_ok)

lemma filter_built_ok_witness:
  "filter_ok (filter_kinds [TextNote, Metadata] (filter_custom_tags slt_t [''b'', ''a''] filter_new))"
  by (rule filter_built_ok) (intro filter_built.intros)

text \<open>
  Removing what was added gives the filter back: for ids, authors, kinds and tag values that
  the filter does not have yet, where the filter has no empty set for them. In particular the
  last removal leaves no condition and not an empty set.
\<close>

lemma filter_remove_added:
  assumes "fl_ids f \<noteq> Some []" and "\<forall>i \<in> set (case fl_ids f of None \<Rightarrow> [] | Some s \<Rightarrow> s). i \<notin> set is"
    and "fl_authors f \<noteq> Some []"
    and "\<forall>k \<in> set (case fl_authors f of None \<Rightarrow> [] | Some s \<Rightarrow> s). k \<notin> set ks"
    and "fl_kinds f \<noteq> Some []"
    and "\<forall>k \<in> set (case fl_kinds f of None \<Rightarrow> [] | Some s \<Rightarrow> s). as_u16 k \<notin> as_u16 ` set ns"
  shows "filter_remove_ids is (filter_ids is f) = f \<and>
    filter_remove_authors ks (filter_authors ks f) = f \<and>
    filter_remove_kinds ns (filter_kinds ns f) = f"
proof -
  have "remove_or_none id (extend_or_collect id (fl_ids f) is) is = fl_ids f"
    using assms(1,2) by (intro remove_extend_or_collect) simp_all
  moreover have "remove_or_none id (extend_or_collect id (fl_authors f) ks) ks = fl_authors f"
    using assms(3,4) by (intro remove_extend_or_collect) simp_all
  moreover have "remove_or_none as_u16 (extend_or_collect as_u16 (fl_kinds f) ns) ns = fl_kinds f"
    using assms(5,6) by (intro remove_extend_or_collect) simp_all
  ultimately show ?thesis
    by (simp add: filter_remove_ids_def filter_ids_def filter_remove_authors_def
        filter_authors_def filter_remove_kinds_def filter_kinds_def)
qed

lemma filter_remove_added_witness:
  "filter_remove_kinds [TextNote] (filter_kinds [TextNote] (filter_kind Metadata filter_new)) =
     filter_kind Metadata filter_new"
proof -
  have f: "fl_kinds (filter_kind Metadata filter_new) = Some [Metadata]"
    "fl_ids (filter_kind Metadata filter_new) = None"
    "fl_authors (filter_kind Metadata filter_new) = None"
    by (simp_all add: filter_kind_def filter_kinds_def filter_new_def extend_or_collect_def
        bts_extend_def)
  show ?thesis
    using filter_remove_added [of "filter_kind Metadata filter_new" "[]" "[]" "[TextNote]"]
    by (simp add: f)
qed

text \<open>
  The generic tags of a filter survive the JSON map: every entry is written under \<open>#\<close> and its
  letter, and reading the map gives the same entries with the same values.
\<close>

lemma generic_tags_roundtrip:
  assumes "generic_tags_ok m" and "\<forall>t \<in> fst ` set m. slt_ok t"
  shows "deserialize_generic_tags [] (serialize_generic_tags m) = Inr m"
proof -
  have m: "btm_ok m" using assms(1) by (simp add: generic_tags_ok_def)
  have "\<forall>(t, vs) \<in> set m. slt_ok t \<and> bts_ok id vs"
    using assms unfolding generic_tags_ok_def by force
  then obtain r where r: "deserialize_generic_tags [] (serialize_generic_tags m) = Inr r"
    "btm_ok r" "\<forall>k. btm_get k r = (case btm_get k m of None \<Rightarrow> btm_get k [] | Some v \<Rightarrow> Some v)"
    using deserialize_get [OF m, of "[]"] by auto
  have "r = m"
    using r(2) m
  proof (rule btm_eqI)
    show "btm_get k r = btm_get k m" for k
      using r(3) by (cases "btm_get k m") simp_all
  qed
  then show ?thesis using r(1) by simp
qed

lemma generic_tags_roundtrip_witness:
  "deserialize_generic_tags [] (serialize_generic_tags [(slt_e, [''a'', ''b''])]) =
     Inr [(slt_e, [''a'', ''b''])]"
  by (rule generic_tags_roundtrip)
    (simp_all add: generic_tags_ok_def slt_ok_def slt_e_def is_ascii_alphabetic_def
      is_ascii_lowercase_def)

text \<open>
  An event matches the filter made of any of its tags, and it matches the filter of its own
  coordinate; the filter of a coordinate matches exactly the events of that kind number and author
  that have, where the coordinate has an identifier, a \<open>d\<close> tag with it.
\<close>

lemma filters_of_event_match:
  assumes "t \<in> set (ev_tags e)" and "event_coordinate x e = Some c"
  shows "match_event (filter_tag t filter_new) e match_all \<and>
    match_event (filter_of_coordinate c) e match_all"
proof
  show "match_event (filter_tag t filter_new) e match_all"
    using assms(1)
    by (auto simp: match_spec filter_spec_def filter_tag_def filter_custom_tag_def
        filter_custom_tags_def filter_new_def bts_extend_def set_condition_def
        split: option.split)
  show "match_event (filter_of_coordinate c) e match_all"
    using assms(2)
    by (auto simp: filter_of_coordinate_match event_coordinate_def split: if_splits option.splits
        dest: tags_identifier_d)
qed

definition ref_article :: event where
  "ref_article =
     \<lparr>ev_id = ref_id 3, ev_pubkey = ref_pk 2, ev_created_at = 100, ev_kind = Named 30023,
      ev_tags = [[''d'', ''post''], [''t'', ''nostr'']], ev_content = [], ev_sig = []\<rparr>"

lemma filters_of_event_match_witness:
  "match_event (filter_tag [''t'', ''nostr''] filter_new) ref_article match_all \<and>
   match_event (filter_of_coordinate (ref_coordinate ''post'' \<lparr>co_public_key := ref_pk 2\<rparr>))
     ref_article match_all"
  by (rule filters_of_event_match [of _ _ ref_externals])
    (simp_all add: ref_article_def event_coordinate_def is_addressable_def addressable_range_def
      in_range_def tags_identifier_def nip01_parse_def take_string_def ref_coordinate_def)

end
