(* ===== verification/Memory_Store.thy ===== *)
theory Memory_Store
  imports Nostr_Filter
begin

text \<open>
  The in-memory event store (database/nostr-memory/src/store.rs) and the status types of
  database/nostr-database/src/lib.rs: the store record with its indexes, indexing an event (with
  replacement, NIP-09 deletion and NIP-62 vanish requests), the queries, deletion and clearing.

  Hash maps are partial functions, hash sets are sets, \<open>BTreeSet\<close>s of events are lists sorted by
  \<open>event_key\<close>. Keys that contain a kind use its number, as \<open>Hash\<close> and \<open>Eq\<close> of \<open>Kind\<close> do. The
  sorted set of all events is a \<open>BTreeCapSet\<close> of the crate \<open>btreecap\<close>: the record \<open>cap_ops\<close>
  holds its \<open>insert\<close> (with the capacity, the set as its sequence of elements, and the result
  \<open>inserted\<close>, \<open>pop\<close>, new sequence) and its \<open>remove\<close>. \<open>cap_ok\<close> states what they promise.
\<close>

section \<open>Statuses\<close>

datatype database_event_status = Saved | Deleted | NotExistent

datatype rejected_reason =
  REphemeral | RDuplicate | RDeleted | RExpired | RReplaced | RInvalidDelete | RVanished | ROther

datatype save_event_status = Success | Rejected rejected_reason

definition is_success :: "save_event_status \<Rightarrow> bool" where
  "is_success s \<longleftrightarrow> s = Success"

section \<open>The capped set\<close>

record cap_ops =
  cap_insert :: "nat option \<Rightarrow> event \<Rightarrow> event list \<Rightarrow> bool \<times> event option \<times> event list"
  cap_remove :: "event \<Rightarrow> event list \<Rightarrow> event list"

text \<open>
  An element that is there is not inserted again. A new element is inserted and, when the set is
  over its capacity then, the last element is popped; or the new element, being last, is not
  inserted, and is possibly returned as popped. An unbounded set takes every new element.
\<close>

definition cap_insert_ok ::
  "nat option \<Rightarrow> event \<Rightarrow> event list \<Rightarrow> bool \<times> event option \<times> event list \<Rightarrow> bool" where
  "cap_insert_ok cap e xs r \<longleftrightarrow>
     (if bts_contains event_key e xs then r = (False, None, xs)
      else
        (r = (True, None, bts_insert event_key e xs) \<or>
         (\<exists>m. cap = Some m \<and> m \<le> length xs) \<and> (\<exists>p. p = last (bts_insert event_key e xs) \<and>
           (r = (True, Some p, bts_remove event_key p (bts_insert event_key e xs)) \<or>
            p = e \<and> (r = (False, None, xs) \<or> r = (False, Some e, xs))))) \<and>
        (case cap of
           None \<Rightarrow> True
         | Some m \<Rightarrow> length xs \<le> m \<longrightarrow> length (snd (snd r)) \<le> m))"

definition cap_ok :: "cap_ops \<Rightarrow> bool" where
  "cap_ok c \<longleftrightarrow>
     (\<forall>cap e xs. cap \<noteq> Some 0 \<longrightarrow> bts_ok event_key xs \<longrightarrow>
        cap_insert_ok cap e xs (cap_insert c cap e xs)) \<and>
     (\<forall>e xs. bts_ok event_key xs \<longrightarrow> cap_remove c e xs = bts_remove event_key e xs)"

section \<open>The store\<close>

record memory_options =
  opt_process_nip09 :: bool
  opt_process_nip62 :: bool
  opt_relay_url :: "relay_url option"

record memory_store =
  ms_options :: memory_options
  ms_capacity :: "nat option"
  ms_events :: "event list"
  ms_ids :: "event_id \<Rightarrow> event option"
  ms_author_index :: "public_key \<Rightarrow> event list option"
  ms_kind_author_index :: "u16 \<times> public_key \<Rightarrow> event list option"
  ms_param_replaceable_index :: "coordinate_key \<Rightarrow> event option"
  ms_deleted_ids :: "event_id set"
  ms_deleted_coordinates :: "coordinate_key \<Rightarrow> timestamp option"
  ms_vanished_public_keys :: "public_key set"

definition memory_store_new :: "nat option \<Rightarrow> memory_options \<Rightarrow> memory_store" where
  "memory_store_new max_events options =
     \<lparr>ms_options = options, ms_capacity = max_events, ms_events = [], ms_ids = Map.empty,
      ms_author_index = Map.empty, ms_kind_author_index = Map.empty,
      ms_param_replaceable_index = Map.empty, ms_deleted_ids = {},
      ms_deleted_coordinates = Map.empty, ms_vanished_public_keys = {}\<rparr>"

definition is_pubkey_vanished :: "memory_store \<Rightarrow> public_key \<Rightarrow> bool" where
  "is_pubkey_vanished s pk \<longleftrightarrow> pk \<in> ms_vanished_public_keys s"

definition has_event_id_been_deleted :: "memory_store \<Rightarrow> event_id \<Rightarrow> bool" where
  "has_event_id_been_deleted s i \<longleftrightarrow> i \<in> ms_deleted_ids s"

definition has_coordinate_been_deleted :: "memory_store \<Rightarrow> coordinate \<Rightarrow> timestamp \<Rightarrow> bool" where
  "has_coordinate_been_deleted s c ts \<longleftrightarrow>
     (case ms_deleted_coordinates s (coordinate_key c) of Some t \<Rightarrow> ts \<le> t | None \<Rightarrow> False)"

definition event_by_id :: "memory_store \<Rightarrow> event_id \<Rightarrow> event option" where
  "event_by_id s i = ms_ids s i"

definition has_event :: "memory_store \<Rightarrow> event_id \<Rightarrow> bool" where
  "has_event s i \<longleftrightarrow> ms_ids s i \<noteq> None"

text \<open>\<open>NostrDatabase::check_id\<close> of database/nostr-memory/src/lib.rs.\<close>

definition check_id :: "memory_store \<Rightarrow> event_id \<Rightarrow> database_event_status" where
  "check_id s i =
     (if has_event_id_been_deleted s i then Deleted else if has_event s i then Saved
      else NotExistent)"

text \<open>Whether a stored event takes precedence over an incoming one.\<close>

definition has_event_been_replaced :: "event \<Rightarrow> event \<Rightarrow> bool" where
  "has_event_been_replaced stored incoming \<longleftrightarrow>
     (if ev_created_at stored > ev_created_at incoming then True
      else if ev_created_at stored = ev_created_at incoming then ev_id stored < ev_id incoming
      else False)"

section \<open>Queries\<close>

text \<open>The closure that the queries by an index filter with.\<close>

definition index_filter ::
  "memory_store \<Rightarrow> timestamp option \<Rightarrow> timestamp option \<Rightarrow> event \<Rightarrow> bool" where
  "index_filter s since until ev \<longleftrightarrow>
     (if ev_id ev \<in> ms_deleted_ids s then False
      else if (case since of Some t \<Rightarrow> ev_created_at ev < t | None \<Rightarrow> False) then False
      else if (case until of Some t \<Rightarrow> ev_created_at ev > t | None \<Rightarrow> False) then False
      else True)"

definition internal_query_by_author ::
  "memory_store \<Rightarrow> public_key \<Rightarrow> timestamp option \<Rightarrow> timestamp option \<Rightarrow> event list" where
  "internal_query_by_author s author since until =
     (case ms_author_index s author of
        Some evs \<Rightarrow> [ev \<leftarrow> evs. index_filter s since until ev]
      | None \<Rightarrow> [])"

definition internal_query_by_kind_and_author ::
  "memory_store \<Rightarrow> kind \<Rightarrow> public_key \<Rightarrow> timestamp option \<Rightarrow> timestamp option \<Rightarrow> event list" where
  "internal_query_by_kind_and_author s k author since until =
     (case ms_kind_author_index s (as_u16 k, author) of
        Some evs \<Rightarrow> [ev \<leftarrow> evs. index_filter s since until ev]
      | None \<Rightarrow> [])"

definition internal_query_param_replaceable ::
  "memory_store \<Rightarrow> kind \<Rightarrow> public_key \<Rightarrow> string \<Rightarrow> timestamp option \<Rightarrow> timestamp option \<Rightarrow>
   event option" where
  "internal_query_param_replaceable s k author identifier since until =
     (if \<not> is_addressable k then None
      else (case ms_param_replaceable_index s (as_u16 k, author, identifier) of
              None \<Rightarrow> None
            | Some ev \<Rightarrow> if index_filter s since until ev then Some ev else None))"

definition internal_generic_query :: "memory_store \<Rightarrow> filter \<Rightarrow> event list" where
  "internal_generic_query s f =
     [ev \<leftarrow> ms_events s. ev_id ev \<notin> ms_deleted_ids s \<and> match_event f ev match_all]"

datatype query_pattern =
    Author public_key "timestamp option" "timestamp option"
  | KindAuthor kind public_key "timestamp option" "timestamp option"
  | ParamReplaceable kind public_key string "timestamp option" "timestamp option"
  | Generic filter

text \<open>The length and the first element of an optional set.\<close>

definition set_head :: "'a list option \<Rightarrow> nat \<times> 'a option" where
  "set_head s =
     (case s of None \<Rightarrow> (0, None) | Some xs \<Rightarrow> (length xs, case xs of [] \<Rightarrow> None | x # _ \<Rightarrow> Some x))"

definition query_pattern_from :: "filter \<Rightarrow> query_pattern" where
  "query_pattern_from f =
     (let kinds = set_head (fl_kinds f); authors = set_head (fl_authors f);
          ids_len = (case fl_ids f of None \<Rightarrow> 0 | Some s \<Rightarrow> length s);
          generic_tags_len = length (fl_generic_tags f);
          identifier = (case btm_get slt_d (fl_generic_tags f) of
              None \<Rightarrow> None | Some vs \<Rightarrow> (case vs of [] \<Rightarrow> None | v # _ \<Rightarrow> Some v));
          since = fl_since f; until = fl_until f
      in case (snd kinds, snd authors) of
           (None, Some author) \<Rightarrow>
             if fst kinds = 0 \<and> fst authors = 1 \<and> ids_len = 0 \<and> generic_tags_len = 0 \<and>
                identifier = None \<and> fl_search f = None
             then Author author since until else Generic f
         | (Some k, Some author) \<Rightarrow>
             if fst kinds = 1 \<and> fst authors = 1 \<and> ids_len = 0 \<and> generic_tags_len = 0 \<and>
                identifier = None \<and> fl_search f = None
             then KindAuthor k author since until
             else if fst kinds = 1 \<and> fst authors = 1 \<and> ids_len = 0 \<and> identifier \<noteq> None \<and>
                     fl_search f = None \<and> is_addressable k
             then ParamReplaceable k author (the identifier) since until
             else Generic f
         | _ \<Rightarrow> Generic f)"

datatype query_result = QueryAll | QuerySet "event list"

definition pattern_query :: "memory_store \<Rightarrow> query_pattern \<Rightarrow> event list" where
  "pattern_query s p =
     (case p of
        Author author since until \<Rightarrow> internal_query_by_author s author since until
      | KindAuthor k author since until \<Rightarrow>
          internal_query_by_kind_and_author s k author since until
      | ParamReplaceable k author identifier since until \<Rightarrow>
          (case internal_query_param_replaceable s k author identifier since until of
             Some ev \<Rightarrow> [ev] | None \<Rightarrow> [])
      | Generic f \<Rightarrow> internal_generic_query s f)"

definition internal_query :: "memory_store \<Rightarrow> filter \<Rightarrow> query_result" where
  "internal_query s f =
     (if filter_is_empty f then QueryAll
      else if (case (fl_since f, fl_until f) of (Some a, Some b) \<Rightarrow> a > b | _ \<Rightarrow> False)
        then QuerySet []
      else
        (let evs = pattern_query s (query_pattern_from f)
         in QuerySet (bts_extend event_key []
              (case fl_limit f of Some n \<Rightarrow> take n evs | None \<Rightarrow> evs))))"

definition query :: "memory_store \<Rightarrow> filter \<Rightarrow> event list" where
  "query s f = (case internal_query s f of QueryAll \<Rightarrow> ms_events s | QuerySet evs \<Rightarrow> evs)"

definition count :: "memory_store \<Rightarrow> filter \<Rightarrow> nat" where
  "count s f =
     (case internal_query s f of QueryAll \<Rightarrow> length (ms_events s) | QuerySet evs \<Rightarrow> length evs)"

definition negentropy_items ::
  "memory_store \<Rightarrow> filter \<Rightarrow> timestamp \<Rightarrow> (event_id \<times> timestamp) list" where
  "negentropy_items s f now =
     (case internal_query s f of
        QueryAll \<Rightarrow> map (\<lambda>ev. (ev_id ev, ev_created_at ev))
          [ev \<leftarrow> ms_events s. \<not> is_expired_at ev now]
      | QuerySet evs \<Rightarrow> map (\<lambda>ev. (ev_id ev, ev_created_at ev)) [ev \<leftarrow> evs. \<not> is_expired_at ev now])"

section \<open>Removing events\<close>

definition index_remove :: "'k \<Rightarrow> event \<Rightarrow> ('k \<Rightarrow> event list option) \<Rightarrow> 'k \<Rightarrow> event list option" where
  "index_remove k ev idx =
     (case idx k of Some evs \<Rightarrow> idx(k \<mapsto> bts_remove event_key ev evs) | None \<Rightarrow> idx)"

text \<open>The removals from the indexes that \<open>discard_events\<close> and \<open>discard_event\<close> share.\<close>

definition unindex :: "externals \<Rightarrow> event \<Rightarrow> memory_store \<Rightarrow> memory_store" where
  "unindex x ev s =
     s\<lparr>ms_author_index := index_remove (ev_pubkey ev) ev (ms_author_index s),
       ms_param_replaceable_index :=
         (if is_addressable (ev_kind ev)
          then (case tags_identifier x (ev_tags ev) of
                  Some i \<Rightarrow> (ms_param_replaceable_index s)
                      ((as_u16 (ev_kind ev), ev_pubkey ev, i) := None)
                | None \<Rightarrow> ms_param_replaceable_index s)
          else ms_param_replaceable_index s),
       ms_kind_author_index :=
         index_remove (as_u16 (ev_kind ev), ev_pubkey ev) ev (ms_kind_author_index s)\<rparr>"

text \<open>One step of the loop over the ids to discard.\<close>

definition discard_id :: "externals \<Rightarrow> cap_ops \<Rightarrow> event_id \<Rightarrow> memory_store \<Rightarrow> memory_store" where
  "discard_id x c i s =
     (case ms_ids s i of
        None \<Rightarrow> s
      | Some ev \<Rightarrow>
          unindex x ev (s\<lparr>ms_ids := (ms_ids s)(i := None),
                          ms_events := cap_remove c ev (ms_events s)\<rparr>))"

definition discard_events ::
  "externals \<Rightarrow> cap_ops \<Rightarrow> event_id list \<Rightarrow> memory_store \<Rightarrow> memory_store" where
  "discard_events x c is s = foldl (\<lambda>s i. discard_id x c i s) s is"

definition discard_event :: "externals \<Rightarrow> event \<Rightarrow> memory_store \<Rightarrow> memory_store" where
  "discard_event x ev s = unindex x ev (s\<lparr>ms_ids := (ms_ids s)(ev_id ev := None)\<rparr>)"

definition clear :: "memory_store \<Rightarrow> memory_store" where
  "clear s = memory_store_new (ms_capacity s) (ms_options s)"

definition delete :: "externals \<Rightarrow> cap_ops \<Rightarrow> filter \<Rightarrow> memory_store \<Rightarrow> memory_store" where
  "delete x c f s =
     (case internal_query s f of
        QueryAll \<Rightarrow> clear s
      | QuerySet evs \<Rightarrow> discard_events x c (map ev_id evs) s)"

definition handle_request_to_vanish ::
  "externals \<Rightarrow> cap_ops \<Rightarrow> public_key \<Rightarrow> memory_store \<Rightarrow> memory_store" where
  "handle_request_to_vanish x c pk s =
     (let s1 = s\<lparr>ms_vanished_public_keys := insert pk (ms_vanished_public_keys s)\<rparr>;
          s2 = delete x c (filter_author pk filter_new) s1
      in delete x c (filter_pubkey x pk (filter_kind GiftWrap filter_new)) s2)"

section \<open>Indexing an event\<close>

text \<open>
  The three ways to collect the events to discard return the store (the deletion tombstones
  change), the ids to discard and the status.
\<close>

type_synonym collected = "memory_store \<times> event_id list \<times> save_event_status"

definition replaceable_step :: "event \<Rightarrow> event_id list \<times> save_event_status \<Rightarrow> event \<Rightarrow>
    event_id list \<times> save_event_status" where
  "replaceable_step e acc ev =
     (case acc of (discard, status) \<Rightarrow>
        if has_event_been_replaced ev e \<or> ev_id ev = ev_id e
        then (discard, Rejected RReplaced)
        else (ev_id ev # discard, status))"

definition collect_replaceable :: "memory_store \<Rightarrow> event \<Rightarrow> collected" where
  "collect_replaceable s e =
     (s, foldl (replaceable_step e) ([], Success)
           (internal_query_by_kind_and_author s (ev_kind e) (ev_pubkey e) None None))"

definition collect_addressable :: "externals \<Rightarrow> memory_store \<Rightarrow> event \<Rightarrow> collected" where
  "collect_addressable x s e =
     (case tags_identifier x (ev_tags e) of
        None \<Rightarrow> (s, [], Rejected ROther)
      | Some identifier \<Rightarrow>
          (let c = (coordinate_new (ev_kind e) (ev_pubkey e))\<lparr>co_identifier := identifier\<rparr>
           in if has_coordinate_been_deleted s c (ev_created_at e)
              then (s, [], Rejected RDeleted)
              else (case internal_query_param_replaceable s (ev_kind e) (ev_pubkey e) identifier
                           None None of
                      None \<Rightarrow> (s, [], Success)
                    | Some ev \<Rightarrow>
                        if has_event_been_replaced ev e \<or> ev_id ev = ev_id e
                        then (s, [], Rejected RReplaced)
                        else (s, [ev_id ev], Success))))"

text \<open>The loop over the \<open>e\<close> tags of a deletion event; a foreign event ends it.\<close>

fun delete_ids_loop :: "event \<Rightarrow> event_id list \<Rightarrow> collected \<Rightarrow> collected" where
  "delete_ids_loop e [] acc = acc"
| "delete_ids_loop e (i # is) (s, discard, status) =
     (case ms_ids s i of
        None \<Rightarrow> delete_ids_loop e is (s, discard, status)
      | Some ev \<Rightarrow>
          if ev_pubkey ev \<noteq> ev_pubkey e then (s, discard, Rejected RInvalidDelete)
          else if ev_created_at ev \<le> ev_created_at e
          then delete_ids_loop e is
                 (s\<lparr>ms_deleted_ids := insert (ev_id ev) (ms_deleted_ids s)\<rparr>, ev_id ev # discard, status)
          else delete_ids_loop e is (s, discard, status))"

text \<open>The entry of a deleted coordinate: inserted, or updated when the deletion is newer.\<close>

definition mark_coordinate :: "coordinate \<Rightarrow> timestamp \<Rightarrow> memory_store \<Rightarrow> memory_store" where
  "mark_coordinate c created_at s =
     s\<lparr>ms_deleted_coordinates := (ms_deleted_coordinates s)
         (coordinate_key c \<mapsto>
            (case ms_deleted_coordinates s (coordinate_key c) of
               Some t \<Rightarrow> if created_at > t then created_at else t
             | None \<Rightarrow> created_at))\<rparr>"

definition coordinate_events :: "memory_store \<Rightarrow> coordinate \<Rightarrow> timestamp \<Rightarrow> event_id list" where
  "coordinate_events s c created_at =
     (if co_identifier c \<noteq> []
      then (case internal_query_param_replaceable s (co_kind c) (co_public_key c)
                   (co_identifier c) None (Some created_at) of
              Some ev \<Rightarrow> [ev_id ev] | None \<Rightarrow> [])
      else map ev_id (internal_query_by_kind_and_author s (co_kind c) (co_public_key c)
                        None (Some created_at)))"

text \<open>The loop over the \<open>a\<close> tags of a deletion event; a foreign coordinate ends it.\<close>

fun delete_coordinates_loop :: "event \<Rightarrow> coordinate list \<Rightarrow> collected \<Rightarrow> collected" where
  "delete_coordinates_loop e [] acc = acc"
| "delete_coordinates_loop e (c # cs) (s, discard, status) =
     (if co_public_key c \<noteq> ev_pubkey e then (s, discard, Rejected RInvalidDelete)
      else
        (let s' = mark_coordinate c (ev_created_at e) s
         in delete_coordinates_loop e cs
              (s', coordinate_events s' c (ev_created_at e) @ discard, status)))"

definition collect_deletion :: "externals \<Rightarrow> memory_store \<Rightarrow> event \<Rightarrow> collected" where
  "collect_deletion x s e =
     delete_coordinates_loop e (tags_coordinates x (ev_tags e))
       (delete_ids_loop e (tags_event_ids x (ev_tags e)) (s, [], Success))"

definition collect_discards :: "externals \<Rightarrow> cap_ops \<Rightarrow> memory_store \<Rightarrow> event \<Rightarrow> collected" where
  "collect_discards x c s e =
     (if is_replaceable (ev_kind e) then collect_replaceable s e
      else if is_addressable (ev_kind e) then collect_addressable x s e
      else if opt_process_nip09 (ms_options s) \<and> kind_eq (ev_kind e) EventDeletion
        then collect_deletion x s e
      else if opt_process_nip62 (ms_options s) \<and> kind_eq (ev_kind e) RequestToVanish \<and>
              is_valid_vanish_request_for_relay x (ev_tags e) (opt_relay_url (ms_options s))
        then (handle_request_to_vanish x c (ev_pubkey e) s, [], Success)
      else (s, [], Success))"

definition index_insert :: "'k \<Rightarrow> event \<Rightarrow> ('k \<Rightarrow> event list option) \<Rightarrow> 'k \<Rightarrow> event list option" where
  "index_insert k ev idx =
     idx(k \<mapsto> bts_insert event_key ev (case idx k of Some evs \<Rightarrow> evs | None \<Rightarrow> []))"

text \<open>The updates of the indexes for an inserted event.\<close>

definition index_new :: "externals \<Rightarrow> event \<Rightarrow> memory_store \<Rightarrow> memory_store" where
  "index_new x e s =
     s\<lparr>ms_ids := (ms_ids s)(ev_id e \<mapsto> e),
       ms_author_index := index_insert (ev_pubkey e) e (ms_author_index s),
       ms_param_replaceable_index :=
         (if is_addressable (ev_kind e)
          then (case tags_identifier x (ev_tags e) of
                  Some i \<Rightarrow> (ms_param_replaceable_index s)((as_u16 (ev_kind e), ev_pubkey e, i) \<mapsto> e)
                | None \<Rightarrow> ms_param_replaceable_index s)
          else ms_param_replaceable_index s),
       ms_kind_author_index :=
         (if is_replaceable (ev_kind e)
          then (ms_kind_author_index s)((as_u16 (ev_kind e), ev_pubkey e) \<mapsto> [e])
          else index_insert (as_u16 (ev_kind e), ev_pubkey e) e (ms_kind_author_index s))\<rparr>"

definition insert_event :: "externals \<Rightarrow> cap_ops \<Rightarrow> event \<Rightarrow> memory_store \<Rightarrow> memory_store" where
  "insert_event x c e s =
     (case cap_insert c (ms_capacity s) e (ms_events s) of
        (inserted, pop, evs) \<Rightarrow>
          (let s1 = s\<lparr>ms_events := evs\<rparr>;
               s2 = (if inserted then index_new x e s1 else s1)
           in case pop of Some p \<Rightarrow> discard_event x p s2 | None \<Rightarrow> s2))"

text \<open>The checks that come before any change of the store.\<close>

definition rejection ::
  "externals \<Rightarrow> memory_store \<Rightarrow> event \<Rightarrow> timestamp \<Rightarrow> rejected_reason option" where
  "rejection x s e now =
     (if ms_ids s (ev_id e) \<noteq> None then Some RDuplicate
      else if ev_id e \<in> ms_deleted_ids s then Some RDeleted
      else if is_pubkey_vanished s (ev_pubkey e) then Some RVanished
      else if (case event_coordinate x e of
                 Some c \<Rightarrow> (case ms_deleted_coordinates s (coordinate_key c) of
                     Some t \<Rightarrow> ev_created_at e \<le> t | None \<Rightarrow> False)
               | None \<Rightarrow> False) then Some RDeleted
      else if is_expired_at e now then Some RExpired
      else None)"

definition internal_index_event ::
  "externals \<Rightarrow> cap_ops \<Rightarrow> event \<Rightarrow> timestamp \<Rightarrow> memory_store \<Rightarrow> memory_store \<times> save_event_status" where
  "internal_index_event x c e now s =
     (case rejection x s e now of
        Some r \<Rightarrow> (s, Rejected r)
      | None \<Rightarrow>
          (case collect_discards x c s e of
             (s1, to_discard, status) \<Rightarrow>
               (let s2 = discard_events x c to_discard s1
                in (if is_success status then insert_event x c e s2 else s2, status))))"

definition index_event ::
  "externals \<Rightarrow> cap_ops \<Rightarrow> event \<Rightarrow> timestamp \<Rightarrow> memory_store \<Rightarrow> memory_store \<times> save_event_status" where
  "index_event x c e now s =
     (if is_ephemeral (ev_kind e) then (s, Rejected REphemeral)
      else internal_index_event x c e now s)"

end
