(* ===== verification/Memory_Invariant.thy ===== *)
theory Memory_Invariant
  imports Memory_Store
begin

text \<open>
  The invariant of the memory store: every index describes the sorted list of events exactly, the
  ids of the stored events are distinct and not marked as deleted, and the capacity is kept. Each
  operation of \<open>Memory_Store\<close> preserves it, and the lemmas here say what it does to the list of
  events.
\<close>

section \<open>What the indexes describe\<close>

definition idx_get :: "('k \<Rightarrow> event list option) \<Rightarrow> 'k \<Rightarrow> event list" where
  "idx_get idx k = (case idx k of None \<Rightarrow> [] | Some evs \<Rightarrow> evs)"

definition kind_author_key :: "event \<Rightarrow> u16 \<times> public_key" where
  "kind_author_key e = (as_u16 (ev_kind e), ev_pubkey e)"

definition param_key :: "externals \<Rightarrow> event \<Rightarrow> coordinate_key option" where
  "param_key x e =
     (if is_addressable (ev_kind e)
      then map_option (\<lambda>i. (as_u16 (ev_kind e), ev_pubkey e, i)) (tags_identifier x (ev_tags e))
      else None)"

definition indexes_ok :: "externals \<Rightarrow> memory_store \<Rightarrow> event list \<Rightarrow> bool" where
  "indexes_ok x s evs \<longleftrightarrow>
     bts_ok event_key evs \<and>
     (\<forall>i e. ms_ids s i = Some e \<longleftrightarrow> e \<in> set evs \<and> ev_id e = i) \<and>
     (\<forall>pk. idx_get (ms_author_index s) pk = [e \<leftarrow> evs. ev_pubkey e = pk]) \<and>
     (\<forall>k. idx_get (ms_kind_author_index s) k = [e \<leftarrow> evs. kind_author_key e = k]) \<and>
     (\<forall>k e. ms_param_replaceable_index s k = Some e \<longleftrightarrow> e \<in> set evs \<and> param_key x e = Some k)"

definition store_idx :: "externals \<Rightarrow> memory_store \<Rightarrow> bool" where
  "store_idx x s \<longleftrightarrow>
     indexes_ok x s (ms_events s) \<and> ms_capacity s \<noteq> Some 0 \<and>
     (case ms_capacity s of None \<Rightarrow> True | Some m \<Rightarrow> length (ms_events s) \<le> m)"

definition store_ok :: "externals \<Rightarrow> memory_store \<Rightarrow> bool" where
  "store_ok x s \<longleftrightarrow> store_idx x s \<and> (\<forall>e \<in> set (ms_events s). ev_id e \<notin> ms_deleted_ids s)"

text \<open>The parts of the store that only deletions and vanish requests change.\<close>

definition same_marks :: "memory_store \<Rightarrow> memory_store \<Rightarrow> bool" where
  "same_marks t s \<longleftrightarrow>
     ms_options t = ms_options s \<and> ms_capacity t = ms_capacity s \<and>
     ms_deleted_ids t = ms_deleted_ids s \<and>
     ms_deleted_coordinates t = ms_deleted_coordinates s \<and>
     ms_vanished_public_keys t = ms_vanished_public_keys s"

lemma indexes_okD:
  assumes "indexes_ok x s evs"
  shows indexes_sorted: "bts_ok event_key evs"
    and indexes_ids: "ms_ids s i = Some e \<longleftrightarrow> e \<in> set evs \<and> ev_id e = i"
    and indexes_author: "idx_get (ms_author_index s) pk = [e \<leftarrow> evs. ev_pubkey e = pk]"
    and indexes_kind_author: "idx_get (ms_kind_author_index s) k = [e \<leftarrow> evs. kind_author_key e = k]"
    and indexes_param:
      "ms_param_replaceable_index s ck = Some e \<longleftrightarrow> e \<in> set evs \<and> param_key x e = Some ck"
  using assms unfolding indexes_ok_def by blast+

lemma indexes_okI:
  assumes "bts_ok event_key evs"
    and "\<And>i e. ms_ids s i = Some e \<longleftrightarrow> e \<in> set evs \<and> ev_id e = i"
    and "\<And>pk. idx_get (ms_author_index s) pk = [e \<leftarrow> evs. ev_pubkey e = pk]"
    and "\<And>k. idx_get (ms_kind_author_index s) k = [e \<leftarrow> evs. kind_author_key e = k]"
    and "\<And>k e. ms_param_replaceable_index s k = Some e \<longleftrightarrow> e \<in> set evs \<and> param_key x e = Some k"
  shows "indexes_ok x s evs"
  unfolding indexes_ok_def by (intro conjI allI assms)

lemma indexes_unique:
  assumes "indexes_ok x s evs" and "a \<in> set evs" and "b \<in> set evs" and "ev_id a = ev_id b"
  shows "a = b"
proof -
  have "ms_ids s (ev_id a) = Some a"
    by (rule iffD2 [OF indexes_ids [OF assms(1)]]) (intro conjI refl assms(2))
  moreover have "ms_ids s (ev_id a) = Some b"
    by (rule iffD2 [OF indexes_ids [OF assms(1)]]) (intro conjI assms(3) assms(4) [symmetric])
  ultimately show ?thesis by simp
qed

lemma indexes_param_unique:
  assumes "indexes_ok x s evs" and "a \<in> set evs" and "b \<in> set evs"
    and "param_key x a = Some k" and "param_key x b = Some k"
  shows "a = b"
proof -
  have "ms_param_replaceable_index s k = Some a"
    by (rule iffD2 [OF indexes_param [OF assms(1)]]) (intro conjI assms)
  moreover have "ms_param_replaceable_index s k = Some b"
    by (rule iffD2 [OF indexes_param [OF assms(1)]]) (intro conjI assms)
  ultimately show ?thesis by simp
qed

lemma indexes_ids_None: "indexes_ok x s evs \<Longrightarrow> ms_ids s i = None \<longleftrightarrow> (\<forall>e \<in> set evs. ev_id e \<noteq> i)"
  using indexes_ids [of x s evs i] by (metis not_None_eq)

lemma indexes_ok_cong:
  "indexes_ok x s evs \<Longrightarrow> ms_ids t = ms_ids s \<Longrightarrow> ms_author_index t = ms_author_index s \<Longrightarrow>
   ms_kind_author_index t = ms_kind_author_index s \<Longrightarrow>
   ms_param_replaceable_index t = ms_param_replaceable_index s \<Longrightarrow> indexes_ok x t evs"
  by (simp add: indexes_ok_def)

lemma idx_get_remove:
  "idx_get (index_remove k ev idx) j =
     (if j = k then bts_remove event_key ev (idx_get idx k) else idx_get idx j)"
  by (auto simp: idx_get_def index_remove_def bts_remove_def split: option.split)

lemma idx_get_insert:
  "idx_get (index_insert k ev idx) j =
     (if j = k then bts_insert event_key ev (idx_get idx k) else idx_get idx j)"
  by (auto simp: idx_get_def index_insert_def split: option.split)

lemma bts_insert_least: "\<forall>y \<in> set ys. key e < key y \<Longrightarrow> bts_insert key e ys = e # ys"
  by (cases ys) auto

lemma filter_bts_insert:
  "bts_ok key evs \<Longrightarrow> \<not> bts_contains key e evs \<Longrightarrow>
   [y \<leftarrow> bts_insert key e evs. P y] =
     (if P e then bts_insert key e [y \<leftarrow> evs. P y] else [y \<leftarrow> evs. P y])"
proof (induction evs)
  case Nil
  then show ?case by simp
next
  case (Cons y ys)
  have ne: "key e \<noteq> key y" using Cons.prems(2) by (auto simp: bts_contains_def)
  have IH: "[y \<leftarrow> bts_insert key e ys. P y] =
      (if P e then bts_insert key e [y \<leftarrow> ys. P y] else [y \<leftarrow> ys. P y])"
    using Cons by (auto simp: bts_contains_def)
  show ?case
  proof (cases "key e < key y")
    case True
    then have "\<forall>z \<in> set [y \<leftarrow> ys. P y]. key e < key z" using Cons.prems(1) by (auto dest: less_trans)
    then show ?thesis using True by (auto simp: bts_insert_least)
  next
    case False
    then show ?thesis using ne IH by auto
  qed
qed

section \<open>Removing an event from the indexes\<close>

lemma bts_remove_event:
  assumes "indexes_ok x s evs" and "ev \<in> set evs"
  shows "bts_remove event_key ev evs = [e \<leftarrow> evs. ev_id e \<noteq> ev_id ev]"
  unfolding bts_remove_def
proof (rule filter_cong [OF refl])
  fix e assume "e \<in> set evs"
  then show "(event_key e \<noteq> event_key ev) = (ev_id e \<noteq> ev_id ev)"
    using indexes_unique [OF assms(1) _ assms(2), of e] by (auto simp: event_key_eq)
qed

lemma filter_other:
  assumes "indexes_ok x s evs" and "ev \<in> set evs" and "\<not> P ev"
  shows "[e \<leftarrow> evs. P e] = [e \<leftarrow> [e \<leftarrow> evs. ev_id e \<noteq> ev_id ev]. P e]"
  unfolding filter_filter
proof (rule filter_cong [OF refl])
  fix e assume "e \<in> set evs"
  then show "P e = (ev_id e \<noteq> ev_id ev \<and> P e)"
    using indexes_unique [OF assms(1) _ assms(2), of e] assms(3) by auto
qed

lemma bts_remove_filter:
  assumes "indexes_ok x s evs" and "ev \<in> set evs"
  shows "bts_remove event_key ev [e \<leftarrow> evs. P e] = [e \<leftarrow> [e \<leftarrow> evs. ev_id e \<noteq> ev_id ev]. P e]"
proof -
  have "bts_remove event_key ev [e \<leftarrow> evs. P e] = [e \<leftarrow> bts_remove event_key ev evs. P e]"
    unfolding bts_remove_def filter_filter by (simp add: conj_commute)
  then show ?thesis unfolding bts_remove_event [OF assms] .
qed

lemma unindex_param:
  "ms_param_replaceable_index (unindex x ev s) =
     (case param_key x ev of None \<Rightarrow> ms_param_replaceable_index s
      | Some k \<Rightarrow> (ms_param_replaceable_index s)(k := None))"
  by (simp add: unindex_def param_key_def split: option.split)

lemma unindex_ok:
  assumes ok: "indexes_ok x s evs" and ev: "ev \<in> set evs"
    and ids: "ms_ids t = (ms_ids s)(ev_id ev := None)"
    and same: "ms_author_index t = ms_author_index s"
      "ms_kind_author_index t = ms_kind_author_index s"
      "ms_param_replaceable_index t = ms_param_replaceable_index s"
  shows "indexes_ok x (unindex x ev t) [e \<leftarrow> evs. ev_id e \<noteq> ev_id ev]"
proof (rule indexes_okI)
  show "bts_ok event_key [e \<leftarrow> evs. ev_id e \<noteq> ev_id ev]"
    by (rule bts_filter_ok) (rule indexes_sorted [OF ok])
  show "ms_ids (unindex x ev t) i = Some e \<longleftrightarrow>
      e \<in> set [e \<leftarrow> evs. ev_id e \<noteq> ev_id ev] \<and> ev_id e = i" for i e
    using indexes_ids [OF ok, of i e] by (auto simp: unindex_def ids)
  show "idx_get (ms_author_index (unindex x ev t)) pk =
      [e \<leftarrow> [e \<leftarrow> evs. ev_id e \<noteq> ev_id ev]. ev_pubkey e = pk]" for pk
    using filter_other [OF ok ev, of "\<lambda>e. ev_pubkey e = pk"]
      bts_remove_filter [OF ok ev, of "\<lambda>e. ev_pubkey e = pk"]
    by (auto simp: unindex_def same idx_get_remove indexes_author [OF ok])
  show "idx_get (ms_kind_author_index (unindex x ev t)) k =
      [e \<leftarrow> [e \<leftarrow> evs. ev_id e \<noteq> ev_id ev]. kind_author_key e = k]" for k
    using filter_other [OF ok ev, of "\<lambda>e. kind_author_key e = k"]
      bts_remove_filter [OF ok ev, of "\<lambda>e. kind_author_key e = k"]
    by (auto simp: unindex_def same idx_get_remove indexes_kind_author [OF ok]
        simp flip: kind_author_key_def)
  show "ms_param_replaceable_index (unindex x ev t) k = Some e \<longleftrightarrow>
      e \<in> set [e \<leftarrow> evs. ev_id e \<noteq> ev_id ev] \<and> param_key x e = Some k" for k e
    using indexes_param [OF ok, of k e] indexes_param_unique [OF ok ev, of e]
      indexes_unique [OF ok ev, of e]
    by (auto simp: unindex_param same split: option.split)
qed

text \<open>Removing an event that is not stored changes nothing the indexes describe.\<close>

lemma unindex_absent:
  assumes ok: "indexes_ok x s evs" and new: "\<forall>e \<in> set evs. ev_id e \<noteq> ev_id ev"
    and param: "\<forall>e \<in> set evs. param_key x e = param_key x ev \<longrightarrow> param_key x e = None"
  shows "indexes_ok x (discard_event x ev s) evs"
proof (rule indexes_okI)
  have keep: "bts_remove event_key ev [e \<leftarrow> evs. P e] = [e \<leftarrow> evs. P e]" for P
    unfolding bts_remove_def filter_filter using new
    by (intro filter_cong refl) (auto simp: event_key_eq)
  show "bts_ok event_key evs" by (rule indexes_sorted [OF ok])
  show "ms_ids (discard_event x ev s) i = Some e \<longleftrightarrow> e \<in> set evs \<and> ev_id e = i" for i e
    using indexes_ids [OF ok, of i e] new by (auto simp: discard_event_def unindex_def)
  show "idx_get (ms_author_index (discard_event x ev s)) pk = [e \<leftarrow> evs. ev_pubkey e = pk]" for pk
    by (simp add: discard_event_def unindex_def idx_get_remove indexes_author [OF ok] keep)
  show "idx_get (ms_kind_author_index (discard_event x ev s)) k =
      [e \<leftarrow> evs. kind_author_key e = k]" for k
    by (simp add: discard_event_def unindex_def idx_get_remove indexes_kind_author [OF ok] keep)
  show "ms_param_replaceable_index (discard_event x ev s) k = Some e \<longleftrightarrow>
      e \<in> set evs \<and> param_key x e = Some k" for k e
    using indexes_param [OF ok, of k e] param
    by (auto simp: discard_event_def unindex_param split: option.split)
qed

section \<open>Discarding events\<close>

lemma cap_remove_eq: "cap_ok c \<Longrightarrow> bts_ok event_key xs \<Longrightarrow> cap_remove c e xs = bts_remove event_key e xs"
  unfolding cap_ok_def by blast

lemma same_marks_refl [simp]: "same_marks s s"
  by (simp add: same_marks_def)

lemma same_marks_trans: "same_marks u t \<Longrightarrow> same_marks t s \<Longrightarrow> same_marks u s"
  by (simp add: same_marks_def)

lemma unindex_frame [simp]:
  "ms_events (unindex x ev s) = ms_events s" "same_marks (unindex x ev s) s"
  by (simp_all add: unindex_def same_marks_def)

lemma discard_id_result:
  assumes c: "cap_ok c" and s: "store_idx x s"
  shows "store_idx x (discard_id x c i s) \<and>
    ms_events (discard_id x c i s) = [e \<leftarrow> ms_events s. ev_id e \<noteq> i] \<and>
    same_marks (discard_id x c i s) s"
proof -
  have ok: "indexes_ok x s (ms_events s)" using s by (simp add: store_idx_def)
  show ?thesis
  proof (cases "ms_ids s i")
    case None
    then have "\<forall>e \<in> set (ms_events s). ev_id e \<noteq> i" using indexes_ids_None [OF ok] by blast
    then show ?thesis using None s by (simp add: discard_id_def)
  next
    case (Some ev)
    then have ev: "ev \<in> set (ms_events s)" and id: "ev_id ev = i"
      using indexes_ids [OF ok, of i ev] by auto
    let ?t = "s\<lparr>ms_ids := (ms_ids s)(i := None), ms_events := cap_remove c ev (ms_events s)\<rparr>"
    have evs: "cap_remove c ev (ms_events s) = [e \<leftarrow> ms_events s. ev_id e \<noteq> i]"
      using cap_remove_eq [OF c indexes_sorted [OF ok]] bts_remove_event [OF ok ev] id by simp
    have "indexes_ok x (unindex x ev ?t) [e \<leftarrow> ms_events s. ev_id e \<noteq> ev_id ev]"
      by (rule unindex_ok [OF ok ev]) (simp_all add: id)
    then have "indexes_ok x (discard_id x c i s) [e \<leftarrow> ms_events s. ev_id e \<noteq> i]"
      using Some id by (simp add: discard_id_def)
    moreover have e: "ms_events (discard_id x c i s) = [e \<leftarrow> ms_events s. ev_id e \<noteq> i]"
      using Some by (simp add: discard_id_def evs)
    moreover have m: "same_marks (discard_id x c i s) s"
      using Some by (simp add: discard_id_def unindex_def same_marks_def)
    moreover have "length [e \<leftarrow> ms_events s. ev_id e \<noteq> i] \<le> length (ms_events s)"
      by (rule length_filter_le)
    ultimately show ?thesis
      using s by (auto simp: store_idx_def same_marks_def split: option.splits
          intro: le_trans [OF length_filter_le])
  qed
qed

lemma discard_events_result:
  assumes "cap_ok c" and "store_idx x s"
  shows "store_idx x (discard_events x c is s) \<and>
    ms_events (discard_events x c is s) = [e \<leftarrow> ms_events s. ev_id e \<notin> set is] \<and>
    same_marks (discard_events x c is s) s"
  using assms(2)
proof (induction "is" arbitrary: s)
  case Nil
  then show ?case by (simp add: discard_events_def)
next
  case (Cons i "is")
  note one = discard_id_result [OF assms(1) Cons.prems, of i]
  have fold: "discard_events x c (i # is) s = discard_events x c is (discard_id x c i s)"
    by (simp add: discard_events_def)
  have "store_idx x (discard_events x c is (discard_id x c i s)) \<and>
      ms_events (discard_events x c is (discard_id x c i s)) =
        [e \<leftarrow> ms_events (discard_id x c i s). ev_id e \<notin> set is] \<and>
      same_marks (discard_events x c is (discard_id x c i s)) (discard_id x c i s)"
    using one by (intro Cons.IH) blast
  then show ?case
    using one unfolding fold by (auto intro: same_marks_trans)
qed

section \<open>Inserting an event\<close>

lemma index_new_param:
  "ms_param_replaceable_index (index_new x e s) =
     (case param_key x e of None \<Rightarrow> ms_param_replaceable_index s
      | Some k \<Rightarrow> (ms_param_replaceable_index s)(k \<mapsto> e))"
  by (simp add: index_new_def param_key_def split: option.split)

text \<open>What makes room for a new event: no event with its id, its coordinate, or (for a
  replaceable one) its kind number and author.\<close>

definition room_for :: "externals \<Rightarrow> event \<Rightarrow> event list \<Rightarrow> bool" where
  "room_for x e evs \<longleftrightarrow>
     (\<forall>a \<in> set evs. ev_id a \<noteq> ev_id e \<and> (param_key x a = param_key x e \<longrightarrow> param_key x a = None) \<and>
        (is_replaceable (ev_kind e) \<longrightarrow> kind_author_key a \<noteq> kind_author_key e))"

lemma room_for_new: "room_for x e evs \<Longrightarrow> \<not> bts_contains event_key e evs"
  by (auto simp: room_for_def bts_contains_def event_key_eq)

lemma index_new_ok:
  assumes ok: "indexes_ok x s evs" and room: "room_for x e evs"
  shows "indexes_ok x (index_new x e s) (bts_insert event_key e evs)"
proof (rule indexes_okI)
  note sorted = indexes_sorted [OF ok] and new = room_for_new [OF room]
  have set: "set (bts_insert event_key e evs) = insert e (set evs)"
    using bts_insert_set [OF sorted, of e] new by simp
  note filt = filter_bts_insert [OF sorted new]
  show "bts_ok event_key (bts_insert event_key e evs)" by (rule bts_insert_ok [OF sorted])
  show "ms_ids (index_new x e s) i = Some a \<longleftrightarrow> a \<in> set (bts_insert event_key e evs) \<and> ev_id a = i"
    for i a
    using indexes_ids [OF ok, of i a] room by (auto simp: index_new_def set room_for_def)
  show "idx_get (ms_author_index (index_new x e s)) pk =
      [a \<leftarrow> bts_insert event_key e evs. ev_pubkey a = pk]" for pk
    by (simp add: index_new_def idx_get_insert indexes_author [OF ok] filt)
  show "ms_param_replaceable_index (index_new x e s) k = Some a \<longleftrightarrow>
      a \<in> set (bts_insert event_key e evs) \<and> param_key x a = Some k" for k a
    using indexes_param [OF ok, of k a] room
    by (auto simp: index_new_param set room_for_def split: option.split)
  show "idx_get (ms_kind_author_index (index_new x e s)) k =
      [a \<leftarrow> bts_insert event_key e evs. kind_author_key a = k]" for k
  proof (cases "is_replaceable (ev_kind e)")
    case True
    then have none: "[a \<leftarrow> evs. kind_author_key a = kind_author_key e] = []"
      using room by (auto simp: room_for_def filter_empty_conv)
    have "idx_get (ms_kind_author_index (index_new x e s)) k =
        (if k = kind_author_key e then [e] else idx_get (ms_kind_author_index s) k)"
      using True by (simp add: index_new_def idx_get_def kind_author_key_def)
    then show ?thesis
      using none by (auto simp: indexes_kind_author [OF ok] filt)
  next
    case False
    have "idx_get (ms_kind_author_index (index_new x e s)) k =
        (if k = kind_author_key e then bts_insert event_key e (idx_get (ms_kind_author_index s) k)
         else idx_get (ms_kind_author_index s) k)"
      using False by (simp add: index_new_def idx_get_insert kind_author_key_def)
    then show ?thesis by (simp add: indexes_kind_author [OF ok] filt)
  qed
qed

text \<open>
  Inserting an event: the new list has the event in its place, or is that list without its last
  element when the store is bounded.
\<close>

lemma bts_insert_not_Nil [simp]: "bts_insert key e xs \<noteq> []"
  by (cases xs) auto

lemma bts_remove_inserted:
  "bts_ok key xs \<Longrightarrow> \<not> bts_contains key e xs \<Longrightarrow> bts_remove key e (bts_insert key e xs) = xs"
proof -
  assume ok: "bts_ok key xs" and new: "\<not> bts_contains key e xs"
  have "bts_remove key e (bts_insert key e xs) = [y \<leftarrow> xs. key y \<noteq> key e]"
    unfolding bts_remove_def filter_bts_insert [OF ok new] by simp
  also have "\<dots> = xs" using new by (auto simp: bts_contains_def filter_id_conv)
  finally show ?thesis .
qed

definition inserted_events :: "nat option \<Rightarrow> event \<Rightarrow> event list \<Rightarrow> event list \<Rightarrow> bool" where
  "inserted_events cap e xs ys \<longleftrightarrow>
     ys = (case cap of None \<Rightarrow> bts_insert event_key e xs | Some m \<Rightarrow> take m (bts_insert event_key e xs))"

lemma length_bts_insert_new:
  "\<not> bts_contains key e xs \<Longrightarrow> length (bts_insert key e xs) = Suc (length xs)"
  by (induction xs) (auto simp: bts_contains_def)

lemma bts_remove_last: "bts_ok key xs \<Longrightarrow> xs \<noteq> [] \<Longrightarrow> bts_remove key (last xs) xs = butlast xs"
proof -
  assume ok: "bts_ok key xs" and "xs \<noteq> []"
  then obtain ys y where xs: "xs = ys @ [y]" by (cases xs rule: rev_cases) auto
  have "\<forall>a \<in> set ys. key a \<noteq> key y" using ok by (auto simp: bts_ok_def xs sorted_wrt_append)
  then show ?thesis by (simp add: xs bts_remove_def filter_id_conv)
qed

text \<open>The two outcomes of the capped set are one: the list cut at the capacity.\<close>

lemma inserted_eventsI:
  assumes ok: "bts_ok event_key xs" and new: "\<not> bts_contains event_key e xs"
    and bound: "case cap of None \<Rightarrow> True | Some m \<Rightarrow> length xs \<le> m \<and> length ys \<le> m"
    and ys: "ys = bts_insert event_key e xs \<or> (\<exists>m. cap = Some m \<and> m \<le> length xs) \<and>
      ys = bts_remove event_key (last (bts_insert event_key e xs)) (bts_insert event_key e xs)"
  shows "inserted_events cap e xs ys"
proof (cases cap)
  case None
  then show ?thesis using ys by (simp add: inserted_events_def)
next
  case (Some m)
  have len: "length (bts_insert event_key e xs) = Suc (length xs)"
    by (rule length_bts_insert_new [OF new])
  have rem: "bts_remove event_key (last (bts_insert event_key e xs)) (bts_insert event_key e xs) =
      butlast (bts_insert event_key e xs)"
    by (rule bts_remove_last [OF bts_insert_ok [OF ok]]) (use len in auto)
  show ?thesis
  proof (cases "ys = bts_insert event_key e xs")
    case True
    then show ?thesis using Some bound len by (simp add: inserted_events_def)
  next
    case False
    then have "length xs = m" and "ys = butlast (bts_insert event_key e xs)"
      using ys Some bound rem by auto
    then show ?thesis using Some len by (simp add: inserted_events_def butlast_conv_take)
  qed
qed

lemma discard_event_frame [simp]:
  "ms_events (discard_event x p s) = ms_events s" "same_marks (discard_event x p s) s"
  by (simp_all add: discard_event_def same_marks_def unindex_def)

lemma index_new_frame [simp]:
  "ms_events (index_new x e s) = ms_events s" "same_marks (index_new x e s) s"
  by (simp_all add: index_new_def same_marks_def)

lemma insert_event_result:
  assumes c: "cap_ok c" and s: "store_idx x s" and room: "room_for x e (ms_events s)"
  shows "store_idx x (insert_event x c e s) \<and>
    inserted_events (ms_capacity s) e (ms_events s) (ms_events (insert_event x c e s)) \<and>
    same_marks (insert_event x c e s) s"
proof -
  let ?xs = "ms_events s" and ?full = "bts_insert event_key e (ms_events s)"
  have ok: "indexes_ok x s ?xs" and cap: "ms_capacity s \<noteq> Some 0"
    using s by (simp_all add: store_idx_def)
  note sorted = indexes_sorted [OF ok] and new = room_for_new [OF room]
  obtain ins pop ys where r: "cap_insert c (ms_capacity s) e ?xs = (ins, pop, ys)"
    by (cases "cap_insert c (ms_capacity s) e ?xs") auto
  have law: "cap_insert_ok (ms_capacity s) e ?xs (ins, pop, ys)"
    using c cap sorted r unfolding cap_ok_def by (metis (no_types))
  let ?s1 = "s\<lparr>ms_events := ys\<rparr>"
  have ok1: "indexes_ok x ?s1 ?xs" using ok by (rule indexes_ok_cong) simp_all
  have full: "indexes_ok x (index_new x e ?s1) ?full" by (rule index_new_ok [OF ok1 room])
  have absent: "indexes_ok x (discard_event x e ?s1) ?xs"
    using room by (intro unindex_absent [OF ok1]) (auto simp: room_for_def)
  have last: "last ?full \<in> set ?full" by (rule last_in_set) simp
  have popped: "indexes_ok x (discard_event x (last ?full) (index_new x e ?s1))
      (bts_remove event_key (last ?full) ?full)"
    unfolding discard_event_def bts_remove_event [OF full last]
    by (rule unindex_ok [OF full last]) simp_all
  have e: "last ?full = e \<Longrightarrow> bts_remove event_key (last ?full) ?full = ?xs"
    using bts_remove_inserted [OF sorted new] by simp
  have bound: "case ms_capacity s of None \<Rightarrow> True | Some m \<Rightarrow> length ys \<le> m"
    using law new s by (auto simp: cap_insert_ok_def store_idx_def split: option.splits)
  have both: "case ms_capacity s of None \<Rightarrow> True | Some m \<Rightarrow> length ?xs \<le> m \<and> length ys \<le> m"
    using bound s by (auto simp: store_idx_def split: option.splits)
  note ie = inserted_eventsI [OF sorted new both]
  have s1: "same_marks ?s1 s" by (simp add: same_marks_def)
  have marks: "same_marks (index_new x e ?s1) s" "same_marks ?s1 s"
    "same_marks (discard_event x e ?s1) s"
    using same_marks_trans [OF index_new_frame(2) s1] s1
      same_marks_trans [OF discard_event_frame(2) s1] by blast+
  have marks2: "same_marks (discard_event x (last ?full) (index_new x e ?s1)) s"
    by (rule same_marks_trans [OF discard_event_frame(2) marks(1)])
  consider "ins" "pop = None" "ys = ?full"
    | "ins" "pop = Some (last ?full)" "ys = bts_remove event_key (last ?full) ?full"
      "\<exists>m. ms_capacity s = Some m \<and> m \<le> length ?xs"
    | "\<not> ins" "pop = None" "ys = ?xs" "e = last ?full"
      "\<exists>m. ms_capacity s = Some m \<and> m \<le> length ?xs"
    | "\<not> ins" "pop = Some e" "ys = ?xs" "e = last ?full"
      "\<exists>m. ms_capacity s = Some m \<and> m \<le> length ?xs"
    using law new unfolding cap_insert_ok_def by auto
  then have "indexes_ok x (insert_event x c e s) ys \<and> ms_events (insert_event x c e s) = ys \<and>
      inserted_events (ms_capacity s) e ?xs ys \<and> same_marks (insert_event x c e s) s"
  proof cases
    case 1
    then have "insert_event x c e s = index_new x e ?s1" by (simp add: insert_event_def r)
    then show ?thesis using full 1 marks ie by simp
  next
    case 2
    then have i: "insert_event x c e s = discard_event x (last ?full) (index_new x e ?s1)"
      by (simp add: insert_event_def r)
    show ?thesis unfolding i using popped 2 marks2 ie by simp
  next
    case 3
    then have "insert_event x c e s = ?s1" by (simp add: insert_event_def r)
    then show ?thesis using ok1 e 3 marks ie by simp
  next
    case 4
    then have i: "insert_event x c e s = discard_event x e ?s1"
      by (simp add: insert_event_def r)
    show ?thesis unfolding i using absent e 4 marks ie by simp
  qed
  then show ?thesis
    using bound cap by (auto simp: store_idx_def same_marks_def)
qed

section \<open>Queries\<close>

definition in_window :: "timestamp option \<Rightarrow> timestamp option \<Rightarrow> event \<Rightarrow> bool" where
  "in_window since until e \<longleftrightarrow>
     (case since of None \<Rightarrow> True | Some t \<Rightarrow> t \<le> ev_created_at e) \<and>
     (case until of None \<Rightarrow> True | Some t \<Rightarrow> ev_created_at e \<le> t)"

lemma store_ok_indexes: "store_ok x s \<Longrightarrow> indexes_ok x s (ms_events s)"
  by (simp add: store_ok_def store_idx_def)

lemma index_filter_stored:
  "store_ok x s \<Longrightarrow> e \<in> set (ms_events s) \<Longrightarrow> index_filter s since until e = in_window since until e"
  by (auto simp: store_ok_def index_filter_def in_window_def split: option.split)

lemma idx_query:
  "(case idx k of Some evs \<Rightarrow> [ev \<leftarrow> evs. P ev] | None \<Rightarrow> []) = [ev \<leftarrow> idx_get idx k. P ev]"
  by (simp add: idx_get_def split: option.split)

lemma query_by_author_eq:
  assumes "store_ok x s"
  shows "internal_query_by_author s a since until =
    [e \<leftarrow> ms_events s. ev_pubkey e = a \<and> in_window since until e]"
  unfolding internal_query_by_author_def idx_query indexes_author [OF store_ok_indexes [OF assms]]
    filter_filter
  by (rule filter_cong [OF refl]) (auto simp: index_filter_stored [OF assms])

lemma query_by_kind_author_eq:
  assumes "store_ok x s"
  shows "internal_query_by_kind_and_author s k a since until =
    [e \<leftarrow> ms_events s. kind_eq (ev_kind e) k \<and> ev_pubkey e = a \<and> in_window since until e]"
  unfolding internal_query_by_kind_and_author_def idx_query
    indexes_kind_author [OF store_ok_indexes [OF assms]] filter_filter
  by (rule filter_cong [OF refl])
    (auto simp: index_filter_stored [OF assms] kind_author_key_def kind_eq_def)

lemma query_param_eq:
  assumes "store_ok x s"
  shows "internal_query_param_replaceable s k a i since until = Some e \<longleftrightarrow>
    is_addressable k \<and> e \<in> set (ms_events s) \<and> param_key x e = Some (as_u16 k, a, i) \<and>
    in_window since until e"
  using indexes_param [OF store_ok_indexes [OF assms], of "(as_u16 k, a, i)" e]
    index_filter_stored [OF assms, of e since until]
  by (auto simp: internal_query_param_replaceable_def split: option.split)

lemma generic_query_eq:
  assumes "store_ok x s"
  shows "internal_generic_query s f = [e \<leftarrow> ms_events s. match_event f e match_all]"
  unfolding internal_generic_query_def
  using assms by (intro filter_cong refl) (auto simp: store_ok_def)

definition is_param_pattern :: "query_pattern \<Rightarrow> bool" where
  "is_param_pattern p = (case p of ParamReplaceable _ _ _ _ _ \<Rightarrow> True | _ \<Rightarrow> False)"

lemma set_head_simps [simp]:
  "set_head None = (0, None)" "set_head (Some []) = (0, None)"
  "set_head (Some (a # as)) = (Suc (length as), Some a)"
  by (simp_all add: set_head_def)

lemma set_head_cases:
  obtains (none) "set_head s = (0, None)" "s = None \<or> s = Some []"
    | (some) a as where "set_head s = (Suc (length as), Some a)" "s = Some (a # as)"
proof (cases s)
  case (Some xs)
  then show ?thesis using that by (cases xs) auto
qed (use that in simp)

text \<open>The pattern of a filter, when it is not the generic one.\<close>

lemma pattern_Author:
  assumes "query_pattern_from f = Author a since until"
  shows "since = fl_since f \<and> until = fl_until f \<and>
    (\<forall>e. match_event f e match_all \<longleftrightarrow> ev_pubkey e = a \<and> in_window since until e)"
  using assms
  by (cases rule: set_head_cases [of "fl_kinds f"]; cases rule: set_head_cases [of "fl_authors f"])
    (auto simp: query_pattern_from_def Let_def match_spec filter_spec_def set_condition_def
      in_window_def split: if_splits option.splits)

lemma pattern_KindAuthor:
  assumes "query_pattern_from f = KindAuthor k a since until"
  shows "since = fl_since f \<and> until = fl_until f \<and>
    (\<forall>e. match_event f e match_all \<longleftrightarrow>
       kind_eq (ev_kind e) k \<and> ev_pubkey e = a \<and> in_window since until e)"
  using assms
  by (cases rule: set_head_cases [of "fl_kinds f"]; cases rule: set_head_cases [of "fl_authors f"])
    (auto simp: query_pattern_from_def Let_def match_spec filter_spec_def set_condition_def
      kind_eq_def in_window_def split: if_splits option.splits)

lemma pattern_Generic: "query_pattern_from f = Generic g \<Longrightarrow> g = f"
  by (auto simp: query_pattern_from_def Let_def split: option.splits if_splits)

lemma pattern_Param:
  assumes "query_pattern_from f = ParamReplaceable k a i since until"
  shows "since = fl_since f \<and> until = fl_until f \<and> is_addressable k \<and> fl_kinds f = Some [k] \<and>
    fl_authors f = Some [a] \<and> (fl_ids f = None \<or> fl_ids f = Some []) \<and> fl_search f = None \<and>
    (\<exists>vs. btm_get slt_d (fl_generic_tags f) = Some (i # vs))"
  using assms
  by (cases rule: set_head_cases [of "fl_kinds f"]; cases rule: set_head_cases [of "fl_authors f"])
    (auto simp: query_pattern_from_def Let_def split: if_splits option.splits list.splits)

text \<open>The reference: scan all events with the filter, newest first, and cut at the limit.\<close>

definition query_reference :: "memory_store \<Rightarrow> filter \<Rightarrow> event list" where
  "query_reference s f =
     (let evs = [e \<leftarrow> ms_events s. match_event f e match_all]
      in case fl_limit f of Some n \<Rightarrow> take n evs | None \<Rightarrow> evs)"

lemma pattern_query_eq:
  assumes "store_ok x s" and "\<not> is_param_pattern (query_pattern_from f)"
  shows "pattern_query s (query_pattern_from f) = [e \<leftarrow> ms_events s. match_event f e match_all]"
proof (cases "query_pattern_from f")
  case (Author a since until)
  then show ?thesis
    using pattern_Author [OF Author]
    by (simp add: pattern_query_def query_by_author_eq [OF assms(1)])
next
  case (KindAuthor k a since until)
  then show ?thesis
    using pattern_KindAuthor [OF KindAuthor]
    by (simp add: pattern_query_def query_by_kind_author_eq [OF assms(1)])
next
  case (ParamReplaceable k a i since until)
  then show ?thesis using assms(2) by (simp add: is_param_pattern_def)
next
  case (Generic g)
  then show ?thesis
    using pattern_Generic [OF Generic]
    by (simp add: pattern_query_def generic_query_eq [OF assms(1)])
qed

lemma pattern_query_sorted: "store_ok x s \<Longrightarrow> bts_ok event_key (pattern_query s p)"
  using indexes_sorted [OF store_ok_indexes]
  by (auto simp: pattern_query_def query_by_author_eq query_by_kind_author_eq generic_query_eq
      bts_filter_ok split: query_pattern.split option.split)

lemma pattern_query_stored: "store_ok x s \<Longrightarrow> set (pattern_query s p) \<subseteq> set (ms_events s)"
  by (auto simp: pattern_query_def query_by_author_eq query_by_kind_author_eq generic_query_eq
      query_param_eq dest!: sym [of "Some _"] split: query_pattern.splits option.splits)

lemma bts_ok_take: "bts_ok key xs \<Longrightarrow> bts_ok key (take n xs)"
  unfolding bts_ok_def by (rule sorted_wrt_take)

definition window_empty :: "filter \<Rightarrow> bool" where
  "window_empty f \<longleftrightarrow> (case (fl_since f, fl_until f) of (Some a, Some b) \<Rightarrow> a > b | _ \<Rightarrow> False)"

lemma window_empty_no_match: "window_empty f \<Longrightarrow> \<not> match_event f e match_all"
  by (auto simp: window_empty_def match_spec filter_spec_def split: option.splits)

lemma query_unfold:
  assumes "store_ok x s"
  shows "query s f =
    (if filter_is_empty f then ms_events s
     else if window_empty f then []
     else (let evs = pattern_query s (query_pattern_from f)
           in case fl_limit f of Some n \<Rightarrow> take n evs | None \<Rightarrow> evs))"
proof -
  have "bts_extend event_key [] (take n (pattern_query s p)) = take n (pattern_query s p)" for n p
    by (rule bts_extend_sorted) (rule bts_ok_take [OF pattern_query_sorted [OF assms]])
  moreover have "bts_extend event_key [] (pattern_query s p) = pattern_query s p" for p
    by (rule bts_extend_sorted) (rule pattern_query_sorted [OF assms])
  ultimately show ?thesis
    by (simp add: query_def internal_query_def window_empty_def Let_def split: option.split)
qed

lemma query_sorted: "store_ok x s \<Longrightarrow> bts_ok event_key (query s f)"
  using indexes_sorted [OF store_ok_indexes] pattern_query_sorted
  by (auto simp: query_unfold Let_def bts_ok_take split: option.split)

lemma query_stored: "store_ok x s \<Longrightarrow> set (query s f) \<subseteq> set (ms_events s)"
  using pattern_query_stored [of x s "query_pattern_from f"]
  by (auto simp: query_unfold Let_def split: option.splits dest: in_set_takeD)

lemma empty_filter_matches: "filter_is_empty f \<Longrightarrow> match_event f e match_all"
  by (simp add: filter_is_empty_def match_spec filter_spec_def filter_new_def set_condition_def)

lemma query_eq_reference:
  assumes "store_ok x s" and "\<not> is_param_pattern (query_pattern_from f)"
  shows "query s f = query_reference s f"
proof -
  have "filter_is_empty f \<Longrightarrow> fl_limit f = None"
    by (simp add: filter_is_empty_def filter_new_def)
  then show ?thesis
    using empty_filter_matches [of f] window_empty_no_match [of f]
    by (auto simp: query_unfold [OF assms(1)] query_reference_def pattern_query_eq [OF assms]
        filter_id_conv split: option.split)
qed

lemma count_eq: "count s f = length (query s f)"
  by (simp add: count_def query_def split: query_result.split)

section \<open>Deleting by filter\<close>

lemma discard_queried:
  assumes "store_ok x s" and "set evs \<subseteq> set (ms_events s)"
  shows "[e \<leftarrow> ms_events s. ev_id e \<notin> set (map ev_id evs)] = [e \<leftarrow> ms_events s. e \<notin> set evs]"
proof (rule filter_cong [OF refl])
  fix e assume e: "e \<in> set (ms_events s)"
  show "(ev_id e \<notin> set (map ev_id evs)) = (e \<notin> set evs)"
    using indexes_unique [OF store_ok_indexes [OF assms(1)] e] assms(2) by auto
qed

lemma memory_store_new_ok: "cap \<noteq> Some 0 \<Longrightarrow> store_ok x (memory_store_new cap opts)"
  by (auto simp: store_ok_def store_idx_def indexes_ok_def memory_store_new_def idx_get_def
      split: option.split)

lemma clear_ok: "store_ok x s \<Longrightarrow> store_ok x (clear s)"
  unfolding clear_def by (rule memory_store_new_ok) (simp add: store_ok_def store_idx_def)

lemma delete_result:
  assumes c: "cap_ok c" and s: "store_ok x s" and f: "\<not> filter_is_empty f"
  shows "store_ok x (delete x c f s) \<and>
    ms_events (delete x c f s) = [e \<leftarrow> ms_events s. e \<notin> set (query s f)] \<and>
    same_marks (delete x c f s) s"
proof -
  obtain evs where evs: "internal_query s f = QuerySet evs"
    using f by (cases "window_empty f") (simp_all add: internal_query_def window_empty_def Let_def)
  then have q: "query s f = evs" by (simp add: query_def)
  have d: "delete x c f s = discard_events x c (map ev_id evs) s" by (simp add: delete_def evs)
  have "store_idx x s" using s by (simp add: store_ok_def)
  note r = discard_events_result [OF c this, of "map ev_id evs"]
  have "set evs \<subseteq> set (ms_events s)" using query_stored [OF s, of f] q by simp
  then have "[e \<leftarrow> ms_events s. ev_id e \<notin> set (map ev_id evs)] = [e \<leftarrow> ms_events s. e \<notin> set evs]"
    by (rule discard_queried [OF s])
  then show ?thesis
    using r s unfolding d q by (auto simp: store_ok_def same_marks_def)
qed

lemma delete_ok: "cap_ok c \<Longrightarrow> store_ok x s \<Longrightarrow> store_ok x (delete x c f s)"
proof (cases "filter_is_empty f")
  case True
  assume "store_ok x s"
  then show ?thesis using True by (simp add: delete_def internal_query_def clear_ok)
next
  case False
  assume "cap_ok c" and "store_ok x s"
  then show ?thesis using delete_result False by blast
qed

end
