(* ===== verification/Memory_Indexing.thy ===== *)
theory Memory_Indexing
  imports Memory_Invariant
begin

text \<open>
  Indexing an event preserves the invariant of the memory store, branch by branch: the collection
  of the events to discard (replaceable, addressable, deletion, vanish request), the discarding
  and the insertion. \<open>collected_ok\<close> is what the collection promises to the rest.
\<close>

definition collected_ok :: "externals \<Rightarrow> memory_store \<Rightarrow> event \<Rightarrow> collected \<Rightarrow> bool" where
  "collected_ok x s e r \<longleftrightarrow>
     (case r of (s1, discard, status) \<Rightarrow>
        store_idx x s1 \<and> ms_options s1 = ms_options s \<and> ms_capacity s1 = ms_capacity s \<and>
        ms_deleted_ids s \<subseteq> ms_deleted_ids s1 \<and>
        ms_deleted_ids s1 \<subseteq> ms_deleted_ids s \<union> ev_id ` set (ms_events s) \<and>
        ms_vanished_public_keys s \<subseteq> ms_vanished_public_keys s1 \<and>
        (\<forall>a \<in> set (ms_events s1). ev_id a \<in> ms_deleted_ids s1 \<longrightarrow> ev_id a \<in> set discard) \<and>
        set (ms_events s1) \<subseteq> set (ms_events s) \<and>
        (status = Success \<longrightarrow> room_for x e [a \<leftarrow> ms_events s1. ev_id a \<notin> set discard]))"

lemma replaced_key: "has_event_been_replaced a e \<longleftrightarrow> event_key a < event_key e"
  by (auto simp: has_event_been_replaced_def event_key_less)

section \<open>Replaceable events\<close>

text \<open>The stored events of the kind number and author of an event.\<close>

definition rivals :: "memory_store \<Rightarrow> event \<Rightarrow> event list" where
  "rivals s e = [a \<leftarrow> ms_events s. kind_author_key a = kind_author_key e]"

lemma rivals_query:
  "store_ok x s \<Longrightarrow> internal_query_by_kind_and_author s (ev_kind e) (ev_pubkey e) None None = rivals s e"
  unfolding query_by_kind_author_eq rivals_def
  by (rule filter_cong [OF refl]) (auto simp: kind_author_key_def kind_eq_def in_window_def)

lemma replaceable_fold:
  "foldl (replaceable_step e) (d, st) evs =
     (rev (map ev_id [a \<leftarrow> evs. \<not> (event_key a < event_key e \<or> ev_id a = ev_id e)]) @ d,
      if \<exists>a \<in> set evs. event_key a < event_key e \<or> ev_id a = ev_id e
      then Rejected RReplaced else st)"
  by (induction evs arbitrary: d st) (auto simp: replaceable_step_def replaced_key)

lemma collect_replaceable_eq:
  assumes "store_ok x s" and "ms_ids s (ev_id e) = None"
  shows "collect_replaceable s e =
    (s, rev (map ev_id [a \<leftarrow> rivals s e. \<not> event_key a < event_key e]),
     if \<exists>a \<in> set (rivals s e). event_key a < event_key e then Rejected RReplaced else Success)"
proof -
  have "\<forall>a \<in> set (rivals s e). ev_id a \<noteq> ev_id e"
    using assms(2) indexes_ids_None [OF store_ok_indexes [OF assms(1)]] by (auto simp: rivals_def)
  then have "[a \<leftarrow> rivals s e. \<not> (event_key a < event_key e \<or> ev_id a = ev_id e)] =
      [a \<leftarrow> rivals s e. \<not> event_key a < event_key e]"
    and "(\<exists>a \<in> set (rivals s e). event_key a < event_key e \<or> ev_id a = ev_id e) =
      (\<exists>a \<in> set (rivals s e). event_key a < event_key e)"
    by (auto intro: filter_cong)
  then show ?thesis
    by (simp add: collect_replaceable_def rivals_query [OF assms(1)] replaceable_fold)
qed

lemma collect_replaceable_ok:
  assumes s: "store_ok x s" and new: "ms_ids s (ev_id e) = None" and k: "is_replaceable (ev_kind e)"
  shows "collected_ok x s e (collect_replaceable s e)"
proof -
  have idx: "store_idx x s" and del: "\<forall>a \<in> set (ms_events s). ev_id a \<notin> ms_deleted_ids s"
    using s by (simp_all add: store_ok_def)
  have ne: "\<forall>a \<in> set (ms_events s). ev_id a \<noteq> ev_id e"
    using new indexes_ids_None [OF store_ok_indexes [OF s]] by blast
  have p: "param_key x e = None"
    using replaceable_not_addressable [OF k] by (simp add: param_key_def)
  have "room_for x e [a \<leftarrow> ms_events s. ev_id a \<notin> ev_id ` {a \<in> set (rivals s e). \<not> event_key a < event_key e}]"
    if "\<not> (\<exists>a \<in> set (rivals s e). event_key a < event_key e)"
    using that ne p by (auto simp: room_for_def rivals_def)
  then show ?thesis
    unfolding collect_replaceable_eq [OF s new] collected_ok_def using idx del by auto
qed

section \<open>Addressable events\<close>

lemma collect_addressable_ok:
  assumes s: "store_ok x s" and new: "ms_ids s (ev_id e) = None"
    and k: "is_addressable (ev_kind e)"
  shows "collected_ok x s e (collect_addressable x s e)"
proof (cases "tags_identifier x (ev_tags e)")
  case None
  then show ?thesis
    using s by (simp add: collect_addressable_def collected_ok_def store_ok_def)
next
  case (Some i)
  have idx: "store_idx x s" and del: "\<forall>a \<in> set (ms_events s). ev_id a \<notin> ms_deleted_ids s"
    using s by (simp_all add: store_ok_def)
  have ne: "\<forall>a \<in> set (ms_events s). ev_id a \<noteq> ev_id e"
    using new indexes_ids_None [OF store_ok_indexes [OF s]] by blast
  have p: "param_key x e = Some (as_u16 (ev_kind e), ev_pubkey e, i)"
    using Some k by (simp add: param_key_def)
  have nr: "\<not> is_replaceable (ev_kind e)" using k by (rule addressable_not_replaceable)
  note q = query_param_eq [OF s, of "ev_kind e" "ev_pubkey e" i None None]
  show ?thesis
  proof (cases "internal_query_param_replaceable s (ev_kind e) (ev_pubkey e) i None None")
    case none: None
    have "\<forall>a \<in> set (ms_events s). param_key x a \<noteq> param_key x e"
    proof (intro ballI notI)
      fix a assume "a \<in> set (ms_events s)" and "param_key x a = param_key x e"
      then show False using q [of a] none k p by (simp add: in_window_def)
    qed
    then have "room_for x e (ms_events s)" using ne nr by (auto simp: room_for_def)
    then show ?thesis
      using Some none idx del by (simp add: collect_addressable_def collected_ok_def Let_def)
  next
    case (Some ev)
    have ev: "ev \<in> set (ms_events s)" "param_key x ev = param_key x e"
      using q [of ev] Some p by auto
    have "\<forall>a \<in> set (ms_events s). ev_id a \<noteq> ev_id ev \<longrightarrow> param_key x a \<noteq> param_key x e"
      using indexes_param_unique [OF store_ok_indexes [OF s] _ ev(1)] ev(2) p by metis
    then have "room_for x e [a \<leftarrow> ms_events s. ev_id a \<noteq> ev_id ev]"
      using ne nr by (auto simp: room_for_def)
    then show ?thesis
      using Some \<open>tags_identifier x (ev_tags e) = Some i\<close> idx del
      by (simp add: collect_addressable_def collected_ok_def Let_def)
  qed
qed

section \<open>Deletion events\<close>

text \<open>
  What the two loops of a deletion keep: only the tombstones of the store change, and every stored
  event that is marked as deleted is to be discarded.
\<close>

definition same_events :: "memory_store \<Rightarrow> memory_store \<Rightarrow> bool" where
  "same_events t s \<longleftrightarrow>
     ms_options t = ms_options s \<and> ms_capacity t = ms_capacity s \<and> ms_events t = ms_events s \<and>
     ms_ids t = ms_ids s \<and> ms_author_index t = ms_author_index s \<and>
     ms_kind_author_index t = ms_kind_author_index s \<and>
     ms_param_replaceable_index t = ms_param_replaceable_index s \<and>
     ms_vanished_public_keys t = ms_vanished_public_keys s"

text \<open>The tombstones of coordinates never get older.\<close>

definition coordinates_grow :: "memory_store \<Rightarrow> memory_store \<Rightarrow> bool" where
  "coordinates_grow s t \<longleftrightarrow>
     (\<forall>k ts. ms_deleted_coordinates s k = Some ts \<longrightarrow>
        (\<exists>ts'. ms_deleted_coordinates t k = Some ts' \<and> ts \<le> ts'))"

definition deletion_inv :: "memory_store \<Rightarrow> event \<Rightarrow> collected \<Rightarrow> bool" where
  "deletion_inv s e r \<longleftrightarrow>
     (case r of (s1, discard, status) \<Rightarrow>
        same_events s1 s \<and> ms_deleted_ids s \<subseteq> ms_deleted_ids s1 \<and>
        ms_deleted_ids s1 \<subseteq> ms_deleted_ids s \<union> ev_id ` set (ms_events s) \<and> coordinates_grow s s1 \<and>
        (\<forall>a \<in> set (ms_events s). ev_id a \<in> ms_deleted_ids s1 \<longrightarrow> ev_id a \<in> set discard) \<and>
        (\<forall>a \<in> set (ms_events s). ev_id a \<in> set discard \<longrightarrow>
           ev_pubkey a = ev_pubkey e \<and> ev_created_at a \<le> ev_created_at e))"

lemma coordinates_grow_refl [simp]: "coordinates_grow s s"
  by (auto simp: coordinates_grow_def)

lemma coordinates_grow_trans:
  "coordinates_grow s t \<Longrightarrow> coordinates_grow t u \<Longrightarrow> coordinates_grow s u"
  unfolding coordinates_grow_def by (meson le_trans)

lemma deletion_inv_start: "store_ok x s \<Longrightarrow> deletion_inv s e (s, [], Success)"
  by (simp add: deletion_inv_def same_events_def store_ok_def)

lemma same_events_indexes: "same_events t s \<Longrightarrow> indexes_ok x s evs \<Longrightarrow> indexes_ok x t evs"
  by (rule indexes_ok_cong) (simp_all add: same_events_def)

lemma delete_ids_loop_inv:
  assumes s: "store_ok x s"
  shows "deletion_inv s e r \<Longrightarrow> deletion_inv s e (delete_ids_loop e is r)"
proof (induction e "is" r rule: delete_ids_loop.induct)
  case (1 e acc)
  then show ?case by simp
next
  case (2 e i "is" s1 discard status)
  then have ids: "ms_ids s1 = ms_ids s" by (simp add: deletion_inv_def same_events_def)
  show ?case
  proof (cases "ms_ids s i")
    case None
    then show ?thesis using 2 ids by (simp add: deletion_inv_def)
  next
    case (Some ev)
    then have ev: "ev \<in> set (ms_events s)" "ev_id ev = i"
      using indexes_ids [OF store_ok_indexes [OF s], of i ev] by auto
    have uniq: "a = ev" if "a \<in> set (ms_events s)" and "ev_id a = ev_id ev" for a
      using indexes_unique [OF store_ok_indexes [OF s] that(1) ev(1) that(2)] .
    let ?s2 = "s1\<lparr>ms_deleted_ids := insert (ev_id ev) (ms_deleted_ids s1)\<rparr>"
    have "deletion_inv s e (?s2, ev_id ev # discard, status)"
      if "ev_pubkey ev = ev_pubkey e" and "ev_created_at ev \<le> ev_created_at e"
      using "2.prems" that unfolding deletion_inv_def same_events_def coordinates_grow_def
      by (simp add: ev(1)) (blast dest: uniq)
    moreover have "deletion_inv s e (s1, discard, Rejected RInvalidDelete)"
      using "2.prems" by (simp add: deletion_inv_def)
    ultimately show ?thesis using 2 ids Some by simp
  qed
qed

lemma mark_coordinate_grow: "coordinates_grow s (mark_coordinate c ts s)"
  by (auto simp: coordinates_grow_def mark_coordinate_def)

lemma coordinate_events_authority:
  assumes s: "store_ok x s" and t: "same_events t s" and c: "co_public_key c = ev_pubkey e"
    and a: "a \<in> set (ms_events s)" and i: "ev_id a \<in> set (coordinate_events t c (ev_created_at e))"
  shows "ev_pubkey a = ev_pubkey e \<and> ev_created_at a \<le> ev_created_at e"
proof -
  have idx: "indexes_ok x t (ms_events s)"
    using same_events_indexes [OF t store_ok_indexes [OF s]] .
  have "\<exists>b \<in> set (ms_events s). ev_id b = ev_id a \<and> ev_pubkey b = ev_pubkey e \<and>
      ev_created_at b \<le> ev_created_at e"
  proof (cases "co_identifier c = []")
    case False
    then obtain b where b: "ev_id b = ev_id a"
      "internal_query_param_replaceable t (co_kind c) (co_public_key c) (co_identifier c) None
         (Some (ev_created_at e)) = Some b"
      using i by (auto simp: coordinate_events_def split: option.splits)
    then have "ms_param_replaceable_index t (as_u16 (co_kind c), co_public_key c, co_identifier c) =
        Some b" and "index_filter t None (Some (ev_created_at e)) b"
      by (auto simp: internal_query_param_replaceable_def split: if_splits option.splits)
    then have "b \<in> set (ms_events s)" and "param_key x b =
        Some (as_u16 (co_kind c), co_public_key c, co_identifier c)"
      and "ev_created_at b \<le> ev_created_at e"
      using indexes_param [OF idx] by (auto simp: index_filter_def split: if_splits)
    then show ?thesis using b(1) c by (auto simp: param_key_def split: if_splits)
  next
    case True
    then obtain b where b: "ev_id b = ev_id a" "index_filter t None (Some (ev_created_at e)) b"
      "b \<in> set (idx_get (ms_kind_author_index t) (as_u16 (co_kind c), co_public_key c))"
      using i
      by (auto simp: coordinate_events_def internal_query_by_kind_and_author_def idx_query)
    then show ?thesis
      using c by (auto simp: indexes_kind_author [OF idx] kind_author_key_def index_filter_def
          split: if_splits)
  qed
  then show ?thesis
    using indexes_unique [OF store_ok_indexes [OF s] a] by metis
qed

lemma delete_coordinates_loop_inv:
  assumes s: "store_ok x s"
  shows "deletion_inv s e r \<Longrightarrow> deletion_inv s e (delete_coordinates_loop e cs r)"
proof (induction e cs r rule: delete_coordinates_loop.induct)
  case (1 e acc)
  then show ?case by simp
next
  case (2 e c cs s1 discard status)
  let ?s2 = "mark_coordinate c (ev_created_at e) s1"
  show ?case
  proof (cases "co_public_key c = ev_pubkey e")
    case False
    then show ?thesis using "2.prems" by (simp add: deletion_inv_def)
  next
    case True
    have t: "same_events ?s2 s"
      using "2.prems" by (simp add: deletion_inv_def same_events_def mark_coordinate_def)
    have d: "ms_deleted_ids ?s2 = ms_deleted_ids s1" by (simp add: mark_coordinate_def)
    have g: "coordinates_grow s ?s2"
      using "2.prems" mark_coordinate_grow [of s1]
      by (auto simp: deletion_inv_def intro: coordinates_grow_trans)
    have "deletion_inv s e (?s2, coordinate_events ?s2 c (ev_created_at e) @ discard, status)"
      using "2.prems" t d g coordinate_events_authority [OF s t True]
      by (auto simp: deletion_inv_def)
    then show ?thesis using "2.IH" True by (simp add: Let_def)
  qed
qed

lemma collect_deletion_inv: "store_ok x s \<Longrightarrow> deletion_inv s e (collect_deletion x s e)"
  unfolding collect_deletion_def
  by (intro delete_coordinates_loop_inv delete_ids_loop_inv deletion_inv_start)

lemma deletion_inv_collected:
  assumes s: "store_ok x s" and new: "ms_ids s (ev_id e) = None"
    and k: "\<not> is_replaceable (ev_kind e)" "\<not> is_addressable (ev_kind e)"
    and inv: "deletion_inv s e r"
  shows "collected_ok x s e r"
proof -
  obtain s1 d st where r: "r = (s1, d, st)" by (cases r)
  have same: "same_events s1 s" using inv by (simp add: r deletion_inv_def)
  have "indexes_ok x s1 (ms_events s1)"
    using same_events_indexes [OF same store_ok_indexes [OF s]] same by (simp add: same_events_def)
  moreover have "room_for x e [a \<leftarrow> ms_events s. ev_id a \<notin> set d]"
    using new k indexes_ids_None [OF store_ok_indexes [OF s]]
    by (auto simp: room_for_def param_key_def)
  ultimately show ?thesis
    using s same inv
    by (auto simp: r collected_ok_def deletion_inv_def store_ok_def store_idx_def same_events_def
        split: option.splits)
qed

section \<open>Vanish requests\<close>

lemma delete_match:
  assumes "cap_ok c" and s: "store_ok x s" and "\<not> filter_is_empty f"
    and "\<not> is_param_pattern (query_pattern_from f)" and "fl_limit f = None"
  shows "store_ok x (delete x c f s) \<and>
    ms_events (delete x c f s) = [e \<leftarrow> ms_events s. \<not> match_event f e match_all] \<and>
    same_marks (delete x c f s) s"
proof -
  have "query s f = [e \<leftarrow> ms_events s. match_event f e match_all]"
    using query_eq_reference [OF s assms(4)] assms(5) by (simp add: query_reference_def Let_def)
  moreover have "[e \<leftarrow> ms_events s. e \<notin> set [e \<leftarrow> ms_events s. match_event f e match_all]] =
      [e \<leftarrow> ms_events s. \<not> match_event f e match_all]"
    by (rule filter_cong [OF refl]) simp
  ultimately show ?thesis using delete_result [OF assms(1-3)] by simp
qed

definition gift_wrap_filter :: "externals \<Rightarrow> public_key \<Rightarrow> filter" where
  "gift_wrap_filter x pk = filter_pubkey x pk (filter_kind GiftWrap filter_new)"

lemma author_filter:
  "\<not> filter_is_empty (filter_author pk filter_new)"
  "\<not> is_param_pattern (query_pattern_from (filter_author pk filter_new))"
  "fl_limit (filter_author pk filter_new) = None"
  "match_event (filter_author pk filter_new) e match_all \<longleftrightarrow> ev_pubkey e = pk"
  by (auto simp: filter_is_empty_def filter_author_def filter_authors_def filter_new_def
      extend_or_collect_def bts_extend_def query_pattern_from_def is_param_pattern_def
      match_spec filter_spec_def set_condition_def Let_def)

lemma gift_wrap_filter:
  "\<not> filter_is_empty (gift_wrap_filter x pk)"
  "\<not> is_param_pattern (query_pattern_from (gift_wrap_filter x pk))"
  "fl_limit (gift_wrap_filter x pk) = None"
  "match_event (gift_wrap_filter x pk) e match_all \<longleftrightarrow>
     kind_eq (ev_kind e) GiftWrap \<and>
     (\<exists>t \<in> set (ev_tags e). tag_single_letter t = Some slt_p \<and>
        tag_content t = Some (public_key_to_hex x pk))"
  by (auto simp: gift_wrap_filter_def filter_is_empty_def filter_pubkey_def filter_custom_tag_def
      filter_custom_tags_def filter_kind_def filter_kinds_def filter_new_def
      extend_or_collect_def bts_extend_def query_pattern_from_def is_param_pattern_def
      match_spec filter_spec_def set_condition_def kind_eq_def Let_def)

lemma vanish_result:
  assumes c: "cap_ok c" and s: "store_ok x s"
  shows "store_ok x (handle_request_to_vanish x c pk s) \<and>
    ms_events (handle_request_to_vanish x c pk s) =
      [e \<leftarrow> ms_events s. ev_pubkey e \<noteq> pk \<and> \<not> match_event (gift_wrap_filter x pk) e match_all] \<and>
    same_marks (handle_request_to_vanish x c pk s)
      (s\<lparr>ms_vanished_public_keys := insert pk (ms_vanished_public_keys s)\<rparr>)"
proof -
  let ?s1 = "s\<lparr>ms_vanished_public_keys := insert pk (ms_vanished_public_keys s)\<rparr>"
  let ?s2 = "delete x c (filter_author pk filter_new) ?s1"
  have s1: "store_ok x ?s1"
    using s by (simp add: store_ok_def store_idx_def indexes_ok_def split: option.splits)
  have s2: "store_ok x ?s2 \<and> ms_events ?s2 = [e \<leftarrow> ms_events s. ev_pubkey e \<noteq> pk] \<and> same_marks ?s2 ?s1"
    using delete_match [OF c s1 author_filter(1-3)] by (simp add: author_filter(4))
  then have s3: "store_ok x (delete x c (gift_wrap_filter x pk) ?s2) \<and>
      ms_events (delete x c (gift_wrap_filter x pk) ?s2) =
        [e \<leftarrow> ms_events ?s2. \<not> match_event (gift_wrap_filter x pk) e match_all] \<and>
      same_marks (delete x c (gift_wrap_filter x pk) ?s2) ?s2"
    by (intro delete_match c gift_wrap_filter(1-3)) simp
  have "handle_request_to_vanish x c pk s = delete x c (gift_wrap_filter x pk) ?s2"
    by (simp add: handle_request_to_vanish_def gift_wrap_filter_def Let_def)
  then show ?thesis
    using s2 s3 by (auto intro: same_marks_trans)
qed

section \<open>Indexing\<close>

lemma collect_discards_ok:
  assumes c: "cap_ok c" and s: "store_ok x s" and new: "ms_ids s (ev_id e) = None"
  shows "collected_ok x s e (collect_discards x c s e)"
proof -
  have ne: "\<forall>a \<in> set (ms_events s). ev_id a \<noteq> ev_id e"
    using new indexes_ids_None [OF store_ok_indexes [OF s]] by blast
  consider "is_replaceable (ev_kind e)" | "is_addressable (ev_kind e)"
    | "\<not> is_replaceable (ev_kind e)" "\<not> is_addressable (ev_kind e)" by blast
  then show ?thesis
  proof cases
    case 1
    then show ?thesis using collect_replaceable_ok [OF s new] by (simp add: collect_discards_def)
  next
    case 2
    then show ?thesis
      using collect_addressable_ok [OF s new] addressable_not_replaceable
      by (simp add: collect_discards_def)
  next
    case 3
    then have room: "room_for x e [a \<leftarrow> ms_events s. P a]" for P
      using ne by (auto simp: room_for_def param_key_def)
    have "collected_ok x s e (handle_request_to_vanish x c (ev_pubkey e) s, [], Success)"
      using vanish_result [OF c s, of "ev_pubkey e"] room
      by (auto simp: collected_ok_def store_ok_def same_marks_def)
    moreover have "collected_ok x s e (s, [], Success)"
      using s room [of "\<lambda>a. True"] by (simp add: collected_ok_def store_ok_def)
    moreover have "collected_ok x s e (collect_deletion x s e)"
      using deletion_inv_collected [OF s new 3 collect_deletion_inv [OF s]] .
    ultimately show ?thesis using 3 by (simp add: collect_discards_def)
  qed
qed

text \<open>
  The result of indexing an event that passes the first checks, with the collected part as a
  parameter: the events that are left, and the new event when it is stored.
\<close>

lemma internal_index_event_result:
  assumes c: "cap_ok c" and s: "store_ok x s" and r: "rejection x s e now = None"
    and col: "collect_discards x c s e = (s1, d, status)"
    and t: "t = fst (internal_index_event x c e now s)"
  shows "store_ok x t \<and> snd (internal_index_event x c e now s) = status \<and> same_marks t s1 \<and>
    (if status = Success
     then inserted_events (ms_capacity s) e [a \<leftarrow> ms_events s1. ev_id a \<notin> set d] (ms_events t)
     else ms_events t = [a \<leftarrow> ms_events s1. ev_id a \<notin> set d])"
proof -
  have new: "ms_ids s (ev_id e) = None" and del: "ev_id e \<notin> ms_deleted_ids s"
    using r by (auto simp: rejection_def split: if_splits)
  have ok: "collected_ok x s e (s1, d, status)"
    using collect_discards_ok [OF c s new] col by simp
  let ?s2 = "discard_events x c d s1"
  have s1: "store_idx x s1" using ok by (simp add: collected_ok_def)
  note s2 = discard_events_result [OF c s1, of d]
  have dis: "\<forall>a \<in> set (ms_events ?s2). ev_id a \<notin> ms_deleted_ids ?s2"
    using s2 ok by (auto simp: collected_ok_def same_marks_def)
  have "\<forall>a \<in> set (ms_events s). ev_id a \<noteq> ev_id e"
    using indexes_ids_None [OF store_ok_indexes [OF s], of "ev_id e"] new by simp
  then have "ev_id e \<notin> ev_id ` set (ms_events s)" by force
  moreover have "ms_deleted_ids ?s2 \<subseteq> ms_deleted_ids s \<union> ev_id ` set (ms_events s)"
    using s2 ok by (simp add: collected_ok_def same_marks_def)
  ultimately have ev: "ev_id e \<notin> ms_deleted_ids ?s2" using del by blast
  show ?thesis
  proof (cases "status = Success")
    case False
    then have res: "internal_index_event x c e now s = (?s2, status)"
      by (simp add: internal_index_event_def r col is_success_def)
    then show ?thesis using False s2 dis t by (auto simp: store_ok_def)
  next
    case True
    then have res: "internal_index_event x c e now s = (insert_event x c e ?s2, status)"
      by (simp add: internal_index_event_def r col is_success_def)
    have room: "room_for x e (ms_events ?s2)" using ok True s2 by (simp add: collected_ok_def)
    note i = insert_event_result [OF c conjunct1 [OF s2] room]
    have sub: "set (ms_events (insert_event x c e ?s2)) \<subseteq> insert e (set (ms_events ?s2))"
      using i bts_insert_subset [of event_key e "ms_events ?s2"]
      by (auto simp: inserted_events_def dest: in_set_takeD split: option.splits)
    have "\<forall>a \<in> set (ms_events (insert_event x c e ?s2)).
        ev_id a \<notin> ms_deleted_ids (insert_event x c e ?s2)"
      using sub dis ev i by (auto simp: same_marks_def)
    moreover have "ms_capacity ?s2 = ms_capacity s"
      using s2 ok by (simp add: collected_ok_def same_marks_def)
    ultimately show ?thesis
      using True res i s2 t by (auto simp: store_ok_def intro: same_marks_trans)
  qed
qed

lemma index_event_ok:
  assumes "cap_ok c" and "store_ok x s"
  shows "store_ok x (fst (index_event x c e now s))"
proof (cases "is_ephemeral (ev_kind e) \<or> rejection x s e now \<noteq> None")
  case True
  then show ?thesis
    using assms(2) by (auto simp: index_event_def internal_index_event_def)
next
  case False
  obtain s1 d st where "collect_discards x c s e = (s1, d, st)"
    by (cases "collect_discards x c s e") auto
  from internal_index_event_result [OF assms _ this] False show ?thesis
    by (simp add: index_event_def)
qed

end
