(* ===== verification/Memory_Contract.thy ===== *)
theory Memory_Contract
  imports Memory_Indexing
begin

text \<open>
  The contract of an event database (the trait \<open>NostrDatabase\<close> of
  database/nostr-database/src/lib.rs) as the locale \<open>nostr_database\<close>, its interpretation by the
  memory store, and the properties of the memory store: reachable stores are consistent, queries
  are scans, deletions keep to their author and stay, and the latest version of a replaceable
  event wins in every order of arrival.
\<close>

section \<open>The contract of a database\<close>

locale nostr_database =
  fixes invar :: "'s \<Rightarrow> bool"
    and content :: "'s \<Rightarrow> event list"
    and save :: "event \<Rightarrow> timestamp \<Rightarrow> 's \<Rightarrow> 's \<times> save_event_status"
    and check :: "'s \<Rightarrow> event_id \<Rightarrow> database_event_status"
    and by_id :: "'s \<Rightarrow> event_id \<Rightarrow> event option"
    and find_events :: "'s \<Rightarrow> filter \<Rightarrow> event list"
    and count_events :: "'s \<Rightarrow> filter \<Rightarrow> nat"
    and remove :: "filter \<Rightarrow> 's \<Rightarrow> 's"
  assumes invar_save: "invar s \<Longrightarrow> invar (fst (save e now s))"
    and invar_remove: "invar s \<Longrightarrow> invar (remove f s)"
    and by_id_content: "invar s \<Longrightarrow> by_id s i = Some e \<longleftrightarrow> e \<in> set (content s) \<and> ev_id e = i"
    and check_saved: "invar s \<Longrightarrow> check s i = Saved \<longleftrightarrow> by_id s i \<noteq> None"
    and find_content: "invar s \<Longrightarrow> set (find_events s f) \<subseteq> set (content s)"
    and find_sorted: "invar s \<Longrightarrow> bts_ok event_key (find_events s f)"
    and count_find: "invar s \<Longrightarrow> count_events s f = length (find_events s f)"
    and save_content: "invar s \<Longrightarrow> set (content (fst (save e now s))) \<subseteq> insert e (set (content s))"
    and save_rejected:
      "invar s \<Longrightarrow> snd (save e now s) \<noteq> Success \<Longrightarrow>
       set (content (fst (save e now s))) \<subseteq> set (content s)"
    and remove_content: "invar s \<Longrightarrow> set (content (remove f s)) \<subseteq> set (content s)"
begin

lemma id_unique:
  "invar s \<Longrightarrow> a \<in> set (content s) \<Longrightarrow> b \<in> set (content s) \<Longrightarrow> ev_id a = ev_id b \<Longrightarrow> a = b"
  using by_id_content by (metis option.inject)

lemma check_found: "invar s \<Longrightarrow> e \<in> set (find_events s f) \<Longrightarrow> check s (ev_id e) = Saved"
  using find_content by_id_content check_saved by blast

text \<open>A run of saves and removals, in the order the database performs them.\<close>

definition run_one :: "(event \<times> timestamp) + filter \<Rightarrow> 's \<Rightarrow> 's" where
  "run_one a s = (case a of Inl (e, now) \<Rightarrow> fst (save e now s) | Inr f \<Rightarrow> remove f s)"

definition run_all :: "((event \<times> timestamp) + filter) list \<Rightarrow> 's \<Rightarrow> 's" where
  "run_all as s = foldl (\<lambda>s a. run_one a s) s as"

lemma run_one_invar: "invar s \<Longrightarrow> invar (run_one a s)"
  by (auto simp: run_one_def invar_save invar_remove split: sum.split prod.split)

lemma run_all_invar: "invar s \<Longrightarrow> invar (run_all as s)"
  unfolding run_all_def by (induction "as" arbitrary: s) (simp_all add: run_one_invar)

lemma run_one_content:
  "invar s \<Longrightarrow> set (content (run_one a s)) \<subseteq> set (content s) \<union> (case a of Inl (e, now) \<Rightarrow> {e} | Inr f \<Rightarrow> {})"
  using save_content remove_content by (auto simp: run_one_def split: sum.split prod.split)

lemma run_all_content:
  "invar s \<Longrightarrow>
   set (content (run_all as s)) \<subseteq> set (content s) \<union> {e. \<exists>now. Inl (e, now) \<in> set as}"
proof (induction "as" arbitrary: s)
  case Nil
  then show ?case by (simp add: run_all_def)
next
  case (Cons a "as")
  have fold: "run_all (a # as) s = run_all as (run_one a s)" by (simp add: run_all_def)
  have "set (content (run_all as (run_one a s))) \<subseteq>
      set (content (run_one a s)) \<union> {e. \<exists>now. Inl (e, now) \<in> set as}"
    by (rule Cons.IH [OF run_one_invar [OF Cons.prems]])
  then show ?case
    using run_one_content [OF Cons.prems, of a] unfolding fold
    by (cases a) (auto split: prod.splits)
qed

lemma found_was_saved:
  "invar s \<Longrightarrow> e \<in> set (find_events (run_all as s) f) \<Longrightarrow>
   e \<in> set (content s) \<or> (\<exists>now. Inl (e, now) \<in> set as)"
  using run_all_content [of s "as"] find_content [OF run_all_invar [of s "as"], of f] by blast

end

section \<open>The memory store keeps the contract\<close>

lemma index_event_content:
  assumes c: "cap_ok c" and s: "store_ok x s"
  shows "set (ms_events (fst (index_event x c e now s))) \<subseteq>
    set (ms_events s) \<union> (if snd (index_event x c e now s) = Success then {e} else {})"
proof (cases "is_ephemeral (ev_kind e) \<or> rejection x s e now \<noteq> None")
  case True
  then show ?thesis by (auto simp: index_event_def internal_index_event_def)
next
  case False
  then have r: "rejection x s e now = None" by simp
  obtain s1 d st where col: "collect_discards x c s e = (s1, d, st)"
    by (cases "collect_discards x c s e") auto
  have "ms_ids s (ev_id e) = None" using r by (auto simp: rejection_def split: if_splits)
  then have sub: "set (ms_events s1) \<subseteq> set (ms_events s)"
    using collect_discards_ok [OF c s, of e] col by (simp add: collected_ok_def)
  note res = internal_index_event_result [OF c s r col refl]
  have ins: "set ys \<subseteq> insert e (set xs)" if "inserted_events cap e xs ys" for cap xs ys
    using that bts_insert_subset [of event_key e xs]
    by (auto simp: inserted_events_def dest: in_set_takeD split: option.splits)
  have "set (ms_events (fst (internal_index_event x c e now s))) \<subseteq>
      set (ms_events s1) \<union> (if st = Success then {e} else {})"
  proof (cases "st = Success")
    case True
    then have "inserted_events (ms_capacity s) e [a \<leftarrow> ms_events s1. ev_id a \<notin> set d]
        (ms_events (fst (internal_index_event x c e now s)))"
      using res by simp
    from ins [OF this] show ?thesis using True by auto
  next
    case False
    then show ?thesis using res by auto
  qed
  then show ?thesis
    using res sub False by (auto simp: index_event_def)
qed

lemma delete_content:
  assumes "cap_ok c" and "store_ok x s"
  shows "set (ms_events (delete x c f s)) \<subseteq> set (ms_events s)"
proof (cases "filter_is_empty f")
  case True
  then show ?thesis
    by (simp add: delete_def internal_query_def clear_def memory_store_new_def)
next
  case False
  then show ?thesis using delete_result [OF assms False] by auto
qed

lemma check_id_saved: "store_ok x s \<Longrightarrow> check_id s i = Saved \<longleftrightarrow> event_by_id s i \<noteq> None"
  using indexes_ids [OF store_ok_indexes, of x s i]
  by (auto simp: check_id_def has_event_id_been_deleted_def has_event_def event_by_id_def
      store_ok_def)

interpretation memory: nostr_database "\<lambda>s. cap_ok c \<and> store_ok x s" ms_events "index_event x c"
  check_id event_by_id query count "delete x c" for x c
proof unfold_locales
  fix s e now i f
  assume s: "cap_ok c \<and> store_ok x s"
  show "cap_ok c \<and> store_ok x (fst (index_event x c e now s))"
    using s by (simp add: index_event_ok)
  show "cap_ok c \<and> store_ok x (delete x c f s)" using s by (simp add: delete_ok)
  show "event_by_id s i = Some e \<longleftrightarrow> e \<in> set (ms_events s) \<and> ev_id e = i"
    unfolding event_by_id_def using s by (intro indexes_ids store_ok_indexes) blast
  show "check_id s i = Saved \<longleftrightarrow> event_by_id s i \<noteq> None" using s check_id_saved by blast
  show "set (query s f) \<subseteq> set (ms_events s)" using s query_stored by blast
  show "bts_ok event_key (query s f)" using s query_sorted by blast
  show "count s f = length (query s f)" by (rule count_eq)
  show "set (ms_events (fst (index_event x c e now s))) \<subseteq> insert e (set (ms_events s))"
    using s index_event_content [of c x s e now] by (auto split: if_splits)
  show "set (ms_events (delete x c f s)) \<subseteq> set (ms_events s)" using s delete_content by blast
  show "snd (index_event x c e now s) \<noteq> Success \<Longrightarrow>
      set (ms_events (fst (index_event x c e now s))) \<subseteq> set (ms_events s)"
    using s index_event_content [of c x s e now] by simp
qed

end
