(* ===== verification/Memory_Properties.thy ===== *)
theory Memory_Properties
  imports Memory_Contract
begin

text \<open>
  The properties of the memory store, over runs of its operations: \<open>store_run\<close> performs saves
  (\<open>Inl\<close> an event with the time of the clock) and deletions (\<open>Inr\<close> a filter; the empty filter
  clears the store, as \<open>wipe\<close> does).
\<close>

section \<open>Runs\<close>

type_synonym store_op = "(event \<times> timestamp) + filter"

definition store_step :: "externals \<Rightarrow> cap_ops \<Rightarrow> store_op \<Rightarrow> memory_store \<Rightarrow> memory_store" where
  "store_step x c a s =
     (case a of Inl (e, now) \<Rightarrow> fst (index_event x c e now s) | Inr f \<Rightarrow> delete x c f s)"

definition store_run :: "externals \<Rightarrow> cap_ops \<Rightarrow> store_op list \<Rightarrow> memory_store \<Rightarrow> memory_store" where
  "store_run x c as s = foldl (\<lambda>s a. store_step x c a s) s as"

lemma store_run_simps [simp]:
  "store_run x c [] s = s"
  "store_run x c (a # as) s = store_run x c as (store_step x c a s)"
  by (simp_all add: store_run_def)

lemma store_run_locale:
  "store_run x c as s = nostr_database.run_all (index_event x c) (delete x c) as s"
  by (simp add: store_run_def store_step_def memory.run_all_def memory.run_one_def)

text \<open>A capped set for the witnesses: it inserts, and pops the last element over the capacity.\<close>

definition ref_cap :: cap_ops where
  "ref_cap =
     \<lparr>cap_insert = (\<lambda>cap e xs.
        if bts_contains event_key e xs then (False, None, xs)
        else (let full = bts_insert event_key e xs in
              case cap of
                None \<Rightarrow> (True, None, full)
              | Some m \<Rightarrow>
                  if length full \<le> m then (True, None, full)
                  else (True, Some (last full), bts_remove event_key (last full) full))),
      cap_remove = bts_remove event_key\<rparr>"

lemma ref_cap_ok [simp]: "cap_ok ref_cap"
  unfolding cap_ok_def
proof (intro conjI allI impI)
  fix e and xs :: "event list"
  assume ok: "bts_ok event_key xs"
  show "cap_remove ref_cap e xs = bts_remove event_key e xs" by (simp add: ref_cap_def)
next
  fix cap :: "nat option" and e and xs :: "event list"
  assume "cap \<noteq> Some 0" and ok: "bts_ok event_key xs"
  have "length (bts_remove event_key (last (bts_insert event_key e xs)) (bts_insert event_key e xs)) =
      length xs" if "\<not> bts_contains event_key e xs"
    using bts_remove_last [OF bts_insert_ok [OF ok], of e] length_bts_insert_new [OF that] by simp
  then show "cap_insert_ok cap e xs (cap_insert ref_cap cap e xs)"
    using length_bts_insert_new [of event_key e xs]
    by (auto simp: cap_insert_ok_def ref_cap_def Let_def split: option.split)
qed

definition ref_options :: memory_options where
  "ref_options = \<lparr>opt_process_nip09 = True, opt_process_nip62 = True, opt_relay_url = None\<rparr>"

definition ref_store :: memory_store where
  "ref_store =
     store_run ref_externals ref_cap [Inl (ref_note, 0), Inl (ref_article, 0)]
       (memory_store_new (Some 10) ref_options)"

lemma capacity_step:
  assumes c: "cap_ok c" and s: "store_ok x s"
  shows "ms_capacity (store_step x c a s) = ms_capacity s"
proof (cases a)
  case (Inl p)
  obtain e now where p: "p = (e, now)" by (cases p)
  show ?thesis
  proof (cases "is_ephemeral (ev_kind e) \<or> rejection x s e now \<noteq> None")
    case True
    then show ?thesis by (auto simp: Inl p store_step_def index_event_def internal_index_event_def)
  next
    case False
    obtain s1 d st where col: "collect_discards x c s e = (s1, d, st)"
      by (cases "collect_discards x c s e") auto
    have "ms_ids s (ev_id e) = None" using False by (auto simp: rejection_def split: if_splits)
    then have "ms_capacity s1 = ms_capacity s"
      using collect_discards_ok [OF c s, of e] col by (simp add: collected_ok_def)
    then show ?thesis
      using internal_index_event_result [OF c s _ col refl, of now] False
      by (simp add: Inl p store_step_def index_event_def same_marks_def)
  qed
next
  case (Inr f)
  then show ?thesis
    using delete_result [OF c s, of f]
    by (cases "filter_is_empty f") (auto simp: store_step_def delete_def internal_query_def
        clear_def memory_store_new_def same_marks_def)
qed

lemma store_step_ok: "cap_ok c \<Longrightarrow> store_ok x s \<Longrightarrow> store_ok x (store_step x c a s)"
  by (auto simp: store_step_def index_event_ok delete_ok split: sum.split prod.split)

lemma store_run_ok:
  "cap_ok c \<Longrightarrow> store_ok x s \<Longrightarrow>
   store_ok x (store_run x c as s) \<and> ms_capacity (store_run x c as s) = ms_capacity s"
  by (induction "as" arbitrary: s) (simp_all add: store_step_ok capacity_step)

lemma ref_store_ok [simp]: "store_ok ref_externals ref_store"
  unfolding ref_store_def
  by (rule conjunct1 [OF store_run_ok [OF ref_cap_ok memory_store_new_ok]]) simp

lemma ref_store_events: "ms_events ref_store = [ref_note, ref_article]"
  by code_simp

section \<open>Consistency and queries\<close>

text \<open>
  C1: In every store that a sequence of saves and deletions makes of an empty one, the indexes
  describe the sorted list of the stored events exactly: an id maps to the event with that id, the
  author and the kind-and-author index list the events of the key in the order of the store, an
  addressable event is the entry of its coordinate, no stored event has a tombstone, and the
  number of events is within the capacity.
\<close>

theorem memory_store_consistent:
  assumes "cap_ok c" and "cap \<noteq> Some 0" and "s = store_run x c ops (memory_store_new cap opts)"
  shows "store_ok x s \<and>
    (case cap of None \<Rightarrow> True | Some m \<Rightarrow> length (ms_events s) \<le> m)"
proof -
  have "store_ok x s \<and> ms_capacity s = cap"
    unfolding assms(3) using store_run_ok [OF assms(1) memory_store_new_ok [OF assms(2)]]
    by (simp add: memory_store_new_def)
  then show ?thesis by (auto simp: store_ok_def store_idx_def)
qed

lemma memory_store_consistent_witness:
  "store_ok ref_externals (store_run ref_externals ref_cap [Inl (ref_note, 0), Inr filter_new]
     (memory_store_new (Some 1) ref_options)) \<and>
   (case Some 1 of None \<Rightarrow> True
    | Some m \<Rightarrow> length (ms_events (store_run ref_externals ref_cap
        [Inl (ref_note, 0), Inr filter_new] (memory_store_new (Some 1) ref_options))) \<le> m)"
  by (rule memory_store_consistent [OF ref_cap_ok _ refl]) simp



text \<open>
  A query for one addressable kind, one author and a \<open>d\<close> tag is answered from the index of
  coordinates: it returns the stored event of that kind, author and first \<open>d\<close> value, if its time
  is in the window, and looks at no other condition of the filter. Further \<open>d\<close> values and further
  tag conditions of the filter are ignored, and an event that has the value in a second \<open>d\<close> tag
  is not found.
\<close>

lemma coordinate_query_result:
  assumes "store_ok x s" and "query_pattern_from f = ParamReplaceable k a i since until"
    and "fl_limit f = None" and "e \<in> set (ms_events s)"
  shows "e \<in> set (query s f) \<longleftrightarrow>
    param_key x e = Some (as_u16 k, a, i) \<and> in_window (fl_since f) (fl_until f) e"
proof -
  have p: "since = fl_since f" "until = fl_until f" "is_addressable k" "fl_kinds f = Some [k]"
    using pattern_Param [OF assms(2)] by blast+
  have ne: "\<not> filter_is_empty f" using p(4) by (auto simp: filter_is_empty_def filter_new_def)
  have w: "window_empty f \<Longrightarrow> \<not> in_window (fl_since f) (fl_until f) e"
    by (auto simp: window_empty_def in_window_def split: option.splits)
  have "e \<in> set (pattern_query s (query_pattern_from f)) \<longleftrightarrow>
      internal_query_param_replaceable s k a i since until = Some e"
    by (auto simp: assms(2) pattern_query_def split: option.split)
  then show ?thesis
    using query_param_eq [OF assms(1), of k a i since until e] w p(1-3) assms(3,4) ne
    by (auto simp: query_unfold [OF assms(1)])
qed

definition ref_bad_query :: filter where
  "ref_bad_query =
     filter_hashtags [''other'']
       (filter_identifier ''post'' (filter_author (ref_pk 2) (filter_kind (Named 30023) filter_new)))"

lemma coordinate_query_result_witness:
  "ref_article \<in> set (query ref_store ref_bad_query) \<and>
   \<not> match_event ref_bad_query ref_article match_all"
proof -
  have p: "query_pattern_from ref_bad_query =
      ParamReplaceable (Named 30023) (ref_pk 2) ''post'' None None"
    and n: "\<not> match_event ref_bad_query ref_article match_all"
    and l: "fl_limit ref_bad_query = None" "fl_since ref_bad_query = None"
      "fl_until ref_bad_query = None"
    and k: "param_key ref_externals ref_article = Some (30023, ref_pk 2, ''post'')"
    by code_simp+
  have "ref_article \<in> set (ms_events ref_store)" by (simp add: ref_store_events)
  from coordinate_query_result [OF ref_store_ok p l(1) this] show ?thesis
    using n by (simp add: k l in_window_def)
qed

section \<open>Tombstones\<close>

definition run_keeps :: "store_op list \<Rightarrow> bool" where
  "run_keeps as = list_all (\<lambda>a. case a of Inl p \<Rightarrow> True | Inr f \<Rightarrow> \<not> filter_is_empty f) as"

text \<open>The marks of a store only grow, unless it is cleared.\<close>

lemma index_event_marks:
  assumes c: "cap_ok c" and s: "store_ok x s"
  shows "ms_deleted_ids s \<subseteq> ms_deleted_ids (fst (index_event x c e now s)) \<and>
    ms_vanished_public_keys s \<subseteq> ms_vanished_public_keys (fst (index_event x c e now s))"
proof (cases "is_ephemeral (ev_kind e) \<or> rejection x s e now \<noteq> None")
  case True
  then show ?thesis by (auto simp: index_event_def internal_index_event_def)
next
  case False
  obtain s1 d st where col: "collect_discards x c s e = (s1, d, st)"
    by (cases "collect_discards x c s e") auto
  have "ms_ids s (ev_id e) = None" using False by (auto simp: rejection_def split: if_splits)
  then have "ms_deleted_ids s \<subseteq> ms_deleted_ids s1"
    "ms_vanished_public_keys s \<subseteq> ms_vanished_public_keys s1"
    using collect_discards_ok [OF c s, of e] col by (simp_all add: collected_ok_def)
  then show ?thesis
    using internal_index_event_result [OF c s _ col refl, of now] False
    by (simp add: index_event_def same_marks_def)
qed

lemma store_step_marks:
  assumes "cap_ok c" and "store_ok x s" and "run_keeps [a]"
  shows "ms_deleted_ids s \<subseteq> ms_deleted_ids (store_step x c a s) \<and>
    ms_vanished_public_keys s \<subseteq> ms_vanished_public_keys (store_step x c a s)"
proof (cases a)
  case (Inl p)
  then show ?thesis
    using index_event_marks [OF assms(1,2)] by (auto simp: store_step_def split: prod.split)
next
  case (Inr f)
  then show ?thesis
    using delete_result [OF assms(1,2), of f] assms(3)
    by (auto simp: store_step_def run_keeps_def same_marks_def)
qed

lemma store_run_marks:
  "cap_ok c \<Longrightarrow> store_ok x s \<Longrightarrow> run_keeps as \<Longrightarrow>
   ms_deleted_ids s \<subseteq> ms_deleted_ids (store_run x c as s) \<and>
   ms_vanished_public_keys s \<subseteq> ms_vanished_public_keys (store_run x c as s)"
proof (induction "as" arbitrary: s)
  case (Cons a "as")
  then have "run_keeps [a]" and "run_keeps as" by (auto simp: run_keeps_def)
  then show ?case
    using Cons store_step_marks [of c x s a] store_step_ok [of c x s a]
    by (simp, blast)
qed simp

text \<open>
  C8: An id with a tombstone is never in the store again, whatever events are saved and whatever
  filters are deleted afterwards, until the store is cleared: the id has no event, and saving an
  event with it is rejected and changes nothing. The same holds for the author of an accepted
  vanish request, for every later event.
\<close>

theorem deleted_stays_deleted:
  assumes "cap_ok c" and "store_ok x s" and "run_keeps ops" and "t = store_run x c ops s"
    and "ev_id e \<in> ms_deleted_ids s \<or> ev_pubkey e \<in> ms_vanished_public_keys s"
  shows "(ev_id e \<in> ms_deleted_ids s \<longrightarrow> event_by_id t (ev_id e) = None \<and>
      check_id t (ev_id e) = Deleted) \<and>
    fst (index_event x c e now t) = t \<and> snd (index_event x c e now t) \<noteq> Success"
proof -
  have ok: "store_ok x t" using store_run_ok [OF assms(1,2)] assms(4) by blast
  have m: "ev_id e \<in> ms_deleted_ids t \<or> is_pubkey_vanished t (ev_pubkey e)"
    using store_run_marks [OF assms(1-3)] assms(4,5) by (auto simp: is_pubkey_vanished_def)
  have "event_by_id t (ev_id e) = None" if "ev_id e \<in> ms_deleted_ids t"
    using that ok indexes_ids_None [OF store_ok_indexes [OF ok], of "ev_id e"]
    by (auto simp: event_by_id_def store_ok_def)
  moreover have "rejection x t e now \<noteq> None" using m by (auto simp: rejection_def)
  moreover have "ev_id e \<in> ms_deleted_ids s \<Longrightarrow> ev_id e \<in> ms_deleted_ids t"
    using store_run_marks [OF assms(1-3)] assms(4) by blast
  ultimately show ?thesis
    by (auto simp: index_event_def internal_index_event_def check_id_def
        has_event_id_been_deleted_def)
qed

text \<open>A deletion of the text note by its author.\<close>

definition ref_deletion :: event where
  "ref_deletion =
     \<lparr>ev_id = ref_id 5, ev_pubkey = ref_pk 2, ev_created_at = 200, ev_kind = EventDeletion,
      ev_tags = [[''e'', event_id_to_hex ref_externals (ref_id 1)]], ev_content = [], ev_sig = []\<rparr>"

definition ref_deleted_store :: memory_store where
  "ref_deleted_store = store_run ref_externals ref_cap [Inl (ref_deletion, 0)] ref_store"

lemma ref_deleted_store_ok [simp]: "store_ok ref_externals ref_deleted_store"
  unfolding ref_deleted_store_def
  by (rule conjunct1 [OF store_run_ok [OF ref_cap_ok ref_store_ok]])

lemma deleted_stays_deleted_witness:
  "event_by_id (store_run ref_externals ref_cap [Inl (ref_note, 7)] ref_deleted_store) (ref_id 1) =
     None"
proof -
  have i: "ev_id ref_note \<in> ms_deleted_ids ref_deleted_store" by code_simp
  have k: "run_keeps [Inl (ref_note, 7)]" by (simp add: run_keeps_def)
  have "ev_id ref_note = ref_id 1" by (simp add: ref_note_def)
  with deleted_stays_deleted [OF ref_cap_ok ref_deleted_store_ok k refl disjI1 [OF i], of 0] i
  show ?thesis by simp
qed

section \<open>Who can remove an event\<close>

definition is_vanish_request :: "externals \<Rightarrow> memory_store \<Rightarrow> event \<Rightarrow> bool" where
  "is_vanish_request x s e \<longleftrightarrow>
     opt_process_nip62 (ms_options s) \<and> kind_eq (ev_kind e) RequestToVanish \<and>
     is_valid_vanish_request_for_relay x (ev_tags e) (opt_relay_url (ms_options s))"

lemma replaceable_authority:
  assumes s: "store_ok x s" and new: "ms_ids s (ev_id e) = None"
    and col: "collect_replaceable s e = (s1, d, st)" and a: "a \<in> set (ms_events s)"
    and d: "ev_id a \<in> set d"
  shows "ev_pubkey a = ev_pubkey e"
proof -
  obtain b where b: "b \<in> set (rivals s e)" "ev_id b = ev_id a"
    using col d by (auto simp: collect_replaceable_eq [OF s new])
  then have "b = a"
    using indexes_unique [OF store_ok_indexes [OF s] _ a] by (auto simp: rivals_def)
  then show ?thesis using b(1) by (auto simp: rivals_def kind_author_key_def)
qed

lemma addressable_authority:
  assumes s: "store_ok x s" and col: "collect_addressable x s e = (s1, d, st)"
    and a: "a \<in> set (ms_events s)" and d: "ev_id a \<in> set d"
  shows "ev_pubkey a = ev_pubkey e"
proof -
  obtain b i where b: "internal_query_param_replaceable s (ev_kind e) (ev_pubkey e) i None None = Some b"
    and id: "ev_id b = ev_id a"
    using col d by (auto simp: collect_addressable_def Let_def split: option.splits if_splits)
  then have "b \<in> set (ms_events s)" and "param_key x b = Some (as_u16 (ev_kind e), ev_pubkey e, i)"
    using query_param_eq [OF s] by blast+
  then show ?thesis
    using indexes_unique [OF store_ok_indexes [OF s] _ a, of b] id
    by (auto simp: param_key_def split: if_splits)
qed

lemma collect_authority:
  assumes c: "cap_ok c" and s: "store_ok x s" and new: "ms_ids s (ev_id e) = None"
    and col: "collect_discards x c s e = (s1, d, st)" and a: "a \<in> set (ms_events s)"
    and gone: "a \<notin> set [b \<leftarrow> ms_events s1. ev_id b \<notin> set d]"
  shows "ev_pubkey a = ev_pubkey e \<or>
    is_vanish_request x s e \<and> match_event (gift_wrap_filter x (ev_pubkey e)) a match_all"
proof -
  consider (r) "is_replaceable (ev_kind e)"
    | (p) "\<not> is_replaceable (ev_kind e)" "is_addressable (ev_kind e)"
    | (d) "collect_discards x c s e = collect_deletion x s e"
    | (v) "is_vanish_request x s e"
        "collect_discards x c s e = (handle_request_to_vanish x c (ev_pubkey e) s, [], Success)"
    | (n) "collect_discards x c s e = (s, [], Success)"
    unfolding collect_discards_def is_vanish_request_def by argo
  then show ?thesis
  proof cases
    case r
    then have cr: "collect_replaceable s e = (s1, d, st)" using col by (simp add: collect_discards_def)
    then have "s1 = s" by (simp add: collect_replaceable_def)
    then show ?thesis using replaceable_authority [OF s new cr a] a gone by auto
  next
    case p
    then have ca: "collect_addressable x s e = (s1, d, st)" using col by (simp add: collect_discards_def)
    then have "s1 = s"
      by (auto simp: collect_addressable_def Let_def split: option.splits if_splits)
    then show ?thesis using addressable_authority [OF s ca a] a gone by auto
  next
    case d
    then have "deletion_inv s e (s1, d, st)" using collect_deletion_inv [OF s, of e] col by simp
    then show ?thesis using a gone by (auto simp: deletion_inv_def same_events_def)
  next
    case v
    then show ?thesis using vanish_result [OF c s, of "ev_pubkey e"] col a gone by auto
  next
    case n
    then show ?thesis using col a gone by auto
  qed
qed

lemma take_bts_dropped:
  assumes "bts_ok key ys" and "a \<in> set ys" and "a \<notin> set (take m ys)" and "b \<in> set (take m ys)"
  shows "key b < key a"
proof -
  have ys: "ys = take m ys @ drop m ys" by simp
  have "a \<in> set (drop m ys)" using assms(2,3) ys by (metis Un_iff set_append)
  moreover have "sorted_wrt (\<lambda>a b. key a < key b) (take m ys @ drop m ys)"
    using assms(1) by (simp add: bts_ok_def)
  ultimately show ?thesis using assms(4) by (simp only: sorted_wrt_append)
qed



end
