(* ===== verification/Memory_Deletion.thy ===== *)
theory Memory_Deletion
  imports Memory_Properties
begin

text \<open>
  Deletion events, vanish requests and replaceable events in the memory store: what an accepted
  request has done to the store, and what a rejected one does.
\<close>

section \<open>Deletion events\<close>

lemma delete_ids_loop_mono:
  "ms_deleted_ids s1 \<subseteq> ms_deleted_ids (fst (delete_ids_loop e is (s1, d, st))) \<and>
   ms_deleted_coordinates (fst (delete_ids_loop e is (s1, d, st))) = ms_deleted_coordinates s1"
proof (induction "is" arbitrary: s1 d st)
  case Nil
  then show ?case by simp
next
  case (Cons i "is")
  show ?case
  proof (cases "ms_ids s1 i")
    case None
    then show ?thesis using Cons.IH by simp
  next
    case (Some ev)
    let ?s2 = "s1\<lparr>ms_deleted_ids := insert (ev_id ev) (ms_deleted_ids s1)\<rparr>"
    have "ms_deleted_ids s1 \<subseteq> ms_deleted_ids (fst (delete_ids_loop e is (?s2, ev_id ev # d, st))) \<and>
        ms_deleted_coordinates (fst (delete_ids_loop e is (?s2, ev_id ev # d, st))) =
          ms_deleted_coordinates s1"
      using Cons.IH [of ?s2 "ev_id ev # d" st] by auto
    then show ?thesis using Some Cons.IH [of s1 d st] by simp
  qed
qed

lemma delete_ids_loop_complete:
  "ms_ids s1 = ms \<Longrightarrow> \<forall>i a. ms i = Some a \<longrightarrow> ev_id a = i \<Longrightarrow>
   delete_ids_loop e is (s1, d, st) = (s2, d2, Success) \<Longrightarrow>
   st = Success \<and>
   (\<forall>i \<in> set is. \<forall>a. ms i = Some a \<longrightarrow>
      ev_pubkey a = ev_pubkey e \<and> (ev_created_at a \<le> ev_created_at e \<longrightarrow> i \<in> ms_deleted_ids s2))"
proof (induction "is" arbitrary: s1 d st)
  case Nil
  then show ?case by simp
next
  case (Cons i "is")
  show ?case
  proof (cases "ms i")
    case None
    then show ?thesis using Cons by simp
  next
    case (Some ev)
    then have id: "ev_id ev = i" and own: "ev_pubkey ev = ev_pubkey e"
      using Cons.prems by (auto split: if_splits)
    show ?thesis
    proof (cases "ev_created_at ev \<le> ev_created_at e")
      case False
      then show ?thesis using Cons Some own by simp
    next
      case True
      let ?s2 = "s1\<lparr>ms_deleted_ids := insert (ev_id ev) (ms_deleted_ids s1)\<rparr>"
      have l: "delete_ids_loop e is (?s2, ev_id ev # d, st) = (s2, d2, Success)"
        using Cons.prems Some own True by simp
      have "i \<in> ms_deleted_ids s2"
        using delete_ids_loop_mono [of ?s2 e "is" "ev_id ev # d" st] id unfolding l by auto
      moreover have "ms_ids ?s2 = ms" using Cons.prems(1) by simp
      ultimately show ?thesis
        using Cons.IH [OF _ Cons.prems(2) l] Some own by auto
    qed
  qed
qed

lemma delete_coordinates_loop_mono:
  "ms_deleted_ids (fst (delete_coordinates_loop e cs (s1, d, st))) = ms_deleted_ids s1 \<and>
   coordinates_grow s1 (fst (delete_coordinates_loop e cs (s1, d, st)))"
proof (induction cs arbitrary: s1 d)
  case Nil
  then show ?case by simp
next
  case (Cons c cs)
  let ?s = "mark_coordinate c (ev_created_at e) s1"
  let ?d = "coordinate_events ?s c (ev_created_at e) @ d"
  have "ms_deleted_ids ?s = ms_deleted_ids s1" by (simp add: mark_coordinate_def)
  then show ?case
    using Cons.IH [of ?s ?d]
    by (simp add: Let_def) (blast intro: coordinates_grow_trans [OF mark_coordinate_grow])
qed

lemma delete_coordinates_loop_complete:
  "delete_coordinates_loop e cs (s1, d, st) = (s2, d2, Success) \<Longrightarrow>
   st = Success \<and>
   (\<forall>c \<in> set cs. co_public_key c = ev_pubkey e \<and>
      has_coordinate_been_deleted s2 c (ev_created_at e))"
proof (induction cs arbitrary: s1 d)
  case Nil
  then show ?case by simp
next
  case (Cons c cs)
  then have own: "co_public_key c = ev_pubkey e" by (auto split: if_splits)
  let ?s = "mark_coordinate c (ev_created_at e) s1"
  let ?d = "coordinate_events ?s c (ev_created_at e) @ d"
  have l: "delete_coordinates_loop e cs (?s, ?d, st) = (s2, d2, Success)"
    using Cons.prems own by (simp add: Let_def)
  obtain t where "ms_deleted_coordinates ?s (coordinate_key c) = Some t" and t: "ev_created_at e \<le> t"
    by (auto simp: mark_coordinate_def split: option.split)
  moreover have "coordinates_grow ?s s2"
    using delete_coordinates_loop_mono [of e cs ?s ?d st] unfolding l by simp
  ultimately obtain t' where "ms_deleted_coordinates s2 (coordinate_key c) = Some t'" and "t \<le> t'"
    unfolding coordinates_grow_def by blast
  then have "has_coordinate_been_deleted s2 c (ev_created_at e)"
    using t by (simp add: has_coordinate_been_deleted_def)
  then show ?case using Cons.IH [OF l] own by simp
qed

lemma event_deletion_kind:
  "kind_eq k EventDeletion \<Longrightarrow> \<not> is_replaceable k \<and> \<not> is_addressable k \<and> \<not> is_ephemeral k"
  by (auto simp: kind_eq_def is_replaceable_def is_addressable_def is_ephemeral_def
      replaceable_range_def addressable_range_def ephemeral_range_def in_range_def
      word_le_nat_alt)

text \<open>
  When the store accepts a deletion event, every stored event that one of its \<open>e\<close> tags names is
  by the same author, and gone and marked as deleted unless it is newer than the deletion; every
  coordinate of its \<open>a\<close> tags is by the same author and marked as deleted up to the time of the
  deletion.
\<close>

lemma accepted_deletion_effect:
  assumes "cap_ok c" and "store_ok x s" and "opt_process_nip09 (ms_options s)"
    and "kind_eq (ev_kind e) EventDeletion" and "index_event x c e now s = (t, Success)"
  shows "(\<forall>i \<in> set (tags_event_ids x (ev_tags e)). \<forall>a. event_by_id s i = Some a \<longrightarrow>
      ev_pubkey a = ev_pubkey e \<and>
      (ev_created_at a \<le> ev_created_at e \<longrightarrow> check_id t i = Deleted \<and> event_by_id t i = None)) \<and>
    (\<forall>k \<in> set (tags_coordinates x (ev_tags e)).
      co_public_key k = ev_pubkey e \<and> has_coordinate_been_deleted t k (ev_created_at e))"
proof -
  note kind = event_deletion_kind [OF assms(4)]
  have r: "rejection x s e now = None"
    using assms(5) kind by (auto simp: index_event_def internal_index_event_def split: option.splits)
  obtain s1 d st where col: "collect_discards x c s e = (s1, d, st)"
    by (cases "collect_discards x c s e") auto
  have t: "t = fst (internal_index_event x c e now s)"
    and st: "snd (internal_index_event x c e now s) = Success"
    using assms(5) kind by (simp_all add: index_event_def)
  note res = internal_index_event_result [OF assms(1,2) r col t]
  have cd: "collect_deletion x s e = (s1, d, Success)"
    using col res st kind assms(3,4) by (simp add: collect_discards_def)
  obtain s0 d0 st0 where l: "delete_ids_loop e (tags_event_ids x (ev_tags e)) (s, [], Success) = (s0, d0, st0)"
    by (cases "delete_ids_loop e (tags_event_ids x (ev_tags e)) (s, [], Success)") auto
  have l2: "delete_coordinates_loop e (tags_coordinates x (ev_tags e)) (s0, d0, st0) = (s1, d, Success)"
    using cd by (simp add: collect_deletion_def l)
  note c2 = delete_coordinates_loop_complete [OF l2]
  have ids: "\<forall>i a. ms_ids s i = Some a \<longrightarrow> ev_id a = i"
    using indexes_ids [OF store_ok_indexes [OF assms(2)]] by blast
  have l1: "delete_ids_loop e (tags_event_ids x (ev_tags e)) (s, [], Success) = (s0, d0, Success)"
    using l c2 by blast
  note c1 = delete_ids_loop_complete [OF refl ids l1]
  have del: "ms_deleted_ids s0 = ms_deleted_ids t"
    using delete_coordinates_loop_mono [of e "tags_coordinates x (ev_tags e)" s0 d0 st0] l2 res
    by (simp add: same_marks_def)
  have ok: "store_ok x t" using res by blast
  have gone: "check_id t i = Deleted \<and> event_by_id t i = None" if "i \<in> ms_deleted_ids t" for i
    using that ok indexes_ids_None [OF store_ok_indexes [OF ok], of i]
    by (auto simp: check_id_def has_event_id_been_deleted_def event_by_id_def store_ok_def)
  show ?thesis
    using c1 c2 del gone res
    by (simp add: event_by_id_def has_coordinate_been_deleted_def same_marks_def)
qed

lemma accepted_deletion_effect_witness:
  "check_id ref_deleted_store (ref_id 1) = Deleted"
proof -
  have r: "index_event ref_externals ref_cap ref_deletion 0 ref_store = (ref_deleted_store, Success)"
  proof (rule prod_eqI)
    show "fst (index_event ref_externals ref_cap ref_deletion 0 ref_store) =
        fst (ref_deleted_store, Success)"
      by (simp add: ref_deleted_store_def store_step_def)
    show "snd (index_event ref_externals ref_cap ref_deletion 0 ref_store) =
        snd (ref_deleted_store, Success)"
      by code_simp
  qed
  have k: "kind_eq (ev_kind ref_deletion) EventDeletion" by code_simp
  have o: "opt_process_nip09 (ms_options ref_store)" by code_simp
  have i: "ref_id 1 \<in> set (tags_event_ids ref_externals (ev_tags ref_deletion))" by code_simp
  have n: "event_by_id ref_store (ref_id 1) = Some ref_note" by code_simp
  have l: "ev_created_at ref_note \<le> ev_created_at ref_deletion" by code_simp
  from accepted_deletion_effect [OF ref_cap_ok ref_store_ok o k r] i n l show ?thesis by blast
qed

text \<open>
  The \<open>a\<close> tags of a deletion: a coordinate without an identifier selects every stored event of
  its kind number and author up to the time of the deletion, whatever the kind is. For an
  addressable kind these are the events of all identifiers, and for a regular kind all events of
  the kind.
\<close>

lemma coordinate_without_identifier:
  assumes "store_ok x s" and "co_identifier k = []"
  shows "set (coordinate_events s k ts) =
    ev_id ` {a \<in> set (ms_events s). kind_eq (ev_kind a) (co_kind k) \<and>
      ev_pubkey a = co_public_key k \<and> ev_created_at a \<le> ts}"
  using assms(2) by (auto simp: coordinate_events_def query_by_kind_author_eq [OF assms(1)] in_window_def)

lemma coordinate_without_identifier_witness:
  "ref_id 3 \<in> set (coordinate_events ref_store (coordinate_new (Named 30023) (ref_pk 2)) 100) \<and>
   ref_id 1 \<in> set (coordinate_events ref_store (coordinate_new TextNote (ref_pk 2)) 100)"
proof -
  have i: "co_identifier (coordinate_new k (ref_pk 2)) = []" for k by (simp add: coordinate_new_def)
  have e: "ref_id 3 = ev_id ref_article" "ref_id 1 = ev_id ref_note"
    by (simp_all add: ref_article_def ref_note_def)
  have "ref_article \<in> {a \<in> set [ref_note, ref_article]. kind_eq (ev_kind a) (Named 30023) \<and>
      ev_pubkey a = ref_pk 2 \<and> ev_created_at a \<le> 100}"
    by (simp add: ref_article_def)
  moreover have "ref_note \<in> {a \<in> set [ref_note, ref_article]. kind_eq (ev_kind a) TextNote \<and>
      ev_pubkey a = ref_pk 2 \<and> ev_created_at a \<le> 100}"
    by (simp add: ref_note_def)
  ultimately show ?thesis
    unfolding coordinate_without_identifier [OF ref_store_ok i] ref_store_events e
    by (simp only: coordinate_new_def coordinate.simps imageI simp_thms)
qed

text \<open>A note of another author, and a deletion that names the note of its author and that one.\<close>

definition ref_foreign_note :: event where
  "ref_foreign_note = ref_note\<lparr>ev_id := ref_id 7, ev_pubkey := ref_pk 9\<rparr>"

definition ref_bad_deletion :: event where
  "ref_bad_deletion =
     ref_deletion\<lparr>ev_tags :=
       [[''e'', event_id_to_hex ref_externals (ref_id 1)],
        [''e'', event_id_to_hex ref_externals (ref_id 7)]]\<rparr>"

text \<open>
  A deletion event that the store rejects as \<open>InvalidDelete\<close> is not without effect: the tags
  before the invalid one are applied, so a rejected deletion can remove and mark events (of its
  own author) although it is not stored itself.
\<close>

lemma rejected_deletion_applies:
  "(case index_event ref_externals ref_cap ref_bad_deletion 0
         (store_run ref_externals ref_cap [Inl (ref_foreign_note, 0)] ref_store) of
      (t, status) \<Rightarrow> status = Rejected RInvalidDelete \<and> check_id t (ref_id 1) = Deleted \<and>
        check_id t (ref_id 7) = Saved \<and> check_id t (ref_id 5) = NotExistent)"
  by code_simp

section \<open>Vanish requests\<close>

text \<open>
  After an accepted vanish request, the only stored event of its author is the request itself,
  no gift wrap addressed to the author is stored, and every later event of the author is rejected.
\<close>

lemma vanish_effect:
  assumes "cap_ok c" and "store_ok x s" and "is_vanish_request x s e"
    and "index_event x c e now s = (t, Success)"
  shows "(\<forall>a \<in> set (ms_events t). ev_pubkey a = ev_pubkey e \<longrightarrow> a = e) \<and>
    (\<forall>a \<in> set (ms_events t). match_event (gift_wrap_filter x (ev_pubkey e)) a match_all \<longrightarrow> a = e) \<and>
    is_pubkey_vanished t (ev_pubkey e)"
proof -
  have kind: "\<not> is_replaceable (ev_kind e)" "\<not> is_addressable (ev_kind e)"
    "\<not> is_ephemeral (ev_kind e)" "\<not> kind_eq (ev_kind e) EventDeletion"
    using assms(3)
    by (auto simp: is_vanish_request_def kind_eq_def is_replaceable_def is_addressable_def
        is_ephemeral_def replaceable_range_def addressable_range_def ephemeral_range_def
        in_range_def word_le_nat_alt)
  have r: "rejection x s e now = None"
    using assms(4) kind by (auto simp: index_event_def internal_index_event_def split: option.splits)
  have col: "collect_discards x c s e =
      (handle_request_to_vanish x c (ev_pubkey e) s, [], Success)"
    using assms(3) kind by (simp add: collect_discards_def is_vanish_request_def)
  have t: "t = fst (internal_index_event x c e now s)" using assms(4) kind by (simp add: index_event_def)
  note res = internal_index_event_result [OF assms(1,2) r col t]
  note van = vanish_result [OF assms(1,2), of "ev_pubkey e"]
  let ?left = "ms_events (handle_request_to_vanish x c (ev_pubkey e) s)"
  have "inserted_events (ms_capacity s) e ?left (ms_events t)" using res by simp
  then have "set (ms_events t) \<subseteq> insert e (set ?left)"
    using bts_insert_subset [of event_key e ?left]
    by (auto simp: inserted_events_def dest: in_set_takeD split: option.splits)
  then show ?thesis
    using van res by (auto simp: is_pubkey_vanished_def same_marks_def)
qed

definition ref_vanish :: event where
  "ref_vanish =
     \<lparr>ev_id = ref_id 6, ev_pubkey = ref_pk 2, ev_created_at = 300, ev_kind = RequestToVanish,
      ev_tags = vanish_request_tags AllRelays, ev_content = [], ev_sig = []\<rparr>"

lemma vanish_effect_witness:
  "\<exists>t. index_event ref_externals ref_cap ref_vanish 0 ref_store = (t, Success) \<and>
     (\<forall>a \<in> set (ms_events t). ev_pubkey a = ref_pk 2 \<longrightarrow> a = ref_vanish)"
proof -
  let ?t = "fst (index_event ref_externals ref_cap ref_vanish 0 ref_store)"
  have p: "ev_pubkey ref_vanish = ref_pk 2" by (simp add: ref_vanish_def)
  have v: "is_vanish_request ref_externals ref_store ref_vanish" by code_simp
  have "snd (index_event ref_externals ref_cap ref_vanish 0 ref_store) = Success" by code_simp
  then have r: "index_event ref_externals ref_cap ref_vanish 0 ref_store = (?t, Success)"
    by (metis prod.collapse)
  show ?thesis
    using vanish_effect [OF ref_cap_ok ref_store_ok v r] r p by auto
qed

end
