(* ===== verification/Memory_Versions.thy ===== *)
theory Memory_Versions
  imports Memory_Properties
begin

text \<open>
  Versions of a replaceable event in an unbounded memory store: whatever the order in which the
  versions of one kind and author arrive, and however often, the store ends with exactly the
  newest one (the lowest id among equal times).
\<close>

definition index_many ::
  "externals \<Rightarrow> cap_ops \<Rightarrow> timestamp \<Rightarrow> event list \<Rightarrow> memory_store \<Rightarrow> memory_store" where
  "index_many x c now es s = foldl (\<lambda>s e. fst (index_event x c e now s)) s es"

text \<open>The stored events of a kind number and author.\<close>

definition stored_versions :: "memory_store \<Rightarrow> u16 \<times> public_key \<Rightarrow> event list" where
  "stored_versions s k = [a \<leftarrow> ms_events s. kind_author_key a = k]"

text \<open>
  A version that nothing keeps out of the store: replaceable, not expired, and its id, author and
  coordinate have no mark in the store.
\<close>

definition admissible :: "externals \<Rightarrow> timestamp \<Rightarrow> u16 \<times> public_key \<Rightarrow> memory_store \<Rightarrow> event \<Rightarrow> bool" where
  "admissible x now k s e \<longleftrightarrow>
     is_replaceable (ev_kind e) \<and> \<not> is_ephemeral (ev_kind e) \<and> kind_author_key e = k \<and>
     ev_id e \<notin> ms_deleted_ids s \<and> ev_pubkey e \<notin> ms_vanished_public_keys s \<and>
     \<not> is_expired_at e now \<and>
     (case event_coordinate x e of
        None \<Rightarrow> True | Some co \<Rightarrow> ms_deleted_coordinates s (coordinate_key co) = None)"

lemma admissible_cong: "same_marks t s \<Longrightarrow> admissible x now k t e = admissible x now k s e"
  by (simp add: admissible_def same_marks_def cong: option.case_cong)

text \<open>
  The state between two versions: the stored versions are at most one of those that arrived, the
  other events are those of the start.
\<close>

definition version_inv ::
  "externals \<Rightarrow> u16 \<times> public_key \<Rightarrow> memory_store \<Rightarrow> event list \<Rightarrow> memory_store \<Rightarrow> bool" where
  "version_inv x k s es t \<longleftrightarrow>
     store_ok x t \<and> same_marks t s \<and>
     {a \<in> set (ms_events t). kind_author_key a \<noteq> k} \<subseteq> set (ms_events s) \<and>
     (if es = [] then stored_versions t k = []
      else \<exists>m \<in> set es. stored_versions t k = [m] \<and> (\<forall>e \<in> set es. event_key m \<le> event_key e))"

lemma version_step:
  assumes c: "cap_ok c" and unb: "ms_capacity s = None"
    and inv: "version_inv x k s es t"
    and adm: "admissible x now k s e"
    and fresh: "\<forall>a \<in> set (ms_events s). ev_id a \<noteq> ev_id e"
    and ids: "\<forall>a \<in> set es. ev_id a = ev_id e \<longrightarrow> a = e"
  shows "version_inv x k s (es @ [e]) (fst (index_event x c e now t))"
proof -
  have ok: "store_ok x t" and marks: "same_marks t s" using inv by (simp_all add: version_inv_def)
  have adm_t: "admissible x now k t e" using admissible_cong [OF marks] adm by simp
  then have rep: "is_replaceable (ev_kind e)" and eph: "\<not> is_ephemeral (ev_kind e)"
    and key: "kind_author_key e = k" by (simp_all add: admissible_def)
  have cap: "ms_capacity t = None" using marks unb by (simp add: same_marks_def)
  have riv: "rivals t e = stored_versions t k" by (simp add: rivals_def stored_versions_def key)
  have in_t: "a \<in> set (stored_versions t k) \<or> a \<in> set (ms_events s)" if "a \<in> set (ms_events t)" for a
    using that inv by (auto simp: version_inv_def stored_versions_def)
  have rej: "rejection x t e now = None" if "ms_ids t (ev_id e) = None"
    using adm_t that
    by (auto simp: rejection_def admissible_def is_pubkey_vanished_def split: option.splits)
  show ?thesis
  proof (cases "ms_ids t (ev_id e) = None")
    case False
    then obtain a where a: "a \<in> set (ms_events t)" "ev_id a = ev_id e"
      using indexes_ids [OF store_ok_indexes [OF ok], of "ev_id e"] by auto
    then have "a \<in> set (stored_versions t k)" using in_t fresh by blast
    then obtain m where m: "m \<in> set es" "stored_versions t k = [m]" "a = m"
      "\<forall>e \<in> set es. event_key m \<le> event_key e"
      using inv by (auto simp: version_inv_def split: if_splits)
    then have "m = e" using ids a(2) by blast
    have "fst (index_event x c e now t) = t"
      using False eph by (auto simp: index_event_def internal_index_event_def rejection_def)
    then show ?thesis
      using inv m \<open>m = e\<close> by (auto simp: version_inv_def)
  next
    case True
    note new = True
    let ?d = "rev (map ev_id [a \<leftarrow> rivals t e. \<not> event_key a < event_key e])"
    let ?st = "if \<exists>a \<in> set (rivals t e). event_key a < event_key e then Rejected RReplaced else Success"
    have col: "collect_discards x c t e = (t, ?d, ?st)"
      using rep by (simp add: collect_discards_def collect_replaceable_eq [OF ok new])
    have ie: "index_event x c e now t = internal_index_event x c e now t"
      using eph by (simp add: index_event_def)
    note res = internal_index_event_result [OF c ok rej [OF new] col refl]
    let ?t' = "fst (internal_index_event x c e now t)"
    have marks': "same_marks ?t' s" using res marks same_marks_trans by blast
    show ?thesis
    proof (cases "\<exists>a \<in> set (rivals t e). event_key a < event_key e")
      case True
      then obtain m where m: "m \<in> set es" "stored_versions t k = [m]" "event_key m < event_key e"
        "\<forall>e \<in> set es. event_key m \<le> event_key e"
        using inv riv by (auto simp: version_inv_def split: if_splits)
      have "ms_events ?t' = ms_events t"
        using res True m riv by (simp add: filter_id_conv)
      then show ?thesis
        unfolding ie using res marks' inv m by (auto simp: version_inv_def stored_versions_def)
    next
      case False
      let ?left = "[a \<leftarrow> ms_events t. ev_id a \<notin> set ?d]"
      have all: "[a \<leftarrow> rivals t e. \<not> event_key a < event_key e] = rivals t e"
        using False by (simp add: filter_id_conv)
      have evs: "ms_events ?t' = bts_insert event_key e ?left"
      proof -
        have st: "?st = Success" using False by (simp only: if_False)
        have "inserted_events (ms_capacity t) e ?left (ms_events ?t')"
          using res unfolding st by (simp only: simp_thms if_True)
        then show ?thesis by (simp only: inserted_events_def cap option.case)
      qed
      have sorted: "bts_ok event_key ?left"
        by (rule bts_filter_ok) (rule indexes_sorted [OF store_ok_indexes [OF ok]])
      have none: "[a \<leftarrow> ?left. kind_author_key a = k] = []"
        unfolding all by (auto simp: rivals_def filter_empty_conv key)
      have ne: "\<not> bts_contains event_key e ?left"
        using new indexes_ids_None [OF store_ok_indexes [OF ok]]
        by (auto simp: bts_contains_def event_key_eq)
      have sv: "stored_versions ?t' k = [e]"
        unfolding stored_versions_def evs filter_bts_insert [OF sorted ne] none by (simp add: key)
      have least: "\<forall>a \<in> set es. event_key e \<le> event_key a"
      proof (cases "es = []")
        case False
        then obtain m where m: "stored_versions t k = [m]" "\<forall>e \<in> set es. event_key m \<le> event_key e"
          using inv by (auto simp: version_inv_def)
        then have "event_key e \<le> event_key m"
          using \<open>\<not> (\<exists>a \<in> set (rivals t e). event_key a < event_key e)\<close> riv by (simp add: not_less)
        then show ?thesis using m(2) order_trans by blast
      qed simp
      have "{a \<in> set (ms_events ?t'). kind_author_key a \<noteq> k} \<subseteq> set (ms_events t)"
        unfolding evs using bts_insert_subset [of event_key e ?left] key by auto
      then have others: "{a \<in> set (ms_events ?t'). kind_author_key a \<noteq> k} \<subseteq> set (ms_events s)"
        using inv by (auto simp: version_inv_def)
      show ?thesis
        unfolding ie using res marks' sv least others by (auto simp: version_inv_def)
    qed
  qed
qed

lemma version_run:
  assumes c: "cap_ok c" and s: "store_ok x s" and unb: "ms_capacity s = None"
    and start: "stored_versions s k = []"
    and adm: "\<forall>e \<in> set es. admissible x now k s e"
    and fresh: "\<forall>e \<in> set es. \<forall>a \<in> set (ms_events s). ev_id a \<noteq> ev_id e"
    and ids: "\<forall>a \<in> set es. \<forall>b \<in> set es. ev_id a = ev_id b \<longrightarrow> a = b"
  shows "version_inv x k s es (index_many x c now es s)"
  using adm fresh ids
proof (induction es rule: rev_induct)
  case Nil
  then show ?case using s start by (simp add: version_inv_def index_many_def)
next
  case (snoc e es)
  then have "version_inv x k s es (index_many x c now es s)" by simp
  then have "version_inv x k s (es @ [e]) (fst (index_event x c e now (index_many x c now es s)))"
    using snoc.prems by (intro version_step [OF c unb]) auto
  then show ?case by (simp add: index_many_def)
qed

section \<open>Property\<close>

text \<open>
  C7: Among the admissible versions of a replaceable event that are saved into an unbounded store,
  in any order and any number of times, exactly the newest one is stored at the end, the lowest id
  among equal times. So two stores that got the same versions in different orders agree.
\<close>

theorem latest_version_wins:
  assumes "cap_ok c" and "store_ok x s" and "ms_capacity s = None" and "stored_versions s k = []"
    and "\<forall>e \<in> set es. admissible x now k s e"
    and "\<forall>e \<in> set es. \<forall>a \<in> set (ms_events s). ev_id a \<noteq> ev_id e"
    and "\<forall>a \<in> set es. \<forall>b \<in> set es. ev_id a = ev_id b \<longrightarrow> a = b"
    and "es \<noteq> []" and "set es' = set es"
  shows "(\<exists>m \<in> set es. stored_versions (index_many x c now es s) k = [m] \<and>
      (\<forall>e \<in> set es. event_key m \<le> event_key e)) \<and>
    stored_versions (index_many x c now es' s) k = stored_versions (index_many x c now es s) k"
proof -
  obtain m where m: "m \<in> set es" "stored_versions (index_many x c now es s) k = [m]"
    "\<forall>e \<in> set es. event_key m \<le> event_key e"
    using version_run [OF assms(1-7)] assms(8) by (auto simp: version_inv_def)
  have "es' \<noteq> []" using assms(8,9) by auto
  moreover have "version_inv x k s es' (index_many x c now es' s)"
    using assms by (intro version_run) simp_all
  ultimately obtain m' where m': "m' \<in> set es" "stored_versions (index_many x c now es' s) k = [m']"
    "\<forall>e \<in> set es. event_key m' \<le> event_key e"
    using assms(9) by (auto simp: version_inv_def)
  have "event_key m = event_key m'" using m m' by (meson antisym)
  then have "m = m'" using assms(7) m(1) m'(1) by (auto simp: event_key_eq)
  then show ?thesis using m m' by auto
qed

definition ref_version :: "u8 \<Rightarrow> timestamp \<Rightarrow> event" where
  "ref_version i ts =
     \<lparr>ev_id = ref_id i, ev_pubkey = ref_pk 2, ev_created_at = ts, ev_kind = Metadata,
      ev_tags = [], ev_content = [], ev_sig = []\<rparr>"

lemma latest_version_wins_witness:
  "stored_versions (index_many ref_externals ref_cap 0 [ref_version 1 5, ref_version 3 8, ref_version 2 8]
     (memory_store_new None ref_options)) (0, ref_pk 2) =
   stored_versions (index_many ref_externals ref_cap 0 [ref_version 2 8, ref_version 1 5, ref_version 3 8]
     (memory_store_new None ref_options)) (0, ref_pk 2)"
proof -
  let ?s = "memory_store_new None ref_options"
  let ?es = "[ref_version 2 8, ref_version 1 5, ref_version 3 8]"
  have ok: "store_ok ref_externals ?s" by (rule memory_store_new_ok) simp
  have adm: "\<forall>e \<in> set ?es. admissible ref_externals 0 (0, ref_pk 2) ?s e"
    by (simp add: admissible_def ref_version_def memory_store_new_def is_replaceable_def
        is_ephemeral_def ephemeral_range_def in_range_def kind_author_key_def is_expired_at_def
        tags_expiration_def event_coordinate_def)
  have start: "ms_capacity ?s = None" "stored_versions ?s (0, ref_pk 2) = []"
    "\<forall>e \<in> set ?es. \<forall>a \<in> set (ms_events ?s). ev_id a \<noteq> ev_id e"
    by (simp_all add: memory_store_new_def stored_versions_def)
  have ids: "\<forall>a \<in> set ?es. \<forall>b \<in> set ?es. ev_id a = ev_id b \<longrightarrow> a = b"
    by (simp add: ref_version_def)
  have set: "set [ref_version 1 5, ref_version 3 8, ref_version 2 8] = set ?es" by auto
  show ?thesis
    using latest_version_wins [OF ref_cap_ok ok start(1,2) adm start(3) ids _ set] by simp
qed

end
