(* ===== verification/Relay_Messages.thy ===== *)
theory Relay_Messages
  imports Nostr_Filter
begin

text \<open>
  The messages between relays and clients (nostr/src/message): machine-readable prefixes, the
  two message types with the JSON array each is written as, and the parsers with the context a
  failed parse leaves behind.
\<close>

section \<open>Machine-readable prefixes\<close>

definition is_single_word :: "string \<Rightarrow> bool" where
  "is_single_word w \<longleftrightarrow> w \<noteq> [] \<and> \<not> list_ex is_ascii_whitespace w"

definition single_word_parse :: "string \<Rightarrow> string option" where
  "single_word_parse w = (if \<not> is_single_word w then None else Some w)"

datatype prefix =
    PDuplicate | PPow | PBlocked | PRateLimited | PInvalid | PError | PUnsupported
  | PAuthRequired | PRestricted | PCustom string

definition prefix_as_str :: "prefix \<Rightarrow> string" where
  "prefix_as_str p =
     (case p of
        PDuplicate \<Rightarrow> ''duplicate''
      | PPow \<Rightarrow> ''pow''
      | PBlocked \<Rightarrow> ''blocked''
      | PRateLimited \<Rightarrow> ''rate-limited''
      | PInvalid \<Rightarrow> ''invalid''
      | PError \<Rightarrow> ''error''
      | PUnsupported \<Rightarrow> ''unsupported''
      | PAuthRequired \<Rightarrow> ''auth-required''
      | PRestricted \<Rightarrow> ''restricted''
      | PCustom w \<Rightarrow> w)"

definition prefix_parse :: "string \<Rightarrow> prefix option" where
  "prefix_parse m =
     (if starts_with m ''duplicate:'' then Some PDuplicate
      else if starts_with m ''pow:'' then Some PPow
      else if starts_with m ''blocked:'' then Some PBlocked
      else if starts_with m ''rate-limited:'' then Some PRateLimited
      else if starts_with m ''invalid:'' then Some PInvalid
      else if starts_with m ''error:'' then Some PError
      else if starts_with m ''unsupported:'' then Some PUnsupported
      else if starts_with m ''auth-required:'' then Some PAuthRequired
      else if starts_with m ''restricted:'' then Some PRestricted
      else (case split_once CHR '':'' m of
              None \<Rightarrow> None
            | Some (p, _) \<Rightarrow> map_option PCustom (single_word_parse p)))"

text \<open>The prefixes that a parse can give: a custom word is none of the known ones.\<close>

definition known_prefixes :: "prefix list" where
  "known_prefixes =
     [PDuplicate, PPow, PBlocked, PRateLimited, PInvalid, PError, PUnsupported, PAuthRequired,
      PRestricted]"

definition prefix_ok :: "prefix \<Rightarrow> bool" where
  "prefix_ok p =
     (case p of
        PCustom w \<Rightarrow>
          is_single_word w \<and> CHR '':'' \<notin> set w \<and> w \<notin> set (map prefix_as_str known_prefixes)
      | _ \<Rightarrow> True)"

text \<open>\<open>starts_with\<close> on a word and its colon is a comparison of the words before the first colon.\<close>

lemma starts_with_colon:
  "CHR '':'' \<notin> set w \<Longrightarrow>
   starts_with m (w @ '':'') \<longleftrightarrow> (\<exists>r. split_once CHR '':'' m = Some (w, r))"
proof (induction w arbitrary: m)
  case Nil
  then show ?case by (cases m) (auto simp: starts_with_def)
next
  case (Cons c w)
  then show ?case
    by (cases m) (auto simp: starts_with_def)
qed

lemma split_once_Some: "split_once c m = Some (a, b) \<longleftrightarrow> m = a @ c # b \<and> c \<notin> set a"
proof (induction m arbitrary: a)
  case (Cons x m)
  then show ?case by (cases a) auto
qed simp

text \<open>The parser is a lookup of the word before the first colon.\<close>

lemma prefix_parse_word:
  "prefix_parse m =
     (case split_once CHR '':'' m of
        None \<Rightarrow> None
      | Some (w, _) \<Rightarrow>
          (case find (\<lambda>p. prefix_as_str p = w) known_prefixes of
             Some p \<Rightarrow> Some p
           | None \<Rightarrow> if is_single_word w then Some (PCustom w) else None))"
proof -
  have st: "starts_with m (w @ '':'') = (case split_once CHR '':'' m of None \<Rightarrow> False | Some (v, _) \<Rightarrow> v = w)"
    if "CHR '':'' \<notin> set w" for w
    unfolding starts_with_colon [OF that] by (auto split: option.splits)
  note sts = st [of "''duplicate''"] st [of "''pow''"] st [of "''blocked''"] st [of "''rate-limited''"]
    st [of "''invalid''"] st [of "''error''"] st [of "''unsupported''"] st [of "''auth-required''"]
    st [of "''restricted''"]
  show ?thesis
  proof (cases "split_once CHR '':'' m")
    case None
    then show ?thesis unfolding prefix_parse_def using sts by simp
  next
    case (Some vr)
    obtain v r where vr: "vr = (v, r)" by (cases vr)
    show ?thesis
      unfolding prefix_parse_def using sts
      by (simp add: Some vr known_prefixes_def prefix_as_str_def single_word_parse_def
          eq_commute [of _ v])
  qed
qed

text \<open>
  A message that starts with a prefix and a colon parses to that prefix, whatever follows;
  and a message that parses starts with the word of its prefix and a colon. The prefixes that
  parse are the known ones and the single words without a colon that are none of them.
\<close>

lemma prefix_roundtrip:
  "(prefix_parse m = Some p) = (prefix_ok p \<and> (\<exists>rest. m = prefix_as_str p @ '':'' @ rest))"
proof -
  have words: "CHR '':'' \<notin> set (prefix_as_str p)" if "prefix_ok p"
    using that by (cases p) (simp_all add: prefix_as_str_def prefix_ok_def)
  have look: "find (\<lambda>q. prefix_as_str q = prefix_as_str p) known_prefixes =
      (case p of PCustom w \<Rightarrow> None | _ \<Rightarrow> Some p)" if "prefix_ok p"
    using that by (cases p) (auto simp: prefix_as_str_def prefix_ok_def known_prefixes_def)
  show ?thesis
  proof
    assume p: "prefix_parse m = Some p"
    then obtain w r where s: "split_once CHR '':'' m = Some (w, r)"
      by (auto simp: prefix_parse_word split: option.splits)
    then have m: "m = w @ CHR '':'' # r" and nc: "CHR '':'' \<notin> set w"
      by (simp_all add: split_once_Some)
    show "prefix_ok p \<and> (\<exists>rest. m = prefix_as_str p @ '':'' @ rest)"
    proof (cases "find (\<lambda>p. prefix_as_str p = w) known_prefixes")
      case None
      then have "p = PCustom w" and "is_single_word w"
        using p by (auto simp: prefix_parse_word s split: if_splits)
      moreover have "w \<notin> set (map prefix_as_str known_prefixes)"
        using None by (auto simp: find_None_iff)
      ultimately show ?thesis using nc m by (simp add: prefix_ok_def prefix_as_str_def)
    next
      case (Some q)
      then have "p = q" using p by (simp add: prefix_parse_word s)
      moreover have "prefix_as_str q = w" and "q \<in> set known_prefixes"
        using Some by (auto simp: find_Some_iff)
      ultimately show ?thesis using m by (auto simp: prefix_ok_def known_prefixes_def)
    qed
  next
    assume h: "prefix_ok p \<and> (\<exists>rest. m = prefix_as_str p @ '':'' @ rest)"
    then obtain rest where m: "m = prefix_as_str p @ CHR '':'' # rest" by auto
    have "split_once CHR '':'' m = Some (prefix_as_str p, rest)"
      unfolding m using words h by (intro split_once_append) blast
    then show "prefix_parse m = Some p"
      using h look by (cases p) (auto simp: prefix_parse_word prefix_ok_def prefix_as_str_def)
  qed
qed


section \<open>JSON arrays as the parsers read them\<close>

text \<open>
  serde reads an array element by element, each at a type. A JSON value is of an abstract type
  \<open>'j\<close>; the record holds the encoders and decoders that serde and the derived code supply for
  the types of the elements. A text is no array, or the elements up to the end of the text or to
  the first syntax error: \<open>SeqClosed\<close> is the closing bracket at the end of the text,
  \<open>SeqTrailing\<close> a closing bracket with more text after it, \<open>SeqBroken\<close> a syntax error where the
  next element or the bracket should be.
\<close>

record 'j json_codec =
  js_string :: "string \<Rightarrow> 'j"
  js_bool :: "bool \<Rightarrow> 'j"
  js_count :: "nat \<Rightarrow> 'j"
  js_id :: "event_id \<Rightarrow> 'j"
  js_event :: "event \<Rightarrow> 'j"
  js_filter :: "filter \<Rightarrow> 'j"
  as_string :: "'j \<Rightarrow> string option"
  as_bool :: "'j \<Rightarrow> bool option"
  as_count :: "'j \<Rightarrow> nat option"
  as_id :: "'j \<Rightarrow> event_id option"
  as_event :: "'j \<Rightarrow> event option"
  as_filter :: "'j \<Rightarrow> filter option"

text \<open>What the types promise: a value of the type reads back from its own encoding.\<close>

definition event_json_ok :: "event \<Rightarrow> bool" where
  "event_json_ok e \<longleftrightarrow> event_wf e \<and> length (ev_sig e) = 64"

definition filter_json_ok :: "filter \<Rightarrow> bool" where
  "filter_json_ok f \<longleftrightarrow>
     filter_ok f \<and> (case fl_kinds f of None \<Rightarrow> True | Some ks \<Rightarrow> list_all canonical ks)"

definition json_codec_ok :: "'j json_codec \<Rightarrow> bool" where
  "json_codec_ok c \<longleftrightarrow>
     (\<forall>s. as_string c (js_string c s) = Some s) \<and>
     (\<forall>b. as_bool c (js_bool c b) = Some b) \<and>
     (\<forall>n. n \<le> usize_max \<longrightarrow> as_count c (js_count c n) = Some n) \<and>
     (\<forall>i. wf_event_id i \<longrightarrow> as_id c (js_id c i) = Some i) \<and>
     (\<forall>e. event_json_ok e \<longrightarrow> as_event c (js_event c e) = Some e) \<and>
     (\<forall>f. filter_json_ok f \<longrightarrow> as_filter c (js_filter c f) = Some f)"

datatype json_end = SeqClosed | SeqTrailing | SeqBroken

datatype 'j json_text = NotArray | JArray "'j list" json_end

type_synonym 'j json_seq = "'j list \<times> json_end"

text \<open>\<open>SeqAccess::next_element\<close>, and the macro \<open>next!\<close> that requires an element.\<close>

definition next_element :: "('j \<Rightarrow> 'a option) \<Rightarrow> 'j json_seq \<Rightarrow> ('a option \<times> 'j json_seq) res" where
  "next_element d s =
     (case fst s of
        [] \<Rightarrow> if snd s = SeqBroken then Inl Malformed else Inr (None, s)
      | j # js \<Rightarrow> (case d j of None \<Rightarrow> Inl Malformed | Some v \<Rightarrow> Inr (Some v, (js, snd s))))"

definition next_required :: "('j \<Rightarrow> 'a option) \<Rightarrow> 'j json_seq \<Rightarrow> ('a \<times> 'j json_seq) res" where
  "next_required d s =
     rbind (next_element d s) (\<lambda>(v, s'). rbind (ok_or v Malformed) (\<lambda>v. Inr (v, s')))"

text \<open>Drain the elements after the ones a variant defines.\<close>

definition drain :: "'j json_seq \<Rightarrow> unit res" where
  "drain s = (if snd s = SeqBroken then Inl Malformed else Inr ())"

lemma next_required_simps [simp]:
  "next_required d ([], en) = Inl Malformed"
  "next_required d (j # js, en) =
     (case d j of None \<Rightarrow> Inl Malformed | Some v \<Rightarrow> Inr (v, (js, en)))"
  by (auto simp: next_required_def next_element_def split: option.split)

lemma codec_simps:
  assumes "json_codec_ok c"
  shows "as_string c (js_string c s) = Some s" and "as_bool c (js_bool c b) = Some b"
    and "n \<le> usize_max \<Longrightarrow> as_count c (js_count c n) = Some n"
    and "wf_event_id i \<Longrightarrow> as_id c (js_id c i) = Some i"
    and "event_json_ok e \<Longrightarrow> as_event c (js_event c e) = Some e"
    and "filter_json_ok f \<Longrightarrow> as_filter c (js_filter c f) = Some f"
  using assms unfolding json_codec_ok_def by blast+

section \<open>Messages of relays\<close>

datatype relay_message =
    REvent string event
  | ROk event_id bool string
  | REndOfStoredEvents string
  | RNotice string
  | RClosed string string
  | RAuth string
  | RCount string nat
  | RNegMsg string string
  | RNegErr string string

definition relay_message_len :: "relay_message \<Rightarrow> nat" where
  "relay_message_len m =
     (case m of
        RNotice _ \<Rightarrow> 2 | REndOfStoredEvents _ \<Rightarrow> 2 | RAuth _ \<Rightarrow> 2
      | REvent _ _ \<Rightarrow> 3 | RClosed _ _ \<Rightarrow> 3 | RCount _ _ \<Rightarrow> 3 | RNegMsg _ _ \<Rightarrow> 3 | RNegErr _ _ \<Rightarrow> 3
      | ROk _ _ _ \<Rightarrow> 4)"

definition serialize_relay_message :: "'j json_codec \<Rightarrow> relay_message \<Rightarrow> 'j list" where
  "serialize_relay_message c m =
     (case m of
        REvent sid e \<Rightarrow> [js_string c ''EVENT'', js_string c sid, js_event c e]
      | RNotice t \<Rightarrow> [js_string c ''NOTICE'', js_string c t]
      | RClosed sid t \<Rightarrow> [js_string c ''CLOSED'', js_string c sid, js_string c t]
      | REndOfStoredEvents sid \<Rightarrow> [js_string c ''EOSE'', js_string c sid]
      | ROk i st t \<Rightarrow> [js_string c ''OK'', js_id c i, js_bool c st, js_string c t]
      | RAuth ch \<Rightarrow> [js_string c ''AUTH'', js_string c ch]
      | RCount sid n \<Rightarrow> [js_string c ''COUNT'', js_string c sid, js_count c n]
      | RNegMsg sid t \<Rightarrow> [js_string c ''NEG-MSG'', js_string c sid, js_string c t]
      | RNegErr sid t \<Rightarrow> [js_string c ''NEG-ERR'', js_string c sid, js_string c t])"

datatype relay_message_context = CtxUnknown | CtxNonEvent | CtxEvent "string option"

text \<open>The variants other than \<open>EVENT\<close>: the fields in order.\<close>

definition take_two :: "('a \<Rightarrow> 'b \<Rightarrow> 'm) \<Rightarrow> ('j \<Rightarrow> 'a option) \<Rightarrow> ('j \<Rightarrow> 'b option) \<Rightarrow>
    'j json_seq \<Rightarrow> ('m \<times> 'j json_seq) res" where
  "take_two f da db s =
     rbind (next_required da s) (\<lambda>(a, s). rbind (next_required db s) (\<lambda>(b, s). Inr (f a b, s)))"

definition take_one :: "('a \<Rightarrow> 'm) \<Rightarrow> ('j \<Rightarrow> 'a option) \<Rightarrow> 'j json_seq \<Rightarrow> ('m \<times> 'j json_seq) res" where
  "take_one f da s = rbind (next_required da s) (\<lambda>(a, s). Inr (f a, s))"

definition take_three :: "('a \<Rightarrow> 'b \<Rightarrow> 'd \<Rightarrow> 'm) \<Rightarrow> ('j \<Rightarrow> 'a option) \<Rightarrow> ('j \<Rightarrow> 'b option) \<Rightarrow>
    ('j \<Rightarrow> 'd option) \<Rightarrow> 'j json_seq \<Rightarrow> ('m \<times> 'j json_seq) res" where
  "take_three f da db dd s =
     rbind (next_required da s) (\<lambda>(a, s). take_two (f a) db dd s)"

definition relay_control :: "'j json_codec \<Rightarrow> string \<Rightarrow> 'j json_seq \<Rightarrow> (relay_message \<times> 'j json_seq) res" where
  "relay_control c t s =
     (if t = ''OK'' then take_three ROk (as_id c) (as_bool c) (as_string c) s
      else if t = ''EOSE'' then take_one REndOfStoredEvents (as_string c) s
      else if t = ''NOTICE'' then take_one RNotice (as_string c) s
      else if t = ''CLOSED'' then take_two RClosed (as_string c) (as_string c) s
      else if t = ''AUTH'' then take_one RAuth (as_string c) s
      else if t = ''COUNT'' then take_two RCount (as_string c) (as_count c) s
      else if t = ''NEG-MSG'' then take_two RNegMsg (as_string c) (as_string c) s
      else if t = ''NEG-ERR'' then take_two RNegErr (as_string c) (as_string c) s
      else Inl Malformed)"

definition relay_visit_seq ::
  "'j json_codec \<Rightarrow> 'j json_seq \<Rightarrow> relay_message_context \<times> relay_message res" where
  "relay_visit_seq c s =
     (case next_required (as_string c) s of
        Inl err \<Rightarrow> (CtxUnknown, Inl err)
      | Inr (t, s) \<Rightarrow>
          (if t = ''EVENT'' then
             (case next_required (as_string c) s of
                Inl err \<Rightarrow> (CtxEvent None, Inl err)
              | Inr (sid, s) \<Rightarrow>
                  (case next_required (as_event c) s of
                     Inl err \<Rightarrow> (CtxEvent (Some sid), Inl err)
                   | Inr (e, s) \<Rightarrow>
                       (case drain s of
                          Inl err \<Rightarrow> (CtxEvent (Some sid), Inl err)
                        | Inr _ \<Rightarrow> (CtxEvent None, Inr (REvent sid e)))))
           else
             (CtxNonEvent,
              rbind (relay_control c t s) (\<lambda>(m, s). rbind (drain s) (\<lambda>_. Inr m)))))"

definition relay_from_json_with_context ::
  "'j json_codec \<Rightarrow> 'j json_text \<Rightarrow> relay_message_context \<times> relay_message res" where
  "relay_from_json_with_context c text =
     (case text of
        NotArray \<Rightarrow> (CtxUnknown, Inl Malformed)
      | JArray js en \<Rightarrow>
          (case relay_visit_seq c (js, en) of
             (ctx, Inl err) \<Rightarrow> (ctx, Inl err)
           | (ctx, Inr m) \<Rightarrow>
               (if en = SeqTrailing then
                  (case m of REvent sid _ \<Rightarrow> CtxEvent (Some sid) | _ \<Rightarrow> ctx, Inl Malformed)
                else (CtxUnknown, Inr m))))"

definition relay_message_ok :: "relay_message \<Rightarrow> bool" where
  "relay_message_ok m =
     (case m of
        REvent _ e \<Rightarrow> event_json_ok e
      | ROk i _ _ \<Rightarrow> wf_event_id i
      | RCount _ n \<Rightarrow> n \<le> usize_max
      | _ \<Rightarrow> True)"

lemmas take_defs = take_one_def take_two_def take_three_def

text \<open>
  A message of a relay is written as the number of elements its length says, and reads back
  from them, also with further elements after them; the parse leaves no context.
\<close>

lemma relay_message_roundtrip:
  assumes "json_codec_ok c" and "relay_message_ok m"
  shows "relay_from_json_with_context c (JArray (serialize_relay_message c m @ extra) SeqClosed) =
      (CtxUnknown, Inr m) \<and>
    length (serialize_relay_message c m) = relay_message_len m"
  using assms(2)
  by (cases m)
    (simp_all add: relay_from_json_with_context_def serialize_relay_message_def relay_visit_seq_def
      relay_control_def take_defs drain_def relay_message_ok_def relay_message_len_def
      codec_simps [OF assms(1)])

text \<open>
  The context after a parse is empty if the parse succeeded or the type of the message could
  not be read; otherwise it says that no event was lost, or, for an \<open>EVENT\<close>, it holds the
  subscription id whenever the second element is a string.
\<close>

lemma relay_parse_context:
  "fst (relay_from_json_with_context c (JArray js en)) =
     (case map_option (as_string c) (if js = [] then None else Some (hd js)) of
        Some (Some t) \<Rightarrow>
          (if isl (snd (relay_from_json_with_context c (JArray js en)))
           then (if t = ''EVENT''
                 then CtxEvent (if tl js = [] then None else as_string c (hd (tl js)))
                 else CtxNonEvent)
           else CtxUnknown)
      | _ \<Rightarrow> CtxUnknown)"
proof (cases js)
  case Nil
  then show ?thesis by (simp add: relay_from_json_with_context_def relay_visit_seq_def)
next
  case (Cons j ks)
  show ?thesis
  proof (cases "as_string c j")
    case None
    then show ?thesis
      by (simp add: Cons relay_from_json_with_context_def relay_visit_seq_def)
  next
    case (Some t)
    show ?thesis
    proof (cases "t = ''EVENT''")
      case True
      then show ?thesis
        using Some
        by (cases ks; cases "tl ks")
          (auto simp: Cons relay_from_json_with_context_def relay_visit_seq_def drain_def
            split: option.split)
    next
      case False
      have no_event: "relay_control c t s = Inr (m, s') \<Longrightarrow> \<not> (\<exists>i e. m = REvent i e)" for s m s'
        by (auto simp: relay_control_def take_defs results split: if_splits prod.splits)
      show ?thesis
      proof (cases "rbind (relay_control c t (ks, en)) (\<lambda>(m, s). rbind (drain s) (\<lambda>_. Inr m))")
        case (Inl err)
        then show ?thesis
          by (simp add: Cons Some False relay_from_json_with_context_def relay_visit_seq_def)
      next
        case (Inr m)
        then obtain s' where "relay_control c t (ks, en) = Inr (m, s')"
          by (auto simp: results)
        from no_event [OF this] show ?thesis
          by (cases m)
            (auto simp: Cons Some False relay_from_json_with_context_def relay_visit_seq_def Inr)
      qed
    qed
  qed
qed

section \<open>Messages of clients\<close>

datatype client_message =
    CEvent event
  | CReq string "filter list"
  | CCount string filter
  | CClose string
  | CAuth event
  | CNegOpen string filter string
  | CNegMsg string string
  | CNegClose string

definition client_message_len :: "client_message \<Rightarrow> nat" where
  "client_message_len m =
     (case m of
        CEvent _ \<Rightarrow> 2 | CClose _ \<Rightarrow> 2 | CAuth _ \<Rightarrow> 2 | CNegClose _ \<Rightarrow> 2
      | CCount _ _ \<Rightarrow> 3 | CNegMsg _ _ \<Rightarrow> 3
      | CReq _ fs \<Rightarrow> 2 + length fs
      | CNegOpen _ _ _ \<Rightarrow> 4)"

definition serialize_client_message :: "'j json_codec \<Rightarrow> client_message \<Rightarrow> 'j list" where
  "serialize_client_message c m =
     (case m of
        CEvent e \<Rightarrow> [js_string c ''EVENT'', js_event c e]
      | CReq sid fs \<Rightarrow> js_string c ''REQ'' # js_string c sid # map (js_filter c) fs
      | CCount sid f \<Rightarrow> [js_string c ''COUNT'', js_string c sid, js_filter c f]
      | CClose sid \<Rightarrow> [js_string c ''CLOSE'', js_string c sid]
      | CAuth e \<Rightarrow> [js_string c ''AUTH'', js_event c e]
      | CNegOpen sid f t \<Rightarrow>
          [js_string c ''NEG-OPEN'', js_string c sid, js_filter c f, js_string c t]
      | CNegMsg sid t \<Rightarrow> [js_string c ''NEG-MSG'', js_string c sid, js_string c t]
      | CNegClose sid \<Rightarrow> [js_string c ''NEG-CLOSE'', js_string c sid])"

text \<open>The loop over the filters of a \<open>REQ\<close> reads to the end of the array.\<close>

fun take_filters :: "'j json_codec \<Rightarrow> 'j list \<Rightarrow> json_end \<Rightarrow> filter list res" where
  "take_filters c [] en = (if en = SeqBroken then Inl Malformed else Inr [])"
| "take_filters c (j # js) en =
     (case as_filter c j of
        None \<Rightarrow> Inl Malformed
      | Some f \<Rightarrow> rbind (take_filters c js en) (\<lambda>fs. Inr (f # fs)))"

definition client_body ::
  "'j json_codec \<Rightarrow> string \<Rightarrow> 'j json_seq \<Rightarrow> (client_message \<times> 'j json_seq) res" where
  "client_body c t s =
     (if t = ''EVENT'' then take_one CEvent (as_event c) s
      else if t = ''REQ'' then
        rbind (next_required (as_string c) s) (\<lambda>(sid, s).
          rbind (take_filters c (fst s) (snd s)) (\<lambda>fs.
            if fs = [] then Inl Malformed else Inr (CReq sid fs, ([], snd s))))
      else if t = ''COUNT'' then take_two CCount (as_string c) (as_filter c) s
      else if t = ''CLOSE'' then take_one CClose (as_string c) s
      else if t = ''AUTH'' then take_one CAuth (as_event c) s
      else if t = ''NEG-OPEN'' then take_three CNegOpen (as_string c) (as_filter c) (as_string c) s
      else if t = ''NEG-MSG'' then take_two CNegMsg (as_string c) (as_string c) s
      else if t = ''NEG-CLOSE'' then take_one CNegClose (as_string c) s
      else Inl Malformed)"

text \<open>\<open>serde_json::from_slice\<close> rejects text after the array.\<close>

definition client_from_json :: "'j json_codec \<Rightarrow> 'j json_text \<Rightarrow> client_message res" where
  "client_from_json c text =
     (case text of
        NotArray \<Rightarrow> Inl Malformed
      | JArray js en \<Rightarrow>
          rbind (next_required (as_string c) (js, en)) (\<lambda>(t, s).
            rbind (client_body c t s) (\<lambda>(m, s).
              rbind (drain s) (\<lambda>_. if en = SeqTrailing then Inl Malformed else Inr m))))"

definition client_message_ok :: "client_message \<Rightarrow> bool" where
  "client_message_ok m =
     (case m of
        CEvent e \<Rightarrow> event_json_ok e
      | CAuth e \<Rightarrow> event_json_ok e
      | CReq _ fs \<Rightarrow> list_all filter_json_ok fs
      | CCount _ f \<Rightarrow> filter_json_ok f
      | CNegOpen _ f _ \<Rightarrow> filter_json_ok f
      | _ \<Rightarrow> True)"

definition is_req :: "client_message \<Rightarrow> bool" where
  "is_req m = (case m of CReq _ _ \<Rightarrow> True | _ \<Rightarrow> False)"

lemma take_filters_map:
  "json_codec_ok c \<Longrightarrow> list_all filter_json_ok fs \<Longrightarrow>
   take_filters c (map (js_filter c) fs) SeqClosed = Inr fs"
  by (induction fs) (simp_all add: codec_simps)

text \<open>
  A message of a client is written as the number of elements its length says and reads back
  from them, with further elements ignored where the message is no \<open>REQ\<close>; the one message that
  can be built and written but that no relay reads is a \<open>REQ\<close> without a filter.
\<close>

lemma client_message_roundtrip:
  assumes "json_codec_ok c" and "client_message_ok m"
  shows "client_from_json c (JArray (serialize_client_message c m) SeqClosed) =
      (if is_req m \<and> client_message_len m = 2 then Inl Malformed else Inr m) \<and>
    (is_req m \<or>
     client_from_json c (JArray (serialize_client_message c m @ extra) SeqClosed) = Inr m) \<and>
    length (serialize_client_message c m) = client_message_len m"
  using assms(2)
  by (cases m)
    (simp_all add: client_from_json_def serialize_client_message_def client_body_def take_defs
      drain_def client_message_ok_def client_message_len_def is_req_def
      take_filters_map [OF assms(1)] codec_simps [OF assms(1)])

section \<open>A concrete codec\<close>

datatype ref_json =
  JString string | JBool bool | JNumber nat | JId event_id | JEvent event | JFilter filter

definition ref_codec :: "ref_json json_codec" where
  "ref_codec =
     \<lparr>js_string = JString, js_bool = JBool, js_count = JNumber, js_id = JId, js_event = JEvent,
      js_filter = JFilter,
      as_string = (\<lambda>j. case j of JString s \<Rightarrow> Some s | _ \<Rightarrow> None),
      as_bool = (\<lambda>j. case j of JBool b \<Rightarrow> Some b | _ \<Rightarrow> None),
      as_count = (\<lambda>j. case j of JNumber n \<Rightarrow> Some n | _ \<Rightarrow> None),
      as_id = (\<lambda>j. case j of JId i \<Rightarrow> Some i | _ \<Rightarrow> None),
      as_event = (\<lambda>j. case j of JEvent e \<Rightarrow> Some e | _ \<Rightarrow> None),
      as_filter = (\<lambda>j. case j of JFilter f \<Rightarrow> Some f | _ \<Rightarrow> None)\<rparr>"

lemma ref_codec_ok [simp]: "json_codec_ok ref_codec"
  by (simp add: json_codec_ok_def ref_codec_def)

lemma relay_message_roundtrip_witness:
  "relay_from_json_with_context ref_codec
     (JArray (serialize_relay_message ref_codec (ROk (ref_id 1) True ''duplicate: known'') @ [JBool True])
       SeqClosed) = (CtxUnknown, Inr (ROk (ref_id 1) True ''duplicate: known'')) \<and>
   length (serialize_relay_message ref_codec (ROk (ref_id 1) True ''duplicate: known'')) =
     relay_message_len (ROk (ref_id 1) True ''duplicate: known'')"
  by (rule relay_message_roundtrip [OF ref_codec_ok])
    (simp add: relay_message_ok_def wf_event_id_def ref_id_def)

lemma client_message_roundtrip_witness:
  "client_from_json ref_codec
     (JArray (serialize_client_message ref_codec (CReq ''s'' [filter_new, filter_new])) SeqClosed) =
     Inr (CReq ''s'' [filter_new, filter_new])"
  using client_message_roundtrip [OF ref_codec_ok, of "CReq ''s'' [filter_new, filter_new]"]
  by (simp add: client_message_ok_def filter_json_ok_def filter_ok_def filter_new_def
      client_message_len_def)

end
