(* ===== verification/Relay_Session.thy ===== *)
theory Relay_Session
  imports Complex_Main Nostr_Event Nostr_Filter
begin

text \<open>
  The state a local relay keeps per connection (nostr-sdk/src/local_relay/local/session.rs): the
  challenges of NIP-42, the token buckets of the rate limits with their single precision
  arithmetic, and the accounting of the bytes of active subscriptions.

  A \<open>HashMap\<close> is an association list with one entry per key: the order of the entries stands for
  the unspecified order in which Rust visits them. An \<open>Instant\<close> and a \<open>Duration\<close> are nanoseconds.
\<close>

section \<open>Single precision numbers\<close>

text \<open>
  The code computes with \<open>f32\<close> on non-negative values from 1/60 to 2 to the 32, all in the range of
  normal numbers: a value is the rational it denotes and every operation rounds its exact result
  to 24 significant bits, half to even.
\<close>

fun bit_length :: "nat \<Rightarrow> nat" where
  "bit_length n = (if n = 0 then 0 else Suc (bit_length (n div 2)))"

declare bit_length.simps [simp del]

text \<open>The exponent of a positive fraction: the largest \<open>e\<close> with \<open>2 powi e \<le> n / d\<close>.\<close>

definition fraction_exponent :: "nat \<Rightarrow> nat \<Rightarrow> int" where
  "fraction_exponent n d =
     (let k = int (bit_length n) - int (bit_length d) in
      if (if 0 \<le> k then 2 ^ nat k * d \<le> n else d \<le> 2 ^ nat (- k) * n) then k else k - 1)"

definition round_half_even :: "nat \<Rightarrow> nat \<Rightarrow> nat" where
  "round_half_even n d =
     (let q = n div d; r = n mod d in
      if 2 * r < d then q else if d < 2 * r then q + 1 else if even q then q else q + 1)"

text \<open>A number is a fraction with a positive denominator.\<close>

definition f32_round :: "nat \<times> nat \<Rightarrow> nat \<times> nat" where
  "f32_round x =
     (let n = fst x; d = snd x in
      if n = 0 then (0, 1)
      else (let e = fraction_exponent n d - 23 in
            if 0 \<le> e then (round_half_even n (2 ^ nat e * d) * 2 ^ nat e, 1)
            else (round_half_even (n * 2 ^ nat (- e)) d, 2 ^ nat (- e))))"

definition f32_of_int :: "nat \<Rightarrow> nat \<times> nat" where
  "f32_of_int n = f32_round (n, 1)"

definition f32_div :: "nat \<times> nat \<Rightarrow> nat \<times> nat \<Rightarrow> nat \<times> nat" where
  "f32_div a b = f32_round (fst a * snd b, snd a * fst b)"

definition f32_mul :: "nat \<times> nat \<Rightarrow> nat \<times> nat \<Rightarrow> nat \<times> nat" where
  "f32_mul a b = f32_round (fst a * fst b, snd a * snd b)"

text \<open>\<open>floor() as u32\<close>: the conversion saturates.\<close>

definition f32_floor_u32 :: "nat \<times> nat \<Rightarrow> nat" where
  "f32_floor_u32 a = min (fst a div snd a) u32_max"

section \<open>Token buckets\<close>

type_synonym instant = nat

definition nanos_per_sec :: nat where
  "nanos_per_sec = 1000000000"

record tokens =
  tk_count :: nat
  tk_last :: "instant option"

definition tokens_new :: "nat \<Rightarrow> tokens" where
  "tokens_new n = \<lparr>tk_count = n, tk_last = None\<rparr>"

definition min_duration :: nat where
  "min_duration = 60 * nanos_per_sec"

text \<open>The difference of two instants saturates at zero.\<close>

definition calculate_elapsed_time :: "instant \<Rightarrow> instant \<Rightarrow> nat" where
  "calculate_elapsed_time now before =
     (let elapsed = now - before in if min_duration < elapsed then min_duration else elapsed)"

definition refill_amount :: "nat \<Rightarrow> nat \<Rightarrow> nat" where
  "refill_amount max_per_minute elapsed =
     (let percent = f32_div (f32_of_int (elapsed div nanos_per_sec)) (60, 1)
      in f32_floor_u32 (f32_mul percent (f32_of_int max_per_minute)))"

definition replenish :: "nat \<Rightarrow> nat \<Rightarrow> tokens \<Rightarrow> tokens" where
  "replenish max_per_minute elapsed t =
     t\<lparr>tk_count :=
         min (saturating_add u32_max (tk_count t) (refill_amount max_per_minute elapsed))
           max_per_minute\<rparr>"

datatype rate_limiter_response = Allowed | Limited

definition take_token :: "instant \<Rightarrow> nat \<Rightarrow> tokens \<Rightarrow> rate_limiter_response \<times> tokens" where
  "take_token now max_per_minute t =
     (let t = (case tk_last t of
                 Some before \<Rightarrow> replenish max_per_minute (calculate_elapsed_time now before) t
               | None \<Rightarrow> t);
          t = t\<lparr>tk_last := Some now\<rparr>
      in if tk_count t = 0 then (Limited, t)
         else (Allowed, t\<lparr>tk_count := tk_count t - 1\<rparr>))"

text \<open>A sequence of requests at the given instants: how many are allowed, and the last bucket.\<close>

fun take_tokens :: "nat \<Rightarrow> instant list \<Rightarrow> tokens \<Rightarrow> nat \<times> tokens" where
  "take_tokens m [] t = (0, t)"
| "take_tokens m (now # ts) t =
     (let (r, t) = take_token now m t; (n, t) = take_tokens m ts t
      in ((if r = Allowed then 1 else 0) + n, t))"

definition tokens_ok :: "nat \<Rightarrow> tokens \<Rightarrow> bool" where
  "tokens_ok m t \<longleftrightarrow> tk_count t \<le> m \<and> m \<le> u32_max"

subsection \<open>What the arithmetic gives\<close>

lemma bit_length_one [simp]: "bit_length 0 = 0" "bit_length (Suc 0) = 1"
proof -
  show z: "bit_length 0 = 0" by (subst bit_length.simps) simp
  show "bit_length (Suc 0) = 1" by (subst bit_length.simps) (simp add: z)
qed

lemma bit_length_bounds: "0 < n \<Longrightarrow> 2 ^ (bit_length n - 1) \<le> n \<and> n < 2 ^ bit_length n"
proof (induction n rule: bit_length.induct)
  case (1 n)
  show ?case
  proof (cases "n div 2 = 0")
    case True
    then have "n = 1" using 1 by simp
    then show ?thesis by simp
  next
    case False
    define k where "k = bit_length (n div 2)"
    have b: "2 ^ (k - 1) \<le> n div 2" "n div 2 < 2 ^ k"
      using 1 False by (auto simp: k_def)
    have "k \<noteq> 0" using False by (simp add: k_def bit_length.simps [of "n div 2"])
    then have "2 ^ k = 2 * (2 :: nat) ^ (k - 1)" by (cases k) simp_all
    with b have "2 ^ k \<le> n" and "n < 2 ^ Suc k" by (linarith, simp)
    then show ?thesis using 1 by (simp add: bit_length.simps [of n] k_def)
  qed
qed

lemma round_half_even_exact: "0 < d \<Longrightarrow> round_half_even (n * d) d = n"
  by (simp add: round_half_even_def)

lemma bit_length_mono: "0 < d \<Longrightarrow> d \<le> n \<Longrightarrow> bit_length d \<le> bit_length n"
proof (rule ccontr)
  assume d: "0 < d" "d \<le> n" and "\<not> bit_length d \<le> bit_length n"
  then have "bit_length n \<le> bit_length d - 1" by simp
  then have "(2 :: nat) ^ bit_length n \<le> 2 ^ (bit_length d - 1)" by (rule power_increasing) simp
  then show False using bit_length_bounds [of d] bit_length_bounds [of n] d by linarith
qed

text \<open>The exponent of a fraction that is at least one.\<close>

lemma fraction_exponent_ge:
  assumes d: "0 < d" and le: "d \<le> n"
  obtains e where "fraction_exponent n d = int e" and "2 ^ e * d \<le> n"
proof -
  obtain k where k: "bit_length n = bit_length d + k"
    using bit_length_mono [OF assms] le_Suc_ex by blast
  show ?thesis
  proof (cases "2 ^ k * d \<le> n")
    case True
    then show ?thesis using k by (intro that [of k]) (simp_all add: fraction_exponent_def)
  next
    case False
    then have "k \<noteq> 0" using le by (cases k) simp_all
    then obtain j where j: "k = Suc j" by (cases k) simp_all
    have "2 ^ j * d \<le> 2 ^ j * 2 ^ bit_length d"
      using bit_length_bounds [OF d] by simp
    also have "\<dots> = 2 ^ (bit_length n - 1)" by (simp add: k j power_add)
    also have "\<dots> \<le> n" using bit_length_bounds [of n] assms by simp
    finally show ?thesis
      using k j False by (intro that [of j]) (simp_all add: fraction_exponent_def Let_def nat_add_distrib)
  qed
qed

text \<open>A fraction that is an integer of at most 24 bits is exact.\<close>

definition f32_is :: "nat \<times> nat \<Rightarrow> nat \<Rightarrow> bool" where
  "f32_is a n \<longleftrightarrow> 0 < snd a \<and> fst a = n * snd a"

lemma f32_round_exact:
  assumes "n < 2 ^ 24" and d: "0 < d"
  shows "f32_is (f32_round (n * d, d)) n"
proof (cases "n = 0")
  case True
  then show ?thesis by (simp add: f32_round_def f32_is_def)
next
  case False
  then have le: "d \<le> n * d" by simp
  obtain e where e: "fraction_exponent (n * d) d = int e" and "2 ^ e * d \<le> n * d"
    by (rule fraction_exponent_ge [OF d le])
  then have "2 ^ e < (2 :: nat) ^ 24" using d assms(1) by (simp add: order.strict_trans1)
  then have "e < 24" by (rule power_less_imp_less_exp [rotated]) simp
  show ?thesis
  proof (cases "e = 23")
    case True
    then show ?thesis
      using False d by (simp add: f32_round_def Let_def e f32_is_def round_half_even_exact)
  next
    case False
    then have "int e - 23 < 0" using \<open>e < 24\<close> by simp
    moreover define j where "j = nat (23 - int e)"
    moreover have "n * d * 2 ^ j = n * 2 ^ j * d" by simp
    then have "round_half_even (n * d * 2 ^ j) d = n * 2 ^ j"
      by (simp only: round_half_even_exact [OF d])
    ultimately show ?thesis
      using \<open>n \<noteq> 0\<close> d by (simp add: f32_round_def Let_def e f32_is_def)
  qed
qed

lemma f32_of_int_exact: "n < 2 ^ 24 \<Longrightarrow> f32_is (f32_of_int n) n"
  using f32_round_exact [of n 1] by (simp add: f32_of_int_def)

lemma f32_floor_exact: "f32_is a n \<Longrightarrow> n \<le> u32_max \<Longrightarrow> f32_floor_u32 a = n"
  by (cases a) (auto simp: f32_is_def f32_floor_u32_def)

lemma refill_minute:
  assumes "m < 2 ^ 24"
  shows "refill_amount m min_duration = m"
proof -
  obtain a b where ab: "f32_of_int m = (a, b)" by (cases "f32_of_int m")
  have p: "f32_div (f32_of_int 60) (60, 1) = (8388608, 8388608)"
    by (simp add: f32_div_def f32_of_int_def f32_round_def fraction_exponent_def
        round_half_even_def bit_length.simps Let_def)
  have "f32_is (f32_of_int m) m" by (rule f32_of_int_exact [OF assms])
  then have "a = m * b" and "0 < b" by (simp_all add: ab f32_is_def)
  then have "f32_is (f32_round (m * (8388608 * b), 8388608 * b)) m"
    by (intro f32_round_exact [OF assms]) simp
  then have "f32_is (f32_mul (8388608, 8388608) (f32_of_int m)) m"
    by (simp add: f32_mul_def ab \<open>a = m * b\<close> mult.left_commute)
  moreover have "m \<le> u32_max" using assms by (simp add: u32_max_def)
  ultimately show ?thesis
    by (simp add: refill_amount_def p [unfolded One_nat_def] min_duration_def nanos_per_sec_def
        f32_floor_exact)
qed

lemma refill_zero: "elapsed < nanos_per_sec \<Longrightarrow> refill_amount m elapsed = 0"
  by (simp add: refill_amount_def f32_of_int_def f32_div_def f32_mul_def f32_round_def
      f32_floor_u32_def)

text \<open>
  No request takes the bucket over the capacity. After a minute without a request the next one
  finds the bucket full, for every capacity that single precision represents exactly; with an
  empty capacity nothing is allowed.
\<close>

lemma take_token_capacity:
  assumes "tokens_ok m t"
  shows "tokens_ok m (snd (take_token now m t)) \<and>
    (m = 0 \<longrightarrow> fst (take_token now m t) = Limited) \<and>
    (\<forall>before. tk_last t = Some before \<and> before + min_duration \<le> now \<and> 0 < m \<and> m < 2 ^ 24 \<longrightarrow>
       fst (take_token now m t) = Allowed \<and> tk_count (snd (take_token now m t)) = m - 1)"
proof (intro conjI allI impI)
  show "tokens_ok m (snd (take_token now m t))"
    using assms by (auto simp: take_token_def Let_def tokens_ok_def replenish_def split: option.split)
  show "m = 0 \<Longrightarrow> fst (take_token now m t) = Limited"
    using assms by (auto simp: take_token_def Let_def tokens_ok_def replenish_def split: option.split)
next
  fix before
  assume h: "tk_last t = Some before \<and> before + min_duration \<le> now \<and> 0 < m \<and> m < 2 ^ 24"
  then have "calculate_elapsed_time now before = min_duration"
    by (auto simp: calculate_elapsed_time_def Let_def)
  moreover have "refill_amount m min_duration = m" using h by (intro refill_minute) simp
  moreover have "m \<le> u32_max" using h by (simp add: u32_max_def)
  ultimately have "take_token now m t = (Allowed, t\<lparr>tk_count := m - 1, tk_last := Some now\<rparr>)"
    using h by (simp add: take_token_def Let_def replenish_def saturating_add_def)
  then show "fst (take_token now m t) = Allowed" and "tk_count (snd (take_token now m t)) = m - 1"
    by simp_all
qed

lemma take_token_capacity_witness:
  "fst (take_token min_duration 2 \<lparr>tk_count = 0, tk_last = Some 0\<rparr>) = Allowed"
  using take_token_capacity [of 2 "\<lparr>tk_count = 0, tk_last = Some 0\<rparr>" min_duration]
  by (simp add: tokens_ok_def u32_max_def)

text \<open>
  Requests less than a second apart: \<open>as_secs\<close> rounds the time between two requests down to zero
  and every request, allowed or not, moves \<open>last\<close>.
\<close>

fun dense :: "instant list \<Rightarrow> bool" where
  "dense (a # b # ts) = (a \<le> b \<and> b < a + nanos_per_sec \<and> dense (b # ts))"
| "dense _ = True"

lemma take_token_last [simp]: "tk_last (snd (take_token now m t)) = Some now"
  by (simp add: take_token_def Let_def)

lemma dense_step:
  assumes "tk_last t = None \<or> (\<exists>a. tk_last t = Some a \<and> now < a + nanos_per_sec)"
    and "tokens_ok m t"
  shows "(if fst (take_token now m t) = Allowed then 1 else 0) + tk_count (snd (take_token now m t))
    \<le> tk_count t"
proof -
  have "replenish m (calculate_elapsed_time now a) t = t" if "tk_last t = Some a" "now < a + nanos_per_sec" for a
  proof -
    have "calculate_elapsed_time now a < nanos_per_sec"
      using that by (auto simp: calculate_elapsed_time_def Let_def min_duration_def nanos_per_sec_def)
    then show ?thesis
      using assms(2) by (cases t) (auto simp: replenish_def refill_zero tokens_ok_def saturating_add_def)
  qed
  then show ?thesis
    using assms(1) by (auto simp: take_token_def Let_def split: option.split)
qed


text \<open>
  Requests that follow one another in less than a second never get a new token, however long
  they go on: no more of them are allowed than the bucket holds at the start.
\<close>

lemma dense_requests_starve:
  assumes "tokens_ok m t" and "dense (case tk_last t of None \<Rightarrow> ts | Some a \<Rightarrow> a # ts)"
  shows "fst (take_tokens m ts t) + tk_count (snd (take_tokens m ts t)) \<le> tk_count t"
  using assms
proof (induction ts arbitrary: t)
  case (Cons now ts)
  obtain r t' where tt: "take_token now m t = (r, t')" by (cases "take_token now m t")
  have l: "tk_last t = None \<or> (\<exists>a. tk_last t = Some a \<and> now < a + nanos_per_sec)"
    using Cons.prems(2) by (auto split: option.splits)
  have "tokens_ok m t'"
    using Cons.prems(1) tt by (auto simp: take_token_def Let_def tokens_ok_def replenish_def split: option.splits if_splits)
  moreover have "tk_last t' = Some now" using take_token_last [of now m t] tt by simp
  moreover have "dense (now # ts)" using Cons.prems(2) by (auto split: option.splits)
  ultimately have "fst (take_tokens m ts t') + tk_count (snd (take_tokens m ts t')) \<le> tk_count t'"
    by (intro Cons.IH) simp_all
  then show ?case
    using dense_step [OF l Cons.prems(1)] by (auto simp: tt split: prod.split)
qed simp

text \<open>Sixty per minute, an empty bucket and a request every 0.9 seconds for 180 seconds.\<close>

lemma dense_grid: "dense (map (\<lambda>i. i * 900000000) [a..<a + n])"
proof (induction n arbitrary: a)
  case (Suc n)
  then show ?case
  proof (cases n)
    case (Suc k)
    then show ?thesis
      using Suc.IH [of "Suc a"] by (simp add: upt_conv_Cons nanos_per_sec_def del: upt_Suc)
  qed (simp add: upt_conv_Cons del: upt_Suc)
qed simp

lemma dense_requests_starve_witness:
  "fst (take_tokens 60 (map (\<lambda>i. i * 900000000) [1..<201]) \<lparr>tk_count = 0, tk_last = Some 0\<rparr>) = 0"
proof -
  have "[0..<201] = 0 # [1..<201 :: nat]" by (simp add: upt_conv_Cons)
  then have "dense (0 # map (\<lambda>i. i * 900000000) [1..<201])"
    using dense_grid [of 0 201] by simp
  then show ?thesis
    using dense_requests_starve [of 60 "\<lparr>tk_count = 0, tk_last = Some 0\<rparr>"
        "map (\<lambda>i. i * 900000000) [1..<201]"]
    by (simp add: tokens_ok_def u32_max_def del: upt_Suc upt_conv_Cons_Cons)
qed

section \<open>Authentication\<close>

record nip42_session =
  auth_public_key :: "public_key option"
  challenges :: "string list"

definition nip42_session_new :: nip42_session where
  "nip42_session_new = \<lparr>auth_public_key = None, challenges = []\<rparr>"

text \<open>\<open>c\<close> is the random challenge that \<open>SubscriptionId::generate\<close> gives.\<close>

definition generate_challenge :: "string \<Rightarrow> nip42_session \<Rightarrow> string \<times> nip42_session" where
  "generate_challenge c n =
     (let n = (if 20 < length (challenges n) then n\<lparr>challenges := []\<rparr> else n)
      in (c, n\<lparr>challenges := List.insert c (challenges n)\<rparr>))"

definition is_authenticated :: "nip42_session \<Rightarrow> bool" where
  "is_authenticated n \<longleftrightarrow> auth_public_key n \<noteq> None"

text \<open>The text of the error of \<open>Event::verify\<close> is \<open>verify_error\<close>.\<close>

definition check_challenge ::
  "externals \<Rightarrow> string \<Rightarrow> timestamp \<Rightarrow> event \<Rightarrow> relay_url \<Rightarrow> nip42_session \<Rightarrow>
   (string + unit) \<times> nip42_session" where
  "check_challenge x verify_error now e relay n =
     (if \<not> kind_eq (ev_kind e) Authentication
      then (Inl ''invalid authentication event kind'', n)
      else (case tags_challenge x (ev_tags e) of
        Some challenge \<Rightarrow>
          (if challenge \<notin> set (challenges n)
           then (Inl ''received invalid challenge'', n)
           else
             let diff = (if ev_created_at e \<le> now then now - ev_created_at e
                         else ev_created_at e - now)
             in if 120 < diff
                then (Inl ''challenge is too old (max allowed 2 min)'', n)
                else if isl (event_verify x e) then (Inl verify_error, n)
                else if \<not> is_valid_auth_event x e relay challenge
                then (Inl ''invalid authentication event'', n)
                else
                  (Inr (),
                   n\<lparr>challenges := removeAll challenge (challenges n),
                     auth_public_key := Some (ev_pubkey e)\<rparr>))
      | None \<Rightarrow> (Inl ''challenge not found'', n)))"

definition nip42_session_ok :: "nip42_session \<Rightarrow> bool" where
  "nip42_session_ok n \<longleftrightarrow> distinct (challenges n) \<and> length (challenges n) \<le> 21"

lemma generate_challenge_ok:
  "nip42_session_ok n \<Longrightarrow> nip42_session_ok (snd (generate_challenge c n))"
  by (auto simp: nip42_session_ok_def generate_challenge_def Let_def List.insert_def)

lemma length_removeAll_le: "length (removeAll a xs) \<le> length xs"
  by (simp add: removeAll_filter_not_eq)

lemma check_challenge_ok:
  "nip42_session_ok n \<Longrightarrow> nip42_session_ok (snd (check_challenge x ve now e relay n))"
  by (auto simp: nip42_session_ok_def check_challenge_def Let_def distinct_removeAll
      split: option.split intro: order_trans [OF length_removeAll_le])



section \<open>Sessions and subscriptions\<close>

record subscription =
  sub_filters :: "filter list"
  sub_size :: nat

record 'n neg_subscription =
  neg_state :: 'n
  neg_items :: nat

record 'n session =
  subscriptions :: "(string \<times> subscription) list"
  subscription_bytes :: nat
  negentropy_subscription :: "(string \<times> 'n neg_subscription) list"
  nip42 :: nip42_session
  write_tokens :: tokens
  query_tokens :: tokens
  negentropy_tokens :: tokens
  auth_tokens :: tokens
  message_tokens :: tokens

definition check_rate_limit ::
  "instant \<Rightarrow> nat \<Rightarrow> 'n session \<Rightarrow> rate_limiter_response \<times> 'n session" where
  "check_rate_limit now m s =
     (let (r, t) = take_token now m (write_tokens s) in (r, s\<lparr>write_tokens := t\<rparr>))"

definition check_query_rate_limit ::
  "instant \<Rightarrow> nat \<Rightarrow> 'n session \<Rightarrow> rate_limiter_response \<times> 'n session" where
  "check_query_rate_limit now m s =
     (let (r, t) = take_token now m (query_tokens s) in (r, s\<lparr>query_tokens := t\<rparr>))"

definition check_negentropy_rate_limit ::
  "instant \<Rightarrow> nat \<Rightarrow> 'n session \<Rightarrow> rate_limiter_response \<times> 'n session" where
  "check_negentropy_rate_limit now m s =
     (let (r, t) = take_token now m (negentropy_tokens s) in (r, s\<lparr>negentropy_tokens := t\<rparr>))"

definition check_auth_rate_limit ::
  "instant \<Rightarrow> nat \<Rightarrow> 'n session \<Rightarrow> rate_limiter_response \<times> 'n session" where
  "check_auth_rate_limit now m s =
     (let (r, t) = take_token now m (auth_tokens s) in (r, s\<lparr>auth_tokens := t\<rparr>))"

definition check_message_rate_limit ::
  "instant \<Rightarrow> nat \<Rightarrow> 'n session \<Rightarrow> rate_limiter_response \<times> 'n session" where
  "check_message_rate_limit now m s =
     (let (r, t) = take_token now m (message_tokens s) in (r, s\<lparr>message_tokens := t\<rparr>))"

definition subscription_fits :: "string \<Rightarrow> nat \<Rightarrow> nat \<Rightarrow> 'n session \<Rightarrow> bool" where
  "subscription_fits sid sz max_size s =
     (let replaced_size = (case map_of (subscriptions s) sid of
                             None \<Rightarrow> 0 | Some sub \<Rightarrow> sub_size sub)
      in case checked_add usize_max (saturating_sub (subscription_bytes s) replaced_size) sz of
           None \<Rightarrow> False
         | Some t \<Rightarrow> t \<le> max_size)"

definition insert_subscription ::
  "string \<Rightarrow> filter list \<Rightarrow> nat \<Rightarrow> 'n session \<Rightarrow> 'n session" where
  "insert_subscription sid fs sz s =
     (let bytes = (case map_of (subscriptions s) sid of
                     None \<Rightarrow> subscription_bytes s
                   | Some previous \<Rightarrow> saturating_sub (subscription_bytes s) (sub_size previous))
      in s\<lparr>subscriptions :=
             AList.update sid \<lparr>sub_filters = fs, sub_size = sz\<rparr> (subscriptions s),
           subscription_bytes := saturating_add usize_max bytes sz\<rparr>)"

definition remove_subscription :: "string \<Rightarrow> 'n session \<Rightarrow> 'n session" where
  "remove_subscription sid s =
     (case map_of (subscriptions s) sid of
        None \<Rightarrow> s
      | Some sub \<Rightarrow>
          s\<lparr>subscriptions := AList.delete sid (subscriptions s),
            subscription_bytes := saturating_sub (subscription_bytes s) (sub_size sub)\<rparr>)"

text \<open>Sums over the entries of a map with one entry per key.\<close>

definition map_total :: "('v \<Rightarrow> nat) \<Rightarrow> (string \<times> 'v) list \<Rightarrow> nat" where
  "map_total f m = sum_list (map (\<lambda>(_, v). f v) m)"

lemma map_total_simps [simp]:
  "map_total f [] = 0" "map_total f ((k, v) # m) = f v + map_total f m"
  by (simp_all add: map_total_def)

lemma map_total_delete:
  "distinct (map fst m) \<Longrightarrow>
   map_total f (AList.delete k m) + (case map_of m k of None \<Rightarrow> 0 | Some v \<Rightarrow> f v) = map_total f m"
proof (induction m)
  case (Cons p m)
  obtain a b where p: "p = (a, b)" by (cases p)
  show ?case
  proof (cases "a = k")
    case True
    then have "map_of m k = None" using Cons.prems p by (simp add: map_of_eq_None_iff)
    then show ?thesis using Cons True by (simp add: p)
  next
    case False
    then show ?thesis using Cons by (simp add: p)
  qed
qed simp

lemma map_total_update:
  "distinct (map fst m) \<Longrightarrow>
   map_total f (AList.update k v m) + (case map_of m k of None \<Rightarrow> 0 | Some v \<Rightarrow> f v) =
     map_total f m + f v"
proof (induction m)
  case (Cons p m)
  obtain a b where p: "p = (a, b)" by (cases p)
  show ?case using Cons by (cases "a = k") (simp_all add: p)
qed simp

definition subscriptions_ok :: "nat \<Rightarrow> 'n session \<Rightarrow> bool" where
  "subscriptions_ok max_bytes s \<longleftrightarrow>
     distinct (map fst (subscriptions s)) \<and>
     subscription_bytes s = map_total sub_size (subscriptions s) \<and>
     subscription_bytes s \<le> max_bytes \<and> max_bytes \<le> usize_max"

lemma subscription_fits_iff:
  assumes "subscriptions_ok m s"
  shows "subscription_fits sid sz m s \<longleftrightarrow>
    map_total sub_size (AList.delete sid (subscriptions s)) + sz \<le> m"
  using assms map_total_delete [of "subscriptions s" sub_size sid]
  by (auto simp: subscriptions_ok_def subscription_fits_def checked_add_def Let_def
      simp del: map_of_eq_Some_iff split: option.splits)

lemma insert_subscription_ok:
  assumes ok: "subscriptions_ok m s" and fit: "subscription_fits sid sz m s"
  shows "subscriptions_ok m (insert_subscription sid fs sz s)"
proof -
  have d: "distinct (map fst (subscriptions s))" using ok by (simp add: subscriptions_ok_def)
  note tot = map_total_delete [OF d, of sub_size sid]
    map_total_update [OF d, of sub_size sid "\<lparr>sub_filters = fs, sub_size = sz\<rparr>"]
  show ?thesis
    using ok fit tot distinct_update [OF d, of sid] unfolding subscription_fits_iff [OF ok]
    by (auto simp: subscriptions_ok_def insert_subscription_def saturating_add_def Let_def
        simp del: map_of_eq_Some_iff split: option.splits)
qed

lemma remove_subscription_ok:
  assumes ok: "subscriptions_ok m s"
  shows "subscriptions_ok m (remove_subscription sid s)"
proof -
  have d: "distinct (map fst (subscriptions s))" using ok by (simp add: subscriptions_ok_def)
  show ?thesis
    using ok map_total_delete [OF d, of sub_size sid] distinct_delete [OF d, of sid]
    by (auto simp: subscriptions_ok_def remove_subscription_def
        simp del: map_of_eq_Some_iff split: option.splits)
qed

text \<open>
  Over any sequence of insertions that fit and of removals, the byte counter of a session is
  the sum of the sizes of its active subscriptions and within the limit: an insertion fits exactly
  if the sizes of the other subscriptions and its own are within the limit, a replaced
  subscription gives its bytes back, and a removal too.
\<close>

lemma subscription_accounting:
  assumes "subscriptions_ok m s"
  shows "subscriptions_ok m (remove_subscription sid s) \<and>
    map_of (subscriptions (remove_subscription sid s)) = (map_of (subscriptions s))(sid := None) \<and>
    subscription_fits sid sz m s =
      (map_total sub_size (AList.delete sid (subscriptions s)) + sz \<le> m) \<and>
    (subscription_fits sid sz m s \<longrightarrow>
       subscriptions_ok m (insert_subscription sid fs sz s) \<and>
       map_of (subscriptions (insert_subscription sid fs sz s)) =
         (map_of (subscriptions s))(sid \<mapsto> \<lparr>sub_filters = fs, sub_size = sz\<rparr>))"
proof (intro conjI impI)
  show "subscriptions_ok m (remove_subscription sid s)" by (rule remove_subscription_ok [OF assms])
  show "map_of (subscriptions (remove_subscription sid s)) = (map_of (subscriptions s))(sid := None)"
    by (auto simp: remove_subscription_def delete_conv' restrict_map_def fun_eq_iff split: option.split)
  show "subscription_fits sid sz m s =
      (map_total sub_size (AList.delete sid (subscriptions s)) + sz \<le> m)"
    by (rule subscription_fits_iff [OF assms])
next
  assume "subscription_fits sid sz m s"
  then show "subscriptions_ok m (insert_subscription sid fs sz s)"
    by (rule insert_subscription_ok [OF assms])
  show "map_of (subscriptions (insert_subscription sid fs sz s)) =
      (map_of (subscriptions s))(sid \<mapsto> \<lparr>sub_filters = fs, sub_size = sz\<rparr>)"
    by (simp add: insert_subscription_def Let_def update_conv')
qed

definition session_new :: "nat \<Rightarrow> nat \<Rightarrow> nat \<Rightarrow> nat \<Rightarrow> 'n session" where
  "session_new notes queries auths messages =
     \<lparr>subscriptions = [], subscription_bytes = 0, negentropy_subscription = [],
      nip42 = nip42_session_new, write_tokens = tokens_new notes,
      query_tokens = tokens_new queries, negentropy_tokens = tokens_new queries,
      auth_tokens = tokens_new auths, message_tokens = tokens_new messages\<rparr>"

lemma subscription_accounting_witness:
  "subscription_fits ''a'' 10 10 (session_new 1 1 1 1 :: unit session) \<and>
   subscriptions_ok 10 (insert_subscription ''a'' [] 10 (session_new 1 1 1 1 :: unit session))"
proof -
  have ok: "subscriptions_ok 10 (session_new 1 1 1 1 :: unit session)"
    by (simp add: subscriptions_ok_def session_new_def usize_max_def)
  have del: "AList.delete ''a'' (subscriptions (session_new 1 1 1 1 :: unit session)) = []"
    by (simp add: session_new_def)
  show ?thesis
    using subscription_accounting [OF ok, of "''a''" 10 "[]"] unfolding del by simp
qed

end
