(* ===== verification/Nostr_Pow.thy ===== *)
theory Nostr_Pow
  imports Nostr_Keys
begin

text \<open>
  Proof of work of NIP-13 (nostr/src/nips/nip13/mod.rs, \<open>EventId::check_pow\<close>): the number of
  leading zero bits of an id, computed byte by byte, against the bits of the id.
\<close>

section \<open>Proof of work of an id\<close>

text \<open>\<open>u8::leading_zeros\<close>.\<close>

definition leading_zeros :: "u8 \<Rightarrow> nat" where
  "leading_zeros b =
     (if 128 \<le> b then 0 else if 64 \<le> b then 1 else if 32 \<le> b then 2 else if 16 \<le> b then 3
      else if 8 \<le> b then 4 else if 4 \<le> b then 5 else if 2 \<le> b then 6 else if 1 \<le> b then 7 else 8)"

text \<open>
  nostr/src/nips/nip13/mod.rs, \<open>get_leading_zero_bits\<close>: the loop with its counter \<open>res\<close>, which
  saturates in the branch of a zero byte. The addition of the other branch is a plain \<open>u8\<close>
  addition.
\<close>

fun leading_zero_bits_from :: "nat \<Rightarrow> u8 list \<Rightarrow> nat" where
  "leading_zero_bits_from res [] = res"
| "leading_zero_bits_from res (b # bs) =
     (if b = 0 then leading_zero_bits_from (saturating_add u8_max res 8) bs
      else (res + leading_zeros b) mod 256)"

definition get_leading_zero_bits :: "u8 list \<Rightarrow> nat" where
  "get_leading_zero_bits h = leading_zero_bits_from 0 h"

definition check_pow :: "event_id \<Rightarrow> nat \<Rightarrow> bool" where
  "check_pow i difficulty \<longleftrightarrow> get_leading_zero_bits (eid_bytes i) \<ge> difficulty"

text \<open>The bits of a byte sequence, the most significant first.\<close>

definition byte_bits :: "u8 \<Rightarrow> bool list" where
  "byte_bits b = map (\<lambda>n. bit b n) [7, 6, 5, 4, 3, 2, 1, 0]"

definition id_bits :: "u8 list \<Rightarrow> bool list" where
  "id_bits bs = concat (map byte_bits bs)"

lemma length_byte_bits [simp]: "length (byte_bits b) = 8"
  by (simp add: byte_bits_def)

lemma length_id_bits: "length (id_bits bs) = 8 * length bs"
  by (induction bs) (simp_all add: id_bits_def)

lemma bit_unat_div: "bit (b :: u8) n \<longleftrightarrow> odd (unat b div 2 ^ n)"
proof -
  have "bit b n = bit (unat b) n" by (simp add: bit_unsigned_iff)
  then show ?thesis by (simp only: bit_iff_odd)
qed

lemma top_bit: "m < 2 * k \<Longrightarrow> 0 < k \<Longrightarrow> odd (m div k) \<longleftrightarrow> k \<le> (m::nat)"
proof (cases "k \<le> m")
  case True
  assume "m < 2 * k" "0 < k"
  with True have "m div k = 1" by (intro div_nat_eqI) auto
  then show ?thesis using True by simp
qed simp

lemma leading_zeros_bits: "leading_zeros b = length (takeWhile Not (byte_bits b))"
proof -
  have "unat b < 2 ^ LENGTH(8)" by (rule unsigned_less)
  then have n: "unat b < 256" by simp
  have le: "(128 \<le> b) = (128 \<le> unat b)" "(64 \<le> b) = (64 \<le> unat b)" "(32 \<le> b) = (32 \<le> unat b)"
    "(16 \<le> b) = (16 \<le> unat b)" "(8 \<le> b) = (8 \<le> unat b)" "(4 \<le> b) = (4 \<le> unat b)"
    "(2 \<le> b) = (2 \<le> unat b)" "(1 \<le> b) = (1 \<le> unat b)"
    by (simp_all add: word_le_nat_alt)
  show ?thesis
    unfolding leading_zeros_def le byte_bits_def bit_unat_div
    using n top_bit [of "unat b" 128] top_bit [of "unat b" 64] top_bit [of "unat b" 32]
      top_bit [of "unat b" 16] top_bit [of "unat b" 8] top_bit [of "unat b" 4]
      top_bit [of "unat b" 2] top_bit [of "unat b" 1]
    by (simp add: not_le)
qed

lemma leading_zeros_le: "b \<noteq> 0 \<Longrightarrow> leading_zeros b \<le> 7"
  by (auto simp: leading_zeros_def word_le_nat_alt unat_eq_0 split: if_splits)
    (metis One_nat_def less_one not_le unat_eq_zero)

lemma byte_bits_zero: "byte_bits 0 = replicate 8 False"
  by (simp add: byte_bits_def numeral_eq_Suc)

lemma takeWhile_bits_nonzero:
  assumes "b \<noteq> 0"
  shows "takeWhile Not (byte_bits b @ bs) = takeWhile Not (byte_bits b)"
proof -
  have "length (takeWhile Not (byte_bits b)) \<noteq> length (byte_bits b)"
    using leading_zeros_le [OF assms] by (simp add: leading_zeros_bits)
  then have "\<exists>v \<in> set (byte_bits b). v" by (metis takeWhile_eq_all_conv)
  then show ?thesis by (auto intro: takeWhile_append1)
qed

lemma leading_zero_bits_from_eq:
  "res + 8 * length bs \<le> 256 \<Longrightarrow> res \<le> 255 \<Longrightarrow>
   leading_zero_bits_from res bs = min 255 (res + length (takeWhile Not (id_bits bs)))"
proof (induction bs arbitrary: res)
  case Nil
  then show ?case by (simp add: id_bits_def)
next
  case (Cons b bs)
  have bits: "id_bits (b # bs) = byte_bits b @ id_bits bs" by (simp add: id_bits_def)
  show ?case
  proof (cases "b = 0")
    case False
    have "res + leading_zeros b \<le> 255"
      using Cons.prems leading_zeros_le [OF False] by simp
    moreover have "takeWhile Not (id_bits (b # bs)) = takeWhile Not (byte_bits b)"
      unfolding bits by (rule takeWhile_bits_nonzero [OF False])
    ultimately show ?thesis using False by (simp add: leading_zeros_bits)
  next
    case True
    have tw: "length (takeWhile Not (id_bits (b # bs))) = 8 + length (takeWhile Not (id_bits bs))"
      using bits takeWhile_append2 [of "replicate 8 False" Not "id_bits bs"]
      unfolding True byte_bits_zero by simp
    show ?thesis
    proof (cases "bs = []")
      case True
      then show ?thesis
        using Cons.prems \<open>b = 0\<close> tw by (simp add: saturating_add_def u8_max_def id_bits_def)
    next
      case False
      then have "1 \<le> length bs" by (cases bs) auto
      then have r: "res + 8 \<le> 248" using Cons.prems by simp
      then have "saturating_add u8_max res 8 = res + 8" by (simp add: saturating_add_def u8_max_def)
      moreover have "leading_zero_bits_from (res + 8) bs =
          min 255 (res + 8 + length (takeWhile Not (id_bits bs)))"
        using Cons.prems r by (intro Cons.IH) simp_all
      ultimately show ?thesis using \<open>b = 0\<close> tw by simp
    qed
  qed
qed

lemma length_takeWhile_ge:
  "d \<le> length xs \<Longrightarrow> d \<le> length (takeWhile P xs) \<longleftrightarrow> (\<forall>k < d. P (xs ! k))"
proof (induction xs arbitrary: d)
  case (Cons x xs)
  then show ?case by (cases d) (auto simp: less_Suc_eq_0_disj)
qed simp

section \<open>Properties\<close>

text \<open>
  An id passes the proof-of-work check of a difficulty (an 8-bit number) exactly when its
  first bits, that many, are all zero: the byte loop with its saturating counter computes the
  number of leading zero bits of the 256-bit id, up to 255.
\<close>

lemma check_pow_leading_bits:
  assumes "wf_event_id i" and "d \<le> u8_max"
  shows "check_pow i d \<longleftrightarrow> (\<forall>k < d. \<not> id_bits (eid_bytes i) ! k)"
proof -
  have len: "length (id_bits (eid_bytes i)) = 256"
    using assms(1) by (simp add: length_id_bits wf_event_id_def)
  have "get_leading_zero_bits (eid_bytes i) =
      min 255 (length (takeWhile Not (id_bits (eid_bytes i))))"
    using assms(1) leading_zero_bits_from_eq [of 0 "eid_bytes i"]
    by (simp add: get_leading_zero_bits_def wf_event_id_def)
  moreover have "d \<le> 255" using assms(2) by (simp add: u8_max_def)
  ultimately have "check_pow i d \<longleftrightarrow> d \<le> length (takeWhile Not (id_bits (eid_bytes i)))"
    by (simp add: check_pow_def)
  also have "\<dots> \<longleftrightarrow> (\<forall>k < d. \<not> id_bits (eid_bytes i) ! k)"
    using len \<open>d \<le> 255\<close> by (intro length_takeWhile_ge) simp
  finally show ?thesis .
qed

lemma check_pow_leading_bits_witness:
  "check_pow (EventId (0 # 16 # replicate 30 255)) 11 \<longleftrightarrow>
   (\<forall>k < 11. \<not> id_bits (eid_bytes (EventId (0 # 16 # replicate 30 255))) ! k)"
  by (rule check_pow_leading_bits) (simp_all add: wf_event_id_def u8_max_def)

end
