(* ===== verification/Local_Relay.thy ===== *)
theory Local_Relay
  imports Relay_Messages Relay_Session Memory_Properties Nostr_Pow
begin

text \<open>
  The local relay (nostr-sdk/src/local_relay/local/inner.rs and builder.rs) over the memory
  store: its configuration, the handler of every client message, and the loop of a connection
  as a function of its inputs: frames of the client, events of the broadcast channel, and the
  overflow of that channel.

  The state of a connection is its session, the database it shares with the other connections,
  the messages it has sent and the events it has broadcast. Sending on the socket succeeds (when
  it fails the connection ends), and so does sending on the broadcast channel, as the connection
  holds a receiver of it. The memory store raises no errors. \<open>None\<close> is the end of the connection.
  The policies, the sets of reconciled ids (the crate \<open>negentropy\<close>), the parser of the JSON of an
  event and the randomness of challenges are parameters.
\<close>

section \<open>Configuration and state\<close>

datatype relay_mode = GenericMode | PublicKeyMode public_key

datatype nip42_mode = WriteMode | ReadMode | BothMode

definition mode_is_read :: "nip42_mode \<Rightarrow> bool" where
  "mode_is_read m = (case m of ReadMode \<Rightarrow> True | BothMode \<Rightarrow> True | _ \<Rightarrow> False)"

definition mode_is_write :: "nip42_mode \<Rightarrow> bool" where
  "mode_is_write m = (case m of WriteMode \<Rightarrow> True | BothMode \<Rightarrow> True | _ \<Rightarrow> False)"

record nip42_options =
  n42_mode :: nip42_mode
  n42_relay_url :: "relay_url option"

datatype write_policy_result = WriteAccept | WriteReject prefix string bool

datatype query_policy_result = QueryAccept | QueryReject prefix string

text \<open>The configuration; \<open>'a\<close> is the type of socket addresses.\<close>

record 'a relay =
  rl_url :: relay_url
  rl_mode :: relay_mode
  rl_max_reqs :: nat
  rl_notes_per_minute :: nat
  rl_queries_per_minute :: nat
  rl_auth_events_per_minute :: nat
  rl_messages_per_minute :: nat
  rl_max_event_size :: nat
  rl_max_subid_length :: nat
  rl_max_filters_per_req :: nat
  rl_max_filter_limit :: nat
  rl_max_subscription_bytes :: nat
  rl_max_negentropy_subscriptions :: nat
  rl_max_negentropy_items :: nat
  rl_auth_dm :: bool
  rl_min_pow :: "nat option"
  rl_kinds_blacklist :: "kind list"
  rl_write_policy :: "(event \<Rightarrow> 'a \<Rightarrow> write_policy_result) option"
  rl_query_policy :: "(filter \<Rightarrow> 'a \<Rightarrow> filter \<times> query_policy_result) option"
  rl_nip42 :: "nip42_options option"

text \<open>\<open>LocalRelayBuilder::default\<close>.\<close>

definition relay_default :: "relay_url \<Rightarrow> 'a relay" where
  "relay_default url =
     \<lparr>rl_url = url, rl_mode = GenericMode, rl_max_reqs = 500, rl_notes_per_minute = 60,
      rl_queries_per_minute = 1200, rl_auth_events_per_minute = 30,
      rl_messages_per_minute = 6000, rl_max_event_size = 64 * 1024, rl_max_subid_length = 250,
      rl_max_filters_per_req = 20, rl_max_filter_limit = 500,
      rl_max_subscription_bytes = 1024 * 1024, rl_max_negentropy_subscriptions = 10,
      rl_max_negentropy_items = 50000, rl_auth_dm = False, rl_min_pow = None,
      rl_kinds_blacklist = [Named 13, Named 9734, Named 22242, Named 24242, Named 27235],
      rl_write_policy = None, rl_query_policy = None, rl_nip42 = None\<rparr>"

text \<open>What is outside the repository.\<close>

record 'n relay_env =
  re_x :: externals
  re_cap :: cap_ops
  re_event_from_json :: "string \<Rightarrow> event option"
  re_verify_error :: "event \<Rightarrow> string"
  re_negentropy_new :: "(event_id \<times> timestamp) list \<Rightarrow> 'n option"
  re_reconcile :: "'n \<Rightarrow> u8 list \<Rightarrow> u8 list option \<times> 'n"

text \<open>What a step reads from the clock and from the random generator, and the peer.\<close>

record 'a step_context =
  sc_instant :: instant
  sc_now :: timestamp
  sc_challenge :: string
  sc_addr :: 'a

record 'n relay_state =
  rs_session :: "'n session"
  rs_store :: memory_store
  rs_sent :: "relay_message list"
  rs_broadcast :: "event list"

definition send_msg :: "relay_message \<Rightarrow> 'n relay_state \<Rightarrow> 'n relay_state" where
  "send_msg m st = st\<lparr>rs_sent := rs_sent st @ [m]\<rparr>"

definition broadcast :: "event \<Rightarrow> 'n relay_state \<Rightarrow> 'n relay_state" where
  "broadcast e st = st\<lparr>rs_broadcast := rs_broadcast st @ [e]\<rparr>"

definition with_session :: "'n session \<Rightarrow> 'n relay_state \<Rightarrow> 'n relay_state" where
  "with_session s st = st\<lparr>rs_session := s\<rparr>"

text \<open>The texts of the form \<open>prefix: text\<close>.\<close>

definition reason :: "prefix \<Rightarrow> string \<Rightarrow> string" where
  "reason p t = prefix_as_str p @ '': '' @ t"

text \<open>\<open>generate_challenge\<close> on the session of the connection.\<close>

definition new_challenge :: "'a step_context \<Rightarrow> 'n relay_state \<Rightarrow> string \<times> 'n relay_state" where
  "new_challenge ctx st =
     (let (c, n) = generate_challenge (sc_challenge ctx) (nip42 (rs_session st))
      in (c, with_session ((rs_session st)\<lparr>nip42 := n\<rparr>) st))"

definition send_auth_and_close ::
  "'a step_context \<Rightarrow> string \<Rightarrow> 'n relay_state \<Rightarrow> 'n relay_state" where
  "send_auth_and_close ctx sid st =
     (let (c, st) = new_challenge ctx st
      in send_msg (RClosed sid (reason PAuthRequired ''you must auth'')) (send_msg (RAuth c) st))"

definition send_auth_and_neg_err ::
  "'a step_context \<Rightarrow> string \<Rightarrow> 'n relay_state \<Rightarrow> 'n relay_state" where
  "send_auth_and_neg_err ctx sid st =
     (let (c, st) = new_challenge ctx st
      in send_msg (RNegErr sid (reason PAuthRequired ''you must auth'')) (send_msg (RAuth c) st))"

definition send_query_rate_limit_error :: "string \<Rightarrow> 'n relay_state \<Rightarrow> 'n relay_state" where
  "send_query_rate_limit_error sid = send_msg (RClosed sid (reason PRateLimited ''too many queries''))"

definition send_negentropy_rate_limit_error :: "string \<Rightarrow> 'n relay_state \<Rightarrow> 'n relay_state" where
  "send_negentropy_rate_limit_error sid =
     send_msg (RNegErr sid (reason PRateLimited ''too many queries''))"

definition send_gift_wrap_error :: "string \<Rightarrow> 'n relay_state \<Rightarrow> 'n relay_state" where
  "send_gift_wrap_error sid =
     send_msg (RClosed sid (reason PError ''you cannot request another user's gift wrap''))"

definition send_gift_wrap_neg_err :: "string \<Rightarrow> 'n relay_state \<Rightarrow> 'n relay_state" where
  "send_gift_wrap_neg_err sid =
     send_msg (RNegErr sid (reason PError ''you cannot request another user's gift wrap''))"

definition send_invalid_negentropy_msg_err :: "string \<Rightarrow> 'n relay_state \<Rightarrow> 'n relay_state" where
  "send_invalid_negentropy_msg_err sid =
     send_msg (RNegErr sid (reason PError ''invalid negentropy message''))"

section \<open>Guards of queries\<close>

definition requires_read_auth :: "'a relay \<Rightarrow> 'n session \<Rightarrow> bool" where
  "requires_read_auth r s \<longleftrightarrow>
     (case rl_nip42 r of None \<Rightarrow> False | Some n \<Rightarrow> mode_is_read (n42_mode n)) \<and>
     \<not> is_authenticated (nip42 s)"

definition subscription_id_exceeds_limit :: "'a relay \<Rightarrow> string \<Rightarrow> bool" where
  "subscription_id_exceeds_limit r sid \<longleftrightarrow> rl_max_subid_length r < length sid"

datatype gift_wrap_query_access = GiftAllowed | GiftAuthRequired | GiftForbidden

text \<open>The filters that may select gift wraps, as the code sees them.\<close>

definition may_select_gift_wraps :: "filter \<Rightarrow> bool" where
  "may_select_gift_wraps f =
     (case fl_kinds f of None \<Rightarrow> True | Some ks \<Rightarrow> bts_contains as_u16 GiftWrap ks)"

definition gift_wrap_query_access ::
  "externals \<Rightarrow> 'a relay \<Rightarrow> 'n session \<Rightarrow> filter list \<Rightarrow> gift_wrap_query_access" where
  "gift_wrap_query_access x r s fs =
     (if \<not> rl_auth_dm r then GiftAllowed
      else
        let gift_wrap_filters = [f \<leftarrow> fs. may_select_gift_wraps f]
        in case auth_public_key (nip42 s) of
             None \<Rightarrow> if 0 < length gift_wrap_filters then GiftAuthRequired else GiftAllowed
           | Some pk \<Rightarrow>
               let key = public_key_to_hex x pk
               in if list_all (\<lambda>f. case btm_get slt_p (fl_generic_tags f) of
                          None \<Rightarrow> False
                        | Some ks \<Rightarrow> length ks = 1 \<and> bts_contains id key ks) gift_wrap_filters
                  then GiftAllowed else GiftForbidden)"

definition admit_query ::
  "'a relay \<Rightarrow> 'a step_context \<Rightarrow> filter \<Rightarrow> filter \<times> query_policy_result" where
  "admit_query r ctx f =
     (case rl_query_policy r of None \<Rightarrow> (f, QueryAccept) | Some policy \<Rightarrow> policy f (sc_addr ctx))"

fun admit_queries ::
  "'a relay \<Rightarrow> 'a step_context \<Rightarrow> filter list \<Rightarrow> (prefix \<times> string) + filter list" where
  "admit_queries r ctx [] = Inr []"
| "admit_queries r ctx (f # fs) =
     (case admit_query r ctx f of
        (_, QueryReject p m) \<Rightarrow> Inl (p, m)
      | (f, QueryAccept) \<Rightarrow> rbind (admit_queries r ctx fs) (\<lambda>fs. Inr (f # fs)))"

section \<open>EVENT\<close>

definition nonce_difficulty :: "tag list \<Rightarrow> nat option" where
  "nonce_difficulty ts =
     (case List.map_filter (\<lambda>t. ok_of (nip13_parse t)) ts of
        [] \<Rightarrow> None | v # _ \<Rightarrow> (case v of Nonce _ d \<Rightarrow> Some d))"

text \<open>
  The checks that do not look at the session or at the database, in the order of the code: the
  text of the first failure. The message is a JSON array that holds an event, so it is longer
  than the ten bytes that are taken from its size.
\<close>

definition event_refusal ::
  "'n relay_env \<Rightarrow> 'a relay \<Rightarrow> 'a step_context \<Rightarrow> nat \<Rightarrow> event \<Rightarrow> string option" where
  "event_refusal v r ctx message_size e =
     (if rl_max_event_size r < message_size - 10
      then Some (reason PBlocked (''event size ('' @ show_nat (message_size - 10) @
             '' bytes) exceeds maximum allowed size ('' @ show_nat (rl_max_event_size r) @
             '' bytes)''))
      else if list_ex (kind_eq (ev_kind e)) (rl_kinds_blacklist r)
      then Some (reason PBlocked (''kind `'' @ show_nat (unat (as_u16 (ev_kind e))) @
             ''` is not accepted by this relay''))
      else if \<not> verify_id (re_x v) e
      then Some (reason PInvalid ''invalid event ID'')
      else if (case rl_min_pow r of
                 None \<Rightarrow> False
               | Some difficulty \<Rightarrow>
                   (case nonce_difficulty (ev_tags e) of None \<Rightarrow> 0 | Some d \<Rightarrow> d) < difficulty \<or>
                   \<not> check_pow (ev_id e) difficulty)
      then Some (reason PPow (''required a difficulty >= '' @
             show_nat (case rl_min_pow r of None \<Rightarrow> 0 | Some d \<Rightarrow> d)))
      else if is_expired_at e (sc_now ctx)
      then Some (reason PBlocked ''event is expired'')
      else if (ev_kind e = Repost \<or> ev_kind e = GenericRepost) \<and>
              (case re_event_from_json v (ev_content e) of
                 None \<Rightarrow> False | Some inner \<Rightarrow> is_protected inner)
      then Some (reason PBlocked ''repost of a protected event'')
      else if kind_eq (ev_kind e) GiftWrap \<and> length (tags_public_keys (re_x v) (ev_tags e)) \<noteq> 1
      then Some (reason PBlocked ''GiftWrap must contain exactly one recipient public key'')
      else if \<not> verify_signature (re_x v) e
      then Some (reason PInvalid ''invalid event signature'')
      else None)"

definition requires_write_auth :: "'a relay \<Rightarrow> bool" where
  "requires_write_auth r =
     (case rl_nip42 r of None \<Rightarrow> False | Some n \<Rightarrow> mode_is_write (n42_mode n))"

definition owner_related :: "externals \<Rightarrow> 'a relay \<Rightarrow> event \<Rightarrow> bool" where
  "owner_related x r e =
     (case rl_mode r of
        GenericMode \<Rightarrow> True
      | PublicKeyMode pk \<Rightarrow> ev_pubkey e = pk \<or> pk \<in> set (tags_public_keys x (ev_tags e)))"

text \<open>The end of the handler: the event is broadcast, stored or turned down by the database.\<close>

definition store_event ::
  "'n relay_env \<Rightarrow> 'a step_context \<Rightarrow> event \<Rightarrow> 'n relay_state \<Rightarrow> 'n relay_state" where
  "store_event v ctx e st =
     (case check_id (rs_store st) (ev_id e) of
        Saved \<Rightarrow> send_msg (ROk (ev_id e) True (reason PDuplicate ''already have this event'')) st
      | Deleted \<Rightarrow> send_msg (ROk (ev_id e) False (reason PBlocked ''this event is deleted'')) st
      | NotExistent \<Rightarrow>
          (if is_ephemeral (ev_kind e)
           then send_msg (ROk (ev_id e) True []) (broadcast e st)
           else
             let (s, status) = index_event (re_x v) (re_cap v) e (sc_now ctx) (rs_store st);
                 st = st\<lparr>rs_store := s\<rparr>
             in if is_success status then send_msg (ROk (ev_id e) True []) (broadcast e st)
                else send_msg (ROk (ev_id e) False (reason PError ''unknown'')) st))"

text \<open>Who may write: NIP-42, protected events, the owner of the relay, the policy.\<close>

definition authorize_event ::
  "'n relay_env \<Rightarrow> 'a relay \<Rightarrow> 'a step_context \<Rightarrow> event \<Rightarrow> 'n relay_state \<Rightarrow> 'n relay_state" where
  "authorize_event v r ctx e st =
     (let n = nip42 (rs_session st) in
      if (requires_write_auth r \<or> is_protected e) \<and> \<not> is_authenticated n
      then
        let (c, st) = new_challenge ctx st
        in send_msg (ROk (ev_id e) False (reason PAuthRequired ''you must auth''))
             (send_msg (RAuth c) st)
      else if is_protected e \<and>
              (case auth_public_key n of None \<Rightarrow> False | Some pk \<Rightarrow> ev_pubkey e \<noteq> pk)
      then send_msg (ROk (ev_id e) False
             (reason PBlocked ''this event may only be published by its author'')) st
      else if \<not> owner_related (re_x v) r e
      then send_msg (ROk (ev_id e) False
             (reason PBlocked ''event not related to owner of this relay'')) st
      else case (case rl_write_policy r of
                   None \<Rightarrow> WriteAccept | Some policy \<Rightarrow> policy e (sc_addr ctx)) of
          WriteReject p t status \<Rightarrow> send_msg (ROk (ev_id e) status (reason p t)) st
        | WriteAccept \<Rightarrow> store_event v ctx e st)"

definition handle_event ::
  "'n relay_env \<Rightarrow> 'a relay \<Rightarrow> 'a step_context \<Rightarrow> nat \<Rightarrow> event \<Rightarrow> 'n relay_state \<Rightarrow>
   'n relay_state" where
  "handle_event v r ctx message_size e st =
     (let (limit, s) = check_rate_limit (sc_instant ctx) (rl_notes_per_minute r) (rs_session st);
          st = with_session s st
      in if limit = Limited
         then send_msg (ROk (ev_id e) False (reason PRateLimited ''slow down'')) st
         else case event_refusal v r ctx message_size e of
           Some t \<Rightarrow> send_msg (ROk (ev_id e) False t) st
         | None \<Rightarrow> authorize_event v r ctx e st)"

section \<open>REQ\<close>

text \<open>The loop that sets the limits; \<open>None\<close> is the reply that too many ids are requested.\<close>

fun limit_filters :: "nat \<Rightarrow> filter list \<Rightarrow> filter list option" where
  "limit_filters m [] = Some []"
| "limit_filters m (f # fs) =
     (case fl_limit f of
        Some n \<Rightarrow>
          map_option (Cons (if m < n then f\<lparr>fl_limit := Some m\<rparr> else f)) (limit_filters m fs)
      | None \<Rightarrow>
          (case fl_ids f of
             Some is \<Rightarrow>
               if m < length is then None
               else map_option (Cons (f\<lparr>fl_limit := Some (length is)\<rparr>)) (limit_filters m fs)
           | None \<Rightarrow> map_option (Cons (f\<lparr>fl_limit := Some m\<rparr>)) (limit_filters m fs)))"

text \<open>The sum of optional lengths: absent if one of them is.\<close>

fun ids_len :: "filter list \<Rightarrow> nat option" where
  "ids_len [] = Some 0"
| "ids_len (f # fs) =
     (case fl_ids f of
        None \<Rightarrow> None
      | Some is \<Rightarrow> map_option (\<lambda>n. length is + n) (ids_len fs))"

definition query_all :: "memory_store \<Rightarrow> filter list \<Rightarrow> event list" where
  "query_all s fs = foldl (\<lambda>evs f. bts_extend event_key evs (query s f)) [] fs"

definition send_events :: "timestamp \<Rightarrow> string \<Rightarrow> event list \<Rightarrow> 'n relay_state \<Rightarrow> 'n relay_state" where
  "send_events now sid evs st =
     foldl (\<lambda>st e. if is_expired_at e now then st else send_msg (REvent sid e) st) st evs"

definition answer_req ::
  "'a relay \<Rightarrow> 'a step_context \<Rightarrow> string \<Rightarrow> filter list \<Rightarrow> nat \<Rightarrow> 'n relay_state \<Rightarrow> 'n relay_state" where
  "answer_req r ctx sid fs request_size st =
     (let events = query_all (rs_store st) fs;
          st = send_events (sc_now ctx) sid events st;
          st = send_msg (REndOfStoredEvents sid) st
      in if ids_len fs = Some (length events) then send_msg (RClosed sid []) st
         else with_session (insert_subscription sid fs request_size (rs_session st)) st)"

definition handle_req ::
  "'n relay_env \<Rightarrow> 'a relay \<Rightarrow> 'a step_context \<Rightarrow> string \<Rightarrow> filter list \<Rightarrow> nat \<Rightarrow> 'n relay_state \<Rightarrow>
   'n relay_state" where
  "handle_req v r ctx sid fs request_size st =
     (if subscription_id_exceeds_limit r sid
      then send_msg (RClosed sid (reason PBlocked
             (''subscription ID exceeds max length '' @ show_nat (rl_max_subid_length r)))) st
      else
        let (limit, s) =
              check_query_rate_limit (sc_instant ctx) (rl_queries_per_minute r) (rs_session st);
            st = with_session s st
        in if limit = Limited then send_query_rate_limit_error sid st
           else if rl_max_reqs r \<le> length (subscriptions s) \<and> map_of (subscriptions s) sid = None
           then send_msg (RClosed sid (reason PRateLimited ''too many REQs'')) st
           else if rl_max_filters_per_req r < length fs
           then send_msg (RClosed sid (reason PBlocked ''too many filters'')) st
           else if \<not> subscription_fits sid request_size (rl_max_subscription_bytes r) s
           then send_msg (RClosed sid (reason PRateLimited
                  (''active subscriptions exceed max size '' @
                   show_nat (rl_max_subscription_bytes r) @ '' bytes''))) st
           else if requires_read_auth r s then send_auth_and_close ctx sid st
           else case admit_queries r ctx fs of
             Inl (p, t) \<Rightarrow> send_msg (RClosed sid (reason p t)) st
           | Inr fs \<Rightarrow>
               (case gift_wrap_query_access (re_x v) r s fs of
                  GiftAuthRequired \<Rightarrow> send_auth_and_close ctx sid st
                | GiftForbidden \<Rightarrow> send_gift_wrap_error sid st
                | GiftAllowed \<Rightarrow>
                    (case limit_filters (rl_max_filter_limit r) fs of
                       None \<Rightarrow>
                         send_msg (RClosed sid (reason PBlocked ''requested too many event IDs'')) st
                     | Some fs \<Rightarrow> answer_req r ctx sid fs request_size st)))"

section \<open>COUNT, CLOSE and AUTH\<close>

definition handle_count ::
  "'n relay_env \<Rightarrow> 'a relay \<Rightarrow> 'a step_context \<Rightarrow> string \<Rightarrow> filter \<Rightarrow> 'n relay_state \<Rightarrow>
   'n relay_state" where
  "handle_count v r ctx sid f st =
     (let (limit, s) =
            check_query_rate_limit (sc_instant ctx) (rl_queries_per_minute r) (rs_session st);
          st = with_session s st
      in if limit = Limited then send_query_rate_limit_error sid st
         else if requires_read_auth r s then send_auth_and_close ctx sid st
         else case admit_query r ctx f of
           (_, QueryReject p t) \<Rightarrow> send_msg (RClosed sid (reason p t)) st
         | (f, QueryAccept) \<Rightarrow>
             (case gift_wrap_query_access (re_x v) r s [f] of
                GiftAuthRequired \<Rightarrow> send_auth_and_close ctx sid st
              | GiftForbidden \<Rightarrow> send_gift_wrap_error sid st
              | GiftAllowed \<Rightarrow> send_msg (RCount sid (count (rs_store st) f)) st))"

definition handle_close :: "string \<Rightarrow> 'n relay_state \<Rightarrow> 'n relay_state" where
  "handle_close sid st = with_session (remove_subscription sid (rs_session st)) st"

definition handle_auth ::
  "'n relay_env \<Rightarrow> 'a relay \<Rightarrow> 'a step_context \<Rightarrow> event \<Rightarrow> 'n relay_state \<Rightarrow> 'n relay_state" where
  "handle_auth v r ctx e st =
     (let (limit, s) =
            check_auth_rate_limit (sc_instant ctx) (rl_auth_events_per_minute r) (rs_session st);
          st = with_session s st
      in if limit = Limited
         then send_msg (ROk (ev_id e) False
                (reason PRateLimited ''too many authentication attempts'')) st
         else
           let relay_url = (case rl_nip42 r of
                              None \<Rightarrow> rl_url r
                            | Some n \<Rightarrow> (case n42_relay_url n of None \<Rightarrow> rl_url r | Some u \<Rightarrow> u));
               (res, n) = check_challenge (re_x v) (re_verify_error v e) (sc_now ctx) e relay_url
                            (nip42 s);
               st = with_session (s\<lparr>nip42 := n\<rparr>) st
           in case res of
                Inr _ \<Rightarrow> send_msg (ROk (ev_id e) True []) st
              | Inl err \<Rightarrow> send_msg (ROk (ev_id e) False (reason PAuthRequired err)) st)"

section \<open>NEG-OPEN, NEG-MSG and NEG-CLOSE\<close>

definition decode_negentropy_message :: "externals \<Rightarrow> string \<Rightarrow> u8 list option" where
  "decode_negentropy_message x m = hex_decode x (length m div 2) m"

definition retained_items :: "string \<Rightarrow> 'n session \<Rightarrow> nat" where
  "retained_items sid s =
     foldl (\<lambda>t (_, sub). saturating_add usize_max t (neg_items sub)) 0
       [p \<leftarrow> negentropy_subscription s. fst p \<noteq> sid]"

text \<open>After the guards: the query, the set of ids, the first round and the new subscription.\<close>

definition open_negentropy ::
  "'n relay_env \<Rightarrow> 'a relay \<Rightarrow> 'a step_context \<Rightarrow> string \<Rightarrow> filter \<Rightarrow> u8 list \<Rightarrow> 'n relay_state \<Rightarrow>
   'n relay_state option" where
  "open_negentropy v r ctx sid f initial_message st =
     (let s = rs_session st;
          remaining = saturating_sub (rl_max_negentropy_items r) (retained_items sid s);
          query_limit = saturating_add usize_max remaining 1;
          f = f\<lparr>fl_limit := Some (case fl_limit f of None \<Rightarrow> query_limit | Some n \<Rightarrow> min n query_limit)\<rparr>;
          items = negentropy_items (rs_store st) f (sc_now ctx)
      in if remaining < length items
         then Some (send_msg (RNegErr sid (reason PRateLimited ''too many negentropy items'')) st)
         else case re_negentropy_new v items of
           None \<Rightarrow> None
         | Some negentropy \<Rightarrow>
             (case re_reconcile v negentropy initial_message of
                (None, _) \<Rightarrow> Some (send_invalid_negentropy_msg_err sid st)
              | (Some message, negentropy) \<Rightarrow>
                  Some (with_session
                    (s\<lparr>negentropy_subscription :=
                         AList.update sid \<lparr>neg_state = negentropy, neg_items = length items\<rparr>
                           (negentropy_subscription s)\<rparr>)
                    (send_msg (RNegMsg sid (hex_encode (re_x v) message)) st))))"

definition handle_neg_open ::
  "'n relay_env \<Rightarrow> 'a relay \<Rightarrow> 'a step_context \<Rightarrow> string \<Rightarrow> filter \<Rightarrow> string \<Rightarrow> 'n relay_state \<Rightarrow>
   'n relay_state option" where
  "handle_neg_open v r ctx sid f initial_message st =
     (let (limit, s) =
            check_query_rate_limit (sc_instant ctx) (rl_queries_per_minute r) (rs_session st);
          st = with_session s st
      in if limit = Limited then Some (send_negentropy_rate_limit_error sid st)
         else if subscription_id_exceeds_limit r sid
         then Some (send_msg (RNegErr sid (reason PBlocked
                (''subscription ID exceeds max length '' @ show_nat (rl_max_subid_length r)))) st)
         else if rl_max_negentropy_subscriptions r \<le> length (negentropy_subscription s) \<and>
                 map_of (negentropy_subscription s) sid = None
         then Some (send_msg (RNegErr sid
                (reason PRateLimited ''too many negentropy subscriptions'')) st)
         else if requires_read_auth r s then Some (send_auth_and_neg_err ctx sid st)
         else case admit_query r ctx f of
           (_, QueryReject p t) \<Rightarrow> Some (send_msg (RNegErr sid (reason p t)) st)
         | (f, QueryAccept) \<Rightarrow>
             (case gift_wrap_query_access (re_x v) r s [f] of
                GiftAuthRequired \<Rightarrow> Some (send_auth_and_neg_err ctx sid st)
              | GiftForbidden \<Rightarrow> Some (send_gift_wrap_neg_err sid st)
              | GiftAllowed \<Rightarrow>
                  (case decode_negentropy_message (re_x v) initial_message of
                     None \<Rightarrow> Some (send_invalid_negentropy_msg_err sid st)
                   | Some bytes \<Rightarrow> open_negentropy v r ctx sid f bytes st)))"

definition remove_negentropy :: "string \<Rightarrow> 'n session \<Rightarrow> 'n session" where
  "remove_negentropy sid s =
     s\<lparr>negentropy_subscription := AList.delete sid (negentropy_subscription s)\<rparr>"

definition handle_neg_msg ::
  "'n relay_env \<Rightarrow> 'a relay \<Rightarrow> 'a step_context \<Rightarrow> string \<Rightarrow> string \<Rightarrow> 'n relay_state \<Rightarrow>
   'n relay_state" where
  "handle_neg_msg v r ctx sid message st =
     (let (limit, s) =
            check_negentropy_rate_limit (sc_instant ctx) (rl_queries_per_minute r) (rs_session st);
          st = with_session s st
      in if limit = Limited then send_negentropy_rate_limit_error sid st
         else case decode_negentropy_message (re_x v) message of
           None \<Rightarrow> send_invalid_negentropy_msg_err sid (with_session (remove_negentropy sid s) st)
         | Some buf \<Rightarrow>
             (case map_of (negentropy_subscription s) sid of
                Some sub \<Rightarrow>
                  (case re_reconcile v (neg_state sub) buf of
                     (Some reply, negentropy) \<Rightarrow>
                       send_msg (RNegMsg sid (hex_encode (re_x v) reply))
                         (with_session
                           (s\<lparr>negentropy_subscription :=
                                AList.update sid (sub\<lparr>neg_state := negentropy\<rparr>)
                                  (negentropy_subscription s)\<rparr>) st)
                   | (None, _) \<Rightarrow>
                       send_invalid_negentropy_msg_err sid
                         (with_session (remove_negentropy sid s) st))
              | None \<Rightarrow> send_msg (RNegErr sid (reason PError ''subscription not found'')) st))"

definition handle_neg_close :: "string \<Rightarrow> 'n relay_state \<Rightarrow> 'n relay_state" where
  "handle_neg_close sid st = with_session (remove_negentropy sid (rs_session st)) st"

section \<open>The loop of a connection\<close>

definition handle_client_msg ::
  "'n relay_env \<Rightarrow> 'a relay \<Rightarrow> 'a step_context \<Rightarrow> nat \<Rightarrow> client_message \<Rightarrow> 'n relay_state \<Rightarrow>
   'n relay_state option" where
  "handle_client_msg v r ctx message_size m st =
     (case m of
        CEvent e \<Rightarrow> Some (handle_event v r ctx message_size e st)
      | CReq sid fs \<Rightarrow> Some (handle_req v r ctx sid fs message_size st)
      | CCount sid f \<Rightarrow> Some (handle_count v r ctx sid f st)
      | CClose sid \<Rightarrow> Some (handle_close sid st)
      | CAuth e \<Rightarrow> Some (handle_auth v r ctx e st)
      | CNegOpen sid f t \<Rightarrow> handle_neg_open v r ctx sid f t st
      | CNegMsg sid t \<Rightarrow> Some (handle_neg_msg v r ctx sid t st)
      | CNegClose sid \<Rightarrow> Some (handle_neg_close sid st))"

text \<open>
  A frame: a text with the result of its parse and its size, a binary frame, or one of the frames
  that are only charged. An event comes from the broadcast channel, \<open>Lagged\<close> is its overflow.
\<close>

datatype connection_input =
  TextFrame "client_message res" nat | BinaryFrame | ControlFrame | NewEvent event | Lagged

definition deliver_event :: "event \<Rightarrow> 'n relay_state \<Rightarrow> 'n relay_state" where
  "deliver_event e st =
     foldl (\<lambda>st (sid, sub).
              if list_ex (\<lambda>f. match_event f e match_all) (sub_filters sub)
              then send_msg (REvent sid e) st else st)
       st (subscriptions (rs_session st))"

definition close_lagged :: "'n relay_state \<Rightarrow> 'n relay_state" where
  "close_lagged st =
     (let s = rs_session st
      in foldl (\<lambda>st (sid, _).
                  send_msg (RClosed sid
                    ''error: live event buffer overflow; resubscribe to recover stored events'') st)
           (with_session (s\<lparr>subscription_bytes := 0, subscriptions := []\<rparr>) st)
           (subscriptions s))"

definition handle_frame ::
  "'n relay_env \<Rightarrow> 'a relay \<Rightarrow> 'a step_context \<Rightarrow> connection_input \<Rightarrow> 'n relay_state \<Rightarrow>
   'n relay_state option" where
  "handle_frame v r ctx frame st =
     (let (limit, s) =
            check_message_rate_limit (sc_instant ctx) (rl_messages_per_minute r) (rs_session st);
          st = with_session s st
      in if limit = Limited then None
         else case frame of
           TextFrame parsed sz \<Rightarrow>
             (case parsed of
                Inr m \<Rightarrow> handle_client_msg v r ctx sz m st
              | Inl err \<Rightarrow> Some (send_msg (RNotice ''invalid client message'') st))
         | BinaryFrame \<Rightarrow>
             Some (send_msg (RNotice ''binary messages are not processed by this relay'') st)
         | _ \<Rightarrow> Some st)"

definition connection_step ::
  "'n relay_env \<Rightarrow> 'a relay \<Rightarrow> 'a step_context \<Rightarrow> connection_input \<Rightarrow> 'n relay_state \<Rightarrow>
   'n relay_state option" where
  "connection_step v r ctx i st =
     (case i of
        NewEvent e \<Rightarrow> Some (deliver_event e st)
      | Lagged \<Rightarrow> Some (close_lagged st)
      | _ \<Rightarrow> handle_frame v r ctx i st)"

text \<open>\<open>handle_websocket\<close>: a new session over the database as it is.\<close>

definition connection_new :: "'a relay \<Rightarrow> memory_store \<Rightarrow> 'n relay_state" where
  "connection_new r store =
     \<lparr>rs_session = session_new (rl_notes_per_minute r) (rl_queries_per_minute r)
        (rl_auth_events_per_minute r) (rl_messages_per_minute r),
      rs_store = store, rs_sent = [], rs_broadcast = []\<rparr>"

text \<open>
  The states of a connection: it starts on any database, makes a step on any input, and between
  two steps other connections change the database.
\<close>

inductive connection_reaches ::
  "'n relay_env \<Rightarrow> 'a relay \<Rightarrow> 'n relay_state \<Rightarrow> bool" for v r where
  start: "store_ok (re_x v) store \<Longrightarrow> connection_reaches v r (connection_new r store)"
| step: "connection_reaches v r st \<Longrightarrow> connection_step v r ctx i st = Some st' \<Longrightarrow>
    connection_reaches v r st'"
| other: "connection_reaches v r st \<Longrightarrow> store_ok (re_x v) store \<Longrightarrow>
    connection_reaches v r (st\<lparr>rs_store := store\<rparr>)"

section \<open>A concrete environment\<close>

text \<open>For the witnesses: reconciliation is the identity on an empty state.\<close>

definition ref_env :: "unit relay_env" where
  "ref_env =
     \<lparr>re_x = ref_externals, re_cap = ref_cap, re_event_from_json = (\<lambda>_. None),
      re_verify_error = (\<lambda>_. ''invalid event''), re_negentropy_new = (\<lambda>_. Some ()),
      re_reconcile = (\<lambda>_ m. (Some m, ()))\<rparr>"

definition ref_context :: "unit step_context" where
  "ref_context =
     \<lparr>sc_instant = 0, sc_now = 100, sc_challenge = ''challenge'', sc_addr = ()\<rparr>"

text \<open>The default relay with authentication for reading and writing.\<close>

definition ref_relay :: "unit relay" where
  "ref_relay = (relay_default ref_url)
     \<lparr>rl_nip42 := Some \<lparr>n42_mode = BothMode, n42_relay_url = None\<rparr>\<rparr>"

end
