(* ===== verification/Relay_Invariant.thy ===== *)
theory Relay_Invariant
  imports Local_Relay
begin

text \<open>
  Invariants of a connection of the local relay: the limits of its configuration bound what a
  session retains, and a relay that requires authentication for reading gives nothing to a
  connection that has not authenticated.
\<close>

section \<open>Fields\<close>

lemma send_msg_simps [simp]:
  "rs_session (send_msg m st) = rs_session st" "rs_store (send_msg m st) = rs_store st"
  "rs_sent (send_msg m st) = rs_sent st @ [m]" "rs_broadcast (send_msg m st) = rs_broadcast st"
  by (simp_all add: send_msg_def)

lemma broadcast_simps [simp]:
  "rs_session (broadcast e st) = rs_session st" "rs_store (broadcast e st) = rs_store st"
  "rs_sent (broadcast e st) = rs_sent st" "rs_broadcast (broadcast e st) = rs_broadcast st @ [e]"
  by (simp_all add: broadcast_def)

lemma with_session_simps [simp]:
  "rs_session (with_session s st) = s" "rs_store (with_session s st) = rs_store st"
  "rs_sent (with_session s st) = rs_sent st" "rs_broadcast (with_session s st) = rs_broadcast st"
  by (simp_all add: with_session_def)

lemma with_session_twice [simp]: "with_session s (with_session t st) = with_session s st"
  by (simp add: with_session_def)

lemma new_challenge_eq:
  "new_challenge ctx st =
     (sc_challenge ctx,
      with_session ((rs_session st)\<lparr>nip42 := snd (generate_challenge (sc_challenge ctx)
        (nip42 (rs_session st)))\<rparr>) st)"
  by (simp add: new_challenge_def generate_challenge_def Let_def)

lemma generate_challenge_key [simp]:
  "auth_public_key (snd (generate_challenge c n)) = auth_public_key n"
  by (simp add: generate_challenge_def Let_def)

lemma generate_challenge_member: "c \<in> set (challenges (snd (generate_challenge c n)))"
  by (simp add: generate_challenge_def Let_def)

lemma send_auth_simps [simp]:
  "rs_store (send_auth_and_close ctx sid st) = rs_store st"
  "rs_broadcast (send_auth_and_close ctx sid st) = rs_broadcast st"
  "rs_sent (send_auth_and_close ctx sid st) = rs_sent st @
     [RAuth (sc_challenge ctx), RClosed sid (reason PAuthRequired ''you must auth'')]"
  "rs_session (send_auth_and_close ctx sid st) = (rs_session st)\<lparr>nip42 :=
     snd (generate_challenge (sc_challenge ctx) (nip42 (rs_session st)))\<rparr>"
  "rs_store (send_auth_and_neg_err ctx sid st) = rs_store st"
  "rs_broadcast (send_auth_and_neg_err ctx sid st) = rs_broadcast st"
  "rs_sent (send_auth_and_neg_err ctx sid st) = rs_sent st @
     [RAuth (sc_challenge ctx), RNegErr sid (reason PAuthRequired ''you must auth'')]"
  "rs_session (send_auth_and_neg_err ctx sid st) = (rs_session st)\<lparr>nip42 :=
     snd (generate_challenge (sc_challenge ctx) (nip42 (rs_session st)))\<rparr>"
  by (simp_all add: send_auth_and_close_def send_auth_and_neg_err_def new_challenge_eq)

lemmas send_defs =
  send_query_rate_limit_error_def send_negentropy_rate_limit_error_def send_gift_wrap_error_def
  send_gift_wrap_neg_err_def send_invalid_negentropy_msg_err_def

lemma send_events_eq:
  "send_events now sid evs st =
     st\<lparr>rs_sent := rs_sent st @ map (REvent sid) [e \<leftarrow> evs. \<not> is_expired_at e now]\<rparr>"
  unfolding send_events_def by (induction evs arbitrary: st) (simp_all add: send_msg_def)

lemma deliver_event_eq:
  "deliver_event e st =
     st\<lparr>rs_sent := rs_sent st @ map (\<lambda>(sid, _). REvent sid e)
        [p \<leftarrow> subscriptions (rs_session st).
          list_ex (\<lambda>f. match_event f e match_all) (sub_filters (snd p))]\<rparr>"
proof -
  have "foldl (\<lambda>st (sid, sub).
      if list_ex (\<lambda>f. match_event f e match_all) (sub_filters sub)
      then send_msg (REvent sid e) st else st) st subs =
    st\<lparr>rs_sent := rs_sent st @ map (\<lambda>(sid, _). REvent sid e)
      [p \<leftarrow> subs. list_ex (\<lambda>f. match_event f e match_all) (sub_filters (snd p))]\<rparr>" for subs
    by (induction subs arbitrary: st) (auto simp: send_msg_def)
  then show ?thesis by (simp add: deliver_event_def)
qed

lemma close_lagged_eq:
  "rs_session (close_lagged st) = (rs_session st)\<lparr>subscription_bytes := 0, subscriptions := []\<rparr>"
  "rs_store (close_lagged st) = rs_store st"
  "rs_sent (close_lagged st) = rs_sent st @ map (\<lambda>(sid, _). RClosed sid
     ''error: live event buffer overflow; resubscribe to recover stored events'')
     (subscriptions (rs_session st))"
proof -
  define t where "t = ''error: live event buffer overflow; resubscribe to recover stored events''"
  have "foldl (\<lambda>st (sid, _). send_msg (RClosed sid t) st) st subs =
    st\<lparr>rs_sent := rs_sent st @ map (\<lambda>(sid, _). RClosed sid t) subs\<rparr>"
    for subs :: "(string \<times> subscription) list" and st :: "'b relay_state"
    by (induction subs arbitrary: st) (auto simp: send_msg_def)
  note eq = this [unfolded t_def]
  show "rs_session (close_lagged st) = (rs_session st)\<lparr>subscription_bytes := 0, subscriptions := []\<rparr>"
    "rs_store (close_lagged st) = rs_store st"
    "rs_sent (close_lagged st) = rs_sent st @ map (\<lambda>(sid, _). RClosed sid
       ''error: live event buffer overflow; resubscribe to recover stored events'')
       (subscriptions (rs_session st))"
    by (simp_all only: close_lagged_def Let_def eq) (simp_all add: with_session_def)
qed

section \<open>The bounds of a session\<close>

definition relay_ok :: "'a relay \<Rightarrow> bool" where
  "relay_ok r \<longleftrightarrow>
     rl_notes_per_minute r \<le> u32_max \<and> rl_queries_per_minute r \<le> u32_max \<and>
     rl_auth_events_per_minute r \<le> u32_max \<and> rl_messages_per_minute r \<le> u32_max \<and>
     rl_max_subscription_bytes r \<le> usize_max \<and> rl_max_negentropy_items r < usize_max"

definition budgets_ok :: "'a relay \<Rightarrow> 'n session \<Rightarrow> bool" where
  "budgets_ok r s \<longleftrightarrow>
     tokens_ok (rl_notes_per_minute r) (write_tokens s) \<and>
     tokens_ok (rl_queries_per_minute r) (query_tokens s) \<and>
     tokens_ok (rl_queries_per_minute r) (negentropy_tokens s) \<and>
     tokens_ok (rl_auth_events_per_minute r) (auth_tokens s) \<and>
     tokens_ok (rl_messages_per_minute r) (message_tokens s)"

definition retained_ok :: "'a relay \<Rightarrow> 'n session \<Rightarrow> bool" where
  "retained_ok r s \<longleftrightarrow>
     subscriptions_ok (rl_max_subscription_bytes r) s \<and>
     length (subscriptions s) \<le> rl_max_reqs r \<and>
     (\<forall>(sid, sub) \<in> set (subscriptions s).
        length sid \<le> rl_max_subid_length r \<and>
        length (sub_filters sub) \<le> rl_max_filters_per_req r) \<and>
     distinct (map fst (negentropy_subscription s)) \<and>
     length (negentropy_subscription s) \<le> rl_max_negentropy_subscriptions r \<and>
     map_total neg_items (negentropy_subscription s) \<le> rl_max_negentropy_items r"

definition session_ok :: "'a relay \<Rightarrow> 'n session \<Rightarrow> bool" where
  "session_ok r s \<longleftrightarrow> budgets_ok r s \<and> retained_ok r s \<and> nip42_session_ok (nip42 s)"

text \<open>The limits take one token of their own bucket and leave everything else.\<close>

lemma take_token_ok: "tokens_ok m t \<Longrightarrow> tokens_ok m (snd (take_token now m t))"
  by (auto simp: take_token_def Let_def tokens_ok_def replenish_def split: option.split)

lemma rate_limits_eq:
  "check_rate_limit i m s = (fst (take_token i m (write_tokens s)),
     s\<lparr>write_tokens := snd (take_token i m (write_tokens s))\<rparr>)"
  "check_query_rate_limit i m s = (fst (take_token i m (query_tokens s)),
     s\<lparr>query_tokens := snd (take_token i m (query_tokens s))\<rparr>)"
  "check_negentropy_rate_limit i m s = (fst (take_token i m (negentropy_tokens s)),
     s\<lparr>negentropy_tokens := snd (take_token i m (negentropy_tokens s))\<rparr>)"
  "check_auth_rate_limit i m s = (fst (take_token i m (auth_tokens s)),
     s\<lparr>auth_tokens := snd (take_token i m (auth_tokens s))\<rparr>)"
  "check_message_rate_limit i m s = (fst (take_token i m (message_tokens s)),
     s\<lparr>message_tokens := snd (take_token i m (message_tokens s))\<rparr>)"
  by (simp_all add: check_rate_limit_def check_query_rate_limit_def check_negentropy_rate_limit_def
      check_auth_rate_limit_def check_message_rate_limit_def split: prod.split)

lemma session_ok_limits:
  assumes "session_ok r s"
  shows "session_ok r (s\<lparr>write_tokens := snd (take_token i (rl_notes_per_minute r) (write_tokens s))\<rparr>)"
    and "session_ok r (s\<lparr>query_tokens := snd (take_token i (rl_queries_per_minute r) (query_tokens s))\<rparr>)"
    and "session_ok r (s\<lparr>negentropy_tokens :=
      snd (take_token i (rl_queries_per_minute r) (negentropy_tokens s))\<rparr>)"
    and "session_ok r (s\<lparr>auth_tokens := snd (take_token i (rl_auth_events_per_minute r) (auth_tokens s))\<rparr>)"
    and "session_ok r (s\<lparr>message_tokens := snd (take_token i (rl_messages_per_minute r) (message_tokens s))\<rparr>)"
  using assms by (simp_all add: session_ok_def budgets_ok_def retained_ok_def subscriptions_ok_def
      take_token_ok)

lemma session_ok_nip42:
  "session_ok r s \<Longrightarrow> nip42_session_ok n \<Longrightarrow> session_ok r (s\<lparr>nip42 := n\<rparr>)"
  by (simp add: session_ok_def budgets_ok_def retained_ok_def subscriptions_ok_def)

lemma session_ok_challenge:
  "session_ok r s \<Longrightarrow> session_ok r (s\<lparr>nip42 := snd (generate_challenge c (nip42 s))\<rparr>)"
  by (rule session_ok_nip42) (simp_all add: session_ok_def generate_challenge_ok)

lemma length_update: "length (AList.update k v m) =
    (if map_of m k = None then Suc (length m) else length m)"
  by (induction m) auto

lemma in_update: "distinct (map fst m) \<Longrightarrow>
   p \<in> set (AList.update k v m) \<Longrightarrow> p = (k, v) \<or> p \<in> set m"
  by (induction m) (auto split: if_splits)

lemma session_ok_insert:
  assumes ok: "session_ok r s" and fit: "subscription_fits sid n (rl_max_subscription_bytes r) s"
    and room: "\<not> (rl_max_reqs r \<le> length (subscriptions s) \<and> map_of (subscriptions s) sid = None)"
    and id: "length sid \<le> rl_max_subid_length r" and fs: "length fs \<le> rl_max_filters_per_req r"
  shows "session_ok r (insert_subscription sid fs n s)"
proof -
  have subs: "subscriptions_ok (rl_max_subscription_bytes r) s"
    using ok by (simp add: session_ok_def retained_ok_def)
  then have d: "distinct (map fst (subscriptions s))" by (simp add: subscriptions_ok_def)
  have "subscriptions_ok (rl_max_subscription_bytes r) (insert_subscription sid fs n s)"
    by (rule insert_subscription_ok [OF subs fit])
  moreover have "subscriptions (insert_subscription sid fs n s) =
      AList.update sid \<lparr>sub_filters = fs, sub_size = n\<rparr> (subscriptions s)"
    by (simp add: insert_subscription_def Let_def)
  moreover have "length (AList.update sid \<lparr>sub_filters = fs, sub_size = n\<rparr> (subscriptions s))
      \<le> rl_max_reqs r"
    using room ok by (auto simp: length_update session_ok_def retained_ok_def)
  moreover have "\<forall>(i, sub) \<in> set (AList.update sid \<lparr>sub_filters = fs, sub_size = n\<rparr> (subscriptions s)).
      length i \<le> rl_max_subid_length r \<and> length (sub_filters sub) \<le> rl_max_filters_per_req r"
  proof
    fix p
    assume "p \<in> set (AList.update sid \<lparr>sub_filters = fs, sub_size = n\<rparr> (subscriptions s))"
    then have "p = (sid, \<lparr>sub_filters = fs, sub_size = n\<rparr>) \<or> p \<in> set (subscriptions s)"
      by (rule in_update [OF d])
    then show "case p of (i, sub) \<Rightarrow>
        length i \<le> rl_max_subid_length r \<and> length (sub_filters sub) \<le> rl_max_filters_per_req r"
      using ok id fs by (auto simp: session_ok_def retained_ok_def)
  qed
  ultimately show ?thesis
    using ok by (simp add: session_ok_def retained_ok_def budgets_ok_def)
      (simp add: insert_subscription_def Let_def)
qed

lemma session_ok_remove:
  assumes ok: "session_ok r s"
  shows "session_ok r (remove_subscription sid s)"
proof -
  have "subscriptions_ok (rl_max_subscription_bytes r) (remove_subscription sid s)"
    using ok by (intro remove_subscription_ok) (simp add: session_ok_def retained_ok_def)
  moreover have "set (subscriptions (remove_subscription sid s)) \<subseteq> set (subscriptions s)"
    "length (subscriptions (remove_subscription sid s)) \<le> length (subscriptions s)"
    by (auto simp: remove_subscription_def AList.delete_eq split: option.split
        intro: length_filter_le)
  ultimately show ?thesis
    using ok unfolding session_ok_def retained_ok_def budgets_ok_def
    by (auto simp: remove_subscription_def split: option.splits)
qed

lemma session_ok_remove_negentropy:
  assumes "session_ok r s"
  shows "session_ok r (remove_negentropy sid s)"
proof -
  define m where "m = negentropy_subscription s"
  have d: "distinct (map fst m)" using assms by (simp add: m_def session_ok_def retained_ok_def)
  have "distinct (map fst (AList.delete sid m))" by (rule distinct_delete [OF d])
  moreover have "length (AList.delete sid m) \<le> length m" by (simp add: AList.delete_eq)
  moreover have "map_total neg_items (AList.delete sid m) \<le> map_total neg_items m"
    using map_total_delete [OF d, of neg_items sid] by simp
  ultimately show ?thesis
    using assms by (simp add: session_ok_def retained_ok_def budgets_ok_def subscriptions_ok_def
        remove_negentropy_def m_def)
qed

lemma retained_items_le: "retained_items sid s = min usize_max
    (map_total neg_items [p \<leftarrow> negentropy_subscription s. fst p \<noteq> sid])"
proof -
  have "foldl (\<lambda>t (_, sub). saturating_add usize_max t (neg_items sub)) a m =
      min usize_max (a + map_total neg_items m)" if "a \<le> usize_max"
    for a and m :: "(string \<times> 'a neg_subscription) list"
    using that by (induction m arbitrary: a) (auto simp: saturating_add_def)
  from this [of 0] show ?thesis by (simp add: retained_items_def)
qed

lemma session_ok_update_negentropy:
  assumes ok: "session_ok r s" and rok: "relay_ok r"
    and room: "\<not> (rl_max_negentropy_subscriptions r \<le> length (negentropy_subscription s) \<and>
      map_of (negentropy_subscription s) sid = None)"
    and items: "neg_items sub \<le> rl_max_negentropy_items r - retained_items sid s"
  shows "session_ok r (s\<lparr>negentropy_subscription :=
    AList.update sid sub (negentropy_subscription s)\<rparr>)"
proof -
  define m where "m = negentropy_subscription s"
  have d: "distinct (map fst m)" and t: "map_total neg_items m \<le> rl_max_negentropy_items r"
    using ok by (simp_all add: m_def session_ok_def retained_ok_def)
  have del: "[p \<leftarrow> m. fst p \<noteq> sid] = AList.delete sid m" by (simp add: AList.delete_eq case_prod_beta' eq_commute)
  have "map_total neg_items (AList.delete sid m) \<le> rl_max_negentropy_items r"
    using map_total_delete [OF d, of neg_items sid] t by simp
  moreover have "rl_max_negentropy_items r < usize_max" using rok by (simp add: relay_ok_def)
  ultimately have "map_total neg_items (AList.delete sid m) + neg_items sub \<le> rl_max_negentropy_items r"
    using items by (simp add: retained_items_le m_def [symmetric] del)
  then have "map_total neg_items (AList.update sid sub m) \<le> rl_max_negentropy_items r"
    using map_total_delete [OF d, of neg_items sid] map_total_update [OF d, of neg_items sid sub]
    by simp
  moreover have "distinct (map fst (AList.update sid sub m))" by (rule distinct_update [OF d])
  moreover have "length (AList.update sid sub m) \<le> rl_max_negentropy_subscriptions r"
    using room ok by (auto simp: length_update m_def session_ok_def retained_ok_def)
  ultimately show ?thesis
    using ok by (simp add: session_ok_def retained_ok_def budgets_ok_def subscriptions_ok_def m_def)
qed

section \<open>Every handler keeps the bounds\<close>

lemma limit_filters_length: "limit_filters m fs = Some gs \<Longrightarrow> length gs = length fs"
  by (induction m fs arbitrary: gs rule: limit_filters.induct) (auto split: option.splits if_splits)

lemma admit_queries_length: "admit_queries r ctx fs = Inr gs \<Longrightarrow> length gs = length fs"
  by (induction r ctx fs arbitrary: gs rule: admit_queries.induct)
    (auto simp: rbind_Inr split: prod.splits query_policy_result.splits)

lemma store_event_session [simp]:
  "rs_session (store_event v ctx e st) = rs_session st"
  by (auto simp: store_event_def Let_def split: database_event_status.split prod.split)

text \<open>The three ways an \<open>EVENT\<close> ends: a refusal, a challenge, or the database.\<close>

definition event_session ::
  "'a relay \<Rightarrow> 'a step_context \<Rightarrow> 'n relay_state \<Rightarrow> 'n session" where
  "event_session r ctx st =
     snd (check_rate_limit (sc_instant ctx) (rl_notes_per_minute r) (rs_session st))"

text \<open>All the conditions an event passes before the database sees it.\<close>

definition event_admitted ::
  "'n relay_env \<Rightarrow> 'a relay \<Rightarrow> 'a step_context \<Rightarrow> nat \<Rightarrow> event \<Rightarrow> nip42_session \<Rightarrow> bool" where
  "event_admitted v r ctx message_size e n \<longleftrightarrow>
     message_size - 10 \<le> rl_max_event_size r \<and>
     \<not> list_ex (kind_eq (ev_kind e)) (rl_kinds_blacklist r) \<and>
     verify_id (re_x v) e \<and> verify_signature (re_x v) e \<and>
     (case rl_min_pow r of None \<Rightarrow> True
      | Some d \<Rightarrow> (\<exists>claim. nonce_difficulty (ev_tags e) = Some claim \<and> d \<le> claim \<or> d = 0) \<and>
          check_pow (ev_id e) d) \<and>
     \<not> is_expired_at e (sc_now ctx) \<and>
     \<not> ((ev_kind e = Repost \<or> ev_kind e = GenericRepost) \<and>
        (\<exists>inner. re_event_from_json v (ev_content e) = Some inner \<and> is_protected inner)) \<and>
     (\<not> kind_eq (ev_kind e) GiftWrap \<or> (\<exists>pk. tags_public_keys (re_x v) (ev_tags e) = [pk])) \<and>
     (\<not> requires_write_auth r \<or> is_authenticated n) \<and>
     (\<not> is_protected e \<or> auth_public_key n = Some (ev_pubkey e)) \<and>
     owner_related (re_x v) r e \<and>
     (case rl_write_policy r of None \<Rightarrow> True | Some policy \<Rightarrow> policy e (sc_addr ctx) = WriteAccept)"

lemma event_refusal_None:
  "event_refusal v r ctx n e = None \<longleftrightarrow>
     n - 10 \<le> rl_max_event_size r \<and>
     \<not> list_ex (kind_eq (ev_kind e)) (rl_kinds_blacklist r) \<and>
     verify_id (re_x v) e \<and> verify_signature (re_x v) e \<and>
     (case rl_min_pow r of None \<Rightarrow> True
      | Some d \<Rightarrow> (\<exists>claim. nonce_difficulty (ev_tags e) = Some claim \<and> d \<le> claim \<or> d = 0) \<and>
          check_pow (ev_id e) d) \<and>
     \<not> is_expired_at e (sc_now ctx) \<and>
     \<not> ((ev_kind e = Repost \<or> ev_kind e = GenericRepost) \<and>
        (\<exists>inner. re_event_from_json v (ev_content e) = Some inner \<and> is_protected inner)) \<and>
     (\<not> kind_eq (ev_kind e) GiftWrap \<or> (\<exists>pk. tags_public_keys (re_x v) (ev_tags e) = [pk]))"
proof -
  have one: "length xs = 1 \<longleftrightarrow> (\<exists>a. xs = [a])" for xs :: "public_key list"
    by (auto simp: length_Suc_conv)
  have pow: "(case nonce_difficulty (ev_tags e) of None \<Rightarrow> 0 | Some d \<Rightarrow> d) < d \<longleftrightarrow>
      \<not> (\<exists>claim. nonce_difficulty (ev_tags e) = Some claim \<and> d \<le> claim \<or> d = 0)" for d
    by (cases "nonce_difficulty (ev_tags e)") auto
  show ?thesis
    unfolding event_refusal_def pow one
    by (cases "rl_min_pow r"; cases "re_event_from_json v (ev_content e)") auto
qed

lemma handle_event_cases:
  fixes st :: "'n relay_state" and r :: "'a relay" and ctx :: "'a step_context"
  defines "s \<equiv> event_session r ctx st"
  obtains
    (refused) t b where
      "handle_event v r ctx n e st = send_msg (ROk (ev_id e) b t) (with_session s st)" and "t \<noteq> []"
  | (challenged) "\<not> is_authenticated (nip42 s)" and
      "handle_event v r ctx n e st =
         send_msg (ROk (ev_id e) False (reason PAuthRequired ''you must auth''))
           (send_msg (RAuth (sc_challenge ctx)) (with_session (s\<lparr>nip42 :=
             snd (generate_challenge (sc_challenge ctx) (nip42 s))\<rparr>) st))"
  | (admitted) "event_admitted v r ctx n e (nip42 s)" and
      "handle_event v r ctx n e st = store_event v ctx e (with_session s st)"
proof -
  have s: "check_rate_limit (sc_instant ctx) (rl_notes_per_minute r) (rs_session st) =
      (fst (check_rate_limit (sc_instant ctx) (rl_notes_per_minute r) (rs_session st)), s)"
    by (simp add: s_def event_session_def)
  have ne: "reason p t \<noteq> []" for p t by (simp add: reason_def)
  have refusal_ne: "event_refusal v r ctx n e = Some t \<Longrightarrow> t \<noteq> []" for t
    by (auto simp: event_refusal_def ne split: if_splits)
  define lim where
    "lim = fst (check_rate_limit (sc_instant ctx) (rl_notes_per_minute r) (rs_session st))"
  have eq: "handle_event v r ctx n e st =
     (if lim = Limited then send_msg (ROk (ev_id e) False (reason PRateLimited ''slow down'')) (with_session s st)
      else case event_refusal v r ctx n e of
        Some t \<Rightarrow> send_msg (ROk (ev_id e) False t) (with_session s st)
      | None \<Rightarrow>
          if (requires_write_auth r \<or> is_protected e) \<and> \<not> is_authenticated (nip42 s)
          then send_msg (ROk (ev_id e) False (reason PAuthRequired ''you must auth''))
             (send_msg (RAuth (sc_challenge ctx)) (with_session (s\<lparr>nip42 :=
               snd (generate_challenge (sc_challenge ctx) (nip42 s))\<rparr>) st))
          else if is_protected e \<and> (case auth_public_key (nip42 s) of None \<Rightarrow> False
              | Some pk \<Rightarrow> ev_pubkey e \<noteq> pk)
          then send_msg (ROk (ev_id e) False
             (reason PBlocked ''this event may only be published by its author'')) (with_session s st)
          else if \<not> owner_related (re_x v) r e
          then send_msg (ROk (ev_id e) False
             (reason PBlocked ''event not related to owner of this relay'')) (with_session s st)
          else case (case rl_write_policy r of None \<Rightarrow> WriteAccept
                     | Some policy \<Rightarrow> policy e (sc_addr ctx)) of
              WriteReject p t status \<Rightarrow> send_msg (ROk (ev_id e) status (reason p t)) (with_session s st)
            | WriteAccept \<Rightarrow> store_event v ctx e (with_session s st))"
    unfolding handle_event_def authorize_event_def lim_def [symmetric]
    by (subst s)
      (simp only: lim_def [symmetric] Let_def new_challenge_eq prod.case with_session_twice
        with_session_simps)
  show thesis
  proof (cases "lim = Limited")
    case True
    then show thesis using refused eq ne by simp
  next
    case lim: False
    show thesis
    proof (cases "event_refusal v r ctx n e")
      case (Some t)
      then show thesis using refused eq lim refusal_ne by simp
    next
      case None
      show thesis
      proof (cases "(requires_write_auth r \<or> is_protected e) \<and> \<not> is_authenticated (nip42 s)")
        case True
        then show thesis using challenged eq lim None by simp
      next
        case auth: False
        note e1 = eq [unfolded if_not_P [OF lim] None option.case if_not_P [OF auth]]
        show thesis
        proof (cases "is_protected e \<and> (case auth_public_key (nip42 s) of None \<Rightarrow> False
              | Some pk \<Rightarrow> ev_pubkey e \<noteq> pk) \<or> \<not> owner_related (re_x v) r e")
          case True
          then show thesis using refused e1 ne by (auto split: if_splits)
        next
          case False
          show thesis
          proof (cases "case rl_write_policy r of None \<Rightarrow> WriteAccept
                     | Some policy \<Rightarrow> policy e (sc_addr ctx)")
            case WriteAccept
            have "event_admitted v r ctx n e (nip42 s)"
              using None auth False WriteAccept
              by (auto simp: event_admitted_def event_refusal_None is_authenticated_def
                  split: option.splits)
            then show thesis using admitted e1 False WriteAccept by auto
          next
            case (WriteReject p t b)
            then show thesis using refused e1 False ne by auto
          qed
        qed
      qed
    qed
  qed
qed

lemma handle_event_session:
  assumes "session_ok r (rs_session st)"
  shows "session_ok r (rs_session (handle_event v r ctx n e st))"
proof -
  have ok: "session_ok r (event_session r ctx st)"
    using session_ok_limits(1) [OF assms] by (simp add: event_session_def rate_limits_eq)
  show ?thesis
    by (cases rule: handle_event_cases [of v r ctx n e st])
      (simp_all add: ok session_ok_challenge)
qed

lemma handle_auth_session:
  assumes "session_ok r (rs_session st)"
  shows "session_ok r (rs_session (handle_auth v r ctx e st))"
proof -
  define s where "s = snd (check_auth_rate_limit (sc_instant ctx) (rl_auth_events_per_minute r) (rs_session st))"
  have ok: "session_ok r s"
    using session_ok_limits(4) [OF assms] by (simp add: s_def rate_limits_eq)
  have "session_ok r (s\<lparr>nip42 := snd (check_challenge x ve now e u (nip42 s))\<rparr>)" for x ve now u
    by (rule session_ok_nip42 [OF ok check_challenge_ok]) (use ok in \<open>simp add: session_ok_def\<close>)
  then show ?thesis
    using ok unfolding handle_auth_def s_def
    by (simp add: Let_def case_prod_beta' split: sum.split option.split)
qed

lemma handle_count_session:
  assumes "session_ok r (rs_session st)"
  shows "session_ok r (rs_session (handle_count v r ctx sid f st))"
proof -
  note ok = session_ok_limits(2) [OF assms, of "sc_instant ctx"]
  show ?thesis
    using ok session_ok_challenge [OF ok]
    by (auto simp: handle_count_def rate_limits_eq Let_def send_defs
        split: prod.split query_policy_result.split gift_wrap_query_access.split)
qed

lemma answer_req_session:
  "rs_session (answer_req r ctx sid fs n st) = rs_session st \<or>
   rs_session (answer_req r ctx sid fs n st) = insert_subscription sid fs n (rs_session st)"
  by (simp add: answer_req_def Let_def send_events_eq)

lemma handle_req_session:
  assumes "session_ok r (rs_session st)"
  shows "session_ok r (rs_session (handle_req v r ctx sid fs n st))"
proof -
  define s where "s = snd (check_query_rate_limit (sc_instant ctx) (rl_queries_per_minute r) (rs_session st))"
  have ok: "session_ok r s"
    using session_ok_limits(2) [OF assms] by (simp add: s_def rate_limits_eq)
  have ans: "session_ok r (rs_session (answer_req r ctx sid hs n (with_session s st)))"
    if "\<not> subscription_id_exceeds_limit r sid" and "\<not> rl_max_filters_per_req r < length fs"
      and "\<not> (rl_max_reqs r \<le> length (subscriptions s) \<and> map_of (subscriptions s) sid = None)"
      and "subscription_fits sid n (rl_max_subscription_bytes r) s"
      and "admit_queries r ctx fs = Inr gs" and "limit_filters (rl_max_filter_limit r) gs = Some hs"
    for gs hs
  proof -
    have "length hs \<le> rl_max_filters_per_req r"
      using that limit_filters_length admit_queries_length by (metis not_le)
    then have "session_ok r (insert_subscription sid hs n s)"
      using that by (intro session_ok_insert [OF ok]) (auto simp: subscription_id_exceeds_limit_def)
    then show ?thesis
      using answer_req_session [of r ctx sid hs n "with_session s st"] ok by auto
  qed
  have chal: "session_ok r (s\<lparr>nip42 := snd (generate_challenge c (nip42 s))\<rparr>)" for c
    by (rule session_ok_challenge [OF ok])
  have eq: "check_query_rate_limit (sc_instant ctx) (rl_queries_per_minute r) (rs_session st) =
      (fst (check_query_rate_limit (sc_instant ctx) (rl_queries_per_minute r) (rs_session st)), s)"
    by (simp add: s_def)
  show ?thesis
    unfolding handle_req_def
    by (subst eq) (auto simp: Let_def send_defs assms ok chal intro: ans
        split: sum.split prod.split gift_wrap_query_access.split option.split)
qed

lemma handle_neg_open_session:
  assumes "session_ok r (rs_session st)" and "relay_ok r"
    and "handle_neg_open v r ctx sid f t st = Some st'"
  shows "session_ok r (rs_session st')"
proof -
  define s where "s = snd (check_query_rate_limit (sc_instant ctx) (rl_queries_per_minute r) (rs_session st))"
  have ok: "session_ok r s"
    using session_ok_limits(2) [OF assms(1)] by (simp add: s_def rate_limits_eq)
  have opn: "session_ok r (rs_session st')"
    if "\<not> (rl_max_negentropy_subscriptions r \<le> length (negentropy_subscription s) \<and>
          map_of (negentropy_subscription s) sid = None)"
      and "open_negentropy v r ctx sid g bytes (with_session s st) = Some st'" for g bytes
    using that ok session_ok_update_negentropy [OF ok assms(2) that(1)]
    by (auto simp: open_negentropy_def Let_def send_defs split: if_splits option.splits prod.splits)
  have chal: "session_ok r (s\<lparr>nip42 := snd (generate_challenge c (nip42 s))\<rparr>)" for c
    by (rule session_ok_challenge [OF ok])
  have eq: "check_query_rate_limit (sc_instant ctx) (rl_queries_per_minute r) (rs_session st) =
      (fst (check_query_rate_limit (sc_instant ctx) (rl_queries_per_minute r) (rs_session st)), s)"
    by (simp add: s_def)
  show ?thesis
    using assms(3) unfolding handle_neg_open_def
    by (subst (asm) eq) (auto simp: Let_def send_defs ok chal intro: opn
        split: prod.splits query_policy_result.splits gift_wrap_query_access.splits option.splits
          if_splits)
qed

lemma session_ok_neg_state:
  assumes ok: "session_ok r s" and sub: "map_of (negentropy_subscription s) sid = Some sub"
  shows "session_ok r (s\<lparr>negentropy_subscription :=
    AList.update sid (sub\<lparr>neg_state := n\<rparr>) (negentropy_subscription s)\<rparr>)"
proof -
  define m where "m = negentropy_subscription s"
  have d: "distinct (map fst m)" using ok by (simp add: m_def session_ok_def retained_ok_def)
  have "map_total neg_items (AList.update sid (sub\<lparr>neg_state := n\<rparr>) m) = map_total neg_items m"
    using map_total_update [OF d, of neg_items sid "sub\<lparr>neg_state := n\<rparr>"] sub [folded m_def] by simp
  moreover have "distinct (map fst (AList.update sid (sub\<lparr>neg_state := n\<rparr>) m))"
    by (rule distinct_update [OF d])
  moreover have "length (AList.update sid (sub\<lparr>neg_state := n\<rparr>) m) = length m"
    using sub by (simp add: length_update m_def)
  ultimately show ?thesis
    using ok by (simp add: session_ok_def retained_ok_def budgets_ok_def subscriptions_ok_def m_def)
qed

lemma handle_neg_msg_session:
  assumes "session_ok r (rs_session st)"
  shows "session_ok r (rs_session (handle_neg_msg v r ctx sid t st))"
proof -
  note ok = session_ok_limits(3) [OF assms, of "sc_instant ctx"]
  show ?thesis
    using ok session_ok_remove_negentropy [OF ok] session_ok_neg_state [OF ok]
    by (auto simp: handle_neg_msg_def rate_limits_eq Let_def send_defs
        split: option.split prod.split)
qed

lemma connection_step_session:
  assumes "session_ok r (rs_session st)" and "relay_ok r"
    and "connection_step v r ctx i st = Some st'"
  shows "session_ok r (rs_session st')"
proof -
  have lag: "session_ok r (rs_session (close_lagged st))"
    using assms(1) by (simp add: close_lagged_eq session_ok_def budgets_ok_def retained_ok_def
        subscriptions_ok_def)
  define s where
    "s = snd (check_message_rate_limit (sc_instant ctx) (rl_messages_per_minute r) (rs_session st))"
  have eq: "check_message_rate_limit (sc_instant ctx) (rl_messages_per_minute r) (rs_session st) =
      (fst (check_message_rate_limit (sc_instant ctx) (rl_messages_per_minute r) (rs_session st)), s)"
    by (simp add: s_def)
  have ok: "session_ok r (rs_session (with_session s st))"
    using session_ok_limits(5) [OF assms(1)] by (simp add: s_def rate_limits_eq)
  have msg: "session_ok r (rs_session st'')"
    if "handle_client_msg v r ctx sz m (with_session s st) = Some st''" for sz m st''
    using that handle_event_session [OF ok] handle_req_session [OF ok] handle_count_session [OF ok]
      handle_auth_session [OF ok] handle_neg_msg_session [OF ok] session_ok_remove [OF ok]
      session_ok_remove_negentropy [OF ok] handle_neg_open_session [OF ok assms(2)]
    by (cases m) (auto simp: handle_client_msg_def handle_close_def handle_neg_close_def)
  have frame: "session_ok r (rs_session st')" if "handle_frame v r ctx i st = Some st'"
    using that ok unfolding handle_frame_def
    by (subst (asm) eq) (auto simp: Let_def intro: msg split: if_splits connection_input.splits sum.splits)
  show ?thesis
    using assms(1,3) lag frame
    by (cases i) (auto simp: connection_step_def deliver_event_eq)
qed


section \<open>A protected relay\<close>

text \<open>What tells a client something about the events of the database.\<close>

definition discloses :: "relay_message \<Rightarrow> bool" where
  "discloses m \<longleftrightarrow>
     (case m of REvent _ _ \<Rightarrow> True | RCount _ _ \<Rightarrow> True | RNegMsg _ _ \<Rightarrow> True | _ \<Rightarrow> False)"

lemma discloses_simps [simp]:
  "discloses (REvent i e)" "discloses (RCount i n)" "discloses (RNegMsg i t)"
  "\<not> discloses (ROk j b t)" "\<not> discloses (REndOfStoredEvents i)" "\<not> discloses (RNotice t)"
  "\<not> discloses (RClosed i t)" "\<not> discloses (RAuth t)" "\<not> discloses (RNegErr i t)"
  by (simp_all add: discloses_def)

definition nothing_given :: "'n relay_state \<Rightarrow> bool" where
  "nothing_given st \<longleftrightarrow>
     subscriptions (rs_session st) = [] \<and> negentropy_subscription (rs_session st) = [] \<and>
     list_all (\<lambda>m. \<not> discloses m) (rs_sent st)"

definition closed_ok :: "'a relay \<Rightarrow> 'n relay_state \<Rightarrow> bool" where
  "closed_ok r st \<longleftrightarrow> (requires_read_auth r (rs_session st) \<longrightarrow> nothing_given st)"

text \<open>What a handler may do to the session of a client that has to authenticate.\<close>

lemma requires_read_auth_cong:
  "auth_public_key (nip42 s) = auth_public_key (nip42 t) \<Longrightarrow>
   requires_read_auth r s = requires_read_auth r t"
  by (simp add: requires_read_auth_def is_authenticated_def)

lemma requires_read_auth_updates [simp]:
  "requires_read_auth r (s\<lparr>write_tokens := t\<rparr>) = requires_read_auth r s"
  "requires_read_auth r (s\<lparr>query_tokens := t\<rparr>) = requires_read_auth r s"
  "requires_read_auth r (s\<lparr>negentropy_tokens := t\<rparr>) = requires_read_auth r s"
  "requires_read_auth r (s\<lparr>auth_tokens := t\<rparr>) = requires_read_auth r s"
  "requires_read_auth r (s\<lparr>message_tokens := t\<rparr>) = requires_read_auth r s"
  "requires_read_auth r (s\<lparr>subscriptions := m, subscription_bytes := b\<rparr>) = requires_read_auth r s"
  "requires_read_auth r (s\<lparr>subscription_bytes := b, subscriptions := m\<rparr>) = requires_read_auth r s"
  "requires_read_auth r (s\<lparr>negentropy_subscription := ns\<rparr>) = requires_read_auth r s"
  "requires_read_auth r (s\<lparr>nip42 := snd (generate_challenge c (nip42 s))\<rparr>) = requires_read_auth r s"
  by (simp_all add: requires_read_auth_def is_authenticated_def)

lemma requires_read_auth_insert [simp]:
  "requires_read_auth r (insert_subscription sid fs n s) = requires_read_auth r s"
  "requires_read_auth r (remove_subscription sid s) = requires_read_auth r s"
  "requires_read_auth r (remove_negentropy sid s) = requires_read_auth r s"
  by (auto simp: insert_subscription_def remove_subscription_def remove_negentropy_def Let_def
      split: option.split)

lemma remove_subscription_empty: "subscriptions s = [] \<Longrightarrow> remove_subscription sid s = s"
  by (simp add: remove_subscription_def)

lemma closed_event: "closed_ok r st \<Longrightarrow> closed_ok r (handle_event v r ctx n e st)"
proof -
  assume ok: "closed_ok r st"
  have s: "requires_read_auth r (event_session r ctx st) = requires_read_auth r (rs_session st)"
    "subscriptions (event_session r ctx st) = subscriptions (rs_session st)"
    "negentropy_subscription (event_session r ctx st) = negentropy_subscription (rs_session st)"
    by (simp_all add: event_session_def rate_limits_eq)
  have db: "\<exists>m. rs_sent (store_event v ctx e t) = rs_sent t @ [m] \<and> \<not> discloses m" for t
    by (auto simp: store_event_def Let_def split: database_event_status.split prod.split)
  show ?thesis
  proof (cases rule: handle_event_cases [of v r ctx n e st])
    case (admitted)
    then show ?thesis
      using ok s db [of "with_session (event_session r ctx st) st"]
      by (auto simp: closed_ok_def nothing_given_def)
  qed (use ok s in \<open>auto simp: closed_ok_def nothing_given_def\<close>)
qed

lemma closed_auth: "closed_ok r st \<Longrightarrow> closed_ok r (handle_auth v r ctx e st)"
proof -
  assume ok: "closed_ok r st"
  have key: "auth_public_key (snd (check_challenge x ve now e u n)) = None \<Longrightarrow>
      auth_public_key n = None" for x ve now u n
    by (auto simp: check_challenge_def Let_def split: option.splits if_splits)
  show ?thesis
    using ok
    by (auto simp: handle_auth_def rate_limits_eq Let_def case_prod_beta' closed_ok_def
        nothing_given_def requires_read_auth_def is_authenticated_def dest!: key
        split: sum.split option.splits)
qed

lemma closed_reply:
  assumes "closed_ok r st" and "\<not> discloses m"
    and "requires_read_auth r s \<Longrightarrow> requires_read_auth r (rs_session st)"
    and "subscriptions (rs_session st) = [] \<Longrightarrow> subscriptions s = []"
    and "negentropy_subscription (rs_session st) = [] \<Longrightarrow> negentropy_subscription s = []"
  shows "closed_ok r (send_msg m (with_session s st))"
  using assms by (auto simp: closed_ok_def nothing_given_def)

lemma closed_queries:
  assumes "closed_ok r st"
  shows "closed_ok r (handle_count v r ctx sid f st)"
    and "closed_ok r (handle_req v r ctx sid fs n st)"
    and "handle_neg_open v r ctx sid f t st = Some st' \<Longrightarrow> closed_ok r st'"
proof -
  have auth: "closed_ok r (send_auth_and_close ctx sid (with_session s st))"
    "closed_ok r (send_auth_and_neg_err ctx sid (with_session s st))"
    if "subscriptions s = subscriptions (rs_session st)"
      "negentropy_subscription s = negentropy_subscription (rs_session st)"
      "requires_read_auth r s = requires_read_auth r (rs_session st)" for s
    using assms that by (auto simp: closed_ok_def nothing_given_def)
  define s where "s = snd (check_query_rate_limit (sc_instant ctx) (rl_queries_per_minute r) (rs_session st))"
  have same: "subscriptions s = subscriptions (rs_session st)"
      "negentropy_subscription s = negentropy_subscription (rs_session st)"
      "requires_read_auth r s = requires_read_auth r (rs_session st)"
    by (simp_all add: s_def rate_limits_eq)
  have eq: "check_query_rate_limit (sc_instant ctx) (rl_queries_per_minute r) (rs_session st) =
      (fst (check_query_rate_limit (sc_instant ctx) (rl_queries_per_minute r) (rs_session st)), s)"
    by (simp add: s_def)
  have reply: "closed_ok r (send_msg m (with_session s st))" if "\<not> discloses m" for m
    using that same by (intro closed_reply [OF assms]) auto
  have reply0: "closed_ok r (send_msg m st)" if "\<not> discloses m" for m
    using assms that by (auto simp: closed_ok_def nothing_given_def)
  note au = auth [OF same]
  have open_any: "closed_ok r st''"
    if "\<not> requires_read_auth r (rs_session st'')" for st'' :: "'b relay_state"
    using that by (simp add: closed_ok_def)
  show "closed_ok r (handle_count v r ctx sid f st)"
    unfolding handle_count_def
    by (subst eq) (auto simp: Let_def send_defs au reply intro: open_any
        split: prod.split query_policy_result.split gift_wrap_query_access.split)
  have ans: "\<not> requires_read_auth r s \<Longrightarrow>
      closed_ok r (answer_req r ctx sid gs n (with_session s st))" for gs
    using answer_req_session [of r ctx sid gs n "with_session s st"] by (intro open_any) auto
  show "closed_ok r (handle_req v r ctx sid fs n st)"
    unfolding handle_req_def
    by (subst eq) (auto simp: Let_def send_defs au reply reply0 intro: open_any ans
        split: sum.split prod.split gift_wrap_query_access.split option.split)
  have opn: "\<not> requires_read_auth r s \<Longrightarrow>
      open_negentropy v r ctx sid g bs (with_session s st) = Some st' \<Longrightarrow> closed_ok r st'" for g bs
    by (intro open_any) (auto simp: open_negentropy_def Let_def send_defs
        split: if_splits option.splits prod.splits)
  show "handle_neg_open v r ctx sid f t st = Some st' \<Longrightarrow> closed_ok r st'"
    unfolding handle_neg_open_def
    by (subst (asm) eq) (auto simp: Let_def send_defs au reply intro: opn
        split: prod.splits query_policy_result.splits gift_wrap_query_access.splits option.splits
          if_splits)
qed

lemma closed_neg_msg: "closed_ok r st \<Longrightarrow> closed_ok r (handle_neg_msg v r ctx sid t st)"
  by (auto simp: handle_neg_msg_def rate_limits_eq Let_def send_defs closed_ok_def nothing_given_def
      remove_negentropy_def split: option.split prod.split)

lemma closed_step:
  assumes "closed_ok r st" and "connection_step v r ctx i st = Some st'"
  shows "closed_ok r st'"
proof -
  define s where
    "s = snd (check_message_rate_limit (sc_instant ctx) (rl_messages_per_minute r) (rs_session st))"
  have eq: "check_message_rate_limit (sc_instant ctx) (rl_messages_per_minute r) (rs_session st) =
      (fst (check_message_rate_limit (sc_instant ctx) (rl_messages_per_minute r) (rs_session st)), s)"
    by (simp add: s_def)
  have ok: "closed_ok r (with_session s st)"
    using assms(1) by (simp add: s_def rate_limits_eq closed_ok_def nothing_given_def)
  have "closed_ok r (handle_close sid (with_session s st))"
    "closed_ok r (handle_neg_close sid (with_session s st))" for sid
    using ok by (auto simp: handle_close_def handle_neg_close_def closed_ok_def nothing_given_def
        remove_subscription_empty) (simp_all add: remove_negentropy_def)
  then have msg: "closed_ok r st''"
    if "handle_client_msg v r ctx sz m (with_session s st) = Some st''" for sz m st''
    using that closed_event [OF ok] closed_queries [OF ok] closed_auth [OF ok] closed_neg_msg [OF ok]
    by (cases m) (auto simp: handle_client_msg_def)
  have notice: "closed_ok r (send_msg (RNotice t) (with_session s st))" for t
    using ok by (simp add: closed_ok_def nothing_given_def)
  have frame: "closed_ok r st'" if "handle_frame v r ctx i st = Some st'"
    using that ok unfolding handle_frame_def
    by (subst (asm) eq) (auto simp: Let_def notice intro: msg
        split: if_splits connection_input.splits sum.splits)
  have "closed_ok r (close_lagged st)" and "closed_ok r (deliver_event e st)" for e
    using assms(1) by (auto simp: close_lagged_eq closed_ok_def nothing_given_def deliver_event_eq)
  then show ?thesis
    using assms(2) frame by (cases i) (auto simp: connection_step_def)
qed

section \<open>Properties\<close>

lemma session_new_ok:
  "relay_ok r \<Longrightarrow> session_ok r (rs_session (connection_new r store))"
  by (simp add: connection_new_def session_new_def session_ok_def budgets_ok_def retained_ok_def
      subscriptions_ok_def relay_ok_def tokens_new_def tokens_ok_def nip42_session_new_def
      nip42_session_ok_def)

text \<open>
  In every state that a connection reaches, whatever the client sends and however other
  connections change the database, the session is within the limits of the configuration: at most
  so many subscriptions, with identifiers and filter lists of bounded length and bytes that sum to
  the counter and stay within the budget; at most so many reconciliations with so many items;
  every token bucket within its rate and at most 21 open challenges.
\<close>

lemma connection_bounds:
  assumes "relay_ok r" and "connection_reaches v r st"
  shows "session_ok r (rs_session st)"
  using assms(2)
proof induction
  case (start store)
  then show ?case by (rule_tac session_new_ok [OF assms(1)])
next
  case (step st ctx i st')
  then show ?case using connection_step_session assms(1) by blast
next
  case (other st store)
  then show ?case by simp
qed

lemma ref_relay_ok [simp]: "relay_ok ref_relay"
  by (simp add: relay_ok_def ref_relay_def relay_default_def u32_max_def usize_max_def)

text \<open>A \<open>REQ\<close> on a new connection of a relay that wants authentication.\<close>

lemma ref_req_step:
  assumes "st = connection_new ref_relay ref_store"
  obtains st' where
    "connection_step ref_env ref_relay ref_context (TextFrame (Inr (CReq ''s'' [filter_new])) 30) st
       = Some st'"
    and "requires_read_auth ref_relay (rs_session st')"
    and "rs_sent st' =
      [RAuth ''challenge'', RClosed ''s'' (reason PAuthRequired ''you must auth'')]"
proof
  show "connection_step ref_env ref_relay ref_context (TextFrame (Inr (CReq ''s'' [filter_new])) 30) st
      = Some (the (connection_step ref_env ref_relay ref_context
          (TextFrame (Inr (CReq ''s'' [filter_new])) 30) st))"
    and "requires_read_auth ref_relay (rs_session (the (connection_step ref_env ref_relay ref_context
          (TextFrame (Inr (CReq ''s'' [filter_new])) 30) st)))"
    and "rs_sent (the (connection_step ref_env ref_relay ref_context
          (TextFrame (Inr (CReq ''s'' [filter_new])) 30) st)) =
      [RAuth ''challenge'', RClosed ''s'' (reason PAuthRequired ''you must auth'')]"
    by (simp_all add: assms connection_new_def session_new_def connection_step_def handle_frame_def
        handle_client_msg_def handle_req_def rate_limits_eq take_token_def tokens_new_def Let_def
        ref_relay_def relay_default_def subscription_id_exceeds_limit_def subscription_fits_def
        checked_add_def usize_max_def requires_read_auth_def is_authenticated_def mode_is_read_def
        nip42_session_new_def generate_challenge_def ref_context_def)
qed

lemma connection_bounds_witness:
  "\<exists>st. connection_step ref_env ref_relay ref_context (TextFrame (Inr (CReq ''s'' [filter_new])) 30)
      (connection_new ref_relay ref_store) = Some st \<and> session_ok ref_relay (rs_session st)"
proof -
  have "connection_reaches ref_env ref_relay (connection_new ref_relay ref_store)"
    by (rule connection_reaches.start) (simp add: ref_env_def)
  then show ?thesis
    using connection_bounds [OF ref_relay_ok] connection_reaches.step
    by (metis ref_req_step [OF refl])
qed

text \<open>
  C12: A relay that requires authentication for reading has sent a connection that is not
  authenticated no event, no count and no reconciliation message, and keeps no subscription for
  it; so events that other clients publish do not reach it either.
\<close>

theorem read_protection:
  assumes "connection_reaches v r st" and "requires_read_auth r (rs_session st)"
  shows "subscriptions (rs_session st) = [] \<and> negentropy_subscription (rs_session st) = [] \<and>
    list_all (\<lambda>m. \<not> discloses m) (rs_sent st) \<and> rs_sent (deliver_event e st) = rs_sent st"
proof -
  have "closed_ok r st"
    using assms(1)
  proof induction
    case (start store)
    then show ?case
      by (simp add: closed_ok_def nothing_given_def connection_new_def session_new_def)
  next
    case (step st ctx i st')
    then show ?case using closed_step by blast
  next
    case (other st store)
    then show ?case by (simp add: closed_ok_def nothing_given_def)
  qed
  then show ?thesis
    using assms(2) by (simp add: closed_ok_def nothing_given_def deliver_event_eq)
qed


lemma read_protection_witness:
  "\<exists>st. connection_step ref_env ref_relay ref_context (TextFrame (Inr (CReq ''s'' [filter_new])) 30)
      (connection_new ref_relay ref_store) = Some st \<and> rs_sent st \<noteq> [] \<and>
    rs_sent (deliver_event ref_note st) = rs_sent st"
proof -
  have start: "connection_reaches ref_env ref_relay (connection_new ref_relay ref_store)"
    by (rule connection_reaches.start) (simp add: ref_env_def)
  obtain st where st: "connection_step ref_env ref_relay ref_context
        (TextFrame (Inr (CReq ''s'' [filter_new])) 30) (connection_new ref_relay ref_store) = Some st"
    and auth: "requires_read_auth ref_relay (rs_session st)" and sent: "rs_sent st \<noteq> []"
    by (rule ref_req_step [OF refl]) auto
  show ?thesis
    using read_protection [OF connection_reaches.step [OF start st] auth] st sent by blast
qed

end
