(* ===== verification/Relay_Answers.thy ===== *)
theory Relay_Answers
  imports Relay_Invariant
begin

text \<open>
  What the local relay answers: which events it takes in, the reply of every \<open>EVENT\<close>, the shape
  and the content of the answer to a \<open>REQ\<close>, and the protection of gift wraps.
\<close>

section \<open>EVENT\<close>

lemma event_session_nip42 [simp]: "nip42 (event_session r ctx st) = nip42 (rs_session st)"
  by (simp add: event_session_def rate_limits_eq)


lemma store_event_reply:
  "\<exists>status text.
     rs_sent (store_event v ctx e t) = rs_sent t @ [ROk (ev_id e) status text] \<and>
     rs_broadcast (store_event v ctx e t) = rs_broadcast t @ (if text = [] then [e] else []) \<and>
     \<not> (text = [] \<and> \<not> status) \<and>
     \<not> (text = [] \<and> \<not> is_ephemeral (ev_kind e) \<and>
        (rs_store (store_event v ctx e t), Success) \<noteq>
          index_event (re_x v) (re_cap v) e (sc_now ctx) (rs_store t)) \<and>
     \<not> (text = [] \<and> is_ephemeral (ev_kind e) \<and> rs_store (store_event v ctx e t) \<noteq> rs_store t)"
proof -
  have ne: "reason p t \<noteq> []" for p t by (simp add: reason_def)
  show ?thesis
  proof (cases "check_id (rs_store t) (ev_id e)")
    case NotExistent
    obtain s status where ie: "index_event (re_x v) (re_cap v) e (sc_now ctx) (rs_store t) = (s, status)"
      by (cases "index_event (re_x v) (re_cap v) e (sc_now ctx) (rs_store t)")
    show ?thesis
      by (cases "is_ephemeral (ev_kind e)"; cases "is_success status")
        (auto simp: store_event_def NotExistent ie ne is_success_def)
  qed (auto simp: store_event_def ne)
qed

text \<open>
  The last message of an \<open>EVENT\<close> is one \<open>OK\<close> for the event, and the only other one can
  be a challenge before it, which the session then holds. The event is broadcast exactly if the
  \<open>OK\<close> is positive with an empty text; then it is ephemeral and the database unchanged, or the
  database has taken it.
\<close>

lemma event_reply:
  "\<exists>ms status text.
     rs_sent (handle_event v r ctx n e st) = rs_sent st @ ms @ [ROk (ev_id e) status text] \<and>
     (ms = [] \<or> ms = [RAuth (sc_challenge ctx)] \<and> \<not> status \<and>
        sc_challenge ctx \<in> set (challenges (nip42 (rs_session (handle_event v r ctx n e st))))) \<and>
     rs_broadcast (handle_event v r ctx n e st) =
       rs_broadcast st @ (if text = [] then [e] else []) \<and>
     \<not> (text = [] \<and> \<not> status) \<and>
     \<not> (text = [] \<and> \<not> is_ephemeral (ev_kind e) \<and>
        (rs_store (handle_event v r ctx n e st), Success) \<noteq>
          index_event (re_x v) (re_cap v) e (sc_now ctx) (rs_store st)) \<and>
     \<not> (text = [] \<and> is_ephemeral (ev_kind e) \<and>
        rs_store (handle_event v r ctx n e st) \<noteq> rs_store st)"
proof (cases rule: handle_event_cases [of v r ctx n e st])
  case (refused t b)
  then show ?thesis by (intro exI [of _ "[]"] exI [of _ b] exI [of _ t]) simp
next
  case challenged
  have "reason PAuthRequired ''you must auth'' \<noteq> []" by (simp add: reason_def)
  then show ?thesis
    using challenged
    by (intro exI [of _ "[RAuth (sc_challenge ctx)]"] exI [of _ False]
        exI [of _ "reason PAuthRequired ''you must auth''"])
      (simp add: generate_challenge_member)
next
  case admitted
  obtain status reply where r:
     "rs_sent (handle_event v r ctx n e st) = rs_sent st @ [ROk (ev_id e) status reply]"
     "rs_broadcast (handle_event v r ctx n e st) = rs_broadcast st @ (if reply = [] then [e] else [])"
     "\<not> (reply = [] \<and> \<not> status)"
     "\<not> (reply = [] \<and> \<not> is_ephemeral (ev_kind e) \<and>
        (rs_store (handle_event v r ctx n e st), Success) \<noteq>
          index_event (re_x v) (re_cap v) e (sc_now ctx) (rs_store st))"
     "\<not> (reply = [] \<and> is_ephemeral (ev_kind e) \<and>
        rs_store (handle_event v r ctx n e st) \<noteq> rs_store st)"
    using store_event_reply [of v ctx e "with_session (event_session r ctx st) st"]
    unfolding admitted(2) with_session_simps by blast
  show ?thesis
    by (intro exI [of _ "[]"] exI [of _ status] exI [of _ reply] conjI r(2-5)) (simp_all add: r(1))
qed

section \<open>REQ\<close>

definition query_session ::
  "'a relay \<Rightarrow> 'a step_context \<Rightarrow> 'n relay_state \<Rightarrow> 'n session" where
  "query_session r ctx st =
     snd (check_query_rate_limit (sc_instant ctx) (rl_queries_per_minute r) (rs_session st))"

lemma query_session_simps [simp]:
  "subscriptions (query_session r ctx st) = subscriptions (rs_session st)"
  "subscription_bytes (query_session r ctx st) = subscription_bytes (rs_session st)"
  "nip42 (query_session r ctx st) = nip42 (rs_session st)"
  by (simp_all add: query_session_def rate_limits_eq)

lemma handle_req_cases:
  fixes st :: "'n relay_state" and r :: "'a relay" and ctx :: "'a step_context"
  defines "s \<equiv> query_session r ctx st"
  obtains
    (refused) t s' where "handle_req v r ctx sid fs n st = send_msg (RClosed sid t) (with_session s' st)"
      and "t \<noteq> []" and "subscriptions s' = subscriptions (rs_session st)"
  | (challenged) "handle_req v r ctx sid fs n st = send_auth_and_close ctx sid (with_session s st)"
  | (answered) gs hs where "handle_req v r ctx sid fs n st = answer_req r ctx sid hs n (with_session s st)"
      and "\<not> requires_read_auth r s" and "length fs \<le> rl_max_filters_per_req r"
      and "admit_queries r ctx fs = Inr gs"
      and "gift_wrap_query_access (re_x v) r s gs = GiftAllowed"
      and "limit_filters (rl_max_filter_limit r) gs = Some hs"
proof -
  have ne: "reason p t \<noteq> []" for p t by (simp add: reason_def)
  have ref: thesis if "handle_req v r ctx sid fs n st = send_msg (RClosed sid (reason p t)) (with_session s st)"
    for p t
    using refused [of "reason p t" s] that ne by (simp add: s_def)
  have eq: "check_query_rate_limit (sc_instant ctx) (rl_queries_per_minute r) (rs_session st) =
      (fst (check_query_rate_limit (sc_instant ctx) (rl_queries_per_minute r) (rs_session st)), s)"
    by (simp add: s_def query_session_def)
  show thesis
  proof (cases "subscription_id_exceeds_limit r sid")
    case True
    then have "handle_req v r ctx sid fs n st = send_msg (RClosed sid (reason PBlocked
        (''subscription ID exceeds max length '' @ show_nat (rl_max_subid_length r))))
        (with_session (rs_session st) st)"
      by (simp add: handle_req_def with_session_def)
    then show thesis by (rule refused [OF _ ne refl])
  next
    case sid: False
    note e0 = handle_req_def [of v r ctx sid fs n st, unfolded if_not_P [OF sid] Let_def send_defs]
    define lim where "lim = fst (check_query_rate_limit (sc_instant ctx) (rl_queries_per_minute r) (rs_session st))"
    note e1 = e0 [unfolded eq [folded lim_def] prod.case]
    show thesis
    proof (cases "lim = Limited \<or>
        rl_max_reqs r \<le> length (subscriptions s) \<and> map_of (subscriptions s) sid = None \<or>
        rl_max_filters_per_req r < length fs \<or>
        \<not> subscription_fits sid n (rl_max_subscription_bytes r) s")
      case True
      then show thesis using e1 ref by (auto split: if_splits)
    next
      case a: False
      show thesis
      proof (cases "requires_read_auth r s")
        case True
        then show thesis using a e1 challenged by auto
      next
        case auth: False
        show thesis
        proof (cases "admit_queries r ctx fs")
          case (Inl pt)
          then show thesis using a auth e1 ref by (cases pt) auto
        next
          case gs: (Inr gs)
          show thesis
          proof (cases "gift_wrap_query_access (re_x v) r s gs")
            case GiftAllowed
            then show thesis
              using a auth gs e1 ref answered
              by (cases "limit_filters (rl_max_filter_limit r) gs") auto
          qed (use a auth gs e1 challenged ref in auto)
        qed
      qed
    qed
  qed
qed

text \<open>The limits change nothing else, and every filter ends with one within the maximum.\<close>

lemma limit_filters_each:
  "limit_filters m fs = Some hs \<Longrightarrow>
   list_all2 (\<lambda>f h. \<exists>k \<le> m. h = f\<lparr>fl_limit := Some k\<rparr>) fs hs"
proof (induction m fs arbitrary: hs rule: limit_filters.induct)
  case (2 m f fs)
  have keep: "\<exists>k \<le> m. f = f\<lparr>fl_limit := Some k\<rparr>" if "fl_limit f = Some k" "\<not> m < k" for k
    using that by (intro exI [of _ k]) (cases f, simp)
  have ids: "\<exists>j \<le> m. f\<lparr>fl_limit := Some k\<rparr> = f\<lparr>fl_limit := Some j\<rparr>" if "\<not> m < k" for k
    using that by (intro exI [of _ k]) simp
  show ?case
    using 2 by (auto split: option.splits if_splits intro: keep ids)
qed simp

lemma limit_filters_mem:
  assumes "limit_filters m fs = Some hs" and "h \<in> set hs"
  shows "\<exists>f \<in> set fs. \<exists>k \<le> m. h = f\<lparr>fl_limit := Some k\<rparr>"
proof -
  obtain i where i: "i < length hs" "h = hs ! i" using assms(2) by (auto simp: in_set_conv_nth)
  have "length fs = length hs" and "\<exists>k \<le> m. hs ! i = (fs ! i)\<lparr>fl_limit := Some k\<rparr>"
    using limit_filters_each [OF assms(1)] i(1) by (auto simp: list_all2_conv_all_nth)
  then show ?thesis using i by (metis nth_mem)
qed

lemma query_length:
  assumes "store_ok x s" and "fl_limit f = Some k"
  shows "length (query s f) \<le> k"
proof -
  have "\<not> filter_is_empty f" using assms(2) by (auto simp: filter_is_empty_def filter_new_def)
  then show ?thesis using assms(2) by (simp add: query_unfold [OF assms(1)])
qed

lemma length_bts_extend: "length (bts_extend key s xs) \<le> length s + length xs"
proof (induction xs arbitrary: s)
  case (Cons x xs)
  have "length (bts_insert key x s) \<le> Suc (length s)" by (induction s) auto
  then show ?case using Cons.IH [of "bts_insert key x s"] by (simp add: bts_extend_def)
qed (simp add: bts_extend_def)

lemma event_key_inj:
  assumes "store_ok x s" shows "inj_on event_key (set (ms_events s))"
  using indexes_unique [OF store_ok_indexes [OF assms]]
  by (auto simp: inj_on_def event_key_eq)

lemma query_all_props:
  assumes "store_ok x s"
  shows "bts_ok event_key (query_all s fs) \<and>
    set (query_all s fs) = (\<Union>f \<in> set fs. set (query s f)) \<and>
    length (query_all s fs) \<le> (\<Sum>f \<leftarrow> fs. length (query s f))"
proof -
  have "bts_ok event_key (foldl (\<lambda>evs f. bts_extend event_key evs (query s f)) a fs) \<and>
    set (foldl (\<lambda>evs f. bts_extend event_key evs (query s f)) a fs) =
      set a \<union> (\<Union>f \<in> set fs. set (query s f)) \<and>
    length (foldl (\<lambda>evs f. bts_extend event_key evs (query s f)) a fs) \<le>
      length a + (\<Sum>f \<leftarrow> fs. length (query s f))"
    if "bts_ok event_key a" "set a \<subseteq> set (ms_events s)" for a
    using that
  proof (induction fs arbitrary: a)
    case (Cons f fs)
    have sub: "set a \<union> set (query s f) \<subseteq> set (ms_events s)"
      using Cons.prems(2) query_stored [OF assms] by blast
    have "set (bts_extend event_key a (query s f)) = set a \<union> set (query s f)"
      by (rule bts_extend_set [OF Cons.prems(1)])
        (rule inj_on_subset [OF event_key_inj [OF assms] sub])
    moreover have "bts_ok event_key (bts_extend event_key a (query s f))"
      by (rule bts_extend_ok [OF Cons.prems(1)])
    moreover note length_bts_extend [of event_key a "query s f"]
    ultimately show ?case
      using Cons.IH [of "bts_extend event_key a (query s f)"] sub by auto
  qed simp
  from this [of "[]"] show ?thesis by (simp add: query_all_def)
qed


section \<open>Gift wraps\<close>

lemma guard_tag:
  assumes "gift_wrap_query_access x r s fs = GiftAllowed" and "rl_auth_dm r"
    and "f \<in> set fs" and "may_select_gift_wraps f"
  shows "\<exists>pk. auth_public_key (nip42 s) = Some pk \<and>
    btm_get slt_p (fl_generic_tags f) = Some [public_key_to_hex x pk]"
proof -
  have f: "f \<in> set [f \<leftarrow> fs. may_select_gift_wraps f]" using assms(3,4) by simp
  obtain pk where pk: "auth_public_key (nip42 s) = Some pk"
    using assms(1-4)
    by (auto simp: gift_wrap_query_access_def Let_def filter_empty_conv split: option.splits if_splits)
  then have "list_all (\<lambda>f. case btm_get slt_p (fl_generic_tags f) of None \<Rightarrow> False
      | Some ks \<Rightarrow> length ks = 1 \<and> bts_contains id (public_key_to_hex x pk) ks)
      [f \<leftarrow> fs. may_select_gift_wraps f]"
    using assms(1,2) by (simp add: gift_wrap_query_access_def Let_def split: if_splits)
  then have "case btm_get slt_p (fl_generic_tags f) of None \<Rightarrow> False
      | Some ks \<Rightarrow> length ks = 1 \<and> bts_contains id (public_key_to_hex x pk) ks"
    using f by (simp only: list_all_iff)
  then show ?thesis
    using pk by (auto simp: length_Suc_conv split: option.splits)
qed

lemma query_gift_wrap_matches:
  assumes "store_ok x s" and "e \<in> set (query s f)" and "kind_eq (ev_kind e) GiftWrap"
  shows "match_event f e match_all"
proof (cases "is_param_pattern (query_pattern_from f)")
  case True
  then obtain k a i since until where p: "query_pattern_from f = ParamReplaceable k a i since until"
    by (auto simp: is_param_pattern_def split: query_pattern.splits)
  have ne: "\<not> filter_is_empty f"
    using pattern_Param [OF p] by (auto simp: filter_is_empty_def filter_new_def)
  have "e \<in> set (pattern_query s (query_pattern_from f))"
    using assms(2) ne
    by (auto simp: query_unfold [OF assms(1)] Let_def split: if_splits option.splits dest: in_set_takeD)
  then have "internal_query_param_replaceable s k a i since until = Some e"
    by (auto simp: p pattern_query_def split: option.splits)
  then have "is_addressable k" and "param_key x e = Some (as_u16 k, a, i)"
    using query_param_eq [OF assms(1)] by blast+
  then have "is_addressable (ev_kind e)" by (auto simp: param_key_def split: if_splits)
  then show ?thesis
    using assms(3) by (auto simp: is_addressable_def addressable_range_def in_range_def kind_eq_def)
next
  case False
  then show ?thesis
    using assms(2) by (auto simp: query_eq_reference [OF assms(1)] query_reference_def Let_def
        split: option.splits dest: in_set_takeD)
qed

text \<open>
  With the protection of direct messages on, a gift wrap in the answer to a \<open>REQ\<close> has the key
  the client is authenticated with in a \<open>p\<close> tag, if no filter has an empty list of kinds.
\<close>

lemma gift_wrap_guard:
  assumes "store_ok (re_x v) (rs_store st)" and "rl_auth_dm r"
    and "rs_sent (handle_req v r ctx sid fs n st) = rs_sent st @ ms" and "REvent i e \<in> set ms"
    and "kind_eq (ev_kind e) GiftWrap"
    and "\<forall>gs. admit_queries r ctx fs = Inr gs \<longrightarrow> (\<forall>f \<in> set gs. fl_kinds f \<noteq> Some [])"
  shows "\<exists>pk. auth_public_key (nip42 (rs_session st)) = Some pk \<and>
    (\<exists>t \<in> set (ev_tags e). tag_single_letter t = Some slt_p \<and>
      tag_content t = Some (public_key_to_hex (re_x v) pk))"
proof (cases rule: handle_req_cases [of v r ctx sid fs n st])
  case (refused t s')
  then show ?thesis using assms(3,4) by auto
next
  case challenged
  then show ?thesis using assms(3,4) by auto
next
  case (answered gs hs)
  have "REvent i e \<in> set (map (REvent sid) [e \<leftarrow> query_all (rs_store st) hs.
      \<not> is_expired_at e (sc_now ctx)])"
    using assms(3,4) unfolding answered(1)
    by (auto simp: answer_req_def Let_def send_events_eq split: if_splits)
  then obtain h where h: "h \<in> set hs" "e \<in> set (query (rs_store st) h)"
    using query_all_props [OF assms(1), of hs] by auto
  have m: "match_event h e match_all" by (rule query_gift_wrap_matches [OF assms(1) h(2) assms(5)])
  obtain f k where f: "f \<in> set gs" and hf: "h = f\<lparr>fl_limit := Some k\<rparr>"
    using limit_filters_mem [OF answered(6) h(1)] by blast
  have "fl_kinds f \<noteq> Some []" using assms(6) answered(4) f by blast
  then have "may_select_gift_wraps f"
    using m assms(5)
    by (auto simp: hf match_event_def match_all_def kind_match_def may_select_gift_wraps_def
        bts_contains_def kind_eq_def split: option.splits)
  then obtain pk where pk: "auth_public_key (nip42 (rs_session st)) = Some pk"
    and tag: "btm_get slt_p (fl_generic_tags f) = Some [public_key_to_hex (re_x v) pk]"
    using guard_tag [OF answered(5) assms(2) f] by auto
  have "(slt_p, [public_key_to_hex (re_x v) pk]) \<in> set (fl_generic_tags h)"
    using tag by (auto simp: hf btm_get_def dest: map_of_SomeD)
  then show ?thesis
    using m pk by (fastforce simp: match_spec filter_spec_def)
qed

text \<open>
  An empty list of kinds gets past that protection: such filters are always allowed, as the
  code looks for the kind of gift wraps in the list, while the match takes an empty list for no
  condition. A client that is not authenticated is sent every gift wrap of the database.
\<close>

lemma gift_wrap_bypass:
  assumes "list_all (\<lambda>f. fl_kinds f = Some []) fs"
  shows "gift_wrap_query_access x r s fs = GiftAllowed \<and>
    \<not> (f \<in> set fs \<and> \<not> kind_match f e)"
proof -
  have "[f \<leftarrow> fs. may_select_gift_wraps f] = []"
    using assms by (auto simp: filter_empty_conv list_all_iff may_select_gift_wraps_def
        bts_contains_def)
  then show ?thesis
    using assms by (auto simp: gift_wrap_query_access_def kind_match_def list_all_iff
        split: option.split)
qed

section \<open>Witnesses\<close>

definition ref_gift :: event where
  "ref_gift =
     \<lparr>ev_id = ref_id 9, ev_pubkey = ref_pk 2, ev_created_at = 50, ev_kind = GiftWrap,
      ev_tags = [[''p'', public_key_to_hex ref_externals (ref_pk 3)]], ev_content = [],
      ev_sig = []\<rparr>"

definition ref_gift_store :: memory_store where
  "ref_gift_store = store_run ref_externals ref_cap [Inl (ref_gift, 0)]
     (memory_store_new None ref_options)"

lemma ref_gift_store_ok [simp]: "store_ok (re_x ref_env) ref_gift_store"
  unfolding ref_gift_store_def ref_env_def relay_env.simps
  by (rule conjunct1 [OF store_run_ok [OF ref_cap_ok memory_store_new_ok]]) simp

text \<open>A relay without authentication that protects direct messages, and a client with key 3.\<close>

definition ref_dm_relay :: "unit relay" where
  "ref_dm_relay = (relay_default ref_url)\<lparr>rl_auth_dm := True\<rparr>"

definition ref_dm_state :: "public_key option \<Rightarrow> unit relay_state" where
  "ref_dm_state pk =
     (let st = connection_new ref_dm_relay ref_gift_store in
      with_session ((rs_session st)\<lparr>nip42 := \<lparr>auth_public_key = pk, challenges = []\<rparr>\<rparr>) st)"

lemma ref_gift_time: "\<not> is_expired_at ref_gift (sc_now ref_context)"
  by code_simp

lemma ref_dm_answer:
  assumes "gift_wrap_query_access ref_externals ref_dm_relay (rs_session (ref_dm_state pk)) [f] = GiftAllowed"
    and "fl_limit f = None" and "fl_ids f = None"
    and "query ref_gift_store (f\<lparr>fl_limit := Some 500\<rparr>) = [ref_gift]"
  shows "rs_sent (handle_req ref_env ref_dm_relay ref_context ''s'' [f] 30 (ref_dm_state pk)) =
    rs_sent (ref_dm_state pk) @ [REvent ''s'' ref_gift, REndOfStoredEvents ''s'']"
proof -
  have cong: "gift_wrap_query_access ref_externals ref_dm_relay (s\<lparr>query_tokens := t\<rparr>) fs =
      gift_wrap_query_access ref_externals ref_dm_relay s fs" for s :: "unit session" and t fs
    by (simp add: gift_wrap_query_access_def)
  have lim: "limit_filters (rl_max_filter_limit ref_dm_relay) [f] = Some [f\<lparr>fl_limit := Some 500\<rparr>]"
    using assms(2,3) by (simp add: ref_dm_relay_def relay_default_def)
  have st: "rs_store (ref_dm_state pk) = ref_gift_store"
    by (simp add: ref_dm_state_def Let_def connection_new_def)
  have ans: "rs_sent (answer_req ref_dm_relay ref_context ''s'' [f\<lparr>fl_limit := Some 500\<rparr>] 30 st) =
      rs_sent st @ [REvent ''s'' ref_gift, REndOfStoredEvents ''s'']"
    if "rs_store st = ref_gift_store" for st :: "unit relay_state"
    using that ref_gift_time assms(3)
    by (simp add: answer_req_def Let_def send_events_eq query_all_def bts_extend_def assms(4))
  have adm: "admit_queries ref_dm_relay ref_context [f] = Inr [f]"
    by (simp add: admit_query_def ref_dm_relay_def relay_default_def)
  have pre: "handle_req ref_env ref_dm_relay ref_context ''s'' [f] 30 (ref_dm_state pk) =
      (case gift_wrap_query_access ref_externals ref_dm_relay
          (query_session ref_dm_relay ref_context (ref_dm_state pk)) [f] of
        GiftAuthRequired \<Rightarrow> send_auth_and_close ref_context ''s''
          (with_session (query_session ref_dm_relay ref_context (ref_dm_state pk)) (ref_dm_state pk))
      | GiftForbidden \<Rightarrow> send_gift_wrap_error ''s''
          (with_session (query_session ref_dm_relay ref_context (ref_dm_state pk)) (ref_dm_state pk))
      | GiftAllowed \<Rightarrow> answer_req ref_dm_relay ref_context ''s'' [f\<lparr>fl_limit := Some 500\<rparr>] 30
          (with_session (query_session ref_dm_relay ref_context (ref_dm_state pk)) (ref_dm_state pk)))"
    unfolding handle_req_def adm sum.case lim option.case
    by (simp add: query_session_def ref_dm_state_def Let_def connection_new_def session_new_def
        rate_limits_eq take_token_def tokens_new_def subscription_id_exceeds_limit_def
        subscription_fits_def checked_add_def usize_max_def requires_read_auth_def
        ref_dm_relay_def relay_default_def ref_env_def cong: gift_wrap_query_access.case_cong)
  have "gift_wrap_query_access ref_externals ref_dm_relay
      (query_session ref_dm_relay ref_context (ref_dm_state pk)) [f] = GiftAllowed"
    using assms(1) by (simp add: query_session_def rate_limits_eq cong)
  then show ?thesis
    using ans [of "with_session (query_session ref_dm_relay ref_context (ref_dm_state pk)) (ref_dm_state pk)"]
    by (simp add: pre st)
qed

lemma gift_wrap_bypass_witness:
  "rs_sent (handle_req ref_env ref_dm_relay ref_context ''s'' [filter_new\<lparr>fl_kinds := Some []\<rparr>] 30
      (ref_dm_state None)) = [REvent ''s'' ref_gift, REndOfStoredEvents ''s'']"
proof -
  have "gift_wrap_query_access ref_externals ref_dm_relay (rs_session (ref_dm_state None))
      [filter_new\<lparr>fl_kinds := Some []\<rparr>] = GiftAllowed"
    by (rule conjunct1 [OF gift_wrap_bypass]) simp
  moreover have "query ref_gift_store (filter_new\<lparr>fl_kinds := Some [], fl_limit := Some 500\<rparr>) = [ref_gift]"
    by code_simp
  ultimately have "rs_sent (handle_req ref_env ref_dm_relay ref_context ''s''
      [filter_new\<lparr>fl_kinds := Some []\<rparr>] 30 (ref_dm_state None)) =
      rs_sent (ref_dm_state None) @ [REvent ''s'' ref_gift, REndOfStoredEvents ''s'']"
    by (intro ref_dm_answer) (simp_all add: filter_new_def)
  then show ?thesis by (simp add: ref_dm_state_def Let_def connection_new_def)
qed

definition ref_note_signed :: event where
  "ref_note_signed =
     (let i = event_id_compute ref_externals (ref_pk 2) 90 TextNote [] ''hi'' in
      \<lparr>ev_id = i, ev_pubkey = ref_pk 2, ev_created_at = 90, ev_kind = TextNote, ev_tags = [],
       ev_content = ''hi'', ev_sig = eid_bytes i @ replicate 32 2\<rparr>)"

lemma ref_note_signed_simps:
  "ev_kind ref_note_signed = TextNote" "ev_tags ref_note_signed = []"
  "ev_content ref_note_signed = ''hi''" "ev_created_at ref_note_signed = 90"
  by (simp_all add: ref_note_signed_def Let_def)

lemma ref_note_signed_verifies:
  "verify_id ref_externals ref_note_signed" "verify_signature ref_externals ref_note_signed"
  by (simp_all add: verify_id_def verify_signature_def ref_note_signed_def Let_def
      ref_externals_def ref_schnorr_verify_def ref_pk_def)

lemma ref_note_signed_new: "check_id ref_gift_store (ev_id ref_note_signed) = NotExistent"
  by code_simp

lemma ref_note_signed_taken:
  "snd (index_event ref_externals ref_cap ref_note_signed 100 ref_gift_store) = Success"
  by code_simp

lemmas ref_note_signed_ok =
  ref_note_signed_verifies ref_note_signed_new ref_note_signed_taken


definition ref_gift_filter :: filter where
  "ref_gift_filter = filter_pubkey ref_externals (ref_pk 3) (filter_kind GiftWrap filter_new)"


lemma gift_wrap_guard_witness:
  "\<exists>pk. auth_public_key (nip42 (rs_session (ref_dm_state (Some (ref_pk 3))))) = Some pk \<and>
    (\<exists>t \<in> set (ev_tags ref_gift). tag_single_letter t = Some slt_p \<and>
      tag_content t = Some (public_key_to_hex (re_x ref_env) pk))"
proof (rule gift_wrap_guard)
  have f: "fl_limit ref_gift_filter = None" "fl_ids ref_gift_filter = None"
    "fl_kinds ref_gift_filter = Some [GiftWrap]"
    "btm_get slt_p (fl_generic_tags ref_gift_filter) =
      Some [public_key_to_hex ref_externals (ref_pk 3)]"
    by (simp_all add: ref_gift_filter_def filter_pubkey_def filter_custom_tag_def
        filter_custom_tags_def filter_kind_def filter_kinds_def filter_new_def
        extend_or_collect_def bts_extend_def btm_get_def)
  have "gift_wrap_query_access ref_externals ref_dm_relay
      (rs_session (ref_dm_state (Some (ref_pk 3)))) [ref_gift_filter] = GiftAllowed"
    by (simp add: gift_wrap_query_access_def ref_dm_relay_def ref_dm_state_def Let_def f
        bts_contains_def)
  moreover have "query ref_gift_store (ref_gift_filter\<lparr>fl_limit := Some 500\<rparr>) = [ref_gift]"
    by code_simp
  ultimately show "rs_sent (handle_req ref_env ref_dm_relay ref_context ''s'' [ref_gift_filter] 30
      (ref_dm_state (Some (ref_pk 3)))) = rs_sent (ref_dm_state (Some (ref_pk 3))) @
      [REvent ''s'' ref_gift, REndOfStoredEvents ''s'']"
    by (intro ref_dm_answer f)
  show "\<forall>gs. admit_queries ref_dm_relay ref_context [ref_gift_filter] = Inr gs \<longrightarrow>
      (\<forall>f \<in> set gs. fl_kinds f \<noteq> Some [])"
    by (simp add: admit_query_def ref_dm_relay_def relay_default_def f)
  show "store_ok (re_x ref_env) (rs_store (ref_dm_state (Some (ref_pk 3))))"
    by (simp add: ref_dm_state_def Let_def connection_new_def)
  show "rl_auth_dm ref_dm_relay" by (simp add: ref_dm_relay_def)
  show "kind_eq (ev_kind ref_gift) GiftWrap" by (simp add: ref_gift_def kind_eq_def)
  show "REvent ''s'' ref_gift \<in> set [REvent ''s'' ref_gift, REndOfStoredEvents ''s'']" by simp
qed

end
