(* ===== verification/Nostr_Relay_Lists.thy ===== *)
theory Nostr_Relay_Lists
  imports Nostr_Event
begin

text \<open>
  Relay lists: the typed tags of NIP-65 (nostr/src/nips/nip65.rs) and NIP-17
  (nostr/src/nips/nip17.rs), the tags of the two list events and the functions that read the
  lists back from an event.
\<close>

section \<open>NIP-65\<close>

datatype relay_metadata = MetaRead | MetaWrite

definition relay_metadata_as_str :: "relay_metadata \<Rightarrow> string" where
  "relay_metadata_as_str m = (case m of MetaRead \<Rightarrow> ''read'' | MetaWrite \<Rightarrow> ''write'')"

definition relay_metadata_from_str :: "string \<Rightarrow> relay_metadata res" where
  "relay_metadata_from_str s =
     (if s = ''read'' then Inr MetaRead else if s = ''write'' then Inr MetaWrite else Inl Invalid)"

datatype nip65_tag = RelayMetadata relay_url "relay_metadata option"

definition nip65_parse :: "externals \<Rightarrow> string list \<Rightarrow> nip65_tag res" where
  "nip65_parse x t =
     rbind (take_next t) (\<lambda>(k, it).
       if k = ''r'' then
         rbind (take_relay_url x it) (\<lambda>(u, it).
           case it of
             [] \<Rightarrow> Inr (RelayMetadata u None)
           | m # rest \<Rightarrow>
               rbind (relay_metadata_from_str m) (\<lambda>m. Inr (RelayMetadata u (Some m))))
       else Inl Malformed)"

definition nip65_to_tag :: "nip65_tag \<Rightarrow> tag" where
  "nip65_to_tag t =
     (case t of RelayMetadata u m \<Rightarrow>
        [''r'', relay_url_as_str u] @
        (case m of None \<Rightarrow> [] | Some m \<Rightarrow> [relay_metadata_as_str m]))"

definition nip65_tag_ok :: "externals \<Rightarrow> nip65_tag \<Rightarrow> bool" where
  "nip65_tag_ok x t = (case t of RelayMetadata u m \<Rightarrow> relay_url_stable x u)"

lemma relay_metadata_from_as_str: "relay_metadata_from_str (relay_metadata_as_str m) = Inr m"
  by (cases m) (simp_all add: relay_metadata_from_str_def relay_metadata_as_str_def)

interpretation nip65: tag_codec "nip65_parse x" nip65_to_tag "nip65_tag_ok x" for x
  by unfold_locales
    (auto simp: nip65_parse_def nip65_to_tag_def nip65_tag_ok_def take_relay_url_def
      relay_url_stable_def takes relay_metadata_from_as_str split: nip65_tag.splits option.splits)

text \<open>\<open>RelayList::into_event_builder\<close> and \<open>nip65::extract_relay_list\<close>.\<close>

definition relay_list_tags :: "(relay_url \<times> relay_metadata option) list \<Rightarrow> tag list" where
  "relay_list_tags relays = map (\<lambda>(u, m). nip65_to_tag (RelayMetadata u m)) relays"

definition nip65_extract_relay_list ::
  "externals \<Rightarrow> event \<Rightarrow> (relay_url \<times> relay_metadata option) list" where
  "nip65_extract_relay_list x e =
     List.map_filter
       (\<lambda>t. case nip65_parse x t of Inr (RelayMetadata u m) \<Rightarrow> Some (u, m) | Inl _ \<Rightarrow> None)
       (ev_tags e)"

section \<open>NIP-17\<close>

datatype nip17_tag = N17_Relay relay_url

definition nip17_parse :: "externals \<Rightarrow> string list \<Rightarrow> nip17_tag res" where
  "nip17_parse x t =
     rbind (take_next t) (\<lambda>(k, it).
       if k = ''relay'' then rbind (take_relay_url x it) (\<lambda>(u, it). Inr (N17_Relay u))
       else Inl Malformed)"

definition nip17_to_tag :: "nip17_tag \<Rightarrow> tag" where
  "nip17_to_tag t = (case t of N17_Relay u \<Rightarrow> [''relay'', relay_url_as_str u])"

interpretation nip17: tag_codec "nip17_parse x" nip17_to_tag
  "\<lambda>t. case t of N17_Relay u \<Rightarrow> relay_url_stable x u" for x
  by unfold_locales
    (auto simp: nip17_parse_def nip17_to_tag_def take_relay_url_def relay_url_stable_def takes
      split: nip17_tag.splits)

definition inbox_relay_list_tags :: "relay_url list \<Rightarrow> tag list" where
  "inbox_relay_list_tags relays = map (\<lambda>u. nip17_to_tag (N17_Relay u)) relays"

definition nip17_extract_relay_list :: "externals \<Rightarrow> event \<Rightarrow> relay_url list" where
  "nip17_extract_relay_list x e =
     List.map_filter
       (\<lambda>t. case nip17_parse x t of Inr (N17_Relay u) \<Rightarrow> Some u | Inl _ \<Rightarrow> None) (ev_tags e)"

section \<open>Reading the lists back\<close>

lemma map_filter_map_Some:
  "\<forall>v \<in> set vs. f (g v) = Some v \<Longrightarrow> List.map_filter f (map g vs) = vs"
  by (induction vs) (auto simp: List.map_filter_def)

lemma nip65_extract_built:
  assumes "\<forall>(u, m) \<in> set relays. relay_url_stable x u" and "ev_tags e = relay_list_tags relays"
  shows "nip65_extract_relay_list x e = relays"
  unfolding nip65_extract_relay_list_def assms(2) relay_list_tags_def
proof (rule map_filter_map_Some, rule ballI)
  fix v assume "v \<in> set relays"
  moreover obtain u m where "v = (u, m)" by (cases v)
  ultimately show "(case nip65_parse x (case v of (u, m) \<Rightarrow> nip65_to_tag (RelayMetadata u m)) of
      Inr (RelayMetadata u m) \<Rightarrow> Some (u, m) | Inl _ \<Rightarrow> None) = Some v"
    using assms(1) nip65.parse_to_tag [of x "RelayMetadata u m"] by (auto simp: nip65_tag_ok_def)
qed

lemma nip17_extract_built:
  assumes "\<forall>u \<in> set relays. relay_url_stable x u" and "ev_tags e = inbox_relay_list_tags relays"
  shows "nip17_extract_relay_list x e = relays"
  unfolding nip17_extract_relay_list_def assms(2) inbox_relay_list_tags_def
  by (rule map_filter_map_Some) (use assms(1) nip17.parse_to_tag [of x] in auto)

end
