(* ===== verification/Nostr_Address.thy ===== *)
theory Nostr_Address
  imports Nostr_Keys
begin

text \<open>
  Which relay URLs are local addresses (\<open>RelayUrl::is_local_addr\<close> in nostr/src/types/url.rs): the
  host of the URL, as the \<open>url\<close> crate prints it, is read with \<open>IpAddr::from_str\<close> of the standard
  library, whose parser is written out here, and compared with the loopback and private ranges.
\<close>

section \<open>\<open>IpAddr::from_str\<close>\<close>

definition to_digit :: "nat \<Rightarrow> char \<Rightarrow> nat option" where
  "to_digit radix c =
     (let n = (of_char c :: nat);
          d = if 48 \<le> n \<and> n \<le> 57 then Some (n - 48)
              else if 97 \<le> n \<and> n \<le> 122 then Some (n - 87)
              else if 65 \<le> n \<and> n \<le> 90 then Some (n - 55) else None
      in case d of None \<Rightarrow> None | Some v \<Rightarrow> if v < radix then Some v else None)"

fun take_digits :: "nat \<Rightarrow> string \<Rightarrow> nat list \<times> string" where
  "take_digits radix [] = ([], [])"
| "take_digits radix (c # s) =
     (case to_digit radix c of
        None \<Rightarrow> ([], c # s)
      | Some d \<Rightarrow> (let (ds, rest) = take_digits radix s in (d # ds, rest)))"

text \<open>At most \<open>max_digits\<close> digits; without \<open>zero_prefix\<close> no leading zero.\<close>

definition read_number ::
  "nat \<Rightarrow> nat \<Rightarrow> bool \<Rightarrow> nat \<Rightarrow> string \<Rightarrow> (nat \<times> string) option" where
  "read_number radix max_digits zero_prefix bound s =
     (let (ds, rest) = take_digits radix s;
          n = foldl (\<lambda>acc d. acc * radix + d) 0 ds
      in if length ds > max_digits \<or> ds = [] \<or>
            \<not> zero_prefix \<and> hd ds = 0 \<and> length ds > 1 \<or> n > bound
         then None else Some (n, rest))"

definition read_separator ::
  "char \<Rightarrow> nat \<Rightarrow> (string \<Rightarrow> ('a \<times> string) option) \<Rightarrow> string \<Rightarrow> ('a \<times> string) option" where
  "read_separator sep index inner s =
     (if index = 0 then inner s
      else (case s of [] \<Rightarrow> None | c # r \<Rightarrow> if c = sep then inner r else None))"

definition read_octet :: "nat \<Rightarrow> string \<Rightarrow> (nat \<times> string) option" where
  "read_octet i = read_separator (CHR ''.'') i (read_number 10 3 False 255)"

definition read_ipv4_addr :: "string \<Rightarrow> (nat list \<times> string) option" where
  "read_ipv4_addr s =
     (case read_octet 0 s of None \<Rightarrow> None | Some (a, s) \<Rightarrow>
      (case read_octet 1 s of None \<Rightarrow> None | Some (b, s) \<Rightarrow>
       (case read_octet 2 s of None \<Rightarrow> None | Some (c, s) \<Rightarrow>
        (case read_octet 3 s of None \<Rightarrow> None | Some (d, s) \<Rightarrow> Some ([a, b, c, d], s)))))"

text \<open>
  The 16-bit groups from slot \<open>i\<close> of \<open>limit\<close> slots; an IPv4 address fills two slots and ends the
  groups. The Boolean says whether it did.
\<close>

function read_groups :: "nat \<Rightarrow> nat \<Rightarrow> string \<Rightarrow> nat list \<times> bool \<times> string" where
  "read_groups limit i s =
     (if limit \<le> i then ([], False, s)
      else (case if i < limit - 1 then read_separator (CHR '':'') i read_ipv4_addr s else None of
          Some (v, rest) \<Rightarrow> ([v ! 0 * 256 + v ! 1, v ! 2 * 256 + v ! 3], True, rest)
        | None \<Rightarrow>
            (case read_separator (CHR '':'') i (read_number 16 4 True 65535) s of
               None \<Rightarrow> ([], False, s)
             | Some (g, rest) \<Rightarrow>
                 (let (gs, v4, rest) = read_groups limit (Suc i) rest in (g # gs, v4, rest)))))"
  by pat_completeness auto
termination by (relation "measure (\<lambda>(limit, i, s). limit - i)") auto

declare read_groups.simps [simp del]

definition read_ipv6_addr :: "string \<Rightarrow> (nat list \<times> string) option" where
  "read_ipv6_addr s =
     (let (head, v4, s) = read_groups 8 0 s
      in if length head = 8 then Some (head, s)
         else if v4 then None
         else (case s of
             a # b # s \<Rightarrow>
               if a = CHR '':'' \<and> b = CHR '':''
               then (let (tail, _, s) = read_groups (8 - (length head + 1)) 0 s
                     in Some (head @ replicate (8 - length head - length tail) 0 @ tail, s))
               else None
           | _ \<Rightarrow> None))"

datatype ip_addr = V4 "nat list" | V6 "nat list"

definition ip_addr_from_str :: "string \<Rightarrow> ip_addr option" where
  "ip_addr_from_str s =
     (case (case read_ipv4_addr s of
              Some (v, rest) \<Rightarrow> Some (V4 v, rest)
            | None \<Rightarrow> map_option (\<lambda>(v, rest). (V6 v, rest)) (read_ipv6_addr s)) of
        None \<Rightarrow> None
      | Some (addr, rest) \<Rightarrow> if rest = [] then Some addr else None)"

section \<open>Local addresses\<close>

definition ipv4_is_loopback :: "nat list \<Rightarrow> bool" where
  "ipv4_is_loopback v \<longleftrightarrow> v ! 0 = 127"

definition ipv4_is_private :: "nat list \<Rightarrow> bool" where
  "ipv4_is_private v \<longleftrightarrow>
     v ! 0 = 10 \<or> v ! 0 = 172 \<and> 16 \<le> v ! 1 \<and> v ! 1 \<le> 31 \<or> v ! 0 = 192 \<and> v ! 1 = 168"

definition ipv6_is_loopback :: "nat list \<Rightarrow> bool" where
  "ipv6_is_loopback v \<longleftrightarrow> v = [0, 0, 0, 0, 0, 0, 0, 1]"

definition is_local_addr :: "relay_url \<Rightarrow> bool" where
  "is_local_addr u =
     (case url_host_str (ru_url u) of
        None \<Rightarrow> False
      | Some host \<Rightarrow>
          (case ip_addr_from_str host of
             None \<Rightarrow> False
           | Some (V4 v) \<Rightarrow> ipv4_is_loopback v \<or> ipv4_is_private v
           | Some (V6 v) \<Rightarrow> ipv6_is_loopback v))"

section \<open>What the parser reads\<close>

text \<open>The digits that \<open>show_nat\<close> prints.\<close>

fun digits_of :: "nat \<Rightarrow> nat list" where
  "digits_of n = (if n < 10 then [n] else digits_of (n div 10) @ [n mod 10])"

declare digits_of.simps [simp del]

lemma show_nat_digits_of: "show_nat n = map digit_char (digits_of n)"
proof (induction n rule: digits_of.induct)
  case (1 n)
  then show ?case by (subst show_nat.simps, subst digits_of.simps) simp
qed

lemma digits_of_less: "d \<in> set (digits_of n) \<Longrightarrow> d < 10"
proof (induction n rule: digits_of.induct)
  case (1 n)
  show ?case
  proof (cases "n < 10")
    case True
    with "1.prems" show ?thesis by (simp add: digits_of.simps [of n])
  next
    case False
    with "1.prems" "1.IH" show ?thesis by (auto simp: digits_of.simps [of n])
  qed
qed

lemma digits_of_nonempty [simp]: "digits_of n \<noteq> []"
  by (subst digits_of.simps) simp

lemma digits_of_value: "foldl (\<lambda>acc d. acc * 10 + d) 0 (digits_of n) = n"
proof (induction n rule: digits_of.induct)
  case (1 n)
  then show ?case by (cases "n < 10") (simp_all add: digits_of.simps [of n])
qed

lemma digits_of_hd: "0 < n \<Longrightarrow> hd (digits_of n) \<noteq> 0"
proof (induction n rule: digits_of.induct)
  case (1 n)
  show ?case
  proof (cases "n < 10")
    case True
    with "1.prems" show ?thesis by (simp add: digits_of.simps [of n])
  next
    case False
    then have "0 < n div 10" by simp
    with "1.IH" False show ?thesis by (simp add: digits_of.simps [of n])
  qed
qed

lemma digits_of_length: "n \<le> 255 \<Longrightarrow> length (digits_of n) \<le> 3"
  by (subst digits_of.simps, subst digits_of.simps, subst digits_of.simps) auto

lemma to_digit_digit_char: "d < 10 \<Longrightarrow> to_digit 10 (digit_char d) = Some d"
  by (simp add: to_digit_def digit_char_def Let_def)

lemma take_digits_append:
  "\<forall>d \<in> set ds. d < 10 \<Longrightarrow> r = [] \<or> to_digit 10 (hd r) = None \<Longrightarrow>
   take_digits 10 (map digit_char ds @ r) = (ds, r)"
proof (induction ds)
  case Nil
  then show ?case by (cases r) auto
next
  case (Cons d ds)
  then show ?case by (simp add: to_digit_digit_char)
qed

lemma read_number_show:
  assumes "n \<le> 255" and "r = [] \<or> to_digit 10 (hd r) = None"
  shows "read_number 10 3 False 255 (show_nat n @ r) = Some (n, r)"
proof -
  have "take_digits 10 (show_nat n @ r) = (digits_of n, r)"
    unfolding show_nat_digits_of using digits_of_less assms(2) by (intro take_digits_append) auto
  moreover have "\<not> (hd (digits_of n) = 0 \<and> 1 < length (digits_of n))"
  proof (cases "n = 0")
    case True
    then show ?thesis by (simp add: digits_of.simps)
  next
    case False
    then show ?thesis using digits_of_hd by simp
  qed
  ultimately show ?thesis
    using assms(1) digits_of_length [OF assms(1)]
    by (auto simp: read_number_def digits_of_value)
qed

definition dotted :: "nat \<Rightarrow> nat \<Rightarrow> nat \<Rightarrow> nat \<Rightarrow> string" where
  "dotted a b c d = show_nat a @ ''.'' @ show_nat b @ ''.'' @ show_nat c @ ''.'' @ show_nat d"

lemma dot_no_digit [simp]: "to_digit 10 (CHR ''.'') = None"
  by (simp add: to_digit_def)

lemma read_ipv4_dotted:
  assumes "a \<le> 255" "b \<le> 255" "c \<le> 255" "d \<le> 255"
  shows "read_ipv4_addr (dotted a b c d) = Some ([a, b, c, d], [])"
proof -
  note n = read_number_show [OF assms(1), of "CHR ''.'' # s" for s]
    read_number_show [OF assms(2), of "CHR ''.'' # s" for s]
    read_number_show [OF assms(3), of "CHR ''.'' # s" for s]
    read_number_show [OF assms(4), of "[]"]
  show ?thesis
    using n by (simp add: read_ipv4_addr_def read_octet_def read_separator_def dotted_def)
qed

text \<open>A host in brackets is no address for the parser: it begins with no digit and no colon.\<close>

lemma bracket_no_digit [simp]: "to_digit r (CHR ''['') = None"
  by (simp add: to_digit_def)

lemma ip_addr_bracket: "ip_addr_from_str (CHR ''['' # s) = None"
  by (simp add: ip_addr_from_str_def read_ipv4_addr_def read_ipv6_addr_def read_octet_def
      read_separator_def read_number_def read_groups.simps [of 8 0] split: list.split)

lemma ip_addr_loopback: "ip_addr_from_str ''::1'' = Some (V6 [0, 0, 0, 0, 0, 0, 0, 1])"
proof -
  have colon: "to_digit r (CHR '':'') = None" for r by (simp add: to_digit_def)
  have one: "to_digit 10 (CHR ''1'') = Some 1" "to_digit 16 (CHR ''1'') = Some 1"
    by (simp_all add: to_digit_def)
  have front: "read_groups 8 0 ''::1'' = ([], False, ''::1'')"
    by (simp add: read_groups.simps [of 8 0] read_ipv4_addr_def read_octet_def read_separator_def
        read_number_def colon)
  have "read_groups 7 (Suc 0) [] = ([], False, [])"
    by (simp add: read_groups.simps [of 7 "Suc 0"] read_separator_def)
  then have rear: "read_groups 7 0 ''1'' = ([1], False, [])"
    by (simp add: read_groups.simps [of 7 0] read_ipv4_addr_def read_octet_def read_separator_def
        read_number_def one)
  have "replicate 7 (0 :: nat) = [0, 0, 0, 0, 0, 0, 0]" by (simp add: eval_nat_numeral)
  then have v6: "read_ipv6_addr ''::1'' = Some ([0, 0, 0, 0, 0, 0, 0, 1], [])"
    by (simp add: read_ipv6_addr_def front rear)
  have "read_ipv4_addr ''::1'' = None"
    by (simp add: read_ipv4_addr_def read_octet_def read_separator_def read_number_def colon)
  then show ?thesis by (simp add: ip_addr_from_str_def v6)
qed

section \<open>Properties\<close>

text \<open>
  A host that is four decimal numbers up to 255 is local exactly in the ranges 127.0.0.0/8,
  10.0.0.0/8, 172.16.0.0/12 and 192.168.0.0/16. A host in brackets, the form in which a URL has an
  IPv6 address, is never local, not even \<open>[::1]\<close>.
\<close>

lemma local_addresses:
  "\<not> (url_host_str (ru_url u) = Some (dotted a b c d) \<and>
       a \<le> 255 \<and> b \<le> 255 \<and> c \<le> 255 \<and> d \<le> 255 \<and>
       is_local_addr u \<noteq>
         (a = 127 \<or> a = 10 \<or> a = 172 \<and> b \<in> {16..31} \<or> a = 192 \<and> b = 168)) \<and>
   \<not> (url_host_str (ru_url u) = Some (CHR ''['' # s) \<and> is_local_addr u) \<and>
   ip_addr_from_str ''::1'' = Some (V6 [0, 0, 0, 0, 0, 0, 0, 1])"
proof (intro conjI)
  have v: "a \<le> 255 \<Longrightarrow> b \<le> 255 \<Longrightarrow> c \<le> 255 \<Longrightarrow> d \<le> 255 \<Longrightarrow>
      ip_addr_from_str (dotted a b c d) = Some (V4 [a, b, c, d])"
    by (simp add: ip_addr_from_str_def read_ipv4_dotted)
  show "\<not> (url_host_str (ru_url u) = Some (dotted a b c d) \<and>
       a \<le> 255 \<and> b \<le> 255 \<and> c \<le> 255 \<and> d \<le> 255 \<and>
       is_local_addr u \<noteq>
         (a = 127 \<or> a = 10 \<or> a = 172 \<and> b \<in> {16..31} \<or> a = 192 \<and> b = 168))"
    using v by (auto simp: is_local_addr_def ipv4_is_loopback_def ipv4_is_private_def)
  show "\<not> (url_host_str (ru_url u) = Some (CHR ''['' # s) \<and> is_local_addr u)"
    by (auto simp: is_local_addr_def ip_addr_bracket)
  show "ip_addr_from_str ''::1'' = Some (V6 [0, 0, 0, 0, 0, 0, 0, 1])"
    by (rule ip_addr_loopback)
qed

end
