(* ===== verification/Gossip_Store.thy ===== *)
theory Gossip_Store
  imports Nostr_Relay_Lists Nostr_Address
begin

text \<open>
  What the client knows of the relays of a public key: the flags and policies of
  gossip/nostr-gossip (flags.rs, lib.rs) and the memory store of gossip/nostr-gossip-memory
  (store.rs, constant.rs).

  The store is an \<open>LruCache\<close> of the crate \<open>lru\<close>: the record \<open>lru\<close> holds the operations the code
  calls and is an argument of the definitions, \<open>lru_ok\<close> states what the code relies on. The lock
  around the cache is held for the whole of each operation, so an operation is one step. The
  clock is the argument \<open>now\<close>.
\<close>

unbundle bit_operations_syntax

section \<open>Flags\<close>

type_synonym gossip_flags = u32

definition FLAG_READ :: gossip_flags where "FLAG_READ = 1"
definition FLAG_WRITE :: gossip_flags where "FLAG_WRITE = 2"
definition FLAG_PRIVATE_MESSAGE :: gossip_flags where "FLAG_PRIVATE_MESSAGE = 4"
definition FLAG_HINT :: gossip_flags where "FLAG_HINT = 8"
definition FLAG_RECEIVED :: gossip_flags where "FLAG_RECEIVED = 16"

definition flags_add :: "gossip_flags \<Rightarrow> gossip_flags \<Rightarrow> gossip_flags" where
  "flags_add f other = f OR other"

definition flags_remove :: "gossip_flags \<Rightarrow> gossip_flags \<Rightarrow> gossip_flags" where
  "flags_remove f other = f XOR other"

definition flags_has :: "gossip_flags \<Rightarrow> gossip_flags \<Rightarrow> bool" where
  "flags_has f other \<longleftrightarrow> f AND other \<noteq> 0"

section \<open>Lists, statuses, selections and allowed relays\<close>

datatype gossip_list_kind = Nip17 | Nip65

definition to_event_kind :: "gossip_list_kind \<Rightarrow> kind" where
  "to_event_kind l = (case l of Nip17 \<Rightarrow> InboxRelays | Nip65 \<Rightarrow> RelayList)"

datatype pk_status = StatusMissing | StatusUpdated | StatusOutdated "timestamp option"

record allowed_relays =
  allow_onion :: bool
  allow_local :: bool
  allow_without_tls :: bool

definition default_allowed :: allowed_relays where
  "default_allowed = \<lparr>allow_onion = True, allow_local = False, allow_without_tls = False\<rparr>"

definition is_allowed :: "allowed_relays \<Rightarrow> relay_url \<Rightarrow> bool" where
  "is_allowed a u =
     (if \<not> allow_onion a \<and> is_onion u then False
      else if \<not> allow_local a \<and> is_local_addr u then False
      else if \<not> allow_without_tls a \<and> \<not> scheme_is_secure (ru_scheme u) then False
      else True)"

text \<open>The limits are of type \<open>u8\<close>.\<close>

datatype relay_selection =
    SelectAll u8 u8 u8 u8
  | SelectRead u8
  | SelectWrite u8
  | SelectPrivateMessage u8
  | SelectHints u8
  | SelectMostReceived u8

section \<open>The state of the memory store\<close>

definition TTL_OUTDATED :: nat where "TTL_OUTDATED = 86400"
definition MAX_NIP17_SIZE :: nat where "MAX_NIP17_SIZE = 7"
definition MAX_NIP65_SIZE :: nat where "MAX_NIP65_SIZE = 7"
definition MAX_RELAYS_PER_PK :: nat where "MAX_RELAYS_PER_PK = 7"

record pk_relay_data =
  rd_bitflags :: gossip_flags
  rd_received_events :: nat
  rd_last_received_event :: "timestamp option"

definition relay_data_default :: pk_relay_data where
  "relay_data_default =
     \<lparr>rd_bitflags = 0, rd_received_events = 0, rd_last_received_event = None\<rparr>"

text \<open>\<open>IndexMap\<close>: the entries in the order of their insertion, one for each URL.\<close>

type_synonym relay_map = "(relay_url \<times> pk_relay_data) list"

record pk_data =
  pd_last_nip17_update :: "timestamp option"
  pd_last_nip65_update :: "timestamp option"
  pd_relays :: relay_map

definition pk_data_default :: pk_data where
  "pk_data_default =
     \<lparr>pd_last_nip17_update = None, pd_last_nip65_update = None, pd_relays = []\<rparr>"

definition relays_get :: "relay_url \<Rightarrow> relay_map \<Rightarrow> pk_relay_data option" where
  "relays_get u m = map_option snd (find (\<lambda>(v, d). relay_url_eq v u) m)"

definition relays_update ::
  "relay_url \<Rightarrow> (pk_relay_data \<Rightarrow> pk_relay_data) \<Rightarrow> relay_map \<Rightarrow> relay_map" where
  "relays_update u f m = map (\<lambda>(v, d). if relay_url_eq v u then (v, f d) else (v, d)) m"

text \<open>
  The cache: \<open>lru_modify c k d f\<close> is \<open>get_or_insert_mut(k, || d)\<close> followed by the writes \<open>f\<close>
  through the reference it returns.
\<close>

record 'c lru =
  lru_peek :: "'c \<Rightarrow> public_key \<Rightarrow> pk_data option"
  lru_modify :: "'c \<Rightarrow> public_key \<Rightarrow> pk_data \<Rightarrow> (pk_data \<Rightarrow> pk_data) \<Rightarrow> 'c"
  lru_iter :: "'c \<Rightarrow> (public_key \<times> pk_data) list"

text \<open>
  An entry that is asked for is there afterwards, other entries are unchanged or evicted, and
  the iterator goes once over what \<open>peek\<close> finds.
\<close>

definition lru_ok :: "'c lru \<Rightarrow> ('c \<Rightarrow> bool) \<Rightarrow> bool" where
  "lru_ok L good \<longleftrightarrow>
     (\<forall>c k d f. good c \<longrightarrow>
        good (lru_modify L c k d f) \<and>
        lru_peek L (lru_modify L c k d f) k =
          Some (f (case lru_peek L c k of None \<Rightarrow> d | Some v \<Rightarrow> v)) \<and>
        (\<forall>j. j \<noteq> k \<longrightarrow> lru_peek L (lru_modify L c k d f) j \<in> {None, lru_peek L c j})) \<and>
     (\<forall>c. good c \<longrightarrow>
        distinct (map fst (lru_iter L c)) \<and>
        (\<forall>k v. (k, v) \<in> set (lru_iter L c) \<longleftrightarrow> lru_peek L c k = Some v))"

section \<open>Processing an event\<close>

definition update_relay_per_user ::
  "timestamp \<Rightarrow> relay_url \<Rightarrow> gossip_flags \<Rightarrow> pk_data \<Rightarrow> pk_data" where
  "update_relay_per_user now u flags p =
     (let relays_len = length (pd_relays p);
          touch = (\<lambda>d. d\<lparr>rd_bitflags := flags_add (rd_bitflags d) flags,
                         rd_received_events := saturating_add u64_max (rd_received_events d) 1,
                         rd_last_received_event := Some now\<rparr>)
      in case relays_get u (pd_relays p) of
           Some d \<Rightarrow> p\<lparr>pd_relays := relays_update u touch (pd_relays p)\<rparr>
         | None \<Rightarrow>
             if relays_len \<le> MAX_RELAYS_PER_PK
             then p\<lparr>pd_relays := pd_relays p @ [(u, touch relay_data_default)]\<rparr>
             else p)"

definition metadata_flags :: "relay_metadata option \<Rightarrow> gossip_flags" where
  "metadata_flags m =
     (case m of
        Some MetaRead \<Rightarrow> FLAG_READ
      | Some MetaWrite \<Rightarrow> FLAG_WRITE
      | None \<Rightarrow> flags_add FLAG_READ FLAG_WRITE)"

definition announce_nip65 :: "pk_data \<Rightarrow> relay_url \<times> relay_metadata option \<Rightarrow> pk_data" where
  "announce_nip65 p = (\<lambda>(u, metadata).
     (let bitflag = metadata_flags metadata;
          read_write_mask = flags_add FLAG_READ FLAG_WRITE
      in case relays_get u (pd_relays p) of
           Some d \<Rightarrow>
             p\<lparr>pd_relays := relays_update u
                 (\<lambda>d. d\<lparr>rd_bitflags :=
                     flags_add (flags_remove (rd_bitflags d) read_write_mask) bitflag\<rparr>)
                 (pd_relays p)\<rparr>
         | None \<Rightarrow>
             p\<lparr>pd_relays := pd_relays p @
                 [(u, relay_data_default\<lparr>rd_bitflags := flags_add 0 bitflag\<rparr>)]\<rparr>))"

definition announce_nip17 :: "pk_data \<Rightarrow> relay_url \<Rightarrow> pk_data" where
  "announce_nip17 p u =
     (case relays_get u (pd_relays p) of
        Some d \<Rightarrow>
          p\<lparr>pd_relays := relays_update u
              (\<lambda>d. d\<lparr>rd_bitflags := flags_add (rd_bitflags d) FLAG_PRIVATE_MESSAGE\<rparr>)
              (pd_relays p)\<rparr>
      | None \<Rightarrow>
          p\<lparr>pd_relays := pd_relays p @
              [(u, relay_data_default\<lparr>rd_bitflags := flags_add 0 FLAG_PRIVATE_MESSAGE\<rparr>)]\<rparr>)"

text \<open>The relay hints of the \<open>p\<close> tags of an event.\<close>

definition p_tag_hints :: "externals \<Rightarrow> event \<Rightarrow> (public_key \<times> relay_url) list" where
  "p_tag_hints x e =
     List.map_filter
       (\<lambda>t. if tag_kind t \<noteq> ''p'' then None
            else (case nip01_parse x t of
                    Inr (N01_PublicKey pk (Some hint)) \<Rightarrow> Some (pk, hint)
                  | _ \<Rightarrow> None)) (ev_tags e)"

definition process_event ::
  "externals \<Rightarrow> 'c lru \<Rightarrow> timestamp \<Rightarrow> event \<Rightarrow> relay_url option \<Rightarrow> 'c \<Rightarrow> 'c" where
  "process_event x L now e relay c =
     (let c =
        (if ev_kind e = RelayList then
           lru_modify L c (ev_pubkey e) pk_data_default
             (\<lambda>p. foldl announce_nip65 p (take MAX_NIP65_SIZE (nip65_extract_relay_list x e)))
         else if ev_kind e = InboxRelays then
           lru_modify L c (ev_pubkey e) pk_data_default
             (\<lambda>p. foldl announce_nip17 p (take MAX_NIP17_SIZE (nip17_extract_relay_list x e)))
         else
           foldl (\<lambda>c (pk, hint).
               lru_modify L c pk pk_data_default (update_relay_per_user now hint FLAG_HINT))
             c (p_tag_hints x e))
      in case relay of
           None \<Rightarrow> c
         | Some u \<Rightarrow>
             lru_modify L c (ev_pubkey e) pk_data_default
               (update_relay_per_user now u FLAG_RECEIVED))"

section \<open>Status and outdated keys\<close>

definition last_update :: "gossip_list_kind \<Rightarrow> pk_data \<Rightarrow> timestamp option" where
  "last_update l p =
     (case l of Nip17 \<Rightarrow> pd_last_nip17_update p | Nip65 \<Rightarrow> pd_last_nip65_update p)"

definition get_status ::
  "'c lru \<Rightarrow> timestamp \<Rightarrow> public_key \<Rightarrow> gossip_list_kind \<Rightarrow> 'c \<Rightarrow> pk_status" where
  "get_status L now pk l c =
     (case lru_peek L c pk of
        None \<Rightarrow> StatusMissing
      | Some p \<Rightarrow>
          (case last_update l p of
             None \<Rightarrow> StatusMissing
           | Some t \<Rightarrow>
               if ts_add t TTL_OUTDATED < now then StatusOutdated None else StatusUpdated))"

definition update_fetch_attempt ::
  "'c lru \<Rightarrow> timestamp \<Rightarrow> public_key \<Rightarrow> gossip_list_kind \<Rightarrow> 'c \<Rightarrow> 'c" where
  "update_fetch_attempt L now pk l c =
     lru_modify L c pk pk_data_default
       (\<lambda>p. case l of
          Nip17 \<Rightarrow> p\<lparr>pd_last_nip17_update := Some now\<rparr>
        | Nip65 \<Rightarrow> p\<lparr>pd_last_nip65_update := Some now\<rparr>)"

text \<open>\<open>Ord\<close> of \<open>OutdatedPublicKey\<close>: by time, then by key.\<close>

record outdated_public_key =
  op_public_key :: public_key
  op_timestamp :: timestamp

definition outdated_key :: "outdated_public_key \<Rightarrow> timestamp \<times> public_key" where
  "outdated_key a = (op_timestamp a, op_public_key a)"

definition collect_outdated_public_keys ::
  "'c lru \<Rightarrow> timestamp \<Rightarrow> gossip_list_kind \<Rightarrow> nat \<Rightarrow> 'c \<Rightarrow> outdated_public_key list" where
  "collect_outdated_public_keys L now l limit c =
     take limit (foldl (\<lambda>outdated (pk, p).
         case last_update l p of
           None \<Rightarrow> outdated
         | Some t \<Rightarrow>
             if ts_add t TTL_OUTDATED < now
             then bts_insert outdated_key \<lparr>op_public_key = pk, op_timestamp = t\<rparr> outdated
             else outdated) [] (lru_iter L c))"

section \<open>The best relays of a key\<close>

text \<open>
  \<open>sort_by\<close> is stable; the comparison is descending in the number of received events and then in
  the time of the last one, where \<open>None\<close> is the least time.
\<close>

definition rank :: "relay_url \<times> pk_relay_data \<Rightarrow> int \<times> int" where
  "rank = (\<lambda>(u, d).
     (- int (rd_received_events d),
      case rd_last_received_event d of None \<Rightarrow> 1 | Some t \<Rightarrow> - int t))"

definition get_relays_by_flag ::
  "'c lru \<Rightarrow> 'c \<Rightarrow> public_key \<Rightarrow> gossip_flags \<Rightarrow> allowed_relays \<Rightarrow> u8 \<Rightarrow> relay_url list" where
  "get_relays_by_flag L c pk flag allowed limit =
     (let relays = (case lru_peek L c pk of
            None \<Rightarrow> []
          | Some p \<Rightarrow> [(u, d) \<leftarrow> pd_relays p. is_allowed allowed u \<and> flags_has (rd_bitflags d) flag])
      in map fst (take (unat limit) (sort_key rank relays)))"

text \<open>
  A \<open>HashSet<RelayUrl>\<close> is a list with one entry per URL; nothing depends on its order, which
  Rust leaves open.
\<close>

definition urls_extend :: "relay_url list \<Rightarrow> relay_url list \<Rightarrow> relay_url list" where
  "urls_extend s us =
     foldl (\<lambda>s u. if list_ex (relay_url_eq u) s then s else s @ [u]) s us"

definition get_best_relays ::
  "'c lru \<Rightarrow> public_key \<Rightarrow> relay_selection \<Rightarrow> allowed_relays \<Rightarrow> 'c \<Rightarrow> relay_url list" where
  "get_best_relays L pk selection allowed c =
     (let by_flag = (\<lambda>flag limit. get_relays_by_flag L c pk flag allowed limit)
      in case selection of
           SelectAll r w h m \<Rightarrow>
             urls_extend (urls_extend (urls_extend (urls_extend []
               (by_flag FLAG_READ r)) (by_flag FLAG_WRITE w)) (by_flag FLAG_HINT h))
               (by_flag FLAG_RECEIVED m)
         | SelectRead l \<Rightarrow> urls_extend [] (by_flag FLAG_READ l)
         | SelectWrite l \<Rightarrow> urls_extend [] (by_flag FLAG_WRITE l)
         | SelectPrivateMessage l \<Rightarrow> urls_extend [] (by_flag FLAG_PRIVATE_MESSAGE l)
         | SelectHints l \<Rightarrow> urls_extend [] (by_flag FLAG_HINT l)
         | SelectMostReceived l \<Rightarrow> urls_extend [] (by_flag FLAG_RECEIVED l))"

end
