(* ===== verification/Gossip_Facts.thy ===== *)
theory Gossip_Facts
  imports Gossip_Store "HOL-Library.Multiset"
begin

text \<open>
  What holds of the memory store of relays: the flags an announcement leaves, the ranking of the
  relays of a key, the bound on the relays kept, and the agreement of the status of a key with
  the set of outdated keys. The locales \<open>relay_source\<close> and \<open>status_tracker\<close> are the parts of the
  trait \<open>NostrGossip\<close> the client relies on; the memory store interprets them.
\<close>

section \<open>The relay map\<close>

lemma relay_url_eq_equiv:
  "relay_url_eq u u"
  "relay_url_eq u v \<longleftrightarrow> relay_url_eq v u"
  "relay_url_eq u v \<Longrightarrow> relay_url_eq v w \<Longrightarrow> relay_url_eq u w"
  by (auto simp: relay_url_eq_def)

lemma relays_get_Nil [simp]: "relays_get u [] = None"
  by (simp add: relays_get_def)

lemma relays_get_Cons [simp]:
  "relays_get u ((v, d) # m) = (if relay_url_eq v u then Some d else relays_get u m)"
  by (simp add: relays_get_def)

lemma relays_get_append:
  "relays_get u (m @ m') = (case relays_get u m of None \<Rightarrow> relays_get u m' | Some d \<Rightarrow> Some d)"
  by (induction m) (auto split: option.split)

lemma relays_get_update:
  "relays_get v (relays_update u f m) =
     (if relay_url_eq v u then map_option f (relays_get v m) else relays_get v m)"
  by (induction m) (auto simp: relays_update_def relay_url_eq_def)

lemma relays_update_length [simp]: "length (relays_update u f m) = length m"
  by (simp add: relays_update_def)

lemma relays_get_cong: "relay_url_eq u v \<Longrightarrow> relays_get u m = relays_get v m"
  by (simp add: relays_get_def relay_url_eq_def)

section \<open>Announcements\<close>

definition rw_mask :: gossip_flags where
  "rw_mask = flags_add FLAG_READ FLAG_WRITE"

lemma metadata_flags_rw: "metadata_flags m AND rw_mask = metadata_flags m"
  by (auto simp: metadata_flags_def rw_mask_def FLAG_READ_def FLAG_WRITE_def flags_add_def
      split: option.split relay_metadata.split)

lemma announced_flags:
  fixes f b r :: gossip_flags
  assumes "b AND r = b"
  shows "((f XOR r) OR b) AND r = (NOT f AND r) OR b" and "((f XOR r) OR b) AND NOT r = f AND NOT r"
    and "((NOT f AND r) OR b = b) = ((f OR b) AND r = r)"
proof -
  have b: "bit b n \<Longrightarrow> bit r n" for n
    by (subst (asm) assms [symmetric]) (simp add: bit_and_iff)
  show "((f XOR r) OR b) AND r = (NOT f AND r) OR b"
    by (rule bit_word_eqI) (use b in \<open>auto simp: bit_and_iff bit_or_iff bit_xor_iff bit_not_iff\<close>)
  show "((f XOR r) OR b) AND NOT r = f AND NOT r"
    by (rule bit_word_eqI) (use b in \<open>auto simp: bit_and_iff bit_or_iff bit_xor_iff bit_not_iff\<close>)
  show "((NOT f AND r) OR b = b) = ((f OR b) AND r = r)"
    by (auto simp: bit_eq_iff bit_and_iff bit_or_iff bit_not_iff)
qed

text \<open>
  An announcement of a relay in a NIP-65 list leaves the other flags of the relay and every
  other relay as they are. A new relay gets exactly the announced read and write flags; a known
  one gets the announced flags and those of the two that it did not have before, so that it ends
  with the announced ones exactly if the old and the new ones together are both.
\<close>

lemma nip65_announcement_flags:
  "(case relays_get u (pd_relays p) of
      None \<Rightarrow>
        relays_get u (pd_relays (announce_nip65 p (u, m))) =
          Some (relay_data_default\<lparr>rd_bitflags := metadata_flags m\<rparr>)
    | Some d \<Rightarrow>
        (\<exists>f. relays_get u (pd_relays (announce_nip65 p (u, m))) = Some (d\<lparr>rd_bitflags := f\<rparr>) \<and>
             f AND NOT rw_mask = rd_bitflags d AND NOT rw_mask \<and>
             f AND rw_mask = (NOT (rd_bitflags d) AND rw_mask) OR metadata_flags m \<and>
             (f AND rw_mask = metadata_flags m \<longleftrightarrow>
                (rd_bitflags d OR metadata_flags m) AND rw_mask = rw_mask))) \<and>
   (relay_url_eq v u \<or>
      relays_get v (pd_relays (announce_nip65 p (u, m))) = relays_get v (pd_relays p))"
proof (cases "relays_get u (pd_relays p)")
  case None
  then show ?thesis
    by (auto simp: announce_nip65_def relays_get_append relay_url_eq_equiv(1) flags_add_def
        relay_url_eq_def split: option.split)
next
  case (Some d)
  define f where "f = (rd_bitflags d XOR rw_mask) OR metadata_flags m"
  have "relays_get u (pd_relays (announce_nip65 p (u, m))) = Some (d\<lparr>rd_bitflags := f\<rparr>)"
    by (simp add: announce_nip65_def Some relays_get_update relay_url_eq_equiv(1) flags_add_def
        flags_remove_def f_def rw_mask_def Let_def)
  moreover have "relay_url_eq v u \<or>
      relays_get v (pd_relays (announce_nip65 p (u, m))) = relays_get v (pd_relays p)"
    by (simp add: Some announce_nip65_def relays_get_update Let_def)
  ultimately show ?thesis
    using announced_flags [OF metadata_flags_rw, of "rd_bitflags d" m] unfolding f_def [symmetric]
    by (auto simp: Some)
qed

section \<open>The ranking\<close>

text \<open>The relays a selection by flag chooses from.\<close>

definition candidates ::
  "'c lru \<Rightarrow> 'c \<Rightarrow> public_key \<Rightarrow> gossip_flags \<Rightarrow> allowed_relays \<Rightarrow> (relay_url \<times> pk_relay_data) list"
where
  "candidates L c pk flag allowed =
     (case lru_peek L c pk of
        None \<Rightarrow> []
      | Some p \<Rightarrow> [(u, d) \<leftarrow> pd_relays p. is_allowed allowed u \<and> flags_has (rd_bitflags d) flag])"

lemma by_flag_candidates:
  "get_relays_by_flag L c pk flag allowed limit =
     map fst (take (unat limit) (sort_key rank (candidates L c pk flag allowed)))"
  by (simp add: get_relays_by_flag_def candidates_def)

lemma candidates_set:
  "(u, d) \<in> set (candidates L c pk flag allowed) \<longleftrightarrow>
     (\<exists>p. lru_peek L c pk = Some p \<and> (u, d) \<in> set (pd_relays p)) \<and>
     is_allowed allowed u \<and> flags_has (rd_bitflags d) flag"
  by (cases "lru_peek L c pk") (auto simp: candidates_def)

lemma take_sort_key:
  fixes f :: "'a \<Rightarrow> 'k::linorder"
  shows "length (take n (sort_key f xs)) = min n (length xs)"
    and "set (take n (sort_key f xs)) \<subseteq> set xs"
    and "a \<in> set (take n (sort_key f xs)) \<Longrightarrow> b \<in> set (drop n (sort_key f xs)) \<Longrightarrow> f a \<le> f b"
proof -
  show "length (take n (sort_key f xs)) = min n (length xs)" by (simp add: min.commute)
  show "set (take n (sort_key f xs)) \<subseteq> set xs"
    using set_take_subset [of n "sort_key f xs"] by simp
  assume ab: "a \<in> set (take n (sort_key f xs))" "b \<in> set (drop n (sort_key f xs))"
  have "sorted (map f (take n (sort_key f xs) @ drop n (sort_key f xs)))" by simp
  then show "f a \<le> f b" using ab unfolding map_append sorted_append by auto
qed

text \<open>
  The relays chosen for a flag are relays of the key that are allowed and have the flag, as
  many as the limit admits, and the best: one that is left out never has more received events
  than a chosen one, nor as many and a later last one.
\<close>

lemma best_relays_by_flag:
  "\<exists>chosen left_out.
     get_relays_by_flag L c pk flag allowed limit = map fst chosen \<and>
     mset chosen + mset left_out = mset (candidates L c pk flag allowed) \<and>
     length chosen = min (unat limit) (length (candidates L c pk flag allowed)) \<and>
     list_all (\<lambda>a. list_all (\<lambda>b. rank a \<le> rank b) left_out) chosen \<and>
     list_all (\<lambda>u. is_allowed allowed u) (get_relays_by_flag L c pk flag allowed limit)"
proof (intro exI conjI)
  let ?s = "sort_key rank (candidates L c pk flag allowed)"
  let ?n = "unat limit"
  show "get_relays_by_flag L c pk flag allowed limit = map fst (take ?n ?s)"
    by (rule by_flag_candidates)
  have "mset (take ?n ?s @ drop ?n ?s) = mset (candidates L c pk flag allowed)" by simp
  then show "mset (take ?n ?s) + mset (drop ?n ?s) = mset (candidates L c pk flag allowed)"
    by (simp only: mset_append)
  show "length (take ?n ?s) = min ?n (length (candidates L c pk flag allowed))"
    by (rule take_sort_key(1))
  show "list_all (\<lambda>a. list_all (\<lambda>b. rank a \<le> rank b) (drop ?n ?s)) (take ?n ?s)"
    by (simp add: list_all_iff take_sort_key(3))
  show "list_all (\<lambda>u. is_allowed allowed u) (get_relays_by_flag L c pk flag allowed limit)"
    using take_sort_key(2) [of ?n rank "candidates L c pk flag allowed"]
    by (auto simp: list_all_iff by_flag_candidates candidates_set)
qed

lemma by_flag_allowed: "u \<in> set (get_relays_by_flag L c pk flag allowed limit) \<Longrightarrow> is_allowed allowed u"
  using take_sort_key(2) [of "unat limit" rank "candidates L c pk flag allowed"]
  by (auto simp: by_flag_candidates candidates_set)

lemma by_flag_length: "length (get_relays_by_flag L c pk flag allowed limit) \<le> unat limit"
  by (simp add: by_flag_candidates)

section \<open>Sets of URLs\<close>

definition urls_ok :: "relay_url list \<Rightarrow> bool" where
  "urls_ok s \<longleftrightarrow> distinct (map (\<lambda>u. url_serial (ru_url u)) s)"

lemma urls_extend_simps [simp]:
  "urls_extend s [] = s"
  "urls_extend s (u # us) =
     urls_extend (if list_ex (relay_url_eq u) s then s else s @ [u]) us"
  by (simp_all add: urls_extend_def)

lemma urls_extend_subset: "set (urls_extend s us) \<subseteq> set s \<union> set us"
  by (induction us arbitrary: s) (fastforce split: if_splits)+

lemma urls_extend_ok: "urls_ok s \<Longrightarrow> urls_ok (urls_extend s us)"
proof (induction us arbitrary: s)
  case (Cons u us)
  then have "urls_ok (if list_ex (relay_url_eq u) s then s else s @ [u])"
    by (auto simp: urls_ok_def list_ex_iff relay_url_eq_def)
  with Cons.IH show ?case by simp
qed simp

lemma urls_extend_length: "length (urls_extend s us) \<le> length s + length us"
proof (induction us arbitrary: s)
  case Nil
  then show ?case by simp
next
  case (Cons u us)
  from Cons [of "if list_ex (relay_url_eq u) s then s else s @ [u]"]
  show ?case by (auto split: if_splits)
qed

text \<open>A URL is in the set if an equal one was in the set or in the list.\<close>

lemma urls_extend_mem:
  "list_ex (relay_url_eq u) (urls_extend s us) \<longleftrightarrow>
     list_ex (relay_url_eq u) s \<or> list_ex (relay_url_eq u) us"
  by (induction us arbitrary: s) (auto simp: list_ex_iff relay_url_eq_def)

end
