(* ===== verification/Gossip_Contract.thy ===== *)
theory Gossip_Contract
  imports Gossip_Facts
begin

text \<open>
  The trait \<open>NostrGossip\<close> (gossip/nostr-gossip/src/lib.rs) as the record \<open>gossip\<close> of its operations,
  what the client relies on as the locales \<open>gossip_source\<close> (the choice of relays) and
  \<open>gossip_tracker\<close> (the status of the keys), and the memory store as their interpretation.
\<close>

section \<open>The trait\<close>

text \<open>An operation that changes the store returns its new state also when it fails.\<close>

record ('s, 'e) gossip =
  g_process :: "event \<Rightarrow> relay_url option \<Rightarrow> 's \<Rightarrow> ('e + unit) \<times> 's"
  g_status :: "public_key \<Rightarrow> gossip_list_kind \<Rightarrow> 's \<Rightarrow> 'e + pk_status"
  g_update_fetch_attempt :: "public_key \<Rightarrow> gossip_list_kind \<Rightarrow> 's \<Rightarrow> ('e + unit) \<times> 's"
  g_outdated_public_keys :: "gossip_list_kind \<Rightarrow> nat \<Rightarrow> 's \<Rightarrow> 'e + outdated_public_key list"
  g_get_best_relays ::
    "public_key \<Rightarrow> relay_selection \<Rightarrow> allowed_relays \<Rightarrow> 's \<Rightarrow> 'e + relay_url list"

text \<open>\<open>impl NostrGossip for NostrGossipMemory\<close>: no operation fails.\<close>

definition memory_gossip :: "externals \<Rightarrow> 'c lru \<Rightarrow> timestamp \<Rightarrow> ('c, 'e) gossip" where
  "memory_gossip x L now =
     \<lparr>g_process = (\<lambda>e relay c. (Inr (), process_event x L now e relay c)),
      g_status = (\<lambda>pk l c. Inr (get_status L now pk l c)),
      g_update_fetch_attempt = (\<lambda>pk l c. (Inr (), update_fetch_attempt L now pk l c)),
      g_outdated_public_keys = (\<lambda>l limit c. Inr (collect_outdated_public_keys L now l limit c)),
      g_get_best_relays = (\<lambda>pk sel allowed c. Inr (get_best_relays L pk sel allowed c))\<rparr>"

section \<open>The choice of relays\<close>

definition selection_limit :: "relay_selection \<Rightarrow> nat" where
  "selection_limit sel =
     (case sel of
        SelectAll r w h m \<Rightarrow> unat r + unat w + unat h + unat m
      | SelectRead l \<Rightarrow> unat l
      | SelectWrite l \<Rightarrow> unat l
      | SelectPrivateMessage l \<Rightarrow> unat l
      | SelectHints l \<Rightarrow> unat l
      | SelectMostReceived l \<Rightarrow> unat l)"

locale gossip_source =
  fixes G :: "('s, 'e) gossip"
  assumes best_allowed:
      "g_get_best_relays G pk sel allowed s = Inr us \<Longrightarrow> u \<in> set us \<Longrightarrow> is_allowed allowed u"
    and best_limit:
      "g_get_best_relays G pk sel allowed s = Inr us \<Longrightarrow> length us \<le> selection_limit sel"
    and best_distinct: "g_get_best_relays G pk sel allowed s = Inr us \<Longrightarrow> urls_ok us"

lemma best_relays_allowed:
  "u \<in> set (get_best_relays L pk sel allowed c) \<Longrightarrow> is_allowed allowed u"
  by (auto simp: get_best_relays_def Let_def split: relay_selection.splits
      dest!: subsetD [OF urls_extend_subset] dest: by_flag_allowed)

lemma by_flags_length:
  "length (urls_extend s (get_relays_by_flag L c pk flag allowed limit)) \<le> length s + unat limit"
  by (rule order_trans [OF urls_extend_length]) (simp add: by_flag_length)

lemma best_relays_length: "length (get_best_relays L pk sel allowed c) \<le> selection_limit sel"
proof (cases sel)
  case (SelectAll r w h m)
  note step = by_flags_length [of _ L c pk _ allowed]
  have "length (get_best_relays L pk sel allowed c) \<le>
      (((length ([] :: relay_url list) + unat r) + unat w) + unat h) + unat m"
    unfolding SelectAll get_best_relays_def Let_def relay_selection.case
    by (intro order_trans [OF step] add_mono order_refl)
  then show ?thesis by (simp add: SelectAll selection_limit_def)
qed (use by_flags_length [of "[]" L c pk _ allowed] in
    \<open>simp_all add: get_best_relays_def selection_limit_def\<close>)

lemma best_relays_distinct: "urls_ok (get_best_relays L pk sel allowed c)"
  by (auto simp: get_best_relays_def Let_def urls_ok_def split: relay_selection.splits
      intro!: urls_extend_ok [unfolded urls_ok_def])

section \<open>The status of the keys\<close>

locale gossip_tracker = gossip_source G for G :: "('s, 'e) gossip" +
  fixes ok :: "'s \<Rightarrow> bool"
  assumes update_ok: "g_update_fetch_attempt G k l s = (r, s') \<Longrightarrow> ok s \<Longrightarrow> ok s'"
    and process_ok: "g_process G e u s = (r, s') \<Longrightarrow> ok s \<Longrightarrow> ok s'"
    and update_updated:
      "g_update_fetch_attempt G k l s = (Inr (), s') \<Longrightarrow> ok s \<Longrightarrow>
       g_status G k l s' = Inr StatusUpdated"
    and update_keeps:
      "g_update_fetch_attempt G k l s = (r, s') \<Longrightarrow> ok s \<Longrightarrow>
       g_status G j m s = Inr StatusUpdated \<Longrightarrow> g_status G j m s' = Inr StatusUpdated"
    and update_other:
      "g_update_fetch_attempt G k l s = (r, s') \<Longrightarrow> ok s \<Longrightarrow> j \<noteq> k \<Longrightarrow>
       g_status G j m s' = g_status G j m s"
    and process_keeps:
      "g_process G e u s = (r, s') \<Longrightarrow> ok s \<Longrightarrow> g_status G j m s' = g_status G j m s"

text \<open>An unbounded cache also keeps every other entry.\<close>

definition lru_unbounded :: "'c lru \<Rightarrow> ('c \<Rightarrow> bool) \<Rightarrow> bool" where
  "lru_unbounded L good \<longleftrightarrow> lru_ok L good \<and>
     (\<forall>c k d f j. good c \<longrightarrow> j \<noteq> k \<longrightarrow> lru_peek L (lru_modify L c k d f) j = lru_peek L c j)"

lemma lru_modify_good: "lru_ok L good \<Longrightarrow> good c \<Longrightarrow> good (lru_modify L c k d f)"
  by (simp add: lru_ok_def)

lemma lru_modify_peek:
  "lru_unbounded L good \<Longrightarrow> good c \<Longrightarrow>
   lru_peek L (lru_modify L c k d f) j =
     (if j = k then Some (f (case lru_peek L c k of None \<Rightarrow> d | Some v \<Rightarrow> v)) else lru_peek L c j)"
  by (simp add: lru_ok_def lru_unbounded_def)

text \<open>Writes that leave the two times alone change no status.\<close>

lemma modify_status:
  assumes "lru_unbounded L good" "good c" "\<And>p. last_update l (f p) = last_update l p"
  shows "get_status L now j l (lru_modify L c k pk_data_default f) = get_status L now j l c"
  using assms by (cases "lru_peek L c k")
    (auto simp: get_status_def lru_modify_peek last_update_def pk_data_default_def
      split: gossip_list_kind.splits option.splits)

lemma update_relay_last: "last_update l (update_relay_per_user now u f p) = last_update l p"
  by (auto simp: update_relay_per_user_def last_update_def Let_def
      split: gossip_list_kind.split option.split)

lemma announce_last:
  "last_update l (foldl announce_nip65 p us) = last_update l p"
  "last_update l (foldl announce_nip17 p vs) = last_update l p"
proof -
  have "last_update l (announce_nip65 p a) = last_update l p" for p a
    by (cases a) (auto simp: announce_nip65_def last_update_def Let_def
        split: gossip_list_kind.split option.split)
  then show "last_update l (foldl announce_nip65 p us) = last_update l p"
    by (induction us arbitrary: p) simp_all
  have "last_update l (announce_nip17 p a) = last_update l p" for p a
    by (auto simp: announce_nip17_def last_update_def
        split: gossip_list_kind.split option.split)
  then show "last_update l (foldl announce_nip17 p vs) = last_update l p"
    by (induction vs arbitrary: p) simp_all
qed

lemma hints_status:
  assumes "lru_unbounded L good"
  shows "good c \<Longrightarrow>
    good (foldl (\<lambda>c (pk, hint).
        lru_modify L c pk pk_data_default (update_relay_per_user now hint FLAG_HINT)) c hs) \<and>
    get_status L t j l (foldl (\<lambda>c (pk, hint).
        lru_modify L c pk pk_data_default (update_relay_per_user now hint FLAG_HINT)) c hs) =
      get_status L t j l c"
proof (induction hs arbitrary: c)
  case (Cons h hs)
  obtain pk hint where h: "h = (pk, hint)" by (cases h)
  have "lru_ok L good" using assms by (simp add: lru_unbounded_def)
  with Cons.prems have "good (lru_modify L c pk pk_data_default
      (update_relay_per_user now hint FLAG_HINT))" by (simp add: lru_modify_good)
  from Cons.IH [OF this] show ?case
    using modify_status [OF assms Cons.prems update_relay_last] by (simp add: h)
qed simp

lemma process_event_status:
  assumes u: "lru_unbounded L good" and c: "good c"
  shows "good (process_event x L now e relay c)"
    and "get_status L t j l (process_event x L now e relay c) = get_status L t j l c"
proof -
  have ok: "lru_ok L good" using u by (simp add: lru_unbounded_def)
  define c1 where "c1 = (if ev_kind e = RelayList then
           lru_modify L c (ev_pubkey e) pk_data_default
             (\<lambda>p. foldl announce_nip65 p (take MAX_NIP65_SIZE (nip65_extract_relay_list x e)))
         else if ev_kind e = InboxRelays then
           lru_modify L c (ev_pubkey e) pk_data_default
             (\<lambda>p. foldl announce_nip17 p (take MAX_NIP17_SIZE (nip17_extract_relay_list x e)))
         else
           foldl (\<lambda>c (pk, hint).
               lru_modify L c pk pk_data_default (update_relay_per_user now hint FLAG_HINT))
             c (p_tag_hints x e))"
  have c1: "good c1 \<and> get_status L t j l c1 = get_status L t j l c"
    unfolding c1_def using hints_status [OF u c] modify_status [OF u c] announce_last
    by (simp add: lru_modify_good [OF ok c])
  then show "good (process_event x L now e relay c)"
    by (simp add: process_event_def Let_def c1_def [symmetric] lru_modify_good [OF ok]
        split: option.split)
  show "get_status L t j l (process_event x L now e relay c) = get_status L t j l c"
    using c1 modify_status [OF u, of c1, OF _ update_relay_last]
    by (simp add: process_event_def Let_def c1_def [symmetric] split: option.split)
qed

lemma attempt_status:
  assumes u: "lru_unbounded L good" and c: "good c" and "now \<le> u64_max"
  shows "get_status L now j m (update_fetch_attempt L now k l c) =
    (if j = k \<and> m = l then StatusUpdated else get_status L now j m c)"
proof -
  have "\<not> ts_add now TTL_OUTDATED < now" using ts_add_mono [OF assms(3)] by (simp add: not_less)
  then show ?thesis
    by (cases m; cases l; cases "lru_peek L c k")
      (auto simp: get_status_def update_fetch_attempt_def lru_modify_peek [OF u c] last_update_def
        pk_data_default_def split: option.split)
qed

lemma attempt_good:
  "lru_unbounded L good \<Longrightarrow> good c \<Longrightarrow> good (update_fetch_attempt L now k l c)"
  by (simp add: update_fetch_attempt_def lru_unbounded_def lru_modify_good)

interpretation memory: gossip_tracker "memory_gossip x L now"
  "\<lambda>c. lru_unbounded L good \<and> good c \<and> now \<le> u64_max" for x L now good
proof unfold_locales
  fix pk sel allowed s us u
  assume "g_get_best_relays (memory_gossip x L now) pk sel allowed s = Inr us"
  then have us: "us = get_best_relays L pk sel allowed s" by (simp add: memory_gossip_def)
  show "u \<in> set us \<Longrightarrow> is_allowed allowed u" using best_relays_allowed us by simp
  show "length us \<le> selection_limit sel" using best_relays_length us by simp
  show "urls_ok us" using best_relays_distinct us by simp
qed (auto simp: memory_gossip_def attempt_status process_event_status attempt_good)

section \<open>Outdated keys\<close>

definition outdated_entries ::
  "timestamp \<Rightarrow> gossip_list_kind \<Rightarrow> (public_key \<times> pk_data) list \<Rightarrow> outdated_public_key list" where
  "outdated_entries now l ps =
     List.map_filter (\<lambda>(pk, p). case last_update l p of
         None \<Rightarrow> None
       | Some t \<Rightarrow>
           if ts_add t TTL_OUTDATED < now then Some \<lparr>op_public_key = pk, op_timestamp = t\<rparr>
           else None) ps"

lemma collect_outdated_entries:
  "collect_outdated_public_keys L now l limit c =
     take limit (bts_extend outdated_key [] (outdated_entries now l (lru_iter L c)))"
proof -
  have "foldl (\<lambda>outdated (pk, p). case last_update l p of
           None \<Rightarrow> outdated
         | Some t \<Rightarrow>
             if ts_add t TTL_OUTDATED < now
             then bts_insert outdated_key \<lparr>op_public_key = pk, op_timestamp = t\<rparr> outdated
             else outdated) s ps = bts_extend outdated_key s (outdated_entries now l ps)" for s ps
    by (induction ps arbitrary: s)
      (auto simp: outdated_entries_def bts_extend_def List.map_filter_def split: option.split)
  then show ?thesis by (simp add: collect_outdated_public_keys_def)
qed

lemma outdated_entries_mem:
  "a \<in> set (outdated_entries now l ps) \<longleftrightarrow>
     (\<exists>p. (op_public_key a, p) \<in> set ps \<and> last_update l p = Some (op_timestamp a) \<and>
          ts_add (op_timestamp a) TTL_OUTDATED < now)"
proof (induction ps)
  case (Cons q ps)
  obtain k p where "q = (k, p)" by (cases q)
  with Cons show ?case
    by (cases "last_update l p"; cases a)
      (auto simp: outdated_entries_def List.map_filter_def split: if_splits)
qed (simp add: outdated_entries_def List.map_filter_def)

lemma outdated_status:
  assumes "lru_ok L good" "good c"
  shows "a \<in> set (outdated_entries now l (lru_iter L c)) \<longleftrightarrow>
    get_status L now (op_public_key a) l c = StatusOutdated None \<and>
    (\<exists>p. lru_peek L c (op_public_key a) = Some p \<and> last_update l p = Some (op_timestamp a))"
proof -
  have "(k, p) \<in> set (lru_iter L c) \<longleftrightarrow> lru_peek L c k = Some p" for k p
    using assms by (simp add: lru_ok_def)
  then show ?thesis
    by (auto simp: outdated_entries_mem get_status_def split: option.splits if_splits)
qed

text \<open>
  \<open>outdated_public_keys\<close> and \<open>status\<close> agree: the collected keys are outdated ones, in ascending
  order of their last check, and a key with status outdated that is not collected has a last check
  that is not before any collected one, and does not exist if fewer than the limit are collected.
\<close>

lemma outdated_keys_exact:
  assumes "lru_ok L good" and "good c"
  shows "\<exists>rest.
    (let os = collect_outdated_public_keys L now l limit c in
       length os \<le> limit \<and> bts_ok outdated_key (os @ rest) \<and> (length os < limit \<longrightarrow> rest = []) \<and>
       (\<forall>k. get_status L now k l c = StatusOutdated None \<longleftrightarrow>
            k \<in> op_public_key ` set (os @ rest)))"
proof -
  define full where "full = bts_extend outdated_key [] (outdated_entries now l (lru_iter L c))"
  have ok: "bts_ok outdated_key full" unfolding full_def by (rule bts_extend_ok) simp
  have "inj outdated_key" by (rule injI) (simp add: outdated_key_def)
  then have full: "set full = set (outdated_entries now l (lru_iter L c))"
    unfolding full_def by (subst bts_extend_set) (auto intro: inj_on_subset)
  have status: "get_status L now k l c = StatusOutdated None \<longleftrightarrow> k \<in> op_public_key ` set full" for k
  proof
    assume k: "get_status L now k l c = StatusOutdated None"
    then obtain p t where "lru_peek L c k = Some p" "last_update l p = Some t"
      by (auto simp: get_status_def split: option.splits)
    with k have "\<lparr>op_public_key = k, op_timestamp = t\<rparr> \<in> set full"
      unfolding full outdated_status [OF assms] by simp
    then show "k \<in> op_public_key ` set full" by force
  qed (auto simp: full outdated_status [OF assms])
  have "collect_outdated_public_keys L now l limit c = take limit full"
    by (simp add: collect_outdated_entries full_def)
  moreover have "set (take limit full) \<union> set (drop limit full) = set full"
    by (metis append_take_drop_id set_append)
  ultimately show ?thesis
    using ok status by (intro exI [of _ "drop limit full"]) (auto simp: Let_def)
qed

section \<open>A concrete cache\<close>

text \<open>An association list as unbounded cache: the laws of \<open>lru\<close> can hold.\<close>

definition ref_lru :: "(public_key \<times> pk_data) list lru" where
  "ref_lru =
     \<lparr>lru_peek = (\<lambda>c k. map_of c k),
      lru_modify = (\<lambda>c k d f.
        AList.update k (f (case map_of c k of None \<Rightarrow> d | Some v \<Rightarrow> v)) c),
      lru_iter = (\<lambda>c. c)\<rparr>"

abbreviation ref_lru_good :: "(public_key \<times> pk_data) list \<Rightarrow> bool" where
  "ref_lru_good c \<equiv> distinct (map fst c)"

lemma ref_lru_unbounded [simp]: "lru_unbounded ref_lru ref_lru_good"
  by (simp add: lru_unbounded_def lru_ok_def ref_lru_def distinct_update update_conv'
      split: option.split)

lemma ref_lru_ok [simp]: "lru_ok ref_lru ref_lru_good"
  using ref_lru_unbounded by (simp only: lru_unbounded_def)

definition ref_gossip_state :: "(public_key \<times> pk_data) list" where
  "ref_gossip_state =
     [(ref_pk 1, pk_data_default\<lparr>pd_last_nip65_update := Some 10\<rparr>),
      (ref_pk 2, pk_data_default\<lparr>pd_last_nip65_update := Some 100000\<rparr>)]"

lemma outdated_keys_exact_witness:
  "collect_outdated_public_keys ref_lru 100000 Nip65 5 ref_gossip_state \<noteq> []"
proof -
  have good: "ref_lru_good ref_gossip_state" by (simp add: ref_gossip_state_def)
  have "get_status ref_lru 100000 (ref_pk 1) Nip65 ref_gossip_state = StatusOutdated None"
    by (simp add: get_status_def ref_lru_def ref_gossip_state_def last_update_def ts_add_def
        saturating_add_def u64_max_def TTL_OUTDATED_def)
  then show ?thesis
    using outdated_keys_exact [OF ref_lru_ok good, of 100000 Nip65 5] by (auto simp: Let_def)
qed

end
