(* ===== verification/Gossip_Resolver.thy ===== *)
theory Gossip_Resolver
  imports Gossip_Contract Nostr_Filter
begin

text \<open>
  How the client spreads a filter over the relays of the keys it names
  (nostr-sdk/src/client/gossip/mod.rs and resolver.rs): the pattern of the filter, the map from
  relays to keys, and \<open>break_down_filter\<close>.

  The gossip store is an argument \<open>G\<close> (the trait object) with its state \<open>s\<close>, which the resolver
  only reads. A \<open>HashMap<RelayUrl, V>\<close> is a list of entries with one entry per URL; nothing depends
  on its order.
\<close>

section \<open>Maps from relays\<close>

type_synonym 'v url_map = "(relay_url \<times> 'v) list"

definition um_get :: "relay_url \<Rightarrow> 'v url_map \<Rightarrow> 'v option" where
  "um_get u m = map_option snd (find (\<lambda>(v, y). relay_url_eq v u) m)"

text \<open>\<open>insert\<close> keeps the key that is there and replaces its value.\<close>

fun um_insert :: "relay_url \<Rightarrow> 'v \<Rightarrow> 'v url_map \<Rightarrow> 'v url_map" where
  "um_insert u y [] = [(u, y)]"
| "um_insert u y ((v, z) # m) =
     (if relay_url_eq v u then (v, y) # m else (v, z) # um_insert u y m)"

definition um_extend :: "'v url_map \<Rightarrow> 'v url_map \<Rightarrow> 'v url_map" where
  "um_extend m n = foldl (\<lambda>m (u, y). um_insert u y m) m n"

section \<open>Patterns\<close>

datatype gossip_filter_pattern = PatternNip65 | PatternNip65AndNip17

definition has_nip17 :: "gossip_filter_pattern \<Rightarrow> bool" where
  "has_nip17 p \<longleftrightarrow> p = PatternNip65AndNip17"

definition find_filter_pattern :: "filter \<Rightarrow> gossip_filter_pattern" where
  "find_filter_pattern f =
     (let (are_kinds_empty, has_gift_wrap_kind) =
            (case fl_kinds f of
               Some kinds \<Rightarrow>
                 if kinds = [] then (True, False) else (False, bts_contains as_u16 GiftWrap kinds)
             | None \<Rightarrow> (True, False));
          has_p_tags = (btm_get slt_p (fl_generic_tags f) \<noteq> None)
      in if has_gift_wrap_kind \<or> (has_p_tags \<and> are_kinds_empty) then PatternNip65AndNip17
         else PatternNip65)"

section \<open>The relays of a set of keys\<close>

record gossip_relay_limits =
  read_relays_per_user :: u8
  write_relays_per_user :: u8
  hint_relays_per_user :: u8
  most_used_relays_per_user :: u8
  nip17_relays :: u8

definition default_relay_limits :: gossip_relay_limits where
  "default_relay_limits =
     \<lparr>read_relays_per_user = 3, write_relays_per_user = 3, hint_relays_per_user = 1,
      most_used_relays_per_user = 1, nip17_relays = 3\<rparr>"

text \<open>Each step of the loops stops at the first error of the store.\<close>

fun get_relays ::
  "('s, 'e) gossip \<Rightarrow> 's \<Rightarrow> relay_selection \<Rightarrow> allowed_relays \<Rightarrow> public_key list \<Rightarrow>
   relay_url list \<Rightarrow> 'e + relay_url list" where
  "get_relays G s sel allowed [] urls = Inr urls"
| "get_relays G s sel allowed (pk # pks) urls =
     rbind (g_get_best_relays G pk sel allowed s)
       (\<lambda>relays. get_relays G s sel allowed pks (urls_extend urls relays))"

text \<open>One entry more: the \<open>and_modify\<close>, \<open>or_default\<close> and \<open>insert\<close> of \<open>map_relays\<close>.\<close>

definition add_key :: "public_key \<Rightarrow> public_key list url_map \<Rightarrow> relay_url \<Rightarrow> public_key list url_map"
where
  "add_key pk m u =
     um_insert u (bts_insert id pk (case um_get u m of None \<Rightarrow> [] | Some ks \<Rightarrow> ks)) m"

fun map_relays ::
  "('s, 'e) gossip \<Rightarrow> 's \<Rightarrow> relay_selection \<Rightarrow> allowed_relays \<Rightarrow> public_key list \<Rightarrow>
   public_key list url_map \<Rightarrow> 'e + public_key list url_map" where
  "map_relays G s sel allowed [] urls = Inr urls"
| "map_relays G s sel allowed (pk # pks) urls =
     rbind (g_get_best_relays G pk sel allowed s)
       (\<lambda>relays. map_relays G s sel allowed pks (foldl (add_key pk) urls relays))"

section \<open>Breaking a filter down\<close>

datatype broken_down_filters =
    Filters "filter url_map"
  | Orphan filter
  | OtherFilter filter

text \<open>The keys of the \<open>p\<close> tags of a filter; what is no key is left out.\<close>

definition filter_p_tag :: "externals \<Rightarrow> filter \<Rightarrow> public_key list option" where
  "filter_p_tag x f =
     map_option (\<lambda>s. bts_extend id [] (List.map_filter (\<lambda>p. ok_of (public_key_from_hex x p)) s))
       (btm_get slt_p (fl_generic_tags f))"

text \<open>
  The map of the relays of the keys, which the arms of \<open>break_down_filter\<close> for authors and for \<open>p\<close>
  tags both build: the relays of the first selection, extended by those of hints, of received
  events and, for a pattern with NIP-17, of private messages.
\<close>

definition keys_by_relay ::
  "('s, 'e) gossip \<Rightarrow> 's \<Rightarrow> gossip_filter_pattern \<Rightarrow> gossip_relay_limits \<Rightarrow> allowed_relays \<Rightarrow>
   relay_selection \<Rightarrow> public_key list \<Rightarrow> 'e + public_key list url_map" where
  "keys_by_relay G s pattern limits allowed sel pks =
     rbind (map_relays G s sel allowed pks []) (\<lambda>main.
     rbind (map_relays G s (SelectHints (hint_relays_per_user limits)) allowed pks []) (\<lambda>hints.
     rbind (map_relays G s (SelectMostReceived (most_used_relays_per_user limits)) allowed pks [])
       (\<lambda>most_received.
         let main = um_extend (um_extend main hints) most_received
         in if has_nip17 pattern then
              rbind (map_relays G s (SelectPrivateMessage (nip17_relays limits)) allowed pks [])
                (\<lambda>nip17_relays. Inr (um_extend main nip17_relays))
            else Inr main)))"

definition with_authors :: "filter \<Rightarrow> public_key list \<Rightarrow> filter" where
  "with_authors f ks = f\<lparr>fl_authors := Some ks\<rparr>"

definition with_p_tags :: "externals \<Rightarrow> filter \<Rightarrow> public_key list \<Rightarrow> filter" where
  "with_p_tags x f ks =
     f\<lparr>fl_generic_tags :=
         btm_put slt_p (bts_extend id [] (map (public_key_to_hex x) ks)) (fl_generic_tags f)\<rparr>"

definition break_down_filter ::
  "externals \<Rightarrow> ('s, 'e) gossip \<Rightarrow> 's \<Rightarrow> filter \<Rightarrow> gossip_filter_pattern \<Rightarrow>
   gossip_relay_limits \<Rightarrow> allowed_relays \<Rightarrow> 'e + broken_down_filters" where
  "break_down_filter x G s f pattern limits allowed =
     (case (fl_authors f, filter_p_tag x f) of
        (Some authors, None) \<Rightarrow>
          rbind (keys_by_relay G s pattern limits allowed
              (SelectWrite (write_relays_per_user limits)) authors) (\<lambda>outbox.
            if outbox = [] then Inr (Orphan f)
            else Inr (Filters
              (foldl (\<lambda>m (u, ks). um_insert u (with_authors f ks) m) [] outbox)))
      | (None, Some p_public_keys) \<Rightarrow>
          rbind (keys_by_relay G s pattern limits allowed
              (SelectRead (read_relays_per_user limits)) p_public_keys) (\<lambda>inbox.
            if inbox = [] then Inr (Orphan f)
            else Inr (Filters
              (foldl (\<lambda>m (u, ks). um_insert u (with_p_tags x f ks) m) [] inbox)))
      | (Some authors, Some p_public_keys) \<Rightarrow>
          (let both = bts_extend id (bts_extend id [] authors) p_public_keys in
           rbind (get_relays G s (SelectAll (read_relays_per_user limits)
               (write_relays_per_user limits) (hint_relays_per_user limits)
               (most_used_relays_per_user limits)) allowed both []) (\<lambda>relays.
           rbind (if has_nip17 pattern then
                    rbind (get_relays G s (SelectPrivateMessage (nip17_relays limits)) allowed both [])
                      (\<lambda>nip17_relays. Inr (urls_extend relays nip17_relays))
                  else Inr relays) (\<lambda>relays.
             if relays = [] then Inr (Orphan f)
             else Inr (Filters (foldl (\<lambda>m u. um_insert u f m) [] relays)))))
      | (None, None) \<Rightarrow> Inr (OtherFilter f))"

end
