(* ===== verification/Gossip_Updater.thy ===== *)
theory Gossip_Updater
  imports Gossip_Resolver
begin

text \<open>
  How the client keeps the relay lists fresh (nostr-sdk/src/client/gossip/updater.rs and
  refresher.rs): which keys need an update, the update of these keys over negentropy with a
  fallback to plain requests, the tracking of keys and the choice of keys for the background
  refresh, and the sending of a filter to the relays of its keys.

  The gossip store is the argument \<open>G\<close>. What the rest of the client does is the record \<open>net\<close>: the
  effect of other tasks while the call waits for its permits, the synchronisation, the query of
  the database, the streams of events and the relays of the pool. Each of them may change the
  state of the gossip store, because the client gives it every event it receives.
\<close>

section \<open>Errors and state\<close>

text \<open>\<open>slice::chunks\<close> panics for size 0; every other failure is an error of the client.\<close>

datatype 'e failure = Panic | ClientError 'e

type_synonym ('e, 'a, 's) action = "'s \<Rightarrow> ('e failure + 'a) \<times> 's"

definition abind :: "('e, 'a, 's) action \<Rightarrow> ('a \<Rightarrow> ('e, 'b, 's) action) \<Rightarrow> ('e, 'b, 's) action" where
  "abind m f s = (case m s of (Inl e, s) \<Rightarrow> (Inl e, s) | (Inr a, s) \<Rightarrow> f a s)"

definition areturn :: "'a \<Rightarrow> ('e, 'a, 's) action" where
  "areturn a s = (Inr a, s)"

definition client_err :: "'e + 'a \<Rightarrow> 'e failure + 'a" where
  "client_err r = (case r of Inl e \<Rightarrow> Inl (ClientError e) | Inr a \<Rightarrow> Inr a)"

definition aread :: "('s \<Rightarrow> 'e + 'a) \<Rightarrow> ('e, 'a, 's) action" where
  "aread f s = (client_err (f s), s)"

definition acall :: "('s \<Rightarrow> ('e + 'a) \<times> 's) \<Rightarrow> ('e, 'a, 's) action" where
  "acall f s = (let (r, s) = f s in (client_err r, s))"

definition amodify :: "('s \<Rightarrow> 's) \<Rightarrow> ('e, unit, 's) action" where
  "amodify f s = (Inr (), f s)"

section \<open>The rest of the client\<close>

text \<open>\<open>Output<SyncSummary>\<close>: the relays that answered, the ones that failed, and event ids.\<close>

record sync_output =
  so_success :: "relay_url list"
  so_failed :: "relay_url list"
  so_received :: "event_id list"
  so_local :: "event_id list"

datatype stream_item =
    StreamEvent relay_url event
  | StreamError relay_url
  | StreamCompleted relay_url
  | StreamLimitReached relay_url

record ('s, 'e) net =
  n_wait :: "'s \<Rightarrow> 's"
  n_sync :: "filter \<Rightarrow> 's \<Rightarrow> ('e + sync_output) \<times> 's"
  n_query :: "filter \<Rightarrow> 'e + event list"
  n_stream :: "(relay_url \<times> filter list) list \<Rightarrow> 's \<Rightarrow> ('e + stream_item list) \<times> 's"
  n_read_relays :: "relay_url list"
  n_add_relay :: "relay_url \<Rightarrow> 'e + unit"

section \<open>Which keys need an update\<close>

fun needs_update ::
  "('s, 'e) gossip \<Rightarrow> public_key \<Rightarrow> gossip_list_kind list \<Rightarrow> 's \<Rightarrow> 'e + bool" where
  "needs_update G k [] s = Inr False"
| "needs_update G k (l # ls) s =
     rbind (g_status G k l s) (\<lambda>st.
       case st of
         StatusUpdated \<Rightarrow> needs_update G k ls s
       | _ \<Rightarrow> Inr True)"

fun compute_gossip_update_candidates ::
  "('s, 'e) gossip \<Rightarrow> gossip_list_kind list \<Rightarrow> public_key list \<Rightarrow> 's \<Rightarrow> public_key list \<Rightarrow>
   'e + public_key list" where
  "compute_gossip_update_candidates G kinds [] s update = Inr update"
| "compute_gossip_update_candidates G kinds (k # ks) s update =
     rbind (needs_update G k kinds s) (\<lambda>b.
       compute_gossip_update_candidates G kinds ks s
         (if b then bts_insert id k update else update))"

section \<open>Marking keys as checked\<close>

fun mark_kinds ::
  "('s, 'e) gossip \<Rightarrow> public_key \<Rightarrow> gossip_list_kind list \<Rightarrow> ('e, unit, 's) action" where
  "mark_kinds G k [] = areturn ()"
| "mark_kinds G k (l # ls) =
     abind (acall (g_update_fetch_attempt G k l)) (\<lambda>_. mark_kinds G k ls)"

fun mark_gossip_public_keys_checked ::
  "('s, 'e) gossip \<Rightarrow> gossip_list_kind list \<Rightarrow> public_key list \<Rightarrow> ('e, unit, 's) action" where
  "mark_gossip_public_keys_checked G kinds [] = areturn ()"
| "mark_gossip_public_keys_checked G kinds (k # ks) =
     abind (mark_kinds G k kinds) (\<lambda>_. mark_gossip_public_keys_checked G kinds ks)"

section \<open>The update\<close>

fun process_stored ::
  "('s, 'e) gossip \<Rightarrow> gossip_list_kind list \<Rightarrow> event_id list \<Rightarrow> event list \<Rightarrow>
   ('e, unit, 's) action" where
  "process_stored G kinds received [] = areturn ()"
| "process_stored G kinds received (e # es) =
     abind (mark_kinds G (ev_pubkey e) kinds) (\<lambda>_.
       abind (if ev_id e \<in> set received then areturn () else acall (g_process G e None)) (\<lambda>_.
         process_stored G kinds received es))"

definition lists_filter :: "gossip_list_kind list \<Rightarrow> public_key list \<Rightarrow> filter" where
  "lists_filter kinds pks = filter_kinds (map to_event_kind kinds) (filter_authors pks filter_new)"

definition sync_gossip_public_keys_with_negentropy ::
  "('s, 'e) gossip \<Rightarrow> ('s, 'e) net \<Rightarrow> gossip_list_kind list \<Rightarrow> public_key list \<Rightarrow>
   ('e, sync_output \<times> event list, 's) action" where
  "sync_gossip_public_keys_with_negentropy G N kinds outdated =
     (let f = lists_filter kinds outdated in
      abind (acall (n_sync N f)) (\<lambda>out.
      abind (aread (\<lambda>_. n_query N f)) (\<lambda>stored.
      abind (process_stored G kinds (so_received out) stored) (\<lambda>_.
        areturn (out, stored)))))"

text \<open>\<open>slice::chunks\<close> for a size that is not 0.\<close>

function chunks :: "nat \<Rightarrow> 'a list \<Rightarrow> 'a list list" where
  "chunks n xs = (if n = 0 \<or> xs = [] then [] else take n xs # chunks n (drop n xs))"
  by pat_completeness auto
termination by (relation "measure (\<lambda>(n, xs). length xs)") auto

declare chunks.simps [simp del]

fun mark_streamed ::
  "('s, 'e) gossip \<Rightarrow> gossip_list_kind list \<Rightarrow> stream_item list \<Rightarrow> ('e, unit, 's) action" where
  "mark_streamed G kinds [] = areturn ()"
| "mark_streamed G kinds (i # is) =
     abind (case i of
              StreamEvent u e \<Rightarrow> mark_kinds G (ev_pubkey e) kinds
            | _ \<Rightarrow> areturn ()) (\<lambda>_. mark_streamed G kinds is)"

fun fetch_chunks_loop ::
  "('s, 'e) gossip \<Rightarrow> ('s, 'e) net \<Rightarrow> gossip_list_kind list \<Rightarrow> relay_url list \<Rightarrow>
   filter list list \<Rightarrow> ('e, unit, 's) action" where
  "fetch_chunks_loop G N kinds failed [] = areturn ()"
| "fetch_chunks_loop G N kinds failed (c # cs) =
     abind (acall (n_stream N (map (\<lambda>u. (u, c)) failed))) (\<lambda>items.
       abind (mark_streamed G kinds items) (\<lambda>_. fetch_chunks_loop G N kinds failed cs))"

definition newer_filter :: "event \<Rightarrow> filter" where
  "newer_filter e =
     filter_limit 1 (filter_since (ts_add (ev_created_at e) 1)
       (filter_kind (ev_kind e) (filter_author (ev_pubkey e) filter_new)))"

definition remove_authors :: "event list \<Rightarrow> public_key list \<Rightarrow> public_key list" where
  "remove_authors es missing = foldl (\<lambda>m e. bts_remove id (ev_pubkey e) m) missing es"

definition fetch_newer_gossip_lists_from_failed_relays ::
  "('s, 'e) gossip \<Rightarrow> ('s, 'e) net \<Rightarrow> nat \<Rightarrow> gossip_list_kind list \<Rightarrow> sync_output \<Rightarrow> event list \<Rightarrow>
   ('e, unit, 's) action" where
  "fetch_newer_gossip_lists_from_failed_relays G N fetch_chunks kinds out stored =
     (let skip_ids = so_local out @ so_received out;
          filters = map newer_filter [e \<leftarrow> stored. ev_id e \<notin> set skip_ids]
      in if filters = [] then areturn ()
         else if fetch_chunks = 0 then (\<lambda>s. (Inl Panic, s))
         else fetch_chunks_loop G N kinds (so_failed out) (chunks fetch_chunks filters))"

definition is_answer :: "stream_item \<Rightarrow> bool" where
  "is_answer i = (case i of StreamEvent u e \<Rightarrow> True | StreamCompleted u \<Rightarrow> True | _ \<Rightarrow> False)"

definition fetch_missing_gossip_lists_from_failed_relays ::
  "('s, 'e) net \<Rightarrow> gossip_list_kind list \<Rightarrow> sync_output \<Rightarrow> public_key list \<Rightarrow>
   ('e, bool, 's) action" where
  "fetch_missing_gossip_lists_from_failed_relays N kinds out missing =
     abind (acall (n_stream N (map (\<lambda>u. (u, [lists_filter kinds missing])) (so_failed out))))
       (\<lambda>items. areturn (list_ex is_answer items))"

text \<open>
  The end of the update: with failed relays the fallback to requests, and the keys without a list
  are marked as checked if some relay answered.
\<close>

definition finish_sync ::
  "('s, 'e) gossip \<Rightarrow> ('s, 'e) net \<Rightarrow> nat \<Rightarrow> gossip_list_kind list \<Rightarrow> sync_output \<Rightarrow>
   event list \<Rightarrow> public_key list \<Rightarrow> ('e, unit, 's) action" where
  "finish_sync G N fetch_chunks kinds out stored outdated =
     (let missing = remove_authors stored outdated;
          has_success = (so_success out \<noteq> []);
          has_failed = (so_failed out \<noteq> [])
      in if has_failed then
           abind (fetch_newer_gossip_lists_from_failed_relays G N fetch_chunks kinds out stored) (\<lambda>_.
             let missing = remove_authors stored missing in
             if missing = [] then areturn ()
             else
               abind (fetch_missing_gossip_lists_from_failed_relays N kinds out missing)
                 (\<lambda>completed_fetch.
                   if has_success \<or> completed_fetch
                   then mark_gossip_public_keys_checked G kinds missing
                   else areturn ()))
         else if missing \<noteq> [] \<and> has_success
           then mark_gossip_public_keys_checked G kinds missing
         else areturn ())"

text \<open>What follows the permits; they are dropped at its end.\<close>

definition sync_with_permits ::
  "('s, 'e) gossip \<Rightarrow> ('s, 'e) net \<Rightarrow> nat \<Rightarrow> gossip_list_kind list \<Rightarrow> public_key list \<Rightarrow>
   ('e, unit, 's) action" where
  "sync_with_permits G N fetch_chunks kinds first_check =
     abind (aread (\<lambda>s. compute_gossip_update_candidates G kinds first_check s [])) (\<lambda>outdated.
       if outdated = [] then areturn ()
       else
         abind (sync_gossip_public_keys_with_negentropy G N kinds outdated) (\<lambda>(out, stored).
           finish_sync G N fetch_chunks kinds out stored outdated))"

definition sync_gossip_public_keys ::
  "('s, 'e) gossip \<Rightarrow> ('s, 'e) net \<Rightarrow> nat \<Rightarrow> gossip_list_kind list \<Rightarrow> public_key list \<Rightarrow>
   ('e, unit, 's) action" where
  "sync_gossip_public_keys G N fetch_chunks kinds public_keys =
     (if public_keys = [] then areturn ()
      else
        abind (aread (\<lambda>s. compute_gossip_update_candidates G kinds public_keys s [])) (\<lambda>first_check.
          if first_check = [] then areturn ()
          else abind (amodify (n_wait N)) (\<lambda>_.
            sync_with_permits G N fetch_chunks kinds first_check)))"

section \<open>The background refresh\<close>

record refresher =
  nip65_refresh_cursor :: nat
  nip17_refresh_cursor :: nat
  nip65_seen_public_keys :: "public_key list"
  nip17_seen_public_keys :: "public_key list"

definition refresher_new :: refresher where
  "refresher_new =
     \<lparr>nip65_refresh_cursor = 0, nip17_refresh_cursor = 0, nip65_seen_public_keys = [],
      nip17_seen_public_keys = []\<rparr>"

definition track_public_keys ::
  "gossip_list_kind \<Rightarrow> public_key list \<Rightarrow> refresher \<Rightarrow> refresher" where
  "track_public_keys l pks r =
     (case l of
        Nip65 \<Rightarrow> r\<lparr>nip65_seen_public_keys := bts_extend id (nip65_seen_public_keys r) pks\<rparr>
      | Nip17 \<Rightarrow> r\<lparr>nip17_seen_public_keys := bts_extend id (nip17_seen_public_keys r) pks\<rparr>)"

definition tracked_public_keys :: "gossip_list_kind \<Rightarrow> refresher \<Rightarrow> public_key list" where
  "tracked_public_keys l r =
     (case l of Nip65 \<Rightarrow> nip65_seen_public_keys r | Nip17 \<Rightarrow> nip17_seen_public_keys r)"

text \<open>\<open>fetch_add\<close> on an \<open>AtomicUsize\<close> wraps.\<close>

definition fetch_add :: "nat \<Rightarrow> nat \<Rightarrow> nat" where
  "fetch_add cursor n = (cursor + n) mod (usize_max + 1)"

definition cursor_of :: "gossip_list_kind \<Rightarrow> refresher \<Rightarrow> nat" where
  "cursor_of l r =
     (case l of Nip65 \<Rightarrow> nip65_refresh_cursor r | Nip17 \<Rightarrow> nip17_refresh_cursor r)"

definition advance_cursor :: "gossip_list_kind \<Rightarrow> nat \<Rightarrow> refresher \<Rightarrow> refresher" where
  "advance_cursor l n r =
     (case l of
        Nip65 \<Rightarrow> r\<lparr>nip65_refresh_cursor := fetch_add (nip65_refresh_cursor r) n\<rparr>
      | Nip17 \<Rightarrow> r\<lparr>nip17_refresh_cursor := fetch_add (nip17_refresh_cursor r) n\<rparr>)"

definition next_tracked_public_keys_for_refresh ::
  "gossip_list_kind \<Rightarrow> nat \<Rightarrow> refresher \<Rightarrow> public_key list \<times> refresher" where
  "next_tracked_public_keys_for_refresh l limit r =
     (let tracked = tracked_public_keys l r in
      if tracked = [] then ([], r)
      else (let start = cursor_of l r mod length tracked;
                count = min (length tracked) limit
            in (map (\<lambda>offset. tracked ! ((start + offset) mod length tracked)) [0..<count],
                advance_cursor l limit r)))"

fun select_not_updated ::
  "('s, 'e) gossip \<Rightarrow> gossip_list_kind \<Rightarrow> public_key list \<Rightarrow> 's \<Rightarrow> public_key list \<Rightarrow>
   'e + public_key list" where
  "select_not_updated G l [] s selected = Inr selected"
| "select_not_updated G l (k # ks) s selected =
     (if k \<in> set selected then select_not_updated G l ks s selected
      else rbind (g_status G k l s) (\<lambda>st.
        select_not_updated G l ks s
          (if st \<noteq> StatusUpdated then bts_insert id k selected else selected)))"

text \<open>The loop over the outdated keys stops when the limit is reached.\<close>

fun fill_selected :: "nat \<Rightarrow> outdated_public_key list \<Rightarrow> public_key list \<Rightarrow> public_key list" where
  "fill_selected limit [] selected = selected"
| "fill_selected limit (a # as) selected =
     (if limit \<le> length selected then selected
      else fill_selected limit as (bts_insert id (op_public_key a) selected))"

definition select_background_refresh_public_keys ::
  "('s, 'e) gossip \<Rightarrow> gossip_list_kind \<Rightarrow> nat \<Rightarrow> refresher \<Rightarrow> 's \<Rightarrow>
   ('e + public_key list) \<times> refresher" where
  "select_background_refresh_public_keys G l limit r s =
     (let (tracked, r) = next_tracked_public_keys_for_refresh l limit r in
      (rbind (select_not_updated G l tracked s []) (\<lambda>selected.
         if length selected < limit then
           rbind (g_outdated_public_keys G l limit s) (\<lambda>outdated.
             Inr (fill_selected limit outdated selected))
         else Inr selected), r))"

definition refresh_gossip_list_kind_in_background ::
  "('s, 'e) gossip \<Rightarrow> ('s, 'e) net \<Rightarrow> nat \<Rightarrow> gossip_list_kind \<Rightarrow> nat \<Rightarrow>
   ('e, unit, refresher \<times> 's) action" where
  "refresh_gossip_list_kind_in_background G N fetch_chunks l limit = (\<lambda>(r, s).
     (let (pks, r) = select_background_refresh_public_keys G l limit r s in
      case pks of
        Inl e \<Rightarrow> (Inl (ClientError e), (r, s))
      | Inr pks \<Rightarrow>
          if pks = [] then (Inr (), (r, s))
          else (let (res, s) = sync_gossip_public_keys G N fetch_chunks [l] pks s
                in (res, (r, s)))))"

section \<open>Sending a filter\<close>

definition ensure_gossip_public_keys_fresh ::
  "('s, 'e) gossip \<Rightarrow> ('s, 'e) net \<Rightarrow> nat \<Rightarrow> bool \<Rightarrow> gossip_list_kind list \<Rightarrow> public_key list \<Rightarrow>
   ('e, unit, refresher \<times> 's) action" where
  "ensure_gossip_public_keys_fresh G N fetch_chunks background kinds pks = (\<lambda>(r, s).
     (let r = (if background then foldl (\<lambda>r l. track_public_keys l pks r) r kinds else r) in
      case compute_gossip_update_candidates G kinds pks s [] of
        Inl e \<Rightarrow> (Inl (ClientError e), (r, s))
      | Inr to_update \<Rightarrow>
          (let (res, s) = sync_gossip_public_keys G N fetch_chunks kinds to_update s
           in (res, (r, s)))))"

text \<open>The relays of the broken down filter are added to the pool; the first failure ends it.\<close>

fun add_relays :: "('s, 'e) net \<Rightarrow> relay_url list \<Rightarrow> 'e + unit" where
  "add_relays N [] = Inr ()"
| "add_relays N (u # us) = rbind (n_add_relay N u) (\<lambda>_. add_relays N us)"

definition gossip_break_down_filter ::
  "externals \<Rightarrow> ('s, 'e) gossip \<Rightarrow> ('s, 'e) net \<Rightarrow> 'e \<Rightarrow> nat \<Rightarrow> bool \<Rightarrow> gossip_relay_limits \<Rightarrow>
   allowed_relays \<Rightarrow> filter \<Rightarrow> ('e, filter url_map, refresher \<times> 's) action" where
  "gossip_break_down_filter x G N empty_error fetch_chunks background limits allowed f =
     (let pattern = find_filter_pattern f;
          kinds = (case pattern of
              PatternNip65 \<Rightarrow> [Nip65] | PatternNip65AndNip17 \<Rightarrow> [Nip65, Nip17])
      in abind (ensure_gossip_public_keys_fresh G N fetch_chunks background kinds
                  (extract_public_keys x f)) (\<lambda>_.
         abind (aread (\<lambda>(r, s). break_down_filter x G s f pattern limits allowed)) (\<lambda>broken.
           let filters = (case broken of
                 Filters m \<Rightarrow> m
               | Orphan f \<Rightarrow> foldl (\<lambda>m u. um_insert u f m) [] (n_read_relays N)
               | OtherFilter f \<Rightarrow> foldl (\<lambda>m u. um_insert u f m) [] (n_read_relays N))
           in abind (aread (\<lambda>_. add_relays N (map fst filters))) (\<lambda>_.
             aread (\<lambda>_. if filters = [] then Inl empty_error else Inr filters)))))"

end
