(* ===== verification/Gossip_Freshness.thy ===== *)
theory Gossip_Freshness
  imports Gossip_Updater
begin

text \<open>
  When an update of relay lists has done its work: every requested key is up to date if a relay
  answered, and a failure of all relays does not keep the client from trying again. Both are
  proved once for the contract of the gossip store. The background refresh reaches every tracked
  key.
\<close>

section \<open>Actions that keep a condition\<close>

definition preserves :: "('s \<Rightarrow> bool) \<Rightarrow> ('s \<Rightarrow> bool) \<Rightarrow> ('e, 'a, 's) action \<Rightarrow> bool" where
  "preserves ok P a \<longleftrightarrow> (\<forall>s. ok s \<longrightarrow> ok (snd (a s)) \<and> (P s \<longrightarrow> P (snd (a s))))"

named_theorems preserved

lemma preservesD:
  "preserves ok P a \<Longrightarrow> a s = (r, s') \<Longrightarrow> ok s \<Longrightarrow> ok s'"
  "preserves ok P a \<Longrightarrow> a s = (r, s') \<Longrightarrow> ok s \<Longrightarrow> P s \<Longrightarrow> P s'"
  unfolding preserves_def by (metis snd_conv)+

text \<open>Only what the first action can return has to be looked at.\<close>

lemma preserves_abind_result:
  assumes "preserves ok P m" and "\<And>s a s1. m s = (Inr a, s1) \<Longrightarrow> preserves ok P (f a)"
  shows "preserves ok P (abind m f)"
  unfolding preserves_def abind_def
proof (intro allI impI)
  fix s assume "ok s"
  obtain r s1 where m: "m s = (r, s1)" by (cases "m s")
  have "ok s1" "P s \<Longrightarrow> P s1" using preservesD [OF assms(1) m \<open>ok s\<close>] by simp_all
  then show "ok (snd (case m s of (Inl e, s) \<Rightarrow> (Inl e, s) | (Inr a, s) \<Rightarrow> f a s)) \<and>
      (P s \<longrightarrow> P (snd (case m s of (Inl e, s) \<Rightarrow> (Inl e, s) | (Inr a, s) \<Rightarrow> f a s)))"
    using assms(2) m by (cases r) (auto simp: preserves_def)
qed

lemma preserves_abind [preserved]:
  "preserves ok P m \<Longrightarrow> (\<And>a. preserves ok P (f a)) \<Longrightarrow> preserves ok P (abind m f)"
  by (rule preserves_abind_result)

lemma preserves_simps [preserved]:
  "preserves ok P (areturn a)"
  "preserves ok P (aread f)"
  "preserves ok P (\<lambda>s. (r, s))"
  by (simp_all add: preserves_def areturn_def aread_def)

lemma abind_Inr:
  "abind m f s = (Inr b, s') \<longleftrightarrow> (\<exists>a s1. m s = (Inr a, s1) \<and> f a s1 = (Inr b, s'))"
  by (auto simp: abind_def split: prod.splits sum.splits)

lemma areturn_Inr: "areturn a s = (Inr b, s') \<longleftrightarrow> b = a \<and> s' = s"
  by (auto simp: areturn_def)

lemma aread_Inr: "aread f s = (Inr b, s') \<longleftrightarrow> f s = Inr b \<and> s' = s"
  by (auto simp: aread_def client_err_def split: sum.splits)

lemma acall_Inr: "acall f s = (Inr b, s') \<longleftrightarrow> f s = (Inr b, s')"
  by (auto simp: acall_def client_err_def split: sum.splits prod.splits)

lemma amodify_Inr: "amodify f s = (Inr (), s') \<longleftrightarrow> s' = f s"
  by (auto simp: amodify_def)

lemmas action_Inr = abind_Inr areturn_Inr aread_Inr acall_Inr amodify_Inr

text \<open>The rest of the client keeps a condition.\<close>

definition net_preserves :: "('s \<Rightarrow> bool) \<Rightarrow> ('s \<Rightarrow> bool) \<Rightarrow> ('s, 'e) net \<Rightarrow> bool" where
  "net_preserves ok P N \<longleftrightarrow>
     preserves ok P (amodify (n_wait N) :: ('e, unit, 's) action) \<and>
     (\<forall>f. preserves ok P (acall (n_sync N f))) \<and>
     (\<forall>t. preserves ok P (acall (n_stream N t)))"

lemma net_preservesD:
  assumes "net_preserves ok P N"
  shows "preserves ok P (amodify (n_wait N) :: ('e, unit, 's) action)"
    and "preserves ok P (acall (n_sync (N :: ('s, 'e) net) f))"
    and "preserves ok P (acall (n_stream N t))"
  using assms by (auto simp: net_preserves_def)

section \<open>Candidates\<close>

definition updated :: "('s, 'e) gossip \<Rightarrow> public_key \<Rightarrow> gossip_list_kind \<Rightarrow> 's \<Rightarrow> bool" where
  "updated G k l s \<longleftrightarrow> g_status G k l s = Inr StatusUpdated"

lemma needs_update_False:
  "needs_update G k kinds s = Inr False \<Longrightarrow> l \<in> set kinds \<Longrightarrow> updated G k l s"
proof (induction kinds)
  case (Cons m kinds)
  then obtain st where st: "g_status G k m s = Inr st" by (auto simp: rbind_Inr)
  with Cons show ?case by (cases st) (auto simp: updated_def)
qed simp

lemma candidates_complete:
  "compute_gossip_update_candidates G kinds ks s u = Inr u' \<Longrightarrow>
   set u' \<subseteq> set u \<union> set ks \<and> set u \<subseteq> set u' \<and>
   (\<forall>k \<in> set ks - set u'. \<forall>l \<in> set kinds. updated G k l s)"
proof (induction ks arbitrary: u)
  case (Cons k ks)
  then obtain b where b: "needs_update G k kinds s = Inr b"
    and rest: "compute_gossip_update_candidates G kinds ks s
      (if b then bts_insert id k u else u) = Inr u'"
    by (auto simp: rbind_Inr)
  from Cons.IH [OF rest] show ?case
    using needs_update_False [of G k kinds s] b by (cases b) auto
qed simp

lemma remove_authors_mem:
  "set (remove_authors es m) = set m - ev_pubkey ` set es"
  by (induction es arbitrary: m) (auto simp: remove_authors_def bts_remove_set)

section \<open>The update under the contract\<close>

context gossip_tracker
begin

lemma update_preserves [preserved]:
  "preserves ok (updated G j m) (acall (g_update_fetch_attempt G k l))"
  unfolding preserves_def acall_def
  using update_ok update_keeps by (auto simp: updated_def split: prod.split)

lemma process_preserves [preserved]: "preserves ok (updated G j m) (acall (g_process G e u))"
  unfolding preserves_def acall_def
  using process_ok process_keeps by (auto simp: updated_def split: prod.split)

lemma mark_kinds_preserves [preserved]: "preserves ok (updated G j m) (mark_kinds G k ls)"
  by (induction ls) (simp_all add: preserved)

lemma mark_checked_preserves [preserved]:
  "preserves ok (updated G j m) (mark_gossip_public_keys_checked G kinds ks)"
  by (induction ks) (simp_all add: preserved)

lemma process_stored_preserves [preserved]:
  "preserves ok (updated G j m) (process_stored G kinds rs es)"
  by (induction es) (simp_all add: preserved)

lemma mark_streamed_preserves [preserved]:
  "preserves ok (updated G j m) (mark_streamed G kinds is)"
  by (induction "is") (auto simp: preserved split: stream_item.split intro!: preserves_abind)

lemma fetch_loop_preserves:
  assumes "net_preserves ok (updated G j m) N"
  shows "preserves ok (updated G j m) (fetch_chunks_loop G N kinds failed cs)"
  by (induction cs) (simp_all add: preserved net_preservesD(3) [OF assms])

lemma fetch_preserves:
  assumes "net_preserves ok (updated G j m) N"
  shows "preserves ok (updated G j m)
      (fetch_newer_gossip_lists_from_failed_relays G N c kinds out stored)"
    and "preserves ok (updated G j m)
      (fetch_missing_gossip_lists_from_failed_relays N kinds out missing)"
  by (simp_all add: fetch_newer_gossip_lists_from_failed_relays_def Let_def preserved
      fetch_loop_preserves [OF assms] fetch_missing_gossip_lists_from_failed_relays_def
      net_preservesD(3) [OF assms])

lemma negentropy_preserves:
  assumes "net_preserves ok (updated G j m) N"
  shows "preserves ok (updated G j m) (sync_gossip_public_keys_with_negentropy G N kinds outdated)"
  by (simp add: sync_gossip_public_keys_with_negentropy_def Let_def preserved
      net_preservesD(2) [OF assms])

lemma mark_kinds_updated:
  "mark_kinds G k ls s = (Inr (), s') \<Longrightarrow> ok s \<Longrightarrow> l \<in> set ls \<Longrightarrow> updated G k l s'"
proof (induction ls arbitrary: s)
  case (Cons m ls)
  then obtain s1 where s1: "g_update_fetch_attempt G k m s = (Inr (), s1)"
    and rest: "mark_kinds G k ls s1 = (Inr (), s')"
    by (auto simp: action_Inr)
  have ok1: "ok s1" using update_ok [OF s1] Cons.prems(2) .
  have "updated G k m s1" using update_updated [OF s1 Cons.prems(2)] by (simp add: updated_def)
  then have "updated G k m s'" by (rule preservesD(2) [OF mark_kinds_preserves rest ok1])
  then show ?case using Cons.IH [OF rest ok1] Cons.prems(3) by auto
qed simp

lemma mark_checked_updated:
  "mark_gossip_public_keys_checked G kinds ks s = (Inr (), s') \<Longrightarrow> ok s \<Longrightarrow> k \<in> set ks \<Longrightarrow>
   l \<in> set kinds \<Longrightarrow> updated G k l s'"
proof (induction ks arbitrary: s)
  case (Cons j ks)
  then obtain s1 where s1: "mark_kinds G j kinds s = (Inr (), s1)"
    and rest: "mark_gossip_public_keys_checked G kinds ks s1 = (Inr (), s')"
    by (auto simp: action_Inr)
  have ok1: "ok s1" by (rule preservesD(1) [OF mark_kinds_preserves s1 Cons.prems(2)])
  have "updated G j l s1" by (rule mark_kinds_updated [OF s1 Cons.prems(2,4)])
  then have "updated G j l s'" by (rule preservesD(2) [OF mark_checked_preserves rest ok1])
  then show ?case using Cons.IH [OF rest ok1] Cons.prems(3,4) by auto
qed simp

lemma process_stored_updated:
  "process_stored G kinds rs es s = (Inr (), s') \<Longrightarrow> ok s \<Longrightarrow> k \<in> ev_pubkey ` set es \<Longrightarrow>
   l \<in> set kinds \<Longrightarrow> updated G k l s'"
proof (induction es arbitrary: s)
  case (Cons e es)
  then obtain s1 s2 where s1: "mark_kinds G (ev_pubkey e) kinds s = (Inr (), s1)"
    and s2: "(if ev_id e \<in> set rs then areturn () else acall (g_process G e None)) s1 = (Inr (), s2)"
    and rest: "process_stored G kinds rs es s2 = (Inr (), s')"
    by (auto simp: abind_Inr)
  have p: "preserves ok (updated G j m)
      (if ev_id e \<in> set rs then areturn () else acall (g_process G e None))" for j m
    by (simp add: preserved)
  have ok1: "ok s1" by (rule preservesD(1) [OF mark_kinds_preserves s1 Cons.prems(2)])
  have ok2: "ok s2" by (rule preservesD(1) [OF p s2 ok1])
  have "updated G (ev_pubkey e) l s1" by (rule mark_kinds_updated [OF s1 Cons.prems(2,4)])
  then have "updated G (ev_pubkey e) l s2" by (rule preservesD(2) [OF p s2 ok1])
  then have "updated G (ev_pubkey e) l s'"
    by (rule preservesD(2) [OF process_stored_preserves rest ok2])
  then show ?case using Cons.IH [OF rest ok2] Cons.prems(3,4) by auto
qed simp

lemma negentropy_updated:
  assumes a: "sync_gossip_public_keys_with_negentropy G N kinds outdated s = (Inr (out, stored), s')"
    and ok: "ok s" and net: "\<And>j m. net_preserves ok (updated G j m) N"
  shows "ok s'" and "k \<in> ev_pubkey ` set stored \<Longrightarrow> l \<in> set kinds \<Longrightarrow> updated G k l s'"
    and "\<exists>f s1. n_sync N f s = (Inr out, s1)"
proof -
  show "ok s'" by (rule preservesD(1) [OF negentropy_preserves [OF net] a ok])
  from a obtain s1 where s1: "n_sync N (lists_filter kinds outdated) s = (Inr out, s1)"
    and p: "process_stored G kinds (so_received out) stored s1 = (Inr (), s')"
    by (auto simp: sync_gossip_public_keys_with_negentropy_def Let_def action_Inr)
  have "acall (n_sync N (lists_filter kinds outdated)) s = (Inr out, s1)"
    using s1 by (simp add: acall_Inr)
  then have "ok s1" by (rule preservesD(1) [OF net_preservesD(2) [OF net] _ ok])
  then show "k \<in> ev_pubkey ` set stored \<Longrightarrow> l \<in> set kinds \<Longrightarrow> updated G k l s'"
    using process_stored_updated [OF p] by simp
  show "\<exists>f s1. n_sync N f s = (Inr out, s1)" using s1 by blast
qed

lemma finish_preserves:
  assumes "net_preserves ok (updated G j m) N"
  shows "preserves ok (updated G j m) (finish_sync G N c kinds out stored outdated)"
  unfolding finish_sync_def Let_def
  by (auto intro!: preserved fetch_preserves [OF assms] mark_checked_preserves)

lemma permits_preserves:
  assumes "net_preserves ok (updated G j m) N"
  shows "preserves ok (updated G j m) (sync_with_permits G N c kinds first)"
  unfolding sync_with_permits_def
  by (auto intro!: preserved negentropy_preserves [OF assms] finish_preserves [OF assms]
      split: prod.split)

lemma finish_updated:
  assumes run: "finish_sync G N c kinds out stored outdated s = (Inr (), s')" and ok: "ok s"
    and net: "\<And>j m. net_preserves ok (updated G j m) N" and success: "so_success out \<noteq> []"
    and k: "k \<in> set outdated - ev_pubkey ` set stored" and l: "l \<in> set kinds"
  shows "updated G k l s'"
proof (cases "so_failed out = []")
  case True
  have m: "k \<in> set (remove_authors stored outdated)" using k by (simp add: remove_authors_mem)
  then have "remove_authors stored outdated \<noteq> []" by (metis empty_iff empty_set)
  then have "mark_gossip_public_keys_checked G kinds (remove_authors stored outdated) s =
      (Inr (), s')"
    using run True success by (auto simp: finish_sync_def Let_def)
  then show ?thesis using mark_checked_updated m ok l by blast
next
  case False
  define missing where "missing = remove_authors stored (remove_authors stored outdated)"
  have m: "k \<in> set missing" using k by (simp add: missing_def remove_authors_mem)
  from run False m success obtain s2 b s3 where
    newer: "fetch_newer_gossip_lists_from_failed_relays G N c kinds out stored s = (Inr (), s2)"
    and b: "fetch_missing_gossip_lists_from_failed_relays N kinds out missing s2 = (Inr b, s3)"
    and mark: "mark_gossip_public_keys_checked G kinds missing s3 = (Inr (), s')"
    by (auto simp: finish_sync_def Let_def abind_Inr missing_def [symmetric] split: if_splits)
  have "ok s2" by (rule preservesD(1) [OF fetch_preserves(1) [OF net] newer ok])
  then have "ok s3" by (rule preservesD(1) [OF fetch_preserves(2) [OF net] b])
  then show ?thesis using mark_checked_updated [OF mark] m l by blast
qed

text \<open>A relay that answered is enough for every candidate to be up to date at the end.\<close>

lemma permits_updated:
  assumes run: "sync_with_permits G N c kinds first s = (Inr (), s')" and ok: "ok s"
    and net: "\<And>j m. net_preserves ok (updated G j m) N"
    and answer: "\<forall>f s out s1. n_sync N f s = (Inr out, s1) \<longrightarrow> so_success out \<noteq> []"
    and k: "k \<in> set first" and l: "l \<in> set kinds"
  shows "updated G k l s'"
proof -
  from run obtain outdated where cand:
    "compute_gossip_update_candidates G kinds first s [] = Inr outdated"
    by (auto simp: sync_with_permits_def action_Inr)
  note cc = candidates_complete [OF cand]
  show ?thesis
  proof (cases "outdated = []")
    case True
    then have "s' = s" using run cand by (auto simp: sync_with_permits_def action_Inr)
    then show ?thesis using cc k l True by auto
  next
    case False
    with run cand obtain out stored s1 where
      neg: "sync_gossip_public_keys_with_negentropy G N kinds outdated s = (Inr (out, stored), s1)"
      and rest: "finish_sync G N c kinds out stored outdated s1 = (Inr (), s')"
      by (auto simp: sync_with_permits_def abind_Inr aread_Inr)
    note n = negentropy_updated [OF neg ok net]
    have success: "so_success out \<noteq> []" using n(3) answer by blast
    note keep = preservesD(2) [OF finish_preserves [OF net] rest n(1)]
    consider "k \<notin> set outdated" | "k \<in> ev_pubkey ` set stored"
      | "k \<in> set outdated - ev_pubkey ` set stored" by blast
    then show ?thesis
    proof cases
      case 1
      then have "updated G k l s" using cc k l by auto
      then show ?thesis by (rule keep [OF preservesD(2) [OF negentropy_preserves [OF net] neg ok]])
    next
      case 2
      then show ?thesis using keep n(2) l by blast
    next
      case 3
      then show ?thesis using finish_updated [OF rest n(1) net success] l by blast
    qed
  qed
qed

lemma sync_updated:
  assumes run: "sync_gossip_public_keys G N c kinds pks s = (Inr (), s')" and ok: "ok s"
    and net: "\<And>j m. net_preserves ok (updated G j m) N"
    and answer: "\<forall>f s out s1. n_sync N f s = (Inr out, s1) \<longrightarrow> so_success out \<noteq> []"
    and k: "k \<in> set pks" and l: "l \<in> set kinds"
  shows "updated G k l s'"
proof -
  have "pks \<noteq> []" using k by auto
  with run obtain first where cand: "compute_gossip_update_candidates G kinds pks s [] = Inr first"
    by (auto simp: sync_gossip_public_keys_def action_Inr)
  note cc = candidates_complete [OF cand]
  show ?thesis
  proof (cases "first = []")
    case True
    then have "s' = s" using run cand \<open>pks \<noteq> []\<close> by (auto simp: sync_gossip_public_keys_def action_Inr)
    then show ?thesis using cc k l True by auto
  next
    case False
    with run cand \<open>pks \<noteq> []\<close> have p: "sync_with_permits G N c kinds first (n_wait N s) = (Inr (), s')"
      by (auto simp: sync_gossip_public_keys_def abind_Inr aread_Inr amodify_def)
    have w: "(amodify (n_wait N) :: ('e, unit, 's) action) s = (Inr (), n_wait N s)"
      by (simp add: amodify_def)
    have ok1: "ok (n_wait N s)" by (rule preservesD(1) [OF net_preservesD(1) [OF net] w ok])
    show ?thesis
    proof (cases "k \<in> set first")
      case True
      then show ?thesis using permits_updated [OF p ok1 net answer] l by blast
    next
      case False
      then have "updated G k l s" using cc k l by auto
      then have "updated G k l (n_wait N s)"
        by (rule preservesD(2) [OF net_preservesD(1) [OF net] w ok])
      then show ?thesis by (rule preservesD(2) [OF permits_preserves [OF net] p ok1])
    qed
  qed
qed

text \<open>
  If no relay answers, the status of a key without an event in the database is what it was.
\<close>

lemma update_status [preserved]:
  "j \<noteq> k \<Longrightarrow> preserves ok (\<lambda>s. g_status G j m s = v) (acall (g_update_fetch_attempt G k l))"
  unfolding preserves_def acall_def using update_ok update_other by (auto split: prod.split)

lemma process_status: "preserves ok (\<lambda>s. g_status G j m s = v) (acall (g_process G e u))"
  unfolding preserves_def acall_def using process_ok process_keeps by (auto split: prod.split)

lemma mark_kinds_status:
  "j \<noteq> k \<Longrightarrow> preserves ok (\<lambda>s. g_status G j m s = v) (mark_kinds G k ls)"
  by (induction ls) (simp_all add: preserved)

lemma process_stored_status:
  "j \<notin> ev_pubkey ` set es \<Longrightarrow>
   preserves ok (\<lambda>s. g_status G j m s = v) (process_stored G kinds rs es)"
  by (induction es) (simp_all add: preserved process_status mark_kinds_status)

lemma mark_streamed_status:
  "\<not> list_ex is_answer is \<Longrightarrow> preserves ok (\<lambda>s. g_status G j m s = v) (mark_streamed G kinds is)"
proof (induction "is")
  case (Cons i "is")
  then show ?case by (cases i) (simp_all add: preserved is_answer_def)
qed (simp add: preserved)

lemma failed_fetch_status:
  assumes net: "net_preserves ok (\<lambda>s. g_status G j m s = v) N"
    and silent: "\<forall>t s items s1. n_stream N t s = (Inr items, s1) \<longrightarrow> \<not> list_ex is_answer items"
  shows "preserves ok (\<lambda>s. g_status G j m s = v)
    (fetch_newer_gossip_lists_from_failed_relays G N c kinds out stored)"
proof -
  have "preserves ok (\<lambda>s. g_status G j m s = v) (fetch_chunks_loop G N kinds failed cs)" for failed cs
  proof (induction cs)
    case (Cons d cs)
    have "preserves ok (\<lambda>s. g_status G j m s = v)
        (abind (mark_streamed G kinds items) (\<lambda>_. fetch_chunks_loop G N kinds failed cs))"
      if "acall (n_stream N (map (\<lambda>u. (u, d)) failed)) s = (Inr items, s1)" for s items s1
      using that silent Cons by (auto simp: acall_Inr intro!: preserved mark_streamed_status)
    then show ?case
      by (simp add: preserves_abind_result [OF net_preservesD(3) [OF net]])
  qed (simp add: preserved)
  then show ?thesis
    by (simp add: fetch_newer_gossip_lists_from_failed_relays_def Let_def preserved)
qed

lemma failed_finish_status:
  assumes net: "net_preserves ok (\<lambda>s. g_status G j m s = v) N"
    and silent: "\<forall>t s items s1. n_stream N t s = (Inr items, s1) \<longrightarrow> \<not> list_ex is_answer items"
    and out: "so_success out = []"
  shows "preserves ok (\<lambda>s. g_status G j m s = v) (finish_sync G N c kinds out stored outdated)"
proof -
  let ?P = "preserves ok (\<lambda>s. g_status G j m s = v)"
  have miss: "?P (abind (fetch_missing_gossip_lists_from_failed_relays N kinds out missing)
      (\<lambda>b. if so_success out \<noteq> [] \<or> b then mark_gossip_public_keys_checked G kinds missing
           else areturn ()))" for missing
  proof (rule preserves_abind_result)
    show "?P (fetch_missing_gossip_lists_from_failed_relays N kinds out missing)"
      by (simp add: fetch_missing_gossip_lists_from_failed_relays_def preserved
          net_preservesD(3) [OF net])
    show "?P (if so_success out \<noteq> [] \<or> b then mark_gossip_public_keys_checked G kinds missing
        else areturn ())"
      if "fetch_missing_gossip_lists_from_failed_relays N kinds out missing s = (Inr b, s1)" for s b s1
      using that silent out
      by (auto simp: fetch_missing_gossip_lists_from_failed_relays_def action_Inr preserved)
  qed
  have rest: "?P (let missing = remove_authors stored missing in
      if missing = [] then areturn ()
      else abind (fetch_missing_gossip_lists_from_failed_relays N kinds out missing)
        (\<lambda>b. if so_success out \<noteq> [] \<or> b then mark_gossip_public_keys_checked G kinds missing
             else areturn ()))" for missing
    using miss by (simp add: Let_def preserves_simps)
  show ?thesis
  proof (cases "so_failed out = []")
    case True
    then show ?thesis using out by (simp add: finish_sync_def Let_def preserves_simps)
  next
    case False
    then have "finish_sync G N c kinds out stored outdated =
        abind (fetch_newer_gossip_lists_from_failed_relays G N c kinds out stored) (\<lambda>_.
          let missing = remove_authors stored (remove_authors stored outdated) in
          if missing = [] then areturn ()
          else abind (fetch_missing_gossip_lists_from_failed_relays N kinds out missing)
            (\<lambda>b. if so_success out \<noteq> [] \<or> b then mark_gossip_public_keys_checked G kinds missing
                 else areturn ()))"
      unfolding finish_sync_def Let_def by simp
    then show ?thesis
      by (simp only:) (rule preserves_abind [OF failed_fetch_status [OF net silent] rest])
  qed
qed

lemma failed_sync_status:
  assumes net: "net_preserves ok (\<lambda>s. g_status G j m s = v) N"
    and silent: "\<forall>t s items s1. n_stream N t s = (Inr items, s1) \<longrightarrow> \<not> list_ex is_answer items"
    and failed: "\<forall>f s out s1. n_sync N f s = (Inr out, s1) \<longrightarrow> so_success out = []"
    and stored: "\<forall>f es. n_query N f = Inr es \<longrightarrow> j \<notin> ev_pubkey ` set es"
  shows "preserves ok (\<lambda>s. g_status G j m s = v) (sync_gossip_public_keys G N c kinds pks)"
proof -
  let ?P = "preserves ok (\<lambda>s. g_status G j m s = v)"
  have neg: "?P (sync_gossip_public_keys_with_negentropy G N kinds outdated)" for outdated
    unfolding sync_gossip_public_keys_with_negentropy_def Let_def
  proof (intro preserves_abind_result [OF net_preservesD(2) [OF net]])
    fix out
    show "?P (abind (aread (\<lambda>_. n_query N (lists_filter kinds outdated))) (\<lambda>stored.
        abind (process_stored G kinds (so_received out) stored) (\<lambda>_. areturn (out, stored))))"
      by (rule preserves_abind_result)
        (use stored in \<open>auto simp: aread_Inr intro!: preserved process_stored_status\<close>)
  qed
  have permits: "?P (sync_with_permits G N c kinds first)" for first
  proof -
    have "?P (abind (sync_gossip_public_keys_with_negentropy G N kinds outdated)
        (\<lambda>(out, stored). finish_sync G N c kinds out stored outdated))" for outdated
    proof (rule preserves_abind_result [OF neg])
      fix s a s1
      assume a: "sync_gossip_public_keys_with_negentropy G N kinds outdated s = (Inr a, s1)"
      obtain out stored where "a = (out, stored)" by (cases a)
      moreover have "so_success out = []"
        using a failed calculation
        by (auto simp: sync_gossip_public_keys_with_negentropy_def Let_def action_Inr)
      ultimately show "?P (case a of (out, stored) \<Rightarrow> finish_sync G N c kinds out stored outdated)"
        using failed_finish_status [OF net silent] by simp
    qed
    then show ?thesis unfolding sync_with_permits_def by (auto intro!: preserved)
  qed
  show ?thesis
    unfolding sync_gossip_public_keys_def
    by (auto intro!: preserved net_preservesD(1) [OF net] permits)
qed

end

end
