(* ===== verification/Gossip_Routing.thy ===== *)
theory Gossip_Routing
  imports Gossip_Resolver
begin

text \<open>
  What a broken down filter asks which relay: the keys a relay is asked for, the events its filter
  matches, and the policy the relays meet.
\<close>

section \<open>Maps from relays\<close>

definition um_keys :: "'v url_map \<Rightarrow> string list" where
  "um_keys m = map (\<lambda>(u, y). url_serial (ru_url u)) m"

definition um_ok :: "'v url_map \<Rightarrow> bool" where
  "um_ok m \<longleftrightarrow> distinct (um_keys m)"

lemma um_keys_simps [simp]:
  "um_keys [] = []"
  "um_keys ((u, y) # m) = url_serial (ru_url u) # um_keys m"
  "um_keys (m @ n) = um_keys m @ um_keys n"
  by (simp_all add: um_keys_def)

lemma um_get_Nil [simp]: "um_get u [] = None"
  by (simp add: um_get_def)

lemma um_get_Cons [simp]:
  "um_get u ((v, y) # m) = (if relay_url_eq v u then Some y else um_get u m)"
  by (simp add: um_get_def)

lemma um_get_insert [simp]:
  "um_get v (um_insert u y m) = (if relay_url_eq u v then Some y else um_get v m)"
  by (induction u y m rule: um_insert.induct) (auto simp: relay_url_eq_def)

lemma um_get_None: "um_get u m = None \<longleftrightarrow> url_serial (ru_url u) \<notin> set (um_keys m)"
  by (induction m) (auto simp: relay_url_eq_def split: if_splits)

lemma um_ok_simps [simp]:
  "um_ok []"
  "um_ok ((u, y) # m) \<longleftrightarrow> um_get u m = None \<and> um_ok m"
  by (simp_all add: um_ok_def um_get_None)

lemma um_insert_ok: "um_ok m \<Longrightarrow> um_ok (um_insert u y m)"
  by (induction u y m rule: um_insert.induct) (auto simp: relay_url_eq_equiv(2))

lemma um_insert_new: "um_get u m = None \<Longrightarrow> um_insert u y m = m @ [(u, y)]"
  by (induction u y m rule: um_insert.induct) (auto split: if_splits)

lemma um_get_cong: "relay_url_eq u v \<Longrightarrow> um_get u m = um_get v m"
  by (simp add: um_get_def relay_url_eq_def)

lemma um_get_mem: "um_ok m \<Longrightarrow> (u, y) \<in> set m \<Longrightarrow> um_get u m = Some y"
proof (induction m)
  case (Cons p m)
  obtain v z where p: "p = (v, z)" by (cases p)
  show ?case
  proof (cases "(u, y) \<in> set m")
    case True
    with Cons show ?thesis using um_get_cong [of v u m] by (auto simp: p)
  next
    case False
    with Cons.prems show ?thesis by (simp add: p relay_url_eq_equiv(1))
  qed
qed simp

lemma um_get_in: "um_get u m = Some y \<Longrightarrow> \<exists>v. relay_url_eq v u \<and> (v, y) \<in> set m"
  by (induction m) (auto split: if_splits)

lemma um_extend_get:
  "um_ok n \<Longrightarrow>
   um_get u (um_extend m n) = (case um_get u n of None \<Rightarrow> um_get u m | Some y \<Rightarrow> Some y)"
proof (induction n arbitrary: m)
  case (Cons p n)
  obtain v y where p: "p = (v, y)" by (cases p)
  show ?case
    using Cons.IH [of "um_insert v y m"] Cons.prems um_get_cong [of v u n]
    by (auto simp: um_extend_def p split: option.splits)
qed (simp add: um_extend_def)

lemma um_extend_ok: "um_ok m \<Longrightarrow> um_ok (um_extend m n)"
  by (induction n arbitrary: m) (auto simp: um_extend_def um_insert_ok)

text \<open>Rebuilding a map entry by entry is mapping its values.\<close>

lemma um_get_map: "um_get u (map (\<lambda>(u, y). (u, g y)) m) = map_option g (um_get u m)"
  by (induction m) auto

lemma um_ok_snoc: "um_ok (m @ [(u, y)]) \<longleftrightarrow> um_ok m \<and> um_get u m = None"
  by (auto simp: um_ok_def um_get_None)

lemma um_rebuild:
  "um_ok m \<Longrightarrow> foldl (\<lambda>m (u, y). um_insert u (g y) m) [] m = map (\<lambda>(u, y). (u, g y)) m"
proof (induction m rule: rev_induct)
  case (snoc p m)
  obtain u y where p: "p = (u, y)" by (cases p)
  with snoc show ?case by (simp add: um_insert_new um_ok_snoc um_get_map)
qed simp

section \<open>The keys of a relay\<close>

definition serves ::
  "('s, 'e) gossip \<Rightarrow> 's \<Rightarrow> allowed_relays \<Rightarrow> relay_selection \<Rightarrow> relay_url \<Rightarrow> public_key \<Rightarrow> bool"
where
  "serves G s allowed sel u k =
     (case g_get_best_relays G k sel allowed s of
        Inl e \<Rightarrow> False | Inr us \<Rightarrow> list_ex (relay_url_eq u) us)"

lemma add_key_get:
  "um_get u (add_key pk m v) =
     (if relay_url_eq v u
      then Some (bts_insert id pk (case um_get v m of None \<Rightarrow> [] | Some ks \<Rightarrow> ks))
      else um_get u m)"
  by (simp add: add_key_def)

lemma filter_none: "\<not> list_ex P xs \<Longrightarrow> List.filter P xs = []"
  by (simp add: list_ex_iff filter_empty_conv)

lemma add_keys:
  "um_get u (foldl (add_key pk) m us) =
     (if list_ex (relay_url_eq u) us
      then Some (bts_insert id pk (case um_get u m of None \<Rightarrow> [] | Some ks \<Rightarrow> ks))
      else um_get u m)"
proof (induction us arbitrary: m)
  case (Cons v us)
  have twice: "bts_insert id pk (bts_insert id pk ks) = bts_insert id pk ks" for ks
    by (induction ks) auto
  show ?case
  proof (cases "relay_url_eq v u")
    case True
    then have "um_get v m = um_get u m" and "relay_url_eq u v"
      using um_get_cong relay_url_eq_equiv(2) by blast+
    then show ?thesis
      using True by (simp only: foldl_Cons Cons.IH add_key_get if_True option.case twice
          list_ex_Cons_iff simp_thms if_cancel)
  next
    case False
    then have "\<not> relay_url_eq u v" using relay_url_eq_equiv(2) by blast
    with False show ?thesis
      by (simp only: foldl_Cons Cons.IH add_key_get if_False list_ex_Cons_iff simp_thms)
  qed
qed simp

lemma add_keys_ok: "um_ok m \<Longrightarrow> um_ok (foldl (add_key pk) m us)"
  by (induction us arbitrary: m) (simp_all add: add_key_def um_insert_ok)

text \<open>\<open>map_relays\<close> collects at a relay exactly the keys it serves.\<close>

lemma map_relays_get:
  "map_relays G s sel allowed pks m = Inr m' \<Longrightarrow>
   um_get u m' =
     (if list_ex (serves G s allowed sel u) pks
      then Some (bts_extend id (case um_get u m of None \<Rightarrow> [] | Some ks \<Rightarrow> ks)
        [k \<leftarrow> pks. serves G s allowed sel u k])
      else um_get u m)"
proof (induction pks arbitrary: m)
  case Nil
  then show ?case by simp
next
  case (Cons k pks)
  then obtain us where us: "g_get_best_relays G k sel allowed s = Inr us"
    and rest: "map_relays G s sel allowed pks (foldl (add_key k) m us) = Inr m'"
    by (auto simp: rbind_Inr)
  have "serves G s allowed sel u k = list_ex (relay_url_eq u) us"
    by (simp add: serves_def us)
  then show ?case
    unfolding Cons.IH [OF rest] add_keys bts_extend_def by (simp add: filter_none)
qed

lemma map_relays_ok: "map_relays G s sel allowed pks m = Inr m' \<Longrightarrow> um_ok m \<Longrightarrow> um_ok m'"
  by (induction pks arbitrary: m) (auto simp: rbind_Inr add_keys_ok)

text \<open>The selections of \<open>keys_by_relay\<close>, the one that wins first.\<close>

definition selections ::
  "gossip_filter_pattern \<Rightarrow> gossip_relay_limits \<Rightarrow> relay_selection \<Rightarrow> relay_selection list" where
  "selections pattern limits sel =
     (if has_nip17 pattern then [SelectPrivateMessage (nip17_relays limits)] else []) @
     [SelectMostReceived (most_used_relays_per_user limits),
      SelectHints (hint_relays_per_user limits), sel]"

text \<open>The keys that \<open>u\<close> is asked for: those it serves in the first selection that it serves a key in.\<close>

definition asked_keys ::
  "('s, 'e) gossip \<Rightarrow> 's \<Rightarrow> allowed_relays \<Rightarrow> relay_selection list \<Rightarrow> public_key list \<Rightarrow>
   relay_url \<Rightarrow> public_key list option" where
  "asked_keys G s allowed sels pks u =
     (case find (\<lambda>sel. list_ex (serves G s allowed sel u) pks) sels of
        None \<Rightarrow> None
      | Some sel \<Rightarrow> Some (bts_extend id [] [k \<leftarrow> pks. serves G s allowed sel u k]))"

lemma keys_by_relay_get:
  assumes "keys_by_relay G s pattern limits allowed sel pks = Inr m"
  shows "um_ok m \<and> um_get u m = asked_keys G s allowed (selections pattern limits sel) pks u"
proof -
  have nil: "um_ok []" by (simp add: um_ok_def)
  from assms obtain a h r where
    a: "map_relays G s sel allowed pks [] = Inr a" and
    h: "map_relays G s (SelectHints (hint_relays_per_user limits)) allowed pks [] = Inr h" and
    r: "map_relays G s (SelectMostReceived (most_used_relays_per_user limits)) allowed pks [] = Inr r"
    by (auto simp: keys_by_relay_def rbind_Inr)
  note ok = map_relays_ok [OF a nil] map_relays_ok [OF h nil] map_relays_ok [OF r nil]
  note get = map_relays_get [OF a, of u] map_relays_get [OF h, of u] map_relays_get [OF r, of u]
  show ?thesis
  proof (cases "has_nip17 pattern")
    case False
    then have "m = um_extend (um_extend a h) r"
      using assms by (simp add: keys_by_relay_def a h r Let_def)
    then show ?thesis
      using ok get False by (simp add: um_extend_ok um_extend_get asked_keys_def selections_def)
  next
    case True
    with assms obtain p where
      p: "map_relays G s (SelectPrivateMessage (nip17_relays limits)) allowed pks [] = Inr p"
      and m: "m = um_extend (um_extend (um_extend a h) r) p"
      by (auto simp: keys_by_relay_def a h r Let_def rbind_Inr)
    show ?thesis
      using ok get map_relays_ok [OF p nil] map_relays_get [OF p, of u] True
      by (simp add: m um_extend_ok um_extend_get asked_keys_def selections_def)
  qed
qed

section \<open>The relays of a broken down filter\<close>

lemma get_relays_mem:
  "get_relays G s sel allowed pks urls = Inr us \<Longrightarrow>
   list_ex (relay_url_eq u) us \<longleftrightarrow>
     list_ex (relay_url_eq u) urls \<or> list_ex (serves G s allowed sel u) pks"
proof (induction pks arbitrary: urls)
  case (Cons k pks)
  then obtain vs where vs: "g_get_best_relays G k sel allowed s = Inr vs"
    and rest: "get_relays G s sel allowed pks (urls_extend urls vs) = Inr us"
    by (auto simp: rbind_Inr)
  have "serves G s allowed sel u k = list_ex (relay_url_eq u) vs" by (simp add: serves_def vs)
  then show ?case by (simp add: Cons.IH [OF rest] urls_extend_mem)
qed simp

lemma same_filter_get:
  "um_get u (foldl (\<lambda>m u. um_insert u f m) m us) =
     (if list_ex (relay_url_eq u) us then Some f else um_get u m)"
  by (induction us arbitrary: m) (auto simp: relay_url_eq_equiv(2) [of u])

text \<open>The relays of both kinds that a filter with authors and \<open>p\<close> tags goes to.\<close>

definition serves_any ::
  "('s, 'e) gossip \<Rightarrow> 's \<Rightarrow> allowed_relays \<Rightarrow> gossip_filter_pattern \<Rightarrow> gossip_relay_limits \<Rightarrow>
   public_key list \<Rightarrow> relay_url \<Rightarrow> bool" where
  "serves_any G s allowed pattern limits pks u \<longleftrightarrow>
     list_ex (serves G s allowed (SelectAll (read_relays_per_user limits)
       (write_relays_per_user limits) (hint_relays_per_user limits)
       (most_used_relays_per_user limits)) u) pks \<or>
     has_nip17 pattern \<and>
       list_ex (serves G s allowed (SelectPrivateMessage (nip17_relays limits)) u) pks"

definition filter_at ::
  "externals \<Rightarrow> ('s, 'e) gossip \<Rightarrow> 's \<Rightarrow> filter \<Rightarrow> gossip_filter_pattern \<Rightarrow>
   gossip_relay_limits \<Rightarrow> allowed_relays \<Rightarrow> relay_url \<Rightarrow> filter option" where
  "filter_at x G s f pattern limits allowed u =
     (case (fl_authors f, filter_p_tag x f) of
        (Some authors, None) \<Rightarrow>
          map_option (with_authors f) (asked_keys G s allowed
            (selections pattern limits (SelectWrite (write_relays_per_user limits))) authors u)
      | (None, Some keys) \<Rightarrow>
          map_option (with_p_tags x f) (asked_keys G s allowed
            (selections pattern limits (SelectRead (read_relays_per_user limits))) keys u)
      | (Some authors, Some keys) \<Rightarrow>
          if serves_any G s allowed pattern limits (bts_extend id (bts_extend id [] authors) keys) u
          then Some f else None
      | (None, None) \<Rightarrow> None)"

text \<open>The three ways to a map of filters.\<close>

lemma broken_down_cases [consumes 1, case_names authors keys both]:
  assumes m: "break_down_filter x G s f pattern limits allowed = Inr (Filters m)"
  obtains
    (authors) authors outbox where
      "fl_authors f = Some authors" "filter_p_tag x f = None"
      "keys_by_relay G s pattern limits allowed
         (SelectWrite (write_relays_per_user limits)) authors = Inr outbox"
      "m = map (\<lambda>(u, ks). (u, with_authors f ks)) outbox"
  | (keys) keys inbox where
      "fl_authors f = None" "filter_p_tag x f = Some keys"
      "keys_by_relay G s pattern limits allowed
         (SelectRead (read_relays_per_user limits)) keys = Inr inbox"
      "m = map (\<lambda>(u, ks). (u, with_p_tags x f ks)) inbox"
  | (both) authors keys r n us where
      "fl_authors f = Some authors" "filter_p_tag x f = Some keys"
      "get_relays G s (SelectAll (read_relays_per_user limits)
        (write_relays_per_user limits) (hint_relays_per_user limits)
        (most_used_relays_per_user limits)) allowed
        (bts_extend id (bts_extend id [] authors) keys) [] = Inr r"
      "if has_nip17 pattern
       then get_relays G s (SelectPrivateMessage (nip17_relays limits)) allowed
              (bts_extend id (bts_extend id [] authors) keys) [] = Inr n \<and> us = urls_extend r n
       else us = r"
      "m = foldl (\<lambda>m u. um_insert u f m) [] us"
proof (cases "fl_authors f"; cases "filter_p_tag x f")
  fix as assume a: "fl_authors f = Some as" "filter_p_tag x f = None"
  with m obtain outbox where o: "keys_by_relay G s pattern limits allowed
      (SelectWrite (write_relays_per_user limits)) as = Inr outbox"
    and "m = foldl (\<lambda>m (u, ks). um_insert u (with_authors f ks) m) [] outbox"
    by (auto simp: break_down_filter_def rbind_Inr split: if_splits)
  then show thesis using authors [OF a o] keys_by_relay_get [OF o] by (simp add: um_rebuild)
next
  fix ks assume a: "fl_authors f = None" "filter_p_tag x f = Some ks"
  with m obtain inbox where o: "keys_by_relay G s pattern limits allowed
      (SelectRead (read_relays_per_user limits)) ks = Inr inbox"
    and "m = foldl (\<lambda>m (u, ks). um_insert u (with_p_tags x f ks) m) [] inbox"
    by (auto simp: break_down_filter_def rbind_Inr split: if_splits)
  then show thesis using keys [OF a o] keys_by_relay_get [OF o] by (simp add: um_rebuild)
next
  fix as ks assume a: "fl_authors f = Some as" "filter_p_tag x f = Some ks"
  with m obtain r where r: "get_relays G s (SelectAll (read_relays_per_user limits)
      (write_relays_per_user limits) (hint_relays_per_user limits)
      (most_used_relays_per_user limits)) allowed
      (bts_extend id (bts_extend id [] as) ks) [] = Inr r"
    by (auto simp: break_down_filter_def rbind_Inr Let_def)
  show thesis
  proof (cases "has_nip17 pattern")
    case True
    with m a r obtain n where n: "get_relays G s (SelectPrivateMessage (nip17_relays limits))
        allowed (bts_extend id (bts_extend id [] as) ks) [] = Inr n"
      and "m = foldl (\<lambda>m u. um_insert u f m) [] (urls_extend r n)"
      by (auto simp: break_down_filter_def rbind_Inr Let_def split: if_splits)
    with True show thesis using both [OF a r, of n "urls_extend r n"] by simp
  next
    case False
    with m a r have "m = foldl (\<lambda>m u. um_insert u f m) [] r"
      by (auto simp: break_down_filter_def rbind_Inr Let_def split: if_splits)
    with False show thesis using both [OF a r, of "[]" r] by simp
  qed
next
  assume "fl_authors f = None" "filter_p_tag x f = None"
  with m show thesis by (simp add: break_down_filter_def)
qed

text \<open>
  A relay gets a filter exactly if it serves a key that the filter names: a filter with both
  authors and \<open>p\<close> tags goes unchanged to every relay of one of these keys, a filter with only one
  of the two names at each relay the keys that the relay serves in the last of the selections
  (write or read, hints, received events, private messages) in which it serves any of the keys.
\<close>

lemma broken_down_filter_at:
  assumes "break_down_filter x G s f pattern limits allowed = Inr (Filters m)"
  shows "um_get u m = filter_at x G s f pattern limits allowed u"
  using assms
proof (cases rule: broken_down_cases)
  case (authors as outbox)
  then show ?thesis
    using keys_by_relay_get [OF authors(3), of u] by (simp add: um_get_map filter_at_def)
next
  case (keys ks inbox)
  then show ?thesis
    using keys_by_relay_get [OF keys(3), of u] by (simp add: um_get_map filter_at_def)
next
  case (both as ks r n us)
  then show ?thesis
    using get_relays_mem [OF both(3), of u]
      get_relays_mem [of G s "SelectPrivateMessage (nip17_relays limits)" allowed _ "[]" n u]
    by (auto simp: same_filter_get urls_extend_mem filter_at_def serves_any_def split: if_splits)
qed

end
