(* ===== verification/Gossip_Safety.thy ===== *)
theory Gossip_Safety
  imports Gossip_Routing
begin

text \<open>
  What the client may rely on when it sends broken down filters: the relays obey the policy, the
  filters match nothing the original filter does not match, and which keys can get lost.
\<close>

section \<open>Only allowed relays\<close>

lemma um_insert_urls: "fst ` set (um_insert u y m) \<subseteq> insert u (fst ` set m)"
  by (induction u y m rule: um_insert.induct) auto

lemma um_insert_fold_urls:
  "fst ` set (foldl (\<lambda>m (u, y). um_insert u (g y) m) m n) \<subseteq> fst ` set m \<union> fst ` set n"
proof (induction n arbitrary: m)
  case (Cons p n)
  obtain u y where p: "p = (u, y)" by (cases p)
  show ?case
    using Cons [of "um_insert u (g y) m"] um_insert_urls [of u "g y" m] by (auto simp: p)
qed simp

lemma subset_all: "A \<subseteq> B \<union> C \<Longrightarrow> \<forall>u \<in> B. P u \<Longrightarrow> \<forall>u \<in> C. P u \<Longrightarrow> \<forall>u \<in> A. P u"
  by (meson UnE subsetD)

lemma um_extend_all:
  "\<forall>u \<in> fst ` set m. P u \<Longrightarrow> \<forall>u \<in> fst ` set n. P u \<Longrightarrow> \<forall>u \<in> fst ` set (um_extend m n). P u"
  unfolding um_extend_def
  by (rule subset_all [OF um_insert_fold_urls [where g = "\<lambda>y. y" and m = m and n = n]])

lemma same_filter_all:
  "\<forall>u \<in> set us. P u \<Longrightarrow> \<forall>u \<in> fst ` set (foldl (\<lambda>m u. um_insert u f m) [] us). P u"
  using um_insert_fold_urls [of "\<lambda>_. f" "[]" "map (\<lambda>u. (u, ())) us"]
  by (auto simp: foldl_map image_image)

lemma add_keys_urls: "fst ` set (foldl (add_key pk) m us) \<subseteq> fst ` set m \<union> set us"
proof (induction us arbitrary: m)
  case (Cons u us)
  have "fst ` set (add_key pk m u) \<subseteq> insert u (fst ` set m)"
    unfolding add_key_def by (rule um_insert_urls)
  with Cons [of "add_key pk m u"] show ?case by auto
qed simp

context gossip_source
begin

lemma map_relays_allowed:
  "map_relays G s sel allowed pks m = Inr m' \<Longrightarrow> \<forall>u \<in> fst ` set m. is_allowed allowed u \<Longrightarrow>
   \<forall>u \<in> fst ` set m'. is_allowed allowed u"
proof (induction pks arbitrary: m)
  case (Cons k pks)
  then obtain us where us: "g_get_best_relays G k sel allowed s = Inr us"
    and rest: "map_relays G s sel allowed pks (foldl (add_key k) m us) = Inr m'"
    by (auto simp: rbind_Inr)
  have "\<forall>u \<in> fst ` set (foldl (add_key k) m us). is_allowed allowed u"
    using add_keys_urls [of k m us] best_allowed [OF us] Cons.prems(2) by blast
  with Cons.IH [OF rest] show ?case by blast
qed simp

lemma get_relays_allowed:
  "get_relays G s sel allowed pks us = Inr us' \<Longrightarrow> \<forall>u \<in> set us. is_allowed allowed u \<Longrightarrow>
   \<forall>u \<in> set us'. is_allowed allowed u"
proof (induction pks arbitrary: us)
  case (Cons k pks)
  then obtain vs where vs: "g_get_best_relays G k sel allowed s = Inr vs"
    and rest: "get_relays G s sel allowed pks (urls_extend us vs) = Inr us'"
    by (auto simp: rbind_Inr)
  have "\<forall>u \<in> set (urls_extend us vs). is_allowed allowed u"
    using urls_extend_subset [of us vs] best_allowed [OF vs] Cons.prems(2) by blast
  with Cons.IH [OF rest] show ?case by blast
qed simp

lemma keys_by_relay_allowed:
  assumes "keys_by_relay G s pattern limits allowed sel pks = Inr m"
  shows "\<forall>u \<in> fst ` set m. is_allowed allowed u"
proof -
  note step = map_relays_allowed [where m = "[]"]
  from assms obtain a h r where
    a: "map_relays G s sel allowed pks [] = Inr a" and
    h: "map_relays G s (SelectHints (hint_relays_per_user limits)) allowed pks [] = Inr h" and
    r: "map_relays G s (SelectMostReceived (most_used_relays_per_user limits)) allowed pks [] = Inr r"
    by (auto simp: keys_by_relay_def rbind_Inr)
  have main: "\<forall>u \<in> fst ` set (um_extend (um_extend a h) r). is_allowed allowed u"
    by (intro um_extend_all step [OF a] step [OF h] step [OF r]) simp_all
  show ?thesis
  proof (cases "has_nip17 pattern")
    case True
    with assms a h r obtain p where
      p: "map_relays G s (SelectPrivateMessage (nip17_relays limits)) allowed pks [] = Inr p"
      and m: "m = um_extend (um_extend (um_extend a h) r) p"
      by (auto simp: keys_by_relay_def rbind_Inr Let_def)
    show ?thesis unfolding m by (intro um_extend_all main step [OF p]) simp
  next
    case False
    with assms a h r main show ?thesis by (simp add: keys_by_relay_def Let_def)
  qed
qed

lemma broken_down_allowed:
  assumes "break_down_filter x G s f pattern limits allowed = Inr (Filters m)"
  shows "\<forall>u \<in> fst ` set m. is_allowed allowed u"
  using assms
proof (cases rule: broken_down_cases)
  case (authors as outbox)
  then show ?thesis using keys_by_relay_allowed [OF authors(3)] by auto
next
  case (keys ks inbox)
  then show ?thesis using keys_by_relay_allowed [OF keys(3)] by auto
next
  case (both as ks r n us)
  have ra: "\<forall>u \<in> set r. is_allowed allowed u" by (rule get_relays_allowed [OF both(3)]) simp
  have "\<forall>u \<in> set us. is_allowed allowed u"
  proof (cases "has_nip17 pattern")
    case True
    then have n: "get_relays G s (SelectPrivateMessage (nip17_relays limits)) allowed
        (bts_extend id (bts_extend id [] as) ks) [] = Inr n" and "us = urls_extend r n"
      using both(4) by simp_all
    moreover have "\<forall>u \<in> set n. is_allowed allowed u" by (rule get_relays_allowed [OF n]) simp
    ultimately show ?thesis using subset_all [OF urls_extend_subset ra] by simp
  next
    case False
    then show ?thesis using both(4) ra by simp
  qed
  then show ?thesis unfolding both(5) by (rule same_filter_all)
qed

end

section \<open>No wider filters\<close>

lemma asked_keys_props:
  assumes "asked_keys G s allowed sels pks u = Some ks"
  shows "ks \<noteq> []" and "set ks \<subseteq> set pks"
proof -
  from assms obtain sel where sel: "list_ex (serves G s allowed sel u) pks"
    and ks: "ks = bts_extend id [] [k \<leftarrow> pks. serves G s allowed sel u k]"
    by (auto simp: asked_keys_def find_Some_iff split: option.splits)
  then have "set ks = {k \<in> set pks. serves G s allowed sel u k}" by auto
  then show "ks \<noteq> []" and "set ks \<subseteq> set pks" using sel by (auto simp: list_ex_iff)
qed

text \<open>The \<open>p\<close> values of a filter that are keys are in the form in which the code prints a key.\<close>

definition p_tags_canonical :: "externals \<Rightarrow> filter \<Rightarrow> bool" where
  "p_tags_canonical x f \<longleftrightarrow>
     (case btm_get slt_p (fl_generic_tags f) of
        None \<Rightarrow> True
      | Some ps \<Rightarrow> list_all (\<lambda>p. case public_key_from_hex x p of
            Inl e \<Rightarrow> True | Inr k \<Rightarrow> public_key_to_hex x k = p) ps)"

lemma with_authors_sound:
  assumes "fl_authors f = Some as" "set ks \<subseteq> set as" "ks \<noteq> []" "filter_spec (with_authors f ks) e"
  shows "filter_spec f e"
  using assms by (auto simp: filter_spec_def with_authors_def set_condition_def)

lemma map_filter_mem:
  "v \<in> set (List.map_filter g xs) \<longleftrightarrow> (\<exists>y \<in> set xs. g y = Some v)"
  by (induction xs) (auto simp: List.map_filter_def)

lemma with_p_tags_sound:
  assumes ok: "filter_ok f" and can: "p_tags_canonical x f"
    and keys: "filter_p_tag x f = Some keys" and ks: "set ks \<subseteq> set keys"
    and spec: "filter_spec (with_p_tags x f ks) e"
  shows "filter_spec f e"
proof -
  obtain ps where ps: "btm_get slt_p (fl_generic_tags f) = Some ps"
    and "keys = bts_extend id [] (List.map_filter (\<lambda>p. ok_of (public_key_from_hex x p)) ps)"
    using keys by (auto simp: filter_p_tag_def)
  then have keys_ps: "set keys = {k. \<exists>p \<in> set ps. public_key_from_hex x p = Inr k}"
    by (auto simp: map_filter_mem ok_of_Some)
  have ok_tags: "btm_ok (fl_generic_tags f)" using ok by (simp add: filter_ok_def)
  define vals where "vals = bts_extend id [] (map (public_key_to_hex x) ks)"
  have vals: "set vals \<subseteq> set ps"
  proof
    fix v assume "v \<in> set vals"
    then obtain k where "k \<in> set ks" and v: "v = public_key_to_hex x k" by (auto simp: vals_def)
    then obtain p where "p \<in> set ps" "public_key_from_hex x p = Inr k" using ks keys_ps by auto
    with can ps v show "v \<in> set ps"
      by (auto simp: p_tags_canonical_def list_all_iff split: sum.splits)
  qed
  have "\<exists>t \<in> set (ev_tags e). \<exists>v \<in> set vs. tag_single_letter t = Some name \<and> tag_content t = Some v"
    if "(name, vs) \<in> set (fl_generic_tags f)" for name vs
  proof -
    have get: "btm_get name (fl_generic_tags f) = Some vs"
      using that by (simp add: btm_get_mem [OF ok_tags])
    have "btm_get name (btm_put slt_p vals (fl_generic_tags f)) =
        Some (if name = slt_p then vals else vs)"
      using get by simp
    then have "(name, if name = slt_p then vals else vs) \<in> set (btm_put slt_p vals (fl_generic_tags f))"
      by (simp only: btm_get_mem [OF btm_put_ok [OF ok_tags]])
    with spec have "\<exists>t \<in> set (ev_tags e). \<exists>v \<in> set (if name = slt_p then vals else vs).
        tag_single_letter t = Some name \<and> tag_content t = Some v"
      unfolding filter_spec_def with_p_tags_def vals_def by fastforce
    then show ?thesis using vals get ps by (fastforce split: if_splits)
  qed
  then show ?thesis using spec by (auto simp: filter_spec_def with_p_tags_def)
qed

text \<open>
  C14: No broken down filter matches an event that the original filter does not match; in
  particular none has an empty list of authors, which would match everything. The \<open>p\<close> values of
  the filter that are keys must be in lower case, the form in which the code writes them back.
\<close>

theorem broken_down_sound:
  assumes "break_down_filter x G s f pattern limits allowed = Inr (Filters m)"
    and "filter_ok f" and "p_tags_canonical x f"
    and "um_get u m = Some f'" and "match_event f' e match_all"
  shows "match_event f e match_all"
  using assms(1)
proof (cases rule: broken_down_cases)
  case (authors as outbox)
  then obtain ks where "um_get u outbox = Some ks" and f': "f' = with_authors f ks"
    using assms(4) by (auto simp: um_get_map)
  then have "asked_keys G s allowed
      (selections pattern limits (SelectWrite (write_relays_per_user limits))) as u = Some ks"
    using keys_by_relay_get [OF authors(3), of u] by simp
  from asked_keys_props [OF this] show ?thesis
    using with_authors_sound [OF authors(1)] assms(5) by (simp add: match_spec f')
next
  case (keys pks inbox)
  then obtain ks where "um_get u inbox = Some ks" and f': "f' = with_p_tags x f ks"
    using assms(4) by (auto simp: um_get_map)
  then have "asked_keys G s allowed
      (selections pattern limits (SelectRead (read_relays_per_user limits))) pks u = Some ks"
    using keys_by_relay_get [OF keys(3), of u] by simp
  from asked_keys_props [OF this] show ?thesis
    using with_p_tags_sound [OF assms(2,3) keys(2)] assms(5) by (simp add: match_spec f')
next
  case (both as ks r n us)
  then show ?thesis using assms(4,5) by (auto simp: same_filter_get split: if_splits)
qed

section \<open>The policy of the memory store\<close>

text \<open>
  With the memory store, every relay a filter is sent to is allowed by the policy of the
  client: no onion relay, local address or unencrypted relay that the policy excludes.
\<close>

lemma broken_down_relays_allowed:
  assumes "break_down_filter x (memory_gossip x L now) c f pattern limits allowed = Inr (Filters m)"
  shows "\<forall>u \<in> fst ` set m. is_allowed allowed u"
  using assms by (rule memory.broken_down_allowed)

section \<open>Witnesses\<close>

text \<open>
  Two keys that share a relay: the first writes to it, the second only had it as a hint.
\<close>

definition ref_shared_relay :: "(public_key \<times> pk_data) list" where
  "ref_shared_relay =
     [(ref_pk 1, pk_data_default\<lparr>pd_relays :=
         [(ref_url, relay_data_default\<lparr>rd_bitflags := FLAG_WRITE\<rparr>)]\<rparr>),
      (ref_pk 2, pk_data_default\<lparr>pd_relays :=
         [(ref_url, relay_data_default\<lparr>rd_bitflags := FLAG_HINT\<rparr>)]\<rparr>)]"

definition ref_two_authors :: filter where
  "ref_two_authors = filter_new\<lparr>fl_authors := Some [ref_pk 1, ref_pk 2]\<rparr>"

abbreviation ref_gossip :: "((public_key \<times> pk_data) list, string) gossip" where
  "ref_gossip \<equiv> memory_gossip ref_externals ref_lru 100"

lemma ref_url_allowed [simp]: "is_allowed default_allowed ref_url"
  by (simp add: is_allowed_def default_allowed_def ref_url_def scheme_is_secure_def
      is_local_addr_def ip_addr_from_str_def read_ipv4_addr_def read_octet_def read_separator_def
      read_number_def read_ipv6_addr_def read_groups.simps [of 8 0] to_digit_def)

lemmas ref_gossip_eval = get_best_relays_def get_relays_by_flag_def ref_lru_def
  ref_shared_relay_def pk_data_default_def relay_data_default_def FLAG_READ_def FLAG_WRITE_def
  FLAG_HINT_def FLAG_RECEIVED_def FLAG_PRIVATE_MESSAGE_def flags_has_def

lemma ref_best:
  "g_get_best_relays ref_gossip (ref_pk 1) (SelectWrite 3) default_allowed ref_shared_relay =
     Inr [ref_url]"
  "g_get_best_relays ref_gossip (ref_pk 2) (SelectWrite 3) default_allowed ref_shared_relay =
     Inr []"
  "g_get_best_relays ref_gossip (ref_pk 1) (SelectHints 1) default_allowed ref_shared_relay =
     Inr []"
  "g_get_best_relays ref_gossip (ref_pk 2) (SelectHints 1) default_allowed ref_shared_relay =
     Inr [ref_url]"
  "g_get_best_relays ref_gossip (ref_pk 1) (SelectMostReceived 1) default_allowed
     ref_shared_relay = Inr []"
  "g_get_best_relays ref_gossip (ref_pk 2) (SelectMostReceived 1) default_allowed
     ref_shared_relay = Inr []"
  by (simp_all add: memory_gossip_def ref_gossip_eval)

lemma ref_broken_down:
  "break_down_filter ref_externals ref_gossip ref_shared_relay ref_two_authors PatternNip65
     default_relay_limits default_allowed =
   Inr (Filters [(ref_url, with_authors ref_two_authors [ref_pk 2])])"
proof -
  have p: "filter_p_tag ref_externals ref_two_authors = None"
    by (simp add: filter_p_tag_def ref_two_authors_def filter_new_def)
  have a: "fl_authors ref_two_authors = Some [ref_pk 1, ref_pk 2]"
    by (simp add: ref_two_authors_def)
  show ?thesis
    by (simp add: break_down_filter_def p a keys_by_relay_def default_relay_limits_def ref_best
        add_key_def um_extend_def has_nip17_def Let_def relay_url_eq_def)
qed

lemma broken_down_filter_at_witness:
  "filter_at ref_externals ref_gossip ref_shared_relay ref_two_authors PatternNip65
     default_relay_limits default_allowed ref_url =
   Some (with_authors ref_two_authors [ref_pk 2]) \<and>
   g_get_best_relays ref_gossip (ref_pk 1) (SelectWrite 3) default_allowed ref_shared_relay =
     Inr [ref_url]"
  using broken_down_filter_at [OF ref_broken_down, of ref_url] ref_best(1)
  by (simp add: relay_url_eq_def)

lemma broken_down_relays_allowed_witness: "is_allowed default_allowed ref_url"
  using broken_down_relays_allowed [OF ref_broken_down] by simp

lemma broken_down_sound_witness:
  "match_event ref_two_authors
     \<lparr>ev_id = ref_id 1, ev_pubkey = ref_pk 2, ev_created_at = 1, ev_kind = TextNote, ev_tags = [],
      ev_content = [], ev_sig = []\<rparr> match_all"
proof (rule broken_down_sound [OF ref_broken_down])
  show "filter_ok ref_two_authors"
    by (simp add: filter_ok_def ref_two_authors_def filter_new_def less_public_key_def ref_pk_def
        numeral_eq_Suc)
  show "p_tags_canonical ref_externals ref_two_authors"
    by (simp add: p_tags_canonical_def ref_two_authors_def filter_new_def)
  show "um_get ref_url [(ref_url, with_authors ref_two_authors [ref_pk 2])] =
      Some (with_authors ref_two_authors [ref_pk 2])"
    by (simp add: relay_url_eq_def)
  show "match_event (with_authors ref_two_authors [ref_pk 2])
     \<lparr>ev_id = ref_id 1, ev_pubkey = ref_pk 2, ev_created_at = 1, ev_kind = TextNote, ev_tags = [],
      ev_content = [], ev_sig = []\<rparr> match_all"
    by (simp add: match_spec filter_spec_def with_authors_def ref_two_authors_def filter_new_def
        set_condition_def)
qed

end
