(* ===== verification/Gossip_Progress.thy ===== *)
theory Gossip_Progress
  imports Gossip_Freshness Gossip_Safety
begin

text \<open>
  The properties of the gossip updates for the memory store: what a successful and a failed update
  leave, and that the background refresh comes round to every tracked key.
\<close>

section \<open>Updates with the memory store\<close>

text \<open>What the memory store is in while the client works: a valid state and a clock in range.\<close>

lemma net_preserves_memory:
  assumes "net_preserves good P N" and "A" and "B"
  shows "net_preserves (\<lambda>c. A \<and> good c \<and> B) P N"
  using assms by (simp add: net_preserves_def preserves_def)

lemma memory_updated:
  "updated (memory_gossip x L now) j m = (\<lambda>c. get_status L now j m c = StatusUpdated)"
  by (simp add: fun_eq_iff updated_def memory_gossip_def)

lemma memory_status:
  "(g_status (memory_gossip x L now) k l c = Inr v) = (get_status L now k l c = v)"
  by (simp add: memory_gossip_def)


text \<open>
  When no relay answers, neither the synchronisation nor the requests of the fallback, a key
  keeps the status it had, with or without an error at the end, so that the next update tries it
  again; the keys with a list in the database are the exception.
\<close>

lemma sync_failure_retries:
  assumes "lru_unbounded L good" and "good c" and "now \<le> u64_max"
    and "\<forall>v. net_preserves good (\<lambda>c. get_status L now k l c = v) N"
    and "\<forall>f c out c'. n_sync N f c = (Inr out, c') \<longrightarrow> so_success out = []"
    and "\<forall>t c items c'. n_stream N t c = (Inr items, c') \<longrightarrow> \<not> list_ex is_answer items"
    and "\<forall>f es. n_query N f = Inr es \<longrightarrow> k \<notin> ev_pubkey ` set es"
  shows "get_status L now k l
      (snd (sync_gossip_public_keys (memory_gossip x L now) N fetch_chunks kinds pks c)) =
    get_status L now k l c"
proof -
  let ?G = "memory_gossip x L now"
  let ?ok = "\<lambda>c. lru_unbounded L good \<and> good c \<and> now \<le> u64_max"
  have net: "net_preserves ?ok (\<lambda>d. get_status L now k l d = get_status L now k l c) N"
    by (rule net_preserves_memory) (use assms in simp_all)
  note run = memory.failed_sync_status [where j = k and m = l and x = x and L = L and now = now
      and good = good and v = "Inr (get_status L now k l c)", unfolded memory_status]
  have "preserves ?ok (\<lambda>d. get_status L now k l d = get_status L now k l c)
      (sync_gossip_public_keys ?G N fetch_chunks kinds pks)"
    by (rule run [OF net assms(6,5,7)])
  then show ?thesis using assms(1-3) by (auto simp: preserves_def)
qed

section \<open>The background refresh\<close>

text \<open>The keys that \<open>n\<close> rounds look at.\<close>

fun refresh_rounds :: "gossip_list_kind \<Rightarrow> nat \<Rightarrow> nat \<Rightarrow> refresher \<Rightarrow> public_key list" where
  "refresh_rounds l limit 0 r = []"
| "refresh_rounds l limit (Suc n) r =
     (let (ks, r) = next_tracked_public_keys_for_refresh l limit r
      in ks @ refresh_rounds l limit n r)"

lemma advance_cursor_simps [simp]:
  "tracked_public_keys l (advance_cursor l n r) = tracked_public_keys l r"
  "cursor_of l r + n \<le> usize_max \<Longrightarrow> cursor_of l (advance_cursor l n r) = cursor_of l r + n"
  by (auto simp: tracked_public_keys_def advance_cursor_def cursor_of_def fetch_add_def
      split: gossip_list_kind.split)

lemma window_mem:
  assumes "tracked_public_keys l r \<noteq> []" and "d < limit"
  shows "tracked_public_keys l r ! ((cursor_of l r + d) mod length (tracked_public_keys l r)) \<in>
    set (fst (next_tracked_public_keys_for_refresh l limit r))"
proof -
  define n where "n = length (tracked_public_keys l r)"
  have n: "0 < n" using assms(1) by (simp add: n_def)
  have "d mod n < min n limit"
    using n assms(2) by (simp add: le_less_trans [OF mod_less_eq_dividend])
  moreover have "(cursor_of l r + d) mod n = (cursor_of l r mod n + d mod n) mod n"
    by (simp add: mod_add_eq)
  ultimately show ?thesis
    using assms(1) unfolding next_tracked_public_keys_for_refresh_def Let_def n_def [symmetric]
    by auto
qed

lemma rounds_mem:
  assumes "tracked_public_keys l r \<noteq> []" and "0 < limit"
  shows "d < n * limit \<Longrightarrow> cursor_of l r + n * limit \<le> usize_max \<Longrightarrow>
    tracked_public_keys l r ! ((cursor_of l r + d) mod length (tracked_public_keys l r)) \<in>
    set (refresh_rounds l limit n r)"
  using assms(1)
proof (induction n arbitrary: r d)
  case (Suc n)
  define r' where "r' = advance_cursor l limit r"
  obtain ks where ks: "next_tracked_public_keys_for_refresh l limit r = (ks, r')"
    using Suc.prems(3) by (simp add: next_tracked_public_keys_for_refresh_def Let_def r'_def)
  have r': "tracked_public_keys l r' = tracked_public_keys l r"
    "cursor_of l r' = cursor_of l r + limit"
    using Suc.prems(2) by (simp_all add: r'_def)
  show ?case
  proof (cases "d < limit")
    case True
    then show ?thesis using window_mem [OF Suc.prems(3), of d limit] ks by simp
  next
    case False
    then have "d - limit < n * limit" and "cursor_of l r' + n * limit \<le> usize_max"
      and "tracked_public_keys l r' \<noteq> []" using Suc.prems r' by auto
    from Suc.IH [OF this] False show ?thesis by (simp add: ks r')
  qed
qed simp

text \<open>
  The background refresh comes round: as many rounds as the tracked keys fill look at every
  tracked key, wherever the cursor starts, as long as the cursor does not overflow.
\<close>

lemma refresh_reaches_all:
  assumes "length (tracked_public_keys l r) \<le> n * limit"
    and "cursor_of l r + n * limit \<le> usize_max"
  shows "set (tracked_public_keys l r) \<subseteq> set (refresh_rounds l limit n r)"
proof
  fix k assume "k \<in> set (tracked_public_keys l r)"
  then obtain i where i: "i < length (tracked_public_keys l r)" "k = tracked_public_keys l r ! i"
    by (metis in_set_conv_nth)
  define m where "m = length (tracked_public_keys l r)"
  define d where "d = (i + (m - cursor_of l r mod m)) mod m"
  have m: "0 < m" using i(1) unfolding m_def by linarith
  have "(cursor_of l r + d) mod m = (cursor_of l r mod m + (i + (m - cursor_of l r mod m))) mod m"
    by (simp only: d_def mod_add_right_eq mod_add_left_eq)
  also have "cursor_of l r mod m + (i + (m - cursor_of l r mod m)) = i + m"
    using mod_less_divisor [OF m, of "cursor_of l r"] by linarith
  finally have "(cursor_of l r + d) mod m = i" using i by (simp add: m_def)
  moreover have "d < n * limit"
    using less_le_trans [OF mod_less_divisor [OF m] assms(1) [folded m_def]] by (simp only: d_def)
  moreover have "0 < limit" using \<open>d < n * limit\<close> by (cases limit) auto
  moreover have "tracked_public_keys l r \<noteq> []"
    using i(1) by (cases "tracked_public_keys l r") auto
  ultimately show "k \<in> set (refresh_rounds l limit n r)"
    using rounds_mem [of l r limit d n] assms(2) i(2) by (simp add: m_def)
qed

section \<open>Witnesses\<close>

text \<open>A client that nothing happens to: the parts of \<open>net\<close> return fixed values.\<close>

definition ref_net ::
  "sync_output \<Rightarrow> event list \<Rightarrow> stream_item list \<Rightarrow> ((public_key \<times> pk_data) list, string) net" where
  "ref_net out stored items =
     \<lparr>n_wait = (\<lambda>c. c), n_sync = (\<lambda>f c. (Inr out, c)), n_query = (\<lambda>f. Inr stored),
      n_stream = (\<lambda>t c. (Inr items, c)), n_read_relays = [], n_add_relay = (\<lambda>u. Inr ())\<rparr>"

definition ref_success :: sync_output where
  "ref_success = \<lparr>so_success = [ref_url], so_failed = [], so_received = [], so_local = []\<rparr>"

definition ref_failure :: sync_output where
  "ref_failure = \<lparr>so_success = [], so_failed = [ref_url], so_received = [], so_local = []\<rparr>"

lemma ref_net_preserves: "net_preserves good P (ref_net out stored items)"
  by (simp add: net_preserves_def preserves_def ref_net_def amodify_def acall_def)

lemma ref_lru_map: "lru_peek ref_lru c k = map_of c k"
  by (simp add: ref_lru_def)

lemma ref_missing:
  "compute_gossip_update_candidates ref_gossip [Nip65] [ref_pk 1] [] [] = Inr [ref_pk 1]"
  by (simp add: memory_gossip_def get_status_def ref_lru_map)

lemma ref_negentropy:
  "sync_gossip_public_keys_with_negentropy ref_gossip (ref_net out stored items) kinds pks c =
     abind (process_stored ref_gossip kinds (so_received out) stored) (\<lambda>_. areturn (out, stored)) c"
  by (simp add: sync_gossip_public_keys_with_negentropy_def abind_def [of "acall _"]
      abind_def [of "aread _"] aread_def acall_def client_err_def ref_net_def Let_def)

lemma ref_sync:
  assumes "abind (process_stored ref_gossip [Nip65] (so_received out) stored)
      (\<lambda>_. areturn (out, stored)) [] = (Inr (out, stored), c)"
    and "finish_sync ref_gossip (ref_net out stored items) 10 [Nip65] out stored [ref_pk 1] c = r"
  shows "sync_gossip_public_keys ref_gossip (ref_net out stored items) 10 [Nip65] [ref_pk 1] [] = r"
proof -
  have "n_wait (ref_net out stored items) [] = []" by (simp add: ref_net_def)
  then show ?thesis
    using assms by (simp add: sync_gossip_public_keys_def sync_with_permits_def ref_missing
        ref_negentropy abind_def [of "amodify _"] abind_def [of "aread _"]
        abind_def [of "sync_gossip_public_keys_with_negentropy _ _ _ _"] aread_def amodify_def
        client_err_def del: compute_gossip_update_candidates.simps)
qed

lemma ref_sync_runs:
  "sync_gossip_public_keys ref_gossip (ref_net ref_success [] []) 10 [Nip65] [ref_pk 1] [] =
   (Inr (), update_fetch_attempt ref_lru 100 (ref_pk 1) Nip65 [])"
proof (rule ref_sync)
  show "abind (process_stored ref_gossip [Nip65] (so_received ref_success) [])
      (\<lambda>_. areturn (ref_success, [])) [] = (Inr (ref_success, []), [])"
    by (simp add: abind_def areturn_def)
  show "finish_sync ref_gossip (ref_net ref_success [] []) 10 [Nip65] ref_success [] [ref_pk 1] [] =
      (Inr (), update_fetch_attempt ref_lru 100 (ref_pk 1) Nip65 [])"
    by (simp add: finish_sync_def remove_authors_def ref_success_def abind_def acall_def
        areturn_def client_err_def Let_def) (simp add: memory_gossip_def areturn_def)
qed


lemma sync_failure_retries_witness:
  "get_status ref_lru 100 (ref_pk 1) Nip65
     (snd (sync_gossip_public_keys ref_gossip (ref_net ref_failure [] [StreamError ref_url]) 10
       [Nip65] [ref_pk 1] [])) = StatusMissing"
proof -
  have "get_status ref_lru 100 (ref_pk 1) Nip65
     (snd (sync_gossip_public_keys ref_gossip (ref_net ref_failure [] [StreamError ref_url]) 10
       [Nip65] [ref_pk 1] [])) = get_status ref_lru 100 (ref_pk 1) Nip65 []"
  proof (rule sync_failure_retries [OF ref_lru_unbounded])
    show "\<forall>v. net_preserves ref_lru_good (\<lambda>c. get_status ref_lru 100 (ref_pk 1) Nip65 c = v)
        (ref_net ref_failure [] [StreamError ref_url])"
      using ref_net_preserves by blast
  qed (auto simp: u64_max_def ref_net_def ref_failure_def is_answer_def)
  then show ?thesis by (simp add: get_status_def ref_lru_map)
qed

text \<open>A key with a stored list counts as checked also when every relay failed.\<close>

definition ref_stored_list :: event where
  "ref_stored_list =
     \<lparr>ev_id = ref_id 7, ev_pubkey = ref_pk 1, ev_created_at = 1, ev_kind = RelayList, ev_tags = [],
      ev_content = [], ev_sig = []\<rparr>"

lemma stored_list_blocks_retry:
  "get_status ref_lru 100 (ref_pk 1) Nip65
     (snd (sync_gossip_public_keys ref_gossip
       (ref_net ref_failure [ref_stored_list] [StreamError ref_url]) 10 [Nip65] [ref_pk 1] [])) =
   StatusUpdated"
proof -
  let ?N = "ref_net ref_failure [ref_stored_list] [StreamError ref_url]"
  define c1 where "c1 = update_fetch_attempt ref_lru 100 (ref_pk 1) Nip65 []"
  define c2 where "c2 = process_event ref_externals ref_lru 100 ref_stored_list None c1"
  have good: "ref_lru_good c1"
    using attempt_good [OF ref_lru_unbounded, of "[]"] by (simp add: c1_def)
  have mark: "mark_kinds ref_gossip (ref_pk 1) [Nip65] [] = (Inr (), c1)"
    by (simp add: abind_def acall_def areturn_def client_err_def Let_def)
      (simp add: memory_gossip_def c1_def areturn_def)
  have "acall (g_process ref_gossip ref_stored_list None) c1 = (Inr (), c2)"
    by (simp add: acall_def client_err_def memory_gossip_def c2_def)
  then have neg: "abind (process_stored ref_gossip [Nip65] (so_received ref_failure) [ref_stored_list])
      (\<lambda>_. areturn (ref_failure, [ref_stored_list])) [] = (Inr (ref_failure, [ref_stored_list]), c2)"
    using mark by (simp add: abind_def areturn_def ref_failure_def ref_stored_list_def
        del: mark_kinds.simps)
  have "chunks 10 [newer_filter ref_stored_list] = [[newer_filter ref_stored_list]]"
    by (simp add: chunks.simps [of 10])
  then have "finish_sync ref_gossip ?N 10 [Nip65] ref_failure [ref_stored_list] [ref_pk 1] c2 =
      (Inr (), c2)"
    by (simp add: finish_sync_def remove_authors_def bts_remove_def ref_stored_list_def
        fetch_newer_gossip_lists_from_failed_relays_def ref_failure_def abind_def acall_def
        areturn_def client_err_def ref_net_def Let_def)
  from ref_sync [OF neg this]
  have "sync_gossip_public_keys ref_gossip ?N 10 [Nip65] [ref_pk 1] [] = (Inr (), c2)" .
  moreover have "get_status ref_lru 100 (ref_pk 1) Nip65 c2 = StatusUpdated"
    unfolding c2_def process_event_status(2) [OF ref_lru_unbounded good]
    by (simp add: c1_def attempt_status [OF ref_lru_unbounded] u64_max_def)
  ultimately show ?thesis by simp
qed

lemma refresh_reaches_all_witness:
  "set [ref_pk 1, ref_pk 2, ref_pk 3] \<subseteq> set (refresh_rounds Nip65 2 2
     (refresher_new\<lparr>nip65_refresh_cursor := 5,
        nip65_seen_public_keys := [ref_pk 1, ref_pk 2, ref_pk 3]\<rparr>))"
  using refresh_reaches_all [of Nip65 "refresher_new\<lparr>nip65_refresh_cursor := 5,
      nip65_seen_public_keys := [ref_pk 1, ref_pk 2, ref_pk 3]\<rparr>" 2 2]
  by (simp add: tracked_public_keys_def cursor_of_def refresher_new_def usize_max_def)

end
