(* ===== verification/Gossip_Semaphore.thy ===== *)
theory Gossip_Semaphore
  imports Nostr_Keys
begin

text \<open>
  The lock of the gossip updates (nostr-sdk/src/client/gossip/semaphore.rs): one semaphore with
  one permit per public key, kept in a map behind a mutex. \<open>acquire\<close> holds the mutex while it takes
  the permits of all its keys in order; the guard that it returns gives them back when it is
  dropped and spawns a task that removes unused semaphores.

  Tasks run concurrently, so the model is a transition system: a step of a task is the code
  between two points at which another task can run. A semaphore is an object of its own, named by a
  number, because the map may forget a semaphore that a task still holds. A call of \<open>acquire\<close> whose
  future is dropped is the step \<open>cancel\<close>.
\<close>

section \<open>The state\<close>

definition PERMIT_NUM :: nat where "PERMIT_NUM = 1"

text \<open>
  Where a call of \<open>acquire\<close> is: before the mutex; between the permits, with the semaphores to come
  and the permits that it has; with the guard; in \<open>drop\<close>, with the permits that are left; before the
  clean-up; done.
\<close>

datatype phase =
    Waiting "public_key list"
  | Acquiring "public_key list" "nat list" "nat list"
  | Holding "public_key list" "nat list"
  | Releasing "public_key list" "nat list"
  | Cleaning "public_key list"
  | Finished

record semaphores =
  in_flight :: "public_key \<Rightarrow> nat option"
  permits :: "nat \<Rightarrow> nat"
  next_semaphore :: nat
  mutex :: "nat option"
  tasks :: "nat \<Rightarrow> phase option"

definition gossip_semaphore_new :: semaphores where
  "gossip_semaphore_new =
     \<lparr>in_flight = Map.empty, permits = (\<lambda>_. 0), next_semaphore = 0, mutex = None,
      tasks = Map.empty\<rparr>"

definition set_phase :: "nat \<Rightarrow> phase \<Rightarrow> semaphores \<Rightarrow> semaphores" where
  "set_phase t p s = s\<lparr>tasks := (tasks s)(t \<mapsto> p)\<rparr>"

text \<open>The first loop of \<open>acquire\<close>: \<open>entry(key).or_insert_with(new semaphore).clone()\<close>.\<close>

definition or_insert_semaphore :: "public_key \<Rightarrow> semaphores \<Rightarrow> semaphores" where
  "or_insert_semaphore k s =
     (case in_flight s k of
        Some i \<Rightarrow> s
      | None \<Rightarrow>
          s\<lparr>in_flight := (in_flight s)(k \<mapsto> next_semaphore s),
            permits := (permits s)(next_semaphore s := PERMIT_NUM),
            next_semaphore := Suc (next_semaphore s)\<rparr>)"

fun get_semaphores :: "public_key list \<Rightarrow> semaphores \<Rightarrow> nat list \<times> semaphores" where
  "get_semaphores [] s = ([], s)"
| "get_semaphores (k # ks) s =
     (let s = or_insert_semaphore k s; (is, s') = get_semaphores ks s
      in (the (in_flight s k) # is, s'))"

definition cleanup :: "public_key list \<Rightarrow> semaphores \<Rightarrow> semaphores" where
  "cleanup ks s = foldl (\<lambda>s k.
     case in_flight s k of
       None \<Rightarrow> s
     | Some i \<Rightarrow>
         if permits s i = PERMIT_NUM then s\<lparr>in_flight := (in_flight s)(k := None)\<rparr> else s) s ks"

definition release :: "nat \<Rightarrow> semaphores \<Rightarrow> semaphores" where
  "release i s = s\<lparr>permits := (permits s)(i := Suc (permits s i))\<rparr>"

section \<open>The steps\<close>

text \<open>The steps a task takes without help from others, except for the drop of its guard.\<close>

inductive internal_step :: "semaphores \<Rightarrow> semaphores \<Rightarrow> bool" where
  lock: "tasks s t = Some (Waiting ks) \<Longrightarrow> mutex s = None \<Longrightarrow> get_semaphores ks s = (is, s') \<Longrightarrow>
    internal_step s (set_phase t (Acquiring ks is []) (s'\<lparr>mutex := Some t\<rparr>))"
| permit: "tasks s t = Some (Acquiring ks (i # is) held) \<Longrightarrow> 0 < permits s i \<Longrightarrow>
    internal_step s (set_phase t (Acquiring ks is (held @ [i]))
      (s\<lparr>permits := (permits s)(i := permits s i - 1)\<rparr>))"
| acquired: "tasks s t = Some (Acquiring ks [] held) \<Longrightarrow>
    internal_step s (set_phase t (Holding ks held) (s\<lparr>mutex := None\<rparr>))"
| release_one: "tasks s t = Some (Releasing ks (i # held)) \<Longrightarrow>
    internal_step s (set_phase t (Releasing ks held) (release i s))"
| released: "tasks s t = Some (Releasing ks []) \<Longrightarrow>
    internal_step s (set_phase t (Cleaning ks) s)"
| clean: "tasks s t = Some (Cleaning ks) \<Longrightarrow> mutex s = None \<Longrightarrow>
    internal_step s (set_phase t Finished (cleanup ks s))"

inductive drop_step :: "semaphores \<Rightarrow> semaphores \<Rightarrow> bool" where
  "tasks s t = Some (Holding ks held) \<Longrightarrow> drop_step s (set_phase t (Releasing ks held) s)"

text \<open>A new call of \<open>acquire\<close>; its keys are a \<open>BTreeSet\<close>.\<close>

inductive spawn_step :: "semaphores \<Rightarrow> semaphores \<Rightarrow> bool" where
  "tasks s t = None \<Longrightarrow> bts_ok id ks \<Longrightarrow> spawn_step s (set_phase t (Waiting ks) s)"

text \<open>The future of \<open>acquire\<close> is dropped: the permits go back, then the mutex is unlocked.\<close>

inductive cancel_step :: "semaphores \<Rightarrow> semaphores \<Rightarrow> bool" where
  "tasks s t = Some (Waiting ks) \<Longrightarrow> cancel_step s (set_phase t Finished s)"
| "tasks s t = Some (Acquiring ks is held) \<Longrightarrow>
    cancel_step s (set_phase t Finished ((foldl (\<lambda>s i. release i s) s held)\<lparr>mutex := None\<rparr>))"

inductive progress :: "semaphores \<Rightarrow> semaphores \<Rightarrow> bool" where
  "internal_step s s' \<Longrightarrow> progress s s'"
| "drop_step s s' \<Longrightarrow> progress s s'"

text \<open>The reachable states; the flag says whether calls may be cancelled.\<close>

inductive sem_reachable :: "bool \<Rightarrow> semaphores \<Rightarrow> bool" for c where
  "sem_reachable c gossip_semaphore_new"
| "sem_reachable c s \<Longrightarrow> progress s s' \<Longrightarrow> sem_reachable c s'"
| "sem_reachable c s \<Longrightarrow> spawn_step s s' \<Longrightarrow> sem_reachable c s'"
| "c \<Longrightarrow> sem_reachable c s \<Longrightarrow> cancel_step s s' \<Longrightarrow> sem_reachable c s'"

section \<open>The invariant\<close>

text \<open>The permits that a task has.\<close>

definition owned :: "phase option \<Rightarrow> nat list" where
  "owned p =
     (case p of
        Some (Acquiring ks is held) \<Rightarrow> held
      | Some (Holding ks held) \<Rightarrow> held
      | Some (Releasing ks held) \<Rightarrow> held
      | _ \<Rightarrow> [])"

text \<open>
  The semaphores of a task are those the map has for its keys: all of them up to the drop, then
  those of the last keys.
\<close>

definition linked :: "(public_key \<Rightarrow> nat option) \<Rightarrow> phase option \<Rightarrow> bool" where
  "linked m p \<longleftrightarrow>
     (case p of
        Some (Waiting ks) \<Rightarrow> distinct ks
      | Some (Acquiring ks is held) \<Rightarrow> distinct ks \<and> map m ks = map Some (held @ is)
      | Some (Holding ks held) \<Rightarrow> distinct ks \<and> map m ks = map Some held
      | Some (Releasing ks held) \<Rightarrow>
          \<exists>gone rest. ks = gone @ rest \<and> distinct ks \<and> map m rest = map Some held
      | _ \<Rightarrow> True)"

definition sem_inv :: "semaphores \<Rightarrow> bool" where
  "sem_inv s \<longleftrightarrow>
     (\<forall>k i. in_flight s k = Some i \<longrightarrow> i < next_semaphore s) \<and>
     inj_on (in_flight s) (dom (in_flight s)) \<and>
     (\<forall>t. linked (in_flight s) (tasks s t)) \<and>
     (\<forall>t. distinct (owned (tasks s t)) \<and> (\<forall>i \<in> set (owned (tasks s t)). i < next_semaphore s)) \<and>
     (\<forall>t u. t \<noteq> u \<longrightarrow> set (owned (tasks s t)) \<inter> set (owned (tasks s u)) = {}) \<and>
     (\<forall>i < next_semaphore s.
        permits s i = (if \<exists>t. i \<in> set (owned (tasks s t)) then 0 else 1)) \<and>
     (\<forall>t. mutex s = Some t \<longleftrightarrow> (\<exists>ks is held. tasks s t = Some (Acquiring ks is held)))"

definition acquiring :: "phase option \<Rightarrow> bool" where
  "acquiring p \<longleftrightarrow> (case p of Some (Acquiring ks is held) \<Rightarrow> True | _ \<Rightarrow> False)"

lemma acquiring_iff: "(\<exists>ks is held. p = Some (Acquiring ks is held)) \<longleftrightarrow> acquiring p"
  by (auto simp: acquiring_def split: option.splits phase.splits)

lemma owned_simps [simp]:
  "owned None = []"
  "owned (Some (Waiting ks)) = []"
  "owned (Some (Acquiring ks is held)) = held"
  "owned (Some (Holding ks held)) = held"
  "owned (Some (Releasing ks held)) = held"
  "owned (Some (Cleaning ks)) = []"
  "owned (Some Finished) = []"
  by (simp_all add: owned_def)

lemma acquiring_simps [simp]:
  "\<not> acquiring None"
  "\<not> acquiring (Some (Waiting ks))"
  "acquiring (Some (Acquiring ks is held))"
  "\<not> acquiring (Some (Holding ks held))"
  "\<not> acquiring (Some (Releasing ks held))"
  "\<not> acquiring (Some (Cleaning ks))"
  "\<not> acquiring (Some Finished)"
  by (simp_all add: acquiring_def)

lemma set_phase_simps [simp]:
  "in_flight (set_phase t p s) = in_flight s"
  "permits (set_phase t p s) = permits s"
  "next_semaphore (set_phase t p s) = next_semaphore s"
  "mutex (set_phase t p s) = mutex s"
  "tasks (set_phase t p s) u = (if u = t then Some p else tasks s u)"
  by (simp_all add: set_phase_def)

text \<open>The parts of the invariant.\<close>

lemma sem_invD:
  assumes "sem_inv s"
  shows sem_bound: "in_flight s k = Some i \<Longrightarrow> i < next_semaphore s"
    and sem_inj: "inj_on (in_flight s) (dom (in_flight s))"
    and sem_linked: "linked (in_flight s) (tasks s t)"
    and sem_distinct: "distinct (owned (tasks s t))"
    and sem_owned: "i \<in> set (owned (tasks s t)) \<Longrightarrow> i < next_semaphore s"
    and sem_disjoint: "t \<noteq> u \<Longrightarrow> set (owned (tasks s t)) \<inter> set (owned (tasks s u)) = {}"
    and sem_permits: "i < next_semaphore s \<Longrightarrow>
      permits s i = (if \<exists>t. i \<in> set (owned (tasks s t)) then 0 else 1)"
    and sem_mutex: "mutex s = Some t \<longleftrightarrow> acquiring (tasks s t)"
  using assms by (auto simp: sem_inv_def acquiring_iff)

lemma sem_free:
  "sem_inv s \<Longrightarrow> i < next_semaphore s \<Longrightarrow> 0 < permits s i \<Longrightarrow> i \<notin> set (owned (tasks s t))"
  using sem_permits [of s i] by (metis less_irrefl)

lemma owner_split:
  "(\<exists>u. j \<in> set (owned (tasks s u))) \<longleftrightarrow>
     j \<in> set (owned (tasks s t)) \<or> (\<exists>u. u \<noteq> t \<and> j \<in> set (owned (tasks s u)))"
  by metis

lemma one_acquirer:
  "sem_inv s \<Longrightarrow> acquiring (tasks s t) \<Longrightarrow> u \<noteq> t \<Longrightarrow> \<not> acquiring (tasks s u)"
  using sem_mutex [of s t] sem_mutex [of s u] by simp

text \<open>A step of one task that leaves the map alone.\<close>

lemma sem_inv_step:
  assumes inv: "sem_inv s"
    and map: "in_flight s' = in_flight s" "next_semaphore s' = next_semaphore s"
      "tasks s' = tasks s"
    and linked: "linked (in_flight s) (Some p)"
    and own: "distinct (owned (Some p))" "\<And>i. i \<in> set (owned (Some p)) \<Longrightarrow> i < next_semaphore s"
      "\<And>u. u \<noteq> t \<Longrightarrow> set (owned (Some p)) \<inter> set (owned (tasks s u)) = {}"
    and permits: "\<And>i. i < next_semaphore s \<Longrightarrow> permits s' i =
      (if i \<in> set (owned (Some p)) \<or> (\<exists>u. u \<noteq> t \<and> i \<in> set (owned (tasks s u))) then 0 else 1)"
    and mutex: "mutex s' = Some t \<longleftrightarrow> acquiring (Some p)"
      "\<And>u. u \<noteq> t \<Longrightarrow> mutex s' = Some u \<longleftrightarrow> acquiring (tasks s u)"
  shows "sem_inv (set_phase t p s')"
  unfolding sem_inv_def acquiring_iff
proof (intro conjI allI impI)
  fix i assume "i < next_semaphore (set_phase t p s')"
  then show "permits (set_phase t p s') i =
      (if \<exists>u. i \<in> set (owned (tasks (set_phase t p s') u)) then 0 else 1)"
    using permits [of i] by (auto simp: map)
next
  fix u v :: nat assume "u \<noteq> v"
  then show "set (owned (tasks (set_phase t p s') u)) \<inter> set (owned (tasks (set_phase t p s') v)) = {}"
    using own(3) [of u] own(3) [of v] sem_disjoint [OF inv, of u v]
    by (cases "u = t"; cases "v = t") (simp_all add: map Int_commute)
qed (use sem_invD [OF inv] linked own mutex in \<open>auto simp: map\<close>)

text \<open>A step that changes no permit.\<close>

lemma sem_inv_keep:
  assumes inv: "sem_inv s"
    and same: "in_flight s' = in_flight s" "next_semaphore s' = next_semaphore s"
      "tasks s' = tasks s" "permits s' = permits s"
    and linked: "linked (in_flight s) (Some p)" and own: "owned (Some p) = owned (tasks s t)"
    and mutex: "mutex s' = Some t \<longleftrightarrow> acquiring (Some p)"
      "\<And>u. u \<noteq> t \<Longrightarrow> mutex s' = Some u \<longleftrightarrow> acquiring (tasks s u)"
  shows "sem_inv (set_phase t p s')"
proof (rule sem_inv_step [OF inv same(1,2,3) linked])
  show "permits s' i = (if i \<in> set (owned (Some p)) \<or>
      (\<exists>u. u \<noteq> t \<and> i \<in> set (owned (tasks s u))) then 0 else 1)" if "i < next_semaphore s" for i
    using sem_permits [OF inv that] unfolding same(4) own owner_split [of i s t] .
  show "u \<noteq> t \<Longrightarrow> set (owned (Some p)) \<inter> set (owned (tasks s u)) = {}" for u
    using sem_disjoint [OF inv, of t u] own by simp
qed (use sem_distinct [OF inv, of t] sem_owned [OF inv, of _ t] own mutex in auto)

section \<open>The map of semaphores\<close>

lemma linked_mono: "m \<subseteq>\<^sub>m m' \<Longrightarrow> linked m p \<Longrightarrow> linked m' p"
proof -
  assume le: "m \<subseteq>\<^sub>m m'"
  have step: "map m ks = map Some is \<Longrightarrow> map m' ks = map Some is" for ks "is"
  proof (induction ks arbitrary: "is")
    case (Cons k ks)
    then show ?case using le by (cases "is") (auto simp: map_le_def dom_def)
  qed simp
  show "linked m p \<Longrightarrow> linked m' p"
    using step by (auto simp: linked_def simp del: map_append split: option.splits phase.splits)
qed

lemma or_insert_inv:
  assumes "sem_inv s"
  shows "sem_inv (or_insert_semaphore k s)"
    and "in_flight s \<subseteq>\<^sub>m in_flight (or_insert_semaphore k s)"
    and "in_flight (or_insert_semaphore k s) k \<noteq> None"
    and "tasks (or_insert_semaphore k s) = tasks s"
    and "mutex (or_insert_semaphore k s) = mutex s"
proof -
  show le: "in_flight s \<subseteq>\<^sub>m in_flight (or_insert_semaphore k s)"
    by (auto simp: or_insert_semaphore_def map_le_def split: option.split)
  show tasks: "tasks (or_insert_semaphore k s) = tasks s"
    and mutex: "mutex (or_insert_semaphore k s) = mutex s"
    and "in_flight (or_insert_semaphore k s) k \<noteq> None"
    by (auto simp: or_insert_semaphore_def split: option.split)
  show "sem_inv (or_insert_semaphore k s)"
  proof (cases "in_flight s k")
    case (Some i)
    then show ?thesis using assms by (simp add: or_insert_semaphore_def)
  next
    case None
    let ?s = "or_insert_semaphore k s"
    have next_: "next_semaphore ?s = Suc (next_semaphore s)"
      and permits: "permits ?s = (permits s)(next_semaphore s := 1)"
      and map: "in_flight ?s = (in_flight s)(k \<mapsto> next_semaphore s)"
      by (simp_all add: or_insert_semaphore_def None PERMIT_NUM_def)
    have fresh: "\<not> (\<exists>t. next_semaphore s \<in> set (owned (tasks s t)))"
      using sem_owned [OF assms] by blast
    show ?thesis
      unfolding sem_inv_def acquiring_iff
    proof (intro conjI allI impI)
      show "inj_on (in_flight ?s) (dom (in_flight ?s))"
        using sem_inj [OF assms] sem_bound [OF assms]
        by (auto simp: map inj_on_def dom_def) blast+
      fix t show "linked (in_flight ?s) (tasks ?s t)"
        using linked_mono [OF le] sem_linked [OF assms] by (simp add: tasks)
    next
      fix i assume "i < next_semaphore ?s"
      then show "permits ?s i = (if \<exists>t. i \<in> set (owned (tasks ?s t)) then 0 else 1)"
        using fresh sem_permits [OF assms] by (auto simp: permits next_ tasks less_Suc_eq)
    qed (use sem_invD [OF assms] in \<open>auto simp: map next_ tasks mutex less_Suc_eq split: if_splits\<close>)
  qed
qed

lemma get_semaphores_inv:
  "sem_inv s \<Longrightarrow> get_semaphores ks s = (is, s') \<Longrightarrow>
   sem_inv s' \<and> in_flight s \<subseteq>\<^sub>m in_flight s' \<and> tasks s' = tasks s \<and> mutex s' = mutex s \<and>
   map (in_flight s') ks = map Some is"
proof (induction ks arbitrary: s "is" s')
  case (Cons k ks)
  define s1 where "s1 = or_insert_semaphore k s"
  obtain js where js: "get_semaphores ks s1 = (js, s')" and "is": "is = the (in_flight s1 k) # js"
    using Cons.prems(2) by (auto simp: s1_def Let_def split: prod.splits)
  note k = or_insert_inv [OF Cons.prems(1), of k, folded s1_def]
  from Cons.IH [OF k(1) js] show ?case
    using k "is" by (auto simp: map_le_def dom_def)
qed simp

text \<open>Forgetting a semaphore that nobody has leaves every task linked that is not acquiring.\<close>

lemma linked_forget:
  assumes l: "linked m p" and "\<not> acquiring p" and k: "m k = Some i" and i: "i \<notin> set (owned p)"
  shows "linked (m(k := None)) p"
proof -
  have keep: "map (m(k := None)) ks = map Some is" if "map m ks = map Some is" "i \<notin> set is" for ks "is"
  proof -
    have "k \<notin> set ks"
    proof
      assume "k \<in> set ks"
      then have "Some i \<in> set (map m ks)" using k by force
      then show False using that by auto
    qed
    then show ?thesis using that(1) by (metis map_fun_upd)
  qed
  show ?thesis
  proof (cases p)
    case (Some q)
    then show ?thesis using assms keep by (cases q) (auto simp: linked_def)
  qed (simp add: linked_def)
qed

lemma cleanup_step_inv:
  assumes inv: "sem_inv s" and free: "mutex s = None"
    and k: "in_flight s k = Some i" "permits s i = PERMIT_NUM"
  shows "sem_inv (s\<lparr>in_flight := (in_flight s)(k := None)\<rparr>)"
proof -
  have nobody: "i \<notin> set (owned (tasks s t))" for t
    using sem_free [OF inv sem_bound [OF inv k(1)]] k(2) by (simp add: PERMIT_NUM_def)
  have idle: "\<not> acquiring (tasks s t)" for t
    using sem_mutex [OF inv, of t] free by simp
  show ?thesis
    unfolding sem_inv_def acquiring_iff
  proof (intro conjI allI impI)
    show "inj_on (in_flight (s\<lparr>in_flight := (in_flight s)(k := None)\<rparr>))
        (dom (in_flight (s\<lparr>in_flight := (in_flight s)(k := None)\<rparr>)))"
      using sem_inj [OF inv] by (auto simp: inj_on_def dom_def)
    fix t show "linked (in_flight (s\<lparr>in_flight := (in_flight s)(k := None)\<rparr>))
        (tasks (s\<lparr>in_flight := (in_flight s)(k := None)\<rparr>) t)"
      using linked_forget [OF sem_linked [OF inv] idle k(1) nobody] by simp
  qed (use sem_invD [OF inv] in \<open>auto split: if_splits\<close>)
qed

lemma cleanup_inv:
  "sem_inv s \<Longrightarrow> mutex s = None \<Longrightarrow>
   sem_inv (cleanup ks s) \<and> mutex (cleanup ks s) = None \<and> tasks (cleanup ks s) = tasks s"
proof (induction ks arbitrary: s)
  case (Cons k ks)
  define s1 where "s1 = (case in_flight s k of None \<Rightarrow> s
     | Some i \<Rightarrow> if permits s i = PERMIT_NUM
         then s\<lparr>in_flight := (in_flight s)(k := None)\<rparr> else s)"
  have "cleanup (k # ks) s = cleanup ks s1" by (simp add: cleanup_def s1_def)
  moreover have "sem_inv s1 \<and> mutex s1 = None \<and> tasks s1 = tasks s"
    using Cons.prems cleanup_step_inv [OF Cons.prems] by (auto simp: s1_def split: option.split)
  ultimately show ?case using Cons.IH [of s1] by simp
qed (simp add: cleanup_def)

section \<open>The invariant holds\<close>

lemma distinct_link:
  assumes inv: "sem_inv s" and m: "map (in_flight s) ks = map Some is" and "distinct ks"
  shows "distinct is"
proof -
  have "set ks \<subseteq> dom (in_flight s)"
  proof
    fix k assume "k \<in> set ks"
    then have "in_flight s k \<in> set (map Some is)" unfolding m [symmetric] by simp
    then show "k \<in> dom (in_flight s)" by auto
  qed
  then have "distinct (map (in_flight s) ks)"
    using inj_on_subset [OF sem_inj [OF inv]] assms(3) by (simp add: distinct_map)
  then show ?thesis unfolding m by (simp add: distinct_map)
qed

lemma internal_step_inv: "internal_step s s' \<Longrightarrow> sem_inv s \<Longrightarrow> sem_inv s'"
proof (induction rule: internal_step.induct)
  case (lock s t ks "is" s')
  note g = get_semaphores_inv [OF lock.prems lock.hyps(3)]
  have "linked (in_flight s) (tasks s t)" by (rule sem_linked [OF lock.prems])
  then have "linked (in_flight s') (Some (Acquiring ks is []))"
    using lock.hyps(1) g by (simp add: linked_def)
  moreover have "\<not> acquiring (tasks s u)" for u
    using sem_mutex [OF lock.prems, of u] lock.hyps(2) by simp
  ultimately show ?case
    using g lock.hyps(1) by (intro sem_inv_keep [where s = s']) auto
next
  case (permit s t ks i "is" held)
  note inv = permit.prems
  have l: "linked (in_flight s) (Some (Acquiring ks (i # is) held))"
    using sem_linked [OF inv, of t] permit.hyps(1) by simp
  then have dk: "distinct ks" and m: "map (in_flight s) ks = map Some (held @ i # is)"
    by (simp_all add: linked_def)
  have d: "distinct (held @ i # is)" by (rule distinct_link [OF inv m dk])
  have "Some i \<in> set (map (in_flight s) ks)" unfolding m by simp
  then have bound: "i < next_semaphore s" using sem_bound [OF inv] by auto
  have nobody: "i \<notin> set (owned (tasks s u))" for u
    using sem_free [OF inv bound] permit.hyps(2) by simp
  have held: "owned (tasks s t) = held" using permit.hyps(1) by simp
  show ?case
  proof (rule sem_inv_step [OF inv])
    show "linked (in_flight s) (Some (Acquiring ks is (held @ [i])))" using l by (simp add: linked_def)
    show "distinct (owned (Some (Acquiring ks is (held @ [i]))))" using d by simp
    show "j \<in> set (owned (Some (Acquiring ks is (held @ [i])))) \<Longrightarrow> j < next_semaphore s" for j
      using bound sem_owned [OF inv, of j t] held by auto
    show "u \<noteq> t \<Longrightarrow> set (owned (Some (Acquiring ks is (held @ [i])))) \<inter> set (owned (tasks s u)) = {}"
      for u using nobody [of u] sem_disjoint [OF inv, of t u] held by auto
    show "permits (s\<lparr>permits := (permits s)(i := permits s i - 1)\<rparr>) j =
        (if j \<in> set (owned (Some (Acquiring ks is (held @ [i])))) \<or>
            (\<exists>u. u \<noteq> t \<and> j \<in> set (owned (tasks s u))) then 0 else 1)" if "j < next_semaphore s" for j
      using sem_permits [OF inv that] sem_permits [OF inv bound] nobody
      by (auto simp: owner_split [of _ s t] held)
  qed (use sem_mutex [OF inv] permit.hyps(1) in auto)
next
  case (acquired s t ks held)
  note inv = acquired.prems
  have a: "acquiring (tasks s t)" using acquired.hyps by simp
  show ?case
  proof (rule sem_inv_keep [OF inv])
    show "linked (in_flight s) (Some (Holding ks held))"
      using sem_linked [OF inv, of t] acquired.hyps by (simp add: linked_def)
  qed (use acquired.hyps one_acquirer [OF inv a] in auto)
next
  case (release_one s t ks i held)
  note inv = release_one.prems
  have o: "owned (tasks s t) = i # held" using release_one.hyps by simp
  have i: "i < next_semaphore s" "i \<notin> set held" "distinct held"
    using sem_owned [OF inv, of i t] sem_distinct [OF inv, of t] o by auto
  have zero: "permits s i = 0" using sem_permits [OF inv i(1)] o by (metis list.set_intros(1))
  have others: "u \<noteq> t \<Longrightarrow> i \<notin> set (owned (tasks s u))" for u
    using sem_disjoint [OF inv, of t u] o by auto
  obtain gone rest where "ks = gone @ rest" "distinct ks" "map (in_flight s) rest = map Some (i # held)"
    using sem_linked [OF inv, of t] release_one.hyps by (auto simp: linked_def)
  then obtain k rest' where rest: "ks = (gone @ [k]) @ rest'" "map (in_flight s) rest' = map Some held"
    by (cases rest) auto
  show ?case
  proof (rule sem_inv_step [OF inv])
    show "linked (in_flight s) (Some (Releasing ks held))"
      using rest \<open>distinct ks\<close> by (auto simp: linked_def)
    show "permits (release i s) j = (if j \<in> set (owned (Some (Releasing ks held))) \<or>
        (\<exists>u. u \<noteq> t \<and> j \<in> set (owned (tasks s u))) then 0 else 1)" if "j < next_semaphore s" for j
    proof (cases "j = i")
      case True
      then show ?thesis using zero i(2) others by (auto simp: release_def)
    next
      case False
      then show ?thesis
        using sem_permits [OF inv that] by (simp add: release_def owner_split [of _ s t] o)
    qed
    show "j \<in> set (owned (Some (Releasing ks held))) \<Longrightarrow> j < next_semaphore s" for j
      using sem_owned [OF inv, of j t] o by simp
    show "u \<noteq> t \<Longrightarrow> set (owned (Some (Releasing ks held))) \<inter> set (owned (tasks s u)) = {}" for u
      using sem_disjoint [OF inv, of t u] o by auto
  qed (use i sem_mutex [OF inv] release_one.hyps in \<open>auto simp: release_def\<close>)
next
  case (released s t ks)
  note inv = released.prems
  show ?case
    by (rule sem_inv_keep [OF inv])
      (use released.hyps sem_mutex [OF inv] in \<open>auto simp: linked_def\<close>)
next
  case (clean s t ks)
  note c = cleanup_inv [OF clean.prems clean.hyps(2), of ks]
  then have inv: "sem_inv (cleanup ks s)" by simp
  show ?case
    by (rule sem_inv_keep [OF inv])
      (use clean.hyps c sem_mutex [OF inv] in \<open>auto simp: linked_def\<close>)
qed

lemma drop_step_inv: "drop_step s s' \<Longrightarrow> sem_inv s \<Longrightarrow> sem_inv s'"
proof (induction rule: drop_step.induct)
  case (1 s t ks held)
  have "ks = [] @ ks \<and> distinct ks \<and> map (in_flight s) ks = map Some held"
    using sem_linked [OF 1(2), of t] 1(1) by (simp add: linked_def)
  then have "linked (in_flight s) (Some (Releasing ks held))"
    unfolding linked_def option.case phase.case by blast
  then show ?case
    by (intro sem_inv_keep [OF 1(2)])
      (use 1 sem_mutex [OF 1(2)] in auto)
qed

lemma spawn_step_inv: "spawn_step s s' \<Longrightarrow> sem_inv s \<Longrightarrow> sem_inv s'"
proof (induction rule: spawn_step.induct)
  case (1 s t ks)
  then show ?case
    by (intro sem_inv_keep [OF 1(3)])
      (use sem_mutex [OF 1(3)] in \<open>auto simp: linked_def bts_ok_distinct\<close>)
qed

lemma release_all:
  "distinct held \<Longrightarrow>
   permits (foldl (\<lambda>s i. release i s) s held) j =
     (if j \<in> set held then Suc (permits s j) else permits s j)"
  "in_flight (foldl (\<lambda>s i. release i s) s held) = in_flight s"
  "next_semaphore (foldl (\<lambda>s i. release i s) s held) = next_semaphore s"
  "tasks (foldl (\<lambda>s i. release i s) s held) = tasks s"
  by (induction held arbitrary: s) (auto simp: release_def)

lemma cancel_step_inv: "cancel_step s s' \<Longrightarrow> sem_inv s \<Longrightarrow> sem_inv s'"
proof (induction rule: cancel_step.induct)
  case (1 s t ks)
  then show ?case
    by (intro sem_inv_keep [OF 1(2)])
      (use sem_mutex [OF 1(2)] in \<open>auto simp: linked_def\<close>)
next
  case (2 s t ks "is" held)
  note inv = 2(2)
  have o: "owned (tasks s t) = held" using 2(1) by simp
  have d: "distinct held" using sem_distinct [OF inv, of t] o by simp
  have a: "acquiring (tasks s t)" using 2(1) by simp
  show ?case
  proof (rule sem_inv_step [OF inv])
    fix i assume i: "i < next_semaphore s"
    have "i \<in> set held \<Longrightarrow> u \<noteq> t \<Longrightarrow> i \<notin> set (owned (tasks s u))" for u
      using sem_disjoint [OF inv, of t u] o by auto
    then show "permits ((foldl (\<lambda>s i. release i s) s held)\<lparr>mutex := None\<rparr>) i =
        (if i \<in> set (owned (Some Finished)) \<or> (\<exists>u. u \<noteq> t \<and> i \<in> set (owned (tasks s u)))
         then 0 else 1)"
      using sem_permits [OF inv i] by (auto simp: owner_split [of _ s t] o release_all(1) [OF d])
  qed (use one_acquirer [OF inv a] in \<open>auto simp: linked_def release_all(2-4)\<close>)
qed

lemma sem_reachable_inv: "sem_reachable c s \<Longrightarrow> sem_inv s"
proof (induction rule: sem_reachable.induct)
  case 1
  show ?case by (simp add: sem_inv_def gossip_semaphore_new_def linked_def)
next
  case (2 s s')
  then show ?case by (auto elim!: progress.cases intro: internal_step_inv drop_step_inv)
qed (auto intro: spawn_step_inv cancel_step_inv)

end
