(* ===== verification/Gossip_Locking.thy ===== *)
theory Gossip_Locking
  imports Gossip_Semaphore Nostr_Reference
begin

text \<open>
  What the lock of the gossip updates guarantees: two guards never share a key, waiting for a
  permit is only ever waiting for a guard, every run comes to an end with all calls finished, and
  the map of semaphores is then empty if no call was cancelled.
\<close>

section \<open>Waiting\<close>

lemma owned_cases:
  assumes "i \<in> set (owned p)" and "\<not> acquiring p"
  obtains ks hs where "p = Some (Holding ks hs) \<or> p = Some (Releasing ks hs)" and "i \<in> set hs"
proof (cases p)
  case (Some q)
  then show thesis using assms that by (cases q) auto
qed (use assms in simp)

lemma acquirer_moves:
  assumes inv: "sem_inv s" and p: "tasks s t = Some (Acquiring ks is held)"
  shows "(\<exists>s'. internal_step s s') \<or> (\<exists>u ks is. tasks s u = Some (Holding ks is))"
proof (cases "is")
  case Nil
  then show ?thesis using internal_step.acquired p by blast
next
  case (Cons i js)
  have l: "distinct ks" "map (in_flight s) ks = map Some (held @ i # js)"
    using sem_linked [OF inv, of t] p Cons by (simp_all add: linked_def)
  then have i: "i \<notin> set held" using distinct_link [OF inv l(2,1)] by simp
  have "Some i \<in> set (map (in_flight s) ks)" unfolding l(2) by simp
  then have bound: "i < next_semaphore s" using sem_bound [OF inv] by auto
  show ?thesis
  proof (cases "0 < permits s i")
    case True
    then show ?thesis using internal_step.permit p Cons by blast
  next
    case False
    then obtain u where u: "i \<in> set (owned (tasks s u))"
      using sem_permits [OF inv bound] by (metis less_numeral_extra(1))
    have "u \<noteq> t" using u i p by auto
    then have "\<not> acquiring (tasks s u)" using one_acquirer [OF inv, of t u] p by simp
    then obtain ls hs where "tasks s u = Some (Holding ls hs) \<or> tasks s u = Some (Releasing ls hs)"
      and "i \<in> set hs"
      using owned_cases [OF u] by metis
    then show ?thesis using internal_step.release_one by (cases hs) (simp, blast)
  qed
qed

lemma mutex_moves:
  assumes inv: "sem_inv s" and m: "mutex s = Some t"
  shows "(\<exists>s'. internal_step s s') \<or> (\<exists>u ks is. tasks s u = Some (Holding ks is))"
proof -
  have "acquiring (tasks s t)" using sem_mutex [OF inv, of t] m by simp
  then obtain ks "is" held where "tasks s t = Some (Acquiring ks is held)"
    by (auto simp: acquiring_def split: option.splits phase.splits)
  then show ?thesis by (rule acquirer_moves [OF inv])
qed

lemma unfinished_moves:
  assumes inv: "sem_inv s" and p: "tasks s t = Some p" "p \<noteq> Finished"
  shows "(\<exists>s'. internal_step s s') \<or> (\<exists>u ks is. tasks s u = Some (Holding ks is))"
proof (cases p)
  case (Waiting ks)
  then show ?thesis
    using p mutex_moves [OF inv] internal_step.lock by (cases "mutex s") (metis surj_pair)+
next
  case (Acquiring ks "is" held)
  then show ?thesis using p acquirer_moves [OF inv] by simp
next
  case (Holding ks "is")
  then show ?thesis using p by auto
next
  case (Releasing ks held)
  then show ?thesis
    using p internal_step.release_one internal_step.released by (cases held) blast+
next
  case (Cleaning ks)
  then show ?thesis using p mutex_moves [OF inv] internal_step.clean by (cases "mutex s") blast+
qed (use p in simp)

section \<open>Runs end\<close>

text \<open>The steps a call still has to take.\<close>

definition work_of :: "phase option \<Rightarrow> nat" where
  "work_of p =
     (case p of
        Some (Waiting ks) \<Rightarrow> 2 * length ks + 5
      | Some (Acquiring ks is held) \<Rightarrow> 2 * length is + length held + 4
      | Some (Holding ks held) \<Rightarrow> length held + 3
      | Some (Releasing ks held) \<Rightarrow> length held + 2
      | Some (Cleaning ks) \<Rightarrow> 1
      | _ \<Rightarrow> 0)"

definition work :: "semaphores \<Rightarrow> nat" where
  "work s = (\<Sum>t \<in> dom (tasks s). work_of (tasks s t))"

lemma work_of_simps [simp]:
  "work_of (Some (Waiting ks)) = 2 * length ks + 5"
  "work_of (Some (Acquiring ks is held)) = 2 * length is + length held + 4"
  "work_of (Some (Holding ks held)) = length held + 3"
  "work_of (Some (Releasing ks held)) = length held + 2"
  "work_of (Some (Cleaning ks)) = 1"
  "work_of (Some Finished) = 0"
  by (simp_all add: work_of_def)

lemma work_step:
  assumes "finite (dom (tasks s))" and "tasks s' = tasks s" and "tasks s t = Some p"
    and "work_of (Some q) < work_of (Some p)"
  shows "work (set_phase t q s') < work s" and "dom (tasks (set_phase t q s')) = dom (tasks s)"
proof -
  show dom: "dom (tasks (set_phase t q s')) = dom (tasks s)"
    using assms(2,3) by (auto simp: set_phase_def)
  have t: "t \<in> dom (tasks s)" using assms(3) by auto
  have "work s = work_of (Some p) + (\<Sum>u \<in> dom (tasks s) - {t}. work_of (tasks s u))"
    unfolding work_def sum.remove [OF assms(1) t] by (simp add: assms(3))
  moreover have "work (set_phase t q s') =
      work_of (Some q) + (\<Sum>u \<in> dom (tasks s) - {t}. work_of (tasks s u))"
    unfolding work_def dom sum.remove [OF assms(1) t]
    by (intro arg_cong2 [where f = "(+)"] sum.cong) (auto simp: assms(2))
  ultimately show "work (set_phase t q s') < work s" using assms(4) by simp
qed

lemma get_semaphores_length: "get_semaphores ks s = (is, s') \<Longrightarrow> length is = length ks"
  by (induction ks arbitrary: s "is" s') (auto simp: Let_def split: prod.splits)

lemma progress_work:
  assumes "progress s s'" and "sem_inv s" and "finite (dom (tasks s))"
  shows "work s' < work s \<and> dom (tasks s') = dom (tasks s)"
  using assms(1)
proof (cases rule: progress.cases)
  case 1
  from 1(1) show ?thesis
  proof (cases rule: internal_step.cases)
    case (lock t ks "is" s1)
    then show ?thesis
      using work_step [OF assms(3) _ lock(2), of "s1\<lparr>mutex := Some t\<rparr>" "Acquiring ks is []"]
        get_semaphores_inv [OF assms(2) lock(4)] get_semaphores_length [OF lock(4)] by simp
  next
    case (permit t ks i "is" held)
    then show ?thesis using work_step [OF assms(3) _ permit(2)] by simp
  next
    case (acquired t ks held)
    then show ?thesis using work_step [OF assms(3) _ acquired(2)] by simp
  next
    case (release_one t ks i held)
    then show ?thesis using work_step [OF assms(3) _ release_one(2)] by (simp add: release_def)
  next
    case (released t ks)
    then show ?thesis using work_step [OF assms(3) _ released(2)] by simp
  next
    case (clean t ks)
    then show ?thesis
      using work_step [OF assms(3) _ clean(2)] cleanup_inv [OF assms(2) clean(3)] by simp
  qed
next
  case 2
  from 2(1) show ?thesis
  proof (cases rule: drop_step.cases)
    case (1 t ks held)
    then show ?thesis using work_step [OF assms(3) _ 1(2)] by simp
  qed
qed

lemma dom_set_phase: "dom (tasks (set_phase t p s)) = insert t (dom (tasks s))"
  by (auto simp: set_phase_def)

lemma tasks_finite: "sem_reachable c s \<Longrightarrow> finite (dom (tasks s))"
proof (induction rule: sem_reachable.induct)
  case (2 s s')
  then show ?case using progress_work sem_reachable_inv by metis
next
  case (3 s s')
  then show ?case by (auto elim!: spawn_step.cases simp only: dom_set_phase finite_insert)
next
  case (4 s s')
  from 4(3) show ?case
  proof (cases rule: cancel_step.cases)
    case (1 t ks)
    then show ?thesis using 4 by (simp only: dom_set_phase finite_insert)
  next
    case (2 t ks "is" held)
    then have "distinct held" using sem_distinct [OF sem_reachable_inv [OF 4(2)], of t] by simp
    then have "tasks ((foldl (\<lambda>s i. release i s) s held)\<lparr>mutex := None\<rparr>) = tasks s"
      by (simp add: release_all)
    then show ?thesis using 4(4) unfolding 2(1) dom_set_phase by simp
  qed
qed (simp add: gossip_semaphore_new_def)

lemma run_work:
  "(progress ^^ n) s s' \<Longrightarrow> sem_reachable c s \<Longrightarrow> sem_reachable c s' \<and> n + work s' \<le> work s"
proof (induction n arbitrary: s')
  case (Suc n)
  then obtain r where r: "(progress ^^ n) s r" and last: "progress r s'" by auto
  from Suc.IH [OF r Suc.prems(2)] have reach: "sem_reachable c r" and le: "n + work r \<le> work s"
    by simp_all
  have "work s' < work r"
    using progress_work [OF last sem_reachable_inv [OF reach] tasks_finite [OF reach]] by simp
  then show ?case using le reach last by (auto intro: sem_reachable.intros(2))
qed simp

section \<open>Memory\<close>

text \<open>The keys whose semaphores a call will still look at in its clean-up.\<close>

definition pending :: "phase option \<Rightarrow> public_key list" where
  "pending p =
     (case p of
        Some (Acquiring ks is held) \<Rightarrow> ks
      | Some (Holding ks held) \<Rightarrow> ks
      | Some (Releasing ks held) \<Rightarrow> ks
      | Some (Cleaning ks) \<Rightarrow> ks
      | _ \<Rightarrow> [])"

lemma pending_simps [simp]:
  "pending None = []"
  "pending (Some (Waiting ks)) = []"
  "pending (Some (Acquiring ks is held)) = ks"
  "pending (Some (Holding ks held)) = ks"
  "pending (Some (Releasing ks held)) = ks"
  "pending (Some (Cleaning ks)) = ks"
  "pending (Some Finished) = []"
  by (simp_all add: pending_def)

definition tidy :: "semaphores \<Rightarrow> bool" where
  "tidy s \<longleftrightarrow> (\<forall>k \<in> dom (in_flight s). \<exists>t. k \<in> set (pending (tasks s t)))"

lemma tidy_step:
  assumes "tidy s" and "in_flight s' = in_flight s" and "tasks s' = tasks s"
    and "set (pending (tasks s t)) \<subseteq> set (pending (Some p))"
  shows "tidy (set_phase t p s')"
  unfolding tidy_def
proof
  fix k assume "k \<in> dom (in_flight (set_phase t p s'))"
  then obtain u where "k \<in> set (pending (tasks s u))" using assms(1,2) by (auto simp: tidy_def)
  then show "\<exists>u. k \<in> set (pending (tasks (set_phase t p s') u))"
    using assms(3,4) by (intro exI [of _ u]) auto
qed

lemma get_semaphores_dom:
  "get_semaphores ks s = (is, s') \<Longrightarrow> dom (in_flight s') = dom (in_flight s) \<union> set ks"
proof (induction ks arbitrary: s "is")
  case (Cons k ks)
  then have "dom (in_flight s') = dom (in_flight (or_insert_semaphore k s)) \<union> set ks"
    by (auto simp: Let_def split: prod.splits)
  moreover have "dom (in_flight (or_insert_semaphore k s)) = insert k (dom (in_flight s))"
    by (auto simp: or_insert_semaphore_def split: option.split)
  ultimately show ?case by simp
qed simp

lemma cleanup_simps:
  "permits (cleanup ks s) = permits s"
  "in_flight (cleanup ks s) k =
     (if k \<in> set ks \<and> (\<exists>i. in_flight s k = Some i \<and> permits s i = PERMIT_NUM)
      then None else in_flight s k)"
  by (induction ks arbitrary: s) (auto simp: cleanup_def split: option.split)

lemma linked_rest:
  assumes "linked m p" and "p = Some (Holding ls hs) \<or> p = Some (Releasing ls hs)"
  shows "\<exists>rest. set rest \<subseteq> set ls \<and> map m rest = map Some hs"
  using assms(2)
proof
  assume "p = Some (Holding ls hs)"
  then show ?thesis using assms(1) by (intro exI [of _ ls]) (simp add: linked_def)
next
  assume "p = Some (Releasing ls hs)"
  then obtain gone rest where "ls = gone @ rest" "map m rest = map Some hs"
    using assms(1) by (auto simp: linked_def)
  then show ?thesis by (intro exI [of _ rest]) simp
qed

lemma clean_tidy:
  assumes inv: "sem_inv s" and t: "tasks s t = Some (Cleaning ks)" and free: "mutex s = None"
    and "tidy s"
  shows "tidy (set_phase t Finished (cleanup ks s))"
  unfolding tidy_def
proof
  fix k assume "k \<in> dom (in_flight (set_phase t Finished (cleanup ks s)))"
  then obtain i where c: "in_flight (cleanup ks s) k = Some i" by auto
  then have i: "in_flight s k = Some i" and keep: "k \<notin> set ks \<or> permits s i \<noteq> PERMIT_NUM"
    by (auto simp: cleanup_simps split: if_splits)
  have "\<exists>u. u \<noteq> t \<and> k \<in> set (pending (tasks s u))"
  proof (cases "k \<in> set ks")
    case False
    obtain u where "k \<in> set (pending (tasks s u))" using \<open>tidy s\<close> i by (auto simp: tidy_def)
    then show ?thesis using False t by (intro exI [of _ u]) auto
  next
    case True
    then obtain u where u: "i \<in> set (owned (tasks s u))"
      using keep sem_permits [OF inv sem_bound [OF inv i]] by (metis PERMIT_NUM_def)
    moreover have idle: "\<not> acquiring (tasks s u)" using sem_mutex [OF inv, of u] free by simp
    ultimately obtain ls hs where ls: "tasks s u = Some (Holding ls hs) \<or>
        tasks s u = Some (Releasing ls hs)" and "i \<in> set hs"
      using owned_cases by metis
    obtain rest where rest: "set rest \<subseteq> set ls" "map (in_flight s) rest = map Some hs"
      using linked_rest [OF sem_linked [OF inv, of u] ls] by blast
    have "Some i \<in> set (map (in_flight s) rest)" unfolding rest(2) using \<open>i \<in> set hs\<close> by simp
    then obtain l where l: "l \<in> set rest" "in_flight s l = Some i" by auto
    then have "l = k" using i sem_inj [OF inv] by (auto simp: inj_on_def dom_def)
    then have "k \<in> set (pending (tasks s u))" using l rest(1) ls by auto
    moreover have "u \<noteq> t" using u t by auto
    ultimately show ?thesis by blast
  qed
  then obtain u where "u \<noteq> t" "k \<in> set (pending (tasks s u))" by blast
  then show "\<exists>u. k \<in> set (pending (tasks (set_phase t Finished (cleanup ks s)) u))"
    using cleanup_inv [OF inv free, of ks] by (intro exI [of _ u]) simp
qed

lemma progress_tidy:
  assumes "progress s s'" and inv: "sem_inv s" and tidy: "tidy s"
  shows "tidy s'"
  using assms(1)
proof (cases rule: progress.cases)
  case 1
  from 1(1) show ?thesis
  proof (cases rule: internal_step.cases)
    case (lock t ks "is" s1)
    have dom: "dom (in_flight s1) = dom (in_flight s) \<union> set ks" by (rule get_semaphores_dom [OF lock(4)])
    have tasks: "tasks s1 = tasks s" using get_semaphores_inv [OF inv lock(4)] by simp
    show ?thesis
      unfolding tidy_def
    proof
      fix k assume "k \<in> dom (in_flight s')"
      then consider "k \<in> dom (in_flight s)" | "k \<in> set ks" using dom lock(1) by auto
      then show "\<exists>u. k \<in> set (pending (tasks s' u))"
      proof cases
        case 1
        then obtain u where u: "k \<in> set (pending (tasks s u))" using tidy by (auto simp: tidy_def)
        then have "u \<noteq> t" using lock(2) by auto
        with u show ?thesis by (intro exI [of _ u]) (simp add: lock(1) tasks)
      next
        case 2
        then show ?thesis by (intro exI [of _ t]) (simp add: lock(1))
      qed
    qed
  next
    case (clean t ks)
    then show ?thesis using clean_tidy [OF inv clean(2,3) tidy] by simp
  qed (use tidy in \<open>auto intro!: tidy_step simp: release_def\<close>)
next
  case 2
  from 2(1) show ?thesis
    by (cases rule: drop_step.cases) (use tidy in \<open>auto intro!: tidy_step\<close>)
qed

lemma reachable_tidy: "sem_reachable c s \<Longrightarrow> \<not> c \<Longrightarrow> tidy s"
proof (induction rule: sem_reachable.induct)
  case (2 s s')
  then show ?case using progress_tidy sem_reachable_inv by blast
next
  case (3 s s')
  then show ?case by (auto elim!: spawn_step.cases intro!: tidy_step)
qed (simp_all add: tidy_def gossip_semaphore_new_def)

section \<open>A call that finds its key free\<close>

lemma call_steps:
  assumes s: "sem_reachable c s" "mutex s = None" "tasks s t = None" "in_flight s k = None"
  shows "\<exists>s'. sem_reachable c s' \<and> mutex s' = Some t \<and>
    tasks s' = (tasks s)(t \<mapsto> Acquiring [k] [next_semaphore s] []) \<and>
    permits s' (next_semaphore s) = 1 \<and> in_flight s' = (in_flight s)(k \<mapsto> next_semaphore s)"
proof -
  define a where "a = set_phase t (Waiting [k]) s"
  have a: "sem_reachable c a"
    unfolding a_def by (rule sem_reachable.intros(3) [OF s(1)], rule spawn_step.intros) (simp_all add: s)
  define b where "b = or_insert_semaphore k a"
  have g: "get_semaphores [k] a = ([next_semaphore s], b)"
    by (simp add: b_def a_def or_insert_semaphore_def s)
  define d where "d = set_phase t (Acquiring [k] [next_semaphore s] []) (b\<lparr>mutex := Some t\<rparr>)"
  have "sem_reachable c d"
    unfolding d_def
    by (rule sem_reachable.intros(2) [OF a], rule progress.intros(1), rule internal_step.lock [OF _ _ g])
      (simp_all add: a_def s)
  then show ?thesis
    by (intro exI [of _ d])
      (simp add: d_def b_def a_def or_insert_semaphore_def s set_phase_def PERMIT_NUM_def)
qed

lemma call_fresh:
  assumes "sem_reachable c s" "mutex s = None" "tasks s t = None" "in_flight s k = None"
  shows "\<exists>s'. sem_reachable c s' \<and> mutex s' = None \<and>
    tasks s' = (tasks s)(t \<mapsto> Holding [k] [next_semaphore s]) \<and>
    in_flight s' = (in_flight s)(k \<mapsto> next_semaphore s)"
proof -
  from call_steps [OF assms] obtain a where a: "sem_reachable c a" "mutex a = Some t"
    "tasks a = (tasks s)(t \<mapsto> Acquiring [k] [next_semaphore s] [])"
    "permits a (next_semaphore s) = 1" "in_flight a = (in_flight s)(k \<mapsto> next_semaphore s)"
    by blast
  define b where "b = set_phase t (Acquiring [k] [] ([] @ [next_semaphore s]))
    (a\<lparr>permits := (permits a)(next_semaphore s := permits a (next_semaphore s) - 1)\<rparr>)"
  have b: "sem_reachable c b"
    unfolding b_def
    by (rule sem_reachable.intros(2) [OF a(1)], rule progress.intros(1), rule internal_step.permit)
      (simp_all add: a)
  define d where "d = set_phase t (Holding [k] [next_semaphore s]) (b\<lparr>mutex := None\<rparr>)"
  have "sem_reachable c d"
    unfolding d_def
    by (rule sem_reachable.intros(2) [OF b], rule progress.intros(1), rule internal_step.acquired)
      (simp add: b_def)
  then show ?thesis
    by (intro exI [of _ d]) (simp add: d_def b_def a set_phase_def)
qed

section \<open>Properties\<close>

text \<open>
  C15: Two guards that are held at the same time have no key in common, although the map forgets
  semaphores while calls come and go and calls may be cancelled.
\<close>

theorem semaphore_exclusive:
  assumes "sem_reachable c s" and "t \<noteq> u"
    and "tasks s t = Some (Holding ks is)" and "tasks s u = Some (Holding ls js)"
  shows "set ks \<inter> set ls = {}"
proof -
  have inv: "sem_inv s" by (rule sem_reachable_inv [OF assms(1)])
  have link: "map (in_flight s) ks = map Some is" "map (in_flight s) ls = map Some js"
    using sem_linked [OF inv, of t] sem_linked [OF inv, of u] assms(3,4)
    by (simp_all add: linked_def)
  have own: "in_flight s k \<in> Some ` set is" if "k \<in> set ks" for k
    using that link(1) by (metis image_eqI image_set)
  have own': "in_flight s k \<in> Some ` set js" if "k \<in> set ls" for k
    using that link(2) by (metis image_eqI image_set)
  have "set is \<inter> set js = {}" using sem_disjoint [OF inv assms(2)] assms(3,4) by simp
  then show ?thesis using own own' by fastforce
qed

lemma semaphore_exclusive_witness:
  "\<exists>s i. sem_reachable False s \<and> tasks s 0 = Some (Holding [ref_pk 1] [0]) \<and>
     tasks s 1 = Some (Holding [ref_pk 2] [i]) \<and> set [ref_pk 1] \<inter> set [ref_pk 2] = {}"
proof -
  have "sem_reachable False gossip_semaphore_new" by (rule sem_reachable.intros(1))
  then obtain a where a: "sem_reachable False a" "mutex a = None"
    "tasks a = Map.empty(0 \<mapsto> Holding [ref_pk 1] [0])" "in_flight a = Map.empty(ref_pk 1 \<mapsto> 0)"
    using call_fresh [of False gossip_semaphore_new 0 "ref_pk 1"]
    by (auto simp: gossip_semaphore_new_def)
  then obtain b where b: "sem_reachable False b"
    "tasks b = [0 \<mapsto> Holding [ref_pk 1] [0], 1 \<mapsto> Holding [ref_pk 2] [next_semaphore a]]"
    using call_fresh [of False a 1 "ref_pk 2"] by auto
  have "set [ref_pk 1] \<inter> set [ref_pk 2] = {}"
    by (rule semaphore_exclusive [OF b(1), of 0 1]) (simp_all add: b(2))
  with b show ?thesis by (intro exI [of _ b] exI [of _ "next_semaphore a"]) simp
qed

text \<open>
  C16: No deadlock: whatever the keys of the calls and their interleaving, every run of the calls
  that are there is at most as long as their remaining work, and can only end when all of them are
  finished. Before that some call can take a step of its own or some caller holds a guard.
\<close>

theorem semaphore_runs_complete:
  assumes "sem_reachable c s" and "(progress ^^ n) s s'"
  shows "n \<le> work s \<and>
    (ran (tasks s') \<subseteq> {Finished} \<or> (\<exists>r. internal_step s' r) \<or>
     (\<exists>u ks is r. tasks s' u = Some (Holding ks is) \<and> drop_step s' r))"
proof -
  have s': "sem_reachable c s'" "n + work s' \<le> work s" using run_work [OF assms(2,1)] by simp_all
  have "(\<exists>r. internal_step s' r) \<or> (\<exists>u ks is r. tasks s' u = Some (Holding ks is) \<and> drop_step s' r)"
    if "p \<in> ran (tasks s')" "p \<noteq> Finished" for p
  proof -
    obtain t where "tasks s' t = Some p" using \<open>p \<in> ran (tasks s')\<close> by (auto simp: ran_def)
    from unfinished_moves [OF sem_reachable_inv [OF s'(1)] this \<open>p \<noteq> Finished\<close>]
    show ?thesis using drop_step.intros by blast
  qed
  then show ?thesis using s'(2) by auto
qed

lemma semaphore_runs_complete_witness:
  "\<exists>s. sem_reachable False s \<and> work s = 6 \<and> ((\<exists>r. internal_step s r) \<or>
     (\<exists>u ks is r. tasks s u = Some (Holding ks is) \<and> drop_step s r))"
proof -
  have "sem_reachable False gossip_semaphore_new" by (rule sem_reachable.intros(1))
  then obtain a where a: "sem_reachable False a" "tasks a = [0 \<mapsto> Acquiring [ref_pk 1] [0] []]"
    using call_steps [of False gossip_semaphore_new 0 "ref_pk 1"]
    by (auto simp: gossip_semaphore_new_def)
  have "work a = 6" by (simp add: work_def a(2))
  moreover have "\<not> ran (tasks a) \<subseteq> {Finished}" by (simp add: a(2))
  ultimately show ?thesis
    using semaphore_runs_complete [OF a(1), of 0 a] a(1) by auto
qed

text \<open>
  When all calls are finished and none was cancelled, the map of semaphores is empty; a
  cancelled call can leave semaphores in it that nothing removes.
\<close>

lemma semaphore_memory:
  assumes "sem_reachable False s" and "ran (tasks s) \<subseteq> {Finished}"
  shows "in_flight s = Map.empty \<and>
    (\<exists>r. sem_reachable True r \<and> ran (tasks r) = {Finished} \<and> in_flight r \<noteq> Map.empty)"
proof
  have "pending (tasks s t) = []" for t
    using assms(2) by (cases "tasks s t") (auto simp: ran_def)
  then show "in_flight s = Map.empty"
    using reachable_tidy [OF assms(1)] by (auto simp: tidy_def)
  have "sem_reachable True gossip_semaphore_new" by (rule sem_reachable.intros(1))
  then obtain a where a: "sem_reachable True a"
    "tasks a = [0 \<mapsto> Acquiring [ref_pk 1] [0] []]" "in_flight a = [ref_pk 1 \<mapsto> 0]"
    using call_steps [of True gossip_semaphore_new 0 "ref_pk 1"]
    by (auto simp: gossip_semaphore_new_def)
  define r where "r = set_phase 0 Finished ((foldl (\<lambda>s i. release i s) a [])\<lparr>mutex := None\<rparr>)"
  have "sem_reachable True r"
    unfolding r_def by (rule sem_reachable.intros(4) [OF _ a(1)], simp, rule cancel_step.intros(2))
      (simp add: a(2))
  moreover have "ran (tasks r) = {Finished}" by (simp add: r_def set_phase_def a(2))
  moreover have "in_flight r \<noteq> Map.empty" by (simp add: r_def a(3))
  ultimately show "\<exists>r. sem_reachable True r \<and> ran (tasks r) = {Finished} \<and> in_flight r \<noteq> Map.empty"
    by blast
qed

lemma semaphore_memory_witness: "in_flight gossip_semaphore_new = Map.empty"
  using semaphore_memory [OF sem_reachable.intros(1)] by (simp add: gossip_semaphore_new_def)

end
