(* ===== verification/Client_Status.thy ===== *)
theory Client_Status
  imports Relay_Messages Relay_Session
begin

text \<open>
  The parts of a relay connection of the client without behaviour of their own
  (nostr-sdk/src/relay: status.rs, capabilities.rs, stats.rs, limits.rs, ping.rs, constants.rs,
  options.rs, notification.rs; nostr-sdk/src/error.rs and policy.rs).

  Counters are \<open>AtomicUsize\<close> and \<open>AtomicU64\<close> values with the wrap-around of \<open>fetch_add\<close>. A
  \<open>Duration\<close> is its number of nanoseconds.
\<close>

unbundle bit_operations_syntax

section \<open>Errors\<close>

datatype sdk_kind =
    KProtocol | KIO | KTransport | KDatabase | KGossip | KPolicy | KTimeout | KNotFound | KInvalid
  | KState | KRejected | KUnsupported | KLimitExceeded | KOther

text \<open>An error is its kind and the text it shows.\<close>

datatype sdk_error = SdkError (sdk_kind: sdk_kind) string

definition err_timeout :: sdk_error where "err_timeout = SdkError KTimeout ''timeout''"
definition err_not_connected :: sdk_error where
  "err_not_connected = SdkError KState ''relay not connected''"
definition err_shutdown :: sdk_error where "err_shutdown = SdkError KState ''shutdown''"
definition err_not_ready :: sdk_error where
  "err_not_ready = SdkError KState ''relay is initialized but not ready''"
definition err_banned :: sdk_error where "err_banned = SdkError KState ''relay banned''"
definition err_sleeping :: sdk_error where "err_sleeping = SdkError KState ''relay is sleeping''"
definition err_read_disabled :: sdk_error where
  "err_read_disabled = SdkError KUnsupported ''read actions are disabled''"
definition err_write_disabled :: sdk_error where
  "err_write_disabled = SdkError KUnsupported ''write actions are disabled''"

definition err_connection_rejected :: "string option \<Rightarrow> sdk_error" where
  "err_connection_rejected r =
     SdkError KRejected
       (case r of Some t \<Rightarrow> ''connection rejected: reason='' @ t | None \<Rightarrow> ''connection rejected'')"

section \<open>Status\<close>

datatype relay_status =
  Initialized | Connecting | Connected | Disconnected | Idle | Banned | Sleeping | Shutdown

definition is_initialized :: "relay_status \<Rightarrow> bool" where "is_initialized s \<longleftrightarrow> s = Initialized"
definition is_connected :: "relay_status \<Rightarrow> bool" where "is_connected s \<longleftrightarrow> s = Connected"
definition is_disconnected :: "relay_status \<Rightarrow> bool" where "is_disconnected s \<longleftrightarrow> s = Disconnected"
definition is_idle :: "relay_status \<Rightarrow> bool" where "is_idle s \<longleftrightarrow> s = Idle"
definition is_banned :: "relay_status \<Rightarrow> bool" where "is_banned s \<longleftrightarrow> s = Banned"
definition is_sleeping :: "relay_status \<Rightarrow> bool" where "is_sleeping s \<longleftrightarrow> s = Sleeping"
definition is_shutdown :: "relay_status \<Rightarrow> bool" where "is_shutdown s \<longleftrightarrow> s = Shutdown"

definition can_connect :: "relay_status \<Rightarrow> bool" where
  "can_connect s \<longleftrightarrow> s = Initialized \<or> s = Idle \<or> s = Sleeping"

definition is_connection_closed :: "relay_status \<Rightarrow> bool" where
  "is_connection_closed s \<longleftrightarrow>
     s = Disconnected \<or> s = Idle \<or> s = Banned \<or> s = Sleeping \<or> s = Shutdown"

definition is_terminal :: "relay_status \<Rightarrow> bool" where
  "is_terminal s \<longleftrightarrow> s = Banned \<or> s = Shutdown"

lemmas status_defs = is_initialized_def is_connected_def is_disconnected_def is_idle_def
  is_banned_def is_sleeping_def is_shutdown_def can_connect_def is_connection_closed_def
  is_terminal_def

section \<open>Capabilities\<close>

type_synonym relay_capabilities = u64

definition CAP_NONE :: relay_capabilities where "CAP_NONE = 0"
definition CAP_READ :: relay_capabilities where "CAP_READ = push_bit 0 1"
definition CAP_WRITE :: relay_capabilities where "CAP_WRITE = push_bit 1 1"
definition CAP_GOSSIP :: relay_capabilities where "CAP_GOSSIP = push_bit 2 1"
definition CAP_DISCOVERY :: relay_capabilities where "CAP_DISCOVERY = push_bit 3 1"

definition caps_has_any :: "relay_capabilities \<Rightarrow> relay_capabilities \<Rightarrow> bool" where
  "caps_has_any c d \<longleftrightarrow> c AND d \<noteq> 0"

definition caps_has_all :: "relay_capabilities \<Rightarrow> relay_capabilities \<Rightarrow> bool" where
  "caps_has_all c d \<longleftrightarrow> c AND d = d"

definition caps_add :: "relay_capabilities \<Rightarrow> relay_capabilities \<Rightarrow> relay_capabilities" where
  "caps_add c d = c OR d"

definition caps_remove :: "relay_capabilities \<Rightarrow> relay_capabilities \<Rightarrow> relay_capabilities" where
  "caps_remove c d = c AND (NOT d)"

definition can_read :: "relay_capabilities \<Rightarrow> bool" where
  "can_read c \<longleftrightarrow> caps_has_any c (caps_add (caps_add CAP_READ CAP_GOSSIP) CAP_DISCOVERY)"

definition can_write :: "relay_capabilities \<Rightarrow> bool" where
  "can_write c \<longleftrightarrow> caps_has_any c (caps_add CAP_WRITE CAP_GOSSIP)"

definition default_capabilities :: relay_capabilities where
  "default_capabilities = caps_add CAP_READ CAP_WRITE"

lemmas caps_defs = caps_has_any_def caps_has_all_def caps_add_def caps_remove_def
  CAP_NONE_def CAP_READ_def CAP_WRITE_def CAP_GOSSIP_def CAP_DISCOVERY_def

text \<open>What the operations promise of each other.\<close>

lemma caps_after:
  "caps_has_all (caps_add c d) d"
  "\<not> caps_has_any (caps_remove c d) d"
  "caps_has_all c e \<Longrightarrow> caps_has_all (caps_add c d) e"
  "caps_has_any (caps_remove c d) e = caps_has_any c (caps_remove e d)"
  by (auto simp: caps_defs bit_eq_iff bit_simps)

lemma can_read_iff:
  "can_read c \<longleftrightarrow> caps_has_any c CAP_READ \<or> caps_has_any c CAP_GOSSIP \<or> caps_has_any c CAP_DISCOVERY"
  "can_write c \<longleftrightarrow> caps_has_any c CAP_WRITE \<or> caps_has_any c CAP_GOSSIP"
  by (auto simp: can_read_def can_write_def caps_has_any_def caps_add_def bit.conj_disj_distrib
      or_eq_0_iff)

lemma default_capabilities_read_write:
  "can_read default_capabilities" "can_write default_capabilities"
  "\<not> caps_has_any default_capabilities CAP_GOSSIP"
  "\<not> caps_has_any default_capabilities CAP_DISCOVERY"
  by (simp_all add: default_capabilities_def can_read_def can_write_def caps_defs)

section \<open>Limits\<close>

definition MAX_MESSAGE_SIZE :: nat where "MAX_MESSAGE_SIZE = 5 * 1024 * 1024"

record relay_event_limits =
  max_size :: "nat option"
  max_size_per_kind :: "u16 \<Rightarrow> nat option option"
  max_num_tags :: "nat option"
  max_num_tags_per_kind :: "u16 \<Rightarrow> nat option option"

text \<open>The maps are keyed by a kind, which is hashed and compared by its number.\<close>

record relay_limits =
  messages_max_size :: "nat option"
  limits_events :: relay_event_limits

definition default_event_limits :: relay_event_limits where
  "default_event_limits =
     \<lparr>max_size = None, max_size_per_kind = Map.empty, max_num_tags = Some 2000,
      max_num_tags_per_kind = [as_u16 ContactList \<mapsto> Some 10000]\<rparr>"

definition disable_event_limits :: relay_event_limits where
  "disable_event_limits =
     \<lparr>max_size = None, max_size_per_kind = Map.empty, max_num_tags = None,
      max_num_tags_per_kind = Map.empty\<rparr>"

definition default_limits :: relay_limits where
  "default_limits =
     \<lparr>messages_max_size = Some MAX_MESSAGE_SIZE, limits_events = default_event_limits\<rparr>"

definition disable_limits :: relay_limits where
  "disable_limits = \<lparr>messages_max_size = None, limits_events = disable_event_limits\<rparr>"

definition set_max_size_per_kind ::
  "kind \<Rightarrow> nat option \<Rightarrow> relay_event_limits \<Rightarrow> relay_event_limits" where
  "set_max_size_per_kind k m l = l\<lparr>max_size_per_kind := (max_size_per_kind l)(as_u16 k \<mapsto> m)\<rparr>"

definition set_max_num_tags_per_kind ::
  "kind \<Rightarrow> nat option \<Rightarrow> relay_event_limits \<Rightarrow> relay_event_limits" where
  "set_max_num_tags_per_kind k m l =
     l\<lparr>max_num_tags_per_kind := (max_num_tags_per_kind l)(as_u16 k \<mapsto> m)\<rparr>"

definition get_max_size :: "kind \<Rightarrow> relay_event_limits \<Rightarrow> nat option" where
  "get_max_size k l =
     (case max_size_per_kind l (as_u16 k) of Some limit \<Rightarrow> limit | None \<Rightarrow> max_size l)"

definition get_max_num_tags :: "kind \<Rightarrow> relay_event_limits \<Rightarrow> nat option" where
  "get_max_num_tags k l =
     (case max_num_tags_per_kind l (as_u16 k) of Some limit \<Rightarrow> limit | None \<Rightarrow> max_num_tags l)"

text \<open>A limit that was set for a kind is the limit of the kinds equal to it and of no other.\<close>

lemma limits_of_kind:
  "get_max_size k (set_max_size_per_kind j m l) = (if kind_eq k j then m else get_max_size k l)"
  "get_max_num_tags k (set_max_num_tags_per_kind j n l) =
     (if kind_eq k j then n else get_max_num_tags k l)"
  "get_max_size k (set_max_num_tags_per_kind j n l) = get_max_size k l"
  "get_max_num_tags k (set_max_size_per_kind j m l) = get_max_num_tags k l"
  by (simp_all add: get_max_size_def get_max_num_tags_def set_max_size_per_kind_def
      set_max_num_tags_per_kind_def kind_eq_def split: option.split)

section \<open>Statistics\<close>

definition usize_wrapping_add :: "nat \<Rightarrow> nat \<Rightarrow> nat" where
  "usize_wrapping_add a b = (a + b) mod 2 ^ 64"

definition LATENCY_MIN_READS :: nat where "LATENCY_MIN_READS = 3"

record stats =
  attempts :: nat
  success :: nat
  bytes_sent :: nat
  bytes_received :: nat
  connected_at :: timestamp
  first_connection_at :: timestamp
  last_activity_at :: timestamp
  woke_up_at :: timestamp
  latency_total :: nat
  latency_count :: nat

definition stats_default :: stats where
  "stats_default =
     \<lparr>attempts = 0, success = 0, bytes_sent = 0, bytes_received = 0, connected_at = 0,
      first_connection_at = 0, last_activity_at = 0, woke_up_at = 0, latency_total = 0,
      latency_count = 0\<rparr>"

definition update_activity :: "timestamp \<Rightarrow> stats \<Rightarrow> stats" where
  "update_activity now s = s\<lparr>last_activity_at := now\<rparr>"

definition just_woke_up :: "timestamp \<Rightarrow> stats \<Rightarrow> stats" where
  "just_woke_up now s = s\<lparr>woke_up_at := now\<rparr>"

definition new_attempt :: "stats \<Rightarrow> stats" where
  "new_attempt s = s\<lparr>attempts := usize_wrapping_add (attempts s) 1\<rparr>"

definition new_success :: "timestamp \<Rightarrow> stats \<Rightarrow> stats" where
  "new_success now s =
     (let s = s\<lparr>success := usize_wrapping_add (success s) 1, connected_at := now\<rparr>
      in if first_connection_at s = 0 then s\<lparr>first_connection_at := now\<rparr> else s)"

definition add_bytes_sent :: "nat \<Rightarrow> stats \<Rightarrow> stats" where
  "add_bytes_sent n s =
     (if 0 < n then s\<lparr>bytes_sent := usize_wrapping_add (bytes_sent s) n\<rparr> else s)"

definition add_bytes_received :: "nat \<Rightarrow> stats \<Rightarrow> stats" where
  "add_bytes_received n s =
     (if 0 < n then s\<lparr>bytes_received := usize_wrapping_add (bytes_received s) n\<rparr> else s)"

text \<open>\<open>save_latency\<close> takes the elapsed time, \<open>latency\<close> gives the average in milliseconds.\<close>

definition save_latency :: "nat \<Rightarrow> stats \<Rightarrow> stats" where
  "save_latency nanos s =
     (let ms = nanos div 1000000
      in if ms \<le> u64_max
         then s\<lparr>latency_total := usize_wrapping_add (latency_total s) ms,
                latency_count := usize_wrapping_add (latency_count s) 1\<rparr>
         else s)"

definition latency_ms :: "stats \<Rightarrow> nat option" where
  "latency_ms s =
     (if latency_count s < LATENCY_MIN_READS then None
      else if latency_count s = 0 then None
      else Some (latency_total s div latency_count s))"

subsection \<open>The success rate\<close>

text \<open>
  \<open>f64\<close> values of 0 or normal range as fractions, every operation rounded to 53 significant bits,
  half to even. \<open>MIN_SUCCESS_RATE\<close> is the literal \<open>0.90\<close>.
\<close>

definition f64_round :: "nat \<times> nat \<Rightarrow> nat \<times> nat" where
  "f64_round x =
     (let n = fst x; d = snd x in
      if n = 0 then (0, 1)
      else (let e = fraction_exponent n d - 52 in
            if 0 \<le> e then (round_half_even n (2 ^ nat e * d) * 2 ^ nat e, 1)
            else (round_half_even (n * 2 ^ nat (- e)) d, 2 ^ nat (- e))))"

definition f64_of_int :: "nat \<Rightarrow> nat \<times> nat" where "f64_of_int n = f64_round (n, 1)"

definition f64_div :: "nat \<times> nat \<Rightarrow> nat \<times> nat \<Rightarrow> nat \<times> nat" where
  "f64_div a b = f64_round (fst a * snd b, snd a * fst b)"

definition f64_less :: "nat \<times> nat \<Rightarrow> nat \<times> nat \<Rightarrow> bool" where
  "f64_less a b \<longleftrightarrow> fst a * snd b < fst b * snd a"

definition MIN_ATTEMPTS :: nat where "MIN_ATTEMPTS = 1"
definition MIN_SUCCESS_RATE :: "nat \<times> nat" where "MIN_SUCCESS_RATE = f64_round (90, 100)"

definition success_rate :: "stats \<Rightarrow> nat \<times> nat" where
  "success_rate s =
     (if 0 < attempts s then f64_div (f64_of_int (success s)) (f64_of_int (attempts s)) else (0, 1))"

section \<open>Pings\<close>

record ping_tracker =
  ping_sent_at :: instant
  last_nonce :: nat
  replied :: bool

definition ping_default :: "instant \<Rightarrow> ping_tracker" where
  "ping_default now = \<lparr>ping_sent_at = now, last_nonce = 0, replied = False\<rparr>"

section \<open>Options\<close>

datatype sleep_when_idle = SleepDisabled | SleepEnabled nat

definition sleep_is_enabled :: "sleep_when_idle \<Rightarrow> bool" where
  "sleep_is_enabled s \<longleftrightarrow> (case s of SleepEnabled _ \<Rightarrow> True | SleepDisabled \<Rightarrow> False)"

record relay_options =
  opt_ping :: bool
  opt_reconnect :: bool
  opt_sleep_when_idle :: sleep_when_idle
  opt_connect_timeout :: nat
  opt_retry_interval :: nat
  opt_adjust_retry_interval :: bool
  opt_verify_subscriptions :: bool
  opt_ban_relay_on_mismatch :: bool
  opt_limits :: relay_limits
  opt_max_avg_latency :: "nat option"

definition default_options :: relay_options where
  "default_options =
     \<lparr>opt_ping = True, opt_reconnect = True, opt_sleep_when_idle = SleepDisabled,
      opt_connect_timeout = 15 * nanos_per_sec, opt_retry_interval = 10 * nanos_per_sec,
      opt_adjust_retry_interval = True, opt_verify_subscriptions = False,
      opt_ban_relay_on_mismatch = False, opt_limits = default_limits,
      opt_max_avg_latency = None\<rparr>"

datatype req_exit_policy =
  ExitOnEOSE | WaitForEvents nat | WaitForEventsAfterEOSE nat | WaitDurationAfterEOSE nat

record auto_close_options =
  ac_exit_policy :: req_exit_policy
  ac_timeout :: "nat option"
  ac_idle_timeout :: "nat option"
  ac_report_relay_closed :: bool

section \<open>Notifications and policies\<close>

datatype relay_notification =
    NEvent string event
  | NMessage relay_message
  | NStatus relay_status
  | NAuthenticated
  | NAuthenticationFailed

datatype admit_status = AdmitSuccess | AdmitRejected "string option"

section \<open>The retry interval\<close>

definition MAX_RETRY_INTERVAL :: nat where "MAX_RETRY_INTERVAL = 60 * nanos_per_sec"

definition max_duration :: nat where
  "max_duration = u64_max * nanos_per_sec + (nanos_per_sec - 1)"

text \<open>
  \<open>calculate_retry_interval\<close> for a value of the random \<open>jitter\<close>, which is from -3 to 3 seconds.
  \<open>None\<close> is the panic of \<open>Duration * u32\<close> on overflow.
\<close>

definition calculate_retry_interval :: "relay_options \<Rightarrow> stats \<Rightarrow> int \<Rightarrow> nat option" where
  "calculate_retry_interval opts s jitter =
     (if opt_adjust_retry_interval opts then
        (let diff = saturating_sub (attempts s) (success s) mod 2 ^ 32;
             multiplier = 1 + diff div 2
         in if max_duration < opt_retry_interval opts * multiplier then None
            else
              (let interval = min (opt_retry_interval opts * multiplier) MAX_RETRY_INTERVAL
               in Some (if 0 \<le> jitter
                        then saturating_add max_duration interval (nat jitter * nanos_per_sec)
                        else saturating_sub interval (nat (- jitter) * nanos_per_sec))))
      else Some (opt_retry_interval opts))"

end
