(* ===== verification/Client_Connection.thy ===== *)
theory Client_Connection
  imports Client_Status
begin

text \<open>
  The connection of the client to a relay (nostr-sdk/src/relay/inner.rs): the status, the attempt
  to connect that is in progress, and the one task that dials, runs the session, and dials
  again. Callers request and stop connections at any time.

  Threads run concurrently, so the model is a transition system. Status and attempt change only
  under the lock of \<open>ConnectionState\<close>: each critical section is a function on the state, and
  between two of them any other step may happen. An attempt is an object that is compared by its
  address: a number that is never used again. The task waits on a \<open>Notify\<close> that stores one permit.
  Policy, transport, clock and the end of a session are open: a step may have any of their
  outcomes. The texts for the log and the memory of the last logged error are left out.
\<close>

section \<open>The state\<close>

datatype request_kind = Background | WaitForResult instant

record attempt =
  at_kind :: request_kind
  at_result :: "(sdk_error + unit) option"

text \<open>How far \<open>dial_connection\<close> is: before the timeout check, in the policy, in the transport.\<close>

datatype dial_stage = DialStart | DialPolicy | DialTransport

text \<open>
  Where the connection task is. The flag of the waiting phases says whether \<open>connection_changed\<close>
  has found the attempt current and waits for a permit.
\<close>

datatype task_phase =
    NotSpawned
  | Selecting
  | Parked
  | Retrying nat bool
  | Beginning nat
  | Dialing nat bool dial_stage
  | Failing nat sdk_error
  | Accepting nat
  | Running nat bool
  | Closing nat
  | TaskDone

text \<open>
  The counters are the callers between the critical section of \<open>request_connection\<close> and
  \<open>get_or_init\<close>, those between it and the check of the status, and those between the critical
  section of \<open>stop_connection\<close> and the abort. \<open>cn_published\<close> are the published statuses.
\<close>

record connection =
  cn_status :: relay_status
  cn_attempt :: "nat option"
  cn_heap :: "nat \<Rightarrow> attempt option"
  cn_next :: nat
  cn_stats :: stats
  cn_task :: task_phase
  cn_permit :: bool
  cn_aborted :: bool
  cn_spawning :: nat
  cn_checking :: nat
  cn_aborting :: nat
  cn_published :: "relay_status list"

definition initial_connection :: connection where
  "initial_connection =
     \<lparr>cn_status = Initialized, cn_attempt = None, cn_heap = Map.empty, cn_next = 0,
      cn_stats = stats_default, cn_task = NotSpawned, cn_permit = False, cn_aborted = False,
      cn_spawning = 0, cn_checking = 0, cn_aborting = 0, cn_published = []\<rparr>"

section \<open>The critical sections\<close>

definition is_current :: "nat \<Rightarrow> connection \<Rightarrow> bool" where
  "is_current a c \<longleftrightarrow> cn_attempt c = Some a"

definition set_status :: "relay_status \<Rightarrow> connection \<Rightarrow> connection" where
  "set_status st c =
     (if cn_status c = st then c
      else c\<lparr>cn_status := st, cn_published := cn_published c @ [st]\<rparr>)"

definition notify_one :: "connection \<Rightarrow> connection" where
  "notify_one c = c\<lparr>cn_permit := True\<rparr>"

definition attempt_finish :: "nat \<Rightarrow> sdk_error + unit \<Rightarrow> connection \<Rightarrow> connection" where
  "attempt_finish a r c =
     (case cn_heap c a of
        None \<Rightarrow> c
      | Some t \<Rightarrow>
          if at_result t \<noteq> None then c
          else c\<lparr>cn_heap := (cn_heap c)(a \<mapsto> t\<lparr>at_result := Some r\<rparr>)\<rparr>)"

text \<open>\<open>state.attempt = Some(Arc::new(ConnectionAttempt::new(kind)))\<close>.\<close>

definition attempt_new :: "request_kind \<Rightarrow> connection \<Rightarrow> connection" where
  "attempt_new k c =
     c\<lparr>cn_heap := (cn_heap c)(cn_next c \<mapsto> \<lparr>at_kind = k, at_result = None\<rparr>),
       cn_attempt := Some (cn_next c), cn_next := Suc (cn_next c)\<rparr>"

definition request_connection ::
  "request_kind \<Rightarrow> connection \<Rightarrow> (sdk_error + nat option) \<times> connection" where
  "request_connection k c =
     (if is_banned (cn_status c) then (Inl err_banned, c)
      else if is_shutdown (cn_status c) then (Inl err_shutdown, c)
      else if is_connected (cn_status c) then (Inr None, c)
      else
        (case cn_attempt c of
           Some a \<Rightarrow> (Inr (Some a), c\<lparr>cn_spawning := Suc (cn_spawning c)\<rparr>)
         | None \<Rightarrow>
             (let c = notify_one (set_status Connecting (attempt_new k c))
              in (Inr (cn_attempt c), c\<lparr>cn_spawning := Suc (cn_spawning c)\<rparr>))))"

definition begin_connection :: "nat \<Rightarrow> connection \<Rightarrow> bool \<times> connection" where
  "begin_connection a c =
     (if \<not> is_current a c then (False, c) else (True, set_status Connecting c))"

definition begin_dial :: "nat \<Rightarrow> connection \<Rightarrow> bool \<times> connection" where
  "begin_dial a c =
     (if \<not> is_current a c then (False, c)
      else (True, c\<lparr>cn_stats := new_attempt (cn_stats c)\<rparr>))"

definition accept_connection :: "timestamp \<Rightarrow> nat \<Rightarrow> connection \<Rightarrow> bool \<times> connection" where
  "accept_connection now a c =
     (if \<not> is_current a c then (False, c)
      else (True, attempt_finish a (Inr ())
             (set_status Connected (c\<lparr>cn_stats := new_success now (cn_stats c)\<rparr>))))"

definition attempt_is_background :: "nat \<Rightarrow> connection \<Rightarrow> bool" where
  "attempt_is_background a c \<longleftrightarrow>
     (case cn_heap c a of None \<Rightarrow> False | Some t \<Rightarrow> at_kind t = Background)"

definition connection_failed ::
  "relay_options \<Rightarrow> nat \<Rightarrow> sdk_error \<Rightarrow> connection \<Rightarrow> connection" where
  "connection_failed opts a e c =
     (if \<not> is_current a c then c
      else
        (let stop = (\<not> attempt_is_background a c \<or> sdk_kind e = KRejected \<or> \<not> opt_reconnect opts);
             c = attempt_finish a (Inl e) c
         in if stop then set_status Idle (c\<lparr>cn_attempt := None\<rparr>)
            else set_status Disconnected (attempt_new Background c)))"

definition schedule_reconnect :: "relay_options \<Rightarrow> nat \<Rightarrow> connection \<Rightarrow> connection" where
  "schedule_reconnect opts a c =
     (if \<not> is_current a c then c
      else if \<not> opt_reconnect opts then set_status Idle (c\<lparr>cn_attempt := None\<rparr>)
      else set_status Disconnected (attempt_new Background c))"

text \<open>The critical section of \<open>sleep_when_idle_monitor\<close>.\<close>

definition go_to_sleep :: "nat \<Rightarrow> connection \<Rightarrow> connection" where
  "go_to_sleep a c =
     (if is_current a c then set_status Sleeping (c\<lparr>cn_attempt := None\<rparr>) else c)"

definition stop_error :: "relay_status \<Rightarrow> sdk_error" where
  "stop_error st =
     (case st of
        Banned \<Rightarrow> err_banned
      | Shutdown \<Rightarrow> err_shutdown
      | _ \<Rightarrow> SdkError KRejected ''received termination request'')"

definition stop_connection :: "relay_status \<Rightarrow> connection \<Rightarrow> connection" where
  "stop_connection st c =
     (if is_terminal (cn_status c) \<or> cn_status c = st then c
      else
        (let c = (case cn_attempt c of
                    None \<Rightarrow> c
                  | Some a \<Rightarrow> attempt_finish a (Inl (stop_error st)) (c\<lparr>cn_attempt := None\<rparr>));
             c = notify_one (set_status st c)
         in if is_terminal st then c\<lparr>cn_aborting := Suc (cn_aborting c)\<rparr> else c))"

definition disconnect :: "connection \<Rightarrow> connection" where
  "disconnect = stop_connection Idle"

definition ban :: "connection \<Rightarrow> connection" where
  "ban = stop_connection Banned"

definition shutdown :: "connection \<Rightarrow> connection" where
  "shutdown = stop_connection Shutdown"

text \<open>The time a dial has.\<close>

definition dial_timeout :: "relay_options \<Rightarrow> instant \<Rightarrow> nat \<Rightarrow> connection \<Rightarrow> nat" where
  "dial_timeout opts now a c =
     (case cn_heap c a of
        Some t \<Rightarrow>
          (case at_kind t of
             Background \<Rightarrow> opt_connect_timeout opts
           | WaitForResult deadline \<Rightarrow> deadline - now)
      | None \<Rightarrow> 0)"

section \<open>The steps\<close>

text \<open>
  The connection task: \<open>next_connection\<close>, the wait before a retry, \<open>connect_and_run\<close> with
  \<open>dial_connection\<close> and \<open>post_connection\<close>, and the end of an aborted task at a point where it waits.
\<close>

inductive task_step :: "relay_options \<Rightarrow> connection \<Rightarrow> connection \<Rightarrow> bool" for opts where
  next_terminal: "cn_task c = Selecting \<Longrightarrow> is_terminal (cn_status c) \<Longrightarrow>
    task_step opts c (c\<lparr>cn_task := TaskDone\<rparr>)"
| next_attempt: "cn_task c = Selecting \<Longrightarrow> \<not> is_terminal (cn_status c) \<Longrightarrow> cn_attempt c = Some a \<Longrightarrow>
    task_step opts c
      (c\<lparr>cn_task := if is_disconnected (cn_status c) then Retrying a False else Beginning a\<rparr>)"
| next_park: "cn_task c = Selecting \<Longrightarrow> \<not> is_terminal (cn_status c) \<Longrightarrow> cn_attempt c = None \<Longrightarrow>
    task_step opts c (c\<lparr>cn_task := Parked\<rparr>)"
| next_wake: "cn_task c = Parked \<Longrightarrow> cn_permit c \<Longrightarrow>
    task_step opts c (c\<lparr>cn_task := Selecting, cn_permit := False\<rparr>)"
| retry_check: "cn_task c = Retrying a False \<Longrightarrow>
    task_step opts c (c\<lparr>cn_task := if is_current a c then Retrying a True else Selecting\<rparr>)"
| retry_wake: "cn_task c = Retrying a True \<Longrightarrow> cn_permit c \<Longrightarrow>
    task_step opts c (c\<lparr>cn_task := Retrying a False, cn_permit := False\<rparr>)"
| retry_sleep: "cn_task c = Retrying a True \<Longrightarrow> task_step opts c (c\<lparr>cn_task := Beginning a\<rparr>)"
| begin_step: "cn_task c = Beginning a \<Longrightarrow> begin_connection a c = (b, c') \<Longrightarrow>
    task_step opts c (c'\<lparr>cn_task := if b then Dialing a False DialStart else Selecting\<rparr>)"
| dial_check: "cn_task c = Dialing a False d \<Longrightarrow>
    task_step opts c (c\<lparr>cn_task := if is_current a c then Dialing a True d else Selecting\<rparr>)"
| dial_wake: "cn_task c = Dialing a True d \<Longrightarrow> cn_permit c \<Longrightarrow>
    task_step opts c (c\<lparr>cn_task := Dialing a False d, cn_permit := False\<rparr>)"
| dial_start: "cn_task c = Dialing a True DialStart \<Longrightarrow>
    task_step opts c (c\<lparr>cn_task :=
      if dial_timeout opts now a c = 0 then Failing a err_timeout else Dialing a True DialPolicy\<rparr>)"
| dial_rejected: "cn_task c = Dialing a True DialPolicy \<Longrightarrow>
    task_step opts c (c\<lparr>cn_task := Failing a (err_connection_rejected r)\<rparr>)"
| dial_policy_error: "cn_task c = Dialing a True DialPolicy \<Longrightarrow>
    task_step opts c (c\<lparr>cn_task := Failing a e\<rparr>)"
| dial_admitted: "cn_task c = Dialing a True DialPolicy \<Longrightarrow> begin_dial a c = (b, c') \<Longrightarrow>
    task_step opts c (c'\<lparr>cn_task :=
      if b then Dialing a True DialTransport
      else Failing a (SdkError KState ''connection attempt superseded'')\<rparr>)"
| dial_connected: "cn_task c = Dialing a True DialTransport \<Longrightarrow>
    task_step opts c (c\<lparr>cn_task := Accepting a\<rparr>)"
| dial_transport_error: "cn_task c = Dialing a True DialTransport \<Longrightarrow>
    task_step opts c (c\<lparr>cn_task := Failing a (SdkError KTransport m)\<rparr>)"
| dial_expired: "cn_task c = Dialing a True d \<Longrightarrow> d \<noteq> DialStart \<Longrightarrow>
    task_step opts c (c\<lparr>cn_task := Failing a err_timeout\<rparr>)"
| fail_step: "cn_task c = Failing a e \<Longrightarrow>
    task_step opts c ((connection_failed opts a e c)\<lparr>cn_task := Selecting\<rparr>)"
| accept_step: "cn_task c = Accepting a \<Longrightarrow> accept_connection now a c = (b, c') \<Longrightarrow>
    task_step opts c (c'\<lparr>cn_task := if b then Running a False else Selecting\<rparr>)"
| run_check: "cn_task c = Running a False \<Longrightarrow>
    task_step opts c (c\<lparr>cn_task := if is_current a c then Running a True else Closing a\<rparr>)"
| run_wake: "cn_task c = Running a True \<Longrightarrow> cn_permit c \<Longrightarrow>
    task_step opts c (c\<lparr>cn_task := Running a False, cn_permit := False\<rparr>)"
| run_end: "cn_task c = Running a w \<Longrightarrow> task_step opts c (c\<lparr>cn_task := Closing a\<rparr>)"
| run_sleep: "cn_task c = Running a w \<Longrightarrow> sleep_is_enabled (opt_sleep_when_idle opts) \<Longrightarrow>
    task_step opts c ((go_to_sleep a c)\<lparr>cn_task := Closing a\<rparr>)"
| close_step: "cn_task c = Closing a \<Longrightarrow>
    task_step opts c ((schedule_reconnect opts a c)\<lparr>cn_task := Selecting\<rparr>)"
| die: "cn_aborted c \<Longrightarrow> cn_task c \<noteq> NotSpawned \<Longrightarrow> cn_task c \<noteq> TaskDone \<Longrightarrow>
    task_step opts c (c\<lparr>cn_task := TaskDone\<rparr>)"

text \<open>The calls that have changed the state go on to spawn the task, or to abort it.\<close>

inductive call_step :: "connection \<Rightarrow> connection \<Rightarrow> bool" where
  spawn: "cn_spawning c = Suc n \<Longrightarrow>
    call_step c (c\<lparr>cn_spawning := n, cn_checking := Suc (cn_checking c),
      cn_task := if cn_task c = NotSpawned then Selecting else cn_task c\<rparr>)"
| check: "cn_checking c = Suc n \<Longrightarrow>
    call_step c (c\<lparr>cn_checking := n, cn_aborted := cn_aborted c \<or> is_terminal (cn_status c)\<rparr>)"
| abort: "cn_aborting c = Suc n \<Longrightarrow>
    call_step c (c\<lparr>cn_aborting := n, cn_aborted := cn_aborted c \<or> cn_task c \<noteq> NotSpawned\<rparr>)"

text \<open>New calls, from any thread, and the counters of the session.\<close>

inductive caller_step :: "connection \<Rightarrow> connection \<Rightarrow> bool" where
  call_request: "request_connection k c = (r, c') \<Longrightarrow> caller_step c c'"
| call_stop: "st \<in> {Idle, Banned, Shutdown} \<Longrightarrow> caller_step c (stop_connection st c)"
| count: "attempts t = attempts (cn_stats c) \<Longrightarrow> success t = success (cn_stats c) \<Longrightarrow>
    caller_step c (c\<lparr>cn_stats := t\<rparr>)"

definition internal :: "relay_options \<Rightarrow> connection \<Rightarrow> connection \<Rightarrow> bool" where
  "internal opts c c' \<longleftrightarrow> task_step opts c c' \<or> call_step c c'"

text \<open>The states that are reachable in at most as many steps as the number.\<close>

inductive cn_reachable :: "relay_options \<Rightarrow> nat \<Rightarrow> connection \<Rightarrow> bool" for opts where
  cn_start: "cn_reachable opts n initial_connection"
| cn_internal: "cn_reachable opts n c \<Longrightarrow> internal opts c c' \<Longrightarrow> cn_reachable opts (Suc n) c'"
| cn_caller: "cn_reachable opts n c \<Longrightarrow> caller_step c c' \<Longrightarrow> cn_reachable opts (Suc n) c'"

section \<open>Attempts\<close>

lemmas connection_ops = is_current_def set_status_def notify_one_def attempt_finish_def
  attempt_new_def request_connection_def begin_connection_def begin_dial_def
  accept_connection_def connection_failed_def schedule_reconnect_def go_to_sleep_def
  stop_connection_def status_defs

text \<open>
  Every attempt that has no result yet is the current one, and its result is a success exactly
  when the status is connected; without an attempt nothing is in progress.
\<close>

definition attempt_pending :: "connection \<Rightarrow> nat \<Rightarrow> bool" where
  "attempt_pending c a \<longleftrightarrow> (\<exists>t. cn_heap c a = Some t \<and> at_result t = None)"

definition attempts_ok :: "connection \<Rightarrow> bool" where
  "attempts_ok c \<longleftrightarrow>
     (\<forall>a. cn_heap c a \<noteq> None \<longleftrightarrow> a < cn_next c) \<and>
     (\<forall>a. cn_attempt c \<noteq> Some a \<longrightarrow> \<not> attempt_pending c a) \<and>
     (case cn_attempt c of
        None \<Rightarrow> cn_status c \<in> {Initialized, Idle, Banned, Sleeping, Shutdown}
      | Some a \<Rightarrow>
          a < cn_next c \<and> cn_status c \<in> {Connecting, Connected, Disconnected} \<and>
          (attempt_pending c a \<longleftrightarrow> cn_status c \<noteq> Connected))"

fun phase_attempt :: "task_phase \<Rightarrow> nat option" where
  "phase_attempt (Retrying a _) = Some a"
| "phase_attempt (Beginning a) = Some a"
| "phase_attempt (Dialing a _ _) = Some a"
| "phase_attempt (Failing a _) = Some a"
| "phase_attempt (Accepting a) = Some a"
| "phase_attempt (Running a _) = Some a"
| "phase_attempt (Closing a) = Some a"
| "phase_attempt _ = None"

fun in_session :: "task_phase \<Rightarrow> bool" where
  "in_session (Running _ _) = True"
| "in_session (Closing _) = True"
| "in_session _ = False"

text \<open>The status is connected exactly while the task runs the session of the current attempt.\<close>

definition task_ok :: "connection \<Rightarrow> bool" where
  "task_ok c \<longleftrightarrow>
     (\<forall>a. phase_attempt (cn_task c) = Some a \<longrightarrow> a < cn_next c) \<and>
     (cn_status c = Connected \<longleftrightarrow>
        in_session (cn_task c) \<and> cn_attempt c = phase_attempt (cn_task c)) \<and>
     (cn_aborted c \<or> 0 < cn_aborting c \<or> cn_task c = TaskDone \<longrightarrow> is_terminal (cn_status c)) \<and>
     (cn_task c = NotSpawned \<longrightarrow>
        \<not> cn_aborted c \<and> cn_checking c = 0 \<and> (cn_attempt c = None \<or> 0 < cn_spawning c)) \<and>
     (is_terminal (cn_status c) \<and> cn_task c \<noteq> NotSpawned \<longrightarrow>
        cn_aborted c \<or> 0 < cn_aborting c \<or> 0 < cn_checking c \<or> cn_task c = TaskDone)"

text \<open>A task that waits for a permit has seen the attempt that is still current.\<close>

fun watching :: "task_phase \<Rightarrow> nat option" where
  "watching (Retrying a True) = Some a"
| "watching (Dialing a True _) = Some a"
| "watching (Running a True) = Some a"
| "watching _ = None"

definition permit_ok :: "connection \<Rightarrow> bool" where
  "permit_ok c \<longleftrightarrow>
     (\<not> cn_permit c \<longrightarrow>
        (cn_task c = Parked \<longrightarrow> cn_attempt c = None \<and> \<not> is_terminal (cn_status c)) \<and>
        (\<forall>a. watching (cn_task c) = Some a \<longrightarrow> is_current a c))"

end
