(* ===== verification/Client_Attempts.thy ===== *)
theory Client_Attempts
  imports Client_Connection
begin

text \<open>
  The invariant of the connection of Client_Connection: no attempt is forgotten without a result,
  the status agrees with the attempt and with the task, and no wake-up of the task is lost.
\<close>

section \<open>What the critical sections leave unchanged\<close>

lemma set_status_simps [simp]:
  "cn_status (set_status st c) = st"
  "cn_attempt (set_status st c) = cn_attempt c"
  "cn_heap (set_status st c) = cn_heap c"
  "cn_next (set_status st c) = cn_next c"
  "cn_stats (set_status st c) = cn_stats c"
  "cn_task (set_status st c) = cn_task c"
  "cn_permit (set_status st c) = cn_permit c"
  "cn_aborted (set_status st c) = cn_aborted c"
  "cn_spawning (set_status st c) = cn_spawning c"
  "cn_checking (set_status st c) = cn_checking c"
  "cn_aborting (set_status st c) = cn_aborting c"
  by (simp_all add: set_status_def)

lemma notify_one_simps [simp]:
  "cn_status (notify_one c) = cn_status c"
  "cn_attempt (notify_one c) = cn_attempt c"
  "cn_heap (notify_one c) = cn_heap c"
  "cn_next (notify_one c) = cn_next c"
  "cn_stats (notify_one c) = cn_stats c"
  "cn_task (notify_one c) = cn_task c"
  "cn_permit (notify_one c) = True"
  "cn_aborted (notify_one c) = cn_aborted c"
  "cn_spawning (notify_one c) = cn_spawning c"
  "cn_checking (notify_one c) = cn_checking c"
  "cn_aborting (notify_one c) = cn_aborting c"
  "cn_published (notify_one c) = cn_published c"
  by (simp_all add: notify_one_def)

lemma attempt_finish_simps [simp]:
  "cn_status (attempt_finish a r c) = cn_status c"
  "cn_attempt (attempt_finish a r c) = cn_attempt c"
  "cn_next (attempt_finish a r c) = cn_next c"
  "cn_stats (attempt_finish a r c) = cn_stats c"
  "cn_task (attempt_finish a r c) = cn_task c"
  "cn_permit (attempt_finish a r c) = cn_permit c"
  "cn_aborted (attempt_finish a r c) = cn_aborted c"
  "cn_spawning (attempt_finish a r c) = cn_spawning c"
  "cn_checking (attempt_finish a r c) = cn_checking c"
  "cn_aborting (attempt_finish a r c) = cn_aborting c"
  "cn_published (attempt_finish a r c) = cn_published c"
  by (simp_all add: attempt_finish_def split: option.split)

lemma attempt_new_simps [simp]:
  "cn_status (attempt_new k c) = cn_status c"
  "cn_attempt (attempt_new k c) = Some (cn_next c)"
  "cn_next (attempt_new k c) = Suc (cn_next c)"
  "cn_stats (attempt_new k c) = cn_stats c"
  "cn_task (attempt_new k c) = cn_task c"
  "cn_permit (attempt_new k c) = cn_permit c"
  "cn_aborted (attempt_new k c) = cn_aborted c"
  "cn_spawning (attempt_new k c) = cn_spawning c"
  "cn_checking (attempt_new k c) = cn_checking c"
  "cn_aborting (attempt_new k c) = cn_aborting c"
  "cn_published (attempt_new k c) = cn_published c"
  by (simp_all add: attempt_new_def)

text \<open>The heap is read through its domain and the attempts without a result.\<close>

definition known_attempt :: "connection \<Rightarrow> nat \<Rightarrow> bool" where
  "known_attempt c a \<longleftrightarrow> cn_heap c a \<noteq> None"

lemma attempt_pending_simps [simp]:
  "attempt_pending (set_status st c) b = attempt_pending c b"
  "attempt_pending (notify_one c) b = attempt_pending c b"
  "attempt_pending (attempt_finish a r c) b = (attempt_pending c b \<and> b \<noteq> a)"
  "attempt_pending (attempt_new k c) b = (b = cn_next c \<or> attempt_pending c b)"
  "known_attempt (set_status st c) b = known_attempt c b"
  "known_attempt (notify_one c) b = known_attempt c b"
  "known_attempt (attempt_finish a r c) b = known_attempt c b"
  "known_attempt (attempt_new k c) b = (b = cn_next c \<or> known_attempt c b)"
  by (auto simp: attempt_pending_def known_attempt_def set_status_def notify_one_def
      attempt_finish_def attempt_new_def split: option.splits)

lemma pending_frame [simp]:
  "attempt_pending (c\<lparr>cn_task := p\<rparr>) b = attempt_pending c b"
  "attempt_pending (c\<lparr>cn_permit := w\<rparr>) b = attempt_pending c b"
  "attempt_pending (c\<lparr>cn_attempt := x\<rparr>) b = attempt_pending c b"
  "attempt_pending (c\<lparr>cn_stats := t\<rparr>) b = attempt_pending c b"
  "attempt_pending (c\<lparr>cn_spawning := n\<rparr>) b = attempt_pending c b"
  "attempt_pending (c\<lparr>cn_checking := n\<rparr>) b = attempt_pending c b"
  "attempt_pending (c\<lparr>cn_aborting := n\<rparr>) b = attempt_pending c b"
  "attempt_pending (c\<lparr>cn_aborted := w\<rparr>) b = attempt_pending c b"
  "known_attempt (c\<lparr>cn_task := p\<rparr>) b = known_attempt c b"
  "known_attempt (c\<lparr>cn_permit := w\<rparr>) b = known_attempt c b"
  "known_attempt (c\<lparr>cn_attempt := x\<rparr>) b = known_attempt c b"
  "known_attempt (c\<lparr>cn_stats := t\<rparr>) b = known_attempt c b"
  "known_attempt (c\<lparr>cn_spawning := n\<rparr>) b = known_attempt c b"
  "known_attempt (c\<lparr>cn_checking := n\<rparr>) b = known_attempt c b"
  "known_attempt (c\<lparr>cn_aborting := n\<rparr>) b = known_attempt c b"
  "known_attempt (c\<lparr>cn_aborted := w\<rparr>) b = known_attempt c b"
  by (simp_all add: attempt_pending_def known_attempt_def)

lemma attempts_ok_iff:
  "attempts_ok c \<longleftrightarrow>
     (\<forall>a. known_attempt c a \<longleftrightarrow> a < cn_next c) \<and>
     (\<forall>a. cn_attempt c \<noteq> Some a \<longrightarrow> \<not> attempt_pending c a) \<and>
     (case cn_attempt c of
        None \<Rightarrow> cn_status c \<in> {Initialized, Idle, Banned, Sleeping, Shutdown}
      | Some a \<Rightarrow>
          a < cn_next c \<and> cn_status c \<in> {Connecting, Connected, Disconnected} \<and>
          (attempt_pending c a \<longleftrightarrow> cn_status c \<noteq> Connected))"
  by (simp only: attempts_ok_def known_attempt_def)

section \<open>The invariant\<close>

definition conn_inv :: "connection \<Rightarrow> bool" where
  "conn_inv c \<longleftrightarrow> attempts_ok c \<and> task_ok c \<and> permit_ok c"

lemmas inv_defs = conn_inv_def attempts_ok_iff task_ok_def permit_ok_def is_current_def

lemmas section_defs = request_connection_def begin_connection_def begin_dial_def
  accept_connection_def connection_failed_def schedule_reconnect_def go_to_sleep_def
  stop_connection_def

lemma conn_inv_new: "conn_inv initial_connection"
  by (simp add: inv_defs initial_connection_def attempt_pending_def known_attempt_def is_terminal_def)

lemma call_step_inv: "call_step c c' \<Longrightarrow> conn_inv c \<Longrightarrow> conn_inv c'"
  by (induction rule: call_step.induct) (auto simp: inv_defs split: option.splits)

lemma attempts_ok_frame [simp]:
  "attempts_ok (c\<lparr>cn_task := p\<rparr>) = attempts_ok c"
  "attempts_ok (c\<lparr>cn_permit := w\<rparr>) = attempts_ok c"
  "attempts_ok (c\<lparr>cn_stats := t\<rparr>) = attempts_ok c"
  "attempts_ok (c\<lparr>cn_spawning := n\<rparr>) = attempts_ok c"
  "attempts_ok (c\<lparr>cn_aborting := n\<rparr>) = attempts_ok c"
  "attempts_ok (notify_one c) = attempts_ok c"
  by (simp_all add: attempts_ok_iff is_current_def split: option.split)

text \<open>
  The ways in which attempts change: the current one ends, with a result or after it was accepted,
  and a new one may take its place.
\<close>

definition heap_ok :: "connection \<Rightarrow> bool" where
  "heap_ok c \<longleftrightarrow> (\<forall>a. (known_attempt c a \<longleftrightarrow> a < cn_next c) \<and> \<not> attempt_pending c a)"

lemma heap_ok_idle:
  "attempts_ok c \<Longrightarrow> cn_attempt c = None \<or> cn_status c = Connected \<Longrightarrow> heap_ok c"
proof (cases "cn_attempt c")
  case (Some b)
  assume "attempts_ok c" and "cn_attempt c = None \<or> cn_status c = Connected"
  then have "\<not> attempt_pending c a" and "known_attempt c a \<longleftrightarrow> a < cn_next c" for a
    using Some by (cases "a = b"; simp add: attempts_ok_iff)+
  then show ?thesis by (simp add: heap_ok_def)
qed (simp add: attempts_ok_iff heap_ok_def)

lemma heap_ok_finish: "attempts_ok c \<Longrightarrow> is_current a c \<Longrightarrow> heap_ok (attempt_finish a r c)"
  by (auto simp: attempts_ok_iff heap_ok_def is_current_def split: option.splits)

lemma heap_ok_frame [simp]:
  "heap_ok (c\<lparr>cn_attempt := x\<rparr>) = heap_ok c"
  "heap_ok (c\<lparr>cn_stats := t\<rparr>) = heap_ok c"
  by (simp_all add: heap_ok_def)

lemma attempts_ok_replace:
  assumes "heap_ok c" and "st \<in> {Connecting, Disconnected}"
  shows "attempts_ok (set_status st (attempt_new k c))"
  using assms by (simp add: attempts_ok_iff heap_ok_def less_Suc_eq disj_commute) auto

lemma attempts_ok_drop:
  assumes "heap_ok c" and "cn_attempt c = None" and "st \<in> {Idle, Banned, Sleeping, Shutdown}"
  shows "attempts_ok (set_status st c)"
  using assms by (auto simp: attempts_ok_iff heap_ok_def)

lemma attempts_ok_accept:
  "attempts_ok c \<Longrightarrow> is_current a c \<Longrightarrow>
   attempts_ok (attempt_finish a r (set_status Connected c))"
  by (auto simp: attempts_ok_iff is_current_def)

lemma attempts_ok_connecting:
  "attempts_ok c \<Longrightarrow> is_current a c \<Longrightarrow> cn_status c \<noteq> Connected \<Longrightarrow>
   attempts_ok (set_status Connecting c)"
  by (auto simp: attempts_ok_iff is_current_def)

subsection \<open>Every critical section keeps it\<close>

lemma attempts_ok_request: "attempts_ok c \<Longrightarrow> attempts_ok (snd (request_connection k c))"
  by (simp add: request_connection_def Let_def attempts_ok_replace heap_ok_idle split: option.split)

lemma attempts_ok_failed: "attempts_ok c \<Longrightarrow> attempts_ok (connection_failed opts a e c)"
  by (simp add: connection_failed_def Let_def attempts_ok_replace attempts_ok_drop heap_ok_finish)

lemma attempts_ok_schedule:
  "attempts_ok c \<Longrightarrow> is_current a c \<longrightarrow> cn_status c = Connected \<Longrightarrow>
   attempts_ok (schedule_reconnect opts a c)"
  by (simp add: schedule_reconnect_def attempts_ok_replace attempts_ok_drop heap_ok_idle)

lemma attempts_ok_sleep:
  "attempts_ok c \<Longrightarrow> is_current a c \<longrightarrow> cn_status c = Connected \<Longrightarrow> attempts_ok (go_to_sleep a c)"
  by (simp add: go_to_sleep_def attempts_ok_drop heap_ok_idle)

lemma attempts_ok_stop:
  assumes "attempts_ok c" and "st \<in> {Idle, Banned, Shutdown}"
  shows "attempts_ok (stop_connection st c)"
proof -
  have "heap_ok c" if "cn_attempt c = None" by (rule heap_ok_idle) (use assms(1) that in auto)
  moreover have "heap_ok (attempt_finish a r (c\<lparr>cn_attempt := None\<rparr>))" if "cn_attempt c = Some a" for a r
  proof -
    have "attempt_finish a r (c\<lparr>cn_attempt := None\<rparr>) = (attempt_finish a r c)\<lparr>cn_attempt := None\<rparr>"
      by (simp add: attempt_finish_def split: option.split)
    then show ?thesis using heap_ok_finish [OF assms(1)] that by (simp add: is_current_def)
  qed
  ultimately show ?thesis
    using assms by (auto simp: stop_connection_def Let_def attempts_ok_drop split: option.split)
qed

section \<open>The task\<close>

text \<open>The shape of every step of the task: it goes to another phase, and may end the attempt.\<close>

definition same_calls :: "connection \<Rightarrow> connection \<Rightarrow> bool" where
  "same_calls c c' \<longleftrightarrow>
     cn_aborted c' = cn_aborted c \<and> cn_aborting c' = cn_aborting c \<and>
     cn_checking c' = cn_checking c \<and> cn_spawning c' = cn_spawning c \<and>
     cn_next c \<le> cn_next c' \<and>
     (cn_status c' = cn_status c \<or> \<not> is_terminal (cn_status c) \<and> \<not> is_terminal (cn_status c'))"

lemma session_attempt [simp]:
  "in_session p \<Longrightarrow> phase_attempt p \<noteq> None" "in_session p \<Longrightarrow> None \<noteq> phase_attempt p"
  by (cases p; simp)+

lemma task_ok_move:
  assumes "task_ok c" and "cn_task c \<noteq> NotSpawned" and "cn_task c \<noteq> TaskDone"
    and "same_calls c c'" and "p \<noteq> NotSpawned" and "p \<noteq> TaskDone"
    and "\<forall>a. phase_attempt p = Some a \<longrightarrow> a < cn_next c'"
    and "cn_status c' = Connected \<longleftrightarrow> in_session p \<and> cn_attempt c' = phase_attempt p"
  shows "task_ok (c'\<lparr>cn_task := p\<rparr>)"
proof -
  have t: "cn_aborted c \<or> 0 < cn_aborting c \<Longrightarrow> is_terminal (cn_status c)"
    "is_terminal (cn_status c) \<Longrightarrow> cn_aborted c \<or> 0 < cn_aborting c \<or> 0 < cn_checking c"
    using assms(1-3) by (auto simp: task_ok_def)
  have s: "cn_aborted c' = cn_aborted c" "cn_aborting c' = cn_aborting c"
    "cn_checking c' = cn_checking c" "is_terminal (cn_status c') = is_terminal (cn_status c)"
    using assms(4) unfolding same_calls_def by auto
  show ?thesis
    using t s assms(5-8) by (simp add: task_ok_def)
qed

lemma permit_ok_move:
  "p \<noteq> Parked \<Longrightarrow> \<forall>a. watching p = Some a \<longrightarrow> cn_permit c \<or> is_current a c \<Longrightarrow> permit_ok (c\<lparr>cn_task := p\<rparr>)"
  by (auto simp: permit_ok_def is_current_def)

lemma same_calls_refl [simp]: "same_calls c c"
  by (simp add: same_calls_def)

lemma current_status:
  "attempts_ok c \<Longrightarrow> is_current a c \<Longrightarrow> \<not> is_terminal (cn_status c) \<and> a < cn_next c"
  by (auto simp: attempts_ok_iff is_current_def is_terminal_def)

lemma same_calls_ops:
  assumes "attempts_ok c"
  shows "same_calls c (connection_failed opts a e c)"
    "same_calls c (schedule_reconnect opts a c)"
    "same_calls c (go_to_sleep a c)"
    "same_calls c (snd (begin_connection a c))"
    "same_calls c (snd (begin_dial a c))"
    "same_calls c (snd (accept_connection now a c))"
  using current_status [OF assms]
  by (auto simp: same_calls_def section_defs Let_def is_terminal_def)

text \<open>The status after each of them.\<close>

lemma task_status:
  assumes "task_ok c"
  shows "\<not> in_session (cn_task c) \<Longrightarrow> cn_status c \<noteq> Connected"
    "phase_attempt (cn_task c) = Some a \<Longrightarrow> cn_status c = Connected \<Longrightarrow> is_current a c"
    "phase_attempt (cn_task c) = Some a \<Longrightarrow> in_session (cn_task c) \<Longrightarrow> is_current a c \<Longrightarrow>
     cn_status c = Connected"
    "phase_attempt (cn_task c) = Some a \<Longrightarrow> a < cn_next c"
  using assms by (simp_all add: task_ok_def is_current_def)

lemma failed_not_connected:
  "cn_status c \<noteq> Connected \<Longrightarrow> cn_status (connection_failed opts a e c) \<noteq> Connected"
  by (simp add: connection_failed_def Let_def)

lemma ended_not_connected:
  "cn_status c = Connected \<longrightarrow> is_current a c \<Longrightarrow> cn_status (schedule_reconnect opts a c) \<noteq> Connected"
  "cn_status c = Connected \<longrightarrow> is_current a c \<Longrightarrow> cn_status (go_to_sleep a c) \<noteq> Connected"
  by (auto simp: schedule_reconnect_def go_to_sleep_def)

section \<open>Every step keeps the invariant\<close>

lemma conn_inv_move:
  assumes "conn_inv c" and "cn_task c \<noteq> NotSpawned" and "cn_task c \<noteq> TaskDone"
    and "attempts_ok c'" and "same_calls c c'"
    and "p \<noteq> NotSpawned" and "p \<noteq> TaskDone" and "p \<noteq> Parked"
    and "\<forall>a. phase_attempt p = Some a \<longrightarrow> a < cn_next c'"
    and "cn_status c' = Connected \<longleftrightarrow> in_session p \<and> cn_attempt c' = phase_attempt p"
    and "\<forall>a. watching p = Some a \<longrightarrow> cn_permit c' \<or> is_current a c'"
  shows "conn_inv (c'\<lparr>cn_task := p\<rparr>)"
  using assms unfolding conn_inv_def
  by (intro conjI task_ok_move permit_ok_move attempts_ok_frame(1) [THEN iffD2]) blast+

text \<open>A move that leaves the rest of the state as it is, possibly after taking the permit.\<close>

lemma conn_inv_stay:
  assumes "conn_inv c" and "phase_attempt (cn_task c) = Some a"
    and "p \<noteq> NotSpawned" and "p \<noteq> TaskDone" and "p \<noteq> Parked"
    and "phase_attempt p \<in> {None, Some a}"
    and "in_session p = in_session (cn_task c)" and "in_session p \<longrightarrow> phase_attempt p = Some a"
    and "watching p \<noteq> None \<longrightarrow> watching p = Some a \<and> (is_current a c \<or> watching (cn_task c) = Some a)"
  shows "conn_inv (c\<lparr>cn_task := p\<rparr>)"
proof -
  have "task_ok c" using assms(1) by (simp add: conn_inv_def)
  note st = task_status [OF this]
  show ?thesis
  proof (rule conn_inv_move [OF assms(1)])
    show "cn_task c \<noteq> NotSpawned" "cn_task c \<noteq> TaskDone" using assms(2) by auto
    show "attempts_ok c" "same_calls c c"
      using assms(1) by (simp_all add: conn_inv_def)
    show "\<forall>b. phase_attempt p = Some b \<longrightarrow> b < cn_next c"
      using st(4) [OF assms(2)] assms(6) by (auto)
    show "cn_status c = Connected \<longleftrightarrow> in_session p \<and> cn_attempt c = phase_attempt p"
      using st(1) st(2,3) [OF assms(2)] assms(7,8) by (auto simp: is_current_def)
    show "\<forall>b. watching p = Some b \<longrightarrow> cn_permit c \<or> is_current b c"
      using assms(1,9) by (auto simp: conn_inv_def permit_ok_def)
  qed (use assms in auto)
qed

lemma conn_inv_take_permit:
  "conn_inv (c\<lparr>cn_task := p\<rparr>) \<Longrightarrow> p \<noteq> Parked \<Longrightarrow> watching p = None \<Longrightarrow>
   conn_inv (c\<lparr>cn_task := p, cn_permit := False\<rparr>)"
  by (simp add: conn_inv_def task_ok_def permit_ok_def)

lemma conn_inv_wake:
  "conn_inv c \<Longrightarrow> cn_task c = Parked \<Longrightarrow> conn_inv (c\<lparr>cn_task := Selecting, cn_permit := False\<rparr>)"
  by (simp add: conn_inv_def task_ok_def permit_ok_def)

lemma task_step_inv:
  assumes "task_step opts c c'" and "conn_inv c"
  shows "conn_inv c'"
proof -
  have ok: "attempts_ok c" "task_ok c" "permit_ok c" using assms(2) by (simp_all add: conn_inv_def)
  note st = task_status [OF ok(2)] and sc = same_calls_ops [OF ok(1)]
  note move = conn_inv_move [OF assms(2)] and stay = conn_inv_stay [OF assms(2)]
  from assms(1) show ?thesis
  proof cases
    case next_terminal
    then show ?thesis using assms(2) by (simp add: conn_inv_def task_ok_def permit_ok_def)
  next
    case (next_attempt a)
    then have "is_current a c" by (simp add: is_current_def)
    then show ?thesis unfolding next_attempt(1)
      using next_attempt current_status [OF ok(1)] st(1) ok(1) by (intro move) auto
  next
    case next_park
    then show ?thesis
      using assms(2) by (simp add: conn_inv_def task_ok_def permit_ok_def)
  next
    case next_wake
    then show ?thesis using assms(2) by (simp add: conn_inv_wake)
  next
    case (retry_check a)
    then show ?thesis by (auto intro!: stay)
  next
    case (retry_wake a)
    then show ?thesis by (auto intro!: stay conn_inv_take_permit)
  next
    case (retry_sleep a)
    then show ?thesis by (auto intro!: stay)
  next
    case (dial_check a d)
    then show ?thesis by (auto intro!: stay)
  next
    case (dial_wake a d)
    then show ?thesis by (auto intro!: stay conn_inv_take_permit)
  next
    case (run_check a)
    then show ?thesis by (auto intro!: stay)
  next
    case (run_wake a)
    then show ?thesis by (auto intro!: stay conn_inv_take_permit)
  next
    case die
    then show ?thesis
      using assms(2) by (auto simp: conn_inv_def task_ok_def permit_ok_def is_terminal_def)
  next
    case (fail_step a e)
    then show ?thesis unfolding fail_step(1)
      using attempts_ok_failed [OF ok(1)] sc(1) st(1) failed_not_connected by (intro move) auto
  next
    case (close_step a)
    then have "is_current a c \<longrightarrow> cn_status c = Connected" "cn_status c = Connected \<longrightarrow> is_current a c"
      using st(2,3) by auto
    then show ?thesis unfolding close_step(1)
      using close_step attempts_ok_schedule [OF ok(1)] sc(2) ended_not_connected(1) by (intro move) auto
  next
    case (run_sleep a w)
    then have c: "is_current a c \<longleftrightarrow> cn_status c = Connected" using st(2,3) by auto
    then have "cn_status (go_to_sleep a c) \<noteq> Connected" and
      "cn_attempt (go_to_sleep a c) \<noteq> Some a" and "a < cn_next (go_to_sleep a c)"
      using run_sleep st(4) by (simp_all add: go_to_sleep_def is_current_def)
    moreover have "attempts_ok (go_to_sleep a c)" using attempts_ok_sleep [OF ok(1), of a] c by blast
    ultimately show ?thesis unfolding run_sleep(1)
      using run_sleep(2) sc(3) by (intro move) simp_all
  next
    case (accept_step a now b c1)
    then have nc: "cn_status c \<noteq> Connected" and lt: "a < cn_next c" using st(1,4) by auto
    have c1: "c1 = snd (accept_connection now a c)" and b: "b = is_current a c"
      using accept_step by (auto simp: accept_connection_def split: if_splits)
    have "attempts_ok c1"
      using ok(1) by (auto simp: c1 accept_connection_def attempts_ok_accept is_current_def)
    then show ?thesis unfolding accept_step(1)
      using accept_step c1 b sc(6) nc lt by (intro move) (auto simp: accept_connection_def is_current_def)
  next
    case (begin_step a b c1)
    then have nc: "cn_status c \<noteq> Connected" and lt: "a < cn_next c" using st(1,4) by auto
    have c1: "c1 = snd (begin_connection a c)" and b: "b = is_current a c"
      using begin_step by (auto simp: begin_connection_def split: if_splits)
    have "attempts_ok c1"
      using ok(1) nc by (auto simp: c1 begin_connection_def attempts_ok_connecting)
    then show ?thesis unfolding begin_step(1)
      using begin_step c1 b sc(4) nc lt by (intro move) (auto simp: begin_connection_def)
  next
    case (dial_admitted a b c1)
    then have nc: "cn_status c \<noteq> Connected" and lt: "a < cn_next c" using st(1,4) by auto
    have c1: "c1 = snd (begin_dial a c)" and b: "b = is_current a c"
      using dial_admitted by (auto simp: begin_dial_def split: if_splits)
    have "attempts_ok c1" using ok(1) by (auto simp: c1 begin_dial_def)
    then show ?thesis unfolding dial_admitted(1)
      using dial_admitted c1 b sc(5) nc lt by (intro move) (auto simp: begin_dial_def is_current_def)
  qed (auto intro!: stay)
qed

lemma request_cases:
  "snd (request_connection k c) = c \<or>
   snd (request_connection k c) = c\<lparr>cn_spawning := Suc (cn_spawning c)\<rparr> \<or>
   cn_attempt c = None \<and> \<not> is_terminal (cn_status c) \<and> cn_status c \<noteq> Connected \<and>
   snd (request_connection k c) =
     (notify_one (set_status Connecting (attempt_new k c)))\<lparr>cn_spawning := Suc (cn_spawning c)\<rparr>"
  by (simp add: request_connection_def status_defs Let_def split: option.split)

lemma caller_step_inv:
  assumes "caller_step c c'" and "conn_inv c"
  shows "conn_inv c'"
  using assms(1)
proof cases
  case (call_request k r)
  have "attempts_ok c'" using attempts_ok_request [of c k] assms(2) call_request by (simp add: conn_inv_def)
  moreover have "task_ok c' \<and> permit_ok c'"
  proof -
    let ?s = "\<lambda>c. c\<lparr>cn_spawning := Suc (cn_spawning c)\<rparr>"
    consider "c' = c" | "c' = ?s c"
      | "cn_attempt c = None" "\<not> is_terminal (cn_status c)" "cn_status c \<noteq> Connected"
        "c' = ?s (notify_one (set_status Connecting (attempt_new k c)))"
      using request_cases [of k c] call_request by auto
    then show ?thesis
    proof cases
      case 3
      then have "phase_attempt (cn_task c) \<noteq> Some (cn_next c)"
        using assms(2) by (auto simp: conn_inv_def task_ok_def)
      then show ?thesis
        using assms(2) 3 by (auto simp: conn_inv_def task_ok_def permit_ok_def is_terminal_def less_SucI)
    qed (use assms(2) in \<open>auto simp: conn_inv_def task_ok_def permit_ok_def is_current_def\<close>)
  qed
  ultimately show ?thesis by (simp add: conn_inv_def)
next
  case (call_stop st)
  have "attempts_ok c'" using attempts_ok_stop [of c st] assms(2) call_stop by (simp add: conn_inv_def)
  moreover have "task_ok c'"
    using assms(2) call_stop
    by (auto simp: conn_inv_def task_ok_def stop_connection_def Let_def status_defs
        split: if_splits option.splits)
  moreover have "permit_ok c'"
    using assms(2) call_stop
    by (auto simp: conn_inv_def permit_ok_def stop_connection_def Let_def split: if_splits option.splits)
  ultimately show ?thesis by (simp add: conn_inv_def)
next
  case (count t)
  then show ?thesis using assms(2) by (simp add: conn_inv_def task_ok_def permit_ok_def is_current_def)
qed

lemma reachable_inv: "cn_reachable opts n c \<Longrightarrow> conn_inv c"
  by (induction rule: cn_reachable.induct)
    (auto simp: conn_inv_new internal_def dest: task_step_inv call_step_inv caller_step_inv)

end
