(* ===== verification/Client_Liveness.thy ===== *)
theory Client_Liveness
  imports Client_Attempts
begin

text \<open>
  What the invariant of Client_Attempts gives to the callers of a connection: statuses that
  agree with what the task does, an answer for everyone who waits, and counters that add up.
\<close>

section \<open>The work left for an attempt\<close>

fun phase_rank :: "task_phase \<Rightarrow> nat" where
  "phase_rank (Retrying _ _) = 7"
| "phase_rank (Beginning _) = 6"
| "phase_rank (Dialing _ _ DialStart) = 5"
| "phase_rank (Dialing _ _ DialPolicy) = 4"
| "phase_rank (Dialing _ _ DialTransport) = 3"
| "phase_rank (Failing _ _) = 2"
| "phase_rank (Accepting _) = 2"
| "phase_rank (Running _ _) = 2"
| "phase_rank (Closing _) = 1"
| "phase_rank Selecting = 8"
| "phase_rank Parked = 9"
| "phase_rank NotSpawned = 9"
| "phase_rank TaskDone = 0"

fun recheck :: "task_phase \<Rightarrow> nat" where
  "recheck (Retrying _ False) = 1"
| "recheck (Dialing _ False _) = 1"
| "recheck (Running _ False) = 1"
| "recheck _ = 0"

text \<open>The phases of an older attempt come before those of the current one.\<close>

definition work_left :: "connection \<Rightarrow> nat \<Rightarrow> nat" where
  "work_left c a =
     10 * (phase_rank (cn_task c) +
           (if phase_attempt (cn_task c) \<in> {None, Some a} then 0 else 8)) +
     2 * of_bool (cn_permit c) + recheck (cn_task c) +
     2 * cn_spawning c + cn_checking c + cn_aborting c"

lemma phase_rank_dialing:
  "phase_rank (Dialing a w d) = (case d of DialStart \<Rightarrow> 5 | DialPolicy \<Rightarrow> 4 | DialTransport \<Rightarrow> 3)"
  by (cases d) simp_all

lemma work_left_bound:
  "work_left c a \<le> 153 + 2 * cn_spawning c + cn_checking c + cn_aborting c"
proof -
  have "phase_rank p \<le> 9 \<and> (phase_attempt p \<noteq> None \<longrightarrow> phase_rank p \<le> 7)" for p
    by (cases p rule: phase_rank.cases) simp_all
  moreover have "recheck p \<le> 1" for p by (induction p rule: recheck.induct) simp_all
  ultimately have "phase_rank p \<le> 9 \<and> (phase_attempt p \<noteq> None \<longrightarrow> phase_rank p \<le> 7) \<and> recheck p \<le> 1"
    for p by blast
  from this [of "cn_task c"] show ?thesis by (auto simp: work_left_def)
qed

lemma pending_current:
  assumes "conn_inv c" and "attempt_pending c a"
  shows "cn_attempt c = Some a" and "\<not> is_terminal (cn_status c)" and "cn_status c \<noteq> Connected"
    and "\<not> cn_aborted c" and "cn_task c \<noteq> TaskDone" and "a < cn_next c"
proof -
  show at: "cn_attempt c = Some a"
    using assms by (auto simp: conn_inv_def attempts_ok_iff)
  show "\<not> is_terminal (cn_status c)" and "cn_status c \<noteq> Connected" and "a < cn_next c"
    using assms at by (auto simp: conn_inv_def attempts_ok_iff is_terminal_def)
  then show "\<not> cn_aborted c" and "cn_task c \<noteq> TaskDone"
    using assms(1) by (auto simp: conn_inv_def task_ok_def)
qed

lemma task_work_decreases:
  assumes "task_step opts c c'" and "conn_inv c" and "attempt_pending c a" and "attempt_pending c' a"
  shows "work_left c' a < work_left c a"
proof -
  note cur = pending_current [OF assms(2,3)]
  note no = cur(2) [unfolded is_terminal_def]
  from assms(1) show ?thesis
  proof cases
    case (begin_step b d c1)
    then show ?thesis using cur by (auto simp: begin_connection_def is_current_def work_left_def split: if_splits)
  next
    case (dial_admitted b d c1)
    then show ?thesis using cur by (auto simp: begin_dial_def is_current_def work_left_def split: if_splits)
  next
    case (fail_step b e)
    then have "b \<noteq> a" using cur assms(4) by (auto simp: connection_failed_def Let_def is_current_def split: if_splits)
    then show ?thesis using fail_step cur by (auto simp: connection_failed_def is_current_def work_left_def)
  next
    case (accept_step b now d c1)
    then have "b \<noteq> a" using cur assms(4) by (auto simp: accept_connection_def is_current_def)
    then show ?thesis using accept_step cur by (auto simp: accept_connection_def is_current_def work_left_def)
  next
    case (close_step b)
    then have "b \<noteq> a" using cur assms(2) by (auto simp: conn_inv_def task_ok_def)
    then show ?thesis using close_step cur by (auto simp: schedule_reconnect_def is_current_def work_left_def)
  next
    case (run_sleep b w)
    then have "b \<noteq> a" using cur assms(2) by (auto simp: conn_inv_def task_ok_def)
    then show ?thesis using run_sleep cur by (auto simp: go_to_sleep_def is_current_def work_left_def)
  next
    case (run_check b)
    then have "b \<noteq> a" using cur assms(2) by (auto simp: conn_inv_def task_ok_def)
    then show ?thesis using run_check cur by (auto simp: is_current_def work_left_def)
  qed (use cur in \<open>auto simp: is_current_def work_left_def phase_rank_dialing split: dial_stage.split\<close>)
qed

lemma internal_work_decreases:
  assumes "internal opts c c'" and "conn_inv c" and "attempt_pending c a" and "attempt_pending c' a"
  shows "work_left c' a < work_left c a"
  using assms(1) unfolding internal_def
proof
  assume "call_step c c'"
  then show ?thesis by cases (auto simp: work_left_def)
qed (use assms(2-4) task_work_decreases in blast)


text \<open>A result stays, and while there is none the task or a call can go on.\<close>

lemma known_op [simp]:
  "a < cn_next c \<Longrightarrow> \<not> attempt_pending c a \<Longrightarrow> \<not> attempt_pending (connection_failed opts b e c) a"
  "a < cn_next c \<Longrightarrow> \<not> attempt_pending c a \<Longrightarrow> \<not> attempt_pending (schedule_reconnect opts b c) a"
  "\<not> attempt_pending c a \<Longrightarrow> \<not> attempt_pending (go_to_sleep b c) a"
  by (simp_all add: connection_failed_def schedule_reconnect_def go_to_sleep_def Let_def)

lemma internal_answered:
  assumes "internal opts c c'" and "a < cn_next c" and "\<not> attempt_pending c a"
  shows "\<not> attempt_pending c' a \<and> a < cn_next c'"
  using assms(1) unfolding internal_def
proof
  assume "task_step opts c c'"
  then show ?thesis
    using assms(2,3)
    by cases (auto simp: begin_connection_def begin_dial_def accept_connection_def
        connection_failed_def schedule_reconnect_def go_to_sleep_def Let_def split: if_splits)
next
  assume "call_step c c'"
  then show ?thesis using assms(2,3) by cases auto
qed

lemma internal_next:
  assumes "internal opts c c'"
  shows "cn_next c \<le> cn_next c'"
  using assms unfolding internal_def
proof
  assume "task_step opts c c'"
  then show ?thesis
    by cases (auto simp: begin_connection_def begin_dial_def accept_connection_def
        connection_failed_def schedule_reconnect_def go_to_sleep_def Let_def split: if_splits)
next
  assume "call_step c c'"
  then show ?thesis by cases auto
qed

lemma internal_possible:
  assumes "conn_inv c" and "attempt_pending c a"
  shows "\<exists>c'. internal opts c c'"
proof -
  note cur = pending_current [OF assms]
  show ?thesis
  proof (cases "cn_task c")
    case NotSpawned
    then have "0 < cn_spawning c" using assms(1) cur(1) by (auto simp: conn_inv_def task_ok_def)
    then obtain n where "cn_spawning c = Suc n" by (cases "cn_spawning c") auto
    then show ?thesis unfolding internal_def using call_step.spawn by blast
  next
    case Parked
    then have "cn_permit c" using assms(1) cur(1) by (auto simp: conn_inv_def permit_ok_def)
    then show ?thesis unfolding internal_def using Parked task_step.next_wake by blast
  next
    case (Retrying b w)
    then have "\<exists>c'. task_step opts c c'"
      using task_step.retry_check [of c b opts] task_step.retry_sleep [of c b opts] by (cases w) metis+
    then show ?thesis unfolding internal_def by blast
  next
    case (Dialing b w d)
    then consider "cn_task c = Dialing b False d" | "cn_task c = Dialing b True DialStart"
      | "cn_task c = Dialing b True d" "d \<noteq> DialStart"
      by (cases w; cases "d = DialStart") simp_all
    then have "\<exists>c'. task_step opts c c'"
    proof cases
      case 1
      then show ?thesis using task_step.dial_check [of c b d opts] by metis
    next
      case 2
      then show ?thesis using task_step.dial_start [of c b opts] by metis
    next
      case 3
      then show ?thesis using task_step.dial_expired [of c b d opts] by metis
    qed
    then show ?thesis unfolding internal_def by blast
  next
    case (Beginning b)
    then show ?thesis unfolding internal_def by (metis task_step.begin_step surj_pair)
  next
    case (Accepting b)
    then show ?thesis unfolding internal_def by (metis task_step.accept_step surj_pair)
  next
    case Selecting
    then show ?thesis unfolding internal_def using task_step.next_attempt cur(1,2) by blast
  next
    case (Failing b e)
    then show ?thesis unfolding internal_def using task_step.fail_step by blast
  next
    case (Running b w)
    then show ?thesis unfolding internal_def using task_step.run_end by blast
  next
    case (Closing b)
    then show ?thesis unfolding internal_def using task_step.close_step by blast
  qed (use cur in simp)
qed

lemma internal_inv: "internal opts c c' \<Longrightarrow> conn_inv c \<Longrightarrow> conn_inv c'"
  by (auto simp: internal_def dest: task_step_inv call_step_inv)

lemma internal_run_answers:
  assumes "(internal opts ^^ n) c c'" and "conn_inv c" and "attempt_pending c a"
  shows "\<not> attempt_pending c' a \<and> a < cn_next c' \<or>
    conn_inv c' \<and> attempt_pending c' a \<and> work_left c' a + n \<le> work_left c a"
  using assms
proof (induction n arbitrary: c')
  case (Suc n)
  then obtain d where d: "(internal opts ^^ n) c d" "internal opts d c'" by auto
  from Suc.IH [OF d(1) Suc.prems(2,3)] show ?case
  proof
    assume "\<not> attempt_pending d a \<and> a < cn_next d"
    then show ?case using internal_answered [OF d(2)] by blast
  next
    assume h: "conn_inv d \<and> attempt_pending d a \<and> work_left d a + n \<le> work_left c a"
    then have "conn_inv c'" using internal_inv [OF d(2)] by blast
    moreover have "\<not> attempt_pending c' a \<Longrightarrow> a < cn_next c'"
      using h pending_current(6) [of d a] internal_next [OF d(2)] by simp
    ultimately show ?case using internal_work_decreases [OF d(2)] h by fastforce
  qed
qed simp


section \<open>Properties\<close>

lemma terminal_step:
  assumes "conn_inv c" and "is_terminal (cn_status c)" and "internal opts c c' \<or> caller_step c c'"
  shows "cn_status c' = cn_status c"
proof -
  have none: "cn_attempt c = None"
    using assms(1,2) by (auto simp: conn_inv_def attempts_ok_iff is_terminal_def split: option.splits)
  have "cn_status c' = cn_status c" if "task_step opts c c'"
    using that none
    by cases (auto simp: begin_connection_def begin_dial_def accept_connection_def
        connection_failed_def schedule_reconnect_def go_to_sleep_def is_current_def)
  moreover have "cn_status c' = cn_status c" if "call_step c c'"
    using that by cases auto
  moreover have "cn_status c' = cn_status c" if "caller_step c c'"
    using that assms(2)
    by cases (auto simp: request_connection_def stop_connection_def status_defs split: if_splits)
  ultimately show ?thesis using assms(3) unfolding internal_def by blast
qed


text \<open>
  C27: A caller that waits for an attempt gets its result: as long as there is none the task or a
  call can take a step, and within a bounded number of their steps, whatever the policy, the
  transport and the timers do, the result is there.
\<close>

theorem waiter_gets_result:
  assumes "cn_reachable opts n c" and "attempt_pending c a"
  shows "(\<exists>c'. internal opts c c') \<and>
    (\<forall>k c'. (internal opts ^^ k) c c' \<and>
       153 + 2 * cn_spawning c + cn_checking c + cn_aborting c < k \<longrightarrow> \<not> attempt_pending c' a)"
proof (intro conjI allI impI)
  have inv: "conn_inv c" using assms(1) by (rule reachable_inv)
  then show "\<exists>c'. internal opts c c'" using assms(2) by (rule internal_possible)
  fix k c'
  assume k: "(internal opts ^^ k) c c' \<and>
    153 + 2 * cn_spawning c + cn_checking c + cn_aborting c < k"
  then show "\<not> attempt_pending c' a"
    using internal_run_answers [OF _ inv assms(2), of k opts c'] work_left_bound [of c a] by fastforce
qed

text \<open>The counters of the statistics: every success belongs to an attempt that was counted.\<close>

definition counters_ok :: "nat \<Rightarrow> connection \<Rightarrow> bool" where
  "counters_ok n c \<longleftrightarrow>
     attempts (cn_stats c) \<le> n \<and>
     success (cn_stats c) +
       (case cn_task c of Dialing _ _ DialTransport \<Rightarrow> 1 | Accepting _ \<Rightarrow> 1 | _ \<Rightarrow> 0)
     \<le> attempts (cn_stats c)"

lemma stats_ops [simp]:
  "cn_stats (connection_failed opts a e c) = cn_stats c"
  "cn_stats (schedule_reconnect opts a c) = cn_stats c"
  "cn_stats (go_to_sleep a c) = cn_stats c"
  "cn_stats (stop_connection st c) = cn_stats c"
  "cn_stats (snd (request_connection k c)) = cn_stats c"
  "cn_task (stop_connection st c) = cn_task c"
  "cn_task (snd (request_connection k c)) = cn_task c"
  by (simp_all add: section_defs Let_def split: option.split)

lemma counter_steps:
  "attempts s < 2 ^ 64 - 1 \<Longrightarrow> attempts (new_attempt s) = Suc (attempts s)"
  "success (new_attempt s) = success s"
  "attempts (new_success now s) = attempts s"
  "success s < 2 ^ 64 - 1 \<Longrightarrow> success (new_success now s) = Suc (success s)"
  by (auto simp: new_attempt_def new_success_def usize_wrapping_add_def Let_def)

lemma counters_internal:
  assumes "internal opts c c'" and "counters_ok n c" and "Suc n < 2 ^ 64"
  shows "counters_ok (Suc n) c'"
  using assms(1) unfolding internal_def
proof
  assume "task_step opts c c'"
  then show ?thesis
  proof cases
    case (dial_admitted a b c1)
    then show ?thesis
      using assms(2,3)
      by (auto simp: counters_ok_def begin_dial_def counter_steps(1,2) split: if_splits)
  next
    case (accept_step a now b c1)
    then show ?thesis
      using assms(2,3)
      by (auto simp: counters_ok_def accept_connection_def counter_steps(3,4) split: if_splits)
  next
    case (begin_step a b c1)
    then show ?thesis
      using assms(2) by (auto simp: counters_ok_def begin_connection_def split: if_splits)
  qed (use assms(2) in \<open>auto simp: counters_ok_def split: dial_stage.splits\<close>)
next
  assume "call_step c c'"
  then show ?thesis using assms(2) by cases (auto simp: counters_ok_def)
qed

lemma counters_caller:
  assumes "caller_step c c'" and "counters_ok n c"
  shows "counters_ok (Suc n) c'"
  using assms(1)
proof cases
  case (call_request k r)
  then have "c' = snd (request_connection k c)" by simp
  then show ?thesis using assms(2) by (simp add: counters_ok_def)
qed (use assms(2) in \<open>auto simp: counters_ok_def\<close>)

lemma counters_reachable: "cn_reachable opts n c \<Longrightarrow> n < 2 ^ 64 \<Longrightarrow> counters_ok n c"
proof (induction rule: cn_reachable.induct)
  case (cn_start n)
  then show ?case by (simp add: counters_ok_def initial_connection_def stats_default_def)
qed (auto intro: counters_internal counters_caller)

text \<open>
  As long as the counters do not wrap around, a connection never counts more successes than
  attempts, so that the success rate is at most one.
\<close>

lemma success_at_most_attempts:
  assumes "cn_reachable opts n c" and "n < 2 ^ 64"
  shows "success (cn_stats c) \<le> attempts (cn_stats c) \<and> attempts (cn_stats c) \<le> n"
  using counters_reachable [OF assms(1,2)] by (simp add: counters_ok_def)


section \<open>A connection that is established\<close>

definition ref_connecting :: "task_phase \<Rightarrow> stats \<Rightarrow> nat \<Rightarrow> nat \<Rightarrow> connection" where
  "ref_connecting p s spawning checking =
     \<lparr>cn_status = Connecting, cn_attempt = Some 0,
      cn_heap = [0 \<mapsto> \<lparr>at_kind = Background, at_result = None\<rparr>], cn_next = 1, cn_stats = s,
      cn_task = p, cn_permit = True, cn_aborted = False, cn_spawning = spawning,
      cn_checking = checking, cn_aborting = 0, cn_published = [Connecting]\<rparr>"

definition ref_connected :: connection where
  "ref_connected =
     (snd (accept_connection 100 0 (ref_connecting (Accepting 0) (new_attempt stats_default) 0 0)))
       \<lparr>cn_task := Running 0 False\<rparr>"

lemmas ref_connection_defs = ref_connecting_def initial_connection_def request_connection_def
  attempt_new_def set_status_def notify_one_def begin_connection_def begin_dial_def is_current_def
  status_defs Let_def default_options_def dial_timeout_def nanos_per_sec_def

lemma ref_requested: "cn_reachable default_options 1 (ref_connecting NotSpawned stats_default 1 0)"
  using cn_caller [OF cn_start [of default_options 0] caller_step.call_request [of Background]]
  by (simp add: ref_connection_defs)

lemma ref_dialing:
  "cn_reachable default_options 4 (ref_connecting (Beginning 0) stats_default 0 0)"
proof -
  let ?r = "\<lambda>p i j. ref_connecting p stats_default i j"
  have "internal default_options (?r NotSpawned 1 0) (?r Selecting 0 1)"
    using call_step.spawn [of "?r NotSpawned 1 0" 0] by (simp add: internal_def ref_connecting_def)
  moreover have "internal default_options (?r Selecting 0 1) (?r Selecting 0 0)"
    using call_step.check [of "?r Selecting 0 1" 0]
    by (simp add: internal_def ref_connecting_def is_terminal_def)
  moreover have "internal default_options (?r Selecting 0 0) (?r (Beginning 0) 0 0)"
    using task_step.next_attempt [of "?r Selecting 0 0" 0]
    by (simp add: internal_def ref_connecting_def is_terminal_def is_disconnected_def)
  ultimately show ?thesis
    using cn_internal [OF cn_internal [OF cn_internal [OF ref_requested]]] by (simp add: eval_nat_numeral)
qed

lemma ref_accepting:
  "cn_reachable default_options 9 (ref_connecting (Accepting 0) (new_attempt stats_default) 0 0)"
proof -
  let ?r = "\<lambda>p. ref_connecting p stats_default 0 0"
  let ?t = "\<lambda>p. ref_connecting p (new_attempt stats_default) 0 0"
  have "internal default_options (?r (Beginning 0)) (?r (Dialing 0 False DialStart))"
    using task_step.begin_step [of "?r (Beginning 0)" 0 True "?r (Beginning 0)"]
    by (simp add: internal_def ref_connection_defs)
  moreover have "internal default_options (?r (Dialing 0 False DialStart)) (?r (Dialing 0 True DialStart))"
    using task_step.dial_check [of "?r (Dialing 0 False DialStart)" 0 DialStart]
    by (simp add: internal_def ref_connection_defs)
  moreover have "internal default_options (?r (Dialing 0 True DialStart)) (?r (Dialing 0 True DialPolicy))"
    using task_step.dial_start [of "?r (Dialing 0 True DialStart)" 0 default_options 0]
    by (simp add: internal_def ref_connection_defs)
  moreover have "internal default_options (?r (Dialing 0 True DialPolicy)) (?t (Dialing 0 True DialTransport))"
    using task_step.dial_admitted [of "?r (Dialing 0 True DialPolicy)" 0 True "?t (Dialing 0 True DialPolicy)"]
    by (simp add: internal_def ref_connection_defs)
  moreover have "internal default_options (?t (Dialing 0 True DialTransport)) (?t (Accepting 0))"
    using task_step.dial_connected [of "?t (Dialing 0 True DialTransport)" 0]
    by (simp add: internal_def ref_connection_defs)
  ultimately show ?thesis
    using cn_internal [OF cn_internal [OF cn_internal [OF cn_internal [OF cn_internal [OF ref_dialing]]]]]
    by (simp add: eval_nat_numeral)
qed

lemma ref_connected_reachable: "cn_reachable default_options 10 ref_connected"
proof -
  let ?c = "ref_connecting (Accepting 0) (new_attempt stats_default) 0 0"
  have b: "accept_connection 100 0 ?c = (True, snd (accept_connection 100 0 ?c))"
    by (simp add: accept_connection_def is_current_def ref_connecting_def)
  have "cn_task ?c = Accepting 0" by (simp add: ref_connecting_def)
  from task_step.accept_step [OF this b, of default_options]
  have "internal default_options ?c ref_connected" by (simp add: internal_def ref_connected_def)
  from cn_internal [OF ref_accepting this] show ?thesis by simp
qed

lemma ref_connected_facts:
  "cn_status ref_connected = Connected" "cn_task ref_connected = Running 0 False"
  "success (cn_stats ref_connected) = 1" "attempts (cn_stats ref_connected) = 1"
  by (simp_all add: ref_connected_def ref_connecting_def accept_connection_def is_current_def
      new_success_def new_attempt_def stats_default_def usize_wrapping_add_def Let_def)


lemma waiter_gets_result_witness:
  "\<exists>c'. internal default_options (ref_connecting NotSpawned stats_default 1 0) c'"
  using waiter_gets_result [OF ref_requested, of 0]
  by (simp add: attempt_pending_def ref_connecting_def)

lemma success_at_most_attempts_witness:
  "success (cn_stats ref_connected) \<le> attempts (cn_stats ref_connected)"
  using success_at_most_attempts [OF ref_connected_reachable] by simp

end
