(* ===== verification/Client_Subscriptions.thy ===== *)
theory Client_Subscriptions
  imports Client_Liveness
begin

text \<open>
  The subscriptions of the client at a relay and the queue of messages to it
  (nostr-sdk/src/relay/inner.rs and api/subscribe.rs): registering, sending, restoring after a
  reconnection, reissuing, and what the sender of a session does with the queue.

  Every operation that holds the lock of the subscriptions is one function. The counter of the
  \<open>REQ\<close>s that are queued for a subscription is a shared object: a number that is never used
  again. A message is the message itself, not its text. \<open>send_msg\<close> is modelled up to the point
  where the message is queued; waiting for the confirmation of the sender is left out.
\<close>

section \<open>The state\<close>

record subscription_data =
  sd_filters :: "filter list"
  sd_subscribed_connection :: nat
  sd_is_auto_closing :: bool
  sd_acquisition :: "nat option"
  sd_received_eose :: bool
  sd_received_events :: nat
  sd_closed :: bool
  sd_pending_req_counter :: "nat option"

record pending_req =
  pr_subscription_id :: string
  pr_counter :: nat

record message_item =
  mi_msg :: client_message
  mi_pending_req :: "pending_req option"

text \<open>\<open>cl_hand\<close> is the message the sender of the session has taken from the queue.\<close>

record client =
  cl_conn :: connection
  cl_subs :: "string \<Rightarrow> subscription_data option"
  cl_queue :: "message_item list"
  cl_hand :: "message_item option"
  cl_counters :: "nat \<Rightarrow> nat"
  cl_next_counter :: nat
  cl_wire :: "client_message list"

definition client_new :: client where
  "client_new =
     \<lparr>cl_conn = initial_connection, cl_subs = Map.empty, cl_queue = [], cl_hand = None,
      cl_counters = (\<lambda>_. 0), cl_next_counter = 0, cl_wire = []\<rparr>"

definition CHANNEL_SIZE :: nat where "CHANNEL_SIZE = 1024"

definition err_dispatcher :: sdk_error where
  "err_dispatcher = SdkError KState ''can't send message to the transport dispatcher''"

definition err_id_exists :: sdk_error where
  "err_id_exists = SdkError KInvalid ''subscription ID already exists''"

definition err_subscription_not_found :: sdk_error where
  "err_subscription_not_found = SdkError KNotFound ''subscription not found''"

definition err_filters_empty :: sdk_error where
  "err_filters_empty = SdkError KInvalid ''filters cannot be empty''"

section \<open>Counted requests and the queue\<close>

definition track :: "string \<Rightarrow> nat \<Rightarrow> client \<Rightarrow> pending_req \<times> client" where
  "track sid k cl =
     (\<lparr>pr_subscription_id = sid, pr_counter = k\<rparr>,
      cl\<lparr>cl_counters := (cl_counters cl)(k := Suc (cl_counters cl k))\<rparr>)"

text \<open>The saturating decrement of \<open>PendingReq::drop\<close>.\<close>

definition drop_pending :: "pending_req option \<Rightarrow> client \<Rightarrow> client" where
  "drop_pending p cl =
     (case p of
        None \<Rightarrow> cl
      | Some r \<Rightarrow>
          cl\<lparr>cl_counters := (cl_counters cl)(pr_counter r := cl_counters cl (pr_counter r) - 1)\<rparr>)"

definition has_pending :: "client \<Rightarrow> subscription_data \<Rightarrow> bool" where
  "has_pending cl d \<longleftrightarrow>
     (case sd_pending_req_counter d of None \<Rightarrow> False | Some k \<Rightarrow> 0 < cl_counters cl k)"

definition send_client_msg :: "message_item \<Rightarrow> client \<Rightarrow> (sdk_error + unit) \<times> client" where
  "send_client_msg it cl =
     (if length (cl_queue cl) < CHANNEL_SIZE
      then (Inr (), cl\<lparr>cl_queue := cl_queue cl @ [it]\<rparr>)
      else (Inl err_dispatcher, drop_pending (mi_pending_req it) cl))"

definition send_client_msgs :: "message_item list \<Rightarrow> client \<Rightarrow> (sdk_error + unit) \<times> client" where
  "send_client_msgs its cl =
     (if length (cl_queue cl) + length its \<le> CHANNEL_SIZE
      then (Inr (), cl\<lparr>cl_queue := cl_queue cl @ its\<rparr>)
      else (Inl err_dispatcher, foldl (\<lambda>cl it. drop_pending (mi_pending_req it) cl) cl its))"

section \<open>Subscription data\<close>

definition long_lived :: "filter list \<Rightarrow> nat \<Rightarrow> nat \<Rightarrow> subscription_data" where
  "long_lived fs subscribed_connection k =
     \<lparr>sd_filters = fs, sd_subscribed_connection = subscribed_connection,
      sd_is_auto_closing = False, sd_acquisition = None, sd_received_eose = False,
      sd_received_events = 0, sd_closed = False, sd_pending_req_counter = Some k\<rparr>"

definition auto_closing :: "filter list \<Rightarrow> nat option \<Rightarrow> subscription_data" where
  "auto_closing fs acquisition =
     \<lparr>sd_filters = fs, sd_subscribed_connection = 0, sd_is_auto_closing = True,
      sd_acquisition = acquisition, sd_received_eose = False, sd_received_events = 0,
      sd_closed = False, sd_pending_req_counter = None\<rparr>"

definition needs_restore :: "client \<Rightarrow> nat \<Rightarrow> subscription_data \<Rightarrow> bool" where
  "needs_restore cl current d \<longleftrightarrow>
     (if sd_is_auto_closing d then False
      else if has_pending cl d then False
      else if sd_closed d then True
      else sd_subscribed_connection d < current)"

definition current_connection :: "client \<Rightarrow> nat" where
  "current_connection cl = success (cn_stats (cl_conn cl))"

definition delivery_connection :: "client \<Rightarrow> nat" where
  "delivery_connection cl =
     (if is_connected (cn_status (cl_conn cl)) then current_connection cl
      else current_connection cl + 1)"

definition add_long_lived_subscription ::
  "string \<Rightarrow> filter list \<Rightarrow> client \<Rightarrow> (sdk_error + unit) \<times> client" where
  "add_long_lived_subscription sid fs cl =
     (if cl_subs cl sid \<noteq> None then (Inl err_id_exists, cl)
      else (Inr (),
            cl\<lparr>cl_subs := (cl_subs cl)
                 (sid \<mapsto> long_lived fs (delivery_connection cl) (cl_next_counter cl)),
               cl_counters := (cl_counters cl)(cl_next_counter cl := 0),
               cl_next_counter := Suc (cl_next_counter cl)\<rparr>))"

definition register_auto_closing_subscription ::
  "string \<Rightarrow> filter list \<Rightarrow> nat option \<Rightarrow> client \<Rightarrow> (sdk_error + unit) \<times> client" where
  "register_auto_closing_subscription sid fs acquisition cl =
     (if cl_subs cl sid \<noteq> None then (Inl err_id_exists, cl)
      else (Inr (), cl\<lparr>cl_subs := (cl_subs cl)(sid \<mapsto> auto_closing fs acquisition)\<rparr>))"

definition update_auto_closing_subscription ::
  "string \<Rightarrow> filter list \<Rightarrow> client \<Rightarrow> (sdk_error + unit) \<times> client" where
  "update_auto_closing_subscription sid fs cl =
     (case cl_subs cl sid of
        None \<Rightarrow> (Inl err_subscription_not_found, cl)
      | Some d \<Rightarrow>
          (Inr (), cl\<lparr>cl_subs := (cl_subs cl)(sid \<mapsto> auto_closing fs (sd_acquisition d))\<rparr>))"

definition update_data ::
  "string \<Rightarrow> (subscription_data \<Rightarrow> subscription_data) \<Rightarrow> client \<Rightarrow> client" where
  "update_data sid f cl =
     (case cl_subs cl sid of
        None \<Rightarrow> cl
      | Some d \<Rightarrow> cl\<lparr>cl_subs := (cl_subs cl)(sid \<mapsto> f d)\<rparr>)"

definition forget_subscription :: "string \<Rightarrow> client \<Rightarrow> client" where
  "forget_subscription sid cl = cl\<lparr>cl_subs := (cl_subs cl)(sid := None)\<rparr>"

definition subscription_closed :: "string \<Rightarrow> client \<Rightarrow> client" where
  "subscription_closed sid = update_data sid (\<lambda>d. d\<lparr>sd_closed := True\<rparr>)"

definition received_eose :: "string \<Rightarrow> client \<Rightarrow> client" where
  "received_eose sid = update_data sid (\<lambda>d. d\<lparr>sd_received_eose := True\<rparr>)"

text \<open>What a new \<open>REQ\<close> resets.\<close>

definition new_req_data :: "nat \<Rightarrow> subscription_data \<Rightarrow> subscription_data" where
  "new_req_data current d =
     d\<lparr>sd_subscribed_connection := current, sd_closed := False, sd_received_eose := False,
       sd_received_events := 0\<rparr>"

definition subscription_req_started :: "pending_req \<Rightarrow> client \<Rightarrow> client" where
  "subscription_req_started r cl =
     (case cl_subs cl (pr_subscription_id r) of
        None \<Rightarrow> cl
      | Some d \<Rightarrow>
          if sd_pending_req_counter d \<noteq> Some (pr_counter r) then cl
          else update_data (pr_subscription_id r) (new_req_data (current_connection cl)) cl)"

section \<open>Checks before a message is queued\<close>

definition msg_is_event :: "client_message \<Rightarrow> bool" where
  "msg_is_event m \<longleftrightarrow> (case m of CEvent _ \<Rightarrow> True | _ \<Rightarrow> False)"

definition msg_is_req :: "client_message \<Rightarrow> bool" where
  "msg_is_req m \<longleftrightarrow> (case m of CReq _ _ \<Rightarrow> True | _ \<Rightarrow> False)"

definition msg_is_close :: "client_message \<Rightarrow> bool" where
  "msg_is_close m \<longleftrightarrow> (case m of CClose _ \<Rightarrow> True | _ \<Rightarrow> False)"

definition ensure_msg_allowed :: "relay_capabilities \<Rightarrow> client_message \<Rightarrow> sdk_error + unit" where
  "ensure_msg_allowed caps m =
     (if \<not> can_write caps \<and> msg_is_event m then Inl err_write_disabled
      else if \<not> can_read caps \<and> (msg_is_req m \<or> msg_is_close m) then Inl err_read_disabled
      else Inr ())"

definition connection_is_bad :: "relay_options \<Rightarrow> timestamp \<Rightarrow> relay_status \<Rightarrow> stats \<Rightarrow> bool" where
  "connection_is_bad opts now st s \<longleftrightarrow>
     \<not> is_connected st \<and> MIN_ATTEMPTS < attempts s \<and>
     f64_less (success_rate s) MIN_SUCCESS_RATE \<and>
     ts_add (woke_up_at s) (opt_connect_timeout opts div nanos_per_sec) < now"

definition latency_too_high :: "relay_options \<Rightarrow> stats \<Rightarrow> bool" where
  "latency_too_high opts s \<longleftrightarrow>
     (case opt_max_avg_latency opts of
        None \<Rightarrow> False
      | Some m \<Rightarrow> (case latency_ms s of None \<Rightarrow> False | Some l \<Rightarrow> m < l * 1000000))"

text \<open>\<open>status\<close> is read once, at the start. The activity of a sleeping relay wakes it up.\<close>

definition ensure_operational ::
  "relay_options \<Rightarrow> timestamp \<Rightarrow> connection \<Rightarrow> (sdk_error + unit) \<times> connection" where
  "ensure_operational opts now c =
     (let st = cn_status c in
      if is_initialized st then (Inl err_not_ready, c)
      else if is_banned st then (Inl err_banned, c)
      else
        (let enabled = sleep_is_enabled (opt_sleep_when_idle opts);
             c = (if enabled then c\<lparr>cn_stats := update_activity now (cn_stats c)\<rparr> else c);
             c = (if enabled \<and> is_sleeping st
                  then (let c = snd (request_connection Background c)
                        in c\<lparr>cn_stats := just_woke_up now (cn_stats c)\<rparr>)
                  else c)
         in if \<not> enabled \<and> is_sleeping st then (Inl err_sleeping, c)
            else if connection_is_bad opts now st (cn_stats c) then (Inl err_not_connected, c)
            else if latency_too_high opts (cn_stats c)
              then (Inl (SdkError KLimitExceeded ''maximum latency exceeded''), c)
            else (Inr (), c)))"

section \<open>Queueing messages\<close>

definition check_operational ::
  "relay_options \<Rightarrow> timestamp \<Rightarrow> client \<Rightarrow> (sdk_error + unit) \<times> client" where
  "check_operational opts now cl =
     (let (r, c) = ensure_operational opts now (cl_conn cl) in (r, cl\<lparr>cl_conn := c\<rparr>))"

text \<open>\<open>counter.track\<close> for a registered subscription that has a counter.\<close>

definition track_req ::
  "client_message \<Rightarrow> client \<Rightarrow> pending_req option \<times> client" where
  "track_req m cl =
     (case m of
        CReq sid _ \<Rightarrow>
          (case cl_subs cl sid of
             None \<Rightarrow> (None, cl)
           | Some d \<Rightarrow>
               (case sd_pending_req_counter d of
                  None \<Rightarrow> (None, cl)
                | Some k \<Rightarrow> (let (p, cl) = track sid k cl in (Some p, cl))))
      | _ \<Rightarrow> (None, cl))"

definition queue_msg :: "client_message \<Rightarrow> client \<Rightarrow> (sdk_error + unit) \<times> client" where
  "queue_msg m cl =
     (let (p, cl) = track_req m cl
      in send_client_msg \<lparr>mi_msg = m, mi_pending_req = p\<rparr> cl)"

definition relay_send_msg ::
  "relay_options \<Rightarrow> relay_capabilities \<Rightarrow> timestamp \<Rightarrow> client_message \<Rightarrow> client \<Rightarrow>
   (sdk_error + unit) \<times> client" where
  "relay_send_msg opts caps now m cl =
     (case check_operational opts now cl of
        (Inl e, cl) \<Rightarrow> (Inl e, cl)
      | (Inr _, cl) \<Rightarrow>
          if \<not> can_write caps \<and> msg_is_event m then (Inl err_write_disabled, cl)
          else if \<not> can_read caps \<and> (msg_is_req m \<or> msg_is_close m) then (Inl err_read_disabled, cl)
          else queue_msg m cl)"

fun first_not_allowed :: "relay_capabilities \<Rightarrow> client_message list \<Rightarrow> sdk_error + unit" where
  "first_not_allowed caps [] = Inr ()"
| "first_not_allowed caps (m # ms) =
     (case ensure_msg_allowed caps m of Inl e \<Rightarrow> Inl e | Inr _ \<Rightarrow> first_not_allowed caps ms)"

fun track_all :: "client_message list \<Rightarrow> client \<Rightarrow> message_item list \<times> client" where
  "track_all [] cl = ([], cl)"
| "track_all (m # ms) cl =
     (let (p, cl) = track_req m cl; (its, cl) = track_all ms cl
      in (\<lparr>mi_msg = m, mi_pending_req = p\<rparr> # its, cl))"

definition send_msg_batch ::
  "relay_options \<Rightarrow> relay_capabilities \<Rightarrow> timestamp \<Rightarrow> client_message list \<Rightarrow> client \<Rightarrow>
   (sdk_error + unit) \<times> client" where
  "send_msg_batch opts caps now ms cl =
     (case check_operational opts now cl of
        (Inl e, cl) \<Rightarrow> (Inl e, cl)
      | (Inr _, cl) \<Rightarrow>
          (case first_not_allowed caps ms of
             Inl e \<Rightarrow> (Inl e, cl)
           | Inr _ \<Rightarrow> (let (its, cl) = track_all ms cl in send_client_msgs its cl)))"

section \<open>Restoring and reissuing\<close>

text \<open>
  \<open>queue_resubscription\<close>. The checks run in the order of the code; the item is dropped with the
  counted request in it when one of them fails.
\<close>

definition try_queue ::
  "relay_options \<Rightarrow> relay_capabilities \<Rightarrow> timestamp \<Rightarrow> message_item \<Rightarrow> client \<Rightarrow>
   (sdk_error + unit) \<times> client" where
  "try_queue opts caps now it cl =
     (case check_operational opts now cl of
        (Inl e, cl) \<Rightarrow> (Inl e, drop_pending (mi_pending_req it) cl)
      | (Inr _, cl) \<Rightarrow>
          (case ensure_msg_allowed caps (mi_msg it) of
             Inl e \<Rightarrow> (Inl e, drop_pending (mi_pending_req it) cl)
           | Inr _ \<Rightarrow> send_client_msg it cl))"

definition queue_resubscription ::
  "relay_options \<Rightarrow> relay_capabilities \<Rightarrow> timestamp \<Rightarrow> string \<Rightarrow> client \<Rightarrow>
   (sdk_error + bool) \<times> client" where
  "queue_resubscription opts caps now sid cl =
     (let current = current_connection cl in
      case cl_subs cl sid of
        None \<Rightarrow> (Inr False, cl)
      | Some d \<Rightarrow>
          if sd_filters d = [] \<or> \<not> needs_restore cl current d then (Inr False, cl)
          else
            (let (p, cl) =
               (case sd_pending_req_counter d of
                  None \<Rightarrow> (None, cl)
                | Some k \<Rightarrow> (let (p, cl) = track sid k cl in (Some p, cl)));
                 it = \<lparr>mi_msg = CReq sid (sd_filters d), mi_pending_req = p\<rparr>;
                 cl = update_data sid (new_req_data current) cl
             in case try_queue opts caps now it cl of
                  (Inl e, cl) \<Rightarrow> (Inl e, update_data sid (\<lambda>d. d\<lparr>sd_closed := True\<rparr>) cl)
                | (Inr _, cl) \<Rightarrow> (Inr True, cl)))"

text \<open>The ids are those of the long-lived subscriptions, in the order of the hash map.\<close>

fun resubscribe ::
  "relay_options \<Rightarrow> relay_capabilities \<Rightarrow> timestamp \<Rightarrow> string list \<Rightarrow> client \<Rightarrow>
   (sdk_error + unit) \<times> client" where
  "resubscribe opts caps now [] cl = (Inr (), cl)"
| "resubscribe opts caps now (sid # sids) cl =
     (case queue_resubscription opts caps now sid cl of
        (Inl e, cl) \<Rightarrow> (Inl e, cl)
      | (Inr _, cl) \<Rightarrow> resubscribe opts caps now sids cl)"

definition reissue_subscription ::
  "relay_options \<Rightarrow> relay_capabilities \<Rightarrow> timestamp \<Rightarrow> string \<Rightarrow> client \<Rightarrow>
   (sdk_error + unit) \<times> client" where
  "reissue_subscription opts caps now sid cl =
     (case check_operational opts now cl of
        (Inl e, cl) \<Rightarrow> (Inl e, cl)
      | (Inr _, cl) \<Rightarrow>
          if \<not> can_read caps then (Inl err_read_disabled, cl)
          else
            (case cl_subs cl sid of
               None \<Rightarrow> (Inl err_subscription_not_found, cl)
             | Some d \<Rightarrow>
                 if sd_is_auto_closing d
                 then (Inl (SdkError KInvalid ''auto-closing subscriptions can't be reissued''), cl)
                 else
                   (let (p, cl) =
                      (case sd_pending_req_counter d of
                         None \<Rightarrow> (None, cl)
                       | Some k \<Rightarrow> (let (p, cl) = track sid k cl in (Some p, cl)))
                    in send_client_msgs
                         [\<lparr>mi_msg = CClose sid, mi_pending_req = None\<rparr>,
                          \<lparr>mi_msg = CReq sid (sd_filters d), mi_pending_req = p\<rparr>] cl)))"

section \<open>Subscribing and unsubscribing\<close>

text \<open>Two steps, the registration and the \<open>REQ\<close>: other threads may run in between.\<close>

definition subscribe_long_lived ::
  "relay_options \<Rightarrow> relay_capabilities \<Rightarrow> timestamp \<Rightarrow> string \<Rightarrow> filter list \<Rightarrow> client \<Rightarrow>
   (sdk_error + unit) \<times> client" where
  "subscribe_long_lived opts caps now sid fs cl =
     (if fs = [] then (Inl err_filters_empty, cl)
      else
        (case add_long_lived_subscription sid fs cl of
           (Inl e, cl) \<Rightarrow> (Inl e, cl)
         | (Inr _, cl) \<Rightarrow>
             (case relay_send_msg opts caps now (CReq sid fs) cl of
                (Inl e, cl) \<Rightarrow> (Inl e, forget_subscription sid cl)
              | (Inr _, cl) \<Rightarrow> (Inr (), cl))))"

definition subscribe_auto_closing ::
  "relay_options \<Rightarrow> relay_capabilities \<Rightarrow> timestamp \<Rightarrow> string \<Rightarrow> filter list \<Rightarrow> client \<Rightarrow>
   (sdk_error + unit) \<times> client" where
  "subscribe_auto_closing opts caps now sid fs cl =
     (if fs = [] then (Inl err_filters_empty, cl)
      else
        (case register_auto_closing_subscription sid fs None cl of
           (Inl e, cl) \<Rightarrow> (Inl e, cl)
         | (Inr _, cl) \<Rightarrow>
             (case relay_send_msg opts caps now (CReq sid fs) cl of
                (Inl e, cl) \<Rightarrow> (Inl e, forget_subscription sid cl)
              | (Inr _, cl) \<Rightarrow> (Inr (), cl))))"

definition unsubscribe ::
  "relay_options \<Rightarrow> relay_capabilities \<Rightarrow> timestamp \<Rightarrow> string \<Rightarrow> client \<Rightarrow>
   (sdk_error + bool) \<times> client" where
  "unsubscribe opts caps now sid cl =
     (case cl_subs cl sid of
        None \<Rightarrow> (Inr False, cl)
      | Some d \<Rightarrow>
          if sd_is_auto_closing d then (Inr False, cl)
          else
            (case relay_send_msg opts caps now (CClose sid) (forget_subscription sid cl) of
               (Inl e, cl) \<Rightarrow> (Inl e, cl)
             | (Inr _, cl) \<Rightarrow> (Inr True, cl)))"

fun unsubscribe_all ::
  "relay_options \<Rightarrow> relay_capabilities \<Rightarrow> timestamp \<Rightarrow> string list \<Rightarrow> client \<Rightarrow>
   (sdk_error + unit) \<times> client" where
  "unsubscribe_all opts caps now [] cl = (Inr (), cl)"
| "unsubscribe_all opts caps now (sid # sids) cl =
     (case unsubscribe opts caps now sid cl of
        (Inl e, cl) \<Rightarrow> (Inl e, cl)
      | (Inr _, cl) \<Rightarrow> unsubscribe_all opts caps now sids cl)"

text \<open>
  \<open>should_sleep\<close>: no subscription of any kind, and no activity for the idle timeout. The difference
  of the \<open>u64\<close> seconds wraps around (a build with overflow checks panics instead).
\<close>

definition should_sleep :: "relay_options \<Rightarrow> timestamp \<Rightarrow> client \<Rightarrow> bool" where
  "should_sleep opts now cl =
     (case opt_sleep_when_idle opts of
        SleepDisabled \<Rightarrow> False
      | SleepEnabled timeout \<Rightarrow>
          if cl_subs cl \<noteq> Map.empty then False
          else
            (let s = cn_stats (cl_conn cl);
                 reference_time =
                   (if last_activity_at s = 0 then connected_at s else last_activity_at s)
             in if reference_time = 0 then False
                else timeout \<le> (now + 2 ^ 64 - reference_time) mod 2 ^ 64 * nanos_per_sec))"

section \<open>The sender of a session\<close>

text \<open>
  \<open>recv_client_msg\<close> takes a message only for the session of the current attempt, then the
  handler counts a \<open>REQ\<close> as started and writes the message. A session that ends drops what the
  sender has in its hand, and a message whose writing fails ends the session.
\<close>

definition recv_client_msg :: "nat \<Rightarrow> client \<Rightarrow> client option" where
  "recv_client_msg a cl =
     (if \<not> is_connected (cn_status (cl_conn cl)) \<or> \<not> is_current a (cl_conn cl) then None
      else
        (case cl_queue cl of
           [] \<Rightarrow> None
         | it # q \<Rightarrow> Some (cl\<lparr>cl_queue := q, cl_hand := Some it\<rparr>)))"

definition start_req :: "message_item \<Rightarrow> client \<Rightarrow> client" where
  "start_req it cl =
     (case mi_pending_req it of
        None \<Rightarrow> cl
      | Some r \<Rightarrow> drop_pending (Some r) (subscription_req_started r cl))"

definition write_msg :: "bool \<Rightarrow> message_item \<Rightarrow> client \<Rightarrow> client" where
  "write_msg written it cl =
     (let cl = (start_req it cl)\<lparr>cl_hand := None\<rparr>
      in if written then cl\<lparr>cl_wire := cl_wire cl @ [mi_msg it]\<rparr> else cl)"

definition drop_hand :: "client \<Rightarrow> client" where
  "drop_hand cl =
     (case cl_hand cl of
        None \<Rightarrow> cl
      | Some it \<Rightarrow> drop_pending (mi_pending_req it) (cl\<lparr>cl_hand := None\<rparr>))"

end
