(* ===== verification/Client_Restoring.thy ===== *)
theory Client_Restoring
  imports Client_Subscriptions
begin

text \<open>
  What the subscriptions and the queue of Client_Subscriptions promise: the counters count the
  requests that are queued, a batch is queued as a whole or not at all, and restoring the
  subscriptions queues one request for each that needs it.
\<close>

section \<open>Reachable states\<close>

text \<open>
  A step is one operation under the lock of the subscriptions, a step of the sender, or any
  change of the connection.
\<close>

inductive cl_step :: "relay_options \<Rightarrow> relay_capabilities \<Rightarrow> client \<Rightarrow> client \<Rightarrow> bool" for opts caps where
  cl_conn: "cl_step opts caps cl (cl\<lparr>cl_conn := c\<rparr>)"
| cl_add: "cl_step opts caps cl (snd (add_long_lived_subscription sid fs cl))"
| cl_register: "cl_step opts caps cl (snd (register_auto_closing_subscription sid fs a cl))"
| cl_update: "cl_step opts caps cl (snd (update_auto_closing_subscription sid fs cl))"
| cl_remove: "cl_step opts caps cl (forget_subscription sid cl)"
| cl_closed: "cl_step opts caps cl (subscription_closed sid cl)"
| cl_eose: "cl_step opts caps cl (received_eose sid cl)"
| cl_queue: "cl_step opts caps cl (snd (queue_msg m cl))"
| cl_send: "cl_step opts caps cl (snd (relay_send_msg opts caps now m cl))"
| cl_batch: "cl_step opts caps cl (snd (send_msg_batch opts caps now ms cl))"
| cl_restore: "cl_step opts caps cl (snd (queue_resubscription opts caps now sid cl))"
| cl_reissue: "cl_step opts caps cl (snd (reissue_subscription opts caps now sid cl))"
| cl_unsubscribe: "cl_step opts caps cl (snd (unsubscribe opts caps now sid cl))"
| cl_recv: "cl_hand cl = None \<Longrightarrow> recv_client_msg a cl = Some cl' \<Longrightarrow> cl_step opts caps cl cl'"
| cl_write: "cl_hand cl = Some it \<Longrightarrow> cl_step opts caps cl (write_msg written it cl)"
| cl_drop: "cl_step opts caps cl (drop_hand cl)"

inductive cl_reachable :: "relay_options \<Rightarrow> relay_capabilities \<Rightarrow> client \<Rightarrow> bool" for opts caps where
  "cl_reachable opts caps client_new"
| "cl_reachable opts caps cl \<Longrightarrow> cl_step opts caps cl cl' \<Longrightarrow> cl_reachable opts caps cl'"

section \<open>The counters\<close>

definition queued_items :: "client \<Rightarrow> message_item list" where
  "queued_items cl = (case cl_hand cl of None \<Rightarrow> [] | Some it \<Rightarrow> [it]) @ cl_queue cl"

definition counted_by :: "nat \<Rightarrow> message_item \<Rightarrow> bool" where
  "counted_by k it \<longleftrightarrow> (case mi_pending_req it of None \<Rightarrow> False | Some r \<Rightarrow> pr_counter r = k)"

definition queued_count :: "client \<Rightarrow> nat \<Rightarrow> nat" where
  "queued_count cl k = length (filter (counted_by k) (queued_items cl))"

definition item_ok :: "nat \<Rightarrow> message_item \<Rightarrow> bool" where
  "item_ok n it \<longleftrightarrow>
     (case mi_pending_req it of
        None \<Rightarrow> True
      | Some r \<Rightarrow> pr_counter r < n \<and> (\<exists>fs. mi_msg it = CReq (pr_subscription_id r) fs))"

definition subs_ok :: "client \<Rightarrow> bool" where
  "subs_ok cl \<longleftrightarrow>
     (\<forall>sid d. cl_subs cl sid = Some d \<longrightarrow>
        (sd_is_auto_closing d \<longleftrightarrow> sd_pending_req_counter d = None) \<and>
        (\<forall>k. sd_pending_req_counter d = Some k \<longrightarrow> k < cl_next_counter cl \<and>
           (\<forall>sid' d'. cl_subs cl sid' = Some d' \<and> sd_pending_req_counter d' = Some k \<longrightarrow> sid' = sid)))"

definition client_ok :: "client \<Rightarrow> bool" where
  "client_ok cl \<longleftrightarrow>
     (\<forall>k. cl_counters cl k = queued_count cl k) \<and>
     list_all (item_ok (cl_next_counter cl)) (queued_items cl) \<and> subs_ok cl"

text \<open>
  The same with items that are counted and not queued yet: between \<open>track\<close> and the queue.
\<close>

definition counts_ok :: "message_item list \<Rightarrow> client \<Rightarrow> bool" where
  "counts_ok its cl \<longleftrightarrow>
     (\<forall>k. cl_counters cl k = queued_count cl k + length (filter (counted_by k) its)) \<and>
     list_all (item_ok (cl_next_counter cl)) (queued_items cl @ its) \<and> subs_ok cl"

lemma client_ok_counts: "client_ok cl = counts_ok [] cl"
  by (simp add: client_ok_def counts_ok_def)

lemma counts_ok_conn [simp]: "counts_ok its (cl\<lparr>cl_conn := c\<rparr>) = counts_ok its cl"
  by (simp add: counts_ok_def queued_count_def queued_items_def subs_ok_def)

lemma counts_ok_plain:
  "counts_ok its cl \<Longrightarrow> counts_ok (its @ [\<lparr>mi_msg = m, mi_pending_req = None\<rparr>]) cl"
  by (simp add: counts_ok_def item_ok_def counted_by_def)

lemma counts_ok_track:
  assumes "counts_ok its cl" and "cl_subs cl sid = Some d" and "sd_pending_req_counter d = Some k"
  shows "counts_ok (its @ [\<lparr>mi_msg = CReq sid fs, mi_pending_req = Some (fst (track sid k cl))\<rparr>])
    (snd (track sid k cl))"
proof -
  have "k < cl_next_counter cl" using assms by (auto simp: counts_ok_def subs_ok_def)
  then show ?thesis
    using assms(1)
    by (auto simp: counts_ok_def track_def queued_count_def queued_items_def item_ok_def
        counted_by_def subs_ok_def)
qed

lemma counts_ok_track_req:
  assumes "counts_ok its cl" and "track_req m cl = (p, cl')"
  shows "counts_ok (its @ [\<lparr>mi_msg = m, mi_pending_req = p\<rparr>]) cl'"
proof (cases m)
  case (CReq sid fs)
  show ?thesis
  proof (cases "\<exists>d k. cl_subs cl sid = Some d \<and> sd_pending_req_counter d = Some k")
    case True
    then obtain d k where d: "cl_subs cl sid = Some d" "sd_pending_req_counter d = Some k" by blast
    then have "p = Some (fst (track sid k cl))" and "cl' = snd (track sid k cl)"
      using assms(2) CReq by (auto simp: track_req_def split: prod.splits)
    then show ?thesis using counts_ok_track [OF assms(1) d] CReq by simp
  next
    case False
    then have "p = None" and "cl' = cl"
      using assms(2) CReq by (auto simp: track_req_def split: option.splits)
    then show ?thesis using counts_ok_plain [OF assms(1)] by simp
  qed
qed (use assms counts_ok_plain in \<open>auto simp: track_req_def\<close>)

lemma counts_ok_enqueue:
  "counts_ok its cl \<Longrightarrow> counts_ok [] (cl\<lparr>cl_queue := cl_queue cl @ its\<rparr>)"
  by (simp add: counts_ok_def queued_count_def queued_items_def subs_ok_def)

lemma counts_ok_drop:
  assumes "counts_ok (it # its) cl"
  shows "counts_ok its (drop_pending (mi_pending_req it) cl)"
proof (cases "mi_pending_req it")
  case (Some r)
  have "filter (counted_by k) (it # its) =
      (if k = pr_counter r then it # filter (counted_by k) its else filter (counted_by k) its)" for k
    using Some by (auto simp: counted_by_def)
  then show ?thesis
    using assms Some
    by (auto simp: counts_ok_def drop_pending_def queued_count_def queued_items_def subs_ok_def)
qed (use assms in \<open>auto simp: counts_ok_def drop_pending_def counted_by_def\<close>)

lemma counts_ok_drop_all:
  "counts_ok its cl \<Longrightarrow> counts_ok [] (foldl (\<lambda>cl it. drop_pending (mi_pending_req it) cl) cl its)"
  by (induction its arbitrary: cl) (auto simp: counts_ok_drop)

lemma counts_ok_send: "counts_ok [it] cl \<Longrightarrow> counts_ok [] (snd (send_client_msg it cl))"
  using counts_ok_enqueue [of "[it]" cl] counts_ok_drop [of it "[]" cl]
  by (simp add: send_client_msg_def)

lemma counts_ok_sends: "counts_ok its cl \<Longrightarrow> counts_ok [] (snd (send_client_msgs its cl))"
  using counts_ok_enqueue [of its cl] counts_ok_drop_all [of its cl] by (simp add: send_client_msgs_def)

lemma counts_ok_track_all:
  "counts_ok its0 cl \<Longrightarrow> track_all ms cl = (its, cl') \<Longrightarrow> counts_ok (its0 @ its) cl'"
proof (induction ms arbitrary: its0 cl its cl')
  case (Cons m ms)
  obtain p c1 where t: "track_req m cl = (p, c1)" by (cases "track_req m cl")
  obtain js c2 where u: "track_all ms c1 = (js, c2)" by (cases "track_all ms c1")
  have "its = \<lparr>mi_msg = m, mi_pending_req = p\<rparr> # js" and "cl' = c2"
    using Cons.prems(2) by (auto simp: t u)
  then show ?case using Cons.IH [OF counts_ok_track_req [OF Cons.prems(1) t] u] by simp
qed simp

text \<open>Changes of the data of a subscription.\<close>

lemma counts_ok_update:
  assumes "counts_ok its cl"
    and "\<And>d. sd_pending_req_counter (f d) = sd_pending_req_counter d \<and> sd_is_auto_closing (f d) = sd_is_auto_closing d"
  shows "counts_ok its (update_data sid f cl)"
  using assms
  by (auto simp: counts_ok_def update_data_def queued_count_def queued_items_def subs_ok_def
      split: option.splits)

lemma counts_ok_remove: "counts_ok its cl \<Longrightarrow> counts_ok its (forget_subscription sid cl)"
  by (auto simp: counts_ok_def forget_subscription_def queued_count_def queued_items_def subs_ok_def)

lemma counts_ok_auto:
  "counts_ok its cl \<Longrightarrow> counts_ok its (cl\<lparr>cl_subs := (cl_subs cl)(sid \<mapsto> auto_closing fs a)\<rparr>)"
  by (auto simp: counts_ok_def auto_closing_def queued_count_def queued_items_def subs_ok_def)

lemma counts_ok_add:
  assumes "counts_ok [] cl"
  shows "counts_ok [] (snd (add_long_lived_subscription sid fs cl))"
proof -
  let ?n = "cl_next_counter cl"
  have "filter (counted_by ?n) (queued_items cl) = []"
    using assms
    by (auto simp: counts_ok_def filter_empty_conv counted_by_def item_ok_def list_all_iff split: option.splits)
  moreover have "item_ok (Suc ?n) it" if "item_ok ?n it" for it
    using that by (auto simp: item_ok_def split: option.splits)
  moreover have "sd_pending_req_counter d' \<noteq> Some ?n" if "cl_subs cl sid' = Some d'" for sid' d'
    using assms that by (fastforce simp: counts_ok_def subs_ok_def)
  ultimately show ?thesis
    using assms
    by (auto simp: add_long_lived_subscription_def long_lived_def counts_ok_def queued_count_def
        queued_items_def subs_ok_def list_all_iff less_Suc_eq split: if_splits)
qed

subsection \<open>Every step keeps the counters\<close>

lemma client_ok_queue_msg: "client_ok cl \<Longrightarrow> client_ok (snd (queue_msg m cl))"
  using counts_ok_track_req [of "[]" cl m]
  by (auto simp: client_ok_counts queue_msg_def split: prod.split intro!: counts_ok_send)

lemma check_operational_conn: "\<exists>c. snd (check_operational opts now cl) = cl\<lparr>cl_conn := c\<rparr>"
  by (simp add: check_operational_def split: prod.split) blast

lemma client_ok_check:
  "client_ok cl \<Longrightarrow> check_operational opts now cl = (r, cl') \<Longrightarrow> client_ok cl'"
  using check_operational_conn [of opts now cl] by (auto simp: client_ok_counts)

lemma counts_ok_check:
  "counts_ok its cl \<Longrightarrow> check_operational opts now cl = (r, cl') \<Longrightarrow> counts_ok its cl'"
  using check_operational_conn [of opts now cl] by auto

lemma client_ok_send_msg: "client_ok cl \<Longrightarrow> client_ok (snd (relay_send_msg opts caps now m cl))"
  by (auto simp: relay_send_msg_def client_ok_queue_msg split: prod.split sum.split
      dest: client_ok_check)

lemma client_ok_batch: "client_ok cl \<Longrightarrow> client_ok (snd (send_msg_batch opts caps now ms cl))"
  by (auto simp: send_msg_batch_def client_ok_counts split: prod.split sum.split
      dest: counts_ok_check counts_ok_track_all [of "[]", unfolded append_Nil] intro!: counts_ok_sends)

lemma counts_ok_try:
  assumes "counts_ok [it] cl"
  shows "counts_ok [] (snd (try_queue opts caps now it cl))"
proof -
  obtain r c1 where c: "check_operational opts now cl = (r, c1)" by (cases "check_operational opts now cl")
  then have "counts_ok [it] c1" using assms by (auto dest: counts_ok_check)
  then show ?thesis
    using counts_ok_drop [of it "[]" c1] counts_ok_send [of it c1]
    by (auto simp: try_queue_def c split: sum.split)
qed

lemma optional_track:
  assumes "counts_ok its cl" and "cl_subs cl sid = Some d"
    and "(case sd_pending_req_counter d of
            None \<Rightarrow> (None, cl) | Some k \<Rightarrow> (let (p, cl) = track sid k cl in (Some p, cl))) = (p, cl')"
  shows "counts_ok (its @ [\<lparr>mi_msg = CReq sid fs, mi_pending_req = p\<rparr>]) cl'"
proof (cases "sd_pending_req_counter d")
  case (Some k)
  then show ?thesis using assms(3) counts_ok_track [OF assms(1,2) Some] by (auto split: prod.splits)
qed (use assms counts_ok_plain in auto)

lemma client_ok_restore: "client_ok cl \<Longrightarrow> client_ok (snd (queue_resubscription opts caps now sid cl))"
proof (cases "cl_subs cl sid")
  case (Some d)
  assume ok: "client_ok cl"
  obtain p c1 where t: "(case sd_pending_req_counter d of
      None \<Rightarrow> (None, cl) | Some k \<Rightarrow> (let (p, cl) = track sid k cl in (Some p, cl))) = (p, c1)"
    by fastforce
  define it where "it = \<lparr>mi_msg = CReq sid (sd_filters d), mi_pending_req = p\<rparr>"
  define c2 where "c2 = update_data sid (new_req_data (current_connection cl)) c1"
  have "counts_ok [it] c1" using optional_track [OF _ Some t, of "[]"] ok by (simp add: client_ok_counts it_def)
  then have "counts_ok [it] c2" unfolding c2_def by (rule counts_ok_update) (simp add: new_req_data_def)
  then have q: "counts_ok [] (snd (try_queue opts caps now it c2))" by (rule counts_ok_try)
  obtain r c3 where r: "try_queue opts caps now it c2 = (r, c3)" by (cases "try_queue opts caps now it c2")
  have "counts_ok [] (update_data sid (\<lambda>d. d\<lparr>sd_closed := True\<rparr>) c3)"
    using q by (intro counts_ok_update) (simp_all add: r)
  then show ?thesis
    using ok q r Some t
    by (auto simp: queue_resubscription_def client_ok_counts Let_def it_def c2_def split: sum.split)
qed (simp add: queue_resubscription_def)

lemma client_ok_reissue: "client_ok cl \<Longrightarrow> client_ok (snd (reissue_subscription opts caps now sid cl))"
proof -
  assume ok: "client_ok cl"
  obtain r c1 where c: "check_operational opts now cl = (r, c1)" by (cases "check_operational opts now cl")
  then have c1: "counts_ok [] c1" using ok by (auto simp: client_ok_counts dest: counts_ok_check)
  show ?thesis
  proof (cases "cl_subs c1 sid")
    case (Some d)
    obtain p c2 where t: "(case sd_pending_req_counter d of
        None \<Rightarrow> (None, c1) | Some k \<Rightarrow> (let (p, cl) = track sid k c1 in (Some p, cl))) = (p, c2)"
      by fastforce
    have "counts_ok [\<lparr>mi_msg = CClose sid, mi_pending_req = None\<rparr>,
        \<lparr>mi_msg = CReq sid (sd_filters d), mi_pending_req = p\<rparr>] c2"
      using optional_track [OF counts_ok_plain [OF c1] Some t] by simp
    then show ?thesis
      using c1 Some t
      by (auto simp: reissue_subscription_def c client_ok_counts intro!: counts_ok_sends split: sum.split)
  qed (use c1 in \<open>auto simp: reissue_subscription_def c client_ok_counts split: sum.split\<close>)
qed

lemma client_ok_unsubscribe: "client_ok cl \<Longrightarrow> client_ok (snd (unsubscribe opts caps now sid cl))"
  using client_ok_send_msg [of "forget_subscription sid cl" opts caps now "CClose sid"]
  by (auto simp: unsubscribe_def client_ok_counts counts_ok_remove split: option.split sum.split prod.split)

lemma client_ok_recv: "client_ok cl \<Longrightarrow> cl_hand cl = None \<Longrightarrow> recv_client_msg a cl = Some cl' \<Longrightarrow> client_ok cl'"
  by (auto simp: recv_client_msg_def client_ok_def queued_count_def queued_items_def subs_ok_def
      split: if_splits list.splits)

lemma hand_counts:
  "client_ok cl \<Longrightarrow> cl_hand cl = Some it \<Longrightarrow> counts_ok [it] (cl\<lparr>cl_hand := None\<rparr>)"
  by (auto simp: client_ok_def counts_ok_def queued_count_def queued_items_def subs_ok_def)

lemma client_ok_drop: "client_ok cl \<Longrightarrow> client_ok (drop_hand cl)"
  using counts_ok_drop [OF hand_counts]
  by (auto simp: drop_hand_def client_ok_counts split: option.split)

lemma start_req_hand:
  "(start_req it cl)\<lparr>cl_hand := None\<rparr> = start_req it (cl\<lparr>cl_hand := None\<rparr>)"
  by (simp add: start_req_def drop_pending_def subscription_req_started_def update_data_def
      current_connection_def split: option.split)

lemma counts_ok_start: "counts_ok [it] cl \<Longrightarrow> counts_ok [] (start_req it cl)"
proof -
  assume h: "counts_ok [it] cl"
  show ?thesis
  proof (cases "mi_pending_req it")
    case (Some r)
    have "counts_ok [it] (subscription_req_started r cl)"
      using h counts_ok_update [of "[it]" cl "new_req_data (current_connection cl)" "pr_subscription_id r"]
      by (simp add: subscription_req_started_def new_req_data_def split: option.split)
    then show ?thesis using counts_ok_drop [of it "[]"] Some by (simp add: start_req_def)
  qed (use h in \<open>simp add: start_req_def counts_ok_def counted_by_def\<close>)
qed

lemma client_ok_write:
  "client_ok cl \<Longrightarrow> cl_hand cl = Some it \<Longrightarrow> client_ok (write_msg written it cl)"
proof -
  assume "client_ok cl" and "cl_hand cl = Some it"
  then have c: "counts_ok [] ((start_req it cl)\<lparr>cl_hand := None\<rparr>)"
    unfolding start_req_hand by (intro counts_ok_start hand_counts)
  then have "counts_ok [] (((start_req it cl)\<lparr>cl_hand := None\<rparr>)\<lparr>cl_wire := w\<rparr>)" for w
    by (simp add: counts_ok_def queued_count_def queued_items_def subs_ok_def)
  then show ?thesis using c by (simp add: write_msg_def client_ok_counts Let_def)
qed

lemma cl_step_ok:
  assumes "cl_step opts caps cl cl'" and "client_ok cl"
  shows "client_ok cl'"
  using assms(1)
proof cases
  case (cl_register sid fs a)
  then show ?thesis
    using assms(2)
    by (simp add: client_ok_counts register_auto_closing_subscription_def counts_ok_auto)
next
  case (cl_update sid fs)
  then show ?thesis
    using assms(2)
    by (simp add: client_ok_counts update_auto_closing_subscription_def counts_ok_auto split: option.split)
qed (use assms(2) in \<open>simp_all add: client_ok_send_msg client_ok_batch client_ok_restore client_ok_reissue
        client_ok_unsubscribe client_ok_recv client_ok_drop client_ok_write client_ok_queue_msg\<close>,
      simp_all add: client_ok_counts counts_ok_add counts_ok_remove counts_ok_update
        subscription_closed_def received_eose_def)

lemma cl_reachable_ok: "cl_reachable opts caps cl \<Longrightarrow> client_ok cl"
proof (induction rule: cl_reachable.induct)
  case 1
  show ?case by (simp add: client_ok_def client_new_def queued_count_def queued_items_def subs_ok_def)
qed (rule cl_step_ok)

section \<open>Restoring\<close>

definition restore_needed :: "client \<Rightarrow> string \<Rightarrow> bool" where
  "restore_needed cl sid \<longleftrightarrow>
     (case cl_subs cl sid of
        None \<Rightarrow> False
      | Some d \<Rightarrow> sd_filters d \<noteq> [] \<and> needs_restore cl (current_connection cl) d)"

definition restore_item :: "client \<Rightarrow> string \<Rightarrow> message_item" where
  "restore_item cl sid =
     (let d = the (cl_subs cl sid)
      in \<lparr>mi_msg = CReq sid (sd_filters d),
          mi_pending_req = map_option (\<lambda>k. \<lparr>pr_subscription_id = sid, pr_counter = k\<rparr>)
            (sd_pending_req_counter d)\<rparr>)"

lemma operational_success [simp]:
  "success (cn_stats (snd (ensure_operational opts now c))) = success (cn_stats c)"
  by (simp add: ensure_operational_def Let_def update_activity_def just_woke_up_def)

lemma operational_success':
  "ensure_operational opts now c = (r, c') \<Longrightarrow> success (cn_stats c') = success (cn_stats c)"
  using operational_success [of opts now c] by (simp del: operational_success)

lemma check_operational_fields:
  assumes "check_operational opts now cl = (r, cl')"
  shows "cl_subs cl' = cl_subs cl" "cl_queue cl' = cl_queue cl" "cl_counters cl' = cl_counters cl"
    "current_connection cl' = current_connection cl" "cl_next_counter cl' = cl_next_counter cl"
    "cl_hand cl' = cl_hand cl" "cl_wire cl' = cl_wire cl"
  using assms
  by (auto simp: check_operational_def current_connection_def split: prod.splits
      dest!: operational_success')

lemma try_queue_fields:
  assumes "try_queue opts caps now it cl = (r, cl')"
  shows "cl_subs cl' = cl_subs cl" "current_connection cl' = current_connection cl"
    "r = Inr u \<Longrightarrow> cl_queue cl' = cl_queue cl @ [it] \<and> cl_counters cl' = cl_counters cl"
    "r = Inl e \<Longrightarrow> cl_queue cl' = cl_queue cl \<and>
       cl_counters cl' = cl_counters (drop_pending (mi_pending_req it) cl)"
proof -
  obtain q c1 where c: "check_operational opts now cl = (q, c1)" by (cases "check_operational opts now cl")
  note f = check_operational_fields [OF c]
  show "cl_subs cl' = cl_subs cl" "current_connection cl' = current_connection cl"
    "r = Inr u \<Longrightarrow> cl_queue cl' = cl_queue cl @ [it] \<and> cl_counters cl' = cl_counters cl"
    "r = Inl e \<Longrightarrow> cl_queue cl' = cl_queue cl \<and>
       cl_counters cl' = cl_counters (drop_pending (mi_pending_req it) cl)"
    using assms f
    by (auto simp: try_queue_def c send_client_msg_def drop_pending_def current_connection_def
        split: sum.splits option.splits if_splits)
qed

lemma restore_one:
  assumes "client_ok cl" and "queue_resubscription opts caps now sid cl = (r, cl')"
  shows "(case r of
      Inr b \<Rightarrow>
        b = restore_needed cl sid \<and> \<not> restore_needed cl' sid \<and>
        cl_queue cl' = cl_queue cl @ (if b then [restore_item cl sid] else [])
    | Inl e \<Rightarrow> restore_needed cl sid \<and> restore_needed cl' sid \<and> cl_queue cl' = cl_queue cl) \<and>
    (\<forall>s. s \<noteq> sid \<longrightarrow> cl_subs cl' s = cl_subs cl s \<and> restore_needed cl' s = restore_needed cl s)"
proof (cases "restore_needed cl sid")
  case False
  then have "r = Inr False" and "cl' = cl"
    using assms(2) by (auto simp: queue_resubscription_def restore_needed_def split: option.splits)
  then show ?thesis using False by simp
next
  case True
  then obtain d where d: "cl_subs cl sid = Some d" "sd_filters d \<noteq> []"
    and need: "needs_restore cl (current_connection cl) d"
    by (auto simp: restore_needed_def split: option.splits)
  then have "\<not> sd_is_auto_closing d" and np: "\<not> has_pending cl d"
    by (auto simp: needs_restore_def split: if_splits)
  then obtain k where k: "sd_pending_req_counter d = Some k"
    using assms(1) d by (fastforce simp: client_ok_def subs_ok_def)
  have other: "sd_pending_req_counter d' \<noteq> Some k" if "cl_subs cl s = Some d'" and "s \<noteq> sid" for s d'
    using assms(1) d(1) k that by (fastforce simp: client_ok_def subs_ok_def)
  define it where "it = restore_item cl sid"
  define c2 where "c2 = update_data sid (new_req_data (current_connection cl)) (snd (track sid k cl))"
  obtain q c3 where q: "try_queue opts caps now it c2 = (q, c3)" by (cases "try_queue opts caps now it c2")
  have it: "it = \<lparr>mi_msg = CReq sid (sd_filters d), mi_pending_req = Some (fst (track sid k cl))\<rparr>"
    by (simp add: it_def restore_item_def d k track_def)
  have res: "queue_resubscription opts caps now sid cl =
      (case q of Inl e \<Rightarrow> (Inl e, update_data sid (\<lambda>d. d\<lparr>sd_closed := True\<rparr>) c3)
       | Inr _ \<Rightarrow> (Inr True, c3))"
    using d need k q
    by (simp add: queue_resubscription_def it c2_def track_def split: sum.split)
  have c2: "cl_subs c2 = (cl_subs cl)(sid \<mapsto> new_req_data (current_connection cl) d)"
    "cl_counters c2 = (cl_counters cl)(k := Suc (cl_counters cl k))" "cl_queue c2 = cl_queue cl"
    "current_connection c2 = current_connection cl"
    using d by (simp_all add: c2_def track_def update_data_def current_connection_def)
  have zero: "cl_counters cl k = 0" using np k by (simp add: has_pending_def)
  note f = try_queue_fields [OF q]
  show ?thesis
  proof (cases q)
    case (Inl e)
    then have r: "r = Inl e" "cl' = update_data sid (\<lambda>d. d\<lparr>sd_closed := True\<rparr>) c3"
      using res assms(2) by auto
    have c3: "cl_counters c3 = cl_counters cl"
      using f(4) [OF Inl] c2 zero by (auto simp: it track_def drop_pending_def)
    have "needs_restore cl' j e = needs_restore cl j e" for j e
      using c3 by (simp add: needs_restore_def has_pending_def r update_data_def split: option.split)
    moreover have "needs_restore cl j e"
      if "\<not> sd_is_auto_closing e" "sd_pending_req_counter e = Some k" "sd_closed e" for j e
      using zero that by (simp add: needs_restore_def has_pending_def)
    ultimately show ?thesis
      using r f(1,2) f(4) [OF Inl] c2 d need True k \<open>\<not> sd_is_auto_closing d\<close>
      by (auto simp: update_data_def restore_needed_def current_connection_def new_req_data_def split: option.split)
  next
    case (Inr u)
    then have r: "r = Inr True" "cl' = c3" using res assms(2) by auto
    have c3: "cl_counters c3 = (cl_counters cl)(k := 1)" "cl_queue c3 = cl_queue cl @ [it]"
      using f(3) [OF Inr] c2 zero by auto
    have "needs_restore c3 j d' = needs_restore cl j d'" if "sd_pending_req_counter d' \<noteq> Some k" for j d'
      using that c3 by (simp add: needs_restore_def has_pending_def split: option.split)
    then have "restore_needed c3 s = restore_needed cl s" if "s \<noteq> sid" for s
      using that f(1,2) c2 other by (auto simp: restore_needed_def split: option.split)
    moreover have "\<not> restore_needed c3 sid"
      using f(1,2) c2 c3 k by (simp add: restore_needed_def needs_restore_def has_pending_def new_req_data_def)
    ultimately show ?thesis using r f(1) c2 c3 True by (simp add: it_def)
  qed
qed

lemma resubscribe_run:
  assumes "client_ok cl" and "distinct sids" and "resubscribe opts caps now sids cl = (r, cl')"
  shows "(case r of
      Inr _ \<Rightarrow>
        cl_queue cl' = cl_queue cl @ map (restore_item cl) (filter (restore_needed cl) sids) \<and>
        (\<forall>s \<in> set sids. \<not> restore_needed cl' s)
    | Inl e \<Rightarrow> \<exists>s \<in> set sids. restore_needed cl' s) \<and>
    (\<forall>s. s \<notin> set sids \<longrightarrow> cl_subs cl' s = cl_subs cl s \<and> restore_needed cl' s = restore_needed cl s)"
  using assms
proof (induction sids arbitrary: cl)
  case (Cons sid sids)
  obtain q c1 where q: "queue_resubscription opts caps now sid cl = (q, c1)"
    by (cases "queue_resubscription opts caps now sid cl")
  note one = restore_one [OF Cons.prems(1) q]
  have ok: "client_ok c1" using client_ok_restore [OF Cons.prems(1)] q by (metis snd_conv)
  show ?case
  proof (cases q)
    case (Inl e)
    then have "r = Inl e" and "cl' = c1" using Cons.prems(3) q by auto
    then show ?thesis using one Inl by auto
  next
    case (Inr b)
    then have run: "resubscribe opts caps now sids c1 = (r, cl')" using Cons.prems(3) q by simp
    have d: "sid \<notin> set sids" "distinct sids" using Cons.prems(2) by auto
    have same: "restore_needed c1 s = restore_needed cl s \<and> restore_item c1 s = restore_item cl s"
      if "s \<in> set sids" for s
    proof -
      have "s \<noteq> sid" using that d by auto
      then show ?thesis using one by (simp add: restore_item_def)
    qed
    then have items: "map (restore_item c1) (filter (restore_needed c1) sids) =
        map (restore_item cl) (filter (restore_needed cl) sids)"
      by (simp cong: filter_cong)
    note ih = Cons.IH [OF ok d(2) run]
    show ?thesis using ih one Inr d items by (auto split: sum.splits)
  qed
qed auto

section \<open>Properties\<close>

lemma queue_bound_steps:
  "length (cl_queue cl) \<le> CHANNEL_SIZE \<Longrightarrow> length (cl_queue (snd (send_client_msg it cl))) \<le> CHANNEL_SIZE"
  "length (cl_queue cl) \<le> CHANNEL_SIZE \<Longrightarrow> length (cl_queue (snd (send_client_msgs its cl))) \<le> CHANNEL_SIZE"
proof -
  have d: "cl_queue (drop_pending p cl) = cl_queue cl" for p cl
    by (simp add: drop_pending_def split: option.split)
  have f: "cl_queue (foldl (\<lambda>cl it. drop_pending (mi_pending_req it) cl) cl its) = cl_queue cl"
    by (induction its arbitrary: cl) (simp_all add: d)
  show "length (cl_queue cl) \<le> CHANNEL_SIZE \<Longrightarrow> length (cl_queue (snd (send_client_msg it cl))) \<le> CHANNEL_SIZE"
    by (simp add: send_client_msg_def d)
  show "length (cl_queue cl) \<le> CHANNEL_SIZE \<Longrightarrow> length (cl_queue (snd (send_client_msgs its cl))) \<le> CHANNEL_SIZE"
    by (simp add: send_client_msgs_def f)
qed

lemma track_req_fields:
  assumes "track_req m cl = (p, cl')"
  shows "cl_queue cl' = cl_queue cl" "cl_hand cl' = cl_hand cl" "cl_subs cl' = cl_subs cl"
  using assms
  by (auto simp: track_req_def track_def split: client_message.splits option.splits prod.splits)

lemma track_all_fields:
  assumes "track_all ms cl = (its, cl')"
  shows "cl_queue cl' = cl_queue cl \<and> cl_hand cl' = cl_hand cl \<and> map mi_msg its = ms"
  using assms
proof (induction ms arbitrary: cl its)
  case (Cons m ms)
  obtain p c1 where t: "track_req m cl = (p, c1)" by (cases "track_req m cl")
  obtain js c2 where u: "track_all ms c1 = (js, c2)" by (cases "track_all ms c1")
  have "its = \<lparr>mi_msg = m, mi_pending_req = p\<rparr> # js" and c2: "c2 = cl'"
    using Cons.prems by (auto simp: t u)
  then show ?case using Cons.IH [OF u [unfolded c2]] track_req_fields [OF t] by simp
qed simp

text \<open>The queue never holds more than its capacity.\<close>

definition queue_bounded :: "client \<Rightarrow> bool" where
  "queue_bounded cl \<longleftrightarrow> length (cl_queue cl) \<le> CHANNEL_SIZE"

lemma queue_drop [simp]: "cl_queue (drop_pending p cl) = cl_queue cl"
  by (simp add: drop_pending_def split: option.split)

lemma queue_update [simp]: "cl_queue (update_data sid f cl) = cl_queue cl"
  by (simp add: update_data_def split: option.split)

lemma bounded_send: "queue_bounded cl \<Longrightarrow> queue_bounded (snd (send_client_msg it cl))"
  by (simp add: queue_bounded_def send_client_msg_def)

lemma bounded_sends: "queue_bounded cl \<Longrightarrow> queue_bounded (snd (send_client_msgs its cl))"
proof -
  have "cl_queue (foldl (\<lambda>cl it. drop_pending (mi_pending_req it) cl) cl its) = cl_queue cl"
    by (induction its arbitrary: cl) simp_all
  then show "queue_bounded cl \<Longrightarrow> queue_bounded (snd (send_client_msgs its cl))"
    by (simp add: queue_bounded_def send_client_msgs_def)
qed

lemma bounded_queue_msg: "queue_bounded cl \<Longrightarrow> queue_bounded (snd (queue_msg m cl))"
proof -
  obtain p c1 where t: "track_req m cl = (p, c1)" by (cases "track_req m cl")
  assume "queue_bounded cl"
  then have "queue_bounded c1" using track_req_fields [OF t] by (simp add: queue_bounded_def)
  then show ?thesis by (simp add: queue_msg_def t bounded_send)
qed

lemma bounded_check:
  "check_operational opts now cl = (r, c1) \<Longrightarrow> queue_bounded c1 = queue_bounded cl"
  using check_operational_fields(2) by (simp add: queue_bounded_def)

lemma bounded_send_msg: "queue_bounded cl \<Longrightarrow> queue_bounded (snd (relay_send_msg opts caps now m cl))"
proof -
  obtain r c1 where c: "check_operational opts now cl = (r, c1)" by (cases "check_operational opts now cl")
  show "queue_bounded cl \<Longrightarrow> queue_bounded (snd (relay_send_msg opts caps now m cl))"
    using bounded_check [OF c] bounded_queue_msg [of c1 m]
    by (cases r) (simp_all add: relay_send_msg_def c)
qed

lemma bounded_batch: "queue_bounded cl \<Longrightarrow> queue_bounded (snd (send_msg_batch opts caps now ms cl))"
proof -
  obtain r c1 where c: "check_operational opts now cl = (r, c1)" by (cases "check_operational opts now cl")
  obtain its c2 where t: "track_all ms c1 = (its, c2)" by (cases "track_all ms c1")
  assume "queue_bounded cl"
  then have c1: "queue_bounded c1" using bounded_check [OF c] by simp
  then have c2: "queue_bounded c2" using track_all_fields [OF t] by (simp add: queue_bounded_def)
  show ?thesis
    using c1 bounded_sends [OF c2]
    by (cases r; cases "first_not_allowed caps ms") (simp_all add: send_msg_batch_def c t)
qed

lemma bounded_try: "queue_bounded cl \<Longrightarrow> queue_bounded (snd (try_queue opts caps now it cl))"
proof -
  obtain r c1 where c: "check_operational opts now cl = (r, c1)" by (cases "check_operational opts now cl")
  assume "queue_bounded cl"
  then have c1: "queue_bounded c1" using bounded_check [OF c] by simp
  moreover have "queue_bounded (drop_pending p c1)" for p using c1 by (simp add: queue_bounded_def)
  ultimately show ?thesis
    using bounded_send [OF c1]
    by (cases r; cases "ensure_msg_allowed caps (mi_msg it)") (simp_all add: try_queue_def c)
qed

lemma optional_track_queue:
  "(case k of None \<Rightarrow> (None, cl) | Some k \<Rightarrow> (let (p, cl) = track sid k cl in (Some p, cl))) = (p, c1)
   \<Longrightarrow> cl_queue c1 = cl_queue cl"
  by (auto simp: track_def split: option.splits)

lemma bounded_restore:
  "queue_bounded cl \<Longrightarrow> queue_bounded (snd (queue_resubscription opts caps now sid cl))"
proof (cases "cl_subs cl sid")
  case (Some d)
  assume ok: "queue_bounded cl"
  obtain p c1 where t: "(case sd_pending_req_counter d of
      None \<Rightarrow> (None, cl) | Some k \<Rightarrow> (let (p, cl) = track sid k cl in (Some p, cl))) = (p, c1)"
    by fastforce
  define it where "it = \<lparr>mi_msg = CReq sid (sd_filters d), mi_pending_req = p\<rparr>"
  define c2 where "c2 = update_data sid (new_req_data (current_connection cl)) c1"
  obtain r c3 where r: "try_queue opts caps now it c2 = (r, c3)" by (cases "try_queue opts caps now it c2")
  have "queue_bounded c2" using ok optional_track_queue [OF t] by (simp add: c2_def queue_bounded_def)
  then have "queue_bounded c3" using bounded_try [of c2 opts caps now it] r by simp
  then have "queue_bounded c3" "queue_bounded (update_data sid f c3)" for f
    by (simp_all add: queue_bounded_def)
  then show ?thesis
    using ok r Some t
    by (auto simp: queue_resubscription_def Let_def it_def c2_def split: sum.split)
qed (simp add: queue_resubscription_def)

lemma bounded_reissue:
  "queue_bounded cl \<Longrightarrow> queue_bounded (snd (reissue_subscription opts caps now sid cl))"
proof -
  obtain r c1 where c: "check_operational opts now cl = (r, c1)" by (cases "check_operational opts now cl")
  assume "queue_bounded cl"
  then have c1: "queue_bounded c1" using bounded_check [OF c] by simp
  show ?thesis
  proof (cases "cl_subs c1 sid")
    case (Some d)
    obtain p c2 where t: "(case sd_pending_req_counter d of
        None \<Rightarrow> (None, c1) | Some k \<Rightarrow> (let (p, cl) = track sid k c1 in (Some p, cl))) = (p, c2)"
      by fastforce
    have "queue_bounded c2" using c1 optional_track_queue [OF t] by (simp add: queue_bounded_def)
    then show ?thesis
      using c1 Some t
      by (auto simp: reissue_subscription_def c intro!: bounded_sends split: sum.split)
  qed (use c1 in \<open>auto simp: reissue_subscription_def c split: sum.split\<close>)
qed

lemma bounded_unsubscribe:
  "queue_bounded cl \<Longrightarrow> queue_bounded (snd (unsubscribe opts caps now sid cl))"
  using bounded_send_msg [of "forget_subscription sid cl" opts caps now "CClose sid"]
  by (auto simp: unsubscribe_def queue_bounded_def forget_subscription_def
      split: option.split sum.split prod.split)

lemma bounded_recv: "queue_bounded cl \<Longrightarrow> recv_client_msg a cl = Some cl' \<Longrightarrow> queue_bounded cl'"
  by (auto simp: recv_client_msg_def queue_bounded_def split: if_splits list.splits)

lemma bounded_write: "queue_bounded cl \<Longrightarrow> queue_bounded (write_msg written it cl)"
  by (simp add: queue_bounded_def write_msg_def start_req_def subscription_req_started_def Let_def
      split: option.split)

lemma cl_step_bounded:
  assumes "cl_step opts caps cl cl'" and "queue_bounded cl"
  shows "queue_bounded cl'"
  using assms(1)
  by cases
    (use assms(2) in \<open>simp_all add: bounded_send_msg bounded_batch bounded_restore bounded_reissue
      bounded_unsubscribe bounded_recv bounded_write bounded_queue_msg\<close>,
    simp_all add: queue_bounded_def add_long_lived_subscription_def drop_hand_def
      register_auto_closing_subscription_def update_auto_closing_subscription_def
      forget_subscription_def subscription_closed_def received_eose_def split: option.split)

lemma cl_reachable_bounded: "cl_reachable opts caps cl \<Longrightarrow> queue_bounded cl"
proof (induction rule: cl_reachable.induct)
  case 1
  show ?case by (simp add: queue_bounded_def client_new_def)
qed (rule cl_step_bounded)

lemma resubscribe_nothing:
  "\<forall>s \<in> set sids. \<not> restore_needed cl s \<Longrightarrow> resubscribe opts caps now sids cl = (Inr (), cl)"
proof (induction sids)
  case (Cons sid sids)
  then have "queue_resubscription opts caps now sid cl = (Inr False, cl)"
    by (auto simp: queue_resubscription_def restore_needed_def split: option.splits)
  then show ?case using Cons by simp
qed simp

lemma batch_fields:
  assumes "send_msg_batch opts caps now ms cl = (r, cl')"
  shows "cl_hand cl' = cl_hand cl \<and>
    (case r of
       Inl _ \<Rightarrow> cl_queue cl' = cl_queue cl
     | Inr _ \<Rightarrow> list_all (\<lambda>m. ensure_msg_allowed caps m = Inr ()) ms \<and>
         (\<exists>its. cl_queue cl' = cl_queue cl @ its \<and> map mi_msg its = ms))"
proof -
  have drop: "cl_queue (foldl (\<lambda>cl it. drop_pending (mi_pending_req it) cl) cl its) = cl_queue cl \<and>
      cl_hand (foldl (\<lambda>cl it. drop_pending (mi_pending_req it) cl) cl its) = cl_hand cl" for its cl
    by (induction its arbitrary: cl) (simp_all add: drop_pending_def split: option.split)
  have allowed: "first_not_allowed caps ms = Inr u \<Longrightarrow> list_all (\<lambda>m. ensure_msg_allowed caps m = Inr ()) ms"
    for ms u
    by (induction ms) (auto split: sum.splits)
  obtain q c1 where c: "check_operational opts now cl = (q, c1)" by (cases "check_operational opts now cl")
  obtain its c2 where t: "track_all ms c1 = (its, c2)" by (cases "track_all ms c1")
  note f = check_operational_fields [OF c] track_all_fields [OF t]
  show ?thesis
  proof (cases q)
    case (Inr u)
    then have c': "check_operational opts now cl = (Inr (), c1)" using c by simp
    consider "first_not_allowed caps ms = Inr ()" | e where "first_not_allowed caps ms = Inl e"
      by (cases "first_not_allowed caps ms") auto
    then show ?thesis
    proof cases
      case 1
      then have "send_client_msgs its c2 = (r, cl')"
        using assms by (simp add: send_msg_batch_def c' t)
      moreover have "list_all (\<lambda>m. ensure_msg_allowed caps m = Inr ()) ms" using 1 by (rule allowed)
      ultimately show ?thesis
        using f drop [of c2 its] by (auto simp: send_client_msgs_def split: if_splits)
    next
      case 2
      then have "r = Inl e" and "cl' = c1" using assms by (auto simp: send_msg_batch_def c')
      then show ?thesis using f by simp
    qed
  qed (use assms c f in \<open>auto simp: send_msg_batch_def\<close>)
qed

section \<open>Properties\<close>

text \<open>
  C25: In every reachable state the counter of a long-lived subscription is the number of \<open>REQ\<close>s
  of it that are queued or in the hand of the sender, so \<open>has_pending\<close> says exactly that there is
  one; whatever is counted is a \<open>REQ\<close> of its subscription, two subscriptions never share a
  counter, and the queue stays within the size of the channel.
\<close>

theorem pending_counts_queued:
  assumes "cl_reachable opts caps cl"
  shows "(\<forall>k. cl_counters cl k = length (filter (counted_by k) (queued_items cl))) \<and>
    (\<forall>sid d k. cl_subs cl sid = Some d \<and> sd_pending_req_counter d = Some k \<longrightarrow>
       has_pending cl d = (\<exists>it \<in> set (queued_items cl). counted_by k it) \<and>
       (\<forall>sid' d'. cl_subs cl sid' = Some d' \<and> sd_pending_req_counter d' = Some k \<longrightarrow> sid' = sid)) \<and>
    (\<forall>it \<in> set (queued_items cl). \<forall>r. mi_pending_req it = Some r \<longrightarrow>
       (\<exists>fs. mi_msg it = CReq (pr_subscription_id r) fs)) \<and>
    length (cl_queue cl) \<le> CHANNEL_SIZE"
proof (intro conjI allI ballI impI)
  have ok: "client_ok cl" using assms by (rule cl_reachable_ok)
  show c: "cl_counters cl k = length (filter (counted_by k) (queued_items cl))" for k
    using ok by (simp add: client_ok_def queued_count_def)
  show "has_pending cl d = (\<exists>it \<in> set (queued_items cl). counted_by k it)"
    if "cl_subs cl sid = Some d \<and> sd_pending_req_counter d = Some k" for sid d k
    using that by (auto simp: has_pending_def c filter_empty_conv)
  show "sid' = sid"
    if "cl_subs cl sid = Some d \<and> sd_pending_req_counter d = Some k"
      and "cl_subs cl sid' = Some d' \<and> sd_pending_req_counter d' = Some k" for sid d k sid' d'
    using ok that by (fastforce simp: client_ok_def subs_ok_def)
  show "\<exists>fs. mi_msg it = CReq (pr_subscription_id r) fs"
    if "it \<in> set (queued_items cl)" and "mi_pending_req it = Some r" for it r
    using ok that by (auto simp: client_ok_def list_all_iff item_ok_def split: option.splits)
  show "length (cl_queue cl) \<le> CHANNEL_SIZE"
    using cl_reachable_bounded [OF assms] by (simp add: queue_bounded_def)
qed

text \<open>
  C26: Restoring the subscriptions after a reconnection. When it succeeds, exactly one \<open>REQ\<close> with
  the stored filters is queued for every subscription that needed it, in order, none needs it any
  more, and a second run changes nothing; when it fails, the subscription it stopped at is still
  to be restored. Subscriptions outside the list are not touched.
\<close>

theorem resubscribe_restores:
  assumes "cl_reachable opts caps cl" and "distinct sids"
    and "resubscribe opts caps now sids cl = (r, cl')"
  shows "(case r of
      Inr _ \<Rightarrow>
        cl_queue cl' = cl_queue cl @ map (restore_item cl) (filter (restore_needed cl) sids) \<and>
        (\<forall>opts caps now. resubscribe opts caps now sids cl' = (Inr (), cl'))
    | Inl e \<Rightarrow> \<exists>s \<in> set sids. restore_needed cl' s) \<and>
    (\<forall>s. s \<notin> set sids \<longrightarrow> cl_subs cl' s = cl_subs cl s \<and> restore_needed cl' s = restore_needed cl s)"
  using resubscribe_run [OF cl_reachable_ok [OF assms(1)] assms(2,3)]
  by (auto simp: resubscribe_nothing split: sum.splits)

text \<open>
  A batch of messages is queued as a whole or not at all: on success every message is allowed
  and the batch is appended in its order; on an error the queue and all counters of pending
  requests are as before.
\<close>

lemma batch_all_or_nothing:
  assumes "cl_reachable opts caps cl" and "send_msg_batch opts caps now ms cl = (r, cl')"
  shows "case r of
      Inr _ \<Rightarrow>
        list_all (\<lambda>m. ensure_msg_allowed caps m = Inr ()) ms \<and>
        (\<exists>its. cl_queue cl' = cl_queue cl @ its \<and> map mi_msg its = ms)
    | Inl e \<Rightarrow> cl_queue cl' = cl_queue cl \<and> cl_counters cl' = cl_counters cl"
proof -
  have "client_ok cl" "client_ok cl'"
    using cl_reachable_ok [OF assms(1)] client_ok_batch [of cl opts caps now ms] assms(2) by auto
  then have "queued_items cl' = queued_items cl \<Longrightarrow> cl_counters cl' = cl_counters cl"
    by (simp add: client_ok_def queued_count_def fun_eq_iff)
  then show ?thesis
    using batch_fields [OF assms(2)] by (simp add: queued_items_def split: sum.splits)
qed

section \<open>A subscription to restore\<close>

definition ref_cl_conn :: "nat \<Rightarrow> connection" where
  "ref_cl_conn n =
     initial_connection\<lparr>cn_status := Connected, cn_stats := stats_default\<lparr>success := n\<rparr>\<rparr>"

definition ref_cl :: client where
  "ref_cl =
     client_new\<lparr>cl_conn := ref_cl_conn 1,
       cl_subs := [''s'' \<mapsto> long_lived [filter_new] 0 0], cl_next_counter := 1\<rparr>"

lemma ref_cl_reachable: "cl_reachable opts caps ref_cl"
proof -
  let ?a = "client_new\<lparr>cl_conn := ref_cl_conn 0\<rparr>"
  let ?b = "snd (add_long_lived_subscription ''s'' [filter_new] ?a)"
  have "cl_reachable opts caps ?a"
    by (rule cl_reachable.intros(2) [OF cl_reachable.intros(1)]) (rule cl_step.cl_conn)
  then have "cl_reachable opts caps ?b" by (rule cl_reachable.intros(2)) (rule cl_step.cl_add)
  then have "cl_reachable opts caps (?b\<lparr>cl_conn := ref_cl_conn 1\<rparr>)"
    by (rule cl_reachable.intros(2)) (rule cl_step.cl_conn)
  then show ?thesis
    by (simp add: fun_upd_idem ref_cl_def add_long_lived_subscription_def client_new_def delivery_connection_def
        current_connection_def ref_cl_conn_def is_connected_def stats_default_def)
qed

lemmas ref_cl_defs = ref_cl_def ref_cl_conn_def client_new_def initial_connection_def stats_default_def
  long_lived_def restore_needed_def restore_item_def needs_restore_def has_pending_def
  current_connection_def check_operational_def ensure_operational_def status_defs
  default_options_def sleep_is_enabled_def connection_is_bad_def latency_too_high_def
  send_client_msg_def send_client_msgs_def CHANNEL_SIZE_def update_data_def new_req_data_def
  track_def Let_def

lemma pending_counts_queued_witness:
  "length (filter (counted_by 0) (queued_items (snd (queue_msg (CReq ''s'' [filter_new]) ref_cl)))) = 1"
proof -
  have "cl_reachable default_options default_capabilities (snd (queue_msg (CReq ''s'' [filter_new]) ref_cl))"
    by (rule cl_reachable.intros(2) [OF ref_cl_reachable]) (rule cl_step.cl_queue)
  moreover have "cl_counters (snd (queue_msg (CReq ''s'' [filter_new]) ref_cl)) 0 = 1"
    by (simp add: queue_msg_def track_req_def ref_cl_defs)
  ultimately show ?thesis by (metis pending_counts_queued)
qed

lemma resubscribe_restores_witness:
  "cl_queue (snd (resubscribe default_options default_capabilities 5 [''s''] ref_cl)) =
     [\<lparr>mi_msg = CReq ''s'' [filter_new],
       mi_pending_req = Some \<lparr>pr_subscription_id = ''s'', pr_counter = 0\<rparr>\<rparr>]"
proof -
  have "fst (resubscribe default_options default_capabilities 5 [''s''] ref_cl) = Inr ()"
    by (simp add: queue_resubscription_def try_queue_def ensure_msg_allowed_def msg_is_event_def
        default_capabilities_read_write ref_cl_defs)
  then obtain cl' where r:
    "resubscribe default_options default_capabilities 5 [''s''] ref_cl = (Inr (), cl')"
    by (metis prod.collapse)
  from resubscribe_restores [OF ref_cl_reachable _ r] show ?thesis
    unfolding r by (simp add: ref_cl_defs)
qed

lemma batch_all_or_nothing_witness:
  "map mi_msg (cl_queue (snd (send_msg_batch default_options default_capabilities 5
     [CReq ''s'' [filter_new], CClose ''s''] ref_cl))) = [CReq ''s'' [filter_new], CClose ''s'']"
proof -
  have "fst (send_msg_batch default_options default_capabilities 5
     [CReq ''s'' [filter_new], CClose ''s''] ref_cl) = Inr ()"
    by (simp add: send_msg_batch_def ensure_msg_allowed_def msg_is_event_def track_req_def
        default_capabilities_read_write ref_cl_defs)
  then obtain cl' where r: "send_msg_batch default_options default_capabilities 5
     [CReq ''s'' [filter_new], CClose ''s''] ref_cl = (Inr (), cl')"
    by (metis prod.collapse)
  from batch_all_or_nothing [OF ref_cl_reachable r] show ?thesis
    unfolding r by (auto simp: ref_cl_def client_new_def)
qed

end
