(* ===== verification/Client_Acquisition.thy ===== *)
theory Client_Acquisition
  imports Client_Status
begin

text \<open>
  Bounded acquisitions (nostr-sdk/src/relay/api/acquire_events.rs): the evidence of the raw
  events of one request, the result of one relay with its budgets, and the loop that collects
  the validated events. The length of the JSON text of an event is a parameter.
\<close>

section \<open>Limits and outcomes\<close>

record acquisition_limits =
  aq_max_items :: nat
  aq_max_event_bytes :: nat
  aq_max_relays :: nat
  aq_timeout :: nat
  aq_policy :: req_exit_policy

definition acquisition_limits_new :: "nat \<Rightarrow> nat \<Rightarrow> nat \<Rightarrow> nat \<Rightarrow> acquisition_limits" where
  "acquisition_limits_new max_relays max_items max_event_bytes timeout =
     \<lparr>aq_max_items = max_items, aq_max_event_bytes = max_event_bytes, aq_max_relays = max_relays,
      aq_timeout = timeout, aq_policy = ExitOnEOSE\<rparr>"

definition validate_limits :: "acquisition_limits \<Rightarrow> sdk_error + unit" where
  "validate_limits l =
     (if aq_max_relays l = 0 \<or> aq_max_items l = 0 \<or> aq_max_event_bytes l = 0 \<or> aq_timeout l = 0
      then Inl (SdkError KInvalid ''acquisition limits must be nonzero'')
      else Inr ())"

datatype auto_closed_reason =
    ClosedAuthenticationFailed
  | ClosedBy string
  | ClosedByRelay string
  | ClosedLagged nat
  | ClosedReceiverClosed
  | ClosedTimedOut
  | ClosedDisconnected
  | ClosedLimitReached
  | ClosedCompleted

datatype acquisition_end =
    EndCompleted
  | EndExitLimitReached
  | EndItemBudgetExceeded
  | EndByteBudgetExceeded
  | EndCancelled
  | EndTimedOut
  | EndDisconnected
  | EndReceiveLoss nat
  | EndInvalidMessage
  | EndReceiverClosed
  | EndAuthenticationFailed
  | EndRejected string
  | EndRelayClosed string
  | EndFailed sdk_error

definition end_of_reason :: "auto_closed_reason \<Rightarrow> acquisition_end" where
  "end_of_reason r =
     (case r of
        ClosedCompleted \<Rightarrow> EndCompleted
      | ClosedLimitReached \<Rightarrow> EndExitLimitReached
      | ClosedTimedOut \<Rightarrow> EndTimedOut
      | ClosedDisconnected \<Rightarrow> EndDisconnected
      | ClosedLagged n \<Rightarrow> EndReceiveLoss n
      | ClosedReceiverClosed \<Rightarrow> EndReceiverClosed
      | ClosedAuthenticationFailed \<Rightarrow> EndAuthenticationFailed
      | ClosedBy m \<Rightarrow> EndRejected m
      | ClosedByRelay m \<Rightarrow> EndRelayClosed m)"

section \<open>The result of one relay\<close>

record relay_acquisition =
  ra_events :: "event list"
  ra_end :: acquisition_end
  ra_raw_received_items :: nat
  ra_oldest_raw_created_at :: "timestamp option"
  ra_received_items :: nat
  ra_received_event_bytes :: nat
  ra_duplicates :: nat
  ra_high_water_items :: nat
  ra_high_water_event_bytes :: nat

definition relay_acquisition_new :: relay_acquisition where
  "relay_acquisition_new =
     \<lparr>ra_events = [], ra_end = EndReceiverClosed, ra_raw_received_items = 0,
      ra_oldest_raw_created_at = None, ra_received_items = 0, ra_received_event_bytes = 0,
      ra_duplicates = 0, ra_high_water_items = 0, ra_high_water_event_bytes = 0\<rparr>"

definition missing_relay :: relay_acquisition where
  "missing_relay =
     relay_acquisition_new\<lparr>ra_end := EndFailed (SdkError KNotFound ''relay not found'')\<rparr>"

datatype item_budget = BudgetWithin | BudgetExceeded

text \<open>The addition of \<open>duplicates\<close> cannot overflow: it stays below the counted items.\<close>

definition accept_event ::
  "(event \<Rightarrow> nat) \<Rightarrow> event \<Rightarrow> acquisition_limits \<Rightarrow> item_budget \<Rightarrow> relay_acquisition \<Rightarrow>
   bool \<times> relay_acquisition" where
  "accept_event json_len e l budget r =
     (let event_bytes = json_len e in
      if usize_max < ra_received_items r + 1
      then (False, r\<lparr>ra_end := EndItemBudgetExceeded\<rparr>)
      else
        (let r = r\<lparr>ra_received_items := ra_received_items r + 1\<rparr> in
         if usize_max < ra_received_event_bytes r + event_bytes
         then (False, r\<lparr>ra_end := EndByteBudgetExceeded\<rparr>)
         else
           (let r = r\<lparr>ra_received_event_bytes := ra_received_event_bytes r + event_bytes\<rparr> in
            if budget = BudgetExceeded \<or> aq_max_items l < ra_received_items r
            then (False, r\<lparr>ra_end := EndItemBudgetExceeded\<rparr>)
            else if aq_max_event_bytes l < ra_received_event_bytes r
            then (False, r\<lparr>ra_end := EndByteBudgetExceeded\<rparr>)
            else if bts_contains event_key e (ra_events r)
            then (True, r\<lparr>ra_duplicates := ra_duplicates r + 1\<rparr>)
            else
              (let events = bts_insert event_key e (ra_events r)
               in (True,
                   r\<lparr>ra_events := events, ra_high_water_items := length events,
                     ra_high_water_event_bytes :=
                       saturating_add usize_max (ra_high_water_event_bytes r) event_bytes\<rparr>)))))"

section \<open>The evidence of raw events\<close>

datatype raw_phase = RawActive | RawExhausted | RawExhaustedValid

text \<open>\<open>rw_terminal\<close> is the permit that the \<open>Notify\<close> stores.\<close>

record raw_acquisition =
  rw_phase :: raw_phase
  rw_closed :: bool
  rw_items :: nat
  rw_oldest :: "timestamp option"
  rw_forwarded :: nat
  rw_rejected :: bool
  rw_max_items :: nat
  rw_stop_on_eose :: bool
  rw_terminal :: bool

definition raw_new :: "nat \<Rightarrow> req_exit_policy \<Rightarrow> raw_acquisition" where
  "raw_new max_items policy =
     \<lparr>rw_phase = RawActive, rw_closed = False, rw_items = 0, rw_oldest = None, rw_forwarded = 0,
      rw_rejected = False, rw_max_items = max_items, rw_stop_on_eose = (policy = ExitOnEOSE),
      rw_terminal = False\<rparr>"

definition raw_close :: "raw_acquisition \<Rightarrow> raw_acquisition" where
  "raw_close w = w\<lparr>rw_closed := True\<rparr>"

definition raw_received_eose :: "raw_acquisition \<Rightarrow> raw_acquisition" where
  "raw_received_eose w = (if rw_stop_on_eose w then raw_close w else w)"

definition raw_record :: "timestamp \<Rightarrow> raw_acquisition \<Rightarrow> bool \<times> raw_acquisition" where
  "raw_record created_at w =
     (if rw_closed w \<or> rw_phase w \<noteq> RawActive \<or> rw_rejected w then (False, w)
      else
        (let overflow = usize_max < rw_items w + 1;
             items = (if overflow then usize_max else rw_items w + 1);
             oldest = (case rw_oldest w of None \<Rightarrow> created_at | Some t \<Rightarrow> min t created_at)
         in (True,
             w\<lparr>rw_items := items, rw_oldest := Some oldest,
               rw_phase := if overflow \<or> rw_max_items w < items then RawExhausted else rw_phase w\<rparr>)))"

definition raw_forward :: "raw_acquisition \<Rightarrow> raw_acquisition" where
  "raw_forward w =
     (if rw_closed w then w
      else
        (case rw_phase w of
           RawActive \<Rightarrow> w\<lparr>rw_forwarded := saturating_add usize_max (rw_forwarded w) 1\<rparr>
         | RawExhausted \<Rightarrow>
             w\<lparr>rw_forwarded := saturating_add usize_max (rw_forwarded w) 1,
               rw_phase := RawExhaustedValid\<rparr>
         | RawExhaustedValid \<Rightarrow> w))"

definition raw_is_exhausted :: "raw_acquisition \<Rightarrow> bool" where
  "raw_is_exhausted w \<longleftrightarrow> rw_phase w = RawExhausted \<or> rw_phase w = RawExhaustedValid"

definition raw_processed :: "raw_acquisition \<Rightarrow> raw_acquisition" where
  "raw_processed w = (if raw_is_exhausted w then w\<lparr>rw_terminal := True\<rparr> else w)"

definition raw_reject_input :: "raw_acquisition \<Rightarrow> raw_acquisition" where
  "raw_reject_input w =
     (if rw_closed w \<or> rw_rejected w then w else w\<lparr>rw_rejected := True, rw_terminal := True\<rparr>)"

definition raw_terminal_end :: "raw_acquisition \<Rightarrow> acquisition_end" where
  "raw_terminal_end w = (if rw_rejected w then EndInvalidMessage else EndItemBudgetExceeded)"

definition raw_item_budget :: "nat \<Rightarrow> raw_acquisition \<Rightarrow> item_budget" where
  "raw_item_budget received w =
     (if rw_phase w = RawExhaustedValid \<and> rw_forwarded w \<le> saturating_add usize_max received 1
      then BudgetExceeded else BudgetWithin)"

definition raw_drained :: "nat \<Rightarrow> raw_acquisition \<Rightarrow> bool" where
  "raw_drained received w \<longleftrightarrow> rw_forwarded w \<le> received"

definition raw_finish ::
  "raw_acquisition \<Rightarrow> relay_acquisition \<Rightarrow> raw_acquisition \<times> relay_acquisition" where
  "raw_finish w r =
     (let r = r\<lparr>ra_raw_received_items := rw_items w, ra_oldest_raw_created_at := rw_oldest w\<rparr>;
          r = (if (rw_rejected w \<or> raw_is_exhausted w) \<and>
                  ra_end r \<in> {EndCompleted, EndExitLimitReached, EndReceiverClosed}
               then r\<lparr>ra_end := if rw_rejected w then EndInvalidMessage else EndItemBudgetExceeded\<rparr>
               else r)
      in (w\<lparr>rw_closed := True\<rparr>, r))"

section \<open>The collector\<close>

text \<open>
  \<open>acquire_inner\<close> and \<open>acquire_relay\<close>. The state is the evidence, which the handler of messages
  changes at any time, the result, and whether the loop has seen the terminal signal and has
  ended. The activities come from the handler of the subscription.
\<close>

record acquisition =
  ac_raw :: raw_acquisition
  ac_result :: relay_acquisition
  ac_raw_terminal :: bool
  ac_ended :: bool
  ac_finished :: bool

definition acquisition_start :: "acquisition_limits \<Rightarrow> acquisition" where
  "acquisition_start l =
     \<lparr>ac_raw = raw_new (aq_max_items l) (aq_policy l), ac_result = relay_acquisition_new,
      ac_raw_terminal = False, ac_ended = False, ac_finished = False\<rparr>"

definition end_with :: "acquisition_end \<Rightarrow> acquisition \<Rightarrow> acquisition" where
  "end_with e a = a\<lparr>ac_result := (ac_result a)\<lparr>ra_end := e\<rparr>, ac_ended := True\<rparr>"

definition collect_terminal :: "acquisition \<Rightarrow> acquisition" where
  "collect_terminal a =
     (let a = a\<lparr>ac_raw_terminal := True, ac_raw := (ac_raw a)\<lparr>rw_terminal := False\<rparr>\<rparr>
      in if raw_drained (ra_received_items (ac_result a)) (ac_raw a)
         then end_with (raw_terminal_end (ac_raw a)) a else a)"

definition collect_event ::
  "(event \<Rightarrow> nat) \<Rightarrow> acquisition_limits \<Rightarrow> event \<Rightarrow> acquisition \<Rightarrow> acquisition" where
  "collect_event json_len l e a =
     (let budget = raw_item_budget (ra_received_items (ac_result a)) (ac_raw a);
          (accepted, r) = accept_event json_len e l budget (ac_result a);
          a = a\<lparr>ac_result := r\<rparr>
      in if \<not> accepted then a\<lparr>ac_ended := True\<rparr>
         else if ac_raw_terminal a \<and> raw_drained (ra_received_items (ac_result a)) (ac_raw a)
         then end_with (raw_terminal_end (ac_raw a)) a
         else a)"

text \<open>What the loop can take next; \<open>None\<close> is the end of the channel of activities.\<close>

datatype collect_input =
    InCancelled
  | InDeadline
  | InTerminal
  | InActivity "(event + auto_closed_reason) option"

definition collect_step ::
  "(event \<Rightarrow> nat) \<Rightarrow> acquisition_limits \<Rightarrow> collect_input \<Rightarrow> acquisition \<Rightarrow> acquisition" where
  "collect_step json_len l i a =
     (case i of
        InCancelled \<Rightarrow> end_with EndCancelled a
      | InDeadline \<Rightarrow> end_with EndTimedOut a
      | InTerminal \<Rightarrow> collect_terminal a
      | InActivity None \<Rightarrow> end_with EndReceiverClosed a
      | InActivity (Some (Inl e)) \<Rightarrow> collect_event json_len l e a
      | InActivity (Some (Inr reason)) \<Rightarrow> end_with (end_of_reason reason) a)"

definition collect_finish :: "acquisition \<Rightarrow> acquisition" where
  "collect_finish a =
     (let (w, r) = raw_finish (ac_raw a) (ac_result a)
      in a\<lparr>ac_raw := w, ac_result := r, ac_finished := True\<rparr>)"

inductive acquisition_step ::
  "(event \<Rightarrow> nat) \<Rightarrow> acquisition_limits \<Rightarrow> acquisition \<Rightarrow> acquisition \<Rightarrow> bool" for json_len l where
  aq_record: "acquisition_step json_len l a (a\<lparr>ac_raw := snd (raw_record t (ac_raw a))\<rparr>)"
| aq_forward: "acquisition_step json_len l a (a\<lparr>ac_raw := raw_forward (ac_raw a)\<rparr>)"
| aq_processed: "acquisition_step json_len l a (a\<lparr>ac_raw := raw_processed (ac_raw a)\<rparr>)"
| aq_reject: "acquisition_step json_len l a (a\<lparr>ac_raw := raw_reject_input (ac_raw a)\<rparr>)"
| aq_eose: "acquisition_step json_len l a (a\<lparr>ac_raw := raw_received_eose (ac_raw a)\<rparr>)"
| aq_setup: "\<not> ac_ended a \<Longrightarrow> en = EndCancelled \<or> en = EndTimedOut \<or> en = EndFailed err \<Longrightarrow>
    acquisition_step json_len l a (end_with en a)"
| aq_collect: "\<not> ac_ended a \<Longrightarrow>
    i = InTerminal \<longrightarrow> \<not> ac_raw_terminal a \<and> rw_terminal (ac_raw a) \<Longrightarrow>
    acquisition_step json_len l a (collect_step json_len l i a)"
| aq_finish: "ac_ended a \<Longrightarrow> \<not> ac_finished a \<Longrightarrow>
    acquisition_step json_len l a (collect_finish a)"

inductive acquired :: "(event \<Rightarrow> nat) \<Rightarrow> acquisition_limits \<Rightarrow> acquisition \<Rightarrow> bool" for json_len l where
  "acquired json_len l (acquisition_start l)"
| "acquired json_len l a \<Longrightarrow> acquisition_step json_len l a a' \<Longrightarrow> acquired json_len l a'"

section \<open>The budgets hold\<close>

lemma bts_insert_new:
  "\<not> bts_contains key x xs \<Longrightarrow>
   length (bts_insert key x xs) = Suc (length xs) \<and>
   sum_list (map f (bts_insert key x xs)) = f x + (sum_list (map f xs) :: nat)"
  by (induction xs) (auto simp: bts_contains_def)

definition result_ok :: "(event \<Rightarrow> nat) \<Rightarrow> acquisition_limits \<Rightarrow> relay_acquisition \<Rightarrow> bool" where
  "result_ok json_len l r \<longleftrightarrow>
     bts_ok event_key (ra_events r) \<and>
     ra_high_water_items r = length (ra_events r) \<and>
     ra_high_water_event_bytes r = sum_list (map json_len (ra_events r)) \<and>
     length (ra_events r) + ra_duplicates r \<le> ra_received_items r \<and>
     sum_list (map json_len (ra_events r)) \<le> ra_received_event_bytes r \<and>
     ra_received_event_bytes r \<le> usize_max \<and>
     length (ra_events r) \<le> aq_max_items l \<and>
     sum_list (map json_len (ra_events r)) \<le> aq_max_event_bytes l"

lemma result_ok_new: "result_ok json_len l relay_acquisition_new"
  by (simp add: result_ok_def relay_acquisition_new_def)

lemma result_ok_accept:
  assumes "result_ok json_len l r" and "accept_event json_len e l budget r = (b, r')"
  shows "result_ok json_len l r'"
    and "ra_received_items r' \<le> Suc (ra_received_items r)"
    and "b \<Longrightarrow> ra_received_items r' \<le> aq_max_items l"
proof -
  show "result_ok json_len l r'"
  proof (cases "bts_contains event_key e (ra_events r)")
    case True
    then show ?thesis
      using assms by (auto simp: accept_event_def result_ok_def Let_def split: if_splits)
  next
    case False
    note new = bts_insert_new [OF False, where f = json_len]
    show ?thesis
      using assms False new
      by (auto simp: accept_event_def result_ok_def Let_def saturating_add_def bts_insert_ok
          split: if_splits)
  qed
  show "ra_received_items r' \<le> Suc (ra_received_items r)"
    using assms(2) by (auto simp: accept_event_def Let_def split: if_splits)
  show "b \<Longrightarrow> ra_received_items r' \<le> aq_max_items l"
    using assms(2) by (auto simp: accept_event_def Let_def split: if_splits)
qed

lemma result_ok_end [simp]: "result_ok json_len l (r\<lparr>ra_end := e\<rparr>) = result_ok json_len l r"
  by (simp add: result_ok_def)

lemma result_ok_finish: "result_ok json_len l r \<Longrightarrow> result_ok json_len l (snd (raw_finish w r))"
  by (simp add: raw_finish_def Let_def result_ok_def)

definition raw_ok :: "acquisition_limits \<Rightarrow> raw_acquisition \<Rightarrow> bool" where
  "raw_ok l w \<longleftrightarrow>
     rw_max_items w = aq_max_items l \<and> (rw_phase w = RawActive \<longrightarrow> rw_items w \<le> aq_max_items l)"

lemmas raw_defs = raw_record_def raw_forward_def raw_processed_def raw_reject_input_def
  raw_received_eose_def raw_close_def raw_finish_def raw_is_exhausted_def Let_def

lemma raw_ok_ops:
  assumes "raw_ok l w"
  shows "raw_ok l (snd (raw_record t w))" "raw_ok l (raw_forward w)" "raw_ok l (raw_processed w)"
    "raw_ok l (raw_reject_input w)" "raw_ok l (raw_received_eose w)"
    "raw_ok l (fst (raw_finish w r))" "raw_ok l (w\<lparr>rw_terminal := b\<rparr>)"
  using assms by (auto simp: raw_ok_def raw_defs split: raw_phase.split)

text \<open>A request that is closed keeps its evidence.\<close>

definition same_evidence :: "raw_acquisition \<Rightarrow> raw_acquisition \<Rightarrow> bool" where
  "same_evidence w w' \<longleftrightarrow>
     rw_closed w' \<and> rw_items w' = rw_items w \<and> rw_oldest w' = rw_oldest w \<and>
     rw_rejected w' = rw_rejected w \<and> rw_phase w' = rw_phase w"

lemma closed_ops:
  assumes "rw_closed w"
  shows "same_evidence w (snd (raw_record t w))" "same_evidence w (raw_forward w)"
    "same_evidence w (raw_processed w)" "same_evidence w (raw_reject_input w)"
    "same_evidence w (raw_received_eose w)"
  using assms by (auto simp: same_evidence_def raw_defs)

definition honest :: "acquisition \<Rightarrow> bool" where
  "honest a \<longleftrightarrow>
     (let w = ac_raw a; r = ac_result a in
      ac_ended a \<and> rw_closed w \<and> ra_raw_received_items r = rw_items w \<and>
      ra_oldest_raw_created_at r = rw_oldest w \<and>
      (ra_end r \<in> {EndCompleted, EndExitLimitReached, EndReceiverClosed} \<longrightarrow>
         \<not> rw_rejected w \<and> rw_phase w = RawActive))"

lemma honest_same:
  "honest a \<Longrightarrow> same_evidence (ac_raw a) w \<Longrightarrow> honest (a\<lparr>ac_raw := w\<rparr>)"
  by (auto simp: honest_def same_evidence_def Let_def)

lemma honest_closed: "honest a \<Longrightarrow> rw_closed (ac_raw a)"
  by (simp add: honest_def Let_def)

lemma honest_finish: "ac_ended a \<Longrightarrow> honest (collect_finish a)"
  by (cases "rw_phase (ac_raw a)") (auto simp: honest_def collect_finish_def raw_defs)

definition acquisition_ok :: "(event \<Rightarrow> nat) \<Rightarrow> acquisition_limits \<Rightarrow> acquisition \<Rightarrow> bool" where
  "acquisition_ok json_len l a \<longleftrightarrow>
     result_ok json_len l (ac_result a) \<and> raw_ok l (ac_raw a) \<and>
     ra_received_items (ac_result a) \<le> Suc (aq_max_items l) \<and>
     (\<not> ac_ended a \<longrightarrow> ra_received_items (ac_result a) \<le> aq_max_items l) \<and>
     (ac_finished a \<longrightarrow> honest a)"

lemma acquisition_ok_raw:
  assumes "acquisition_ok json_len l a" and "raw_ok l w"
    and "rw_closed (ac_raw a) \<Longrightarrow> same_evidence (ac_raw a) w"
  shows "acquisition_ok json_len l (a\<lparr>ac_raw := w\<rparr>)"
  using assms by (auto simp: acquisition_ok_def intro!: honest_same dest: honest_closed)

lemma acquisition_ok_end:
  assumes "acquisition_ok json_len l a" and "\<not> ac_ended a"
  shows "acquisition_ok json_len l (end_with e a)"
  using assms by (auto simp: acquisition_ok_def end_with_def honest_def Let_def)

lemma acquisition_ok_event:
  assumes "acquisition_ok json_len l a" and "\<not> ac_ended a"
  shows "acquisition_ok json_len l (collect_event json_len l e a)"
proof -
  have nf: "\<not> ac_finished a" using assms by (auto simp: acquisition_ok_def honest_def Let_def)
  define budget where "budget = raw_item_budget (ra_received_items (ac_result a)) (ac_raw a)"
  obtain b r where r: "accept_event json_len e l budget (ac_result a) = (b, r)"
    by (cases "accept_event json_len e l budget (ac_result a)")
  have ok: "result_ok json_len l (ac_result a)" using assms(1) by (simp add: acquisition_ok_def)
  note acc = result_ok_accept [OF ok r]
  have "acquisition_ok json_len l (a\<lparr>ac_result := r, ac_ended := True\<rparr>)"
    using assms acc nf by (auto simp: acquisition_ok_def)
  moreover have "acquisition_ok json_len l (a\<lparr>ac_result := r\<rparr>)" if b
    using assms acc nf that by (auto simp: acquisition_ok_def)
  ultimately show ?thesis
    using assms(2) r acquisition_ok_end [of json_len l "a\<lparr>ac_result := r\<rparr>"]
    by (cases b) (simp_all add: collect_event_def budget_def Let_def)
qed

lemma acquisition_ok_terminal:
  assumes "acquisition_ok json_len l a" and "\<not> ac_ended a"
  shows "acquisition_ok json_len l (collect_terminal a)"
proof -
  define a1 where "a1 = a\<lparr>ac_raw_terminal := True, ac_raw := (ac_raw a)\<lparr>rw_terminal := False\<rparr>\<rparr>"
  have "acquisition_ok json_len l a1" and "\<not> ac_ended a1"
    using assms by (auto simp: a1_def acquisition_ok_def raw_ok_ops honest_def Let_def)
  then show ?thesis
    using acquisition_ok_end [of json_len l a1]
    by (simp add: collect_terminal_def a1_def Let_def)
qed

lemma acquisition_step_ok:
  assumes "acquisition_step json_len l a a'" and "acquisition_ok json_len l a"
  shows "acquisition_ok json_len l a'"
proof -
  have w: "raw_ok l (ac_raw a)" using assms(2) by (simp add: acquisition_ok_def)
  note raw = acquisition_ok_raw [OF assms(2)]
  from assms(1) show ?thesis
  proof cases
    case (aq_collect i)
    then show ?thesis
      using assms(2) acquisition_ok_end acquisition_ok_event acquisition_ok_terminal
      by (auto simp: collect_step_def split: collect_input.split option.split sum.split)
  next
    case aq_finish
    then show ?thesis
      using assms(2) honest_finish [of a] result_ok_finish [of json_len l "ac_result a" "ac_raw a"]
        raw_ok_ops(6) [OF w, of "ac_result a"]
      by (auto simp: acquisition_ok_def collect_finish_def raw_finish_def Let_def)
  qed (use assms(2) acquisition_ok_end raw raw_ok_ops [OF w] closed_ops in auto)
qed

lemma acquired_ok: "acquired json_len l a \<Longrightarrow> acquisition_ok json_len l a"
proof (induction rule: acquired.induct)
  case 1
  show ?case
    by (simp add: acquisition_start_def acquisition_ok_def result_ok_new raw_ok_def raw_new_def)
      (simp add: relay_acquisition_new_def)
qed (rule acquisition_step_ok)

section \<open>Properties\<close>

text \<open>
  Whatever a relay sends and in whatever order the loop sees it, the events that an
  acquisition keeps are distinct and within both budgets, the high water marks are their exact
  number and size, and the loop counts at most one event more than the budget.
\<close>

lemma acquisition_bounded:
  assumes "acquired json_len l a"
  shows "bts_ok event_key (ra_events (ac_result a)) \<and>
    length (ra_events (ac_result a)) \<le> aq_max_items l \<and>
    sum_list (map json_len (ra_events (ac_result a))) \<le> aq_max_event_bytes l \<and>
    ra_high_water_items (ac_result a) = length (ra_events (ac_result a)) \<and>
    ra_high_water_event_bytes (ac_result a) = sum_list (map json_len (ra_events (ac_result a))) \<and>
    length (ra_events (ac_result a)) + ra_duplicates (ac_result a) \<le> ra_received_items (ac_result a) \<and>
    ra_received_items (ac_result a) \<le> aq_max_items l + 1"
  using acquired_ok [OF assms] by (simp add: acquisition_ok_def result_ok_def)


section \<open>An acquisition that completes\<close>

definition ref_acquisition_event :: event where
  "ref_acquisition_event =
     \<lparr>ev_id = EventId [], ev_pubkey = PublicKey [], ev_created_at = 7, ev_kind = Named 1,
      ev_tags = [], ev_content = ''a'', ev_sig = []\<rparr>"

definition ref_acquisition_limits :: acquisition_limits where
  "ref_acquisition_limits = acquisition_limits_new 1 2 100 5"

definition ref_acquisition :: acquisition where
  "ref_acquisition =
     collect_finish
       (collect_step (\<lambda>_. 10) ref_acquisition_limits (InActivity (Some (Inr ClosedCompleted)))
          (collect_step (\<lambda>_. 10) ref_acquisition_limits
             (InActivity (Some (Inl ref_acquisition_event)))
             (acquisition_start ref_acquisition_limits)))"

lemmas ref_acquisition_defs = ref_acquisition_def ref_acquisition_event_def
  ref_acquisition_limits_def acquisition_limits_new_def acquisition_start_def collect_finish_def
  collect_step_def collect_event_def accept_event_def raw_new_def relay_acquisition_new_def
  raw_item_budget_def raw_finish_def end_with_def end_of_reason_def raw_is_exhausted_def
  usize_max_def bts_contains_def saturating_add_def Let_def

lemma ref_acquired: "acquired (\<lambda>_. 10) ref_acquisition_limits ref_acquisition"
proof -
  let ?l = ref_acquisition_limits
  let ?a = "collect_step (\<lambda>_. 10) ?l (InActivity (Some (Inl ref_acquisition_event)))
    (acquisition_start ?l)"
  let ?b = "collect_step (\<lambda>_. 10) ?l (InActivity (Some (Inr ClosedCompleted))) ?a"
  have "acquired (\<lambda>_. 10) ?l ?a"
    by (rule acquired.intros(2) [OF acquired.intros(1)], rule acquisition_step.aq_collect)
      (simp_all add: acquisition_start_def)
  then have "acquired (\<lambda>_. 10) ?l ?b"
    by (rule acquired.intros(2), intro acquisition_step.aq_collect)
      (simp_all add: ref_acquisition_defs)
  then show ?thesis
    unfolding ref_acquisition_def
    by (rule acquired.intros(2), intro acquisition_step.aq_finish)
      (simp_all add: ref_acquisition_defs)
qed

lemma acquisition_bounded_witness:
  "ra_high_water_event_bytes (ac_result ref_acquisition) =
     sum_list (map (\<lambda>_. 10) (ra_events (ac_result ref_acquisition))) \<and>
   ra_events (ac_result ref_acquisition) = [ref_acquisition_event]"
  using acquisition_bounded [OF ref_acquired] by (simp add: ref_acquisition_defs)


end
