(* ===== verification/Client_Messages.thy ===== *)
theory Client_Messages
  imports Client_Restoring Client_Acquisition Gossip_Contract Memory_Contract
begin

text \<open>
  What a connection of the client does with the messages of the relay
  (nostr-sdk/src/relay/inner.rs) and the cache of verified events (nostr-sdk/src/shared.rs).

  The database, the gossip store, the cache and the policy are records of operations; an error
  of the database or of the gossip store is its text. One message is handled as one step: the
  locks it takes one after the other are not released to other threads in the model. A text is
  given by its JSON elements and its length.
\<close>

section \<open>What the connections share\<close>

record 'v verification_cache =
  vc_contains :: "event_id \<Rightarrow> 'v \<Rightarrow> bool"
  vc_put :: "event_id \<Rightarrow> 'v \<Rightarrow> 'v"

text \<open>An id that is in the cache was put there; the one put last is there.\<close>

definition cache_ok :: "'v verification_cache \<Rightarrow> bool" where
  "cache_ok C \<longleftrightarrow>
     (\<forall>i v. vc_contains C i (vc_put C i v)) \<and>
     (\<forall>i j v. vc_contains C j (vc_put C i v) \<longrightarrow> j = i \<or> vc_contains C j v)"

record 'd client_database =
  db_check_id :: "event_id \<Rightarrow> 'd \<Rightarrow> string + database_event_status"
  db_save_event :: "event \<Rightarrow> 'd \<Rightarrow> (string + save_event_status) \<times> 'd"

record ('d, 'g, 'v) relay_config =
  rc_externals :: externals
  rc_url :: relay_url
  rc_options :: relay_options
  rc_namespace :: string
  rc_json_len :: "event \<Rightarrow> nat"
  rc_database :: "'d client_database"
  rc_gossip :: "('g, string) gossip option"
  rc_cache :: "'v verification_cache"
  rc_admit :: "(string \<Rightarrow> event \<Rightarrow> sdk_error + admit_status) option"
  rc_authenticator :: bool
  rc_has_external :: bool

datatype client_notification =
    CNEvent relay_url string event
  | CNMessage relay_url relay_message

record ('d, 'g, 'v) client_state =
  rx_client :: client
  rx_raw :: "nat \<Rightarrow> raw_acquisition"
  rx_db :: 'd
  rx_gossip :: 'g
  rx_cache :: 'v
  rx_internal :: "relay_notification list"
  rx_external :: "client_notification list"
  rx_challenge :: "string option"

definition err_nostr :: "error_kind \<Rightarrow> sdk_error" where
  "err_nostr k = SdkError KProtocol ''nostr''"

definition verify_and_cache ::
  "externals \<Rightarrow> 'v verification_cache \<Rightarrow> event \<Rightarrow> 'v \<Rightarrow> (sdk_error + unit) \<times> 'v" where
  "verify_and_cache x C e v =
     (if vc_contains C (ev_id e) v then (Inr (), v)
      else
        (case event_verify x e of
           Inl k \<Rightarrow> (Inl (err_nostr k), v)
         | Inr _ \<Rightarrow> (Inr (), vc_put C (ev_id e) v)))"

section \<open>Notifications\<close>

definition to_client_notification ::
  "relay_url \<Rightarrow> relay_notification \<Rightarrow> client_notification option" where
  "to_client_notification u n =
     (case n of
        NEvent sid e \<Rightarrow> Some (CNEvent u sid e)
      | NMessage m \<Rightarrow> Some (CNMessage u m)
      | NStatus _ \<Rightarrow> None
      | NAuthenticated \<Rightarrow> None
      | NAuthenticationFailed \<Rightarrow> None)"

definition send_notification ::
  "('d, 'g, 'v) relay_config \<Rightarrow> relay_notification \<Rightarrow> bool \<Rightarrow> ('d, 'g, 'v) client_state \<Rightarrow>
   ('d, 'g, 'v) client_state" where
  "send_notification R n external st =
     (let st = st\<lparr>rx_internal := rx_internal st @ [n]\<rparr> in
      if external \<and> rc_has_external R
      then (case to_client_notification (rc_url R) n of
              None \<Rightarrow> st
            | Some c \<Rightarrow> st\<lparr>rx_external := rx_external st @ [c]\<rparr>)
      else st)"

section \<open>Events\<close>

definition MATCH_EVENT_OPTS :: match_options where
  "MATCH_EVENT_OPTS = match_all\<lparr>mo_nip50 := False\<rparr>"

definition check_event_limits ::
  "relay_options \<Rightarrow> (event \<Rightarrow> nat) \<Rightarrow> event \<Rightarrow> sdk_error + unit" where
  "check_event_limits opts json_len e =
     (let limits = limits_events (opt_limits opts) in
      if (case get_max_size (ev_kind e) limits of None \<Rightarrow> False | Some m \<Rightarrow> m < json_len e)
      then Inl (SdkError KLimitExceeded ''event is too large'')
      else if (case get_max_num_tags (ev_kind e) limits of
                 None \<Rightarrow> False | Some m \<Rightarrow> m < length (ev_tags e))
      then Inl (SdkError KLimitExceeded ''too many tags'')
      else Inr ())"

definition update_client ::
  "(client \<Rightarrow> client) \<Rightarrow> ('d, 'g, 'v) client_state \<Rightarrow> ('d, 'g, 'v) client_state" where
  "update_client f st = st\<lparr>rx_client := f (rx_client st)\<rparr>"

definition ban_on_mismatch ::
  "relay_options \<Rightarrow> ('d, 'g, 'v) client_state \<Rightarrow> ('d, 'g, 'v) client_state" where
  "ban_on_mismatch opts st =
     (if opt_ban_relay_on_mismatch opts
      then update_client (\<lambda>cl. cl\<lparr>cl_conn := ban (cl_conn cl)\<rparr>) st else st)"

text \<open>\<open>received_events\<close> is counted only while a single filter has a limit and no EOSE came.\<close>

definition counted_limit :: "subscription_data \<Rightarrow> nat option" where
  "counted_limit d =
     (if \<not> sd_received_eose d \<and> length (sd_filters d) = 1 then fl_limit (sd_filters d ! 0) else None)"

definition verify_subscription ::
  "relay_options \<Rightarrow> string \<Rightarrow> event \<Rightarrow> ('d, 'g, 'v) client_state \<Rightarrow>
   (sdk_error + unit) \<times> ('d, 'g, 'v) client_state" where
  "verify_subscription opts sid e st =
     (case cl_subs (rx_client st) sid of
        None \<Rightarrow> (Inl err_subscription_not_found, st)
      | Some d \<Rightarrow>
          (let limit = counted_limit d;
               prev = sd_received_events d;
               received_events = saturating_add usize_max prev 1;
               st = (if limit = None then st
                     else update_client
                            (update_data sid
                               (\<lambda>d. d\<lparr>sd_received_events := usize_wrapping_add prev 1\<rparr>)) st)
           in if (case limit of None \<Rightarrow> False | Some l \<Rightarrow> l < received_events)
              then (Inl (SdkError KLimitExceeded ''too many events''), ban_on_mismatch opts st)
              else if \<not> list_ex (\<lambda>f. match_event f e MATCH_EVENT_OPTS) (sd_filters d)
              then (Inl (SdkError KProtocol ''event doesn't match the subscription filter''),
                    ban_on_mismatch opts st)
              else (Inr (), st)))"

definition sends_notification :: "save_event_status \<Rightarrow> bool" where
  "sends_notification s =
     (case s of
        Success \<Rightarrow> True
      | Rejected r \<Rightarrow>
          (case r of
             REphemeral \<Rightarrow> True
           | RDuplicate \<Rightarrow> True
           | RDeleted \<Rightarrow> False
           | RExpired \<Rightarrow> False
           | RReplaced \<Rightarrow> False
           | RInvalidDelete \<Rightarrow> False
           | RVanished \<Rightarrow> False
           | ROther \<Rightarrow> True))"

text \<open>The checks of the content and the policy, and what the database says: go on, or stop.\<close>

definition admit_event ::
  "('d, 'g, 'v) relay_config \<Rightarrow> timestamp \<Rightarrow> string \<Rightarrow> event \<Rightarrow> ('d, 'g, 'v) client_state \<Rightarrow>
   (sdk_error + bool) \<times> ('d, 'g, 'v) client_state" where
  "admit_event R now sid e st =
     (if is_expired_at e now then (Inl (SdkError KInvalid ''event expired''), st)
      else
        (case verify_and_cache (rc_externals R) (rc_cache R) e (rx_cache st) of
           (Inl err, v) \<Rightarrow> (Inl err, st\<lparr>rx_cache := v\<rparr>)
         | (Inr _, v) \<Rightarrow>
             (let st = st\<lparr>rx_cache := v\<rparr> in
              case rc_admit R of
                None \<Rightarrow> (Inr True, st)
              | Some p \<Rightarrow>
                  (case p sid e of
                     Inl err \<Rightarrow> (Inl err, st)
                   | Inr AdmitSuccess \<Rightarrow> (Inr True, st)
                   | Inr (AdmitRejected _) \<Rightarrow> (Inr False, st)))))"

definition save_received_event ::
  "('d, 'g, 'v) relay_config \<Rightarrow> bool \<Rightarrow> string \<Rightarrow> event \<Rightarrow> ('d, 'g, 'v) client_state \<Rightarrow>
   (sdk_error + bool) \<times> ('d, 'g, 'v) client_state" where
  "save_received_event R is_acquisition sid e st =
     (case db_check_id (rc_database R) (ev_id e) (rx_db st) of
        Inl m \<Rightarrow> (Inl (SdkError KDatabase m), st)
      | Inr Saved \<Rightarrow> (Inr True, st)
      | Inr Deleted \<Rightarrow> (Inr False, st)
      | Inr NotExistent \<Rightarrow>
          if is_acquisition then (Inr True, st)
          else
            (case db_save_event (rc_database R) e (rx_db st) of
               (Inl m, d) \<Rightarrow> (Inl (SdkError KDatabase m), st\<lparr>rx_db := d\<rparr>)
             | (Inr s, d) \<Rightarrow>
                 (let st = st\<lparr>rx_db := d\<rparr> in
                  if \<not> sends_notification s then (Inr False, st)
                  else (Inr True, send_notification R (NEvent sid e) True st))))"

definition process_gossip ::
  "('d, 'g, 'v) relay_config \<Rightarrow> bool \<Rightarrow> event \<Rightarrow> ('d, 'g, 'v) client_state \<Rightarrow>
   (sdk_error + unit) \<times> ('d, 'g, 'v) client_state" where
  "process_gossip R is_acquisition e st =
     (if is_acquisition then (Inr (), st)
      else
        (case rc_gossip R of
           None \<Rightarrow> (Inr (), st)
         | Some G \<Rightarrow>
             (case g_process G e (Some (rc_url R)) (rx_gossip st) of
                (Inl m, g) \<Rightarrow> (Inl (SdkError KGossip m), st\<lparr>rx_gossip := g\<rparr>)
              | (Inr _, g) \<Rightarrow> (Inr (), st\<lparr>rx_gossip := g\<rparr>))))"

text \<open>
  The part of \<open>handle_event_msg\<close> that runs with the frame: the limits, the check of the
  subscription, the admission, the database and the gossip. \<open>None\<close> is a message to be dropped.
\<close>

definition subscription_checks ::
  "relay_options \<Rightarrow> bool \<Rightarrow> string \<Rightarrow> event \<Rightarrow> ('d, 'g, 'v) client_state \<Rightarrow>
   (sdk_error + bool option) \<times> ('d, 'g, 'v) client_state" where
  "subscription_checks opts own sid e st =
     (let verify = (opt_verify_subscriptions opts \<or> opt_ban_relay_on_mismatch opts);
          subscription = cl_subs (rx_client st) sid
      in if \<not> (own \<or> verify) then (Inr (Some False), st)
         else if subscription = None \<and> own then (Inr None, st)
         else
           (case (if verify then verify_subscription opts sid e st else (Inr (), st)) of
              (Inl err, st) \<Rightarrow> (Inl err, st)
            | (Inr _, st) \<Rightarrow>
                (Inr (Some (case subscription of None \<Rightarrow> False | Some d \<Rightarrow> sd_acquisition d \<noteq> None)),
                 st)))"

definition update_raw ::
  "nat option \<Rightarrow> (raw_acquisition \<Rightarrow> raw_acquisition) \<Rightarrow> ('d, 'g, 'v) client_state \<Rightarrow>
   ('d, 'g, 'v) client_state" where
  "update_raw k f st =
     (case k of
        None \<Rightarrow> st
      | Some k \<Rightarrow> st\<lparr>rx_raw := (rx_raw st)(k := f (rx_raw st k))\<rparr>)"

definition handle_event_frame ::
  "('d, 'g, 'v) relay_config \<Rightarrow> timestamp \<Rightarrow> bool \<Rightarrow> nat option \<Rightarrow> string \<Rightarrow> event \<Rightarrow>
   ('d, 'g, 'v) client_state \<Rightarrow> (sdk_error + relay_message option) \<times> ('d, 'g, 'v) client_state" where
  "handle_event_frame R now own raw sid e st =
     (case check_event_limits (rc_options R) (rc_json_len R) e of
        Inl err \<Rightarrow> (Inl err, st)
      | Inr _ \<Rightarrow>
          (case subscription_checks (rc_options R) own sid e st of
             (Inl err, st) \<Rightarrow> (Inl err, st)
           | (Inr None, st) \<Rightarrow> (Inr None, st)
           | (Inr (Some is_acquisition), st) \<Rightarrow>
               (case admit_event R now sid e st of
                  (Inl err, st) \<Rightarrow> (Inl err, st)
                | (Inr admitted, st) \<Rightarrow>
                    if \<not> admitted then (Inr None, st)
                    else
                      (case save_received_event R is_acquisition sid e st of
                         (Inl err, st) \<Rightarrow> (Inl err, st)
                       | (Inr stored, st) \<Rightarrow>
                           if \<not> stored then (Inr None, st)
                           else
                             (case process_gossip R is_acquisition e st of
                                (Inl err, st) \<Rightarrow> (Inl err, st)
                              | (Inr _, st) \<Rightarrow>
                                  (Inr (Some (REvent sid e)), update_raw raw raw_forward st))))))"

text \<open>
  An id of the own namespace that is not registered is dropped before anything is counted; a
  registered request counts the raw event, and its frame signals \<open>processed\<close> however it ends.
\<close>

definition handle_event_msg ::
  "('d, 'g, 'v) relay_config \<Rightarrow> timestamp \<Rightarrow> string \<Rightarrow> event \<Rightarrow>
   ('d, 'g, 'v) client_state \<Rightarrow> (sdk_error + relay_message option) \<times> ('d, 'g, 'v) client_state" where
  "handle_event_msg R now sid e st =
     (if starts_with sid (rc_namespace R) then
        (case cl_subs (rx_client st) sid of
           None \<Rightarrow> (Inr None, st)
         | Some d \<Rightarrow>
             (case sd_acquisition d of
                None \<Rightarrow> handle_event_frame R now True None sid e st
              | Some k \<Rightarrow>
                  (let (recorded, w) = raw_record (ev_created_at e) (rx_raw st k);
                       st = st\<lparr>rx_raw := (rx_raw st)(k := w)\<rparr>
                   in if \<not> recorded then (Inr None, st)
                      else
                        (let (r, st) = handle_event_frame R now True (Some k) sid e st
                         in (r, update_raw (Some k) raw_processed st)))))
      else handle_event_frame R now False None sid e st)"

section \<open>Messages\<close>

text \<open>\<open>reject_unattributed\<close>: every registered acquisition loses its completeness.\<close>

definition registered_acquisition :: "client \<Rightarrow> nat \<Rightarrow> bool" where
  "registered_acquisition cl k \<longleftrightarrow> (\<exists>sid d. cl_subs cl sid = Some d \<and> sd_acquisition d = Some k)"

definition reject_unattributed :: "('d, 'g, 'v) client_state \<Rightarrow> ('d, 'g, 'v) client_state" where
  "reject_unattributed st =
     st\<lparr>rx_raw := (\<lambda>k. if registered_acquisition (rx_client st) k then raw_reject_input (rx_raw st k)
                     else rx_raw st k)\<rparr>"

definition lost_event ::
  "('d, 'g, 'v) relay_config \<Rightarrow> relay_message_context \<Rightarrow> ('d, 'g, 'v) client_state \<Rightarrow>
   ('d, 'g, 'v) client_state" where
  "lost_event R context st =
     (case context of
        CtxEvent (Some sid) \<Rightarrow>
          if starts_with sid (rc_namespace R)
          then (case cl_subs (rx_client st) sid of
                  None \<Rightarrow> st
                | Some d \<Rightarrow> update_raw (sd_acquisition d) raw_reject_input st)
          else st
      | CtxEvent None \<Rightarrow> reject_unattributed st
      | CtxUnknown \<Rightarrow> reject_unattributed st
      | CtxNonEvent \<Rightarrow> st)"

definition handle_raw_relay_message ::
  "('d, 'g, 'v) relay_config \<Rightarrow> 'j json_codec \<Rightarrow> timestamp \<Rightarrow> nat \<Rightarrow> 'j json_text \<Rightarrow>
   ('d, 'g, 'v) client_state \<Rightarrow> (sdk_error + relay_message option) \<times> ('d, 'g, 'v) client_state" where
  "handle_raw_relay_message R J now len text st =
     (let st = update_client
                 (\<lambda>cl. cl\<lparr>cl_conn := (cl_conn cl)
                            \<lparr>cn_stats := add_bytes_received len (cn_stats (cl_conn cl))\<rparr>\<rparr>) st
      in if (case messages_max_size (opt_limits (rc_options R)) of None \<Rightarrow> False | Some m \<Rightarrow> m < len)
         then (Inl (SdkError KLimitExceeded ''relay message too large''), reject_unattributed st)
         else
           (case relay_from_json_with_context J text of
              (context, Inl err) \<Rightarrow> (Inl (err_nostr err), lost_event R context st)
            | (_, Inr (REvent sid e)) \<Rightarrow> handle_event_msg R now sid e st
            | (_, Inr m) \<Rightarrow> (Inr (Some m), st)))"

definition closed_is_kept :: "bool \<Rightarrow> string \<Rightarrow> bool" where
  "closed_is_kept authenticator message \<longleftrightarrow>
     (case prefix_parse message of
        Some PRateLimited \<Rightarrow> True
      | Some PAuthRequired \<Rightarrow> authenticator
      | _ \<Rightarrow> False)"

text \<open>\<open>queue_auth_challenge\<close> keeps the last challenge only.\<close>

definition handle_message_effects ::
  "bool \<Rightarrow> relay_message \<Rightarrow> ('d, 'g, 'v) client_state \<Rightarrow> ('d, 'g, 'v) client_state" where
  "handle_message_effects authenticator m st =
     (case m of
        RClosed sid message \<Rightarrow>
          if closed_is_kept authenticator message then update_client (subscription_closed sid) st
          else update_client (forget_subscription sid) st
      | REndOfStoredEvents sid \<Rightarrow>
          (case cl_subs (rx_client st) sid of
             None \<Rightarrow> st
           | Some d \<Rightarrow>
               update_raw (sd_acquisition d) raw_received_eose (update_client (received_eose sid) st))
      | RAuth challenge \<Rightarrow> if authenticator then st\<lparr>rx_challenge := Some challenge\<rparr> else st
      | _ \<Rightarrow> st)"

definition handle_relay_message ::
  "('d, 'g, 'v) relay_config \<Rightarrow> 'j json_codec \<Rightarrow> timestamp \<Rightarrow> nat \<Rightarrow> 'j json_text \<Rightarrow>
   ('d, 'g, 'v) client_state \<Rightarrow> ('d, 'g, 'v) client_state" where
  "handle_relay_message R J now len text st =
     (case handle_raw_relay_message R J now len text st of
        (Inl _, st) \<Rightarrow> st
      | (Inr None, st) \<Rightarrow> st
      | (Inr (Some m), st) \<Rightarrow>
          send_notification R (NMessage m) True
            (handle_message_effects (rc_authenticator R) m st))"

end
