(* ===== verification/Client_Delivery.thy ===== *)
theory Client_Delivery
  imports Client_Messages
begin

text \<open>
  What the handling of messages promises: which events reach the caller, the database and the
  gossip store, what the cache of verified events stands for, that acquisitions stay local, that
  a limit is enforced and that lost input is never silent.
\<close>

section \<open>One event\<close>

text \<open>Everything an event has to pass before it is stored, announced or returned.\<close>

definition admitted ::
  "('d, 'g, 'v) relay_config \<Rightarrow> timestamp \<Rightarrow> string \<Rightarrow> event \<Rightarrow> ('d, 'g, 'v) client_state \<Rightarrow> bool" where
  "admitted R now sid e st \<longleftrightarrow>
     check_event_limits (rc_options R) (rc_json_len R) e = Inr () \<and>
     \<not> is_expired_at e now \<and>
     (vc_contains (rc_cache R) (ev_id e) (rx_cache st) \<or> event_verify (rc_externals R) e = Inr ()) \<and>
     (case rc_admit R of None \<Rightarrow> True | Some p \<Rightarrow> p sid e = Inr AdmitSuccess) \<and>
     (opt_verify_subscriptions (rc_options R) \<or> opt_ban_relay_on_mismatch (rc_options R) \<longrightarrow>
        (case cl_subs (rx_client st) sid of
           None \<Rightarrow> False
         | Some d \<Rightarrow> list_ex (\<lambda>f. match_event f e MATCH_EVENT_OPTS) (sd_filters d)))"

text \<open>The parts of the state that other requests and other relays can see.\<close>

definition shared_parts ::
  "('d, 'g, 'v) client_state \<Rightarrow> 'd \<times> 'g \<times> relay_notification list \<times> client_notification list" where
  "shared_parts st = (rx_db st, rx_gossip st, rx_internal st, rx_external st)"

lemma shared_parts_simps [simp]:
  "shared_parts (update_client f st) = shared_parts st"
  "shared_parts (update_raw k g st) = shared_parts st"
  "shared_parts (st\<lparr>rx_raw := w\<rparr>) = shared_parts st"
  "shared_parts (st\<lparr>rx_cache := v\<rparr>) = shared_parts st"
  "shared_parts (ban_on_mismatch opts st) = shared_parts st"
  "shared_parts (reject_unattributed st) = shared_parts st"
  by (simp_all add: shared_parts_def update_client_def update_raw_def ban_on_mismatch_def
      reject_unattributed_def split: option.split)

lemma cache_simps [simp]:
  "rx_cache (update_client f st) = rx_cache st"
  "rx_cache (update_raw k g st) = rx_cache st"
  "rx_cache (ban_on_mismatch opts st) = rx_cache st"
  "rx_cache (reject_unattributed st) = rx_cache st"
  "rx_cache (send_notification R n b st) = rx_cache st"
  by (simp_all add: update_client_def update_raw_def ban_on_mismatch_def reject_unattributed_def
      send_notification_def Let_def split: option.split)

lemma client_simps [simp]:
  "rx_client (update_raw k g st) = rx_client st"
  "rx_client (send_notification R n b st) = rx_client st"
  "rx_client (update_client f st) = f (rx_client st)"
  "rx_db (update_client f st) = rx_db st"
  "rx_db (ban_on_mismatch opts st) = rx_db st"
  by (simp_all add: update_client_def update_raw_def ban_on_mismatch_def send_notification_def Let_def
      split: option.split)

lemma verify_subscription_frame:
  assumes "verify_subscription opts sid e st = (r, st')"
  shows "shared_parts st' = shared_parts st \<and> rx_cache st' = rx_cache st \<and> rx_raw st' = rx_raw st \<and>
    rx_db st' = rx_db st \<and>
    (r = Inr u \<longrightarrow> (\<exists>d. cl_subs (rx_client st) sid = Some d \<and>
        list_ex (\<lambda>f. match_event f e MATCH_EVENT_OPTS) (sd_filters d)))"
proof (cases "cl_subs (rx_client st) sid")
  case (Some d)
  have raw: "rx_raw (update_client f s) = rx_raw s" "rx_raw (ban_on_mismatch opts s) = rx_raw s"
    for f and s :: "('a, 'b, 'c) client_state"
    by (simp_all add: update_client_def ban_on_mismatch_def)
  show ?thesis
    using assms Some
    by (auto simp: verify_subscription_def Let_def raw split: if_splits option.splits)
qed (use assms in \<open>auto simp: verify_subscription_def\<close>)

lemma subscription_checks_frame:
  assumes "subscription_checks opts own sid e st = (r, st')"
  shows "shared_parts st' = shared_parts st \<and> rx_cache st' = rx_cache st \<and> rx_raw st' = rx_raw st \<and>
    rx_db st' = rx_db st"
    and "r = Inr (Some b) \<Longrightarrow> opt_verify_subscriptions opts \<or> opt_ban_relay_on_mismatch opts \<Longrightarrow>
      (case cl_subs (rx_client st) sid of
         None \<Rightarrow> False | Some d \<Rightarrow> list_ex (\<lambda>f. match_event f e MATCH_EVENT_OPTS) (sd_filters d))"
    and "r = Inr (Some b) \<Longrightarrow> own \<Longrightarrow>
      b = (case cl_subs (rx_client st) sid of None \<Rightarrow> False | Some d \<Rightarrow> sd_acquisition d \<noteq> None)"
proof -
  obtain q s where v: "verify_subscription opts sid e st = (q, s)"
    by (cases "verify_subscription opts sid e st")
  note f = verify_subscription_frame [OF v]
  show "shared_parts st' = shared_parts st \<and> rx_cache st' = rx_cache st \<and> rx_raw st' = rx_raw st \<and>
      rx_db st' = rx_db st"
    using assms f v by (auto simp: subscription_checks_def Let_def split: if_splits sum.splits)
  show "r = Inr (Some b) \<Longrightarrow> opt_verify_subscriptions opts \<or> opt_ban_relay_on_mismatch opts \<Longrightarrow>
      (case cl_subs (rx_client st) sid of
         None \<Rightarrow> False | Some d \<Rightarrow> list_ex (\<lambda>f. match_event f e MATCH_EVENT_OPTS) (sd_filters d))"
    using assms f v by (auto simp: subscription_checks_def Let_def split: if_splits sum.splits)
  show "r = Inr (Some b) \<Longrightarrow> own \<Longrightarrow>
      b = (case cl_subs (rx_client st) sid of None \<Rightarrow> False | Some d \<Rightarrow> sd_acquisition d \<noteq> None)"
    using assms by (auto simp: subscription_checks_def Let_def split: if_splits sum.splits prod.splits)
qed

lemma verify_and_cache_result:
  assumes "verify_and_cache x C e v = (r, v')"
  shows "r = Inr u \<Longrightarrow> vc_contains C (ev_id e) v \<or> event_verify x e = Inr ()"
    and "v' = v \<or> v' = vc_put C (ev_id e) v \<and> event_verify x e = Inr ()"
  using assms by (auto simp: verify_and_cache_def split: if_splits sum.splits)

lemma admit_event_result:
  assumes "admit_event R now sid e st = (r, st')"
  shows "\<exists>v. st' = st\<lparr>rx_cache := v\<rparr> \<and>
      (v = rx_cache st \<or>
       v = vc_put (rc_cache R) (ev_id e) (rx_cache st) \<and> event_verify (rc_externals R) e = Inr ())"
    and "r = Inr True \<Longrightarrow> \<not> is_expired_at e now \<and>
      (vc_contains (rc_cache R) (ev_id e) (rx_cache st) \<or> event_verify (rc_externals R) e = Inr ()) \<and>
      (case rc_admit R of None \<Rightarrow> True | Some p \<Rightarrow> p sid e = Inr AdmitSuccess)"
proof -
  obtain q v where c: "verify_and_cache (rc_externals R) (rc_cache R) e (rx_cache st) = (q, v)"
    by (cases "verify_and_cache (rc_externals R) (rc_cache R) e (rx_cache st)")
  note f = verify_and_cache_result [OF c]
  have same: "st = st\<lparr>rx_cache := rx_cache st\<rparr>" by simp
  have cases: "st' = st \<or> st' = st\<lparr>rx_cache := v\<rparr>"
    using assms c
    by (auto simp: admit_event_def Let_def split: if_splits sum.splits option.splits admit_status.splits)
  then show "\<exists>v. st' = st\<lparr>rx_cache := v\<rparr> \<and>
      (v = rx_cache st \<or>
       v = vc_put (rc_cache R) (ev_id e) (rx_cache st) \<and> event_verify (rc_externals R) e = Inr ())"
    using f(2) same by metis
  show "r = Inr True \<Longrightarrow> \<not> is_expired_at e now \<and>
      (vc_contains (rc_cache R) (ev_id e) (rx_cache st) \<or> event_verify (rc_externals R) e = Inr ()) \<and>
      (case rc_admit R of None \<Rightarrow> True | Some p \<Rightarrow> p sid e = Inr AdmitSuccess)"
    using assms c f(1)
    by (auto simp: admit_event_def Let_def split: if_splits sum.splits option.splits admit_status.splits)
qed

lemma save_received_frame:
  assumes "save_received_event R b sid e st = (r, st')"
  shows "rx_client st' = rx_client st \<and> rx_cache st' = rx_cache st \<and> rx_raw st' = rx_raw st"
    and "b \<Longrightarrow> shared_parts st' = shared_parts st"
    and "r = Inr True \<Longrightarrow> db_check_id (rc_database R) (ev_id e) (rx_db st) \<noteq> Inr Deleted"
proof -
  have n: "rx_client (send_notification R n x s) = rx_client s"
      "rx_cache (send_notification R n x s) = rx_cache s"
      "rx_raw (send_notification R n x s) = rx_raw s" for n x and s :: "('a, 'b, 'c) client_state"
    by (simp_all add: send_notification_def Let_def split: option.split)
  show "rx_client st' = rx_client st \<and> rx_cache st' = rx_cache st \<and> rx_raw st' = rx_raw st"
    using assms
    by (auto simp: save_received_event_def Let_def n
        split: sum.splits database_event_status.splits if_splits prod.splits)
  show "b \<Longrightarrow> shared_parts st' = shared_parts st"
    using assms
    by (auto simp: save_received_event_def split: sum.splits database_event_status.splits)
  show "r = Inr True \<Longrightarrow> db_check_id (rc_database R) (ev_id e) (rx_db st) \<noteq> Inr Deleted"
    using assms by (auto simp: save_received_event_def)
qed

lemma process_gossip_frame:
  assumes "process_gossip R b e st = (r, st')"
  shows "rx_client st' = rx_client st \<and> rx_cache st' = rx_cache st \<and> rx_raw st' = rx_raw st"
    and "b \<Longrightarrow> st' = st"
  using assms by (auto simp: process_gossip_def split: if_splits option.splits sum.splits prod.splits)

text \<open>The frame as a whole.\<close>

lemma handle_event_frame_result:
  assumes "handle_event_frame R now own raw sid e st = (r, st')"
  shows "r = Inr (Some m) \<Longrightarrow>
      m = REvent sid e \<and> admitted R now sid e st \<and>
      db_check_id (rc_database R) (ev_id e) (rx_db st) \<noteq> Inr Deleted"
    and "shared_parts st' \<noteq> shared_parts st \<Longrightarrow>
      admitted R now sid e st \<and>
      (own \<longrightarrow> (case cl_subs (rx_client st) sid of None \<Rightarrow> True | Some d \<Rightarrow> sd_acquisition d = None))"
    and "rx_cache st' = rx_cache st \<or>
      rx_cache st' = vc_put (rc_cache R) (ev_id e) (rx_cache st) \<and>
      event_verify (rc_externals R) e = Inr ()"
proof -
  obtain q1 s1 where c1: "subscription_checks (rc_options R) own sid e st = (q1, s1)"
    by (cases "subscription_checks (rc_options R) own sid e st")
  obtain q2 s2 where c2: "admit_event R now sid e s1 = (q2, s2)" by (cases "admit_event R now sid e s1")
  define b where "b = (case q1 of Inr (Some b) \<Rightarrow> b | _ \<Rightarrow> False)"
  obtain q3 s3 where c3: "save_received_event R b sid e s2 = (q3, s3)"
    by (cases "save_received_event R b sid e s2")
  obtain q4 s4 where c4: "process_gossip R b e s3 = (q4, s4)" by (cases "process_gossip R b e s3")
  note f1 = subscription_checks_frame [OF c1]
  obtain v where s2: "s2 = s1\<lparr>rx_cache := v\<rparr>"
    and v: "v = rx_cache s1 \<or>
       v = vc_put (rc_cache R) (ev_id e) (rx_cache s1) \<and> event_verify (rc_externals R) e = Inr ()"
    using admit_event_result(1) [OF c2] by blast
  note f2 = admit_event_result(2) [OF c2] and f3 = save_received_frame [OF c3]
    and f4 = process_gossip_frame [OF c4]
  let ?lim = "check_event_limits (rc_options R) (rc_json_len R) e"
  have run: "(r, st') =
     (case ?lim of Inl err \<Rightarrow> (Inl err, st)
      | Inr _ \<Rightarrow>
          (case q1 of Inl err \<Rightarrow> (Inl err, s1) | Inr None \<Rightarrow> (Inr None, s1)
           | Inr (Some _) \<Rightarrow>
               (case q2 of Inl err \<Rightarrow> (Inl err, s2)
                | Inr a \<Rightarrow>
                    if \<not> a then (Inr None, s2)
                    else
                      (case q3 of Inl err \<Rightarrow> (Inl err, s3)
                       | Inr stored \<Rightarrow>
                           if \<not> stored then (Inr None, s3)
                           else
                             (case q4 of Inl err \<Rightarrow> (Inl err, s4)
                              | Inr _ \<Rightarrow> (Inr (Some (REvent sid e)), update_raw raw raw_forward s4))))))"
    using assms c1 c2 c3 c4
    by (auto simp: handle_event_frame_def b_def split: sum.split option.split)
  have adm: "admitted R now sid e st" if "?lim = Inr ()" and "q1 = Inr (Some b)" and "q2 = Inr True"
    using that f1(1) f1(2) [of b] f2 by (auto simp: admitted_def)
  have b: "q1 = Inr (Some b') \<Longrightarrow> b' = b" for b' by (simp add: b_def)
  have p2: "shared_parts s2 = shared_parts st" using f1(1) s2 by simp
  have db: "rx_db s2 = rx_db st" using f1(1) s2 by simp
  show "r = Inr (Some m) \<Longrightarrow>
      m = REvent sid e \<and> admitted R now sid e st \<and>
      db_check_id (rc_database R) (ev_id e) (rx_db st) \<noteq> Inr Deleted"
    using run adm b f3(3) db by (auto split: sum.splits option.splits if_splits)
  show "rx_cache st' = rx_cache st \<or>
      rx_cache st' = vc_put (rc_cache R) (ev_id e) (rx_cache st) \<and>
      event_verify (rc_externals R) e = Inr ()"
    using run f1(1) f3(1) f4(1) s2 v by (auto split: sum.splits option.splits if_splits)
  assume ch: "shared_parts st' \<noteq> shared_parts st"
  then have q: "?lim = Inr ()" "q1 = Inr (Some b)" "q2 = Inr True"
    using run p2 f1(1) b by (auto split: sum.splits option.splits if_splits)
  have "\<not> b"
    using ch run p2 f1(1) f3(2) f4(2) by (auto split: sum.splits option.splits if_splits)
  then show "admitted R now sid e st \<and>
      (own \<longrightarrow> (case cl_subs (rx_client st) sid of None \<Rightarrow> True | Some d \<Rightarrow> sd_acquisition d = None))"
    using adm [OF q] f1(3) [OF q(2)] by (auto split: option.splits)
qed

lemma admitted_raw [simp]: "admitted R now sid e (st\<lparr>rx_raw := w\<rparr>) = admitted R now sid e st"
  by (simp add: admitted_def)

lemma handle_event_msg_result:
  assumes "handle_event_msg R now sid e st = (r, st')"
  shows "r = Inr (Some m) \<Longrightarrow>
      m = REvent sid e \<and> admitted R now sid e st \<and>
      db_check_id (rc_database R) (ev_id e) (rx_db st) \<noteq> Inr Deleted"
    and "shared_parts st' \<noteq> shared_parts st \<Longrightarrow>
      admitted R now sid e st \<and>
      (starts_with sid (rc_namespace R) \<longrightarrow>
         (\<exists>d. cl_subs (rx_client st) sid = Some d \<and> sd_acquisition d = None))"
    and "rx_cache st' = rx_cache st \<or>
      rx_cache st' = vc_put (rc_cache R) (ev_id e) (rx_cache st) \<and>
      event_verify (rc_externals R) e = Inr ()"
proof -
  consider (dropped) "r = Inr None" "shared_parts st' = shared_parts st" "rx_cache st' = rx_cache st"
    | (frame) own raw w s where
      "handle_event_frame R now own raw sid e (st\<lparr>rx_raw := w\<rparr>) = (r, s)"
      "st' = update_raw raw raw_processed s \<or> st' = s"
      "own = starts_with sid (rc_namespace R)"
      "own \<longrightarrow> cl_subs (rx_client st) sid \<noteq> None"
  proof (cases "starts_with sid (rc_namespace R)")
    case False
    then show ?thesis using assms that(2) [of False None "rx_raw st"] by (simp add: handle_event_msg_def)
  next
    case own: True
    show ?thesis
    proof (cases "cl_subs (rx_client st) sid")
      case None
      then show ?thesis using assms own that(1) by (simp add: handle_event_msg_def)
    next
      case (Some d)
      show ?thesis
      proof (cases "sd_acquisition d")
        case None
        then show ?thesis
          using assms own Some that(2) [of True None "rx_raw st"] by (simp add: handle_event_msg_def)
      next
        case k: (Some k)
        obtain c w where w: "raw_record (ev_created_at e) (rx_raw st k) = (c, w)"
          by (cases "raw_record (ev_created_at e) (rx_raw st k)")
        obtain q s where q: "handle_event_frame R now True (Some k) sid e
            (st\<lparr>rx_raw := (rx_raw st)(k := w)\<rparr>) = (q, s)"
          by fastforce
        show ?thesis
        proof (cases c)
          case True
          then have "q = r" and "st' = update_raw (Some k) raw_processed s"
            using assms own Some k w q by (simp_all add: handle_event_msg_def)
          then show ?thesis using that(2) q own Some by blast
        next
          case False
          then show ?thesis
            using assms own Some k w that(1) by (auto simp: handle_event_msg_def)
        qed
      qed
    qed
  qed
  note cases = this
  from cases show "m = REvent sid e \<and> admitted R now sid e st \<and>
      db_check_id (rc_database R) (ev_id e) (rx_db st) \<noteq> Inr Deleted" if "r = Inr (Some m)"
  proof cases
    case (frame own raw w s)
    show ?thesis using handle_event_frame_result(1) [OF frame(1) that] by simp
  qed (use that in simp)
  from cases show "rx_cache st' = rx_cache st \<or>
      rx_cache st' = vc_put (rc_cache R) (ev_id e) (rx_cache st) \<and>
      event_verify (rc_externals R) e = Inr ()"
  proof cases
    case (frame own raw w s)
    show ?thesis using handle_event_frame_result(3) [OF frame(1)] frame(2) by auto
  qed simp
  assume ch: "shared_parts st' \<noteq> shared_parts st"
  from cases show "admitted R now sid e st \<and>
      (starts_with sid (rc_namespace R) \<longrightarrow>
         (\<exists>d. cl_subs (rx_client st) sid = Some d \<and> sd_acquisition d = None))"
  proof cases
    case (frame own raw w s)
    then have "shared_parts s \<noteq> shared_parts (st\<lparr>rx_raw := w\<rparr>)" using ch by auto
    from handle_event_frame_result(2) [OF frame(1) this] frame(3,4) show ?thesis
      by (auto split: option.splits)
  qed (use ch in simp)
qed

section \<open>The cache of verified events\<close>

lemma cache_okD:
  assumes "cache_ok C"
  shows "vc_contains C i (vc_put C i v)"
    and "vc_contains C j (vc_put C i v) \<Longrightarrow> j = i \<or> vc_contains C j v"
  using assms unfolding cache_ok_def by blast+

definition verified_id :: "externals \<Rightarrow> event_id \<Rightarrow> bool" where
  "verified_id x i \<longleftrightarrow> (\<exists>e. ev_id e = i \<and> event_verify x e = Inr ())"

definition cache_sound :: "('d, 'g, 'v) relay_config \<Rightarrow> 'v \<Rightarrow> bool" where
  "cache_sound R v \<longleftrightarrow> (\<forall>i. vc_contains (rc_cache R) i v \<longrightarrow> verified_id (rc_externals R) i)"

lemma cache_sound_put:
  assumes "cache_ok (rc_cache R)" and "cache_sound R v" and "event_verify (rc_externals R) e = Inr ()"
  shows "cache_sound R (vc_put (rc_cache R) (ev_id e) v)"
  unfolding cache_sound_def verified_id_def
proof (intro allI impI)
  fix i
  assume "vc_contains (rc_cache R) i (vc_put (rc_cache R) (ev_id e) v)"
  then have "i = ev_id e \<or> vc_contains (rc_cache R) i v" using cache_okD(2) [OF assms(1)] by blast
  then show "\<exists>e. ev_id e = i \<and> event_verify (rc_externals R) e = Inr ()"
    using assms(2,3) by (auto simp: cache_sound_def verified_id_def)
qed

lemma effects_cache [simp]:
  "rx_cache (handle_message_effects a m st) = rx_cache st"
  "rx_cache (lost_event R c st) = rx_cache st"
  by (simp_all add: handle_message_effects_def lost_event_def
      split: relay_message.split option.split relay_message_context.split)

lemma cache_sound_raw:
  assumes "cache_ok (rc_cache R)" and "cache_sound R (rx_cache st)"
    and "handle_raw_relay_message R J now len text st = (r, st')"
  shows "cache_sound R (rx_cache st')"
proof -
  define s where "s = update_client
    (\<lambda>cl. cl\<lparr>cl_conn := (cl_conn cl)\<lparr>cn_stats := add_bytes_received len (cn_stats (cl_conn cl))\<rparr>\<rparr>) st"
  have s: "rx_cache s = rx_cache st" by (simp add: s_def)
  have ev: "cache_sound R (rx_cache s')" if "handle_event_msg R now sid e s = (q, s')" for sid e q s'
    using handle_event_msg_result(3) [OF that] assms(1,2) cache_sound_put by (auto simp: s)
  show ?thesis
    using assms(2,3) ev s
    by (auto simp: handle_raw_relay_message_def s_def [symmetric] Let_def
        split: if_splits prod.splits sum.splits relay_message.splits)
qed

lemma cache_sound_message:
  assumes "cache_ok (rc_cache R)" and "cache_sound R (rx_cache st)"
  shows "cache_sound R (rx_cache (handle_relay_message R J now len text st))"
proof -
  obtain r st' where h: "handle_raw_relay_message R J now len text st = (r, st')"
    by (cases "handle_raw_relay_message R J now len text st")
  show ?thesis
    using cache_sound_raw [OF assms h]
    by (simp add: handle_relay_message_def h split: sum.split option.split)
qed

text \<open>A run: the time, the length and the elements of every message.\<close>

definition run_messages ::
  "('d, 'g, 'v) relay_config \<Rightarrow> 'j json_codec \<Rightarrow> (timestamp \<times> nat \<times> 'j json_text) list \<Rightarrow>
   ('d, 'g, 'v) client_state \<Rightarrow> ('d, 'g, 'v) client_state" where
  "run_messages R J ms st = foldl (\<lambda>st (now, len, text). handle_relay_message R J now len text st) st ms"

lemma cache_sound_run:
  assumes "cache_ok (rc_cache R)" and "cache_sound R (rx_cache st)"
  shows "cache_sound R (rx_cache (run_messages R J ms st))"
  using assms(2)
  by (induction ms arbitrary: st) (auto simp: run_messages_def intro!: cache_sound_message assms(1))

section \<open>The limit of a subscription\<close>

lemma frame_client:
  assumes "handle_event_frame R now own raw sid e st = (r, st')"
    and "subscription_checks (rc_options R) own sid e st = (q, s)"
  shows "rx_client st' = rx_client st \<and> r \<noteq> Inr (Some m) \<or>
    rx_client st' = rx_client s \<and> (r = Inr (Some m) \<longrightarrow> (\<exists>b. q = Inr (Some b)))"
proof -
  have a: "rx_client s2 = rx_client s1" if "admit_event R now sid e s1 = (q2, s2)" for s1 q2 s2
    using admit_event_result(1) [OF that] by auto
  show ?thesis
    using assms
    by (auto simp: handle_event_frame_def dest!: a save_received_frame(1) process_gossip_frame(1)
        split: sum.splits option.splits prod.splits if_splits)
qed

lemma verify_subscription_limit:
  assumes "cl_subs (rx_client st) sid = Some d" and "counted_limit d = Some l"
    and "sd_received_events d < usize_max"
    and "verify_subscription opts sid e st = (r, st')"
  shows "cl_subs (rx_client st') sid = Some (d\<lparr>sd_received_events := Suc (sd_received_events d)\<rparr>)"
    and "r = Inr u \<Longrightarrow> Suc (sd_received_events d) \<le> l"
proof -
  have n: "usize_wrapping_add (sd_received_events d) 1 = Suc (sd_received_events d)"
      "saturating_add usize_max (sd_received_events d) 1 = Suc (sd_received_events d)"
    using assms(3) by (simp_all add: usize_wrapping_add_def saturating_add_def usize_max_def)
  have ban: "cl_subs (rx_client (ban_on_mismatch opts s)) = cl_subs (rx_client s)"
    for s :: "('a, 'b, 'c) client_state"
    by (simp add: ban_on_mismatch_def)
  show "cl_subs (rx_client st') sid = Some (d\<lparr>sd_received_events := Suc (sd_received_events d)\<rparr>)"
    using assms n
    by (auto simp: verify_subscription_def Let_def ban update_data_def split: if_splits)
  show "r = Inr u \<Longrightarrow> Suc (sd_received_events d) \<le> l"
    using assms n by (auto simp: verify_subscription_def Let_def split: if_splits)
qed

text \<open>A message counts one event of the subscription, or stops before the count.\<close>

lemma event_counted:
  assumes "opt_verify_subscriptions (rc_options R)"
    and "cl_subs (rx_client st) sid = Some d" and "counted_limit d = Some l"
    and "sd_received_events d < usize_max"
    and "handle_event_msg R now sid e st = (r, st')"
  shows "\<exists>n. cl_subs (rx_client st') sid = Some (d\<lparr>sd_received_events := n\<rparr>) \<and>
    (n = sd_received_events d \<and> (\<forall>m. r \<noteq> Inr (Some m)) \<or>
     n = Suc (sd_received_events d) \<and> (\<forall>m. r = Inr (Some m) \<longrightarrow> n \<le> l))"
proof -
  have frame: ?thesis
    if h: "handle_event_frame R now own raw sid e (st\<lparr>rx_raw := w\<rparr>) = (r, s)"
      and st': "rx_client st' = rx_client s" for own raw w s
  proof -
    let ?st = "st\<lparr>rx_raw := w\<rparr>"
    obtain q1 s1 where q1: "verify_subscription (rc_options R) sid e ?st = (q1, s1)"
      by (cases "verify_subscription (rc_options R) sid e ?st")
    have d: "cl_subs (rx_client ?st) sid = Some d" using assms(2) by simp
    note v = verify_subscription_limit [OF d assms(3,4) q1]
    obtain q s2 where c: "subscription_checks (rc_options R) own sid e ?st = (q, s2)"
      by (cases "subscription_checks (rc_options R) own sid e ?st")
    then have s2: "s2 = s1" and q: "q = Inr (Some b) \<Longrightarrow> q1 = Inr ()" for b
      using assms(1) d q1 by (auto simp: subscription_checks_def Let_def split: sum.splits)
    have same: "d = d\<lparr>sd_received_events := sd_received_events d\<rparr>" by simp
    show ?thesis
    proof (cases "\<exists>m. r = Inr (Some m)")
      case True
      then obtain m where m: "r = Inr (Some m)" by blast
      from frame_client [OF h c, of m] show ?thesis using m st' s2 v q by auto
    next
      case False
      from frame_client [OF h c] show ?thesis
      proof
        assume "rx_client s = rx_client ?st \<and> r \<noteq> Inr (Some undefined)"
        then have "cl_subs (rx_client st') sid = Some (d\<lparr>sd_received_events := sd_received_events d\<rparr>)"
          using st' assms(2) same by simp
        then show ?thesis using False by blast
      next
        assume "rx_client s = rx_client s2 \<and> (r = Inr (Some undefined) \<longrightarrow> (\<exists>b. q = Inr (Some b)))"
        then show ?thesis using False st' s2 v by auto
      qed
    qed
  qed
  have same: "st = st\<lparr>rx_raw := rx_raw st\<rparr>" by simp
  show ?thesis
  proof (cases "starts_with sid (rc_namespace R) \<and> sd_acquisition d \<noteq> None")
    case False
    then have "handle_event_frame R now (starts_with sid (rc_namespace R)) None sid e st = (r, st')"
      using assms(2,5)
      by (cases "starts_with sid (rc_namespace R)") (auto simp: handle_event_msg_def)
    then show ?thesis using frame same by metis
  next
    case True
    then obtain k where k: "sd_acquisition d = Some k" by blast
    obtain c w where w: "raw_record (ev_created_at e) (rx_raw st k) = (c, w)"
      by (cases "raw_record (ev_created_at e) (rx_raw st k)")
    obtain q s where q: "handle_event_frame R now True (Some k) sid e
        (st\<lparr>rx_raw := (rx_raw st)(k := w)\<rparr>) = (q, s)"
      by fastforce
    show ?thesis
    proof (cases c)
      case c: True
      then have "q = r" and "rx_client st' = rx_client s"
        using assms(2,5) True k w q by (auto simp: handle_event_msg_def)
      then show ?thesis using frame q by blast
    next
      case False
      then have "r = Inr None" and "rx_client st' = rx_client st"
        using assms(2,5) True k w by (auto simp: handle_event_msg_def)
      then show ?thesis using assms(2) by (intro exI [of _ "sd_received_events d"]) simp
    qed
  qed
qed

text \<open>The events of one subscription in the order of their arrival, with what is returned.\<close>

fun deliver_all ::
  "('d, 'g, 'v) relay_config \<Rightarrow> string \<Rightarrow> (timestamp \<times> event) list \<Rightarrow> ('d, 'g, 'v) client_state \<Rightarrow>
   event list \<times> ('d, 'g, 'v) client_state" where
  "deliver_all R sid [] st = ([], st)"
| "deliver_all R sid ((now, e) # es) st =
     (case handle_event_msg R now sid e st of
        (r, st) \<Rightarrow>
          (let (ds, st) = deliver_all R sid es st
           in (case r of Inr (Some _) \<Rightarrow> e # ds | _ \<Rightarrow> ds, st)))"

lemma delivered_limit:
  assumes "opt_verify_subscriptions (rc_options R)"
    and "cl_subs (rx_client st) sid = Some d" and "counted_limit d = Some l"
    and "sd_received_events d + length es < usize_max"
    and "deliver_all R sid es st = (ds, st')"
  shows "length ds \<le> l - sd_received_events d"
  using assms(2-5)
proof (induction es arbitrary: st d ds)
  case (Cons x es)
  obtain now e where x: "x = (now, e)" by (cases x)
  obtain r s where h: "handle_event_msg R now sid e st = (r, s)"
    by (cases "handle_event_msg R now sid e st")
  obtain ds' s' where t: "deliver_all R sid es s = (ds', s')" by (cases "deliver_all R sid es s")
  have lt: "sd_received_events d < usize_max" using Cons.prems(3) by simp
  obtain n where n: "cl_subs (rx_client s) sid = Some (d\<lparr>sd_received_events := n\<rparr>)"
    and step: "n = sd_received_events d \<and> (\<forall>m. r \<noteq> Inr (Some m)) \<or>
     n = Suc (sd_received_events d) \<and> (\<forall>m. r = Inr (Some m) \<longrightarrow> n \<le> l)"
    using event_counted [OF assms(1) Cons.prems(1,2) lt h] by blast
  have "counted_limit (d\<lparr>sd_received_events := n\<rparr>) = Some l"
    using Cons.prems(2) by (auto simp: counted_limit_def split: if_splits)
  moreover have "n + length es < usize_max" using Cons.prems(3) step by auto
  moreover have ds: "ds = (case r of Inr (Some _) \<Rightarrow> e # ds' | _ \<Rightarrow> ds')" and "s' = st'"
    using Cons.prems(4) by (auto simp: x h t)
  ultimately have ih: "length ds' \<le> l - n" using Cons.IH [OF n] t by simp
  show ?case
    using ih step ds by (cases r; cases "projr r") auto
qed simp

section \<open>Lost input\<close>

text \<open>The acquisitions that an unreadable message may have concerned.\<close>

definition concerns :: "('d, 'g, 'v) relay_config \<Rightarrow> client \<Rightarrow> nat \<Rightarrow> relay_message_context \<Rightarrow> bool" where
  "concerns R cl k context \<longleftrightarrow>
     (case context of
        CtxEvent (Some sid) \<Rightarrow>
          starts_with sid (rc_namespace R) \<and>
          (case cl_subs cl sid of None \<Rightarrow> False | Some d \<Rightarrow> sd_acquisition d = Some k)
      | CtxNonEvent \<Rightarrow> False
      | _ \<Rightarrow> registered_acquisition cl k)"

lemma rejected_raw: "\<not> rw_closed w \<Longrightarrow> rw_rejected (raw_reject_input w)"
  by (simp add: raw_reject_input_def)

lemma lost_event_rejects:
  assumes "concerns R (rx_client st) k context" and "\<not> rw_closed (rx_raw st k)"
  shows "rw_rejected (rx_raw (lost_event R context st) k)"
  using assms
  by (auto simp: concerns_def lost_event_def update_raw_def reject_unattributed_def rejected_raw
      split: relay_message_context.splits option.splits)

section \<open>Closed subscriptions\<close>

lemma closed_kept_iff:
  "closed_is_kept a m \<longleftrightarrow>
   (\<exists>rest. m = ''rate-limited:'' @ rest \<or> a \<and> m = ''auth-required:'' @ rest)"
proof -
  have "prefix_parse m = Some PRateLimited \<longleftrightarrow> (\<exists>rest. m = ''rate-limited:'' @ rest)"
    and "prefix_parse m = Some PAuthRequired \<longleftrightarrow> (\<exists>rest. m = ''auth-required:'' @ rest)"
    by (auto simp: prefix_roundtrip prefix_ok_def prefix_as_str_def)
  then show ?thesis
    by (auto simp: closed_is_kept_def split: option.splits prefix.splits)
qed

section \<open>Properties\<close>


text \<open>
  Whatever messages a relay sends, every id in the cache of verified events is the id of an
  event whose id and signature verify.
\<close>

lemma verification_cache_sound:
  assumes "cache_ok (rc_cache R)" and "\<And>i. \<not> vc_contains (rc_cache R) i (rx_cache st)"
    and "vc_contains (rc_cache R) i (rx_cache (run_messages R J ms st))"
  shows "\<exists>e. ev_id e = i \<and> event_verify (rc_externals R) e = Inr ()"
proof -
  have "cache_sound R (rx_cache st)" using assms(2) by (simp add: cache_sound_def)
  from cache_sound_run [OF assms(1) this, of J ms] assms(3) show ?thesis
    by (auto simp: cache_sound_def verified_id_def)
qed


text \<open>
  Events of a bounded acquisition stay local to it: they never change the database or the
  gossip store and announce nothing to other requests, a closed acquisition drops them, and
  one that is returned was counted by an open one.
\<close>

lemma acquisition_is_local:
  assumes "handle_event_msg R now sid e st = (r, st')" and "starts_with sid (rc_namespace R)"
    and "cl_subs (rx_client st) sid = None \<or>
      cl_subs (rx_client st) sid = Some d \<and> sd_acquisition d = Some k"
  shows "rx_db st' = rx_db st \<and> rx_gossip st' = rx_gossip st \<and> rx_internal st' = rx_internal st \<and>
    rx_external st' = rx_external st \<and>
    (r \<noteq> Inr None \<longrightarrow> \<not> rw_closed (rx_raw st k) \<and> \<not> rw_rejected (rx_raw st k) \<and>
       rw_phase (rx_raw st k) = RawActive)"
proof -
  have "shared_parts st' = shared_parts st"
    using handle_event_msg_result(2) [OF assms(1)] assms(2,3)
    by (cases "shared_parts st' = shared_parts st") auto
  moreover have "\<not> rw_closed (rx_raw st k) \<and> \<not> rw_rejected (rx_raw st k) \<and>
      rw_phase (rx_raw st k) = RawActive" if "r \<noteq> Inr None"
    using assms that by (auto simp: handle_event_msg_def raw_record_def split: if_splits)
  ultimately show ?thesis by (simp add: shared_parts_def)
qed

text \<open>
  With verified subscriptions a relay cannot deliver more events than the limit of a
  subscription with a single filter until it has sent EOSE: the events returned are at most what
  is left of the limit, whatever the relay sends.
\<close>

lemma subscription_limit_enforced:
  assumes "opt_verify_subscriptions (rc_options R)"
    and "cl_subs (rx_client st) sid = Some d" and "sd_filters d = [f]" and "fl_limit f = Some l"
    and "\<not> sd_received_eose d" and "sd_received_events d + length es < usize_max"
    and "deliver_all R sid es st = (ds, st')"
  shows "length ds \<le> l - sd_received_events d"
proof -
  have "counted_limit d = Some l" using assms(3-5) by (simp add: counted_limit_def)
  from delivered_limit [OF assms(1,2) this assms(6,7)] show ?thesis .
qed

text \<open>
  Input that is lost is never silent for an acquisition: after a message that is too large or
  unreadable, every open acquisition it may have concerned is marked, so that it does not end as
  completed whatever the loop that collects its events has seen.
\<close>

lemma lost_input_marks_acquisition:
  assumes "handle_raw_relay_message R J now len text st = (Inl err, st')"
    and "messages_max_size (opt_limits (rc_options R)) = Some m \<and> m < len \<and>
        registered_acquisition (rx_client st) k \<or>
      snd (relay_from_json_with_context J text) = Inl failure \<and>
      concerns R (rx_client st) k (fst (relay_from_json_with_context J text))"
    and "\<not> rw_closed (rx_raw st k)"
  shows "rw_rejected (rx_raw st' k) \<and>
    ra_end (snd (raw_finish (rx_raw st' k) result))
      \<notin> {EndCompleted, EndExitLimitReached, EndReceiverClosed}"
proof -
  define s where "s = update_client
    (\<lambda>cl. cl\<lparr>cl_conn := (cl_conn cl)\<lparr>cn_stats := add_bytes_received len (cn_stats (cl_conn cl))\<rparr>\<rparr>) st"
  have raw: "rx_raw s = rx_raw st" by (simp add: s_def update_client_def)
  have subs: "cl_subs (rx_client s) = cl_subs (rx_client st)" by (simp add: s_def)
  have reg: "registered_acquisition (rx_client s) = registered_acquisition (rx_client st)"
    by (simp add: registered_acquisition_def fun_eq_iff subs)
  have con: "concerns R (rx_client s) k c = concerns R (rx_client st) k c" for c
    by (simp add: concerns_def reg subs split: relay_message_context.split option.split)
  have closed: "\<not> rw_closed (rx_raw s k)" using assms(3) by (simp add: raw)
  let ?large = "case messages_max_size (opt_limits (rc_options R)) of None \<Rightarrow> False | Some m \<Rightarrow> m < len"
  obtain c p where cp: "relay_from_json_with_context J text = (c, p)"
    by (cases "relay_from_json_with_context J text")
  have "rw_rejected (rx_raw st' k)"
  proof (cases ?large)
    case True
    then have st': "st' = reject_unattributed s"
      using assms(1) by (simp add: handle_raw_relay_message_def s_def [symmetric] Let_def)
    have "registered_acquisition (rx_client st) k"
      using assms(2) cp by (auto simp: concerns_def registered_acquisition_def
          split: relay_message_context.splits option.splits)
    then show ?thesis
      using closed by (simp add: st' reject_unattributed_def reg rejected_raw)
  next
    case False
    then have p: "p = Inl failure" and "concerns R (rx_client st) k c"
      using assms(2) cp by auto
    then have "concerns R (rx_client s) k c" and "st' = lost_event R c s"
      using assms(1) False cp con
      by (simp_all add: handle_raw_relay_message_def s_def [symmetric] Let_def)
    then show ?thesis using lost_event_rejects closed by blast
  qed
  then show ?thesis by (auto simp: raw_finish_def Let_def)
qed

text \<open>
  What a CLOSED of the relay does to the subscriptions: one that is rate limited, or that
  needs an authentication the client can give, stays and is restored later; any other is
  forgotten; no other subscription is touched.
\<close>

lemma closed_message_effect:
  "cl_subs (rx_client (handle_message_effects a (RClosed sid m) st)) =
     (cl_subs (rx_client st))(sid :=
        if \<exists>rest. m = ''rate-limited:'' @ rest \<or> a \<and> m = ''auth-required:'' @ rest
        then map_option (\<lambda>d. d\<lparr>sd_closed := True\<rparr>) (cl_subs (rx_client st) sid)
        else None)"
  by (auto simp: handle_message_effects_def closed_kept_iff subscription_closed_def update_data_def
      forget_subscription_def fun_eq_iff split: option.split)

section \<open>A relay that sends a forged event\<close>

definition ref_cache :: "event_id list verification_cache" where
  "ref_cache = \<lparr>vc_contains = (\<lambda>i v. i \<in> set v), vc_put = (#)\<rparr>"

definition ref_saved_database :: "unit client_database" where
  "ref_saved_database =
     \<lparr>db_check_id = (\<lambda>_ _. Inr Saved), db_save_event = (\<lambda>_ d. (Inr (Rejected RDuplicate), d))\<rparr>"

definition ref_config :: "relay_options \<Rightarrow> (unit, unit, event_id list) relay_config" where
  "ref_config opts =
     \<lparr>rc_externals = ref_externals, rc_url = ref_url, rc_options = opts, rc_namespace = ''a0'',
      rc_json_len = (\<lambda>_. 10), rc_database = ref_saved_database, rc_gossip = None,
      rc_cache = ref_cache, rc_admit = None, rc_authenticator = False, rc_has_external = True\<rparr>"

definition ref_client_state :: "client \<Rightarrow> event_id list \<Rightarrow> (unit, unit, event_id list) client_state" where
  "ref_client_state cl v =
     \<lparr>rx_client = cl, rx_raw = (\<lambda>_. raw_new 5 ExitOnEOSE), rx_db = (), rx_gossip = (), rx_cache = v,
      rx_internal = [], rx_external = [], rx_challenge = None\<rparr>"

definition ref_genuine :: event where
  "ref_genuine =
     (let i = event_id_compute ref_externals (ref_pk 2) 90 TextNote [] ''hi'' in
      \<lparr>ev_id = i, ev_pubkey = ref_pk 2, ev_created_at = 90, ev_kind = TextNote, ev_tags = [],
       ev_content = ''hi'', ev_sig = eid_bytes i @ replicate 32 2\<rparr>)"

definition ref_forged :: event where
  "ref_forged = ref_genuine\<lparr>ev_pubkey := ref_pk 3, ev_content := ''pay me'', ev_sig := []\<rparr>"

lemma ref_cache_ok: "cache_ok (rc_cache (ref_config opts))"
  by (auto simp: cache_ok_def ref_config_def ref_cache_def)

lemma ref_genuine_verifies: "event_verify ref_externals ref_genuine = Inr ()"
  by (simp add: event_verify_def verify_id_def verify_signature_def ref_genuine_def Let_def
      ref_externals_def ref_schnorr_verify_def ref_pk_def)

lemma ref_forged_fails: "event_verify ref_externals ref_forged = Inl Invalid"
  by code_simp

lemma ref_events_pass:
  "check_event_limits default_options f ref_forged = Inr ()" "\<not> is_expired_at ref_forged 100"
  "check_event_limits default_options f ref_genuine = Inr ()" "\<not> is_expired_at ref_genuine 100"
  by (simp_all add: check_event_limits_def default_options_def default_limits_def
      default_event_limits_def get_max_size_def get_max_num_tags_def is_expired_at_def
      ref_forged_def ref_genuine_def tags_expiration_def Let_def)

lemmas ref_config_simps = ref_config_def ref_saved_database_def default_options_def



lemma verification_cache_sound_witness:
  "\<exists>e. ev_id e = ev_id ref_genuine \<and> event_verify ref_externals e = Inr ()"
proof -
  let ?R = "ref_config default_options"
  let ?ms = "[(100, 50, JArray (serialize_relay_message ref_codec (REvent ''s'' ref_genuine)) SeqClosed)]"
  obtain c where j: "relay_from_json_with_context ref_codec
      (JArray (serialize_relay_message ref_codec (REvent ''s'' ref_genuine)) SeqClosed) =
      (c, Inr (REvent ''s'' ref_genuine))"
    by (simp add: relay_from_json_with_context_def relay_visit_seq_def serialize_relay_message_def
        ref_codec_def drain_def)
  have "vc_contains (rc_cache ?R) (ev_id ref_genuine)
      (rx_cache (run_messages ?R ref_codec ?ms (ref_client_state client_new [])))"
    using ref_genuine_verifies ref_events_pass [unfolded default_options_def]
    by (simp add: run_messages_def handle_relay_message_def handle_raw_relay_message_def j
        handle_event_msg_def handle_event_frame_def subscription_checks_def
        admit_event_def verify_and_cache_def save_received_event_def process_gossip_def
        update_raw_def update_client_def ref_config_simps ref_client_state_def ref_cache_def
        starts_with_def default_limits_def MAX_MESSAGE_SIZE_def send_notification_def
        handle_message_effects_def Let_def to_client_notification_def)
  from verification_cache_sound [OF ref_cache_ok _ this] show ?thesis
    by (simp add: ref_config_def ref_cache_def ref_client_state_def)
qed

definition ref_acquiring :: client where
  "ref_acquiring = client_new\<lparr>cl_subs := [''a01'' \<mapsto> auto_closing [filter_new] (Some 0)]\<rparr>"

lemmas ref_handle_defs = handle_event_msg_def handle_event_frame_def subscription_checks_def
  admit_event_def verify_and_cache_def save_received_event_def process_gossip_def update_raw_def
  ref_config_simps ref_client_state_def ref_cache_def starts_with_def

lemma acquisition_is_local_witness:
  "\<exists>st'. handle_event_msg (ref_config default_options) 100 ''a01'' ref_genuine
      (ref_client_state ref_acquiring []) = (Inr (Some (REvent ''a01'' ref_genuine)), st') \<and>
    rx_internal st' = []"
proof -
  have "fst (handle_event_msg (ref_config default_options) 100 ''a01'' ref_genuine
      (ref_client_state ref_acquiring [])) = Inr (Some (REvent ''a01'' ref_genuine))"
    using ref_genuine_verifies ref_events_pass [unfolded default_options_def]
    by (simp add: ref_handle_defs ref_acquiring_def auto_closing_def raw_record_def raw_new_def
        usize_max_def Let_def)
  then obtain st' where h: "handle_event_msg (ref_config default_options) 100 ''a01'' ref_genuine
      (ref_client_state ref_acquiring []) = (Inr (Some (REvent ''a01'' ref_genuine)), st')"
    by (metis prod.collapse)
  have "starts_with ''a01'' (rc_namespace (ref_config default_options))"
    by (simp add: starts_with_def ref_config_def)
  moreover have "cl_subs (rx_client (ref_client_state ref_acquiring [])) ''a01'' =
      Some (auto_closing [filter_new] (Some 0))"
    by (simp add: ref_client_state_def ref_acquiring_def)
  ultimately have "rx_internal st' = []"
    using acquisition_is_local [OF h, of "auto_closing [filter_new] (Some 0)" 0]
    by (simp add: auto_closing_def ref_client_state_def)
  then show ?thesis using h by blast
qed

definition ref_limited :: filter where
  "ref_limited = filter_new\<lparr>fl_limit := Some 1\<rparr>"

definition ref_subscribed :: client where
  "ref_subscribed = client_new\<lparr>cl_subs := [''s'' \<mapsto> long_lived [ref_limited] 0 0]\<rparr>"

lemma subscription_limit_enforced_witness:
  "length (fst (deliver_all (ref_config (default_options\<lparr>opt_verify_subscriptions := True\<rparr>)) ''s''
     [(100, ref_genuine), (100, ref_genuine)] (ref_client_state ref_subscribed []))) \<le> 1"
proof -
  let ?R = "ref_config (default_options\<lparr>opt_verify_subscriptions := True\<rparr>)"
  let ?d = "long_lived [ref_limited] 0 0"
  obtain ds st' where h: "deliver_all ?R ''s'' [(100, ref_genuine), (100, ref_genuine)]
      (ref_client_state ref_subscribed []) = (ds, st')"
    by (cases "deliver_all ?R ''s'' [(100, ref_genuine), (100, ref_genuine)]
      (ref_client_state ref_subscribed [])")
  have v: "opt_verify_subscriptions (rc_options ?R)" by (simp add: ref_config_def)
  have d: "cl_subs (rx_client (ref_client_state ref_subscribed [])) ''s'' = Some ?d"
    by (simp add: ref_client_state_def ref_subscribed_def)
  have "length ds \<le> 1 - sd_received_events ?d"
    by (rule subscription_limit_enforced [OF v d _ _ _ _ h, of ref_limited])
      (simp_all add: long_lived_def ref_limited_def usize_max_def)
  then show ?thesis unfolding h by (simp add: long_lived_def)
qed

lemma lost_input_marks_acquisition_witness:
  "rw_rejected (rx_raw (snd (handle_raw_relay_message (ref_config default_options) ref_codec 100 10
     NotArray (ref_client_state ref_acquiring []))) 0)"
proof -
  let ?st = "ref_client_state ref_acquiring []"
  have j: "relay_from_json_with_context ref_codec NotArray = (CtxUnknown, Inl Malformed)"
    by (simp add: relay_from_json_with_context_def)
  have "fst (handle_raw_relay_message (ref_config default_options) ref_codec 100 10 NotArray ?st) =
      Inl (err_nostr Malformed)"
    by (simp add: handle_raw_relay_message_def j ref_config_def default_options_def
        default_limits_def MAX_MESSAGE_SIZE_def Let_def)
  then obtain st' where h: "handle_raw_relay_message (ref_config default_options) ref_codec 100 10
      NotArray ?st = (Inl (err_nostr Malformed), st')"
    by (metis prod.collapse)
  have "registered_acquisition (rx_client ?st) 0"
    by (auto simp: registered_acquisition_def ref_client_state_def ref_acquiring_def auto_closing_def)
  then have "concerns (ref_config default_options) (rx_client ?st) 0
      (fst (relay_from_json_with_context ref_codec NotArray))"
    by (simp add: concerns_def j)
  moreover have "snd (relay_from_json_with_context ref_codec NotArray) = Inl Malformed"
    by (simp add: j)
  moreover have "\<not> rw_closed (rx_raw ?st 0)" by (simp add: ref_client_state_def raw_new_def)
  ultimately show ?thesis
    unfolding h snd_conv using lost_input_marks_acquisition [OF h] by blast
qed

end
