(* ===== verification/Client_Requests.thy ===== *)
theory Client_Requests
  imports Client_Delivery
begin

text \<open>
  The requests of a connection of the client: the handler of an auto-closing subscription
  (nostr-sdk/src/relay/inner.rs), and collecting, streaming, sending and counting events
  (nostr-sdk/src/relay/api).

  A request reads the notifications of the connection one after the other. What the channel or a
  timer gives next is an input; between two inputs other threads may change the state of the
  client in any way.
\<close>

section \<open>The handler of an auto-closing subscription\<close>

datatype handler_input =
    HNote relay_notification
  | HLagged nat
  | HChannelClosed
  | HIdleElapsed
  | HGraceElapsed
  | HTimeout
  | HCancel

datatype handler_phase = Listening | Grace

record handler_env =
  he_id :: string
  he_filters :: "filter list"
  he_opts :: auto_close_options
  he_authenticator :: bool
  he_relay_opts :: relay_options
  he_caps :: relay_capabilities

text \<open>
  \<open>ha_activities\<close> are the events that were sent on, \<open>ha_result\<close> is the value of the handler: whether
  to send CLOSE, and the reason.
\<close>

record handler =
  ha_phase :: handler_phase
  ha_events :: nat
  ha_events_after_eose :: nat
  ha_received_eose :: bool
  ha_require_resubscription :: bool
  ha_last_event :: "instant option"
  ha_activities :: "event list"
  ha_result :: "(bool \<times> auto_closed_reason option) option"

definition handler_start :: handler where
  "handler_start =
     \<lparr>ha_phase = Listening, ha_events = 0, ha_events_after_eose = 0, ha_received_eose = False,
      ha_require_resubscription = False, ha_last_event = None, ha_activities = [],
      ha_result = None\<rparr>"

definition error_text :: "sdk_error \<Rightarrow> string" where
  "error_text e = (case e of SdkError _ t \<Rightarrow> t)"

definition return_handler :: "bool \<Rightarrow> auto_closed_reason \<Rightarrow> handler \<Rightarrow> handler" where
  "return_handler to_close reason h = h\<lparr>ha_result := Some (to_close, Some reason)\<rparr>"

text \<open>The end of the loop: the grace of \<open>WaitDurationAfterEOSE\<close>, or the result.\<close>

definition leave_loop :: "auto_close_options \<Rightarrow> auto_closed_reason \<Rightarrow> handler \<Rightarrow> handler" where
  "leave_loop opts exit_reason h =
     (case ac_exit_policy opts of
        WaitDurationAfterEOSE _ \<Rightarrow> h\<lparr>ha_phase := Grace\<rparr>
      | _ \<Rightarrow> return_handler True exit_reason h)"

text \<open>The counters are \<open>u16\<close>; they stop at the number they are compared with.\<close>

definition handler_event :: "handler_env \<Rightarrow> instant \<Rightarrow> event \<Rightarrow> handler \<Rightarrow> handler" where
  "handler_event E now e h =
     (let opts = he_opts E;
          h = h\<lparr>ha_activities := ha_activities h @ [e]\<rparr>;
          h = (if ac_idle_timeout opts \<noteq> None then h\<lparr>ha_last_event := Some now\<rparr> else h)
      in case ac_exit_policy opts of
           WaitForEvents num \<Rightarrow>
             (let h = h\<lparr>ha_events := ha_events h + 1\<rparr>
              in if num \<le> ha_events h then leave_loop opts ClosedLimitReached h else h)
         | WaitForEventsAfterEOSE num \<Rightarrow>
             if ha_received_eose h then
               (let h = h\<lparr>ha_events_after_eose := ha_events_after_eose h + 1\<rparr>
                in if num \<le> ha_events_after_eose h then leave_loop opts ClosedLimitReached h else h)
             else h
         | _ \<Rightarrow> h)"

definition handler_eose :: "handler_env \<Rightarrow> handler \<Rightarrow> handler" where
  "handler_eose E h =
     (let h = h\<lparr>ha_received_eose := True\<rparr>
      in case ac_exit_policy (he_opts E) of
           ExitOnEOSE \<Rightarrow> leave_loop (he_opts E) ClosedCompleted h
         | WaitDurationAfterEOSE _ \<Rightarrow> leave_loop (he_opts E) ClosedCompleted h
         | _ \<Rightarrow> h)"

definition handler_closed :: "handler_env \<Rightarrow> string \<Rightarrow> handler \<Rightarrow> handler" where
  "handler_closed E message h =
     (case prefix_parse message of
        Some PAuthRequired \<Rightarrow>
          if \<not> he_authenticator E then return_handler False (ClosedBy message) h
          else h\<lparr>ha_require_resubscription := True\<rparr>
      | Some _ \<Rightarrow> return_handler False (ClosedBy message) h
      | None \<Rightarrow>
          return_handler False
            (if ac_report_relay_closed (he_opts E) then ClosedByRelay message else ClosedCompleted) h)"

definition handler_authenticated ::
  "handler_env \<Rightarrow> timestamp \<Rightarrow> handler \<Rightarrow> client \<Rightarrow> handler \<times> client" where
  "handler_authenticated E now h cl =
     (if \<not> ha_require_resubscription h then (h, cl)
      else
        (let h = h\<lparr>ha_require_resubscription := False\<rparr>
         in case update_auto_closing_subscription (he_id E) (he_filters E) cl of
              (Inl e, cl) \<Rightarrow> (return_handler False (ClosedBy (error_text e)) h, cl)
            | (Inr _, cl) \<Rightarrow>
                (case relay_send_msg (he_relay_opts E) (he_caps E) now
                        (CReq (he_id E) (he_filters E)) cl of
                   (Inl e, cl) \<Rightarrow>
                     (return_handler False (ClosedBy (error_text e)) h,
                      subscription_closed (he_id E) cl)
                 | (Inr _, cl) \<Rightarrow> (h, cl))))"

text \<open>The loop of \<open>handle_auto_closing\<close>.\<close>

definition handler_note ::
  "handler_env \<Rightarrow> timestamp \<Rightarrow> relay_notification \<Rightarrow> instant \<Rightarrow> handler \<Rightarrow> client \<Rightarrow> handler \<times> client" where
  "handler_note E now n instant h cl =
     (case n of
        NMessage (REvent sid e) \<Rightarrow> (if sid = he_id E then handler_event E instant e h else h, cl)
      | NMessage (REndOfStoredEvents sid) \<Rightarrow> (if sid = he_id E then handler_eose E h else h, cl)
      | NMessage (RClosed sid m) \<Rightarrow> (if sid = he_id E then handler_closed E m h else h, cl)
      | NMessage _ \<Rightarrow> (h, cl)
      | NAuthenticated \<Rightarrow> handler_authenticated E now h cl
      | NAuthenticationFailed \<Rightarrow> (return_handler False ClosedAuthenticationFailed h, cl)
      | NStatus st \<Rightarrow>
          (if is_connection_closed st then return_handler False ClosedDisconnected h else h, cl)
      | NEvent _ _ \<Rightarrow> (h, cl))"

definition idle_passed :: "auto_close_options \<Rightarrow> instant \<Rightarrow> handler \<Rightarrow> bool" where
  "idle_passed opts now h \<longleftrightarrow>
     (case (ac_idle_timeout opts, ha_last_event h) of
        (Some t, Some l) \<Rightarrow> t < now - l
      | _ \<Rightarrow> False)"

definition handler_listen ::
  "handler_env \<Rightarrow> timestamp \<Rightarrow> instant \<Rightarrow> handler_input \<Rightarrow> handler \<Rightarrow> client \<Rightarrow> handler \<times> client" where
  "handler_listen E now instant i h cl =
     (case i of
        HNote n \<Rightarrow>
          if idle_passed (he_opts E) instant h then (return_handler True ClosedTimedOut h, cl)
          else handler_note E now n instant h cl
      | HLagged k \<Rightarrow> (return_handler True (ClosedLagged k) h, cl)
      | HChannelClosed \<Rightarrow> (return_handler False ClosedReceiverClosed h, cl)
      | HIdleElapsed \<Rightarrow>
          (if ac_idle_timeout (he_opts E) \<noteq> None then return_handler True ClosedTimedOut h else h, cl)
      | _ \<Rightarrow> (h, cl))"

text \<open>\<open>post_eose_grace\<close>: whatever ends it, CLOSE is sent.\<close>

definition handler_grace :: "handler_env \<Rightarrow> handler_input \<Rightarrow> handler \<Rightarrow> handler" where
  "handler_grace E i h =
     (case i of
        HNote (NMessage (REvent sid e)) \<Rightarrow>
          if sid = he_id E then h\<lparr>ha_activities := ha_activities h @ [e]\<rparr> else h
      | HNote (NMessage (RClosed sid m)) \<Rightarrow>
          if sid = he_id E \<and> ac_report_relay_closed (he_opts E)
          then return_handler True
                 (if prefix_parse m \<noteq> None then ClosedBy m else ClosedByRelay m) h
          else h
      | HNote (NStatus st) \<Rightarrow>
          if is_connection_closed st then return_handler True ClosedDisconnected h else h
      | HLagged k \<Rightarrow> return_handler True (ClosedLagged k) h
      | HChannelClosed \<Rightarrow> return_handler True ClosedReceiverClosed h
      | HGraceElapsed \<Rightarrow> return_handler True ClosedCompleted h
      | _ \<Rightarrow> h)"

text \<open>
  A timeout of the whole handler gives no result, which \<open>spawn_auto_closing_handler\<close> takes for
  \<open>TimedOut\<close>; a cancelled handler sends CLOSE and no reason.
\<close>

definition handler_step ::
  "handler_env \<Rightarrow> timestamp \<Rightarrow> instant \<Rightarrow> handler_input \<Rightarrow> handler \<Rightarrow> client \<Rightarrow> handler \<times> client" where
  "handler_step E now instant i h cl =
     (if ha_result h \<noteq> None then (h, cl)
      else
        (case i of
           HCancel \<Rightarrow> (h\<lparr>ha_result := Some (True, None)\<rparr>, cl)
         | HTimeout \<Rightarrow>
             (if ac_timeout (he_opts E) \<noteq> None then return_handler True ClosedTimedOut h else h, cl)
         | _ \<Rightarrow>
             (case ha_phase h of
                Listening \<Rightarrow> handler_listen E now instant i h cl
              | Grace \<Rightarrow> (handler_grace E i h, cl))))"

text \<open>A run, with what other threads do before each input.\<close>

fun handler_run ::
  "handler_env \<Rightarrow> ((client \<Rightarrow> client) \<times> timestamp \<times> instant \<times> handler_input) list \<Rightarrow>
   handler \<Rightarrow> client \<Rightarrow> handler \<times> client" where
  "handler_run E [] h cl = (h, cl)"
| "handler_run E ((others, now, instant, i) # is) h cl =
     (let (h, cl) = handler_step E now instant i h (others cl) in handler_run E is h cl)"

text \<open>The end of the spawned task.\<close>

definition handler_finish ::
  "handler_env \<Rightarrow> timestamp \<Rightarrow> bool \<Rightarrow> raw_acquisition option \<Rightarrow> client \<Rightarrow>
   (sdk_error + unit) \<times> raw_acquisition option \<times> client" where
  "handler_finish E now to_close w cl =
     (let (r, cl) = (if to_close
                     then relay_send_msg (he_relay_opts E) (he_caps E) now (CClose (he_id E)) cl
                     else (Inr (), cl))
      in (r, map_option raw_close w, forget_subscription (he_id E) cl))"

section \<open>Streaming and fetching\<close>

datatype stream_event =
    SEvent event
  | SError sdk_error
  | SCompleted
  | SLimitReached

text \<open>
  \<open>SubscriptionActivityEventStream\<close>: what an activity gives, and whether the stream is done.
  \<open>None\<close> is the end of the stream or of the channel.
\<close>

definition stream_closed :: "bool \<Rightarrow> auto_closed_reason \<Rightarrow> stream_event option" where
  "stream_closed report_terminal_errors reason =
     (case reason of
        ClosedAuthenticationFailed \<Rightarrow> Some (SError (SdkError KRejected ''authentication failed''))
      | ClosedBy m \<Rightarrow> Some (SError (SdkError KRejected m))
      | ClosedByRelay m \<Rightarrow> Some (SError (SdkError KRejected m))
      | ClosedLagged k \<Rightarrow> Some (SError (SdkError KOther ''channel lagged''))
      | ClosedReceiverClosed \<Rightarrow> Some (SError (SdkError KOther ''channel closed''))
      | ClosedTimedOut \<Rightarrow> if report_terminal_errors then Some (SError err_timeout) else None
      | ClosedDisconnected \<Rightarrow> if report_terminal_errors then Some (SError err_not_connected) else None
      | ClosedLimitReached \<Rightarrow> Some SLimitReached
      | ClosedCompleted \<Rightarrow> Some SCompleted)"

definition stream_poll ::
  "bool \<Rightarrow> (event + auto_closed_reason) option \<Rightarrow> stream_event option \<times> bool" where
  "stream_poll report_terminal_errors a =
     (case a of
        Some (Inl e) \<Rightarrow> (Some (SEvent e), False)
      | Some (Inr reason) \<Rightarrow> (stream_closed report_terminal_errors reason, True)
      | None \<Rightarrow> (Some (SError (SdkError KState ''stream ended without an outcome'')), True))"

text \<open>All that a stream yields: the activities, then the end of the channel.\<close>

fun stream_items :: "bool \<Rightarrow> (event + auto_closed_reason) list \<Rightarrow> stream_event list" where
  "stream_items report [] = (case stream_poll report None of (Some x, _) \<Rightarrow> [x] | _ \<Rightarrow> [])"
| "stream_items report (a # as) =
     (case stream_poll report (Some a) of
        (None, _) \<Rightarrow> []
      | (Some x, stop) \<Rightarrow> if stop then [x] else x # stream_items report as)"

text \<open>The stream of events that \<open>stream_events\<close> gives when it is awaited.\<close>

definition event_results :: "stream_event list \<Rightarrow> (sdk_error + event) list" where
  "event_results xs =
     List.map_filter
       (\<lambda>x. case x of SEvent e \<Rightarrow> Some (Inr e) | SError e \<Rightarrow> Some (Inl e) | _ \<Rightarrow> None) xs"

fun fetch_loop :: "nat \<Rightarrow> (sdk_error + event) list \<Rightarrow> event list \<Rightarrow> sdk_error + event list" where
  "fetch_loop max_events [] events = Inr events"
| "fetch_loop max_events (Inl e # rs) events = Inl e"
| "fetch_loop max_events (Inr e # rs) events =
     (if max_events \<le> length events \<and> \<not> bts_contains event_key e events
      then Inl (SdkError KLimitExceeded ''too many fetched events'')
      else fetch_loop max_events rs (bts_insert event_key e events))"

definition fetch_events :: "nat \<Rightarrow> (event + auto_closed_reason) list \<Rightarrow> sdk_error + event list" where
  "fetch_events max_events activities =
     fetch_loop max_events (event_results (stream_items False activities)) []"

definition DEFAULT_FETCH_EVENTS_LIMIT :: nat where "DEFAULT_FETCH_EVENTS_LIMIT = 10000"

section \<open>Waiting for an answer\<close>

text \<open>What \<open>recv\<close> on the notifications gives, or the end of the time that is given.\<close>

datatype wait_input = WNote relay_notification | WLost sdk_error | WTimeout

fun wait_for_ok :: "event_id \<Rightarrow> wait_input list \<Rightarrow> ((sdk_error + bool \<times> string) \<times> wait_input list) option" where
  "wait_for_ok i [] = None"
| "wait_for_ok i (WTimeout # ns) = Some (Inl err_timeout, ns)"
| "wait_for_ok i (WLost e # ns) = Some (Inl e, ns)"
| "wait_for_ok i (WNote n # ns) =
     (case n of
        NMessage (ROk j status message) \<Rightarrow>
          if i = j then Some (Inr (status, message), ns) else wait_for_ok i ns
      | NStatus st \<Rightarrow>
          if is_connection_closed st then Some (Inl err_not_connected, ns) else wait_for_ok i ns
      | _ \<Rightarrow> wait_for_ok i ns)"

fun wait_for_authentication :: "wait_input list \<Rightarrow> ((sdk_error + unit) \<times> wait_input list) option" where
  "wait_for_authentication [] = None"
| "wait_for_authentication (WTimeout # ns) = Some (Inl err_timeout, ns)"
| "wait_for_authentication (WLost e # ns) = Some (Inl e, ns)"
| "wait_for_authentication (WNote n # ns) =
     (case n of
        NAuthenticated \<Rightarrow> Some (Inr (), ns)
      | NAuthenticationFailed \<Rightarrow> Some (Inl (SdkError KRejected ''authentication failed''), ns)
      | NStatus st \<Rightarrow>
          if is_connection_closed st then Some (Inl err_not_connected, ns)
          else wait_for_authentication ns
      | _ \<Rightarrow> wait_for_authentication ns)"

fun receive_count_reply :: "string \<Rightarrow> wait_input list \<Rightarrow> ((sdk_error + nat) \<times> wait_input list) option" where
  "receive_count_reply i [] = None"
| "receive_count_reply i (WTimeout # ns) = Some (Inl err_timeout, ns)"
| "receive_count_reply i (WLost e # ns) = Some (Inl e, ns)"
| "receive_count_reply i (WNote n # ns) =
     (case n of
        NMessage (RCount sid k) \<Rightarrow>
          if sid = i then Some (Inr k, ns) else receive_count_reply i ns
      | NMessage (RClosed sid message) \<Rightarrow>
          if sid = i then Some (Inl (SdkError KRejected message), ns) else receive_count_reply i ns
      | NStatus st \<Rightarrow>
          if is_connection_closed st then Some (Inl err_not_connected, ns)
          else receive_count_reply i ns
      | _ \<Rightarrow> receive_count_reply i ns)"

section \<open>Sending and counting\<close>

datatype event_send_status = StatusSent | StatusAck "string option"

definition ack_of :: "string \<Rightarrow> event_send_status" where
  "ack_of message = StatusAck (if message = [] then None else Some message)"

text \<open>
  \<open>send\<close> of the code: the state of the client when it is called is an argument, because the
  notifications are read between the two sends.
\<close>

definition send_once ::
  "relay_options \<Rightarrow> relay_capabilities \<Rightarrow> timestamp \<Rightarrow> bool \<Rightarrow> event \<Rightarrow> wait_input list \<Rightarrow> client \<Rightarrow>
   ((sdk_error + bool \<times> string) \<times> wait_input list) option \<times> client" where
  "send_once opts caps now wait e ns cl =
     (case relay_send_msg opts caps now (CEvent e) cl of
        (Inl err, cl) \<Rightarrow> (Some (Inl err, ns), cl)
      | (Inr _, cl) \<Rightarrow>
          (if \<not> wait then Some (Inr (True, []), ns) else wait_for_ok (ev_id e) ns, cl))"

text \<open>\<open>None\<close>: the request still waits.\<close>

definition send_event ::
  "relay_options \<Rightarrow> relay_capabilities \<Rightarrow> bool \<Rightarrow> timestamp \<Rightarrow> timestamp \<Rightarrow> bool \<Rightarrow> (client \<Rightarrow> client) \<Rightarrow>
   event \<Rightarrow> wait_input list \<Rightarrow> client \<Rightarrow> (sdk_error + event_send_status) option \<times> client" where
  "send_event opts caps authenticator now now' wait others e ns cl =
     (case send_once opts caps now wait e ns cl of
        (None, cl) \<Rightarrow> (None, cl)
      | (Some (Inl err, _), cl) \<Rightarrow> (Some (Inl err), cl)
      | (Some (Inr (status, message), ns), cl) \<Rightarrow>
          if status then (Some (Inr (if wait then ack_of message else StatusSent)), cl)
          else if prefix_parse message = Some PAuthRequired \<and> authenticator then
            (case wait_for_authentication ns of
               None \<Rightarrow> (None, cl)
             | Some (Inl err, _) \<Rightarrow> (Some (Inl err), cl)
             | Some (Inr _, ns) \<Rightarrow>
                 (case send_once opts caps now' wait e ns (others cl) of
                    (None, cl) \<Rightarrow> (None, cl)
                  | (Some (Inl err, _), cl) \<Rightarrow> (Some (Inl err), cl)
                  | (Some (Inr (status, message), _), cl) \<Rightarrow>
                      (Some (if status then Inr (ack_of message) else Inl (SdkError KRejected message)),
                       cl)))
          else (Some (Inl (SdkError KRejected message)), cl))"

definition count_events ::
  "relay_options \<Rightarrow> relay_capabilities \<Rightarrow> timestamp \<Rightarrow> timestamp \<Rightarrow> (client \<Rightarrow> client) \<Rightarrow> string \<Rightarrow>
   filter \<Rightarrow> wait_input list \<Rightarrow> client \<Rightarrow> (sdk_error + nat) option \<times> client" where
  "count_events opts caps now now' others i f ns cl =
     (case relay_send_msg opts caps now (CCount i f) cl of
        (Inl err, cl) \<Rightarrow> (Some (Inl err), cl)
      | (Inr _, cl) \<Rightarrow>
          (case receive_count_reply i ns of
             None \<Rightarrow> (None, cl)
           | Some (result, _) \<Rightarrow>
               (case relay_send_msg opts caps now' (CClose i) (others cl) of
                  (close_result, cl) \<Rightarrow>
                    (Some (case result of
                             Inl err \<Rightarrow> Inl err
                           | Inr k \<Rightarrow>
                               (case close_result of Inl err \<Rightarrow> Inl err | Inr _ \<Rightarrow> Inr k)), cl))))"

end
