(* ===== verification/Client_Outcomes.thy ===== *)
theory Client_Outcomes
  imports Client_Requests
begin

text \<open>
  What the results of requests mean: an auto-closing subscription hands on the events of its
  subscription in order and gives a reason that its inputs justify, a fetch returns exactly the
  events it received, and sending and counting report what the relay said.
\<close>

section \<open>The outcome of a handler\<close>

definition event_of :: "string \<Rightarrow> handler_input \<Rightarrow> event option" where
  "event_of sid i =
     (case i of HNote (NMessage (REvent s e)) \<Rightarrow> if s = sid then Some e else None | _ \<Rightarrow> None)"

definition events_of :: "string \<Rightarrow> handler_input list \<Rightarrow> event list" where
  "events_of sid is = List.map_filter (event_of sid) is"

lemma events_of_simps [simp]:
  "events_of sid [] = []"
  "events_of sid (is @ [i]) =
     events_of sid is @ (case event_of sid i of None \<Rightarrow> [] | Some e \<Rightarrow> [e])"
  by (simp_all add: events_of_def List.map_filter_def split: option.split)

definition eose_seen :: "string \<Rightarrow> handler_input list \<Rightarrow> bool" where
  "eose_seen sid is \<longleftrightarrow> HNote (NMessage (REndOfStoredEvents sid)) \<in> set is"

definition plain_close_seen :: "string \<Rightarrow> handler_input list \<Rightarrow> bool" where
  "plain_close_seen sid is \<longleftrightarrow>
     (\<exists>m. HNote (NMessage (RClosed sid m)) \<in> set is \<and> prefix_parse m = None)"

lemma seen_mono:
  "eose_seen sid is \<Longrightarrow> eose_seen sid (is @ [i])"
  "plain_close_seen sid is \<Longrightarrow> plain_close_seen sid (is @ [i])"
  by (auto simp: eose_seen_def plain_close_seen_def)

text \<open>What the reasons of the exit policy are justified by.\<close>

definition justified :: "handler_env \<Rightarrow> handler_input list \<Rightarrow> event list \<Rightarrow> auto_closed_reason \<Rightarrow> bool" where
  "justified E is es reason \<longleftrightarrow>
     (reason = ClosedCompleted \<longrightarrow>
        eose_seen (he_id E) is \<and>
          (ac_exit_policy (he_opts E) = ExitOnEOSE \<or>
           (\<exists>d. ac_exit_policy (he_opts E) = WaitDurationAfterEOSE d)) \<or>
        plain_close_seen (he_id E) is \<and> \<not> ac_report_relay_closed (he_opts E)) \<and>
     (reason = ClosedLimitReached \<longrightarrow>
        (\<exists>n. ac_exit_policy (he_opts E) = WaitForEvents n \<and> length es = max 1 n) \<or>
        (\<exists>n. ac_exit_policy (he_opts E) = WaitForEventsAfterEOSE n \<and> max 1 n \<le> length es \<and>
             eose_seen (he_id E) is))"

definition policy_count :: "req_exit_policy \<Rightarrow> handler \<Rightarrow> bool" where
  "policy_count p h \<longleftrightarrow>
     (case p of
        WaitForEvents n \<Rightarrow> ha_events h = length (ha_activities h) \<and> (0 < ha_events h \<longrightarrow> ha_events h < n)
      | WaitForEventsAfterEOSE n \<Rightarrow>
          ha_events_after_eose h \<le> length (ha_activities h) \<and>
          (0 < ha_events_after_eose h \<longrightarrow> ha_events_after_eose h < n)
      | _ \<Rightarrow> True)"

definition handler_inv :: "handler_env \<Rightarrow> handler_input list \<Rightarrow> handler \<Rightarrow> bool" where
  "handler_inv E is h \<longleftrightarrow>
     (\<exists>rest. events_of (he_id E) is = ha_activities h @ rest) \<and>
     (case ha_result h of
        None \<Rightarrow>
          events_of (he_id E) is = ha_activities h \<and>
          (ha_received_eose h \<longrightarrow> eose_seen (he_id E) is) \<and>
          (ha_phase h = Grace \<longrightarrow> eose_seen (he_id E) is \<and>
             (\<exists>d. ac_exit_policy (he_opts E) = WaitDurationAfterEOSE d)) \<and>
          policy_count (ac_exit_policy (he_opts E)) h
      | Some (to_close, None) \<Rightarrow> to_close
      | Some (to_close, Some reason) \<Rightarrow> justified E is (ha_activities h) reason)"

lemma policy_count_resub [simp]:
  "policy_count p (h\<lparr>ha_require_resubscription := b\<rparr>) = policy_count p h"
  by (cases p) (simp_all add: policy_count_def)

lemma handler_inv_resub [simp]:
  "handler_inv E is (h\<lparr>ha_require_resubscription := b\<rparr>) = handler_inv E is h"
  unfolding handler_inv_def by (cases "ha_result h") (simp_all split: prod.split option.split)

lemma handler_inv_start: "handler_inv E [] handler_start"
  by (simp add: handler_inv_def handler_start_def policy_count_def split: req_exit_policy.split)

lemma justified_mono: "justified E is es reason \<Longrightarrow> justified E (is @ [i]) es reason"
  by (auto simp: justified_def intro: seen_mono)

lemma handler_inv_ended:
  "handler_inv E is h \<Longrightarrow> ha_result h \<noteq> None \<Longrightarrow> handler_inv E (is @ [i]) h"
  by (auto simp: handler_inv_def justified_mono split: option.splits prod.splits)

lemma handler_inv_return:
  assumes "handler_inv E is h" and "ha_result h = None"
    and "reason \<noteq> ClosedCompleted" and "reason \<noteq> ClosedLimitReached"
  shows "handler_inv E (is @ [i]) (return_handler b reason h)"
  using assms by (auto simp: handler_inv_def return_handler_def justified_def)

lemma handler_inv_skip:
  assumes "handler_inv E is h" and "ha_result h = None" and "event_of (he_id E) i = None"
  shows "handler_inv E (is @ [i]) h"
  using assms by (auto simp: handler_inv_def intro: seen_mono)

lemma handler_inv_event:
  assumes "handler_inv E is h" and "ha_result h = None" and "ha_phase h = Listening"
    and "event_of (he_id E) i = Some e"
  shows "handler_inv E (is @ [i]) (handler_event E now e h)"
proof -
  define g where "g = (if ac_idle_timeout (he_opts E) \<noteq> None
    then h\<lparr>ha_activities := ha_activities h @ [e], ha_last_event := Some now\<rparr>
    else h\<lparr>ha_activities := ha_activities h @ [e]\<rparr>)"
  have g: "ha_result g = None" "ha_phase g = Listening" "ha_activities g = ha_activities h @ [e]"
      "ha_received_eose g = ha_received_eose h" "ha_events g = ha_events h"
      "ha_events_after_eose g = ha_events_after_eose h"
    using assms by (simp_all add: g_def)
  have run: "handler_event E now e h =
     (case ac_exit_policy (he_opts E) of
        WaitForEvents num \<Rightarrow>
          (let h = g\<lparr>ha_events := ha_events h + 1\<rparr>
           in if num \<le> ha_events h then return_handler True ClosedLimitReached h else h)
      | WaitForEventsAfterEOSE num \<Rightarrow>
          if ha_received_eose h then
            (let h = g\<lparr>ha_events_after_eose := ha_events_after_eose h + 1\<rparr>
             in if num \<le> ha_events_after_eose h then return_handler True ClosedLimitReached h else h)
          else g
      | _ \<Rightarrow> g)"
    by (simp add: handler_event_def g_def leave_loop_def Let_def split: req_exit_policy.split)
  show ?thesis
    using assms g unfolding run
    by (auto simp: handler_inv_def policy_count_def justified_def return_handler_def Let_def
        intro: seen_mono split: req_exit_policy.splits)
qed

lemma handler_inv_eose:
  assumes "handler_inv E is h" and "ha_result h = None" and "ha_phase h = Listening"
  shows "handler_inv E (is @ [HNote (NMessage (REndOfStoredEvents (he_id E)))]) (handler_eose E h)"
  using assms
  by (auto simp: handler_inv_def handler_eose_def leave_loop_def return_handler_def justified_def
      policy_count_def event_of_def eose_seen_def Let_def split: req_exit_policy.splits)

lemma handler_inv_closed:
  assumes "handler_inv E is h" and "ha_result h = None"
  shows "handler_inv E (is @ [HNote (NMessage (RClosed (he_id E) m))]) (handler_closed E m h)"
proof (cases "prefix_parse m")
  case None
  then have "plain_close_seen (he_id E) (is @ [HNote (NMessage (RClosed (he_id E) m))])"
    by (auto simp: plain_close_seen_def)
  then show ?thesis
    using assms None
    by (auto simp: handler_inv_def handler_closed_def return_handler_def justified_def)
next
  case (Some p)
  have skip: "handler_inv E (is @ [i]) (h\<lparr>ha_require_resubscription := b\<rparr>)"
    if "event_of (he_id E) i = None" for b i
    using handler_inv_skip [OF assms that] by simp
  show ?thesis
    using Some handler_inv_return [OF assms] skip
    by (auto simp: handler_closed_def event_of_def split: prefix.split)
qed

lemma handler_inv_authenticated:
  assumes "handler_inv E is h" and "ha_result h = None"
  shows "handler_inv E (is @ [HNote NAuthenticated]) (fst (handler_authenticated E now h cl))"
proof -
  have n: "event_of (he_id E) (HNote NAuthenticated) = None" by (simp add: event_of_def)
  have g: "handler_inv E is (h\<lparr>ha_require_resubscription := False\<rparr>)"
    using assms by simp
  have r: "ha_result (h\<lparr>ha_require_resubscription := False\<rparr>) = None" using assms by simp
  show ?thesis
    using handler_inv_skip [OF assms n] handler_inv_skip [OF g r n] handler_inv_return [OF g r]
    by (auto simp: handler_authenticated_def Let_def split: sum.split prod.split)
qed

lemma handler_inv_note:
  assumes "handler_inv E is h" and "ha_result h = None" and "ha_phase h = Listening"
  shows "handler_inv E (is @ [HNote n]) (fst (handler_note E now n instant h cl))"
proof (cases n)
  case (NMessage m)
  then show ?thesis
    using assms handler_inv_event [OF assms] handler_inv_eose [OF assms]
      handler_inv_closed [OF assms(1,2)] handler_inv_skip [OF assms(1,2)]
    by (cases m) (auto simp: handler_note_def event_of_def)
next
  case NAuthenticated
  then show ?thesis
    using handler_inv_authenticated [OF assms(1,2)] by (simp add: handler_note_def)
qed (use assms handler_inv_return [OF assms(1,2)] handler_inv_skip [OF assms(1,2)] in
    \<open>auto simp: handler_note_def event_of_def\<close>)

lemma handler_inv_grace:
  assumes "handler_inv E is h" and "ha_result h = None" and "ha_phase h = Grace"
    and "i \<noteq> HCancel" and "i \<noteq> HTimeout"
  shows "handler_inv E (is @ [i]) (handler_grace E i h)"
proof -
  have keep: "handler_inv E (is @ [i]) (h\<lparr>ha_activities := ha_activities h @ [e]\<rparr>)"
    if "event_of (he_id E) i = Some e" for e
    using assms that
    by (auto simp: handler_inv_def policy_count_def intro: seen_mono split: req_exit_policy.splits)
  have "handler_inv E (is @ [HGraceElapsed]) (return_handler True ClosedCompleted h)"
    using assms
    by (auto simp: handler_inv_def return_handler_def justified_def event_of_def intro: seen_mono)
  then show ?thesis
    using keep handler_inv_return [OF assms(1,2)] handler_inv_skip [OF assms(1,2)] assms(4,5)
    by (auto simp: handler_grace_def event_of_def
        split: handler_input.split relay_notification.split relay_message.split)
qed

lemma handler_inv_step:
  assumes "handler_inv E is h"
  shows "handler_inv E (is @ [i]) (fst (handler_step E now instant i h cl))"
proof (cases "ha_result h = None")
  case None: True
  note skip = handler_inv_skip [OF assms None] and ret = handler_inv_return [OF assms None]
  have cancel: "handler_inv E (is @ [i]) (h\<lparr>ha_result := Some (True, None)\<rparr>)"
    using assms None by (auto simp: handler_inv_def)
  show ?thesis
  proof (cases "ha_phase h")
    case Listening
    then show ?thesis
      using None skip ret cancel handler_inv_note [OF assms None Listening]
      by (cases i) (auto simp: handler_step_def handler_listen_def event_of_def)
  next
    case Grace
    then show ?thesis
      using None skip ret cancel handler_inv_grace [OF assms None Grace]
      by (cases i) (auto simp: handler_step_def event_of_def)
  qed
qed (use assms handler_inv_ended in \<open>auto simp: handler_step_def\<close>)

lemma handler_inv_run:
  "handler_inv E is h \<Longrightarrow>
   handler_inv E (is @ map (\<lambda>(_, _, _, i). i) js) (fst (handler_run E js h cl))"
proof (induction js arbitrary: "is" h cl)
  case (Cons j js)
  obtain others now instant i where j: "j = (others, now, instant, i)" by (cases j)
  obtain h' cl' where s: "handler_step E now instant i h (others cl) = (h', cl')"
    by (cases "handler_step E now instant i h (others cl)")
  have "handler_inv E (is @ [i]) h'"
    using handler_inv_step [OF Cons.prems, of i now instant "others cl"] s by simp
  from Cons.IH [OF this] show ?case by (simp add: j s)
qed simp

section \<open>What a fetch returns\<close>

definition silent_end :: "auto_closed_reason \<Rightarrow> bool" where
  "silent_end reason \<longleftrightarrow>
     reason \<in> {ClosedCompleted, ClosedLimitReached, ClosedTimedOut, ClosedDisconnected}"

lemma stream_closed_result:
  "event_results (case stream_closed False reason of None \<Rightarrow> [] | Some x \<Rightarrow> [x]) =
     (if silent_end reason then []
      else (case stream_closed False reason of Some (SError e) \<Rightarrow> [Inl e] | _ \<Rightarrow> []))"
  by (cases reason) (simp_all add: stream_closed_def silent_end_def event_results_def List.map_filter_def)

lemma noisy_end: "\<not> silent_end reason \<Longrightarrow> \<exists>e. stream_closed False reason = Some (SError e)"
  by (cases reason) (auto simp: stream_closed_def silent_end_def)

lemma event_results_simps [simp]:
  "event_results [] = []"
  "event_results (SEvent e # xs) = Inr e # event_results xs"
  "event_results (SError x # xs) = Inl x # event_results xs"
  "event_results (SCompleted # xs) = event_results xs"
  "event_results (SLimitReached # xs) = event_results xs"
  by (simp_all add: event_results_def List.map_filter_def)

lemma stream_items_end:
  "stream_items report (Inr reason # as) =
     (case stream_closed report reason of None \<Rightarrow> [] | Some x \<Rightarrow> [x])"
  by (simp add: stream_poll_def split: option.split)

lemma stream_items_event: "stream_items report (Inl e # as) = SEvent e # stream_items report as"
  by (simp add: stream_poll_def)

text \<open>There is room for every new event as long as the set stays within the maximum.\<close>

fun room_for :: "nat \<Rightarrow> event list \<Rightarrow> event list \<Rightarrow> bool" where
  "room_for m s [] = True"
| "room_for m s (e # es) =
     ((length s < m \<or> bts_contains event_key e s) \<and> room_for m (bts_insert event_key e s) es)"

lemma length_bts_insert:
  "bts_ok key xs \<Longrightarrow>
   length (bts_insert key x xs) = (if bts_contains key x xs then length xs else Suc (length xs))"
  by (induction xs) (auto simp: bts_contains_def)

lemma bts_extend_Cons: "bts_extend key s (x # xs) = bts_extend key (bts_insert key x s) xs"
  by (simp add: bts_extend_def)

lemma length_bts_extend_ge: "bts_ok key s \<Longrightarrow> length s \<le> length (bts_extend key s xs)"
proof (induction xs arbitrary: s)
  case (Cons x xs)
  have "length (bts_insert key x s) \<le> length (bts_extend key (bts_insert key x s) xs)"
    by (rule Cons.IH) (simp add: bts_insert_ok Cons.prems)
  then show ?case using Cons.prems by (auto simp: bts_extend_Cons length_bts_insert split: if_splits)
qed (simp add: bts_extend_def)

lemma room_for_iff:
  "bts_ok event_key s \<Longrightarrow> length s \<le> m \<Longrightarrow>
   room_for m s es \<longleftrightarrow> length (bts_extend event_key s es) \<le> m"
proof (induction es arbitrary: s)
  case (Cons e es)
  let ?s = "bts_insert event_key e s"
  have ok: "bts_ok event_key ?s" using Cons.prems(1) by (rule bts_insert_ok)
  show ?case
  proof (cases "length ?s \<le> m")
    case True
    then have "length s < m \<or> bts_contains event_key e s"
      using Cons.prems(1) by (auto simp: length_bts_insert split: if_splits)
    then show ?thesis using Cons.IH [OF ok True] by (simp add: bts_extend_Cons)
  next
    case False
    then have "\<not> (length s < m \<or> bts_contains event_key e s)"
      using Cons.prems by (auto simp: length_bts_insert split: if_splits)
    then show ?thesis
      using False length_bts_extend_ge [OF ok, of es] by (simp add: bts_extend_Cons)
  qed
qed (simp add: bts_extend_def)

text \<open>A fetch that goes well has read events only, up to a reason that ends the stream silently.\<close>

lemma fetch_loop_ok:
  "fetch_loop m (event_results (stream_items False as)) s = Inr evs \<longleftrightarrow>
   (\<exists>es reason rest. as = map Inl es @ Inr reason # rest \<and> silent_end reason \<and>
      evs = bts_extend event_key s es \<and> room_for m s es)"
proof (induction "as" arbitrary: s)
  case Nil
  show ?case by (simp add: stream_poll_def)
next
  case (Cons a "as")
  show ?case
  proof (cases a)
    case (Inl e)
    have shape: "(a # as = map Inl es' @ Inr reason # rest) \<longleftrightarrow>
        (\<exists>es. es' = e # es \<and> as = map Inl es @ Inr reason # rest)" for es' reason rest
      using Inl by (cases es') auto
    have "fetch_loop m (event_results (stream_items False (a # as))) s = Inr evs \<longleftrightarrow>
        (length s < m \<or> bts_contains event_key e s) \<and>
        fetch_loop m (event_results (stream_items False as)) (bts_insert event_key e s) = Inr evs"
      unfolding Inl stream_items_event by auto
    also have "\<dots> \<longleftrightarrow> (\<exists>es reason rest. as = map Inl es @ Inr reason # rest \<and> silent_end reason \<and>
        evs = bts_extend event_key s (e # es) \<and> room_for m s (e # es))"
      unfolding Cons.IH by (auto simp: bts_extend_Cons)
    also have "\<dots> \<longleftrightarrow> (\<exists>es' reason rest. a # as = map Inl es' @ Inr reason # rest \<and>
        silent_end reason \<and> evs = bts_extend event_key s es' \<and> room_for m s es')"
      unfolding shape by blast
    finally show ?thesis .
  next
    case (Inr reason)
    have shape: "(a # as = map Inl es' @ Inr r # rest) \<longleftrightarrow> es' = [] \<and> r = reason \<and> rest = as" for es' r rest
      using Inr by (cases es') auto
    show ?thesis
      using noisy_end [of reason]
      unfolding shape unfolding Inr stream_items_end stream_closed_result
      by (auto simp: bts_extend_def)
  qed
qed

section \<open>Answers of the relay\<close>

lemma wait_for_ok_result:
  "wait_for_ok i ns = Some (Inr (status, message), rest) \<Longrightarrow>
   WNote (NMessage (ROk i status message)) \<in> set ns \<and> set rest \<subseteq> set ns"
  by (induction i ns rule: wait_for_ok.induct)
    (auto split: relay_notification.splits relay_message.splits if_splits)

lemma wait_for_authentication_result:
  "wait_for_authentication ns = Some (Inr u, rest) \<Longrightarrow>
   WNote NAuthenticated \<in> set ns \<and> set rest \<subseteq> set ns"
  by (induction ns rule: wait_for_authentication.induct)
    (auto split: relay_notification.splits if_splits)

lemma receive_count_result:
  "receive_count_reply i ns = Some (Inr k, rest) \<Longrightarrow> WNote (NMessage (RCount i k)) \<in> set ns"
  by (induction i ns rule: receive_count_reply.induct)
    (auto split: relay_notification.splits relay_message.splits if_splits)

lemma send_once_result:
  assumes "send_once opts caps now wait e ns cl = (Some (Inr (status, message), rest), cl')"
  shows "(if wait then WNote (NMessage (ROk (ev_id e) status message)) \<in> set ns
          else status \<and> message = []) \<and> set rest \<subseteq> set ns"
  using assms
  by (auto simp: send_once_def dest: wait_for_ok_result split: sum.splits prod.splits if_splits)

section \<open>Properties\<close>


text \<open>
  C36: A fetch succeeds exactly when the relay sent events only until it completed, reached a limit,
  timed out or disconnected, and the number of distinct events is within the maximum; the result
  is then exactly the set of these events.
\<close>

theorem fetch_events_exact:
  "fetch_events m as = Inr evs \<longleftrightarrow>
   (\<exists>es reason rest. as = map Inl es @ Inr reason # rest \<and> silent_end reason \<and>
      evs = bts_extend event_key [] es \<and> length evs \<le> m)"
proof -
  have "room_for m [] es \<longleftrightarrow> length (bts_extend event_key [] es) \<le> m" for es
    by (rule room_for_iff) simp_all
  then show ?thesis unfolding fetch_events_def fetch_loop_ok by auto
qed

text \<open>
  C37: Sending an event reports an acknowledgement only if the relay sent an OK for its id that
  accepts it, and \<open>Sent\<close> only if the caller did not wait; a count is reported only if the relay
  sent it for this request.
\<close>

theorem answers_confirmed:
  "(fst (send_event opts caps auth now now' wait others e ns cl) = Some (Inr st) \<longrightarrow>
      (if wait then \<exists>m. WNote (NMessage (ROk (ev_id e) True m)) \<in> set ns \<and> st = ack_of m
       else st = StatusSent)) \<and>
   (fst (count_events opts caps now now' others i f ns cl) = Some (Inr k) \<longrightarrow>
      WNote (NMessage (RCount i k)) \<in> set ns)"
proof (intro conjI impI)
  assume s: "fst (send_event opts caps auth now now' wait others e ns cl) = Some (Inr st)"
  obtain r1 cl1 where o1: "send_once opts caps now wait e ns cl = (r1, cl1)"
    by (cases "send_once opts caps now wait e ns cl")
  from s o1 obtain status message rest where r1: "r1 = Some (Inr (status, message), rest)"
    by (auto simp: send_event_def split: option.splits sum.splits)
  note f1 = send_once_result [OF o1 [unfolded r1]]
  show "if wait then \<exists>m. WNote (NMessage (ROk (ev_id e) True m)) \<in> set ns \<and> st = ack_of m
       else st = StatusSent"
  proof (cases status)
    case True
    then show ?thesis using s o1 r1 f1 by (auto simp: send_event_def split: if_splits)
  next
    case False
    then have wait using f1 by (auto split: if_splits)
    obtain ns' where a: "wait_for_authentication rest = Some (Inr (), ns')"
      using s o1 r1 False by (auto simp: send_event_def split: if_splits option.splits sum.splits)
    obtain r2 cl2 where o2: "send_once opts caps now' wait e ns' (others cl1) = (r2, cl2)"
      by (cases "send_once opts caps now' wait e ns' (others cl1)")
    from s o1 r1 False a o2 obtain message' rest' where r2: "r2 = Some (Inr (True, message'), rest')"
      and st: "st = ack_of message'"
      by (auto simp: send_event_def split: if_splits option.splits sum.splits)
    show ?thesis
      using send_once_result [OF o2 [unfolded r2]] \<open>wait\<close> f1 st wait_for_authentication_result [OF a]
      by auto
  qed
next
  assume "fst (count_events opts caps now now' others i f ns cl) = Some (Inr k)"
  then show "WNote (NMessage (RCount i k)) \<in> set ns"
    by (auto simp: count_events_def dest: receive_count_result
        split: sum.splits option.splits prod.splits)
qed

section \<open>Witnesses\<close>

definition ref_handler_env :: handler_env where
  "ref_handler_env =
     \<lparr>he_id = ''s'', he_filters = [filter_new],
      he_opts = \<lparr>ac_exit_policy = WaitDurationAfterEOSE 5, ac_timeout = None,
        ac_idle_timeout = Some 9, ac_report_relay_closed = False\<rparr>,
      he_authenticator = False, he_relay_opts = default_options,
      he_caps = default_capabilities\<rparr>"


lemma answers_confirmed_witness:
  "\<exists>m. WNote (NMessage (ROk (ev_id ref_genuine) True m)) \<in>
     set [WNote NAuthenticated, WNote (NMessage (ROk (ev_id ref_genuine) True ''ok''))] \<and>
     StatusAck (Some ''ok'') = ack_of m"
proof -
  let ?caps = default_capabilities
  let ?ns = "[WNote NAuthenticated, WNote (NMessage (ROk (ev_id ref_genuine) True ''ok''))]"
  have "fst (send_event default_options ?caps False 100 101 True id ref_genuine ?ns ref_cl) =
      Some (Inr (StatusAck (Some ''ok'')))"
    by (simp add: send_event_def send_once_def relay_send_msg_def queue_msg_def track_req_def
        ack_of_def default_capabilities_read_write ref_cl_defs)
  then show ?thesis
    using answers_confirmed [where opts = default_options and caps = ?caps and auth = False
        and now = 100 and now' = 101 and wait = True and others = id and e = ref_genuine
        and ns = ?ns and cl = ref_cl and st = "StatusAck (Some ''ok'')"]
    by simp
qed

end
