(* ===== verification/Nostr_Bytes.thy ===== *)
theory Nostr_Bytes
  imports Nostr_Prelude
begin

text \<open>
  Byte strings: numbers in big-endian order, slices with the bounds checks of Rust's \<open>get\<close>, and
  UTF-8 as \<open>core::str\<close> validates and repairs it. The lengths of byte slices are natural numbers.
\<close>

section \<open>Big-endian numbers\<close>

text \<open>The last \<open>k\<close> bytes of a number, the most significant byte first.\<close>

fun be_bytes :: "nat \<Rightarrow> nat \<Rightarrow> u8 list" where
  "be_bytes 0 n = []"
| "be_bytes (Suc k) n = be_bytes k (n div 256) @ [of_nat (n mod 256)]"

lemma length_be_bytes [simp]: "length (be_bytes k n) = k"
  by (induction k n rule: be_bytes.induct) simp_all

lemma of_nat_byte_less:
  "a < 256 \<Longrightarrow> b < 256 \<Longrightarrow> (of_nat a :: u8) < of_nat b \<longleftrightarrow> a < b"
  by (simp add: word_less_nat_alt unat_of_nat)

lemma of_nat_byte_eq:
  "a < 256 \<Longrightarrow> b < 256 \<Longrightarrow> (of_nat a :: u8) = of_nat b \<longleftrightarrow> a = b"
  by (metis of_nat_byte_less linorder_neq_iff)

text \<open>The order of byte strings of one length: the first parts decide, then the rest.\<close>

lemma append_less_append:
  "length a = length b \<Longrightarrow> a @ x < b @ y \<longleftrightarrow> a < b \<or> a = b \<and> x < y"
  for a b x y :: "'a::linorder list"
  by (induction a b rule: list_induct2) auto

lemma append_le_append:
  "length a = length b \<Longrightarrow> a @ x \<le> b @ y \<longleftrightarrow> a < b \<or> a = b \<and> x \<le> y"
  for a b x y :: "'a::linorder list"
  by (auto simp: le_less append_less_append)

lemma div_mod_less:
  "a div 256 < b div 256 \<or> a div 256 = b div 256 \<and> a mod 256 < b mod 256 \<longleftrightarrow> a < b" for a b :: nat
proof -
  have "a = 256 * (a div 256) + a mod 256" "b = 256 * (b div 256) + b mod 256"
    "a mod 256 < 256" "b mod 256 < 256" by simp_all
  then show ?thesis by (cases rule: linorder_cases [of "a div 256" "b div 256"]) linarith+
qed

lemma be_bytes_less:
  "a < 256 ^ k \<Longrightarrow> b < 256 ^ k \<Longrightarrow> be_bytes k a < be_bytes k b \<longleftrightarrow> a < b"
proof (induction k arbitrary: a b)
  case (Suc k)
  have d: "a div 256 < 256 ^ k" "b div 256 < 256 ^ k"
    using Suc.prems by (simp_all add: less_mult_imp_div_less mult.commute)
  note less = Suc.IH [OF d]
  have eq: "be_bytes k (a div 256) = be_bytes k (b div 256) \<longleftrightarrow> a div 256 = b div 256"
    using less Suc.IH [OF d(2,1)] by (metis linorder_neq_iff)
  have "be_bytes (Suc k) a < be_bytes (Suc k) b \<longleftrightarrow>
      a div 256 < b div 256 \<or> a div 256 = b div 256 \<and> a mod 256 < b mod 256"
    by (simp add: append_less_append less eq of_nat_byte_less)
  also have "\<dots> \<longleftrightarrow> a < b" by (rule div_mod_less)
  finally show ?case .
qed simp

lemma be_bytes_eq:
  "a < 256 ^ k \<Longrightarrow> b < 256 ^ k \<Longrightarrow> be_bytes k a = be_bytes k b \<longleftrightarrow> a = b"
  by (metis be_bytes_less linorder_neq_iff)

text \<open>\<open>from_be_bytes\<close>.\<close>

definition be_val :: "u8 list \<Rightarrow> nat" where
  "be_val bs = foldl (\<lambda>n b. 256 * n + unat b) 0 bs"

lemma be_val_Nil [simp]: "be_val [] = 0"
  by (simp add: be_val_def)

lemma be_val_snoc [simp]: "be_val (bs @ [b]) = 256 * be_val bs + unat b"
  by (simp add: be_val_def)

lemma unat_byte_less: "unat (b :: u8) < 256"
  using unsigned_less [of b] by simp

lemma be_val_bytes: "n < 256 ^ k \<Longrightarrow> be_val (be_bytes k n) = n"
proof (induction k arbitrary: n)
  case (Suc k)
  have "n div 256 < 256 ^ k" using Suc.prems by (simp add: less_mult_imp_div_less mult.commute)
  then show ?case using Suc.IH by (simp add: unat_of_nat)
qed simp

lemma be_bytes_val: "be_bytes (length bs) (be_val bs) = bs"
proof (induction bs rule: rev_induct)
  case (snoc b bs)
  have "(256 * be_val bs + unat b) div 256 = be_val bs" "(256 * be_val bs + unat b) mod 256 = unat b"
    using unat_byte_less [of b] by simp_all
  then show ?case using snoc by simp
qed simp

lemma be_val_less: "be_val bs < 256 ^ length bs"
proof (induction bs rule: rev_induct)
  case (snoc b bs)
  then have "256 * be_val bs + 256 \<le> 256 * 256 ^ length bs" by simp
  then show ?case using unat_byte_less [of b] by simp
qed simp

section \<open>Slices\<close>

definition range_slice :: "nat \<Rightarrow> nat \<Rightarrow> 'a list \<Rightarrow> 'a list" where
  "range_slice a b xs = take (b - a) (drop a xs)"

text \<open>\<open>get(a..b)\<close>.\<close>

definition get_range :: "nat \<Rightarrow> nat \<Rightarrow> 'a list \<Rightarrow> 'a list option" where
  "get_range a b xs = (if a \<le> b \<and> b \<le> length xs then Some (range_slice a b xs) else None)"

lemma get_range_Some:
  "get_range a b xs = Some ys \<longleftrightarrow> a \<le> b \<and> b \<le> length xs \<and> ys = range_slice a b xs"
  by (auto simp: get_range_def)

lemma length_slice [simp]: "b \<le> length xs \<Longrightarrow> length (range_slice a b xs) = b - a"
  by (simp add: range_slice_def)

lemma slice_append:
  "length xs = a \<Longrightarrow> a + length ys = b \<Longrightarrow> range_slice a b (xs @ ys @ zs) = ys"
  by (auto simp: range_slice_def)

lemma slice_split: "a \<le> b \<Longrightarrow> take a xs @ range_slice a b xs @ drop b xs = xs"
  by (metis append_take_drop_id drop_drop le_add_diff_inverse2 range_slice_def)

section \<open>UTF-8\<close>

text \<open>
  The number of bytes that the validation of \<open>core::str\<close> consumes at the start of a byte string,
  and whether they are a character: a lead byte gives the width, the second byte excludes overlong
  forms, surrogates and what is above U+10FFFF.
\<close>

definition utf8_width :: "u8 \<Rightarrow> nat" where
  "utf8_width b =
     (if b < 0x80 then 1 else if 0xC2 \<le> b \<and> b \<le> 0xDF then 2 else if 0xE0 \<le> b \<and> b \<le> 0xEF then 3
      else if 0xF0 \<le> b \<and> b \<le> 0xF4 then 4 else 0)"

definition utf8_cont :: "u8 \<Rightarrow> bool" where
  "utf8_cont b \<longleftrightarrow> 0x80 \<le> b \<and> b \<le> 0xBF"

definition utf8_second :: "u8 \<Rightarrow> u8 \<Rightarrow> bool" where
  "utf8_second a b \<longleftrightarrow>
     (if a = 0xE0 then 0xA0 \<le> b \<and> b \<le> 0xBF else if a = 0xED then 0x80 \<le> b \<and> b \<le> 0x9F
      else if a = 0xF0 then 0x90 \<le> b \<and> b \<le> 0xBF else if a = 0xF4 then 0x80 \<le> b \<and> b \<le> 0x8F
      else utf8_cont b)"

definition utf8_step :: "u8 list \<Rightarrow> nat \<times> bool" where
  "utf8_step bs =
     (case bs of
        [] \<Rightarrow> (0, True)
      | a # r \<Rightarrow>
          if utf8_width a = 1 then (1, True)
          else if utf8_width a = 0 then (1, False)
          else (case r of
              [] \<Rightarrow> (1, False)
            | b # r \<Rightarrow>
                if \<not> utf8_second a b then (1, False)
                else if utf8_width a = 2 then (2, True)
                else (case r of
                    [] \<Rightarrow> (2, False)
                  | c # r \<Rightarrow>
                      if \<not> utf8_cont c then (2, False)
                      else if utf8_width a = 3 then (3, True)
                      else (case r of
                          [] \<Rightarrow> (3, False)
                        | d # _ \<Rightarrow> if \<not> utf8_cont d then (3, False) else (4, True)))))"

lemma utf8_step_length: "bs \<noteq> [] \<Longrightarrow> 0 < fst (utf8_step bs) \<and> fst (utf8_step bs) \<le> length bs"
  by (auto simp: utf8_step_def split: list.splits)

lemma utf8_step_drop: "bs \<noteq> [] \<Longrightarrow> length (drop (fst (utf8_step bs)) bs) < length bs"
  using utf8_step_length [of bs] by (simp add: diff_less)

definition REPLACEMENT :: "u8 list" where "REPLACEMENT = [0xEF, 0xBF, 0xBD]"

text \<open>\<open>String::from_utf8_lossy\<close> and \<open>String::from_utf8\<close>.\<close>

function from_utf8_lossy :: "u8 list \<Rightarrow> u8 list" where
  "from_utf8_lossy bs =
     (if bs = [] then []
      else (if snd (utf8_step bs) then take (fst (utf8_step bs)) bs else REPLACEMENT) @
        from_utf8_lossy (drop (fst (utf8_step bs)) bs))"
  by pat_completeness auto
termination
  by (relation "measure length") (use utf8_step_drop in simp_all)

function valid_utf8 :: "u8 list \<Rightarrow> bool" where
  "valid_utf8 bs \<longleftrightarrow>
     (if bs = [] then True
      else if snd (utf8_step bs) then valid_utf8 (drop (fst (utf8_step bs)) bs) else False)"
  by pat_completeness auto
termination
  by (relation "measure length") (use utf8_step_drop in simp_all)

declare from_utf8_lossy.simps [simp del] valid_utf8.simps [simp del]

lemma utf8_Nil [simp]: "from_utf8_lossy [] = []" "valid_utf8 []"
  by (subst from_utf8_lossy.simps, simp) (subst valid_utf8.simps, simp)

lemma utf8_Cons:
  assumes "bs \<noteq> []"
  shows "from_utf8_lossy bs = (if snd (utf8_step bs) then take (fst (utf8_step bs)) bs else REPLACEMENT) @
      from_utf8_lossy (drop (fst (utf8_step bs)) bs)"
    and "valid_utf8 bs \<longleftrightarrow> snd (utf8_step bs) \<and> valid_utf8 (drop (fst (utf8_step bs)) bs)"
  by (subst from_utf8_lossy.simps, simp add: assms) (subst valid_utf8.simps, simp add: assms)

definition from_utf8 :: "u8 list \<Rightarrow> string res" where
  "from_utf8 bs = (if valid_utf8 bs then Inr (string_of_bytes bs) else Inl Malformed)"

lemma lossy_valid: "valid_utf8 bs \<Longrightarrow> from_utf8_lossy bs = bs"
proof (induction bs rule: valid_utf8.induct)
  case (1 bs)
  show ?case
  proof (cases "bs = []")
    case False
    then have "from_utf8_lossy (drop (fst (utf8_step bs)) bs) = drop (fst (utf8_step bs)) bs"
      using 1 utf8_Cons(2) by blast
    then show ?thesis using False 1(2) utf8_Cons [OF False] by simp
  qed simp
qed

lemma valid_ascii: "\<forall>b \<in> set bs. b < 0x80 \<Longrightarrow> valid_utf8 bs"
  by (induction bs) (simp_all add: utf8_Cons(2) utf8_step_def utf8_width_def)

text \<open>A repaired string is valid.\<close>

lemma valid_replacement: "valid_utf8 bs \<Longrightarrow> valid_utf8 (REPLACEMENT @ bs)"
  by (simp add: utf8_Cons(2) REPLACEMENT_def utf8_step_def utf8_width_def utf8_second_def utf8_cont_def)

lemma utf8_step_take:
  assumes "bs \<noteq> []" and "snd (utf8_step bs)"
  shows "utf8_step (take (fst (utf8_step bs)) bs @ ys) = utf8_step bs"
proof -
  obtain a r where bs: "bs = a # r" using assms(1) by (cases bs) auto
  consider "utf8_width a = 1"
    | b r' where "utf8_width a \<noteq> 1" "utf8_width a \<noteq> 0" "r = b # r'" "utf8_second a b"
    using assms(2) by (auto simp: bs utf8_step_def split: if_splits list.splits)
  then show ?thesis
  proof cases
    case 2
    consider "utf8_width a = 2"
      | c r'' where "utf8_width a \<noteq> 2" "r' = c # r''" "utf8_cont c"
      using assms(2) 2 by (auto simp: bs utf8_step_def split: if_splits list.splits)
    then show ?thesis
    proof cases
      case (2 c r'')
      then show ?thesis
        using assms(2) \<open>utf8_width a \<noteq> 1\<close> \<open>utf8_width a \<noteq> 0\<close> \<open>r = b # r'\<close> \<open>utf8_second a b\<close>
        by (cases r'') (simp_all add: bs utf8_step_def split: if_splits)
    qed (use 2 in \<open>simp add: bs utf8_step_def\<close>)
  qed (simp add: bs utf8_step_def)
qed

lemma lossy_is_valid: "valid_utf8 (from_utf8_lossy bs)"
proof (induction bs rule: from_utf8_lossy.induct)
  case (1 bs)
  show ?case
  proof (cases "bs = []")
    case False
    let ?n = "fst (utf8_step bs)" and ?r = "from_utf8_lossy (drop (fst (utf8_step bs)) bs)"
    have IH: "valid_utf8 ?r" using 1 False by simp
    have n: "0 < ?n" "?n \<le> length bs" using utf8_step_length [OF False] by simp_all
    show ?thesis
    proof (cases "snd (utf8_step bs)")
      case True
      have "utf8_step (take ?n bs @ ?r) = utf8_step bs" by (rule utf8_step_take [OF False True])
      moreover have "take ?n bs @ ?r \<noteq> []" using False n by simp
      ultimately have "valid_utf8 (take ?n bs @ ?r)" using True IH n by (simp add: utf8_Cons(2))
      then show ?thesis using True utf8_Cons(1) [OF False] by simp
    qed (use utf8_Cons(1) [OF False] valid_replacement [OF IH] in simp)
  qed simp
qed

end
