(* ===== verification/Lmdb_Keys.thy ===== *)
theory Lmdb_Keys
  imports Memory_Store Nostr_Bytes
begin

text \<open>
  The keys of the indexes of the LMDB event store (database/nostr-lmdb/src/store/lmdb/index.rs).

  A key is a prefix, the creation time reversed and in big-endian order, and the event id. LMDB
  compares keys as byte strings, so that the keys with one prefix are ordered as the events are:
  newer events first, the lower id first among events of one time. The locale \<open>time_index\<close> states
  this once; every index interprets it.
\<close>

section \<open>The parts of a key\<close>

definition CREATED_AT_BE :: nat where "CREATED_AT_BE = 8"
definition KIND_BE :: nat where "KIND_BE = 2"
definition TAG_VALUE_PAD_LEN :: nat where "TAG_VALUE_PAD_LEN = 182"

definition reverse_and_conv_to_be64 :: "timestamp \<Rightarrow> u8 list" where
  "reverse_and_conv_to_be64 created_at = be_bytes CREATED_AT_BE (u64_max - created_at)"

definition kind_be_bytes :: "u16 \<Rightarrow> u8 list" where
  "kind_be_bytes k = be_bytes KIND_BE (unat k)"

definition extend_key_with_tag_value :: "u8 list \<Rightarrow> nat \<Rightarrow> string \<Rightarrow> u8 list" where
  "extend_key_with_tag_value key len tag_value =
     (let tag_value = bytes_of tag_value in
      if len \<le> TAG_VALUE_PAD_LEN then key @ tag_value @ replicate (TAG_VALUE_PAD_LEN - len) 0
      else key @ take TAG_VALUE_PAD_LEN tag_value)"

section \<open>The keys\<close>

definition make_ci_index_key :: "timestamp \<Rightarrow> u8 list \<Rightarrow> u8 list" where
  "make_ci_index_key created_at event_id = reverse_and_conv_to_be64 created_at @ event_id"

definition make_tc_index_key ::
  "single_letter_tag \<Rightarrow> string \<Rightarrow> timestamp \<Rightarrow> u8 list \<Rightarrow> u8 list" where
  "make_tc_index_key tag_name tag_value created_at event_id =
     (let key = [slt_byte tag_name];
          key = extend_key_with_tag_value key (length tag_value) tag_value
      in key @ reverse_and_conv_to_be64 created_at @ event_id)"

definition make_ac_index_key :: "u8 list \<Rightarrow> timestamp \<Rightarrow> u8 list \<Rightarrow> u8 list" where
  "make_ac_index_key author created_at event_id =
     author @ reverse_and_conv_to_be64 created_at @ event_id"

definition make_akc_index_key :: "u8 list \<Rightarrow> u16 \<Rightarrow> timestamp \<Rightarrow> u8 list \<Rightarrow> u8 list" where
  "make_akc_index_key author kind created_at event_id =
     author @ kind_be_bytes kind @ reverse_and_conv_to_be64 created_at @ event_id"

definition make_kc_index_key :: "u16 \<Rightarrow> timestamp \<Rightarrow> u8 list \<Rightarrow> u8 list" where
  "make_kc_index_key kind created_at event_id =
     kind_be_bytes kind @ reverse_and_conv_to_be64 created_at @ event_id"

definition make_atc_index_key ::
  "u8 list \<Rightarrow> single_letter_tag \<Rightarrow> string \<Rightarrow> timestamp \<Rightarrow> u8 list \<Rightarrow> u8 list" where
  "make_atc_index_key author tag_name tag_value created_at event_id =
     (let key = author @ [slt_byte tag_name];
          key = extend_key_with_tag_value key (length tag_value) tag_value
      in key @ reverse_and_conv_to_be64 created_at @ event_id)"

definition make_ktc_index_key ::
  "u16 \<Rightarrow> single_letter_tag \<Rightarrow> string \<Rightarrow> timestamp \<Rightarrow> u8 list \<Rightarrow> u8 list" where
  "make_ktc_index_key kind tag_name tag_value created_at event_id =
     (let key = kind_be_bytes kind @ [slt_byte tag_name];
          key = extend_key_with_tag_value key (length tag_value) tag_value
      in key @ reverse_and_conv_to_be64 created_at @ event_id)"

text \<open>The length byte goes before the identifier, and only a short identifier is padded.\<close>

definition make_coordinate_index_key :: "coordinate \<Rightarrow> u8 list" where
  "make_coordinate_index_key c =
     (let key = kind_be_bytes (as_u16 (co_kind c)) @ pk_bytes (co_public_key c);
          identifier = co_identifier c;
          dlen = min (length identifier) TAG_VALUE_PAD_LEN;
          key = key @ [of_nat dlen]
      in extend_key_with_tag_value key dlen identifier)"

definition make_author_deletion_key :: "event_id \<Rightarrow> public_key \<Rightarrow> u8 list" where
  "make_author_deletion_key event_id author = eid_bytes event_id @ pk_bytes author"

section \<open>Indexes by time\<close>

text \<open>The part of a key that all indexes share, and the tag value in its fixed width.\<close>

definition time_key :: "timestamp \<Rightarrow> u8 list \<Rightarrow> u8 list" where
  "time_key created_at event_id = reverse_and_conv_to_be64 created_at @ event_id"

definition pad_value :: "string \<Rightarrow> u8 list" where
  "pad_value v = extend_key_with_tag_value [] (length v) v"

lemma length_reverse [simp]: "length (reverse_and_conv_to_be64 t) = 8"
  by (simp add: reverse_and_conv_to_be64_def CREATED_AT_BE_def)

lemma length_kind_be_bytes [simp]: "length (kind_be_bytes k) = 2"
  by (simp add: kind_be_bytes_def KIND_BE_def)

lemma length_pad_value [simp]: "length (pad_value v) = 182"
  by (auto simp: pad_value_def extend_key_with_tag_value_def TAG_VALUE_PAD_LEN_def Let_def)

lemma extend_key: "extend_key_with_tag_value key (length v) v = key @ pad_value v"
  by (simp add: pad_value_def extend_key_with_tag_value_def Let_def)

lemma reverse_less:
  assumes "s \<le> u64_max" and "t \<le> u64_max"
  shows "reverse_and_conv_to_be64 s < reverse_and_conv_to_be64 t \<longleftrightarrow> t < s"
proof -
  have "(256 :: nat) ^ 8 = Suc u64_max" by (simp add: u64_max_def)
  then have b: "u64_max - s < 256 ^ 8" "u64_max - t < 256 ^ 8" by simp_all
  show ?thesis
    using be_bytes_less [OF b] assms unfolding reverse_and_conv_to_be64_def CREATED_AT_BE_def by auto
qed

lemma reverse_eq:
  assumes "s \<le> u64_max" and "t \<le> u64_max"
  shows "reverse_and_conv_to_be64 s = reverse_and_conv_to_be64 t \<longleftrightarrow> s = t"
  using reverse_less [OF assms] reverse_less [OF assms(2,1)] by (metis linorder_neq_iff)

lemma kind_be_bytes_inj [simp]: "kind_be_bytes k = kind_be_bytes l \<longleftrightarrow> k = l"
proof -
  have "unat k < 256 ^ 2" "unat l < 256 ^ 2"
    using unsigned_less [of k] unsigned_less [of l] by simp_all
  from be_bytes_eq [OF this] show ?thesis by (simp add: kind_be_bytes_def KIND_BE_def word_unat_eq_iff)
qed

lemma time_key_less:
  assumes "s \<le> u64_max" and "t \<le> u64_max"
  shows "time_key s i < time_key t j \<longleftrightarrow> t < s \<or> s = t \<and> i < j"
  using reverse_less [OF assms] reverse_eq [OF assms] by (auto simp: time_key_def append_less_append)

lemma time_key_inj:
  assumes "s \<le> u64_max" and "t \<le> u64_max"
  shows "time_key s i = time_key t j \<longleftrightarrow> s = t \<and> i = j"
  using reverse_eq [OF assms] by (simp add: time_key_def)

definition EVENT_ID_ALL_ZEROS :: "u8 list" where "EVENT_ID_ALL_ZEROS = replicate 32 0"
definition EVENT_ID_ALL_255 :: "u8 list" where "EVENT_ID_ALL_255 = replicate 32 255"

lemma zeros_le: "replicate (length i) 0 \<le> i" for i :: "u8 list"
  by (induction i) (auto simp: word_neq_0_conv)

lemma le_max: "i \<le> replicate (length i) 255" for i :: "u8 list"
proof (induction i)
  case (Cons b i)
  have "unat b < 2 ^ LENGTH(8)" by (rule unsigned_less)
  then have "b \<le> 255" by (simp add: word_le_nat_alt)
  then show ?case using Cons by (auto simp: le_less)
qed simp

text \<open>
  The contract of an index: its keys are a prefix of fixed length, which says what is looked up,
  and the time part. A range from \<open>until\<close> with the lowest id to \<open>since\<close> with the highest id has
  exactly the keys of the prefix with a time between the two, except one id.
\<close>

locale time_index =
  fixes key :: "'q \<Rightarrow> timestamp \<Rightarrow> u8 list \<Rightarrow> u8 list"
    and prefix :: "'q \<Rightarrow> u8 list"
    and valid :: "'q \<Rightarrow> bool"
    and width :: nat
  assumes key_parts: "key q t i = prefix q @ time_key t i"
    and prefix_width: "valid q \<Longrightarrow> length (prefix q) = width"
begin

lemma key_less:
  assumes "valid q" and "valid r" and "s \<le> u64_max" and "t \<le> u64_max"
  shows "key q s i < key r t j \<longleftrightarrow>
    prefix q < prefix r \<or> prefix q = prefix r \<and> (t < s \<or> s = t \<and> i < j)"
  using assms by (simp add: key_parts prefix_width append_less_append time_key_less)

lemma key_le:
  assumes "valid q" and "valid r" and "s \<le> u64_max" and "t \<le> u64_max"
  shows "key q s i \<le> key r t j \<longleftrightarrow>
    prefix q < prefix r \<or> prefix q = prefix r \<and> (t < s \<or> s = t \<and> i \<le> j)"
proof -
  have "length (prefix q) = length (prefix r)" using assms(1,2) by (simp add: prefix_width)
  then have "key q s i \<le> key r t j \<longleftrightarrow>
      prefix q < prefix r \<or> prefix q = prefix r \<and> time_key s i \<le> time_key t j"
    unfolding key_parts by (rule append_le_append)
  also have "time_key s i \<le> time_key t j \<longleftrightarrow> t < s \<or> s = t \<and> i \<le> j"
    unfolding le_less using time_key_less [OF assms(3,4)] time_key_inj [OF assms(3,4)] by blast
  finally show ?thesis .
qed

lemma key_inj:
  assumes "valid q" and "valid r" and "s \<le> u64_max" and "t \<le> u64_max"
  shows "key q s i = key r t j \<longleftrightarrow> prefix q = prefix r \<and> s = t \<and> i = j"
  using assms by (auto simp: key_parts prefix_width time_key_inj)

lemma in_range_iff:
  assumes "valid q" and "valid r" and "t \<le> u64_max" and "since \<le> u64_max" and "until \<le> u64_max"
    and "length i = 32" and "i \<noteq> EVENT_ID_ALL_255"
  shows "key q until EVENT_ID_ALL_ZEROS \<le> key r t i \<and> key r t i < key q since EVENT_ID_ALL_255 \<longleftrightarrow>
    prefix r = prefix q \<and> since \<le> t \<and> t \<le> until"
proof -
  have "EVENT_ID_ALL_ZEROS \<le> i" using zeros_le [of i] assms(6) by (simp add: EVENT_ID_ALL_ZEROS_def)
  moreover have "i < EVENT_ID_ALL_255"
    using le_max [of i] assms(6,7) by (simp add: EVENT_ID_ALL_255_def le_less)
  ultimately show ?thesis
    using assms by (auto simp: key_le key_less)
qed

end

interpretation ci: time_index "\<lambda>_ :: unit. make_ci_index_key" "\<lambda>_. []" "\<lambda>_. True" 0
  by unfold_locales (simp_all add: make_ci_index_key_def time_key_def)

interpretation ac: time_index make_ac_index_key "\<lambda>a. a" "\<lambda>a. length a = 32" 32
  by unfold_locales (simp_all add: make_ac_index_key_def time_key_def)

interpretation kc: time_index make_kc_index_key kind_be_bytes "\<lambda>_. True" 2
  by unfold_locales (simp_all add: make_kc_index_key_def time_key_def)

interpretation akc: time_index "\<lambda>(a, k). make_akc_index_key a k" "\<lambda>(a, k). a @ kind_be_bytes k"
  "\<lambda>(a, k). length a = 32" 34
  by unfold_locales (auto simp: make_akc_index_key_def time_key_def)

interpretation tc: time_index "\<lambda>(n, v). make_tc_index_key n v" "\<lambda>(n, v). slt_byte n # pad_value v"
  "\<lambda>_. True" 183
  by unfold_locales (auto simp: make_tc_index_key_def time_key_def extend_key Let_def)

interpretation atc: time_index "\<lambda>(a, n, v). make_atc_index_key a n v"
  "\<lambda>(a, n, v). a @ slt_byte n # pad_value v" "\<lambda>(a, n, v). length a = 32" 215
  by unfold_locales (auto simp: make_atc_index_key_def time_key_def extend_key Let_def)

interpretation ktc: time_index "\<lambda>(k, n, v). make_ktc_index_key k n v"
  "\<lambda>(k, n, v). kind_be_bytes k @ slt_byte n # pad_value v" "\<lambda>_. True" 185
  by unfold_locales (auto simp: make_ktc_index_key_def time_key_def extend_key Let_def)

end
