(* ===== verification/Lmdb_Events.thy ===== *)
theory Lmdb_Events
  imports Lmdb_Keys
begin

text \<open>
  Events and filters as the LMDB store keeps them: the record \<open>DatabaseEvent\<close> with its order and its
  encoding (database/nostr-lmdb/src/store/event.rs), \<open>DatabaseFilter\<close> with its \<open>match_event\<close>
  (store/filter.rs), and the errors (store/error.rs).

  The FlatBuffers accessors are generated code over an external crate: \<open>fb_root\<close> reads a buffer and
  \<open>fb_finish\<close> writes one. A hash set is the list of its elements in the order in which it is
  iterated, which is a parameter.
\<close>

section \<open>Errors\<close>

datatype migration_error = NewerVersion nat nat

datatype missing_field = MissingId | MissingPubkey | MissingTags | MissingContent | MissingSig

datatype store_error =
    ErrProtocol error_kind
  | ErrIo string
  | ErrHeed string
  | ErrThread string
  | ErrFlatBuffer string
  | ErrTryFromInt
  | ErrOneshotRecv
  | ErrMigration migration_error
  | ErrFlatBufFieldNotFound missing_field
  | ErrFlumeSend
  | ErrWrongEventKind
  | ErrNotFound
  | ErrBatchTransactionFailed

section \<open>Database events\<close>

definition db_tag_parse :: "string list \<Rightarrow> store_error + tag" where
  "db_tag_parse t = (if t = [] then Inl (ErrProtocol Invalid) else Inr t)"

definition db_tag_extract :: "tag \<Rightarrow> (single_letter_tag \<times> string) option" where
  "db_tag_extract t =
     (if 2 \<le> length t
      then (case slt_from_str (t ! 0) of Inl _ \<Rightarrow> None | Inr name \<Rightarrow> Some (name, t ! 1))
      else None)"

record database_event =
  de_id :: "u8 list"
  de_pubkey :: "u8 list"
  de_created_at :: timestamp
  de_kind :: u16
  de_tags :: "tag list"
  de_content :: string
  de_sig :: "u8 list"

text \<open>\<open>Ord\<close> of \<open>DatabaseEvent\<close>: newer events first, then the lower id.\<close>

definition de_key :: "database_event \<Rightarrow> int \<times> u8 list" where
  "de_key d = (- int (de_created_at d), de_id d)"

definition de_of_event :: "event \<Rightarrow> database_event" where
  "de_of_event e =
     \<lparr>de_id = eid_bytes (ev_id e), de_pubkey = pk_bytes (ev_pubkey e),
      de_created_at = ev_created_at e, de_kind = as_u16 (ev_kind e), de_tags = ev_tags e,
      de_content = ev_content e, de_sig = ev_sig e\<rparr>"

definition into_owned :: "database_event \<Rightarrow> event" where
  "into_owned d =
     \<lparr>ev_id = EventId (de_id d), ev_pubkey = PublicKey (de_pubkey d),
      ev_created_at = de_created_at d, ev_kind = from_u16 (de_kind d), ev_tags = de_tags d,
      ev_content = de_content d, ev_sig = de_sig d\<rparr>"

definition de_event_ids :: "externals \<Rightarrow> database_event \<Rightarrow> event_id list" where
  "de_event_ids x d =
     List.map_filter (\<lambda>t. if tag_kind t \<noteq> ''e'' then None
        else (case tag_content t of None \<Rightarrow> None | Some c \<Rightarrow> ok_of (event_id_from_hex x c))) (de_tags d)"

definition de_is_expired_at :: "database_event \<Rightarrow> timestamp \<Rightarrow> bool" where
  "de_is_expired_at d now =
     (case find (\<lambda>t. tag_kind t = ''expiration'') (de_tags d) of
        None \<Rightarrow> False
      | Some t \<Rightarrow> (case tag_content t of
            None \<Rightarrow> False
          | Some c \<Rightarrow> (case ts_from_str c of None \<Rightarrow> False | Some e \<Rightarrow> e < now)))"

section \<open>The encoding\<close>

record fb_event =
  fb_id :: "u8 list option"
  fb_pubkey :: "u8 list option"
  fb_created_at :: nat
  fb_kind :: nat
  fb_tags :: "string list option list option"
  fb_content :: "string option"
  fb_sig :: "u8 list option"

record flatbuffers =
  fb_root :: "u8 list \<Rightarrow> store_error + fb_event"
  fb_finish :: "fb_event \<Rightarrow> u8 list"

text \<open>The arrays have their fixed lengths, the numbers their widths.\<close>

definition fb_event_ok :: "fb_event \<Rightarrow> bool" where
  "fb_event_ok r \<longleftrightarrow>
     (\<forall>i. fb_id r = Some i \<longrightarrow> length i = 32) \<and> (\<forall>k. fb_pubkey r = Some k \<longrightarrow> length k = 32) \<and>
     (\<forall>s. fb_sig r = Some s \<longrightarrow> length s = 64) \<and> fb_created_at r \<le> u64_max \<and> fb_kind r \<le> u64_max"

definition flatbuffers_ok :: "flatbuffers \<Rightarrow> bool" where
  "flatbuffers_ok F \<longleftrightarrow> (\<forall>r. fb_event_ok r \<longrightarrow> fb_root F (fb_finish F r) = Inr r)"

definition field :: "'a option \<Rightarrow> missing_field \<Rightarrow> store_error + 'a" where
  "field v m = ok_or v (ErrFlatBufFieldNotFound m)"

fun parse_tags :: "string list list \<Rightarrow> store_error + tag list" where
  "parse_tags [] = Inr []"
| "parse_tags (t # ts) = rbind (db_tag_parse t) (\<lambda>t. rbind (parse_tags ts) (\<lambda>ts. Inr (t # ts)))"

definition from_flatbuf :: "flatbuffers \<Rightarrow> u8 list \<Rightarrow> store_error + database_event" where
  "from_flatbuf F buf =
     rbind (fb_root F buf) (\<lambda>ev.
     rbind (field (fb_tags ev) MissingTags) (\<lambda>fb_tags.
     rbind (parse_tags (List.map_filter id fb_tags)) (\<lambda>tags.
     rbind (field (fb_id ev) MissingId) (\<lambda>i.
     rbind (field (fb_pubkey ev) MissingPubkey) (\<lambda>pubkey.
     rbind (if fb_kind ev \<le> u16_max then Inr (of_nat (fb_kind ev)) else Inl ErrTryFromInt) (\<lambda>kind.
     rbind (field (fb_content ev) MissingContent) (\<lambda>content.
     rbind (field (fb_sig ev) MissingSig) (\<lambda>sig.
     Inr \<lparr>de_id = i, de_pubkey = pubkey, de_created_at = fb_created_at ev, de_kind = kind,
          de_tags = tags, de_content = content, de_sig = sig\<rparr>))))))))"

definition encode_flatbuf :: "flatbuffers \<Rightarrow> database_event \<Rightarrow> u8 list" where
  "encode_flatbuf F d =
     fb_finish F
       \<lparr>fb_id = Some (de_id d), fb_pubkey = Some (de_pubkey d), fb_created_at = de_created_at d,
        fb_kind = unat (de_kind d), fb_tags = Some (map Some (de_tags d)),
        fb_content = Some (de_content d), fb_sig = Some (de_sig d)\<rparr>"

text \<open>The type invariants of an event.\<close>

definition de_ok :: "database_event \<Rightarrow> bool" where
  "de_ok d \<longleftrightarrow>
     length (de_id d) = 32 \<and> de_id d \<noteq> EVENT_ID_ALL_255 \<and> length (de_pubkey d) = 32 \<and>
     length (de_sig d) = 64 \<and> de_created_at d \<le> u64_max \<and> list_all tag_ok (de_tags d)"

lemma parse_tags_ok: "list_all tag_ok ts \<Longrightarrow> parse_tags ts = Inr ts"
  by (induction ts) (auto simp: db_tag_parse_def tag_ok_def rbind_def)

lemma map_filter_id_Some [simp]: "List.map_filter id (map Some xs) = xs"
  by (simp add: List.map_filter_def comp_def)

lemma flatbuf_roundtrip:
  assumes "flatbuffers_ok F" and "de_ok d"
  shows "from_flatbuf F (encode_flatbuf F d) = Inr d"
proof -
  let ?r = "\<lparr>fb_id = Some (de_id d), fb_pubkey = Some (de_pubkey d), fb_created_at = de_created_at d,
        fb_kind = unat (de_kind d), fb_tags = Some (map Some (de_tags d)),
        fb_content = Some (de_content d), fb_sig = Some (de_sig d)\<rparr>"
  have k: "unat (de_kind d) < 2 ^ LENGTH(16)" by (rule unsigned_less)
  have "fb_event_ok ?r"
    using assms(2) k by (simp add: fb_event_ok_def de_ok_def u64_max_def)
  then have "fb_root F (fb_finish F ?r) = Inr ?r"
    using assms(1) by (simp add: flatbuffers_ok_def)
  moreover have "parse_tags (de_tags d) = Inr (de_tags d)"
    using assms(2) by (intro parse_tags_ok) (simp add: de_ok_def)
  ultimately show ?thesis
    using k by (simp add: from_flatbuf_def encode_flatbuf_def field_def ok_or_def rbind_def u16_max_def)
qed

lemma de_of_event_ok:
  "event_wf e \<Longrightarrow> length (ev_sig e) = 64 \<Longrightarrow> eid_bytes (ev_id e) \<noteq> EVENT_ID_ALL_255 \<Longrightarrow>
   de_ok (de_of_event e)"
  by (simp add: de_ok_def de_of_event_def event_wf_def wf_event_id_def wf_public_key_def)

lemma into_owned_of_event [simp]:
  assumes "event_wf e"
  shows "into_owned (de_of_event e) = e"
proof -
  have "from_u16 (as_u16 (ev_kind e)) = ev_kind e"
    using assms unfolding event_wf_def canonical_def by (elim conjE) (rule sym)
  then show ?thesis by (simp add: into_owned_def de_of_event_def)
qed

lemma de_key_of_event [simp]:
  "de_key (de_of_event a) < de_key (de_of_event b) \<longleftrightarrow> event_key a < event_key b"
  "de_key (de_of_event a) = de_key (de_of_event b) \<longleftrightarrow> event_key a = event_key b"
  by (auto simp: de_key_def de_of_event_def event_key_def less_event_id_def event_id.expand
      dest: event_id.expand)

section \<open>Database filters\<close>

record hash_order =
  ho_bytes :: "u8 list list \<Rightarrow> u8 list list"
  ho_kinds :: "u16 list \<Rightarrow> u16 list"

definition hash_order_ok :: "hash_order \<Rightarrow> bool" where
  "hash_order_ok H \<longleftrightarrow>
     (\<forall>xs. distinct (ho_bytes H xs) \<and> set (ho_bytes H xs) = set xs) \<and>
     (\<forall>xs. distinct (ho_kinds H xs) \<and> set (ho_kinds H xs) = set xs)"

record database_filter =
  df_ids :: "u8 list list"
  df_authors :: "u8 list list"
  df_kinds :: "u16 list"
  df_search :: "string option"
  df_since :: "timestamp option"
  df_until :: "timestamp option"
  df_generic_tags :: generic_tags

definition df_of_filter :: "hash_order \<Rightarrow> filter \<Rightarrow> database_filter" where
  "df_of_filter H f =
     \<lparr>df_ids = (case fl_ids f of None \<Rightarrow> [] | Some is \<Rightarrow> ho_bytes H (map eid_bytes is)),
      df_authors = (case fl_authors f of None \<Rightarrow> [] | Some ks \<Rightarrow> ho_bytes H (map pk_bytes ks)),
      df_kinds = (case fl_kinds f of None \<Rightarrow> [] | Some ks \<Rightarrow> ho_kinds H (map as_u16 ks)),
      df_search = map_option (map ascii_lower) (fl_search f), df_since = fl_since f,
      df_until = fl_until f, df_generic_tags = fl_generic_tags f\<rparr>"

definition df_ids_match :: "database_filter \<Rightarrow> database_event \<Rightarrow> bool" where
  "df_ids_match f d \<longleftrightarrow> df_ids f = [] \<or> de_id d \<in> set (df_ids f)"

definition df_authors_match :: "database_filter \<Rightarrow> database_event \<Rightarrow> bool" where
  "df_authors_match f d \<longleftrightarrow> df_authors f = [] \<or> de_pubkey d \<in> set (df_authors f)"

definition df_kind_match :: "database_filter \<Rightarrow> database_event \<Rightarrow> bool" where
  "df_kind_match f d \<longleftrightarrow> df_kinds f = [] \<or> de_kind d \<in> set (df_kinds f)"

definition df_tag_match :: "database_filter \<Rightarrow> database_event \<Rightarrow> bool" where
  "df_tag_match f d \<longleftrightarrow>
     (if df_generic_tags f = [] then True
      else if de_tags d = [] then False
      else list_all (\<lambda>(tag_name, vs).
             list_ex (\<lambda>t. case db_tag_extract t of
                 Some (first, content) \<Rightarrow> tag_name = first \<and> bts_contains id content vs
               | None \<Rightarrow> False) (de_tags d)) (df_generic_tags f))"

text \<open>The query is in lower case already.\<close>

definition match_content :: "string \<Rightarrow> string \<Rightarrow> bool" where
  "match_content q content \<longleftrightarrow>
     (if q = [] then False
      else if length content < length q then False
      else if length q = 1 then list_ex (\<lambda>b. ascii_lower b = q ! 0) content
      else list_ex (\<lambda>w. eq_ignore_ascii_case w q) (windows (length q) content))"

definition is_allowed_tag_kind :: "string \<Rightarrow> bool" where
  "is_allowed_tag_kind k \<longleftrightarrow> k \<in> {''title'', ''description'', ''subject'', ''name''}"

definition df_search_match :: "database_filter \<Rightarrow> database_event \<Rightarrow> bool" where
  "df_search_match f d \<longleftrightarrow>
     (case df_search f of
        None \<Rightarrow> True
      | Some q \<Rightarrow>
          match_content q (de_content d) \<or>
          list_ex (\<lambda>t. case tag_content t of
              None \<Rightarrow> False
            | Some content \<Rightarrow> is_allowed_tag_kind (tag_kind t) \<and> match_content q content)
            (de_tags d))"

definition df_match_event :: "database_filter \<Rightarrow> database_event \<Rightarrow> bool" where
  "df_match_event f d \<longleftrightarrow>
     df_ids_match f d \<and> df_authors_match f d \<and> df_kind_match f d \<and>
     (case df_since f of None \<Rightarrow> True | Some t \<Rightarrow> t \<le> de_created_at d) \<and>
     (case df_until f of None \<Rightarrow> True | Some t \<Rightarrow> de_created_at d \<le> t) \<and>
     df_tag_match f d \<and> df_search_match f d"

section \<open>The filter of the database and the filter of the protocol\<close>

lemma ascii_lower_idem [simp]: "ascii_lower (ascii_lower c) = ascii_lower c"
proof -
  have "(of_char (char_of (of_char c + 32 :: nat) :: char) :: nat) = of_char c + 32"
    if "of_char c \<le> (90 :: nat)"
    using that by simp
  then show ?thesis by (auto simp: ascii_lower_def Let_def)
qed

lemma windows_singletons: "windows (Suc 0) s = map (\<lambda>c. [c]) s"
  by (induction s) simp_all

text \<open>The fast path decides the same as the windows do, for a query in lower case.\<close>

lemma match_content_iff:
  "match_content (map ascii_lower q) s \<longleftrightarrow>
     q \<noteq> [] \<and> (\<exists>a w b. s = a @ w @ b \<and> eq_ignore_ascii_case w q)"
proof (cases "q = []")
  case False
  let ?q = "map ascii_lower q"
  have ic: "eq_ignore_ascii_case w ?q \<longleftrightarrow> eq_ignore_ascii_case w q" for w
    by (simp add: eq_ignore_ascii_case_def comp_def)
  have len: "length w = length q" if "eq_ignore_ascii_case w q" for w
    using that by (auto simp: eq_ignore_ascii_case_def dest: map_eq_imp_length_eq)
  have win: "list_ex (\<lambda>w. eq_ignore_ascii_case w ?q) (windows (length q) s) \<longleftrightarrow>
      (\<exists>a w b. s = a @ w @ b \<and> eq_ignore_ascii_case w q)"
    using False len by (auto simp: list_ex_iff windows_iff Bex_def ic)
  have one: "list_ex (\<lambda>b. ascii_lower b = ?q ! 0) s \<longleftrightarrow>
      list_ex (\<lambda>w. eq_ignore_ascii_case w ?q) (windows (length q) s)" if q: "length q = 1"
  proof -
    obtain c where "q = [c]" using q by (cases q) auto
    then show ?thesis
      by (simp add: windows_singletons list_ex_iff eq_ignore_ascii_case_def)
  qed
  show ?thesis
  proof (cases "length s < length q")
    case True
    then have "\<not> (\<exists>a w b. s = a @ w @ b \<and> eq_ignore_ascii_case w q)" using len by fastforce
    then show ?thesis using True by (simp add: match_content_def)
  next
    case l: False
    then show ?thesis
      using False win one by (cases "length q = 1") (simp_all add: match_content_def)
  qed
qed (simp add: match_content_def)

lemma db_tag_extract_iff:
  "db_tag_extract t = Some (n, v) \<longleftrightarrow> tag_single_letter t = Some n \<and> tag_content t = Some v"
  by (auto simp: db_tag_extract_def tag_single_letter_def tag_content_def tag_kind_def ok_of_def
      split: sum.splits)

lemma df_tag_match_iff:
  "df_tag_match f d \<longleftrightarrow>
     (\<forall>(name, vs) \<in> set (df_generic_tags f). \<exists>t \<in> set (de_tags d). \<exists>v \<in> set vs.
        db_tag_extract t = Some (name, v))"
proof -
  have one: "(case r of Some (first, content) \<Rightarrow> name = first \<and> bts_contains id content vs | None \<Rightarrow> False) \<longleftrightarrow>
      (\<exists>v \<in> set vs. r = Some (name, v))" for r :: "(single_letter_tag \<times> string) option" and name vs
    by (cases r) auto
  show ?thesis
  proof (cases "df_generic_tags f")
    case (Cons p ps)
    show ?thesis
      by (cases p; cases "de_tags d = []")
        (auto simp: df_tag_match_def list_all_iff list_ex_iff one Cons)
  qed (simp add: df_tag_match_def)
qed

text \<open>What the search of the store finds that the filter of the protocol does not.\<close>

definition search_in_tags :: "filter \<Rightarrow> event \<Rightarrow> bool" where
  "search_in_tags f e \<longleftrightarrow>
     (\<exists>q. fl_search f = Some q \<and> q \<noteq> [] \<and>
        (\<exists>t \<in> set (ev_tags e). \<exists>c a w b. tag_content t = Some c \<and> is_allowed_tag_kind (tag_kind t) \<and>
           c = a @ w @ b \<and> eq_ignore_ascii_case w q))"

lemma df_search_match_iff:
  "df_search_match (df_of_filter H f) (de_of_event e) \<longleftrightarrow>
     fl_search f \<noteq> Some [] \<and> (search_match f e \<or> search_in_tags f e)"
proof (cases "fl_search f")
  case (Some q)
  let ?P = "\<lambda>c. \<exists>a w b. c = a @ w @ b \<and> eq_ignore_ascii_case w q"
  have one: "(case tag_content t of None \<Rightarrow> False
        | Some c \<Rightarrow> is_allowed_tag_kind (tag_kind t) \<and> q \<noteq> [] \<and> ?P c) \<longleftrightarrow>
      q \<noteq> [] \<and> (\<exists>c. tag_content t = Some c \<and> is_allowed_tag_kind (tag_kind t) \<and> ?P c)" for t
    by (cases "tag_content t") auto
  have "df_search_match (df_of_filter H f) (de_of_event e) \<longleftrightarrow>
      q \<noteq> [] \<and> ?P (ev_content e) \<or>
      (\<exists>t \<in> set (ev_tags e). case tag_content t of None \<Rightarrow> False
        | Some c \<Rightarrow> is_allowed_tag_kind (tag_kind t) \<and> q \<noteq> [] \<and> ?P c)"
    using Some
    by (simp add: df_search_match_def df_of_filter_def de_of_event_def match_content_iff list_ex_iff
        cong: option.case_cong)
  also have "\<dots> \<longleftrightarrow> q \<noteq> [] \<and> (?P (ev_content e) \<or> search_in_tags f e)"
    unfolding one using Some by (simp add: search_in_tags_def) blast
  finally show ?thesis using Some by (simp add: search_match_iff)
qed (simp add: df_search_match_def df_of_filter_def search_match_def)

lemma eid_bytes_mem: "eid_bytes i \<in> eid_bytes ` set xs \<longleftrightarrow> i \<in> set xs"
  by (auto simp: image_iff dest: event_id.expand)

lemma pk_bytes_mem: "pk_bytes k \<in> pk_bytes ` set xs \<longleftrightarrow> k \<in> set xs"
  by (auto simp: image_iff dest: public_key.expand)

lemma df_of_filter_simps:
  "df_since (df_of_filter H f) = fl_since f" "df_until (df_of_filter H f) = fl_until f"
  "df_generic_tags (df_of_filter H f) = fl_generic_tags f"
  by (simp_all add: df_of_filter_def)

lemma de_of_event_simps:
  "de_id (de_of_event e) = eid_bytes (ev_id e)" "de_pubkey (de_of_event e) = pk_bytes (ev_pubkey e)"
  "de_created_at (de_of_event e) = ev_created_at e" "de_kind (de_of_event e) = as_u16 (ev_kind e)"
  "de_tags (de_of_event e) = ev_tags e" "de_content (de_of_event e) = ev_content e"
  "de_sig (de_of_event e) = ev_sig e"
  by (simp_all add: de_of_event_def)

lemma df_match_event_iff:
  assumes "hash_order_ok H"
  shows "df_match_event (df_of_filter H f) (de_of_event e) \<longleftrightarrow>
    match_event f e (match_all\<lparr>mo_nip50 := False\<rparr>) \<and>
    fl_search f \<noteq> Some [] \<and> (search_match f e \<or> search_in_tags f e)"
proof -
  have sets: "set (ho_bytes H xs) = set xs" "set (ho_kinds H ks) = set ks" for xs ks
    using assms by (simp_all add: hash_order_ok_def)
  have empty: "ho_bytes H xs = [] \<longleftrightarrow> xs = []" "ho_kinds H ks = [] \<longleftrightarrow> ks = []" for xs ks
    using sets by (metis set_empty)+
  have kinds: "as_u16 k \<in> as_u16 ` set ks \<longleftrightarrow> bts_contains as_u16 k ks" for k ks
    unfolding bts_contains_def image_iff by (auto simp: eq_commute)
  have "df_ids_match (df_of_filter H f) (de_of_event e) = ids_match f e"
    by (auto simp: df_ids_match_def df_of_filter_def de_of_event_def ids_match_def sets empty
        eid_bytes_mem split: option.split)
  moreover have "df_authors_match (df_of_filter H f) (de_of_event e) = authors_match f e"
    by (auto simp: df_authors_match_def df_of_filter_def de_of_event_def authors_match_def sets
        empty pk_bytes_mem split: option.split)
  moreover have "df_kind_match (df_of_filter H f) (de_of_event e) = kind_match f e"
    by (auto simp: df_kind_match_def df_of_filter_def de_of_event_def kind_match_def sets empty
        kinds split: option.split)
  moreover have "df_tag_match (df_of_filter H f) (de_of_event e) = tag_match f e"
    unfolding df_tag_match_iff tag_match_iff db_tag_extract_iff
    by (simp add: df_of_filter_def de_of_event_def)
  ultimately show ?thesis
    using df_search_match_iff [of H f e]
    unfolding df_match_event_def match_event_def match_all_def df_of_filter_simps de_of_event_simps
    by simp
qed

end
