(* ===== verification/Lmdb_Store.thy ===== *)
theory Lmdb_Store
  imports Lmdb_Events
begin

text \<open>
  The operations of the LMDB event store inside a transaction
  (database/nostr-lmdb/src/store/lmdb/mod.rs): storing, indexing and removing events, saving with
  replacement, NIP-09 deletions and NIP-62 vanish requests, queries by nine access patterns,
  counting, deleting, wiping, reindexing and the migrations.

  LMDB is an external engine. A table of it is a value of an abstract type with the operations
  of \<open>kv_ops\<close>, any of which may fail; \<open>kv_ok\<close> states what is documented of them: keys are compared
  as byte strings and have 1 to 511 bytes, a range is sorted, reads of a valid key succeed. A
  transaction is the record of all tables; a write that fails leaves its table as it was.
\<close>

section \<open>Tables and transactions\<close>

record ('t, 'v) kv_ops =
  kv_get :: "'t \<Rightarrow> u8 list \<Rightarrow> store_error + 'v option"
  kv_put :: "'t \<Rightarrow> u8 list \<Rightarrow> 'v \<Rightarrow> store_error + 't"
  kv_delete :: "'t \<Rightarrow> u8 list \<Rightarrow> store_error + 't"
  kv_clear :: "'t \<Rightarrow> store_error + 't"
  kv_range :: "'t \<Rightarrow> u8 list \<Rightarrow> u8 list \<Rightarrow> store_error + (store_error + u8 list \<times> 'v) list"
  kv_iter :: "'t \<Rightarrow> store_error + (store_error + u8 list \<times> 'v) list"
  kv_len :: "'t \<Rightarrow> store_error + nat"

definition key_valid :: "u8 list \<Rightarrow> bool" where
  "key_valid k \<longleftrightarrow> k \<noteq> [] \<and> length k \<le> 511"

text \<open>The rows of a table between two keys, in the order of the keys.\<close>

definition rows_of :: "(u8 list \<rightharpoonup> 'v) \<Rightarrow> (u8 list \<Rightarrow> bool) \<Rightarrow> (u8 list \<times> 'v) list \<Rightarrow> bool" where
  "rows_of m P xs \<longleftrightarrow> bts_ok fst xs \<and> set xs = {(k, v). m k = Some v \<and> P k}"

definition kv_ok :: "('t, 'v) kv_ops \<Rightarrow> ('t \<Rightarrow> u8 list \<rightharpoonup> 'v) \<Rightarrow> bool" where
  "kv_ok K m \<longleftrightarrow>
     (\<forall>t. finite (dom (m t))) \<and>
     (\<forall>t k. key_valid k \<longrightarrow> kv_get K t k = Inr (m t k)) \<and>
     (\<forall>t k v t'. kv_put K t k v = Inr t' \<longrightarrow> m t' = (m t)(k \<mapsto> v)) \<and>
     (\<forall>t k t'. kv_delete K t k = Inr t' \<longrightarrow> m t' = (m t)(k := None)) \<and>
     (\<forall>t t'. kv_clear K t = Inr t' \<longrightarrow> m t' = Map.empty) \<and>
     (\<forall>t lo hi. \<exists>xs. kv_range K t lo hi = Inr (map Inr xs) \<and>
        rows_of (m t) (\<lambda>k. lo \<le> k \<and> k < hi) xs) \<and>
     (\<forall>t. \<exists>xs. kv_iter K t = Inr (map Inr xs) \<and> rows_of (m t) (\<lambda>_. True) xs) \<and>
     (\<forall>t. kv_len K t = Inr (card (dom (m t))))"

record lmdb_options =
  lo_process_nip62 :: bool
  lo_process_nip09 :: bool
  lo_relay_url :: "relay_url option"

record ('b, 'u, 'n) lmdb_env =
  le_bytes :: "('b, u8 list) kv_ops"
  le_unit :: "('u, unit) kv_ops"
  le_u64 :: "('n, nat) kv_ops"
  le_fb :: flatbuffers
  le_hash :: hash_order
  le_ext :: externals
  le_options :: lmdb_options

record ('b, 'u, 'n) lmdb =
  lm_events :: 'b
  lm_ci :: 'b
  lm_tc :: 'b
  lm_ac :: 'b
  lm_akc :: 'b
  lm_atc :: 'b
  lm_kc :: 'b
  lm_ktc :: 'b
  lm_deleted_ids :: 'u
  lm_deleted_ids_by_author :: 'u
  lm_deleted_coordinates :: 'n
  lm_vanished_public_keys :: 'u
  lm_metadata :: 'n

text \<open>What runs in a transaction: it may fail, and then leaves what it has changed so far.\<close>

type_synonym ('s, 'a) tx = "'s \<Rightarrow> (store_error + 'a) \<times> 's"

definition tx_return :: "'a \<Rightarrow> ('s, 'a) tx" where
  "tx_return a s = (Inr a, s)"

definition tx_bind :: "('s, 'a) tx \<Rightarrow> ('a \<Rightarrow> ('s, 'b) tx) \<Rightarrow> ('s, 'b) tx" where
  "tx_bind m f s = (case m s of (Inl e, s) \<Rightarrow> (Inl e, s) | (Inr a, s) \<Rightarrow> f a s)"

definition tx_then :: "('s, unit) tx \<Rightarrow> ('s, 'b) tx \<Rightarrow> ('s, 'b) tx" where
  "tx_then m k = tx_bind m (\<lambda>_. k)"

definition tx_read :: "('s \<Rightarrow> store_error + 'a) \<Rightarrow> ('s, 'a) tx" where
  "tx_read r s = (r s, s)"

fun tx_for :: "('a \<Rightarrow> ('s, unit) tx) \<Rightarrow> 'a list \<Rightarrow> ('s, unit) tx" where
  "tx_for f [] = tx_return ()"
| "tx_for f (x # xs) = tx_then (f x) (tx_for f xs)"

definition tx_write ::
  "('s \<Rightarrow> 't) \<Rightarrow> (('t \<Rightarrow> 't) \<Rightarrow> 's \<Rightarrow> 's) \<Rightarrow> ('t \<Rightarrow> store_error + 't) \<Rightarrow> ('s, unit) tx" where
  "tx_write get upd w s =
     (case w (get s) of Inl e \<Rightarrow> (Inl e, s) | Inr t \<Rightarrow> (Inr (), upd (\<lambda>_. t) s))"

text \<open>A loop that reads and may fail.\<close>

fun for_res :: "('a \<Rightarrow> 's \<Rightarrow> 'e + 's) \<Rightarrow> 'a list \<Rightarrow> 's \<Rightarrow> 'e + 's" where
  "for_res f [] s = Inr s"
| "for_res f (x # xs) s = rbind (f x s) (for_res f xs)"

text \<open>\<open>filter_map(|res| res.ok())\<close>: rows that cannot be read are left out.\<close>

definition ok_values :: "(store_error + u8 list \<times> 'v) list \<Rightarrow> 'v list" where
  "ok_values rows = List.map_filter (\<lambda>r. case r of Inl _ \<Rightarrow> None | Inr (k, v) \<Rightarrow> Some v) rows"

section \<open>The entries of an event\<close>

record tag_index_key_set =
  ti_atc :: "u8 list"
  ti_ktc :: "u8 list"
  ti_tc :: "u8 list"

record event_index_keys =
  ei_id :: "u8 list"
  ei_ci :: "u8 list"
  ei_akc :: "u8 list"
  ei_ac :: "u8 list"
  ei_kc :: "u8 list"
  ei_tags :: "tag_index_key_set list"

definition event_index_keys_new :: "database_event \<Rightarrow> event_index_keys" where
  "event_index_keys_new d =
     \<lparr>ei_id = de_id d,
      ei_ci = make_ci_index_key (de_created_at d) (de_id d),
      ei_akc = make_akc_index_key (de_pubkey d) (de_kind d) (de_created_at d) (de_id d),
      ei_ac = make_ac_index_key (de_pubkey d) (de_created_at d) (de_id d),
      ei_kc = make_kc_index_key (de_kind d) (de_created_at d) (de_id d),
      ei_tags = map (\<lambda>(name, v).
          \<lparr>ti_atc = make_atc_index_key (de_pubkey d) name v (de_created_at d) (de_id d),
           ti_ktc = make_ktc_index_key (de_kind d) name v (de_created_at d) (de_id d),
           ti_tc = make_tc_index_key name v (de_created_at d) (de_id d)\<rparr>)
        (List.map_filter db_tag_extract (de_tags d))\<rparr>"

abbreviation put_into ::
  "('b, 'u, 'n) lmdb_env \<Rightarrow> (('b, 'u, 'n) lmdb \<Rightarrow> 'b) \<Rightarrow>
   (('b \<Rightarrow> 'b) \<Rightarrow> ('b, 'u, 'n) lmdb \<Rightarrow> ('b, 'u, 'n) lmdb) \<Rightarrow> u8 list \<Rightarrow> u8 list \<Rightarrow>
   (('b, 'u, 'n) lmdb, unit) tx" where
  "put_into D get upd k v \<equiv> tx_write get upd (\<lambda>t. kv_put (le_bytes D) t k v)"

abbreviation delete_from ::
  "('b, 'u, 'n) lmdb_env \<Rightarrow> (('b, 'u, 'n) lmdb \<Rightarrow> 'b) \<Rightarrow>
   (('b \<Rightarrow> 'b) \<Rightarrow> ('b, 'u, 'n) lmdb \<Rightarrow> ('b, 'u, 'n) lmdb) \<Rightarrow> u8 list \<Rightarrow>
   (('b, 'u, 'n) lmdb, unit) tx" where
  "delete_from D get upd k \<equiv> tx_write get upd (\<lambda>t. kv_delete (le_bytes D) t k)"

definition index_tag ::
  "('b, 'u, 'n) lmdb_env \<Rightarrow> u8 list \<Rightarrow> tag_index_key_set \<Rightarrow> (('b, 'u, 'n) lmdb, unit) tx" where
  "index_tag D i t =
     tx_then (put_into D lm_atc lm_atc_update (ti_atc t) i)
    (tx_then (put_into D lm_ktc lm_ktc_update (ti_ktc t) i)
             (put_into D lm_tc lm_tc_update (ti_tc t) i))"

definition lmdb_index_event ::
  "('b, 'u, 'n) lmdb_env \<Rightarrow> event_index_keys \<Rightarrow> (('b, 'u, 'n) lmdb, unit) tx" where
  "lmdb_index_event D x =
     tx_then (put_into D lm_ci lm_ci_update (ei_ci x) (ei_id x))
    (tx_then (put_into D lm_akc lm_akc_update (ei_akc x) (ei_id x))
    (tx_then (put_into D lm_ac lm_ac_update (ei_ac x) (ei_id x))
    (tx_then (put_into D lm_kc lm_kc_update (ei_kc x) (ei_id x))
             (tx_for (index_tag D (ei_id x)) (ei_tags x)))))"

definition lmdb_store ::
  "('b, 'u, 'n) lmdb_env \<Rightarrow> database_event \<Rightarrow> (('b, 'u, 'n) lmdb, unit) tx" where
  "lmdb_store D d =
     tx_then (put_into D lm_events lm_events_update (de_id d) (encode_flatbuf (le_fb D) d))
             (lmdb_index_event D (event_index_keys_new d))"

definition remove_tag ::
  "('b, 'u, 'n) lmdb_env \<Rightarrow> tag_index_key_set \<Rightarrow> (('b, 'u, 'n) lmdb, unit) tx" where
  "remove_tag D t =
     tx_then (delete_from D lm_atc lm_atc_update (ti_atc t))
    (tx_then (delete_from D lm_ktc lm_ktc_update (ti_ktc t))
             (delete_from D lm_tc lm_tc_update (ti_tc t)))"

definition lmdb_remove ::
  "('b, 'u, 'n) lmdb_env \<Rightarrow> event_index_keys \<Rightarrow> (('b, 'u, 'n) lmdb, unit) tx" where
  "lmdb_remove D x =
     tx_then (delete_from D lm_events lm_events_update (ei_id x))
    (tx_then (delete_from D lm_ci lm_ci_update (ei_ci x))
    (tx_then (delete_from D lm_akc lm_akc_update (ei_akc x))
    (tx_then (delete_from D lm_ac lm_ac_update (ei_ac x))
    (tx_then (delete_from D lm_kc lm_kc_update (ei_kc x))
             (tx_for (remove_tag D) (ei_tags x))))))"

section \<open>Lookups\<close>

definition get_event_by_id ::
  "('b, 'u, 'n) lmdb_env \<Rightarrow> u8 list \<Rightarrow> ('b, 'u, 'n) lmdb \<Rightarrow> store_error + database_event option" where
  "get_event_by_id D i db =
     rbind (kv_get (le_bytes D) (lm_events db) i) (\<lambda>bytes.
       case bytes of
         None \<Rightarrow> Inr None
       | Some bytes \<Rightarrow> rbind (from_flatbuf (le_fb D) bytes) (\<lambda>d. Inr (Some d)))"

definition lmdb_has_event ::
  "('b, 'u, 'n) lmdb_env \<Rightarrow> event_id \<Rightarrow> ('b, 'u, 'n) lmdb \<Rightarrow> store_error + bool" where
  "lmdb_has_event D i db = rbind (get_event_by_id D (eid_bytes i) db) (\<lambda>d. Inr (d \<noteq> None))"

definition is_deleted ::
  "('b, 'u, 'n) lmdb_env \<Rightarrow> event_id \<Rightarrow> ('b, 'u, 'n) lmdb \<Rightarrow> store_error + bool" where
  "is_deleted D i db =
     rbind (kv_get (le_unit D) (lm_deleted_ids db) (eid_bytes i)) (\<lambda>v. Inr (v \<noteq> None))"

definition mark_deleted ::
  "('b, 'u, 'n) lmdb_env \<Rightarrow> event_id \<Rightarrow> (('b, 'u, 'n) lmdb, unit) tx" where
  "mark_deleted D i =
     tx_write lm_deleted_ids lm_deleted_ids_update (\<lambda>t. kv_put (le_unit D) t (eid_bytes i) ())"

definition is_deleted_by_author ::
  "('b, 'u, 'n) lmdb_env \<Rightarrow> event_id \<Rightarrow> public_key \<Rightarrow> ('b, 'u, 'n) lmdb \<Rightarrow> store_error + bool" where
  "is_deleted_by_author D i author db =
     rbind (kv_get (le_unit D) (lm_deleted_ids_by_author db) (make_author_deletion_key i author))
       (\<lambda>v. Inr (v \<noteq> None))"

definition mark_deleted_by_author ::
  "('b, 'u, 'n) lmdb_env \<Rightarrow> event_id \<Rightarrow> public_key \<Rightarrow> (('b, 'u, 'n) lmdb, unit) tx" where
  "mark_deleted_by_author D i author =
     tx_write lm_deleted_ids_by_author lm_deleted_ids_by_author_update
       (\<lambda>t. kv_put (le_unit D) t (make_author_deletion_key i author) ())"

definition mark_coordinate_deleted ::
  "('b, 'u, 'n) lmdb_env \<Rightarrow> coordinate \<Rightarrow> timestamp \<Rightarrow> (('b, 'u, 'n) lmdb, unit) tx" where
  "mark_coordinate_deleted D c at =
     tx_write lm_deleted_coordinates lm_deleted_coordinates_update
       (\<lambda>t. kv_put (le_u64 D) t (make_coordinate_index_key c) at)"

definition when_is_coordinate_deleted ::
  "('b, 'u, 'n) lmdb_env \<Rightarrow> coordinate \<Rightarrow> ('b, 'u, 'n) lmdb \<Rightarrow> store_error + timestamp option" where
  "when_is_coordinate_deleted D c db =
     kv_get (le_u64 D) (lm_deleted_coordinates db) (make_coordinate_index_key c)"

definition mark_pubkey_vanished ::
  "('b, 'u, 'n) lmdb_env \<Rightarrow> public_key \<Rightarrow> (('b, 'u, 'n) lmdb, unit) tx" where
  "mark_pubkey_vanished D pk =
     tx_write lm_vanished_public_keys lm_vanished_public_keys_update
       (\<lambda>t. kv_put (le_unit D) t (pk_bytes pk) ())"

definition lmdb_is_pubkey_vanished ::
  "('b, 'u, 'n) lmdb_env \<Rightarrow> public_key \<Rightarrow> ('b, 'u, 'n) lmdb \<Rightarrow> store_error + bool" where
  "lmdb_is_pubkey_vanished D pk db =
     rbind (kv_get (le_unit D) (lm_vanished_public_keys db) (pk_bytes pk)) (\<lambda>v. Inr (v \<noteq> None))"

section \<open>Ranges of the indexes\<close>

type_synonym rows = "store_error + (store_error + u8 list \<times> u8 list) list"

definition ci_iter ::
  "('b, 'u, 'n) lmdb_env \<Rightarrow> timestamp \<Rightarrow> timestamp \<Rightarrow> ('b, 'u, 'n) lmdb \<Rightarrow> rows" where
  "ci_iter D since until db =
     kv_range (le_bytes D) (lm_ci db)
       (make_ci_index_key until EVENT_ID_ALL_ZEROS) (make_ci_index_key since EVENT_ID_ALL_255)"

definition tc_iter ::
  "('b, 'u, 'n) lmdb_env \<Rightarrow> single_letter_tag \<Rightarrow> string \<Rightarrow> timestamp \<Rightarrow> timestamp \<Rightarrow>
   ('b, 'u, 'n) lmdb \<Rightarrow> rows" where
  "tc_iter D name v since until db =
     kv_range (le_bytes D) (lm_tc db)
       (make_tc_index_key name v until EVENT_ID_ALL_ZEROS)
       (make_tc_index_key name v since EVENT_ID_ALL_255)"

definition ac_iter ::
  "('b, 'u, 'n) lmdb_env \<Rightarrow> u8 list \<Rightarrow> timestamp \<Rightarrow> timestamp \<Rightarrow> ('b, 'u, 'n) lmdb \<Rightarrow> rows" where
  "ac_iter D author since until db =
     kv_range (le_bytes D) (lm_ac db)
       (make_ac_index_key author until EVENT_ID_ALL_ZEROS)
       (make_ac_index_key author since EVENT_ID_ALL_255)"

definition akc_iter ::
  "('b, 'u, 'n) lmdb_env \<Rightarrow> u8 list \<Rightarrow> u16 \<Rightarrow> timestamp \<Rightarrow> timestamp \<Rightarrow> ('b, 'u, 'n) lmdb \<Rightarrow> rows" where
  "akc_iter D author kind since until db =
     kv_range (le_bytes D) (lm_akc db)
       (make_akc_index_key author kind until EVENT_ID_ALL_ZEROS)
       (make_akc_index_key author kind since EVENT_ID_ALL_255)"

definition kc_iter ::
  "('b, 'u, 'n) lmdb_env \<Rightarrow> u16 \<Rightarrow> timestamp \<Rightarrow> timestamp \<Rightarrow> ('b, 'u, 'n) lmdb \<Rightarrow> rows" where
  "kc_iter D kind since until db =
     kv_range (le_bytes D) (lm_kc db)
       (make_kc_index_key kind until EVENT_ID_ALL_ZEROS)
       (make_kc_index_key kind since EVENT_ID_ALL_255)"

definition atc_iter ::
  "('b, 'u, 'n) lmdb_env \<Rightarrow> u8 list \<Rightarrow> single_letter_tag \<Rightarrow> string \<Rightarrow> timestamp \<Rightarrow> timestamp \<Rightarrow>
   ('b, 'u, 'n) lmdb \<Rightarrow> rows" where
  "atc_iter D author name v since until db =
     kv_range (le_bytes D) (lm_atc db)
       (make_atc_index_key author name v until EVENT_ID_ALL_ZEROS)
       (make_atc_index_key author name v since EVENT_ID_ALL_255)"

definition ktc_iter ::
  "('b, 'u, 'n) lmdb_env \<Rightarrow> u16 \<Rightarrow> single_letter_tag \<Rightarrow> string \<Rightarrow> timestamp \<Rightarrow> timestamp \<Rightarrow>
   ('b, 'u, 'n) lmdb \<Rightarrow> rows" where
  "ktc_iter D kind name v since until db =
     kv_range (le_bytes D) (lm_ktc db)
       (make_ktc_index_key kind name v until EVENT_ID_ALL_ZEROS)
       (make_ktc_index_key kind name v since EVENT_ID_ALL_255)"

section \<open>Queries\<close>

datatype query_filter_pattern =
  PatIds | PatAuthorsAndKinds | PatAuthorsAndTags | PatAuthorKindsAndTags | PatKindsAndTags
| PatTags | PatAuthors | PatKinds | PatScraping

definition pattern_from_filter :: "database_filter \<Rightarrow> query_filter_pattern" where
  "pattern_from_filter f =
     (if df_ids f \<noteq> [] then PatIds
      else if df_authors f \<noteq> [] \<and> df_kinds f \<noteq> [] \<and> df_generic_tags f \<noteq> [] then PatAuthorKindsAndTags
      else if df_authors f \<noteq> [] \<and> df_kinds f \<noteq> [] then PatAuthorsAndKinds
      else if df_authors f \<noteq> [] \<and> df_generic_tags f \<noteq> [] then PatAuthorsAndTags
      else if df_kinds f \<noteq> [] \<and> df_generic_tags f \<noteq> [] then PatKindsAndTags
      else if df_generic_tags f \<noteq> [] then PatTags
      else if df_authors f \<noteq> [] then PatAuthors
      else if df_kinds f \<noteq> [] then PatKinds
      else PatScraping)"

text \<open>
  The state of a query is the lower bound of the time, which moves forward when a limit is
  reached, and the sorted set of the results.
\<close>

type_synonym query_state = "timestamp \<times> database_event list"

definition limit_reached :: "nat option \<Rightarrow> nat \<Rightarrow> bool" where
  "limit_reached limit n \<longleftrightarrow> (case limit of None \<Rightarrow> False | Some l \<Rightarrow> l \<le> n)"

definition move_since :: "timestamp \<Rightarrow> timestamp \<Rightarrow> timestamp" where
  "move_since since created_at = (if since < created_at then created_at else since)"

fun iterate_filter_until_limit ::
  "('b, 'u, 'n) lmdb_env \<Rightarrow> ('b, 'u, 'n) lmdb \<Rightarrow> database_filter \<Rightarrow> nat option \<Rightarrow> nat \<Rightarrow>
   u8 list list \<Rightarrow> query_state \<Rightarrow> store_error + query_state" where
  "iterate_filter_until_limit D db f limit cnt [] (since, out) = Inr (since, out)"
| "iterate_filter_until_limit D db f limit cnt (i # is) (since, out) =
     rbind (get_event_by_id D i db) (\<lambda>d. rbind (ok_or d ErrNotFound) (\<lambda>d.
       if de_created_at d < since then Inr (since, out)
       else if df_match_event f d then
         (let out = bts_insert de_key d out; cnt = cnt + 1
          in if limit_reached limit cnt then Inr (move_since since (de_created_at d), out)
             else iterate_filter_until_limit D db f limit cnt is (since, out))
       else iterate_filter_until_limit D db f limit cnt is (since, out)))"

fun query_by_ids ::
  "('b, 'u, 'n) lmdb_env \<Rightarrow> ('b, 'u, 'n) lmdb \<Rightarrow> database_filter \<Rightarrow> nat option \<Rightarrow>
   u8 list list \<Rightarrow> database_event list \<Rightarrow> store_error + database_event list" where
  "query_by_ids D db f limit [] out = Inr out"
| "query_by_ids D db f limit (i # is) out =
     (if limit_reached limit (length out) then Inr out
      else rbind (get_event_by_id D i db) (\<lambda>d.
        query_by_ids D db f limit is
          (case d of None \<Rightarrow> out
           | Some d \<Rightarrow> if df_match_event f d then bts_insert de_key d out else out)))"

text \<open>The loop \<open>'per_event\<close>: a replaceable kind has no more than one event of an author.\<close>

fun per_event ::
  "('b, 'u, 'n) lmdb_env \<Rightarrow> ('b, 'u, 'n) lmdb \<Rightarrow> database_filter \<Rightarrow> nat option \<Rightarrow> u16 \<Rightarrow> nat \<Rightarrow>
   (store_error + u8 list \<times> u8 list) list \<Rightarrow> query_state \<Rightarrow> store_error + query_state" where
  "per_event D db f limit kind paircount [] (since, out) = Inr (since, out)"
| "per_event D db f limit kind paircount (row # rows) (since, out) =
     rbind row (\<lambda>(k, i). rbind (get_event_by_id D i db) (\<lambda>d. rbind (ok_or d ErrNotFound) (\<lambda>d.
       if de_created_at d < since then Inr (since, out)
       else if df_match_event f d then
         (let out = bts_insert de_key d out; paircount = paircount + 1
          in if limit_reached limit paircount then Inr (move_since since (de_created_at d), out)
             else if is_replaceable (from_u16 kind) then Inr (since, out)
             else per_event D db f limit kind paircount rows (since, out))
       else per_event D db f limit kind paircount rows (since, out))))"

definition query_by_authors_and_kinds ::
  "('b, 'u, 'n) lmdb_env \<Rightarrow> ('b, 'u, 'n) lmdb \<Rightarrow> database_filter \<Rightarrow> timestamp \<Rightarrow> nat option \<Rightarrow>
   query_state \<Rightarrow> store_error + query_state" where
  "query_by_authors_and_kinds D db f until limit =
     for_res (\<lambda>author. for_res (\<lambda>kind s.
         rbind (akc_iter D author kind (fst s) until db) (\<lambda>rows.
           per_event D db f limit kind 0 rows s)) (df_kinds f)) (df_authors f)"

text \<open>The loop over the tags of a filter and their values.\<close>

definition for_tags ::
  "database_filter \<Rightarrow> (single_letter_tag \<Rightarrow> string \<Rightarrow> query_state \<Rightarrow> store_error + query_state) \<Rightarrow>
   query_state \<Rightarrow> store_error + query_state" where
  "for_tags f body = for_res (\<lambda>(name, vs). for_res (body name) vs) (df_generic_tags f)"

definition query_by_authors_and_tags ::
  "('b, 'u, 'n) lmdb_env \<Rightarrow> ('b, 'u, 'n) lmdb \<Rightarrow> database_filter \<Rightarrow> timestamp \<Rightarrow> nat option \<Rightarrow>
   query_state \<Rightarrow> store_error + query_state" where
  "query_by_authors_and_tags D db f until limit =
     for_res (\<lambda>author. for_tags f (\<lambda>name v s.
         rbind (atc_iter D author name v (fst s) until db) (\<lambda>rows.
           iterate_filter_until_limit D db f limit 0 (ok_values rows) s))) (df_authors f)"

definition query_by_authors_kinds_and_tags ::
  "('b, 'u, 'n) lmdb_env \<Rightarrow> ('b, 'u, 'n) lmdb \<Rightarrow> database_filter \<Rightarrow> timestamp \<Rightarrow> nat option \<Rightarrow>
   query_state \<Rightarrow> store_error + query_state" where
  "query_by_authors_kinds_and_tags D db f until limit =
     for_res (\<lambda>author. for_res (\<lambda>kind s.
         rbind (akc_iter D author kind (fst s) until db) (\<lambda>rows.
           (let akc_set = bts_extend id [] (ok_values rows)
            in for_tags f (\<lambda>name v s.
                 rbind (atc_iter D author name v (fst s) until db) (\<lambda>rows.
                   (let atc_set = bts_extend id [] (ok_values rows)
                    in iterate_filter_until_limit D db f limit 0
                         [i \<leftarrow> atc_set. bts_contains id i akc_set] s))) s))) (df_kinds f))
       (df_authors f)"

definition query_by_kinds_and_tags ::
  "('b, 'u, 'n) lmdb_env \<Rightarrow> ('b, 'u, 'n) lmdb \<Rightarrow> database_filter \<Rightarrow> timestamp \<Rightarrow> nat option \<Rightarrow>
   query_state \<Rightarrow> store_error + query_state" where
  "query_by_kinds_and_tags D db f until limit =
     for_res (\<lambda>kind. for_tags f (\<lambda>name v s.
         rbind (ktc_iter D kind name v (fst s) until db) (\<lambda>rows.
           iterate_filter_until_limit D db f limit 0 (ok_values rows) s))) (df_kinds f)"

definition query_by_tags ::
  "('b, 'u, 'n) lmdb_env \<Rightarrow> ('b, 'u, 'n) lmdb \<Rightarrow> database_filter \<Rightarrow> timestamp \<Rightarrow> nat option \<Rightarrow>
   query_state \<Rightarrow> store_error + query_state" where
  "query_by_tags D db f until limit =
     for_tags f (\<lambda>name v s.
       rbind (tc_iter D name v (fst s) until db) (\<lambda>rows.
         iterate_filter_until_limit D db f limit 0 (ok_values rows) s))"

definition query_by_authors ::
  "('b, 'u, 'n) lmdb_env \<Rightarrow> ('b, 'u, 'n) lmdb \<Rightarrow> database_filter \<Rightarrow> timestamp \<Rightarrow> nat option \<Rightarrow>
   query_state \<Rightarrow> store_error + query_state" where
  "query_by_authors D db f until limit =
     for_res (\<lambda>author s.
       rbind (ac_iter D author (fst s) until db) (\<lambda>rows.
         iterate_filter_until_limit D db f limit 0 (ok_values rows) s)) (df_authors f)"

definition query_by_kinds ::
  "('b, 'u, 'n) lmdb_env \<Rightarrow> ('b, 'u, 'n) lmdb \<Rightarrow> database_filter \<Rightarrow> timestamp \<Rightarrow> nat option \<Rightarrow>
   query_state \<Rightarrow> store_error + query_state" where
  "query_by_kinds D db f until limit =
     for_res (\<lambda>kind s.
       rbind (kc_iter D kind (fst s) until db) (\<lambda>rows.
         iterate_filter_until_limit D db f limit 0 (ok_values rows) s)) (df_kinds f)"

definition query_by_scraping ::
  "('b, 'u, 'n) lmdb_env \<Rightarrow> ('b, 'u, 'n) lmdb \<Rightarrow> database_filter \<Rightarrow> timestamp \<Rightarrow> timestamp \<Rightarrow>
   nat option \<Rightarrow> store_error + database_event list" where
  "query_by_scraping D db f since until limit =
     rbind (ci_iter D since until db) (\<lambda>rows.
       Inr (take (case limit of None \<Rightarrow> usize_max | Some l \<Rightarrow> l)
         (List.map_filter (\<lambda>i.
            case get_event_by_id D i db of
              Inr (Some d) \<Rightarrow> if df_match_event f d then Some d else None
            | _ \<Rightarrow> None) (ok_values rows))))"

definition since_of :: "filter \<Rightarrow> timestamp" where
  "since_of f = (case fl_since f of None \<Rightarrow> 0 | Some t \<Rightarrow> t)"

definition until_of :: "filter \<Rightarrow> timestamp" where
  "until_of f = (case fl_until f of None \<Rightarrow> u64_max | Some t \<Rightarrow> t)"

definition time_range_empty :: "filter \<Rightarrow> bool" where
  "time_range_empty f \<longleftrightarrow>
     (case (fl_since f, fl_until f) of (Some s, Some u) \<Rightarrow> u < s | _ \<Rightarrow> False)"

definition take_limit :: "nat option \<Rightarrow> 'a list \<Rightarrow> 'a list" where
  "take_limit limit xs = (case limit of None \<Rightarrow> xs | Some l \<Rightarrow> take l xs)"

definition lmdb_query ::
  "('b, 'u, 'n) lmdb_env \<Rightarrow> filter \<Rightarrow> ('b, 'u, 'n) lmdb \<Rightarrow> store_error + database_event list" where
  "lmdb_query D f db =
     (if time_range_empty f then Inr []
      else
        (let limit = fl_limit f; since = since_of f; until = until_of f;
             f = df_of_filter (le_hash D) f;
             finish = (\<lambda>r. rbind r (\<lambda>s. Inr (take_limit limit (snd s))))
         in case pattern_from_filter f of
              PatIds \<Rightarrow>
                rbind (query_by_ids D db f limit (df_ids f) []) (\<lambda>out. Inr (take_limit limit out))
            | PatAuthorsAndKinds \<Rightarrow> finish (query_by_authors_and_kinds D db f until limit (since, []))
            | PatAuthorsAndTags \<Rightarrow> finish (query_by_authors_and_tags D db f until limit (since, []))
            | PatAuthorKindsAndTags \<Rightarrow>
                finish (query_by_authors_kinds_and_tags D db f until limit (since, []))
            | PatKindsAndTags \<Rightarrow> finish (query_by_kinds_and_tags D db f until limit (since, []))
            | PatTags \<Rightarrow> finish (query_by_tags D db f until limit (since, []))
            | PatAuthors \<Rightarrow> finish (query_by_authors D db f until limit (since, []))
            | PatKinds \<Rightarrow> finish (query_by_kinds D db f until limit (since, []))
            | PatScraping \<Rightarrow> query_by_scraping D db f since until limit))"

definition lmdb_count ::
  "('b, 'u, 'n) lmdb_env \<Rightarrow> filter \<Rightarrow> ('b, 'u, 'n) lmdb \<Rightarrow> store_error + nat" where
  "lmdb_count D f db =
     (let can_fast_count =
            fl_ids f = None \<and> fl_authors f = None \<and> fl_kinds f = None \<and> fl_search f = None \<and>
            fl_generic_tags f = []
      in if \<not> can_fast_count then rbind (lmdb_query D f db) (\<lambda>ds. Inr (length ds))
         else if f = filter_new\<lparr>fl_limit := fl_limit f\<rparr>
         then rbind (kv_len (le_bytes D) (lm_ci db)) (\<lambda>total.
                Inr (case fl_limit f of Some limit \<Rightarrow> min total limit | None \<Rightarrow> total))
         else rbind (ci_iter D (since_of f) (until_of f) db) (\<lambda>rows.
                Inr (case fl_limit f of Some limit \<Rightarrow> length (take limit rows) | None \<Rightarrow> length rows)))"

section \<open>Deleting\<close>

definition lmdb_delete ::
  "('b, 'u, 'n) lmdb_env \<Rightarrow> filter \<Rightarrow> (('b, 'u, 'n) lmdb, unit) tx" where
  "lmdb_delete D f =
     tx_bind (tx_read (lmdb_query D f)) (\<lambda>ds.
       tx_for (lmdb_remove D) (map event_index_keys_new ds))"

definition lmdb_handle_request_to_vanish ::
  "('b, 'u, 'n) lmdb_env \<Rightarrow> public_key \<Rightarrow> (('b, 'u, 'n) lmdb, unit) tx" where
  "lmdb_handle_request_to_vanish D pk =
     tx_then (mark_pubkey_vanished D pk)
    (tx_then (lmdb_delete D (filter_author pk filter_new))
             (lmdb_delete D (filter_pubkey (le_ext D) pk (filter_kind GiftWrap filter_new))))"

text \<open>The events of the rows of an index, in their order, that satisfy a condition.\<close>

fun collect_events ::
  "('b, 'u, 'n) lmdb_env \<Rightarrow> ('b, 'u, 'n) lmdb \<Rightarrow> (database_event \<Rightarrow> bool) \<Rightarrow>
   (store_error + u8 list \<times> u8 list) list \<Rightarrow> store_error + event_index_keys list" where
  "collect_events D db P [] = Inr []"
| "collect_events D db P (row # rows) =
     rbind row (\<lambda>(k, i). rbind (get_event_by_id D i db) (\<lambda>d.
       rbind (collect_events D db P rows) (\<lambda>rest.
         Inr (case d of None \<Rightarrow> rest
              | Some d \<Rightarrow> if P d then event_index_keys_new d # rest else rest))))"

definition remove_replaceable ::
  "('b, 'u, 'n) lmdb_env \<Rightarrow> coordinate \<Rightarrow> timestamp \<Rightarrow> (('b, 'u, 'n) lmdb, unit) tx" where
  "remove_replaceable D c until =
     (if \<not> is_replaceable (co_kind c) then tx_read (\<lambda>_. Inl ErrWrongEventKind)
      else
        tx_bind (tx_read (\<lambda>db.
            rbind (akc_iter D (pk_bytes (co_public_key c)) (as_u16 (co_kind c)) 0 until db)
              (collect_events D db (\<lambda>_. True))))
          (tx_for (lmdb_remove D)))"

definition remove_addressable ::
  "('b, 'u, 'n) lmdb_env \<Rightarrow> coordinate \<Rightarrow> timestamp \<Rightarrow> (('b, 'u, 'n) lmdb, unit) tx" where
  "remove_addressable D c until =
     (if \<not> is_addressable (co_kind c) then tx_read (\<lambda>_. Inl ErrWrongEventKind)
      else
        tx_bind (tx_read (\<lambda>db.
            rbind (atc_iter D (pk_bytes (co_public_key c)) slt_d (co_identifier c) 0 until db)
              (collect_events D db (\<lambda>d. de_kind d = as_u16 (co_kind c)))))
          (tx_for (lmdb_remove D)))"

definition find_replaceable_event ::
  "('b, 'u, 'n) lmdb_env \<Rightarrow> public_key \<Rightarrow> kind \<Rightarrow> ('b, 'u, 'n) lmdb \<Rightarrow>
   store_error + database_event option" where
  "find_replaceable_event D author kind db =
     (if \<not> is_replaceable kind then Inl ErrWrongEventKind
      else
        rbind (akc_iter D (pk_bytes author) (as_u16 kind) 0 u64_max db) (\<lambda>rows.
          case rows of
            [] \<Rightarrow> Inr None
          | row # _ \<Rightarrow> rbind row (\<lambda>(k, i). get_event_by_id D i db)))"

fun first_of_kind ::
  "('b, 'u, 'n) lmdb_env \<Rightarrow> ('b, 'u, 'n) lmdb \<Rightarrow> u16 \<Rightarrow>
   (store_error + u8 list \<times> u8 list) list \<Rightarrow> store_error + database_event option" where
  "first_of_kind D db kind [] = Inr None"
| "first_of_kind D db kind (row # rows) =
     rbind row (\<lambda>(k, i). rbind (get_event_by_id D i db) (\<lambda>d. rbind (ok_or d ErrNotFound) (\<lambda>d.
       if de_kind d \<noteq> kind then first_of_kind D db kind rows else Inr (Some d))))"

definition find_addressable_event ::
  "('b, 'u, 'n) lmdb_env \<Rightarrow> coordinate \<Rightarrow> ('b, 'u, 'n) lmdb \<Rightarrow> store_error + database_event option" where
  "find_addressable_event D addr db =
     (if \<not> is_addressable (co_kind addr) then Inl ErrWrongEventKind
      else
        rbind (atc_iter D (pk_bytes (co_public_key addr)) slt_d (co_identifier addr) 0 u64_max db)
          (first_of_kind D db (as_u16 (co_kind addr))))"

text \<open>The known targets with their entries, and the unknown ids; \<open>None\<close> is an invalid request.\<close>

fun split_targets ::
  "('b, 'u, 'n) lmdb_env \<Rightarrow> ('b, 'u, 'n) lmdb \<Rightarrow> public_key \<Rightarrow> event_id list \<Rightarrow>
   store_error + ((event_id \<times> event_index_keys) list \<times> event_id list) option" where
  "split_targets D db author [] = Inr (Some ([], []))"
| "split_targets D db author (i # is) =
     rbind (get_event_by_id D (eid_bytes i) db) (\<lambda>d.
       case d of
         Some target \<Rightarrow>
           if de_pubkey target \<noteq> pk_bytes author then Inr None
           else rbind (split_targets D db author is) (\<lambda>r.
             Inr (map_option (\<lambda>(known, unknown).
               ((i, event_index_keys_new target) # known, unknown)) r))
       | None \<Rightarrow> rbind (split_targets D db author is) (\<lambda>r.
           Inr (map_option (\<lambda>(known, unknown). (known, i # unknown)) r)))"

definition delete_coordinate ::
  "('b, 'u, 'n) lmdb_env \<Rightarrow> timestamp \<Rightarrow> coordinate \<Rightarrow> (('b, 'u, 'n) lmdb, unit) tx" where
  "delete_coordinate D created_at c =
     tx_then (mark_coordinate_deleted D c created_at)
       (if is_replaceable (co_kind c) then remove_replaceable D c created_at
        else if is_addressable (co_kind c) then remove_addressable D c created_at
        else tx_return ())"

definition handle_deletion_event ::
  "('b, 'u, 'n) lmdb_env \<Rightarrow> event \<Rightarrow> (('b, 'u, 'n) lmdb, bool) tx" where
  "handle_deletion_event D e =
     (let coordinates = tags_coordinates (le_ext D) (ev_tags e)
      in if list_ex (\<lambda>c. co_public_key c \<noteq> ev_pubkey e) coordinates then tx_return True
         else
           tx_bind (tx_read (\<lambda>db.
               split_targets D db (ev_pubkey e) (tags_event_ids (le_ext D) (ev_tags e)))) (\<lambda>targets.
             case targets of
               None \<Rightarrow> tx_return True
             | Some (known, unknown) \<Rightarrow>
                 tx_then (tx_for (\<lambda>i. mark_deleted_by_author D i (ev_pubkey e)) unknown)
                (tx_then (tx_for (\<lambda>(i, info).
                     tx_then (mark_deleted D i) (lmdb_remove D info)) known)
                (tx_then (tx_for (delete_coordinate D (ev_created_at e)) coordinates)
                         (tx_return False)))))"

section \<open>Saving\<close>

definition lmdb_has_event_been_replaced :: "database_event \<Rightarrow> event \<Rightarrow> bool" where
  "lmdb_has_event_been_replaced stored e \<longleftrightarrow>
     (if ev_created_at e < de_created_at stored then True
      else if de_created_at stored = ev_created_at e then de_id stored < eid_bytes (ev_id e)
      else False)"

text \<open>The checks before anything is replaced: the reason of the rejection, if there is one.\<close>

definition lmdb_rejection ::
  "('b, 'u, 'n) lmdb_env \<Rightarrow> event \<Rightarrow> (('b, 'u, 'n) lmdb, rejected_reason option) tx" where
  "lmdb_rejection D e =
     (if is_ephemeral (ev_kind e) then tx_return (Some REphemeral)
      else
        tx_bind (tx_read (lmdb_has_event D (ev_id e))) (\<lambda>b. if b then tx_return (Some RDuplicate) else
        tx_bind (tx_read (is_deleted D (ev_id e))) (\<lambda>b. if b then tx_return (Some RDeleted) else
        tx_bind (if lo_process_nip09 (le_options D) \<and> \<not> kind_eq (ev_kind e) EventDeletion
                 then tx_read (is_deleted_by_author D (ev_id e) (ev_pubkey e))
                 else tx_return False) (\<lambda>b.
          if b then tx_then (mark_deleted D (ev_id e)) (tx_return (Some RDeleted)) else
        tx_bind (tx_read (lmdb_is_pubkey_vanished D (ev_pubkey e))) (\<lambda>b.
          if b then tx_return (Some RVanished) else
        (case event_coordinate (le_ext D) e of
           None \<Rightarrow> tx_return None
         | Some c \<Rightarrow>
             tx_bind (tx_read (when_is_coordinate_deleted D c)) (\<lambda>t.
               tx_return (case t of
                   Some t \<Rightarrow> if ev_created_at e \<le> t then Some RDeleted else None
                 | None \<Rightarrow> None))))))))"

text \<open>Replacement: whether a stored version takes precedence, otherwise older ones are removed.\<close>

definition replace_versions ::
  "('b, 'u, 'n) lmdb_env \<Rightarrow> event \<Rightarrow> (('b, 'u, 'n) lmdb, bool) tx" where
  "replace_versions D e =
     (if is_replaceable (ev_kind e) then
        tx_bind (tx_read (find_replaceable_event D (ev_pubkey e) (ev_kind e))) (\<lambda>stored.
          case stored of
            None \<Rightarrow> tx_return False
          | Some d \<Rightarrow>
              if lmdb_has_event_been_replaced d e then tx_return True
              else tx_then (remove_replaceable D (coordinate_new (ev_kind e) (ev_pubkey e))
                              (ev_created_at e)) (tx_return False))
      else tx_return False)"

definition replace_addressable ::
  "('b, 'u, 'n) lmdb_env \<Rightarrow> event \<Rightarrow> (('b, 'u, 'n) lmdb, bool) tx" where
  "replace_addressable D e =
     (if is_addressable (ev_kind e) then
        (case tags_identifier (le_ext D) (ev_tags e) of
           None \<Rightarrow> tx_return False
         | Some identifier \<Rightarrow>
             (let c = (coordinate_new (ev_kind e) (ev_pubkey e))\<lparr>co_identifier := identifier\<rparr>
              in tx_bind (tx_read (find_addressable_event D c)) (\<lambda>stored.
                   case stored of
                     None \<Rightarrow> tx_return False
                   | Some d \<Rightarrow>
                       if lmdb_has_event_been_replaced d e then tx_return True
                       else tx_then (remove_addressable D c u64_max) (tx_return False))))
      else tx_return False)"

definition save_event_with_txn ::
  "('b, 'u, 'n) lmdb_env \<Rightarrow> event \<Rightarrow> (('b, 'u, 'n) lmdb, save_event_status) tx" where
  "save_event_with_txn D e =
     tx_bind (lmdb_rejection D e) (\<lambda>rejected. case rejected of Some r \<Rightarrow> tx_return (Rejected r) | None \<Rightarrow>
     tx_bind (replace_versions D e) (\<lambda>replaced. if replaced then tx_return (Rejected RReplaced) else
     tx_bind (replace_addressable D e) (\<lambda>replaced. if replaced then tx_return (Rejected RReplaced) else
     tx_bind (if lo_process_nip09 (le_options D) \<and> kind_eq (ev_kind e) EventDeletion
              then handle_deletion_event D e else tx_return False) (\<lambda>invalid.
       if invalid then tx_return (Rejected RInvalidDelete) else
     tx_then (if lo_process_nip62 (le_options D) \<and> kind_eq (ev_kind e) RequestToVanish \<and>
                 is_valid_vanish_request_for_relay (le_ext D) (ev_tags e) (lo_relay_url (le_options D))
              then lmdb_handle_request_to_vanish D (ev_pubkey e) else tx_return ())
    (tx_then (lmdb_store D (de_of_event e)) (tx_return Success))))))"

section \<open>Wiping, reindexing and migrations\<close>

abbreviation clear_bytes ::
  "('b, 'u, 'n) lmdb_env \<Rightarrow> (('b, 'u, 'n) lmdb \<Rightarrow> 'b) \<Rightarrow>
   (('b \<Rightarrow> 'b) \<Rightarrow> ('b, 'u, 'n) lmdb \<Rightarrow> ('b, 'u, 'n) lmdb) \<Rightarrow> (('b, 'u, 'n) lmdb, unit) tx" where
  "clear_bytes D get upd \<equiv> tx_write get upd (kv_clear (le_bytes D))"

definition wipe_indexes :: "('b, 'u, 'n) lmdb_env \<Rightarrow> (('b, 'u, 'n) lmdb, unit) tx" where
  "wipe_indexes D =
     tx_then (clear_bytes D lm_ci lm_ci_update)
    (tx_then (clear_bytes D lm_tc lm_tc_update)
    (tx_then (clear_bytes D lm_ac lm_ac_update)
    (tx_then (clear_bytes D lm_akc lm_akc_update)
    (tx_then (clear_bytes D lm_kc lm_kc_update)
    (tx_then (clear_bytes D lm_atc lm_atc_update)
    (tx_then (clear_bytes D lm_ktc lm_ktc_update)
    (tx_then (tx_write lm_deleted_ids lm_deleted_ids_update (kv_clear (le_unit D)))
    (tx_then (tx_write lm_deleted_ids_by_author lm_deleted_ids_by_author_update
                (kv_clear (le_unit D)))
    (tx_then (tx_write lm_deleted_coordinates lm_deleted_coordinates_update (kv_clear (le_u64 D)))
             (tx_write lm_vanished_public_keys lm_vanished_public_keys_update
                (kv_clear (le_unit D))))))))))))"

definition lmdb_wipe :: "('b, 'u, 'n) lmdb_env \<Rightarrow> (('b, 'u, 'n) lmdb, unit) tx" where
  "lmdb_wipe D = tx_then (clear_bytes D lm_events lm_events_update) (wipe_indexes D)"

text \<open>
  The values of a table that can be decoded. The table of events also has the entries of the named
  tables, which cannot.
\<close>

fun decoded_events ::
  "('b, 'u, 'n) lmdb_env \<Rightarrow> (store_error + u8 list \<times> u8 list) list \<Rightarrow>
   store_error + database_event list" where
  "decoded_events D [] = Inr []"
| "decoded_events D (row # rows) =
     rbind row (\<lambda>(k, bytes). rbind (decoded_events D rows) (\<lambda>ds.
       Inr (case from_flatbuf (le_fb D) bytes of Inr d \<Rightarrow> d # ds | Inl _ \<Rightarrow> ds)))"

definition all_events ::
  "('b, 'u, 'n) lmdb_env \<Rightarrow> ('b, 'u, 'n) lmdb \<Rightarrow> store_error + database_event list" where
  "all_events D db = rbind (kv_iter (le_bytes D) (lm_events db)) (decoded_events D)"

definition reindex :: "('b, 'u, 'n) lmdb_env \<Rightarrow> (('b, 'u, 'n) lmdb, unit) tx" where
  "reindex D =
     tx_then (wipe_indexes D)
    (tx_bind (tx_read (\<lambda>db. kv_len (le_bytes D) (lm_events db))) (\<lambda>_.
     tx_bind (tx_read (all_events D)) (\<lambda>ds.
       tx_for (lmdb_index_event D) (map event_index_keys_new ds))))"

definition migrate_v1_to_v2 :: "('b, 'u, 'n) lmdb_env \<Rightarrow> (('b, 'u, 'n) lmdb, unit) tx" where
  "migrate_v1_to_v2 D =
     tx_bind (tx_read (\<lambda>db. kv_len (le_bytes D) (lm_events db))) (\<lambda>_.
     tx_bind (tx_read (all_events D)) (\<lambda>ds.
       tx_for (\<lambda>d. put_into D lm_kc lm_kc_update
                     (make_kc_index_key (de_kind d) (de_created_at d) (de_id d)) (de_id d)) ds))"

text \<open>The events are read from a snapshot, the state before the transaction.\<close>

definition backfill_deletion ::
  "('b, 'u, 'n) lmdb_env \<Rightarrow> database_event \<Rightarrow> (('b, 'u, 'n) lmdb, unit) tx" where
  "backfill_deletion D d =
     (if de_kind d = as_u16 EventDeletion then
        tx_for (\<lambda>i. tx_bind (tx_read (is_deleted D i)) (\<lambda>b.
            if b then tx_return () else mark_deleted_by_author D i (PublicKey (de_pubkey d))))
          (de_event_ids (le_ext D) d)
      else tx_return ())"

definition migrate_v2_to_v3 ::
  "('b, 'u, 'n) lmdb_env \<Rightarrow> ('b, 'u, 'n) lmdb \<Rightarrow> (('b, 'u, 'n) lmdb, unit) tx" where
  "migrate_v2_to_v3 D snapshot =
     tx_bind (tx_read (\<lambda>_. all_events D snapshot)) (tx_for (backfill_deletion D))"

definition DB_VERSION :: nat where "DB_VERSION = 3"
definition DB_VERSION_KEY :: "u8 list" where "DB_VERSION_KEY = bytes_of ''db_version''"

text \<open>The result, and the database that is committed; a failed or aborted migration changes nothing.\<close>

definition migrate ::
  "('b, 'u, 'n) lmdb_env \<Rightarrow> ('b, 'u, 'n) lmdb \<Rightarrow> (store_error + unit) \<times> ('b, 'u, 'n) lmdb" where
  "migrate D db =
     (case kv_get (le_u64 D) (lm_metadata db) DB_VERSION_KEY of
        Inl e \<Rightarrow> (Inl e, db)
      | Inr v \<Rightarrow>
          (let current_version = (case v of None \<Rightarrow> 0 | Some n \<Rightarrow> n)
           in if current_version < DB_VERSION then
                (case tx_then (if current_version < 2 then migrate_v1_to_v2 D else tx_return ())
                     (tx_then (if current_version < 3 then migrate_v2_to_v3 D db else tx_return ())
                       (tx_write lm_metadata lm_metadata_update
                          (\<lambda>t. kv_put (le_u64 D) t DB_VERSION_KEY DB_VERSION))) db of
                   (Inl e, _) \<Rightarrow> (Inl e, db)
                 | (Inr _, db') \<Rightarrow> (Inr (), db'))
              else if current_version = DB_VERSION then (Inr (), db)
              else (Inl (ErrMigration (NewerVersion current_version DB_VERSION)), db)))"

end
