(* ===== verification/Lmdb_Tables.thy ===== *)
theory Lmdb_Tables
  imports Lmdb_Store
begin

text \<open>
  What the writes of a transaction do to the contents of the tables: a triple \<open>holds\<close> in the style
  of Hoare logic, the view of a database as the record of the contents of its tables, and the
  effect of storing, removing, marking, clearing and indexing on the view.
\<close>

section \<open>Triples\<close>

text \<open>
  \<open>holds W P m Q\<close>: from a state with \<open>P\<close> the result of \<open>m\<close> satisfies \<open>Q\<close> or is an error, and it is no
  error if \<open>W\<close>, which is used for the assumption that no write fails.
\<close>

definition holds :: "bool \<Rightarrow> ('s \<Rightarrow> bool) \<Rightarrow> ('s, 'a) tx \<Rightarrow> ('a \<Rightarrow> 's \<Rightarrow> bool) \<Rightarrow> bool" where
  "holds W P m Q \<longleftrightarrow>
     (\<forall>s. P s \<longrightarrow> (case m s of (Inr a, s') \<Rightarrow> Q a s' | (Inl e, s') \<Rightarrow> \<not> W))"

named_theorems triples

lemma holds_return [triples]: "(\<And>s. P s \<Longrightarrow> Q a s) \<Longrightarrow> holds W P (tx_return a) Q"
  by (simp add: holds_def tx_return_def)

lemma holds_bind:
  "holds W P m Q \<Longrightarrow> (\<And>a. holds W (Q a) (f a) R) \<Longrightarrow> holds W P (tx_bind m f) R"
proof (unfold holds_def, intro allI impI)
  fix s
  assume m: "\<forall>s. P s \<longrightarrow> (case m s of (Inr a, s') \<Rightarrow> Q a s' | (Inl e, s') \<Rightarrow> \<not> W)"
    and f: "\<And>a. \<forall>s. Q a s \<longrightarrow> (case f a s of (Inr b, s') \<Rightarrow> R b s' | (Inl e, s') \<Rightarrow> \<not> W)"
    and P: "P s"
  obtain r s' where r: "m s = (r, s')" by (cases "m s")
  show "case tx_bind m f s of (Inr b, s') \<Rightarrow> R b s' | (Inl e, s') \<Rightarrow> \<not> W"
    using m [rule_format, OF P] f r by (cases r) (simp_all add: tx_bind_def)
qed

lemma holds_then:
  "holds W P m (\<lambda>_. Q) \<Longrightarrow> holds W Q k R \<Longrightarrow> holds W P (tx_then m k) R"
  unfolding tx_then_def by (rule holds_bind)

lemma holds_read:
  "(\<And>s. P s \<Longrightarrow> case r s of Inr a \<Rightarrow> Q a s | Inl e \<Rightarrow> \<not> W) \<Longrightarrow> holds W P (tx_read r) Q"
  by (simp add: holds_def tx_read_def)

lemma holds_pre: "(\<And>s. P s \<Longrightarrow> P' s) \<Longrightarrow> holds W P' m Q \<Longrightarrow> holds W P m Q"
  by (simp add: holds_def)

lemma holds_post: "holds W P m Q' \<Longrightarrow> (\<And>a s. Q' a s \<Longrightarrow> Q a s) \<Longrightarrow> holds W P m Q"
  unfolding holds_def by (fastforce split: prod.splits sum.splits)

lemma holds_given: "(\<And>s. P s \<Longrightarrow> holds W (\<lambda>t. t = s) m Q) \<Longrightarrow> holds W P m Q"
  by (simp add: holds_def)

lemma holds_if [triples]:
  "(b \<Longrightarrow> holds W P m Q) \<Longrightarrow> (\<not> b \<Longrightarrow> holds W P k Q) \<Longrightarrow> holds W P (if b then m else k) Q"
  by simp

lemma holds_success: "holds W P m Q \<Longrightarrow> P s \<Longrightarrow> m s = (Inr a, s') \<Longrightarrow> Q a s'"
  unfolding holds_def by fastforce

lemma holds_total: "holds W P m Q \<Longrightarrow> W \<Longrightarrow> P s \<Longrightarrow> \<exists>a s'. m s = (Inr a, s') \<and> Q a s'"
  unfolding holds_def by (cases "m s"; cases "fst (m s)") fastforce+

text \<open>A loop, where the assertion says what has been done already.\<close>

lemma holds_for:
  assumes "\<And>ys x zs. xs = ys @ x # zs \<Longrightarrow> holds W (I ys) (f x) (\<lambda>_. I (ys @ [x]))"
  shows "holds W (I []) (tx_for f xs) (\<lambda>_. I xs)"
proof -
  have "holds W (I ys) (tx_for f zs) (\<lambda>_. I (ys @ zs))" if "xs = ys @ zs" for ys zs
    using that
  proof (induction zs arbitrary: ys)
    case Nil
    then show ?case by (simp add: holds_def tx_return_def)
  next
    case (Cons z zs)
    show ?case
      unfolding tx_for.simps
    proof (rule holds_then)
      show "holds W (I ys) (f z) (\<lambda>_. I (ys @ [z]))" by (rule assms) (rule Cons.prems)
      show "holds W (I (ys @ [z])) (tx_for f zs) (\<lambda>_. I (ys @ z # zs))"
        using Cons.IH [of "ys @ [z]"] Cons.prems by simp
    qed
  qed
  from this [of "[]" xs] show ?thesis by simp
qed

section \<open>The laws of a table\<close>

lemma kv_finite: "kv_ok K m \<Longrightarrow> finite (dom (m t))"
  by (simp add: kv_ok_def)

lemma kv_get_ok: "kv_ok K m \<Longrightarrow> key_valid k \<Longrightarrow> kv_get K t k = Inr (m t k)"
  by (simp add: kv_ok_def)

lemma kv_put_ok: "kv_ok K m \<Longrightarrow> kv_put K t k v = Inr t' \<Longrightarrow> m t' = (m t)(k \<mapsto> v)"
  unfolding kv_ok_def by blast

lemma kv_delete_ok: "kv_ok K m \<Longrightarrow> kv_delete K t k = Inr t' \<Longrightarrow> m t' = (m t)(k := None)"
  unfolding kv_ok_def by blast

lemma kv_clear_ok: "kv_ok K m \<Longrightarrow> kv_clear K t = Inr t' \<Longrightarrow> m t' = Map.empty"
  unfolding kv_ok_def by blast

lemma kv_range_ok:
  "kv_ok K m \<Longrightarrow>
   \<exists>xs. kv_range K t lo hi = Inr (map Inr xs) \<and> rows_of (m t) (\<lambda>k. lo \<le> k \<and> k < hi) xs"
  unfolding kv_ok_def by blast

lemma kv_iter_ok:
  "kv_ok K m \<Longrightarrow> \<exists>xs. kv_iter K t = Inr (map Inr xs) \<and> rows_of (m t) (\<lambda>_. True) xs"
  unfolding kv_ok_def by blast

lemma kv_len_ok: "kv_ok K m \<Longrightarrow> kv_len K t = Inr (card (dom (m t)))"
  unfolding kv_ok_def by blast

text \<open>That the writes of a table succeed; LMDB refuses keys that are not valid.\<close>

definition kv_writable :: "('t, 'v) kv_ops \<Rightarrow> bool" where
  "kv_writable K \<longleftrightarrow>
     (\<forall>t k v. key_valid k \<longrightarrow> (\<exists>t'. kv_put K t k v = Inr t')) \<and>
     (\<forall>t k. key_valid k \<longrightarrow> (\<exists>t'. kv_delete K t k = Inr t')) \<and> (\<forall>t. \<exists>t'. kv_clear K t = Inr t')"

record ('b, 'u, 'n) contents =
  cn_bytes :: "'b \<Rightarrow> u8 list \<rightharpoonup> u8 list"
  cn_unit :: "'u \<Rightarrow> u8 list \<rightharpoonup> unit"
  cn_u64 :: "'n \<Rightarrow> u8 list \<rightharpoonup> nat"

definition env_ok :: "('b, 'u, 'n) lmdb_env \<Rightarrow> ('b, 'u, 'n) contents \<Rightarrow> bool" where
  "env_ok D C \<longleftrightarrow>
     kv_ok (le_bytes D) (cn_bytes C) \<and> kv_ok (le_unit D) (cn_unit C) \<and> kv_ok (le_u64 D) (cn_u64 C) \<and>
     flatbuffers_ok (le_fb D) \<and> hash_order_ok (le_hash D) \<and> hex_ok (le_ext D)"

lemma env_okD:
  assumes "env_ok D C"
  shows "kv_ok (le_bytes D) (cn_bytes C)" "kv_ok (le_unit D) (cn_unit C)"
    "kv_ok (le_u64 D) (cn_u64 C)" "flatbuffers_ok (le_fb D)" "hash_order_ok (le_hash D)"
    "hex_ok (le_ext D)"
  using assms by (simp_all add: env_ok_def)

definition writable :: "('b, 'u, 'n) lmdb_env \<Rightarrow> bool" where
  "writable D \<longleftrightarrow> kv_writable (le_bytes D) \<and> kv_writable (le_unit D) \<and> kv_writable (le_u64 D)"

section \<open>The view of a database\<close>

record lmdb_view =
  vw_events :: "u8 list \<rightharpoonup> u8 list"
  vw_ci :: "u8 list \<rightharpoonup> u8 list"
  vw_tc :: "u8 list \<rightharpoonup> u8 list"
  vw_ac :: "u8 list \<rightharpoonup> u8 list"
  vw_akc :: "u8 list \<rightharpoonup> u8 list"
  vw_atc :: "u8 list \<rightharpoonup> u8 list"
  vw_kc :: "u8 list \<rightharpoonup> u8 list"
  vw_ktc :: "u8 list \<rightharpoonup> u8 list"
  vw_deleted :: "u8 list \<rightharpoonup> unit"
  vw_by_author :: "u8 list \<rightharpoonup> unit"
  vw_coordinates :: "u8 list \<rightharpoonup> nat"
  vw_vanished :: "u8 list \<rightharpoonup> unit"
  vw_metadata :: "u8 list \<rightharpoonup> nat"

definition view :: "('b, 'u, 'n) contents \<Rightarrow> ('b, 'u, 'n) lmdb \<Rightarrow> lmdb_view" where
  "view C db =
     \<lparr>vw_events = cn_bytes C (lm_events db), vw_ci = cn_bytes C (lm_ci db),
      vw_tc = cn_bytes C (lm_tc db), vw_ac = cn_bytes C (lm_ac db), vw_akc = cn_bytes C (lm_akc db),
      vw_atc = cn_bytes C (lm_atc db), vw_kc = cn_bytes C (lm_kc db),
      vw_ktc = cn_bytes C (lm_ktc db), vw_deleted = cn_unit C (lm_deleted_ids db),
      vw_by_author = cn_unit C (lm_deleted_ids_by_author db),
      vw_coordinates = cn_u64 C (lm_deleted_coordinates db),
      vw_vanished = cn_unit C (lm_vanished_public_keys db),
      vw_metadata = cn_u64 C (lm_metadata db)\<rparr>"

lemma holds_write:
  assumes "\<And>db t. view C db = v \<Longrightarrow> w (get db) = Inr t \<Longrightarrow> view C (upd (\<lambda>_. t) db) = v'"
    and "W \<Longrightarrow> (\<And>t. \<exists>t'. w t = Inr t')"
  shows "holds W (\<lambda>db. view C db = v) (tx_write get upd w) (\<lambda>_ db. view C db = v')"
  unfolding holds_def
proof (intro allI impI)
  fix db assume v: "view C db = v"
  show "case tx_write get upd w db of (Inr a, s') \<Rightarrow> view C s' = v' | (Inl e, s') \<Rightarrow> \<not> W"
  proof (cases "w (get db)")
    case (Inl e)
    then have "\<not> W" using assms(2) by (metis Inl_Inr_False)
    then show ?thesis using Inl by (simp add: tx_write_def)
  next
    case (Inr t)
    then show ?thesis using assms(1) [OF v Inr] by (simp add: tx_write_def)
  qed
qed

lemma holds_puts [triples]:
  assumes "env_ok D C" and "W \<Longrightarrow> writable D" and "key_valid k"
  shows "holds W (\<lambda>db. view C db = v) (put_into D lm_events lm_events_update k i)
      (\<lambda>_ db. view C db = v\<lparr>vw_events := (vw_events v)(k \<mapsto> i)\<rparr>)"
    "holds W (\<lambda>db. view C db = v) (put_into D lm_ci lm_ci_update k i)
      (\<lambda>_ db. view C db = v\<lparr>vw_ci := (vw_ci v)(k \<mapsto> i)\<rparr>)"
    "holds W (\<lambda>db. view C db = v) (put_into D lm_tc lm_tc_update k i)
      (\<lambda>_ db. view C db = v\<lparr>vw_tc := (vw_tc v)(k \<mapsto> i)\<rparr>)"
    "holds W (\<lambda>db. view C db = v) (put_into D lm_ac lm_ac_update k i)
      (\<lambda>_ db. view C db = v\<lparr>vw_ac := (vw_ac v)(k \<mapsto> i)\<rparr>)"
    "holds W (\<lambda>db. view C db = v) (put_into D lm_akc lm_akc_update k i)
      (\<lambda>_ db. view C db = v\<lparr>vw_akc := (vw_akc v)(k \<mapsto> i)\<rparr>)"
    "holds W (\<lambda>db. view C db = v) (put_into D lm_atc lm_atc_update k i)
      (\<lambda>_ db. view C db = v\<lparr>vw_atc := (vw_atc v)(k \<mapsto> i)\<rparr>)"
    "holds W (\<lambda>db. view C db = v) (put_into D lm_kc lm_kc_update k i)
      (\<lambda>_ db. view C db = v\<lparr>vw_kc := (vw_kc v)(k \<mapsto> i)\<rparr>)"
    "holds W (\<lambda>db. view C db = v) (put_into D lm_ktc lm_ktc_update k i)
      (\<lambda>_ db. view C db = v\<lparr>vw_ktc := (vw_ktc v)(k \<mapsto> i)\<rparr>)"
proof -
  have total: "\<exists>t'. kv_put (le_bytes D) t k i = Inr t'" if W for t
    using assms(2) [OF that] assms(3) by (simp add: writable_def kv_writable_def)
  note laws = kv_put_ok [OF env_okD(1) [OF assms(1)]]
  show "holds W (\<lambda>db. view C db = v) (put_into D lm_events lm_events_update k i)
      (\<lambda>_ db. view C db = v\<lparr>vw_events := (vw_events v)(k \<mapsto> i)\<rparr>)"
    "holds W (\<lambda>db. view C db = v) (put_into D lm_ci lm_ci_update k i)
      (\<lambda>_ db. view C db = v\<lparr>vw_ci := (vw_ci v)(k \<mapsto> i)\<rparr>)"
    "holds W (\<lambda>db. view C db = v) (put_into D lm_tc lm_tc_update k i)
      (\<lambda>_ db. view C db = v\<lparr>vw_tc := (vw_tc v)(k \<mapsto> i)\<rparr>)"
    "holds W (\<lambda>db. view C db = v) (put_into D lm_ac lm_ac_update k i)
      (\<lambda>_ db. view C db = v\<lparr>vw_ac := (vw_ac v)(k \<mapsto> i)\<rparr>)"
    "holds W (\<lambda>db. view C db = v) (put_into D lm_akc lm_akc_update k i)
      (\<lambda>_ db. view C db = v\<lparr>vw_akc := (vw_akc v)(k \<mapsto> i)\<rparr>)"
    "holds W (\<lambda>db. view C db = v) (put_into D lm_atc lm_atc_update k i)
      (\<lambda>_ db. view C db = v\<lparr>vw_atc := (vw_atc v)(k \<mapsto> i)\<rparr>)"
    "holds W (\<lambda>db. view C db = v) (put_into D lm_kc lm_kc_update k i)
      (\<lambda>_ db. view C db = v\<lparr>vw_kc := (vw_kc v)(k \<mapsto> i)\<rparr>)"
    "holds W (\<lambda>db. view C db = v) (put_into D lm_ktc lm_ktc_update k i)
      (\<lambda>_ db. view C db = v\<lparr>vw_ktc := (vw_ktc v)(k \<mapsto> i)\<rparr>)"
    by (rule holds_write, (auto simp: view_def dest: laws)[1], rule total, assumption)+
qed

lemma holds_deletes [triples]:
  assumes "env_ok D C" and "W \<Longrightarrow> writable D" and "key_valid k"
  shows "holds W (\<lambda>db. view C db = v) (delete_from D lm_events lm_events_update k)
      (\<lambda>_ db. view C db = v\<lparr>vw_events := (vw_events v)(k := None)\<rparr>)"
    "holds W (\<lambda>db. view C db = v) (delete_from D lm_ci lm_ci_update k)
      (\<lambda>_ db. view C db = v\<lparr>vw_ci := (vw_ci v)(k := None)\<rparr>)"
    "holds W (\<lambda>db. view C db = v) (delete_from D lm_tc lm_tc_update k)
      (\<lambda>_ db. view C db = v\<lparr>vw_tc := (vw_tc v)(k := None)\<rparr>)"
    "holds W (\<lambda>db. view C db = v) (delete_from D lm_ac lm_ac_update k)
      (\<lambda>_ db. view C db = v\<lparr>vw_ac := (vw_ac v)(k := None)\<rparr>)"
    "holds W (\<lambda>db. view C db = v) (delete_from D lm_akc lm_akc_update k)
      (\<lambda>_ db. view C db = v\<lparr>vw_akc := (vw_akc v)(k := None)\<rparr>)"
    "holds W (\<lambda>db. view C db = v) (delete_from D lm_atc lm_atc_update k)
      (\<lambda>_ db. view C db = v\<lparr>vw_atc := (vw_atc v)(k := None)\<rparr>)"
    "holds W (\<lambda>db. view C db = v) (delete_from D lm_kc lm_kc_update k)
      (\<lambda>_ db. view C db = v\<lparr>vw_kc := (vw_kc v)(k := None)\<rparr>)"
    "holds W (\<lambda>db. view C db = v) (delete_from D lm_ktc lm_ktc_update k)
      (\<lambda>_ db. view C db = v\<lparr>vw_ktc := (vw_ktc v)(k := None)\<rparr>)"
proof -
  have total: "\<exists>t'. kv_delete (le_bytes D) t k = Inr t'" if W for t
    using assms(2) [OF that] assms(3) by (simp add: writable_def kv_writable_def)
  note laws = kv_delete_ok [OF env_okD(1) [OF assms(1)]]
  show "holds W (\<lambda>db. view C db = v) (delete_from D lm_events lm_events_update k)
      (\<lambda>_ db. view C db = v\<lparr>vw_events := (vw_events v)(k := None)\<rparr>)"
    "holds W (\<lambda>db. view C db = v) (delete_from D lm_ci lm_ci_update k)
      (\<lambda>_ db. view C db = v\<lparr>vw_ci := (vw_ci v)(k := None)\<rparr>)"
    "holds W (\<lambda>db. view C db = v) (delete_from D lm_tc lm_tc_update k)
      (\<lambda>_ db. view C db = v\<lparr>vw_tc := (vw_tc v)(k := None)\<rparr>)"
    "holds W (\<lambda>db. view C db = v) (delete_from D lm_ac lm_ac_update k)
      (\<lambda>_ db. view C db = v\<lparr>vw_ac := (vw_ac v)(k := None)\<rparr>)"
    "holds W (\<lambda>db. view C db = v) (delete_from D lm_akc lm_akc_update k)
      (\<lambda>_ db. view C db = v\<lparr>vw_akc := (vw_akc v)(k := None)\<rparr>)"
    "holds W (\<lambda>db. view C db = v) (delete_from D lm_atc lm_atc_update k)
      (\<lambda>_ db. view C db = v\<lparr>vw_atc := (vw_atc v)(k := None)\<rparr>)"
    "holds W (\<lambda>db. view C db = v) (delete_from D lm_kc lm_kc_update k)
      (\<lambda>_ db. view C db = v\<lparr>vw_kc := (vw_kc v)(k := None)\<rparr>)"
    "holds W (\<lambda>db. view C db = v) (delete_from D lm_ktc lm_ktc_update k)
      (\<lambda>_ db. view C db = v\<lparr>vw_ktc := (vw_ktc v)(k := None)\<rparr>)"
    by (rule holds_write, (auto simp: view_def dest: laws)[1], rule total, assumption)+
qed

lemma holds_marks [triples]:
  assumes "env_ok D C" and "W \<Longrightarrow> writable D"
  shows "key_valid (eid_bytes i) \<Longrightarrow>
    holds W (\<lambda>db. view C db = v) (mark_deleted D i)
      (\<lambda>_ db. view C db = v\<lparr>vw_deleted := (vw_deleted v)(eid_bytes i \<mapsto> ())\<rparr>)"
    "key_valid (make_author_deletion_key i pk) \<Longrightarrow>
    holds W (\<lambda>db. view C db = v) (mark_deleted_by_author D i pk)
      (\<lambda>_ db. view C db = v\<lparr>vw_by_author := (vw_by_author v)(make_author_deletion_key i pk \<mapsto> ())\<rparr>)"
    "(W \<Longrightarrow> key_valid (make_coordinate_index_key c)) \<Longrightarrow>
    holds W (\<lambda>db. view C db = v) (mark_coordinate_deleted D c at)
      (\<lambda>_ db. view C db =
         v\<lparr>vw_coordinates := (vw_coordinates v)(make_coordinate_index_key c \<mapsto> at)\<rparr>)"
    "key_valid (pk_bytes pk) \<Longrightarrow>
    holds W (\<lambda>db. view C db = v) (mark_pubkey_vanished D pk)
      (\<lambda>_ db. view C db = v\<lparr>vw_vanished := (vw_vanished v)(pk_bytes pk \<mapsto> ())\<rparr>)"
  unfolding mark_deleted_def mark_deleted_by_author_def mark_coordinate_deleted_def
    mark_pubkey_vanished_def
  subgoal
    by (rule holds_write, (auto simp: view_def dest: kv_put_ok [OF env_okD(2) [OF assms(1)]])[1])
      (use assms(2) in \<open>simp add: writable_def kv_writable_def\<close>)
  subgoal
    by (rule holds_write, (auto simp: view_def dest: kv_put_ok [OF env_okD(2) [OF assms(1)]])[1])
      (use assms(2) in \<open>simp add: writable_def kv_writable_def\<close>)
  subgoal
    by (rule holds_write, (auto simp: view_def dest: kv_put_ok [OF env_okD(3) [OF assms(1)]])[1])
      (use assms(2) in \<open>simp add: writable_def kv_writable_def\<close>)
  subgoal
    by (rule holds_write, (auto simp: view_def dest: kv_put_ok [OF env_okD(2) [OF assms(1)]])[1])
      (use assms(2) in \<open>simp add: writable_def kv_writable_def\<close>)
  done

lemma holds_clears [triples]:
  assumes "env_ok D C" and "W \<Longrightarrow> writable D"
  shows "holds W (\<lambda>db. view C db = v) (clear_bytes D lm_events lm_events_update)
      (\<lambda>_ db. view C db = v\<lparr>vw_events := Map.empty\<rparr>)"
    "holds W (\<lambda>db. view C db = v) (clear_bytes D lm_ci lm_ci_update)
      (\<lambda>_ db. view C db = v\<lparr>vw_ci := Map.empty\<rparr>)"
    "holds W (\<lambda>db. view C db = v) (clear_bytes D lm_tc lm_tc_update)
      (\<lambda>_ db. view C db = v\<lparr>vw_tc := Map.empty\<rparr>)"
    "holds W (\<lambda>db. view C db = v) (clear_bytes D lm_ac lm_ac_update)
      (\<lambda>_ db. view C db = v\<lparr>vw_ac := Map.empty\<rparr>)"
    "holds W (\<lambda>db. view C db = v) (clear_bytes D lm_akc lm_akc_update)
      (\<lambda>_ db. view C db = v\<lparr>vw_akc := Map.empty\<rparr>)"
    "holds W (\<lambda>db. view C db = v) (clear_bytes D lm_atc lm_atc_update)
      (\<lambda>_ db. view C db = v\<lparr>vw_atc := Map.empty\<rparr>)"
    "holds W (\<lambda>db. view C db = v) (clear_bytes D lm_kc lm_kc_update)
      (\<lambda>_ db. view C db = v\<lparr>vw_kc := Map.empty\<rparr>)"
    "holds W (\<lambda>db. view C db = v) (clear_bytes D lm_ktc lm_ktc_update)
      (\<lambda>_ db. view C db = v\<lparr>vw_ktc := Map.empty\<rparr>)"
    "holds W (\<lambda>db. view C db = v)
       (tx_write lm_deleted_ids lm_deleted_ids_update (kv_clear (le_unit D)))
      (\<lambda>_ db. view C db = v\<lparr>vw_deleted := Map.empty\<rparr>)"
    "holds W (\<lambda>db. view C db = v)
       (tx_write lm_deleted_ids_by_author lm_deleted_ids_by_author_update (kv_clear (le_unit D)))
      (\<lambda>_ db. view C db = v\<lparr>vw_by_author := Map.empty\<rparr>)"
    "holds W (\<lambda>db. view C db = v)
       (tx_write lm_deleted_coordinates lm_deleted_coordinates_update (kv_clear (le_u64 D)))
      (\<lambda>_ db. view C db = v\<lparr>vw_coordinates := Map.empty\<rparr>)"
    "holds W (\<lambda>db. view C db = v)
       (tx_write lm_vanished_public_keys lm_vanished_public_keys_update (kv_clear (le_unit D)))
      (\<lambda>_ db. view C db = v\<lparr>vw_vanished := Map.empty\<rparr>)"
proof -
  have total: "\<exists>t'. kv_clear (le_bytes D) t = Inr t'" "\<exists>t'. kv_clear (le_unit D) u = Inr t'"
      "\<exists>t'. kv_clear (le_u64 D) n = Inr t'" if W for t u n
    using assms(2) [OF that] by (simp_all add: writable_def kv_writable_def)
  note laws = kv_clear_ok [OF env_okD(1) [OF assms(1)]] kv_clear_ok [OF env_okD(2) [OF assms(1)]]
    kv_clear_ok [OF env_okD(3) [OF assms(1)]]
  show "holds W (\<lambda>db. view C db = v) (clear_bytes D lm_events lm_events_update)
      (\<lambda>_ db. view C db = v\<lparr>vw_events := Map.empty\<rparr>)"
    "holds W (\<lambda>db. view C db = v) (clear_bytes D lm_ci lm_ci_update)
      (\<lambda>_ db. view C db = v\<lparr>vw_ci := Map.empty\<rparr>)"
    "holds W (\<lambda>db. view C db = v) (clear_bytes D lm_tc lm_tc_update)
      (\<lambda>_ db. view C db = v\<lparr>vw_tc := Map.empty\<rparr>)"
    "holds W (\<lambda>db. view C db = v) (clear_bytes D lm_ac lm_ac_update)
      (\<lambda>_ db. view C db = v\<lparr>vw_ac := Map.empty\<rparr>)"
    "holds W (\<lambda>db. view C db = v) (clear_bytes D lm_akc lm_akc_update)
      (\<lambda>_ db. view C db = v\<lparr>vw_akc := Map.empty\<rparr>)"
    "holds W (\<lambda>db. view C db = v) (clear_bytes D lm_atc lm_atc_update)
      (\<lambda>_ db. view C db = v\<lparr>vw_atc := Map.empty\<rparr>)"
    "holds W (\<lambda>db. view C db = v) (clear_bytes D lm_kc lm_kc_update)
      (\<lambda>_ db. view C db = v\<lparr>vw_kc := Map.empty\<rparr>)"
    "holds W (\<lambda>db. view C db = v) (clear_bytes D lm_ktc lm_ktc_update)
      (\<lambda>_ db. view C db = v\<lparr>vw_ktc := Map.empty\<rparr>)"
    "holds W (\<lambda>db. view C db = v)
       (tx_write lm_deleted_ids lm_deleted_ids_update (kv_clear (le_unit D)))
      (\<lambda>_ db. view C db = v\<lparr>vw_deleted := Map.empty\<rparr>)"
    "holds W (\<lambda>db. view C db = v)
       (tx_write lm_deleted_ids_by_author lm_deleted_ids_by_author_update (kv_clear (le_unit D)))
      (\<lambda>_ db. view C db = v\<lparr>vw_by_author := Map.empty\<rparr>)"
    "holds W (\<lambda>db. view C db = v)
       (tx_write lm_deleted_coordinates lm_deleted_coordinates_update (kv_clear (le_u64 D)))
      (\<lambda>_ db. view C db = v\<lparr>vw_coordinates := Map.empty\<rparr>)"
    "holds W (\<lambda>db. view C db = v)
       (tx_write lm_vanished_public_keys lm_vanished_public_keys_update (kv_clear (le_unit D)))
      (\<lambda>_ db. view C db = v\<lparr>vw_vanished := Map.empty\<rparr>)"
    by (rule holds_write, (auto simp: view_def dest: laws)[1], rule total, assumption)+
qed

section \<open>Storing and removing\<close>

definition put_all :: "u8 list list \<Rightarrow> 'v \<Rightarrow> (u8 list \<rightharpoonup> 'v) \<Rightarrow> u8 list \<rightharpoonup> 'v" where
  "put_all ks i m = (\<lambda>k. if k \<in> set ks then Some i else m k)"

definition drop_all :: "u8 list list \<Rightarrow> (u8 list \<rightharpoonup> 'v) \<Rightarrow> u8 list \<rightharpoonup> 'v" where
  "drop_all ks m = (\<lambda>k. if k \<in> set ks then None else m k)"

lemma put_all_simps [simp]:
  "put_all [] i m = m" "put_all [k] i m = m(k \<mapsto> i)"
  "(put_all ks i m)(k \<mapsto> i) = put_all (ks @ [k]) i m"
  by (auto simp: put_all_def)

lemma drop_all_simps [simp]:
  "drop_all [] m = m" "drop_all [k] m = m(k := None)"
  "(drop_all ks m)(k := None) = drop_all (ks @ [k]) m"
  by (auto simp: drop_all_def)

text \<open>The single letter tags of an event, and its keys in each index.\<close>

definition single_tags :: "database_event \<Rightarrow> (single_letter_tag \<times> string) list" where
  "single_tags d = List.map_filter db_tag_extract (de_tags d)"

definition keys_by ::
  "('q \<Rightarrow> timestamp \<Rightarrow> u8 list \<Rightarrow> u8 list) \<Rightarrow> (database_event \<Rightarrow> 'q list) \<Rightarrow> database_event \<Rightarrow>
   u8 list list" where
  "keys_by key qs d = map (\<lambda>q. key q (de_created_at d) (de_id d)) (qs d)"

definition ci_keys :: "database_event \<Rightarrow> u8 list list" where
  "ci_keys = keys_by (\<lambda>_ :: unit. make_ci_index_key) (\<lambda>_. [()])"

definition ac_keys :: "database_event \<Rightarrow> u8 list list" where
  "ac_keys = keys_by make_ac_index_key (\<lambda>d. [de_pubkey d])"

definition kc_keys :: "database_event \<Rightarrow> u8 list list" where
  "kc_keys = keys_by make_kc_index_key (\<lambda>d. [de_kind d])"

definition akc_keys :: "database_event \<Rightarrow> u8 list list" where
  "akc_keys = keys_by (\<lambda>(a, k). make_akc_index_key a k) (\<lambda>d. [(de_pubkey d, de_kind d)])"

definition tc_keys :: "database_event \<Rightarrow> u8 list list" where
  "tc_keys = keys_by (\<lambda>(n, v). make_tc_index_key n v) single_tags"

definition atc_keys :: "database_event \<Rightarrow> u8 list list" where
  "atc_keys = keys_by (\<lambda>(a, n, v). make_atc_index_key a n v)
     (\<lambda>d. map (\<lambda>(n, v). (de_pubkey d, n, v)) (single_tags d))"

definition ktc_keys :: "database_event \<Rightarrow> u8 list list" where
  "ktc_keys = keys_by (\<lambda>(k, n, v). make_ktc_index_key k n v)
     (\<lambda>d. map (\<lambda>(n, v). (de_kind d, n, v)) (single_tags d))"

lemmas keys_defs = ci_keys_def ac_keys_def kc_keys_def akc_keys_def tc_keys_def atc_keys_def
  ktc_keys_def keys_by_def

lemma index_keys_new:
  "ei_id (event_index_keys_new d) = de_id d" "[ei_ci (event_index_keys_new d)] = ci_keys d"
  "[ei_akc (event_index_keys_new d)] = akc_keys d" "[ei_ac (event_index_keys_new d)] = ac_keys d"
  "[ei_kc (event_index_keys_new d)] = kc_keys d"
  "map ti_atc (ei_tags (event_index_keys_new d)) = atc_keys d"
  "map ti_ktc (ei_tags (event_index_keys_new d)) = ktc_keys d"
  "map ti_tc (ei_tags (event_index_keys_new d)) = tc_keys d"
  by (simp_all add: event_index_keys_new_def keys_defs single_tags_def comp_def split_beta)

lemma keys_valid:
  assumes "de_ok d"
  shows "k \<in> set (ci_keys d) \<union> set (ac_keys d) \<union> set (kc_keys d) \<union> set (akc_keys d) \<union>
    set (tc_keys d) \<union> set (atc_keys d) \<union> set (ktc_keys d) \<Longrightarrow> key_valid k"
  using assms
  by (auto simp: keys_defs key_valid_def de_ok_def make_ci_index_key_def make_ac_index_key_def
      make_kc_index_key_def make_akc_index_key_def make_tc_index_key_def make_atc_index_key_def
      make_ktc_index_key_def extend_key Let_def)

definition index_view :: "database_event \<Rightarrow> lmdb_view \<Rightarrow> lmdb_view" where
  "index_view d v =
     v\<lparr>vw_ci := put_all (ci_keys d) (de_id d) (vw_ci v),
       vw_akc := put_all (akc_keys d) (de_id d) (vw_akc v),
       vw_ac := put_all (ac_keys d) (de_id d) (vw_ac v),
       vw_kc := put_all (kc_keys d) (de_id d) (vw_kc v),
       vw_atc := put_all (atc_keys d) (de_id d) (vw_atc v),
       vw_ktc := put_all (ktc_keys d) (de_id d) (vw_ktc v),
       vw_tc := put_all (tc_keys d) (de_id d) (vw_tc v)\<rparr>"

definition store_view :: "flatbuffers \<Rightarrow> database_event \<Rightarrow> lmdb_view \<Rightarrow> lmdb_view" where
  "store_view F d v =
     index_view d (v\<lparr>vw_events := (vw_events v)(de_id d \<mapsto> encode_flatbuf F d)\<rparr>)"

definition remove_view :: "database_event \<Rightarrow> lmdb_view \<Rightarrow> lmdb_view" where
  "remove_view d v =
     v\<lparr>vw_events := (vw_events v)(de_id d := None),
       vw_ci := drop_all (ci_keys d) (vw_ci v), vw_akc := drop_all (akc_keys d) (vw_akc v),
       vw_ac := drop_all (ac_keys d) (vw_ac v), vw_kc := drop_all (kc_keys d) (vw_kc v),
       vw_atc := drop_all (atc_keys d) (vw_atc v), vw_ktc := drop_all (ktc_keys d) (vw_ktc v),
       vw_tc := drop_all (tc_keys d) (vw_tc v)\<rparr>"

lemma holds_index_event:
  assumes "env_ok D C" and "W \<Longrightarrow> writable D" and "de_ok d"
  shows "holds W (\<lambda>db. view C db = v) (lmdb_index_event D (event_index_keys_new d))
    (\<lambda>_ db. view C db = index_view d v)"
proof -
  let ?x = "event_index_keys_new d"
  let ?v = "v\<lparr>vw_ci := put_all (ci_keys d) (de_id d) (vw_ci v),
       vw_akc := put_all (akc_keys d) (de_id d) (vw_akc v),
       vw_ac := put_all (ac_keys d) (de_id d) (vw_ac v),
       vw_kc := put_all (kc_keys d) (de_id d) (vw_kc v)\<rparr>"
  let ?I = "\<lambda>(ts :: tag_index_key_set list) db. view C db = ?v\<lparr>vw_atc := put_all (map ti_atc ts) (de_id d) (vw_atc v),
       vw_ktc := put_all (map ti_ktc ts) (de_id d) (vw_ktc v),
       vw_tc := put_all (map ti_tc ts) (de_id d) (vw_tc v)\<rparr>"
  have valid: "key_valid (ti_atc t)" "key_valid (ti_ktc t)" "key_valid (ti_tc t)"
    if "t \<in> set (ei_tags ?x)" for t
    using keys_valid [OF assms(3)] that by (auto simp flip: index_keys_new)
  have one: "key_valid (ei_ci ?x)" "key_valid (ei_akc ?x)" "key_valid (ei_ac ?x)" "key_valid (ei_kc ?x)"
    using keys_valid [OF assms(3)] by (auto simp flip: index_keys_new(2-5))
  have loop: "holds W (?I []) (tx_for (index_tag D (ei_id ?x)) (ei_tags ?x)) (\<lambda>_. ?I (ei_tags ?x))"
  proof (rule holds_for)
    fix ys t zs assume "ei_tags ?x = ys @ t # zs"
    then have t: "t \<in> set (ei_tags ?x)" by simp
    show "holds W (?I ys) (index_tag D (ei_id ?x) t) (\<lambda>_. ?I (ys @ [t]))"
      unfolding index_tag_def
      by (rule holds_then, rule holds_puts(6) [OF assms(1,2) valid(1) [OF t]], assumption,
          rule holds_then, rule holds_puts(8) [OF assms(1,2) valid(2) [OF t]], assumption,
          rule holds_post, rule holds_puts(3) [OF assms(1,2) valid(3) [OF t]], assumption)
        (simp add: index_keys_new(1))
  qed
  show ?thesis
    unfolding lmdb_index_event_def
    by (rule holds_then, rule holds_puts(2) [OF assms(1,2) one(1)], assumption,
        rule holds_then, rule holds_puts(5) [OF assms(1,2) one(2)], assumption,
        rule holds_then, rule holds_puts(4) [OF assms(1,2) one(3)], assumption,
        rule holds_then, rule holds_puts(7) [OF assms(1,2) one(4)], assumption,
        rule holds_pre, rule_tac [2] holds_post, rule_tac [2] loop)
      (simp_all add: index_view_def index_keys_new(1,6-8) flip: index_keys_new(2-5))
qed

lemma holds_store [triples]:
  assumes "env_ok D C" and "W \<Longrightarrow> writable D" and "de_ok d"
  shows "holds W (\<lambda>db. view C db = v) (lmdb_store D d)
    (\<lambda>_ db. view C db = store_view (le_fb D) d v)"
proof -
  have "key_valid (de_id d)" using assms(3) by (auto simp: de_ok_def key_valid_def)
  then show ?thesis
    unfolding lmdb_store_def store_view_def
    by (intro holds_then [OF holds_puts(1) [OF assms(1,2)] holds_index_event [OF assms(1,2)]] assms(3))
qed

lemma holds_remove [triples]:
  assumes "env_ok D C" and "W \<Longrightarrow> writable D" and "de_ok d"
  shows "holds W (\<lambda>db. view C db = v) (lmdb_remove D (event_index_keys_new d))
    (\<lambda>_ db. view C db = remove_view d v)"
proof -
  let ?x = "event_index_keys_new d"
  let ?v = "v\<lparr>vw_events := (vw_events v)(de_id d := None),
       vw_ci := drop_all (ci_keys d) (vw_ci v), vw_akc := drop_all (akc_keys d) (vw_akc v),
       vw_ac := drop_all (ac_keys d) (vw_ac v), vw_kc := drop_all (kc_keys d) (vw_kc v)\<rparr>"
  let ?I = "\<lambda>(ts :: tag_index_key_set list) db. view C db = ?v\<lparr>vw_atc := drop_all (map ti_atc ts) (vw_atc v),
       vw_ktc := drop_all (map ti_ktc ts) (vw_ktc v), vw_tc := drop_all (map ti_tc ts) (vw_tc v)\<rparr>"
  have valid: "key_valid (ti_atc t)" "key_valid (ti_ktc t)" "key_valid (ti_tc t)"
    if "t \<in> set (ei_tags ?x)" for t
    using keys_valid [OF assms(3)] that by (auto simp flip: index_keys_new)
  have one: "key_valid (ei_id ?x)" "key_valid (ei_ci ?x)" "key_valid (ei_akc ?x)"
      "key_valid (ei_ac ?x)" "key_valid (ei_kc ?x)"
    subgoal using assms(3) by (auto simp: index_keys_new(1) de_ok_def key_valid_def)
    using keys_valid [OF assms(3)] by (auto simp flip: index_keys_new(2-5))
  have loop: "holds W (?I []) (tx_for (remove_tag D) (ei_tags ?x)) (\<lambda>_. ?I (ei_tags ?x))"
  proof (rule holds_for)
    fix ys t zs assume "ei_tags ?x = ys @ t # zs"
    then have t: "t \<in> set (ei_tags ?x)" by simp
    show "holds W (?I ys) (remove_tag D t) (\<lambda>_. ?I (ys @ [t]))"
      unfolding remove_tag_def
      by (rule holds_then, rule holds_deletes(6) [OF assms(1,2) valid(1) [OF t]], assumption,
          rule holds_then, rule holds_deletes(8) [OF assms(1,2) valid(2) [OF t]], assumption,
          rule holds_post, rule holds_deletes(3) [OF assms(1,2) valid(3) [OF t]], assumption)
        simp
  qed
  show ?thesis
    unfolding lmdb_remove_def
    by (rule holds_then, rule holds_deletes(1) [OF assms(1,2) one(1)], assumption,
        rule holds_then, rule holds_deletes(2) [OF assms(1,2) one(2)], assumption,
        rule holds_then, rule holds_deletes(5) [OF assms(1,2) one(3)], assumption,
        rule holds_then, rule holds_deletes(4) [OF assms(1,2) one(4)], assumption,
        rule holds_then, rule holds_deletes(7) [OF assms(1,2) one(5)], assumption,
        rule holds_pre, rule_tac [2] holds_post, rule_tac [2] loop)
      (simp_all add: remove_view_def index_keys_new(1,6-8) flip: index_keys_new(2-5))
qed

definition indexes_cleared :: "lmdb_view \<Rightarrow> lmdb_view" where
  "indexes_cleared v =
     v\<lparr>vw_ci := Map.empty, vw_tc := Map.empty, vw_ac := Map.empty, vw_akc := Map.empty,
       vw_kc := Map.empty, vw_atc := Map.empty, vw_ktc := Map.empty, vw_deleted := Map.empty,
       vw_by_author := Map.empty, vw_coordinates := Map.empty, vw_vanished := Map.empty\<rparr>"

lemma holds_wipe_indexes [triples]:
  assumes "env_ok D C" and "W \<Longrightarrow> writable D"
  shows "holds W (\<lambda>db. view C db = v) (wipe_indexes D) (\<lambda>_ db. view C db = indexes_cleared v)"
  unfolding wipe_indexes_def indexes_cleared_def
  by (rule holds_then, rule holds_clears(2) [OF assms], assumption,
      rule holds_then, rule holds_clears(3) [OF assms], assumption,
      rule holds_then, rule holds_clears(4) [OF assms], assumption,
      rule holds_then, rule holds_clears(5) [OF assms], assumption,
      rule holds_then, rule holds_clears(7) [OF assms], assumption,
      rule holds_then, rule holds_clears(6) [OF assms], assumption,
      rule holds_then, rule holds_clears(8) [OF assms], assumption,
      rule holds_then, rule holds_clears(9) [OF assms], assumption,
      rule holds_then, rule holds_clears(10) [OF assms], assumption,
      rule holds_then, rule holds_clears(11) [OF assms], assumption,
      rule holds_post, rule holds_clears(12) [OF assms], assumption) simp

lemma holds_wipe [triples]:
  assumes "env_ok D C" and "W \<Longrightarrow> writable D"
  shows "holds W (\<lambda>db. view C db = v) (lmdb_wipe D)
    (\<lambda>_ db. view C db = indexes_cleared (v\<lparr>vw_events := Map.empty\<rparr>))"
  unfolding lmdb_wipe_def
  by (rule holds_then [OF holds_clears(1) [OF assms] holds_wipe_indexes [OF assms]])

end
