(* ===== verification/Lmdb_Invariant.thy ===== *)
theory Lmdb_Invariant
  imports Lmdb_Tables
begin

text \<open>
  The invariant of the tables: a finite set of events with distinct ids, each under its id in the
  table of events, and every index has exactly the keys of these events. What an index gives for a
  range is then a sorted list of the events that it concerns, and storing and removing an event
  keep the invariant.
\<close>

section \<open>The invariant\<close>

definition index_ok ::
  "(database_event \<Rightarrow> u8 list list) \<Rightarrow> database_event set \<Rightarrow> (u8 list \<rightharpoonup> u8 list) \<Rightarrow> bool" where
  "index_ok keys E m \<longleftrightarrow> (\<forall>k i. m k = Some i \<longleftrightarrow> (\<exists>d \<in> E. k \<in> set (keys d) \<and> i = de_id d))"

text \<open>The table of events has the entries of the named tables, whose keys are no ids.\<close>

definition events_ok :: "flatbuffers \<Rightarrow> database_event set \<Rightarrow> (u8 list \<rightharpoonup> u8 list) \<Rightarrow> bool" where
  "events_ok F E m \<longleftrightarrow>
     (\<forall>d \<in> E. m (de_id d) = Some (encode_flatbuf F d)) \<and>
     (\<forall>k b. m k = Some b \<longrightarrow>
        k \<in> de_id ` E \<or> length k \<noteq> 32 \<and> (\<exists>e. from_flatbuf F b = Inl e))"

definition tables_ok :: "flatbuffers \<Rightarrow> database_event set \<Rightarrow> lmdb_view \<Rightarrow> bool" where
  "tables_ok F E v \<longleftrightarrow>
     finite E \<and> (\<forall>d \<in> E. de_ok d) \<and> inj_on de_id E \<and> events_ok F E (vw_events v) \<and>
     index_ok ci_keys E (vw_ci v) \<and> index_ok akc_keys E (vw_akc v) \<and>
     index_ok ac_keys E (vw_ac v) \<and> index_ok kc_keys E (vw_kc v) \<and>
     index_ok atc_keys E (vw_atc v) \<and> index_ok ktc_keys E (vw_ktc v) \<and>
     index_ok tc_keys E (vw_tc v)"

lemma tables_okD:
  assumes "tables_ok F E v"
  shows "finite E" "\<And>d. d \<in> E \<Longrightarrow> de_ok d" "inj_on de_id E" "events_ok F E (vw_events v)"
    "index_ok ci_keys E (vw_ci v)" "index_ok akc_keys E (vw_akc v)" "index_ok ac_keys E (vw_ac v)"
    "index_ok kc_keys E (vw_kc v)" "index_ok atc_keys E (vw_atc v)" "index_ok ktc_keys E (vw_ktc v)"
    "index_ok tc_keys E (vw_tc v)"
  using assms by (simp_all add: tables_ok_def)

lemma same_id: "tables_ok F E v \<Longrightarrow> d \<in> E \<Longrightarrow> c \<in> E \<Longrightarrow> de_id d = de_id c \<Longrightarrow> d = c"
  using tables_okD(3) by (blast dest: inj_onD)

section \<open>Keys belong to one event\<close>

context time_index
begin

lemma keys_separate:
  assumes "k \<in> set (keys_by key qs d)" and "k \<in> set (keys_by key qs c)"
    and "\<And>q. q \<in> set (qs d) \<Longrightarrow> valid q" and "\<And>q. q \<in> set (qs c) \<Longrightarrow> valid q"
    and "de_ok d" and "de_ok c"
  shows "de_id d = de_id c"
proof -
  obtain q where k: "k = key q (de_created_at d) (de_id d)" and q: "q \<in> set (qs d)"
    using assms(1) by (auto simp: keys_by_def)
  obtain r where l: "k = key r (de_created_at c) (de_id c)" and r: "r \<in> set (qs c)"
    using assms(2) by (auto simp: keys_by_def)
  have t: "de_created_at d \<le> u64_max" "de_created_at c \<le> u64_max"
    using assms(5,6) by (simp_all add: de_ok_def)
  show ?thesis
    using key_inj [OF assms(3) [OF q] assms(4) [OF r] t] k l by metis
qed

text \<open>What a range of the index gives: the events of the query between the two times, sorted.\<close>

lemma range_events:
  assumes kv: "kv_ok K m" and ix: "index_ok (keys_by key qs) E (m t)"
    and ok: "\<And>d. d \<in> E \<Longrightarrow> de_ok d" and inj: "inj_on de_id E"
    and valid: "\<And>d r. d \<in> E \<Longrightarrow> r \<in> set (qs d) \<Longrightarrow> valid r" and q: "valid q"
    and since: "since \<le> u64_max" and until: "until \<le> u64_max"
  shows "\<exists>xs ds. kv_range K t (key q until EVENT_ID_ALL_ZEROS) (key q since EVENT_ID_ALL_255) =
        Inr (map Inr xs) \<and> map snd xs = map de_id ds \<and> bts_ok de_key ds \<and>
      set ds = {d \<in> E. (\<exists>r \<in> set (qs d). prefix r = prefix q) \<and>
        since \<le> de_created_at d \<and> de_created_at d \<le> until}"
proof -
  let ?lo = "key q until EVENT_ID_ALL_ZEROS" and ?hi = "key q since EVENT_ID_ALL_255"
  let ?S = "{d \<in> E. (\<exists>r \<in> set (qs d). prefix r = prefix q) \<and>
        since \<le> de_created_at d \<and> de_created_at d \<le> until}"
  obtain xs where range: "kv_range K t ?lo ?hi = Inr (map Inr xs)"
    and rows: "rows_of (m t) (\<lambda>k. ?lo \<le> k \<and> k < ?hi) xs"
    using kv_range_ok [OF kv] by blast
  define the_ev where "the_ev i = inv_into E de_id i" for i
  have the_ev: "the_ev (de_id d) = d" if "d \<in> E" for d
    using inj that by (simp add: the_ev_def)
  have iff: "?lo \<le> key r (de_created_at d) (de_id d) \<and> key r (de_created_at d) (de_id d) < ?hi \<longleftrightarrow>
      prefix r = prefix q \<and> since \<le> de_created_at d \<and> de_created_at d \<le> until"
    if "d \<in> E" "r \<in> set (qs d)" for d r
    using in_range_iff [OF q valid [OF that] _ since until, of "de_created_at d" "de_id d"]
      ok [OF that(1)] by (simp add: de_ok_def)
  text \<open>A row is the key of an event of the set.\<close>
  have row: "\<exists>d r. d \<in> ?S \<and> r \<in> set (qs d) \<and> prefix r = prefix q \<and> i = de_id d \<and>
      k = key r (de_created_at d) (de_id d)" if "(k, i) \<in> set xs" for k i
  proof -
    from that rows have mk: "m t k = Some i" and k: "?lo \<le> k" "k < ?hi" by (auto simp: rows_of_def)
    from mk ix obtain d r where d: "d \<in> E" "i = de_id d" "r \<in> set (qs d)"
      and kd: "k = key r (de_created_at d) (de_id d)"
      by (auto simp: index_ok_def keys_by_def)
    show ?thesis using iff [OF d(1,3)] k d kd by blast
  qed
  define ds where "ds = map (\<lambda>(k, i). the_ev i) xs"
  have ids: "map snd xs = map de_id ds"
    unfolding ds_def using row the_ev by (force simp: comp_def)
  have set: "set ds = ?S"
  proof (intro set_eqI iffI)
    fix d assume "d \<in> set ds"
    then obtain k i where "(k, i) \<in> set xs" "d = the_ev i" by (auto simp: ds_def)
    then show "d \<in> ?S" using row the_ev by fastforce
  next
    fix d assume d: "d \<in> ?S"
    then obtain r where r: "d \<in> E" "r \<in> set (qs d)" "prefix r = prefix q" by blast
    let ?k = "key r (de_created_at d) (de_id d)"
    have "m t ?k = Some (de_id d)" using ix r by (auto simp: index_ok_def keys_by_def)
    moreover have "?lo \<le> ?k \<and> ?k < ?hi" using iff [OF r(1,2)] d r by blast
    ultimately have "(?k, de_id d) \<in> set xs" using rows by (auto simp: rows_of_def)
    then have "the_ev (de_id d) \<in> set ds" unfolding ds_def by force
    then show "d \<in> set ds" using the_ev [OF r(1)] by simp
  qed
  have "sorted_wrt (\<lambda>a b. de_key (case a of (k, i) \<Rightarrow> the_ev i) < de_key (case b of (k, i) \<Rightarrow> the_ev i)) xs"
  proof (rule sorted_wrt_mono_rel)
    show "sorted_wrt (\<lambda>a b. fst a < fst b) xs" using rows by (simp add: rows_of_def bts_ok_def)
    fix a b assume ab: "a \<in> set xs" "b \<in> set xs" "fst a < fst b"
    obtain k i l j where e: "a = (k, i)" "b = (l, j)" by (cases a, cases b)
    obtain d r where d: "d \<in> ?S" "r \<in> set (qs d)" "prefix r = prefix q" "i = de_id d"
        "k = key r (de_created_at d) (de_id d)" using row [of k i] ab e by blast
    obtain c s where c: "c \<in> ?S" "s \<in> set (qs c)" "prefix s = prefix q" "j = de_id c"
        "l = key s (de_created_at c) (de_id c)" using row [of l j] ab e by blast
    have "de_created_at d \<le> u64_max" "de_created_at c \<le> u64_max"
      using ok d(1) c(1) by (auto simp: de_ok_def)
    then have "de_created_at c < de_created_at d \<or> de_created_at d = de_created_at c \<and> de_id d < de_id c"
      using key_less [OF valid valid, of d r c s "de_created_at d" "de_created_at c" "de_id d" "de_id c"]
        ab(3) e d c by auto
    then show "de_key (case a of (k, i) \<Rightarrow> the_ev i) < de_key (case b of (k, i) \<Rightarrow> the_ev i)"
      using the_ev d(1,4) c(1,4) e by (auto simp: de_key_def)
  qed
  then have "bts_ok de_key ds" by (simp add: ds_def bts_ok_def sorted_wrt_map)
  with range ids set show ?thesis by blast
qed

end

section \<open>Storing and removing keep the invariant\<close>

definition separate :: "(database_event \<Rightarrow> u8 list list) \<Rightarrow> bool" where
  "separate keys \<longleftrightarrow>
     (\<forall>d c k. de_ok d \<longrightarrow> de_ok c \<longrightarrow> k \<in> set (keys d) \<longrightarrow> k \<in> set (keys c) \<longrightarrow> de_id d = de_id c)"

lemma all_separate:
  "separate ci_keys" "separate ac_keys" "separate kc_keys" "separate akc_keys" "separate tc_keys"
  "separate atc_keys" "separate ktc_keys"
  unfolding separate_def ci_keys_def ac_keys_def kc_keys_def akc_keys_def tc_keys_def atc_keys_def
    ktc_keys_def
  by (intro allI impI, erule (1) ci.keys_separate ac.keys_separate kc.keys_separate
      akc.keys_separate tc.keys_separate atc.keys_separate ktc.keys_separate;
      auto simp: de_ok_def)+

lemma index_ok_put:
  assumes "index_ok keys E m" and "separate keys" and "de_ok d" and "\<And>c. c \<in> E \<Longrightarrow> de_ok c"
  shows "index_ok keys (insert d E) (put_all (keys d) (de_id d) m)"
proof -
  have "de_id c = de_id d" if "c \<in> E" "k \<in> set (keys c)" "k \<in> set (keys d)" for c k
    using assms(2-4) that unfolding separate_def by blast
  then show ?thesis
    using assms(1) by (fastforce simp: index_ok_def put_all_def)
qed

lemma index_ok_drop:
  assumes "index_ok keys E m" and "separate keys" and "de_ok d" and "\<And>c. c \<in> E \<Longrightarrow> de_ok c"
    and "\<And>c. c \<in> E \<Longrightarrow> de_id c = de_id d \<Longrightarrow> c = d"
  shows "index_ok keys (E - {d}) (drop_all (keys d) m)"
proof -
  have "c = d" if "c \<in> E" "k \<in> set (keys c)" "k \<in> set (keys d)" for c k
    using assms(2-5) that unfolding separate_def by blast
  then show ?thesis
    using assms(1) unfolding index_ok_def drop_all_def by (auto split: if_splits)
qed

lemma index_view_ok:
  assumes "tables_ok F E v" and "de_ok d" and "d \<in> E"
  shows "tables_ok F E (index_view d v)"
proof -
  have "index_ok keys E (put_all (keys d) (de_id d) m)" if "index_ok keys E m" "separate keys" for keys m
    using index_ok_put [OF that assms(2) tables_okD(2) [OF assms(1)]] insert_absorb [OF assms(3)] by simp
  then show ?thesis
    using tables_okD [OF assms(1)] all_separate by (simp add: tables_ok_def index_view_def)
qed

lemma store_view_ok:
  assumes v: "tables_ok F E v" and d: "de_ok d" and fresh: "de_id d \<notin> de_id ` E"
  shows "tables_ok F (insert d E) (store_view F d v)"
proof -
  note put = index_ok_put [OF _ _ d tables_okD(2) [OF v]]
  have len: "length (de_id d) = 32" using d by (simp add: de_ok_def)
  have "events_ok F (insert d E) ((vw_events v)(de_id d \<mapsto> encode_flatbuf F d))"
    using tables_okD(4) [OF v] fresh by (auto simp: events_ok_def image_iff)
  moreover have "inj_on de_id (insert d E)" using tables_okD(3) [OF v] fresh by auto
  ultimately show ?thesis
    using tables_okD [OF v] d put all_separate by (simp add: tables_ok_def store_view_def index_view_def)
qed

lemma remove_view_ok:
  assumes v: "tables_ok F E v" and d: "de_ok d"
    and same: "\<And>c. c \<in> E \<Longrightarrow> de_id c = de_id d \<Longrightarrow> c = d"
  shows "tables_ok F (E - {d}) (remove_view d v)"
proof -
  note drop = index_ok_drop [OF _ _ d tables_okD(2) [OF v] same]
  have "events_ok F (E - {d}) ((vw_events v)(de_id d := None))"
    unfolding events_ok_def
  proof (intro conjI ballI allI impI)
    fix c assume "c \<in> E - {d}"
    then show "((vw_events v)(de_id d := None)) (de_id c) = Some (encode_flatbuf F c)"
      using tables_okD(4) [OF v] same by (auto simp: events_ok_def)
  next
    fix k b assume "((vw_events v)(de_id d := None)) k = Some b"
    then have k: "k \<noteq> de_id d" "vw_events v k = Some b" by (auto split: if_splits)
    then show "k \<in> de_id ` (E - {d}) \<or> length k \<noteq> 32 \<and> (\<exists>e. from_flatbuf F b = Inl e)"
      using tables_okD(4) [OF v] unfolding events_ok_def by blast
  qed
  moreover have "inj_on de_id (E - {d})" using tables_okD(3) [OF v] by (rule inj_on_diff)
  ultimately show ?thesis
    using tables_okD [OF v] drop all_separate by (simp add: tables_ok_def remove_view_def)
qed

text \<open>The marks of a view: what is not an event or an index.\<close>

definition marks_agree :: "lmdb_view \<Rightarrow> lmdb_view \<Rightarrow> bool" where
  "marks_agree v w \<longleftrightarrow>
     vw_deleted v = vw_deleted w \<and> vw_by_author v = vw_by_author w \<and>
     vw_coordinates v = vw_coordinates w \<and> vw_vanished v = vw_vanished w \<and>
     vw_metadata v = vw_metadata w"

lemma marks_agree_views [simp]:
  "marks_agree (store_view F d v) w = marks_agree v w"
  "marks_agree (remove_view d v) w = marks_agree v w"
  "marks_agree (index_view d v) w = marks_agree v w"
  by (simp_all add: marks_agree_def store_view_def remove_view_def index_view_def)

section \<open>Reading\<close>

lemma get_event_present:
  assumes "env_ok D C" and "tables_ok (le_fb D) E (view C db)" and "d \<in> E"
  shows "get_event_by_id D (de_id d) db = Inr (Some d)"
proof -
  have d: "de_ok d" using tables_okD(2) [OF assms(2,3)] .
  then have "key_valid (de_id d)" by (auto simp: de_ok_def key_valid_def)
  then have "kv_get (le_bytes D) (lm_events db) (de_id d) = Inr (vw_events (view C db) (de_id d))"
    using kv_get_ok [OF env_okD(1) [OF assms(1)]] by (simp add: view_def)
  moreover have "vw_events (view C db) (de_id d) = Some (encode_flatbuf (le_fb D) d)"
    using tables_okD(4) [OF assms(2)] assms(3) by (simp add: events_ok_def)
  ultimately show ?thesis
    using flatbuf_roundtrip [OF env_okD(4) [OF assms(1)] d] by (simp add: get_event_by_id_def)
qed

lemma get_event_absent:
  assumes "env_ok D C" and "tables_ok (le_fb D) E (view C db)" and "length i = 32" and "i \<notin> de_id ` E"
  shows "get_event_by_id D i db = Inr None"
proof -
  have "key_valid i" using assms(3) by (auto simp: key_valid_def)
  then have "kv_get (le_bytes D) (lm_events db) i = Inr (vw_events (view C db) i)"
    using kv_get_ok [OF env_okD(1) [OF assms(1)]] by (simp add: view_def)
  moreover have "vw_events (view C db) i = None"
    using tables_okD(4) [OF assms(2)] assms(3,4) unfolding events_ok_def
    by (metis not_None_eq)
  ultimately show ?thesis by (simp add: get_event_by_id_def)
qed

text \<open>The event with an id, if the database has one.\<close>

definition event_with :: "database_event set \<Rightarrow> u8 list \<Rightarrow> database_event option" where
  "event_with E i = (if i \<in> de_id ` E then Some (inv_into E de_id i) else None)"

lemma event_with_id: "inj_on de_id E \<Longrightarrow> d \<in> E \<Longrightarrow> event_with E (de_id d) = Some d"
  by (simp add: event_with_def)

lemma event_with_Some:
  "inj_on de_id E \<Longrightarrow> event_with E i = Some d \<longleftrightarrow> d \<in> E \<and> de_id d = i"
  using event_with_id [of E] by (metis event_with_def imageE option.distinct(1) option.inject)

lemma event_with_None: "event_with E i = None \<longleftrightarrow> i \<notin> de_id ` E"
  by (simp add: event_with_def)

lemma get_event:
  assumes "env_ok D C" and "tables_ok (le_fb D) E (view C db)" and "length i = 32"
  shows "get_event_by_id D i db = Inr (event_with E i)"
proof (cases "i \<in> de_id ` E")
  case True
  then show ?thesis
    using get_event_present [OF assms(1,2)] event_with_id [OF tables_okD(3) [OF assms(2)]] by auto
next
  case False
  then show ?thesis using get_event_absent [OF assms False] by (simp add: event_with_def)
qed

end
