(* ===== verification/Lmdb_Query.thy ===== *)
theory Lmdb_Query
  imports Lmdb_Invariant
begin

text \<open>
  The queries of the LMDB store against a scan of all events: the state of a query is good for the
  events that it has looked at, every access pattern keeps it good while it looks at more of them,
  and a good state for all matching events has the newest of them at its head.
\<close>

section \<open>Scanning a list of events\<close>

fun scan_cell ::
  "(database_event \<Rightarrow> bool) \<Rightarrow> nat option \<Rightarrow> nat \<Rightarrow> database_event list \<Rightarrow> query_state \<Rightarrow> query_state" where
  "scan_cell P limit cnt [] (since, out) = (since, out)"
| "scan_cell P limit cnt (d # ds) (since, out) =
     (if de_created_at d < since then (since, out)
      else if P d then
        (let out = bts_insert de_key d out
         in if limit_reached limit (cnt + 1) then (move_since since (de_created_at d), out)
            else scan_cell P limit (cnt + 1) ds (since, out))
      else scan_cell P limit cnt ds (since, out))"

lemma iterate_scan:
  assumes "env_ok D C" and "tables_ok (le_fb D) E (view C db)" and "set ds \<subseteq> E"
  shows "iterate_filter_until_limit D db f limit cnt (map de_id ds) s =
    Inr (scan_cell (df_match_event f) limit cnt ds s)"
  using assms(3) get_event_present [OF assms(1,2)]
  by (induction ds arbitrary: cnt s) (auto simp: ok_or_def Let_def)

lemma per_event_scan:
  assumes "env_ok D C" and "tables_ok (le_fb D) E (view C db)" and "set ds \<subseteq> E"
    and "map snd xs = map de_id ds" and "is_replaceable (from_u16 kind) \<Longrightarrow> length ds \<le> 1"
  shows "per_event D db f limit kind cnt (map Inr xs) s =
    Inr (scan_cell (df_match_event f) limit cnt ds s)"
  using assms(3-5)
proof (induction xs arbitrary: cnt s ds)
  case Nil
  then show ?case by (cases s) simp
next
  case (Cons x xs)
  obtain d ds' where ds: "ds = d # ds'" using Cons.prems(2) by (cases ds) auto
  obtain k where x: "x = (k, de_id d)" using Cons.prems(2) ds by (cases x) auto
  obtain since out where s: "s = (since, out)" by (cases s)
  have g: "get_event_by_id D (de_id d) db = Inr (Some d)"
    using get_event_present [OF assms(1,2)] Cons.prems(1) ds by simp
  have IH: "per_event D db f limit kind cnt (map Inr xs) s =
      Inr (scan_cell (df_match_event f) limit cnt ds' s)" for cnt s
    using Cons.prems ds by (intro Cons.IH) auto
  have "ds' = []" if "is_replaceable (from_u16 kind)" using Cons.prems(3) [OF that] ds by simp
  then show ?case using IH g by (auto simp: ds x s ok_or_def Let_def)
qed

section \<open>Good states\<close>

text \<open>
  \<open>M\<close> are the events that match, \<open>U\<close> those of them that have been looked at. An event that was
  left out has enough results before it; so has every event that is older than the moved bound.
\<close>

definition good ::
  "database_event set \<Rightarrow> timestamp \<Rightarrow> nat option \<Rightarrow> database_event set \<Rightarrow> query_state \<Rightarrow> bool" where
  "good M s0 limit U s \<longleftrightarrow>
     bts_ok de_key (snd s) \<and> set (snd s) \<subseteq> M \<and> s0 \<le> fst s \<and> fst s \<le> u64_max \<and>
     (fst s \<noteq> s0 \<longrightarrow> (\<exists>l. limit = Some l \<and> l \<le> card {c \<in> set (snd s). fst s \<le> de_created_at c})) \<and>
     (\<forall>d \<in> U. d \<in> set (snd s) \<or>
        (\<exists>l. limit = Some l \<and> l \<le> card {c \<in> set (snd s). de_key c < de_key d}))"

lemma good_start: "s0 \<le> u64_max \<Longrightarrow> good M s0 limit {} (s0, [])"
  by (simp add: good_def)

lemma good_union: "good M s0 limit U s \<Longrightarrow> good M s0 limit V s \<Longrightarrow> good M s0 limit (U \<union> V) s"
  by (auto simp: good_def)

lemma good_subset: "good M s0 limit U s \<Longrightarrow> V \<subseteq> U \<Longrightarrow> good M s0 limit V s"
  by (auto simp: good_def)

lemma de_key_less:
  "de_key c < de_key d \<longleftrightarrow>
     de_created_at d < de_created_at c \<or> de_created_at c = de_created_at d \<and> de_id c < de_id d"
  by (auto simp: de_key_def)

lemma insert_result:
  assumes "bts_ok de_key out" and "set out \<subseteq> M" and "d \<in> M" and "inj_on de_key M"
  shows "set (bts_insert de_key d out) = insert d (set out)"
proof -
  have "d \<in> set out" if c: "c \<in> set out" "de_key c = de_key d" for c
    using inj_onD [OF assms(4) c(2)] assms(2,3) c(1) by auto
  then have "bts_contains de_key d out \<Longrightarrow> d \<in> set out" unfolding bts_contains_def by blast
  then show ?thesis
    unfolding bts_insert_set [OF assms(1), of d]
    by (cases "bts_contains de_key d out") (simp_all add: insert_absorb)
qed

lemma count_mono:
  assumes "set out \<subseteq> set out'" and "\<exists>l. limit = Some l \<and> l \<le> card {c \<in> set out. P c}"
  shows "\<exists>l. limit = Some l \<and> l \<le> card {c \<in> set out'. P c}"
proof -
  have "card {c \<in> set out. P c} \<le> card {c \<in> set out'. P c}"
    using assms(1) by (intro card_mono) auto
  then show ?thesis using assms(2) le_trans by (elim exE conjE) (intro exI conjI)
qed

text \<open>More results do no harm.\<close>

lemma good_insert:
  assumes "good M s0 limit U (since, out)" and "d \<in> M" and "inj_on de_key M"
  shows "good M s0 limit U (since, bts_insert de_key d out)"
proof -
  have ok: "bts_ok de_key out" "set out \<subseteq> M" using assms(1) by (simp_all add: good_def)
  have set: "set (bts_insert de_key d out) = insert d (set out)"
    by (rule insert_result [OF ok assms(2,3)])
  then have sub: "set out \<subseteq> set (bts_insert de_key d out)" by blast
  have "\<exists>l. limit = Some l \<and> l \<le> card {c \<in> set (bts_insert de_key d out). since \<le> de_created_at c}"
    if "since \<noteq> s0"
    using assms(1) that by (intro count_mono [OF sub]) (simp add: good_def)
  moreover have "e \<in> set (bts_insert de_key d out) \<or> (\<exists>l. limit = Some l \<and>
      l \<le> card {c \<in> set (bts_insert de_key d out). de_key c < de_key e})" if "e \<in> U" for e
  proof (cases "e \<in> set out")
    case False
    then have "\<exists>l. limit = Some l \<and> l \<le> card {c \<in> set out. de_key c < de_key e}"
      using assms(1) that unfolding good_def fst_conv snd_conv by blast
    from count_mono [OF sub this] show ?thesis by (rule disjI2)
  qed (use sub in blast)
  ultimately show ?thesis
    using assms(1,2) bts_insert_ok [OF ok(1)] ok(2) set by (simp add: good_def)
qed

text \<open>A sorted cell: the accepted events of the cell come before the rest of it.\<close>

lemma scan_cell_loop:
  assumes "good M s0 limit U (since, out)" and "inj_on de_key M"
    and "bts_ok de_key ds" and "\<And>d. d \<in> set ds \<Longrightarrow> P d \<Longrightarrow> d \<in> M"
    and "\<And>d. d \<in> set ds \<Longrightarrow> since \<le> de_created_at d \<and> de_created_at d \<le> u64_max"
    and "A \<subseteq> set out" and "card A = cnt" and "\<And>a d. a \<in> A \<Longrightarrow> d \<in> set ds \<Longrightarrow> de_key a < de_key d"
  shows "good M s0 limit (U \<union> {d \<in> set ds. P d}) (scan_cell P limit cnt ds (since, out))"
  using assms
proof (induction ds arbitrary: U out A cnt)
  case Nil
  then show ?case by simp
next
  case (Cons d ds)
  have notold: "\<not> de_created_at d < since" using Cons.prems(5) [of d] by simp
  show ?case
  proof (cases "P d")
    case False
    have "good M s0 limit (U \<union> {d \<in> set ds. P d}) (scan_cell P limit cnt ds (since, out))"
      using Cons.prems by (intro Cons.IH [where A = A]) auto
    moreover have "{c \<in> set (d # ds). P c} = {c \<in> set ds. P c}" using False by auto
    ultimately show ?thesis using False notold by simp
  next
    case True
    let ?out = "bts_insert de_key d out"
    have dM: "d \<in> M" using Cons.prems(4) True by simp
    have ok: "bts_ok de_key out" "set out \<subseteq> M" using Cons.prems(1) by (simp_all add: good_def)
    have set: "set ?out = insert d (set out)" by (rule insert_result [OF ok dM Cons.prems(2)])
    have good: "good M s0 limit U (since, ?out)" by (rule good_insert [OF Cons.prems(1) dM Cons.prems(2)])
    then have good': "good M s0 limit (insert d U) (since, ?out)" by (simp add: good_def set)
    have dA: "d \<notin> A" using Cons.prems(8) by fastforce
    have fin: "finite A" using Cons.prems(6) by (rule finite_subset) simp
    have cA: "card (insert d A) = cnt + 1" using dA fin Cons.prems(7) by simp
    have A: "insert d A \<subseteq> set ?out" using Cons.prems(6) set by auto
    have before: "de_key a < de_key c" if "a \<in> insert d A" "c \<in> set ds" for a c
      using that Cons.prems(3,8) by auto
    show ?thesis
    proof (cases "limit_reached limit (cnt + 1)")
      case False
      have "good M s0 limit (insert d U \<union> {d \<in> set ds. P d})
          (scan_cell P limit (cnt + 1) ds (since, ?out))"
        using Cons.prems before
        by (intro Cons.IH [where A = "insert d A"] good' A cA) auto
      moreover have "insert d U \<union> {d \<in> set ds. P d} = U \<union> {c \<in> set (d # ds). P c}"
        using True by auto
      ultimately show ?thesis using False True notold by (simp add: Let_def)
    next
      case reached: True
      then obtain l where l: "limit = Some l" "l \<le> cnt + 1"
        by (auto simp: limit_reached_def split: option.splits)
      have later: "l \<le> card {c \<in> set ?out. de_key c < de_key e}" if "e \<in> set ds" for e
      proof -
        have "insert d A \<subseteq> {c \<in> set ?out. de_key c < de_key e}" using A before that by blast
        then have "card (insert d A) \<le> card {c \<in> set ?out. de_key c < de_key e}"
          by (rule card_mono [rotated]) simp
        then show ?thesis using cA l(2) by linarith
      qed
      have newer: "l \<le> card {c \<in> set ?out. de_created_at d \<le> de_created_at c}"
      proof -
        have "de_created_at d \<le> de_created_at a" if "a \<in> insert d A" for a
          using that Cons.prems(8) [of a d] by (auto simp: de_key_less)
        then have "insert d A \<subseteq> {c \<in> set ?out. de_created_at d \<le> de_created_at c}" using A by blast
        then have "card (insert d A) \<le> card {c \<in> set ?out. de_created_at d \<le> de_created_at c}"
          by (rule card_mono [rotated]) simp
        then show ?thesis using cA l(2) by linarith
      qed
      have "move_since since (de_created_at d) = de_created_at d"
        using notold by (auto simp: move_since_def)
      moreover have "good M s0 limit (U \<union> {c \<in> set (d # ds). P c}) (de_created_at d, ?out)"
        using good' later newer l(1) Cons.prems(5) [of d] notold
        unfolding good_def by auto
      ultimately show ?thesis using reached True notold by (simp add: Let_def)
    qed
  qed
qed

lemma good_old:
  assumes "good M s0 limit U (since, out)" and "s0 \<le> de_created_at d" and "de_created_at d < since"
  shows "\<exists>l. limit = Some l \<and> l \<le> card {c \<in> set out. de_key c < de_key d}"
proof -
  obtain l where l: "limit = Some l" "l \<le> card {c \<in> set out. since \<le> de_created_at c}"
    using assms by (auto simp: good_def)
  have "card {c \<in> set out. since \<le> de_created_at c} \<le> card {c \<in> set out. de_key c < de_key d}"
    using assms(3) by (intro card_mono) (auto simp: de_key_less)
  with l(2) have "l \<le> card {c \<in> set out. de_key c < de_key d}" by (rule le_trans)
  with l(1) show ?thesis by blast
qed

lemma scan_cell_keeps:
  "bts_ok de_key out \<Longrightarrow> set out \<subseteq> set (snd (scan_cell P limit cnt ds (since, out)))"
proof (induction ds arbitrary: cnt out)
  case (Cons d ds)
  have 1: "set out \<subseteq> set (bts_insert de_key d out)" by (rule bts_insert_superset)
  have 2: "set (bts_insert de_key d out) \<subseteq>
      set (snd (scan_cell P limit cnt ds (since, bts_insert de_key d out)))" for cnt
    by (rule Cons.IH [OF bts_insert_ok [OF Cons.prems]])
  show ?case
    using 1 subset_trans [OF 1 2] Cons.IH [OF Cons.prems] by (simp add: Let_def)
qed simp

text \<open>
  The events of a cell \<open>S\<close> that match, when the range of the index has given those that are not
  older than the bound.
\<close>

lemma good_cell:
  assumes g: "good M s0 limit U (since, out)" and "inj_on de_key M"
    and ds: "bts_ok de_key ds" "set ds = {d \<in> S. since \<le> de_created_at d \<and> de_created_at d \<le> until}"
    and M: "\<And>d. d \<in> S \<Longrightarrow> P d \<Longrightarrow> d \<in> M \<and> s0 \<le> de_created_at d \<and> de_created_at d \<le> until"
    and "until \<le> u64_max"
  shows "good M s0 limit (U \<union> {d \<in> S. P d}) (scan_cell P limit 0 ds (since, out))"
proof -
  let ?s = "scan_cell P limit 0 ds (since, out)"
  have 1: "good M s0 limit (U \<union> {d \<in> set ds. P d}) ?s"
    using assms by (intro scan_cell_loop [where A = "{}"]) auto
  have sub: "set out \<subseteq> set (snd ?s)" using g by (intro scan_cell_keeps) (simp add: good_def)
  have "d \<in> set (snd ?s) \<or> (\<exists>l. limit = Some l \<and> l \<le> card {c \<in> set (snd ?s). de_key c < de_key d})"
    if d: "d \<in> S" "P d" for d
  proof (cases "d \<in> set ds")
    case True
    then have "d \<in> U \<union> {d \<in> set ds. P d}" using d by blast
    with 1 show ?thesis unfolding good_def by blast
  next
    case False
    then have "de_created_at d < since" using ds(2) d M by fastforce
    from count_mono [OF sub good_old [OF g _ this]] M [OF d] show ?thesis by blast
  qed
  then have "\<forall>d \<in> U \<union> {d \<in> S. P d}. d \<in> set (snd ?s) \<or>
      (\<exists>l. limit = Some l \<and> l \<le> card {c \<in> set (snd ?s). de_key c < de_key d})"
    using 1 unfolding good_def by blast
  with 1 show ?thesis unfolding good_def by blast
qed

text \<open>Without a limit the order of a cell does not matter.\<close>

lemma good_cell_unlimited:
  assumes "good M s0 None U s" and "inj_on de_key M"
    and "\<And>d. d \<in> set ds \<Longrightarrow> P d \<Longrightarrow> d \<in> M" and "\<And>d. d \<in> set ds \<Longrightarrow> s0 \<le> de_created_at d"
  shows "good M s0 None (U \<union> {d \<in> set ds. P d}) (scan_cell P None cnt ds s)"
  using assms
proof (induction ds arbitrary: U s cnt)
  case Nil
  then show ?case by (cases s) simp
next
  case (Cons d ds)
  obtain since out where s: "s = (since, out)" by (cases s)
  have since: "since = s0" using Cons.prems(1) by (auto simp: good_def s)
  show ?case
  proof (cases "P d")
    case True
    let ?s = "(since, bts_insert de_key d out)"
    have dM: "d \<in> M" using Cons.prems(3) True by simp
    have ok: "bts_ok de_key out" "set out \<subseteq> M" using Cons.prems(1) by (simp_all add: good_def s)
    have "good M s0 None (insert d U) ?s"
      using good_insert [of M s0 None U since out d] Cons.prems(1,2) dM
        insert_result [OF ok dM Cons.prems(2)]
      by (simp add: s good_def)
    then have "good M s0 None (insert d U \<union> {d \<in> set ds. P d}) (scan_cell P None (cnt + 1) ds ?s)"
      using Cons.prems by (intro Cons.IH) auto
    moreover have "insert d U \<union> {d \<in> set ds. P d} = U \<union> {c \<in> set (d # ds). P c}" using True by auto
    ultimately show ?thesis
      using True Cons.prems(4) [of d] by (simp add: s since limit_reached_def Let_def)
  next
    case False
    have "good M s0 None (U \<union> {d \<in> set ds. P d}) (scan_cell P None cnt ds s)"
      using Cons.prems by (intro Cons.IH) auto
    moreover have "{d \<in> set ds. P d} = {c \<in> set (d # ds). P c}" using False by auto
    ultimately show ?thesis using False Cons.prems(4) [of d] by (simp add: s since)
  qed
qed

section \<open>The result of a good state\<close>

lemma take_sorted_prefix:
  assumes "bts_ok key out" and "bts_ok key xs" and "set out \<subseteq> set xs"
    and "\<And>d. d \<in> set xs \<Longrightarrow> d \<notin> set out \<Longrightarrow> l \<le> card {c \<in> set out. key c < key d}"
  shows "take l out = take l xs"
  using assms
proof (induction xs arbitrary: l out)
  case (Cons x xs)
  show ?case
  proof (cases "x \<in> set out")
    case False
    have "{c \<in> set out. key c < key x} = {}" using Cons.prems(2,3) by fastforce
    then have "l \<le> 0" using Cons.prems(4) [of x] False by (metis card.empty list.set_intros(1))
    then show ?thesis by simp
  next
    case True
    obtain y out' where out: "out = y # out'" using True by (cases out) auto
    have "x = y"
    proof (rule ccontr)
      assume "x \<noteq> y"
      then have "key y < key x" using True Cons.prems(1) out by auto
      moreover have "y \<in> set (x # xs)" using Cons.prems(3) out by auto
      ultimately show False using Cons.prems(2) by fastforce
    qed
    show ?thesis
    proof (cases l)
      case (Suc n)
      have "take n out' = take n xs"
      proof (rule Cons.IH)
        show "bts_ok key out'" "bts_ok key xs" using Cons.prems(1,2) out by simp_all
        show sub: "set out' \<subseteq> set xs"
          using Cons.prems(1,3) out \<open>x = y\<close> by (auto dest: bts_ok_distinct)
        fix d assume d: "d \<in> set xs" "d \<notin> set out'"
        have "d \<noteq> x" using d(1) Cons.prems(2) by auto
        then have "Suc n \<le> card {c \<in> set out. key c < key d}"
          using Cons.prems(4) [of d] d out \<open>x = y\<close> Suc by auto
        also have "\<dots> \<le> card (insert x {c \<in> set out'. key c < key d})"
          using out \<open>x = y\<close> by (intro card_mono) auto
        also have "\<dots> \<le> Suc (card {c \<in> set out'. key c < key d})" by (rule card_insert_le_m1) simp_all
        finally show "n \<le> card {c \<in> set out'. key c < key d}" by simp
      qed
      then show ?thesis using Suc out \<open>x = y\<close> by simp
    qed simp
  qed
qed simp

lemma good_result:
  assumes "good M s0 limit M s" and "bts_ok de_key xs" and "set xs = M"
  shows "take_limit limit (snd s) = take_limit limit xs"
proof (cases limit)
  case None
  then have "set (snd s) = M" using assms(1) by (auto simp: good_def)
  then have "snd s = xs" using assms by (intro bts_ok_eqI) (auto simp: good_def)
  then show ?thesis by simp
next
  case (Some l)
  then show ?thesis
    using assms unfolding take_limit_def good_def by (auto intro!: take_sorted_prefix)
qed

section \<open>Loops\<close>

lemma for_res_good:
  assumes "\<And>x s U. x \<in> set xs \<Longrightarrow> good M s0 limit U s \<Longrightarrow>
      \<exists>s'. f x s = Inr s' \<and> good M s0 limit (U \<union> A x) s'"
    and "good M s0 limit U s"
  shows "\<exists>s'. for_res f xs s = Inr s' \<and> good M s0 limit (U \<union> \<Union> (A ` set xs)) s'"
  using assms
proof (induction xs arbitrary: U s)
  case (Cons x xs)
  obtain s1 where s1: "f x s = Inr s1" "good M s0 limit (U \<union> A x) s1"
    using Cons.prems(1) [of x U s] Cons.prems(2) by (metis list.set_intros(1))
  have "\<exists>s'. for_res f xs s1 = Inr s' \<and> good M s0 limit ((U \<union> A x) \<union> \<Union> (A ` set xs)) s'"
    using Cons.prems(1) s1(2) by (intro Cons.IH) auto
  then show ?case using s1(1) by (auto simp: Un_assoc)
qed simp

lemma ok_values_Inr [simp]: "ok_values (map Inr xs) = map snd xs"
  by (induction xs) (auto simp: ok_values_def List.map_filter_def)

section \<open>The access patterns\<close>

text \<open>What a query works on: a consistent database and the events that match the filter.\<close>

definition query_ctx ::
  "('b, 'u, 'n) lmdb_env \<Rightarrow> ('b, 'u, 'n) contents \<Rightarrow> database_event set \<Rightarrow> ('b, 'u, 'n) lmdb \<Rightarrow>
   database_filter \<Rightarrow> timestamp \<Rightarrow> timestamp \<Rightarrow> database_event set \<Rightarrow> bool" where
  "query_ctx D C E db f s0 until M \<longleftrightarrow>
     env_ok D C \<and> tables_ok (le_fb D) E (view C db) \<and> M = {d \<in> E. df_match_event f d} \<and>
     (\<forall>d \<in> M. s0 \<le> de_created_at d \<and> de_created_at d \<le> until) \<and> s0 \<le> u64_max \<and> until \<le> u64_max"

lemma query_ctxD:
  assumes "query_ctx D C E db f s0 until M"
  shows "env_ok D C" "tables_ok (le_fb D) E (view C db)" "M = {d \<in> E. df_match_event f d}"
    "s0 \<le> u64_max" "until \<le> u64_max" "inj_on de_key M"
    "\<And>d. d \<in> E \<Longrightarrow> df_match_event f d \<Longrightarrow> s0 \<le> de_created_at d \<and> de_created_at d \<le> until"
proof -
  have "inj_on de_id E" using assms by (simp add: query_ctx_def tables_ok_def)
  then show "inj_on de_key M"
    using assms by (auto simp: query_ctx_def inj_on_def de_key_def)
qed (use assms in \<open>auto simp: query_ctx_def\<close>)

context time_index
begin

lemma range_scan:
  assumes ctx: "query_ctx D C E db f s0 until M" and g: "good M s0 limit U s"
    and ix: "index_ok (keys_by key qs) E (cn_bytes C t)"
    and valid: "\<And>d r. d \<in> E \<Longrightarrow> r \<in> set (qs d) \<Longrightarrow> valid r" and q: "valid q"
  shows "\<exists>xs ds. kv_range (le_bytes D) t (key q until EVENT_ID_ALL_ZEROS)
        (key q (fst s) EVENT_ID_ALL_255) = Inr (map Inr xs) \<and>
      map snd xs = map de_id ds \<and> bts_ok de_key ds \<and>
      set ds = {d \<in> E. (\<exists>r \<in> set (qs d). prefix r = prefix q) \<and>
        fst s \<le> de_created_at d \<and> de_created_at d \<le> until} \<and>
      good M s0 limit (U \<union> {d \<in> M. \<exists>r \<in> set (qs d). prefix r = prefix q})
        (scan_cell (df_match_event f) limit 0 ds s)"
proof -
  note c = query_ctxD [OF ctx]
  have since: "fst s \<le> u64_max" using g by (simp add: good_def)
  let ?S = "{d \<in> E. \<exists>r \<in> set (qs d). prefix r = prefix q}"
  obtain xs ds where r: "kv_range (le_bytes D) t (key q until EVENT_ID_ALL_ZEROS)
        (key q (fst s) EVENT_ID_ALL_255) = Inr (map Inr xs)" "map snd xs = map de_id ds"
      "bts_ok de_key ds"
    and set: "set ds = {d \<in> E. (\<exists>r \<in> set (qs d). prefix r = prefix q) \<and>
        fst s \<le> de_created_at d \<and> de_created_at d \<le> until}"
  proof -
    have "\<exists>xs ds. kv_range (le_bytes D) t (key q until EVENT_ID_ALL_ZEROS)
          (key q (fst s) EVENT_ID_ALL_255) = Inr (map Inr xs) \<and>
        map snd xs = map de_id ds \<and> bts_ok de_key ds \<and>
        set ds = {d \<in> E. (\<exists>r \<in> set (qs d). prefix r = prefix q) \<and>
          fst s \<le> de_created_at d \<and> de_created_at d \<le> until}"
      by (rule range_events [OF env_okD(1) [OF c(1)] ix _ tables_okD(3) [OF c(2)] _ q since c(5)])
        (erule tables_okD(2) [OF c(2)], erule (1) valid)
    with that show ?thesis by blast
  qed
  have "good M s0 limit (U \<union> {d \<in> ?S. df_match_event f d})
      (scan_cell (df_match_event f) limit 0 ds (fst s, snd s))"
    using g c(5-7) r(3) set unfolding c(3) by (intro good_cell [where until = until]) auto
  moreover have "{d \<in> ?S. df_match_event f d} = {d \<in> M. \<exists>r \<in> set (qs d). prefix r = prefix q}"
    unfolding c(3) by blast
  ultimately show ?thesis using r set by auto
qed

end

abbreviation scan_step ::
  "('b, 'u, 'n) lmdb_env \<Rightarrow> ('b, 'u, 'n) lmdb \<Rightarrow> database_filter \<Rightarrow> nat option \<Rightarrow> rows \<Rightarrow> query_state \<Rightarrow>
   store_error + query_state" where
  "scan_step D db f limit iter s \<equiv>
     rbind iter (\<lambda>rows. iterate_filter_until_limit D db f limit 0 (ok_values rows) s)"

lemma scan_step_good:
  assumes "query_ctx D C E db f s0 until M" and "set ds \<subseteq> E" and "iter = Inr (map Inr xs)"
    and "map snd xs = map de_id ds" and "good M s0 limit U (scan_cell (df_match_event f) limit 0 ds s)"
  shows "\<exists>s'. scan_step D db f limit iter s = Inr s' \<and> good M s0 limit U s'"
  using assms iterate_scan [OF query_ctxD(1,2) [OF assms(1)] assms(2)] by simp

lemma ac_step:
  assumes ctx: "query_ctx D C E db f s0 until M" and g: "good M s0 limit U s" and a: "length a = 32"
  shows "\<exists>s'. scan_step D db f limit (ac_iter D a (fst s) until db) s = Inr s' \<and>
    good M s0 limit (U \<union> {d \<in> M. a = de_pubkey d}) s'"
proof -
  note c = query_ctxD [OF ctx]
  have "index_ok (keys_by make_ac_index_key (\<lambda>d. [de_pubkey d])) E (cn_bytes C (lm_ac db))"
    using tables_okD(7) [OF c(2)] by (simp add: ac_keys_def view_def)
  from ac.range_scan [OF ctx g this _ a] tables_okD(2) [OF c(2)]
  obtain xs ds where "ac_iter D a (fst s) until db = Inr (map Inr xs)" "map snd xs = map de_id ds"
      "set ds \<subseteq> E" "good M s0 limit (U \<union> {d \<in> M. a = de_pubkey d})
        (scan_cell (df_match_event f) limit 0 ds s)"
    by (auto simp: ac_iter_def de_ok_def)
  then show ?thesis by (intro scan_step_good [OF ctx])
qed

lemma kc_step:
  assumes ctx: "query_ctx D C E db f s0 until M" and g: "good M s0 limit U s"
  shows "\<exists>s'. scan_step D db f limit (kc_iter D k (fst s) until db) s = Inr s' \<and>
    good M s0 limit (U \<union> {d \<in> M. k = de_kind d}) s'"
proof -
  note c = query_ctxD [OF ctx]
  have "index_ok (keys_by make_kc_index_key (\<lambda>d. [de_kind d])) E (cn_bytes C (lm_kc db))"
    using tables_okD(8) [OF c(2)] by (simp add: kc_keys_def view_def)
  from kc.range_scan [OF ctx g this, of k]
  obtain xs ds where "kc_iter D k (fst s) until db = Inr (map Inr xs)" "map snd xs = map de_id ds"
      "set ds \<subseteq> E" "good M s0 limit (U \<union> {d \<in> M. k = de_kind d})
        (scan_cell (df_match_event f) limit 0 ds s)"
    by (auto simp: kc_iter_def)
  then show ?thesis by (intro scan_step_good [OF ctx])
qed

lemma tc_step:
  assumes ctx: "query_ctx D C E db f s0 until M" and g: "good M s0 limit U s"
  shows "\<exists>s'. scan_step D db f limit (tc_iter D n v (fst s) until db) s = Inr s' \<and>
    good M s0 limit (U \<union> {d \<in> M. (n, v) \<in> set (single_tags d)}) s'"
proof -
  note c = query_ctxD [OF ctx]
  have "index_ok (keys_by (\<lambda>(n, v). make_tc_index_key n v) single_tags) E (cn_bytes C (lm_tc db))"
    using tables_okD(11) [OF c(2)] by (simp add: tc_keys_def view_def)
  from tc.range_scan [OF ctx g this, of "(n, v)"]
  obtain xs ds where r: "tc_iter D n v (fst s) until db = Inr (map Inr xs)" "map snd xs = map de_id ds"
      "set ds \<subseteq> E" and s': "good M s0 limit (U \<union> {d \<in> M. \<exists>r \<in> set (single_tags d).
        (case r of (n, v) \<Rightarrow> slt_byte n # pad_value v) = slt_byte n # pad_value v})
        (scan_cell (df_match_event f) limit 0 ds s)"
    by (auto simp: tc_iter_def)
  have "good M s0 limit (U \<union> {d \<in> M. (n, v) \<in> set (single_tags d)})
      (scan_cell (df_match_event f) limit 0 ds s)"
    by (rule good_subset [OF s']) force
  with r show ?thesis by (intro scan_step_good [OF ctx])
qed

lemma atc_step:
  assumes ctx: "query_ctx D C E db f s0 until M" and g: "good M s0 limit U s" and a: "length a = 32"
  shows "\<exists>s'. scan_step D db f limit (atc_iter D a n v (fst s) until db) s = Inr s' \<and>
    good M s0 limit (U \<union> {d \<in> M. de_pubkey d = a \<and> (n, v) \<in> set (single_tags d)}) s'"
proof -
  note c = query_ctxD [OF ctx]
  let ?qs = "\<lambda>d. map (\<lambda>(n, v). (de_pubkey d, n, v)) (single_tags d)"
  have ix: "index_ok (keys_by (\<lambda>(a, n, v). make_atc_index_key a n v) ?qs) E (cn_bytes C (lm_atc db))"
    using tables_okD(9) [OF c(2)] by (simp add: atc_keys_def view_def)
  have valid: "case r of (a, n, v) \<Rightarrow> length a = 32" if "d \<in> E" "r \<in> set (?qs d)" for d r
    using that tables_okD(2) [OF c(2)] by (auto simp: de_ok_def)
  from atc.range_scan [where q = "(a, n, v)", OF ctx g ix] valid a
  obtain xs ds where r: "atc_iter D a n v (fst s) until db = Inr (map Inr xs)"
      "map snd xs = map de_id ds" "set ds \<subseteq> E"
    and s': "good M s0 limit (U \<union> {d \<in> M. \<exists>r \<in> set (?qs d).
        (case r of (a, n, v) \<Rightarrow> a @ slt_byte n # pad_value v) = a @ slt_byte n # pad_value v})
        (scan_cell (df_match_event f) limit 0 ds s)"
    by (auto simp: atc_iter_def)
  have "good M s0 limit (U \<union> {d \<in> M. de_pubkey d = a \<and> (n, v) \<in> set (single_tags d)})
      (scan_cell (df_match_event f) limit 0 ds s)"
    by (rule good_subset [OF s']) force
  with r show ?thesis by (intro scan_step_good [OF ctx])
qed

lemma ktc_step:
  assumes ctx: "query_ctx D C E db f s0 until M" and g: "good M s0 limit U s"
  shows "\<exists>s'. scan_step D db f limit (ktc_iter D k n v (fst s) until db) s = Inr s' \<and>
    good M s0 limit (U \<union> {d \<in> M. de_kind d = k \<and> (n, v) \<in> set (single_tags d)}) s'"
proof -
  note c = query_ctxD [OF ctx]
  let ?qs = "\<lambda>d. map (\<lambda>(n, v). (de_kind d, n, v)) (single_tags d)"
  have ix: "index_ok (keys_by (\<lambda>(k, n, v). make_ktc_index_key k n v) ?qs) E (cn_bytes C (lm_ktc db))"
    using tables_okD(10) [OF c(2)] by (simp add: ktc_keys_def view_def)
  from ktc.range_scan [OF ctx g ix, of "(k, n, v)"]
  obtain xs ds where r: "ktc_iter D k n v (fst s) until db = Inr (map Inr xs)"
      "map snd xs = map de_id ds" "set ds \<subseteq> E"
    and s': "good M s0 limit (U \<union> {d \<in> M. \<exists>r \<in> set (?qs d).
        (case r of (k, n, v) \<Rightarrow> kind_be_bytes k @ slt_byte n # pad_value v) =
          kind_be_bytes k @ slt_byte n # pad_value v})
        (scan_cell (df_match_event f) limit 0 ds s)"
    by (auto simp: ktc_iter_def)
  have "good M s0 limit (U \<union> {d \<in> M. de_kind d = k \<and> (n, v) \<in> set (single_tags d)})
      (scan_cell (df_match_event f) limit 0 ds s)"
    by (rule good_subset [OF s']) force
  with r show ?thesis by (intro scan_step_good [OF ctx])
qed

end
