(* ===== verification/Lmdb_Scan.thy ===== *)
theory Lmdb_Scan
  imports Lmdb_Query
begin

text \<open>
  The queries of the LMDB store as a whole: what they return is a sorted list of matching events
  within the limit, and it is the newest of the matching events, except for the two access patterns
  that do not visit the events from the newest to the oldest.
\<close>

section \<open>What the ranges give\<close>

lemma ci_rows:
  assumes env: "env_ok D C" and tables: "tables_ok (le_fb D) E (view C db)"
    and "s \<le> u64_max" "u \<le> u64_max"
  shows "\<exists>xs ds. ci_iter D s u db = Inr (map Inr xs) \<and> map snd xs = map de_id ds \<and> bts_ok de_key ds \<and>
    set ds = {d \<in> E. s \<le> de_created_at d \<and> de_created_at d \<le> u}"
proof -
  have ix: "index_ok (keys_by (\<lambda>_ :: unit. make_ci_index_key) (\<lambda>_. [()])) E (cn_bytes C (lm_ci db))"
    using tables_okD(5) [OF tables] by (simp add: ci_keys_def view_def)
  show ?thesis
    using ci.range_events [OF env_okD(1) [OF env] ix tables_okD(2,3) [OF tables] _ _ assms(3,4)]
    by (auto simp: ci_iter_def)
qed

lemma akc_rows:
  assumes env: "env_ok D C" and tables: "tables_ok (le_fb D) E (view C db)"
    and "s \<le> u64_max" "u \<le> u64_max" and a: "length a = 32"
  shows "\<exists>xs ds. akc_iter D a k s u db = Inr (map Inr xs) \<and> map snd xs = map de_id ds \<and>
    bts_ok de_key ds \<and>
    set ds = {d \<in> E. a = de_pubkey d \<and> k = de_kind d \<and> s \<le> de_created_at d \<and> de_created_at d \<le> u}"
proof -
  let ?qs = "\<lambda>d. [(de_pubkey d, de_kind d)]"
  have ix: "index_ok (keys_by (\<lambda>(a, k). make_akc_index_key a k) ?qs) E (cn_bytes C (lm_akc db))"
    using tables_okD(6) [OF tables] by (simp add: akc_keys_def view_def)
  have len: "length (de_pubkey d) = 32" if "d \<in> E" for d
    using that tables_okD(2) [OF tables] by (simp add: de_ok_def)
  obtain xs ds where r: "akc_iter D a k s u db = Inr (map Inr xs)" "map snd xs = map de_id ds"
      "bts_ok de_key ds"
    and set: "set ds = {d \<in> E. (\<exists>r \<in> set (?qs d). (case r of (a, k) \<Rightarrow> a @ kind_be_bytes k) =
        a @ kind_be_bytes k) \<and> s \<le> de_created_at d \<and> de_created_at d \<le> u}"
    using akc.range_events [where q = "(a, k)", OF env_okD(1) [OF env] ix tables_okD(2,3) [OF tables]
        _ _ assms(3,4)] len a
    by (auto simp: akc_iter_def)
  have "set ds = {d \<in> E. a = de_pubkey d \<and> k = de_kind d \<and> s \<le> de_created_at d \<and> de_created_at d \<le> u}"
    unfolding set using len a by auto
  with r show ?thesis by blast
qed

lemma atc_rows:
  assumes env: "env_ok D C" and tables: "tables_ok (le_fb D) E (view C db)"
    and "s \<le> u64_max" "u \<le> u64_max" and a: "length a = 32"
  shows "\<exists>xs ds. atc_iter D a n v s u db = Inr (map Inr xs) \<and> map snd xs = map de_id ds \<and>
    bts_ok de_key ds \<and>
    set ds = {d \<in> E. de_pubkey d = a \<and> (\<exists>v'. (n, v') \<in> set (single_tags d) \<and> pad_value v' = pad_value v) \<and>
      s \<le> de_created_at d \<and> de_created_at d \<le> u}"
proof -
  let ?qs = "\<lambda>d. map (\<lambda>(n, v). (de_pubkey d, n, v)) (single_tags d)"
  have ix: "index_ok (keys_by (\<lambda>(a, n, v). make_atc_index_key a n v) ?qs) E (cn_bytes C (lm_atc db))"
    using tables_okD(9) [OF tables] by (simp add: atc_keys_def view_def)
  have len: "length (de_pubkey d) = 32" if "d \<in> E" for d
    using that tables_okD(2) [OF tables] by (simp add: de_ok_def)
  have valid: "case r of (a, n, v) \<Rightarrow> length a = 32" if "d \<in> E" "r \<in> set (?qs d)" for d r
    using that len by auto
  obtain xs ds where r: "atc_iter D a n v s u db = Inr (map Inr xs)" "map snd xs = map de_id ds"
      "bts_ok de_key ds"
    and set: "set ds = {d \<in> E. (\<exists>r \<in> set (?qs d).
        (case r of (a, n, v) \<Rightarrow> a @ slt_byte n # pad_value v) = a @ slt_byte n # pad_value v) \<and>
        s \<le> de_created_at d \<and> de_created_at d \<le> u}"
    using atc.range_events [where q = "(a, n, v)", OF env_okD(1) [OF env] ix tables_okD(2,3) [OF tables]
        _ _ assms(3,4)] valid a
    by (auto simp: atc_iter_def)
  have "(\<exists>r \<in> set (?qs d). (case r of (a, n, v) \<Rightarrow> a @ slt_byte n # pad_value v) =
        a @ slt_byte n # pad_value v) \<longleftrightarrow>
      de_pubkey d = a \<and> (\<exists>v'. (n, v') \<in> set (single_tags d) \<and> pad_value v' = pad_value v)"
    if "d \<in> E" for d
    using len [OF that] a by (force dest: single_letter_tag.expand)
  then have "set ds = {d \<in> E. de_pubkey d = a \<and>
      (\<exists>v'. (n, v') \<in> set (single_tags d) \<and> pad_value v' = pad_value v) \<and>
      s \<le> de_created_at d \<and> de_created_at d \<le> u}"
    unfolding set by blast
  with r show ?thesis by blast
qed

section \<open>The remaining access patterns\<close>

text \<open>A replaceable kind has one event of an author.\<close>

definition unique_versions :: "database_event set \<Rightarrow> bool" where
  "unique_versions E \<longleftrightarrow>
     (\<forall>d \<in> E. \<forall>c \<in> E. is_replaceable (from_u16 (de_kind d)) \<longrightarrow> de_pubkey d = de_pubkey c \<longrightarrow>
        de_kind d = de_kind c \<longrightarrow> d = c)"

lemma akc_range:
  assumes ctx: "query_ctx D C E db f s0 until M" and "good M s0 limit U s" and a: "length a = 32"
  shows "\<exists>xs ds. akc_iter D a k (fst s) until db = Inr (map Inr xs) \<and> map snd xs = map de_id ds \<and>
    bts_ok de_key ds \<and>
    set ds = {d \<in> E. a = de_pubkey d \<and> k = de_kind d \<and> fst s \<le> de_created_at d \<and> de_created_at d \<le> until} \<and>
    good M s0 limit (U \<union> {d \<in> M. a = de_pubkey d \<and> k = de_kind d})
      (scan_cell (df_match_event f) limit 0 ds s)"
proof -
  note c = query_ctxD [OF ctx]
  let ?qs = "\<lambda>d. [(de_pubkey d, de_kind d)]"
  have ix: "index_ok (keys_by (\<lambda>(a, k). make_akc_index_key a k) ?qs) E (cn_bytes C (lm_akc db))"
    using tables_okD(6) [OF c(2)] by (simp add: akc_keys_def view_def)
  have valid: "case r of (a, k) \<Rightarrow> length a = 32" if "d \<in> E" "r \<in> set (?qs d)" for d r
    using that tables_okD(2) [OF c(2)] by (auto simp: de_ok_def)
  have prefix: "(\<exists>r \<in> set (?qs d). (case r of (a, k) \<Rightarrow> a @ kind_be_bytes k) =
      (case (a, k) of (a, k) \<Rightarrow> a @ kind_be_bytes k)) \<longleftrightarrow> a = de_pubkey d \<and> k = de_kind d"
    if "d \<in> E" for d
    using a tables_okD(2) [OF c(2) that] by (auto simp: de_ok_def)
  have "M \<subseteq> E" using c(3) by blast
  then have M: "{d \<in> M. \<exists>r \<in> set (?qs d). (case r of (a, k) \<Rightarrow> a @ kind_be_bytes k) =
      (case (a, k) of (a, k) \<Rightarrow> a @ kind_be_bytes k)} = {d \<in> M. a = de_pubkey d \<and> k = de_kind d}"
    using prefix by blast
  have E: "{d \<in> E. (\<exists>r \<in> set (?qs d). (case r of (a, k) \<Rightarrow> a @ kind_be_bytes k) =
      (case (a, k) of (a, k) \<Rightarrow> a @ kind_be_bytes k)) \<and> fst s \<le> de_created_at d \<and> de_created_at d \<le> until} =
    {d \<in> E. a = de_pubkey d \<and> k = de_kind d \<and> fst s \<le> de_created_at d \<and> de_created_at d \<le> until}"
    using prefix by blast
  show ?thesis
    using akc.range_scan [where q = "(a, k)", OF ctx assms(2) ix] valid a
    unfolding M E by (simp add: akc_iter_def)
qed

lemma akc_step:
  assumes ctx: "query_ctx D C E db f s0 until M" and uniq: "unique_versions E"
    and g: "good M s0 limit U s" and a: "length a = 32"
  shows "\<exists>s'. rbind (akc_iter D a k (fst s) until db) (\<lambda>rows. per_event D db f limit k 0 rows s) = Inr s' \<and>
    good M s0 limit (U \<union> {d \<in> M. a = de_pubkey d \<and> k = de_kind d}) s'"
proof -
  note c = query_ctxD [OF ctx]
  obtain xs ds where r: "akc_iter D a k (fst s) until db = Inr (map Inr xs)" "map snd xs = map de_id ds"
      "bts_ok de_key ds"
      "set ds = {d \<in> E. a = de_pubkey d \<and> k = de_kind d \<and> fst s \<le> de_created_at d \<and> de_created_at d \<le> until}"
    and s': "good M s0 limit (U \<union> {d \<in> M. a = de_pubkey d \<and> k = de_kind d})
      (scan_cell (df_match_event f) limit 0 ds s)"
    using akc_range [OF ctx g a] by blast
  have "length ds \<le> 1" if "is_replaceable (from_u16 k)"
  proof -
    have "x = y" if "x \<in> set ds" "y \<in> set ds" for x y
      using uniq that \<open>is_replaceable (from_u16 k)\<close> unfolding unique_versions_def r(4) by fastforce
    then have "card (set ds) \<le> 1" by (simp add: card_le_Suc0_iff_eq)
    then show ?thesis using bts_ok_distinct [OF r(3)] by (simp add: distinct_card)
  qed
  moreover have "set ds \<subseteq> E" using r(4) by blast
  ultimately show ?thesis
    using r(1) s' per_event_scan [OF c(1,2) _ r(2)] by simp
qed

section \<open>Authors, kinds and tags\<close>

text \<open>The ids of one author, one kind and one tag value, in the order of the ids.\<close>

definition akt_ids ::
  "(store_error + u8 list \<times> u8 list) list \<Rightarrow> (store_error + u8 list \<times> u8 list) list \<Rightarrow> u8 list list" where
  "akt_ids akc atc =
     [i \<leftarrow> bts_extend id [] (ok_values atc). bts_contains id i (bts_extend id [] (ok_values akc))]"

lemma akt_ids_set:
  "set (akt_ids (map Inr xs) (map Inr ys)) = set (map snd xs) \<inter> set (map snd ys)"
  by (auto simp: akt_ids_def bts_extend_set bts_contains_def)

lemma akt_iterate:
  assumes ctx: "query_ctx D C E db f s0 until M"
    and "map snd xs = map de_id ds" and "map snd ys = map de_id ds'" and "set ds \<subseteq> E" and "set ds' \<subseteq> E"
  shows "\<exists>cs. iterate_filter_until_limit D db f limit 0 (akt_ids (map Inr xs) (map Inr ys)) s =
      Inr (scan_cell (df_match_event f) limit 0 cs s) \<and> set cs = set ds \<inter> set ds'"
proof -
  note c = query_ctxD [OF ctx]
  note inj = tables_okD(3) [OF c(2)]
  have ids: "set (akt_ids (map Inr xs) (map Inr ys)) = de_id ` (set ds \<inter> set ds')"
    unfolding akt_ids_set assms(2,3) using inj_on_image_Int [OF inj assms(4,5)] by simp
  have sub: "set (akt_ids (map Inr xs) (map Inr ys)) \<subseteq> de_id ` E"
    unfolding ids using assms(4) by blast
  obtain cs where cs: "akt_ids (map Inr xs) (map Inr ys) = map de_id cs" "set cs \<subseteq> E"
  proof
    let ?cs = "map (inv_into E de_id) (akt_ids (map Inr xs) (map Inr ys))"
    show "akt_ids (map Inr xs) (map Inr ys) = map de_id ?cs"
      using sub by (auto simp: comp_def f_inv_into_f subset_eq intro!: map_idI [symmetric])
    show "set ?cs \<subseteq> E" using sub by (auto intro: inv_into_into)
  qed
  have "de_id ` set cs = de_id ` (set ds \<inter> set ds')"
    using ids unfolding cs(1) by simp
  then have "set cs = set ds \<inter> set ds'"
    using inj_on_image_eq_iff [OF inj cs(2), of "set ds \<inter> set ds'"] assms(4) by blast
  then show ?thesis unfolding cs(1) using iterate_scan [OF c(1,2) cs(2)] by blast
qed

section \<open>Every result is sorted and matches\<close>

definition sound_state :: "database_event set \<Rightarrow> query_state \<Rightarrow> bool" where
  "sound_state M s \<longleftrightarrow> bts_ok de_key (snd s) \<and> set (snd s) \<subseteq> M \<and> fst s \<le> u64_max"

lemma scan_sound:
  assumes "sound_state M s" and "\<And>d. d \<in> set ds \<Longrightarrow> P d \<Longrightarrow> d \<in> M"
    and "\<And>d. d \<in> set ds \<Longrightarrow> de_created_at d \<le> u64_max"
  shows "sound_state M (scan_cell P limit cnt ds s)"
  using assms
proof (induction ds arbitrary: cnt s)
  case Nil
  then show ?case by (cases s) simp
next
  case (Cons d ds)
  obtain since out where s: "s = (since, out)" by (cases s)
  have one: "sound_state M (t, bts_insert de_key d out)" if "P d" "t \<le> u64_max" for t
    using Cons.prems(1) Cons.prems(2) [of d] that bts_insert_subset [of de_key d out]
    by (auto simp: sound_state_def s bts_insert_ok)
  have since: "since \<le> u64_max" using Cons.prems(1) by (simp add: sound_state_def s)
  show ?case
    using Cons.prems one [OF _ since] one [of "move_since since (de_created_at d)"] since
    by (auto simp: s Let_def move_since_def intro!: Cons.IH)
qed

lemma for_res_sound:
  assumes "\<And>x s. x \<in> set xs \<Longrightarrow> sound_state M s \<Longrightarrow> \<exists>s'. f x s = Inr s' \<and> sound_state M s'"
    and "sound_state M s"
  shows "\<exists>s'. for_res f xs s = Inr s' \<and> sound_state M s'"
  using assms
proof (induction xs arbitrary: s)
  case (Cons x xs)
  obtain s1 where "f x s = Inr s1" "sound_state M s1"
    using Cons.prems(1) [of x s] Cons.prems(2) by auto
  then show ?case using Cons.IH [of s1] Cons.prems(1) by auto
qed simp

lemma akt_sound:
  assumes ctx: "query_ctx D C E db f s0 until M" and "sound_state M s"
    and authors: "\<And>a. a \<in> set (df_authors f) \<Longrightarrow> length a = 32"
  shows "\<exists>s'. query_by_authors_kinds_and_tags D db f until limit s = Inr s' \<and> sound_state M s'"
  unfolding query_by_authors_kinds_and_tags_def for_tags_def
proof (rule for_res_sound [OF for_res_sound assms(2)])
  note c = query_ctxD [OF ctx]
  fix a k s assume a: "a \<in> set (df_authors f)" and s: "sound_state M s"
  have len: "length a = 32" by (rule authors [OF a])
  have "fst s \<le> u64_max" using s by (simp add: sound_state_def)
  from akc_rows [OF c(1,2) this c(5) len]
  obtain xs ds where r: "akc_iter D a k (fst s) until db = Inr (map Inr xs)" "map snd xs = map de_id ds"
      "set ds \<subseteq> E" by blast
  have "\<exists>s'. rbind (atc_iter D a n v (fst s) until db) (\<lambda>rows.
        iterate_filter_until_limit D db f limit 0 (akt_ids (map Inr xs) rows) s) = Inr s' \<and>
      sound_state M s'" if s: "sound_state M s" for n v s
  proof -
    have "fst s \<le> u64_max" using s by (simp add: sound_state_def)
    from atc_rows [OF c(1,2) this c(5) len]
    obtain ys ds' where t: "atc_iter D a n v (fst s) until db = Inr (map Inr ys)"
        "map snd ys = map de_id ds'" "set ds' \<subseteq> E" by blast
    from akt_iterate [OF ctx r(2) t(2) r(3) t(3)]
    obtain cs where "iterate_filter_until_limit D db f limit 0 (akt_ids (map Inr xs) (map Inr ys)) s =
        Inr (scan_cell (df_match_event f) limit 0 cs s)" and cs: "set cs \<subseteq> E" using t(3) by blast
    moreover have "sound_state M (scan_cell (df_match_event f) limit 0 cs s)"
      using s cs tables_okD(2) [OF c(2)] unfolding c(3)
      by (intro scan_sound) (auto simp: de_ok_def)
    ultimately show ?thesis using t(1) by simp
  qed
  then have "\<exists>s'. for_res (\<lambda>(n, vs). for_res (\<lambda>v s. rbind (atc_iter D a n v (fst s) until db) (\<lambda>rows.
        iterate_filter_until_limit D db f limit 0 (akt_ids (map Inr xs) rows) s)) vs)
      (df_generic_tags f) s = Inr s' \<and> sound_state M s'"
    using s by (intro for_res_sound, unfold split_beta) (rule for_res_sound)
  then show "\<exists>s'. rbind (akc_iter D a k (fst s) until db) (\<lambda>rows. let akc_set = bts_extend id [] (ok_values rows)
      in for_res (\<lambda>(n, vs). for_res (\<lambda>v s. rbind (atc_iter D a n v (fst s) until db) (\<lambda>rows.
           let atc_set = bts_extend id [] (ok_values rows)
           in iterate_filter_until_limit D db f limit 0 [i \<leftarrow> atc_set. bts_contains id i akc_set] s)) vs)
         (df_generic_tags f) s) = Inr s' \<and> sound_state M s'"
    using r(1) by (simp add: Let_def akt_ids_def)
qed

section \<open>Every matching event is found\<close>

lemma for_tags_good:
  assumes "\<And>n v s U. good M s0 limit U s \<Longrightarrow>
      \<exists>s'. body n v s = Inr s' \<and> good M s0 limit (U \<union> A n v) s'"
    and "good M s0 limit U s"
  shows "\<exists>s'. for_tags f body s = Inr s' \<and>
    good M s0 limit (U \<union> (\<Union>(n, vs) \<in> set (df_generic_tags f). \<Union>v \<in> set vs. A n v)) s'"
  unfolding for_tags_def
  by (rule for_res_good [OF _ assms(2)], unfold split_beta, rule for_res_good [OF assms(1)])

lemma akt_good:
  assumes ctx: "query_ctx D C E db f s0 until M" and g: "good M s0 None U s" and a: "length a = 32"
  shows "\<exists>s'. rbind (akc_iter D a k (fst s) until db) (\<lambda>rows.
      (let akc_set = bts_extend id [] (ok_values rows)
       in for_tags f (\<lambda>n v s. rbind (atc_iter D a n v (fst s) until db) (\<lambda>rows.
            (let atc_set = bts_extend id [] (ok_values rows)
             in iterate_filter_until_limit D db f None 0 [i \<leftarrow> atc_set. bts_contains id i akc_set] s))) s))
      = Inr s' \<and>
    good M s0 None (U \<union> (\<Union>(n, vs) \<in> set (df_generic_tags f). \<Union>v \<in> set vs.
      {d \<in> M. de_pubkey d = a \<and> de_kind d = k \<and> (n, v) \<in> set (single_tags d)})) s'"
proof -
  note c = query_ctxD [OF ctx]
  have since: "fst s = s0" if "good M s0 None U s" for U s using that by (auto simp: good_def)
  obtain xs ds where r: "akc_iter D a k s0 until db = Inr (map Inr xs)" "map snd xs = map de_id ds"
      "set ds = {d \<in> E. a = de_pubkey d \<and> k = de_kind d \<and> s0 \<le> de_created_at d \<and> de_created_at d \<le> until}"
    using akc_rows [OF c(1,2,4,5) a] by blast
  have "\<exists>s'. rbind (atc_iter D a n v (fst s) until db) (\<lambda>rows.
        iterate_filter_until_limit D db f None 0 (akt_ids (map Inr xs) rows) s) = Inr s' \<and>
      good M s0 None (U \<union> {d \<in> M. de_pubkey d = a \<and> de_kind d = k \<and> (n, v) \<in> set (single_tags d)}) s'"
    if g: "good M s0 None U s" for n v U s
  proof -
    obtain ys ds' where t: "atc_iter D a n v s0 until db = Inr (map Inr ys)" "map snd ys = map de_id ds'"
        "set ds' \<subseteq> {d \<in> E. s0 \<le> de_created_at d \<and> de_created_at d \<le> until}"
        "{d \<in> E. de_pubkey d = a \<and> (n, v) \<in> set (single_tags d) \<and> s0 \<le> de_created_at d \<and>
          de_created_at d \<le> until} \<subseteq> set ds'"
      using atc_rows [OF c(1,2,4,5) a, of n v] by fast
    have sub: "set ds \<subseteq> E" "set ds' \<subseteq> E" using r(3) t(3) by blast+
    from akt_iterate [OF ctx r(2) t(2) sub]
    obtain cs where cs: "iterate_filter_until_limit D db f None 0 (akt_ids (map Inr xs) (map Inr ys)) s =
        Inr (scan_cell (df_match_event f) None 0 cs s)" "set cs = set ds \<inter> set ds'" by blast
    have "good M s0 None (U \<union> {d \<in> set cs. df_match_event f d}) (scan_cell (df_match_event f) None 0 cs s)"
      using cs(2) r(3) unfolding c(3) by (intro good_cell_unlimited g [unfolded c(3)] c(6) [unfolded c(3)]) auto
    moreover have "{d \<in> M. de_pubkey d = a \<and> de_kind d = k \<and> (n, v) \<in> set (single_tags d)} \<subseteq>
        {d \<in> set cs. df_match_event f d}"
      using t(4) c(7) unfolding cs(2) r(3) c(3) by blast
    ultimately show ?thesis
      using t(1) cs(1) since [OF g] by (auto elim: good_subset)
  qed
  from for_tags_good [OF this g] show ?thesis
    using r(1) since [OF g] by (simp add: Let_def akt_ids_def)
qed

text \<open>The patterns, as far as they visit the events from the newest to the oldest.\<close>

definition newest_first :: "database_filter \<Rightarrow> nat option \<Rightarrow> bool" where
  "newest_first f limit \<longleftrightarrow>
     limit = None \<or> pattern_from_filter f \<notin> {PatIds, PatAuthorKindsAndTags}"

lemma matching_tag:
  assumes "df_match_event f d" and "(n, vs) \<in> set (df_generic_tags f)"
  shows "\<exists>v \<in> set vs. (n, v) \<in> set (single_tags d)"
proof -
  obtain t v where "t \<in> set (de_tags d)" "v \<in> set vs" "db_tag_extract t = Some (n, v)"
    using assms unfolding df_match_event_def df_tag_match_iff by fast
  then show ?thesis unfolding single_tags_def List.map_filter_def by (force intro!: bexI [of _ v])
qed

lemma matching_some_tag:
  assumes "df_match_event f d" and "df_generic_tags f \<noteq> []"
  shows "\<exists>(n, vs) \<in> set (df_generic_tags f). \<exists>v \<in> set vs. (n, v) \<in> set (single_tags d)"
  using assms matching_tag [OF assms(1)] by (cases "df_generic_tags f") fastforce+

lemma good_cover:
  assumes "\<exists>s'. r = Inr s' \<and> good M s0 limit ({} \<union> U) s'" and "M \<subseteq> U"
  shows "\<exists>s'. r = Inr s' \<and> good M s0 limit M s'"
  using assms by (auto elim: good_subset)

lemma authors_kinds_good:
  assumes ctx: "query_ctx D C E db f s0 until M" and uniq: "unique_versions E"
    and a: "\<And>a. a \<in> set (df_authors f) \<Longrightarrow> length a = 32" and "df_authors f \<noteq> []" "df_kinds f \<noteq> []"
  shows "\<exists>s'. query_by_authors_and_kinds D db f until limit (s0, []) = Inr s' \<and> good M s0 limit M s'"
proof -
  note c = query_ctxD [OF ctx]
  have "\<exists>s'. query_by_authors_and_kinds D db f until limit (s0, []) = Inr s' \<and>
      good M s0 limit ({} \<union> (\<Union>a \<in> set (df_authors f). \<Union>k \<in> set (df_kinds f).
        {d \<in> M. a = de_pubkey d \<and> k = de_kind d})) s'"
    unfolding query_by_authors_and_kinds_def
    by (intro for_res_good akc_step [OF ctx uniq] a good_start c(4))
  moreover have "M \<subseteq> (\<Union>a \<in> set (df_authors f). \<Union>k \<in> set (df_kinds f).
      {d \<in> M. a = de_pubkey d \<and> k = de_kind d})"
    using assms(4,5) unfolding c(3) df_match_event_def df_authors_match_def df_kind_match_def by blast
  ultimately show ?thesis by (rule good_cover)
qed

lemma authors_good:
  assumes ctx: "query_ctx D C E db f s0 until M"
    and a: "\<And>a. a \<in> set (df_authors f) \<Longrightarrow> length a = 32" and "df_authors f \<noteq> []"
  shows "\<exists>s'. query_by_authors D db f until limit (s0, []) = Inr s' \<and> good M s0 limit M s'"
proof -
  note c = query_ctxD [OF ctx]
  have "\<exists>s'. query_by_authors D db f until limit (s0, []) = Inr s' \<and>
      good M s0 limit ({} \<union> (\<Union>a \<in> set (df_authors f). {d \<in> M. a = de_pubkey d})) s'"
    unfolding query_by_authors_def by (intro for_res_good ac_step [OF ctx] a good_start c(4))
  moreover have "M \<subseteq> (\<Union>a \<in> set (df_authors f). {d \<in> M. a = de_pubkey d})"
    using assms(3) unfolding c(3) df_match_event_def df_authors_match_def by blast
  ultimately show ?thesis by (rule good_cover)
qed

lemma kinds_good:
  assumes ctx: "query_ctx D C E db f s0 until M" and "df_kinds f \<noteq> []"
  shows "\<exists>s'. query_by_kinds D db f until limit (s0, []) = Inr s' \<and> good M s0 limit M s'"
proof -
  note c = query_ctxD [OF ctx]
  have "\<exists>s'. query_by_kinds D db f until limit (s0, []) = Inr s' \<and>
      good M s0 limit ({} \<union> (\<Union>k \<in> set (df_kinds f). {d \<in> M. k = de_kind d})) s'"
    unfolding query_by_kinds_def by (intro for_res_good kc_step [OF ctx] good_start c(4))
  moreover have "M \<subseteq> (\<Union>k \<in> set (df_kinds f). {d \<in> M. k = de_kind d})"
    using assms(2) unfolding c(3) df_match_event_def df_kind_match_def by blast
  ultimately show ?thesis by (rule good_cover)
qed

lemma tags_good:
  assumes ctx: "query_ctx D C E db f s0 until M" and "df_generic_tags f \<noteq> []"
  shows "\<exists>s'. query_by_tags D db f until limit (s0, []) = Inr s' \<and> good M s0 limit M s'"
proof -
  note c = query_ctxD [OF ctx]
  have "\<exists>s'. query_by_tags D db f until limit (s0, []) = Inr s' \<and>
      good M s0 limit ({} \<union> (\<Union>(n, vs) \<in> set (df_generic_tags f). \<Union>v \<in> set vs.
        {d \<in> M. (n, v) \<in> set (single_tags d)})) s'"
    unfolding query_by_tags_def by (intro for_tags_good tc_step [OF ctx] good_start c(4))
  moreover have "M \<subseteq> (\<Union>(n, vs) \<in> set (df_generic_tags f). \<Union>v \<in> set vs.
      {d \<in> M. (n, v) \<in> set (single_tags d)})"
    using matching_some_tag [OF _ assms(2)] unfolding c(3) by blast
  ultimately show ?thesis by (rule good_cover)
qed

lemma authors_tags_good:
  assumes ctx: "query_ctx D C E db f s0 until M"
    and a: "\<And>a. a \<in> set (df_authors f) \<Longrightarrow> length a = 32" and "df_authors f \<noteq> []"
    and "df_generic_tags f \<noteq> []"
  shows "\<exists>s'. query_by_authors_and_tags D db f until limit (s0, []) = Inr s' \<and> good M s0 limit M s'"
proof -
  note c = query_ctxD [OF ctx]
  have "\<exists>s'. query_by_authors_and_tags D db f until limit (s0, []) = Inr s' \<and>
      good M s0 limit ({} \<union> (\<Union>a \<in> set (df_authors f). \<Union>(n, vs) \<in> set (df_generic_tags f). \<Union>v \<in> set vs.
        {d \<in> M. de_pubkey d = a \<and> (n, v) \<in> set (single_tags d)})) s'"
    unfolding query_by_authors_and_tags_def
    by (intro for_res_good for_tags_good atc_step [OF ctx] a good_start c(4))
  moreover have "M \<subseteq> (\<Union>a \<in> set (df_authors f). \<Union>(n, vs) \<in> set (df_generic_tags f). \<Union>v \<in> set vs.
      {d \<in> M. de_pubkey d = a \<and> (n, v) \<in> set (single_tags d)})"
  proof
    fix d assume d: "d \<in> M"
    then have "de_pubkey d \<in> set (df_authors f)"
      using assms(3) by (simp add: c(3) df_match_event_def df_authors_match_def)
    then show "d \<in> (\<Union>a \<in> set (df_authors f). \<Union>(n, vs) \<in> set (df_generic_tags f). \<Union>v \<in> set vs.
        {d \<in> M. de_pubkey d = a \<and> (n, v) \<in> set (single_tags d)})"
      using matching_some_tag [OF _ assms(4), of d] d c(3) by blast
  qed
  ultimately show ?thesis by (rule good_cover)
qed

lemma kinds_tags_good:
  assumes ctx: "query_ctx D C E db f s0 until M" and "df_kinds f \<noteq> []" and "df_generic_tags f \<noteq> []"
  shows "\<exists>s'. query_by_kinds_and_tags D db f until limit (s0, []) = Inr s' \<and> good M s0 limit M s'"
proof -
  note c = query_ctxD [OF ctx]
  have "\<exists>s'. query_by_kinds_and_tags D db f until limit (s0, []) = Inr s' \<and>
      good M s0 limit ({} \<union> (\<Union>k \<in> set (df_kinds f). \<Union>(n, vs) \<in> set (df_generic_tags f). \<Union>v \<in> set vs.
        {d \<in> M. de_kind d = k \<and> (n, v) \<in> set (single_tags d)})) s'"
    unfolding query_by_kinds_and_tags_def
    by (intro for_res_good for_tags_good ktc_step [OF ctx] good_start c(4))
  moreover have "M \<subseteq> (\<Union>k \<in> set (df_kinds f). \<Union>(n, vs) \<in> set (df_generic_tags f). \<Union>v \<in> set vs.
      {d \<in> M. de_kind d = k \<and> (n, v) \<in> set (single_tags d)})"
  proof
    fix d assume d: "d \<in> M"
    then have "de_kind d \<in> set (df_kinds f)"
      using assms(2) by (simp add: c(3) df_match_event_def df_kind_match_def)
    then show "d \<in> (\<Union>k \<in> set (df_kinds f). \<Union>(n, vs) \<in> set (df_generic_tags f). \<Union>v \<in> set vs.
        {d \<in> M. de_kind d = k \<and> (n, v) \<in> set (single_tags d)})"
      using matching_some_tag [OF _ assms(3), of d] d c(3) by blast
  qed
  ultimately show ?thesis by (rule good_cover)
qed

lemma authors_kinds_tags_good:
  assumes ctx: "query_ctx D C E db f s0 until M"
    and a: "\<And>a. a \<in> set (df_authors f) \<Longrightarrow> length a = 32" and "df_authors f \<noteq> []" "df_kinds f \<noteq> []"
    and "df_generic_tags f \<noteq> []"
  shows "\<exists>s'. query_by_authors_kinds_and_tags D db f until None (s0, []) = Inr s' \<and>
    good M s0 None M s'"
proof -
  note c = query_ctxD [OF ctx]
  have "\<exists>s'. query_by_authors_kinds_and_tags D db f until None (s0, []) = Inr s' \<and>
      good M s0 None ({} \<union> (\<Union>a \<in> set (df_authors f). \<Union>k \<in> set (df_kinds f).
        \<Union>(n, vs) \<in> set (df_generic_tags f). \<Union>v \<in> set vs.
        {d \<in> M. de_pubkey d = a \<and> de_kind d = k \<and> (n, v) \<in> set (single_tags d)})) s'"
    unfolding query_by_authors_kinds_and_tags_def
    by (intro for_res_good akt_good [OF ctx] a good_start c(4))
  moreover have "M \<subseteq> (\<Union>a \<in> set (df_authors f). \<Union>k \<in> set (df_kinds f).
      \<Union>(n, vs) \<in> set (df_generic_tags f). \<Union>v \<in> set vs.
      {d \<in> M. de_pubkey d = a \<and> de_kind d = k \<and> (n, v) \<in> set (single_tags d)})"
  proof
    fix d assume d: "d \<in> M"
    then have "de_kind d \<in> set (df_kinds f)" "de_pubkey d \<in> set (df_authors f)"
      using assms(3,4) by (simp_all add: c(3) df_match_event_def df_kind_match_def df_authors_match_def)
    then show "d \<in> (\<Union>a \<in> set (df_authors f). \<Union>k \<in> set (df_kinds f).
        \<Union>(n, vs) \<in> set (df_generic_tags f). \<Union>v \<in> set vs.
        {d \<in> M. de_pubkey d = a \<and> de_kind d = k \<and> (n, v) \<in> set (single_tags d)})"
      using matching_some_tag [OF _ assms(5), of d] d c(3) by blast
  qed
  ultimately show ?thesis by (rule good_cover)
qed

section \<open>Ids and scraping\<close>

lemma ids_result:
  assumes ctx: "query_ctx D C E db f s0 until M" and "\<And>i. i \<in> set is \<Longrightarrow> length i = 32"
    and "bts_ok de_key out" and "set out \<subseteq> M"
  shows "\<exists>out'. query_by_ids D db f limit is out = Inr out' \<and> bts_ok de_key out' \<and> set out' \<subseteq> M \<and>
    (limit = None \<longrightarrow> set out' = set out \<union> {d \<in> M. de_id d \<in> set is})"
  using assms(2-4)
proof (induction "is" arbitrary: out)
  case (Cons i "is")
  note c = query_ctxD [OF ctx]
  have ev: "get_event_by_id D i db = Inr (event_with E i)"
    using get_event [OF c(1,2)] Cons.prems(1) by simp
  let ?out = "case event_with E i of None \<Rightarrow> out
      | Some d \<Rightarrow> if df_match_event f d then bts_insert de_key d out else out"
  have set: "set ?out = set out \<union> {d \<in> M. de_id d = i}"
  proof (cases "event_with E i")
    case None
    then have "\<not> (d \<in> M \<and> de_id d = i)" for d by (auto simp: event_with_None c(3))
    then show ?thesis by (auto simp: None)
  next
    case (Some d)
    then have d: "d \<in> E" "de_id d = i" using event_with_Some [OF tables_okD(3) [OF c(2)]] by auto
    have "{d \<in> M. de_id d = i} = (if df_match_event f d then {d} else {})"
      using d same_id [OF c(2)] by (auto simp: c(3))
    then show ?thesis
      using insert_result [OF Cons.prems(2,3) _ c(6), of d] d(1) by (simp add: Some c(3))
  qed
  have ok: "bts_ok de_key ?out" using Cons.prems(2) by (auto simp: bts_insert_ok split: option.split)
  have "\<exists>out'. query_by_ids D db f limit is ?out = Inr out' \<and> bts_ok de_key out' \<and> set out' \<subseteq> M \<and>
      (limit = None \<longrightarrow> set out' = set ?out \<union> {d \<in> M. de_id d \<in> set is})"
    using Cons.prems ok set by (intro Cons.IH) auto
  moreover have "{d \<in> M. de_id d \<in> set (i # is)} = {d \<in> M. de_id d = i} \<union> {d \<in> M. de_id d \<in> set is}"
    by auto
  ultimately show ?case
    using Cons.prems(2,3) ev by (simp add: set Un_assoc limit_reached_def split: option.split)
qed simp

lemma scraping_result:
  assumes ctx: "query_ctx D C E db f s0 until M"
  shows "\<exists>xs. query_by_scraping D db f s0 until limit =
      Inr (take (case limit of None \<Rightarrow> usize_max | Some l \<Rightarrow> l) xs) \<and> bts_ok de_key xs \<and> set xs = M"
proof -
  note c = query_ctxD [OF ctx]
  obtain xs ds where r: "ci_iter D s0 until db = Inr (map Inr xs)" "map snd xs = map de_id ds"
      "bts_ok de_key ds" and set: "set ds = {d \<in> E. s0 \<le> de_created_at d \<and> de_created_at d \<le> until}"
    using ci_rows [OF c(1,2,4,5)] by blast
  have "List.map_filter (\<lambda>i. case get_event_by_id D i db of
        Inr (Some d) \<Rightarrow> if df_match_event f d then Some d else None | _ \<Rightarrow> None) (map de_id cs) =
      filter (df_match_event f) cs" if "set cs \<subseteq> E" for cs
    using that get_event_present [OF c(1,2)] by (induction cs) (auto simp: List.map_filter_def)
  moreover have "set ds \<subseteq> E" using set by blast
  moreover have "set (filter (df_match_event f) ds) = M" using set c(7) by (auto simp: c(3))
  moreover have "bts_ok de_key (filter (df_match_event f) ds)" by (rule bts_filter_ok [OF r(3)])
  ultimately show ?thesis using r(1,2) by (auto simp: query_by_scraping_def)
qed

section \<open>Queries\<close>

text \<open>What the types of a filter guarantee: ids and keys have 32 bytes, times have 64 bits.\<close>

definition stored_filter_ok :: "filter \<Rightarrow> bool" where
  "stored_filter_ok f \<longleftrightarrow>
     (case fl_ids f of None \<Rightarrow> True | Some is \<Rightarrow> list_all wf_event_id is) \<and>
     (case fl_authors f of None \<Rightarrow> True | Some ks \<Rightarrow> list_all wf_public_key ks) \<and>
     since_of f \<le> u64_max \<and> until_of f \<le> u64_max"

lemma stored_filter_okD:
  assumes "stored_filter_ok f" and "hash_order_ok H"
  shows "\<And>i. i \<in> set (df_ids (df_of_filter H f)) \<Longrightarrow> length i = 32"
    "\<And>a. a \<in> set (df_authors (df_of_filter H f)) \<Longrightarrow> length a = 32"
proof -
  have sets: "set (ho_bytes H xs) = set xs" for xs using assms(2) by (simp add: hash_order_ok_def)
  show "length i = 32" if "i \<in> set (df_ids (df_of_filter H f))" for i
    using assms(1) that
    by (auto simp: stored_filter_ok_def df_of_filter_def sets list_all_iff wf_event_id_def
        split: option.splits)
  show "length a = 32" if "a \<in> set (df_authors (df_of_filter H f))" for a
    using assms(1) that
    by (auto simp: stored_filter_ok_def df_of_filter_def sets list_all_iff wf_public_key_def
        split: option.splits)
qed

text \<open>The stored events that match a filter.\<close>

definition matching :: "hash_order \<Rightarrow> filter \<Rightarrow> database_event set \<Rightarrow> database_event set" where
  "matching H f E = {d \<in> E. df_match_event (df_of_filter H f) d}"

lemma matching_times:
  assumes "d \<in> matching H f E" and "de_created_at d \<le> u64_max"
  shows "since_of f \<le> de_created_at d" "de_created_at d \<le> until_of f"
  using assms
  by (auto simp: matching_def df_match_event_def df_of_filter_simps since_of_def until_of_def
      split: option.splits)

lemma query_ctx_filter:
  assumes "env_ok D C" and "tables_ok (le_fb D) E (view C db)" and "stored_filter_ok f"
  shows "query_ctx D C E db (df_of_filter (le_hash D) f) (since_of f) (until_of f)
    (matching (le_hash D) f E)"
  using assms matching_times tables_okD(2) [OF assms(2)]
  by (auto simp: query_ctx_def matching_def stored_filter_ok_def de_ok_def)

lemma no_time:
  assumes "time_range_empty f" shows "matching H f E = {}"
  using assms
  by (auto simp: time_range_empty_def matching_def df_match_event_def df_of_filter_simps
      split: option.splits)

text \<open>
  A query finds what a scan of all events finds, in the order of the store and cut at the limit;
  with a limit, if the pattern visits the newest events first.
\<close>

lemma lmdb_query_spec:
  assumes env: "env_ok D C" and tables: "tables_ok (le_fb D) E (view C db)"
    and uniq: "unique_versions E" and f: "stored_filter_ok f" and small: "card E \<le> usize_max"
    and order: "newest_first (df_of_filter (le_hash D) f) (fl_limit f)"
    and xs: "bts_ok de_key xs" "set xs = matching (le_hash D) f E"
  shows "lmdb_query D f db = Inr (take_limit (fl_limit f) xs)"
proof (cases "time_range_empty f")
  case True
  then have "xs = []" using xs(2) no_time by simp
  then show ?thesis using True by (simp add: lmdb_query_def take_limit_def split: option.split)
next
  case False
  let ?g = "df_of_filter (le_hash D) f" and ?M = "matching (le_hash D) f E"
  note ctx = query_ctx_filter [OF env tables f]
  note len = stored_filter_okD [OF f env_okD(5) [OF env]]
  have finish: "rbind r (\<lambda>s. Inr (take_limit (fl_limit f) (snd s))) = Inr (take_limit (fl_limit f) xs)"
    if "\<exists>s. r = Inr s \<and> good ?M (since_of f) (fl_limit f) ?M s" for r :: "store_error + query_state"
    using that good_result [OF _ xs] by auto
  show ?thesis
  proof (cases "pattern_from_filter ?g")
    case PatIds
    then have l: "fl_limit f = None" and ids: "df_ids ?g \<noteq> []"
      using order by (auto simp: newest_first_def pattern_from_filter_def split: if_splits)
    obtain out where out: "query_by_ids D db ?g (fl_limit f) (df_ids ?g) [] = Inr out" "bts_ok de_key out"
        "set out = {d \<in> ?M. de_id d \<in> set (df_ids ?g)}"
      using ids_result [OF ctx len(1), of "df_ids ?g" "[]" "fl_limit f"] l by auto
    have "set out = set xs"
      using ids unfolding out(3) xs(2) by (auto simp: matching_def df_match_event_def df_ids_match_def)
    then have "out = xs" by (rule bts_ok_eqI [OF out(2) xs(1)])
    then show ?thesis using False PatIds out(1) by (simp add: lmdb_query_def Let_def)
  next
    case PatAuthorKindsAndTags
    then have l: "fl_limit f = None" and ne: "df_authors ?g \<noteq> []" "df_kinds ?g \<noteq> []"
        "df_generic_tags ?g \<noteq> []"
      using order by (auto simp: newest_first_def pattern_from_filter_def split: if_splits)
    show ?thesis
      using False PatAuthorKindsAndTags finish authors_kinds_tags_good [OF ctx len(2) ne] l
      by (simp add: lmdb_query_def Let_def)
  next
    case PatScraping
    obtain ys where ys: "query_by_scraping D db ?g (since_of f) (until_of f) (fl_limit f) =
        Inr (take (case fl_limit f of None \<Rightarrow> usize_max | Some l \<Rightarrow> l) ys)" "bts_ok de_key ys" "set ys = ?M"
      using scraping_result [OF ctx] by blast
    have eq: "ys = xs" using bts_ok_eqI [OF ys(2) xs(1)] ys(3) xs(2) by simp
    have "length xs = card ?M" using bts_ok_distinct [OF xs(1)] xs(2) by (metis distinct_card)
    also have "\<dots> \<le> card E" using tables_okD(1) [OF tables] by (intro card_mono) (auto simp: matching_def)
    finally have "length xs \<le> usize_max" using small by simp
    then show ?thesis
      using False PatScraping ys(1) eq by (simp add: lmdb_query_def Let_def take_limit_def split: option.split)
  qed (use False finish authors_kinds_good [OF ctx uniq len(2)] authors_good [OF ctx len(2)]
      kinds_good [OF ctx] tags_good [OF ctx] authors_tags_good [OF ctx len(2)] kinds_tags_good [OF ctx]
      in \<open>auto simp: lmdb_query_def Let_def pattern_from_filter_def split: if_splits\<close>)
qed

lemma sorted_exists:
  assumes "finite M" and "inj_on key M"
  shows "\<exists>xs. bts_ok key xs \<and> set xs = M"
proof -
  obtain ys where "set ys = M" using finite_list [OF assms(1)] by blast
  then have "bts_ok key (bts_extend key [] ys) \<and> set (bts_extend key [] ys) = M"
    using assms(2) by (simp add: bts_extend_ok bts_extend_set)
  then show ?thesis by blast
qed

text \<open>With any filter the result is sorted, matches and is within the limit.\<close>

lemma lmdb_query_sound_result:
  assumes env: "env_ok D C" and tables: "tables_ok (le_fb D) E (view C db)"
    and uniq: "unique_versions E" and f: "stored_filter_ok f" and small: "card E \<le> usize_max"
  shows "\<exists>ds. lmdb_query D f db = Inr ds \<and> bts_ok de_key ds \<and> set ds \<subseteq> matching (le_hash D) f E \<and>
    (\<forall>l. fl_limit f = Some l \<longrightarrow> length ds \<le> l)"
proof -
  let ?g = "df_of_filter (le_hash D) f" and ?M = "matching (le_hash D) f E"
  note ctx = query_ctx_filter [OF env tables f]
  note len = stored_filter_okD [OF f env_okD(5) [OF env]]
  have cut: "\<exists>ds. Inr (take_limit (fl_limit f) xs) = (Inr ds :: store_error + database_event list) \<and>
      bts_ok de_key ds \<and> set ds \<subseteq> ?M \<and> (\<forall>l. fl_limit f = Some l \<longrightarrow> length ds \<le> l)"
    if "bts_ok de_key xs" "set xs \<subseteq> ?M" for xs
    using that set_take_subset [of _ xs]
    by (fastforce simp: take_limit_def bts_ok_def sorted_wrt_take split: option.split)
  show ?thesis
  proof (cases "newest_first ?g (fl_limit f) \<or> time_range_empty f")
    case True
    show ?thesis
    proof (cases "time_range_empty f")
      case False
      have "finite ?M" using tables_okD(1) [OF tables] by (simp add: matching_def)
      then obtain xs where xs: "bts_ok de_key xs" "set xs = ?M"
        using sorted_exists [OF _ query_ctxD(6) [OF ctx]] by blast
      have "newest_first ?g (fl_limit f)" using True False by simp
      from lmdb_query_spec [OF env tables uniq f small this xs] show ?thesis using cut [OF xs(1)] xs(2) by simp
    qed (simp add: lmdb_query_def)
  next
    case False
    then consider (ids) "pattern_from_filter ?g = PatIds" | (akt) "pattern_from_filter ?g = PatAuthorKindsAndTags"
      by (auto simp: newest_first_def)
    then show ?thesis
    proof cases
      case ids
      then show ?thesis
        using False cut ids_result [OF ctx len(1), of "df_ids ?g" "[]" "fl_limit f"]
        by (auto simp: lmdb_query_def Let_def)
    next
      case akt
      have "sound_state ?M (since_of f, [])" using f by (simp add: sound_state_def stored_filter_ok_def)
      then show ?thesis
        using False akt cut akt_sound [OF ctx _ len(2), of "(since_of f, [])" "fl_limit f"]
        by (auto simp: lmdb_query_def Let_def sound_state_def)
    qed
  qed
qed

section \<open>Counting\<close>

lemma ci_size:
  assumes "tables_ok F E v"
  shows "card (dom (vw_ci v)) = card E"
proof -
  let ?k = "\<lambda>d. make_ci_index_key (de_created_at d) (de_id d)"
  have "dom (vw_ci v) = ?k ` E"
    using tables_okD(5) [OF assms] by (auto simp: index_ok_def ci_keys_def keys_by_def)
  moreover have "inj_on ?k E"
    using tables_okD(2,3) [OF assms] all_separate(1)
    by (fastforce simp: inj_on_def separate_def ci_keys_def keys_by_def)
  ultimately show ?thesis by (simp add: card_image)
qed

lemma lmdb_count_spec:
  assumes env: "env_ok D C" and tables: "tables_ok (le_fb D) E (view C db)"
    and uniq: "unique_versions E" and f: "stored_filter_ok f" and small: "card E \<le> usize_max"
  shows "lmdb_count D f db = rbind (lmdb_query D f db) (\<lambda>ds. Inr (length ds))"
proof (cases "fl_ids f = None \<and> fl_authors f = None \<and> fl_kinds f = None \<and> fl_search f = None \<and>
    fl_generic_tags f = []")
  case fast: True
  have times: "since_of f \<le> u64_max" "until_of f \<le> u64_max" using f by (simp_all add: stored_filter_ok_def)
  obtain xs ds where r: "ci_iter D (since_of f) (until_of f) db = Inr (map Inr xs)"
      "map snd xs = map de_id ds" "bts_ok de_key ds"
      "set ds = {d \<in> E. since_of f \<le> de_created_at d \<and> de_created_at d \<le> until_of f}"
    using ci_rows [OF env tables times] by blast
  have "df_match_event (df_of_filter (le_hash D) f) d \<longleftrightarrow>
      since_of f \<le> de_created_at d \<and> de_created_at d \<le> until_of f" if "d \<in> E" for d
    using fast tables_okD(2) [OF tables that]
    by (auto simp: df_match_event_def df_of_filter_def df_ids_match_def df_authors_match_def
        df_kind_match_def df_tag_match_def df_search_match_def since_of_def until_of_def de_ok_def
        split: option.split)
  then have M: "set ds = matching (le_hash D) f E" unfolding r(4) by (auto simp: matching_def)
  have "newest_first (df_of_filter (le_hash D) f) (fl_limit f)"
    using fast by (simp add: newest_first_def pattern_from_filter_def df_of_filter_def)
  note q = lmdb_query_spec [OF env tables uniq f small this r(3) M]
  have len: "length xs = length ds" using r(2) by (metis length_map)
  have all: "kv_len (le_bytes D) (lm_ci db) = Inr (length ds)" if "f = filter_new\<lparr>fl_limit := fl_limit f\<rparr>"
  proof -
    have "fl_since f = None" "fl_until f = None" by (subst that, simp add: filter_new_def)+
    then have "set ds = E"
      using tables_okD(2) [OF tables] by (auto simp: r(4) since_of_def until_of_def de_ok_def)
    then have "length ds = card E" using bts_ok_distinct [OF r(3)] by (metis distinct_card)
    then show ?thesis
      using ci_size [OF tables] kv_len_ok [OF env_okD(1) [OF env]] by (simp add: view_def)
  qed
  show ?thesis
    unfolding lmdb_count_def q using fast all r(1) len
    by (auto simp: Let_def take_limit_def min.commute split: option.split)
next
  case False
  then show ?thesis unfolding lmdb_count_def Let_def if_not_P [OF False] by simp
qed

end
