(* ===== verification/Lmdb_Saving.thy ===== *)
theory Lmdb_Saving
  imports Lmdb_Scan
begin

text \<open>
  What the transactions of the LMDB store do to the set of stored events and to the marks: an
  assertion over the abstract state, a triple for each write on it, and the specification of
  removing versions, deletion requests, vanish requests and of saving an event.
\<close>

section \<open>The abstract state\<close>

text \<open>The stored events are \<open>E\<close>, the marks (deleted ids, coordinates, vanished keys) those of \<open>w\<close>.\<close>

definition stores ::
  "('b, 'u, 'n) lmdb_env \<Rightarrow> ('b, 'u, 'n) contents \<Rightarrow> database_event set \<Rightarrow> lmdb_view \<Rightarrow>
   ('b, 'u, 'n) lmdb \<Rightarrow> bool" where
  "stores D C E w db \<longleftrightarrow> tables_ok (le_fb D) E (view C db) \<and> marks_agree w (view C db)"

lemma holds_stores:
  assumes "\<And>v. holds W (\<lambda>db. view C db = v) m (\<lambda>_ db. view C db = g v)"
    and "\<And>v. tables_ok (le_fb D) E v \<Longrightarrow> marks_agree w v \<Longrightarrow>
      tables_ok (le_fb D) E' (g v) \<and> marks_agree w' (g v)"
  shows "holds W (stores D C E w) m (\<lambda>_. stores D C E' w')"
proof (rule holds_given)
  fix db assume s: "stores D C E w db"
  show "holds W (\<lambda>t. t = db) m (\<lambda>_. stores D C E' w')"
    by (rule holds_pre [OF _ holds_post [OF assms(1) [of "view C db"]]])
      (use s assms(2) in \<open>auto simp: stores_def\<close>)
qed

lemma holds_at: "holds W P m Q \<Longrightarrow> P s \<Longrightarrow> k s = m s \<Longrightarrow> holds W (\<lambda>t. t = s) k Q"
  by (simp add: holds_def)

text \<open>A read whose result depends on the abstract state only.\<close>

lemma holds_look:
  assumes "\<And>db. stores D C E w db \<Longrightarrow> r db = Inr a" and "holds W (stores D C E w) (f a) Q"
  shows "holds W (stores D C E w) (tx_bind (tx_read r) f) Q"
  by (rule holds_bind [OF holds_read [where Q = "\<lambda>b db. b = a \<and> stores D C E w db"]])
    (use assms in \<open>auto simp: holds_def\<close>)

lemma marks_agree_trans: "marks_agree u v \<Longrightarrow> marks_agree v w \<Longrightarrow> marks_agree u w"
  by (simp add: marks_agree_def)

lemma marks_agree_views' [simp]:
  "marks_agree w (store_view F d v) = marks_agree w v" "marks_agree w (remove_view d v) = marks_agree w v"
  "marks_agree w (index_view d v) = marks_agree w v"
  by (simp_all add: marks_agree_def store_view_def remove_view_def index_view_def)

lemma tables_ok_marks [simp]:
  "tables_ok F E (v\<lparr>vw_deleted := a\<rparr>) = tables_ok F E v"
  "tables_ok F E (v\<lparr>vw_by_author := a\<rparr>) = tables_ok F E v"
  "tables_ok F E (v\<lparr>vw_coordinates := n\<rparr>) = tables_ok F E v"
  "tables_ok F E (v\<lparr>vw_vanished := a\<rparr>) = tables_ok F E v"
  "tables_ok F E (v\<lparr>vw_metadata := n\<rparr>) = tables_ok F E v"
  by (simp_all add: tables_ok_def)

definition with_deleted :: "event_id \<Rightarrow> lmdb_view \<Rightarrow> lmdb_view" where
  "with_deleted i w = w\<lparr>vw_deleted := (vw_deleted w)(eid_bytes i \<mapsto> ())\<rparr>"

definition with_by_author :: "public_key \<Rightarrow> event_id \<Rightarrow> lmdb_view \<Rightarrow> lmdb_view" where
  "with_by_author pk i w =
     w\<lparr>vw_by_author := (vw_by_author w)(make_author_deletion_key i pk \<mapsto> ())\<rparr>"

definition with_coordinate :: "timestamp \<Rightarrow> coordinate \<Rightarrow> lmdb_view \<Rightarrow> lmdb_view" where
  "with_coordinate t c w =
     w\<lparr>vw_coordinates := (vw_coordinates w)(make_coordinate_index_key c \<mapsto> t)\<rparr>"

definition with_vanished :: "public_key \<Rightarrow> lmdb_view \<Rightarrow> lmdb_view" where
  "with_vanished pk w = w\<lparr>vw_vanished := (vw_vanished w)(pk_bytes pk \<mapsto> ())\<rparr>"

lemmas with_defs = with_deleted_def with_by_author_def with_coordinate_def with_vanished_def

text \<open>The environment of a transaction; \<open>W\<close> is the assumption that no write fails.\<close>

definition tx_env :: "bool \<Rightarrow> ('b, 'u, 'n) lmdb_env \<Rightarrow> ('b, 'u, 'n) contents \<Rightarrow> bool" where
  "tx_env W D C \<longleftrightarrow> env_ok D C \<and> (W \<longrightarrow> writable D)"

lemma tx_envD: "tx_env W D C \<Longrightarrow> env_ok D C" "tx_env W D C \<Longrightarrow> W \<Longrightarrow> writable D"
  by (simp_all add: tx_env_def)

lemma valid_keys:
  "wf_event_id i \<Longrightarrow> key_valid (eid_bytes i)"
  "wf_event_id i \<Longrightarrow> wf_public_key pk \<Longrightarrow> key_valid (make_author_deletion_key i pk)"
  "wf_public_key pk \<Longrightarrow> key_valid (pk_bytes pk)"
  by (auto simp: wf_event_id_def wf_public_key_def key_valid_def make_author_deletion_key_def)

lemma stores_marks:
  assumes env: "tx_env W D C"
  shows "wf_event_id i \<Longrightarrow>
      holds W (stores D C E w) (mark_deleted D i) (\<lambda>_. stores D C E (with_deleted i w))"
    "wf_event_id i \<Longrightarrow> wf_public_key pk \<Longrightarrow>
      holds W (stores D C E w) (mark_deleted_by_author D i pk) (\<lambda>_. stores D C E (with_by_author pk i w))"
    "(W \<Longrightarrow> key_valid (make_coordinate_index_key c)) \<Longrightarrow>
      holds W (stores D C E w) (mark_coordinate_deleted D c t) (\<lambda>_. stores D C E (with_coordinate t c w))"
    "wf_public_key pk \<Longrightarrow>
      holds W (stores D C E w) (mark_pubkey_vanished D pk) (\<lambda>_. stores D C E (with_vanished pk w))"
proof -
  note k = valid_keys(1) and a = valid_keys(2) and p = valid_keys(3)
  show "wf_event_id i \<Longrightarrow>
      holds W (stores D C E w) (mark_deleted D i) (\<lambda>_. stores D C E (with_deleted i w))"
    by (rule holds_stores [OF holds_marks(1) [OF tx_envD [OF env] k]])
      (simp_all add: marks_agree_def with_defs)
  show "wf_event_id i \<Longrightarrow> wf_public_key pk \<Longrightarrow>
      holds W (stores D C E w) (mark_deleted_by_author D i pk) (\<lambda>_. stores D C E (with_by_author pk i w))"
    by (rule holds_stores [OF holds_marks(2) [OF tx_envD [OF env] a]])
      (simp_all add: marks_agree_def with_defs)
  show "(W \<Longrightarrow> key_valid (make_coordinate_index_key c)) \<Longrightarrow>
      holds W (stores D C E w) (mark_coordinate_deleted D c t) (\<lambda>_. stores D C E (with_coordinate t c w))"
    by (rule holds_stores [OF holds_marks(3) [OF tx_envD [OF env]]])
      (simp_all add: marks_agree_def with_defs)
  show "wf_public_key pk \<Longrightarrow>
      holds W (stores D C E w) (mark_pubkey_vanished D pk) (\<lambda>_. stores D C E (with_vanished pk w))"
    by (rule holds_stores [OF holds_marks(4) [OF tx_envD [OF env] p]])
      (simp_all add: marks_agree_def with_defs)
qed

lemma stores_store:
  assumes "tx_env W D C" and "de_ok d" and "de_id d \<notin> de_id ` E"
  shows "holds W (stores D C E w) (lmdb_store D d) (\<lambda>_. stores D C (insert d E) w)"
  by (rule holds_stores [OF holds_store [OF tx_envD [OF assms(1)] assms(2)]])
    (simp_all add: store_view_ok assms(2,3))

lemma stores_remove:
  assumes "tx_env W D C" and "de_ok d" and "\<And>c. c \<in> E \<Longrightarrow> de_id c = de_id d \<Longrightarrow> c = d"
  shows "holds W (stores D C E w) (lmdb_remove D (event_index_keys_new d)) (\<lambda>_. stores D C (E - {d}) w)"
  by (rule holds_stores [OF holds_remove [OF tx_envD [OF assms(1)] assms(2)]])
    (simp_all add: remove_view_ok assms(2,3))

text \<open>Loops of removals; the events may have been removed already.\<close>

lemma stores_removes:
  assumes "tx_env W D C" and "set ds \<subseteq> S" and "E \<subseteq> S" and "\<forall>d \<in> S. de_ok d" and "inj_on de_id S"
  shows "holds W (stores D C E w) (tx_for (lmdb_remove D) (map event_index_keys_new ds))
    (\<lambda>_. stores D C (E - set ds) w)"
  using assms(2,3)
proof (induction ds arbitrary: E)
  case Nil
  then show ?case by (simp add: holds_def tx_return_def)
next
  case (Cons d ds)
  have same: "c = d" if "c \<in> E" "de_id c = de_id d" for c
    using inj_onD [OF assms(5) that(2)] that(1) Cons.prems by auto
  have "E - set (d # ds) = E - {d} - set ds" by auto
  moreover have "holds W (stores D C (E - {d}) w) (tx_for (lmdb_remove D) (map event_index_keys_new ds))
      (\<lambda>_. stores D C (E - {d} - set ds) w)"
    using Cons.prems by (intro Cons.IH) auto
  ultimately show ?case
    using Cons.prems assms(4) same
    by (auto intro!: holds_then stores_remove [OF assms(1)])
qed

section \<open>Versions\<close>

text \<open>
  The stored events that an event with the coordinate replaces. The index has only the padded or
  cut identifier, and every tag named d of an event.
\<close>

definition versions_of :: "database_event set \<Rightarrow> coordinate \<Rightarrow> database_event set" where
  "versions_of E c =
     {d \<in> E. de_pubkey d = pk_bytes (co_public_key c) \<and> de_kind d = as_u16 (co_kind c) \<and>
        (is_replaceable (co_kind c) \<or>
         is_addressable (co_kind c) \<and>
           (\<exists>v. (slt_d, v) \<in> set (single_tags d) \<and> pad_value v = pad_value (co_identifier c)))}"

lemma collect_spec:
  assumes "env_ok D C" and "tables_ok (le_fb D) E (view C db)" and "set ds \<subseteq> E"
    and "map snd xs = map de_id ds"
  shows "collect_events D db P (map Inr xs) = Inr (map event_index_keys_new (filter P ds))"
  using assms(3,4)
proof (induction xs arbitrary: ds)
  case (Cons x xs)
  obtain d ds' where ds: "ds = d # ds'" using Cons.prems(2) by (cases ds) auto
  obtain k where x: "x = (k, de_id d)" using Cons.prems(2) ds by (cases x) auto
  show ?case
    using Cons.prems Cons.IH [of ds'] get_event_present [OF assms(1,2)] by (simp add: ds x)
qed simp

lemma replaceable_addressable: "is_replaceable k \<Longrightarrow> \<not> is_addressable k"
  by (auto simp: is_replaceable_def is_addressable_def Let_def replaceable_range_def addressable_range_def
      in_range_def word_le_nat_alt word_less_nat_alt)

lemma stores_remove_versions:
  assumes env: "tx_env W D C" and c: "wf_public_key (co_public_key c)" and u: "until \<le> u64_max"
  shows "is_replaceable (co_kind c) \<Longrightarrow> holds W (stores D C E w) (remove_replaceable D c until)
      (\<lambda>_. stores D C (E - {d \<in> versions_of E c. de_created_at d \<le> until}) w)"
    "is_addressable (co_kind c) \<Longrightarrow> holds W (stores D C E w) (remove_addressable D c until)
      (\<lambda>_. stores D C (E - {d \<in> versions_of E c. de_created_at d \<le> until}) w)"
proof -
  have len: "length (pk_bytes (co_public_key c)) = 32" using c by (simp add: wf_public_key_def)
  note z = le0 [of u64_max]
  have remove: "holds W (stores D C E w) (tx_bind (tx_read r) (tx_for (lmdb_remove D)))
      (\<lambda>_. stores D C (E - V) w)"
    if "\<And>db. stores D C E w db \<Longrightarrow> \<exists>ds. r db = Inr (map event_index_keys_new ds) \<and> set ds = V \<and> V \<subseteq> E"
    for r V
  proof (rule holds_given)
    fix db assume s: "stores D C E w db"
    then have t: "tables_ok (le_fb D) E (view C db)" by (simp add: stores_def)
    obtain ds where ds: "r db = Inr (map event_index_keys_new ds)" "set ds = V" "V \<subseteq> E"
      using \<open>\<And>db. stores D C E w db \<Longrightarrow> _\<close> [OF s] by blast
    have "holds W (stores D C E w) (tx_for (lmdb_remove D) (map event_index_keys_new ds))
        (\<lambda>_. stores D C (E - V) w)"
      using stores_removes [OF env _ subset_refl, of ds E w] tables_okD(2,3) [OF t] ds by simp
    then show "holds W (\<lambda>t. t = db) (tx_bind (tx_read r) (tx_for (lmdb_remove D)))
        (\<lambda>_. stores D C (E - V) w)"
      using s ds(1) by (simp add: holds_def tx_bind_def tx_read_def)
  qed
  show "holds W (stores D C E w) (remove_replaceable D c until)
      (\<lambda>_. stores D C (E - {d \<in> versions_of E c. de_created_at d \<le> until}) w)"
    if k: "is_replaceable (co_kind c)"
  proof -
    have "\<exists>ds. rbind (akc_iter D (pk_bytes (co_public_key c)) (as_u16 (co_kind c)) 0 until db)
          (collect_events D db (\<lambda>_. True)) = Inr (map event_index_keys_new ds) \<and>
        set ds = {d \<in> versions_of E c. de_created_at d \<le> until} \<and>
        {d \<in> versions_of E c. de_created_at d \<le> until} \<subseteq> E"
      if "stores D C E w db" for db
    proof -
      have t: "tables_ok (le_fb D) E (view C db)" using that by (simp add: stores_def)
      obtain xs ds where r: "akc_iter D (pk_bytes (co_public_key c)) (as_u16 (co_kind c)) 0 until db =
          Inr (map Inr xs)" "map snd xs = map de_id ds"
          and set: "set ds = {d \<in> E. pk_bytes (co_public_key c) = de_pubkey d \<and> as_u16 (co_kind c) = de_kind d \<and>
            0 \<le> de_created_at d \<and> de_created_at d \<le> until}"
        using akc_rows [OF tx_envD(1) [OF env] t z u len] by blast
      have "set ds = {d \<in> versions_of E c. de_created_at d \<le> until}"
        using k unfolding set versions_of_def by auto
      moreover have "set ds \<subseteq> E" using set by blast
      ultimately show ?thesis
        using r(1) collect_spec [OF tx_envD(1) [OF env] t _ r(2), of "\<lambda>_. True"] by auto
    qed
    from remove [OF this] show ?thesis using k by (simp add: remove_replaceable_def)
  qed
  show "holds W (stores D C E w) (remove_addressable D c until)
      (\<lambda>_. stores D C (E - {d \<in> versions_of E c. de_created_at d \<le> until}) w)"
    if k: "is_addressable (co_kind c)"
  proof -
    have "\<exists>ds. rbind (atc_iter D (pk_bytes (co_public_key c)) slt_d (co_identifier c) 0 until db)
          (collect_events D db (\<lambda>d. de_kind d = as_u16 (co_kind c))) = Inr (map event_index_keys_new ds) \<and>
        set ds = {d \<in> versions_of E c. de_created_at d \<le> until} \<and>
        {d \<in> versions_of E c. de_created_at d \<le> until} \<subseteq> E"
      if "stores D C E w db" for db
    proof -
      have t: "tables_ok (le_fb D) E (view C db)" using that by (simp add: stores_def)
      obtain xs ds where r: "atc_iter D (pk_bytes (co_public_key c)) slt_d (co_identifier c) 0 until db =
          Inr (map Inr xs)" "map snd xs = map de_id ds"
          and set: "set ds = {d \<in> E. de_pubkey d = pk_bytes (co_public_key c) \<and>
            (\<exists>v'. (slt_d, v') \<in> set (single_tags d) \<and> pad_value v' = pad_value (co_identifier c)) \<and>
            0 \<le> de_created_at d \<and> de_created_at d \<le> until}"
        using atc_rows [OF tx_envD(1) [OF env] t z u len] by blast
      have "set (filter (\<lambda>d. de_kind d = as_u16 (co_kind c)) ds) =
          {d \<in> versions_of E c. de_created_at d \<le> until}"
        using k replaceable_addressable [of "co_kind c"] unfolding set_filter set versions_of_def by auto
      moreover have "set ds \<subseteq> E" using set by blast
      ultimately show ?thesis
        using r(1) collect_spec [OF tx_envD(1) [OF env] t _ r(2)]
        by (intro exI [of _ "filter (\<lambda>d. de_kind d = as_u16 (co_kind c)) ds"]) (auto simp: versions_of_def)
    qed
    from remove [OF this] show ?thesis using k by (simp add: remove_addressable_def)
  qed
qed

section \<open>Replacement\<close>

definition own_coordinate :: "event \<Rightarrow> string \<Rightarrow> coordinate" where
  "own_coordinate e identifier =
     (coordinate_new (ev_kind e) (ev_pubkey e))\<lparr>co_identifier := identifier\<rparr>"

text \<open>The versions that the two steps of saving an event look at.\<close>

definition replaceable_versions :: "database_event set \<Rightarrow> event \<Rightarrow> database_event set" where
  "replaceable_versions E e =
     (if is_replaceable (ev_kind e) then versions_of E (own_coordinate e []) else {})"

definition addressable_versions ::
  "externals \<Rightarrow> database_event set \<Rightarrow> event \<Rightarrow> database_event set" where
  "addressable_versions x E e =
     (if is_addressable (ev_kind e) then
        (case tags_identifier x (ev_tags e) of
           None \<Rightarrow> {} | Some identifier \<Rightarrow> versions_of E (own_coordinate e identifier))
      else {})"

definition superseded :: "database_event set \<Rightarrow> event \<Rightarrow> bool" where
  "superseded V e \<longleftrightarrow> (\<exists>d \<in> V. de_key d < de_key (de_of_event e))"

lemma has_been_replaced: "lmdb_has_event_been_replaced d e \<longleftrightarrow> de_key d < de_key (de_of_event e)"
  by (auto simp: lmdb_has_event_been_replaced_def de_key_less de_of_event_simps)

lemma superseded_sorted:
  assumes "bts_ok de_key ds" and "set ds = V"
  shows "superseded V e \<longleftrightarrow> ds \<noteq> [] \<and> lmdb_has_event_been_replaced (hd ds) e"
  using assms unfolding superseded_def has_been_replaced by (cases ds) fastforce+

lemma not_superseded_older:
  "\<not> superseded V e \<Longrightarrow> {d \<in> V. de_created_at d \<le> ev_created_at e} = V"
  unfolding superseded_def by (auto simp: de_key_less de_of_event_simps not_less)

text \<open>What the two steps do when the lookup gives the head of a sorted list of the versions.\<close>

lemma stores_replace:
  assumes "\<And>db. stores D C E w db \<Longrightarrow> \<exists>ds. bts_ok de_key ds \<and> set ds = V \<and>
      r db = Inr (case ds of [] \<Rightarrow> None | d # _ \<Rightarrow> Some d)"
    and "\<not> superseded V e \<Longrightarrow> holds W (stores D C E w) m (\<lambda>_. stores D C (E - V) w)"
  shows "holds W (stores D C E w)
    (tx_bind (tx_read r) (\<lambda>stored. case stored of
        None \<Rightarrow> tx_return False
      | Some d \<Rightarrow> if lmdb_has_event_been_replaced d e then tx_return True
                  else tx_then m (tx_return False)))
    (\<lambda>b db. b = superseded V e \<and> stores D C (if b then E else E - V) w db)"
proof (rule holds_given)
  fix db assume s: "stores D C E w db"
  obtain ds where ds: "bts_ok de_key ds" "set ds = V"
    and r: "r db = Inr (case ds of [] \<Rightarrow> None | d # _ \<Rightarrow> Some d)" using assms(1) [OF s] by blast
  note sup = superseded_sorted [OF ds, of e]
  let ?m = "tx_bind (tx_read r) (\<lambda>stored. case stored of
        None \<Rightarrow> tx_return False
      | Some d \<Rightarrow> if lmdb_has_event_been_replaced d e then tx_return True
                  else tx_then m (tx_return False))"
  show "holds W (\<lambda>t. t = db) ?m (\<lambda>b db. b = superseded V e \<and> stores D C (if b then E else E - V) w db)"
  proof (cases "ds = [] \<or> superseded V e")
    case True
    then show ?thesis
      using s sup r ds(2) by (cases ds) (auto simp: holds_def tx_bind_def tx_read_def tx_return_def)
  next
    case False
    have "holds W (stores D C E w) (tx_then m (tx_return False))
        (\<lambda>b db. b = superseded V e \<and> stores D C (if b then E else E - V) w db)"
      using False by (intro holds_then [OF assms(2)] holds_return) simp_all
    moreover have "?m db = tx_then m (tx_return False) db"
      using sup r False by (cases ds) (auto simp: tx_bind_def tx_read_def)
    ultimately show ?thesis using s by (intro holds_at)
  qed
qed

lemma versions_within: "versions_of E c \<subseteq> E"
  by (auto simp: versions_of_def)

lemma stores_replace_versions:
  assumes env: "tx_env W D C" and e: "wf_public_key (ev_pubkey e)" "ev_created_at e \<le> u64_max"
  shows "holds W (stores D C E w) (replace_versions D e)
    (\<lambda>b db. b = superseded (replaceable_versions E e) e \<and>
       stores D C (if b then E else E - replaceable_versions E e) w db)"
proof (cases "is_replaceable (ev_kind e)")
  case k: True
  let ?c = "coordinate_new (ev_kind e) (ev_pubkey e)" and ?V = "replaceable_versions E e"
  have V: "?V = versions_of E ?c"
    using k by (simp add: replaceable_versions_def own_coordinate_def coordinate_new_def)
  have len: "length (pk_bytes (ev_pubkey e)) = 32" using e by (simp add: wf_public_key_def)
  have "\<exists>ds. bts_ok de_key ds \<and> set ds = ?V \<and>
      find_replaceable_event D (ev_pubkey e) (ev_kind e) db = Inr (case ds of [] \<Rightarrow> None | d # _ \<Rightarrow> Some d)"
    if s: "stores D C E w db" for db
  proof -
    have t: "tables_ok (le_fb D) E (view C db)" using s by (simp add: stores_def)
    obtain xs ds where r: "akc_iter D (pk_bytes (ev_pubkey e)) (as_u16 (ev_kind e)) 0 u64_max db =
        Inr (map Inr xs)" "map snd xs = map de_id ds" "bts_ok de_key ds"
      and set: "set ds = {d \<in> E. pk_bytes (ev_pubkey e) = de_pubkey d \<and> as_u16 (ev_kind e) = de_kind d \<and>
        0 \<le> de_created_at d \<and> de_created_at d \<le> u64_max}"
      using akc_rows [OF tx_envD(1) [OF env] t le0 order_refl len] by blast
    have "set ds = ?V"
      using k tables_okD(2) [OF t] unfolding V set versions_of_def coordinate_new_def
      by (auto simp: de_ok_def)
    moreover have "find_replaceable_event D (ev_pubkey e) (ev_kind e) db =
        Inr (case ds of [] \<Rightarrow> None | d # _ \<Rightarrow> Some d)"
    proof -
      have "\<forall>d \<in> set ds. get_event_by_id D (de_id d) db = Inr (Some d)"
        using set get_event_present [OF tx_envD(1) [OF env] t] by simp
      then show ?thesis
        using k r(1,2) by (cases xs; cases ds) (auto simp: find_replaceable_event_def)
    qed
    ultimately show ?thesis using r(3) by blast
  qed
  moreover have "holds W (stores D C E w) (remove_replaceable D ?c (ev_created_at e))
      (\<lambda>_. stores D C (E - ?V) w)" if "\<not> superseded ?V e"
    using stores_remove_versions(1) [OF env _ e(2), of ?c E w] k e(1) not_superseded_older [OF that]
    by (simp add: V coordinate_new_def)
  ultimately show ?thesis
    using k unfolding replace_versions_def by (simp add: stores_replace)
qed (auto simp: replace_versions_def replaceable_versions_def superseded_def intro!: holds_return)

lemma first_of_kind_spec:
  assumes "env_ok D C" and "tables_ok (le_fb D) E (view C db)" and "set ds \<subseteq> E"
    and "map snd xs = map de_id ds"
  shows "first_of_kind D db k (map Inr xs) =
    Inr (case filter (\<lambda>d. de_kind d = k) ds of [] \<Rightarrow> None | d # _ \<Rightarrow> Some d)"
  using assms(3,4)
proof (induction xs arbitrary: ds)
  case (Cons x xs)
  obtain d ds' where ds: "ds = d # ds'" using Cons.prems(2) by (cases ds) auto
  obtain l where x: "x = (l, de_id d)" using Cons.prems(2) ds by (cases x) auto
  show ?case
    using Cons.prems Cons.IH [of ds'] get_event_present [OF assms(1,2)] by (simp add: ds x ok_or_def)
qed simp

lemma stores_replace_addressable:
  assumes env: "tx_env W D C" and e: "wf_public_key (ev_pubkey e)"
  shows "holds W (stores D C E w) (replace_addressable D e)
    (\<lambda>b db. b = superseded (addressable_versions (le_ext D) E e) e \<and>
       stores D C (if b then E else E - addressable_versions (le_ext D) E e) w db)"
proof (cases "is_addressable (ev_kind e) \<and> tags_identifier (le_ext D) (ev_tags e) \<noteq> None")
  case True
  then obtain i where k: "is_addressable (ev_kind e)" and i: "tags_identifier (le_ext D) (ev_tags e) = Some i"
    by blast
  let ?c = "own_coordinate e i" and ?V = "addressable_versions (le_ext D) E e"
  have V: "?V = versions_of E ?c" using k i by (simp add: addressable_versions_def)
  have c: "co_kind ?c = ev_kind e" "co_public_key ?c = ev_pubkey e" "co_identifier ?c = i"
    by (simp_all add: own_coordinate_def coordinate_new_def)
  have len: "length (pk_bytes (ev_pubkey e)) = 32" using e by (simp add: wf_public_key_def)
  have "\<exists>ds. bts_ok de_key ds \<and> set ds = ?V \<and>
      find_addressable_event D ?c db = Inr (case ds of [] \<Rightarrow> None | d # _ \<Rightarrow> Some d)"
    if s: "stores D C E w db" for db
  proof -
    have t: "tables_ok (le_fb D) E (view C db)" using s by (simp add: stores_def)
    obtain xs ds where r: "atc_iter D (pk_bytes (ev_pubkey e)) slt_d i 0 u64_max db =
        Inr (map Inr xs)" "map snd xs = map de_id ds" "bts_ok de_key ds"
      and set: "set ds = {d \<in> E. de_pubkey d = pk_bytes (ev_pubkey e) \<and>
        (\<exists>v'. (slt_d, v') \<in> set (single_tags d) \<and> pad_value v' = pad_value i) \<and>
        0 \<le> de_created_at d \<and> de_created_at d \<le> u64_max}"
      using atc_rows [OF tx_envD(1) [OF env] t le0 order_refl len] by blast
    let ?ds = "filter (\<lambda>d. de_kind d = as_u16 (ev_kind e)) ds"
    have "set ?ds = ?V"
      using k tables_okD(2) [OF t] replaceable_addressable [of "ev_kind e"]
      unfolding V versions_of_def set_filter set c by (auto simp: de_ok_def)
    moreover have "set ds \<subseteq> E" using set by blast
    ultimately show ?thesis
      using k r(1) first_of_kind_spec [OF tx_envD(1) [OF env] t _ r(2)] bts_filter_ok [OF r(3)]
      by (intro exI [of _ ?ds]) (simp add: find_addressable_event_def c)
  qed
  moreover have "holds W (stores D C E w) (remove_addressable D ?c u64_max) (\<lambda>_. stores D C (E - ?V) w)"
  proof (rule holds_given)
    fix db assume s: "stores D C E w db"
    then have t: "tables_ok (le_fb D) E (view C db)" by (simp add: stores_def)
    have "de_created_at d \<le> u64_max" if "d \<in> ?V" for d
      using tables_okD(2) [OF t, of d] that versions_within [of E ?c] by (auto simp: V de_ok_def)
    then have "{d \<in> ?V. de_created_at d \<le> u64_max} = ?V" by blast
    then show "holds W (\<lambda>t. t = db) (remove_addressable D ?c u64_max) (\<lambda>_. stores D C (E - ?V) w)"
      using stores_remove_versions(2) [OF env _ order_refl, of ?c E w] k e s
      by (rule_tac holds_pre [where P' = "stores D C E w"]) (simp_all add: c V)
  qed
  ultimately show ?thesis
    using k i unfolding replace_addressable_def Let_def own_coordinate_def [symmetric]
    by (simp add: stores_replace)
next
  case False
  then have "replace_addressable D e = tx_return False" "addressable_versions (le_ext D) E e = {}"
    by (auto simp: replace_addressable_def addressable_versions_def split: option.split)
  then show ?thesis by (auto simp: superseded_def intro!: holds_return)
qed

section \<open>Rejection\<close>

lemma read_marks:
  assumes "tx_env W D C" and "stores D C E w db"
  shows "wf_event_id i \<Longrightarrow> is_deleted D i db = Inr (vw_deleted w (eid_bytes i) \<noteq> None)"
    "wf_event_id i \<Longrightarrow> wf_public_key pk \<Longrightarrow>
      is_deleted_by_author D i pk db = Inr (vw_by_author w (make_author_deletion_key i pk) \<noteq> None)"
    "key_valid (make_coordinate_index_key c) \<Longrightarrow>
      when_is_coordinate_deleted D c db = Inr (vw_coordinates w (make_coordinate_index_key c))"
    "wf_public_key pk \<Longrightarrow>
      lmdb_is_pubkey_vanished D pk db = Inr (vw_vanished w (pk_bytes pk) \<noteq> None)"
  using assms(2) kv_get_ok [OF env_okD(2) [OF tx_envD(1) [OF assms(1)]]]
    kv_get_ok [OF env_okD(3) [OF tx_envD(1) [OF assms(1)]]] valid_keys
  by (simp_all add: stores_def marks_agree_def view_def is_deleted_def is_deleted_by_author_def
      when_is_coordinate_deleted_def lmdb_is_pubkey_vanished_def)

lemma read_has_event:
  assumes "tx_env W D C" and "stores D C E w db" and "wf_event_id i"
  shows "lmdb_has_event D i db = Inr (eid_bytes i \<in> de_id ` E)"
  using get_event [OF tx_envD(1) [OF assms(1)], of E db "eid_bytes i"] assms(2,3)
  by (simp add: stores_def lmdb_has_event_def wf_event_id_def event_with_def)

text \<open>An id that its author has deleted before it was known.\<close>

definition retained_deletion :: "('b, 'u, 'n) lmdb_env \<Rightarrow> lmdb_view \<Rightarrow> event \<Rightarrow> bool" where
  "retained_deletion D w e \<longleftrightarrow>
     lo_process_nip09 (le_options D) \<and> \<not> kind_eq (ev_kind e) EventDeletion \<and>
     vw_by_author w (make_author_deletion_key (ev_id e) (ev_pubkey e)) \<noteq> None"

definition lmdb_reason ::
  "('b, 'u, 'n) lmdb_env \<Rightarrow> database_event set \<Rightarrow> lmdb_view \<Rightarrow> event \<Rightarrow> rejected_reason option" where
  "lmdb_reason D E w e =
     (if is_ephemeral (ev_kind e) then Some REphemeral
      else if eid_bytes (ev_id e) \<in> de_id ` E then Some RDuplicate
      else if vw_deleted w (eid_bytes (ev_id e)) \<noteq> None \<or> retained_deletion D w e then Some RDeleted
      else if vw_vanished w (pk_bytes (ev_pubkey e)) \<noteq> None then Some RVanished
      else case event_coordinate (le_ext D) e of
          None \<Rightarrow> None
        | Some c \<Rightarrow>
            (case vw_coordinates w (make_coordinate_index_key c) of
               Some t \<Rightarrow> if ev_created_at e \<le> t then Some RDeleted else None
             | None \<Rightarrow> None))"

definition lmdb_reason_marks ::
  "('b, 'u, 'n) lmdb_env \<Rightarrow> database_event set \<Rightarrow> lmdb_view \<Rightarrow> event \<Rightarrow> lmdb_view" where
  "lmdb_reason_marks D E w e =
     (if \<not> is_ephemeral (ev_kind e) \<and> eid_bytes (ev_id e) \<notin> de_id ` E \<and>
         vw_deleted w (eid_bytes (ev_id e)) = None \<and> retained_deletion D w e
      then with_deleted (ev_id e) w else w)"

text \<open>What the types of an event guarantee, and that the coordinates in it are not too long.\<close>

definition storable :: "('b, 'u, 'n) lmdb_env \<Rightarrow> event \<Rightarrow> bool" where
  "storable D e \<longleftrightarrow>
     event_wf e \<and> de_ok (de_of_event e) \<and>
     (\<forall>c. event_coordinate (le_ext D) e = Some c \<longrightarrow> key_valid (make_coordinate_index_key c)) \<and>
     (\<forall>c \<in> set (tags_coordinates (le_ext D) (ev_tags e)). key_valid (make_coordinate_index_key c))"

lemma storableD:
  assumes "storable D e"
  shows "wf_event_id (ev_id e)" "wf_public_key (ev_pubkey e)" "ev_created_at e \<le> u64_max"
    "de_ok (de_of_event e)"
    "\<And>c. event_coordinate (le_ext D) e = Some c \<Longrightarrow> key_valid (make_coordinate_index_key c)"
    "\<And>c. c \<in> set (tags_coordinates (le_ext D) (ev_tags e)) \<Longrightarrow> key_valid (make_coordinate_index_key c)"
  using assms by (simp_all add: storable_def event_wf_def de_ok_def de_of_event_simps)

lemma stores_rejection:
  assumes env: "tx_env W D C" and e: "storable D e"
  shows "holds W (stores D C E w) (lmdb_rejection D e)
    (\<lambda>r db. r = lmdb_reason D E w e \<and> stores D C E (lmdb_reason_marks D E w e) db)"
proof -
  note wf = storableD [OF e]
  note reads = read_marks [OF env] read_has_event [OF env]
  let ?Q = "\<lambda>r db. r = lmdb_reason D E w e \<and> stores D C E (lmdb_reason_marks D E w e) db"
  have by_author: "holds W (stores D C E w) (if lo_process_nip09 (le_options D) \<and> \<not> kind_eq (ev_kind e) EventDeletion
        then tx_read (is_deleted_by_author D (ev_id e) (ev_pubkey e)) else tx_return False)
      (\<lambda>b db. b = retained_deletion D w e \<and> stores D C E w db)"
    using reads(2) wf(1,2) by (auto simp: retained_deletion_def intro!: holds_read holds_return)
  show ?thesis
  proof (cases "is_ephemeral (ev_kind e)")
    case True
    then show ?thesis
      unfolding lmdb_rejection_def by (auto simp: lmdb_reason_def lmdb_reason_marks_def intro!: holds_return)
  next
    case eph: False
    show ?thesis
      unfolding lmdb_rejection_def if_not_P [OF eph]
    proof (rule holds_look [OF reads(5) [OF _ wf(1)]], assumption, rule holds_if)
      assume "eid_bytes (ev_id e) \<in> de_id ` E"
      then show "holds W (stores D C E w) (tx_return (Some RDuplicate)) ?Q"
        using eph by (auto simp: lmdb_reason_def lmdb_reason_marks_def intro!: holds_return)
    next
      assume new: "eid_bytes (ev_id e) \<notin> de_id ` E"
      show "holds W (stores D C E w)
          (tx_bind (tx_read (is_deleted D (ev_id e))) (\<lambda>b. if b then tx_return (Some RDeleted) else
           tx_bind (if lo_process_nip09 (le_options D) \<and> \<not> kind_eq (ev_kind e) EventDeletion
                    then tx_read (is_deleted_by_author D (ev_id e) (ev_pubkey e)) else tx_return False) (\<lambda>b.
             if b then tx_then (mark_deleted D (ev_id e)) (tx_return (Some RDeleted)) else
           tx_bind (tx_read (lmdb_is_pubkey_vanished D (ev_pubkey e))) (\<lambda>b.
             if b then tx_return (Some RVanished) else
           (case event_coordinate (le_ext D) e of
              None \<Rightarrow> tx_return None
            | Some c \<Rightarrow>
                tx_bind (tx_read (when_is_coordinate_deleted D c)) (\<lambda>t.
                  tx_return (case t of
                      Some t \<Rightarrow> if ev_created_at e \<le> t then Some RDeleted else None
                    | None \<Rightarrow> None))))))) ?Q"
      proof (rule holds_look [OF reads(1) [OF _ wf(1)]], assumption, rule holds_if)
        assume "vw_deleted w (eid_bytes (ev_id e)) \<noteq> None"
        then show "holds W (stores D C E w) (tx_return (Some RDeleted)) ?Q"
          using eph new by (auto simp: lmdb_reason_def lmdb_reason_marks_def intro!: holds_return)
      next
        assume del: "\<not> vw_deleted w (eid_bytes (ev_id e)) \<noteq> None"
        have marked: "holds W (stores D C E w) (tx_then (mark_deleted D (ev_id e)) (tx_return (Some RDeleted))) ?Q"
          if "retained_deletion D w e"
          by (rule holds_then [OF stores_marks(1) [OF env wf(1)]])
            (use that eph new del in \<open>auto simp: lmdb_reason_def lmdb_reason_marks_def intro!: holds_return\<close>)
        have vanished: "holds W (stores D C E w) (tx_return (Some RVanished)) ?Q"
          if "\<not> retained_deletion D w e" "vw_vanished w (pk_bytes (ev_pubkey e)) \<noteq> None"
          using that eph new del by (auto simp: lmdb_reason_def lmdb_reason_marks_def intro!: holds_return)
        have rest: "holds W (stores D C E w) (case event_coordinate (le_ext D) e of
              None \<Rightarrow> tx_return None
            | Some c \<Rightarrow> tx_bind (tx_read (when_is_coordinate_deleted D c)) (\<lambda>t.
                tx_return (case t of Some t \<Rightarrow> if ev_created_at e \<le> t then Some RDeleted else None
                  | None \<Rightarrow> None))) ?Q"
          if "\<not> retained_deletion D w e" "vw_vanished w (pk_bytes (ev_pubkey e)) = None"
          using that eph new del wf(5)
          by (cases "event_coordinate (le_ext D) e")
            (auto simp: lmdb_reason_def lmdb_reason_marks_def intro!: holds_return holds_look [OF reads(3)])
        show "holds W (stores D C E w)
            (tx_bind (if lo_process_nip09 (le_options D) \<and> \<not> kind_eq (ev_kind e) EventDeletion
                      then tx_read (is_deleted_by_author D (ev_id e) (ev_pubkey e)) else tx_return False) (\<lambda>b.
               if b then tx_then (mark_deleted D (ev_id e)) (tx_return (Some RDeleted)) else
             tx_bind (tx_read (lmdb_is_pubkey_vanished D (ev_pubkey e))) (\<lambda>b.
               if b then tx_return (Some RVanished) else
             (case event_coordinate (le_ext D) e of
                None \<Rightarrow> tx_return None
              | Some c \<Rightarrow>
                  tx_bind (tx_read (when_is_coordinate_deleted D c)) (\<lambda>t.
                    tx_return (case t of
                        Some t \<Rightarrow> if ev_created_at e \<le> t then Some RDeleted else None
                      | None \<Rightarrow> None)))))) ?Q"
          by (rule holds_bind [OF by_author], rule holds_given, elim conjE, rule holds_pre [where P' = "stores D C E w"],
              simp, rule holds_if, rule marked, simp,
              rule holds_look [OF reads(4) [OF _ wf(2)]], assumption, rule holds_if,
              rule vanished, simp, simp, rule rest, simp, simp only: not_not)
      qed
    qed
  qed
qed

section \<open>Deletion requests\<close>

text \<open>Loops that remove events and set marks.\<close>

lemma stores_for:
  assumes "\<And>x E w. x \<in> set xs \<Longrightarrow> E \<subseteq> S \<Longrightarrow>
      holds W (stores D C E w) (f x) (\<lambda>_. stores D C (E - R x) (h x w))"
    and "E \<subseteq> S"
  shows "holds W (stores D C E w) (tx_for f xs) (\<lambda>_. stores D C (E - \<Union> (R ` set xs)) (fold h xs w))"
  using assms
proof (induction xs arbitrary: E w)
  case Nil
  then show ?case by (simp add: holds_def tx_return_def)
next
  case (Cons x xs)
  have "E - R x - \<Union> (R ` set xs) = E - \<Union> (R ` set (x # xs))" by auto
  moreover have "holds W (stores D C (E - R x) (h x w)) (tx_for f xs)
      (\<lambda>_. stores D C (E - R x - \<Union> (R ` set xs)) (fold h xs (h x w)))"
    using Cons.prems by (intro Cons.IH) auto
  ultimately show ?case
    using Cons.prems by (auto intro!: holds_then)
qed

lemma tag_targets_wf:
  assumes "hex_ok x"
  shows "i \<in> set (tags_event_ids x ts) \<Longrightarrow> wf_event_id i"
    "c \<in> set (tags_coordinates x ts) \<Longrightarrow> wf_public_key (co_public_key c)"
  by (auto simp: tags_event_ids_def tags_coordinates_def tags_collect_set ok_of_Some coordinate_wf_def
      dest!: event_id_from_hex_wf [OF assms] from_kpi_wf [OF assms])

definition coordinate_targets :: "timestamp \<Rightarrow> coordinate \<Rightarrow> database_event set" where
  "coordinate_targets t c = {d \<in> versions_of UNIV c. de_created_at d \<le> t}"

lemma versions_of_Int: "E - {d \<in> versions_of E c. de_created_at d \<le> t} = E - coordinate_targets t c"
  by (auto simp: coordinate_targets_def versions_of_def)

lemma stores_delete_coordinate:
  assumes env: "tx_env W D C" and "wf_public_key (co_public_key c)" and "t \<le> u64_max"
    and "key_valid (make_coordinate_index_key c)"
  shows "holds W (stores D C E w) (delete_coordinate D t c)
    (\<lambda>_. stores D C (E - coordinate_targets t c) (with_coordinate t c w))"
proof -
  note remove = stores_remove_versions [OF env assms(2,3)]
  have "E - coordinate_targets t c = E" if "\<not> is_replaceable (co_kind c)" "\<not> is_addressable (co_kind c)"
    using that by (auto simp: coordinate_targets_def versions_of_def)
  then have "holds W (stores D C E (with_coordinate t c w))
      (if is_replaceable (co_kind c) then remove_replaceable D c t
       else if is_addressable (co_kind c) then remove_addressable D c t else tx_return ())
      (\<lambda>_. stores D C (E - coordinate_targets t c) (with_coordinate t c w))"
    using remove [where E = E and w = "with_coordinate t c w"] unfolding versions_of_Int
    by (auto intro!: holds_return)
  then show ?thesis
    unfolding delete_coordinate_def by (intro holds_then [OF stores_marks(3) [OF env assms(4)]])
qed

text \<open>What a deletion request asks for, whether it is invalid, and its marks.\<close>

definition id_targets :: "event_id list \<Rightarrow> database_event set" where
  "id_targets is = {d. \<exists>i \<in> set is. de_id d = eid_bytes i}"

definition invalid_deletion :: "externals \<Rightarrow> database_event set \<Rightarrow> event \<Rightarrow> bool" where
  "invalid_deletion x E e \<longleftrightarrow>
     (\<exists>c \<in> set (tags_coordinates x (ev_tags e)). co_public_key c \<noteq> ev_pubkey e) \<or>
     (\<exists>d \<in> E \<inter> id_targets (tags_event_ids x (ev_tags e)). de_pubkey d \<noteq> pk_bytes (ev_pubkey e))"

definition deletion_targets :: "externals \<Rightarrow> event \<Rightarrow> database_event set" where
  "deletion_targets x e =
     id_targets (tags_event_ids x (ev_tags e)) \<union>
     \<Union> (coordinate_targets (ev_created_at e) ` set (tags_coordinates x (ev_tags e)))"

definition deletion_marks ::
  "externals \<Rightarrow> database_event set \<Rightarrow> event \<Rightarrow> lmdb_view \<Rightarrow> lmdb_view" where
  "deletion_marks x E e w =
     (let is = tags_event_ids x (ev_tags e); known = (\<lambda>i. eid_bytes i \<in> de_id ` E)
      in fold (with_coordinate (ev_created_at e)) (tags_coordinates x (ev_tags e))
           (fold with_deleted (filter known is)
             (fold (with_by_author (ev_pubkey e)) (filter (\<lambda>i. \<not> known i) is) w)))"

definition known_targets ::
  "database_event set \<Rightarrow> event_id list \<Rightarrow> (event_id \<times> event_index_keys) list" where
  "known_targets E is = map (\<lambda>i. (i, event_index_keys_new (the (event_with E (eid_bytes i)))))
     (filter (\<lambda>i. eid_bytes i \<in> de_id ` E) is)"

lemma split_targets_spec:
  assumes "env_ok D C" and "tables_ok (le_fb D) E (view C db)" and "\<And>i. i \<in> set is \<Longrightarrow> wf_event_id i"
  shows "split_targets D db pk is = Inr
    (if \<exists>d \<in> E \<inter> id_targets is. de_pubkey d \<noteq> pk_bytes pk then None
     else Some (known_targets E is, filter (\<lambda>i. eid_bytes i \<notin> de_id ` E) is))"
  using assms(3)
proof (induction "is")
  case Nil
  then show ?case by (simp add: id_targets_def known_targets_def)
next
  case (Cons i "is")
  have ev: "get_event_by_id D (eid_bytes i) db = Inr (event_with E (eid_bytes i))"
    using get_event [OF assms(1,2)] Cons.prems [of i] by (simp add: wf_event_id_def)
  have IH: "split_targets D db pk is = Inr
    (if \<exists>d \<in> E \<inter> id_targets is. de_pubkey d \<noteq> pk_bytes pk then None
     else Some (known_targets E is, filter (\<lambda>i. eid_bytes i \<notin> de_id ` E) is))"
    using Cons by simp
  note some = event_with_Some [OF tables_okD(3) [OF assms(2)], of "eid_bytes i"]
  have targets: "(\<exists>d \<in> E \<inter> id_targets (i # is). de_pubkey d \<noteq> pk_bytes pk) \<longleftrightarrow>
      (\<exists>d. event_with E (eid_bytes i) = Some d \<and> de_pubkey d \<noteq> pk_bytes pk) \<or>
      (\<exists>d \<in> E \<inter> id_targets is. de_pubkey d \<noteq> pk_bytes pk)"
    unfolding some by (auto simp: id_targets_def)
  show ?case
  proof (cases "event_with E (eid_bytes i)")
    case None
    then have "eid_bytes i \<notin> de_id ` E" by (simp add: event_with_None)
    then show ?thesis
      using None ev IH unfolding targets by (simp add: known_targets_def)
  next
    case (Some d)
    then have "d \<in> E" "eid_bytes i = de_id d" using some [of d] by simp_all
    then have "eid_bytes i \<in> de_id ` E" by simp
    then show ?thesis
      using Some ev IH unfolding targets by (simp add: known_targets_def)
  qed
qed

lemma known_targets_loop:
  assumes env: "tx_env W D C" and wf: "\<And>i. i \<in> set is \<Longrightarrow> wf_event_id i"
    and ok: "\<forall>d \<in> E. de_ok d" and inj: "inj_on de_id E"
  shows "holds W (stores D C E w) (tx_for (\<lambda>(i, info). tx_then (mark_deleted D i) (lmdb_remove D info))
      (known_targets E is))
    (\<lambda>_. stores D C (E - id_targets is) (fold with_deleted (filter (\<lambda>i. eid_bytes i \<in> de_id ` E) is) w))"
proof -
  let ?f = "\<lambda>(i, info). tx_then (mark_deleted D i) (lmdb_remove D info)"
  let ?ev = "\<lambda>i. the (event_with E (eid_bytes i))"
  let ?known = "filter (\<lambda>i. eid_bytes i \<in> de_id ` E) is"
  have ev: "?ev i \<in> E" "de_id (?ev i) = eid_bytes i" if i: "i \<in> set ?known" for i
  proof -
    obtain d where d: "d \<in> E" "eid_bytes i = de_id d" using i by auto
    then have "?ev i = d" using event_with_id [OF inj d(1)] by simp
    then show "?ev i \<in> E" "de_id (?ev i) = eid_bytes i" using d by simp_all
  qed
  have step: "holds W (stores D C F u) (?f (i, event_index_keys_new (?ev i)))
      (\<lambda>_. stores D C (F - {?ev i}) (with_deleted i u))" if i: "i \<in> set ?known" and F: "F \<subseteq> E" for i F u
  proof -
    have same: "c = ?ev i" if "c \<in> F" "de_id c = de_id (?ev i)" for c
      using inj_onD [OF inj that(2)] ev(1) [OF i] that(1) F by blast
    have "de_ok (?ev i)" "wf_event_id i" using ok ev(1) [OF i] wf i by auto
    then show ?thesis
      unfolding prod.case by (intro holds_then [OF stores_marks(1) [OF env] stores_remove [OF env _ same]])
  qed
  have loop: "tx_for ?f (known_targets E js) =
      tx_for (\<lambda>i. ?f (i, event_index_keys_new (?ev i))) (filter (\<lambda>i. eid_bytes i \<in> de_id ` E) js)" for js
    by (induction js) (simp_all add: known_targets_def)
  have "E - \<Union> ((\<lambda>i. {?ev i}) ` set ?known) = E - id_targets is"
  proof -
    have "d \<in> id_targets is \<longleftrightarrow> (\<exists>i \<in> set ?known. d = ?ev i)" if d: "d \<in> E" for d
    proof
      assume "d \<in> id_targets is"
      then obtain i where i: "i \<in> set is" "eid_bytes i = de_id d" by (auto simp: id_targets_def)
      then have "i \<in> set ?known" "d = ?ev i" using d event_with_id [OF inj d] by simp_all
      then show "\<exists>i \<in> set ?known. d = ?ev i" by blast
    next
      assume "\<exists>i \<in> set ?known. d = ?ev i"
      then obtain i where i: "i \<in> set ?known" "d = ?ev i" by blast
      have "de_id d = eid_bytes i" using ev(2) [OF i(1)] i(2) by simp
      then show "d \<in> id_targets is" using i(1) by (auto simp: id_targets_def)
    qed
    then show ?thesis by blast
  qed
  then show ?thesis
    unfolding loop
    using stores_for [where R = "\<lambda>i. {?ev i}" and h = with_deleted and S = E and xs = ?known,
        OF step subset_refl]
    by simp
qed

lemma stores_handle_deletion:
  assumes env: "tx_env W D C" and e: "storable D e"
  shows "holds W (stores D C E w) (handle_deletion_event D e)
    (\<lambda>b db. b = invalid_deletion (le_ext D) E e \<and>
       stores D C (if b then E else E - deletion_targets (le_ext D) e)
         (if b then w else deletion_marks (le_ext D) E e w) db)"
proof (rule holds_given)
  fix db assume s: "stores D C E w db"
  then have t: "tables_ok (le_fb D) E (view C db)" by (simp add: stores_def)
  let ?x = "le_ext D"
  let ?cs = "tags_coordinates ?x (ev_tags e)" and ?is = "tags_event_ids ?x (ev_tags e)"
  note hex = env_okD(6) [OF tx_envD(1) [OF env]]
  note wf = tag_targets_wf [OF hex, of _ "ev_tags e"]
  have split: "split_targets D db (ev_pubkey e) ?is = Inr
    (if \<exists>d \<in> E \<inter> id_targets ?is. de_pubkey d \<noteq> pk_bytes (ev_pubkey e) then None
     else Some (known_targets E ?is, filter (\<lambda>i. eid_bytes i \<notin> de_id ` E) ?is))"
    by (rule split_targets_spec [OF tx_envD(1) [OF env] t wf(1)])
  show "holds W (\<lambda>t. t = db) (handle_deletion_event D e)
    (\<lambda>b db. b = invalid_deletion ?x E e \<and> stores D C (if b then E else E - deletion_targets ?x e)
       (if b then w else deletion_marks ?x E e w) db)"
  proof (cases "invalid_deletion ?x E e")
    case True
    then have "handle_deletion_event D e db = (Inr True, db)"
      using split by (auto simp: handle_deletion_event_def Let_def list_ex_iff invalid_deletion_def
          tx_return_def tx_bind_def tx_read_def)
    then show ?thesis using s True by (simp add: holds_def)
  next
    case False
    let ?m = "tx_then (tx_for (\<lambda>i. mark_deleted_by_author D i (ev_pubkey e))
          (filter (\<lambda>i. eid_bytes i \<notin> de_id ` E) ?is))
        (tx_then (tx_for (\<lambda>(i, info). tx_then (mark_deleted D i) (lmdb_remove D info)) (known_targets E ?is))
        (tx_then (tx_for (delete_coordinate D (ev_created_at e)) ?cs) (tx_return False)))"
    have run: "handle_deletion_event D e db = ?m db"
      using False split
      by (auto simp: handle_deletion_event_def Let_def list_ex_iff invalid_deletion_def
          tx_bind_def tx_read_def)
    have unknown: "holds W (stores D C E w) (tx_for (\<lambda>i. mark_deleted_by_author D i (ev_pubkey e))
        (filter (\<lambda>i. eid_bytes i \<notin> de_id ` E) ?is))
      (\<lambda>_. stores D C E (fold (with_by_author (ev_pubkey e)) (filter (\<lambda>i. eid_bytes i \<notin> de_id ` E) ?is) w))"
    proof -
      have "holds W (stores D C E w) (tx_for (\<lambda>i. mark_deleted_by_author D i (ev_pubkey e))
          (filter (\<lambda>i. eid_bytes i \<notin> de_id ` E) ?is))
        (\<lambda>_. stores D C (E - \<Union> ((\<lambda>_. {}) ` set (filter (\<lambda>i. eid_bytes i \<notin> de_id ` E) ?is)))
          (fold (with_by_author (ev_pubkey e)) (filter (\<lambda>i. eid_bytes i \<notin> de_id ` E) ?is) w))"
        by (rule stores_for [where S = E])
          (simp_all add: stores_marks(2) [OF env wf(1) storableD(2) [OF e]])
      then show ?thesis by simp
    qed
    have "holds W (stores D C F u) (tx_for (delete_coordinate D (ev_created_at e)) ?cs)
        (\<lambda>_. stores D C (F - \<Union> (coordinate_targets (ev_created_at e) ` set ?cs))
          (fold (with_coordinate (ev_created_at e)) ?cs u))" for F u
      by (rule stores_for [where S = F])
        (simp_all add: stores_delete_coordinate [OF env wf(2) storableD(3) [OF e] storableD(6) [OF e]])
    note coordinates = this
    have targets: "E - id_targets ?is - \<Union> (coordinate_targets (ev_created_at e) ` set ?cs) =
        E - deletion_targets ?x e"
      by (auto simp: deletion_targets_def)
    have "holds W (stores D C E w) ?m
        (\<lambda>b db. b = False \<and> stores D C (E - deletion_targets ?x e) (deletion_marks ?x E e w) db)"
      by (rule holds_then [OF unknown],
          rule holds_then [OF known_targets_loop [OF env wf(1) _ tables_okD(3) [OF t]]], assumption,
          use tables_okD(2) [OF t] in blast,
          rule holds_then [OF coordinates])
        (simp add: targets deletion_marks_def Let_def holds_return)
    then have "holds W (stores D C E w) ?m (\<lambda>b db. b = invalid_deletion ?x E e \<and>
        stores D C (if b then E else E - deletion_targets ?x e) (if b then w else deletion_marks ?x E e w) db)"
      by (rule holds_post) (use False in simp)
    from this s run show ?thesis by (rule holds_at)
  qed
qed

section \<open>Deleting by filter and vanish requests\<close>

lemma stores_delete:
  assumes env: "tx_env W D C" and uniq: "unique_versions E" and f: "stored_filter_ok f"
    and small: "card E \<le> usize_max" and order: "newest_first (df_of_filter (le_hash D) f) (fl_limit f)"
    and xs: "bts_ok de_key xs" "set xs = matching (le_hash D) f E"
  shows "holds W (stores D C E w) (lmdb_delete D f)
    (\<lambda>_. stores D C (E - set (take_limit (fl_limit f) xs)) w)"
proof (rule holds_given)
  fix db assume s: "stores D C E w db"
  then have t: "tables_ok (le_fb D) E (view C db)" by (simp add: stores_def)
  let ?ds = "take_limit (fl_limit f) xs"
  have "set ?ds \<subseteq> set xs" by (auto simp: take_limit_def dest: in_set_takeD split: option.splits)
  then have sub: "set ?ds \<subseteq> E" using xs(2) by (auto simp: matching_def)
  have "lmdb_delete D f db = tx_for (lmdb_remove D) (map event_index_keys_new ?ds) db"
    using lmdb_query_spec [OF tx_envD(1) [OF env] t uniq f small order xs]
    by (simp add: lmdb_delete_def tx_bind_def tx_read_def)
  moreover have "holds W (stores D C E w) (tx_for (lmdb_remove D) (map event_index_keys_new ?ds))
      (\<lambda>_. stores D C (E - set ?ds) w)"
    using stores_removes [OF env sub subset_refl] tables_okD(2,3) [OF t] by simp
  ultimately show "holds W (\<lambda>t. t = db) (lmdb_delete D f) (\<lambda>_. stores D C (E - set ?ds) w)"
    using s by (intro holds_at)
qed

lemma stores_delete_all:
  assumes env: "tx_env W D C" and uniq: "unique_versions E" and f: "stored_filter_ok f"
    and small: "card E \<le> usize_max" and limit: "fl_limit f = None"
  shows "holds W (stores D C E w) (lmdb_delete D f)
    (\<lambda>_. stores D C (E - matching (le_hash D) f E) w)"
proof (rule holds_given)
  fix db assume s: "stores D C E w db"
  then have t: "tables_ok (le_fb D) E (view C db)" by (simp add: stores_def)
  have "finite (matching (le_hash D) f E)" "inj_on de_key (matching (le_hash D) f E)"
    using tables_okD(1,3) [OF t] by (auto simp: matching_def inj_on_def de_key_def)
  then obtain xs where xs: "bts_ok de_key xs" "set xs = matching (le_hash D) f E"
    using sorted_exists by blast
  have "newest_first (df_of_filter (le_hash D) f) (fl_limit f)" using limit by (simp add: newest_first_def)
  from stores_delete [OF env uniq f small this xs, of w]
  have "holds W (stores D C E w) (lmdb_delete D f) (\<lambda>_. stores D C (E - matching (le_hash D) f E) w)"
    by (simp add: limit take_limit_def xs(2))
  then show "holds W (\<lambda>t. t = db) (lmdb_delete D f) (\<lambda>_. stores D C (E - matching (le_hash D) f E) w)"
    using s refl by (rule holds_at)
qed

definition vanish_targets :: "externals \<Rightarrow> public_key \<Rightarrow> database_event set" where
  "vanish_targets x pk =
     {d. de_pubkey d = pk_bytes pk} \<union>
     {d. de_kind d = as_u16 GiftWrap \<and> (slt_p, public_key_to_hex x pk) \<in> set (single_tags d)}"

lemma vanish_filters:
  assumes "hash_order_ok H"
  shows "matching H (filter_author pk filter_new) E = {d \<in> E. de_pubkey d = pk_bytes pk}"
    "matching H (filter_pubkey x pk (filter_kind GiftWrap filter_new)) E =
      {d \<in> E. de_kind d = as_u16 GiftWrap \<and> (slt_p, public_key_to_hex x pk) \<in> set (single_tags d)}"
proof -
  have sets: "set (ho_bytes H xs) = set xs" "set (ho_kinds H ks) = set ks" for xs ks
    using assms by (simp_all add: hash_order_ok_def)
  have ne: "ho_bytes H [b] \<noteq> []" "ho_kinds H [k] \<noteq> []" for b k
    using sets by (metis empty_set insert_not_empty list.simps(15))+
  show "matching H (filter_author pk filter_new) E = {d \<in> E. de_pubkey d = pk_bytes pk}"
    using ne by (auto simp: matching_def df_match_event_def df_of_filter_def filter_author_def
        filter_authors_def filter_new_def extend_or_collect_def bts_extend_def df_ids_match_def
        df_authors_match_def df_kind_match_def df_tag_match_def df_search_match_def sets)
  show "matching H (filter_pubkey x pk (filter_kind GiftWrap filter_new)) E =
      {d \<in> E. de_kind d = as_u16 GiftWrap \<and> (slt_p, public_key_to_hex x pk) \<in> set (single_tags d)}"
    using ne
    by (auto simp: matching_def df_match_event_def df_of_filter_def filter_pubkey_def filter_custom_tag_def
        filter_custom_tags_def filter_kind_def filter_kinds_def filter_new_def extend_or_collect_def
        bts_extend_def df_ids_match_def df_authors_match_def df_kind_match_def df_tag_match_iff
        df_search_match_def sets single_tags_def List.map_filter_def btm_get_def Let_def
        image_iff split: option.splits)
qed

lemma vanish_filters_ok:
  assumes "wf_public_key pk"
  shows "stored_filter_ok (filter_author pk filter_new)"
    "stored_filter_ok (filter_pubkey x pk (filter_kind GiftWrap filter_new))"
    "fl_limit (filter_author pk filter_new) = None"
    "fl_limit (filter_pubkey x pk (filter_kind GiftWrap filter_new)) = None"
  using assms
  by (simp_all add: stored_filter_ok_def since_of_def until_of_def filter_pubkey_def filter_custom_tag_def
      filter_custom_tags_def filter_kind_def filter_kinds_def filter_new_def extend_or_collect_def
      bts_extend_def filter_author_def filter_authors_def Let_def)

lemma unique_versions_subset: "unique_versions E \<Longrightarrow> F \<subseteq> E \<Longrightarrow> unique_versions F"
  unfolding unique_versions_def by blast

lemma stores_vanish:
  assumes env: "tx_env W D C" and pk: "wf_public_key pk" and uniq: "unique_versions E"
    and fin: "finite E" and small: "card E \<le> usize_max"
  shows "holds W (stores D C E w) (lmdb_handle_request_to_vanish D pk)
    (\<lambda>_. stores D C (E - vanish_targets (le_ext D) pk) (with_vanished pk w))"
proof -
  let ?f = "filter_author pk filter_new"
  let ?g = "filter_pubkey (le_ext D) pk (filter_kind GiftWrap filter_new)"
  let ?F = "E - matching (le_hash D) ?f E"
  note f = vanish_filters_ok [OF pk] and m = vanish_filters [OF env_okD(5) [OF tx_envD(1) [OF env]]]
  have F: "unique_versions ?F" "card ?F \<le> usize_max"
    using unique_versions_subset [OF uniq] card_mono [OF fin, of ?F] small by auto
  have eq: "?F - matching (le_hash D) ?g ?F = E - vanish_targets (le_ext D) pk"
    unfolding m by (auto simp: vanish_targets_def)
  show ?thesis
    unfolding lmdb_handle_request_to_vanish_def eq [symmetric]
    by (rule holds_then [OF stores_marks(4) [OF env pk] holds_then
          [OF stores_delete_all [OF env uniq f(1) small f(3)] stores_delete_all [OF env F(1) f(2) F(2) f(4)]]])
qed

end
