(* ===== verification/Lmdb_Specification.thy ===== *)
theory Lmdb_Specification
  imports Lmdb_Saving
begin

text \<open>
  The specification of saving an event in the LMDB store, over the abstract state: the status, the
  events and the marks afterwards; what follows for deleted and foreign events; and the
  specification of wiping and reindexing.
\<close>

section \<open>Saving an event\<close>

definition is_deletion :: "('b, 'u, 'n) lmdb_env \<Rightarrow> event \<Rightarrow> bool" where
  "is_deletion D e \<longleftrightarrow> lo_process_nip09 (le_options D) \<and> kind_eq (ev_kind e) EventDeletion"

definition is_vanish :: "('b, 'u, 'n) lmdb_env \<Rightarrow> event \<Rightarrow> bool" where
  "is_vanish D e \<longleftrightarrow>
     lo_process_nip62 (le_options D) \<and> kind_eq (ev_kind e) RequestToVanish \<and>
     is_valid_vanish_request_for_relay (le_ext D) (ev_tags e) (lo_relay_url (le_options D))"

definition lmdb_save_status ::
  "('b, 'u, 'n) lmdb_env \<Rightarrow> database_event set \<Rightarrow> lmdb_view \<Rightarrow> event \<Rightarrow> save_event_status" where
  "lmdb_save_status D E w e =
     (case lmdb_reason D E w e of
        Some r \<Rightarrow> Rejected r
      | None \<Rightarrow>
          if superseded (replaceable_versions E e) e \<or> superseded (addressable_versions (le_ext D) E e) e
          then Rejected RReplaced
          else if is_deletion D e \<and> invalid_deletion (le_ext D) E e then Rejected RInvalidDelete
          else Success)"

text \<open>What a saved event removes.\<close>

definition lmdb_removed :: "('b, 'u, 'n) lmdb_env \<Rightarrow> database_event set \<Rightarrow> event \<Rightarrow> database_event set" where
  "lmdb_removed D E e =
     replaceable_versions E e \<union> addressable_versions (le_ext D) E e \<union>
     (if is_deletion D e then deletion_targets (le_ext D) e else {}) \<union>
     (if is_vanish D e then vanish_targets (le_ext D) (ev_pubkey e) else {})"

definition saved_events ::
  "('b, 'u, 'n) lmdb_env \<Rightarrow> database_event set \<Rightarrow> lmdb_view \<Rightarrow> event \<Rightarrow> database_event set" where
  "saved_events D E w e =
     (if lmdb_save_status D E w e = Success then insert (de_of_event e) (E - lmdb_removed D E e) else E)"

definition saved_marks ::
  "('b, 'u, 'n) lmdb_env \<Rightarrow> database_event set \<Rightarrow> lmdb_view \<Rightarrow> event \<Rightarrow> lmdb_view" where
  "saved_marks D E w e =
     (if lmdb_reason D E w e \<noteq> None then lmdb_reason_marks D E w e
      else if lmdb_save_status D E w e \<noteq> Success then w
      else (if is_vanish D e then with_vanished (ev_pubkey e) else id)
        ((if is_deletion D e then deletion_marks (le_ext D) E e else id) w))"

lemma lmdb_reason_marks_None: "lmdb_reason D E w e = None \<Longrightarrow> lmdb_reason_marks D E w e = w"
  by (auto simp: lmdb_reason_def lmdb_reason_marks_def split: if_splits)

lemma special_kinds:
  "kind_eq k EventDeletion \<Longrightarrow> \<not> is_replaceable k \<and> \<not> is_addressable k"
  "kind_eq k RequestToVanish \<Longrightarrow> \<not> is_replaceable k \<and> \<not> is_addressable k"
  "kind_eq k EventDeletion \<Longrightarrow> \<not> kind_eq k RequestToVanish"
  by (auto simp: kind_eq_def is_replaceable_def is_addressable_def Let_def replaceable_range_def
      addressable_range_def in_range_def)

lemma stores_subset_ok: "stores D C E w db \<Longrightarrow> finite E \<and> (\<forall>d \<in> E. de_ok d) \<and> inj_on de_id E"
  by (simp add: stores_def tables_ok_def)

text \<open>The steps after the checks, from the last one to the first.\<close>

definition finish_save :: "('b, 'u, 'n) lmdb_env \<Rightarrow> event \<Rightarrow> (('b, 'u, 'n) lmdb, save_event_status) tx" where
  "finish_save D e =
     tx_then (if lo_process_nip62 (le_options D) \<and> kind_eq (ev_kind e) RequestToVanish \<and>
                 is_valid_vanish_request_for_relay (le_ext D) (ev_tags e) (lo_relay_url (le_options D))
              then lmdb_handle_request_to_vanish D (ev_pubkey e) else tx_return ())
    (tx_then (lmdb_store D (de_of_event e)) (tx_return Success))"

definition delete_and_finish ::
  "('b, 'u, 'n) lmdb_env \<Rightarrow> event \<Rightarrow> (('b, 'u, 'n) lmdb, save_event_status) tx" where
  "delete_and_finish D e =
     tx_bind (if lo_process_nip09 (le_options D) \<and> kind_eq (ev_kind e) EventDeletion
              then handle_deletion_event D e else tx_return False) (\<lambda>invalid.
       if invalid then tx_return (Rejected RInvalidDelete) else finish_save D e)"

lemma save_event_steps:
  "save_event_with_txn D e =
     tx_bind (lmdb_rejection D e) (\<lambda>rejected. case rejected of Some r \<Rightarrow> tx_return (Rejected r) | None \<Rightarrow>
     tx_bind (replace_versions D e) (\<lambda>replaced. if replaced then tx_return (Rejected RReplaced) else
     tx_bind (replace_addressable D e) (\<lambda>replaced. if replaced then tx_return (Rejected RReplaced) else
       delete_and_finish D e)))"
  unfolding save_event_with_txn_def delete_and_finish_def finish_save_def by (rule refl)

definition vanished_by :: "('b, 'u, 'n) lmdb_env \<Rightarrow> event \<Rightarrow> database_event set" where
  "vanished_by D e = (if is_vanish D e then vanish_targets (le_ext D) (ev_pubkey e) else {})"

definition deleted_by :: "('b, 'u, 'n) lmdb_env \<Rightarrow> event \<Rightarrow> database_event set" where
  "deleted_by D e = (if is_deletion D e then deletion_targets (le_ext D) e else {})"

lemma stores_finish:
  assumes env: "tx_env W D C" and e: "storable D e" and uniq: "unique_versions E"
    and fin: "finite E" and small: "card E \<le> usize_max" and new: "eid_bytes (ev_id e) \<notin> de_id ` E"
  shows "holds W (stores D C E w) (finish_save D e)
    (\<lambda>st db. st = Success \<and> stores D C (insert (de_of_event e) (E - vanished_by D e))
       ((if is_vanish D e then with_vanished (ev_pubkey e) else id) w) db)"
proof -
  note wf = storableD [OF e]
  let ?w = "(if is_vanish D e then with_vanished (ev_pubkey e) else id) w"
  have 1: "holds W (stores D C E w)
      (if lo_process_nip62 (le_options D) \<and> kind_eq (ev_kind e) RequestToVanish \<and>
          is_valid_vanish_request_for_relay (le_ext D) (ev_tags e) (lo_relay_url (le_options D))
       then lmdb_handle_request_to_vanish D (ev_pubkey e) else tx_return ())
      (\<lambda>_. stores D C (E - vanished_by D e) ?w)"
    unfolding is_vanish_def [symmetric] vanished_by_def
    using stores_vanish [OF env wf(2) uniq fin small] by (auto intro: holds_return)
  have 2: "holds W (stores D C (E - vanished_by D e) ?w) (lmdb_store D (de_of_event e))
      (\<lambda>_. stores D C (insert (de_of_event e) (E - vanished_by D e)) ?w)"
    using new by (intro stores_store [OF env wf(4)]) (auto simp: de_of_event_simps)
  show ?thesis
    unfolding finish_save_def by (rule holds_then [OF 1 holds_then [OF 2 holds_return]]) simp
qed

lemma stores_delete_and_finish:
  assumes env: "tx_env W D C" and e: "storable D e" and uniq: "unique_versions E"
    and fin: "finite E" and small: "card E \<le> usize_max" and new: "eid_bytes (ev_id e) \<notin> de_id ` E"
  shows "holds W (stores D C E w) (delete_and_finish D e)
    (\<lambda>st db. if is_deletion D e \<and> invalid_deletion (le_ext D) E e
       then st = Rejected RInvalidDelete \<and> stores D C E w db
       else st = Success \<and>
         stores D C (insert (de_of_event e) (E - deleted_by D e - vanished_by D e))
           ((if is_vanish D e then with_vanished (ev_pubkey e) else id)
             ((if is_deletion D e then deletion_marks (le_ext D) E e else id) w)) db)"
    (is "holds W _ _ ?Q")
proof -
  let ?bad = "is_deletion D e \<and> invalid_deletion (le_ext D) E e"
  let ?w = "(if is_deletion D e then deletion_marks (le_ext D) E e else id) w"
  have F: "unique_versions (E - deleted_by D e)" "finite (E - deleted_by D e)"
      "card (E - deleted_by D e) \<le> usize_max" "eid_bytes (ev_id e) \<notin> de_id ` (E - deleted_by D e)"
    using unique_versions_subset [OF uniq] fin card_mono [OF fin, of "E - deleted_by D e"] small new by auto
  have 1: "holds W (stores D C E w)
      (if lo_process_nip09 (le_options D) \<and> kind_eq (ev_kind e) EventDeletion
       then handle_deletion_event D e else tx_return False)
      (\<lambda>b db. b = ?bad \<and> stores D C (if b then E else E - deleted_by D e) (if b then w else ?w) db)"
    unfolding is_deletion_def [symmetric] deleted_by_def
    using stores_handle_deletion [OF env e] by (auto intro: holds_return)
  have 2: "holds W (\<lambda>db. b = ?bad \<and> stores D C (if b then E else E - deleted_by D e) (if b then w else ?w) db)
      (if b then tx_return (Rejected RInvalidDelete) else finish_save D e) ?Q" for b
  proof (rule holds_if)
    assume b: b
    show "holds W (\<lambda>db. b = ?bad \<and> stores D C (if b then E else E - deleted_by D e) (if b then w else ?w) db)
        (tx_return (Rejected RInvalidDelete)) ?Q"
      by (rule holds_return) (use b in auto)
  next
    assume b: "\<not> b"
    show "holds W (\<lambda>db. b = ?bad \<and> stores D C (if b then E else E - deleted_by D e) (if b then w else ?w) db)
        (finish_save D e) ?Q"
    proof (cases ?bad)
      case True
      then show ?thesis using b by (simp add: holds_def)
    next
      case False
      from stores_finish [OF env e F, of ?w] show ?thesis
        by (rule holds_pre [rotated, OF holds_post]) (use b False in auto)
    qed
  qed
  show ?thesis unfolding delete_and_finish_def by (rule holds_bind [OF 1 2])
qed

lemma removed_steps:
  "lmdb_removed D E e = replaceable_versions E e \<union> addressable_versions (le_ext D) E e \<union>
     deleted_by D e \<union> vanished_by D e"
  by (simp add: lmdb_removed_def deleted_by_def vanished_by_def)

lemma versions_one_kind:
  "replaceable_versions E e = {} \<or> addressable_versions x F e = {}"
  "is_deletion D e \<Longrightarrow> replaceable_versions E e = {} \<and> addressable_versions x E e = {}"
  "addressable_versions x (E - replaceable_versions E e) e = addressable_versions x E e"
  using replaceable_addressable [of "ev_kind e"] special_kinds(1) [of "ev_kind e"]
  by (auto simp: replaceable_versions_def addressable_versions_def is_deletion_def versions_of_def
      split: option.splits)

lemma stores_save:
  assumes env: "tx_env W D C" and e: "storable D e" and uniq: "unique_versions E"
    and fin: "finite E" and small: "card E \<le> usize_max"
  shows "holds W (stores D C E w) (save_event_with_txn D e)
    (\<lambda>st db. st = lmdb_save_status D E w e \<and>
       stores D C (saved_events D E w e) (saved_marks D E w e) db)"
    (is "holds W _ _ ?Q")
proof -
  let ?R = "replaceable_versions E e" and ?A = "addressable_versions (le_ext D) E e"
  note wf = storableD [OF e]
  note defs = lmdb_save_status_def saved_events_def saved_marks_def
  have last: "holds W (stores D C (E - ?R - ?A) w) (delete_and_finish D e) ?Q"
    if rej: "lmdb_reason D E w e = None" and "\<not> superseded ?R e" "\<not> superseded ?A e"
  proof -
    let ?E = "E - ?R - ?A"
    have new: "eid_bytes (ev_id e) \<notin> de_id ` E" using rej by (auto simp: lmdb_reason_def split: if_splits)
    have F: "unique_versions ?E" "finite ?E" "card ?E \<le> usize_max" "eid_bytes (ev_id e) \<notin> de_id ` ?E"
    proof -
      have sub: "?E \<subseteq> E" by blast
      show "unique_versions ?E" by (rule unique_versions_subset [OF uniq sub])
      show "finite ?E" by (rule finite_subset [OF sub fin])
      show "card ?E \<le> usize_max" by (rule le_trans [OF card_mono [OF fin sub] small])
      show "eid_bytes (ev_id e) \<notin> de_id ` ?E" using new by blast
    qed
    have E: "is_deletion D e \<Longrightarrow> ?E = E" using versions_one_kind(2) [of D e E "le_ext D"] by auto
    have sets: "?E - deleted_by D e - vanished_by D e = E - lmdb_removed D E e"
      unfolding removed_steps by auto
    show ?thesis
      by (rule holds_post [OF stores_delete_and_finish [OF env e F]])
        (use that E sets in \<open>auto simp: defs split: if_splits\<close>)
  qed
  have addr: "holds W (stores D C (E - ?R) w) (tx_bind (replace_addressable D e)
      (\<lambda>replaced. if replaced then tx_return (Rejected RReplaced) else delete_and_finish D e)) ?Q"
    if rej: "lmdb_reason D E w e = None" and r: "\<not> superseded ?R e"
  proof (rule holds_bind [OF stores_replace_addressable [OF env wf(2)]])
    fix b
    have "\<not> superseded ?A e \<or> E - ?R = E"
      using versions_one_kind(1) [of E e "le_ext D" E] by (auto simp: superseded_def)
    then show "holds W (\<lambda>db. b = superseded (addressable_versions (le_ext D) (E - ?R) e) e \<and>
          stores D C (if b then E - ?R else E - ?R - addressable_versions (le_ext D) (E - ?R) e) w db)
        (if b then tx_return (Rejected RReplaced) else delete_and_finish D e) ?Q"
      using rej last [OF rej r] unfolding versions_one_kind(3)
      by (cases b; cases "superseded ?A e") (auto simp: defs holds_def tx_return_def)
  qed
  have vers: "holds W (stores D C E w) (tx_bind (replace_versions D e) (\<lambda>replaced.
      if replaced then tx_return (Rejected RReplaced) else
      tx_bind (replace_addressable D e) (\<lambda>replaced. if replaced then tx_return (Rejected RReplaced) else
        delete_and_finish D e))) ?Q"
    if rej: "lmdb_reason D E w e = None"
  proof (rule holds_bind [OF stores_replace_versions [OF env wf(2,3)]])
    fix b
    show "holds W (\<lambda>db. b = superseded ?R e \<and> stores D C (if b then E else E - ?R) w db)
        (if b then tx_return (Rejected RReplaced) else
         tx_bind (replace_addressable D e) (\<lambda>replaced. if replaced then tx_return (Rejected RReplaced) else
           delete_and_finish D e)) ?Q"
      using rej addr [OF rej]
      by (cases b; cases "superseded ?R e") (auto simp: defs holds_def tx_return_def)
  qed
  show ?thesis
    unfolding save_event_steps
  proof (rule holds_bind [OF stores_rejection [OF env e]], rule holds_given, elim conjE)
    fix r db assume r: "r = lmdb_reason D E w e" and s: "stores D C E (lmdb_reason_marks D E w e) db"
    show "holds W (\<lambda>t. t = db) (case r of Some r \<Rightarrow> tx_return (Rejected r) | None \<Rightarrow>
        tx_bind (replace_versions D e) (\<lambda>replaced. if replaced then tx_return (Rejected RReplaced) else
        tx_bind (replace_addressable D e) (\<lambda>replaced. if replaced then tx_return (Rejected RReplaced) else
          delete_and_finish D e))) ?Q"
    proof (cases r)
      case (Some y)
      then show ?thesis using r s by (simp add: holds_def tx_return_def defs)
    next
      case None
      then have rej: "lmdb_reason D E w e = None" using r by simp
      have "stores D C E w db" using s lmdb_reason_marks_None [OF rej] by simp
      with vers [OF rej] None show ?thesis by (auto intro: holds_at)
    qed
  qed
qed

section \<open>Consistent states\<close>

text \<open>
  One version of a replaceable event, no event with a deleted id, and of a vanished key only the
  request itself.
\<close>

definition consistent :: "database_event set \<Rightarrow> lmdb_view \<Rightarrow> bool" where
  "consistent E w \<longleftrightarrow>
     unique_versions E \<and> (\<forall>d \<in> E. vw_deleted w (de_id d) = None) \<and>
     (\<forall>d \<in> E. vw_vanished w (de_pubkey d) \<noteq> None \<longrightarrow> de_kind d = as_u16 RequestToVanish)"

lemma saved_unique:
  assumes "storable D e" and "unique_versions E"
  shows "unique_versions (saved_events D E w e)"
proof (cases "lmdb_save_status D E w e = Success")
  case True
  let ?d = "de_of_event e" and ?F = "E - lmdb_removed D E e"
  have k: "from_u16 (as_u16 (ev_kind e)) = ev_kind e"
    using assms(1) unfolding storable_def event_wf_def canonical_def by (elim conjE) (rule sym)
  have "d \<notin> ?F" if "is_replaceable (from_u16 (de_kind ?d))" "de_pubkey d = de_pubkey ?d" "de_kind d = de_kind ?d"
    for d
    using that k by (auto simp: lmdb_removed_def replaceable_versions_def versions_of_def
        own_coordinate_def coordinate_new_def de_of_event_simps)
  moreover have "unique_versions ?F" using assms(2) by (rule unique_versions_subset) blast
  ultimately have "unique_versions (insert ?d ?F)"
    unfolding unique_versions_def by (metis insert_iff)
  then show ?thesis using True by (simp add: saved_events_def)
qed (simp add: saved_events_def assms(2))

lemma fold_marks:
  "vw_deleted (fold with_deleted is w) k =
     (if k \<in> eid_bytes ` set is then Some () else vw_deleted w k)"
  "vw_vanished (fold with_deleted is w) = vw_vanished w"
  "vw_deleted (fold (with_by_author pk) is w) = vw_deleted w"
  "vw_vanished (fold (with_by_author pk) is w) = vw_vanished w"
  "vw_deleted (fold (with_coordinate t) cs w) = vw_deleted w"
  "vw_vanished (fold (with_coordinate t) cs w) = vw_vanished w"
proof -
  show "vw_deleted (fold with_deleted is w) k =
      (if k \<in> eid_bytes ` set is then Some () else vw_deleted w k)"
    by (induction "is" arbitrary: w) (auto simp: with_defs)
  show "vw_vanished (fold with_deleted is w) = vw_vanished w"
      "vw_deleted (fold (with_by_author pk) is w) = vw_deleted w"
      "vw_vanished (fold (with_by_author pk) is w) = vw_vanished w"
    by (induction "is" arbitrary: w) (simp_all add: with_defs)
  show "vw_deleted (fold (with_coordinate t) cs w) = vw_deleted w"
      "vw_vanished (fold (with_coordinate t) cs w) = vw_vanished w"
    by (induction cs arbitrary: w) (simp_all add: with_defs)
qed

lemma deletion_marks_deleted:
  "vw_deleted (deletion_marks x E e w) k =
     (if \<exists>i \<in> set (tags_event_ids x (ev_tags e)). eid_bytes i = k \<and> k \<in> de_id ` E
      then Some () else vw_deleted w k)"
  "vw_vanished (deletion_marks x E e w) = vw_vanished w"
proof -
  have "k \<in> eid_bytes ` {i \<in> set is. eid_bytes i \<in> de_id ` E} \<longleftrightarrow>
      (\<exists>i \<in> set is. eid_bytes i = k \<and> k \<in> de_id ` E)" for "is"
    by blast
  then show "vw_deleted (deletion_marks x E e w) k =
     (if \<exists>i \<in> set (tags_event_ids x (ev_tags e)). eid_bytes i = k \<and> k \<in> de_id ` E
      then Some () else vw_deleted w k)"
    by (simp add: deletion_marks_def Let_def fold_marks)
  show "vw_vanished (deletion_marks x E e w) = vw_vanished w"
    by (simp add: deletion_marks_def Let_def fold_marks)
qed

lemma accepted:
  assumes "lmdb_reason D E w e = None"
  shows "eid_bytes (ev_id e) \<notin> de_id ` E" "vw_deleted w (eid_bytes (ev_id e)) = None"
    "vw_vanished w (pk_bytes (ev_pubkey e)) = None"
  using assms by (auto simp: lmdb_reason_def split: if_splits)

lemma success_accepted: "lmdb_save_status D E w e = Success \<Longrightarrow> lmdb_reason D E w e = None"
  by (cases "lmdb_reason D E w e") (simp_all add: lmdb_save_status_def)

lemma not_saved:
  assumes "lmdb_save_status D E w e \<noteq> Success"
  shows "saved_events D E w e = E"
    "saved_marks D E w e = w \<or> saved_marks D E w e = lmdb_reason_marks D E w e"
  using assms by (simp_all add: saved_events_def saved_marks_def)

lemma saved_deleted:
  assumes "\<forall>d \<in> E. vw_deleted w (de_id d) = None"
  shows "\<forall>d \<in> saved_events D E w e. vw_deleted (saved_marks D E w e) (de_id d) = None"
proof (cases "lmdb_save_status D E w e = Success")
  case True
  note rej = success_accepted [OF True]
  then have new: "eid_bytes (ev_id e) \<notin> de_id ` E" "vw_deleted w (eid_bytes (ev_id e)) = None"
    using accepted [OF rej] by blast+
  have "vw_deleted (saved_marks D E w e) (de_id d) = None" if d: "d = de_of_event e \<or> d \<in> E - lmdb_removed D E e" for d
  proof -
    have "\<not> (\<exists>i \<in> set (tags_event_ids (le_ext D) (ev_tags e)). eid_bytes i = de_id d \<and> de_id d \<in> de_id ` E)"
      if "is_deletion D e"
      using d new(1) that
      by (auto simp: lmdb_removed_def deletion_targets_def id_targets_def de_of_event_simps)
    moreover have "vw_deleted w (de_id d) = None" using d new(2) assms by (auto simp: de_of_event_simps)
    ultimately show ?thesis
      using True rej by (auto simp: saved_marks_def deletion_marks_deleted with_defs)
  qed
  then show ?thesis using True by (simp add: saved_events_def)
next
  case False
  have "vw_deleted (lmdb_reason_marks D E w e) (de_id d) = None" if d: "d \<in> E" for d
  proof (cases "de_id d = eid_bytes (ev_id e)")
    case True
    then have "eid_bytes (ev_id e) \<in> de_id ` E" using d by (metis imageI)
    then show ?thesis using assms d by (simp add: lmdb_reason_marks_def)
  qed (use assms d in \<open>auto simp: lmdb_reason_marks_def with_defs\<close>)
  then show ?thesis using not_saved [OF False] assms by auto
qed

lemma saved_vanished:
  assumes "\<forall>d \<in> E. vw_vanished w (de_pubkey d) \<noteq> None \<longrightarrow> de_kind d = as_u16 RequestToVanish"
  shows "\<forall>d \<in> saved_events D E w e. vw_vanished (saved_marks D E w e) (de_pubkey d) \<noteq> None \<longrightarrow>
    de_kind d = as_u16 RequestToVanish"
proof (cases "lmdb_save_status D E w e = Success")
  case True
  note rej = success_accepted [OF True]
  then have new: "vw_vanished w (pk_bytes (ev_pubkey e)) = None" using accepted [OF rej] by blast
  have marks: "vw_vanished (saved_marks D E w e) =
      (if is_vanish D e then (vw_vanished w)(pk_bytes (ev_pubkey e) \<mapsto> ()) else vw_vanished w)"
    using True rej by (auto simp: saved_marks_def deletion_marks_deleted with_defs)
  have "de_kind d = as_u16 RequestToVanish"
    if "d = de_of_event e \<or> d \<in> E - lmdb_removed D E e" "vw_vanished (saved_marks D E w e) (de_pubkey d) \<noteq> None" for d
    using that assms new unfolding marks
    by (auto simp: lmdb_removed_def vanish_targets_def de_of_event_simps is_vanish_def kind_eq_def
        split: if_splits)
  then show ?thesis using True by (simp add: saved_events_def)
next
  case False
  have "vw_vanished (lmdb_reason_marks D E w e) = vw_vanished w"
    by (simp add: lmdb_reason_marks_def with_defs)
  then show ?thesis using not_saved [OF False] assms by auto
qed

lemma saved_consistent:
  "storable D e \<Longrightarrow> consistent E w \<Longrightarrow> consistent (saved_events D E w e) (saved_marks D E w e)"
  unfolding consistent_def by (intro conjI saved_unique saved_deleted saved_vanished) blast+

section \<open>Whose events a saved event removes\<close>

lemma removed_own:
  assumes "lmdb_save_status D E w e = Success" and "d \<in> E" and "d \<in> lmdb_removed D E e"
  shows "de_pubkey d = pk_bytes (ev_pubkey e) \<or> is_vanish D e \<and> de_kind d = as_u16 GiftWrap"
proof -
  have valid: "is_deletion D e \<Longrightarrow> \<not> invalid_deletion (le_ext D) E e"
    using assms(1) success_accepted [OF assms(1)] by (auto simp: lmdb_save_status_def split: if_splits)
  show ?thesis
    using assms(2,3) valid
    by (auto simp: lmdb_removed_def replaceable_versions_def addressable_versions_def versions_of_def
        own_coordinate_def coordinate_new_def deletion_targets_def vanish_targets_def
        coordinate_targets_def invalid_deletion_def split: if_splits option.splits)
qed

section \<open>A deleted event does not come back\<close>

text \<open>The abstract state after a list of events has been saved.\<close>

fun saved_all ::
  "('b, 'u, 'n) lmdb_env \<Rightarrow> database_event set \<times> lmdb_view \<Rightarrow> event list \<Rightarrow>
   database_event set \<times> lmdb_view" where
  "saved_all D (E, w) [] = (E, w)"
| "saved_all D (E, w) (e # es) = saved_all D (saved_events D E w e, saved_marks D E w e) es"

text \<open>The event is not stored, and it is marked as deleted, by itself or by its author.\<close>

definition gone :: "event \<Rightarrow> database_event set \<times> lmdb_view \<Rightarrow> bool" where
  "gone t s \<longleftrightarrow>
     eid_bytes (ev_id t) \<notin> de_id ` fst s \<and>
     (vw_deleted (snd s) (eid_bytes (ev_id t)) \<noteq> None \<or>
      vw_by_author (snd s) (make_author_deletion_key (ev_id t) (ev_pubkey t)) \<noteq> None)"

lemma fold_by_author:
  "vw_by_author (fold (with_by_author pk) is w) k =
     (if \<exists>i \<in> set is. k = make_author_deletion_key i pk then Some () else vw_by_author w k)"
  "vw_by_author (fold with_deleted is w) = vw_by_author w"
  "vw_by_author (fold (with_coordinate t) cs w) = vw_by_author w"
proof -
  show "vw_by_author (fold (with_by_author pk) is w) k =
     (if \<exists>i \<in> set is. k = make_author_deletion_key i pk then Some () else vw_by_author w k)"
    by (induction "is" arbitrary: w) (auto simp: with_defs)
  show "vw_by_author (fold with_deleted is w) = vw_by_author w"
    by (induction "is" arbitrary: w) (simp_all add: with_defs)
  show "vw_by_author (fold (with_coordinate t) cs w) = vw_by_author w"
    by (induction cs arbitrary: w) (simp_all add: with_defs)
qed

text \<open>Saving an event takes no mark of an id away.\<close>

lemma saved_marks_keep:
  "vw_deleted w k \<noteq> None \<Longrightarrow> vw_deleted (saved_marks D E w e) k \<noteq> None"
  "vw_by_author w k \<noteq> None \<Longrightarrow> vw_by_author (saved_marks D E w e) k \<noteq> None"
  by (auto simp: saved_marks_def lmdb_reason_marks_def deletion_marks_deleted(1) deletion_marks_def Let_def
      fold_marks fold_by_author with_defs)

lemma gone_rejected:
  assumes "gone t (E, w)" and "lo_process_nip09 (le_options D)" and "\<not> kind_eq (ev_kind t) EventDeletion"
  shows "lmdb_save_status D E w t = Rejected (if is_ephemeral (ev_kind t) then REphemeral else RDeleted)"
  using assms by (auto simp: gone_def lmdb_save_status_def lmdb_reason_def retained_deletion_def)

lemma gone_stays:
  assumes "gone t (E, w)" and "lo_process_nip09 (le_options D)" and "\<not> kind_eq (ev_kind t) EventDeletion"
    and "ev_id e = ev_id t \<Longrightarrow> e = t"
  shows "gone t (saved_events D E w e, saved_marks D E w e)"
proof -
  have "eid_bytes (ev_id t) \<notin> de_id ` saved_events D E w e"
  proof (cases "e = t")
    case True
    then show ?thesis using gone_rejected [OF assms(1-3)] assms(1) by (simp add: saved_events_def gone_def)
  next
    case False
    then have "eid_bytes (ev_id e) \<noteq> eid_bytes (ev_id t)" using assms(4) by (auto dest: event_id.expand)
    then show ?thesis using assms(1) by (auto simp: saved_events_def gone_def de_of_event_simps)
  qed
  then show ?thesis
    using assms(1) saved_marks_keep [of w _ D E e] unfolding gone_def fst_conv snd_conv by blast
qed

lemma gone_stays_all:
  assumes "gone t s" and "lo_process_nip09 (le_options D)" and "\<not> kind_eq (ev_kind t) EventDeletion"
    and "\<And>e. e \<in> set es \<Longrightarrow> ev_id e = ev_id t \<Longrightarrow> e = t"
  shows "gone t (saved_all D s es)"
  using assms(1,4)
proof (induction es arbitrary: s)
  case Nil
  then show ?case by (cases s) simp
next
  case (Cons e es)
  obtain E w where s: "s = (E, w)" by (cases s)
  show ?case
    unfolding s saved_all.simps
    by (rule Cons.IH [OF gone_stays [OF Cons.prems(1) [unfolded s] assms(2,3)]])
      (use Cons.prems(2) in auto)
qed

text \<open>A deletion request that succeeds, whether its target is stored or not.\<close>

lemma deletion_gone:
  assumes "lmdb_save_status D E w e = Success" and "is_deletion D e"
    and "ev_id t \<in> set (tags_event_ids (le_ext D) (ev_tags e))" and "ev_pubkey t = ev_pubkey e"
    and "ev_id t \<noteq> ev_id e"
  shows "gone t (saved_events D E w e, saved_marks D E w e)"
proof -
  let ?k = "eid_bytes (ev_id t)"
  have "?k \<noteq> eid_bytes (ev_id e)" using assms(5) by (auto dest: event_id.expand)
  moreover have "?k \<notin> de_id ` (E - lmdb_removed D E e)"
  proof
    assume "?k \<in> de_id ` (E - lmdb_removed D E e)"
    then obtain d where d: "de_id d = ?k" "d \<notin> lmdb_removed D E e" by auto
    have "d \<in> id_targets (tags_event_ids (le_ext D) (ev_tags e))"
      using d(1) assms(3) by (auto simp: id_targets_def)
    then show False using d(2) assms(2) by (simp add: lmdb_removed_def deletion_targets_def)
  qed
  ultimately have 1: "?k \<notin> de_id ` saved_events D E w e"
    using assms(1) by (simp add: saved_events_def de_of_event_simps)
  have marks: "saved_marks D E w e = deletion_marks (le_ext D) E e w"
    using assms(1,2) success_accepted [OF assms(1)] special_kinds(3) [of "ev_kind e"]
    by (simp add: saved_marks_def is_deletion_def is_vanish_def)
  have 2: "vw_deleted (saved_marks D E w e) ?k \<noteq> None" if "?k \<in> de_id ` E"
    using assms(3) that unfolding marks by (auto simp: deletion_marks_deleted)
  have 3: "vw_by_author (saved_marks D E w e) (make_author_deletion_key (ev_id t) (ev_pubkey t)) \<noteq> None"
    if "?k \<notin> de_id ` E"
    using assms(3,4) that unfolding marks
    by (auto simp: deletion_marks_def Let_def fold_by_author)
  show ?thesis using 1 2 3 by (auto simp: gone_def)
qed

end
