(* ===== verification/Lmdb_Recovery.thy ===== *)
theory Lmdb_Recovery
  imports Lmdb_Specification
begin

text \<open>
  Sequences of saves in one transaction, wiping, and reindexing, which rebuilds every index from
  the table of events, whatever the indexes had before.
\<close>

section \<open>Several saves\<close>

fun save_all_events ::
  "('b, 'u, 'n) lmdb_env \<Rightarrow> event list \<Rightarrow> (('b, 'u, 'n) lmdb, save_event_status list) tx" where
  "save_all_events D [] = tx_return []"
| "save_all_events D (e # es) =
     tx_bind (save_event_with_txn D e) (\<lambda>st.
       tx_bind (save_all_events D es) (\<lambda>sts. tx_return (st # sts)))"

lemma saved_card:
  assumes "finite E"
  shows "finite (saved_events D E w e)" "card (saved_events D E w e) \<le> Suc (card E)"
proof -
  let ?F = "E - lmdb_removed D E e"
  have "card ?F \<le> card E" using assms by (intro card_mono) auto
  then have "card (insert (de_of_event e) ?F) \<le> Suc (card E)"
    using card_insert_le_m1 [of "Suc (card E)" ?F "de_of_event e"] by simp
  then show "card (saved_events D E w e) \<le> Suc (card E)" by (simp add: saved_events_def)
qed (use assms in \<open>simp add: saved_events_def\<close>)

lemma stores_save_all:
  assumes env: "tx_env W D C" and "\<And>e. e \<in> set es \<Longrightarrow> storable D e" and "unique_versions E"
    and "finite E" and "card E + length es \<le> usize_max"
  shows "holds W (stores D C E w) (save_all_events D es)
    (\<lambda>sts. stores D C (fst (saved_all D (E, w) es)) (snd (saved_all D (E, w) es)))"
  using assms(2-)
proof (induction es arbitrary: E w)
  case Nil
  then show ?case by (simp add: holds_return)
next
  case (Cons e es)
  let ?E = "saved_events D E w e" and ?w = "saved_marks D E w e"
  have 1: "holds W (stores D C E w) (save_event_with_txn D e) (\<lambda>st. stores D C ?E ?w)"
    by (rule holds_post [OF stores_save [OF env]]) (use Cons.prems in auto)
  have "card ?E + length es \<le> usize_max" using saved_card(2) [OF Cons.prems(3), of D w e] Cons.prems(4) by simp
  then have 2: "holds W (stores D C ?E ?w) (save_all_events D es)
      (\<lambda>_. stores D C (fst (saved_all D (?E, ?w) es)) (snd (saved_all D (?E, ?w) es)))"
    using Cons.prems by (intro Cons.IH saved_unique saved_card) auto
  show ?case
    unfolding save_all_events.simps saved_all.simps
    by (rule holds_bind [OF 1 holds_bind [OF 2 holds_return]])
qed

lemma saved_all_size:
  assumes "\<And>e. e \<in> set es \<Longrightarrow> storable D e" and "unique_versions E" and "finite E"
  shows "unique_versions (fst (saved_all D (E, w) es)) \<and> finite (fst (saved_all D (E, w) es)) \<and>
    card (fst (saved_all D (E, w) es)) \<le> card E + length es"
  using assms
proof (induction es arbitrary: E w)
  case (Cons e es)
  let ?E = "saved_events D E w e" and ?w = "saved_marks D E w e"
  have "unique_versions (fst (saved_all D (?E, ?w) es)) \<and> finite (fst (saved_all D (?E, ?w) es)) \<and>
      card (fst (saved_all D (?E, ?w) es)) \<le> card ?E + length es"
    using Cons.prems by (intro Cons.IH saved_unique saved_card) auto
  then show ?case using saved_card(2) [OF Cons.prems(3), of D w e] by simp
qed simp

section \<open>Wiping\<close>

definition no_marks :: "lmdb_view \<Rightarrow> lmdb_view" where
  "no_marks w =
     w\<lparr>vw_deleted := Map.empty, vw_by_author := Map.empty, vw_coordinates := Map.empty,
       vw_vanished := Map.empty\<rparr>"

lemma stores_wipe:
  assumes env: "tx_env W D C"
  shows "holds W (stores D C E w) (lmdb_wipe D) (\<lambda>_. stores D C {} (no_marks w))"
  by (rule holds_stores [OF holds_wipe [OF tx_envD [OF env]]])
    (simp_all add: tables_ok_def events_ok_def index_ok_def indexes_cleared_def no_marks_def
      marks_agree_def)

section \<open>Reindexing\<close>

text \<open>Only the table of events has to be right.\<close>

definition events_intact ::
  "('b, 'u, 'n) lmdb_env \<Rightarrow> ('b, 'u, 'n) contents \<Rightarrow> database_event set \<Rightarrow> ('b, 'u, 'n) lmdb \<Rightarrow> bool" where
  "events_intact D C E db \<longleftrightarrow>
     finite E \<and> (\<forall>d \<in> E. de_ok d) \<and> inj_on de_id E \<and> events_ok (le_fb D) E (vw_events (view C db))"

lemma decoded_spec:
  assumes F: "flatbuffers_ok F" "F = le_fb D" and ok: "\<forall>d \<in> E. de_ok d" and ev: "events_ok F E m"
    and "set rows \<subseteq> {(k, b). m k = Some b}"
  shows "\<exists>ds. decoded_events D (map Inr rows) = Inr ds \<and>
    set ds = {d \<in> E. de_id d \<in> fst ` set rows}"
  using assms(5)
proof (induction rows)
  case (Cons r rows)
  obtain k b where r: "r = (k, b)" by (cases r)
  obtain ds where ds: "decoded_events D (map Inr rows) = Inr ds" "set ds = {d \<in> E. de_id d \<in> fst ` set rows}"
    using Cons by auto
  have b: "m k = Some b" using Cons.prems r by simp
  show ?case
  proof (cases "k \<in> de_id ` E")
    case True
    then obtain d where d: "d \<in> E" "k = de_id d" by blast
    then have "b = encode_flatbuf F d" using ev b by (simp add: events_ok_def)
    then have dec: "from_flatbuf (le_fb D) b = Inr d" using flatbuf_roundtrip [OF F(1)] ok d(1) F(2) by simp
    have "{c \<in> E. de_id c \<in> fst ` set (r # rows)} = insert d {c \<in> E. de_id c \<in> fst ` set rows}"
    proof -
      have "c = d" if "c \<in> E" "de_id c = k" for c
      proof -
        have "m (de_id c) = Some (encode_flatbuf F c)" using ev that(1) by (simp add: events_ok_def)
        then have "encode_flatbuf F c = b" using that(2) b by simp
        then show ?thesis using flatbuf_roundtrip [OF F(1)] ok that(1) dec F(2) by (metis Inr_inject)
      qed
      then show ?thesis using d r by auto
    qed
    then show ?thesis using ds dec r by simp
  next
    case False
    then obtain e where dec: "from_flatbuf (le_fb D) b = Inl e"
      using ev b F(2) unfolding events_ok_def by blast
    have "{c \<in> E. de_id c \<in> fst ` set (r # rows)} = {c \<in> E. de_id c \<in> fst ` set rows}"
      using False r by auto
    then show ?thesis using ds dec r by simp
  qed
qed simp

lemma all_events_spec:
  assumes env: "env_ok D C" and ev: "events_intact D C E db"
  shows "\<exists>ds. all_events D db = Inr ds \<and> set ds = E"
proof -
  obtain rows where iter: "kv_iter (le_bytes D) (lm_events db) = Inr (map Inr rows)"
    and rows: "rows_of (cn_bytes C (lm_events db)) (\<lambda>_. True) rows"
    using kv_iter_ok [OF env_okD(1) [OF env]] by blast
  have set: "set rows = {(k, b). vw_events (view C db) k = Some b}"
    using rows by (simp add: rows_of_def view_def)
  have ids: "de_id d \<in> fst ` set rows" if "d \<in> E" for d
  proof -
    have "vw_events (view C db) (de_id d) = Some (encode_flatbuf (le_fb D) d)"
      using ev that by (simp add: events_intact_def events_ok_def)
    then show ?thesis unfolding set by force
  qed
  obtain ds where "decoded_events D (map Inr rows) = Inr ds" "set ds = {d \<in> E. de_id d \<in> fst ` set rows}"
    using decoded_spec [OF env_okD(4) [OF env] refl, of E "vw_events (view C db)" rows] ev set
    by (auto simp: events_intact_def)
  then show ?thesis using iter ids by (auto simp: all_events_def)
qed

text \<open>The indexes have the keys of the events that have been indexed so far.\<close>

definition indexed ::
  "('b, 'u, 'n) lmdb_env \<Rightarrow> ('b, 'u, 'n) contents \<Rightarrow> database_event set \<Rightarrow> database_event set \<Rightarrow>
   lmdb_view \<Rightarrow> ('b, 'u, 'n) lmdb \<Rightarrow> bool" where
  "indexed D C E I w db \<longleftrightarrow>
     events_intact D C E db \<and> marks_agree w (view C db) \<and> I \<subseteq> E \<and>
     index_ok ci_keys I (vw_ci (view C db)) \<and> index_ok akc_keys I (vw_akc (view C db)) \<and>
     index_ok ac_keys I (vw_ac (view C db)) \<and> index_ok kc_keys I (vw_kc (view C db)) \<and>
     index_ok atc_keys I (vw_atc (view C db)) \<and> index_ok ktc_keys I (vw_ktc (view C db)) \<and>
     index_ok tc_keys I (vw_tc (view C db))"

lemma indexed_all: "indexed D C E E w db \<Longrightarrow> stores D C E w db"
  by (simp add: indexed_def stores_def tables_ok_def events_intact_def)

lemma indexed_step:
  assumes env: "tx_env W D C" and d: "d \<in> E"
  shows "holds W (indexed D C E I w) (lmdb_index_event D (event_index_keys_new d))
    (\<lambda>_. indexed D C E (insert d I) w)"
proof (rule holds_given)
  fix db assume s: "indexed D C E I w db"
  then have ok: "de_ok d" "\<And>c. c \<in> I \<Longrightarrow> de_ok c" using d by (auto simp: indexed_def events_intact_def)
  note put = index_ok_put [OF _ _ ok]
  have "holds W (\<lambda>db'. view C db' = view C db) (lmdb_index_event D (event_index_keys_new d))
      (\<lambda>_. indexed D C E (insert d I) w)"
    by (rule holds_post [OF holds_index_event [OF tx_envD [OF env] ok(1)]])
      (use s d put all_separate in \<open>simp_all add: indexed_def events_intact_def index_view_def marks_agree_def\<close>)
  then show "holds W (\<lambda>t. t = db) (lmdb_index_event D (event_index_keys_new d))
      (\<lambda>_. indexed D C E (insert d I) w)"
    by (rule holds_pre [rotated]) simp
qed

lemma indexed_loop:
  assumes env: "tx_env W D C" and "set ds \<subseteq> E"
  shows "holds W (indexed D C E I w) (tx_for (lmdb_index_event D) (map event_index_keys_new ds))
    (\<lambda>_. indexed D C E (set ds \<union> I) w)"
  using assms(2)
proof (induction ds arbitrary: I)
  case Nil
  then show ?case by (simp add: holds_return)
next
  case (Cons d ds)
  have "holds W (indexed D C E (insert d I) w) (tx_for (lmdb_index_event D) (map event_index_keys_new ds))
      (\<lambda>_. indexed D C E (set ds \<union> insert d I) w)"
    using Cons.prems by (intro Cons.IH) simp
  then show ?case
    using indexed_step [OF env, of d E I w] Cons.prems by (auto intro: holds_then)
qed

lemma stores_reindex:
  assumes env: "tx_env W D C"
  shows "holds W (\<lambda>db. events_intact D C E db \<and> marks_agree w (view C db)) (reindex D)
    (\<lambda>_. stores D C E (no_marks w))"
proof (rule holds_given, elim conjE)
  fix db assume ev: "events_intact D C E db" and w: "marks_agree w (view C db)"
  have 1: "holds W (\<lambda>t. t = db) (wipe_indexes D) (\<lambda>_. indexed D C E {} (no_marks w))"
    by (rule holds_pre [OF _ holds_post [OF holds_wipe_indexes [OF tx_envD [OF env], where v = "view C db"]]])
      (use ev w in \<open>simp_all add: indexed_def events_intact_def indexes_cleared_def index_ok_def
        marks_agree_def no_marks_def\<close>)
  have 2: "holds W (indexed D C E {} (no_marks w))
      (tx_bind (tx_read (\<lambda>db. kv_len (le_bytes D) (lm_events db))) (\<lambda>_.
       tx_bind (tx_read (all_events D)) (\<lambda>ds. tx_for (lmdb_index_event D) (map event_index_keys_new ds))))
      (\<lambda>_. stores D C E (no_marks w))"
  proof (rule holds_bind [OF holds_read [where Q = "\<lambda>n :: nat. indexed D C E {} (no_marks w)"]])
    fix db assume s: "indexed D C E {} (no_marks w) db"
    then show "case kv_len (le_bytes D) (lm_events db) of
        Inl e \<Rightarrow> \<not> W | Inr n \<Rightarrow> indexed D C E {} (no_marks w) db"
      using kv_len_ok [OF env_okD(1) [OF tx_envD(1) [OF env]]] by simp
  next
    fix n :: nat
    show "holds W (indexed D C E {} (no_marks w)) (tx_bind (tx_read (all_events D))
        (\<lambda>ds. tx_for (lmdb_index_event D) (map event_index_keys_new ds))) (\<lambda>_. stores D C E (no_marks w))"
    proof (rule holds_bind [OF holds_read [where Q = "\<lambda>ds db. set ds = E \<and> indexed D C E {} (no_marks w) db"]])
      fix db assume s: "indexed D C E {} (no_marks w) db"
      then show "case all_events D db of Inl e \<Rightarrow> \<not> W
          | Inr ds \<Rightarrow> set ds = E \<and> indexed D C E {} (no_marks w) db"
        using all_events_spec [OF tx_envD(1) [OF env], of E db] by (auto simp: indexed_def)
    next
      fix ds :: "database_event list"
      show "holds W (\<lambda>db. set ds = E \<and> indexed D C E {} (no_marks w) db)
          (tx_for (lmdb_index_event D) (map event_index_keys_new ds)) (\<lambda>_. stores D C E (no_marks w))"
      proof (cases "set ds = E")
        case True
        have "holds W (indexed D C E {} (no_marks w)) (tx_for (lmdb_index_event D) (map event_index_keys_new ds))
            (\<lambda>_. stores D C E (no_marks w))"
          by (rule holds_post [OF indexed_loop [OF env equalityD1 [OF True]]])
            (simp add: True indexed_all)
        then show ?thesis by (rule holds_pre [rotated]) simp
      qed (simp add: holds_def)
    qed
  qed
  show "holds W (\<lambda>t. t = db) (reindex D) (\<lambda>_. stores D C E (no_marks w))"
    unfolding reindex_def by (rule holds_then [OF 1 2])
qed

end
