(* ===== verification/Lmdb_Ingester.thy ===== *)
theory Lmdb_Ingester
  imports Lmdb_Recovery
begin

text \<open>
  The ingester of the LMDB store (database/nostr-lmdb/src/store/ingester.rs), which executes the
  queued operations in batches, one write transaction per batch, and the operations of the store on
  top of it (store/mod.rs). Whether a transaction can be opened and committed is a parameter; a
  channel for an answer is a value of an abstract type.
\<close>

section \<open>Operations and results\<close>

datatype 'c operation_result =
    ResReindex "store_error + unit" "'c option"
  | ResSave "store_error + save_event_status" "'c option"
  | ResDelete "store_error + unit" "'c option"
  | ResWipe "store_error + unit" "'c option"

datatype 'c ingester_operation =
    IngReindex "'c option"
  | IngSaveEvent event "'c option"
  | IngDelete filter "'c option"
  | IngWipe "'c option"

text \<open>What is sent through a channel.\<close>

datatype reply = ReplyUnit "store_error + unit" | ReplyStatus "store_error + save_event_status"

fun result_send :: "'c operation_result \<Rightarrow> ('c \<times> reply) list" where
  "result_send (ResReindex r tx) = (case tx of Some c \<Rightarrow> [(c, ReplyUnit r)] | None \<Rightarrow> [])"
| "result_send (ResSave r tx) = (case tx of Some c \<Rightarrow> [(c, ReplyStatus r)] | None \<Rightarrow> [])"
| "result_send (ResDelete r tx) = (case tx of Some c \<Rightarrow> [(c, ReplyUnit r)] | None \<Rightarrow> [])"
| "result_send (ResWipe r tx) = (case tx of Some c \<Rightarrow> [(c, ReplyUnit r)] | None \<Rightarrow> [])"

fun into_error_result :: "store_error \<Rightarrow> 'c ingester_operation \<Rightarrow> 'c operation_result" where
  "into_error_result error (IngReindex tx) = ResReindex (Inl error) tx"
| "into_error_result error (IngSaveEvent e tx) = ResSave (Inl error) tx"
| "into_error_result error (IngDelete f tx) = ResDelete (Inl error) tx"
| "into_error_result error (IngWipe tx) = ResWipe (Inl error) tx"

definition ingester_item_reindex :: "'c \<Rightarrow> 'c ingester_operation" where
  "ingester_item_reindex c = IngReindex (Some c)"

definition save_event_with_feedback :: "event \<Rightarrow> 'c \<Rightarrow> 'c ingester_operation" where
  "save_event_with_feedback e c = IngSaveEvent e (Some c)"

definition delete_with_feedback :: "filter \<Rightarrow> 'c \<Rightarrow> 'c ingester_operation" where
  "delete_with_feedback f c = IngDelete f (Some c)"

definition wipe_with_feedback :: "'c \<Rightarrow> 'c ingester_operation" where
  "wipe_with_feedback c = IngWipe (Some c)"

section \<open>Batches\<close>

fun process_operation ::
  "('b, 'u, 'n) lmdb_env \<Rightarrow> 'c ingester_operation \<Rightarrow> ('b, 'u, 'n) lmdb \<Rightarrow>
   'c operation_result \<times> ('b, 'u, 'n) lmdb" where
  "process_operation D (IngReindex tx) db = (case reindex D db of (r, db) \<Rightarrow> (ResReindex r tx, db))"
| "process_operation D (IngSaveEvent e tx) db =
     (case save_event_with_txn D e db of (r, db) \<Rightarrow> (ResSave r tx, db))"
| "process_operation D (IngDelete f tx) db = (case lmdb_delete D f db of (r, db) \<Rightarrow> (ResDelete r tx, db))"
| "process_operation D (IngWipe tx) db = (case lmdb_wipe D db of (r, db) \<Rightarrow> (ResWipe r tx, db))"

fun abort_on_error :: "'c operation_result \<Rightarrow> bool" where
  "abort_on_error (ResSave (Inl e) tx) = True"
| "abort_on_error (ResDelete (Inl e) tx) = True"
| "abort_on_error (ResSave (Inr (Rejected r)) tx) = False"
| "abort_on_error _ = False"

fun mark_failed :: "'c operation_result \<Rightarrow> 'c operation_result" where
  "mark_failed (ResReindex r tx) = ResReindex (Inl ErrBatchTransactionFailed) tx"
| "mark_failed (ResSave r tx) = ResSave (Inl ErrBatchTransactionFailed) tx"
| "mark_failed (ResDelete r tx) = ResDelete (Inl ErrBatchTransactionFailed) tx"
| "mark_failed (ResWipe r tx) = ResWipe (Inl ErrBatchTransactionFailed) tx"

definition mark_all_as_failed :: "'c operation_result list \<Rightarrow> 'c operation_result list" where
  "mark_all_as_failed results = map mark_failed results"

text \<open>The loop over the batch; \<open>None\<close> when the transaction is aborted.\<close>

fun process_items ::
  "('b, 'u, 'n) lmdb_env \<Rightarrow> 'c ingester_operation list \<Rightarrow> 'c operation_result list \<Rightarrow>
   ('b, 'u, 'n) lmdb \<Rightarrow> 'c operation_result list \<times> ('b, 'u, 'n) lmdb option" where
  "process_items D [] results db = (results, Some db)"
| "process_items D (item # batch) results db =
     (case process_operation D item db of (result, db) \<Rightarrow>
        let results = results @ [result]
        in if abort_on_error result
           then (mark_all_as_failed results @
                   map (into_error_result ErrBatchTransactionFailed) batch, None)
           else process_items D batch results db)"

record transaction_outcome =
  tr_write_txn :: "store_error + unit"
  tr_commit :: "store_error + unit"

definition process_batch_in_transaction ::
  "('b, 'u, 'n) lmdb_env \<Rightarrow> transaction_outcome \<Rightarrow> 'c ingester_operation list \<Rightarrow> ('b, 'u, 'n) lmdb \<Rightarrow>
   'c operation_result list \<times> ('b, 'u, 'n) lmdb" where
  "process_batch_in_transaction D tr batch db =
     (case tr_write_txn tr of
        Inl e \<Rightarrow> (map (into_error_result ErrBatchTransactionFailed) batch, db)
      | Inr _ \<Rightarrow>
          (case process_items D batch [] db of
             (results, None) \<Rightarrow> (results, db)
           | (results, Some db') \<Rightarrow>
               (case tr_commit tr of
                  Inl e \<Rightarrow> (mark_all_as_failed results, db)
                | Inr _ \<Rightarrow> (results, db'))))"

text \<open>
  The loop of the thread: each batch is what was in the channel when it was read. It ends when all
  senders are gone.
\<close>

fun run_ingester_loop ::
  "('b, 'u, 'n) lmdb_env \<Rightarrow> (transaction_outcome \<times> 'c ingester_operation list) list \<Rightarrow>
   ('b, 'u, 'n) lmdb \<Rightarrow> ('c \<times> reply) list \<times> ('b, 'u, 'n) lmdb" where
  "run_ingester_loop D [] db = ([], db)"
| "run_ingester_loop D ((tr, batch) # batches) db =
     (case process_batch_in_transaction D tr batch db of (results, db) \<Rightarrow>
      case run_ingester_loop D batches db of (replies, db) \<Rightarrow>
        (concat (map result_send results) @ replies, db))"

section \<open>Reading\<close>

text \<open>A read transaction may fail when it is opened or committed.\<close>

record read_outcome =
  rd_txn :: "store_error + unit"
  rd_commit :: "store_error + unit"

definition in_read_txn :: "read_outcome \<Rightarrow> (store_error + 'a) \<Rightarrow> store_error + 'a" where
  "in_read_txn t r = rbind (rd_txn t) (\<lambda>_. rbind r (\<lambda>a. rbind (rd_commit t) (\<lambda>_. Inr a)))"

definition store_get_event_by_id ::
  "('b, 'u, 'n) lmdb_env \<Rightarrow> read_outcome \<Rightarrow> event_id \<Rightarrow> ('b, 'u, 'n) lmdb \<Rightarrow>
   store_error + event option" where
  "store_get_event_by_id D t i db =
     in_read_txn t (rbind (get_event_by_id D (eid_bytes i) db) (\<lambda>d. Inr (map_option into_owned d)))"

definition store_check_id ::
  "('b, 'u, 'n) lmdb_env \<Rightarrow> read_outcome \<Rightarrow> event_id \<Rightarrow> ('b, 'u, 'n) lmdb \<Rightarrow>
   store_error + database_event_status" where
  "store_check_id D t i db =
     in_read_txn t (rbind (is_deleted D i db) (\<lambda>b.
       if b then Inr Deleted
       else rbind (lmdb_has_event D i db) (\<lambda>b. Inr (if b then Saved else NotExistent))))"

definition store_count ::
  "('b, 'u, 'n) lmdb_env \<Rightarrow> read_outcome \<Rightarrow> filter \<Rightarrow> ('b, 'u, 'n) lmdb \<Rightarrow> store_error + nat" where
  "store_count D t f db = in_read_txn t (lmdb_count D f db)"

definition store_query ::
  "('b, 'u, 'n) lmdb_env \<Rightarrow> read_outcome \<Rightarrow> filter \<Rightarrow> ('b, 'u, 'n) lmdb \<Rightarrow> store_error + event list" where
  "store_query D t f db =
     in_read_txn t (rbind (lmdb_query D f db) (\<lambda>ds. Inr (bts_extend event_key [] (map into_owned ds))))"

definition store_negentropy_items ::
  "('b, 'u, 'n) lmdb_env \<Rightarrow> read_outcome \<Rightarrow> filter \<Rightarrow> timestamp \<Rightarrow> ('b, 'u, 'n) lmdb \<Rightarrow>
   store_error + (event_id \<times> timestamp) list" where
  "store_negentropy_items D t f now db =
     in_read_txn t (rbind (lmdb_query D f db) (\<lambda>ds.
       Inr (map (\<lambda>d. (EventId (de_id d), de_created_at d)) [d \<leftarrow> ds. \<not> de_is_expired_at d now])))"

section \<open>A batch is executed completely or not at all\<close>

fun result_error :: "'c operation_result \<Rightarrow> bool" where
  "result_error (ResReindex r tx) = (\<exists>e. r = Inl e)"
| "result_error (ResSave r tx) = (\<exists>e. r = Inl e)"
| "result_error (ResDelete r tx) = (\<exists>e. r = Inl e)"
| "result_error (ResWipe r tx) = (\<exists>e. r = Inl e)"

lemma errors [simp]: "result_error (into_error_result e x)" "result_error (mark_failed r)"
  by (cases x; simp) (cases r; simp)

lemma process_items_abort:
  assumes "process_items D batch results db = (rs, out)"
  shows "case out of
      None \<Rightarrow> \<forall>r \<in> set rs. result_error r
    | Some db' \<Rightarrow> \<forall>r \<in> set rs. r \<in> set results \<or> \<not> abort_on_error r"
  using assms
proof (induction batch arbitrary: results db)
  case (Cons x batch)
  obtain r db' where r: "process_operation D x db = (r, db')" by (cases "process_operation D x db")
  show ?case
  proof (cases "abort_on_error r")
    case True
    then show ?thesis using Cons.prems r by (auto simp: Let_def mark_all_as_failed_def)
  next
    case False
    then have "process_items D batch (results @ [r]) db' = (rs, out)" using Cons.prems r by (simp add: Let_def)
    from Cons.IH [OF this] show ?thesis using False by (auto split: option.splits)
  qed
qed auto

fun channel_of :: "'c ingester_operation \<Rightarrow> 'c option" where
  "channel_of (IngReindex tx) = tx"
| "channel_of (IngSaveEvent e tx) = tx"
| "channel_of (IngDelete f tx) = tx"
| "channel_of (IngWipe tx) = tx"

fun result_channel :: "'c operation_result \<Rightarrow> 'c option" where
  "result_channel (ResReindex r tx) = tx"
| "result_channel (ResSave r tx) = tx"
| "result_channel (ResDelete r tx) = tx"
| "result_channel (ResWipe r tx) = tx"

lemma channels [simp]:
  "result_channel (mark_failed r) = result_channel r"
  "result_channel (into_error_result e x) = channel_of x"
  "result_channel (fst (process_operation D x db)) = channel_of x"
  by (cases r; simp) (cases x; simp split: prod.split)+

lemma process_items_channels:
  "map result_channel (fst (process_items D batch results db)) =
     map result_channel results @ map channel_of batch"
proof (induction batch arbitrary: results db)
  case (Cons x batch)
  obtain r db' where r: "process_operation D x db = (r, db')" by (cases "process_operation D x db")
  then have "result_channel r = channel_of x" by (metis channels(3) fst_conv)
  then show ?case using Cons.IH r by (simp add: Let_def mark_all_as_failed_def comp_def)
qed simp

section \<open>A batch is executed in its order\<close>

text \<open>The first \<open>n\<close> events in the order of the store.\<close>

definition newest :: "nat option \<Rightarrow> database_event set \<Rightarrow> database_event set" where
  "newest limit M =
     {d \<in> M. case limit of None \<Rightarrow> True | Some n \<Rightarrow> card {c \<in> M. de_key c < de_key d} < n}"

lemma newest_take:
  assumes "bts_ok de_key xs" and "set xs = M"
  shows "set (take_limit limit xs) = newest limit M"
proof (cases limit)
  case (Some n)
  have before: "{c \<in> M. de_key c < de_key (xs ! i)} = set (take i xs)" if i: "i < length xs" for i
  proof (intro set_eqI iffI)
    fix c assume "c \<in> {c \<in> M. de_key c < de_key (xs ! i)}"
    then obtain j where j: "j < length xs" "c = xs ! j" "de_key (xs ! j) < de_key (xs ! i)"
      using assms(2) by (auto simp: in_set_conv_nth)
    have "j < i"
    proof (rule ccontr)
      assume "\<not> j < i"
      then consider "i = j" | "i < j" by linarith
      then show False
      proof cases
        case 2
        have "de_key (xs ! i) < de_key (xs ! j)"
          using sorted_wrt_nth_less [OF assms(1) [unfolded bts_ok_def] 2 j(1)] .
        then show False using j(3) by (rule less_asym)
      qed (use j(3) in simp)
    qed
    then show "c \<in> set (take i xs)" using i j(1,2) by (auto simp: in_set_conv_nth)
  next
    fix c assume "c \<in> set (take i xs)"
    then obtain j where j: "j < i" "c = xs ! j" using i by (auto simp: in_set_conv_nth)
    then have "de_key c < de_key (xs ! i)"
      using assms(1) i unfolding bts_ok_def by (auto intro: sorted_wrt_nth_less)
    then show "c \<in> {c \<in> M. de_key c < de_key (xs ! i)}" using j i assms(2) by auto
  qed
  have "card (set (take i xs)) = i" if "i < length xs" for i
    using bts_ok_distinct [OF assms(1)] that by (simp add: distinct_card)
  then have index: "card {c \<in> M. de_key c < de_key (xs ! i)} = i" if "i < length xs" for i
    using before that by simp
  have "d \<in> set (take n xs) \<longleftrightarrow> d \<in> newest (Some n) M" for d
    using index assms(2) by (fastforce simp: newest_def in_set_conv_nth)
  then show ?thesis using Some by (auto simp: take_limit_def)
qed (use assms(2) in \<open>simp add: take_limit_def newest_def\<close>)

fun batch_step ::
  "('b, 'u, 'n) lmdb_env \<Rightarrow> 'c ingester_operation \<Rightarrow> database_event set \<times> lmdb_view \<Rightarrow>
   'c operation_result \<times> database_event set \<times> lmdb_view" where
  "batch_step D (IngReindex tx) (E, w) = (ResReindex (Inr ()) tx, E, no_marks w)"
| "batch_step D (IngSaveEvent e tx) (E, w) =
     (ResSave (Inr (lmdb_save_status D E w e)) tx, saved_events D E w e, saved_marks D E w e)"
| "batch_step D (IngDelete f tx) (E, w) =
     (ResDelete (Inr ()) tx, E - newest (fl_limit f) (matching (le_hash D) f E), w)"
| "batch_step D (IngWipe tx) (E, w) = (ResWipe (Inr ()) tx, {}, no_marks w)"

fun batch_steps ::
  "('b, 'u, 'n) lmdb_env \<Rightarrow> 'c ingester_operation list \<Rightarrow> database_event set \<times> lmdb_view \<Rightarrow>
   'c operation_result list \<times> database_event set \<times> lmdb_view" where
  "batch_steps D [] s = ([], s)"
| "batch_steps D (x # batch) s =
     (case batch_step D x s of (r, s) \<Rightarrow> case batch_steps D batch s of (rs, s) \<Rightarrow> (r # rs, s))"

text \<open>What an operation of a batch carries; a delete with a limit visits the newest events first.\<close>

fun operation_ok :: "('b, 'u, 'n) lmdb_env \<Rightarrow> 'c ingester_operation \<Rightarrow> bool" where
  "operation_ok D (IngSaveEvent e tx) = storable D e"
| "operation_ok D (IngDelete f tx) =
     (stored_filter_ok f \<and> newest_first (df_of_filter (le_hash D) f) (fl_limit f))"
| "operation_ok D (IngReindex tx) = True"
| "operation_ok D (IngWipe tx) = True"

lemma matching_sorted:
  assumes "tables_ok F E v"
  shows "\<exists>xs. bts_ok de_key xs \<and> set xs = matching H f E"
proof (rule sorted_exists)
  show "finite (matching H f E)" using tables_okD(1) [OF assms] by (simp add: matching_def)
  show "inj_on de_key (matching H f E)"
    using tables_okD(3) [OF assms] by (auto simp: matching_def inj_on_def de_key_def)
qed

lemma process_operation_step:
  assumes env: "env_ok D C" "writable D" and x: "operation_ok D x" and s: "stores D C E w db"
    and uniq: "unique_versions E" and small: "card E < usize_max"
    and step: "batch_step D x (E, w) = (r, E', w')"
  shows "\<exists>db'. process_operation D x db = (r, db') \<and> stores D C E' w' db' \<and> \<not> abort_on_error r \<and>
    unique_versions E' \<and> finite E' \<and> card E' \<le> Suc (card E)"
proof -
  have tx: "tx_env True D C" using env by (simp add: tx_env_def)
  have t: "tables_ok (le_fb D) E (view C db)" using s by (simp add: stores_def)
  note fin = tables_okD(1) [OF t]
  show ?thesis
  proof (cases x)
    case (IngReindex c)
    have "events_intact D C E db \<and> marks_agree w (view C db)"
      using s t by (simp add: stores_def events_intact_def tables_ok_def)
    from holds_total [OF stores_reindex [OF tx] TrueI this]
    show ?thesis using IngReindex step uniq fin by auto
  next
    case (IngSaveEvent e c)
    have e: "storable D e" using x IngSaveEvent by simp
    from holds_total [OF stores_save [OF tx e uniq fin] TrueI s] small
    obtain db' where "save_event_with_txn D e db = (Inr (lmdb_save_status D E w e), db')"
        "stores D C (saved_events D E w e) (saved_marks D E w e) db'" by auto
    then show ?thesis
      using IngSaveEvent step saved_unique [OF e uniq] saved_card [OF fin]
      by (cases "lmdb_save_status D E w e") auto
  next
    case (IngDelete f c)
    have f: "stored_filter_ok f" "newest_first (df_of_filter (le_hash D) f) (fl_limit f)"
      using x IngDelete by simp_all
    obtain xs where xs: "bts_ok de_key xs" "set xs = matching (le_hash D) f E"
      using matching_sorted [OF t] by blast
    let ?E = "E - newest (fl_limit f) (matching (le_hash D) f E)"
    from holds_total [OF stores_delete [OF tx uniq f(1) _ f(2) xs] TrueI s] small newest_take [OF xs]
    obtain db' where "lmdb_delete D f db = (Inr (), db')" "stores D C ?E w db'" by auto
    moreover have "unique_versions ?E" "finite ?E" "card ?E \<le> Suc (card E)"
      using unique_versions_subset [OF uniq, of ?E] fin card_mono [OF fin, of ?E] by auto
    ultimately show ?thesis using IngDelete step by auto
  next
    case (IngWipe c)
    from holds_total [OF stores_wipe [OF tx] TrueI s]
    show ?thesis using IngWipe step by (auto simp: unique_versions_def)
  qed
qed

lemma process_items_steps:
  assumes env: "env_ok D C" "writable D" and "\<And>x. x \<in> set batch \<Longrightarrow> operation_ok D x"
    and "stores D C E w db" and "unique_versions E" and "card E + length batch \<le> usize_max"
    and "batch_steps D batch (E, w) = (rs, E', w')"
  shows "\<exists>db'. process_items D batch results db = (results @ rs, Some db') \<and> stores D C E' w' db' \<and>
    unique_versions E'"
  using assms(3-)
proof (induction batch arbitrary: E w db results rs)
  case Nil
  then show ?case by simp
next
  case (Cons x batch)
  obtain r F v where step: "batch_step D x (E, w) = (r, F, v)" by (metis prod_cases3)
  obtain rs' where rest: "batch_steps D batch (F, v) = (rs', E', w')" "rs = r # rs'"
    using Cons.prems(5) step by (auto split: prod.splits)
  have "card E < usize_max" using Cons.prems(4) by simp
  from process_operation_step [OF env _ Cons.prems(2,3) this step] Cons.prems(1)
  obtain db1 where db1: "process_operation D x db = (r, db1)" "stores D C F v db1" "\<not> abort_on_error r"
      "unique_versions F" "card F \<le> Suc (card E)" by auto
  from Cons.IH [OF _ db1(2,4) _ rest(1), of "results @ [r]"] Cons.prems(1,4) db1(5)
  show ?case using db1(1,3) rest(2) by (auto simp: Let_def)
qed

end
