(* ===== verification/Lmdb_Reference.thy ===== *)
theory Lmdb_Reference
  imports Lmdb_Ingester Nostr_Reference "HOL-Library.AList"
begin

text \<open>
  One concrete instance of what the LMDB store takes from other code: tables as association lists,
  an encoding of the FlatBuffers record, the hash order and an environment of the reference
  functions. No definition of the model uses it; the witnesses of the properties of the store
  evaluate at it, which shows that the laws can hold together.
\<close>

section \<open>Tables\<close>

definition ref_rows :: "(u8 list \<times> 'v) list \<Rightarrow> (u8 list \<times> 'v) list" where
  "ref_rows t = bts_extend fst [] (AList.clearjunk t)"

definition ref_kv :: "((u8 list \<times> 'v) list, 'v) kv_ops" where
  "ref_kv =
     \<lparr>kv_get = (\<lambda>t k. Inr (map_of t k)), kv_put = (\<lambda>t k v. Inr ((k, v) # t)),
      kv_delete = (\<lambda>t k. Inr (AList.delete k t)), kv_clear = (\<lambda>t. Inr []),
      kv_range = (\<lambda>t lo hi. Inr (map Inr (filter (\<lambda>(k, v). lo \<le> k \<and> k < hi) (ref_rows t)))),
      kv_iter = (\<lambda>t. Inr (map Inr (ref_rows t))), kv_len = (\<lambda>t. Inr (length (ref_rows t)))\<rparr>"

lemma ref_rows:
  "bts_ok fst (ref_rows t)" "set (ref_rows t) = {(k, v). map_of t k = Some v}"
proof -
  have d: "distinct (map fst (AList.clearjunk t))" by (rule distinct_clearjunk)
  then have inj: "inj_on fst (set (AList.clearjunk t))" by (simp add: distinct_map)
  show "bts_ok fst (ref_rows t)" by (simp add: ref_rows_def bts_extend_ok)
  have "set (ref_rows t) = set (AList.clearjunk t)"
    using inj by (simp add: ref_rows_def bts_extend_set)
  also have "\<dots> = {(k, v). map_of t k = Some v}"
    using map_of_eq_Some_iff [OF d] by (auto simp: map_of_clearjunk)
  finally show "set (ref_rows t) = {(k, v). map_of t k = Some v}" .
qed

lemma ref_rows_length: "length (ref_rows t) = card (dom (map_of t))"
proof -
  have "inj_on fst (set (ref_rows t))" unfolding ref_rows(2) by (auto simp: inj_on_def)
  then have "card (fst ` set (ref_rows t)) = card (set (ref_rows t))" by (rule card_image)
  moreover have "fst ` set (ref_rows t) = dom (map_of t)" unfolding ref_rows(2) by force
  moreover have "card (set (ref_rows t)) = length (ref_rows t)"
    using bts_ok_distinct [OF ref_rows(1)] by (rule distinct_card)
  ultimately show ?thesis by simp
qed

lemma ref_kv_ok: "kv_ok (ref_kv :: ((u8 list \<times> 'v) list, 'v) kv_ops) map_of"
proof -
  have range: "\<exists>xs. kv_range ref_kv t lo hi = Inr (map Inr xs) \<and>
      rows_of (map_of t) (\<lambda>k. lo \<le> k \<and> k < hi) xs" for t :: "(u8 list \<times> 'v) list" and lo hi
    using bts_filter_ok [OF ref_rows(1)] ref_rows(2) [of t] by (auto simp: ref_kv_def rows_of_def)
  have iter: "\<exists>xs. kv_iter ref_kv t = Inr (map Inr xs) \<and> rows_of (map_of t) (\<lambda>_. True) xs"
    for t :: "(u8 list \<times> 'v) list"
    using ref_rows [of t] by (auto simp: ref_kv_def rows_of_def)
  show ?thesis
    unfolding kv_ok_def using range iter
    by (simp add: finite_dom_map_of) (simp add: ref_kv_def ref_rows_length delete_conv')
qed

lemma ref_kv_writable: "kv_writable ref_kv"
  by (simp add: kv_writable_def ref_kv_def)

section \<open>An encoding of the FlatBuffers record\<close>

text \<open>A codec over lists of numbers reads back what it has written, whatever follows.\<close>

record 'a num_codec =
  nc_enc :: "'a \<Rightarrow> nat list"
  nc_dec :: "nat list \<Rightarrow> 'a \<times> nat list"

definition nc_ok :: "'a num_codec \<Rightarrow> bool" where
  "nc_ok c \<longleftrightarrow> (\<forall>x r. nc_dec c (nc_enc c x @ r) = (x, r))"

definition nc_nat :: "nat num_codec" where
  "nc_nat = \<lparr>nc_enc = (\<lambda>n. [n]), nc_dec = (\<lambda>ns. case ns of [] \<Rightarrow> (0, []) | n # r \<Rightarrow> (n, r))\<rparr>"

definition nc_map :: "('b \<Rightarrow> 'a) \<Rightarrow> ('a \<Rightarrow> 'b) \<Rightarrow> 'a num_codec \<Rightarrow> 'b num_codec" where
  "nc_map f g c = \<lparr>nc_enc = (\<lambda>x. nc_enc c (f x)), nc_dec = (\<lambda>ns. map_prod g id (nc_dec c ns))\<rparr>"

definition nc_pair :: "'a num_codec \<Rightarrow> 'b num_codec \<Rightarrow> ('a \<times> 'b) num_codec" where
  "nc_pair c d =
     \<lparr>nc_enc = (\<lambda>(x, y). nc_enc c x @ nc_enc d y),
      nc_dec = (\<lambda>ns. case nc_dec c ns of (x, r) \<Rightarrow> case nc_dec d r of (y, r) \<Rightarrow> ((x, y), r))\<rparr>"

fun nc_read :: "'a num_codec \<Rightarrow> nat \<Rightarrow> nat list \<Rightarrow> 'a list \<times> nat list" where
  "nc_read c 0 ns = ([], ns)"
| "nc_read c (Suc n) ns = (case nc_dec c ns of (x, r) \<Rightarrow> map_prod ((#) x) id (nc_read c n r))"

definition nc_list :: "'a num_codec \<Rightarrow> 'a list num_codec" where
  "nc_list c =
     \<lparr>nc_enc = (\<lambda>xs. length xs # concat (map (nc_enc c) xs)),
      nc_dec = (\<lambda>ns. case ns of [] \<Rightarrow> ([], []) | n # r \<Rightarrow> nc_read c n r)\<rparr>"

definition nc_option :: "'a num_codec \<Rightarrow> 'a option num_codec" where
  "nc_option c =
     nc_map (\<lambda>x. case x of None \<Rightarrow> [] | Some y \<Rightarrow> [y]) (\<lambda>xs. case xs of [] \<Rightarrow> None | y # _ \<Rightarrow> Some y)
       (nc_list c)"

lemma nc_read_all:
  "nc_ok c \<Longrightarrow> nc_read c (length xs) (concat (map (nc_enc c) xs) @ r) = (xs, r)"
  by (induction xs) (simp_all add: nc_ok_def)

lemma codecs_ok:
  "nc_ok nc_nat" "nc_ok c \<Longrightarrow> (\<And>x. g (f x) = x) \<Longrightarrow> nc_ok (nc_map f g c)"
  "nc_ok c \<Longrightarrow> nc_ok d \<Longrightarrow> nc_ok (nc_pair c d)" "nc_ok c \<Longrightarrow> nc_ok (nc_list c)"
proof -
  show "nc_ok c \<Longrightarrow> nc_ok (nc_list c)"
    unfolding nc_ok_def [of "nc_list c"] by (simp add: nc_list_def nc_read_all)
qed (simp_all add: nc_ok_def nc_nat_def nc_map_def nc_pair_def split: prod.split)

lemma option_codec_ok: "nc_ok c \<Longrightarrow> nc_ok (nc_option c)"
  unfolding nc_option_def by (rule codecs_ok) (auto intro: codecs_ok split: option.split)

definition nc_byte :: "u8 num_codec" where "nc_byte = nc_map unat of_nat nc_nat"
definition nc_char :: "char num_codec" where "nc_char = nc_map of_char char_of nc_nat"

definition nc_event :: "fb_event num_codec" where
  "nc_event =
     nc_map
       (\<lambda>r. (fb_id r, fb_pubkey r, fb_created_at r, fb_kind r, fb_tags r, fb_content r, fb_sig r))
       (\<lambda>(i, pk, t, k, ts, s, sig).
          \<lparr>fb_id = i, fb_pubkey = pk, fb_created_at = t, fb_kind = k, fb_tags = ts, fb_content = s,
           fb_sig = sig\<rparr>)
       (nc_pair (nc_option (nc_list nc_byte)) (nc_pair (nc_option (nc_list nc_byte))
         (nc_pair nc_nat (nc_pair nc_nat
         (nc_pair (nc_option (nc_list (nc_option (nc_list (nc_list nc_char)))))
         (nc_pair (nc_option (nc_list nc_char)) (nc_option (nc_list nc_byte))))))))"

lemma event_codec_ok: "nc_ok nc_event"
proof -
  have "nc_ok nc_byte" "nc_ok nc_char"
    unfolding nc_byte_def nc_char_def by (rule codecs_ok, rule codecs_ok, simp)+
  then show ?thesis
    unfolding nc_event_def by (intro codecs_ok option_codec_ok) simp_all
qed

text \<open>Numbers as bytes: as many ones, then a zero.\<close>

definition ref_bytes :: "nat list \<Rightarrow> u8 list" where
  "ref_bytes ns = concat (map (\<lambda>n. replicate n 1 @ [0]) ns)"

fun ref_numbers :: "nat \<Rightarrow> u8 list \<Rightarrow> nat list" where
  "ref_numbers n [] = []"
| "ref_numbers n (b # bs) = (if b = 0 then n # ref_numbers 0 bs else ref_numbers (Suc n) bs)"

lemma ref_numbers_run: "ref_numbers m (replicate n 1 @ 0 # bs) = (m + n) # ref_numbers 0 bs"
  by (induction n arbitrary: m) simp_all

lemma ref_numbers_bytes [simp]: "ref_numbers 0 (ref_bytes ns) = ns"
  by (induction ns) (simp_all add: ref_bytes_def ref_numbers_run)

definition ref_flatbuffers :: flatbuffers where
  "ref_flatbuffers =
     \<lparr>fb_root = (\<lambda>bs. Inr (fst (nc_dec nc_event (ref_numbers 0 bs)))),
      fb_finish = (\<lambda>r. ref_bytes (nc_enc nc_event r))\<rparr>"

lemma ref_flatbuffers_ok: "flatbuffers_ok ref_flatbuffers"
  using event_codec_ok unfolding flatbuffers_ok_def nc_ok_def
  by (metis append.right_neutral flatbuffers.select_convs fst_conv ref_flatbuffers_def ref_numbers_bytes)

section \<open>The environment\<close>

definition ref_hash_order :: hash_order where
  "ref_hash_order = \<lparr>ho_bytes = remdups, ho_kinds = remdups\<rparr>"

type_synonym ref_lmdb =
  "((u8 list \<times> u8 list) list, (u8 list \<times> unit) list, (u8 list \<times> nat) list) lmdb"

definition ref_lmdb_env ::
  "((u8 list \<times> u8 list) list, (u8 list \<times> unit) list, (u8 list \<times> nat) list) lmdb_env" where
  "ref_lmdb_env =
     \<lparr>le_bytes = ref_kv, le_unit = ref_kv, le_u64 = ref_kv, le_fb = ref_flatbuffers,
      le_hash = ref_hash_order, le_ext = ref_externals,
      le_options = \<lparr>lo_process_nip62 = True, lo_process_nip09 = True, lo_relay_url = None\<rparr>\<rparr>"

definition ref_contents ::
  "((u8 list \<times> u8 list) list, (u8 list \<times> unit) list, (u8 list \<times> nat) list) contents" where
  "ref_contents = \<lparr>cn_bytes = map_of, cn_unit = map_of, cn_u64 = map_of\<rparr>"

lemma ref_env_ok [simp]: "env_ok ref_lmdb_env ref_contents" "writable ref_lmdb_env"
  by (simp_all add: env_ok_def writable_def ref_lmdb_env_def ref_contents_def ref_kv_ok
      ref_kv_writable ref_flatbuffers_ok hash_order_ok_def ref_hash_order_def)

definition ref_empty_lmdb :: ref_lmdb where
  "ref_empty_lmdb =
     \<lparr>lm_events = [], lm_ci = [], lm_tc = [], lm_ac = [], lm_akc = [], lm_atc = [], lm_kc = [],
      lm_ktc = [], lm_deleted_ids = [], lm_deleted_ids_by_author = [], lm_deleted_coordinates = [],
      lm_vanished_public_keys = [], lm_metadata = []\<rparr>"

definition ref_empty_view :: lmdb_view where
  "ref_empty_view = view ref_contents ref_empty_lmdb"

lemma ref_empty_stores [simp]: "stores ref_lmdb_env ref_contents {} ref_empty_view ref_empty_lmdb"
  by (simp add: stores_def ref_empty_view_def marks_agree_def tables_ok_def events_ok_def index_ok_def
      view_def ref_contents_def ref_empty_lmdb_def)

end
