(* ===== verification/Lmdb_Properties.thy ===== *)
theory Lmdb_Properties
  imports Lmdb_Reference
begin

text \<open>
  The properties of the LMDB store: queries against a scan of all events, counting, saving against
  its specification and what follows from it, recovery by reindexing, and batches.
\<close>

section \<open>Reference states\<close>

definition ref_stored_note :: event where
  "ref_stored_note = ref_note\<lparr>ev_sig := replicate 64 0\<rparr>"

definition ref_stored_deletion :: event where
  "ref_stored_deletion =
     \<lparr>ev_id = ref_id 5, ev_pubkey = ref_pk 2, ev_created_at = 200, ev_kind = EventDeletion,
      ev_tags = [[''e'', event_id_to_hex ref_externals (ref_id 1)]], ev_content = [],
      ev_sig = replicate 64 0\<rparr>"

lemma ref_all_255: "replicate 32 (b :: u8) \<noteq> EVENT_ID_ALL_255 \<longleftrightarrow> b \<noteq> 255"
  by (simp add: EVENT_ID_ALL_255_def numeral_eq_Suc)

lemma ref_env_simps [simp]:
  "le_ext ref_lmdb_env = ref_externals" "le_hash ref_lmdb_env = ref_hash_order"
  "le_options ref_lmdb_env = \<lparr>lo_process_nip62 = True, lo_process_nip09 = True, lo_relay_url = None\<rparr>"
  by (simp_all add: ref_lmdb_env_def)

lemma ref_ids:
  "tags_event_ids ref_externals [[''e'', event_id_to_hex ref_externals (ref_id b)]] = [ref_id b]"
  using event_id_from_to_hex [OF ref_hex_ok ref_wf(2), of b]
  by (simp add: tags_event_ids_def tag_kind_def tag_content_def ok_of_def)

lemma ref_kinds [simp]:
  "\<not> is_replaceable TextNote" "\<not> is_replaceable EventDeletion" "\<not> is_addressable TextNote"
  "\<not> is_addressable EventDeletion" "\<not> is_ephemeral TextNote" "\<not> is_ephemeral EventDeletion"
  "from_u16 1 = TextNote" "from_u16 5 = EventDeletion"
  by (simp_all add: is_replaceable_def is_addressable_def is_ephemeral_def replaceable_range_def
      addressable_range_def ephemeral_range_def in_range_def word_le_nat_alt from_u16_def kind_table_def)

lemma ref_storable [simp]: "storable ref_lmdb_env ref_stored_note" "storable ref_lmdb_env ref_stored_deletion"
  by (simp_all add: storable_def ref_stored_note_def ref_stored_deletion_def ref_note_def event_wf_def
      de_ok_def de_of_event_def canonical_def tag_ok_def ref_all_255 u64_max_def event_coordinate_def
      ref_id_def ref_pk_def wf_event_id_def wf_public_key_def tags_coordinates_def tag_kind_def)

lemma ref_empty_marks [simp]:
  "vw_deleted ref_empty_view = Map.empty" "vw_by_author ref_empty_view = Map.empty"
  "vw_vanished ref_empty_view = Map.empty" "vw_coordinates ref_empty_view = Map.empty"
  by (simp_all add: ref_empty_view_def view_def ref_contents_def ref_empty_lmdb_def)

lemma ref_consistent [simp]: "consistent {} ref_empty_view" "consistent {d} ref_empty_view"
  by (simp_all add: consistent_def unique_versions_def)

lemma ref_note_kind [simp]: "ev_kind ref_stored_note = TextNote" "ev_kind ref_stored_deletion = EventDeletion"
  by (simp_all add: ref_stored_note_def ref_note_def ref_stored_deletion_def)

lemma ref_note_status:
  "lmdb_save_status ref_lmdb_env {} ref_empty_view ref_stored_note = Success"
  "saved_events ref_lmdb_env {} ref_empty_view ref_stored_note = {de_of_event ref_stored_note}"
  "saved_marks ref_lmdb_env {} ref_empty_view ref_stored_note = ref_empty_view"
proof -
  have r: "lmdb_reason ref_lmdb_env {} ref_empty_view ref_stored_note = None"
    by (simp add: lmdb_reason_def retained_deletion_def event_coordinate_def)
  have k: "\<not> is_deletion ref_lmdb_env ref_stored_note" "\<not> is_vanish ref_lmdb_env ref_stored_note"
    by (simp_all add: is_deletion_def is_vanish_def kind_eq_def)
  show st: "lmdb_save_status ref_lmdb_env {} ref_empty_view ref_stored_note = Success"
    using r k by (simp add: lmdb_save_status_def superseded_def replaceable_versions_def addressable_versions_def)
  show "saved_events ref_lmdb_env {} ref_empty_view ref_stored_note = {de_of_event ref_stored_note}"
    "saved_marks ref_lmdb_env {} ref_empty_view ref_stored_note = ref_empty_view"
    using st r k by (simp_all add: saved_events_def saved_marks_def)
qed

text \<open>The store that has the note only.\<close>

lemma ref_note_stored:
  "\<exists>db. save_event_with_txn ref_lmdb_env ref_stored_note ref_empty_lmdb = (Inr Success, db) \<and>
     stores ref_lmdb_env ref_contents {de_of_event ref_stored_note} ref_empty_view db"
proof -
  have tx: "tx_env True ref_lmdb_env ref_contents" by (simp add: tx_env_def)
  have "unique_versions {}" by (simp add: unique_versions_def)
  from holds_total [OF stores_save [OF tx ref_storable(1) this] TrueI ref_empty_stores]
  show ?thesis by (simp add: ref_note_status)
qed

definition ref_author_query :: filter where
  "ref_author_query = filter_new\<lparr>fl_authors := Some [ref_pk 2], fl_limit := Some 1\<rparr>"

section \<open>Queries\<close>



text \<open>
  C29: Whatever the filter, a query succeeds and returns stored events that match it, newest first and
  without duplicates, and not more of them than the limit.
\<close>

theorem lmdb_query_sound:
  assumes "env_ok D C" and "stores D C E w db" and "consistent E w" and "card E \<le> usize_max"
    and "stored_filter_ok f"
  shows "\<exists>ds. lmdb_query D f db = Inr ds \<and> bts_ok de_key ds \<and>
    (\<forall>d \<in> set ds. d \<in> E \<and> df_match_event (df_of_filter (le_hash D) f) d) \<and>
    (\<forall>l. fl_limit f = Some l \<longrightarrow> length ds \<le> l)"
proof -
  have "tables_ok (le_fb D) E (view C db)" using assms(2) by (simp add: stores_def)
  from lmdb_query_sound_result [OF assms(1) this _ assms(5,4)] assms(3)
  show ?thesis by (auto simp: consistent_def matching_def)
qed

definition ref_id_query :: filter where
  "ref_id_query = filter_new\<lparr>fl_ids := Some [ref_id 1, ref_id 7], fl_limit := Some 1\<rparr>"

lemma ref_id_query_ok [simp]: "stored_filter_ok ref_id_query"
  by (simp add: ref_id_query_def stored_filter_ok_def filter_new_def since_of_def until_of_def)

theorem lmdb_query_sound_witness:
  "\<exists>db ds. save_event_with_txn ref_lmdb_env ref_stored_note ref_empty_lmdb = (Inr Success, db) \<and>
     lmdb_query ref_lmdb_env ref_id_query db = Inr ds \<and> length ds \<le> 1 \<and>
     set ds \<subseteq> {de_of_event ref_stored_note}"
proof -
  obtain db where db: "save_event_with_txn ref_lmdb_env ref_stored_note ref_empty_lmdb = (Inr Success, db)"
      "stores ref_lmdb_env ref_contents {de_of_event ref_stored_note} ref_empty_view db"
    using ref_note_stored by blast
  show ?thesis
    using db(1) lmdb_query_sound [OF ref_env_ok(1) db(2) ref_consistent(2) _ ref_id_query_ok]
    by (auto simp: usize_max_def ref_id_query_def)
qed

text \<open>
  C31: The count of a filter is the number of events that its query returns, also where the store
  counts without reading the events: all events, or the entries between two times.
\<close>

theorem lmdb_count_is_query:
  assumes "env_ok D C" and "stores D C E w db" and "consistent E w" and "card E \<le> usize_max"
    and "stored_filter_ok f"
  shows "lmdb_count D f db = rbind (lmdb_query D f db) (\<lambda>ds. Inr (length ds))"
proof -
  have "tables_ok (le_fb D) E (view C db)" using assms(2) by (simp add: stores_def)
  from lmdb_count_spec [OF assms(1) this _ assms(5,4)] assms(3) show ?thesis
    by (simp add: consistent_def)
qed

theorem lmdb_count_is_query_witness:
  "\<exists>db. save_event_with_txn ref_lmdb_env ref_stored_note ref_empty_lmdb = (Inr Success, db) \<and>
     lmdb_count ref_lmdb_env (filter_new\<lparr>fl_since := Some 50\<rparr>) db =
     rbind (lmdb_query ref_lmdb_env (filter_new\<lparr>fl_since := Some 50\<rparr>) db) (\<lambda>ds. Inr (length ds))"
proof -
  obtain db where db: "save_event_with_txn ref_lmdb_env ref_stored_note ref_empty_lmdb = (Inr Success, db)"
      "stores ref_lmdb_env ref_contents {de_of_event ref_stored_note} ref_empty_view db"
    using ref_note_stored by blast
  have "stored_filter_ok (filter_new\<lparr>fl_since := Some 50\<rparr>)"
    by (simp add: stored_filter_ok_def filter_new_def since_of_def until_of_def u64_max_def)
  from db(1) lmdb_count_is_query [OF ref_env_ok(1) db(2) ref_consistent(2) _ this]
  show ?thesis by (auto simp: usize_max_def)
qed

section \<open>Saving\<close>

text \<open>
  C3: Saving an event does exactly what its specification says, if no write fails: the status is the
  first reason against the event, and a saved event replaces its older versions, removes what it
  deletes or vanishes, and is stored with the marks of the deletion. Nothing is changed by an event
  that is refused, except the mark of an id that its author had deleted before.
\<close>

theorem lmdb_save_refines:
  assumes "env_ok D C" and "writable D" and "stores D C E w db" and "consistent E w"
    and "card E \<le> usize_max" and "storable D e"
  shows "\<exists>db'. save_event_with_txn D e db = (Inr (lmdb_save_status D E w e), db') \<and>
    stores D C (saved_events D E w e) (saved_marks D E w e) db'"
proof -
  have tx: "tx_env True D C" using assms(1,2) by (simp add: tx_env_def)
  have "finite E" using assms(3) by (simp add: stores_def tables_ok_def)
  from holds_total [OF stores_save [OF tx assms(6) _ this assms(5)] TrueI assms(3)] assms(4)
  show ?thesis by (auto simp: consistent_def)
qed

theorem lmdb_save_refines_witness:
  "\<exists>db. save_event_with_txn ref_lmdb_env ref_stored_note ref_empty_lmdb = (Inr Success, db) \<and>
     stores ref_lmdb_env ref_contents {de_of_event ref_stored_note} ref_empty_view db"
  using lmdb_save_refines [OF ref_env_ok ref_empty_stores ref_consistent(1) _ ref_storable(1)]
  by (simp add: ref_note_status)

text \<open>
  C9: Saving an event keeps the database consistent, also when a later write of the batch fails: the
  indexes have exactly the keys of the stored events, a replaceable kind has one event of an
  author, no event with a deleted id is stored, and of a vanished key only requests to vanish.
\<close>

theorem lmdb_save_keeps_consistent:
  assumes "env_ok D C" and "stores D C E w db" and "consistent E w" and "card E \<le> usize_max"
    and "storable D e" and "save_event_with_txn D e db = (Inr st, db')"
  shows "\<exists>E' w'. stores D C E' w' db' \<and> consistent E' w' \<and> (st \<noteq> Success \<longrightarrow> E' = E)"
proof -
  have tx: "tx_env False D C" using assms(1) by (simp add: tx_env_def)
  have fin: "finite E" "unique_versions E"
    using assms(2,3) by (simp_all add: stores_def tables_ok_def consistent_def)
  from holds_success [OF stores_save [OF tx assms(5) fin(2,1) assms(4)] assms(2,6)]
  have "st = lmdb_save_status D E w e" "stores D C (saved_events D E w e) (saved_marks D E w e) db'" by simp_all
  then show ?thesis using saved_consistent [OF assms(5,3)] not_saved(1) by blast
qed

theorem lmdb_save_keeps_consistent_witness:
  "\<exists>db E w. save_event_with_txn ref_lmdb_env ref_stored_note ref_empty_lmdb = (Inr Success, db) \<and>
     stores ref_lmdb_env ref_contents E w db \<and> consistent E w"
proof -
  obtain db where db: "save_event_with_txn ref_lmdb_env ref_stored_note ref_empty_lmdb = (Inr Success, db)"
    using ref_note_stored by blast
  from db lmdb_save_keeps_consistent [OF ref_env_ok(1) ref_empty_stores ref_consistent(1) _ ref_storable(1) db]
  show ?thesis by auto
qed




lemma ref_deletion_status:
  "lmdb_save_status ref_lmdb_env {de_of_event ref_stored_note} ref_empty_view ref_stored_deletion = Success"
proof -
  let ?E = "{de_of_event ref_stored_note}"
  have new: "eid_bytes (ev_id ref_stored_deletion) \<notin> de_id ` ?E"
    by (simp add: de_of_event_def ref_stored_deletion_def ref_stored_note_def ref_note_def ref_id_def)
  have r: "lmdb_reason ref_lmdb_env ?E ref_empty_view ref_stored_deletion = None"
    using new by (simp add: lmdb_reason_def retained_deletion_def event_coordinate_def)
  have "ev_tags ref_stored_deletion = [[''e'', event_id_to_hex ref_externals (ref_id 1)]]"
    by (simp add: ref_stored_deletion_def)
  moreover have "de_pubkey (de_of_event ref_stored_note) = pk_bytes (ev_pubkey ref_stored_deletion)"
    by (simp add: de_of_event_def ref_stored_note_def ref_note_def ref_stored_deletion_def)
  ultimately have "\<not> invalid_deletion ref_externals ?E ref_stored_deletion"
    by (simp add: invalid_deletion_def tags_coordinates_def tag_kind_def)
  then show ?thesis
    using r by (simp add: lmdb_save_status_def superseded_def replaceable_versions_def addressable_versions_def)
qed


end
