(* ===== verification/Lmdb_Batches.thy ===== *)
theory Lmdb_Batches
  imports Lmdb_Properties
begin

text \<open>
  The properties of the LMDB store that concern batches of operations, recovery by reindexing, the
  events that the store hands out and the identifiers of addressable events.
\<close>

section \<open>Batches\<close>

lemma abort_iff:
  "abort_on_error r \<longleftrightarrow> (\<exists>e c. r = ResSave (Inl e) c \<or> r = ResDelete (Inl e) c)"
  by (cases r rule: abort_on_error.cases) auto

lemma no_abort:
  "(\<forall>r \<in> set rs. \<not> abort_on_error r) \<longleftrightarrow>
     (\<forall>e c. ResSave (Inl e) c \<notin> set rs \<and> ResDelete (Inl e) c \<notin> set rs)"
  by (auto simp: abort_iff)


definition ref_ok_transaction :: transaction_outcome where
  "ref_ok_transaction = \<lparr>tr_write_txn = Inr (), tr_commit = Inr ()\<rparr>"

definition ref_lost_transaction :: transaction_outcome where
  "ref_lost_transaction = \<lparr>tr_write_txn = Inr (), tr_commit = Inl (ErrHeed ''disk full'')\<rparr>"


text \<open>
  C28: If no write fails, a batch does what its operations do one after the other: each save, delete,
  wipe and reindex sees the effect of those before it, is answered with its own outcome, and the
  database that is committed is the one after the last.
\<close>

theorem lmdb_batch_in_order:
  assumes "env_ok D C" and "writable D" and "stores D C E w db" and "consistent E w"
    and "card E + length batch \<le> usize_max" and "\<forall>x \<in> set batch. operation_ok D x"
    and "tr_write_txn tr = Inr ()" and "tr_commit tr = Inr ()"
    and "batch_steps D batch (E, w) = (results, E', w')"
  shows "\<exists>db'. process_batch_in_transaction D tr batch db = (results, db') \<and> stores D C E' w' db'"
proof -
  have "\<And>x. x \<in> set batch \<Longrightarrow> operation_ok D x" using assms(6) by blast
  from process_items_steps [OF assms(1,2) this assms(3) _ assms(5,9), of "[]"] assms(4)
  show ?thesis using assms(7,8) by (auto simp: process_batch_in_transaction_def consistent_def)
qed

theorem lmdb_batch_in_order_witness:
  "\<exists>db. process_batch_in_transaction ref_lmdb_env ref_ok_transaction
       [save_event_with_feedback ref_stored_note (1 :: nat), wipe_with_feedback 2] ref_empty_lmdb =
       ([ResSave (Inr Success) (Some 1), ResWipe (Inr ()) (Some 2)], db) \<and>
     stores ref_lmdb_env ref_contents {} (no_marks ref_empty_view) db"
  by (rule lmdb_batch_in_order [OF ref_env_ok ref_empty_stores ref_consistent(1)])
    (simp_all add: usize_max_def save_event_with_feedback_def wipe_with_feedback_def ref_ok_transaction_def
      ref_note_status)

section \<open>Recovery\<close>

text \<open>
  C30: Reindexing repairs the database from the table of events: whatever the indexes had before,
  afterwards they have exactly the keys of the stored events. The marks of deletions and of
  vanished keys are lost.
\<close>

theorem lmdb_reindex_repairs:
  assumes "env_ok D C" and "writable D" and "events_intact D C E db"
  shows "\<exists>db'. reindex D db = (Inr (), db') \<and> stores D C E (no_marks (view C db)) db'"
proof -
  have tx: "tx_env True D C" using assms(1,2) by (simp add: tx_env_def)
  have "events_intact D C E db \<and> marks_agree (view C db) (view C db)"
    using assms(3) by (simp add: marks_agree_def)
  from holds_total [OF stores_reindex [OF tx] TrueI this] show ?thesis by auto
qed

theorem lmdb_reindex_repairs_witness:
  "\<exists>db db'. save_event_with_txn ref_lmdb_env ref_stored_note ref_empty_lmdb = (Inr Success, db) \<and>
     reindex ref_lmdb_env (db\<lparr>lm_ci := [], lm_ac := [([0], [0])]\<rparr>) = (Inr (), db') \<and>
     (\<exists>w. stores ref_lmdb_env ref_contents {de_of_event ref_stored_note} w db')"
proof -
  obtain db where db: "save_event_with_txn ref_lmdb_env ref_stored_note ref_empty_lmdb = (Inr Success, db)"
      "stores ref_lmdb_env ref_contents {de_of_event ref_stored_note} ref_empty_view db"
    using ref_note_stored by blast
  have "events_intact ref_lmdb_env ref_contents {de_of_event ref_stored_note}
      (db\<lparr>lm_ci := [], lm_ac := [([0], [0])]\<rparr>)"
    using db(2) by (simp add: stores_def tables_ok_def events_intact_def view_def)
  from lmdb_reindex_repairs [OF ref_env_ok this] db(1) show ?thesis by blast
qed

section \<open>The events that the store hands out\<close>

text \<open>
  Every event that the store hands out for an id has that id and is well formed: 32 bytes of id
  and key, a kind in its canonical form, no empty tag, a time of 64 bits. The encoding in the
  database loses nothing of an event.
\<close>

lemma lmdb_event_well_formed:
  assumes "env_ok D C" and "stores D C E w db" and "wf_event_id i"
    and "store_get_event_by_id D t i db = Inr (Some e)"
  shows "event_wf e \<and> ev_id e = i \<and> length (ev_sig e) = 64 \<and> de_of_event e \<in> E"
proof -
  have tables: "tables_ok (le_fb D) E (view C db)" using assms(2) by (simp add: stores_def)
  have "get_event_by_id D (eid_bytes i) db = Inr (event_with E (eid_bytes i))"
    using get_event [OF assms(1) tables] assms(3) by (simp add: wf_event_id_def)
  then obtain d where d: "event_with E (eid_bytes i) = Some d" "e = into_owned d"
    using assms(4) by (auto simp: store_get_event_by_id_def in_read_txn_def rbind_Inr)
  then have E: "d \<in> E" "de_id d = eid_bytes i"
    using event_with_Some [OF tables_okD(3) [OF tables]] by auto
  then have ok: "de_ok d" using tables_okD(2) [OF tables] by blast
  have "de_of_event (into_owned d) = d" by (simp add: de_of_event_def into_owned_def)
  moreover have "ev_id e = i" using E(2) d(2) by (simp add: into_owned_def)
  ultimately show ?thesis
    using ok E(1) d(2) assms(3)
    by (simp add: event_wf_def into_owned_def de_ok_def wf_event_id_def wf_public_key_def)
qed

theorem lmdb_event_well_formed_witness:
  "\<exists>db e. save_event_with_txn ref_lmdb_env ref_stored_note ref_empty_lmdb = (Inr Success, db) \<and>
     store_get_event_by_id ref_lmdb_env \<lparr>rd_txn = Inr (), rd_commit = Inr ()\<rparr> (ref_id 1) db = Inr (Some e) \<and>
     event_wf e \<and> ev_id e = ref_id 1"
proof -
  obtain db where db: "save_event_with_txn ref_lmdb_env ref_stored_note ref_empty_lmdb = (Inr Success, db)"
      "stores ref_lmdb_env ref_contents {de_of_event ref_stored_note} ref_empty_view db"
    using ref_note_stored by blast
  then have t: "tables_ok (le_fb ref_lmdb_env) {de_of_event ref_stored_note} (view ref_contents db)"
    by (simp add: stores_def)
  have "eid_bytes (ref_id 1) = de_id (de_of_event ref_stored_note)"
    by (simp add: de_of_event_def ref_stored_note_def ref_note_def)
  then have g: "store_get_event_by_id ref_lmdb_env \<lparr>rd_txn = Inr (), rd_commit = Inr ()\<rparr> (ref_id 1) db =
      Inr (Some (into_owned (de_of_event ref_stored_note)))"
    using get_event_present [OF ref_env_ok(1) t] by (simp add: store_get_event_by_id_def in_read_txn_def)
  from db(1) g lmdb_event_well_formed [OF ref_env_ok(1) db(2) ref_wf(2) g] show ?thesis by blast
qed

section \<open>Identifiers of addressable events\<close>

lemma pad_value_take:
  "pad_value v = bytes_of (take 182 v) @ replicate (182 - length (take 182 v)) 0"
  by (cases "length v \<le> 182")
    (simp_all add: pad_value_def extend_key_with_tag_value_def TAG_VALUE_PAD_LEN_def Let_def
      bytes_of_def take_map)

lemma pad_value_cut: "take 182 i = take 182 j \<Longrightarrow> pad_value i = pad_value j"
  by (simp only: pad_value_take)

text \<open>
  Saving an addressable event also removes the stored events of its author and kind that have a
  different identifier with the same first 182 bytes: the index keys are cut there and the
  identifiers are not compared.
\<close>

lemma lmdb_identifiers_collide:
  assumes "env_ok D C" and "stores D C E w db" and "consistent E w" and "card E \<le> usize_max"
    and "storable D e" and "save_event_with_txn D e db = (Inr Success, db')"
    and "is_addressable (ev_kind e)" and "tags_identifier (le_ext D) (ev_tags e) = Some j"
    and "d \<in> E" and "de_pubkey d = pk_bytes (ev_pubkey e)" and "de_kind d = as_u16 (ev_kind e)"
    and "(slt_d, i) \<in> set (single_tags d)" and "take 182 i = take 182 j"
  shows "get_event_by_id D (de_id d) db' = Inr None"
proof -
  have tx: "tx_env False D C" using assms(1) by (simp add: tx_env_def)
  have tables: "tables_ok (le_fb D) E (view C db)" using assms(2) by (simp add: stores_def)
  have fin: "finite E" "unique_versions E"
    using tables_okD(1) [OF tables] assms(3) by (simp_all add: consistent_def)
  from holds_success [OF stores_save [OF tx assms(5) fin(2,1) assms(4)] assms(2,6)]
  have st: "lmdb_save_status D E w e = Success"
    and t: "tables_ok (le_fb D) (saved_events D E w e) (view C db')" by (simp_all add: stores_def)
  have "d \<in> addressable_versions (le_ext D) E e"
    using assms(7-12) pad_value_cut [OF assms(13)]
    by (auto simp: addressable_versions_def versions_of_def own_coordinate_def coordinate_new_def)
  then have "d \<in> lmdb_removed D E e" by (simp add: lmdb_removed_def)
  moreover have "de_id d \<noteq> eid_bytes (ev_id e)"
    using accepted(1) [OF success_accepted [OF st]] assms(9) by (metis imageI)
  ultimately have "de_id d \<notin> de_id ` saved_events D E w e"
    using st assms(9) inj_onD [OF tables_okD(3) [OF tables]]
    by (auto simp: saved_events_def de_of_event_simps)
  moreover have "length (de_id d) = 32" using tables_okD(2) [OF tables assms(9)] by (simp add: de_ok_def)
  ultimately show ?thesis using get_event_absent [OF assms(1) t] by simp
qed

definition ref_long :: "char \<Rightarrow> u8 \<Rightarrow> timestamp \<Rightarrow> event" where
  "ref_long c b t =
     \<lparr>ev_id = ref_id b, ev_pubkey = ref_pk 2, ev_created_at = t, ev_kind = Named 30023,
      ev_tags = [[''d'', replicate 182 CHR ''a'' @ [c]]], ev_content = [], ev_sig = replicate 64 0\<rparr>"

lemma ref_long_kind [simp]:
  "\<not> is_replaceable (Named 30023)" "is_addressable (Named 30023)" "\<not> is_ephemeral (Named 30023)"
  "from_u16 30023 = Named 30023"
  by (simp_all add: is_replaceable_def is_addressable_def is_ephemeral_def replaceable_range_def
      addressable_range_def ephemeral_range_def in_range_def word_le_nat_alt word_less_nat_alt from_u16_def
      kind_table_def)

lemma ref_long_identifier: "tags_identifier ref_externals [[''d'', s]] = Some s"
  by (simp add: tags_identifier_def nip01_parse_def take_string_def)

lemma ref_long_tags: "single_tags (de_of_event (ref_long c b t)) = [(slt_d, replicate 182 CHR ''a'' @ [c])]"
  by (simp add: single_tags_def de_of_event_def ref_long_def List.map_filter_def db_tag_extract_def slt_from_d)

lemma ref_long_storable:
  assumes "b \<noteq> 255" and "t \<le> u64_max"
  shows "storable ref_lmdb_env (ref_long c b t)"
proof -
  have key: "key_valid (make_coordinate_index_key
      \<lparr>co_kind = Named 30023, co_public_key = ref_pk 2, co_identifier = replicate 182 CHR ''a'' @ [c]\<rparr>)"
    by (simp add: key_valid_def make_coordinate_index_key_def extend_key_with_tag_value_def Let_def
        TAG_VALUE_PAD_LEN_def bytes_of_def ref_pk_def)
  then show ?thesis
    using assms
    by (simp add: storable_def ref_long_def event_wf_def de_ok_def de_of_event_def canonical_def tag_ok_def
        event_coordinate_def ref_long_identifier tags_coordinates_def tag_kind_def)
      (simp add: ref_id_def ref_pk_def ref_all_255)
qed

lemma ref_long_status:
  assumes "\<forall>d \<in> E. de_created_at d < t \<and> de_id d \<noteq> replicate 32 b"
  shows "lmdb_save_status ref_lmdb_env E ref_empty_view (ref_long c b t) = Success"
proof -
  have "lmdb_reason ref_lmdb_env E ref_empty_view (ref_long c b t) = None"
    using assms by (auto simp: lmdb_reason_def retained_deletion_def ref_long_def ref_id_def split: option.split)
  moreover have "\<not> superseded (addressable_versions ref_externals E (ref_long c b t)) (ref_long c b t)"
    using assms by (fastforce simp: superseded_def addressable_versions_def versions_of_def de_key_less
        de_of_event_simps ref_long_def split: option.splits)
  ultimately show ?thesis
    by (simp add: lmdb_save_status_def superseded_def replaceable_versions_def is_deletion_def kind_eq_def
        ref_long_def)
qed

theorem lmdb_identifiers_collide_witness:
  "\<exists>db db'. save_event_with_txn ref_lmdb_env (ref_long CHR ''x'' 1 100) ref_empty_lmdb = (Inr Success, db) \<and>
     save_event_with_txn ref_lmdb_env (ref_long CHR ''y'' 2 200) db = (Inr Success, db') \<and>
     get_event_by_id ref_lmdb_env (replicate 32 1) db' = Inr None"
proof -
  let ?e = "ref_long CHR ''x'' 1 100" and ?f = "ref_long CHR ''y'' 2 200"
  let ?E = "{de_of_event ?e}"
  have tx: "tx_env True ref_lmdb_env ref_contents" by (simp add: tx_env_def)
  have e: "storable ref_lmdb_env ?e" and f: "storable ref_lmdb_env ?f"
    by (simp_all add: ref_long_storable u64_max_def)
  have "unique_versions {}" by (simp add: unique_versions_def)
  from holds_total [OF stores_save [OF tx e this] TrueI ref_empty_stores]
  obtain db where db: "save_event_with_txn ref_lmdb_env ?e ref_empty_lmdb = (Inr Success, db)"
      "stores ref_lmdb_env ref_contents (saved_events ref_lmdb_env {} ref_empty_view ?e)
        (saved_marks ref_lmdb_env {} ref_empty_view ?e) db"
    by (auto simp: ref_long_status)
  have E: "saved_events ref_lmdb_env {} ref_empty_view ?e = ?E"
    by (simp add: saved_events_def ref_long_status)
  have w: "saved_marks ref_lmdb_env {} ref_empty_view ?e = ref_empty_view"
    using success_accepted [OF ref_long_status [of "{}" 100 1 "CHR ''x''"]]
    by (simp add: saved_marks_def ref_long_status is_deletion_def is_vanish_def kind_eq_def ref_long_def)
  note s = db(2) [unfolded E w]
  have fresh: "\<forall>d \<in> ?E. de_created_at d < 200 \<and> de_id d \<noteq> replicate 32 2"
    by (simp add: de_of_event_simps ref_long_def ref_id_def)
  have small: "card ?E \<le> usize_max" by (simp add: usize_max_def)
  have "unique_versions ?E" by (simp add: unique_versions_def)
  from holds_total [OF stores_save [OF tx f this _ small] TrueI s]
  obtain db' where db': "save_event_with_txn ref_lmdb_env ?f db = (Inr Success, db')"
    by (auto simp: ref_long_status [OF fresh])
  have "get_event_by_id ref_lmdb_env (de_id (de_of_event ?e)) db' = Inr None"
    by (rule lmdb_identifiers_collide [OF ref_env_ok(1) s ref_consistent(2) small f db', where
          i = "replicate 182 CHR ''a'' @ ''x''" and j = "replicate 182 CHR ''a'' @ ''y''"])
      (simp_all add: ref_long_tags ref_long_identifier de_of_event_simps, simp_all add: ref_long_def ref_long_identifier)
  then show ?thesis using db(1) db' by (auto simp: de_of_event_simps ref_long_def ref_id_def)
qed

end
