(* ===== verification/Nostr_Secrets.thy ===== *)
theory Nostr_Secrets
  imports Nostr_Keys Nostr_Bytes
begin

text \<open>
  Secret keys (nostr/src/key/secret_key.rs), the shared key of two parties
  (\<open>generate_shared_key\<close> in nostr/src/util/mod.rs) and the key derivation HKDF
  (nostr/src/util/hkdf.rs). The curve and the hash function are external: the record \<open>crypto\<close>
  has the functions the code calls.
\<close>

section \<open>External cryptography\<close>

text \<open>
  \<open>valid_secret\<close> accepts the byte strings that are scalars of the curve; \<open>ecdh_point\<close> multiplies the
  point of a compressed public key, which need not be on the curve, with a secret key;
  \<open>chacha20\<close> is the key stream of a key and a nonce.
\<close>

record crypto =
  valid_secret :: "u8 list \<Rightarrow> bool"
  ecdh_point :: "u8 list \<Rightarrow> u8 list \<Rightarrow> u8 list option"
  hmac_sha256 :: "u8 list \<Rightarrow> u8 list \<Rightarrow> u8 list"
  chacha20 :: "u8 list \<Rightarrow> u8 list \<Rightarrow> nat \<Rightarrow> u8"

text \<open>The sizes of secret keys and of the output of the hash function.\<close>

definition crypto_ok :: "crypto \<Rightarrow> bool" where
  "crypto_ok X \<longleftrightarrow>
     (\<forall>bs. valid_secret X bs \<longrightarrow> length bs = 32) \<and> (\<forall>k m. length (hmac_sha256 X k m) = 32)"

section \<open>Secret keys\<close>

datatype secret_key = SecretKey (sk_bytes: "u8 list")

definition wf_secret_key :: "crypto \<Rightarrow> secret_key \<Rightarrow> bool" where
  "wf_secret_key X k \<longleftrightarrow> valid_secret X (sk_bytes k)"

definition secret_key_from_slice :: "crypto \<Rightarrow> u8 list \<Rightarrow> secret_key res" where
  "secret_key_from_slice X bs = (if valid_secret X bs then Inr (SecretKey bs) else Inl Malformed)"

definition generate_shared_key :: "crypto \<Rightarrow> secret_key \<Rightarrow> public_key \<Rightarrow> u8 list res" where
  "generate_shared_key X sk pk =
     rbind (ok_or (ecdh_point X (2 # pk_bytes pk) (sk_bytes sk)) Invalid) (\<lambda>ssp. Inr (take 32 ssp))"

section \<open>HKDF\<close>

definition hkdf_extract :: "crypto \<Rightarrow> u8 list \<Rightarrow> u8 list \<Rightarrow> u8 list" where
  "hkdf_extract X salt input_key_material = hmac_sha256 X salt input_key_material"

text \<open>
  The loop fills the output block by block; it runs while bytes are missing. \<open>counter\<close> is a byte.
  An output of more than 255 blocks, for which the counter overflows, is excluded by the caller.
\<close>

function hkdf_blocks ::
  "crypto \<Rightarrow> u8 list \<Rightarrow> u8 list \<Rightarrow> nat \<Rightarrow> u8 list \<Rightarrow> nat \<Rightarrow> u8 \<Rightarrow> u8 list" where
  "hkdf_blocks X prk info n prev written counter =
     (if n \<le> written then []
      else (let prev = hmac_sha256 X prk ((if written > 0 then prev else []) @ info @ [counter]);
                t = min (n - written) 32
            in take t prev @ hkdf_blocks X prk info n prev (written + t) (counter + 1)))"
  by pat_completeness auto
termination
  by (relation "measure (\<lambda>(X, prk, info, n, prev, written, counter). n - written)") auto

declare hkdf_blocks.simps [simp del]

definition hkdf_expand_into :: "crypto \<Rightarrow> u8 list \<Rightarrow> u8 list \<Rightarrow> nat \<Rightarrow> u8 list" where
  "hkdf_expand_into X prk info n = hkdf_blocks X prk info n (replicate 32 0) 0 1"

lemma length_hkdf_blocks:
  "crypto_ok X \<Longrightarrow> length (hkdf_blocks X prk info n prev written counter) = n - written"
proof (induction X prk info n prev written counter rule: hkdf_blocks.induct)
  case (1 X prk info n prev written counter)
  then show ?case
    by (subst hkdf_blocks.simps) (auto simp: Let_def crypto_ok_def)
qed

lemma length_hkdf: "crypto_ok X \<Longrightarrow> length (hkdf_expand_into X prk info n) = n"
  by (simp add: hkdf_expand_into_def length_hkdf_blocks)

lemma take_take_append: "k \<le> t \<Longrightarrow> t \<le> length p \<Longrightarrow> take k (take t p @ r) = take k p"
  by (simp add: min_absorb1)

text \<open>The output for a shorter length is a prefix of the output for a longer one.\<close>

lemma hkdf_blocks_prefix:
  assumes "crypto_ok X" and "m \<le> n"
  shows "take (m - written) (hkdf_blocks X prk info n prev written counter) =
    hkdf_blocks X prk info m prev written counter"
  using assms
proof (induction X prk info n prev written counter rule: hkdf_blocks.induct)
  case (1 X prk info n prev written counter)
  let ?p = "hmac_sha256 X prk ((if written > 0 then prev else []) @ info @ [counter])"
  have len: "length ?p = 32" using 1(2) by (simp add: crypto_ok_def)
  show ?case
  proof (cases "m \<le> written")
    case False
    then have "\<not> n \<le> written" using 1(3) by simp
    let ?t = "min (n - written) 32" and ?u = "min (m - written) 32"
    have unfold: "hkdf_blocks X prk info n prev written counter =
        take ?t ?p @ hkdf_blocks X prk info n ?p (written + ?t) (counter + 1)"
      "hkdf_blocks X prk info m prev written counter =
        take ?u ?p @ hkdf_blocks X prk info m ?p (written + ?u) (counter + 1)"
      using \<open>\<not> n \<le> written\<close> False by (subst hkdf_blocks.simps, simp add: Let_def)+
    show ?thesis
    proof (cases "m - written \<le> 32")
      case True
      then have "hkdf_blocks X prk info m ?p (written + ?u) (counter + 1) = []"
        using False by (subst hkdf_blocks.simps) simp
      moreover have "?u = m - written" "m - written \<le> ?t" "?t \<le> length ?p" using True 1(3) len by auto
      ultimately show ?thesis unfolding unfold by (metis append_Nil2 take_take_append)
    next
      case big: False
      then have "?t = 32" "?u = 32" using 1(3) by simp_all
      moreover have "take (m - (written + ?t)) (hkdf_blocks X prk info n ?p (written + ?t) (counter + 1)) =
          hkdf_blocks X prk info m ?p (written + ?t) (counter + 1)"
        using 1(1) [OF \<open>\<not> n \<le> written\<close> refl refl 1(2,3)] .
      ultimately show ?thesis using unfold len big by simp
    qed
  qed (subst hkdf_blocks.simps, simp)
qed

end
