(* ===== verification/Nip19_Entities.thy ===== *)
theory Nip19_Entities
  imports Nostr_Coordinate Nostr_Secrets
begin

text \<open>
  Bech32 entities of NIP-19 (nostr/src/nips/nip19.rs) and the URIs of NIP-21
  (nostr/src/nips/nip21.rs), built without the feature \<open>nip49\<close>: keys and ids, and the entities
  whose data is a list of typed values with one byte for the length. The crate \<open>bech32\<close> is an
  argument; the case of a human-readable part is kept and ignored in comparisons.
\<close>

section \<open>Bech32\<close>

record bech32 =
  be_encode :: "string \<Rightarrow> u8 list \<Rightarrow> string option"
  be_decode :: "string \<Rightarrow> (string \<times> u8 list) option"

definition bech32_decode :: "bech32 \<Rightarrow> string \<Rightarrow> (string \<times> u8 list) res" where
  "bech32_decode B s = ok_or (be_decode B s) Malformed"

definition bech32_encode :: "bech32 \<Rightarrow> string \<Rightarrow> u8 list \<Rightarrow> string res" where
  "bech32_encode B hrp d = ok_or (be_encode B hrp d) Invalid"

definition hrp_eq :: "string \<Rightarrow> string \<Rightarrow> bool" where
  "hrp_eq a b = eq_ignore_ascii_case a b"

definition PREFIX_BECH32_SECRET_KEY :: string where "PREFIX_BECH32_SECRET_KEY = ''nsec''"
definition PREFIX_BECH32_PUBLIC_KEY :: string where "PREFIX_BECH32_PUBLIC_KEY = ''npub''"
definition PREFIX_BECH32_NOTE_ID :: string where "PREFIX_BECH32_NOTE_ID = ''note''"
definition PREFIX_BECH32_PROFILE :: string where "PREFIX_BECH32_PROFILE = ''nprofile''"
definition PREFIX_BECH32_EVENT :: string where "PREFIX_BECH32_EVENT = ''nevent''"
definition PREFIX_BECH32_COORDINATE :: string where "PREFIX_BECH32_COORDINATE = ''naddr''"

lemmas prefixes = PREFIX_BECH32_SECRET_KEY_def PREFIX_BECH32_PUBLIC_KEY_def PREFIX_BECH32_NOTE_ID_def
  PREFIX_BECH32_PROFILE_def PREFIX_BECH32_EVENT_def PREFIX_BECH32_COORDINATE_def

text \<open>
  A string of Bech32 has at most 1023 characters: the human-readable part, a separator, five bits a
  character and six characters of checksum. It is read back as it was written, and with one of
  the human-readable parts of NIP-19 it has no colon.
\<close>

definition nip19_hrps :: "string list" where
  "nip19_hrps = [PREFIX_BECH32_SECRET_KEY, PREFIX_BECH32_PUBLIC_KEY, PREFIX_BECH32_NOTE_ID,
     PREFIX_BECH32_PROFILE, PREFIX_BECH32_EVENT, PREFIX_BECH32_COORDINATE]"

definition bech32_fits :: "string \<Rightarrow> u8 list \<Rightarrow> bool" where
  "bech32_fits hrp d \<longleftrightarrow> length hrp + 7 + (8 * length d + 4) div 5 \<le> 1023"

definition bech32_ok :: "bech32 \<Rightarrow> bool" where
  "bech32_ok B \<longleftrightarrow>
     (\<forall>hrp d s. hrp \<in> set nip19_hrps \<longrightarrow> be_encode B hrp d = Some s \<longrightarrow>
        be_decode B s = Some (hrp, d) \<and> CHR '':'' \<notin> set s) \<and>
     (\<forall>hrp d. hrp \<in> set nip19_hrps \<longrightarrow> bech32_fits hrp d \<longrightarrow> (\<exists>s. be_encode B hrp d = Some s))"

lemma bech32_okD:
  assumes "bech32_ok B" and "hrp \<in> set nip19_hrps"
  shows "be_encode B hrp d = Some s \<Longrightarrow> be_decode B s = Some (hrp, d) \<and> CHR '':'' \<notin> set s"
    and "bech32_fits hrp d \<Longrightarrow> \<exists>s. be_encode B hrp d = Some s"
  using assms unfolding bech32_ok_def by blast+

lemma nip19_hrps [simp]:
  "PREFIX_BECH32_SECRET_KEY \<in> set nip19_hrps" "PREFIX_BECH32_PUBLIC_KEY \<in> set nip19_hrps"
  "PREFIX_BECH32_NOTE_ID \<in> set nip19_hrps" "PREFIX_BECH32_PROFILE \<in> set nip19_hrps"
  "PREFIX_BECH32_EVENT \<in> set nip19_hrps" "PREFIX_BECH32_COORDINATE \<in> set nip19_hrps"
  by (simp_all add: nip19_hrps_def)

datatype nip19_prefix = NSec | NPub | Note | NProfile | NEvent | NAddr

definition prefix_from_hrp :: "string \<Rightarrow> nip19_prefix res" where
  "prefix_from_hrp hrp =
     (if hrp = PREFIX_BECH32_SECRET_KEY then Inr NSec
      else if hrp = PREFIX_BECH32_PUBLIC_KEY then Inr NPub
      else if hrp = PREFIX_BECH32_NOTE_ID then Inr Note
      else if hrp = PREFIX_BECH32_PROFILE then Inr NProfile
      else if hrp = PREFIX_BECH32_EVENT then Inr NEvent
      else if hrp = PREFIX_BECH32_COORDINATE then Inr NAddr
      else Inl Invalid)"

fun prefix_len :: "nip19_prefix \<Rightarrow> nat" where
  "prefix_len NSec = length PREFIX_BECH32_SECRET_KEY"
| "prefix_len NPub = length PREFIX_BECH32_PUBLIC_KEY"
| "prefix_len Note = length PREFIX_BECH32_NOTE_ID"
| "prefix_len NProfile = length PREFIX_BECH32_PROFILE"
| "prefix_len NEvent = length PREFIX_BECH32_EVENT"
| "prefix_len NAddr = length PREFIX_BECH32_COORDINATE"

text \<open>The prefix with which a text begins.\<close>

definition prefix_from_str :: "string \<Rightarrow> nip19_prefix res" where
  "prefix_from_str value =
     (if starts_with value PREFIX_BECH32_SECRET_KEY then Inr NSec
      else if starts_with value PREFIX_BECH32_PUBLIC_KEY then Inr NPub
      else if starts_with value PREFIX_BECH32_NOTE_ID then Inr Note
      else if starts_with value PREFIX_BECH32_PROFILE then Inr NProfile
      else if starts_with value PREFIX_BECH32_EVENT then Inr NEvent
      else if starts_with value PREFIX_BECH32_COORDINATE then Inr NAddr
      else Inl Invalid)"

section \<open>Typed values\<close>

definition SPECIAL :: u8 where "SPECIAL = 0"
definition RELAY :: u8 where "RELAY = 1"
definition AUTHOR :: u8 where "AUTHOR = 2"
definition KIND :: u8 where "KIND = 3"

lemmas tlv_types = SPECIAL_def RELAY_def AUTHOR_def KIND_def

definition push_tlv :: "u8 \<Rightarrow> u8 list \<Rightarrow> u8 list \<Rightarrow> u8 list res" where
  "push_tlv typ value bytes =
     (if length value \<le> u8_max then Inr (bytes @ [typ, of_nat (length value)] @ value)
      else Inl Invalid)"

fun push_relays :: "relay_url list \<Rightarrow> u8 list \<Rightarrow> u8 list res" where
  "push_relays [] bytes = Inr bytes"
| "push_relays (r # rs) bytes =
     rbind (push_tlv RELAY (bytes_of (relay_url_as_str r)) bytes) (push_relays rs)"

text \<open>
  The loop that all entities share: a type, a length, and as many bytes. Data that ends within a
  value is malformed. \<open>field\<close> takes in one value.
\<close>

function tlv_loop :: "(u8 \<Rightarrow> u8 list \<Rightarrow> 's \<Rightarrow> 's res) \<Rightarrow> u8 list \<Rightarrow> 's \<Rightarrow> 's res" where
  "tlv_loop field [] s = Inr s"
| "tlv_loop field [t] s = Inl Malformed"
| "tlv_loop field (t # l # bytes) s =
     (if unat l \<le> length bytes then
        (case field t (take (unat l) bytes) s of
           Inl e \<Rightarrow> Inl e
         | Inr s \<Rightarrow> tlv_loop field (drop (unat l) bytes) s)
      else Inl Malformed)"
  by pat_completeness auto
termination by (relation "measure (\<lambda>(field, data, s). length data)") auto

text \<open>A kind is a 32-bit number that fits into 16 bits.\<close>

definition tlv_kind :: "u8 list \<Rightarrow> kind res" where
  "tlv_kind bytes =
     (if length bytes \<noteq> 4 then Inl Malformed
      else if be_val bytes > u16_max then Inl Malformed
      else Inr (from_u16 (of_nat (be_val bytes))))"

definition lossy_string :: "u8 list \<Rightarrow> string" where
  "lossy_string bytes = string_of_bytes (from_utf8_lossy bytes)"

section \<open>Events\<close>

record nip19_event =
  ne_event_id :: event_id
  ne_author :: "public_key option"
  ne_kind :: "kind option"
  ne_relays :: "relay_url list"

definition nip19_event_new :: "event_id \<Rightarrow> nip19_event" where
  "nip19_event_new i = \<lparr>ne_event_id = i, ne_author = None, ne_kind = None, ne_relays = []\<rparr>"

record event_fields =
  ef_id :: "event_id option"
  ef_author :: "public_key option"
  ef_kind :: "kind option"
  ef_relays :: "relay_url list"

definition event_field :: "externals \<Rightarrow> u8 \<Rightarrow> u8 list \<Rightarrow> event_fields \<Rightarrow> event_fields res" where
  "event_field x t bytes s =
     (if t = SPECIAL \<and> ef_id s = None then
        rbind (event_id_from_slice bytes) (\<lambda>i. Inr (s\<lparr>ef_id := Some i\<rparr>))
      else if t = AUTHOR \<and> ef_author s = None then
        Inr (s\<lparr>ef_author := ok_of (public_key_from_slice bytes)\<rparr>)
      else if t = RELAY then
        rbind (relay_url_parse x (lossy_string bytes)) (\<lambda>u. Inr (s\<lparr>ef_relays := ef_relays s @ [u]\<rparr>))
      else if t = KIND \<and> ef_kind s = None then
        rbind (tlv_kind bytes) (\<lambda>k. Inr (s\<lparr>ef_kind := Some k\<rparr>))
      else Inr s)"

definition nip19_event_from_data :: "externals \<Rightarrow> u8 list \<Rightarrow> nip19_event res" where
  "nip19_event_from_data x data =
     rbind (tlv_loop (event_field x) data \<lparr>ef_id = None, ef_author = None, ef_kind = None, ef_relays = []\<rparr>)
       (\<lambda>s. rbind (ok_or (ef_id s) Missing) (\<lambda>i.
          Inr \<lparr>ne_event_id = i, ne_author = ef_author s, ne_kind = ef_kind s, ne_relays = ef_relays s\<rparr>))"

definition kind_bytes :: "kind \<Rightarrow> u8 list" where
  "kind_bytes k = be_bytes 4 (unat (as_u16 k))"

definition nip19_event_data :: "nip19_event \<Rightarrow> u8 list res" where
  "nip19_event_data e =
     rbind (push_tlv SPECIAL (eid_bytes (ne_event_id e)) []) (\<lambda>bytes.
     rbind (case ne_author e of None \<Rightarrow> Inr bytes | Some a \<Rightarrow> push_tlv AUTHOR (pk_bytes a) bytes) (\<lambda>bytes.
     rbind (case ne_kind e of None \<Rightarrow> Inr bytes | Some k \<Rightarrow> push_tlv KIND (kind_bytes k) bytes) (\<lambda>bytes.
     push_relays (ne_relays e) bytes)))"

definition nip19_event_to_bech32 :: "bech32 \<Rightarrow> nip19_event \<Rightarrow> string res" where
  "nip19_event_to_bech32 B e =
     rbind (nip19_event_data e) (bech32_encode B PREFIX_BECH32_EVENT)"

section \<open>Profiles\<close>

record nip19_profile =
  np_public_key :: public_key
  np_relays :: "relay_url list"

text \<open>An invalid relay is left out.\<close>

definition push_valid_relay :: "externals \<Rightarrow> u8 list \<Rightarrow> relay_url list \<Rightarrow> relay_url list" where
  "push_valid_relay x bytes relays =
     (case relay_url_parse x (lossy_string bytes) of Inl e \<Rightarrow> relays | Inr u \<Rightarrow> relays @ [u])"

definition profile_field ::
  "externals \<Rightarrow> u8 \<Rightarrow> u8 list \<Rightarrow> public_key option \<times> relay_url list \<Rightarrow>
   (public_key option \<times> relay_url list) res" where
  "profile_field x t bytes s =
     (case s of (pk, relays) \<Rightarrow>
        if t = SPECIAL \<and> pk = None then
          rbind (public_key_from_slice bytes) (\<lambda>k. Inr (Some k, relays))
        else if t = RELAY then Inr (pk, push_valid_relay x bytes relays)
        else Inr s)"

definition nip19_profile_from_data :: "externals \<Rightarrow> u8 list \<Rightarrow> nip19_profile res" where
  "nip19_profile_from_data x data =
     rbind (tlv_loop (profile_field x) data (None, [])) (\<lambda>(pk, relays).
       rbind (ok_or pk Missing) (\<lambda>k. Inr \<lparr>np_public_key = k, np_relays = relays\<rparr>))"

definition nip19_profile_data :: "nip19_profile \<Rightarrow> u8 list res" where
  "nip19_profile_data p =
     rbind (push_tlv SPECIAL (pk_bytes (np_public_key p)) []) (push_relays (np_relays p))"

definition nip19_profile_to_bech32 :: "bech32 \<Rightarrow> nip19_profile \<Rightarrow> string res" where
  "nip19_profile_to_bech32 B p =
     rbind (nip19_profile_data p) (bech32_encode B PREFIX_BECH32_PROFILE)"

section \<open>Coordinates\<close>

record nip19_coordinate =
  nc_coordinate :: coordinate
  nc_relays :: "relay_url list"

record coordinate_fields =
  cf_identifier :: "string option"
  cf_public_key :: "public_key option"
  cf_kind :: "kind option"
  cf_relays :: "relay_url list"

definition coordinate_field ::
  "externals \<Rightarrow> u8 \<Rightarrow> u8 list \<Rightarrow> coordinate_fields \<Rightarrow> coordinate_fields res" where
  "coordinate_field x t bytes s =
     (if t = SPECIAL \<and> cf_identifier s = None then Inr (s\<lparr>cf_identifier := Some (lossy_string bytes)\<rparr>)
      else if t = RELAY then Inr (s\<lparr>cf_relays := push_valid_relay x bytes (cf_relays s)\<rparr>)
      else if t = AUTHOR \<and> cf_public_key s = None then
        rbind (public_key_from_slice bytes) (\<lambda>k. Inr (s\<lparr>cf_public_key := Some k\<rparr>))
      else if t = KIND \<and> cf_kind s = None then
        rbind (tlv_kind bytes) (\<lambda>k. Inr (s\<lparr>cf_kind := Some k\<rparr>))
      else Inr s)"

definition nip19_coordinate_from_data :: "externals \<Rightarrow> u8 list \<Rightarrow> nip19_coordinate res" where
  "nip19_coordinate_from_data x data =
     rbind (tlv_loop (coordinate_field x) data
         \<lparr>cf_identifier = None, cf_public_key = None, cf_kind = None, cf_relays = []\<rparr>) (\<lambda>s.
     rbind (ok_or (cf_kind s) Missing) (\<lambda>k.
     rbind (ok_or (cf_public_key s) Missing) (\<lambda>pk.
     rbind (ok_or (cf_identifier s) Missing) (\<lambda>i.
       Inr \<lparr>nc_coordinate = \<lparr>co_kind = k, co_public_key = pk, co_identifier = i\<rparr>,
            nc_relays = cf_relays s\<rparr>))))"

definition nip19_coordinate_data :: "nip19_coordinate \<Rightarrow> u8 list res" where
  "nip19_coordinate_data c =
     rbind (push_tlv SPECIAL (bytes_of (co_identifier (nc_coordinate c))) []) (\<lambda>bytes.
     rbind (push_tlv AUTHOR (pk_bytes (co_public_key (nc_coordinate c))) bytes) (\<lambda>bytes.
     rbind (push_tlv KIND (kind_bytes (co_kind (nc_coordinate c))) bytes) (\<lambda>bytes.
     push_relays (nc_relays c) bytes)))"

definition coordinate_to_bech32 :: "bech32 \<Rightarrow> nip19_coordinate \<Rightarrow> string res" where
  "coordinate_to_bech32 B c =
     rbind (nip19_coordinate_data c) (bech32_encode B PREFIX_BECH32_COORDINATE)"

section \<open>Entities\<close>

datatype nip19 =
    N19Secret secret_key
  | N19Pubkey public_key
  | N19Profile nip19_profile
  | N19EventId event_id
  | N19Event nip19_event
  | N19Coordinate nip19_coordinate

definition nip19_from_bech32 :: "externals \<Rightarrow> crypto \<Rightarrow> bech32 \<Rightarrow> string \<Rightarrow> nip19 res" where
  "nip19_from_bech32 x X B hash =
     rbind (bech32_decode B hash) (\<lambda>(hrp, data).
     rbind (prefix_from_hrp hrp) (\<lambda>prefix.
     case prefix of
       NSec \<Rightarrow> rbind (secret_key_from_slice X data) (\<lambda>v. Inr (N19Secret v))
     | NPub \<Rightarrow> rbind (public_key_from_slice data) (\<lambda>v. Inr (N19Pubkey v))
     | NProfile \<Rightarrow> rbind (nip19_profile_from_data x data) (\<lambda>v. Inr (N19Profile v))
     | NEvent \<Rightarrow> rbind (nip19_event_from_data x data) (\<lambda>v. Inr (N19Event v))
     | Note \<Rightarrow> rbind (event_id_from_slice data) (\<lambda>v. Inr (N19EventId v))
     | NAddr \<Rightarrow> rbind (nip19_coordinate_from_data x data) (\<lambda>v. Inr (N19Coordinate v))))"

text \<open>Keys and ids: \<open>None\<close> is the panic of \<open>expect\<close>.\<close>

definition secret_key_to_bech32 :: "bech32 \<Rightarrow> secret_key \<Rightarrow> string option" where
  "secret_key_to_bech32 B k = be_encode B PREFIX_BECH32_SECRET_KEY (sk_bytes k)"

definition public_key_to_bech32 :: "bech32 \<Rightarrow> public_key \<Rightarrow> string option" where
  "public_key_to_bech32 B k = be_encode B PREFIX_BECH32_PUBLIC_KEY (pk_bytes k)"

definition event_id_to_bech32 :: "bech32 \<Rightarrow> event_id \<Rightarrow> string option" where
  "event_id_to_bech32 B i = be_encode B PREFIX_BECH32_NOTE_ID (eid_bytes i)"

definition nip19_to_bech32 :: "bech32 \<Rightarrow> nip19 \<Rightarrow> string res option" where
  "nip19_to_bech32 B n =
     (case n of
        N19Secret k \<Rightarrow> map_option Inr (secret_key_to_bech32 B k)
      | N19Pubkey k \<Rightarrow> map_option Inr (public_key_to_bech32 B k)
      | N19Event e \<Rightarrow> Some (nip19_event_to_bech32 B e)
      | N19Profile p \<Rightarrow> Some (nip19_profile_to_bech32 B p)
      | N19EventId i \<Rightarrow> map_option Inr (event_id_to_bech32 B i)
      | N19Coordinate c \<Rightarrow> Some (coordinate_to_bech32 B c))"

text \<open>Reading one kind of entity.\<close>

definition secret_key_from_bech32 :: "crypto \<Rightarrow> bech32 \<Rightarrow> string \<Rightarrow> secret_key res" where
  "secret_key_from_bech32 X B s =
     rbind (bech32_decode B s) (\<lambda>(hrp, data).
       if \<not> hrp_eq hrp PREFIX_BECH32_SECRET_KEY then Inl Invalid else secret_key_from_slice X data)"

definition public_key_from_bech32 :: "externals \<Rightarrow> bech32 \<Rightarrow> string \<Rightarrow> public_key res" where
  "public_key_from_bech32 x B s =
     rbind (bech32_decode B s) (\<lambda>(hrp, data).
       if hrp_eq hrp PREFIX_BECH32_PUBLIC_KEY then public_key_from_slice data
       else if hrp_eq hrp PREFIX_BECH32_PROFILE then
         rbind (nip19_profile_from_data x data) (\<lambda>p. Inr (np_public_key p))
       else Inl Invalid)"

definition event_id_from_bech32 :: "externals \<Rightarrow> bech32 \<Rightarrow> string \<Rightarrow> event_id res" where
  "event_id_from_bech32 x B s =
     rbind (bech32_decode B s) (\<lambda>(hrp, data).
       if hrp_eq hrp PREFIX_BECH32_NOTE_ID then event_id_from_slice data
       else if hrp_eq hrp PREFIX_BECH32_EVENT then
         rbind (nip19_event_from_data x data) (\<lambda>e. Inr (ne_event_id e))
       else Inl Invalid)"

definition nip19_event_from_bech32 :: "externals \<Rightarrow> bech32 \<Rightarrow> string \<Rightarrow> nip19_event res" where
  "nip19_event_from_bech32 x B s =
     rbind (bech32_decode B s) (\<lambda>(hrp, data).
       if \<not> hrp_eq hrp PREFIX_BECH32_EVENT then Inl Invalid else nip19_event_from_data x data)"

definition nip19_profile_from_bech32 :: "externals \<Rightarrow> bech32 \<Rightarrow> string \<Rightarrow> nip19_profile res" where
  "nip19_profile_from_bech32 x B s =
     rbind (bech32_decode B s) (\<lambda>(hrp, data).
       if \<not> hrp_eq hrp PREFIX_BECH32_PROFILE then Inl Invalid else nip19_profile_from_data x data)"

definition nip19_coordinate_from_bech32 :: "externals \<Rightarrow> bech32 \<Rightarrow> string \<Rightarrow> nip19_coordinate res" where
  "nip19_coordinate_from_bech32 x B s =
     rbind (bech32_decode B s) (\<lambda>(hrp, data).
       if \<not> hrp_eq hrp PREFIX_BECH32_COORDINATE then Inl Invalid else nip19_coordinate_from_data x data)"

section \<open>URIs\<close>

definition SCHEME :: string where "SCHEME = ''nostr''"

definition split_uri :: "string \<Rightarrow> string res" where
  "split_uri uri =
     (case split_on (CHR '':'') uri of
        prefix # rest \<Rightarrow>
          if prefix \<noteq> SCHEME then Inl Invalid
          else (case rest of [] \<Rightarrow> Inl Invalid | data # _ \<Rightarrow> Inr data)
      | [] \<Rightarrow> Inl Invalid)"

datatype nip21 =
    N21Pubkey public_key
  | N21Profile nip19_profile
  | N21EventId event_id
  | N21Event nip19_event
  | N21Coordinate nip19_coordinate

fun nip19_of_nip21 :: "nip21 \<Rightarrow> nip19" where
  "nip19_of_nip21 (N21Pubkey v) = N19Pubkey v"
| "nip19_of_nip21 (N21Profile v) = N19Profile v"
| "nip19_of_nip21 (N21EventId v) = N19EventId v"
| "nip19_of_nip21 (N21Event v) = N19Event v"
| "nip19_of_nip21 (N21Coordinate v) = N19Coordinate v"

fun nip21_try_from :: "nip19 \<Rightarrow> nip21 res" where
  "nip21_try_from (N19Secret v) = Inl Unsupported"
| "nip21_try_from (N19Pubkey v) = Inr (N21Pubkey v)"
| "nip21_try_from (N19Profile v) = Inr (N21Profile v)"
| "nip21_try_from (N19EventId v) = Inr (N21EventId v)"
| "nip21_try_from (N19Event v) = Inr (N21Event v)"
| "nip21_try_from (N19Coordinate v) = Inr (N21Coordinate v)"

definition nip21_parse :: "externals \<Rightarrow> crypto \<Rightarrow> bech32 \<Rightarrow> string \<Rightarrow> nip21 res" where
  "nip21_parse x X B uri =
     rbind (split_uri uri) (\<lambda>data. rbind (nip19_from_bech32 x X B data) nip21_try_from)"

definition nip21_to_nostr_uri :: "bech32 \<Rightarrow> nip21 \<Rightarrow> string res option" where
  "nip21_to_nostr_uri B n =
     map_option (\<lambda>r. rbind r (\<lambda>s. Inr (SCHEME @ '':'' @ s))) (nip19_to_bech32 B (nip19_of_nip21 n))"

end
