(* ===== verification/Text_Parser.thy ===== *)
theory Text_Parser
  imports Nip19_Entities
begin

text \<open>
  The parser of texts (nostr/src/parser.rs): the search for line breaks, hashtags, \<open>nostr:\<close> URIs and
  URLs in a text, and the iterator that turns the matches and the text between them into tokens.

  A text is its UTF-8 bytes and a position is a byte offset, as in the code. The characters that are
  a data character of Bech32 are a parameter.
\<close>

section \<open>Characters\<close>

definition byte_of :: "char \<Rightarrow> u8" where
  "byte_of c = of_nat (of_char c)"

text \<open>
  \<open>Chars::next\<close>: the scalar value at the start of a string and the number of its bytes, which is
  \<open>len_utf8\<close> of it.
\<close>

definition next_char :: "string \<Rightarrow> nat \<times> nat" where
  "next_char s =
     (let bs = bytes_of s; n = fst (utf8_step bs); b = (\<lambda>i. unat (bs ! i))
      in (if n = 1 then b 0
          else if n = 2 then b 0 mod 32 * 64 + b 1 mod 64
          else if n = 3 then b 0 mod 16 * 4096 + b 1 mod 64 * 64 + b 2 mod 64
          else b 0 mod 8 * 262144 + b 1 mod 64 * 4096 + b 2 mod 64 * 64 + b 3 mod 64, n))"

text \<open>\<open>char::is_whitespace\<close> (White\_Space) and \<open>char::is_control\<close> (Cc).\<close>

definition is_whitespace :: "nat \<Rightarrow> bool" where
  "is_whitespace c \<longleftrightarrow>
     9 \<le> c \<and> c \<le> 13 \<or> c \<in> {0x20, 0x85, 0xA0, 0x1680, 0x2028, 0x2029, 0x202F, 0x205F, 0x3000} \<or>
     0x2000 \<le> c \<and> c \<le> 0x200A"

definition is_control :: "nat \<Rightarrow> bool" where
  "is_control c \<longleftrightarrow> c \<le> 0x1F \<or> 0x7F \<le> c \<and> c \<le> 0x9F"

definition is_forbidden_hashtag_char :: "nat \<Rightarrow> bool" where
  "is_forbidden_hashtag_char c \<longleftrightarrow>
     is_whitespace c \<or> is_control c \<or>
     c \<in> of_char ` set ''.,!?()[]{}@#;:&*+=<>/|^~%$`'' \<or> c \<in> {0x22, 0x27, 0x5C}"

definition is_ascii_alphanumeric :: "u8 \<Rightarrow> bool" where
  "is_ascii_alphanumeric b \<longleftrightarrow> is_ascii_alphabetic b \<or> 48 \<le> b \<and> b \<le> 57"

definition is_allowed_url_byte :: "u8 \<Rightarrow> bool" where
  "is_allowed_url_byte b \<longleftrightarrow>
     is_ascii_alphanumeric b \<or> b \<in> byte_of ` set ''-._~:/?#[]@!$&()*+,;=%'' \<or> b = 0x27"

definition is_url_trailing_punctuation :: "u8 \<Rightarrow> bool" where
  "is_url_trailing_punctuation b \<longleftrightarrow> b \<in> byte_of ` set ''.,;:!?)]}''"

section \<open>Matches\<close>

datatype match_type = MNostrUri | MUrl | MHashtag | MLineBreak

record text_match =
  tm_type :: match_type
  tm_start :: nat
  tm_end :: nat

record parser_options =
  po_nostr_uris :: bool
  po_urls :: bool
  po_hashtags :: bool
  po_text :: bool

definition parser_options_new :: "bool \<Rightarrow> parser_options" where
  "parser_options_new enabled =
     \<lparr>po_nostr_uris = enabled, po_urls = enabled, po_hashtags = enabled, po_text = enabled\<rparr>"

definition enable_all :: parser_options where "enable_all = parser_options_new True"
definition disable_all :: parser_options where "disable_all = parser_options_new False"

definition byte_at :: "string \<Rightarrow> nat \<Rightarrow> u8" where
  "byte_at text i = byte_of (text ! i)"

definition try_parse_line_break :: "string \<Rightarrow> nat \<Rightarrow> text_match option" where
  "try_parse_line_break text pos =
     (if byte_at text pos \<noteq> 10 then None
      else Some \<lparr>tm_type = MLineBreak, tm_start = pos, tm_end = pos + 1\<rparr>)"

lemma next_char_bounds: "s \<noteq> [] \<Longrightarrow> 0 < snd (next_char s) \<and> snd (next_char s) \<le> length s"
  using utf8_step_length [of "bytes_of s"] by (cases s) (auto simp: next_char_def bytes_of_def Let_def)

text \<open>The bytes of the characters up to the first forbidden one.\<close>

function hashtag_len :: "string \<Rightarrow> nat" where
  "hashtag_len s =
     (if s = [] then 0
      else if is_forbidden_hashtag_char (fst (next_char s)) then 0
      else snd (next_char s) + hashtag_len (drop (snd (next_char s)) s))"
  by pat_completeness auto
termination
  by (relation "measure length") (use next_char_bounds in \<open>auto simp: diff_less\<close>)

declare hashtag_len.simps [simp del]

definition try_parse_hashtag :: "string \<Rightarrow> nat \<Rightarrow> text_match option" where
  "try_parse_hashtag text pos =
     (if byte_at text pos \<noteq> byte_of CHR ''#'' then None
      else if pos \<noteq> 0 \<and> \<not> is_ascii_whitespace (text ! (pos - 1)) then None
      else (let start = pos; end = pos + 1 + hashtag_len (drop (pos + 1) text)
            in if end \<le> start + 1 then None
               else Some \<lparr>tm_type = MHashtag, tm_start = start, tm_end = end\<rparr>))"

text \<open>The number of data characters of Bech32 at the start of a string.\<close>

function fe32_len :: "(nat \<Rightarrow> bool) \<Rightarrow> string \<Rightarrow> nat" where
  "fe32_len fe32 s =
     (if s = [] then 0
      else if fe32 (fst (next_char s)) then 1 + fe32_len fe32 (drop (snd (next_char s)) s) else 0)"
  by pat_completeness auto
termination
  by (relation "measure (\<lambda>(fe32, s). length s)") (use next_char_bounds in \<open>auto simp: diff_less\<close>)

declare fe32_len.simps [simp del]

definition SCHEME_WITH_COLON :: string where "SCHEME_WITH_COLON = ''nostr:''"

definition try_parse_nostr_uri :: "(nat \<Rightarrow> bool) \<Rightarrow> string \<Rightarrow> nat \<Rightarrow> text_match option" where
  "try_parse_nostr_uri fe32 text pos =
     (let start = pos; end = start + length SCHEME_WITH_COLON
      in if get_range start end text \<noteq> Some SCHEME_WITH_COLON then None
         else (case prefix_from_str (drop end text) of
             Inl e \<Rightarrow> None
           | Inr prefix \<Rightarrow>
               (let end = end + prefix_len prefix
                in if get_range end (end + 1) text \<noteq> Some ''1'' then None
                   else (let bech32_data_start = end + 1;
                             end = bech32_data_start + fe32_len fe32 (drop bech32_data_start text)
                         in if end = bech32_data_start then None
                            else Some \<lparr>tm_type = MNostrUri, tm_start = start, tm_end = end\<rparr>))))"

definition URL_SCHEME_SEPARATOR :: string where "URL_SCHEME_SEPARATOR = ''://''"

function scheme_end :: "string \<Rightarrow> nat \<Rightarrow> nat option" where
  "scheme_end text end =
     (if end < length text then
        (let byte = byte_at text end
         in if is_ascii_alphanumeric byte \<or> byte \<in> byte_of ` set ''+-.'' then scheme_end text (end + 1)
            else if get_range end (end + length URL_SCHEME_SEPARATOR) text = Some URL_SCHEME_SEPARATOR
            then Some (end + length URL_SCHEME_SEPARATOR)
            else None)
      else None)"
  by pat_completeness auto
termination by (relation "measure (\<lambda>(text, end). length text - end)") auto

declare scheme_end.simps [simp del]

definition find_post_url_scheme_position :: "string \<Rightarrow> nat \<Rightarrow> nat option" where
  "find_post_url_scheme_position text pos =
     (if \<not> is_ascii_alphabetic (byte_at text pos) then None else scheme_end text (pos + 1))"

function url_end :: "string \<Rightarrow> nat \<Rightarrow> nat" where
  "url_end text end =
     (if end < length text then
        (if is_ascii_whitespace (text ! end) \<or> \<not> is_allowed_url_byte (byte_at text end) then end
         else url_end text (end + 1))
      else end)"
  by pat_completeness auto
termination by (relation "measure (\<lambda>(text, end). length text - end)") auto

declare url_end.simps [simp del]

definition find_url_end :: "string \<Rightarrow> nat \<Rightarrow> nat option" where
  "find_url_end text after_scheme_pos =
     (let end = url_end text after_scheme_pos in if end \<le> after_scheme_pos then None else Some end)"

definition handle_parentheses_matching :: "string \<Rightarrow> nat \<Rightarrow> nat \<Rightarrow> nat" where
  "handle_parentheses_matching text start actual_end =
     (let url_bytes = range_slice start actual_end text;
          open_count = count_list url_bytes (CHR ''('');
          close_count = count_list url_bytes (CHR '')'')
      in if close_count > open_count then actual_end - 1 else actual_end)"

fun trim_punctuation :: "string \<Rightarrow> nat \<Rightarrow> nat \<Rightarrow> nat" where
  "trim_punctuation text after_scheme_pos 0 = 0"
| "trim_punctuation text after_scheme_pos (Suc n) =
     (if Suc n > after_scheme_pos \<and> is_url_trailing_punctuation (byte_at text n)
      then trim_punctuation text after_scheme_pos n else Suc n)"

definition trim_url_end :: "string \<Rightarrow> nat \<Rightarrow> nat \<Rightarrow> nat \<Rightarrow> nat" where
  "trim_url_end text start after_scheme_pos end =
     (let actual_end = trim_punctuation text after_scheme_pos end
      in if actual_end > after_scheme_pos \<and> byte_at text (actual_end - 1) = byte_of (CHR '')'')
         then handle_parentheses_matching text start actual_end else actual_end)"

definition try_parse_url :: "string \<Rightarrow> nat \<Rightarrow> text_match option" where
  "try_parse_url text pos =
     (let start = pos
      in case find_post_url_scheme_position text pos of None \<Rightarrow> None | Some after_scheme_pos \<Rightarrow>
         case find_url_end text after_scheme_pos of None \<Rightarrow> None | Some end \<Rightarrow>
         (let actual_end = trim_url_end text start after_scheme_pos end
          in if actual_end \<le> after_scheme_pos then None
             else Some \<lparr>tm_type = MUrl, tm_start = start, tm_end = actual_end\<rparr>))"

text \<open>What matches at a position, in the order in which the code tries.\<close>

definition match_at :: "(nat \<Rightarrow> bool) \<Rightarrow> parser_options \<Rightarrow> string \<Rightarrow> nat \<Rightarrow> text_match option" where
  "match_at fe32 opts text pos =
     (case (if po_text opts then try_parse_line_break text pos else None) of Some m \<Rightarrow> Some m | None \<Rightarrow>
      case (if po_hashtags opts then try_parse_hashtag text pos else None) of Some m \<Rightarrow> Some m | None \<Rightarrow>
      case (if po_nostr_uris opts then try_parse_nostr_uri fe32 text pos else None) of
        Some m \<Rightarrow> Some m | None \<Rightarrow>
      (if po_urls opts then try_parse_url text pos else None))"

text \<open>The next match and the position after it; a position moves on by characters.\<close>

function find_match ::
  "(nat \<Rightarrow> bool) \<Rightarrow> parser_options \<Rightarrow> string \<Rightarrow> nat \<Rightarrow> text_match option \<times> nat" where
  "find_match fe32 opts text pos =
     (if pos < length text then
        (case match_at fe32 opts text pos of
           Some m \<Rightarrow> (Some m, tm_end m)
         | None \<Rightarrow> find_match fe32 opts text (pos + snd (next_char (drop pos text))))
      else (None, pos))"
  by pat_completeness auto
termination
  by (relation "measure (\<lambda>(fe32, opts, text, pos). length text - pos)")
    (use next_char_bounds in \<open>auto simp: diff_less_mono2\<close>)

declare find_match.simps [simp del]


section \<open>Tokens\<close>

datatype token =
  TNostr nip21
| TUrl url
| THashtag string
| TText string
| TLineBreak
| TWhitespace

definition LINE_BREAK :: string where "LINE_BREAK = [CHR 0x0A]"
definition WHITESPACE :: string where "WHITESPACE = '' ''"

text \<open>The iterator, the search for matches (\<open>FindMatches\<close>) included.\<close>

record parser_iter =
  pi_text :: string
  pi_opts :: parser_options
  pi_pos :: nat
  pi_pending_match :: "text_match option"
  pi_pending_str_match :: "string option"
  pi_pending_token :: "token option"
  pi_last_match_end :: nat

definition parser_iter_new :: "string \<Rightarrow> parser_options \<Rightarrow> parser_iter" where
  "parser_iter_new text opts =
     \<lparr>pi_text = text, pi_opts = opts, pi_pos = 0, pi_pending_match = None, pi_pending_str_match = None,
      pi_pending_token = None, pi_last_match_end = 0\<rparr>"

definition handle_str_as_text :: "parser_iter \<Rightarrow> string \<Rightarrow> token \<times> parser_iter" where
  "handle_str_as_text st m =
     (if m = LINE_BREAK then (TLineBreak, st)
      else if starts_with m LINE_BREAK \<and> 1 < length m
      then (TLineBreak, st\<lparr>pi_pending_str_match := Some (drop 1 m)\<rparr>)
      else if m = WHITESPACE then (TWhitespace, st)
      else if starts_with m WHITESPACE \<and> 1 < length m
      then (TWhitespace, st\<lparr>pi_pending_str_match := Some (drop 1 m)\<rparr>)
      else if m \<noteq> [] \<and> [last m] = WHITESPACE \<and> 1 < length m
      then (TText (take (length m - 1) m), st\<lparr>pi_pending_token := Some TWhitespace\<rparr>)
      else (TText m, st))"

text \<open>What a match becomes: a token, or nothing, on which the iterator calls itself.\<close>

definition text_or_skip :: "parser_iter \<Rightarrow> string \<Rightarrow> token option \<times> parser_iter" where
  "text_or_skip st m =
     (if po_text (pi_opts st) then (let (t, st) = handle_str_as_text st m in (Some t, st)) else (None, st))"

definition handle_match ::
  "externals \<Rightarrow> crypto \<Rightarrow> bech32 \<Rightarrow> parser_iter \<Rightarrow> text_match \<Rightarrow> token option \<times> parser_iter" where
  "handle_match x X B st mat =
     (let st = st\<lparr>pi_last_match_end := tm_end mat\<rparr>; data = range_slice (tm_start mat) (tm_end mat) (pi_text st)
      in case tm_type mat of
           MUrl \<Rightarrow> (case url_parse x data of Some url \<Rightarrow> (Some (TUrl url), st) | None \<Rightarrow> text_or_skip st data)
         | MNostrUri \<Rightarrow>
             (case nip21_parse x X B data of Inr uri \<Rightarrow> (Some (TNostr uri), st) | Inl e \<Rightarrow> text_or_skip st data)
         | MHashtag \<Rightarrow>
             (if 1 < length data then (Some (THashtag (drop 1 data)), st) else text_or_skip st data)
         | MLineBreak \<Rightarrow> (Some TLineBreak, st))"

lemma handle_str_frame:
  "handle_str_as_text st m = (t, st') \<Longrightarrow>
   pi_text st' = pi_text st \<and> pi_opts st' = pi_opts st \<and> pi_pos st' = pi_pos st \<and>
   pi_pending_match st' = pi_pending_match st \<and> pi_last_match_end st' = pi_last_match_end st"
  by (auto simp: handle_str_as_text_def split: if_splits)

lemma text_or_skip_frame:
  "text_or_skip st m = (t, st') \<Longrightarrow>
   pi_text st' = pi_text st \<and> pi_opts st' = pi_opts st \<and> pi_pos st' = pi_pos st \<and>
   pi_pending_match st' = pi_pending_match st \<and> pi_last_match_end st' = pi_last_match_end st"
  by (auto simp: text_or_skip_def Let_def dest: handle_str_frame split: if_splits prod.splits)

lemma handle_match_frame:
  assumes "handle_match x X B st m = (t, st')"
  shows "pi_text st' = pi_text st \<and> pi_opts st' = pi_opts st \<and> pi_pos st' = pi_pos st \<and>
    pi_pending_match st' = pi_pending_match st \<and> pi_last_match_end st' = tm_end m"
  using assms
  by (auto simp: handle_match_def Let_def dest!: text_or_skip_frame
      split: match_type.splits option.splits sum.splits if_splits)

text \<open>A match begins where the search is or later, and ends after it begins.\<close>

lemma trim_punctuation_le: "trim_punctuation text a n \<le> n"
  by (induction n) auto

lemma scheme_end_after: "scheme_end s e = Some a \<Longrightarrow> e < a"
proof (induction s e rule: scheme_end.induct)
  case (1 s e)
  then show ?case
    by (fastforce simp: scheme_end.simps [of s e] Let_def URL_SCHEME_SEPARATOR_def split: if_splits)
qed

lemma match_at_bounds:
  assumes "match_at fe32 opts text pos = Some m"
  shows "tm_start m = pos \<and> pos < tm_end m"
proof -
  show ?thesis
    using assms
    by (auto simp: match_at_def try_parse_line_break_def try_parse_hashtag_def try_parse_nostr_uri_def
        try_parse_url_def find_post_url_scheme_position_def Let_def
        dest!: scheme_end_after split: option.splits if_splits sum.splits)
qed

lemma find_match_after:
  assumes "find_match fe32 opts s pos = (Some m, p)"
  shows "p = tm_end m \<and> pos \<le> tm_start m \<and> tm_start m < tm_end m \<and> pos < length s \<and>
    tm_start m < length s \<and> match_at fe32 opts s (tm_start m) = Some m"
  using assms
proof (induction fe32 opts s pos rule: find_match.induct)
  case (1 fe32 opts s pos)
  show ?case
  proof (cases "match_at fe32 opts s pos")
    case None
    then show ?thesis
      using 1 by (fastforce simp: find_match.simps [of fe32 opts s pos] split: if_splits)
  next
    case (Some m')
    then show ?thesis
      using 1 match_at_bounds [OF Some]
      by (auto simp: find_match.simps [of fe32 opts s pos] split: if_splits)
  qed
qed

section \<open>The iterator\<close>

function parser_next ::
  "externals \<Rightarrow> crypto \<Rightarrow> bech32 \<Rightarrow> (nat \<Rightarrow> bool) \<Rightarrow> parser_iter \<Rightarrow> token option \<times> parser_iter" where
  "parser_next x X B fe32 st =
     (case pi_pending_token st of
        Some t \<Rightarrow> (Some t, st\<lparr>pi_pending_token := None\<rparr>)
      | None \<Rightarrow>
     (case pi_pending_str_match st of
        Some m \<Rightarrow> (let (t, st) = handle_str_as_text (st\<lparr>pi_pending_str_match := None\<rparr>) m in (Some t, st))
      | None \<Rightarrow>
     (case pi_pending_match st of
        Some mat \<Rightarrow>
          (case handle_match x X B (st\<lparr>pi_pending_match := None\<rparr>) mat of
             (Some t, st) \<Rightarrow> (Some t, st)
           | (None, st) \<Rightarrow> parser_next x X B fe32 st)
      | None \<Rightarrow>
     (case find_match fe32 (pi_opts st) (pi_text st) (pi_pos st) of
        (Some mat, pos) \<Rightarrow>
          (let st = st\<lparr>pi_pos := pos\<rparr>
           in if po_text (pi_opts st) \<and> tm_start mat > pi_last_match_end st
              then (let (t, st) = handle_str_as_text (st\<lparr>pi_pending_match := Some mat\<rparr>)
                                    (range_slice (pi_last_match_end st) (tm_start mat) (pi_text st))
                    in (Some t, st))
              else (case handle_match x X B st mat of
                      (Some t, st) \<Rightarrow> (Some t, st)
                    | (None, st) \<Rightarrow> parser_next x X B fe32 st))
      | (None, pos) \<Rightarrow>
          (let st = st\<lparr>pi_pos := pos\<rparr>
           in if \<not> po_text (pi_opts st) \<or> length (pi_text st) \<le> pi_last_match_end st then (None, st)
              else (let (t, st') = handle_str_as_text (st\<lparr>pi_last_match_end := length (pi_text st)\<rparr>)
                                     (drop (pi_last_match_end st) (pi_text st))
                    in (Some t, st')))))))"
  by pat_completeness auto
termination
proof (relation "measure (\<lambda>(x, X, B, fe32, st).
    2 * (length (pi_text st) - pi_pos st) + (if pi_pending_match st = None then 0 else 1))", goal_cases)
  case 1
  show ?case by simp
next
  case (2 x X B fe32 st r pos mat st1 r' st')
  have "handle_match x X B st1 mat = (r', st')"
    "find_match fe32 (pi_opts st) (pi_text st) (pi_pos st) = (Some mat, pos)" using 2 by simp_all
  then show ?case
    using 2 by (auto dest!: handle_match_frame find_match_after)
next
  case (3 x X B fe32 st mat r st')
  have "handle_match x X B (st\<lparr>pi_pending_match := None\<rparr>) mat = (r, st')" using 3 by simp
  then show ?case using 3 by (auto dest!: handle_match_frame)
qed

declare parser_next.simps [simp del]

text \<open>\<open>Iterator::collect\<close>, of at most so many tokens.\<close>

fun collect_tokens ::
  "externals \<Rightarrow> crypto \<Rightarrow> bech32 \<Rightarrow> (nat \<Rightarrow> bool) \<Rightarrow> nat \<Rightarrow> parser_iter \<Rightarrow> token list option" where
  "collect_tokens x X B fe32 0 st = None"
| "collect_tokens x X B fe32 (Suc n) st =
     (case parser_next x X B fe32 st of
        (None, st) \<Rightarrow> Some []
      | (Some t, st) \<Rightarrow> map_option (\<lambda>ts. t # ts) (collect_tokens x X B fe32 n st))"

text \<open>\<open>NostrParser::parse\<close> with options, and all its tokens: a token takes at least one byte.\<close>

definition parse_text ::
  "externals \<Rightarrow> crypto \<Rightarrow> bech32 \<Rightarrow> (nat \<Rightarrow> bool) \<Rightarrow> parser_options \<Rightarrow> string \<Rightarrow> token list option" where
  "parse_text x X B fe32 opts s = collect_tokens x X B fe32 (length s + 1) (parser_iter_new s opts)"

end
