(* ===== verification/Nip19_Roundtrip.thy ===== *)
theory Nip19_Roundtrip
  imports Nip19_Entities
begin

text \<open>
  The entities of NIP-19 and the URIs of NIP-21 that are printed are read back as they were, and
  what is read is well formed.
\<close>

section \<open>Lists of typed values\<close>

definition tlv :: "u8 \<Rightarrow> u8 list \<Rightarrow> u8 list" where
  "tlv t v = [t, of_nat (length v)] @ v"

lemma push_tlv_Inr: "push_tlv t v bytes = Inr out \<longleftrightarrow> length v \<le> 255 \<and> out = bytes @ tlv t v"
  by (auto simp: push_tlv_def tlv_def u8_max_def)

lemma tlv_loop_tlv:
  assumes "length v \<le> 255"
  shows "tlv_loop f (tlv t v @ rest) s = rbind (f t v s) (tlv_loop f rest)"
proof -
  have "unat (of_nat (length v) :: u8) = length v" using assms by (simp add: unat_of_nat)
  then show ?thesis by (cases "f t v s") (simp_all add: tlv_def)
qed

definition relay_value :: "relay_url \<Rightarrow> u8 list" where
  "relay_value u = bytes_of (relay_url_as_str u)"

lemma push_relays_Inr:
  "push_relays rs bytes = Inr out \<longleftrightarrow>
     (\<forall>r \<in> set rs. length (relay_value r) \<le> 255) \<and>
     out = bytes @ concat (map (\<lambda>r. tlv RELAY (relay_value r)) rs)"
  by (induction rs arbitrary: bytes) (auto simp: rbind_Inr push_tlv_Inr relay_value_def)

text \<open>Relays that survive printing: the string is UTF-8 and parses to the same relay.\<close>

definition relay_readable :: "externals \<Rightarrow> relay_url \<Rightarrow> bool" where
  "relay_readable x u \<longleftrightarrow> relay_url_stable x u \<and> valid_utf8 (relay_value u)"

lemma lossy_string_bytes: "valid_utf8 (bytes_of v) \<Longrightarrow> lossy_string (bytes_of v) = v"
  by (simp add: lossy_string_def lossy_valid)

lemma relay_readable_parse:
  "relay_readable x u \<Longrightarrow> relay_url_parse x (lossy_string (relay_value u)) = Inr u"
  by (simp add: relay_readable_def relay_value_def lossy_string_bytes relay_url_stable_def)

lemma tlv_kind_bytes:
  assumes "canonical k"
  shows "tlv_kind (kind_bytes k) = Inr k"
proof -
  have u: "unat (as_u16 k) < 65536" using unsigned_less [of "as_u16 k"] by simp
  then have "be_val (kind_bytes k) = unat (as_u16 k)"
    unfolding kind_bytes_def by (intro be_val_bytes) simp
  then show ?thesis
    using u assms by (simp add: tlv_kind_def kind_bytes_def u16_max_def canonical_def)
qed

lemma tlv_kind_canonical: "tlv_kind bytes = Inr k \<Longrightarrow> canonical k"
  by (auto simp: tlv_kind_def split: if_splits)

lemma tlv_loop_event_relays:
  assumes "\<forall>r \<in> set rs. length (relay_value r) \<le> 255 \<and> relay_readable x r"
  shows "tlv_loop (event_field x) (concat (map (\<lambda>r. tlv RELAY (relay_value r)) rs)) s =
    Inr (s\<lparr>ef_relays := ef_relays s @ rs\<rparr>)"
  using assms
  by (induction rs arbitrary: s)
    (simp_all add: tlv_loop_tlv event_field_def tlv_types relay_readable_parse)

lemma tlv_loop_profile_relays:
  assumes "\<forall>r \<in> set rs. length (relay_value r) \<le> 255 \<and> relay_readable x r"
  shows "tlv_loop (profile_field x) (concat (map (\<lambda>r. tlv RELAY (relay_value r)) rs)) (pk, us) =
    Inr (pk, us @ rs)"
  using assms
  by (induction rs arbitrary: us)
    (simp_all add: tlv_loop_tlv profile_field_def tlv_types relay_readable_parse push_valid_relay_def)

lemma tlv_loop_coordinate_relays:
  assumes "\<forall>r \<in> set rs. length (relay_value r) \<le> 255 \<and> relay_readable x r"
  shows "tlv_loop (coordinate_field x) (concat (map (\<lambda>r. tlv RELAY (relay_value r)) rs)) s =
    Inr (s\<lparr>cf_relays := cf_relays s @ rs\<rparr>)"
  using assms
  by (induction rs arbitrary: s)
    (simp_all add: tlv_loop_tlv coordinate_field_def tlv_types relay_readable_parse push_valid_relay_def)

section \<open>Well-formed entities\<close>

definition nip19_event_wf :: "nip19_event \<Rightarrow> bool" where
  "nip19_event_wf e \<longleftrightarrow>
     wf_event_id (ne_event_id e) \<and> pred_option wf_public_key (ne_author e) \<and>
     pred_option canonical (ne_kind e)"

definition coordinate_wf :: "coordinate \<Rightarrow> bool" where
  "coordinate_wf c \<longleftrightarrow>
     canonical (co_kind c) \<and> wf_public_key (co_public_key c) \<and> valid_utf8 (bytes_of (co_identifier c))"

fun nip19_wf :: "crypto \<Rightarrow> nip19 \<Rightarrow> bool" where
  "nip19_wf X (N19Secret k) = wf_secret_key X k"
| "nip19_wf X (N19Pubkey k) = wf_public_key k"
| "nip19_wf X (N19Profile p) = wf_public_key (np_public_key p)"
| "nip19_wf X (N19EventId i) = wf_event_id i"
| "nip19_wf X (N19Event e) = nip19_event_wf e"
| "nip19_wf X (N19Coordinate c) = coordinate_wf (nc_coordinate c)"

fun nip19_relays :: "nip19 \<Rightarrow> relay_url list" where
  "nip19_relays (N19Profile p) = np_relays p"
| "nip19_relays (N19Event e) = ne_relays e"
| "nip19_relays (N19Coordinate c) = nc_relays c"
| "nip19_relays _ = []"

section \<open>Reading what was printed\<close>

lemma event_data_read:
  assumes "nip19_event_data e = Inr data" and "nip19_event_wf e"
    and "\<forall>r \<in> set (ne_relays e). relay_readable x r"
  shows "nip19_event_from_data x data = Inr e"
proof -
  let ?relays = "concat (map (\<lambda>r. tlv RELAY (relay_value r)) (ne_relays e))"
  let ?author = "case ne_author e of None \<Rightarrow> [] | Some a \<Rightarrow> tlv AUTHOR (pk_bytes a)"
  let ?kind = "case ne_kind e of None \<Rightarrow> [] | Some k \<Rightarrow> tlv KIND (kind_bytes k)"
  have data: "data = tlv SPECIAL (eid_bytes (ne_event_id e)) @ ?author @ ?kind @ ?relays"
    and small: "\<forall>r \<in> set (ne_relays e). length (relay_value r) \<le> 255"
    using assms(1) unfolding nip19_event_data_def
    by (auto simp: rbind_Inr push_tlv_Inr push_relays_Inr split: option.splits)
  have relays: "tlv_loop (event_field x) ?relays s = Inr (s\<lparr>ef_relays := ef_relays s @ ne_relays e\<rparr>)" for s
    using tlv_loop_event_relays small assms(3) by blast
  have kind: "tlv_loop (event_field x) (?kind @ rest) s =
      tlv_loop (event_field x) rest (s\<lparr>ef_kind := ne_kind e\<rparr>)" if "ef_kind s = None" for s rest
  proof (cases "ne_kind e")
    case (Some k)
    then have "tlv_kind (kind_bytes k) = Inr k"
      using assms(2) tlv_kind_bytes by (simp add: nip19_event_wf_def)
    moreover have "length (kind_bytes k) \<le> 255" by (simp add: kind_bytes_def)
    ultimately show ?thesis using Some that by (simp add: tlv_loop_tlv event_field_def tlv_types)
  qed (use that in \<open>cases s; simp\<close>)
  have author: "tlv_loop (event_field x) (?author @ rest) s =
      tlv_loop (event_field x) rest (s\<lparr>ef_author := ne_author e\<rparr>)" if "ef_author s = None" for s rest
  proof (cases "ne_author e")
    case (Some a)
    then have "public_key_from_slice (pk_bytes a) = Inr a" "length (pk_bytes a) \<le> 255"
      using assms(2) by (cases a; simp add: nip19_event_wf_def wf_public_key_def public_key_from_slice_def)+
    then show ?thesis using Some that by (simp add: tlv_loop_tlv event_field_def tlv_types)
  qed (use that in \<open>cases s; simp\<close>)
  have "event_id_from_slice (eid_bytes (ne_event_id e)) = Inr (ne_event_id e)"
    and "length (eid_bytes (ne_event_id e)) \<le> 255"
    using assms(2) by (simp_all add: nip19_event_wf_def wf_event_id_def event_id_from_slice_def)
  then show ?thesis
    unfolding nip19_event_from_data_def data
    by (simp add: tlv_loop_tlv event_field_def tlv_types author kind relays [unfolded tlv_types])
qed

lemma profile_data_read:
  assumes "nip19_profile_data p = Inr data" and "wf_public_key (np_public_key p)"
    and "\<forall>r \<in> set (np_relays p). relay_readable x r"
  shows "nip19_profile_from_data x data = Inr p"
proof -
  have data: "data = tlv SPECIAL (pk_bytes (np_public_key p)) @
      concat (map (\<lambda>r. tlv RELAY (relay_value r)) (np_relays p))"
    and small: "\<forall>r \<in> set (np_relays p). length (relay_value r) \<le> 255"
    using assms(1) by (auto simp: nip19_profile_data_def rbind_Inr push_tlv_Inr push_relays_Inr)
  have "public_key_from_slice (pk_bytes (np_public_key p)) = Inr (np_public_key p)"
    and "length (pk_bytes (np_public_key p)) \<le> 255"
    using assms(2) by (simp_all add: wf_public_key_def public_key_from_slice_def)
  then show ?thesis
    using small assms(3) unfolding nip19_profile_from_data_def data
    by (simp add: tlv_loop_tlv profile_field_def [of _ SPECIAL] tlv_loop_profile_relays)
qed

lemma coordinate_data_read:
  assumes "nip19_coordinate_data c = Inr data" and "coordinate_wf (nc_coordinate c)"
    and "\<forall>r \<in> set (nc_relays c). relay_readable x r"
  shows "nip19_coordinate_from_data x data = Inr c"
proof -
  let ?c = "nc_coordinate c"
  have data: "data = tlv SPECIAL (bytes_of (co_identifier ?c)) @ tlv AUTHOR (pk_bytes (co_public_key ?c)) @
      tlv KIND (kind_bytes (co_kind ?c)) @ concat (map (\<lambda>r. tlv RELAY (relay_value r)) (nc_relays c))"
    and small: "\<forall>r \<in> set (nc_relays c). length (relay_value r) \<le> 255" "length (co_identifier ?c) \<le> 255"
    using assms(1) by (auto simp: nip19_coordinate_data_def rbind_Inr push_tlv_Inr push_relays_Inr)
  have "public_key_from_slice (pk_bytes (co_public_key ?c)) = Inr (co_public_key ?c)"
    and "length (pk_bytes (co_public_key ?c)) \<le> 255"
    using assms(2) by (simp_all add: coordinate_wf_def wf_public_key_def public_key_from_slice_def)
  moreover have "tlv_kind (kind_bytes (co_kind ?c)) = Inr (co_kind ?c)" "length (kind_bytes (co_kind ?c)) \<le> 255"
    using assms(2) tlv_kind_bytes by (simp_all add: coordinate_wf_def kind_bytes_def)
  moreover have "lossy_string (bytes_of (co_identifier ?c)) = co_identifier ?c"
    using assms(2) lossy_string_bytes by (simp add: coordinate_wf_def)
  moreover have "tlv_loop (coordinate_field x) (concat (map (\<lambda>r. tlv RELAY (relay_value r)) (nc_relays c))) s =
      Inr (s\<lparr>cf_relays := cf_relays s @ nc_relays c\<rparr>)" for s
    using tlv_loop_coordinate_relays small(1) assms(3) by blast
  ultimately show ?thesis
    using small(2) unfolding nip19_coordinate_from_data_def data
    by (simp add: tlv_loop_tlv coordinate_field_def tlv_types)
qed

section \<open>What is read is well formed\<close>

text \<open>A property that every field keeps holds of the result of the loop.\<close>

lemma tlv_loop_keeps:
  assumes "tlv_loop f data s = Inr s'" and "P s"
    and "\<And>t v s s'. f t v s = Inr s' \<Longrightarrow> P s \<Longrightarrow> P s'"
  shows "P s'"
  using assms
proof (induction f data s rule: tlv_loop.induct)
  case (3 f t l bytes s)
  then obtain r where r: "f t (take (unat l) bytes) s = Inr r" "unat l \<le> length bytes"
      "tlv_loop f (drop (unat l) bytes) r = Inr s'"
    by (auto split: if_splits sum.splits)
  moreover have "P r" by (rule 3(4) [OF r(1) 3(3)])
  ultimately show ?case using 3(1) 3(4) by blast
qed simp_all

lemma event_id_from_slice_wf: "event_id_from_slice bs = Inr i \<Longrightarrow> wf_event_id i"
  by (auto simp: event_id_from_slice_def wf_event_id_def split: if_splits)

lemma public_key_from_slice_wf: "public_key_from_slice bs = Inr k \<Longrightarrow> wf_public_key k"
  by (auto simp: public_key_from_slice_def wf_public_key_def split: if_splits)

lemmas slices_wf = event_id_from_slice_wf public_key_from_slice_wf tlv_kind_canonical

lemma event_from_data_wf: "nip19_event_from_data x data = Inr e \<Longrightarrow> nip19_event_wf e"
proof -
  let ?P = "\<lambda>s. pred_option wf_event_id (ef_id s) \<and> pred_option wf_public_key (ef_author s) \<and>
      pred_option canonical (ef_kind s)"
  have step: "?P s'" if "event_field x t v s = Inr s'" "?P s" for t v s s'
  proof -
    have "pred_option wf_public_key (ok_of (public_key_from_slice v))"
      by (cases "public_key_from_slice v") (auto dest: slices_wf)
    then show ?thesis
      using that by (auto simp: event_field_def rbind_Inr dest: slices_wf split: if_splits)
  qed
  assume "nip19_event_from_data x data = Inr e"
  then obtain s i where s: "tlv_loop (event_field x) data
        \<lparr>ef_id = None, ef_author = None, ef_kind = None, ef_relays = []\<rparr> = Inr s" "ef_id s = Some i"
      "e = \<lparr>ne_event_id = i, ne_author = ef_author s, ne_kind = ef_kind s, ne_relays = ef_relays s\<rparr>"
    by (auto simp: nip19_event_from_data_def rbind_Inr ok_or_Inr)
  have "?P s" by (rule tlv_loop_keeps [where P = ?P, OF s(1) _ step]) simp_all
  then show ?thesis using s(2,3) by (simp add: nip19_event_wf_def)
qed

lemma profile_from_data_wf: "nip19_profile_from_data x data = Inr p \<Longrightarrow> wf_public_key (np_public_key p)"
proof -
  let ?P = "\<lambda>s. pred_option wf_public_key (fst s)"
  assume "nip19_profile_from_data x data = Inr p"
  then obtain k relays where s: "tlv_loop (profile_field x) data (None, []) = Inr (Some k, relays)"
      "np_public_key p = k"
    by (auto simp: nip19_profile_from_data_def rbind_Inr ok_or_Inr)
  have "?P (Some k, relays)"
    by (rule tlv_loop_keeps [where P = ?P, OF s(1)])
      (auto simp: profile_field_def rbind_Inr dest: slices_wf split: if_splits prod.splits)
  then show ?thesis using s(2) by simp
qed

lemma coordinate_from_data_wf:
  "nip19_coordinate_from_data x data = Inr c \<Longrightarrow> coordinate_wf (nc_coordinate c)"
proof -
  let ?P = "\<lambda>s. pred_option (\<lambda>i. valid_utf8 (bytes_of i)) (cf_identifier s) \<and>
      pred_option wf_public_key (cf_public_key s) \<and> pred_option canonical (cf_kind s)"
  have step: "?P s'" if "coordinate_field x t v s = Inr s'" "?P s" for t v s s'
    using that by (auto simp: coordinate_field_def rbind_Inr lossy_string_def lossy_is_valid
        dest: slices_wf split: if_splits)
  assume "nip19_coordinate_from_data x data = Inr c"
  then obtain s k pk i where s: "tlv_loop (coordinate_field x) data
        \<lparr>cf_identifier = None, cf_public_key = None, cf_kind = None, cf_relays = []\<rparr> = Inr s"
      "cf_kind s = Some k" "cf_public_key s = Some pk" "cf_identifier s = Some i"
      "nc_coordinate c = \<lparr>co_kind = k, co_public_key = pk, co_identifier = i\<rparr>"
    by (auto simp: nip19_coordinate_from_data_def rbind_Inr ok_or_Inr)
  have "?P s" by (rule tlv_loop_keeps [where P = ?P, OF s(1) _ step]) simp_all
  then show ?thesis using s(2-5) by (simp add: coordinate_wf_def)
qed

lemma nip19_from_bech32_wf:
  assumes "nip19_from_bech32 x X B s = Inr n"
  shows "nip19_wf X n"
proof -
  obtain hrp data p where "prefix_from_hrp hrp = Inr p" "be_decode B s = Some (hrp, data)"
    using assms by (auto simp: nip19_from_bech32_def bech32_decode_def rbind_Inr ok_or_Inr)
  then show ?thesis
    using assms
    by (cases p)
      (auto simp: nip19_from_bech32_def bech32_decode_def rbind_Inr wf_secret_key_def
        secret_key_from_slice_def event_from_data_wf profile_from_data_wf coordinate_from_data_wf
        dest: slices_wf split: if_splits)
qed

section \<open>A reference instance\<close>

text \<open>The data after the human-readable part and a separator, in two characters a byte.\<close>

definition ref_bech32 :: bech32 where
  "ref_bech32 =
     \<lparr>be_encode = (\<lambda>hrp d. Some (hrp @ ''1'' @ ref_hex_encode d)),
      be_decode = (\<lambda>s. case split_once (CHR ''1'') s of None \<Rightarrow> None
        | Some (hrp, r) \<Rightarrow> map_option (Pair hrp) (ref_hex_pairs r))\<rparr>"

lemma nip19_hrp_chars: "hrp \<in> set nip19_hrps \<Longrightarrow> CHR ''1'' \<notin> set hrp \<and> CHR '':'' \<notin> set hrp"
  by (auto simp: nip19_hrps_def prefixes)

lemma ref_bech32_ok [simp]: "bech32_ok ref_bech32"
  unfolding bech32_ok_def
  using nip19_hrp_chars ref_pairs_encode ref_encode_no_colon
  by (auto simp: ref_bech32_def split_once_append)

section \<open>Properties\<close>

lemma split_uri_scheme:
  assumes "CHR '':'' \<notin> set s"
  shows "split_uri (SCHEME @ '':'' @ s) = Inr s"
proof -
  have "CHR '':'' \<notin> set SCHEME" by (simp add: SCHEME_def)
  from split_on_append [OF this] show ?thesis
    using split_on_no_sep [OF assms] by (simp add: split_uri_def)
qed

lemma nip19_read_back:
  assumes B: "bech32_ok B" and wf: "nip19_wf X n"
    and relays: "\<forall>r \<in> set (nip19_relays n). relay_readable x r"
    and s: "nip19_to_bech32 B n = Some (Inr s)"
  shows "nip19_from_bech32 x X B s = Inr n \<and> CHR '':'' \<notin> set s"
proof (cases n)
  case (N19Secret k)
  then show ?thesis
    using s wf bech32_okD(1) [OF B nip19_hrps(1)]
    by (auto simp: nip19_to_bech32_def secret_key_to_bech32_def nip19_from_bech32_def bech32_decode_def
        prefix_from_hrp_def secret_key_from_slice_def wf_secret_key_def)
next
  case (N19Pubkey k)
  then show ?thesis
    using s wf bech32_okD(1) [OF B nip19_hrps(2)]
    by (auto simp: nip19_to_bech32_def public_key_to_bech32_def nip19_from_bech32_def bech32_decode_def
        prefix_from_hrp_def public_key_from_slice_def wf_public_key_def prefixes)
next
  case (N19Profile p)
  then obtain data where d: "nip19_profile_data p = Inr data" "be_encode B PREFIX_BECH32_PROFILE data = Some s"
    using s by (auto simp: nip19_to_bech32_def nip19_profile_to_bech32_def bech32_encode_def rbind_Inr ok_or_Inr)
  have "nip19_profile_from_data x data = Inr p"
    using profile_data_read [OF d(1)] wf relays N19Profile by simp
  then show ?thesis
    using bech32_okD(1) [OF B nip19_hrps(4) d(2)] N19Profile
    by (simp add: nip19_from_bech32_def bech32_decode_def prefix_from_hrp_def prefixes)
next
  case (N19EventId i)
  then show ?thesis
    using s wf bech32_okD(1) [OF B nip19_hrps(3)]
    by (auto simp: nip19_to_bech32_def event_id_to_bech32_def nip19_from_bech32_def bech32_decode_def
        prefix_from_hrp_def event_id_from_slice_def wf_event_id_def prefixes)
next
  case (N19Event e)
  then obtain data where d: "nip19_event_data e = Inr data" "be_encode B PREFIX_BECH32_EVENT data = Some s"
    using s by (auto simp: nip19_to_bech32_def nip19_event_to_bech32_def bech32_encode_def rbind_Inr ok_or_Inr)
  have "nip19_event_from_data x data = Inr e"
    using event_data_read [OF d(1)] wf relays N19Event by simp
  then show ?thesis
    using bech32_okD(1) [OF B nip19_hrps(5) d(2)] N19Event
    by (simp add: nip19_from_bech32_def bech32_decode_def prefix_from_hrp_def prefixes)
next
  case (N19Coordinate c)
  then obtain data where d: "nip19_coordinate_data c = Inr data"
      "be_encode B PREFIX_BECH32_COORDINATE data = Some s"
    using s by (auto simp: nip19_to_bech32_def coordinate_to_bech32_def bech32_encode_def rbind_Inr ok_or_Inr)
  have "nip19_coordinate_from_data x data = Inr c"
    using coordinate_data_read [OF d(1)] wf relays N19Coordinate by simp
  then show ?thesis
    using bech32_okD(1) [OF B nip19_hrps(6) d(2)] N19Coordinate
    by (simp add: nip19_from_bech32_def bech32_decode_def prefix_from_hrp_def prefixes)
qed

lemma key_to_bech32:
  assumes "bech32_ok B" and "hrp \<in> set nip19_hrps" and "length d = 32"
  shows "be_encode B hrp d \<noteq> None"
proof -
  have "bech32_fits hrp d" using assms(2,3) by (auto simp: bech32_fits_def nip19_hrps_def prefixes)
  then show ?thesis using bech32_okD(2) [OF assms(1,2)] by auto
qed

text \<open>
  C19: Whatever entity of NIP-19 is printed is read back as it was: identifiers, the optional author
  and kind, and all relays in their order. Printing never panics; it fails only on a value of more
  than 255 bytes or a string that is too long for Bech32. As a \<open>nostr:\<close> URI the entity is read
  back as well, unless it is a secret key, which a URI is refused to carry.
\<close>

theorem nip19_roundtrip:
  assumes "bech32_ok B" and "crypto_ok X" and "nip19_wf X n"
    and "\<forall>r \<in> set (nip19_relays n). relay_readable x r"
  shows "\<exists>r. nip19_to_bech32 B n = Some r \<and>
    (\<forall>s. r = Inr s \<longrightarrow> nip19_from_bech32 x X B s = Inr n \<and>
       nip21_parse x X B (SCHEME @ '':'' @ s) = nip21_try_from n)"
proof -
  have "nip19_to_bech32 B n \<noteq> None"
    using key_to_bech32 [OF assms(1)] assms(2,3)
    by (cases n) (simp_all add: nip19_to_bech32_def secret_key_to_bech32_def public_key_to_bech32_def
        event_id_to_bech32_def wf_secret_key_def wf_public_key_def wf_event_id_def crypto_ok_def)
  moreover have "nip21_parse x X B (SCHEME @ '':'' @ s) = nip21_try_from n"
    if "nip19_to_bech32 B n = Some (Inr s)" for s
    using nip19_read_back [OF assms(1,3,4) that] split_uri_scheme [of s] by (simp add: nip21_parse_def)
  ultimately show ?thesis using nip19_read_back [OF assms(1,3,4)] by blast
qed

definition ref_nip19_event :: nip19 where
  "ref_nip19_event =
     N19Event \<lparr>ne_event_id = ref_id 1, ne_author = Some (ref_pk 2), ne_kind = Some (Named 1),
       ne_relays = [ref_url, ref_url]\<rparr>"

lemma ref_url_readable [simp]: "relay_readable ref_externals ref_url"
proof -
  have "relay_url_as_str ref_url = ''wss://r.io''"
    by (simp add: relay_url_as_str_def ref_url_def trim_end_matches_def)
  then show ?thesis
    by (simp add: relay_readable_def relay_value_def bytes_of_def valid_ascii)
qed

theorem nip19_roundtrip_witness:
  "\<exists>s. nip19_to_bech32 ref_bech32 ref_nip19_event = Some (Inr s) \<and>
     nip19_from_bech32 ref_externals \<lparr>valid_secret = (\<lambda>bs. length bs = 32), ecdh_point = (\<lambda>c k. None),
       hmac_sha256 = (\<lambda>k m. replicate 32 0), chacha20 = (\<lambda>k n i. 0)\<rparr> ref_bech32 s = Inr ref_nip19_event"
proof -
  let ?X = "\<lparr>valid_secret = (\<lambda>bs. length bs = 32), ecdh_point = (\<lambda>c k. None),
       hmac_sha256 = (\<lambda>k m. replicate 32 0), chacha20 = (\<lambda>k n i. 0)\<rparr> :: crypto"
  have "nip19_wf ?X ref_nip19_event"
    by (simp add: ref_nip19_event_def nip19_event_wf_def canonical_def from_u16_def kind_table_def)
  moreover have "crypto_ok ?X" by (simp add: crypto_ok_def)
  ultimately have "\<exists>r. nip19_to_bech32 ref_bech32 ref_nip19_event = Some r \<and>
      (\<forall>s. r = Inr s \<longrightarrow> nip19_from_bech32 ref_externals ?X ref_bech32 s = Inr ref_nip19_event \<and>
         nip21_parse ref_externals ?X ref_bech32 (SCHEME @ '':'' @ s) = nip21_try_from ref_nip19_event)"
    by (intro nip19_roundtrip) (auto simp: ref_nip19_event_def)
  moreover have "\<exists>s. nip19_to_bech32 ref_bech32 ref_nip19_event = Some (Inr s)"
    by (simp add: nip19_to_bech32_def ref_nip19_event_def nip19_event_to_bech32_def nip19_event_data_def
        push_tlv_def u8_max_def ref_id_def ref_pk_def kind_bytes_def bech32_encode_def ref_bech32_def
        relay_url_as_str_def ref_url_def trim_end_matches_def)
  ultimately show ?thesis by auto
qed

end
