(* ===== verification/Nip44_Payload.thy ===== *)
theory Nip44_Payload
  imports Nostr_Secrets
begin

text \<open>
  Encrypted payloads of NIP-44 version 2 (nostr/src/nips/nip44/v2.rs): the padding, the layout of a
  payload, encryption in place and decryption. Numbers are natural numbers; what the code checks
  with \<open>checked_add\<close> is checked here, and the bounds of the padding show that no other operation
  on 64 bits overflows. Whether memory can be reserved is an argument.
\<close>

section \<open>Sizes\<close>

definition VERSION_SIZE :: nat where "VERSION_SIZE = 1"
definition NONCE_SIZE :: nat where "NONCE_SIZE = 32"
definition LEGACY_LENGTH_PREFIX_SIZE :: nat where "LEGACY_LENGTH_PREFIX_SIZE = 2"
definition EXTENDED_LENGTH_PREFIX_SIZE :: nat where "EXTENDED_LENGTH_PREFIX_SIZE = 6"
definition EXTENDED_PREFIX_THRESHOLD :: nat where "EXTENDED_PREFIX_THRESHOLD = 65536"
definition MAX_PLAINTEXT_SIZE :: nat where "MAX_PLAINTEXT_SIZE = u32_max"
definition HMAC_SIZE :: nat where "HMAC_SIZE = 32"
definition MIN_CIPHERTEXT_SIZE :: nat where
  "MIN_CIPHERTEXT_SIZE = LEGACY_LENGTH_PREFIX_SIZE + 32"
definition MIN_PAYLOAD_SIZE :: nat where
  "MIN_PAYLOAD_SIZE = VERSION_SIZE + NONCE_SIZE + MIN_CIPHERTEXT_SIZE + HMAC_SIZE"
definition ISIZE_MAX :: nat where "ISIZE_MAX = 9223372036854775807"

lemmas sizes = VERSION_SIZE_def NONCE_SIZE_def LEGACY_LENGTH_PREFIX_SIZE_def
  EXTENDED_LENGTH_PREFIX_SIZE_def HMAC_SIZE_def MIN_CIPHERTEXT_SIZE_def MIN_PAYLOAD_SIZE_def

datatype error_v2 =
  PayloadTooShort | NotFound string | MessageEmpty | MessageTooLong | PlatformSizeUnsupported
| AllocationFailed | InvalidHmac | InvalidPadding

fun error_of_v2 :: "error_v2 \<Rightarrow> error_kind" where
  "error_of_v2 PayloadTooShort = Invalid"
| "error_of_v2 (NotFound v) = Missing"
| "error_of_v2 MessageEmpty = Invalid"
| "error_of_v2 MessageTooLong = Invalid"
| "error_of_v2 PlatformSizeUnsupported = Unsupported"
| "error_of_v2 AllocationFailed = OtherError"
| "error_of_v2 InvalidHmac = Crypto"
| "error_of_v2 InvalidPadding = Invalid"

definition from_v2 :: "error_v2 + 'a \<Rightarrow> 'a res" where
  "from_v2 r = (case r of Inl e \<Rightarrow> Inl (error_of_v2 e) | Inr a \<Rightarrow> Inr a)"

section \<open>Padding\<close>

text \<open>\<open>u64::leading_zeros\<close>: 64 less the number of significant bits.\<close>

fun significant_bits :: "nat \<Rightarrow> nat" where
  "significant_bits n = (if n = 0 then 0 else Suc (significant_bits (n div 2)))"

declare significant_bits.simps [simp del]

definition leading_zeros_u64 :: "nat \<Rightarrow> nat" where
  "leading_zeros_u64 x = 64 - significant_bits x"

definition log2_round_down :: "nat \<Rightarrow> nat" where
  "log2_round_down x = (if x = 0 then 0 else 64 - 1 - leading_zeros_u64 x)"

definition calc_padding :: "nat \<Rightarrow> nat" where
  "calc_padding len =
     (if len \<le> 32 then 32
      else (let nextpower = 2 ^ (log2_round_down (len - 1) + 1);
                chunk = if nextpower \<le> 256 then 32 else nextpower div 8
            in chunk * ((len - 1) div chunk + 1)))"

lemma significant_bits_bounds:
  "0 < n \<Longrightarrow> 2 ^ (significant_bits n - 1) \<le> n \<and> n < 2 ^ significant_bits n \<and> 0 < significant_bits n"
proof (induction n rule: significant_bits.induct)
  case (1 n)
  show ?case
  proof (cases "n div 2 = 0")
    case True
    then have "n = 1" using 1(2) by simp
    then show ?thesis by (simp add: significant_bits.simps)
  next
    case False
    then have IH: "2 ^ (significant_bits (n div 2) - 1) \<le> n div 2" "n div 2 < 2 ^ significant_bits (n div 2)"
        "0 < significant_bits (n div 2)"
      using 1 by auto
    have len: "significant_bits n = Suc (significant_bits (n div 2))" using 1(2) by (subst significant_bits.simps) simp
    obtain k where k: "significant_bits (n div 2) = Suc k" using IH(3) gr0_implies_Suc by blast
    then show ?thesis using IH(1,2) len by auto
  qed
qed

lemma log2_bounds:
  assumes "0 < n" and "n \<le> u64_max"
  shows "2 ^ log2_round_down n \<le> n" and "n < 2 ^ (log2_round_down n + 1)"
proof -
  note b = significant_bits_bounds [OF assms(1)]
  have "(2 :: nat) ^ (significant_bits n - 1) < 2 ^ 64"
    using b assms(2) by (simp add: u64_max_def)
  then have "significant_bits n - 1 < 64" by (simp only: power_strict_increasing_iff)
  then have "log2_round_down n = significant_bits n - 1"
    using assms(1) by (simp add: log2_round_down_def leading_zeros_u64_def)
  then show "2 ^ log2_round_down n \<le> n" "n < 2 ^ (log2_round_down n + 1)" using b by auto
qed

text \<open>The chunk of a length: the padded length is the next multiple of it.\<close>

definition pad_chunk :: "nat \<Rightarrow> nat" where
  "pad_chunk len = (let nextpower = 2 ^ (log2_round_down (len - 1) + 1)
     in if nextpower \<le> 256 then 32 else nextpower div 8)"

lemma calc_padding_chunk:
  "32 < len \<Longrightarrow> calc_padding len = pad_chunk len * ((len - 1) div pad_chunk len + 1)"
  by (simp add: calc_padding_def pad_chunk_def Let_def)

lemma pad_chunk_bounds:
  assumes "32 < len" and "len \<le> u64_max"
  shows "0 < pad_chunk len" and "pad_chunk len \<le> max 32 ((len - 1) div 4)"
proof -
  let ?l = "log2_round_down (len - 1)"
  have b: "2 ^ ?l \<le> len - 1" "len - 1 < 2 ^ (?l + 1)" using log2_bounds [of "len - 1"] assms by auto
  show "0 < pad_chunk len" "pad_chunk len \<le> max 32 ((len - 1) div 4)"
  proof (atomize (full), cases "256 < (2 :: nat) ^ (?l + 1)")
    case True
    then have "(2 :: nat) ^ 8 < 2 ^ (?l + 1)" by simp
    then have "8 < ?l + 1" by (simp only: power_strict_increasing_iff)
    then have "?l = (?l - 2) + 2" by simp
    then obtain k where k: "?l = k + 2" by blast
    then show "0 < pad_chunk len \<and> pad_chunk len \<le> max 32 ((len - 1) div 4)"
      using True b by (simp add: pad_chunk_def power_add)
  qed (simp add: pad_chunk_def)
qed

lemma pad_chunk_power: "pad_chunk len = 2 ^ max 5 (log2_round_down (len - 1) - 2)"
proof (cases "256 < (2 :: nat) ^ (log2_round_down (len - 1) + 1)")
  case True
  then have "(2 :: nat) ^ 8 < 2 ^ (log2_round_down (len - 1) + 1)" by simp
  then have l: "8 < log2_round_down (len - 1) + 1" by (simp only: power_strict_increasing_iff)
  define k where "k = log2_round_down (len - 1) - 2"
  have "log2_round_down (len - 1) = k + 2" "5 \<le> k" using l by (simp_all add: k_def)
  then show ?thesis using True by (simp add: pad_chunk_def power_add max_def)
next
  case False
  then have "(2 :: nat) ^ (log2_round_down (len - 1) + 1) \<le> 2 ^ 8" by simp
  then have l: "log2_round_down (len - 1) + 1 \<le> 8" by (simp only: power_increasing_iff)
  then have "max 5 (log2_round_down (len - 1) - 2) = 5" by simp
  then show ?thesis using False by (simp add: pad_chunk_def)
qed

lemma log2_mono:
  assumes "0 < a" and "a \<le> b" and "b \<le> u64_max"
  shows "log2_round_down a \<le> log2_round_down b"
proof (rule ccontr)
  assume "\<not> ?thesis"
  then have "(2 :: nat) ^ (log2_round_down b + 1) \<le> 2 ^ log2_round_down a"
    by (intro power_increasing) simp_all
  then show False using log2_bounds [of a] log2_bounds [of b] assms by linarith
qed

lemma next_multiple:
  fixes c :: nat
  assumes "0 < c" and "0 < n"
  shows "n \<le> c * ((n - 1) div c + 1)" and "c * ((n - 1) div c + 1) \<le> n - 1 + c"
    and "c dvd m \<Longrightarrow> n \<le> m \<Longrightarrow> c * ((n - 1) div c + 1) \<le> m"
proof -
  define q r where "q = (n - 1) div c" and "r = (n - 1) mod c"
  have "n - 1 = c * q + r" "r < c" using assms(1) by (simp_all add: q_def r_def)
  then have n: "n = c * q + r + 1" "r < c" using assms(2) by simp_all
  show "n \<le> c * ((n - 1) div c + 1)" "c * ((n - 1) div c + 1) \<le> n - 1 + c"
    unfolding q_def [symmetric] using n by (simp_all add: distrib_left)
  assume "c dvd m" "n \<le> m"
  then obtain k where k: "m = c * k" by blast
  have "n - 1 < c * k" using \<open>n \<le> m\<close> assms(2) k by simp
  then have "(n - 1) div c < k" using assms(1) by (simp add: div_less_iff_less_mult mult.commute)
  then show "c * ((n - 1) div c + 1) \<le> m" unfolding k by (intro mult_le_mono2) simp
qed

lemma calc_padding_small: "len \<le> 32 \<Longrightarrow> calc_padding len = 32"
  by (simp add: calc_padding_def)

lemma calc_padding_bounds:
  assumes "0 < len" and "len \<le> u64_max"
  shows "len \<le> calc_padding len" and "calc_padding len \<le> len - 1 + max 32 ((len - 1) div 4)"
proof -
  show "len \<le> calc_padding len" "calc_padding len \<le> len - 1 + max 32 ((len - 1) div 4)"
  proof (atomize (full), cases "len \<le> 32")
    case False
    then have c: "0 < pad_chunk len" "pad_chunk len \<le> max 32 ((len - 1) div 4)"
      using pad_chunk_bounds [of len] assms(2) by auto
    show "len \<le> calc_padding len \<and> calc_padding len \<le> len - 1 + max 32 ((len - 1) div 4)"
      using next_multiple(1,2) [OF c(1) assms(1)] c(2) calc_padding_chunk [of len] False by linarith
  qed (use assms in \<open>simp add: calc_padding_small\<close>)
qed

lemma calc_padding_mono:
  assumes "a \<le> b" and "b \<le> u64_max"
  shows "calc_padding a \<le> calc_padding b"
proof (cases "a \<le> 32")
  case True
  then show ?thesis
  proof (cases "b \<le> 32")
    case False
    then have "b \<le> calc_padding b" using calc_padding_bounds(1) [of b] assms by simp
    then show ?thesis using True False by (simp add: calc_padding_small)
  qed (simp add: calc_padding_small)
next
  case False
  then have b: "32 < b" using assms(1) by simp
  have "log2_round_down (a - 1) \<le> log2_round_down (b - 1)"
    by (rule log2_mono) (use False assms in auto)
  then have "pad_chunk a dvd pad_chunk b"
    unfolding pad_chunk_power by (intro le_imp_power_dvd) auto
  then have "pad_chunk a dvd calc_padding b" using calc_padding_chunk [OF b] by simp
  moreover have "a \<le> calc_padding b" using calc_padding_bounds(1) [of b] b assms by simp
  ultimately show ?thesis
    using next_multiple(3) [of "pad_chunk a" a "calc_padding b"] pad_chunk_bounds(1) [of a] False assms
      calc_padding_chunk [of a] by simp
qed

lemma calc_padding_32: "32 dvd calc_padding len"
proof (cases "len \<le> 32")
  case False
  have "(2 :: nat) ^ 5 dvd pad_chunk len" unfolding pad_chunk_power by (intro le_imp_power_dvd) simp
  then show ?thesis using calc_padding_chunk [of len] False by simp
qed (simp add: calc_padding_small)

lemma calc_padding_max: "len \<le> u32_max \<Longrightarrow> calc_padding len \<le> 5368709118"
  using calc_padding_bounds(2) [of len] by (cases "len = 0") (auto simp: calc_padding_small u32_max_def u64_max_def)

section \<open>Layout\<close>

record payload_layout =
  pl_prefix_len :: nat
  pl_ciphertext_len :: nat
  pl_payload_len :: nat

definition MAX_CIPHERTEXT_SIZE :: nat where
  "MAX_CIPHERTEXT_SIZE = EXTENDED_LENGTH_PREFIX_SIZE + calc_padding MAX_PLAINTEXT_SIZE"
definition MAX_PAYLOAD_SIZE :: nat where
  "MAX_PAYLOAD_SIZE = VERSION_SIZE + NONCE_SIZE + MAX_CIPHERTEXT_SIZE + HMAC_SIZE"
definition MAX_ENCODED_PAYLOAD_SIZE :: nat where
  "MAX_ENCODED_PAYLOAD_SIZE = (MAX_PAYLOAD_SIZE + 2) div 3 * 4"

definition payload_layout_new :: "nat \<Rightarrow> error_v2 + payload_layout" where
  "payload_layout_new plaintext_len =
     (if plaintext_len = 0 then Inl MessageEmpty
      else if plaintext_len > MAX_PLAINTEXT_SIZE then Inl MessageTooLong
      else
        (let prefix_len = (if plaintext_len < EXTENDED_PREFIX_THRESHOLD
               then LEGACY_LENGTH_PREFIX_SIZE else EXTENDED_LENGTH_PREFIX_SIZE);
             padded_len = calc_padding plaintext_len
         in rbind (ok_or (checked_add u64_max prefix_len padded_len) MessageTooLong) (\<lambda>ciphertext_len.
            rbind (ok_or
                (case checked_add u64_max VERSION_SIZE NONCE_SIZE of None \<Rightarrow> None | Some n \<Rightarrow>
                 case checked_add u64_max n ciphertext_len of None \<Rightarrow> None | Some n \<Rightarrow>
                 checked_add u64_max n HMAC_SIZE) MessageTooLong) (\<lambda>payload_len.
            Inr \<lparr>pl_prefix_len = prefix_len, pl_ciphertext_len = ciphertext_len,
                 pl_payload_len = payload_len\<rparr>))))"

definition prefix_len_of :: "nat \<Rightarrow> nat" where
  "prefix_len_of n = (if n < 65536 then 2 else 6)"

lemma layout_Inr:
  "payload_layout_new n = Inr l \<longleftrightarrow> 0 < n \<and> n \<le> u32_max \<and>
     l = \<lparr>pl_prefix_len = prefix_len_of n, pl_ciphertext_len = prefix_len_of n + calc_padding n,
          pl_payload_len = 65 + prefix_len_of n + calc_padding n\<rparr>"
proof -
  have "calc_padding n \<le> 5368709118" if "n \<le> u32_max" using calc_padding_max that .
  then show ?thesis
    by (auto simp: payload_layout_new_def prefix_len_of_def MAX_PLAINTEXT_SIZE_def sizes
        EXTENDED_PREFIX_THRESHOLD_def checked_add_def u64_max_def Let_def)
qed

section \<open>Keys\<close>

datatype conversation_key = ConversationKey (ck_bytes: "u8 list")

definition conversation_key_derive :: "crypto \<Rightarrow> secret_key \<Rightarrow> public_key \<Rightarrow> conversation_key res" where
  "conversation_key_derive X sk pk =
     rbind (generate_shared_key X sk pk) (\<lambda>shared_key.
       Inr (ConversationKey (hkdf_extract X (bytes_of ''nip44-v2'') shared_key)))"

definition conversation_key_from_slice :: "u8 list \<Rightarrow> conversation_key res" where
  "conversation_key_from_slice bs = (if length bs = 32 then Inr (ConversationKey bs) else Inl Malformed)"

definition MESSAGE_KEYS_SIZE :: nat where "MESSAGE_KEYS_SIZE = 76"

definition get_message_keys :: "crypto \<Rightarrow> conversation_key \<Rightarrow> u8 list \<Rightarrow> u8 list" where
  "get_message_keys X K nonce = hkdf_expand_into X (ck_bytes K) nonce MESSAGE_KEYS_SIZE"

definition mk_encryption :: "u8 list \<Rightarrow> u8 list" where "mk_encryption keys = range_slice 0 32 keys"
definition mk_nonce :: "u8 list \<Rightarrow> u8 list" where "mk_nonce keys = range_slice 32 44 keys"
definition mk_auth :: "u8 list \<Rightarrow> u8 list" where "mk_auth keys = range_slice 44 76 keys"

text \<open>\<open>apply_keystream\<close> of a fresh cipher.\<close>

definition apply_keystream :: "crypto \<Rightarrow> u8 list \<Rightarrow> u8 list \<Rightarrow> u8 list" where
  "apply_keystream X keys bs =
     map2 (\<lambda>b i. xor b (chacha20 X (mk_encryption keys) (mk_nonce keys) i)) bs [0..<length bs]"

lemma length_keystream [simp]: "length (apply_keystream X keys bs) = length bs"
  by (simp add: apply_keystream_def)

lemma keystream_twice [simp]: "apply_keystream X keys (apply_keystream X keys bs) = bs"
  by (rule nth_equalityI) (simp_all add: apply_keystream_def xor.assoc)

section \<open>Encryption and decryption\<close>

text \<open>The size of a reservation is supported, and memory for it is there.\<close>

definition supported_allocation_size :: "nat \<Rightarrow> error_v2 + nat" where
  "supported_allocation_size len =
     (if len > ISIZE_MAX then Inl PlatformSizeUnsupported
      else if len > usize_max then Inl PlatformSizeUnsupported else Inr len)"

definition try_reserve_exact :: "(nat \<Rightarrow> bool) \<Rightarrow> nat \<Rightarrow> error_v2 + unit" where
  "try_reserve_exact memory n = (if memory n then Inr () else Inl AllocationFailed)"

definition vec_resize :: "nat \<Rightarrow> 'a \<Rightarrow> 'a list \<Rightarrow> 'a list" where
  "vec_resize n a xs = take n xs @ replicate (n - length xs) a"

definition v2_encrypt_to_bytes_with_nonce ::
  "crypto \<Rightarrow> (nat \<Rightarrow> bool) \<Rightarrow> conversation_key \<Rightarrow> u8 list \<Rightarrow> u8 list \<Rightarrow> error_v2 + u8 list" where
  "v2_encrypt_to_bytes_with_nonce X memory K plaintext nonce =
     (let len = length plaintext in
      rbind (payload_layout_new len) (\<lambda>layout.
      rbind (supported_allocation_size (pl_payload_len layout)) (\<lambda>payload_len.
      rbind (supported_allocation_size (pl_ciphertext_len layout)) (\<lambda>ciphertext_len.
      (let keys = get_message_keys X K nonce;
           mac_start = VERSION_SIZE + NONCE_SIZE + ciphertext_len
       in rbind (try_reserve_exact memory payload_len) (\<lambda>_.
      (let payload = [2] @ nonce;
           payload = payload @
             (if pl_prefix_len layout = LEGACY_LENGTH_PREFIX_SIZE then be_bytes 2 len
              else [0, 0] @ be_bytes 4 len);
           payload = payload @ plaintext;
           payload = vec_resize payload_len 0 payload;
           ciphertext = apply_keystream X keys (range_slice (VERSION_SIZE + NONCE_SIZE) mac_start payload);
           payload = take (VERSION_SIZE + NONCE_SIZE) payload @ ciphertext @ drop mac_start payload;
           hmac = hmac_sha256 X (mk_auth keys) (range_slice VERSION_SIZE mac_start payload)
       in Inr (take mac_start payload @ hmac))))))))"

definition validate_payload_size :: "nat \<Rightarrow> error_v2 + unit" where
  "validate_payload_size len = (if len > MAX_PAYLOAD_SIZE then Inl MessageTooLong else Inr ())"

definition parse_plaintext_length :: "u8 list \<Rightarrow> error_v2 + nat \<times> nat" where
  "parse_plaintext_length buffer =
     rbind (ok_or (get_range 0 LEGACY_LENGTH_PREFIX_SIZE buffer) InvalidPadding) (\<lambda>first_two.
     (let legacy_len = be_val first_two
      in if legacy_len \<noteq> 0 then Inr (LEGACY_LENGTH_PREFIX_SIZE, legacy_len)
         else
           rbind (ok_or (get_range LEGACY_LENGTH_PREFIX_SIZE EXTENDED_LENGTH_PREFIX_SIZE buffer)
             InvalidPadding) (\<lambda>extended_bytes.
           (let extended_len = be_val extended_bytes
            in if extended_len < EXTENDED_PREFIX_THRESHOLD then Inl InvalidPadding
               else if extended_len > usize_max then Inl PlatformSizeUnsupported
               else Inr (EXTENDED_LENGTH_PREFIX_SIZE, extended_len)))))"

text \<open>What follows the decryption of the buffer: the plaintext without length and padding.\<close>

definition unpad :: "u8 list \<Rightarrow> error_v2 + u8 list" where
  "unpad decrypted =
     rbind (parse_plaintext_length decrypted) (\<lambda>(prefix_len, unpadded_len).
     rbind (ok_or (checked_add usize_max prefix_len unpadded_len) InvalidPadding) (\<lambda>plaintext_end.
     rbind (ok_or (get_range prefix_len plaintext_end decrypted) InvalidPadding) (\<lambda>unpadded.
     if unpadded = [] then Inl MessageEmpty
     else if length unpadded \<noteq> unpadded_len then Inl InvalidPadding
     else rbind (ok_or (checked_add u64_max prefix_len (calc_padding unpadded_len)) InvalidPadding)
       (\<lambda>expected_len.
         if length decrypted \<noteq> expected_len then Inl InvalidPadding else Inr unpadded))))"

definition v2_decrypt_to_bytes ::
  "crypto \<Rightarrow> (nat \<Rightarrow> bool) \<Rightarrow> conversation_key \<Rightarrow> u8 list \<Rightarrow> error_v2 + u8 list" where
  "v2_decrypt_to_bytes X memory K payload =
     (let len = length payload in
      if len < MIN_PAYLOAD_SIZE then Inl PayloadTooShort
      else
        rbind (validate_payload_size len) (\<lambda>_.
        rbind (ok_or (get_range VERSION_SIZE (VERSION_SIZE + NONCE_SIZE) payload)
          (NotFound ''nonce'')) (\<lambda>nonce.
        rbind (ok_or (get_range (VERSION_SIZE + NONCE_SIZE) (len - HMAC_SIZE) payload)
          (NotFound ''buffer'')) (\<lambda>buffer.
        rbind (ok_or (get_range (len - HMAC_SIZE) len payload) (NotFound ''hmac'')) (\<lambda>mac.
        (let keys = get_message_keys X K nonce
         in if mac \<noteq> hmac_sha256 X (mk_auth keys) (nonce @ buffer) then Inl InvalidHmac
            else
              rbind (try_reserve_exact memory (length buffer)) (\<lambda>_.
                unpad (apply_keystream X keys buffer))))))))"

section \<open>What a payload is\<close>

text \<open>The length in front of the plaintext, and the plaintext with length and padding.\<close>

definition length_prefix :: "nat \<Rightarrow> u8 list" where
  "length_prefix n = (if n < 65536 then be_bytes 2 n else [0, 0] @ be_bytes 4 n)"

definition padded :: "u8 list \<Rightarrow> u8 list \<Rightarrow> u8 list" where
  "padded plaintext padding = length_prefix (length plaintext) @ plaintext @ padding"

lemma length_length_prefix [simp]: "length (length_prefix n) = prefix_len_of n"
  by (simp add: length_prefix_def prefix_len_of_def)

lemma parse_length_prefix:
  assumes "0 < n" and "n \<le> u32_max"
  shows "parse_plaintext_length (length_prefix n @ bs) = Inr (prefix_len_of n, n)"
proof (cases "n < 65536")
  case True
  then have "be_val (be_bytes 2 n) = n" by (intro be_val_bytes) simp
  then show ?thesis
    using True assms(1) by (simp add: parse_plaintext_length_def length_prefix_def prefix_len_of_def sizes
        get_range_def range_slice_def)
next
  case False
  have v: "be_val (be_bytes 4 n) = n" using assms(2) by (intro be_val_bytes) (simp add: u32_max_def)
  have "be_val [0, 0] = 0" by (simp add: be_val_def)
  then show ?thesis
    using False v assms by (simp add: parse_plaintext_length_def length_prefix_def prefix_len_of_def sizes
        get_range_def range_slice_def EXTENDED_PREFIX_THRESHOLD_def u32_max_def usize_max_def)
qed

lemma parse_length_Inr:
  assumes "parse_plaintext_length bs = Inr (p, n)"
  shows "p = prefix_len_of n \<and> take p bs = length_prefix n \<and> n \<le> u32_max"
proof -
  from assms obtain two where two: "get_range 0 2 bs = Some two"
    by (auto simp: parse_plaintext_length_def rbind_Inr ok_or_Inr sizes)
  then have t: "two = take 2 bs" "length two = 2" by (auto simp: get_range_Some range_slice_def)
  have small: "be_val two < 65536" using be_val_less [of two] t(2) by simp
  show ?thesis
  proof (cases "be_val two = 0")
    case False
    then have "p = 2" "n = be_val two"
      using assms two by (simp_all add: parse_plaintext_length_def sizes)
    then show ?thesis
      using small t be_bytes_val [of two] by (simp add: prefix_len_of_def length_prefix_def u32_max_def)
  next
    case True
    then obtain ext where ext: "get_range 2 6 bs = Some ext" "65536 \<le> be_val ext" "p = 6" "n = be_val ext"
      using assms two by (auto simp: parse_plaintext_length_def rbind_Inr ok_or_Inr sizes
          EXTENDED_PREFIX_THRESHOLD_def Let_def split: if_splits)
    then have e: "ext = take 4 (drop 2 bs)" "length ext = 4" by (auto simp: get_range_Some range_slice_def)
    have "two = [0, 0]" using be_bytes_val [of two] True t(2) by (simp add: numeral_2_eq_2)
    moreover have "take 6 bs = two @ ext" unfolding t(1) e(1) by (simp flip: take_add)
    ultimately show ?thesis
      using ext be_bytes_val [of ext] e(2) be_val_less [of ext]
      by (simp add: prefix_len_of_def length_prefix_def u32_max_def)
  qed
qed

lemma unpad_padded:
  assumes "0 < length p" and "length p \<le> u32_max"
    and "length padding = calc_padding (length p) - length p"
  shows "unpad (padded p padding) = Inr p"
proof -
  have "length p \<le> calc_padding (length p)"
    using calc_padding_bounds(1) [of "length p"] assms(1,2) by (simp add: u32_max_def u64_max_def)
  moreover have "prefix_len_of (length p) \<le> 6" by (simp add: prefix_len_of_def)
  ultimately show ?thesis
    using assms calc_padding_max [OF assms(2)]
    by (auto simp: unpad_def padded_def parse_length_prefix checked_add_def u32_max_def usize_max_def
        u64_max_def get_range_def slice_append)
qed

lemma unpad_Inr:
  assumes "unpad bs = Inr p"
  shows "\<exists>padding. bs = padded p padding \<and> 0 < length p \<and> length p \<le> u32_max \<and>
    length padding = calc_padding (length p) - length p"
proof -
  obtain l n where parse: "parse_plaintext_length bs = Inr (l, n)"
    using assms by (auto simp: unpad_def rbind_Inr)
  note l = parse_length_Inr [OF parse]
  obtain e where "get_range l e bs = Some p" "e = l + n" "p \<noteq> []" "length p = n"
      "length bs = l + calc_padding n"
    using assms parse by (auto simp: unpad_def rbind_Inr ok_or_Inr checked_add_def split: if_splits)
  then have p: "p = range_slice l (l + n) bs" "l + n \<le> length bs" "length p = n" "p \<noteq> []"
      "length bs = l + calc_padding n"
    by (auto simp: get_range_Some)
  have "bs = take l bs @ range_slice l (l + n) bs @ drop (l + n) bs"
    using slice_split [of l "l + n" bs] by simp
  then have "bs = take l bs @ p @ drop (l + n) bs" using p(1) by simp
  then have "bs = padded p (drop (l + n) bs)" using l p(3) unfolding padded_def by metis
  moreover have "length (drop (l + n) bs) = calc_padding n - n" using p(2,5) by simp
  ultimately show ?thesis using p(3,4) l by blast
qed

text \<open>An encrypted payload written out: version, nonce, ciphertext, authentication code.\<close>

definition sealed :: "crypto \<Rightarrow> conversation_key \<Rightarrow> u8 list \<Rightarrow> u8 list \<Rightarrow> u8 list" where
  "sealed X K nonce buffer =
     (let keys = get_message_keys X K nonce; ciphertext = apply_keystream X keys buffer
      in nonce @ ciphertext @ hmac_sha256 X (mk_auth keys) (nonce @ ciphertext))"

lemma length_hmac: "crypto_ok X \<Longrightarrow> length (hmac_sha256 X k m) = 32"
  by (simp add: crypto_ok_def)

lemma cons_parts:
  assumes "Suc (length a) + length b = n"
  shows "take n (v # a @ b @ c) = v # a @ b" and "drop n (v # a @ b @ c) = c"
  using assms append_eq_conv_conj [of "v # a @ b" c "v # a @ b @ c"] by auto

lemma v2_encrypt_sealed:
  assumes X: "crypto_ok X" and "length nonce = 32" and p: "0 < length p" "length p \<le> u32_max"
    and "\<forall>n. memory n"
  shows "v2_encrypt_to_bytes_with_nonce X memory K p nonce =
    Inr (2 # sealed X K nonce (padded p (replicate (calc_padding (length p) - length p) 0)))"
proof -
  let ?c = "calc_padding (length p)" and ?l = "prefix_len_of (length p)"
  let ?pad = "padded p (replicate (?c - length p) 0)" and ?keys = "get_message_keys X K nonce"
  let ?ct = "apply_keystream X ?keys ?pad"
  have c: "length p \<le> ?c"
    using calc_padding_bounds(1) [of "length p"] p by (simp add: u32_max_def u64_max_def)
  have l: "?l \<le> 6" "(?l = 2) = (length p < 65536)" by (auto simp: prefix_len_of_def)
  have len: "length ?pad = ?l + ?c" using c by (simp add: padded_def)
  have alloc: "supported_allocation_size (65 + ?l + ?c) = Inr (65 + ?l + ?c)"
      "supported_allocation_size (?l + ?c) = Inr (?l + ?c)"
    using calc_padding_max [OF p(2)] l(1)
    by (simp_all add: supported_allocation_size_def ISIZE_MAX_def usize_max_def)
  have prefix: "(if ?l = LEGACY_LENGTH_PREFIX_SIZE then be_bytes 2 (length p)
      else [0, 0] @ be_bytes 4 (length p)) = length_prefix (length p)"
    using l(2) by (simp add: length_prefix_def LEGACY_LENGTH_PREFIX_SIZE_def)
  have resize: "vec_resize (65 + ?l + ?c) 0 ((([2] @ nonce) @ length_prefix (length p)) @ p) =
      2 # nonce @ ?pad @ replicate 32 0"
    using assms(2) c by (simp add: vec_resize_def padded_def flip: replicate_add)
  have parts: "range_slice 33 (33 + (?l + ?c)) (2 # nonce @ ?pad @ replicate 32 0) = ?pad"
      "take 33 (2 # nonce @ ?pad @ replicate 32 0) = 2 # nonce"
    using assms(2) len by (simp_all add: range_slice_def)
  have rest: "drop (33 + (?l + ?c)) (2 # nonce @ ?pad @ replicate 32 0) = replicate 32 0"
    by (rule cons_parts) (use assms(2) len in simp)
  have mac: "range_slice 1 (33 + (?l + ?c)) ((2 # nonce) @ ?ct @ replicate 32 0) = nonce @ ?ct"
      "take (33 + (?l + ?c)) ((2 # nonce) @ ?ct @ replicate 32 0) = 2 # nonce @ ?ct"
    using assms(2) len cons_parts(1) [of nonce ?ct "33 + (?l + ?c)"] by (simp_all add: range_slice_def)
  have layout: "payload_layout_new (length p) = Inr \<lparr>pl_prefix_len = ?l, pl_ciphertext_len = ?l + ?c,
      pl_payload_len = 65 + ?l + ?c\<rparr>"
    using layout_Inr p by blast
  show ?thesis
    unfolding v2_encrypt_to_bytes_with_nonce_def Let_def layout rbind_simps payload_layout.simps alloc
      prefix resize VERSION_SIZE_def NONCE_SIZE_def try_reserve_exact_def
    using assms(5) parts rest mac by (simp add: sealed_def Let_def)
qed

lemma v2_decrypt_sealed:
  assumes X: "crypto_ok X" and "length nonce = 32" and "0 < length p" and "length p \<le> u32_max"
    and "length padding = calc_padding (length p) - length p" and "\<forall>n. memory n"
  shows "v2_decrypt_to_bytes X memory K (v # sealed X K nonce (padded p padding)) = Inr p"
proof -
  let ?keys = "get_message_keys X K nonce"
  let ?ct = "apply_keystream X ?keys (padded p padding)"
  let ?mac = "hmac_sha256 X (mk_auth ?keys) (nonce @ ?ct)"
  have c: "length p \<le> calc_padding (length p)"
    using calc_padding_bounds(1) [of "length p"] assms(3,4) by (simp add: u32_max_def u64_max_def)
  have pad: "length (padded p padding) = prefix_len_of (length p) + calc_padding (length p)"
    using c assms(5) by (simp add: padded_def)
  have l: "2 \<le> prefix_len_of (length p)" "prefix_len_of (length p) \<le> 6" by (simp_all add: prefix_len_of_def)
  have mac: "length ?mac = 32" using X by (rule length_hmac)
  let ?payload = "v # nonce @ ?ct @ ?mac"
  have len: "length ?payload = 65 + length ?ct" using mac assms(2) by simp
  have ct: "length ?ct = prefix_len_of (length p) + calc_padding (length p)" using pad by simp
  have "32 \<le> calc_padding (length p)" using calc_padding_mono [of 0 "length p"] assms(4)
    by (simp add: calc_padding_small u32_max_def u64_max_def)
  then have min: "\<not> length ?payload < MIN_PAYLOAD_SIZE" using len ct l by (simp add: sizes)
  have "calc_padding (length p) \<le> calc_padding u32_max"
    using calc_padding_mono [of "length p" u32_max] assms(4) by (simp add: u32_max_def u64_max_def)
  then have max: "validate_payload_size (length ?payload) = Inr ()"
    using len ct l by (simp add: validate_payload_size_def MAX_PAYLOAD_SIZE_def MAX_CIPHERTEXT_SIZE_def
        MAX_PLAINTEXT_SIZE_def sizes)
  have parts: "get_range 1 33 ?payload = Some nonce"
      "get_range 33 (length ?payload - 32) ?payload = Some ?ct"
      "get_range (length ?payload - 32) (length ?payload) ?payload = Some ?mac"
    using len mac assms(2) cons_parts(2) [of nonce ?ct "33 + length ?ct"]
    by (simp_all add: get_range_def range_slice_def)
  have "sealed X K nonce (padded p padding) = nonce @ ?ct @ ?mac" by (simp add: sealed_def Let_def)
  moreover have "v2_decrypt_to_bytes X memory K ?payload = Inr p"
    using min max parts assms(6) unpad_padded [OF assms(3-5)]
    by (simp add: v2_decrypt_to_bytes_def sizes try_reserve_exact_def Let_def)
  ultimately show ?thesis by simp
qed

lemma v2_decrypt_Inr:
  assumes X: "crypto_ok X" and "v2_decrypt_to_bytes X memory K payload = Inr p"
  shows "\<exists>v nonce padding. payload = v # sealed X K nonce (padded p padding) \<and> length nonce = 32 \<and>
    0 < length p \<and> length p \<le> u32_max \<and> length padding = calc_padding (length p) - length p"
proof -
  let ?n = "length payload"
  have n: "99 \<le> ?n" using assms(2) by (auto simp: v2_decrypt_to_bytes_def sizes Let_def split: if_splits)
  let ?nonce = "range_slice 1 33 payload" and ?ct = "range_slice 33 (?n - 32) payload"
  let ?mac = "range_slice (?n - 32) ?n payload" and ?keys = "get_message_keys X K (range_slice 1 33 payload)"
  have parts: "get_range 1 33 payload = Some ?nonce" "get_range 33 (?n - 32) payload = Some ?ct"
      "get_range (?n - 32) ?n payload = Some ?mac"
    using n by (simp_all add: get_range_def)
  have mac: "?mac = hmac_sha256 X (mk_auth ?keys) (?nonce @ ?ct)" and u: "unpad (apply_keystream X ?keys ?ct) = Inr p"
    using assms(2) n parts by (auto simp: try_reserve_exact_def v2_decrypt_to_bytes_def sizes Let_def rbind_Inr ok_or_Inr split: if_splits)
  obtain padding where pad: "apply_keystream X ?keys ?ct = padded p padding" "0 < length p"
      "length p \<le> u32_max" "length padding = calc_padding (length p) - length p"
    using unpad_Inr [OF u] by blast
  have ct: "apply_keystream X ?keys (padded p padding) = ?ct" by (simp flip: pad(1))
  obtain v rest where v: "payload = v # rest" using n by (cases payload) auto
  have "payload = take 1 payload @ ?nonce @ ?ct @ ?mac"
  proof -
    have "drop 1 payload = ?nonce @ drop 33 payload"
      using append_take_drop_id [of 32 "drop 1 payload"] by (simp add: range_slice_def)
    moreover have "drop 33 payload = ?ct @ drop (?n - 32) payload"
      using append_take_drop_id [of "?n - 32 - 33" "drop 33 payload"] n by (simp add: range_slice_def)
    moreover have "drop (?n - 32) payload = ?mac" using n by (simp add: range_slice_def)
    ultimately show ?thesis by (metis append_take_drop_id)
  qed
  then have "payload = v # ?nonce @ ?ct @ ?mac" using v by simp
  then have "payload = v # sealed X K ?nonce (padded p padding)"
    unfolding sealed_def Let_def ct by (simp add: mac)
  moreover have "length ?nonce = 32" using n by (simp add: range_slice_def)
  ultimately show ?thesis using pad(2-4) by blast
qed

end
