(* ===== verification/Nip44_Messages.thy ===== *)
theory Nip44_Messages
  imports Nip44_Payload
begin

text \<open>
  Encrypted messages of NIP-44 (nostr/src/nips/nip44/impl.rs): versions, Base64, encryption for a
  key and decryption, with the properties of the padding, of the payload and of a message that is
  sent from one key to another. Base64 is the crate \<open>base64\<close>, an argument; \<open>base64_ok\<close> states its
  documented behaviour: padded groups of four characters for three bytes, decoded one by one.
\<close>

section \<open>Base64\<close>

record base64 =
  b64_encode :: "u8 list \<Rightarrow> string"
  b64_decode :: "string \<Rightarrow> u8 list option"
  b64_encoded_len :: "nat \<Rightarrow> nat option"
  b64_decoded_len_estimate :: "nat \<Rightarrow> nat"

definition base64_ok :: "base64 \<Rightarrow> bool" where
  "base64_ok B \<longleftrightarrow>
     (\<forall>bs. b64_decode B (b64_encode B bs) = Some bs) \<and>
     (\<forall>s bs. b64_decode B s = Some bs \<longrightarrow> b64_decode B (take 4 s) = Some (take 3 bs)) \<and>
     (\<forall>bs. length (b64_encode B bs) = (length bs + 2) div 3 * 4) \<and>
     (\<forall>n. b64_encoded_len B n =
        (if (n + 2) div 3 * 4 \<le> usize_max then Some ((n + 2) div 3 * 4) else None)) \<and>
     (\<forall>n. b64_decoded_len_estimate B n = (n + 3) div 4 * 3)"

lemma base64_okD:
  assumes "base64_ok B"
  shows "b64_decode B (b64_encode B bs) = Some bs"
    and "b64_decode B s = Some cs \<Longrightarrow> b64_decode B (take 4 s) = Some (take 3 cs)"
    and "length (b64_encode B bs) = (length bs + 2) div 3 * 4"
    and "(n + 2) div 3 * 4 \<le> usize_max \<Longrightarrow> b64_encoded_len B n = Some ((n + 2) div 3 * 4)"
    and "b64_decoded_len_estimate B n = (n + 3) div 4 * 3"
  using assms unfolding base64_ok_def by simp_all

section \<open>Versions\<close>

datatype version = V2

definition version_as_u8 :: "version \<Rightarrow> u8" where
  "version_as_u8 v = (case v of V2 \<Rightarrow> 2)"

definition version_try_from :: "u8 \<Rightarrow> version res" where
  "version_try_from b = (if b = 2 then Inr V2 else Inl Unsupported)"

definition max_encoded_payload_size :: "version \<Rightarrow> nat" where
  "max_encoded_payload_size v = (case v of V2 \<Rightarrow> MAX_ENCODED_PAYLOAD_SIZE)"

definition validate_encoded_payload_size :: "version \<Rightarrow> nat \<Rightarrow> unit res" where
  "validate_encoded_payload_size v len =
     (if len > max_encoded_payload_size v then Inl Invalid else Inr ())"

definition encoded_allocation_size :: "nat \<Rightarrow> nat res" where
  "encoded_allocation_size len = (if len > ISIZE_MAX then Inl Unsupported else Inr len)"

definition decode_payload_version :: "base64 \<Rightarrow> string \<Rightarrow> version res" where
  "decode_payload_version B payload =
     (let encoded_prefix = (case get_range 0 4 payload of Some p \<Rightarrow> p | None \<Rightarrow> payload)
      in rbind (ok_or (b64_decode B encoded_prefix) Malformed) (\<lambda>decoded_prefix.
         rbind (ok_or (case decoded_prefix of [] \<Rightarrow> None | b # _ \<Rightarrow> Some b) Missing) version_try_from))"

datatype nip44_nonce = NonceV2 "u8 list"

section \<open>Encryption and decryption\<close>

definition encrypt_to_bytes_with_nonce ::
  "crypto \<Rightarrow> (nat \<Rightarrow> bool) \<Rightarrow> secret_key \<Rightarrow> public_key \<Rightarrow> u8 list \<Rightarrow> nip44_nonce \<Rightarrow> u8 list res" where
  "encrypt_to_bytes_with_nonce X memory secret_key public_key content nonce =
     (case nonce of NonceV2 nonce \<Rightarrow>
        rbind (conversation_key_derive X secret_key public_key) (\<lambda>K.
          from_v2 (v2_encrypt_to_bytes_with_nonce X memory K content nonce)))"

definition encrypt_with_nonce ::
  "crypto \<Rightarrow> base64 \<Rightarrow> (nat \<Rightarrow> bool) \<Rightarrow> secret_key \<Rightarrow> public_key \<Rightarrow> u8 list \<Rightarrow> nip44_nonce \<Rightarrow>
   string res" where
  "encrypt_with_nonce X B memory secret_key public_key content nonce =
     rbind (encrypt_to_bytes_with_nonce X memory secret_key public_key content nonce) (\<lambda>payload.
     rbind (rbind (ok_or (b64_encoded_len B (length payload)) Unsupported) encoded_allocation_size)
       (\<lambda>encoded_len.
          if memory encoded_len then Inr (b64_encode B payload) else Inl OtherError))"

text \<open>\<open>random\<close> is what the random number generator returns.\<close>

definition encrypt_with_rng ::
  "crypto \<Rightarrow> base64 \<Rightarrow> (nat \<Rightarrow> bool) \<Rightarrow> secret_key \<Rightarrow> public_key \<Rightarrow> u8 list \<Rightarrow> version \<Rightarrow> u8 list \<Rightarrow>
   string res" where
  "encrypt_with_rng X B memory secret_key public_key content version random =
     encrypt_with_nonce X B memory secret_key public_key content
       (case version of V2 \<Rightarrow> NonceV2 random)"

definition nip44_decrypt_to_bytes ::
  "crypto \<Rightarrow> base64 \<Rightarrow> (nat \<Rightarrow> bool) \<Rightarrow> secret_key \<Rightarrow> public_key \<Rightarrow> string \<Rightarrow> u8 list res" where
  "nip44_decrypt_to_bytes X B memory secret_key public_key payload =
     rbind (decode_payload_version B payload) (\<lambda>version.
     rbind (validate_encoded_payload_size version (length payload)) (\<lambda>_.
     rbind (encoded_allocation_size (b64_decoded_len_estimate B (length payload))) (\<lambda>decoded_len.
     if \<not> memory decoded_len then Inl OtherError
     else
       rbind (ok_or (b64_decode B payload) Malformed) (\<lambda>decoded.
       case version of V2 \<Rightarrow>
         rbind (conversation_key_derive X secret_key public_key) (\<lambda>K.
           from_v2 (v2_decrypt_to_bytes X memory K decoded))))))"

definition nip44_decrypt ::
  "crypto \<Rightarrow> base64 \<Rightarrow> (nat \<Rightarrow> bool) \<Rightarrow> secret_key \<Rightarrow> public_key \<Rightarrow> string \<Rightarrow> string res" where
  "nip44_decrypt X B memory secret_key public_key payload =
     rbind (nip44_decrypt_to_bytes X B memory secret_key public_key payload) from_utf8"

lemma from_v2_simps [simp]: "from_v2 (Inr a) = Inr a" "from_v2 (Inl e) = Inl (error_of_v2 e)"
  by (simp_all add: from_v2_def)

lemma from_v2_Inr: "from_v2 r = Inr a \<longleftrightarrow> r = Inr a"
  by (cases r) simp_all

lemma version_of_decoded:
  assumes "base64_ok B" and "b64_decode B s = Some (b # bs)"
  shows "decode_payload_version B s = version_try_from b"
proof -
  have "b64_decode B (take 4 s) = Some (b # take 2 bs)"
    using base64_okD(2) [OF assms] by (simp add: numeral_3_eq_3 numeral_2_eq_2)
  moreover have "(case get_range 0 4 s of Some p \<Rightarrow> p | None \<Rightarrow> s) = take 4 s"
    by (simp add: get_range_def range_slice_def)
  ultimately show ?thesis by (simp add: decode_payload_version_def)
qed

section \<open>A reference instance\<close>

text \<open>
  Small stand-ins for the cryptography, and groups of four characters of which the last says how
  many bytes the group has.
\<close>

definition ref_crypto :: crypto where
  "ref_crypto =
     \<lparr>valid_secret = (\<lambda>bs. length bs = 32),
      ecdh_point = (\<lambda>c k. Some (map2 (+) (drop 1 c) k @ replicate 32 0)),
      hmac_sha256 = (\<lambda>k m. take 32 (k @ m @ replicate 32 7)),
      chacha20 = (\<lambda>k n i. of_nat i + 5)\<rparr>"

lemma ref_crypto_ok [simp]: "crypto_ok ref_crypto"
  by (auto simp: crypto_ok_def ref_crypto_def min_def)

fun ref_b64_encode :: "u8 list \<Rightarrow> string" where
  "ref_b64_encode [] = []"
| "ref_b64_encode [a] = string_of_bytes [a, 0, 0, 1]"
| "ref_b64_encode [a, b] = string_of_bytes [a, b, 0, 2]"
| "ref_b64_encode (a # b # c # bs) = string_of_bytes [a, b, c, 3] @ ref_b64_encode bs"

fun ref_b64_groups :: "u8 list \<Rightarrow> u8 list option" where
  "ref_b64_groups [] = Some []"
| "ref_b64_groups (a # b # c # d # bs) =
     (if d = 3 then map_option (\<lambda>r. a # b # c # r) (ref_b64_groups bs)
      else if bs \<noteq> [] then None
      else if d = 1 then Some [a] else if d = 2 then Some [a, b] else None)"
| "ref_b64_groups _ = None"

definition ref_base64 :: base64 where
  "ref_base64 =
     \<lparr>b64_encode = ref_b64_encode, b64_decode = (\<lambda>s. ref_b64_groups (bytes_of s)),
      b64_encoded_len =
        (\<lambda>n. if (n + 2) div 3 * 4 \<le> usize_max then Some ((n + 2) div 3 * 4) else None),
      b64_decoded_len_estimate = (\<lambda>n. (n + 3) div 4 * 3)\<rparr>"

lemma ref_b64_decode_encode: "ref_b64_groups (bytes_of (ref_b64_encode bs)) = Some bs"
  by (induction bs rule: ref_b64_encode.induct) (simp_all, simp add: bytes_of_def)

lemma ref_b64_length: "length (ref_b64_encode bs) = (length bs + 2) div 3 * 4"
proof (induction bs rule: ref_b64_encode.induct)
  case (4 a b c bs)
  have "(length (a # b # c # bs) + 2) div 3 = (length bs + 2 + 3) div 3" by simp
  also have "\<dots> = (length bs + 2) div 3 + 1" by (simp only: div_add_self2)
  finally show ?case using 4 by (simp add: string_of_bytes_def)
qed (simp_all add: string_of_bytes_def)

lemma ref_b64_prefix: "ref_b64_groups cs = Some bs \<Longrightarrow> ref_b64_groups (take 4 cs) = Some (take 3 bs)"
  by (cases cs rule: ref_b64_groups.cases) (auto split: if_splits)

lemma ref_base64_ok [simp]: "base64_ok ref_base64"
proof -
  have "take 4 (bytes_of s) = bytes_of (take 4 s)" for s by (simp add: bytes_of_def take_map)
  then show ?thesis
    using ref_b64_prefix
    by (auto simp: base64_ok_def ref_base64_def ref_b64_decode_encode ref_b64_length) metis
qed

section \<open>Properties\<close>

text \<open>
  C33: The padded length of a plaintext is a multiple of 32, not less than its length, and exceeds it
  by less than 32 bytes or a quarter; a longer plaintext is never padded to less. So the length of a
  payload only shows to which bucket the plaintext belongs, and no 64-bit operation overflows.
\<close>

theorem nip44_padding_bounds:
  assumes "0 < n" and "n \<le> u32_max"
  shows "n \<le> calc_padding n \<and> 32 dvd calc_padding n \<and>
    calc_padding n < n + max 32 ((n - 1) div 4) \<and> calc_padding n < 2 ^ 33 \<and>
    (\<forall>m. m \<le> n \<longrightarrow> calc_padding m \<le> calc_padding n) \<and>
    (\<exists>l. payload_layout_new n = Inr l \<and> pl_payload_len l = 65 + pl_prefix_len l + calc_padding n)"
proof -
  have "n \<le> u64_max" using assms(2) by (simp add: u32_max_def u64_max_def)
  then show ?thesis
    using calc_padding_bounds [OF assms(1)] calc_padding_32 calc_padding_mono calc_padding_max [OF assms(2)]
      layout_Inr assms by fastforce
qed

theorem nip44_padding_bounds_witness: "calc_padding 33 = 64 \<and> 33 \<le> calc_padding 33"
  using nip44_padding_bounds [of 33] by (simp add: u32_max_def calc_padding_def log2_round_down_def
      leading_zeros_u64_def significant_bits.simps)

text \<open>
  C17: A message that one key encrypts for another decrypts to its content, if both sides compute the
  same shared key and memory can be reserved: for every content of 1 to \<open>2 ^ 32 - 1\<close> bytes,
  whichever length prefix it needs.
\<close>

theorem nip44_message_roundtrip:
  assumes "crypto_ok X" and "base64_ok B" and "\<forall>n. memory n" and "length nonce = 32"
    and "0 < length content" and "length content \<le> u32_max"
    and "generate_shared_key X alice_secret bob = Inr s"
    and "generate_shared_key X bob_secret alice = Inr s"
  shows "\<exists>message. encrypt_with_nonce X B memory alice_secret bob content (NonceV2 nonce) = Inr message \<and>
    nip44_decrypt_to_bytes X B memory bob_secret alice message = Inr content"
proof -
  let ?K = "ConversationKey (hkdf_extract X (bytes_of ''nip44-v2'') s)"
  let ?padding = "replicate (calc_padding (length content) - length content) (0 :: u8)"
  let ?payload = "2 # sealed X ?K nonce (padded content ?padding)"
  have K: "conversation_key_derive X alice_secret bob = Inr ?K"
      "conversation_key_derive X bob_secret alice = Inr ?K"
    using assms(7,8) by (simp_all add: conversation_key_derive_def)
  have enc: "v2_encrypt_to_bytes_with_nonce X memory ?K content nonce = Inr ?payload"
    by (rule v2_encrypt_sealed [OF assms(1,4-6,3)])
  have dec: "v2_decrypt_to_bytes X memory ?K ?payload = Inr content"
    by (rule v2_decrypt_sealed [OF assms(1,4-6) _ assms(3)]) simp
  have "length content \<le> calc_padding (length content)"
    using calc_padding_bounds(1) [of "length content"] assms(5,6) by (simp add: u32_max_def u64_max_def)
  then have len: "length ?payload = 65 + prefix_len_of (length content) + calc_padding (length content)"
    using assms(1,4) by (simp add: sealed_def Let_def length_hmac padded_def)
  have max: "length ?payload \<le> MAX_PAYLOAD_SIZE" "length ?payload \<le> 5368709200"
    using len calc_padding_mono [of "length content" u32_max] calc_padding_max [of "length content"] assms(6)
    by (auto simp: MAX_PAYLOAD_SIZE_def MAX_CIPHERTEXT_SIZE_def MAX_PLAINTEXT_SIZE_def sizes u32_max_def
        u64_max_def prefix_len_of_def)
  note b64 = base64_okD [OF assms(2)]
  let ?message = "b64_encode B ?payload"
  have m: "length ?message = (length ?payload + 2) div 3 * 4" by (rule b64)
  have "(length ?payload + 2) div 3 * 4 \<le> 7158278936" using max(2) by simp
  then have alloc: "b64_encoded_len B (length ?payload) = Some (length ?message)"
      "encoded_allocation_size (length ?message) = Inr (length ?message)"
    using b64(4) [of "length ?payload"] m by (simp_all add: usize_max_def encoded_allocation_size_def ISIZE_MAX_def)
  have size: "validate_encoded_payload_size V2 (length ?message) = Inr ()"
    using m max(1) div_le_mono [of "length ?payload + 2" "MAX_PAYLOAD_SIZE + 2" 3]
    by (simp add: validate_encoded_payload_size_def max_encoded_payload_size_def MAX_ENCODED_PAYLOAD_SIZE_def)
  have estimate: "encoded_allocation_size (b64_decoded_len_estimate B (length ?message)) =
      Inr (b64_decoded_len_estimate B (length ?message))"
    using b64(5) m \<open>(length ?payload + 2) div 3 * 4 \<le> 7158278936\<close>
    by (simp add: encoded_allocation_size_def ISIZE_MAX_def)
  have "decode_payload_version B ?message = Inr V2"
    using version_of_decoded [OF assms(2) b64(1)] by (simp add: version_try_from_def)
  then have "nip44_decrypt_to_bytes X B memory bob_secret alice ?message = Inr content"
    using size estimate assms(3) b64(1) K(2) dec by (simp add: nip44_decrypt_to_bytes_def)
  moreover have "encrypt_with_nonce X B memory alice_secret bob content (NonceV2 nonce) = Inr ?message"
    using enc K(1) alloc assms(3) by (simp add: encrypt_with_nonce_def encrypt_to_bytes_with_nonce_def)
  ultimately show ?thesis by blast
qed

theorem nip44_message_roundtrip_witness:
  "\<exists>message. encrypt_with_nonce ref_crypto ref_base64 (\<lambda>n. True) (SecretKey (replicate 32 3))
       (PublicKey (replicate 32 4)) [104, 105] (NonceV2 (replicate 32 9)) = Inr message \<and>
     nip44_decrypt_to_bytes ref_crypto ref_base64 (\<lambda>n. True) (SecretKey (replicate 32 4))
       (PublicKey (replicate 32 3)) message = Inr [104, 105]"
  by (rule nip44_message_roundtrip [OF ref_crypto_ok ref_base64_ok, where s = "replicate 32 7"])
    (simp_all add: u32_max_def generate_shared_key_def ref_crypto_def zip_replicate)

text \<open>
  C18: Decryption accepts nothing but sealed payloads: what decrypts to a content is the Base64 form of
  a payload of version 2 that is authenticated with the key of the conversation, carries the
  content with its length, and is padded to exactly the length that the content has to have.
\<close>

theorem nip44_decrypts_only_sealed:
  assumes "crypto_ok X" and "base64_ok B"
    and "nip44_decrypt_to_bytes X B memory secret_key public_key message = Inr content"
  shows "\<exists>K nonce padding. conversation_key_derive X secret_key public_key = Inr K \<and>
    b64_decode B message = Some (2 # sealed X K nonce (padded content padding)) \<and> length nonce = 32 \<and>
    0 < length content \<and> length content \<le> u32_max \<and>
    length (content @ padding) = calc_padding (length content)"
proof -
  have "v = V2" for v by (cases v)
  with assms(3) obtain decoded K where d: "decode_payload_version B message = Inr V2"
      "b64_decode B message = Some decoded" "conversation_key_derive X secret_key public_key = Inr K"
      "v2_decrypt_to_bytes X memory K decoded = Inr content"
    unfolding nip44_decrypt_to_bytes_def
    by (simp add: rbind_Inr ok_or_Inr from_v2_Inr split: if_splits version.splits) blast
  obtain v nonce padding where s: "decoded = v # sealed X K nonce (padded content padding)"
      "length nonce = 32" "0 < length content" "length content \<le> u32_max"
      "length padding = calc_padding (length content) - length content"
    using v2_decrypt_Inr [OF assms(1) d(4)] by blast
  have "version_try_from v = Inr V2"
    using version_of_decoded [OF assms(2) d(2) [unfolded s(1)]] d(1) by simp
  then have "v = 2" by (simp add: version_try_from_def split: if_splits)
  moreover have "length content \<le> calc_padding (length content)"
    using calc_padding_bounds(1) [of "length content"] s(3,4) by (simp add: u32_max_def u64_max_def)
  ultimately show ?thesis
    using d(2,3) s by (intro exI [of _ K] exI [of _ nonce] exI [of _ padding]) simp
qed

theorem nip44_decrypts_only_sealed_witness:
  "\<exists>message K nonce padding.
     nip44_decrypt_to_bytes ref_crypto ref_base64 (\<lambda>n. True) (SecretKey (replicate 32 4))
       (PublicKey (replicate 32 3)) message = Inr [104, 105] \<and>
     b64_decode ref_base64 message = Some (2 # sealed ref_crypto K nonce (padded [104, 105] padding))"
proof -
  let ?sk = "SecretKey (replicate 32 4)" and ?pk = "PublicKey (replicate 32 3)"
  let ?K = "ConversationKey (hkdf_extract ref_crypto (bytes_of ''nip44-v2'') (replicate 32 7))"
  let ?payload = "2 # sealed ref_crypto ?K (replicate 32 9) (padded [104, 105] (replicate 30 0))"
  have K: "conversation_key_derive ref_crypto ?sk ?pk = Inr ?K"
    by (simp add: conversation_key_derive_def generate_shared_key_def ref_crypto_def zip_replicate)
  have dec: "v2_decrypt_to_bytes ref_crypto (\<lambda>n. True) ?K ?payload = Inr [104, 105]"
    by (rule v2_decrypt_sealed) (simp_all add: u32_max_def calc_padding_small)
  note b64 = base64_okD [OF ref_base64_ok]
  let ?message = "b64_encode ref_base64 ?payload"
  have "length ?payload = 99"
    by (simp add: sealed_def Let_def length_hmac padded_def prefix_len_of_def)
  then have "length ?message = 132" by (simp add: b64)
  moreover have "decode_payload_version ref_base64 ?message = Inr V2"
    using version_of_decoded [OF ref_base64_ok b64(1)] by (simp add: version_try_from_def)
  moreover have "MAX_ENCODED_PAYLOAD_SIZE \<ge> 132"
    using calc_padding_bounds(1) [of u32_max]
    by (simp add: MAX_ENCODED_PAYLOAD_SIZE_def MAX_PAYLOAD_SIZE_def MAX_CIPHERTEXT_SIZE_def
        MAX_PLAINTEXT_SIZE_def sizes u32_max_def u64_max_def)
  ultimately have "nip44_decrypt_to_bytes ref_crypto ref_base64 (\<lambda>n. True) ?sk ?pk ?message = Inr [104, 105]"
    using b64(1,5) K dec by (simp add: nip44_decrypt_to_bytes_def validate_encoded_payload_size_def
        max_encoded_payload_size_def encoded_allocation_size_def ISIZE_MAX_def)
  from this nip44_decrypts_only_sealed [OF ref_crypto_ok ref_base64_ok this] show ?thesis by blast
qed

end
