(* ===== verification/Text_Tokens.thy ===== *)
theory Text_Tokens
  imports Text_Parser Nip19_Roundtrip Nip44_Messages
begin

text \<open>
  What the parser of texts promises (nostr/src/parser.rs): the tokens stand for pieces of the text,
  in their order, of the kinds that the options enable, and with text enabled for all of the text.
\<close>

section \<open>Tokens and the pieces they stand for\<close>

text \<open>A piece of the text that a token stands for.\<close>

fun token_covers :: "externals \<Rightarrow> crypto \<Rightarrow> bech32 \<Rightarrow> token \<Rightarrow> string \<Rightarrow> bool" where
  "token_covers x X B (TNostr uri) p \<longleftrightarrow> nip21_parse x X B p = Inr uri"
| "token_covers x X B (TUrl url) p \<longleftrightarrow> url_parse x p = Some url"
| "token_covers x X B (THashtag tag) p \<longleftrightarrow> p = ''#'' @ tag \<and> tag \<noteq> []"
| "token_covers x X B (TText s) p \<longleftrightarrow> p = s"
| "token_covers x X B TLineBreak p \<longleftrightarrow> p = LINE_BREAK"
| "token_covers x X B TWhitespace p \<longleftrightarrow> p = WHITESPACE"

text \<open>The kinds of token that the options enable.\<close>

fun token_enabled :: "parser_options \<Rightarrow> token \<Rightarrow> bool" where
  "token_enabled opts (TNostr uri) \<longleftrightarrow> po_nostr_uris opts"
| "token_enabled opts (TUrl url) \<longleftrightarrow> po_urls opts"
| "token_enabled opts (THashtag tag) \<longleftrightarrow> po_hashtags opts"
| "token_enabled opts (TText s) \<longleftrightarrow> po_text opts"
| "token_enabled opts TLineBreak \<longleftrightarrow> po_text opts"
| "token_enabled opts TWhitespace \<longleftrightarrow> po_text opts"

section \<open>Matches\<close>

text \<open>What a match says of the bytes it covers.\<close>

definition match_ok :: "parser_options \<Rightarrow> string \<Rightarrow> text_match \<Rightarrow> bool" where
  "match_ok opts s m \<longleftrightarrow>
     tm_start m < tm_end m \<and> tm_end m \<le> length s \<and>
     (case tm_type m of
        MNostrUri \<Rightarrow> po_nostr_uris opts
      | MUrl \<Rightarrow> po_urls opts
      | MHashtag \<Rightarrow> po_hashtags opts \<and> s ! tm_start m = CHR ''#'' \<and> tm_start m + 1 < tm_end m
      | MLineBreak \<Rightarrow> po_text opts \<and> s ! tm_start m = CHR 0x0A \<and> tm_end m = tm_start m + 1)"

lemma byte_at_eq [simp]: "byte_of c = byte_of d \<longleftrightarrow> c = d"
  by (metis bytes_of_inj bytes_of_def byte_of_def list.simps(8,9) list.inject)

lemma byte_at_line_break [simp]: "byte_at s i = 10 \<longleftrightarrow> s ! i = CHR 0x0A"
proof -
  have "(10 :: u8) = byte_of (CHR 0x0A)" by (simp add: byte_of_def)
  then have "byte_of (s ! i) = 10 \<longleftrightarrow> byte_of (s ! i) = byte_of (CHR 0x0A)" by (rule arg_cong)
  then show ?thesis by (simp add: byte_at_def)
qed

lemma hashtag_len_le: "hashtag_len s \<le> length s"
proof (induction s rule: hashtag_len.induct)
  case (1 s)
  then show ?case
    using next_char_bounds [of s] by (auto simp: hashtag_len.simps [of s] le_diff_conv2)
qed

lemma fe32_len_le: "fe32_len fe32 s \<le> length s"
proof (induction fe32 s rule: fe32_len.induct)
  case (1 fe32 s)
  then show ?case
    using next_char_bounds [of s] by (auto simp: fe32_len.simps [of fe32 s] le_diff_conv2)
qed

lemma fe32_end_le: "n \<le> length s \<Longrightarrow> n + fe32_len fe32 (drop n s) \<le> length s"
  using fe32_len_le [of fe32 "drop n s"] by simp

lemma scheme_end_le: "scheme_end s e = Some a \<Longrightarrow> a \<le> length s"
proof (induction s e rule: scheme_end.induct)
  case (1 s e)
  then show ?case
    by (fastforce simp: scheme_end.simps [of s e] Let_def get_range_Some split: if_splits)
qed

lemma url_end_le: "e \<le> length s \<Longrightarrow> url_end s e \<le> length s"
proof (induction s e rule: url_end.induct)
  case (1 s e)
  then show ?case by (simp add: url_end.simps [of s e])
qed

lemma trim_url_end_le: "trim_url_end s start after e \<le> e"
  using trim_punctuation_le [of s after e]
  by (auto simp: trim_url_end_def handle_parentheses_matching_def Let_def)

lemma try_hashtag_ok:
  "try_parse_hashtag s pos = Some m \<Longrightarrow> pos < length s \<Longrightarrow> po_hashtags opts \<Longrightarrow> match_ok opts s m"
  using hashtag_len_le [of "drop (pos + 1) s"]
  by (auto simp: try_parse_hashtag_def match_ok_def byte_at_def Let_def split: if_splits)

lemma try_nostr_uri_ok:
  "try_parse_nostr_uri fe32 s pos = Some m \<Longrightarrow> po_nostr_uris opts \<Longrightarrow> match_ok opts s m"
  by (auto simp: try_parse_nostr_uri_def match_ok_def get_range_Some Let_def
      dest: fe32_end_le [of _ _ fe32] split: if_splits sum.splits)

lemma try_url_ok:
  assumes "try_parse_url s pos = Some m" "po_urls opts"
  shows "match_ok opts s m"
proof -
  from assms(1) obtain after e where after: "find_post_url_scheme_position s pos = Some after"
    and e: "find_url_end s after = Some e"
    and m: "m = \<lparr>tm_type = MUrl, tm_start = pos, tm_end = trim_url_end s pos after e\<rparr>"
    and ends: "after < trim_url_end s pos after e"
    by (auto simp: try_parse_url_def Let_def split: option.splits if_splits)
  have "after \<le> length s" "pos < after"
    using after by (auto simp: find_post_url_scheme_position_def dest: scheme_end_le scheme_end_after
        split: if_splits)
  moreover have "e \<le> length s"
    using e url_end_le [of after s] calculation by (auto simp: find_url_end_def Let_def split: if_splits)
  ultimately show ?thesis
    using m ends assms(2) trim_url_end_le [of s pos after e] by (auto simp: match_ok_def)
qed

lemma match_at_ok:
  assumes "match_at fe32 opts s pos = Some m" "pos < length s"
  shows "match_ok opts s m"
  using assms
  by (auto simp: match_at_def try_parse_line_break_def match_ok_def [where m = "\<lparr>tm_type = MLineBreak, tm_start = pos, tm_end = Suc pos\<rparr>"]
      dest: try_hashtag_ok try_nostr_uri_ok try_url_ok split: option.splits if_splits)

lemma find_match_ok:
  "find_match fe32 opts s pos = (Some m, p) \<Longrightarrow> match_ok opts s m \<and> p = tm_end m \<and> pos \<le> tm_start m"
  using find_match_after match_at_ok by blast

lemma find_match_end: "find_match fe32 opts s pos = (None, p) \<Longrightarrow> length s \<le> p"
proof (induction fe32 opts s pos rule: find_match.induct)
  case (1 fe32 opts s pos)
  then show ?case
    by (auto simp: find_match.simps [of fe32 opts s pos] split: if_splits option.splits)
qed

section \<open>The text that is left\<close>

text \<open>What an iterator has still to hand out: the pending token and text, then the text from the
  pending match or the end of the last one on.\<close>

definition remaining :: "parser_iter \<Rightarrow> string" where
  "remaining st =
     (if pi_pending_token st = None then [] else WHITESPACE) @
     (case pi_pending_str_match st of None \<Rightarrow> [] | Some m \<Rightarrow> m) @
     drop (case pi_pending_match st of None \<Rightarrow> pi_last_match_end st | Some m \<Rightarrow> tm_start m) (pi_text st)"

definition iter_ok :: "parser_iter \<Rightarrow> bool" where
  "iter_ok st \<longleftrightarrow>
     (pi_pending_token st = None \<or> pi_pending_token st = Some TWhitespace \<and> po_text (pi_opts st)) \<and>
     (case pi_pending_str_match st of None \<Rightarrow> True | Some m \<Rightarrow> m \<noteq> [] \<and> po_text (pi_opts st)) \<and>
     (case pi_pending_match st of
        None \<Rightarrow> pi_last_match_end st = pi_pos st \<or> length (pi_text st) \<le> pi_pos st
      | Some m \<Rightarrow> match_ok (pi_opts st) (pi_text st) m \<and> tm_end m = pi_pos st)"

text \<open>A token handed out: of an enabled kind, it covers a piece of what was left, all but the bytes
  skipped before it, of which there are none when text is enabled.\<close>

definition hands_out :: "externals \<Rightarrow> crypto \<Rightarrow> bech32 \<Rightarrow> parser_options \<Rightarrow> string \<Rightarrow> token \<Rightarrow> string \<Rightarrow> bool" where
  "hands_out x X B opts before t after \<longleftrightarrow>
     token_enabled opts t \<and>
     (\<exists>skipped p. before = skipped @ p @ after \<and> p \<noteq> [] \<and> token_covers x X B t p \<and>
        (po_text opts \<longrightarrow> skipped = []))"

lemma hands_outI:
  "token_enabled opts t \<Longrightarrow> before = p @ after \<Longrightarrow> p \<noteq> [] \<Longrightarrow> token_covers x X B t p \<Longrightarrow>
   hands_out x X B opts before t after"
  by (auto simp: hands_out_def)

lemma pending_str:
  "pi_pending_token st = None \<Longrightarrow> pi_pending_str_match st = None \<Longrightarrow>
   remaining (st\<lparr>pi_pending_str_match := Some m\<rparr>) = m @ remaining st"
  "iter_ok st \<Longrightarrow> m \<noteq> [] \<Longrightarrow> po_text (pi_opts st) \<Longrightarrow> iter_ok (st\<lparr>pi_pending_str_match := Some m\<rparr>)"
  by (simp_all add: remaining_def iter_ok_def cong: option.case_cong)

lemma pending_token:
  "pi_pending_token st = None \<Longrightarrow>
   remaining (st\<lparr>pi_pending_token := Some TWhitespace\<rparr>) = WHITESPACE @ remaining st"
  "iter_ok st \<Longrightarrow> po_text (pi_opts st) \<Longrightarrow> iter_ok (st\<lparr>pi_pending_token := Some TWhitespace\<rparr>)"
  by (simp_all add: remaining_def iter_ok_def cong: option.case_cong)

lemma handle_str_Cons:
  "handle_str_as_text st (c # r) =
     (if c = CHR 0x0A then (TLineBreak, if r = [] then st else st\<lparr>pi_pending_str_match := Some r\<rparr>)
      else if c = CHR '' '' then (TWhitespace, if r = [] then st else st\<lparr>pi_pending_str_match := Some r\<rparr>)
      else if r \<noteq> [] \<and> last r = CHR '' ''
      then (TText (c # butlast r), st\<lparr>pi_pending_token := Some TWhitespace\<rparr>)
      else (TText (c # r), st))"
  by (cases r rule: rev_cases)
    (auto simp: handle_str_as_text_def starts_with_def LINE_BREAK_def WHITESPACE_def)

lemma handle_str_hands_out:
  assumes "handle_str_as_text st m = (t, st')" "m \<noteq> []" "po_text (pi_opts st)"
    "pi_pending_token st = None" "pi_pending_str_match st = None"
  shows "hands_out x X B (pi_opts st) (m @ remaining st) t (remaining st') \<and> (iter_ok st \<longrightarrow> iter_ok st')"
proof -
  obtain c r where m: "m = c # r" using assms(2) by (cases m) auto
  consider "c = CHR 0x0A" | "c = CHR '' ''"
    | r' where "c \<noteq> CHR 0x0A" "c \<noteq> CHR '' ''" "r = r' @ WHITESPACE"
    | "c \<noteq> CHR 0x0A" "c \<noteq> CHR '' ''" "r = [] \<or> last r \<noteq> CHR '' ''"
    unfolding WHITESPACE_def by (cases r rule: rev_cases) auto
  then show ?thesis
  proof cases
    case 1
    then show ?thesis
      using assms m
      by (auto simp: handle_str_Cons pending_str LINE_BREAK_def split: if_splits intro!: hands_outI)
  next
    case 2
    then show ?thesis
      using assms m
      by (auto simp: handle_str_Cons pending_str WHITESPACE_def split: if_splits intro!: hands_outI)
  next
    case 3
    then have "t = TText (c # r')" "st' = st\<lparr>pi_pending_token := Some TWhitespace\<rparr>"
      using assms(1) m by (simp_all add: handle_str_Cons WHITESPACE_def)
    then show ?thesis
      using 3 assms m
      by (auto simp: pending_token intro!: hands_outI)
  next
    case 4
    then have "t = TText m" "st' = st" using assms(1) m by (auto simp: handle_str_Cons)
    then show ?thesis using assms by (auto intro!: hands_outI)
  qed
qed

lemma drop_split: "a \<le> b \<Longrightarrow> drop a s = range_slice a b s @ drop b s"
  by (simp add: range_slice_def) (metis append_take_drop_id drop_drop le_add_diff_inverse2)

lemma range_slice_nonempty: "a < b \<Longrightarrow> a < length s \<Longrightarrow> range_slice a b s \<noteq> []"
  by (simp add: range_slice_def)

lemma range_slice_first: "a < b \<Longrightarrow> a < length s \<Longrightarrow> range_slice a b s = s ! a # range_slice (Suc a) b s"
  by (simp add: range_slice_def Cons_nth_drop_Suc [symmetric] take_Cons' Suc_diff_Suc)

lemma hands_out_skip:
  "hands_out x X B opts rest t after \<Longrightarrow> (po_text opts \<Longrightarrow> skipped = []) \<Longrightarrow>
   hands_out x X B opts (skipped @ rest) t after"
  unfolding hands_out_def by (metis append.assoc append_Nil)

text \<open>A match that is not a token of its own is text, or is skipped when text is disabled.\<close>

lemma text_or_skip_hands_out:
  assumes "text_or_skip st m = (r, st')" "m \<noteq> []" "iter_ok st"
    "pi_pending_token st = None" "pi_pending_str_match st = None"
  shows "case r of Some t \<Rightarrow> hands_out x X B (pi_opts st) (m @ remaining st) t (remaining st') \<and> iter_ok st'
    | None \<Rightarrow> \<not> po_text (pi_opts st) \<and> st' = st"
  using assms handle_str_hands_out [of st m _ _ x X B]
  by (auto simp: text_or_skip_def split: if_splits prod.splits)

lemma handle_match_hands_out:
  assumes m: "handle_match x X B st m = (r, st')" "match_ok (pi_opts st) (pi_text st) m"
    and st: "tm_end m = pi_pos st" "pi_pending_token st = None" "pi_pending_str_match st = None"
      "pi_pending_match st = None"
  shows "case r of
      Some t \<Rightarrow> hands_out x X B (pi_opts st) (drop (tm_start m) (pi_text st)) t (remaining st') \<and> iter_ok st'
    | None \<Rightarrow> \<not> po_text (pi_opts st) \<and> st' = st\<lparr>pi_last_match_end := tm_end m\<rparr>"
proof -
  define data where "data = range_slice (tm_start m) (tm_end m) (pi_text st)"
  define st1 where "st1 = st\<lparr>pi_last_match_end := tm_end m\<rparr>"
  have bounds: "tm_start m < tm_end m" "tm_end m \<le> length (pi_text st)"
    using m(2) by (auto simp: match_ok_def)
  then have data: "data = pi_text st ! tm_start m # range_slice (Suc (tm_start m)) (tm_end m) (pi_text st)"
    unfolding data_def by (intro range_slice_first) auto
  have len: "length data = tm_end m - tm_start m" using bounds by (simp add: data_def)
  have st1: "iter_ok st1" "remaining st1 = drop (tm_end m) (pi_text st)" "pi_opts st1 = pi_opts st"
    "pi_pending_token st1 = None" "pi_pending_str_match st1 = None"
    using st by (simp_all add: st1_def iter_ok_def remaining_def)
  have rest: "drop (tm_start m) (pi_text st) = data @ remaining st1"
    using bounds by (simp add: data_def st1 drop_split [of "tm_start m" "tm_end m"])
  have skip: "text_or_skip st1 data = (r, st') \<Longrightarrow> ?thesis"
    using text_or_skip_hands_out [of st1 data r st' x X B] st1 data rest by (auto simp: st1_def split: option.splits)
  note eq = m(1) [unfolded handle_match_def Let_def, folded st1_def]
  show ?thesis
  proof (cases "r = None \<or> text_or_skip st1 data = (r, st')")
    case True
    then show ?thesis
      using skip eq by (auto simp: data_def st1_def split: match_type.splits option.splits sum.splits if_splits)
  next
    case False
    then obtain t where r: "r = Some t" by auto
    have "st' = st1" "token_covers x X B t data" "token_enabled (pi_opts st) t"
      using False eq r m(2) len data
      by (auto simp: match_ok_def st1_def data_def LINE_BREAK_def range_slice_def
          split: match_type.splits option.splits sum.splits if_splits)
    then show ?thesis using r st1 rest data by (auto simp: hands_out_def)
  qed
qed

definition next_ok ::
  "externals \<Rightarrow> crypto \<Rightarrow> bech32 \<Rightarrow> parser_iter \<Rightarrow> token option \<Rightarrow> parser_iter \<Rightarrow> bool" where
  "next_ok x X B st r st' \<longleftrightarrow>
     (case r of
        Some t \<Rightarrow> hands_out x X B (pi_opts st) (remaining st) t (remaining st') \<and> iter_ok st' \<and>
          pi_opts st' = pi_opts st
      | None \<Rightarrow> po_text (pi_opts st) \<longrightarrow> remaining st = [])"

text \<open>A step that hands out text.\<close>

lemma handle_str_next_ok:
  assumes "(let (t, st) = handle_str_as_text st0 m in (Some t, st)) = (r, st')"
    and "m \<noteq> []" "po_text (pi_opts st)" "remaining st = m @ remaining st0" "pi_opts st0 = pi_opts st"
    and "iter_ok st0" "pi_pending_token st0 = None" "pi_pending_str_match st0 = None"
  shows "next_ok x X B st r st'"
proof -
  obtain t where t: "handle_str_as_text st0 m = (t, st')" and r: "r = Some t"
    using assms(1) by (auto split: prod.splits)
  show ?thesis
    using handle_str_hands_out [OF t assms(2) _ assms(7,8), of x X B] handle_str_frame [OF t] assms(3-6) r
    by (simp add: next_ok_def)
qed

text \<open>A step that handles a match, when what follows on a match without a token is right.\<close>

lemma handle_match_next_ok:
  assumes m: "handle_match x X B st m = (r1, st1)" "match_ok (pi_opts st) (pi_text st) m"
    and st: "tm_end m = pi_pos st" "pi_pending_token st = None" "pi_pending_str_match st = None"
      "pi_pending_match st = None"
    and first: "remaining before = skipped @ drop (tm_start m) (pi_text st)" "pi_opts before = pi_opts st"
      "po_text (pi_opts st) \<longrightarrow> skipped = []"
    and step: "(case r1 of Some t \<Rightarrow> (Some t, st1) | None \<Rightarrow> parser_next x X B fe st1) = (r, st')"
    and rec: "r1 = None \<Longrightarrow> parser_next x X B fe st1 = (r, st') \<Longrightarrow> iter_ok st1 \<Longrightarrow> next_ok x X B st1 r st'"
  shows "next_ok x X B before r st'"
proof (cases r1)
  case (Some t)
  then show ?thesis
    using handle_match_hands_out [OF m st] handle_match_frame [OF m(1)] first step
      hands_out_skip [of x X B "pi_opts st" "drop (tm_start m) (pi_text st)" t "remaining st1" skipped]
    by (auto simp: next_ok_def)
next
  case None
  then have st1: "st1 = st\<lparr>pi_last_match_end := tm_end m\<rparr>" and disabled: "\<not> po_text (pi_opts st)"
    using handle_match_hands_out [OF m st] by auto
  have "remaining before = (skipped @ range_slice (tm_start m) (tm_end m) (pi_text st)) @ remaining st1"
    using first(1) st m(2) drop_split [of "tm_start m" "tm_end m" "pi_text st"]
    by (simp add: st1 remaining_def match_ok_def)
  moreover have "next_ok x X B st1 r st'"
    using None step st by (intro rec) (simp_all add: st1 iter_ok_def)
  ultimately show ?thesis
    using disabled first(2) by (auto simp: next_ok_def st1 intro!: hands_out_skip split: option.splits)
qed

lemma parser_next_ok:
  "parser_next x X B fe32 st = (r, st') \<Longrightarrow> iter_ok st \<Longrightarrow> next_ok x X B st r st'"
proof (induction x X B fe32 st rule: parser_next.induct)
  case (1 x X B fe32 st)
  note step = "1.prems"(1) [unfolded parser_next.simps [of x X B fe32 st]]
  note ok = "1.prems"(2)
  obtain r0 pos0 where search: "find_match fe32 (pi_opts st) (pi_text st) (pi_pos st) = (r0, pos0)"
    by fastforce
  consider (token) t where "pi_pending_token st = Some t"
    | (str) m where "pi_pending_token st = None" "pi_pending_str_match st = Some m"
    | (match) m where "pi_pending_token st = None" "pi_pending_str_match st = None"
        "pi_pending_match st = Some m"
    | (search) "pi_pending_token st = None" "pi_pending_str_match st = None" "pi_pending_match st = None"
    by (meson not_None_eq)
  then show ?case
  proof cases
    case token
    then have "t = TWhitespace" "po_text (pi_opts st)" "r = Some t" "st' = st\<lparr>pi_pending_token := None\<rparr>"
      using step ok by (auto simp: iter_ok_def)
    moreover from this have "remaining st = WHITESPACE @ remaining st'" "iter_ok st'"
      using token ok by (simp_all add: remaining_def iter_ok_def split: option.splits)
    ultimately show ?thesis
      by (auto simp: next_ok_def WHITESPACE_def intro!: hands_outI)
  next
    case (str m)
    then show ?thesis
      using step ok
      by (intro handle_str_next_ok [of "st\<lparr>pi_pending_str_match := None\<rparr>" m])
        (auto simp: remaining_def iter_ok_def split: option.splits)
  next
    case (match m)
    obtain r1 st1 where h: "handle_match x X B (st\<lparr>pi_pending_match := None\<rparr>) m = (r1, st1)"
      by fastforce
    have m: "match_ok (pi_opts st) (pi_text st) m" "tm_end m = pi_pos st"
      "remaining st = drop (tm_start m) (pi_text st)"
      using ok match by (simp_all add: iter_ok_def remaining_def)
    have after: "(case r1 of Some t \<Rightarrow> (Some t, st1) | None \<Rightarrow> parser_next x X B fe32 st1) = (r, st')"
      using step match h by simp
    show ?thesis
      by (rule handle_match_next_ok [where skipped = "[]", OF h _ _ _ _ _ _ _ _ after "1.IH"(2) [OF match h [symmetric]]])
        (use m match in simp_all)
  next
    case search
    show ?thesis
    proof (cases "fst (find_match fe32 (pi_opts st) (pi_text st) (pi_pos st))")
      case (Some m)
      then obtain pos where find: "find_match fe32 (pi_opts st) (pi_text st) (pi_pos st) = (Some m, pos)"
        by (metis prod.collapse)
      note found = find_match_ok [OF find] find_match_after [OF find]
      then have last: "pi_last_match_end st = pi_pos st" using ok search by (auto simp: iter_ok_def)
      define st0 where "st0 = st\<lparr>pi_pos := pos\<rparr>"
      define gap where "gap = range_slice (pi_last_match_end st) (tm_start m) (pi_text st)"
      have rest: "remaining st = gap @ drop (tm_start m) (pi_text st)"
        using search last found by (simp add: remaining_def gap_def drop_split [of "pi_pos st" "tm_start m"])
      show ?thesis
      proof (cases "po_text (pi_opts st0) \<and> tm_start m > pi_last_match_end st0")
        case True
        then have "gap \<noteq> []" using found by (simp add: gap_def st0_def range_slice_nonempty)
        with True show ?thesis
          using search find step found rest
          by (intro handle_str_next_ok [of "st0\<lparr>pi_pending_match := Some m\<rparr>" gap])
            (auto simp: st0_def gap_def iter_ok_def remaining_def)
      next
        case False
        obtain r1 st1 where h: "handle_match x X B st0 m = (r1, st1)" by fastforce
        have after: "(case r1 of Some t \<Rightarrow> (Some t, st1) | None \<Rightarrow> parser_next x X B fe32 st1) = (r, st')"
          using step search find False h by (auto simp: Let_def st0_def split: if_splits)
        show ?thesis
          by (rule handle_match_next_ok [where skipped = gap, OF h _ _ _ _ _ _ _ _ after
                "1.IH"(1) [OF search find [symmetric] refl st0_def False h [symmetric]]])
            (use search found rest last False in \<open>auto simp: st0_def gap_def range_slice_def\<close>)
      qed
    next
      case None
      then obtain pos where find: "find_match fe32 (pi_opts st) (pi_text st) (pi_pos st) = (None, pos)"
        by (metis prod.collapse)
      have pos: "length (pi_text st) \<le> pos" using find find_match_end by blast
      show ?thesis
      proof (cases "\<not> po_text (pi_opts st) \<or> length (pi_text st) \<le> pi_last_match_end st")
        case True
        then show ?thesis using search find step by (auto simp: next_ok_def remaining_def Let_def)
      next
        case False
        then show ?thesis
          using search find step pos
          by (intro handle_str_next_ok [of "st\<lparr>pi_pos := pos, pi_last_match_end := length (pi_text st)\<rparr>"
                "drop (pi_last_match_end st) (pi_text st)"])
            (auto simp: iter_ok_def remaining_def Let_def)
      qed
    qed
  qed
qed

lemma hands_out_shorter: "hands_out x X B opts before t after \<Longrightarrow> length after < length before"
  by (auto simp: hands_out_def)

text \<open>Pieces that stand in a text one after the other.\<close>

fun in_order :: "string list \<Rightarrow> string \<Rightarrow> bool" where
  "in_order [] s \<longleftrightarrow> True"
| "in_order (p # ps) s \<longleftrightarrow> (\<exists>skipped rest. s = skipped @ p @ rest \<and> in_order ps rest)"

lemma collect_tokens_ok:
  assumes "iter_ok st" "length (remaining st) < n"
  shows "\<exists>ts ps. collect_tokens x X B fe32 n st = Some ts \<and> list_all2 (token_covers x X B) ts ps \<and>
    [] \<notin> set ps \<and> in_order ps (remaining st) \<and> list_all (token_enabled (pi_opts st)) ts \<and>
    (po_text (pi_opts st) \<longrightarrow> concat ps = remaining st)"
  using assms
proof (induction n arbitrary: st)
  case 0
  then show ?case by simp
next
  case (Suc n)
  obtain r st' where step: "parser_next x X B fe32 st = (r, st')" by fastforce
  note ok = parser_next_ok [OF step Suc.prems(1)]
  show ?case
  proof (cases r)
    case None
    then show ?thesis
      using step ok by (intro exI [of _ "[]"]) (auto simp: next_ok_def)
  next
    case (Some t)
    then have out: "hands_out x X B (pi_opts st) (remaining st) t (remaining st')" "iter_ok st'"
      "pi_opts st' = pi_opts st" using ok by (simp_all add: next_ok_def)
    obtain ts ps where rest: "collect_tokens x X B fe32 n st' = Some ts"
      "list_all2 (token_covers x X B) ts ps" "[] \<notin> set ps" "in_order ps (remaining st')"
      "list_all (token_enabled (pi_opts st)) ts" "po_text (pi_opts st) \<longrightarrow> concat ps = remaining st'"
      using Suc.IH [OF out(2)] hands_out_shorter [OF out(1)] Suc.prems(2) out(3) by auto
    obtain skipped p where piece: "remaining st = skipped @ p @ remaining st'" "p \<noteq> []"
      "token_covers x X B t p" "token_enabled (pi_opts st) t" "po_text (pi_opts st) \<longrightarrow> skipped = []"
      using out(1) by (auto simp: hands_out_def)
    show ?thesis
      using Some step rest piece
      by (intro exI [of _ "t # ts"] exI [of _ "p # ps"]) auto
  qed
qed

text \<open>
  C20: Every text is turned into a list of tokens, and the tokens stand for pieces of the text that
  follow each other in it. No piece is empty, a URL and a \<open>nostr:\<close> URI are what the parsers of those
  make of their piece, a hashtag is its piece without the \<open>#\<close>, text is its piece, and only tokens of
  the kinds that the options enable are returned. When text is enabled the pieces are the whole
  text: no byte of it is lost, doubled or moved.
\<close>

theorem text_tokens_cover:
  "\<exists>ts ps. parse_text x X B fe32 opts s = Some ts \<and> list_all2 (token_covers x X B) ts ps \<and>
     [] \<notin> set ps \<and> in_order ps s \<and> list_all (token_enabled opts) ts \<and>
     (po_text opts \<longrightarrow> concat ps = s)"
proof -
  have "iter_ok (parser_iter_new s opts)" "remaining (parser_iter_new s opts) = s"
    by (simp_all add: parser_iter_new_def iter_ok_def remaining_def)
  then show ?thesis
    using collect_tokens_ok [of "parser_iter_new s opts" "length s + 1" x X B fe32]
    by (auto simp: parse_text_def parser_iter_new_def)
qed

theorem text_tokens_cover_witness:
  "\<exists>ts ps. parse_text ref_externals ref_crypto ref_bech32 (\<lambda>c. False) enable_all ''hi #x'' = Some ts \<and>
     list_all2 (token_covers ref_externals ref_crypto ref_bech32) ts ps \<and> [] \<notin> set ps \<and>
     list_all (token_enabled enable_all) ts \<and> concat ps = ''hi #x''"
  using text_tokens_cover [of ref_externals ref_crypto ref_bech32 "\<lambda>c. False" enable_all "''hi #x''"]
  by (auto simp: enable_all_def parser_options_new_def)

section \<open>Where the code and its comments differ\<close>

text \<open>A match of a URL never ends with a closing parenthesis, balanced or not: the trimming of
  punctuation before takes it away, and \<open>handle_parentheses_matching\<close> is never reached.\<close>

lemma trim_punctuation_last:
  "after < trim_punctuation s after e \<Longrightarrow>
   \<not> is_url_trailing_punctuation (byte_at s (trim_punctuation s after e - 1))"
  by (induction s after e rule: trim_punctuation.induct) (auto split: if_splits)

lemma url_parentheses_unreachable: "trim_url_end s start after e = trim_punctuation s after e"
  using trim_punctuation_last [of after s e]
  by (auto simp: trim_url_end_def Let_def is_url_trailing_punctuation_def)

lemma url_match_without_parenthesis:
  assumes "try_parse_url s pos = Some m"
  shows "s ! (tm_end m - 1) \<noteq> CHR '')''"
  using assms trim_punctuation_last
  by (fastforce simp: try_parse_url_def url_parentheses_unreachable Let_def byte_at_def
      is_url_trailing_punctuation_def split: option.splits if_splits)

text \<open>Of two spaces at the end of a text the first stays part of the text token.\<close>

lemma two_trailing_spaces:
  "handle_str_as_text st ''a  '' = (TText ''a '', st\<lparr>pi_pending_token := Some TWhitespace\<rparr>)"
  by (simp add: handle_str_Cons)

end
