(* ===== verification/Text_Options.thy ===== *)
theory Text_Options
  imports Text_Tokens
begin

text \<open>
  The option \<open>text\<close> of the parser of texts (nostr/src/parser.rs) only adds tokens: without it an
  iterator hands out the same URLs, hashtags and URIs. The iterator with the option is compared
  with one without it that stands at the same place.
\<close>

fun is_text_token :: "token \<Rightarrow> bool" where
  "is_text_token (TText s) \<longleftrightarrow> True"
| "is_text_token TLineBreak \<longleftrightarrow> True"
| "is_text_token TWhitespace \<longleftrightarrow> True"
| "is_text_token t \<longleftrightarrow> False"

section \<open>The search without line breaks\<close>

abbreviation without_text :: "parser_options \<Rightarrow> parser_options" where
  "without_text opts \<equiv> opts\<lparr>po_text := False\<rparr>"

lemma no_match_at_line_break:
  assumes "s ! pos = CHR 0x0A" "pos < length s"
  shows "match_at fe32 (without_text opts) s pos = None"
proof -
  have "get_range pos (pos + length SCHEME_WITH_COLON) s \<noteq> Some SCHEME_WITH_COLON"
    using assms by (simp add: get_range_Some range_slice_first SCHEME_WITH_COLON_def)
  then show ?thesis
    using assms
    by (auto simp: match_at_def try_parse_hashtag_def try_parse_nostr_uri_def try_parse_url_def
        find_post_url_scheme_position_def byte_at_def byte_of_def is_ascii_alphabetic_def is_ascii_uppercase_def
        is_ascii_lowercase_def Let_def
        split: option.splits if_splits)
qed

lemma match_at_without_text:
  assumes "pos < length s"
  shows "match_at fe32 (without_text opts) s pos =
    (case match_at fe32 opts s pos of
       None \<Rightarrow> None
     | Some m \<Rightarrow> if tm_type m = MLineBreak then None else Some m)"
proof (cases "s ! pos = CHR 0x0A \<and> po_text opts")
  case True
  then show ?thesis
    using no_match_at_line_break [of s pos fe32 opts] assms
    by (simp add: match_at_def try_parse_line_break_def)
next
  case False
  have "tm_type m \<noteq> MLineBreak" if "match_at fe32 (without_text opts) s pos = Some m" for m
    using match_at_ok [OF that assms] by (auto simp: match_ok_def)
  moreover have "match_at fe32 opts s pos = match_at fe32 (without_text opts) s pos"
    using False by (auto simp: match_at_def try_parse_line_break_def)
  ultimately show ?thesis by (auto split: option.splits)
qed

lemma find_match_without_text:
  "find_match fe32 opts s pos = (r, p) \<Longrightarrow>
   case r of
     Some m \<Rightarrow> find_match fe32 (without_text opts) s pos = find_match fe32 (without_text opts) s (tm_start m)
   | None \<Rightarrow> fst (find_match fe32 (without_text opts) s pos) = None"
proof (induction fe32 opts s pos rule: find_match.induct)
  case (1 fe32 opts s pos)
  show ?case
  proof (cases "pos < length s \<and> match_at fe32 opts s pos = None")
    case True
    then have "find_match fe32 (without_text opts) s pos =
        find_match fe32 (without_text opts) s (pos + snd (next_char (drop pos s)))"
      by (simp add: find_match.simps [of fe32 "without_text opts" s pos] match_at_without_text)
    with True show ?thesis
      using 1 by (cases r) (simp_all add: find_match.simps [of fe32 opts s pos])
  next
    case False
    then consider (1) "\<not> pos < length s" | (2) m where "pos < length s" "match_at fe32 opts s pos = Some m" by auto
    then show ?thesis
    proof cases
      case 1
      then show ?thesis
        using "1.prems" find_match.simps [of fe32 opts s pos] find_match.simps [of fe32 "without_text opts" s pos]
        by (cases r) simp_all
    next
      case 2
      then show ?thesis
        using "1.prems" match_at_bounds [OF 2(2)]
        by (auto simp: find_match.simps [of fe32 opts s pos] split: option.splits)
    qed
  qed
qed

lemma find_match_token:
  assumes "match_at fe32 opts s pos = Some m" "pos < length s"
  shows "find_match fe32 (without_text opts) s pos =
    (if tm_type m = MLineBreak then find_match fe32 (without_text opts) s (tm_end m) else (Some m, tm_end m))"
proof (cases "tm_type m = MLineBreak")
  case True
  have "s ! pos = CHR 0x0A" "tm_end m = pos + 1" "po_text opts"
    using match_at_ok [OF assms] match_at_bounds [OF assms(1)] True by (auto simp: match_ok_def)
  moreover from this have "snd (next_char (drop pos s)) = 1"
    using assms(2) by (simp add: next_char_def bytes_of_def utf8_step_def utf8_width_def Let_def hd_drop_conv_nth Cons_nth_drop_Suc [symmetric])
  ultimately show ?thesis
    using assms True
    by (simp add: find_match.simps [of fe32 "without_text opts" s pos] match_at_without_text)
next
  case False
  then show ?thesis
    using assms by (simp add: find_match.simps [of fe32 "without_text opts" s pos] match_at_without_text)
qed

section \<open>The iterator without text\<close>

text \<open>The token that a match becomes, and the iterator without text at a place of the text.\<close>

definition match_token :: "externals \<Rightarrow> crypto \<Rightarrow> bech32 \<Rightarrow> string \<Rightarrow> text_match \<Rightarrow> token option" where
  "match_token x X B s m =
     (let data = range_slice (tm_start m) (tm_end m) s
      in case tm_type m of
           MUrl \<Rightarrow> map_option TUrl (url_parse x data)
         | MNostrUri \<Rightarrow> (case nip21_parse x X B data of Inr uri \<Rightarrow> Some (TNostr uri) | Inl e \<Rightarrow> None)
         | MHashtag \<Rightarrow> if 1 < length data then Some (THashtag (drop 1 data)) else None
         | MLineBreak \<Rightarrow> None)"

definition resting_at :: "parser_options \<Rightarrow> string \<Rightarrow> nat \<Rightarrow> parser_iter" where
  "resting_at opts s q =
     \<lparr>pi_text = s, pi_opts = without_text opts, pi_pos = q, pi_pending_match = None,
      pi_pending_str_match = None, pi_pending_token = None, pi_last_match_end = q\<rparr>"

lemma resting_simps [simp]:
  "pi_text (resting_at opts s q) = s"
  "pi_opts (resting_at opts s q) = without_text opts"
  "pi_pos (resting_at opts s q) = q"
  "pi_pending_match (resting_at opts s q) = None"
  "pi_pending_str_match (resting_at opts s q) = None"
  "pi_pending_token (resting_at opts s q) = None"
  "pi_last_match_end (resting_at opts s q) = q"
  by (simp_all add: resting_at_def)

lemma match_token_kind: "match_token x X B s m = Some t \<Longrightarrow> \<not> is_text_token t"
  by (auto simp: match_token_def Let_def split: match_type.splits sum.splits if_splits)

lemma handle_match_disabled:
  assumes "\<not> po_text (pi_opts st)" "tm_type m \<noteq> MLineBreak"
  shows "handle_match x X B st m = (match_token x X B (pi_text st) m, st\<lparr>pi_last_match_end := tm_end m\<rparr>)"
  using assms
  by (auto simp: handle_match_def match_token_def text_or_skip_def Let_def
      split: match_type.splits sum.splits option.splits)

lemma handle_str_is_text: "handle_str_as_text st m = (t, st') \<Longrightarrow> is_text_token t"
  by (auto simp: handle_str_as_text_def split: if_splits)

lemma handle_match_enabled:
  assumes "handle_match x X B st m = (r, st')" "po_text (pi_opts st)"
  obtains t where "r = Some t"
    "case match_token x X B (pi_text st) m of None \<Rightarrow> is_text_token t | Some t0 \<Rightarrow> t = t0"
  using assms
  by (auto simp: handle_match_def match_token_def text_or_skip_def Let_def dest: handle_str_is_text
      split: match_type.splits sum.splits option.splits if_splits prod.splits)

lemma find_match_type:
  "find_match fe32 (without_text opts) s q = (Some m, p) \<Longrightarrow> tm_type m \<noteq> MLineBreak \<and> p = tm_end m"
  using find_match_ok [of fe32 "without_text opts" s q m p] by (auto simp: match_ok_def)

lemma resting_next:
  "parser_next x X B fe32 (resting_at opts s q) =
     (case find_match fe32 (without_text opts) s q of
        (Some m, p) \<Rightarrow>
          (case match_token x X B s m of
             Some t \<Rightarrow> (Some t, resting_at opts s (tm_end m))
           | None \<Rightarrow> parser_next x X B fe32 (resting_at opts s (tm_end m)))
      | (None, p) \<Rightarrow> (None, (resting_at opts s q)\<lparr>pi_pos := p\<rparr>))"
proof (cases "find_match fe32 (without_text opts) s q")
  case (Pair r p)
  show ?thesis
  proof (cases r)
    case None
    then show ?thesis
      using Pair by (simp add: parser_next.simps [of x X B fe32 "resting_at opts s q"])
  next
    case (Some m)
    then have "find_match fe32 (without_text opts) s q = (Some m, p)" using Pair by simp
    moreover note find_match_type [OF this]
    moreover from this have "handle_match x X B ((resting_at opts s q)\<lparr>pi_pos := p\<rparr>) m =
        (match_token x X B s m, resting_at opts s (tm_end m))"
      by (subst handle_match_disabled) (simp_all add: resting_at_def)
    ultimately show ?thesis
      by (simp add: parser_next.simps [of x X B fe32 "resting_at opts s q"] Let_def split: option.splits)
  qed
qed

text \<open>Iterators of which the next tokens are the same.\<close>

definition same_next ::
  "externals \<Rightarrow> crypto \<Rightarrow> bech32 \<Rightarrow> (nat \<Rightarrow> bool) \<Rightarrow> parser_iter \<Rightarrow> parser_iter \<Rightarrow> bool" where
  "same_next x X B fe32 a b \<longleftrightarrow>
     parser_next x X B fe32 a = parser_next x X B fe32 b \<or>
     fst (parser_next x X B fe32 a) = None \<and> fst (parser_next x X B fe32 b) = None"

lemma same_next_find:
  assumes "find_match fe32 (without_text opts) s a = find_match fe32 (without_text opts) s b"
  shows "same_next x X B fe32 (resting_at opts s a) (resting_at opts s b)"
proof (cases "find_match fe32 (without_text opts) s b")
  case (Pair r p)
  then show ?thesis
    using assms by (cases r) (simp_all add: same_next_def resting_next)
qed

text \<open>What a step with text means for the iterator without: it stays for a token of text, and hands
  out any other.\<close>

definition place :: "parser_iter \<Rightarrow> nat" where
  "place st = (case pi_pending_match st of None \<Rightarrow> pi_pos st | Some m \<Rightarrow> tm_start m)"

definition resting :: "parser_iter \<Rightarrow> parser_iter" where
  "resting st = resting_at (pi_opts st) (pi_text st) (place st)"

lemma resting_cong:
  "pi_text a = pi_text b \<Longrightarrow> pi_opts a = pi_opts b \<Longrightarrow> pi_pos a = pi_pos b \<Longrightarrow>
   pi_pending_match a = pi_pending_match b \<Longrightarrow> resting a = resting b"
  by (cases "pi_pending_match b") (simp_all add: resting_def place_def)

definition follows ::
  "externals \<Rightarrow> crypto \<Rightarrow> bech32 \<Rightarrow> (nat \<Rightarrow> bool) \<Rightarrow> parser_iter \<Rightarrow> token \<Rightarrow> parser_iter \<Rightarrow> bool" where
  "follows x X B fe32 a t b \<longleftrightarrow>
     (if is_text_token t then same_next x X B fe32 a b else parser_next x X B fe32 a = (Some t, b))"

lemma handle_match_follows:
  assumes h: "handle_match x X B st m = (r, st')" "po_text (pi_opts st)"
    and m: "match_at fe32 (pi_opts st) (pi_text st) (tm_start m) = Some m" "tm_start m < length (pi_text st)"
    and st: "pi_pos st = tm_end m" "pi_pending_match st = None"
  shows "\<exists>t. r = Some t \<and> follows x X B fe32 (resting_at (pi_opts st) (pi_text st) (tm_start m)) t (resting st')"
proof -
  note frame = handle_match_frame [OF h(1)]
  have st': "resting st' = resting_at (pi_opts st) (pi_text st) (tm_end m)"
    using frame st by (simp add: resting_def place_def)
  obtain t where t: "r = Some t"
    "case match_token x X B (pi_text st) m of None \<Rightarrow> is_text_token t | Some t0 \<Rightarrow> t = t0"
    using handle_match_enabled [OF h] .
  note find = find_match_token [OF m]
  show ?thesis
  proof (cases "tm_type m = MLineBreak")
    case True
    then have "match_token x X B (pi_text st) m = None" by (simp add: match_token_def)
    then show ?thesis
      using True find t st' by (simp add: follows_def same_next_find)
  next
    case False
    then show ?thesis
      using find t st' match_token_kind [of x X B "pi_text st" m]
      by (auto simp: follows_def same_next_def resting_next [of x X B fe32 "pi_opts st" "pi_text st" "tm_start m"]
          split: option.splits)
  qed
qed

section \<open>The same tokens without text\<close>

definition pending_found :: "(nat \<Rightarrow> bool) \<Rightarrow> parser_iter \<Rightarrow> bool" where
  "pending_found fe32 st \<longleftrightarrow>
     (\<forall>m. pi_pending_match st = Some m \<longrightarrow> match_at fe32 (pi_opts st) (pi_text st) (tm_start m) = Some m)"

lemma handle_str_follows:
  assumes "(let (t, st) = handle_str_as_text st0 m in (Some t, st)) = (r, st')"
    and "same_next x X B fe32 (resting st) (resting st0)" "pending_found fe32 st0"
  shows "\<exists>t. r = Some t \<and> follows x X B fe32 (resting st) t (resting st') \<and> pending_found fe32 st' \<and>
    pi_text st' = pi_text st0"
proof -
  obtain t where t: "handle_str_as_text st0 m = (t, st')" and r: "r = Some t"
    using assms(1) by (auto split: prod.splits)
  have "resting st' = resting st0" using handle_str_frame [OF t] by (intro resting_cong) simp_all
  then show ?thesis
    using assms(2,3) r handle_str_is_text [OF t] handle_str_frame [OF t]
    by (simp add: follows_def pending_found_def)
qed

lemma parser_next_follows:
  assumes "parser_next x X B fe32 st = (r, st')" "iter_ok st" "pending_found fe32 st" "po_text (pi_opts st)"
  shows "case r of
      Some t \<Rightarrow> follows x X B fe32 (resting st) t (resting st') \<and> pending_found fe32 st' \<and> pi_text st' = pi_text st
    | None \<Rightarrow> fst (parser_next x X B fe32 (resting st)) = None"
proof -
  note step = assms(1) [unfolded parser_next.simps [of x X B fe32 st]]
  note ok = assms(2)
  consider (token) t where "pi_pending_token st = Some t"
    | (str) m where "pi_pending_token st = None" "pi_pending_str_match st = Some m"
    | (match) m where "pi_pending_token st = None" "pi_pending_str_match st = None"
        "pi_pending_match st = Some m"
    | (search) "pi_pending_token st = None" "pi_pending_str_match st = None" "pi_pending_match st = None"
    by (meson not_None_eq)
  then show ?thesis
  proof cases
    case token
    then have "t = TWhitespace" "r = Some t" "st' = st\<lparr>pi_pending_token := None\<rparr>"
      using step ok by (auto simp: iter_ok_def)
    moreover from this have "resting st' = resting st" by (intro resting_cong) simp_all
    ultimately show ?thesis
      using assms(3) by (simp add: follows_def same_next_def pending_found_def)
  next
    case (str m)
    moreover have "resting (st\<lparr>pi_pending_str_match := None\<rparr>) = resting st" by (rule resting_cong) simp_all
    ultimately show ?thesis
      using step assms(3) handle_str_follows [of "st\<lparr>pi_pending_str_match := None\<rparr>" m r st' x X B fe32 st]
      by (auto simp: same_next_def pending_found_def)
  next
    case (match m)
    define st0 where "st0 = st\<lparr>pi_pending_match := None\<rparr>"
    obtain r1 st1 where h: "handle_match x X B st0 m = (r1, st1)" by fastforce
    have m: "match_at fe32 (pi_opts st) (pi_text st) (tm_start m) = Some m"
      "tm_start m < length (pi_text st)" "tm_end m = pi_pos st"
      using match ok assms(3) by (auto simp: pending_found_def iter_ok_def match_ok_def)
    then show ?thesis
      using handle_match_follows [OF h, of fe32] handle_match_frame [OF h] h match step assms(4)
      by (auto simp: st0_def resting_def [of st] place_def [of st] pending_found_def)
  next
    case search
    have here: "resting st = resting_at (pi_opts st) (pi_text st) (pi_pos st)"
      using search by (simp add: resting_def place_def)
    show ?thesis
    proof (cases "fst (find_match fe32 (pi_opts st) (pi_text st) (pi_pos st))")
      case (Some m)
      then obtain pos where find: "find_match fe32 (pi_opts st) (pi_text st) (pi_pos st) = (Some m, pos)"
        by (metis prod.collapse)
      note found = find_match_ok [OF find] find_match_after [OF find]
      then have last: "pi_last_match_end st = pi_pos st" using ok search by (auto simp: iter_ok_def)
      define st0 where "st0 = st\<lparr>pi_pos := pos\<rparr>"
      have same: "same_next x X B fe32 (resting st) (resting_at (pi_opts st) (pi_text st) (tm_start m))"
        unfolding here by (rule same_next_find) (use find_match_without_text [OF find] in simp)
      show ?thesis
      proof (cases "po_text (pi_opts st0) \<and> tm_start m > pi_last_match_end st0")
        case True
        have "resting (st0\<lparr>pi_pending_match := Some m\<rparr>) = resting_at (pi_opts st) (pi_text st) (tm_start m)"
          by (simp add: resting_def place_def st0_def)
        then show ?thesis
          using True search find step found same
            handle_str_follows [of "st0\<lparr>pi_pending_match := Some m\<rparr>"
              "range_slice (pi_last_match_end st) (tm_start m) (pi_text st)" r st' x X B fe32 st]
          by (auto simp: st0_def pending_found_def)
      next
        case False
        obtain r1 st1 where h: "handle_match x X B st0 m = (r1, st1)" by fastforce
        have "tm_start m = pi_pos st" using False last found assms(4) by (simp add: st0_def)
        then show ?thesis
          using handle_match_follows [OF h, of fe32] handle_match_frame [OF h] h search step found find False
            assms(4) here
          by (auto simp: st0_def pending_found_def)
      qed
    next
      case None
      then obtain pos where find: "find_match fe32 (pi_opts st) (pi_text st) (pi_pos st) = (None, pos)"
        by (metis prod.collapse)
      have none: "fst (parser_next x X B fe32 (resting st)) = None"
        using find_match_without_text [OF find]
        by (cases "find_match fe32 (without_text (pi_opts st)) (pi_text st) (pi_pos st)")
          (simp add: here resting_next)
      define st0 where "st0 = st\<lparr>pi_pos := pos, pi_last_match_end := length (pi_text st)\<rparr>"
      have "find_match fe32 (without_text (pi_opts st)) (pi_text st) pos = (None, pos)"
        using find_match_end [OF find] by (simp add: find_match.simps [of _ _ _ pos])
      then have "fst (parser_next x X B fe32 (resting st0)) = None"
        using search by (simp add: resting_next resting_def place_def st0_def)
      then show ?thesis
        using search find step none assms(3,4)
          handle_str_follows [of st0 "drop (pi_last_match_end st) (pi_text st)" r st' x X B fe32 st]
        by (auto simp: same_next_def pending_found_def st0_def Let_def split: if_splits)
    qed
  qed
qed

lemma same_next_collect:
  "same_next x X B fe32 a b \<Longrightarrow> collect_tokens x X B fe32 n a = collect_tokens x X B fe32 n b"
  by (cases n; cases "parser_next x X B fe32 a"; cases "parser_next x X B fe32 b") (auto simp: same_next_def)

lemma collect_without_text:
  "collect_tokens x X B fe32 n st = Some ts \<Longrightarrow> iter_ok st \<Longrightarrow> pending_found fe32 st \<Longrightarrow>
   po_text (pi_opts st) \<Longrightarrow> collect_tokens x X B fe32 k (resting st) = Some ts' \<Longrightarrow>
   ts' = filter (\<lambda>t. \<not> is_text_token t) ts"
proof (induction n arbitrary: st ts k ts')
  case 0
  then show ?case by simp
next
  case (Suc n)
  obtain r st' where step: "parser_next x X B fe32 st = (r, st')" by fastforce
  note ok = parser_next_ok [OF step Suc.prems(2)]
  note after = parser_next_follows [OF step Suc.prems(2-4)]
  obtain l where k: "k = Suc l" using Suc.prems(5) by (cases k) auto
  show ?case
  proof (cases r)
    case None
    then have "fst (parser_next x X B fe32 (resting st)) = None" using after by simp
    with None show ?thesis
      using Suc.prems(1,5) step k by (cases "parser_next x X B fe32 (resting st)") auto
  next
    case (Some t)
    then obtain ts1 where ts: "ts = t # ts1" "collect_tokens x X B fe32 n st' = Some ts1"
      using Suc.prems(1) step by auto
    have st': "iter_ok st'" "pi_opts st' = pi_opts st" "pending_found fe32 st'"
      "follows x X B fe32 (resting st) t (resting st')"
      using ok after Some by (simp_all add: next_ok_def)
    note rest = Suc.IH [OF ts(2) st'(1,3) Suc.prems(4) [folded st'(2)]]
    show ?thesis
    proof (cases "is_text_token t")
      case True
      then show ?thesis
        using rest [of k] same_next_collect [of x X B fe32 "resting st" "resting st'" k] Suc.prems(5) st'(4) ts(1)
        by (simp add: follows_def)
    next
      case False
      then show ?thesis
        using rest [of l] Suc.prems(5) st'(4) ts(1) k by (auto simp: follows_def)
    qed
  qed
qed

text \<open>
  C21: Turning off the option \<open>text\<close> removes the tokens of text, line breaks and white space from
  what the parser returns and changes nothing else: the URLs, hashtags and \<open>nostr:\<close> URIs are the same,
  in the same order, though the search then passes over line breaks and an invalid match is skipped
  where it would be text.
\<close>

theorem text_option_only_filters:
  "parse_text x X B fe32 (opts\<lparr>po_text := False\<rparr>) s =
     map_option (filter (\<lambda>t. \<not> is_text_token t)) (parse_text x X B fe32 (opts\<lparr>po_text := True\<rparr>) s)"
proof -
  define on where "on = opts\<lparr>po_text := True\<rparr>"
  define off where "off = opts\<lparr>po_text := False\<rparr>"
  have start: "iter_ok (parser_iter_new s on)" "pending_found fe32 (parser_iter_new s on)"
    "parser_iter_new s off = resting (parser_iter_new s on)"
    by (simp_all add: parser_iter_new_def iter_ok_def pending_found_def resting_def place_def resting_at_def
        on_def off_def)
  obtain ts where ts: "parse_text x X B fe32 on s = Some ts"
    using collect_tokens_ok [OF start(1)] by (fastforce simp: parse_text_def remaining_def parser_iter_new_def)
  have "iter_ok (parser_iter_new s off)" "remaining (parser_iter_new s off) = s"
    by (simp_all add: parser_iter_new_def iter_ok_def remaining_def)
  then obtain ts' where ts': "parse_text x X B fe32 off s = Some ts'"
    using collect_tokens_ok [of "parser_iter_new s off" "length s + 1"] by (fastforce simp: parse_text_def)
  have "ts' = filter (\<lambda>t. \<not> is_text_token t) ts"
    by (rule collect_without_text [OF ts [unfolded parse_text_def] start(1,2) _
          ts' [unfolded parse_text_def start(3)]])
      (simp add: parser_iter_new_def on_def)
  with ts ts' show ?thesis by (simp add: on_def off_def)
qed

end
