(* ===== verification/Spec2Isabelle.thy ===== *)
theory Spec2Isabelle
  imports Memory_Deletion Memory_Versions Relay_Answers Gossip_Progress Gossip_Locking Client_Outcomes
    Lmdb_Batches Text_Options
begin

text \<open>
  A model of rust-nostr: the protocol library (nostr/), the event databases (database/), the
  gossip stores (gossip/) and the client and local relay of the SDK (nostr-sdk/).

  \<^bold>\<open>The parts and how they interact.\<close> Events carry tags; filters select events; relays and clients
  exchange messages that carry events and filters. A local relay answers messages from an event
  store. A client keeps one connection per relay, learns from relay lists which relays serve
  which keys, and sends each relay only the part of a filter that concerns it.

  \<^item> \<open>Nostr_Prelude\<close>: machine integers, results, Rust's string functions, ordered sets as
    sorted lists. \<open>Nostr_Maps\<close>: ordered maps and association lists.
  \<^item> \<open>Nostr_Kind\<close>, \<open>Nostr_Keys\<close>, \<open>Nostr_Address\<close>, \<open>Nostr_Coordinate\<close>, \<open>Nostr_Pow\<close>
    (nostr/src/event/kind.rs, types, key, filter/single_letter.rs, nips/nip01, nips/nip13): kinds
    and their classes, identifiers, relay URLs, local addresses, coordinates and the
    proof-of-work check. \<open>Nostr_Reference\<close> has concrete values for the witnesses.
  \<^item> \<open>Nostr_Tags\<close>, \<open>Nostr_Event\<close>, \<open>Nostr_Relay_Lists\<close> (nostr/src/event, nips): tags, tag lists, the
    typed tags of several NIPs as instances of the locale \<open>tag_codec\<close>, events and their
    verification, the relay lists of NIP-17 and NIP-65.
  \<^item> \<open>Nostr_Bytes\<close>, \<open>Nostr_Secrets\<close> (nostr/src/key/secret_key.rs, nostr/src/util): big-endian numbers
    and UTF-8, secret keys, shared keys and HKDF. \<open>Nip44_Payload\<close>, \<open>Nip44_Messages\<close>
    (nostr/src/nips/nip44): padding, layout, encryption and decryption. \<open>Nip19_Entities\<close>,
    \<open>Nip19_Roundtrip\<close> (nostr/src/nips/nip19.rs, nip21.rs): Bech32 entities and \<open>nostr:\<close> URIs.
  \<^item> \<open>Text_Parser\<close>, \<open>Text_Tokens\<close>, \<open>Text_Options\<close> (nostr/src/parser.rs): the search for matches in
    a text and the iterator over its tokens. The fuel of \<open>parse_text\<close>, the length of the text and one,
    is enough because a token takes at least one byte; the tokens cover the text, and the option for
    text only adds tokens.
  \<^item> \<open>Nostr_Filter\<close> (nostr/src/filter/mod.rs): builders and \<open>match_event\<close>.
  \<^item> \<open>Memory_Store\<close> and \<open>Memory_Invariant\<close>, \<open>Memory_Indexing\<close>, \<open>Memory_Contract\<close>,
    \<open>Memory_Properties\<close>, \<open>Memory_Deletion\<close>, \<open>Memory_Versions\<close> (database/nostr-memory): the
    in-memory store, its invariant, the database trait as the locale \<open>nostr_database\<close>, the
    queries against a scan of all events, deletions and replacement.
  \<^item> \<open>Lmdb_Keys\<close>, \<open>Lmdb_Events\<close>, \<open>Lmdb_Store\<close> (database/nostr-lmdb/src/store): the index keys as byte
    strings, whose order is the order of the times; events and filters as they are stored; every
    operation inside a transaction and the migrations. \<open>Lmdb_Tables\<close>, \<open>Lmdb_Invariant\<close>: what the
    tables have for a set of events, and every step of storing and removing. \<open>Lmdb_Query\<close>,
    \<open>Lmdb_Scan\<close>: the nine access patterns. \<open>Lmdb_Saving\<close>, \<open>Lmdb_Specification\<close>, \<open>Lmdb_Recovery\<close>:
    saving, wiping and reindexing against a set of events and the marks of deletions.
    \<open>Lmdb_Ingester\<close> (ingester.rs, mod.rs): batches. \<open>Lmdb_Reference\<close>: ordered maps and a codec
    of byte lists as an instance of the parameters. \<open>Lmdb_Properties\<close>, \<open>Lmdb_Batches\<close>.
  \<^item> \<open>Relay_Messages\<close>, \<open>Relay_Session\<close>, \<open>Local_Relay\<close>, \<open>Relay_Invariant\<close>, \<open>Relay_Answers\<close>
    (nostr/src/message, nostr-sdk/src/local_relay): the messages over an abstract type of JSON
    values, rate limits with single precision arithmetic, every handler of a connection and its
    loop, the invariant of the reachable states and what is answered.
  \<^item> \<open>Gossip_Store\<close>, \<open>Gossip_Facts\<close>, \<open>Gossip_Contract\<close> (gossip/): flags and the memory store over
    an abstract LRU cache, the trait as a record with its laws as locales.
  \<^item> \<open>Gossip_Resolver\<close>, \<open>Gossip_Routing\<close>, \<open>Gossip_Safety\<close>: breaking a filter down into one filter
    per relay. \<open>Gossip_Semaphore\<close>, \<open>Gossip_Locking\<close>: the locks of concurrent updates as a
    transition system. \<open>Gossip_Updater\<close>, \<open>Gossip_Freshness\<close>, \<open>Gossip_Progress\<close>: updating the
    lists, over a network and a database that are parameters (all
    nostr-sdk/src/client/gossip).
  \<^item> \<open>Client_Status\<close> (nostr-sdk/src/relay): statuses, capabilities, limits and statistics of a
    connection of the client. \<open>Client_Connection\<close>, \<open>Client_Attempts\<close>, \<open>Client_Liveness\<close>: the
    connection task and its callers as a transition system, its invariant and its progress.
    \<open>Client_Subscriptions\<close>, \<open>Client_Restoring\<close>: subscriptions, the queue of messages, the
    restoration after a reconnection. \<open>Client_Messages\<close>, \<open>Client_Delivery\<close>: the handling of
    what a relay sends, with the cache of verified events (inner.rs, shared.rs).
    \<open>Client_Acquisition\<close>: acquisitions with budgets (relay/api/acquire_events.rs).
    \<open>Client_Requests\<close>, \<open>Client_Outcomes\<close>: the auto-closing handler, streaming, fetching, sending
    and counting (inner.rs, relay/api), and what their results mean.

  \<^bold>\<open>What is abstract.\<close> Hashing, signatures, the curve and the stream cipher, Base64 and Bech32, the URL
  parser, JSON, LRU caches, the capped set of the crate \<open>btreecap\<close>, negentropy, the tables and
  transactions of LMDB, FlatBuffers, the order of a hash set and the network are arguments of the
  definitions; what is relied on is a named predicate (\<open>json_codec_ok\<close>, \<open>lru_ok\<close>, \<open>cap_ok\<close>, \<open>kv_ok\<close>,
  \<open>flatbuffers_ok\<close>, \<open>crypto_ok\<close>, \<open>base64_ok\<close>, \<open>bech32_ok\<close> and the like), and each property that has
  one is applied at a concrete instance. The clock and random values are arguments of a step.

  \<^bold>\<open>Bounds.\<close> No definition uses fuel: loops are structural recursion over the lists they visit or
  have a termination proof. Numbers are kept at their width where the code depends on it
  (\<open>kind\<close>, flags, capabilities, token buckets, saturating and wrapping counters).

  \<^bold>\<open>Not modelled.\<close> The SQLite and nostrdb stores, the signers, wallet and remote signing clients, the
  HTTP client of Blossom and the transports are calls of external engines and of input and
  output, as are opening an LMDB environment and handing operations to its thread; NIP-04, NIP-49
  and key derivation are external cryptography. The event builder and the codecs of the remaining
  NIPs only rearrange data, and the pool hands calls on to its relays. The locks around stores that are held for a whole
  operation make an operation one step of the model.
\<close>

end
